(* ===== verification/Kvs_Prelude.thy ===== *)
theory Kvs_Prelude
  imports Main "HOL-Library.Word"
begin

text \<open>
  What every component of the development shares: the machine types of the C code, the
  status codes of the two error conventions used in the repository (the \<open>STATUS\<close> values of
  \<open>components/kvs_utils/include/error.h\<close> and the \<open>esp_err_t\<close> values of ESP-IDF), the
  allocator with its ledger of live blocks, C strings and the bounded copies and comparisons
  of them, the loop that closes a gap in an array, and the locale of in-place compaction loops.
\<close>

unbundle bit_operations_syntax

section \<open>Machine types\<close>

type_synonym uint8 = "8 word"
type_synonym uint32 = "32 word"
type_synonym uint64 = "64 word"

text \<open>
  A \<open>STATUS\<close> of the KVS utilities is a 32-bit code; callbacks may return any of them, so the
  type is the word itself and the codes the modelled code returns are named.
\<close>

type_synonym STATUS = uint32

named_theorems status_defs \<open>the numeric values of the status codes\<close>

definition STATUS_SUCCESS :: STATUS where [status_defs]: "STATUS_SUCCESS = 0"
definition STATUS_NULL_ARG :: STATUS where [status_defs]: "STATUS_NULL_ARG = 0x00000001"
definition STATUS_INVALID_ARG :: STATUS where [status_defs]: "STATUS_INVALID_ARG = 0x00000002"
definition STATUS_INVALID_ARG_LEN :: STATUS where [status_defs]: "STATUS_INVALID_ARG_LEN = 0x00000003"
definition STATUS_NOT_ENOUGH_MEMORY :: STATUS where [status_defs]: "STATUS_NOT_ENOUGH_MEMORY = 0x00000004"
definition STATUS_BUFFER_TOO_SMALL :: STATUS where [status_defs]: "STATUS_BUFFER_TOO_SMALL = 0x00000005"
definition STATUS_INTERNAL_ERROR :: STATUS where [status_defs]: "STATUS_INTERNAL_ERROR = 0x0000000C"
definition STATUS_INVALID_OPERATION :: STATUS where [status_defs]: "STATUS_INVALID_OPERATION = 0x0000000D"
definition STATUS_NOT_IMPLEMENTED :: STATUS where [status_defs]: "STATUS_NOT_IMPLEMENTED = 0x0000000E"
definition STATUS_NOT_FOUND :: STATUS where [status_defs]: "STATUS_NOT_FOUND = 0x00000010"
definition STATUS_INVALID_BASE64_ENCODE :: STATUS where [status_defs]: "STATUS_INVALID_BASE64_ENCODE = 0x40000001"
definition STATUS_EXPONENTIAL_BACKOFF_INVALID_STATE :: STATUS where [status_defs]: "STATUS_EXPONENTIAL_BACKOFF_INVALID_STATE = 0x4000002a"
definition STATUS_EXPONENTIAL_BACKOFF_RETRIES_EXHAUSTED :: STATUS where [status_defs]: "STATUS_EXPONENTIAL_BACKOFF_RETRIES_EXHAUSTED = 0x4000002b"
definition STATUS_INVALID_STREAM_STATE :: STATUS where [status_defs]: "STATUS_INVALID_STREAM_STATE = 0x5200000e"
definition STATUS_STATE_MACHINE_STATE_NOT_FOUND :: STATUS where [status_defs]: "STATUS_STATE_MACHINE_STATE_NOT_FOUND = 0x52000056"
definition STATUS_STATE_MACHINE_NAME_LEN_INVALID :: STATUS where [status_defs]: "STATUS_STATE_MACHINE_NAME_LEN_INVALID = 0x5200009a"
definition STATUS_HASH_KEY_NOT_PRESENT :: STATUS where [status_defs]: "STATUS_HASH_KEY_NOT_PRESENT = 0x40100001"
definition STATUS_HASH_KEY_ALREADY_PRESENT :: STATUS where [status_defs]: "STATUS_HASH_KEY_ALREADY_PRESENT = 0x40100002"
definition STATUS_HASH_ENTRY_ITERATION_ABORT :: STATUS where [status_defs]: "STATUS_HASH_ENTRY_ITERATION_ABORT = 0x40100003"

text \<open>The \<open>esp_err_t\<close> values the modelled code returns.\<close>

datatype esp_err =
    ESP_OK | ESP_FAIL | ESP_ERR_NO_MEM | ESP_ERR_INVALID_ARG | ESP_ERR_INVALID_STATE
  | ESP_ERR_NOT_FOUND | ESP_ERR_TIMEOUT | ESP_ERR_NOT_FINISHED | ESP_ERR_NOT_SUPPORTED

section \<open>The allocator\<close>

text \<open>
  \<open>calloc\<close> and its replacements may fail, so an allocation asks an oracle: \<open>grant h n\<close> says
  whether the \<open>n\<close>-th request succeeds. \<open>live\<close> is a ledger, raised by a granted request and
  lowered by \<open>free\<close>: code that leaks leaves it too high, code that frees twice too low.
\<close>

record heap =
  grant :: "nat \<Rightarrow> bool"
  requests :: nat
  live :: int

definition heap_calloc :: "heap \<Rightarrow> bool \<times> heap" where
  "heap_calloc h =
     (let ok = grant h (requests h)
      in (ok, h\<lparr>requests := Suc (requests h), live := live h + (if ok then 1 else 0)\<rparr>))"

definition heap_free :: "heap \<Rightarrow> heap" where
  "heap_free h = h\<lparr>live := live h - 1\<rparr>"

text \<open>\<open>free\<close> of a pointer that may be NULL.\<close>

definition heap_free_ptr :: "heap \<Rightarrow> 'a option \<Rightarrow> heap" where
  "heap_free_ptr h p = (case p of None \<Rightarrow> h | Some _ \<Rightarrow> heap_free h)"

definition always_grant :: heap where
  "always_grant = \<lparr>grant = (\<lambda>_. True), requests = 0, live = 0\<rparr>"

definition owned :: "'a option \<Rightarrow> int" where
  "owned p = (case p of None \<Rightarrow> 0 | Some _ \<Rightarrow> 1)"

lemma owned_simps [simp]: "owned None = 0" "owned (Some x) = 1"
  by (simp_all add: owned_def)

lemma heap_calloc_live:
  "heap_calloc h = (ok, h') \<Longrightarrow> live h' = live h + (if ok then 1 else 0)"
  by (auto simp: heap_calloc_def Let_def)

lemma live_heap_calloc [simp]: "live (snd (heap_calloc h)) = live h + (if fst (heap_calloc h) then 1 else 0)"
  by (simp add: heap_calloc_def Let_def)

lemma heap_free_live [simp]: "live (heap_free h) = live h - 1"
  by (simp add: heap_free_def)

lemma heap_free_ptr_live [simp]: "live (heap_free_ptr h p) = live h - owned p"
  by (cases p) (simp_all add: heap_free_ptr_def)

lemma heap_free_ptr_simps [simp]:
  "heap_free_ptr h None = h" "heap_free_ptr h (Some x) = heap_free h"
  by (simp_all add: heap_free_ptr_def)

section \<open>C strings\<close>

text \<open>
  A C string is the list of the characters before its NUL terminator; a \<open>char\<close> array that
  holds one is modelled by that list too. \<open>strncpy_term dst_len s\<close> is the pair of statements
  \<open>strncpy(dst, s, n - 1); dst[n - 1] = 0\<close> of the code and \<open>strncmp_eq a b n\<close> is
  \<open>strncmp(a, b, n) == 0\<close>.
\<close>

definition strncpy_term :: "nat \<Rightarrow> string \<Rightarrow> string" where
  "strncpy_term n s = take (n - 1) s"

definition strncmp_eq :: "string \<Rightarrow> string \<Rightarrow> nat \<Rightarrow> bool" where
  "strncmp_eq a b n \<longleftrightarrow> take n a = take n b"

lemma strncpy_term_length: "0 < n \<Longrightarrow> length (strncpy_term n s) < n"
  by (auto simp: strncpy_term_def)

lemma strncpy_term_id: "length s < n \<Longrightarrow> strncpy_term n s = s"
  by (simp add: strncpy_term_def)

lemma strncmp_eq_refl [simp]: "strncmp_eq a a n"
  by (simp add: strncmp_eq_def)

lemma strncmp_eq_short:
  "length a \<le> n \<Longrightarrow> length b \<le> n \<Longrightarrow> strncmp_eq a b n \<longleftrightarrow> a = b"
  by (simp add: strncmp_eq_def)

section \<open>Array loops\<close>

text \<open>
  \<open>shift_down i n xs\<close> is the loop \<open>for (j = i; j < n; j++) xs[j] = xs[j + 1]\<close> that closes the
  gap left by element \<open>i\<close>. With \<open>n + 1\<close> elements in use it removes exactly that element.
\<close>

function shift_down :: "nat \<Rightarrow> nat \<Rightarrow> 'a list \<Rightarrow> 'a list" where
  "shift_down i n xs = (if i < n then shift_down (Suc i) n (xs[i := xs ! Suc i]) else xs)"
  by pat_completeness auto
termination
  by (relation "measure (\<lambda>(i, n, xs). n - i)") auto

declare shift_down.simps [simp del]

lemma shift_down_length [simp]: "length (shift_down i n xs) = length xs"
  by (induction i n xs rule: shift_down.induct) (subst shift_down.simps, simp)

lemma shift_down_nth:
  "n < length xs \<Longrightarrow> j < length xs \<Longrightarrow>
   shift_down i n xs ! j = (if i \<le> j \<and> j < n then xs ! Suc j else xs ! j)"
proof (induction i n xs arbitrary: j rule: shift_down.induct)
  case (1 i n xs)
  show ?case
  proof (cases "i < n")
    case True
    have "shift_down (Suc i) n (xs[i := xs ! Suc i]) ! j =
        (if Suc i \<le> j \<and> j < n then xs[i := xs ! Suc i] ! Suc j else xs[i := xs ! Suc i] ! j)"
      using 1(1)[OF True, of j] 1(2,3) by simp
    then show ?thesis
      using True 1(2,3) by (auto simp: shift_down.simps[of i] nth_list_update)
  next
    case False
    then show ?thesis by (auto simp: shift_down.simps[of i])
  qed
qed

lemma shift_down_take:
  assumes "i \<le> n" "n < length xs"
  shows "take n (shift_down i n xs) = take i xs @ drop (Suc i) (take (Suc n) xs)"
  using assms by (intro nth_equalityI) (auto simp: shift_down_nth nth_append min_def)

text \<open>
  A compaction loop walks the first \<open>n\<close> slots with a read index \<open>r\<close>, decides for each slot
  whether it survives, and writes the survivors to a write index \<open>w\<close> that never overtakes
  \<open>r\<close>. Its list-level meaning is \<open>compact_list\<close>: \<open>decide\<close> gives for a slot whether it is
  kept, what it has become, and the next state of everything else the loop writes.
\<close>

fun compact_list :: "('c \<Rightarrow> 'e \<Rightarrow> bool \<times> 'c \<times> 'e) \<Rightarrow> 'c list \<Rightarrow> 'e \<Rightarrow> 'c list \<times> 'e" where
  "compact_list decide [] e = ([], e)"
| "compact_list decide (c # cs) e =
     (case decide c e of (keep, c', e') \<Rightarrow>
        (case compact_list decide cs e' of (ds, e'') \<Rightarrow> (if keep then c' # ds else ds, e'')))"

lemma compact_list_length: "length (fst (compact_list decide cs e)) \<le> length cs"
proof (induction cs arbitrary: e)
  case Nil
  then show ?case by simp
next
  case (Cons c cs)
  show ?case using Cons[of "snd (snd (decide c e))"]
    by (auto split: prod.splits)
qed

text \<open>What every slot's decision guarantees holds for every survivor.\<close>

lemma compact_list_all:
  assumes "\<And>c e k c' e'. P c \<Longrightarrow> decide c e = (k, c', e') \<Longrightarrow> k \<Longrightarrow> Q c'"
    and "\<forall>c \<in> set cs. P c"
  shows "\<forall>c \<in> set (fst (compact_list decide cs e)). Q c"
  using assms(2)
proof (induction cs arbitrary: e)
  case Nil
  then show ?case by simp
next
  case (Cons c cs)
  obtain k c' e' where d: "decide c e = (k, c', e')" by (cases "decide c e") auto
  obtain ds e'' where r: "compact_list decide cs e' = (ds, e'')"
    by (cases "compact_list decide cs e'") auto
  have "\<forall>c \<in> set ds. Q c" using Cons.IH[of e'] Cons.prems r by simp
  then show ?case using assms(1)[OF _ d] Cons.prems by (auto simp: d r)
qed

text \<open>
  Rule for compaction: \<open>I\<close> is kept by every decision on a slot that satisfies \<open>P\<close>, and \<open>Q\<close> relates
  the state and slots before to those after.
\<close>

lemma compact_list_rule:
  assumes base: "\<And>e. Q e [] e []"
    and step: "\<And>c cs e k c' e1 ds e2. decide c e = (k, c', e1) \<Longrightarrow> I e \<Longrightarrow> P c \<Longrightarrow>
       I e1 \<and> (Q e1 cs e2 ds \<longrightarrow> Q e (c # cs) e2 (if k then c' # ds else ds))"
    and "I e" "list_all P cs" "compact_list decide cs e = (ds, e')"
  shows "I e' \<and> Q e cs e' ds"
  using assms(3-5)
proof (induction cs arbitrary: e ds)
  case Nil
  then show ?case using base by simp
next
  case (Cons c cs)
  obtain k c' e1 where d: "decide c e = (k, c', e1)" by (cases "decide c e") auto
  obtain vs e2 where r: "compact_list decide cs e1 = (vs, e2)"
    by (cases "compact_list decide cs e1") auto
  have out: "ds = (if k then c' # vs else vs)" "e' = e2" using Cons.prems(3) d r by auto
  have pc: "P c" "list_all P cs" using Cons.prems(2) by auto
  have i1: "I e1" using step[OF d Cons.prems(1) pc(1)] by blast
  have "I e2 \<and> Q e1 cs e2 vs" using Cons.IH[OF i1 pc(2)] r out(2) by simp
  then show ?case using step[OF d Cons.prems(1) pc(1)] out by blast
qed

text \<open>A decision that drops or keeps slots without changing them or the state is a filter.\<close>

lemma compact_list_filter:
  "(\<And>c e. decide c e = (P c, c, f c e)) \<Longrightarrow>
   compact_list decide cs e = (filter P cs, fold f cs e)"
  by (induction cs arbitrary: e) auto

locale compaction_loop =
  fixes loop :: "nat \<Rightarrow> nat \<Rightarrow> nat \<Rightarrow> 'c list \<Rightarrow> 'e \<Rightarrow> 'c list \<times> nat \<times> 'e"
    and decide :: "'c \<Rightarrow> 'e \<Rightarrow> bool \<times> 'c \<times> 'e"
    and place :: "bool \<Rightarrow> nat \<Rightarrow> nat \<Rightarrow> 'c \<Rightarrow> 'c list \<Rightarrow> 'c list"
  assumes loop_end: "\<not> r < n \<Longrightarrow> loop n r w xs e = (xs, w, e)"
    and loop_step: "r < n \<Longrightarrow> decide (xs ! r) e = (keep, c', e') \<Longrightarrow>
          loop n r w xs e = loop n (Suc r) (if keep then Suc w else w) (place keep r w c' xs) e'"
    and place_length: "length (place keep r w c' xs) = length xs"
    and place_below: "i < w \<Longrightarrow> w \<le> r \<Longrightarrow> r < length xs \<Longrightarrow> place keep r w c' xs ! i = xs ! i"
    and place_kept: "w \<le> r \<Longrightarrow> r < length xs \<Longrightarrow> place True r w c' xs ! w = c'"
    and place_above: "r < i \<Longrightarrow> i < length xs \<Longrightarrow> w \<le> r \<Longrightarrow> place keep r w c' xs ! i = xs ! i"
begin

lemma take_place:
  assumes "w \<le> r" "r < length xs"
  shows "take w (place keep r w c' xs) = take w xs"
  using assms by (intro nth_equalityI) (auto simp: place_length place_below)

lemma take_place_kept:
  assumes "w \<le> r" "r < length xs"
  shows "take (Suc w) (place True r w c' xs) = take w xs @ [c']"
  using assms take_place[OF assms, of True c']
  by (simp add: take_Suc_conv_app_nth place_length place_kept)

lemma drop_place:
  assumes "w \<le> r" "r < length xs"
  shows "drop (Suc r) (place keep r w c' xs) = drop (Suc r) xs"
  using assms by (intro nth_equalityI) (auto simp: place_length place_above)

lemma loop_correct:
  assumes "w \<le> r" "r \<le> n" "n \<le> length xs"
    and "loop n r w xs e = (ys, w', e')"
  shows "compact_list decide (take (n - r) (drop r xs)) e = (drop w (take w' ys), e') \<and>
         take w ys = take w xs \<and> w \<le> w' \<and> w' \<le> n \<and> length ys = length xs"
  using assms
proof (induction "n - r" arbitrary: r w xs e)
  case 0
  then show ?case using loop_end[of r n w xs e] by auto
next
  case (Suc k)
  then have lt: "r < n" and rl: "r < length xs" by auto
  obtain keep c' e1 where d: "decide (xs ! r) e = (keep, c', e1)" by (cases "decide (xs ! r) e") auto
  define w1 where "w1 = (if keep then Suc w else w)"
  define zs where "zs = place keep r w c' xs"
  have run: "loop n (Suc r) w1 zs e1 = (ys, w', e')"
    using Suc.prems(4) loop_step[OF lt d] by (simp add: w1_def zs_def)
  have IH: "compact_list decide (take (n - Suc r) (drop (Suc r) zs)) e1 = (drop w1 (take w' ys), e') \<and>
      take w1 ys = take w1 zs \<and> w1 \<le> w' \<and> w' \<le> n \<and> length ys = length zs"
    using Suc.hyps Suc.prems run by (intro Suc.hyps(1)) (auto simp: w1_def zs_def place_length)
  have rest: "drop (Suc r) zs = drop (Suc r) xs"
    using drop_place Suc.prems(1) rl by (simp add: zs_def)
  have head: "take (n - r) (drop r xs) = xs ! r # take (n - Suc r) (drop (Suc r) xs)"
    using lt rl by (simp add: Cons_nth_drop_Suc[symmetric] Suc_diff_Suc[symmetric] del: Cons_nth_drop_Suc)
  have tw: "take w zs = take w xs" using take_place Suc.prems(1) rl by (simp add: zs_def)
  show ?case
  proof (cases keep)
    case True
    have "take (Suc w) ys = take w xs @ [c']"
      using IH True take_place_kept[OF Suc.prems(1) rl] by (simp add: w1_def zs_def)
    moreover have lens: "length xs = length ys" using IH by (simp add: zs_def place_length)
    moreover have "w < length ys" using Suc.prems rl lens by simp
    ultimately have "take w ys = take w xs" and "ys ! w = c'"
      by (auto simp: take_Suc_conv_app_nth)
    moreover have "drop w (take w' ys) = ys ! w # drop (Suc w) (take w' ys)"
      using IH True \<open>w < length ys\<close>
      by (simp add: w1_def Cons_nth_drop_Suc[symmetric])
    ultimately show ?thesis using IH True lens by (simp add: head d rest w1_def)
  next
    case False
    then show ?thesis using IH tw by (simp add: head d rest w1_def) (simp add: zs_def place_length)
  qed
qed

text \<open>From the start of the array: the survivors fill the front, in order, and the count is theirs.\<close>

lemma loop_refines:
  assumes "n \<le> length xs" "loop n 0 0 xs e = (ys, w', e')"
  shows "compact_list decide (take n xs) e = (take w' ys, e')"
    and "w' \<le> n" and "length ys = length xs"
  using loop_correct[of 0 0 n xs e ys w' e'] assms by auto

end

section \<open>Sums over lists\<close>

lemma sum_list_upd:
  fixes f :: "'a \<Rightarrow> int"
  assumes "i < length ws"
  shows "(\<Sum>a\<leftarrow>ws[i := b]. f a) = (\<Sum>a\<leftarrow>ws. f a) - f (ws ! i) + f b"
proof -
  define L R where "L = take i ws" and "R = drop (Suc i) ws"
  have "ws = L @ ws ! i # R" "ws[i := b] = L @ b # R"
    using assms by (auto simp: L_def R_def id_take_nth_drop[symmetric] upd_conv_take_nth_drop)
  then have "(\<Sum>a\<leftarrow>ws[i := b]. f a) = (\<Sum>a\<leftarrow>L. f a) + f b + (\<Sum>a\<leftarrow>R. f a)"
    and "(\<Sum>a\<leftarrow>ws. f a) = (\<Sum>a\<leftarrow>L. f a) + f (ws ! i) + (\<Sum>a\<leftarrow>R. f a)"
    by (metis (no_types, lifting) add.assoc list.simps(9) map_append sum_list.Cons sum_list_append)+
  then show ?thesis by simp
qed

end
