(* ===== verification/Pending_Ice.thy ===== *)
theory Pending_Ice
  imports Kvs_Prelude
begin

text \<open>
  The ICE slot array of \<open>components/signaling/kvs_signaling/port/kvs_pending_ice.c\<close>: candidates
  whose send failed, kept in a fixed array with a count and compacted in place. The array
  operations are modelled on the array (\<open>slots\<close>, a list of all slots, and \<open>count\<close>, how many are
  in use) and refined to lists of the waiting candidates.
\<close>

section \<open>Slots\<close>

definition KVS_PENDING_ICE_MAX :: nat where "KVS_PENDING_ICE_MAX = 16"
definition KVS_PENDING_ICE_PAYLOAD_LEN :: nat where "KVS_PENDING_ICE_PAYLOAD_LEN = 512"
definition KVS_PENDING_ICE_PEERID_LEN :: nat where "KVS_PENDING_ICE_PEERID_LEN = 256"
definition KVS_PENDING_ICE_MAX_ATTEMPTS :: nat where "KVS_PENDING_ICE_MAX_ATTEMPTS = 5"

lemmas ice_limits = KVS_PENDING_ICE_MAX_def KVS_PENDING_ICE_PAYLOAD_LEN_def
  KVS_PENDING_ICE_PEERID_LEN_def KVS_PENDING_ICE_MAX_ATTEMPTS_def

record ice_candidate =
  ic_peer :: string
  ic_payload :: string
  ic_payload_len :: nat
  ic_version :: uint32
  ic_attempts :: nat

definition zero_candidate :: ice_candidate where
  "zero_candidate = \<lparr>ic_peer = [], ic_payload = [], ic_payload_len = 0, ic_version = 0, ic_attempts = 0\<rparr>"

text \<open>A peer id argument may be NULL.\<close>

definition copyPeerId :: "string option \<Rightarrow> string" where
  "copyPeerId peerId =
     (case peerId of Some s \<Rightarrow> strncpy_term KVS_PENDING_ICE_PEERID_LEN s | None \<Rightarrow> [])"

definition samePeer :: "string \<Rightarrow> string option \<Rightarrow> bool" where
  "samePeer slotPeerId peerId =
     strncmp_eq slotPeerId (case peerId of Some s \<Rightarrow> s | None \<Rightarrow> []) (KVS_PENDING_ICE_PEERID_LEN - 1)"

text \<open>
  \<open>kvsPendingIcePush\<close>: \<open>slots\<close>, \<open>pCount\<close> and \<open>payload\<close> may be NULL; the payload is the memory the
  pointer may read, of which \<open>payloadLen\<close> bytes are copied.
\<close>

definition kvsPendingIcePush ::
  "ice_candidate list option \<Rightarrow> nat option \<Rightarrow> string option \<Rightarrow> string option \<Rightarrow> nat \<Rightarrow> uint32 \<Rightarrow>
   bool \<times> ice_candidate list option \<times> nat option" where
  "kvsPendingIcePush slots pCount peerId payload payloadLen version =
     (case (slots, pCount, payload) of
        (Some xs, Some n, Some bytes) \<Rightarrow>
          if n \<ge> KVS_PENDING_ICE_MAX then (False, slots, pCount)
          else if payloadLen = 0 \<or> payloadLen \<ge> KVS_PENDING_ICE_PAYLOAD_LEN then (False, slots, pCount)
          else (True,
                Some (xs[n := \<lparr>ic_peer = copyPeerId peerId, ic_payload = take payloadLen bytes,
                               ic_payload_len = payloadLen, ic_version = version, ic_attempts = 0\<rparr>]),
                Some (Suc n))
      | _ \<Rightarrow> (False, slots, pCount))"

section \<open>The drain loop\<close>

text \<open>
  The send callback of \<open>iceDrain\<close> is a parameter: it sees the slot and its own state \<open>'e\<close> and says
  whether the send succeeded. The hold callback may be NULL. What the loop changes beside the
  slots is the pair of counters and the callback's state.
\<close>

record 'e ice_env =
  ie_send :: 'e
  ie_sent :: nat
  ie_dropped :: nat

type_synonym 'e ice_send = "'e \<Rightarrow> ice_candidate \<Rightarrow> bool \<times> 'e"
type_synonym ice_hold = "string \<Rightarrow> bool"

definition held :: "ice_hold option \<Rightarrow> string \<Rightarrow> bool" where
  "held hold_fn peer = (case hold_fn of None \<Rightarrow> False | Some f \<Rightarrow> f peer)"

text \<open>The body of the loop for slot \<open>c\<close>: kept or not, what the slot has become, the counters.\<close>

definition ice_body :: "'e ice_send \<Rightarrow> ice_hold option \<Rightarrow> ice_candidate \<Rightarrow> 'e ice_env \<Rightarrow>
    bool \<times> ice_candidate \<times> 'e ice_env" where
  "ice_body send_fn hold_fn c e =
     (if held hold_fn (ic_peer c) then (True, c, e)
      else case send_fn (ie_send e) c of (sent, s') \<Rightarrow>
        if sent then (False, c, e\<lparr>ie_send := s', ie_sent := Suc (ie_sent e)\<rparr>)
        else let c' = c\<lparr>ic_attempts := Suc (ic_attempts c)\<rparr>
             in if ic_attempts c' \<ge> KVS_PENDING_ICE_MAX_ATTEMPTS
                then (False, c', e\<lparr>ie_send := s', ie_dropped := Suc (ie_dropped e)\<rparr>)
                else (True, c', e\<lparr>ie_send := s'\<rparr>))"

text \<open>
  What the iteration leaves in the array: slot \<open>r\<close> as the body changed it, and, when it is kept
  and a gap has opened below it, a copy of it at \<open>w\<close>.
\<close>

definition slot_place :: "bool \<Rightarrow> nat \<Rightarrow> nat \<Rightarrow> 'c \<Rightarrow> 'c list \<Rightarrow> 'c list" where
  "slot_place keep r w c' xs =
     (let ys = xs[r := c'] in if keep \<and> w \<noteq> r then ys[w := ys ! r] else ys)"

function iceDrain_loop :: "'e ice_send \<Rightarrow> ice_hold option \<Rightarrow> nat \<Rightarrow> nat \<Rightarrow> nat \<Rightarrow> ice_candidate list \<Rightarrow>
    'e ice_env \<Rightarrow> ice_candidate list \<times> nat \<times> 'e ice_env" where
  "iceDrain_loop send_fn hold_fn n r w slots e =
     (if r < n then
        (case ice_body send_fn hold_fn (slots ! r) e of (keep, c', e') \<Rightarrow>
           iceDrain_loop send_fn hold_fn n (Suc r) (if keep then Suc w else w)
             (slot_place keep r w c' slots) e')
      else (slots, w, e))"
  by pat_completeness auto
termination
  by (relation "measure (\<lambda>(s, h, n, r, w, xs, e). n - r)") auto

declare iceDrain_loop.simps [simp del]

definition iceDrain :: "ice_candidate list \<Rightarrow> nat \<Rightarrow> 'e ice_send \<Rightarrow> ice_hold option \<Rightarrow> 'e ice_env \<Rightarrow>
    ice_candidate list \<times> nat \<times> 'e ice_env" where
  "iceDrain slots count send_fn hold_fn e = iceDrain_loop send_fn hold_fn count 0 0 slots e"

text \<open>
  \<open>kvsPendingIceDrain\<close>: the returned number, the slots and count, and the callback's state.
\<close>

definition kvsPendingIceDrain :: "ice_candidate list option \<Rightarrow> nat option \<Rightarrow> 'e ice_send option \<Rightarrow> 'e \<Rightarrow>
    nat \<times> ice_candidate list option \<times> nat option \<times> 'e" where
  "kvsPendingIceDrain slots pCount send_fn ctx =
     (case (slots, pCount, send_fn) of
        (Some xs, Some n, Some f) \<Rightarrow>
          (case iceDrain xs n f None \<lparr>ie_send = ctx, ie_sent = 0, ie_dropped = 0\<rparr> of
             (ys, w, e) \<Rightarrow> (w, Some ys, Some w, ie_send e))
      | _ \<Rightarrow> (case pCount of None \<Rightarrow> 0 | Some n \<Rightarrow> n, slots, pCount, ctx))"

section \<open>The purge loop\<close>

text \<open>The loop's state beside the slots is the number removed.\<close>

function purge_loop :: "string \<Rightarrow> nat \<Rightarrow> nat \<Rightarrow> nat \<Rightarrow> ice_candidate list \<Rightarrow> nat \<Rightarrow>
    ice_candidate list \<times> nat \<times> nat" where
  "purge_loop peerId n r w slots removed =
     (if r < n then
        (if strncmp_eq (ic_peer (slots ! r)) peerId KVS_PENDING_ICE_PEERID_LEN
         then purge_loop peerId n (Suc r) w slots (Suc removed)
         else purge_loop peerId n (Suc r) (Suc w)
                (if w \<noteq> r then slots[w := slots ! r] else slots) removed)
      else (slots, w, removed))"
  by pat_completeness auto
termination
  by (relation "measure (\<lambda>(p, n, r, w, xs, k). n - r)") auto

declare purge_loop.simps [simp del]

definition kvsPendingIcePurgePeer :: "ice_candidate list option \<Rightarrow> nat option \<Rightarrow> string option \<Rightarrow>
    nat \<times> ice_candidate list option \<times> nat option" where
  "kvsPendingIcePurgePeer slots pCount peerId =
     (case (slots, pCount, peerId) of
        (Some xs, Some n, Some p) \<Rightarrow>
          (case purge_loop p n 0 0 xs 0 of (ys, w, removed) \<Rightarrow> (removed, Some ys, Some w))
      | _ \<Rightarrow> (0, slots, pCount))"

section \<open>The loops refine lists of candidates\<close>

interpretation ice_loop: compaction_loop
  "iceDrain_loop send_fn hold_fn" "ice_body send_fn hold_fn" slot_place
  for send_fn hold_fn
proof unfold_locales
  fix r n w :: nat and xs e
  show "\<not> r < n \<Longrightarrow> iceDrain_loop send_fn hold_fn n r w xs e = (xs, w, e)"
    by (simp add: iceDrain_loop.simps[of _ _ n])
next
  fix r n w :: nat and xs e keep c' e'
  show "r < n \<Longrightarrow> ice_body send_fn hold_fn (xs ! r) e = (keep, c', e') \<Longrightarrow>
      iceDrain_loop send_fn hold_fn n r w xs e =
      iceDrain_loop send_fn hold_fn n (Suc r) (if keep then Suc w else w) (slot_place keep r w c' xs) e'"
    by (simp add: iceDrain_loop.simps[of _ _ n r])
qed (auto simp: slot_place_def Let_def nth_list_update)

definition purge_body :: "string \<Rightarrow> ice_candidate \<Rightarrow> nat \<Rightarrow> bool \<times> ice_candidate \<times> nat" where
  "purge_body peerId c removed =
     (if strncmp_eq (ic_peer c) peerId KVS_PENDING_ICE_PEERID_LEN then (False, c, Suc removed)
      else (True, c, removed))"

definition purge_place :: "bool \<Rightarrow> nat \<Rightarrow> nat \<Rightarrow> 'c \<Rightarrow> 'c list \<Rightarrow> 'c list" where
  "purge_place keep r w c' xs = (if keep then if w \<noteq> r then xs[w := c'] else xs[r := c'] else xs)"

lemma purge_place_same:
  "purge_place True r w (xs ! r) xs = (if w \<noteq> r then xs[w := xs ! r] else xs)"
  "purge_place False r w c xs = xs"
  by (simp_all add: purge_place_def)

interpretation ice_purge: compaction_loop "purge_loop peerId" "purge_body peerId" purge_place
  for peerId
proof unfold_locales
  fix r n w :: nat and xs e
  show "\<not> r < n \<Longrightarrow> purge_loop peerId n r w xs e = (xs, w, e)"
    by (simp add: purge_loop.simps[of _ n])
next
  fix r n w :: nat and xs e keep c' e'
  show "r < n \<Longrightarrow> purge_body peerId (xs ! r) e = (keep, c', e') \<Longrightarrow>
      purge_loop peerId n r w xs e =
      purge_loop peerId n (Suc r) (if keep then Suc w else w) (purge_place keep r w c' xs) e'"
    by (auto simp: purge_body_def purge_loop.simps[of _ n r] purge_place_same split: if_splits)
qed (auto simp: purge_place_def nth_list_update)

lemma iceDrain_refines:
  assumes "n \<le> length xs" "iceDrain xs n send_fn hold_fn e = (ys, w, e')"
  shows "compact_list (ice_body send_fn hold_fn) (take n xs) e = (take w ys, e')"
    and "w \<le> n" and "length ys = length xs"
  using ice_loop.loop_refines[of n xs send_fn hold_fn e ys w e'] assms
  by (auto simp: iceDrain_def)

abbreviation purges :: "string \<Rightarrow> ice_candidate \<Rightarrow> bool" where
  "purges peerId c \<equiv> strncmp_eq (ic_peer c) peerId KVS_PENDING_ICE_PEERID_LEN"

lemma compact_purge_body:
  "compact_list (purge_body peerId) cs k =
     (filter (\<lambda>c. \<not> purges peerId c) cs, k + length (filter (purges peerId) cs))"
  by (induction cs arbitrary: k) (auto simp: purge_body_def)

lemma purge_loop_refines:
  assumes "n \<le> length xs" "purge_loop p n 0 0 xs 0 = (ys, w, removed)"
  shows "take w ys = filter (\<lambda>c. \<not> purges p c) (take n xs)"
    and "removed = length (filter (purges p) (take n xs))"
    and "w \<le> n" and "length ys = length xs"
  using ice_purge.loop_refines[of n xs p 0 ys w removed] assms
  by (auto simp: compact_purge_body)

text \<open>
  \<open>samePeer\<close> compares what a slot can hold of an id. On ids that fit a slot all three of
  \<open>copyPeerId\<close>, \<open>samePeer\<close> and the purge's comparison agree with equality.
\<close>

lemma copyPeerId_length: "length (copyPeerId q) < KVS_PENDING_ICE_PEERID_LEN"
  by (auto simp: copyPeerId_def ice_limits strncpy_term_def split: option.splits)

lemma copyPeerId_fits: "length s < KVS_PENDING_ICE_PEERID_LEN \<Longrightarrow> copyPeerId (Some s) = s"
  by (simp add: copyPeerId_def strncpy_term_id)

lemma samePeer_iff:
  "length s < KVS_PENDING_ICE_PEERID_LEN \<Longrightarrow> samePeer s q \<longleftrightarrow> s = copyPeerId q"
  by (cases q) (auto simp: samePeer_def copyPeerId_def strncmp_eq_def strncpy_term_def ice_limits)

lemma purges_iff:
  "length (ic_peer c) < KVS_PENDING_ICE_PEERID_LEN \<Longrightarrow>
   purges s c \<longleftrightarrow> ic_peer c = take KVS_PENDING_ICE_PEERID_LEN s"
  by (auto simp: strncmp_eq_def)

lemma purges_fits:
  "length (ic_peer c) < KVS_PENDING_ICE_PEERID_LEN \<Longrightarrow> length s < KVS_PENDING_ICE_PEERID_LEN \<Longrightarrow>
   purges s c \<longleftrightarrow> ic_peer c = s"
  by (simp add: strncmp_eq_short)

end
