(* ===== verification/Pending_Signaling.thy ===== *)
theory Pending_Signaling
  imports Pending_Ice
begin

text \<open>
  The rest of \<open>components/signaling/kvs_signaling/port/kvs_pending_ice.c\<close>: SDP answers and ICE
  candidates that wait for the signaling socket to come back, in slot arrays allocated on
  first use and freed when they drain empty, with the Take / Drain / Merge protocol that lets
  the owner re-send a batch without holding its lock.
\<close>

section \<open>State\<close>

definition KVS_PENDING_ANSWER_MAX :: nat where "KVS_PENDING_ANSWER_MAX = 4"
definition KVS_PENDING_CORRELATION_ID_LEN :: nat where "KVS_PENDING_CORRELATION_ID_LEN = 257"
definition KVS_PENDING_ANSWER_MAX_AGE_MS :: uint64 where "KVS_PENDING_ANSWER_MAX_AGE_MS = 30000"
definition KVS_PENDING_PURGED_MAX :: nat where "KVS_PENDING_PURGED_MAX = 8"

lemmas pending_limits = ice_limits KVS_PENDING_ANSWER_MAX_def KVS_PENDING_CORRELATION_ID_LEN_def
  KVS_PENDING_ANSWER_MAX_AGE_MS_def KVS_PENDING_PURGED_MAX_def

text \<open>The heap copy of an answer's payload is \<open>Some\<close> text, and \<open>None\<close> once ownership has moved.\<close>

record answer =
  an_peer :: string
  an_corr :: string
  an_payload :: "string option"
  an_payload_len :: nat
  an_version :: uint32
  an_queued_at :: uint64

definition zero_answer :: answer where
  "zero_answer = \<lparr>an_peer = [], an_corr = [], an_payload = None, an_payload_len = 0,
                   an_version = 0, an_queued_at = 0\<rparr>"

text \<open>
  \<open>KvsPendingSignaling\<close>. An array pointer is \<open>None\<close> for NULL. The two allocator callbacks are the
  heap every operation is given.
\<close>

record pending =
  ice :: "ice_candidate list option"
  ice_count :: nat
  answers :: "answer list option"
  answer_count :: nat
  batch_out :: bool
  purged :: "string list option"
  purged_count :: nat

definition kvsPendingSignalingInit :: pending where
  "kvsPendingSignalingInit = \<lparr>ice = None, ice_count = 0, answers = None, answer_count = 0,
                               batch_out = False, purged = None, purged_count = 0\<rparr>"

section \<open>Slots and lookup\<close>

definition pendingCalloc :: "heap \<Rightarrow> bool \<times> heap" where
  "pendingCalloc h = heap_calloc h"

definition pendingFree :: "heap \<Rightarrow> 'a option \<Rightarrow> heap" where
  "pendingFree h ptr = heap_free_ptr h ptr"

definition releaseEmpty :: "pending \<Rightarrow> heap \<Rightarrow> pending \<times> heap" where
  "releaseEmpty p h =
     (let (p1, h1) = (if ice_count p = 0 \<and> ice p \<noteq> None
                      then (p\<lparr>ice := None\<rparr>, pendingFree h (ice p)) else (p, h))
      in if answer_count p1 = 0 \<and> answers p1 \<noteq> None
         then (p1\<lparr>answers := None\<rparr>, pendingFree h1 (answers p1)) else (p1, h1))"

definition answer_slots :: "pending \<Rightarrow> answer list" where
  "answer_slots p = (case answers p of None \<Rightarrow> [] | Some xs \<Rightarrow> xs)"

definition findAnswer :: "pending \<Rightarrow> string option \<Rightarrow> nat option" where
  "findAnswer p peerId =
     (case answers p of None \<Rightarrow> None
      | Some xs \<Rightarrow> find (\<lambda>i. samePeer (an_peer (xs ! i)) peerId) [0..<answer_count p])"

definition findOldestAnswer :: "pending \<Rightarrow> nat option" where
  "findOldestAnswer p =
     foldl (\<lambda>oldest i. case oldest of
              None \<Rightarrow> Some i
            | Some j \<Rightarrow> if an_queued_at (answer_slots p ! i) < an_queued_at (answer_slots p ! j)
                        then Some i else oldest)
       None [0..<answer_count p]"

definition removeAnswerAt :: "pending \<Rightarrow> nat \<Rightarrow> heap \<Rightarrow> pending \<times> heap" where
  "removeAnswerAt p idx h =
     (p\<lparr>answers := map_option (shift_down idx (answer_count p - 1)) (answers p),
        answer_count := answer_count p - 1\<rparr>,
      pendingFree h (an_payload (answer_slots p ! idx)))"

definition ensureAnswerSlots :: "pending \<Rightarrow> heap \<Rightarrow> bool \<times> pending \<times> heap" where
  "ensureAnswerSlots p h =
     (case answers p of
        Some _ \<Rightarrow> (True, p, h)
      | None \<Rightarrow> (case pendingCalloc h of (ok, h') \<Rightarrow>
          if ok then (True, p\<lparr>answers := Some (replicate KVS_PENDING_ANSWER_MAX zero_answer)\<rparr>, h')
          else (False, p, h')))"

text \<open>\<open>if (p->ice != NULL) kvsPendingIcePurgePeer(p->ice, &p->ice_count, peerId)\<close>, which five functions do.\<close>

definition purge_ice :: "pending \<Rightarrow> string option \<Rightarrow> nat \<times> pending" where
  "purge_ice p peerId =
     (if ice p \<noteq> None then
        (case kvsPendingIcePurgePeer (ice p) (Some (ice_count p)) peerId of
           (removed, xs, n) \<Rightarrow> (removed, p\<lparr>ice := xs, ice_count := the n\<rparr>))
      else (0, p))"

definition insertAnswer :: "pending \<Rightarrow> answer \<Rightarrow> heap \<Rightarrow> bool \<times> pending \<times> heap" where
  "insertAnswer p a h =
     (case findAnswer p (Some (an_peer a)) of
        Some idx \<Rightarrow>
          (True, p\<lparr>answers := map_option (\<lambda>xs. xs[idx := a]) (answers p)\<rparr>,
           pendingFree h (an_payload (answer_slots p ! idx)))
      | None \<Rightarrow>
          (let append = (\<lambda>p h. (True, p\<lparr>answers := map_option (\<lambda>xs. xs[answer_count p := a]) (answers p),
                                         answer_count := Suc (answer_count p)\<rparr>, h))
           in if answer_count p \<ge> KVS_PENDING_ANSWER_MAX then
                (case findOldestAnswer p of
                   None \<Rightarrow> (False, p, h)
                 | Some oldest \<Rightarrow>
                     if an_queued_at (answer_slots p ! oldest) > an_queued_at a then (False, p, h)
                     else (case purge_ice p (Some (an_peer (answer_slots p ! oldest))) of
                             (_, p1) \<Rightarrow> (case removeAnswerAt p1 oldest h of (p2, h2) \<Rightarrow> append p2 h2)))
              else append p h))"

section \<open>Buffering and dropping\<close>

definition kvsPendingSignalingPushIce :: "pending \<Rightarrow> string option \<Rightarrow> string option \<Rightarrow> nat \<Rightarrow> uint32 \<Rightarrow>
    heap \<Rightarrow> bool \<times> pending \<times> heap" where
  "kvsPendingSignalingPushIce p peerId payload payloadLen version h =
     (let (ok, p1, h1) =
        (case ice p of
           Some _ \<Rightarrow> (True, p, h)
         | None \<Rightarrow> (case pendingCalloc h of (ok, h') \<Rightarrow>
             (ok, if ok then p\<lparr>ice := Some (replicate KVS_PENDING_ICE_MAX zero_candidate)\<rparr> else p, h')))
      in if \<not> ok then (False, p1, h1)
         else (case kvsPendingIcePush (ice p1) (Some (ice_count p1)) peerId payload payloadLen version of
                 (pushed, xs, n) \<Rightarrow>
                   (case releaseEmpty (p1\<lparr>ice := xs, ice_count := the n\<rparr>) h1 of
                      (p2, h2) \<Rightarrow> (pushed, p2, h2))))"

definition mk_answer :: "string option \<Rightarrow> string option \<Rightarrow> string \<Rightarrow> nat \<Rightarrow> uint32 \<Rightarrow> uint64 \<Rightarrow> answer" where
  "mk_answer peerId correlationId payload payloadLen version now_ms =
     \<lparr>an_peer = copyPeerId peerId,
      an_corr = (case correlationId of None \<Rightarrow> [] | Some c \<Rightarrow> strncpy_term KVS_PENDING_CORRELATION_ID_LEN c),
      an_payload = Some (take payloadLen payload), an_payload_len = payloadLen,
      an_version = version, an_queued_at = now_ms\<rparr>"

definition kvsPendingSignalingPutAnswer :: "pending \<Rightarrow> string option \<Rightarrow> string option \<Rightarrow> string option \<Rightarrow>
    nat \<Rightarrow> uint32 \<Rightarrow> uint64 \<Rightarrow> heap \<Rightarrow> bool \<times> pending \<times> heap" where
  "kvsPendingSignalingPutAnswer p peerId correlationId payload payloadLen version now_ms h =
     (case payload of None \<Rightarrow> (False, p, h)
      | Some bytes \<Rightarrow>
        if payloadLen = 0 then (False, p, h)
        else (case ensureAnswerSlots p h of (ok, p1, h1) \<Rightarrow>
          if \<not> ok then (False, p1, h1)
          else (case pendingCalloc h1 of (got, h2) \<Rightarrow>
            if \<not> got then (case releaseEmpty p1 h2 of (p2, h3) \<Rightarrow> (False, p2, h3))
            else (let a = mk_answer peerId correlationId bytes payloadLen version now_ms
                  in case insertAnswer p1 a h2 of (placed, p2, h3) \<Rightarrow>
                       if \<not> placed
                       then (case releaseEmpty p2 (pendingFree h3 (an_payload a)) of (p3, h4) \<Rightarrow> (False, p3, h4))
                       else (case releaseEmpty p2 h3 of (p3, h4) \<Rightarrow> (True, p3, h4))))))"

definition kvsPendingSignalingHasAnswer :: "pending \<Rightarrow> string option \<Rightarrow> bool" where
  "kvsPendingSignalingHasAnswer p peerId \<longleftrightarrow> findAnswer p peerId \<noteq> None"

definition kvsPendingSignalingDropAnswer :: "pending \<Rightarrow> string option \<Rightarrow> heap \<Rightarrow> bool \<times> pending \<times> heap" where
  "kvsPendingSignalingDropAnswer p peerId h =
     (case findAnswer p peerId of
        None \<Rightarrow> (False, p, h)
      | Some idx \<Rightarrow> (case removeAnswerAt p idx h of (p1, h1) \<Rightarrow>
          (case releaseEmpty p1 h1 of (p2, h2) \<Rightarrow> (True, p2, h2))))"

definition purged_ids :: "pending \<Rightarrow> string list" where
  "purged_ids p = (case purged p of None \<Rightarrow> [] | Some qs \<Rightarrow> take (purged_count p) qs)"

definition kvsPendingSignalingIsPurged :: "pending \<Rightarrow> string option \<Rightarrow> bool" where
  "kvsPendingSignalingIsPurged p peerId \<longleftrightarrow> list_ex (\<lambda>q. samePeer q peerId) (purged_ids p)"

definition recordPurged :: "pending \<Rightarrow> string option \<Rightarrow> heap \<Rightarrow> pending \<times> heap" where
  "recordPurged p peerId h =
     (if kvsPendingSignalingIsPurged p peerId then (p, h)
      else let (ok, p1, h1) =
             (case purged p of
                Some _ \<Rightarrow> (True, p, h)
              | None \<Rightarrow> (case pendingCalloc h of (ok, h') \<Rightarrow>
                  (ok, if ok then p\<lparr>purged := Some (replicate KVS_PENDING_PURGED_MAX [])\<rparr> else p, h')))
           in if \<not> ok then (p1, h1)
              else if purged_count p1 < KVS_PENDING_PURGED_MAX
              then (p1\<lparr>purged := map_option (\<lambda>qs. qs[purged_count p1 := copyPeerId peerId]) (purged p1),
                       purged_count := Suc (purged_count p1)\<rparr>, h1)
              else (p1, h1))"

definition clearPurged :: "pending \<Rightarrow> heap \<Rightarrow> pending \<times> heap" where
  "clearPurged p h = (p\<lparr>purged := None, purged_count := 0\<rparr>, pendingFree h (purged p))"

definition kvsPendingSignalingPurgePeer :: "pending \<Rightarrow> string option \<Rightarrow> heap \<Rightarrow> nat \<times> pending \<times> heap" where
  "kvsPendingSignalingPurgePeer p peerId h =
     (case peerId of None \<Rightarrow> (0, p, h)
      | Some _ \<Rightarrow>
        (case kvsPendingSignalingDropAnswer p peerId h of (dropped, p1, h1) \<Rightarrow>
          (case purge_ice p1 peerId of (k, p2) \<Rightarrow>
            (case releaseEmpty p2 h1 of (p3, h3) \<Rightarrow>
              (case (if batch_out p3 then recordPurged p3 peerId h3 else (p3, h3)) of (p4, h4) \<Rightarrow>
                ((if dropped then 1 else 0) + k, p4, h4))))))"

definition kvsPendingSignalingCount :: "pending option \<Rightarrow> nat" where
  "kvsPendingSignalingCount q = (case q of None \<Rightarrow> 0 | Some p \<Rightarrow> ice_count p + answer_count p)"

definition kvsPendingSignalingFree :: "pending \<Rightarrow> heap \<Rightarrow> pending \<times> heap" where
  "kvsPendingSignalingFree p h =
     (let h1 = (case answers p of None \<Rightarrow> h
                | Some xs \<Rightarrow> fold (\<lambda>i h. pendingFree h (an_payload (xs ! i))) [0..<answer_count p] h)
      in case releaseEmpty (p\<lparr>answer_count := 0, ice_count := 0\<rparr>) h1 of (p1, h2) \<Rightarrow>
           (case clearPurged p1 h2 of (p2, h3) \<Rightarrow> (p2\<lparr>batch_out := False\<rparr>, h3)))"

end
