(* ===== verification/Pending_Batch.thy ===== *)
theory Pending_Batch
  imports Pending_Signaling
begin

text \<open>
  Take, Drain and Merge of \<open>kvs_pending_ice.c\<close>: the owner takes everything as a batch, re-sends
  it without the lock, and merges what is left back into whatever was buffered meanwhile.
\<close>

section \<open>Take\<close>

definition kvsPendingSignalingTake :: "pending \<Rightarrow> pending \<times> pending" where
  "kvsPendingSignalingTake p =
     (let out = p\<lparr>batch_out := False, purged := None, purged_count := 0\<rparr>
      in (p\<lparr>ice := None, ice_count := 0, answers := None, answer_count := 0,
             batch_out := ice_count out + answer_count out > 0\<rparr>, out))"

section \<open>Merge\<close>

text \<open>The state of the three loops: what stays behind, the batch, the number dropped, the heap.\<close>

record merge_state =
  ms_p :: pending
  ms_batch :: pending
  ms_dropped :: nat
  ms_heap :: heap

text \<open>First loop: peers purged while the batch was out have left.\<close>

definition merge_purged :: "string \<Rightarrow> merge_state \<Rightarrow> merge_state" where
  "merge_purged q m =
     (let m1 = (case findAnswer (ms_batch m) (Some q) of
                  None \<Rightarrow> m
                | Some idx \<Rightarrow> (case removeAnswerAt (ms_batch m) idx (ms_heap m) of (b, h) \<Rightarrow>
                    m\<lparr>ms_batch := b, ms_heap := h, ms_dropped := Suc (ms_dropped m)\<rparr>))
      in case purge_ice (ms_batch m1) (Some q) of (k, b) \<Rightarrow>
           m1\<lparr>ms_batch := b, ms_dropped := ms_dropped m1 + k\<rparr>)"

text \<open>Second loop: answer \<open>i\<close> of the batch goes back, unless a newer one waits or there is no room.\<close>

definition merge_answer :: "nat \<Rightarrow> merge_state \<Rightarrow> merge_state" where
  "merge_answer i m =
     (let a = answer_slots (ms_batch m) ! i
      in if findAnswer (ms_p m) (Some (an_peer a)) \<noteq> None
         then m\<lparr>ms_dropped := Suc (ms_dropped m)\<rparr>
         else
           (case ensureAnswerSlots (ms_p m) (ms_heap m) of (ok, p1, h1) \<Rightarrow>
             (case (if ok then insertAnswer p1 a h1 else (False, p1, h1)) of (placed, p2, h2) \<Rightarrow>
               (let m1 = m\<lparr>ms_p := p2, ms_heap := h2\<rparr>
                in if placed
                   then m1\<lparr>ms_batch := (ms_batch m)\<lparr>answers :=
                               map_option (\<lambda>xs. xs[i := a\<lparr>an_payload := None\<rparr>]) (answers (ms_batch m))\<rparr>\<rparr>
                   else (case purge_ice (ms_batch m) (Some (an_peer a)) of (k, b) \<Rightarrow>
                          m1\<lparr>ms_batch := b, ms_dropped := Suc (ms_dropped m) + k\<rparr>)))))"

text \<open>Third loop: an answer merged above may have been evicted by a later one.\<close>

definition merge_evicted :: "nat \<Rightarrow> merge_state \<Rightarrow> merge_state" where
  "merge_evicted i m =
     (let a = answer_slots (ms_batch m) ! i
      in if an_payload a = None \<and> findAnswer (ms_p m) (Some (an_peer a)) = None
         then (case purge_ice (ms_batch m) (Some (an_peer a)) of (k, b) \<Rightarrow>
                m\<lparr>ms_batch := b, ms_dropped := Suc (ms_dropped m) + k\<rparr>)
         else m)"

text \<open>One candidate of the batch pushed behind those that wait, its attempts kept.\<close>

definition merge_candidate :: "ice_candidate \<Rightarrow> pending \<times> nat \<Rightarrow> pending \<times> nat" where
  "merge_candidate c s =
     (case s of (p, dropped) \<Rightarrow>
        (case kvsPendingIcePush (ice p) (Some (ice_count p)) (Some (ic_peer c)) (Some (ic_payload c))
                (ic_payload_len c) (ic_version c) of (ok, xs, n) \<Rightarrow>
           if ok then
             (p\<lparr>ice := map_option (\<lambda>ys. ys[ice_count p := (ys ! ice_count p)\<lparr>ic_attempts := ic_attempts c\<rparr>]) xs,
                ice_count := the n\<rparr>, dropped)
           else (p, Suc dropped)))"

definition merge_ice :: "merge_state \<Rightarrow> merge_state" where
  "merge_ice m =
     (let p = ms_p m; b = ms_batch m
      in if ice_count b > 0 then
           if ice p = None then
             m\<lparr>ms_p := p\<lparr>ice := ice b, ice_count := ice_count b\<rparr>,
               ms_batch := b\<lparr>ice := None, ice_count := 0\<rparr>\<rparr>
           else
             (case fold merge_candidate
                     (case ice b of None \<Rightarrow> [] | Some xs \<Rightarrow> take (ice_count b) xs) (p, ms_dropped m) of
                (p', d) \<Rightarrow> m\<lparr>ms_p := p', ms_dropped := d\<rparr>)
         else m)"

definition kvsPendingSignalingMerge :: "pending \<Rightarrow> pending \<Rightarrow> heap \<Rightarrow> nat \<times> pending \<times> pending \<times> heap" where
  "kvsPendingSignalingMerge p batch h =
     (let m0 = \<lparr>ms_p = p, ms_batch = batch, ms_dropped = 0, ms_heap = h\<rparr>;
          m1 = fold merge_purged (purged_ids p) m0;
          m2 = fold merge_answer [0..<answer_count (ms_batch m1)] m1;
          m3 = fold merge_evicted [0..<answer_count (ms_batch m2)] m2;
          m4 = merge_ice m3
      in case kvsPendingSignalingFree (ms_batch m4) (ms_heap m4) of (b, h1) \<Rightarrow>
           (case releaseEmpty (ms_p m4) h1 of (p1, h2) \<Rightarrow>
             (case clearPurged p1 h2 of (p2, h3) \<Rightarrow>
               (ms_dropped m4, p2\<lparr>batch_out := False\<rparr>, b, h3))))"

section \<open>Drain\<close>

datatype kvs_pending_msg_type = KVS_PENDING_MSG_ANSWER | KVS_PENDING_MSG_ICE_CANDIDATE

text \<open>
  \<open>kvs_pending_send_fn\<close>: type, peer, correlation id, payload, its length and the version, with
  the callback's own state (its \<open>ctx\<close>) threaded through.
\<close>

type_synonym 'e pending_send =
  "'e \<Rightarrow> kvs_pending_msg_type \<Rightarrow> string \<Rightarrow> string \<Rightarrow> string \<Rightarrow> nat \<Rightarrow> uint32 \<Rightarrow> bool \<times> 'e"

record drain_stats =
  answers_sent :: nat
  answers_expired :: nat
  ice_sent :: nat
  ice_dropped :: nat

definition zero_stats :: drain_stats where
  "zero_stats = \<lparr>answers_sent = 0, answers_expired = 0, ice_sent = 0, ice_dropped = 0\<rparr>"

record 'e drain_env =
  de_p :: pending
  de_heap :: heap
  de_stats :: drain_stats
  de_send :: 'e

text \<open>A time stamp ahead of \<open>now_ms\<close> is of age 0, so a clock that steps back expires nothing.\<close>

definition answer_age :: "uint64 \<Rightarrow> answer \<Rightarrow> uint64" where
  "answer_age now_ms a = (if now_ms > an_queued_at a then now_ms - an_queued_at a else 0)"

definition answer_body :: "'e pending_send \<Rightarrow> uint64 \<Rightarrow> answer \<Rightarrow> 'e drain_env \<Rightarrow>
    bool \<times> answer \<times> 'e drain_env" where
  "answer_body send_fn now_ms a e =
     (if answer_age now_ms a > KVS_PENDING_ANSWER_MAX_AGE_MS then
        (case purge_ice (de_p e) (Some (an_peer a)) of (k, p1) \<Rightarrow>
           (False, a,
            e\<lparr>de_p := p1, de_heap := pendingFree (de_heap e) (an_payload a),
              de_stats := (de_stats e)\<lparr>answers_expired := Suc (answers_expired (de_stats e)),
                                      ice_dropped := ice_dropped (de_stats e) + k\<rparr>\<rparr>))
      else (case send_fn (de_send e) KVS_PENDING_MSG_ANSWER (an_peer a) (an_corr a)
                   (case an_payload a of None \<Rightarrow> [] | Some s \<Rightarrow> s) (an_payload_len a) (an_version a) of
              (ok, s') \<Rightarrow>
                if ok then
                  (False, a,
                   e\<lparr>de_send := s', de_heap := pendingFree (de_heap e) (an_payload a),
                     de_stats := (de_stats e)\<lparr>answers_sent := Suc (answers_sent (de_stats e))\<rparr>\<rparr>)
                else (True, a, e\<lparr>de_send := s'\<rparr>)))"

function drain_answers_loop :: "'e pending_send \<Rightarrow> uint64 \<Rightarrow> nat \<Rightarrow> nat \<Rightarrow> nat \<Rightarrow> answer list \<Rightarrow>
    'e drain_env \<Rightarrow> answer list \<times> nat \<times> 'e drain_env" where
  "drain_answers_loop send_fn now_ms n r w xs e =
     (if r < n then
        (case answer_body send_fn now_ms (xs ! r) e of (keep, a, e') \<Rightarrow>
           if keep then drain_answers_loop send_fn now_ms n (Suc r) (Suc w)
                          (if w \<noteq> r then xs[w := a] else xs) e'
           else drain_answers_loop send_fn now_ms n (Suc r) w xs e')
      else (xs, w, e))"
  by pat_completeness auto
termination
  by (relation "measure (\<lambda>(s, t, n, r, w, xs, e). n - r)") auto

declare drain_answers_loop.simps [simp del]

definition pendingIceSendAdapter :: "'e pending_send \<Rightarrow> 'e ice_send" where
  "pendingIceSendAdapter send_fn ctx slot =
     send_fn ctx KVS_PENDING_MSG_ICE_CANDIDATE (ic_peer slot) [] (ic_payload slot)
       (ic_payload_len slot) (ic_version slot)"

definition holdBehindAnswer :: "pending \<Rightarrow> ice_hold" where
  "holdBehindAnswer p peerId \<longleftrightarrow> findAnswer p (Some peerId) \<noteq> None"

definition drain_ice :: "'e pending_send \<Rightarrow> 'e drain_env \<Rightarrow> 'e drain_env" where
  "drain_ice send_fn e =
     (case ice (de_p e) of
        None \<Rightarrow> e
      | Some xs \<Rightarrow>
          (case iceDrain xs (ice_count (de_p e)) (pendingIceSendAdapter send_fn)
                  (Some (holdBehindAnswer (de_p e)))
                  \<lparr>ie_send = de_send e, ie_sent = ice_sent (de_stats e),
                   ie_dropped = ice_dropped (de_stats e)\<rparr> of
             (ys, w, f) \<Rightarrow>
               e\<lparr>de_p := (de_p e)\<lparr>ice := Some ys, ice_count := w\<rparr>, de_send := ie_send f,
                 de_stats := (de_stats e)\<lparr>ice_sent := ie_sent f, ice_dropped := ie_dropped f\<rparr>\<rparr>))"

definition drain_answers :: "'e pending_send \<Rightarrow> uint64 \<Rightarrow> 'e drain_env \<Rightarrow> 'e drain_env" where
  "drain_answers send_fn now_ms e =
     (case drain_answers_loop send_fn now_ms (answer_count (de_p e)) 0 0 (answer_slots (de_p e)) e of
        (ys, w, e') \<Rightarrow>
          if answers (de_p e) \<noteq> None
          then e'\<lparr>de_p := (de_p e')\<lparr>answers := Some ys, answer_count := w\<rparr>\<rparr> else e')"

text \<open>
  \<open>kvsPendingSignalingDrain\<close>: the number still waiting, the statistics, the buffer, the
  callback's state and the heap. A NULL \<open>p\<close> or \<open>send_fn\<close> clears the statistics and returns.
\<close>

definition kvsPendingSignalingDrain :: "pending option \<Rightarrow> 'e pending_send option \<Rightarrow> 'e \<Rightarrow> uint64 \<Rightarrow> heap \<Rightarrow>
    nat \<times> drain_stats \<times> pending option \<times> 'e \<times> heap" where
  "kvsPendingSignalingDrain q send_fn ctx now_ms h =
     (case (q, send_fn) of
        (Some p, Some f) \<Rightarrow>
          (let e1 = drain_answers f now_ms
                      \<lparr>de_p = p, de_heap = h, de_stats = zero_stats, de_send = ctx\<rparr>;
               e2 = drain_ice f e1
           in case releaseEmpty (de_p e2) (de_heap e2) of (p', h') \<Rightarrow>
                (kvsPendingSignalingCount (Some p'), de_stats e2, Some p', de_send e2, h'))
      | _ \<Rightarrow> (kvsPendingSignalingCount q, zero_stats, q, ctx, h))"

interpretation answer_loop: compaction_loop
  "drain_answers_loop send_fn now_ms" "answer_body send_fn now_ms" purge_place
  for send_fn now_ms
proof unfold_locales
  fix r n w :: nat and xs e
  show "\<not> r < n \<Longrightarrow> drain_answers_loop send_fn now_ms n r w xs e = (xs, w, e)"
    by (simp add: drain_answers_loop.simps[of _ _ n])
next
  fix r n w :: nat and xs e keep c' e'
  assume r: "r < n" and d: "answer_body send_fn now_ms (xs ! r) e = (keep, c', e')"
  have "c' = xs ! r" using d
    by (auto simp: answer_body_def split: if_splits prod.splits)
  then show "drain_answers_loop send_fn now_ms n r w xs e =
      drain_answers_loop send_fn now_ms n (Suc r) (if keep then Suc w else w)
        (purge_place keep r w c' xs) e'"
    using r d by (auto simp: drain_answers_loop.simps[of _ _ n r] purge_place_same)
qed (auto simp: purge_place_def nth_list_update)

end
