(* ===== verification/Pending_Inv.thy ===== *)
theory Pending_Inv
  imports Pending_Batch
begin

text \<open>
  The lists that wait in a buffer, its invariant and its ledger of owned blocks, and what each
  internal operation of \<open>kvs_pending_ice.c\<close> does to them. The lemmas of this theory carry the
  properties of the root theory.
\<close>

section \<open>Views, invariant, ledger\<close>

definition wait_ice :: "pending \<Rightarrow> ice_candidate list" where
  "wait_ice p = (case ice p of None \<Rightarrow> [] | Some xs \<Rightarrow> take (ice_count p) xs)"

definition wait_answers :: "pending \<Rightarrow> answer list" where
  "wait_answers p = take (answer_count p) (answer_slots p)"

text \<open>Array pointers and counts agree, and arrays have their fixed size.\<close>

definition slots_ok :: "nat \<Rightarrow> 'a list option \<Rightarrow> nat \<Rightarrow> bool" where
  "slots_ok cap arr n =
     (case arr of None \<Rightarrow> n = 0 | Some xs \<Rightarrow> length xs = cap \<and> n \<le> cap)"

definition shape :: "pending \<Rightarrow> bool" where
  "shape p \<longleftrightarrow> slots_ok KVS_PENDING_ICE_MAX (ice p) (ice_count p) \<and>
     slots_ok KVS_PENDING_ANSWER_MAX (answers p) (answer_count p) \<and>
     slots_ok KVS_PENDING_PURGED_MAX (purged p) (purged_count p)"

text \<open>Nothing stays allocated for a kind of which nothing waits.\<close>

definition tight :: "pending \<Rightarrow> bool" where
  "tight p \<longleftrightarrow> (ice_count p = 0 \<longrightarrow> ice p = None) \<and> (answer_count p = 0 \<longrightarrow> answers p = None)"

definition cand_ok :: "ice_candidate \<Rightarrow> bool" where
  "cand_ok c \<longleftrightarrow> ic_attempts c < KVS_PENDING_ICE_MAX_ATTEMPTS \<and> 0 < ic_payload_len c \<and>
     ic_payload_len c < KVS_PENDING_ICE_PAYLOAD_LEN \<and> length (ic_peer c) < KVS_PENDING_ICE_PEERID_LEN"

definition ans_ok :: "answer \<Rightarrow> bool" where
  "ans_ok a \<longleftrightarrow> an_payload a \<noteq> None \<and> 0 < an_payload_len a \<and>
     length (an_peer a) < KVS_PENDING_ICE_PEERID_LEN \<and> length (an_corr a) < KVS_PENDING_CORRELATION_ID_LEN"

definition contents_ok :: "pending \<Rightarrow> bool" where
  "contents_ok p \<longleftrightarrow> list_all cand_ok (wait_ice p) \<and> list_all ans_ok (wait_answers p) \<and>
     distinct (map an_peer (wait_answers p)) \<and>
     list_all (\<lambda>q. length q < KVS_PENDING_ICE_PEERID_LEN) (purged_ids p)"

definition pending_inv :: "pending \<Rightarrow> bool" where
  "pending_inv p \<longleftrightarrow> shape p \<and> tight p \<and> contents_ok p"

text \<open>The heap blocks a buffer owns, and the blocks alive that it does not own.\<close>

definition blocks :: "pending \<Rightarrow> int" where
  "blocks p = owned (ice p) + owned (answers p) + owned (purged p) +
     (\<Sum>a\<leftarrow>wait_answers p. owned (an_payload a))"

definition balance :: "pending \<Rightarrow> heap \<Rightarrow> int" where
  "balance p h = live h - blocks p"

lemma slots_ok_simps [simp]:
  "slots_ok cap None n \<longleftrightarrow> n = 0"
  "slots_ok cap (Some xs) n \<longleftrightarrow> length xs = cap \<and> n \<le> cap"
  by (auto simp: slots_ok_def)

lemma length_wait_ice: "shape p \<Longrightarrow> length (wait_ice p) = ice_count p"
  by (auto simp: shape_def wait_ice_def split: option.splits)

lemma length_wait_answers: "shape p \<Longrightarrow> length (wait_answers p) = answer_count p"
  by (auto simp: shape_def wait_answers_def answer_slots_def slots_ok_def split: option.splits)

lemma nth_wait_answers:
  "i < answer_count p \<Longrightarrow> wait_answers p ! i = answer_slots p ! i"
  by (simp add: wait_answers_def)

lemma pending_inv_init: "pending_inv kvsPendingSignalingInit"
  by (simp add: pending_inv_def shape_def tight_def contents_ok_def kvsPendingSignalingInit_def
      wait_ice_def wait_answers_def answer_slots_def purged_ids_def)

section \<open>Lookup\<close>

lemma findAnswer_eq:
  assumes "shape p" "list_all ans_ok (wait_answers p)"
  shows "findAnswer p q = find (\<lambda>i. an_peer (wait_answers p ! i) = copyPeerId q) [0..<answer_count p]"
proof (cases "answers p")
  case None
  with assms(1) show ?thesis by (simp add: findAnswer_def shape_def)
next
  case (Some xs)
  have "samePeer (an_peer (xs ! i)) q = (an_peer (wait_answers p ! i) = copyPeerId q)"
    if "i \<in> set [0..<answer_count p]" for i
  proof -
    from that have i: "i < answer_count p" by simp
    then have w: "wait_answers p ! i = xs ! i"
      using Some by (simp add: nth_wait_answers answer_slots_def)
    have "wait_answers p ! i \<in> set (wait_answers p)"
      using i length_wait_answers[OF assms(1)] by (intro nth_mem) simp
    then have "length (an_peer (xs ! i)) < KVS_PENDING_ICE_PEERID_LEN"
      using assms(2) w by (auto simp: list_all_iff ans_ok_def)
    then show ?thesis using w by (simp add: samePeer_iff)
  qed
  then have "find (\<lambda>i. samePeer (an_peer (xs ! i)) q) [0..<answer_count p] =
      find (\<lambda>i. an_peer (wait_answers p ! i) = copyPeerId q) [0..<answer_count p]"
    by (intro find_cong refl)
  then show ?thesis using Some by (simp add: findAnswer_def)
qed

lemma findAnswer_None:
  assumes "shape p" "list_all ans_ok (wait_answers p)"
  shows "findAnswer p q = None \<longleftrightarrow> copyPeerId q \<notin> an_peer ` set (wait_answers p)"
proof -
  have "findAnswer p q = None \<longleftrightarrow> (\<forall>i < answer_count p. an_peer (wait_answers p ! i) \<noteq> copyPeerId q)"
    by (auto simp: findAnswer_eq[OF assms] find_None_iff)
  also have "\<dots> \<longleftrightarrow> (\<forall>a \<in> set (wait_answers p). an_peer a \<noteq> copyPeerId q)"
    using length_wait_answers[OF assms(1)] by (metis in_set_conv_nth)
  finally show ?thesis by (auto simp: image_iff)
qed

lemma findAnswer_Some:
  assumes "shape p" "list_all ans_ok (wait_answers p)" "findAnswer p q = Some i"
  shows "i < answer_count p" "an_peer (wait_answers p ! i) = copyPeerId q"
  using assms(3) by (auto simp: findAnswer_eq[OF assms(1,2)] find_Some_iff)

section \<open>What the internal operations do\<close>

text \<open>\<open>same_rest p p'\<close>: the two buffers agree on everything but their answers and candidates.\<close>

definition same_rest :: "pending \<Rightarrow> pending \<Rightarrow> bool" where
  "same_rest p p' \<longleftrightarrow> batch_out p' = batch_out p \<and> purged p' = purged p \<and> purged_count p' = purged_count p"

lemma same_rest_refl [simp]: "same_rest p p"
  by (simp add: same_rest_def)

lemma same_rest_trans: "same_rest p q \<Longrightarrow> same_rest q r \<Longrightarrow> same_rest p r"
  by (simp add: same_rest_def)

lemma same_rest_purged_ids: "same_rest p p' \<Longrightarrow> purged_ids p' = purged_ids p"
  by (simp add: same_rest_def purged_ids_def split: option.splits)

lemma releaseEmpty_spec:
  assumes "shape p" "releaseEmpty p h = (p', h')"
  shows "shape p'" "tight p'" "wait_ice p' = wait_ice p" "wait_answers p' = wait_answers p"
    "same_rest p p'" "balance p' h' = balance p h"
  using assms
  by (auto simp: releaseEmpty_def Let_def shape_def tight_def wait_ice_def wait_answers_def
      same_rest_def balance_def blocks_def answer_slots_def pendingFree_def split: if_splits option.splits)

lemma removeAnswerAt_spec:
  assumes "shape p" "i < answer_count p" "removeAnswerAt p i h = (p', h')"
  shows "shape p'" "wait_ice p' = wait_ice p"
    "wait_answers p' = take i (wait_answers p) @ drop (Suc i) (wait_answers p)"
    "same_rest p p'" "balance p' h' = balance p h"
proof -
  obtain xs where xs: "answers p = Some xs"
    using assms(1,2) by (cases "answers p") (auto simp: shape_def)
  have len: "length xs = KVS_PENDING_ANSWER_MAX" "answer_count p \<le> length xs"
    using assms(1) xs by (auto simp: shape_def)
  define n where "n = answer_count p - 1"
  have n: "i \<le> n" "n < length xs" "answer_count p = Suc n"
    using assms(2) len by (auto simp: n_def)
  have sd: "take n (shift_down i n xs) = take i xs @ drop (Suc i) (take (Suc n) xs)"
    using shift_down_take n(1,2) by blast
  have p': "p' = p\<lparr>answers := Some (shift_down i n xs), answer_count := n\<rparr>"
    and h': "h' = pendingFree h (an_payload (xs ! i))"
    using assms(3) xs by (auto simp: removeAnswerAt_def n_def answer_slots_def)
  show wa: "wait_answers p' = take i (wait_answers p) @ drop (Suc i) (wait_answers p)"
    using sd n xs by (simp add: p' wait_answers_def answer_slots_def min_absorb1)
  show "shape p'" using assms(1) len n by (auto simp: p' shape_def)
  show "wait_ice p' = wait_ice p" by (simp add: p' wait_ice_def split: option.splits)
  show "same_rest p p'" by (simp add: p' same_rest_def)
  define L R where "L = take i (wait_answers p)" and "R = drop (Suc i) (wait_answers p)"
  have e: "wait_answers p = L @ xs ! i # R"
    using id_take_nth_drop[of i "wait_answers p"] assms(1,2) xs
    by (simp add: length_wait_answers nth_wait_answers answer_slots_def L_def R_def)
  have e': "wait_answers p' = L @ R" using wa by (simp add: L_def R_def)
  have "(\<Sum>a\<leftarrow>wait_answers p. owned (an_payload a)) =
      (\<Sum>a\<leftarrow>wait_answers p'. owned (an_payload a)) + owned (an_payload (xs ! i))"
    by (simp add: e e')
  then show "balance p' h' = balance p h"
    by (simp add: balance_def blocks_def h' pendingFree_def) (simp add: p' xs)
qed

lemma purge_ice_spec:
  assumes "shape p" "purge_ice p (Some q) = (k, p')"
  shows "shape p'" "wait_ice p' = filter (\<lambda>c. \<not> purges q c) (wait_ice p)"
    "k = length (filter (purges q) (wait_ice p))"
    "wait_answers p' = wait_answers p" "answers p' = answers p" "answer_count p' = answer_count p"
    "same_rest p p'" "balance p' h = balance p h" "ice p' = None \<longleftrightarrow> ice p = None"
proof -
  consider "ice p = None" | xs where "ice p = Some xs" by (cases "ice p") auto
  then have "shape p' \<and> wait_ice p' = filter (\<lambda>c. \<not> purges q c) (wait_ice p) \<and>
      k = length (filter (purges q) (wait_ice p)) \<and> wait_answers p' = wait_answers p \<and>
      answers p' = answers p \<and> answer_count p' = answer_count p \<and> same_rest p p' \<and>
      balance p' h = balance p h \<and> (ice p' = None \<longleftrightarrow> ice p = None)"
  proof cases
    case 1
    then show ?thesis using assms by (auto simp: purge_ice_def wait_ice_def)
  next
    case 2
    obtain ys w r where l: "purge_loop q (ice_count p) 0 0 xs 0 = (ys, w, r)"
      by (cases "purge_loop q (ice_count p) 0 0 xs 0") auto
    have le: "ice_count p \<le> length xs" and len: "length xs = KVS_PENDING_ICE_MAX"
      using assms(1) 2 by (auto simp: shape_def)
    note R = purge_loop_refines[OF le l]
    have "p' = p\<lparr>ice := Some ys, ice_count := w\<rparr>" "k = r"
      using assms(2) 2 l by (auto simp: purge_ice_def kvsPendingIcePurgePeer_def)
    then show ?thesis using R 2 assms(1) len
      by (auto simp: shape_def wait_ice_def wait_answers_def answer_slots_def same_rest_def
          balance_def blocks_def)
  qed
  then show "shape p'" "wait_ice p' = filter (\<lambda>c. \<not> purges q c) (wait_ice p)"
    "k = length (filter (purges q) (wait_ice p))"
    "wait_answers p' = wait_answers p" "answers p' = answers p" "answer_count p' = answer_count p"
    "same_rest p p'" "balance p' h = balance p h" "ice p' = None \<longleftrightarrow> ice p = None"
    by blast+
qed

lemma ensureAnswerSlots_spec:
  assumes "shape p" "ensureAnswerSlots p h = (ok, p', h')"
  shows "shape p'" "wait_ice p' = wait_ice p" "wait_answers p' = wait_answers p"
    "same_rest p p'" "balance p' h' = balance p h" "ok \<longleftrightarrow> answers p' \<noteq> None"
    "ice p' = ice p" "ice_count p' = ice_count p" "answer_count p' = answer_count p" "\<not> ok \<Longrightarrow> p' = p"
proof -
  obtain g h1 where g: "heap_calloc h = (g, h1)" by (cases "heap_calloc h") auto
  note gl = heap_calloc_live[OF g]
  show "shape p'" "wait_ice p' = wait_ice p" "wait_answers p' = wait_answers p"
    "same_rest p p'" "balance p' h' = balance p h" "ok \<longleftrightarrow> answers p' \<noteq> None"
    "ice p' = ice p" "ice_count p' = ice_count p" "answer_count p' = answer_count p" "\<not> ok \<Longrightarrow> p' = p"
    using assms g gl
    by (auto simp: ensureAnswerSlots_def pendingCalloc_def shape_def wait_ice_def wait_answers_def
        answer_slots_def same_rest_def balance_def blocks_def split: option.splits if_splits)
qed

section \<open>The abstract buffer\<close>

text \<open>
  What the buffer promises, on lists: the answers that wait, one per peer, and the candidates in
  the order they came.
\<close>

record pspec =
  sp_answers :: "answer list"
  sp_ice :: "ice_candidate list"

definition abs_pending :: "pending \<Rightarrow> pspec" where
  "abs_pending p = \<lparr>sp_answers = wait_answers p, sp_ice = wait_ice p\<rparr>"

lemma abs_pending_sel [simp]:
  "sp_answers (abs_pending p) = wait_answers p" "sp_ice (abs_pending p) = wait_ice p"
  by (simp_all add: abs_pending_def)

definition spec_ok :: "pspec \<Rightarrow> bool" where
  "spec_ok s \<longleftrightarrow> list_all cand_ok (sp_ice s) \<and> list_all ans_ok (sp_answers s) \<and>
     distinct (map an_peer (sp_answers s))"

lemma contents_spec:
  "contents_ok p \<longleftrightarrow> spec_ok (abs_pending p) \<and>
     list_all (\<lambda>q. length q < KVS_PENDING_ICE_PEERID_LEN) (purged_ids p)"
  by (auto simp: contents_ok_def spec_ok_def)

definition oldest_of :: "answer list \<Rightarrow> nat option" where
  "oldest_of ws =
     foldl (\<lambda>oldest i. case oldest of
              None \<Rightarrow> Some i
            | Some j \<Rightarrow> if an_queued_at (ws ! i) < an_queued_at (ws ! j) then Some i else oldest)
       None [0..<length ws]"

text \<open>Everything of one peer leaves.\<close>

definition drop_peer_ice :: "string \<Rightarrow> ice_candidate list \<Rightarrow> ice_candidate list" where
  "drop_peer_ice q cs = filter (\<lambda>c. ic_peer c \<noteq> q) cs"

definition drop_peer_answer :: "string \<Rightarrow> answer list \<Rightarrow> answer list" where
  "drop_peer_answer q ws = filter (\<lambda>a. an_peer a \<noteq> q) ws"

definition spec_insert :: "answer \<Rightarrow> pspec \<Rightarrow> pspec option" where
  "spec_insert a s =
     (let ws = sp_answers s
      in if an_peer a \<in> an_peer ` set ws
         then Some (s\<lparr>sp_answers := map (\<lambda>x. if an_peer x = an_peer a then a else x) ws\<rparr>)
         else if length ws < KVS_PENDING_ANSWER_MAX then Some (s\<lparr>sp_answers := ws @ [a]\<rparr>)
         else (case oldest_of ws of
                 None \<Rightarrow> None
               | Some j \<Rightarrow>
                   if an_queued_at (ws ! j) > an_queued_at a then None
                   else Some \<lparr>sp_answers = drop_peer_answer (an_peer (ws ! j)) ws @ [a],
                              sp_ice = drop_peer_ice (an_peer (ws ! j)) (sp_ice s)\<rparr>))"

lemma oldest_fold:
  fixes ws :: "answer list" and n :: nat
  defines "f \<equiv> (\<lambda>oldest i. case oldest of
              None \<Rightarrow> Some i
            | Some j \<Rightarrow> if an_queued_at (ws ! i) < an_queued_at (ws ! j) then Some i else oldest)"
  shows "case foldl f None [0..<n] of
           None \<Rightarrow> n = 0
         | Some j \<Rightarrow> j < n \<and> (\<forall>i < n. an_queued_at (ws ! j) \<le> an_queued_at (ws ! i))"
proof (induction n)
  case 0
  then show ?case by simp
next
  case (Suc n)
  then show ?case
    by (auto simp: f_def less_Suc_eq split: option.splits)
qed

lemma oldest_of_Some:
  assumes "oldest_of ws = Some j"
  shows "j < length ws" "\<And>i. i < length ws \<Longrightarrow> an_queued_at (ws ! j) \<le> an_queued_at (ws ! i)"
  using oldest_fold[where ws = ws and n = "length ws"] assms
  by (auto simp: oldest_of_def)

lemma oldest_of_None: "oldest_of ws = None \<longleftrightarrow> ws = []"
proof
  show "oldest_of ws = None \<Longrightarrow> ws = []"
    using oldest_fold[where ws = ws and n = "length ws"] by (auto simp: oldest_of_def)
qed (simp add: oldest_of_def)

lemma oldest_fold_cong:
  assumes "\<And>i. i < n \<Longrightarrow> xs ! i = (ws ! i :: answer)"
  shows "foldl (\<lambda>oldest i. case oldest of None \<Rightarrow> Some i
            | Some j \<Rightarrow> if an_queued_at (xs ! i) < an_queued_at (xs ! j) then Some i else oldest) None [0..<n] =
         foldl (\<lambda>oldest i. case oldest of None \<Rightarrow> Some i
            | Some j \<Rightarrow> if an_queued_at (ws ! i) < an_queued_at (ws ! j) then Some i else oldest) None [0..<n]"
  using assms
proof (induction n)
  case 0
  then show ?case by simp
next
  case (Suc n)
  then show ?case using oldest_fold[where ws = ws and n = n]
    by (auto split: option.splits)
qed

lemma findOldest_eq: "shape p \<Longrightarrow> findOldestAnswer p = oldest_of (wait_answers p)"
  unfolding findOldestAnswer_def oldest_of_def length_wait_answers
  by (intro oldest_fold_cong) (simp add: nth_wait_answers)

section \<open>Inserting an answer\<close>

lemma distinct_key_update:
  assumes "distinct (map f ws)" "i < length ws" "f (ws ! i) = k"
  shows "ws[i := b] = map (\<lambda>x. if f x = k then b else x) ws"
  using assms by (intro nth_equalityI) (auto simp: nth_list_update nth_eq_iff_index_eq distinct_conv_nth)

lemma distinct_key_remove:
  assumes "distinct (map f ws)" "i < length ws"
  shows "take i ws @ drop (Suc i) ws = filter (\<lambda>x. f x \<noteq> f (ws ! i)) ws"
proof -
  define L x R where "L = take i ws" and "x = ws ! i" and "R = drop (Suc i) ws"
  have e: "ws = L @ x # R"
    using assms by (simp add: L_def R_def x_def id_take_nth_drop[symmetric])
  then have "distinct (map f (L @ x # R))" using assms(1) by simp
  then have "f x \<notin> f ` set L" "f x \<notin> f ` set R" by auto
  then have "filter (\<lambda>y. f y \<noteq> f x) L = L" "filter (\<lambda>y. f y \<noteq> f x) R = R"
    by (auto simp: filter_id_conv image_iff)
  then have "L @ R = filter (\<lambda>y. f y \<noteq> f x) ws" by (simp add: e)
  then show ?thesis by (simp add: L_def R_def x_def)
qed

lemma drop_peer_ice_purges:
  assumes "list_all cand_ok cs" "length q < KVS_PENDING_ICE_PEERID_LEN"
  shows "filter (\<lambda>c. \<not> purges q c) cs = drop_peer_ice q cs"
  using assms by (auto simp: drop_peer_ice_def list_all_iff cand_ok_def purges_fits intro!: filter_cong)

text \<open>The end of \<open>insertAnswer\<close>: the answer goes into the first free slot.\<close>

lemma append_answer:
  fixes a :: answer
  assumes "shape p" "answers p = Some xs" "answer_count p < KVS_PENDING_ANSWER_MAX"
  defines "p' \<equiv> p\<lparr>answers := Some (xs[answer_count p := a]), answer_count := Suc (answer_count p)\<rparr>"
  shows "shape p'" "wait_answers p' = wait_answers p @ [a]" "wait_ice p' = wait_ice p"
    "same_rest p p'" "balance p' h = balance p h - owned (an_payload a)"
proof -
  have l: "length xs = KVS_PENDING_ANSWER_MAX" using assms(1,2) by (auto simp: shape_def)
  show wa: "wait_answers p' = wait_answers p @ [a]"
    using assms(2,3) l by (simp add: p'_def wait_answers_def answer_slots_def take_Suc_conv_app_nth)
  show "shape p'" using assms(1,3) l by (auto simp: p'_def shape_def)
  show wi: "wait_ice p' = wait_ice p" by (simp add: p'_def wait_ice_def split: option.splits)
  show "same_rest p p'" by (simp add: p'_def same_rest_def)
  show "balance p' h = balance p h - owned (an_payload a)"
    using assms(2) by (simp add: balance_def blocks_def wa) (simp add: p'_def)
qed

lemma replace_answer:
  fixes a :: answer
  assumes "shape p" "answers p = Some xs" "i < answer_count p"
  defines "p' \<equiv> p\<lparr>answers := Some (xs[i := a])\<rparr>"
  shows "shape p'" "wait_answers p' = (wait_answers p)[i := a]" "wait_ice p' = wait_ice p"
    "same_rest p p'"
    "balance p' (pendingFree h (an_payload (xs ! i))) = balance p h - owned (an_payload a)"
proof -
  have l: "length xs = KVS_PENDING_ANSWER_MAX" using assms(1,2) by (auto simp: shape_def)
  show wa: "wait_answers p' = (wait_answers p)[i := a]"
    using assms(2) by (simp add: p'_def wait_answers_def answer_slots_def take_update_swap)
  show "shape p'" using assms(1,2) l by (auto simp: p'_def shape_def)
  show wi: "wait_ice p' = wait_ice p" by (simp add: p'_def wait_ice_def split: option.splits)
  show "same_rest p p'" by (simp add: p'_def same_rest_def)
  have "wait_answers p ! i = xs ! i"
    using assms(2,3) by (simp add: nth_wait_answers answer_slots_def)
  then show "balance p' (pendingFree h (an_payload (xs ! i))) = balance p h - owned (an_payload a)"
    using assms(1,2,3) sum_list_upd[of i "wait_answers p" "\<lambda>a. owned (an_payload a)" a]
    by (simp add: balance_def blocks_def wa length_wait_answers pendingFree_def) (simp add: p'_def)
qed

lemma insertAnswer_refines:
  assumes p: "shape p" "spec_ok (abs_pending p)" "answers p \<noteq> None"
    and a: "length (an_peer a) < KVS_PENDING_ICE_PEERID_LEN"
    and run: "insertAnswer p a h = (ok, p', h')"
  shows "case spec_insert a (abs_pending p) of
           None \<Rightarrow> \<not> ok \<and> p' = p \<and> h' = h
         | Some s \<Rightarrow> ok \<and> abs_pending p' = s \<and> shape p' \<and> same_rest p p' \<and> answers p' \<noteq> None \<and>
                     balance p' h' = balance p h - owned (an_payload a)"
proof -
  obtain xs where xs: "answers p = Some xs" using p(3) by blast
  have good: "list_all ans_ok (wait_answers p)" "list_all cand_ok (wait_ice p)"
    and dist: "distinct (map an_peer (wait_answers p))"
    using p(2) by (auto simp: spec_ok_def)
  have key: "copyPeerId (Some (an_peer a)) = an_peer a" using a by (rule copyPeerId_fits)
  have len: "length (wait_answers p) = answer_count p" using p(1) by (rule length_wait_answers)
  show ?thesis
  proof (cases "findAnswer p (Some (an_peer a))")
    case (Some i)
    note F = findAnswer_Some[OF p(1) good(1) Some, unfolded key]
    have i: "an_peer a \<in> an_peer ` set (wait_answers p)"
      using F len by (metis image_eqI nth_mem)
    have "p' = p\<lparr>answers := Some (xs[i := a])\<rparr>" "ok" "h' = pendingFree h (an_payload (xs ! i))"
      using run Some xs by (auto simp: insertAnswer_def answer_slots_def)
    then show ?thesis
      using replace_answer[OF p(1) xs F(1), of a] distinct_key_update[OF dist, of i "an_peer a"] F len i
      by (simp add: spec_insert_def abs_pending_def)
  next
    case None
    then have new: "an_peer a \<notin> an_peer ` set (wait_answers p)"
      using findAnswer_None[OF p(1) good(1), of "Some (an_peer a)"] key by simp
    show ?thesis
    proof (cases "answer_count p < KVS_PENDING_ANSWER_MAX")
      case True
      have "p' = p\<lparr>answers := Some (xs[answer_count p := a]), answer_count := Suc (answer_count p)\<rparr>"
        "ok" "h' = h"
        using run None True xs by (auto simp: insertAnswer_def Let_def)
      then show ?thesis using append_answer[OF p(1) xs True, of a] new True len
        by (simp add: spec_insert_def abs_pending_def Let_def)
    next
      case False
      then have "wait_answers p \<noteq> []" using len by (auto simp: pending_limits)
      then obtain j where j: "oldest_of (wait_answers p) = Some j" using oldest_of_None by blast
      note O = oldest_of_Some[OF j]
      define v where "v = wait_answers p ! j"
      have slot: "answer_slots p ! j = v" using O(1) len by (simp add: v_def nth_wait_answers)
      have vv: "length (an_peer v) < KVS_PENDING_ICE_PEERID_LEN"
        using good(1) O(1) by (auto simp: v_def list_all_length ans_ok_def)
      show ?thesis
      proof (cases "an_queued_at v > an_queued_at a")
        case True
        have sp: "spec_insert a (abs_pending p) = None"
          using new False j len True by (simp add: spec_insert_def v_def Let_def)
        have "\<not> ok \<and> p' = p \<and> h' = h" using run None False j slot True
          by (auto simp: insertAnswer_def Let_def findOldest_eq[OF p(1)])
        then show ?thesis by (simp add: sp)
      next
        case old: False
        obtain k p1 where p1: "purge_ice p (Some (an_peer v)) = (k, p1)"
          by (cases "purge_ice p (Some (an_peer v))") auto
        note P = purge_ice_spec[OF p(1) p1]
        obtain p2 h2 where p2: "removeAnswerAt p1 j h = (p2, h2)" by (cases "removeAnswerAt p1 j h") auto
        have j1: "j < answer_count p1" using O(1) len P(6) by simp
        note R = removeAnswerAt_spec[OF P(1) j1 p2]
        have rest: "wait_answers p2 = drop_peer_answer (an_peer v) (wait_answers p)"
          using R(3) P(4) distinct_key_remove[OF dist O(1)] by (simp add: drop_peer_answer_def v_def)
        obtain ys where ys: "answers p2 = Some ys"
          using p2 P(5) xs by (auto simp: removeAnswerAt_def)
        have c2: "answer_count p2 = answer_count p - 1" using p2 P(6) by (auto simp: removeAnswerAt_def)
        have "answer_count p = KVS_PENDING_ANSWER_MAX"
          using False p(1) xs by (auto simp: shape_def)
        then have room: "answer_count p2 < KVS_PENDING_ANSWER_MAX" using c2 by (simp add: pending_limits)
        have fin: "p' = p2\<lparr>answers := Some (ys[answer_count p2 := a]), answer_count := Suc (answer_count p2)\<rparr>"
          "ok" "h' = h2"
          using run None False j slot old p1 p2 ys
          by (auto simp: insertAnswer_def Let_def findOldest_eq[OF p(1)])
        note A = append_answer[OF R(1) ys room, of a]
        have sp: "spec_insert a (abs_pending p) =
            Some \<lparr>sp_answers = drop_peer_answer (an_peer v) (wait_answers p) @ [a],
                  sp_ice = drop_peer_ice (an_peer v) (wait_ice p)\<rparr>"
          using new False j old len by (simp add: spec_insert_def v_def Let_def)
        have ab: "abs_pending p' = \<lparr>sp_answers = drop_peer_answer (an_peer v) (wait_answers p) @ [a],
                  sp_ice = drop_peer_ice (an_peer v) (wait_ice p)\<rparr>"
          using A(2,3) R(2) P(2) rest fin(1) drop_peer_ice_purges[OF good(2) vv]
          by (simp add: abs_pending_def)
        have sr: "same_rest p p'"
          using same_rest_trans[OF same_rest_trans[OF P(7) R(4)] A(4)] fin(1) by simp
        have bal: "balance p' h' = balance p h - owned (an_payload a)"
          using A(5)[of h2] R(5) P(8)[of h] fin by simp
        have "shape p'" "answers p' \<noteq> None" using A(1) fin(1) by simp_all
        then show ?thesis unfolding sp using ab sr bal fin(2) by simp
      qed
    qed
  qed
qed

end
