(* ===== verification/Pending_Api.thy ===== *)
theory Pending_Api
  imports Pending_Inv
begin

text \<open>
  What each call of \<open>kvs_pending_ice.h\<close> on one buffer does to the lists that wait, to the
  invariant and to the ledger.
\<close>

section \<open>Common ends of the calls\<close>

definition purged_ok :: "pending \<Rightarrow> bool" where
  "purged_ok p \<longleftrightarrow> list_all (\<lambda>q. length q < KVS_PENDING_ICE_PEERID_LEN) (purged_ids p)"

lemma pending_inv_alt:
  "pending_inv p \<longleftrightarrow> shape p \<and> tight p \<and> spec_ok (abs_pending p) \<and> purged_ok p"
  by (auto simp: pending_inv_def contents_spec purged_ok_def)

lemma purged_ok_rest: "same_rest p p' \<Longrightarrow> purged_ok p \<Longrightarrow> purged_ok p'"
  by (simp add: purged_ok_def same_rest_purged_ids)

lemma release_inv:
  assumes "shape p" "spec_ok (abs_pending p)" "purged_ok p" "releaseEmpty p h = (p', h')"
  shows "pending_inv p'" "abs_pending p' = abs_pending p" "same_rest p p'" "balance p' h' = balance p h"
  using releaseEmpty_spec[OF assms(1,4)] assms(2,3)
  by (auto simp: pending_inv_alt abs_pending_def intro: purged_ok_rest)

lemma spec_ok_answers:
  assumes "spec_ok s"
  shows "list_all cand_ok (sp_ice s)" "list_all ans_ok (sp_answers s)" "distinct (map an_peer (sp_answers s))"
  using assms by (auto simp: spec_ok_def)

lemma drop_peer_ice_ok: "list_all cand_ok cs \<Longrightarrow> list_all cand_ok (drop_peer_ice q cs)"
  by (auto simp: drop_peer_ice_def list_all_iff)

lemma drop_peer_answer_ok:
  "list_all ans_ok ws \<Longrightarrow> list_all ans_ok (drop_peer_answer q ws)"
  "distinct (map an_peer ws) \<Longrightarrow> distinct (map an_peer (drop_peer_answer q ws))"
  by (auto simp: drop_peer_answer_def list_all_iff distinct_map_filter)

lemma drop_peer_answer_peers:
  "an_peer ` set (drop_peer_answer q ws) = an_peer ` set ws - {q}"
  by (auto simp: drop_peer_answer_def)

lemma spec_insert_ok:
  assumes "spec_ok s" "ans_ok a" "spec_insert a s = Some s'"
  shows "spec_ok s'"
proof -
  note S = spec_ok_answers[OF assms(1)]
  consider (dup) "an_peer a \<in> an_peer ` set (sp_answers s)"
    | (app) "an_peer a \<notin> an_peer ` set (sp_answers s)" "length (sp_answers s) < KVS_PENDING_ANSWER_MAX"
    | (evict) "an_peer a \<notin> an_peer ` set (sp_answers s)" "\<not> length (sp_answers s) < KVS_PENDING_ANSWER_MAX"
    by blast
  then show ?thesis
  proof cases
    case dup
    define f where "f = (\<lambda>x. if an_peer x = an_peer a then a else x)"
    have s': "s' = s\<lparr>sp_answers := map f (sp_answers s)\<rparr>"
      using dup assms(3) by (auto simp: spec_insert_def f_def)
    have "map an_peer (map f (sp_answers s)) = map an_peer (sp_answers s)" by (simp add: f_def)
    then have "distinct (map an_peer (sp_answers s'))" using S(3) by (simp add: s' del: map_map)
    moreover have "list_all ans_ok (map f (sp_answers s))"
      using S(2) assms(2) by (auto simp: list_all_iff f_def)
    ultimately show ?thesis using S(1) by (simp add: spec_ok_def s')
  next
    case app
    then show ?thesis using S assms(2,3) by (auto simp: spec_insert_def spec_ok_def)
  next
    case evict
    then obtain j where j: "s' = \<lparr>sp_answers = drop_peer_answer (an_peer (sp_answers s ! j)) (sp_answers s) @ [a],
        sp_ice = drop_peer_ice (an_peer (sp_answers s ! j)) (sp_ice s)\<rparr>"
      using assms(3) by (auto simp: spec_insert_def Let_def split: option.splits if_splits)
    then show ?thesis
      using S assms(2) evict drop_peer_ice_ok[OF S(1)] drop_peer_answer_ok(1)[OF S(2)] drop_peer_answer_ok(2)[OF S(3)]
      by (auto simp: spec_ok_def drop_peer_answer_peers)
  qed
qed

lemma spec_insert_from:
  assumes "spec_insert a s = Some s'"
  shows "set (sp_answers s') \<subseteq> insert a (set (sp_answers s))" "set (sp_ice s') \<subseteq> set (sp_ice s)"
    "a \<in> set (sp_answers s')"
  using assms
  by (auto simp: spec_insert_def Let_def drop_peer_answer_def drop_peer_ice_def
      split: if_splits option.splits)

lemma mk_answer_ok: "0 < n \<Longrightarrow> ans_ok (mk_answer q c s n v t)"
  by (auto simp: ans_ok_def mk_answer_def copyPeerId_length pending_limits strncpy_term_def
      copyPeerId_length[unfolded pending_limits, simplified] split: option.splits)

section \<open>Putting an answer\<close>

lemma putAnswer_spec:
  assumes inv: "pending_inv p"
    and run: "kvsPendingSignalingPutAnswer p q c payload n v t h = (ok, p', h')"
  shows "pending_inv p' \<and> same_rest p p' \<and> balance p' h' = balance p h \<and>
    (if ok then \<exists>bytes. payload = Some bytes \<and> 0 < n \<and>
         spec_insert (mk_answer q c bytes n v t) (abs_pending p) = Some (abs_pending p')
     else abs_pending p' = abs_pending p)"
proof -
  have P: "shape p" "tight p" "spec_ok (abs_pending p)" "purged_ok p"
    using inv by (auto simp: pending_inv_alt)
  consider "payload = None \<or> n = 0" | bytes where "payload = Some bytes" "0 < n"
    by (cases payload) auto
  then show ?thesis
  proof cases
    case 1
    then show ?thesis using run inv
      by (auto simp: kvsPendingSignalingPutAnswer_def split: option.splits)
  next
    case (2 bytes)
    define a where "a = mk_answer q c bytes n v t"
    have aok: "ans_ok a" using 2 by (simp add: a_def mk_answer_ok)
    have apl: "owned (an_payload a) = 1" by (simp add: a_def mk_answer_def)
    obtain e p1 h1 where e: "ensureAnswerSlots p h = (e, p1, h1)" by (cases "ensureAnswerSlots p h") auto
    note E = ensureAnswerSlots_spec[OF P(1) e]
    have abs1: "abs_pending p1 = abs_pending p" using E(2,3) by (simp add: abs_pending_def)
    have po1: "purged_ok p1" using purged_ok_rest[OF E(4) P(4)] .
    obtain g h2 where g: "pendingCalloc h1 = (g, h2)" by (cases "pendingCalloc h1") auto
    have bal2: "balance p1 h2 = balance p h + (if g then 1 else 0)"
      using heap_calloc_live[of h1 g h2] g E(5) by (auto simp: balance_def pendingCalloc_def)
    show ?thesis
    proof (cases "e \<and> g")
      case False
      have "\<not> ok \<and> (p1 = p \<and> p' = p \<and> h' = h1 \<or> e \<and> \<not> g \<and> releaseEmpty p1 h2 = (p', h'))"
        using run 2 e g False E(10)
        by (cases e; cases g) (auto simp: kvsPendingSignalingPutAnswer_def split: prod.splits)
      then show ?thesis
        using release_inv[OF E(1) _ po1] abs1 P(3) E(4,5) bal2 inv
        by (auto intro: same_rest_trans)
    next
      case True
      then have ne: "answers p1 \<noteq> None" using E(6) by simp
      obtain pl p2 h3 where i: "insertAnswer p1 a h2 = (pl, p2, h3)" by (cases "insertAnswer p1 a h2") auto
      have al: "length (an_peer a) < KVS_PENDING_ICE_PEERID_LEN" using aok by (simp add: ans_ok_def)
      have R: "case spec_insert a (abs_pending p) of
           None \<Rightarrow> \<not> pl \<and> p2 = p1 \<and> h3 = h2
         | Some s \<Rightarrow> pl \<and> abs_pending p2 = s \<and> shape p2 \<and> same_rest p1 p2 \<and> answers p2 \<noteq> None \<and>
                     balance p2 h3 = balance p1 h2 - owned (an_payload a)"
        using insertAnswer_refines[OF E(1) _ ne al i] abs1 P(3) by simp
      show ?thesis
      proof (cases pl)
        case True
        then obtain s where s: "spec_insert a (abs_pending p) = Some s" using R by (auto split: option.splits)
        then have T: "abs_pending p2 = s" "shape p2" "same_rest p1 p2" "balance p2 h3 = balance p h"
          using R bal2 apl \<open>e \<and> g\<close> by auto
        have rel: "releaseEmpty p2 h3 = (p', h')" and ok
          using run 2 e g i True \<open>e \<and> g\<close>
          by (auto simp: kvsPendingSignalingPutAnswer_def a_def[symmetric] Let_def split: prod.splits)
        have "spec_ok (abs_pending p2)" using spec_insert_ok[OF P(3) aok s] T(1) by simp
        then show ?thesis
          using release_inv[OF T(2) _ purged_ok_rest[OF T(3) po1] rel] T s 2 \<open>ok\<close> same_rest_trans[OF E(4) same_rest_trans[OF T(3)]]
          by (auto simp: a_def)
      next
        case False
        then have T: "p2 = p1" "h3 = h2" using R by (auto split: option.splits)
        have rel: "releaseEmpty p1 (pendingFree h2 (an_payload a)) = (p', h')" and "\<not> ok"
          using run 2 e g i False \<open>e \<and> g\<close> T
          by (auto simp: kvsPendingSignalingPutAnswer_def a_def[symmetric] Let_def split: prod.splits)
        then show ?thesis
          using release_inv[OF E(1) _ po1 rel] abs1 P(3) E(4) bal2 apl \<open>e \<and> g\<close>
          by (auto simp: balance_def pendingFree_def intro: same_rest_trans)
      qed
    qed
  qed
qed

section \<open>Pushing a candidate\<close>

definition mk_candidate :: "string option \<Rightarrow> string \<Rightarrow> nat \<Rightarrow> uint32 \<Rightarrow> ice_candidate" where
  "mk_candidate q bytes n v = \<lparr>ic_peer = copyPeerId q, ic_payload = take n bytes,
     ic_payload_len = n, ic_version = v, ic_attempts = 0\<rparr>"

lemma mk_candidate_ok:
  "0 < n \<Longrightarrow> n < KVS_PENDING_ICE_PAYLOAD_LEN \<Longrightarrow> cand_ok (mk_candidate q bytes n v)"
  using copyPeerId_length[of q] by (simp add: cand_ok_def mk_candidate_def ice_limits)

lemma push_slots:
  assumes "shape p" "ice p = Some xs"
    and "kvsPendingIcePush (ice p) (Some (ice_count p)) q payload n v = (ok, ys, m)"
  defines "p' \<equiv> p\<lparr>ice := ys, ice_count := the m\<rparr>"
  shows "shape p'" "same_rest p p'" "balance p' h = balance p h" "wait_answers p' = wait_answers p"
    "wait_ice p' = (if ok then wait_ice p @ [mk_candidate q (the payload) n v] else wait_ice p)"
    "ok \<longleftrightarrow> payload \<noteq> None \<and> ice_count p < KVS_PENDING_ICE_MAX \<and> 0 < n \<and> n < KVS_PENDING_ICE_PAYLOAD_LEN"
    "ice p' \<noteq> None"
proof -
  have l: "length xs = KVS_PENDING_ICE_MAX" using assms(1,2) by (auto simp: shape_def)
  have e: "p' = (if ok then p\<lparr>ice := Some (xs[ice_count p := mk_candidate q (the payload) n v]),
                             ice_count := Suc (ice_count p)\<rparr> else p)"
    and k: "ok \<longleftrightarrow> payload \<noteq> None \<and> ice_count p < KVS_PENDING_ICE_MAX \<and> 0 < n \<and> n < KVS_PENDING_ICE_PAYLOAD_LEN"
    using assms(2,3) by (cases payload; auto simp: p'_def kvsPendingIcePush_def mk_candidate_def split: if_splits)+
  show "ok \<longleftrightarrow> payload \<noteq> None \<and> ice_count p < KVS_PENDING_ICE_MAX \<and> 0 < n \<and> n < KVS_PENDING_ICE_PAYLOAD_LEN" by (rule k)
  show "shape p'" using assms(1,2) l k by (simp add: e shape_def)
  show "same_rest p p'" by (simp add: e same_rest_def)
  show "wait_answers p' = wait_answers p" by (simp add: e wait_answers_def answer_slots_def)
  then show "balance p' h = balance p h" using assms(2) by (simp add: e balance_def blocks_def)
  show "wait_ice p' = (if ok then wait_ice p @ [mk_candidate q (the payload) n v] else wait_ice p)"
    using assms(2) l k by (simp add: e wait_ice_def take_Suc_conv_app_nth)
  show "ice p' \<noteq> None" using assms(2) by (simp add: e)
qed

lemma pushIce_spec:
  assumes inv: "pending_inv p"
    and run: "kvsPendingSignalingPushIce p q payload n v h = (ok, p', h')"
  shows "pending_inv p'" "same_rest p p'" "balance p' h' = balance p h"
    "wait_answers p' = wait_answers p"
    "wait_ice p' = (if ok then wait_ice p @ [mk_candidate q (the payload) n v] else wait_ice p)"
    "ok \<Longrightarrow> payload \<noteq> None \<and> ice_count p < KVS_PENDING_ICE_MAX \<and> 0 < n \<and> n < KVS_PENDING_ICE_PAYLOAD_LEN"
proof -
  have P: "shape p" "tight p" "spec_ok (abs_pending p)" "purged_ok p"
    using inv by (auto simp: pending_inv_alt)
  define alloc where "alloc = (case ice p of
           Some _ \<Rightarrow> (True, p, h)
         | None \<Rightarrow> (case pendingCalloc h of (ok, h') \<Rightarrow>
             (ok, if ok then p\<lparr>ice := Some (replicate KVS_PENDING_ICE_MAX zero_candidate)\<rparr> else p, h')))"
  obtain e p1 h1 where e: "alloc = (e, p1, h1)" by (cases alloc) auto
  have A: "shape p1" "same_rest p p1" "balance p1 h1 = balance p h" "wait_answers p1 = wait_answers p"
    "wait_ice p1 = wait_ice p" "e \<longleftrightarrow> ice p1 \<noteq> None" "ice_count p1 = ice_count p" "\<not> e \<Longrightarrow> p1 = p"
    using e P(1) heap_calloc_live[of h]
    by (auto simp: alloc_def pendingCalloc_def shape_def same_rest_def balance_def blocks_def
        wait_answers_def answer_slots_def wait_ice_def split: option.splits prod.splits if_splits)
  have unf: "kvsPendingSignalingPushIce p q payload n v h =
      (if \<not> e then (False, p1, h1)
       else (case kvsPendingIcePush (ice p1) (Some (ice_count p1)) q payload n v of
               (pushed, xs, m) \<Rightarrow> (case releaseEmpty (p1\<lparr>ice := xs, ice_count := the m\<rparr>) h1 of
                      (p2, h2) \<Rightarrow> (pushed, p2, h2))))"
    by (simp add: kvsPendingSignalingPushIce_def alloc_def[symmetric] e)
  have main: "pending_inv p' \<and> same_rest p p' \<and> balance p' h' = balance p h \<and>
    wait_answers p' = wait_answers p \<and>
    wait_ice p' = (if ok then wait_ice p @ [mk_candidate q (the payload) n v] else wait_ice p) \<and>
    (ok \<longrightarrow> payload \<noteq> None \<and> ice_count p < KVS_PENDING_ICE_MAX \<and> 0 < n \<and> n < KVS_PENDING_ICE_PAYLOAD_LEN)"
  proof (cases e)
    case False
    then show ?thesis using run unf A(3,8) inv by auto
  next
    case True
    then obtain xs where xs: "ice p1 = Some xs" using A(6) by blast
    obtain k ys m where k: "kvsPendingIcePush (ice p1) (Some (ice_count p1)) q payload n v = (k, ys, m)"
      by (cases "kvsPendingIcePush (ice p1) (Some (ice_count p1)) q payload n v") auto
    note S = push_slots[OF A(1) xs k]
    define p2 where "p2 = p1\<lparr>ice := ys, ice_count := the m\<rparr>"
    note S = S[folded p2_def]
    have rel: "releaseEmpty p2 h1 = (p', h')" "ok = k"
      using run unf True k by (auto simp: p2_def split: prod.splits)
    have "spec_ok (abs_pending p2)"
      using P(3) S(4,5,6) A(4,5) mk_candidate_ok[of n q "the payload" v] by (auto simp: spec_ok_def)
    then have R: "pending_inv p'" "abs_pending p' = abs_pending p2" "same_rest p2 p'"
      "balance p' h' = balance p2 h1"
      using release_inv[OF S(1) _ purged_ok_rest[OF S(2) purged_ok_rest[OF A(2) P(4)]] rel(1)] by auto
    have wa: "wait_answers p' = wait_answers p" and wi: "wait_ice p' = wait_ice p2"
      using R(2) S(4) A(4) by (simp_all add: abs_pending_def)
    have "balance p' h' = balance p h" using R(4) S(3)[of h1] A(3) by simp
    moreover have "same_rest p p'" by (rule same_rest_trans[OF A(2) same_rest_trans[OF S(2) R(3)]])
    moreover have "wait_ice p' = (if ok then wait_ice p @ [mk_candidate q (the payload) n v] else wait_ice p)"
      using wi S(5) A(5) rel(2) by simp
    moreover have "ok \<longrightarrow> payload \<noteq> None \<and> ice_count p < KVS_PENDING_ICE_MAX \<and> 0 < n \<and> n < KVS_PENDING_ICE_PAYLOAD_LEN"
      using S(6) A(7) rel(2) by simp
    ultimately show ?thesis using R(1) wa by blast
  qed
  then show "pending_inv p'" "same_rest p p'" "balance p' h' = balance p h"
    "wait_answers p' = wait_answers p"
    "wait_ice p' = (if ok then wait_ice p @ [mk_candidate q (the payload) n v] else wait_ice p)"
    "ok \<Longrightarrow> payload \<noteq> None \<and> ice_count p < KVS_PENDING_ICE_MAX \<and> 0 < n \<and> n < KVS_PENDING_ICE_PAYLOAD_LEN"
    by auto
qed

section \<open>Dropping an answer, purging a peer\<close>

lemma hasAnswer_iff:
  assumes "pending_inv p"
  shows "kvsPendingSignalingHasAnswer p q \<longleftrightarrow> copyPeerId q \<in> an_peer ` set (wait_answers p)"
  using assms findAnswer_None[of p q]
  by (auto simp: kvsPendingSignalingHasAnswer_def pending_inv_alt spec_ok_def)

lemma drop_peer_answer_absent:
  "q \<notin> an_peer ` set ws \<Longrightarrow> drop_peer_answer q ws = ws"
  by (auto simp: drop_peer_answer_def filter_id_conv)

lemma removeAnswer_drops:
  assumes "shape p" "spec_ok (abs_pending p)" "findAnswer p q = Some i" "removeAnswerAt p i h = (p', h')"
  shows "shape p'" "wait_ice p' = wait_ice p"
    "wait_answers p' = drop_peer_answer (copyPeerId q) (wait_answers p)"
    "same_rest p p'" "balance p' h' = balance p h"
    "length (wait_answers p) = Suc (length (wait_answers p'))"
    "copyPeerId q \<in> an_peer ` set (wait_answers p)" "ice p' = ice p" "ice_count p' = ice_count p"
proof -
  have good: "list_all ans_ok (wait_answers p)" and dist: "distinct (map an_peer (wait_answers p))"
    using assms(2) by (auto simp: spec_ok_def)
  note F = findAnswer_Some[OF assms(1) good assms(3)]
  note R = removeAnswerAt_spec[OF assms(1) F(1) assms(4)]
  have il: "i < length (wait_answers p)" using F(1) length_wait_answers[OF assms(1)] by simp
  show "shape p'" "wait_ice p' = wait_ice p" "same_rest p p'" "balance p' h' = balance p h"
    using R by auto
  show "wait_answers p' = drop_peer_answer (copyPeerId q) (wait_answers p)"
    using R(3) distinct_key_remove[OF dist il] F(2) by (simp add: drop_peer_answer_def)
  show "length (wait_answers p) = Suc (length (wait_answers p'))"
    using R(3) il by simp
  show "copyPeerId q \<in> an_peer ` set (wait_answers p)" using F(2) il by (metis image_eqI nth_mem)
  show "ice p' = ice p" "ice_count p' = ice_count p" using assms(4) by (auto simp: removeAnswerAt_def)
qed

lemma spec_ok_drop: "spec_ok s \<Longrightarrow>
    spec_ok \<lparr>sp_answers = drop_peer_answer q (sp_answers s), sp_ice = sp_ice s\<rparr>"
  by (simp add: spec_ok_def drop_peer_answer_ok)

lemma dropAnswer_spec:
  assumes inv: "pending_inv p" and run: "kvsPendingSignalingDropAnswer p q h = (ok, p', h')"
  shows "pending_inv p'" "same_rest p p'" "balance p' h' = balance p h"
    "wait_ice p' = wait_ice p"
    "wait_answers p' = drop_peer_answer (copyPeerId q) (wait_answers p)"
    "ok \<longleftrightarrow> copyPeerId q \<in> an_peer ` set (wait_answers p)"
    "length (wait_answers p) = length (wait_answers p') + (if ok then 1 else 0)"
proof -
  have P: "shape p" "tight p" "spec_ok (abs_pending p)" "purged_ok p"
    using inv by (auto simp: pending_inv_alt)
  have "pending_inv p' \<and> same_rest p p' \<and> balance p' h' = balance p h \<and> wait_ice p' = wait_ice p \<and>
    wait_answers p' = drop_peer_answer (copyPeerId q) (wait_answers p) \<and>
    (ok \<longleftrightarrow> copyPeerId q \<in> an_peer ` set (wait_answers p)) \<and>
    length (wait_answers p) = length (wait_answers p') + (if ok then 1 else 0)"
  proof (cases "findAnswer p q")
    case None
    then show ?thesis
      using run inv hasAnswer_iff[OF inv, of q]
      by (auto simp: kvsPendingSignalingDropAnswer_def kvsPendingSignalingHasAnswer_def
          drop_peer_answer_absent)
  next
    case (Some i)
    obtain p1 h1 where r: "removeAnswerAt p i h = (p1, h1)" by (cases "removeAnswerAt p i h") auto
    note R = removeAnswer_drops[OF P(1,3) Some r]
    have rel: "releaseEmpty p1 h1 = (p', h')" and ok
      using run Some r by (auto simp: kvsPendingSignalingDropAnswer_def split: prod.splits)
    have "spec_ok (abs_pending p1)"
      using spec_ok_drop[OF P(3), of "copyPeerId q"] R(2,3) by (simp add: abs_pending_def)
    note L = release_inv[OF R(1) this purged_ok_rest[OF R(4) P(4)] rel]
    show ?thesis
      using L R \<open>ok\<close> same_rest_trans[OF R(4) L(3)] by (simp add: abs_pending_def)
  qed
  then show "pending_inv p'" "same_rest p p'" "balance p' h' = balance p h"
    "wait_ice p' = wait_ice p"
    "wait_answers p' = drop_peer_answer (copyPeerId q) (wait_answers p)"
    "ok \<longleftrightarrow> copyPeerId q \<in> an_peer ` set (wait_answers p)"
    "length (wait_answers p) = length (wait_answers p') + (if ok then 1 else 0)"
    by auto
qed

lemma purged_ids_short:
  assumes "shape p" shows "length (purged_ids p) = purged_count p"
  using assms by (auto simp: shape_def purged_ids_def slots_ok_def split: option.splits)

lemma recordPurged_spec:
  assumes P: "shape p" "tight p" "spec_ok (abs_pending p)" "purged_ok p"
    and run: "recordPurged p q h = (p', h')"
  shows "pending_inv p'" "abs_pending p' = abs_pending p" "batch_out p' = batch_out p"
    "balance p' h' = balance p h"
    "purged_ids p' = purged_ids p \<or> purged_ids p' = purged_ids p @ [copyPeerId q]"
    "purged p' \<noteq> None \<and> length (purged_ids p) < KVS_PENDING_PURGED_MAX \<Longrightarrow>
     copyPeerId q \<in> set (purged_ids p')"
    "copyPeerId q \<in> set (purged_ids p) \<Longrightarrow> purged_ids p' = purged_ids p"
proof -
  define alloc where "alloc = (case purged p of
                Some _ \<Rightarrow> (True, p, h)
              | None \<Rightarrow> (case pendingCalloc h of (ok, h') \<Rightarrow>
                  (ok, if ok then p\<lparr>purged := Some (replicate KVS_PENDING_PURGED_MAX [])\<rparr> else p, h')))"
  obtain e p1 h1 where e: "alloc = (e, p1, h1)" by (cases alloc) auto
  have A: "shape p1" "tight p1" "abs_pending p1 = abs_pending p" "batch_out p1 = batch_out p"
    "balance p1 h1 = balance p h" "purged_ids p1 = purged_ids p" "e \<longleftrightarrow> purged p1 \<noteq> None"
    "purged p \<noteq> None \<Longrightarrow> e" "purged_count p1 = purged_count p"
    using e P heap_calloc_live[of h]
    by (auto simp: alloc_def pendingCalloc_def shape_def tight_def abs_pending_def balance_def blocks_def
        wait_answers_def answer_slots_def wait_ice_def purged_ids_def split: option.splits prod.splits if_splits)
  have unf: "recordPurged p q h =
     (if kvsPendingSignalingIsPurged p q then (p, h)
      else if \<not> e then (p1, h1)
      else if purged_count p1 < KVS_PENDING_PURGED_MAX
      then (p1\<lparr>purged := map_option (\<lambda>qs. qs[purged_count p1 := copyPeerId q]) (purged p1),
               purged_count := Suc (purged_count p1)\<rparr>, h1)
      else (p1, h1))"
    by (simp add: recordPurged_def alloc_def[symmetric] e)
  have isp: "kvsPendingSignalingIsPurged p q \<longleftrightarrow> copyPeerId q \<in> set (purged_ids p)"
    using P(4) by (auto simp: kvsPendingSignalingIsPurged_def purged_ok_def list_ex_iff list_all_iff samePeer_iff)
  consider (there) "kvsPendingSignalingIsPurged p q" "p' = p" "h' = h"
    | (full) "\<not> kvsPendingSignalingIsPurged p q" "p' = p1" "h' = h1" "e \<longrightarrow> \<not> purged_count p1 < KVS_PENDING_PURGED_MAX"
    | (new) qs where "e" "purged p1 = Some qs" "purged_count p1 < KVS_PENDING_PURGED_MAX" "h' = h1"
        "p' = p1\<lparr>purged := Some (qs[purged_count p1 := copyPeerId q]), purged_count := Suc (purged_count p1)\<rparr>"
    using run A(7) by (auto simp: unf split: if_splits)
  then have "pending_inv p' \<and> abs_pending p' = abs_pending p \<and> batch_out p' = batch_out p \<and>
     balance p' h' = balance p h \<and>
     (purged_ids p' = purged_ids p \<or> purged_ids p' = purged_ids p @ [copyPeerId q]) \<and>
     (purged p' \<noteq> None \<and> length (purged_ids p) < KVS_PENDING_PURGED_MAX \<longrightarrow> copyPeerId q \<in> set (purged_ids p')) \<and>
     (kvsPendingSignalingIsPurged p q \<longrightarrow> purged_ids p' = purged_ids p)"
  proof cases
    case there
    then show ?thesis using P isp by (simp add: pending_inv_alt)
  next
    case full
    then show ?thesis using A P purged_ids_short[OF P(1)]
      by (auto simp: pending_inv_alt purged_ok_def)
  next
    case new
    have nop: "\<not> kvsPendingSignalingIsPurged p q"
    proof
      assume "kvsPendingSignalingIsPurged p q"
      then have "p' = p" using run by (simp add: unf)
      moreover have "purged_count p' = Suc (purged_count p)" using new(5) A(9) by simp
      ultimately show False by simp
    qed
    have l: "length qs = KVS_PENDING_PURGED_MAX" using A(1) new(2) by (auto simp: shape_def)
    have ids: "purged_ids p' = purged_ids p @ [copyPeerId q]"
      unfolding A(6)[symmetric] using new l by (simp add: purged_ids_def take_Suc_conv_app_nth)
    have view: "wait_answers p' = wait_answers p1" "wait_ice p' = wait_ice p1"
      by (simp_all add: new(5) wait_answers_def answer_slots_def wait_ice_def split: option.splits)
    have "shape p'" using A(1) l new by (simp add: shape_def)
    moreover have "tight p'" using A(2) by (simp add: new(5) tight_def)
    moreover have "purged_ok p'" using P(4) ids copyPeerId_length[of q] by (simp add: purged_ok_def)
    moreover have "balance p' h' = balance p h"
      using A(5) new(2,4) by (simp add: balance_def blocks_def view) (simp add: new(5))
    ultimately show ?thesis using ids view A(3,4) P(3) nop
      by (simp add: pending_inv_alt abs_pending_def) (simp add: new(5))
  qed
  then show "pending_inv p'" "abs_pending p' = abs_pending p" "batch_out p' = batch_out p"
    "balance p' h' = balance p h"
    "purged_ids p' = purged_ids p \<or> purged_ids p' = purged_ids p @ [copyPeerId q]"
    "purged p' \<noteq> None \<and> length (purged_ids p) < KVS_PENDING_PURGED_MAX \<Longrightarrow>
     copyPeerId q \<in> set (purged_ids p')"
    "copyPeerId q \<in> set (purged_ids p) \<Longrightarrow> purged_ids p' = purged_ids p"
    unfolding isp by auto
qed

lemma purgePeer_spec:
  assumes inv: "pending_inv p" and run: "kvsPendingSignalingPurgePeer p (Some q) h = (k, p', h')"
  shows "pending_inv p'" "balance p' h' = balance p h" "batch_out p' = batch_out p"
    "wait_ice p' = filter (\<lambda>c. \<not> purges q c) (wait_ice p)"
    "wait_answers p' = drop_peer_answer (copyPeerId (Some q)) (wait_answers p)"
    "k + length (wait_ice p') + length (wait_answers p') = length (wait_ice p) + length (wait_answers p)"
    "\<not> batch_out p \<Longrightarrow> purged_ids p' = purged_ids p"
    "purged_ids p' = purged_ids p \<or> purged_ids p' = purged_ids p @ [copyPeerId (Some q)]"
    "batch_out p \<and> purged p' \<noteq> None \<and> length (purged_ids p) < KVS_PENDING_PURGED_MAX \<Longrightarrow>
      copyPeerId (Some q) \<in> set (purged_ids p')"
    "copyPeerId (Some q) \<in> set (purged_ids p) \<Longrightarrow> purged_ids p' = purged_ids p"
proof -
  obtain d p1 h1 where d: "kvsPendingSignalingDropAnswer p (Some q) h = (d, p1, h1)"
    by (cases "kvsPendingSignalingDropAnswer p (Some q) h") auto
  note D = dropAnswer_spec[OF inv d]
  have P1: "shape p1" "spec_ok (abs_pending p1)" "purged_ok p1"
    using D(1) by (auto simp: pending_inv_alt)
  obtain n p2 where n: "purge_ice p1 (Some q) = (n, p2)" by (cases "purge_ice p1 (Some q)") auto
  note I = purge_ice_spec[OF P1(1) n]
  obtain p3 h3 where r: "releaseEmpty p2 h1 = (p3, h3)" by (cases "releaseEmpty p2 h1") auto
  have "spec_ok (abs_pending p2)"
    using P1(2) I(2,4) by (auto simp: spec_ok_def list_all_iff)
  note L = release_inv[OF I(1) this purged_ok_rest[OF I(7) P1(3)] r]
  have sr: "same_rest p p3" using same_rest_trans[OF D(2) same_rest_trans[OF I(7) L(3)]] .
  have P3: "shape p3" "tight p3" "spec_ok (abs_pending p3)" "purged_ok p3"
    using L(1) by (auto simp: pending_inv_alt)
  have views: "wait_ice p3 = filter (\<lambda>c. \<not> purges q c) (wait_ice p)"
    "wait_answers p3 = drop_peer_answer (copyPeerId (Some q)) (wait_answers p)"
    using L(2) I(2,4) D(4,5) by (simp_all add: abs_pending_def)
  have k: "k = (if d then 1 else 0) + n"
    and fin: "(p', h') = (if batch_out p3 then recordPurged p3 (Some q) h3 else (p3, h3))"
    using run d n r by (auto simp: kvsPendingSignalingPurgePeer_def split: prod.splits if_splits)
  have fin': "pending_inv p' \<and> abs_pending p' = abs_pending p3 \<and> batch_out p' = batch_out p3 \<and>
      balance p' h' = balance p3 h3 \<and> (\<not> batch_out p3 \<longrightarrow> p' = p3) \<and>
      (purged_ids p' = purged_ids p3 \<or> purged_ids p' = purged_ids p3 @ [copyPeerId (Some q)]) \<and>
      (batch_out p3 \<and> purged p' \<noteq> None \<and> length (purged_ids p3) < KVS_PENDING_PURGED_MAX \<longrightarrow>
        copyPeerId (Some q) \<in> set (purged_ids p')) \<and>
      (copyPeerId (Some q) \<in> set (purged_ids p3) \<longrightarrow> purged_ids p' = purged_ids p3)"
  proof (cases "batch_out p3")
    case True
    then show ?thesis using recordPurged_spec[OF P3, of "Some q" h3 p' h'] fin by auto
  next
    case False
    then show ?thesis using fin L(1) by simp
  qed
  have cnt: "n + length (wait_ice p3) = length (wait_ice p)"
    using I(3) D(4) views(1) sum_length_filter_compl[of "purges q" "wait_ice p"] by simp
  show "pending_inv p'" using fin' by blast
  show "balance p' h' = balance p h" using fin' L(4) I(8)[of h1] D(3) by simp
  show "batch_out p' = batch_out p" using fin' sr by (simp add: same_rest_def)
  show wi: "wait_ice p' = filter (\<lambda>c. \<not> purges q c) (wait_ice p)"
    and wa: "wait_answers p' = drop_peer_answer (copyPeerId (Some q)) (wait_answers p)"
    using fin' views by (simp_all add: abs_pending_def)
  show "k + length (wait_ice p') + length (wait_answers p') = length (wait_ice p) + length (wait_answers p)"
    using k cnt views wi wa D(5,7) by (simp split: if_splits)
  show "purged_ids p' = purged_ids p \<or> purged_ids p' = purged_ids p @ [copyPeerId (Some q)]"
    using fin' same_rest_purged_ids[OF sr] by simp
  show "\<not> batch_out p \<Longrightarrow> purged_ids p' = purged_ids p"
    using fin' sr same_rest_purged_ids[OF sr] by (simp add: same_rest_def)
  show "batch_out p \<and> purged p' \<noteq> None \<and> length (purged_ids p) < KVS_PENDING_PURGED_MAX \<Longrightarrow>
      copyPeerId (Some q) \<in> set (purged_ids p')"
    using fin' sr same_rest_purged_ids[OF sr] by (simp add: same_rest_def)
  show "copyPeerId (Some q) \<in> set (purged_ids p) \<Longrightarrow> purged_ids p' = purged_ids p"
    using fin' same_rest_purged_ids[OF sr] by simp
qed

end
