(* ===== verification/Pending_Drain.thy ===== *)
theory Pending_Drain
  imports Pending_Api
begin

text \<open>
  Free, Take and Drain on the lists that wait: Take moves everything, Drain re-sends the answers
  and then the candidates, and Free gives every block back.
\<close>

section \<open>Free\<close>

lemma free_payloads_live:
  "n \<le> length xs \<Longrightarrow>
   live (fold (\<lambda>i h. pendingFree h (an_payload (xs ! i))) [0..<n] h) =
   live h - (\<Sum>a\<leftarrow>take n xs. owned (an_payload a))"
proof (induction n)
  case 0
  then show ?case by simp
next
  case (Suc n)
  then show ?case by (simp add: pendingFree_def take_Suc_conv_app_nth)
qed

lemma free_spec:
  assumes "shape p" "kvsPendingSignalingFree p h = (p', h')"
  shows "p' = kvsPendingSignalingInit" "live h' = live h - blocks p"
proof -
  define h1 where "h1 = (case answers p of None \<Rightarrow> h
                | Some xs \<Rightarrow> fold (\<lambda>i h. pendingFree h (an_payload (xs ! i))) [0..<answer_count p] h)"
  have "live h1 = live h - (\<Sum>a\<leftarrow>wait_answers p. owned (an_payload a))"
  proof (cases "answers p")
    case (Some xs)
    then have "answer_count p \<le> length xs" using assms(1) by (simp add: shape_def)
    then show ?thesis using free_payloads_live[of "answer_count p" xs h] Some
      by (simp add: h1_def wait_answers_def answer_slots_def)
  qed (simp add: h1_def wait_answers_def answer_slots_def)
  then show "p' = kvsPendingSignalingInit" "live h' = live h - blocks p"
    using assms(2)
    by (auto simp: kvsPendingSignalingFree_def h1_def[symmetric] releaseEmpty_def clearPurged_def
        kvsPendingSignalingInit_def blocks_def pendingFree_def Let_def split: if_splits)
qed

section \<open>Take\<close>

lemma take_spec:
  assumes "pending_inv p" "kvsPendingSignalingTake p = (p', out)"
  shows "pending_inv p'" "pending_inv out" "abs_pending out = abs_pending p"
    "abs_pending p' = \<lparr>sp_answers = [], sp_ice = []\<rparr>" "blocks p = blocks p' + blocks out"
    "batch_out p' \<longleftrightarrow> wait_answers p \<noteq> [] \<or> wait_ice p \<noteq> []" "\<not> batch_out out"
    "purged_ids p' = purged_ids p" "purged_ids out = []"
proof -
  have P: "shape p" "tight p" "spec_ok (abs_pending p)" "purged_ok p"
    using assms(1) by (auto simp: pending_inv_alt)
  have e: "out = p\<lparr>batch_out := False, purged := None, purged_count := 0\<rparr>"
    "p' = p\<lparr>ice := None, ice_count := 0, answers := None, answer_count := 0,
             batch_out := ice_count p + answer_count p > 0\<rparr>"
    using assms(2) by (auto simp: kvsPendingSignalingTake_def Let_def)
  have v: "wait_answers out = wait_answers p" "wait_ice out = wait_ice p"
    "wait_answers p' = []" "wait_ice p' = []"
    by (simp_all add: e wait_answers_def answer_slots_def wait_ice_def split: option.splits)
  show ids: "purged_ids p' = purged_ids p" "purged_ids out = []"
    by (simp_all add: e purged_ids_def split: option.splits)
  show "pending_inv p'" using P ids v
    by (simp add: pending_inv_alt purged_ok_def spec_ok_def) (simp add: e shape_def tight_def)
  show "pending_inv out" using P ids v
    by (simp add: pending_inv_alt purged_ok_def spec_ok_def) (simp add: e shape_def tight_def)
  show "abs_pending out = abs_pending p" "abs_pending p' = \<lparr>sp_answers = [], sp_ice = []\<rparr>"
    using v by (simp_all add: abs_pending_def)
  show "blocks p = blocks p' + blocks out" by (simp add: blocks_def v) (simp add: e)
  show "batch_out p' \<longleftrightarrow> wait_answers p \<noteq> [] \<or> wait_ice p \<noteq> []"
    unfolding length_greater_0_conv[symmetric] length_wait_answers[OF P(1)] length_wait_ice[OF P(1)]
    by (auto simp: e)
  show "\<not> batch_out out" by (simp add: e)
qed

section \<open>The answers of a drain\<close>

definition expired :: "uint64 \<Rightarrow> answer \<Rightarrow> bool" where
  "expired now_ms a \<longleftrightarrow> answer_age now_ms a > KVS_PENDING_ANSWER_MAX_AGE_MS"

definition expired_peers :: "uint64 \<Rightarrow> answer list \<Rightarrow> string set" where
  "expired_peers now_ms ws = an_peer ` {a \<in> set ws. expired now_ms a}"

text \<open>The send callback with a log: message type, peer, payload and outcome of every attempt.\<close>

type_synonym log_entry = "kvs_pending_msg_type \<times> string \<times> string \<times> bool"

definition traced :: "'e pending_send \<Rightarrow> (log_entry list \<times> 'e) pending_send" where
  "traced f s ty peer corr payload len version =
     (case f (snd s) ty peer corr payload len version of
        (ok, e) \<Rightarrow> (ok, fst s @ [(ty, peer, payload, ok)], e))"

text \<open>One decision: what it does to the candidates, the counters and the ledger.\<close>

definition drain_ready :: "'e drain_env \<Rightarrow> bool" where
  "drain_ready e \<longleftrightarrow> shape (de_p e) \<and> list_all cand_ok (wait_ice (de_p e))"

definition same_frame :: "'e drain_env \<Rightarrow> 'e drain_env \<Rightarrow> bool" where
  "same_frame e e' \<longleftrightarrow> same_rest (de_p e) (de_p e') \<and> answers (de_p e') = answers (de_p e) \<and>
     answer_count (de_p e') = answer_count (de_p e) \<and> owned (ice (de_p e')) = owned (ice (de_p e)) \<and>
     ice_sent (de_stats e') = ice_sent (de_stats e)"

lemma same_frame_refl [simp]: "same_frame e e"
  by (simp add: same_frame_def)

lemma same_frame_trans: "same_frame e f \<Longrightarrow> same_frame f g \<Longrightarrow> same_frame e g"
  by (simp add: same_frame_def same_rest_def)

lemma answer_body_step:
  assumes "drain_ready e" "ans_ok a" "answer_body f now_ms a e = (keep, a', e')"
  shows "a' = a" "drain_ready e'" "same_frame e e'"
    "wait_ice (de_p e') = (if expired now_ms a then drop_peer_ice (an_peer a) (wait_ice (de_p e))
                           else wait_ice (de_p e))"
    "keep \<Longrightarrow> \<not> expired now_ms a"
    "live (de_heap e') = live (de_heap e) - (if keep then 0 else 1)"
    "answers_expired (de_stats e') = answers_expired (de_stats e) + (if expired now_ms a then 1 else 0)"
    "answers_sent (de_stats e') + answers_expired (de_stats e') + (if keep then 1 else 0) =
      answers_sent (de_stats e) + answers_expired (de_stats e) + 1"
    "ice_dropped (de_stats e') + length (wait_ice (de_p e')) =
      ice_dropped (de_stats e) + length (wait_ice (de_p e))"
proof -
  have R: "shape (de_p e)" "list_all cand_ok (wait_ice (de_p e))" using assms(1) by (auto simp: drain_ready_def)
  have al: "length (an_peer a) < KVS_PENDING_ICE_PEERID_LEN" and pl: "owned (an_payload a) = 1"
    using assms(2) by (auto simp: ans_ok_def)
  have "a' = a \<and> drain_ready e' \<and> same_frame e e' \<and>
    wait_ice (de_p e') = (if expired now_ms a then drop_peer_ice (an_peer a) (wait_ice (de_p e))
                          else wait_ice (de_p e)) \<and>
    (keep \<longrightarrow> \<not> expired now_ms a) \<and>
    live (de_heap e') = live (de_heap e) - (if keep then 0 else 1) \<and>
    answers_expired (de_stats e') = answers_expired (de_stats e) + (if expired now_ms a then 1 else 0) \<and>
    answers_sent (de_stats e') + answers_expired (de_stats e') + (if keep then 1 else 0) =
      answers_sent (de_stats e) + answers_expired (de_stats e) + 1 \<and>
    ice_dropped (de_stats e') + length (wait_ice (de_p e')) =
      ice_dropped (de_stats e) + length (wait_ice (de_p e))"
  proof (cases "expired now_ms a")
    case True
    obtain k p1 where k: "purge_ice (de_p e) (Some (an_peer a)) = (k, p1)"
      by (cases "purge_ice (de_p e) (Some (an_peer a))") auto
    note K = purge_ice_spec[OF R(1) k]
    have "k + length (wait_ice p1) = length (wait_ice (de_p e))"
      using K(2,3) sum_length_filter_compl[of "purges (an_peer a)" "wait_ice (de_p e)"] by simp
    moreover have "owned (ice p1) = owned (ice (de_p e))"
      using K(9) by (cases "ice p1"; cases "ice (de_p e)") auto
    moreover have "wait_ice p1 = drop_peer_ice (an_peer a) (wait_ice (de_p e))"
      using K(2) drop_peer_ice_purges[OF R(2) al] by simp
    ultimately show ?thesis
      using assms(3) True k K(1,5,6,7) pl drop_peer_ice_ok[OF R(2)]
      by (auto simp: answer_body_def expired_def pendingFree_def drain_ready_def same_frame_def)
  next
    case False
    then show ?thesis using assms(1,3) pl
      by (auto simp: answer_body_def expired_def pendingFree_def drain_ready_def same_frame_def
          split: prod.splits if_splits)
  qed
  then show "a' = a" "drain_ready e'" "same_frame e e'"
    "wait_ice (de_p e') = (if expired now_ms a then drop_peer_ice (an_peer a) (wait_ice (de_p e))
                           else wait_ice (de_p e))"
    "keep \<Longrightarrow> \<not> expired now_ms a"
    "live (de_heap e') = live (de_heap e) - (if keep then 0 else 1)"
    "answers_expired (de_stats e') = answers_expired (de_stats e) + (if expired now_ms a then 1 else 0)"
    "answers_sent (de_stats e') + answers_expired (de_stats e') + (if keep then 1 else 0) =
      answers_sent (de_stats e) + answers_expired (de_stats e) + 1"
    "ice_dropped (de_stats e') + length (wait_ice (de_p e')) =
      ice_dropped (de_stats e) + length (wait_ice (de_p e))"
    by auto
qed

text \<open>All decisions: the rule of compaction, instantiated.\<close>

lemma answer_compact_rule:
  assumes base: "\<And>e. Q e [] e []"
    and step: "\<And>a ws e k e1 vs e2. answer_body f now_ms a e = (k, a, e1) \<Longrightarrow> drain_ready e \<Longrightarrow> ans_ok a \<Longrightarrow>
       Q e1 ws e2 vs \<Longrightarrow> Q e (a # ws) e2 (if k then a # vs else vs)"
    and "drain_ready e" "list_all ans_ok ws" "compact_list (answer_body f now_ms) ws e = (ws', e')"
  shows "Q e ws e' ws'"
proof -
  have "drain_ready e' \<and> Q e ws e' ws'"
  proof (rule compact_list_rule[where decide = "answer_body f now_ms" and I = drain_ready and P = ans_ok])
    fix a ws e k a' e1 vs e2
    assume b: "answer_body f now_ms a e = (k, a', e1)" and r: "drain_ready e" and o: "ans_ok a"
    note B = answer_body_step(1,2)[OF r o b]
    show "drain_ready e1 \<and> (Q e1 ws e2 vs \<longrightarrow> Q e (a # ws) e2 (if k then a' # vs else vs))"
      using B step[OF _ r o] b by blast
  qed (use assms in auto)
  then show ?thesis by blast
qed

lemma answer_compact_frame:
  assumes "drain_ready e" "list_all ans_ok ws" "compact_list (answer_body f now_ms) ws e = (ws', e')"
  shows "same_frame e e'"
  by (rule answer_compact_rule[OF _ _ assms, where Q = "\<lambda>e _ e' _. same_frame e e'"])
    (auto intro: same_frame_trans answer_body_step(3))

lemma expired_peers_Cons:
  "expired_peers now_ms (a # ws) =
     (if expired now_ms a then insert (an_peer a) (expired_peers now_ms ws) else expired_peers now_ms ws)"
  by (auto simp: expired_peers_def)

lemma answer_compact_ice:
  assumes "drain_ready e" "list_all ans_ok ws" "compact_list (answer_body f now_ms) ws e = (ws', e')"
  shows "wait_ice (de_p e') = filter (\<lambda>c. ic_peer c \<notin> expired_peers now_ms ws) (wait_ice (de_p e))"
proof (rule answer_compact_rule[OF _ _ assms, where Q = "\<lambda>e ws e' _.
    wait_ice (de_p e') = filter (\<lambda>c. ic_peer c \<notin> expired_peers now_ms ws) (wait_ice (de_p e))"])
  fix a ws and e e1 e2 :: "'a drain_env" and k vs
  assume b: "answer_body f now_ms a e = (k, a, e1)" "drain_ready e" "ans_ok a"
    and ih: "wait_ice (de_p e2) = filter (\<lambda>c. ic_peer c \<notin> expired_peers now_ms ws) (wait_ice (de_p e1))"
  show "wait_ice (de_p e2) = filter (\<lambda>c. ic_peer c \<notin> expired_peers now_ms (a # ws)) (wait_ice (de_p e))"
    unfolding ih answer_body_step(4)[OF b(2,3,1)]
    by (auto simp: expired_peers_Cons drop_peer_ice_def intro!: filter_cong)
qed (simp add: expired_peers_def)

lemma answer_compact_answers:
  assumes "drain_ready e" "list_all ans_ok ws" "compact_list (answer_body f now_ms) ws e = (ws', e')"
  shows "\<forall>a \<in> set ws'. a \<in> set ws \<and> \<not> expired now_ms a"
    "distinct (map an_peer ws) \<Longrightarrow> distinct (map an_peer ws')"
proof -
  have "(\<forall>a \<in> set ws'. a \<in> set ws \<and> \<not> expired now_ms a) \<and>
      (distinct (map an_peer ws) \<longrightarrow> distinct (map an_peer ws'))"
    by (rule answer_compact_rule[OF _ _ assms, where Q = "\<lambda>_ ws _ ws'.
          (\<forall>a \<in> set ws'. a \<in> set ws \<and> \<not> expired now_ms a) \<and>
          (distinct (map an_peer ws) \<longrightarrow> distinct (map an_peer ws'))"])
      (auto dest: answer_body_step(5))
  then show "\<forall>a \<in> set ws'. a \<in> set ws \<and> \<not> expired now_ms a"
    "distinct (map an_peer ws) \<Longrightarrow> distinct (map an_peer ws')" by auto
qed

lemma answer_compact_counts:
  assumes "drain_ready e" "list_all ans_ok ws" "compact_list (answer_body f now_ms) ws e = (ws', e')"
  shows "live (de_heap e') - int (length ws') = live (de_heap e) - int (length ws) \<and>
    answers_expired (de_stats e') = answers_expired (de_stats e) + length (filter (expired now_ms) ws) \<and>
    answers_sent (de_stats e') + answers_expired (de_stats e') + length ws' =
      answers_sent (de_stats e) + answers_expired (de_stats e) + length ws \<and>
    ice_dropped (de_stats e') + length (wait_ice (de_p e')) =
      ice_dropped (de_stats e) + length (wait_ice (de_p e))" (is "?C e ws e' ws'")
proof (rule answer_compact_rule[OF _ _ assms, where Q = ?C])
  fix a ws and e e1 e2 :: "'a drain_env" and k vs
  assume b: "answer_body f now_ms a e = (k, a, e1)" "drain_ready e" "ans_ok a" and ih: "?C e1 ws e2 vs"
  note B = answer_body_step(6-9)[OF b(2,3,1)]
  show "?C e (a # ws) e2 (if k then a # vs else vs)"
    using B ih by (cases k) simp_all
qed simp

lemma answer_compact_ready:
  assumes "drain_ready e" "list_all ans_ok ws" "compact_list (answer_body f now_ms) ws e = (ws', e')"
  shows "drain_ready e'"
  by (rule answer_compact_rule[OF _ _ assms, where Q = "\<lambda>e _ e' _. drain_ready e \<longrightarrow> drain_ready e'", rule_format])
    (use assms(1) in \<open>auto dest: answer_body_step(2)\<close>)

section \<open>The candidates of a drain\<close>

lemma ice_compact_counts:
  "compact_list (ice_body f hold) cs e = (cs', e') \<Longrightarrow>
   ie_sent e' + ie_dropped e' + length cs' = ie_sent e + ie_dropped e + length cs"
proof (induction cs arbitrary: e cs')
  case Nil
  then show ?case by simp
next
  case (Cons c cs)
  obtain k c' e1 where b: "ice_body f hold c e = (k, c', e1)" by (cases "ice_body f hold c e") auto
  obtain ds e2 where r: "compact_list (ice_body f hold) cs e1 = (ds, e2)"
    by (cases "compact_list (ice_body f hold) cs e1") auto
  have "ie_sent e1 + ie_dropped e1 + (if k then 1 else 0) = ie_sent e + ie_dropped e + 1"
    using b by (auto simp: ice_body_def Let_def split: if_splits prod.splits)
  moreover have "e' = e2" "length cs' = length ds + (if k then 1 else 0)"
    using Cons.prems b r by auto
  ultimately show ?case using Cons.IH[of e1 ds] r by simp
qed

lemma ice_compact_ok:
  "list_all cand_ok cs \<Longrightarrow> list_all cand_ok (fst (compact_list (ice_body f hold) cs e))"
  using compact_list_all[of cand_ok "ice_body f hold" cand_ok cs e]
  by (fastforce simp: list_all_iff ice_body_def Let_def cand_ok_def split: if_splits prod.splits)

text \<open>Held candidates stay as they are, in their order, no attempt used.\<close>

lemma ice_compact_held:
  "filter (\<lambda>c. held hold (ic_peer c)) (fst (compact_list (ice_body f hold) cs e)) =
   filter (\<lambda>c. held hold (ic_peer c)) cs"
proof (induction cs arbitrary: e)
  case Nil
  then show ?case by simp
next
  case (Cons c cs)
  obtain k c' e1 where b: "ice_body f hold c e = (k, c', e1)" by (cases "ice_body f hold c e") auto
  have "if held hold (ic_peer c) then k \<and> c' = c else ic_peer c' = ic_peer c"
    using b by (auto simp: ice_body_def Let_def split: if_splits prod.splits)
  then show ?case using Cons.IH[of e1] b by (auto split: prod.splits if_splits)
qed

text \<open>The log of the sends: every candidate that is not held, once, in FIFO order.\<close>

definition ice_entry :: "ice_candidate \<times> bool \<Rightarrow> log_entry" where
  "ice_entry x = (KVS_PENDING_MSG_ICE_CANDIDATE, ic_peer (fst x), ic_payload (fst x), snd x)"

text \<open>What is left of the candidates: those held, as they are, and those whose send failed with an attempt more.\<close>

fun ice_left :: "(ice_candidate \<Rightarrow> bool) \<Rightarrow> ice_candidate list \<Rightarrow> bool list \<Rightarrow> ice_candidate list" where
  "ice_left h [] oks = []"
| "ice_left h (c # cs) oks =
     (if h c then c # ice_left h cs oks
      else (if hd oks \<or> KVS_PENDING_ICE_MAX_ATTEMPTS \<le> Suc (ic_attempts c) then []
            else [c\<lparr>ic_attempts := Suc (ic_attempts c)\<rparr>]) @ ice_left h cs (tl oks))"

lemma ice_left_cong: "(\<And>c. c \<in> set cs \<Longrightarrow> h c = h' c) \<Longrightarrow> ice_left h cs oks = ice_left h' cs oks"
  by (induction cs arbitrary: oks) auto

lemma ice_compact_log:
  "compact_list (ice_body (pendingIceSendAdapter (traced f)) hold) cs e = (cs', e') \<Longrightarrow>
   \<exists>outs. map fst outs = filter (\<lambda>c. \<not> held hold (ic_peer c)) cs \<and>
     fst (ie_send e') = fst (ie_send e) @ map ice_entry outs \<and>
     cs' = ice_left (\<lambda>c. held hold (ic_peer c)) cs (map snd outs)"
proof (induction cs arbitrary: e cs')
  case Nil
  then show ?case by (intro exI[of _ "[]"]) simp
next
  case (Cons c cs)
  let ?b = "ice_body (pendingIceSendAdapter (traced f)) hold"
  obtain k c' e1 where b: "?b c e = (k, c', e1)" by (cases "?b c e") auto
  obtain ds e2 where r: "compact_list ?b cs e1 = (ds, e2)" by (cases "compact_list ?b cs e1") auto
  have out: "cs' = (if k then c' # ds else ds)" "e' = e2" using Cons.prems b r by auto
  obtain outs where o: "map fst outs = filter (\<lambda>c. \<not> held hold (ic_peer c)) cs"
    "fst (ie_send e2) = fst (ie_send e1) @ map ice_entry outs"
    "ds = ice_left (\<lambda>c. held hold (ic_peer c)) cs (map snd outs)" using Cons.IH[of e1 ds] r out(2) by blast
  show ?case
  proof (cases "held hold (ic_peer c)")
    case True
    then have "k \<and> c' = c \<and> e1 = e" using b by (auto simp: ice_body_def)
    then show ?thesis using o out True by (intro exI[of _ outs]) simp
  next
    case False
    then obtain ok where "fst (ie_send e1) = fst (ie_send e) @ [ice_entry (c, ok)]"
      "k \<longleftrightarrow> \<not> (ok \<or> KVS_PENDING_ICE_MAX_ATTEMPTS \<le> Suc (ic_attempts c))"
      "k \<longrightarrow> c' = c\<lparr>ic_attempts := Suc (ic_attempts c)\<rparr>"
      using b by (auto simp: ice_body_def Let_def pendingIceSendAdapter_def traced_def ice_entry_def split: if_splits prod.splits)
    then show ?thesis using o out False by (intro exI[of _ "(c, ok) # outs"]) auto
  qed
qed

text \<open>The log of the answers, with the outcomes: what stays is what could not be sent.\<close>

definition answer_entry :: "answer \<times> bool \<Rightarrow> log_entry" where
  "answer_entry x = (KVS_PENDING_MSG_ANSWER, an_peer (fst x), the (an_payload (fst x)), snd x)"

lemma answer_compact_log:
  assumes "list_all ans_ok ws"
    and "compact_list (answer_body (traced f) now_ms) ws e = (ws', e')"
  shows "\<exists>outs. map fst outs = filter (\<lambda>a. \<not> expired now_ms a) ws \<and>
    fst (de_send e') = fst (de_send e) @ map answer_entry outs \<and>
    ws' = map fst (filter (\<lambda>x. \<not> snd x) outs) \<and>
    answers_sent (de_stats e') = answers_sent (de_stats e) + length (filter snd outs)"
  using assms
proof (induction ws arbitrary: e ws' e')
  case Nil
  then show ?case by (intro exI[of _ "[]"]) simp
next
  case (Cons a ws)
  let ?b = "answer_body (traced f) now_ms"
  obtain k a' e1 where b: "?b a e = (k, a', e1)" by (cases "?b a e") auto
  obtain vs e2 where r: "compact_list ?b ws e1 = (vs, e2)" by (cases "compact_list ?b ws e1") auto
  have out: "ws' = (if k then a' # vs else vs)" "e' = e2" using Cons.prems b r by auto
  have pl: "an_payload a \<noteq> None" using Cons.prems(1) by (simp add: ans_ok_def)
  obtain outs where o: "map fst outs = filter (\<lambda>a. \<not> expired now_ms a) ws"
    "fst (de_send e2) = fst (de_send e1) @ map answer_entry outs"
    "vs = map fst (filter (\<lambda>x. \<not> snd x) outs)"
    "answers_sent (de_stats e2) = answers_sent (de_stats e1) + length (filter snd outs)"
    using Cons.IH[of e1 vs] r Cons.prems(1) by auto
  show ?case
  proof (cases "expired now_ms a")
    case True
    then have "\<not> k \<and> fst (de_send e1) = fst (de_send e) \<and>
        answers_sent (de_stats e1) = answers_sent (de_stats e)"
      using b by (auto simp: answer_body_def expired_def split: prod.splits)
    then show ?thesis using o out True by (intro exI[of _ outs]) auto
  next
    case False
    then have s: "a' = a" "fst (de_send e1) = fst (de_send e) @ [answer_entry (a, \<not> k)]"
      "answers_sent (de_stats e1) = answers_sent (de_stats e) + (if k then 0 else 1)"
      using b pl by (auto simp: answer_body_def expired_def traced_def answer_entry_def
          split: prod.splits if_splits)
    then show ?thesis using o out False by (intro exI[of _ "(a, \<not> k) # outs"]) auto
  qed
qed

section \<open>The whole drain\<close>

lemma drain_answers_spec:
  assumes inv: "pending_inv p"
    and e: "e = \<lparr>de_p = p, de_heap = h, de_stats = zero_stats, de_send = ctx\<rparr>"
    and run: "drain_answers f now_ms e = e'"
  obtains ws' e1 where
    "compact_list (answer_body f now_ms) (wait_answers p) e = (ws', e1)"
    "shape (de_p e')" "wait_answers (de_p e') = ws'"
    "wait_ice (de_p e') = filter (\<lambda>c. ic_peer c \<notin> expired_peers now_ms (wait_answers p)) (wait_ice p)"
    "spec_ok (abs_pending (de_p e'))" "same_rest p (de_p e')"
    "balance (de_p e') (de_heap e') = balance p h"
    "de_stats e' = de_stats e1" "de_send e' = de_send e1"
proof -
  have P: "shape p" "spec_ok (abs_pending p)" using inv by (auto simp: pending_inv_alt)
  have rdy: "drain_ready e" and aok: "list_all ans_ok (wait_answers p)"
    using P by (auto simp: drain_ready_def e spec_ok_def)
  have cap: "answer_count p \<le> length (answer_slots p)"
    using P(1) by (auto simp: shape_def answer_slots_def slots_ok_def split: option.splits)
  obtain ys w e1 where l: "drain_answers_loop f now_ms (answer_count p) 0 0 (answer_slots p) e = (ys, w, e1)"
    by (cases "drain_answers_loop f now_ms (answer_count p) 0 0 (answer_slots p) e") auto
  note L = answer_loop.loop_refines[OF cap l]
  have c: "compact_list (answer_body f now_ms) (wait_answers p) e = (take w ys, e1)"
    using L(1) by (simp add: wait_answers_def)
  note F = answer_compact_frame[OF rdy aok c, unfolded same_frame_def]
  note I = answer_compact_ice[OF rdy aok c]
  note A = answer_compact_answers[OF rdy aok c]
  note N = answer_compact_counts[OF rdy aok c]
  note R = answer_compact_ready[OF rdy aok c, unfolded drain_ready_def]
  have e': "e' = (if answers p \<noteq> None then e1\<lparr>de_p := (de_p e1)\<lparr>answers := Some ys, answer_count := w\<rparr>\<rparr> else e1)"
    using run l by (auto simp: drain_answers_def e)
  have wa: "wait_answers (de_p e') = take w ys"
    using F L P(1) by (auto simp: e' wait_answers_def answer_slots_def shape_def e)
  have wi: "wait_ice (de_p e') = wait_ice (de_p e1)"
    by (simp add: e' wait_ice_def split: option.splits)
  have ok: "list_all ans_ok (take w ys)" "distinct (map an_peer (take w ys))"
    using A P(2) aok by (auto simp: spec_ok_def list_all_iff)
  have "shape (de_p e')"
    using R F L P(1) by (auto simp: e' shape_def e answer_slots_def)
  moreover have "same_rest p (de_p e')" using F by (simp add: e' same_rest_def e)
  moreover have "spec_ok (abs_pending (de_p e'))"
    using R ok by (simp add: spec_ok_def wa wi)
  moreover have "wait_ice (de_p e') = filter (\<lambda>c. ic_peer c \<notin> expired_peers now_ms (wait_answers p)) (wait_ice p)"
    using I by (simp add: wi e)
  moreover have "balance (de_p e') (de_heap e') = balance p h"
  proof -
    have one: "(\<Sum>a\<leftarrow>ws. owned (an_payload a)) = int (length ws)" if "list_all ans_ok ws" for ws
      using that by (induction ws) (auto simp: ans_ok_def)
    have "live (de_heap e1) - int (length (take w ys)) = live h - int (length (wait_answers p))"
      using N by (simp add: e)
    moreover have "owned (ice (de_p e1)) = owned (ice p)" "purged (de_p e1) = purged p"
      "answers (de_p e1) = answers p" using F by (auto simp: e same_rest_def)
    ultimately show ?thesis
      by (simp add: balance_def blocks_def wa one[OF ok(1)] one[OF aok]) (auto simp: e')
  qed
  ultimately show ?thesis using that[OF c] wa by (simp add: e' split: if_splits)
qed

definition answer_peers :: "pending \<Rightarrow> string set" where
  "answer_peers p = an_peer ` set (wait_answers p)"

lemma held_behind:
  assumes "shape p" "spec_ok (abs_pending p)" "length s < KVS_PENDING_ICE_PEERID_LEN"
  shows "held (Some (holdBehindAnswer p)) s \<longleftrightarrow> s \<in> answer_peers p"
  using assms findAnswer_None[of p "Some s"]
  by (auto simp: held_def holdBehindAnswer_def spec_ok_def copyPeerId_fits answer_peers_def)

text \<open>The candidates that are tried: their peer has no answer left waiting behind which to hold them.\<close>

lemma drain_ice_spec:
  assumes P: "shape (de_p e)" "spec_ok (abs_pending (de_p e))"
    and run: "drain_ice f e = e'"
  shows "shape (de_p e')" "spec_ok (abs_pending (de_p e'))" "same_rest (de_p e) (de_p e')"
    "wait_answers (de_p e') = wait_answers (de_p e)" "balance (de_p e') (de_heap e') = balance (de_p e) (de_heap e)"
    "filter (\<lambda>c. ic_peer c \<in> answer_peers (de_p e)) (wait_ice (de_p e')) =
     filter (\<lambda>c. ic_peer c \<in> answer_peers (de_p e)) (wait_ice (de_p e))"
    "ice_sent (de_stats e') + ice_dropped (de_stats e') + length (wait_ice (de_p e')) =
     ice_sent (de_stats e) + ice_dropped (de_stats e) + length (wait_ice (de_p e))"
    "answers_sent (de_stats e') = answers_sent (de_stats e)"
    "answers_expired (de_stats e') = answers_expired (de_stats e)"
proof -
  let ?h = "Some (holdBehindAnswer (de_p e))"
  have "shape (de_p e') \<and> spec_ok (abs_pending (de_p e')) \<and> same_rest (de_p e) (de_p e') \<and>
    wait_answers (de_p e') = wait_answers (de_p e) \<and>
    balance (de_p e') (de_heap e') = balance (de_p e) (de_heap e) \<and>
    filter (\<lambda>c. ic_peer c \<in> answer_peers (de_p e)) (wait_ice (de_p e')) =
     filter (\<lambda>c. ic_peer c \<in> answer_peers (de_p e)) (wait_ice (de_p e)) \<and>
    ice_sent (de_stats e') + ice_dropped (de_stats e') + length (wait_ice (de_p e')) =
     ice_sent (de_stats e) + ice_dropped (de_stats e) + length (wait_ice (de_p e)) \<and>
    answers_sent (de_stats e') = answers_sent (de_stats e) \<and>
    answers_expired (de_stats e') = answers_expired (de_stats e)"
  proof (cases "ice (de_p e)")
    case None
    then have "e' = e" using run by (simp add: drain_ice_def)
    then show ?thesis using P by simp
  next
    case (Some xs)
    define i0 where "i0 = \<lparr>ie_send = de_send e, ie_sent = ice_sent (de_stats e),
                   ie_dropped = ice_dropped (de_stats e)\<rparr>"
    obtain ys w i1 where d: "iceDrain xs (ice_count (de_p e)) (pendingIceSendAdapter f) ?h i0 = (ys, w, i1)"
      by (cases "iceDrain xs (ice_count (de_p e)) (pendingIceSendAdapter f) ?h i0") auto
    have cap: "ice_count (de_p e) \<le> length xs" and len: "length xs = KVS_PENDING_ICE_MAX"
      using P(1) Some by (auto simp: shape_def)
    note D = iceDrain_refines[OF cap d]
    have c: "compact_list (ice_body (pendingIceSendAdapter f) ?h) (wait_ice (de_p e)) i0 = (take w ys, i1)"
      using D(1) Some by (simp add: wait_ice_def)
    have e': "e' = e\<lparr>de_p := (de_p e)\<lparr>ice := Some ys, ice_count := w\<rparr>, de_send := ie_send i1,
        de_stats := (de_stats e)\<lparr>ice_sent := ie_sent i1, ice_dropped := ie_dropped i1\<rparr>\<rparr>"
      using run Some d by (simp add: drain_ice_def i0_def)
    have v: "wait_ice (de_p e') = take w ys" "wait_answers (de_p e') = wait_answers (de_p e)"
      by (simp_all add: e' wait_ice_def wait_answers_def answer_slots_def)
    have ok: "list_all cand_ok (wait_ice (de_p e))" using P(2) by (simp add: spec_ok_def)
    have ok': "list_all cand_ok (take w ys)"
      using ice_compact_ok[OF ok, of "pendingIceSendAdapter f" ?h i0] c by simp
    have hold: "held ?h (ic_peer x) \<longleftrightarrow> ic_peer x \<in> answer_peers (de_p e)" if "cand_ok x" for x
      using held_behind[OF P] that by (simp add: cand_ok_def)
    have "filter (\<lambda>c. ic_peer c \<in> answer_peers (de_p e)) (take w ys) =
          filter (\<lambda>c. held ?h (ic_peer c)) (take w ys)"
      using ok' hold by (intro filter_cong) (auto simp: list_all_iff)
    also have "\<dots> = filter (\<lambda>c. held ?h (ic_peer c)) (wait_ice (de_p e))"
      using ice_compact_held[of ?h "pendingIceSendAdapter f" "wait_ice (de_p e)" i0] c by simp
    also have "\<dots> = filter (\<lambda>c. ic_peer c \<in> answer_peers (de_p e)) (wait_ice (de_p e))"
      using ok hold by (intro filter_cong) (auto simp: list_all_iff)
    finally have keep: "filter (\<lambda>c. ic_peer c \<in> answer_peers (de_p e)) (wait_ice (de_p e')) =
       filter (\<lambda>c. ic_peer c \<in> answer_peers (de_p e)) (wait_ice (de_p e))" by (simp add: v)
    have cnt: "ice_sent (de_stats e') + ice_dropped (de_stats e') + length (wait_ice (de_p e')) =
     ice_sent (de_stats e) + ice_dropped (de_stats e) + length (wait_ice (de_p e))"
      using ice_compact_counts[OF c] unfolding v(1) by (simp add: i0_def e')
    have "shape (de_p e')" using P(1) D(2,3) len cap by (simp add: e' shape_def)
    moreover have "spec_ok (abs_pending (de_p e'))" using P(2) ok' by (simp add: spec_ok_def v)
    moreover have "same_rest (de_p e) (de_p e')" by (simp add: e' same_rest_def)
    moreover have "balance (de_p e') (de_heap e') = balance (de_p e) (de_heap e)"
      using Some by (simp add: balance_def blocks_def v(2)) (simp add: e')
    moreover have "answers_sent (de_stats e') = answers_sent (de_stats e)"
      "answers_expired (de_stats e') = answers_expired (de_stats e)" by (simp_all add: e')
    ultimately show ?thesis using keep cnt v(2) by blast
  qed
  then show "shape (de_p e')" "spec_ok (abs_pending (de_p e'))" "same_rest (de_p e) (de_p e')"
    "wait_answers (de_p e') = wait_answers (de_p e)" "balance (de_p e') (de_heap e') = balance (de_p e) (de_heap e)"
    "filter (\<lambda>c. ic_peer c \<in> answer_peers (de_p e)) (wait_ice (de_p e')) =
     filter (\<lambda>c. ic_peer c \<in> answer_peers (de_p e)) (wait_ice (de_p e))"
    "ice_sent (de_stats e') + ice_dropped (de_stats e') + length (wait_ice (de_p e')) =
     ice_sent (de_stats e) + ice_dropped (de_stats e) + length (wait_ice (de_p e))"
    "answers_sent (de_stats e') = answers_sent (de_stats e)"
    "answers_expired (de_stats e') = answers_expired (de_stats e)"
    by blast+
qed

lemma drain_spec:
  assumes inv: "pending_inv p"
    and run: "kvsPendingSignalingDrain (Some p) (Some f) ctx now_ms h = (n, st, q, ctx', h')"
  obtains p' where "q = Some p'" "pending_inv p'" "same_rest p p'" "balance p' h' = balance p h"
    "n = length (wait_answers p') + length (wait_ice p')"
    "answers_sent st + answers_expired st + ice_sent st + ice_dropped st + n =
     length (wait_answers p) + length (wait_ice p)"
    "\<forall>a \<in> set (wait_answers p'). a \<in> set (wait_answers p) \<and> \<not> expired now_ms a"
    "filter (\<lambda>c. ic_peer c \<in> answer_peers p') (wait_ice p') =
     filter (\<lambda>c. ic_peer c \<in> answer_peers p') (wait_ice p)"
    "answers_expired st = length (filter (expired now_ms) (wait_answers p))"
proof -
  define e0 where "e0 = \<lparr>de_p = p, de_heap = h, de_stats = zero_stats, de_send = ctx\<rparr>"
  define ea where "ea = drain_answers f now_ms e0"
  define ei where "ei = drain_ice f ea"
  obtain p' where rel: "releaseEmpty (de_p ei) (de_heap ei) = (p', h')" and q: "q = Some p'"
    and n: "n = kvsPendingSignalingCount (Some p')" and st: "st = de_stats ei"
    using run by (auto simp: kvsPendingSignalingDrain_def Let_def e0_def[symmetric] ea_def[symmetric]
        ei_def[symmetric] split: prod.splits)
  have P: "shape p" "spec_ok (abs_pending p)" "purged_ok p" using inv by (auto simp: pending_inv_alt)
  obtain ws' e1 where A: "compact_list (answer_body f now_ms) (wait_answers p) e0 = (ws', e1)"
    "shape (de_p ea)" "wait_answers (de_p ea) = ws'"
    "wait_ice (de_p ea) = filter (\<lambda>c. ic_peer c \<notin> expired_peers now_ms (wait_answers p)) (wait_ice p)"
    "spec_ok (abs_pending (de_p ea))" "same_rest p (de_p ea)"
    "balance (de_p ea) (de_heap ea) = balance p h"
    "de_stats ea = de_stats e1" "de_send ea = de_send e1"
    by (rule drain_answers_spec[OF inv e0_def ea_def[symmetric]]) blast
  have rdy: "drain_ready e0" and aok: "list_all ans_ok (wait_answers p)"
    using P by (auto simp: drain_ready_def e0_def spec_ok_def)
  note K = answer_compact_answers[OF rdy aok A(1)]
  note N = answer_compact_counts[OF rdy aok A(1)]
  note I1 = answer_compact_ice[OF rdy aok A(1)]
  note F = answer_compact_frame[OF rdy aok A(1), unfolded same_frame_def]
  note I = drain_ice_spec[OF A(2,5) ei_def[symmetric]]
  note L = release_inv[OF I(1,2) purged_ok_rest[OF I(3) purged_ok_rest[OF A(6) P(3)]] rel]
  have v: "wait_answers p' = ws'" "wait_ice p' = wait_ice (de_p ei)"
    using L(2) I(4) A(3) by (auto simp: abs_pending_def)
  have sh: "shape p'" using L(1) by (simp add: pending_inv_alt)
  have n': "n = length (wait_answers p') + length (wait_ice p')"
    using n length_wait_answers[OF sh] length_wait_ice[OF sh]
    by (simp add: kvsPendingSignalingCount_def)
  have wi1: "wait_ice (de_p e1) = wait_ice (de_p ea)" using I1 A(4) by (simp add: e0_def)
  have total: "answers_sent st + answers_expired st + ice_sent st + ice_dropped st + n =
     length (wait_answers p) + length (wait_ice p)"
    using N I(7,8,9) A(8) F unfolding n' v st wi1 by (simp add: e0_def zero_stats_def)
  have old: "\<forall>a \<in> set (wait_answers p'). a \<in> set (wait_answers p) \<and> \<not> expired now_ms a"
    using K(1) v(1) by simp
  have peers: "answer_peers (de_p ea) = answer_peers p'" using v(1) A(3) by (simp add: answer_peers_def)
  have disj: "answer_peers p' \<inter> expired_peers now_ms (wait_answers p) = {}"
  proof -
    have d: "inj_on an_peer (set (wait_answers p))" using P(2) by (auto simp: spec_ok_def distinct_map)
    show ?thesis using old d by (auto simp: answer_peers_def expired_peers_def dest: inj_onD)
  qed
  have "filter (\<lambda>c. ic_peer c \<in> answer_peers p') (wait_ice (de_p ea)) =
      filter (\<lambda>c. ic_peer c \<in> answer_peers p') (wait_ice p)"
    using disj by (auto simp: A(4) intro!: filter_cong)
  then have hold: "filter (\<lambda>c. ic_peer c \<in> answer_peers p') (wait_ice p') =
      filter (\<lambda>c. ic_peer c \<in> answer_peers p') (wait_ice p)"
    using I(6) peers v(2) by simp
  have ex: "answers_expired st = length (filter (expired now_ms) (wait_answers p))"
    using N I(9) A(8) by (simp add: st e0_def zero_stats_def)
  have "balance p' h' = balance p h" using L(4) I(5) A(7) by simp
  moreover have "same_rest p p'" using A(6) I(3) L(3) same_rest_trans by blast
  ultimately show ?thesis using that q L(1) n' total old hold ex by blast
qed

end
