(* ===== verification/Pending_Merge.thy ===== *)
theory Pending_Merge
  imports Pending_Drain "HOL-Library.Sublist"
begin

text \<open>
  Merge of a drained batch: what comes back to the buffer, and the ledger of the two buffers
  together.
\<close>

section \<open>The state of the loops\<close>

definition batch_len_ok :: "pending \<Rightarrow> bool" where
  "batch_len_ok b \<longleftrightarrow> shape b \<and> list_all cand_ok (wait_ice b)"

definition merge_ready :: "merge_state \<Rightarrow> bool" where
  "merge_ready m \<longleftrightarrow> shape (ms_p m) \<and> spec_ok (abs_pending (ms_p m)) \<and> batch_len_ok (ms_batch m)"

definition mbalance :: "merge_state \<Rightarrow> int" where
  "mbalance m = live (ms_heap m) - blocks (ms_p m) - blocks (ms_batch m)"

lemma purge_ice_batch:
  assumes "batch_len_ok b" "length q < KVS_PENDING_ICE_PEERID_LEN" "purge_ice b (Some q) = (k, b')"
  shows "batch_len_ok b'" "wait_ice b' = drop_peer_ice q (wait_ice b)" "wait_answers b' = wait_answers b"
    "blocks b' = blocks b" "answer_count b' = answer_count b"
    "k + length (wait_ice b') = length (wait_ice b)"
proof -
  have B: "shape b" "list_all cand_ok (wait_ice b)" using assms(1) by (auto simp: batch_len_ok_def)
  note K = purge_ice_spec[OF B(1) assms(3)]
  show wi: "wait_ice b' = drop_peer_ice q (wait_ice b)"
    using K(2) drop_peer_ice_purges[OF B(2) assms(2)] by simp
  show "batch_len_ok b'" using K(1) B(2) drop_peer_ice_ok by (simp add: batch_len_ok_def wi)
  show "wait_answers b' = wait_answers b" "answer_count b' = answer_count b" using K by auto
  show "blocks b' = blocks b" using K(8)[of always_grant] by (simp add: balance_def)
  show "k + length (wait_ice b') = length (wait_ice b)"
    using K(2,3) sum_length_filter_compl[of "purges q" "wait_ice b"] by simp
qed

section \<open>First loop: the purged peers\<close>

lemma merge_purged_step:
  assumes r: "merge_ready m" and s: "spec_ok (abs_pending (ms_batch m))"
    and q: "length q < KVS_PENDING_ICE_PEERID_LEN" and m': "m' = merge_purged q m"
  shows "merge_ready m'" "ms_p m' = ms_p m" "mbalance m' = mbalance m"
    "abs_pending (ms_batch m') = \<lparr>sp_answers = drop_peer_answer q (wait_answers (ms_batch m)),
                                  sp_ice = drop_peer_ice q (wait_ice (ms_batch m))\<rparr>"
    "ms_dropped m' + length (wait_answers (ms_batch m')) + length (wait_ice (ms_batch m')) =
     ms_dropped m + length (wait_answers (ms_batch m)) + length (wait_ice (ms_batch m))"
proof -
  have B: "shape (ms_batch m)" "batch_len_ok (ms_batch m)" using r by (auto simp: merge_ready_def batch_len_ok_def)
  have cq: "copyPeerId (Some q) = q" using q by (rule copyPeerId_fits)
  define m1 where "m1 = (case findAnswer (ms_batch m) (Some q) of
                  None \<Rightarrow> m
                | Some idx \<Rightarrow> (case removeAnswerAt (ms_batch m) idx (ms_heap m) of (b, h) \<Rightarrow>
                    m\<lparr>ms_batch := b, ms_heap := h, ms_dropped := Suc (ms_dropped m)\<rparr>))"
  have M1: "batch_len_ok (ms_batch m1) \<and> ms_p m1 = ms_p m \<and> mbalance m1 = mbalance m \<and>
      wait_answers (ms_batch m1) = drop_peer_answer q (wait_answers (ms_batch m)) \<and>
      wait_ice (ms_batch m1) = wait_ice (ms_batch m) \<and>
      ms_dropped m1 + length (wait_answers (ms_batch m1)) = ms_dropped m + length (wait_answers (ms_batch m))"
  proof (cases "findAnswer (ms_batch m) (Some q)")
    case None
    have "q \<notin> an_peer ` set (wait_answers (ms_batch m))"
      using None findAnswer_None[OF B(1)] s cq by (auto simp: spec_ok_def)
    then show ?thesis using None B by (simp add: m1_def drop_peer_answer_absent)
  next
    case (Some i)
    obtain b h where r: "removeAnswerAt (ms_batch m) i (ms_heap m) = (b, h)"
      by (cases "removeAnswerAt (ms_batch m) i (ms_heap m)") auto
    note R = removeAnswer_drops[OF B(1) s Some r, unfolded cq]
    show ?thesis using R B Some r
      by (auto simp: m1_def batch_len_ok_def mbalance_def balance_def)
  qed
  obtain k b where pi: "purge_ice (ms_batch m1) (Some q) = (k, b)"
    by (cases "purge_ice (ms_batch m1) (Some q)") auto
  have b1: "batch_len_ok (ms_batch m1)" using M1 by blast
  note K = purge_ice_batch[OF b1 q pi]
  have e: "m' = m1\<lparr>ms_batch := b, ms_dropped := ms_dropped m1 + k\<rparr>"
    using pi by (simp add: m' merge_purged_def m1_def Let_def)
  show "merge_ready m'" "ms_p m' = ms_p m" "mbalance m' = mbalance m"
    "abs_pending (ms_batch m') = \<lparr>sp_answers = drop_peer_answer q (wait_answers (ms_batch m)),
                                  sp_ice = drop_peer_ice q (wait_ice (ms_batch m))\<rparr>"
    "ms_dropped m' + length (wait_answers (ms_batch m')) + length (wait_ice (ms_batch m')) =
     ms_dropped m + length (wait_answers (ms_batch m)) + length (wait_ice (ms_batch m))"
    using K M1 r by (auto simp: e merge_ready_def mbalance_def abs_pending_def)
qed

lemma merge_purged_all:
  assumes "merge_ready m" "spec_ok (abs_pending (ms_batch m))"
    "list_all (\<lambda>q. length q < KVS_PENDING_ICE_PEERID_LEN) qs" "m' = fold merge_purged qs m"
  shows "merge_ready m' \<and> ms_p m' = ms_p m \<and> mbalance m' = mbalance m \<and>
    spec_ok (abs_pending (ms_batch m')) \<and>
    wait_answers (ms_batch m') = filter (\<lambda>a. an_peer a \<notin> set qs) (wait_answers (ms_batch m)) \<and>
    wait_ice (ms_batch m') = filter (\<lambda>c. ic_peer c \<notin> set qs) (wait_ice (ms_batch m))"
  using assms
proof (induction qs arbitrary: m)
  case Nil
  then show ?case by simp
next
  case (Cons q qs)
  define m1 where "m1 = merge_purged q m"
  note S = merge_purged_step[OF Cons.prems(1,2) _ m1_def]
  have ql: "length q < KVS_PENDING_ICE_PEERID_LEN" using Cons.prems(3) by simp
  have s1: "spec_ok (abs_pending (ms_batch m1))"
    using S(4)[OF ql] Cons.prems(2) drop_peer_ice_ok drop_peer_answer_ok
    by (simp add: spec_ok_def)
  have w: "wait_answers (ms_batch m1) = drop_peer_answer q (wait_answers (ms_batch m))"
    "wait_ice (ms_batch m1) = drop_peer_ice q (wait_ice (ms_batch m))"
    using S(4)[OF ql] by (simp_all add: abs_pending_def)
  have qs: "list_all (\<lambda>q. length q < KVS_PENDING_ICE_PEERID_LEN) qs" "m' = fold merge_purged qs m1"
    using Cons.prems(3,4) by (simp_all add: m1_def)
  note IH = Cons.IH[OF S(1)[OF ql] s1 qs]
  show ?case using IH S(2,3)[OF ql]
    by (auto simp: w drop_peer_ice_def drop_peer_answer_def intro!: filter_cong)
qed

section \<open>Second loop: the answers go back\<close>

text \<open>What one answer of the batch does; \<open>a\<close> is the answer, complete until its turn.\<close>

lemma merge_answer_step:
  assumes r: "merge_ready m" and i: "i < answer_count (ms_batch m)"
    and a: "a = wait_answers (ms_batch m) ! i" "ans_ok a" and m': "m' = merge_answer i m"
  shows "merge_ready m' \<and> same_rest (ms_p m) (ms_p m') \<and> mbalance m' = mbalance m \<and>
    set (wait_answers (ms_p m')) \<subseteq> insert a (set (wait_answers (ms_p m))) \<and>
    set (wait_ice (ms_p m')) \<subseteq> set (wait_ice (ms_p m)) \<and>
    answer_count (ms_batch m') = answer_count (ms_batch m) \<and>
    (wait_answers (ms_batch m') = wait_answers (ms_batch m) \<or>
     wait_answers (ms_batch m') = (wait_answers (ms_batch m))[i := a\<lparr>an_payload := None\<rparr>]) \<and>
    set (wait_ice (ms_batch m')) \<subseteq> set (wait_ice (ms_batch m))"
proof -
  have P: "shape (ms_p m)" "spec_ok (abs_pending (ms_p m))" and B: "batch_len_ok (ms_batch m)"
    and Bs: "shape (ms_batch m)" using r by (auto simp: merge_ready_def batch_len_ok_def)
  have aslot: "answer_slots (ms_batch m) ! i = a" using i a(1) by (simp add: nth_wait_answers)
  have al: "length (an_peer a) < KVS_PENDING_ICE_PEERID_LEN" and apl: "owned (an_payload a) = 1"
    using a(2) by (auto simp: ans_ok_def)
  show ?thesis
  proof (cases "findAnswer (ms_p m) (Some (an_peer a)) = None")
    case False
    then have "m' = m\<lparr>ms_dropped := Suc (ms_dropped m)\<rparr>"
      by (simp add: m' merge_answer_def aslot Let_def)
    then show ?thesis using r by (auto simp: merge_ready_def mbalance_def)
  next
    case True
    obtain ok p1 h1 where e: "ensureAnswerSlots (ms_p m) (ms_heap m) = (ok, p1, h1)"
      by (cases "ensureAnswerSlots (ms_p m) (ms_heap m)") auto
    note E = ensureAnswerSlots_spec[OF P(1) e]
    obtain pl p2 h2 where ins: "(if ok then insertAnswer p1 a h1 else (False, p1, h1)) = (pl, p2, h2)"
      by (cases "if ok then insertAnswer p1 a h1 else (False, p1, h1)") auto
    obtain k b where pi: "purge_ice (ms_batch m) (Some (an_peer a)) = (k, b)"
      by (cases "purge_ice (ms_batch m) (Some (an_peer a))") auto
    have abs1: "abs_pending p1 = abs_pending (ms_p m)" using E(2,3) by (simp add: abs_pending_def)
    have e': "m' = (if pl then m\<lparr>ms_p := p2, ms_heap := h2, ms_batch := (ms_batch m)\<lparr>answers :=
            map_option (\<lambda>xs. xs[i := a\<lparr>an_payload := None\<rparr>]) (answers (ms_batch m))\<rparr>\<rparr>
        else m\<lparr>ms_p := p2, ms_heap := h2, ms_batch := b, ms_dropped := Suc (ms_dropped m) + k\<rparr>)"
      using True e ins pi by (simp add: m' merge_answer_def aslot Let_def)
    have R: "if pl then (\<exists>s. spec_insert a (abs_pending (ms_p m)) = Some s \<and> abs_pending p2 = s) \<and> shape p2 \<and>
          same_rest p1 p2 \<and> balance p2 h2 = balance p1 h1 - 1
        else p2 = p1 \<and> h2 = h1"
    proof (cases ok)
      case True
      then have "insertAnswer p1 a h1 = (pl, p2, h2)" "answers p1 \<noteq> None" using ins E(6) by auto
      then show ?thesis
        using insertAnswer_refines[OF E(1) _ _ al, of h1 pl p2 h2] abs1 P(2) apl
        by (auto split: option.splits)
    qed (use ins in auto)
    show ?thesis
    proof (cases pl)
      case False
      then have e2: "m' = m\<lparr>ms_p := p1, ms_heap := h1, ms_batch := b, ms_dropped := Suc (ms_dropped m) + k\<rparr>"
        using e' R by simp
      note K = purge_ice_batch[OF B al pi]
      have "merge_ready m'" using E(1) abs1 P(2) K(1) by (simp add: e2 merge_ready_def)
      moreover have "mbalance m' = mbalance m"
        using E(5) K(4) by (simp add: e2 mbalance_def balance_def)
      ultimately show ?thesis using E(2,3,4) K(2,3,5)
        by (simp add: e2) (auto simp: drop_peer_ice_def)
    next
      case True
      then obtain s where s: "spec_insert a (abs_pending (ms_p m)) = Some s" "abs_pending p2 = s"
        and R2: "shape p2" "same_rest p1 p2" "balance p2 h2 = balance p1 h1 - 1" using R by auto
      obtain xs where xs: "answers (ms_batch m) = Some xs"
        using i Bs by (cases "answers (ms_batch m)") (auto simp: shape_def)
      define b' where "b' = (ms_batch m)\<lparr>answers := Some (xs[i := a\<lparr>an_payload := None\<rparr>])\<rparr>"
      have e2: "m' = m\<lparr>ms_p := p2, ms_heap := h2, ms_batch := b'\<rparr>"
        using e' True xs by (simp add: b'_def)
      note RB = replace_answer[OF Bs xs i, of "a\<lparr>an_payload := None\<rparr>", folded b'_def]
      have "balance b' (pendingFree h2 (an_payload a)) = balance (ms_batch m) h2"
        using RB(5)[of h2] aslot xs by (simp add: answer_slots_def)
      then have bb: "blocks b' = blocks (ms_batch m) - 1"
        using apl by (simp add: balance_def pendingFree_def)
      have "spec_ok (abs_pending p2)" using spec_insert_ok[OF P(2) a(2)] s by simp
      then have "merge_ready m'" using R2(1) RB(1,3) B by (simp add: e2 merge_ready_def batch_len_ok_def)
      moreover have "mbalance m' = mbalance m"
        using E(5) R2(3) bb by (simp add: e2 mbalance_def balance_def)
      moreover have "set (wait_answers p2) \<subseteq> insert a (set (wait_answers (ms_p m)))"
        "set (wait_ice p2) \<subseteq> set (wait_ice (ms_p m))"
        using spec_insert_from(1,2)[OF s(1)] s(2) by auto
      moreover have "same_rest (ms_p m) p2" using E(4) R2(2) same_rest_trans by blast
      ultimately show ?thesis using RB(2,3) by (simp add: e2) (simp add: b'_def)
    qed
  qed
qed


text \<open>The whole loop, by induction on the number of answers visited.\<close>

lemma merge_answers_all:
  assumes r: "merge_ready m" and ok: "list_all ans_ok (wait_answers (ms_batch m))"
    and n: "n \<le> answer_count (ms_batch m)" and m': "m' = fold merge_answer [0..<n] m"
  shows "merge_ready m' \<and> same_rest (ms_p m) (ms_p m') \<and> mbalance m' = mbalance m \<and>
    set (wait_answers (ms_p m')) \<subseteq> set (wait_answers (ms_batch m)) \<union> set (wait_answers (ms_p m)) \<and>
    set (wait_ice (ms_p m')) \<subseteq> set (wait_ice (ms_p m)) \<and>
    answer_count (ms_batch m') = answer_count (ms_batch m) \<and>
    drop n (wait_answers (ms_batch m')) = drop n (wait_answers (ms_batch m)) \<and>
    map an_peer (wait_answers (ms_batch m')) = map an_peer (wait_answers (ms_batch m)) \<and>
    set (wait_ice (ms_batch m')) \<subseteq> set (wait_ice (ms_batch m))"
  using n m'
proof (induction n arbitrary: m')
  case 0
  then show ?case using r by simp
next
  case (Suc n)
  define m1 where "m1 = fold merge_answer [0..<n] m"
  have IH: "merge_ready m1" "same_rest (ms_p m) (ms_p m1)" "mbalance m1 = mbalance m"
    "set (wait_answers (ms_p m1)) \<subseteq> set (wait_answers (ms_batch m)) \<union> set (wait_answers (ms_p m))"
    "set (wait_ice (ms_p m1)) \<subseteq> set (wait_ice (ms_p m))"
    "answer_count (ms_batch m1) = answer_count (ms_batch m)"
    "drop n (wait_answers (ms_batch m1)) = drop n (wait_answers (ms_batch m))"
    "map an_peer (wait_answers (ms_batch m1)) = map an_peer (wait_answers (ms_batch m))"
    "set (wait_ice (ms_batch m1)) \<subseteq> set (wait_ice (ms_batch m))"
    using Suc.IH[OF _ m1_def] Suc.prems(1) by auto
  have len: "length (wait_answers (ms_batch m)) = answer_count (ms_batch m)"
    "length (wait_answers (ms_batch m1)) = answer_count (ms_batch m)"
    using r IH(1,6) by (auto simp: length_wait_answers merge_ready_def batch_len_ok_def)
  have nn: "n < answer_count (ms_batch m)" using Suc.prems(1) by simp
  define a where "a = wait_answers (ms_batch m1) ! n"
  have am: "a = wait_answers (ms_batch m) ! n"
    using IH(7) nn len by (metis a_def Cons_nth_drop_Suc list.inject)
  then have aok: "ans_ok a" and ain: "a \<in> set (wait_answers (ms_batch m))"
    using ok nn len by (auto simp: list_all_length)
  have e: "m' = merge_answer n m1" using Suc.prems(2) by (simp add: m1_def)
  note S = merge_answer_step[OF IH(1) _ a_def aok e]
  have "drop (Suc n) (wait_answers (ms_batch m1)) = drop (Suc n) (wait_answers (ms_batch m))"
    using arg_cong[OF IH(7), of "drop 1"] by simp
  then have dr: "drop (Suc n) (wait_answers (ms_batch m')) = drop (Suc n) (wait_answers (ms_batch m))"
    using S IH(6) nn by auto
  have mp: "map an_peer (wait_answers (ms_batch m')) = map an_peer (wait_answers (ms_batch m))"
  proof -
    have "map an_peer ((wait_answers (ms_batch m1))[n := a\<lparr>an_payload := None\<rparr>]) = map an_peer (wait_answers (ms_batch m1))"
      by (simp add: map_update a_def) (metis list_update_id len(2) map_update nn nth_map)
    then show ?thesis using S IH(6,8) nn by auto
  qed
  show ?case using S IH nn ain dr mp same_rest_trans[OF IH(2)] by auto
qed


section \<open>Third loop and the candidates\<close>

lemma merge_evicted_all:
  assumes "merge_ready m" "\<forall>s \<in> an_peer ` set (wait_answers (ms_batch m)). length s < KVS_PENDING_ICE_PEERID_LEN"
    and "n \<le> answer_count (ms_batch m)" "m' = fold merge_evicted [0..<n] m"
  shows "merge_ready m' \<and> ms_p m' = ms_p m \<and> mbalance m' = mbalance m \<and>
    wait_answers (ms_batch m') = wait_answers (ms_batch m) \<and>
    answer_count (ms_batch m') = answer_count (ms_batch m) \<and>
    set (wait_ice (ms_batch m')) \<subseteq> set (wait_ice (ms_batch m))"
  using assms(3,4)
proof (induction n arbitrary: m')
  case 0
  then show ?case using assms(1) by simp
next
  case (Suc n)
  define m1 where "m1 = fold merge_evicted [0..<n] m"
  have IH: "merge_ready m1" "ms_p m1 = ms_p m" "mbalance m1 = mbalance m"
    "wait_answers (ms_batch m1) = wait_answers (ms_batch m)"
    "answer_count (ms_batch m1) = answer_count (ms_batch m)"
    "set (wait_ice (ms_batch m1)) \<subseteq> set (wait_ice (ms_batch m))"
    using Suc.IH[OF _ m1_def] Suc.prems(1) by auto
  define a where "a = answer_slots (ms_batch m1) ! n"
  have "a = wait_answers (ms_batch m) ! n"
    using Suc.prems(1) IH(4,5) nth_wait_answers[of n "ms_batch m1"] by (simp add: a_def)
  moreover have "n < length (wait_answers (ms_batch m))"
    using assms(1) Suc.prems(1) by (simp add: length_wait_answers merge_ready_def batch_len_ok_def)
  ultimately have al: "length (an_peer a) < KVS_PENDING_ICE_PEERID_LEN" using assms(2) by auto
  obtain k b where pi: "purge_ice (ms_batch m1) (Some (an_peer a)) = (k, b)"
    by (cases "purge_ice (ms_batch m1) (Some (an_peer a))") auto
  have bl: "batch_len_ok (ms_batch m1)" using IH(1) by (simp add: merge_ready_def)
  note K = purge_ice_batch[OF bl al pi]
  have "m' = merge_evicted n m1" using Suc.prems(2) by (simp add: m1_def)
  then have "m' = m1 \<or> m' = m1\<lparr>ms_batch := b, ms_dropped := Suc (ms_dropped m1) + k\<rparr>"
    using pi by (simp add: merge_evicted_def a_def[symmetric] Let_def)
  then show ?case using IH K by (auto simp: merge_ready_def mbalance_def drop_peer_ice_def)
qed

text \<open>A candidate as it goes back: its payload up to its length.\<close>

definition cut :: "ice_candidate \<Rightarrow> ice_candidate" where
  "cut c = c\<lparr>ic_payload := take (ic_payload_len c) (ic_payload c)\<rparr>"

lemma cut_peer [simp]: "ic_peer (cut c) = ic_peer c"
  by (simp add: cut_def)

lemma merge_candidate_step:
  assumes "shape p" "ice p \<noteq> None" "cand_ok c" "merge_candidate c (p, d) = (p', d')"
  shows "shape p'" "ice p' \<noteq> None" "same_rest p p'" "wait_answers p' = wait_answers p" "blocks p' = blocks p"
    "wait_ice p' = wait_ice p \<or> wait_ice p' = wait_ice p @ [cut c]"
    "list_all cand_ok (wait_ice p) \<Longrightarrow> list_all cand_ok (wait_ice p')"
proof -
  obtain xs where xs: "ice p = Some xs" using assms(2) by blast
  have l: "length xs = KVS_PENDING_ICE_MAX" using assms(1) xs by (auto simp: shape_def)
  define c' where "c' = c\<lparr>ic_payload := take (ic_payload_len c) (ic_payload c)\<rparr>"
  have cp: "copyPeerId (Some (ic_peer c)) = ic_peer c"
    using assms(3) by (simp add: cand_ok_def copyPeerId_fits)
  have alt: "(p', d') = (if ice_count p < KVS_PENDING_ICE_MAX
      then (p\<lparr>ice := Some (xs[ice_count p := c']), ice_count := Suc (ice_count p)\<rparr>, d) else (p, Suc d))"
    using assms(3,4) l cp
    by (cases c) (auto simp: merge_candidate_def kvsPendingIcePush_def xs cand_ok_def c'_def split: if_splits)
  have "shape p' \<and> ice p' \<noteq> None \<and> same_rest p p' \<and> wait_answers p' = wait_answers p \<and> blocks p' = blocks p \<and>
    (wait_ice p' = wait_ice p \<or> wait_ice p' = wait_ice p @ [c'])"
  proof (cases "ice_count p < KVS_PENDING_ICE_MAX")
    case True
    then have e: "p' = p\<lparr>ice := Some (xs[ice_count p := c']), ice_count := Suc (ice_count p)\<rparr>"
      using alt by simp
    have wa: "wait_answers p' = wait_answers p" by (simp add: e wait_answers_def answer_slots_def)
    have "blocks p' = blocks p" by (simp add: blocks_def wa) (simp add: e xs)
    then show ?thesis using assms(1) xs l True wa
      by (simp add: e shape_def same_rest_def wait_ice_def take_Suc_conv_app_nth)
  next
    case False
    then show ?thesis using alt assms(1,2) by simp
  qed
  moreover have "cand_ok c'" using assms(3) by (simp add: cand_ok_def c'_def)
  ultimately show "shape p'" "ice p' \<noteq> None" "same_rest p p'" "wait_answers p' = wait_answers p"
    "blocks p' = blocks p"
    "wait_ice p' = wait_ice p \<or> wait_ice p' = wait_ice p @ [cut c]"
    "list_all cand_ok (wait_ice p) \<Longrightarrow> list_all cand_ok (wait_ice p')"
    by (auto simp: c'_def cut_def)
qed

lemma subseq_members: "subseq xs ys \<Longrightarrow> set xs \<subseteq> set ys"
  by (induction rule: list_emb.induct) auto

lemma merge_candidates_all:
  assumes "shape p" "ice p \<noteq> None" "list_all cand_ok cs" "list_all cand_ok (wait_ice p)"
    "fold merge_candidate cs (p, d) = (p', d')"
  shows "shape p' \<and> same_rest p p' \<and> wait_answers p' = wait_answers p \<and> blocks p' = blocks p \<and>
    list_all cand_ok (wait_ice p') \<and>
    (\<exists>ys. wait_ice p' = wait_ice p @ map cut ys \<and> subseq ys cs)"
  using assms
proof (induction cs arbitrary: p d)
  case Nil
  then show ?case by simp
next
  case (Cons c cs)
  obtain p1 d1 where c: "merge_candidate c (p, d) = (p1, d1)" by (cases "merge_candidate c (p, d)") auto
  have cok: "cand_ok c" "list_all cand_ok cs" using Cons.prems(3) by auto
  note S = merge_candidate_step[OF Cons.prems(1,2) cok(1) c]
  have run: "fold merge_candidate cs (p1, d1) = (p', d')" using Cons.prems(5) c by simp
  note IH = Cons.IH[OF S(1,2) cok(2) S(7)[OF Cons.prems(4)] run]
  obtain ys where y: "wait_ice p' = wait_ice p1 @ map cut ys" "subseq ys cs" using IH by blast
  have "\<exists>zs. wait_ice p' = wait_ice p @ map cut zs \<and> subseq zs (c # cs)"
    using S(6)
  proof
    assume "wait_ice p1 = wait_ice p"
    then show ?thesis using y by (intro exI[of _ ys]) (auto intro: list_emb_Cons)
  next
    assume "wait_ice p1 = wait_ice p @ [cut c]"
    then show ?thesis using y by (intro exI[of _ "c # ys"]) simp
  qed
  moreover have "same_rest p p'" using IH S(3) same_rest_trans by blast
  moreover have "wait_answers p' = wait_answers p" "blocks p' = blocks p" using IH S(4,5) by simp_all
  ultimately show ?case using IH by blast
qed

lemma merge_ice_spec:
  assumes r: "merge_ready m" and m': "m' = merge_ice m"
  shows "merge_ready m' \<and> same_rest (ms_p m) (ms_p m') \<and> mbalance m' = mbalance m \<and>
    wait_answers (ms_p m') = wait_answers (ms_p m) \<and>
    (\<exists>ys. wait_ice (ms_p m') = wait_ice (ms_p m) @ ys \<and>
       (subseq ys (wait_ice (ms_batch m)) \<or> subseq ys (map cut (wait_ice (ms_batch m)))))"
proof -
  let ?p = "ms_p m" and ?b = "ms_batch m"
  have P: "shape ?p" "spec_ok (abs_pending ?p)" and B: "shape ?b" "list_all cand_ok (wait_ice ?b)"
    using r by (auto simp: merge_ready_def batch_len_ok_def)
  have Pc: "list_all cand_ok (wait_ice ?p)" using P(2) by (simp add: spec_ok_def)
  consider (none) "ice_count ?b = 0" | (adopt) "ice_count ?b > 0" "ice ?p = None"
    | (push) "ice_count ?b > 0" "ice ?p \<noteq> None" by auto
  then show ?thesis
  proof cases
    case none
    then have "m' = m" by (simp add: m' merge_ice_def Let_def)
    then show ?thesis using r by simp
  next
    case adopt
    define p1 where "p1 = ?p\<lparr>ice := ice ?b, ice_count := ice_count ?b\<rparr>"
    define b1 where "b1 = ?b\<lparr>ice := None, ice_count := 0\<rparr>"
    have e: "m' = m\<lparr>ms_p := p1, ms_batch := b1\<rparr>"
      using adopt by (simp add: m' merge_ice_def Let_def p1_def b1_def)
    have v: "wait_ice p1 = wait_ice ?b" "wait_answers p1 = wait_answers ?p" "wait_ice b1 = []"
      "wait_answers b1 = wait_answers ?b" "wait_ice ?p = []"
      using adopt by (simp_all add: p1_def b1_def wait_ice_def wait_answers_def answer_slots_def split: option.splits)
    have "blocks p1 + blocks b1 = blocks ?p + blocks ?b"
      using adopt by (simp add: blocks_def v) (simp add: p1_def b1_def)
    moreover have "shape p1" "shape b1" using P(1) B(1) by (auto simp: p1_def b1_def shape_def)
    moreover have "same_rest ?p p1" by (simp add: p1_def same_rest_def)
    ultimately show ?thesis using P(2) B(2)
      by (auto simp: e merge_ready_def batch_len_ok_def mbalance_def spec_ok_def v)
  next
    case push
    obtain p1 d1 where f: "fold merge_candidate (case ice ?b of None \<Rightarrow> [] | Some xs \<Rightarrow> take (ice_count ?b) xs)
        (?p, ms_dropped m) = (p1, d1)"
      by (cases "fold merge_candidate (case ice ?b of None \<Rightarrow> [] | Some xs \<Rightarrow> take (ice_count ?b) xs)
        (?p, ms_dropped m)") auto
    have e: "m' = m\<lparr>ms_p := p1, ms_dropped := d1\<rparr>" using push f by (auto simp: m' merge_ice_def Let_def)
    have f': "fold merge_candidate (wait_ice ?b) (?p, ms_dropped m) = (p1, d1)" using f by (simp add: wait_ice_def)
    note C = merge_candidates_all[OF P(1) push(2) B(2) Pc f']
    obtain ys where y: "wait_ice p1 = wait_ice ?p @ map cut ys" "subseq ys (wait_ice ?b)" using C by blast
    then have "\<exists>zs. wait_ice p1 = wait_ice ?p @ zs \<and> (subseq zs (wait_ice ?b) \<or> subseq zs (map cut (wait_ice ?b)))"
      using subseq_map by blast
    then show ?thesis using C P(2) r
      by (simp add: e merge_ready_def batch_len_ok_def mbalance_def spec_ok_def)
  qed
qed

section \<open>The whole merge\<close>

lemma merge_spec:
  assumes inv: "pending_inv p" "pending_inv b"
    and run: "kvsPendingSignalingMerge p b h = (d, p', b', h')"
  shows "pending_inv p'" "b' = kvsPendingSignalingInit" "\<not> batch_out p'" "purged_ids p' = []"
    "live h' - blocks p' = live h - blocks p - blocks b"
    "set (wait_answers p') \<subseteq> set (wait_answers p) \<union>
       {a \<in> set (wait_answers b). an_peer a \<notin> set (purged_ids p)}"
    "set (wait_ice p') \<subseteq> set (wait_ice p) \<union>
       {c. \<exists>c0 \<in> set (wait_ice b). ic_peer c0 \<notin> set (purged_ids p) \<and> (c = c0 \<or> c = cut c0)}"
proof -
  define m0 where "m0 = \<lparr>ms_p = p, ms_batch = b, ms_dropped = 0, ms_heap = h\<rparr>"
  define m1 where "m1 = fold merge_purged (purged_ids p) m0"
  define m2 where "m2 = fold merge_answer [0..<answer_count (ms_batch m1)] m1"
  define m3 where "m3 = fold merge_evicted [0..<answer_count (ms_batch m2)] m2"
  define m4 where "m4 = merge_ice m3"
  obtain bf h1 where fr: "kvsPendingSignalingFree (ms_batch m4) (ms_heap m4) = (bf, h1)"
    by (cases "kvsPendingSignalingFree (ms_batch m4) (ms_heap m4)") auto
  obtain p1 h2 where rel: "releaseEmpty (ms_p m4) h1 = (p1, h2)" by (cases "releaseEmpty (ms_p m4) h1") auto
  have out: "p' = p1\<lparr>purged := None, purged_count := 0, batch_out := False\<rparr>" "b' = bf"
    "h' = pendingFree h2 (purged p1)"
    using run fr rel by (auto simp: kvsPendingSignalingMerge_def Let_def m0_def[symmetric] m1_def[symmetric]
        m2_def[symmetric] m3_def[symmetric] m4_def[symmetric] clearPurged_def)
  have P: "shape p" "spec_ok (abs_pending p)" "purged_ok p" and B: "shape b" "spec_ok (abs_pending b)"
    using inv by (auto simp: pending_inv_alt)
  have r0: "merge_ready m0" using P B by (auto simp: m0_def merge_ready_def batch_len_ok_def spec_ok_def)
  have pid: "list_all (\<lambda>q. length q < KVS_PENDING_ICE_PEERID_LEN) (purged_ids p)"
    using P(3) by (simp add: purged_ok_def)
  have s0: "spec_ok (abs_pending (ms_batch m0))" using B(2) by (simp add: m0_def)
  note M1 = merge_purged_all[OF r0 s0 pid m1_def]
  have "spec_ok (abs_pending (ms_batch m1))" using M1 by blast
  then have ok1: "list_all ans_ok (wait_answers (ms_batch m1))" unfolding spec_ok_def by simp
  note M2 = merge_answers_all[OF conjunct1[OF M1] ok1 order.refl m2_def]
  have peers: "\<forall>s \<in> an_peer ` set (wait_answers (ms_batch m2)). length s < KVS_PENDING_ICE_PEERID_LEN"
  proof -
    have "an_peer ` set (wait_answers (ms_batch m2)) = an_peer ` set (wait_answers (ms_batch m1))"
      using M2 by (metis set_map)
    then show ?thesis using ok1 by (auto simp: list_all_iff ans_ok_def)
  qed
  note M3 = merge_evicted_all[OF conjunct1[OF M2] peers order.refl m3_def]
  note M4 = merge_ice_spec[OF conjunct1[OF M3] m4_def]
  have R4: "shape (ms_p m4)" "spec_ok (abs_pending (ms_p m4))" "shape (ms_batch m4)"
    using M4 by (auto simp: merge_ready_def batch_len_ok_def)
  have sr: "same_rest p (ms_p m4)"
    using M1 M2 M3 M4 same_rest_trans[of p "ms_p m2" "ms_p m4"] by (simp add: m0_def)
  note F = free_spec[OF R4(3) fr]
  note L = release_inv[OF R4(1,2) purged_ok_rest[OF sr P(3)] rel]
  have v: "wait_answers p' = wait_answers (ms_p m4)" "wait_ice p' = wait_ice (ms_p m4)"
    using L(2) by (simp_all add: out abs_pending_def wait_answers_def answer_slots_def wait_ice_def split: option.splits)
  have "shape p1" "tight p1" using L(1) by (auto simp: pending_inv_alt)
  then show "pending_inv p'" using R4(2)
    by (simp add: pending_inv_alt spec_ok_def v) (simp add: out shape_def tight_def purged_ok_def purged_ids_def)
  show "b' = kvsPendingSignalingInit" using F(1) out by simp
  show "\<not> batch_out p'" "purged_ids p' = []" by (simp_all add: out purged_ids_def)
  have "blocks p' = blocks p1 - owned (purged p1)"
    using L(2) by (simp add: blocks_def v abs_pending_def) (simp add: out)
  then have "live h' - blocks p' = balance p1 h2" by (simp add: out pendingFree_def balance_def)
  also have "\<dots> = balance (ms_p m4) h1" by (rule L(4))
  also have "\<dots> = mbalance m4" using F(2) by (simp add: balance_def mbalance_def)
  also have "\<dots> = mbalance m0" using M1 M2 M3 M4 by simp
  finally show "live h' - blocks p' = live h - blocks p - blocks b" by (simp add: mbalance_def m0_def)
  show "set (wait_answers p') \<subseteq> set (wait_answers p) \<union>
       {a \<in> set (wait_answers b). an_peer a \<notin> set (purged_ids p)}"
    using M1 M2 M3 M4 by (auto simp: v m0_def)
  obtain ys where y: "wait_ice (ms_p m4) = wait_ice (ms_p m3) @ ys"
    "subseq ys (wait_ice (ms_batch m3)) \<or> subseq ys (map cut (wait_ice (ms_batch m3)))" using M4 by blast
  have "set ys \<subseteq> set (wait_ice (ms_batch m3)) \<or> set ys \<subseteq> set (map cut (wait_ice (ms_batch m3)))"
    using y(2) subseq_members by blast
  then have "set ys \<subseteq> {c. \<exists>c0 \<in> set (wait_ice (ms_batch m3)). c = c0 \<or> c = cut c0}"
    unfolding set_map by blast
  moreover have "set (wait_ice (ms_batch m3)) \<subseteq> set (wait_ice (ms_batch m1))" using M2 M3 by auto
  moreover have "set (wait_ice (ms_batch m1)) = {c \<in> set (wait_ice b). ic_peer c \<notin> set (purged_ids p)}"
    using M1 by (auto simp: m0_def)
  moreover have "set (wait_ice (ms_p m3)) \<subseteq> set (wait_ice p)" using M1 M2 M3 by (auto simp: m0_def)
  ultimately show "set (wait_ice p') \<subseteq> set (wait_ice p) \<union>
       {c. \<exists>c0 \<in> set (wait_ice b). ic_peer c0 \<notin> set (purged_ids p) \<and> (c = c0 \<or> c = cut c0)}"
    unfolding v y(1) by auto
qed

end
