(* ===== verification/Pending_Owner.thy ===== *)
theory Pending_Owner
  imports Pending_Merge
begin

text \<open>
  The owner of a buffer, \<open>components/signaling/kvs_signaling/src/kvs_signaling.c\<close>: it buffers and
  purges under its send lock, takes a batch at the start of a flush, re-sends the batch without the
  lock and merges it back. One step is one critical section, or the drain of the batch, which
  touches only the batch. The window of a flush, from the
  taking of a batch to its merge, and what the record of purged peers holds in it come last.
\<close>

section \<open>The owner as a step relation\<close>

record owner =
  ow_pending :: pending
  ow_batch :: "pending option"
  ow_heap :: heap

definition owner_init :: "heap \<Rightarrow> owner" where
  "owner_init h = \<lparr>ow_pending = kvsPendingSignalingInit, ow_batch = None, ow_heap = h\<rparr>"

text \<open>
  \<open>flush_take\<close> is the first critical section of \<open>kvsFlushPendingSignaling\<close>: with a batch already out
  it leaves at once, and an empty batch is freed and never merged. \<open>flush_drain\<close> re-sends: the
  outcome of the sends is that of any callback \<open>f\<close>. \<open>flush_merge\<close> is the second critical section.
\<close>

definition flush_take :: "owner \<Rightarrow> owner" where
  "flush_take s =
     (if ow_batch s \<noteq> None then s
      else case kvsPendingSignalingTake (ow_pending s) of (p, b) \<Rightarrow>
        if kvsPendingSignalingCount (Some b) = 0
        then s\<lparr>ow_pending := p, ow_heap := snd (kvsPendingSignalingFree b (ow_heap s))\<rparr>
        else s\<lparr>ow_pending := p, ow_batch := Some b\<rparr>)"

definition flush_drain :: "nat pending_send \<Rightarrow> nat \<Rightarrow> uint64 \<Rightarrow> owner \<Rightarrow> owner" where
  "flush_drain f ctx now_ms s =
     (case ow_batch s of
        None \<Rightarrow> s
      | Some b \<Rightarrow> (case kvsPendingSignalingDrain (Some b) (Some f) ctx now_ms (ow_heap s) of
          (remaining, stats, b', ctx', h) \<Rightarrow> s\<lparr>ow_batch := b', ow_heap := h\<rparr>))"

definition flush_merge :: "owner \<Rightarrow> owner" where
  "flush_merge s =
     (case ow_batch s of
        None \<Rightarrow> s
      | Some b \<Rightarrow> (case kvsPendingSignalingMerge (ow_pending s) b (ow_heap s) of
          (dropped, p, b', h) \<Rightarrow> s\<lparr>ow_pending := p, ow_batch := None, ow_heap := h\<rparr>))"

definition owner_push :: "string option \<Rightarrow> string option \<Rightarrow> nat \<Rightarrow> uint32 \<Rightarrow> owner \<Rightarrow> owner" where
  "owner_push q payload n v s =
     (case kvsPendingSignalingPushIce (ow_pending s) q payload n v (ow_heap s) of
        (ok, p, h) \<Rightarrow> s\<lparr>ow_pending := p, ow_heap := h\<rparr>)"

definition owner_put :: "string option \<Rightarrow> string option \<Rightarrow> string option \<Rightarrow> nat \<Rightarrow> uint32 \<Rightarrow> uint64 \<Rightarrow>
    owner \<Rightarrow> owner" where
  "owner_put q c payload n v now_ms s =
     (case kvsPendingSignalingPutAnswer (ow_pending s) q c payload n v now_ms (ow_heap s) of
        (ok, p, h) \<Rightarrow> s\<lparr>ow_pending := p, ow_heap := h\<rparr>)"

definition owner_drop :: "string option \<Rightarrow> owner \<Rightarrow> owner" where
  "owner_drop q s =
     (case kvsPendingSignalingDropAnswer (ow_pending s) q (ow_heap s) of
        (ok, p, h) \<Rightarrow> s\<lparr>ow_pending := p, ow_heap := h\<rparr>)"

definition owner_purge :: "string option \<Rightarrow> owner \<Rightarrow> owner" where
  "owner_purge q s =
     (case kvsPendingSignalingPurgePeer (ow_pending s) q (ow_heap s) of
        (removed, p, h) \<Rightarrow> s\<lparr>ow_pending := p, ow_heap := h\<rparr>)"

inductive owner_step :: "owner \<Rightarrow> owner \<Rightarrow> bool" where
  step_push: "owner_step s (owner_push q payload n v s)"
| step_put: "owner_step s (owner_put q c payload n v now_ms s)"
| step_drop: "owner_step s (owner_drop q s)"
| step_purge: "owner_step s (owner_purge q s)"
| step_take: "owner_step s (flush_take s)"
| step_drain: "owner_step s (flush_drain f ctx now_ms s)"
| step_merge: "owner_step s (flush_merge s)"

inductive owner_reachable :: "owner \<Rightarrow> bool" where
  reach_init: "live h = 0 \<Longrightarrow> owner_reachable (owner_init h)"
| reach_step: "owner_reachable s \<Longrightarrow> owner_step s s' \<Longrightarrow> owner_reachable s'"

inductive_cases owner_stepE: "owner_step s s'"

definition batch_blocks :: "owner \<Rightarrow> int" where
  "batch_blocks s = (case ow_batch s of None \<Rightarrow> 0 | Some b \<Rightarrow> blocks b)"

definition owner_inv :: "owner \<Rightarrow> bool" where
  "owner_inv s \<longleftrightarrow> pending_inv (ow_pending s) \<and> list_all pending_inv (case ow_batch s of None \<Rightarrow> [] | Some b \<Rightarrow> [b]) \<and>
     live (ow_heap s) = blocks (ow_pending s) + batch_blocks s"

lemma owner_init_inv: "live h = 0 \<Longrightarrow> owner_inv (owner_init h)"
  using pending_inv_init
  by (simp add: owner_inv_def owner_init_def batch_blocks_def blocks_def kvsPendingSignalingInit_def
      wait_answers_def answer_slots_def)

lemma owner_inv_pending:
  assumes "owner_inv s" "pending_inv p" "balance p h = balance (ow_pending s) (ow_heap s)"
  shows "owner_inv (s\<lparr>ow_pending := p, ow_heap := h\<rparr>)"
  using assms by (simp add: owner_inv_def balance_def batch_blocks_def)

lemma owner_push_inv: "owner_inv s \<Longrightarrow> owner_inv (owner_push q payload n v s)"
  using pushIce_spec[of "ow_pending s" q payload n v "ow_heap s"]
  by (auto simp: owner_push_def owner_inv_def[of s] intro!: owner_inv_pending split: prod.splits)

lemma owner_put_inv: "owner_inv s \<Longrightarrow> owner_inv (owner_put q c payload n v t s)"
  using putAnswer_spec[of "ow_pending s" q c payload n v t "ow_heap s"]
  by (auto simp: owner_put_def owner_inv_def[of s] intro!: owner_inv_pending split: prod.splits)

lemma owner_drop_inv: "owner_inv s \<Longrightarrow> owner_inv (owner_drop q s)"
  using dropAnswer_spec[of "ow_pending s" q "ow_heap s"]
  by (auto simp: owner_drop_def owner_inv_def[of s] intro!: owner_inv_pending split: prod.splits)

lemma owner_purge_inv: "owner_inv s \<Longrightarrow> owner_inv (owner_purge q s)"
proof (cases q)
  case None
  assume "owner_inv s" then show ?thesis using None
    by (simp add: owner_purge_def kvsPendingSignalingPurgePeer_def)
next
  case (Some x)
  assume "owner_inv s" then show ?thesis using Some purgePeer_spec[of "ow_pending s" x "ow_heap s"]
    by (auto simp: owner_purge_def owner_inv_def[of s] intro!: owner_inv_pending split: prod.splits)
qed

lemma flush_take_inv:
  assumes "owner_inv s" shows "owner_inv (flush_take s)"
proof (cases "ow_batch s")
  case None
  obtain p b where t: "kvsPendingSignalingTake (ow_pending s) = (p, b)"
    by (cases "kvsPendingSignalingTake (ow_pending s)")
  have i: "pending_inv (ow_pending s)" using assms by (simp add: owner_inv_def)
  note T = take_spec[OF i t]
  have "shape b" using T(2) by (simp add: pending_inv_def)
  moreover obtain b' h' where f: "kvsPendingSignalingFree b (ow_heap s) = (b', h')"
    by (cases "kvsPendingSignalingFree b (ow_heap s)")
  ultimately have "live h' = live (ow_heap s) - blocks b" by (rule free_spec(2))
  then show ?thesis using assms None T(1,2,5) f
    by (auto simp: flush_take_def t owner_inv_def batch_blocks_def)
qed (use assms in \<open>simp add: flush_take_def\<close>)

lemma flush_drain_inv:
  assumes "owner_inv s" shows "owner_inv (flush_drain f ctx now_ms s)"
proof (cases "ow_batch s")
  case (Some b)
  obtain n st q ctx' h where d:
    "kvsPendingSignalingDrain (Some b) (Some f) ctx now_ms (ow_heap s) = (n, st, q, ctx', h)"
    by (metis prod_cases5)
  have i: "pending_inv b" using assms Some by (simp add: owner_inv_def)
  obtain p' where "q = Some p'" "pending_inv p'" "balance p' h = balance b (ow_heap s)"
    by (rule drain_spec[OF i d])
  then show ?thesis using assms Some d
    by (simp add: flush_drain_def owner_inv_def batch_blocks_def balance_def)
qed (use assms in \<open>simp add: flush_drain_def\<close>)

lemma flush_merge_inv:
  assumes "owner_inv s" shows "owner_inv (flush_merge s)"
proof (cases "ow_batch s")
  case (Some b)
  obtain d p b' h where m: "kvsPendingSignalingMerge (ow_pending s) b (ow_heap s) = (d, p, b', h)"
    by (metis prod_cases4)
  have i: "pending_inv (ow_pending s)" "pending_inv b" using assms Some by (simp_all add: owner_inv_def)
  note M = merge_spec[OF i m]
  show ?thesis using assms Some m M(1,5)
    by (simp add: flush_merge_def owner_inv_def batch_blocks_def)
qed (use assms in \<open>simp add: flush_merge_def\<close>)

lemmas owner_ops_inv = owner_push_inv owner_put_inv owner_drop_inv owner_purge_inv
  flush_take_inv flush_drain_inv flush_merge_inv

lemma owner_step_inv: "owner_step s s' \<Longrightarrow> owner_inv s \<Longrightarrow> owner_inv s'"
  by (elim owner_stepE) (simp_all add: owner_ops_inv)

lemma owner_reachable_inv: "owner_reachable s \<Longrightarrow> owner_inv s"
  by (induction rule: owner_reachable.induct) (auto intro: owner_init_inv owner_step_inv)

section \<open>The window of a flush\<close>

text \<open>With no batch out there is no window open and nobody is recorded as purged.\<close>

definition window_shut :: "pending \<Rightarrow> bool" where
  "window_shut p \<longleftrightarrow> \<not> batch_out p \<and> purged_ids p = []"

lemma same_rest_ids: "same_rest p p' \<Longrightarrow> purged_ids p' = purged_ids p \<and> batch_out p' = batch_out p"
  by (cases "purged p") (simp_all add: purged_ids_def same_rest_def)

lemma same_rest_window: "same_rest p p' \<Longrightarrow> window_shut p' = window_shut p"
  by (simp add: window_shut_def same_rest_ids)

lemma owner_push_rest:
  assumes "owner_inv s"
  shows "same_rest (ow_pending s) (ow_pending (owner_push q payload n v s)) \<and>
    ow_batch (owner_push q payload n v s) = ow_batch s"
  using assms pushIce_spec(2)[of "ow_pending s" q payload n v "ow_heap s"]
  by (auto simp: owner_push_def owner_inv_def split: prod.splits)

lemma owner_put_rest:
  assumes "owner_inv s"
  shows "same_rest (ow_pending s) (ow_pending (owner_put q c payload n v t s)) \<and>
    ow_batch (owner_put q c payload n v t s) = ow_batch s"
  using assms putAnswer_spec[of "ow_pending s" q c payload n v t "ow_heap s"]
  by (auto simp: owner_put_def owner_inv_def split: prod.splits)

lemma owner_drop_rest:
  assumes "owner_inv s"
  shows "same_rest (ow_pending s) (ow_pending (owner_drop q s)) \<and> ow_batch (owner_drop q s) = ow_batch s"
  using assms dropAnswer_spec(2)[of "ow_pending s" q "ow_heap s"]
  by (auto simp: owner_drop_def owner_inv_def split: prod.splits)

lemma flush_drain_rest:
  "ow_pending (flush_drain f ctx now_ms s) = ow_pending s \<and>
   (ow_batch (flush_drain f ctx now_ms s) = None \<longleftrightarrow> ow_batch s = None)"
  by (auto simp: flush_drain_def kvsPendingSignalingDrain_def Let_def split: option.splits prod.splits)

lemmas owner_rests = owner_push_rest owner_put_rest owner_drop_rest

lemma owner_purge_none: "owner_purge None s = s"
  by (simp add: owner_purge_def kvsPendingSignalingPurgePeer_def)

definition slot_id :: "string \<Rightarrow> string" where
  "slot_id q = copyPeerId (Some q)"

lemma owner_purge_record:
  assumes "owner_inv s" and t: "t = owner_purge (Some q) s"
  shows "ow_batch t = ow_batch s" "batch_out (ow_pending t) = batch_out (ow_pending s)"
    "\<not> batch_out (ow_pending s) \<Longrightarrow> purged_ids (ow_pending t) = purged_ids (ow_pending s)"
    "slot_id q \<in> set (purged_ids (ow_pending s)) \<Longrightarrow> purged_ids (ow_pending t) = purged_ids (ow_pending s)"
    "purged_ids (ow_pending t) = purged_ids (ow_pending s) \<or>
     purged_ids (ow_pending t) = purged_ids (ow_pending s) @ [slot_id q]"
    "batch_out (ow_pending s) \<and> purged (ow_pending t) \<noteq> None \<and>
     length (purged_ids (ow_pending s)) < KVS_PENDING_PURGED_MAX \<Longrightarrow>
     slot_id q \<in> set (purged_ids (ow_pending t))"
proof -
  obtain k p h where r: "kvsPendingSignalingPurgePeer (ow_pending s) (Some q) (ow_heap s) = (k, p, h)"
    by (metis prod_cases3)
  have i: "pending_inv (ow_pending s)" using assms(1) by (simp add: owner_inv_def)
  have e: "ow_pending t = p" "ow_batch t = ow_batch s" by (simp_all add: t owner_purge_def r)
  note P = purgePeer_spec[OF i r]
  show "ow_batch t = ow_batch s" by (rule e(2))
  show "batch_out (ow_pending t) = batch_out (ow_pending s)" using P(3) e(1) by simp
  show "\<not> batch_out (ow_pending s) \<Longrightarrow> purged_ids (ow_pending t) = purged_ids (ow_pending s)"
    using P(7) e(1) by simp
  show "slot_id q \<in> set (purged_ids (ow_pending s)) \<Longrightarrow> purged_ids (ow_pending t) = purged_ids (ow_pending s)"
    using P(10) e(1) by (simp add: slot_id_def)
  show "purged_ids (ow_pending t) = purged_ids (ow_pending s) \<or>
     purged_ids (ow_pending t) = purged_ids (ow_pending s) @ [slot_id q]"
    using P(8) e(1) by (simp add: slot_id_def)
  show "batch_out (ow_pending s) \<and> purged (ow_pending t) \<noteq> None \<and>
     length (purged_ids (ow_pending s)) < KVS_PENDING_PURGED_MAX \<Longrightarrow>
     slot_id q \<in> set (purged_ids (ow_pending t))"
    using P(9) e(1) by (simp add: slot_id_def)
qed

lemma flush_take_window:
  assumes "owner_inv s" "ow_batch s = None"
  shows "purged_ids (ow_pending (flush_take s)) = purged_ids (ow_pending s)"
    "batch_out (ow_pending (flush_take s)) \<longleftrightarrow> ow_batch (flush_take s) \<noteq> None"
proof -
  obtain p b where t: "kvsPendingSignalingTake (ow_pending s) = (p, b)"
    by (cases "kvsPendingSignalingTake (ow_pending s)")
  have i: "pending_inv (ow_pending s)" using assms by (simp add: owner_inv_def)
  note T = take_spec[OF i t]
  have sh: "shape b" using T(2) by (simp add: pending_inv_def)
  have "kvsPendingSignalingCount (Some b) = 0 \<longleftrightarrow> wait_answers b = [] \<and> wait_ice b = []"
    using length_wait_answers[OF sh] length_wait_ice[OF sh]
    by (auto simp: kvsPendingSignalingCount_def)
  moreover have "wait_answers b = wait_answers (ow_pending s)" "wait_ice b = wait_ice (ow_pending s)"
    using T(3) by (simp_all add: abs_pending_def)
  ultimately show "purged_ids (ow_pending (flush_take s)) = purged_ids (ow_pending s)"
    "batch_out (ow_pending (flush_take s)) \<longleftrightarrow> ow_batch (flush_take s) \<noteq> None"
    using assms(2) T(6,8) by (auto simp: flush_take_def t)
qed

lemma window_shut_between:
  "owner_reachable s \<Longrightarrow> ow_batch s = None \<longrightarrow> window_shut (ow_pending s)"
proof (induction rule: owner_reachable.induct)
  case (reach_init h)
  show ?case
    by (simp add: owner_init_def window_shut_def kvsPendingSignalingInit_def purged_ids_def)
next
  case (reach_step s s')
  have i: "owner_inv s" using reach_step(1) by (rule owner_reachable_inv)
  show ?case using reach_step(2)
  proof (cases rule: owner_step.cases)
    case (step_purge q)
    then show ?thesis
    proof (cases q)
      case None
      then show ?thesis using reach_step(3) step_purge by (simp add: owner_purge_none)
    next
      case (Some x)
      have e: "s' = owner_purge (Some x) s" using step_purge Some by simp
      show ?thesis using owner_purge_record(1-3)[OF i e] reach_step(3) by (auto simp: window_shut_def)
    qed
  next
    case step_take
    show ?thesis
    proof (cases "ow_batch s")
      case None
      then show ?thesis using flush_take_window[OF i None] reach_step(3) step_take
        by (auto simp: window_shut_def)
    qed (use step_take in \<open>simp add: flush_take_def\<close>)
  next
    case step_merge
    show ?thesis
    proof (cases "ow_batch s")
      case (Some b)
      obtain d p b' h where m: "kvsPendingSignalingMerge (ow_pending s) b (ow_heap s) = (d, p, b', h)"
        by (metis prod_cases4)
      have j: "pending_inv (ow_pending s)" "pending_inv b" using i Some by (simp_all add: owner_inv_def)
      show ?thesis using merge_spec[OF j m] step_merge Some m
        by (simp add: flush_merge_def window_shut_def)
    qed (use step_merge reach_step(3) in \<open>simp add: flush_merge_def\<close>)
  qed (use reach_step(3) in \<open>simp_all add: flush_drain_rest owner_rests[OF i]
        owner_rests[OF i, THEN conjunct1, THEN same_rest_window]\<close>)
qed

text \<open>
  \<open>purge_window s qs t\<close>: a flush took a batch in the state \<open>s\<close>, it is still out in \<open>t\<close>, and the
  peers \<open>qs\<close> were purged in between, each with memory for the record of the purged peers (a purge
  of no peer does nothing). Anything else the owner can do happens in between as well.
\<close>

inductive purge_window :: "owner \<Rightarrow> string list \<Rightarrow> owner \<Rightarrow> bool" for s where
  window_opens: "ow_batch s = None \<Longrightarrow> ow_batch (flush_take s) \<noteq> None \<Longrightarrow> purge_window s [] (flush_take s)"
| window_push: "purge_window s qs t \<Longrightarrow> purge_window s qs (owner_push q payload n v t)"
| window_put: "purge_window s qs t \<Longrightarrow> purge_window s qs (owner_put q c payload n v now_ms t)"
| window_drop: "purge_window s qs t \<Longrightarrow> purge_window s qs (owner_drop q t)"
| window_take: "purge_window s qs t \<Longrightarrow> purge_window s qs (flush_take t)"
| window_drain: "purge_window s qs t \<Longrightarrow> purge_window s qs (flush_drain f ctx now_ms t)"
| window_purge: "purge_window s qs t \<Longrightarrow> purged (ow_pending (owner_purge (Some q) t)) \<noteq> None \<Longrightarrow>
    purge_window s (q # qs) (owner_purge (Some q) t)"

definition purge_record_ok :: "string list \<Rightarrow> string list \<Rightarrow> bool" where
  "purge_record_ok qs ids \<longleftrightarrow> distinct ids \<and> set ids \<subseteq> slot_id ` set qs \<and>
     (card (slot_id ` set qs) \<le> KVS_PENDING_PURGED_MAX \<longrightarrow> set ids = slot_id ` set qs)"

lemma purge_record_grows:
  assumes ok: "purge_record_ok qs ids"
    and same: "slot_id q \<in> set ids \<Longrightarrow> ids' = ids"
    and either: "ids' = ids \<or> ids' = ids @ [slot_id q]"
    and room: "length ids < KVS_PENDING_PURGED_MAX \<Longrightarrow> slot_id q \<in> set ids'"
  shows "purge_record_ok (q # qs) ids'"
proof (cases "slot_id q \<in> set ids")
  case True
  then have "slot_id q \<in> slot_id ` set qs" using ok by (auto simp: purge_record_ok_def)
  then have "slot_id ` set (q # qs) = slot_id ` set qs" by auto
  then show ?thesis using ok same[OF True] by (simp add: purge_record_ok_def)
next
  case False
  have d: "distinct ids" and sub: "set ids \<subseteq> slot_id ` set qs" using ok by (auto simp: purge_record_ok_def)
  have d': "distinct ids'" "set ids' \<subseteq> slot_id ` set (q # qs)" using either d sub False by auto
  have "set ids' = slot_id ` set (q # qs)" if c: "card (slot_id ` set (q # qs)) \<le> KVS_PENDING_PURGED_MAX"
  proof -
    have "card (slot_id ` set qs) \<le> card (slot_id ` set (q # qs))" by (intro card_mono) auto
    then have e: "set ids = slot_id ` set qs" using ok c by (simp add: purge_record_ok_def)
    have "length ids = card (slot_id ` set qs)" using distinct_card[OF d] e by simp
    moreover have "card (slot_id ` set (q # qs)) = Suc (card (slot_id ` set qs))" using False e by simp
    ultimately have "slot_id q \<in> set ids'" using c by (intro room) simp
    then show ?thesis using either e by auto
  qed
  then show ?thesis using d' by (simp add: purge_record_ok_def)
qed

definition window_inv :: "string list \<Rightarrow> owner \<Rightarrow> bool" where
  "window_inv qs t \<longleftrightarrow> owner_inv t \<and> ow_batch t \<noteq> None \<and> batch_out (ow_pending t) \<and>
     purge_record_ok qs (purged_ids (ow_pending t))"

lemma window_inv_rest:
  assumes "window_inv qs t" "owner_inv t'" "same_rest (ow_pending t) (ow_pending t')"
    "ow_batch t' = None \<longleftrightarrow> ow_batch t = None"
  shows "window_inv qs t'"
  using assms same_rest_ids[OF assms(3)] by (simp add: window_inv_def)

lemma window_keeps_record:
  assumes "purge_window s qs t" "owner_reachable s"
  shows "window_inv qs t"
  using assms(1)
proof (induction rule: purge_window.induct)
  case window_opens
  have i: "owner_inv s" using assms(2) by (rule owner_reachable_inv)
  have "purged_ids (ow_pending s) = []" using window_shut_between[OF assms(2)] window_opens(1)
    by (simp add: window_shut_def)
  then show ?case using flush_take_window[OF i window_opens(1)] window_opens(2) flush_take_inv[OF i]
    by (simp add: window_inv_def purge_record_ok_def)
next
  case (window_purge qs t q)
  have i: "owner_inv t" and b: "batch_out (ow_pending t)" "ow_batch t \<noteq> None"
    and r: "purge_record_ok qs (purged_ids (ow_pending t))"
    using window_purge(3) by (auto simp: window_inv_def)
  note P = owner_purge_record[OF i refl, of q]
  have "purge_record_ok (q # qs) (purged_ids (ow_pending (owner_purge (Some q) t)))"
    using purge_record_grows[OF r P(4,5)] P(6) b(1) window_purge(2) by blast
  then show ?case using P(1,2) b owner_purge_inv[OF i] by (simp add: window_inv_def)
next
  case (window_take qs t)
  then show ?case by (simp add: window_inv_def flush_take_def)
next
  case (window_drain qs t f ctx now_ms)
  then show ?case using flush_drain_rest[of f ctx now_ms t]
    by (intro window_inv_rest[OF window_drain(2)]) (auto simp: window_inv_def intro: flush_drain_inv)
next
  case (window_push qs t q payload n v)
  have i: "owner_inv t" using window_push(2) by (simp add: window_inv_def)
  show ?case using window_inv_rest[OF window_push(2) owner_push_inv[OF i]] owner_push_rest[OF i] by simp
next
  case (window_put qs t q c payload n v now_ms)
  have i: "owner_inv t" using window_put(2) by (simp add: window_inv_def)
  show ?case using window_inv_rest[OF window_put(2) owner_put_inv[OF i]] owner_put_rest[OF i] by simp
next
  case (window_drop qs t q)
  have i: "owner_inv t" using window_drop(2) by (simp add: window_inv_def)
  show ?case using window_inv_rest[OF window_drop(2) owner_drop_inv[OF i]] owner_drop_rest[OF i] by simp
qed

end
