(* ===== verification/Pending_Props.thy ===== *)
theory Pending_Props
  imports Pending_Owner
begin

text \<open>
  The properties of the buffer of \<open>kvs_pending_ice.c\<close> and of its owner, each with its witness.
\<close>

section \<open>The order of a drain\<close>

lemma drain_ice_log:
  assumes P: "shape (de_p e)" "spec_ok (abs_pending (de_p e))"
    and run: "drain_ice (traced f) e = e'"
  shows "\<exists>outs. map fst outs = filter (\<lambda>c. ic_peer c \<notin> answer_peers (de_p e)) (wait_ice (de_p e)) \<and>
    fst (de_send e') = fst (de_send e) @ map ice_entry outs \<and>
    wait_ice (de_p e') = ice_left (\<lambda>c. ic_peer c \<in> answer_peers (de_p e)) (wait_ice (de_p e)) (map snd outs)"
proof (cases "ice (de_p e)")
  case None
  then show ?thesis using run by (intro exI[of _ "[]"]) (simp add: drain_ice_def wait_ice_def)
next
  case (Some xs)
  let ?h = "Some (holdBehindAnswer (de_p e))"
  define i0 where "i0 = \<lparr>ie_send = de_send e, ie_sent = ice_sent (de_stats e),
                 ie_dropped = ice_dropped (de_stats e)\<rparr>"
  obtain ys w i1 where d: "iceDrain xs (ice_count (de_p e)) (pendingIceSendAdapter (traced f)) ?h i0 = (ys, w, i1)"
    by (cases "iceDrain xs (ice_count (de_p e)) (pendingIceSendAdapter (traced f)) ?h i0") auto
  have cap: "ice_count (de_p e) \<le> length xs" using P(1) Some by (auto simp: shape_def)
  have c: "compact_list (ice_body (pendingIceSendAdapter (traced f)) ?h) (wait_ice (de_p e)) i0 = (take w ys, i1)"
    using iceDrain_refines(1)[OF cap d] Some by (simp add: wait_ice_def)
  have e': "de_send e' = ie_send i1" "wait_ice (de_p e') = take w ys"
    using run Some d by (auto simp: drain_ice_def i0_def wait_ice_def)
  have h: "held ?h (ic_peer c) \<longleftrightarrow> ic_peer c \<in> answer_peers (de_p e)" if "c \<in> set (wait_ice (de_p e))" for c
    using P held_behind[OF P] that by (auto simp: spec_ok_def list_all_iff cand_ok_def)
  have fl: "filter (\<lambda>c. \<not> held ?h (ic_peer c)) (wait_ice (de_p e)) =
      filter (\<lambda>c. ic_peer c \<notin> answer_peers (de_p e)) (wait_ice (de_p e))"
    using h by (intro filter_cong) auto
  have il: "ice_left (\<lambda>c. held ?h (ic_peer c)) (wait_ice (de_p e)) oks =
      ice_left (\<lambda>c. ic_peer c \<in> answer_peers (de_p e)) (wait_ice (de_p e)) oks" for oks
    using h by (rule ice_left_cong)
  show ?thesis using ice_compact_log[OF c] unfolding fl il e' by (simp add: i0_def)
qed

text \<open>The candidates that a drain is left with once the answers are dealt with.\<close>

definition ice_of_live :: "uint64 \<Rightarrow> pending \<Rightarrow> ice_candidate list" where
  "ice_of_live now_ms p = filter (\<lambda>c. ic_peer c \<notin> expired_peers now_ms (wait_answers p)) (wait_ice p)"

lemma drain_log:
  assumes inv: "pending_inv p"
    and run: "kvsPendingSignalingDrain (Some p) (Some (traced f)) ([], ctx) now_ms h = (n, st, q, (log, ctx'), h')"
  shows "\<exists>p' outs iouts. q = Some p' \<and> log = map answer_entry outs @ map ice_entry iouts \<and>
    map fst outs = filter (\<lambda>a. \<not> expired now_ms a) (wait_answers p) \<and>
    wait_answers p' = map fst (filter (\<lambda>x. \<not> snd x) outs) \<and>
    map fst iouts = filter (\<lambda>c. ic_peer c \<notin> answer_peers p') (ice_of_live now_ms p) \<and>
    wait_ice p' = ice_left (\<lambda>c. ic_peer c \<in> answer_peers p') (ice_of_live now_ms p) (map snd iouts)"
proof -
  define e0 where "e0 = \<lparr>de_p = p, de_heap = h, de_stats = zero_stats, de_send = ([] :: log_entry list, ctx)\<rparr>"
  define ea where "ea = drain_answers (traced f) now_ms e0"
  define ei where "ei = drain_ice (traced f) ea"
  obtain p' where rel: "releaseEmpty (de_p ei) (de_heap ei) = (p', h')" and q: "q = Some p'"
    and sd: "(log, ctx') = de_send ei"
    using run by (auto simp: kvsPendingSignalingDrain_def Let_def e0_def[symmetric] ea_def[symmetric]
        ei_def[symmetric] split: prod.splits)
  have P: "shape p" "spec_ok (abs_pending p)" using inv by (auto simp: pending_inv_alt)
  obtain ws' e1 where A: "compact_list (answer_body (traced f) now_ms) (wait_answers p) e0 = (ws', e1)"
    "shape (de_p ea)" "wait_answers (de_p ea) = ws'"
    "wait_ice (de_p ea) = filter (\<lambda>c. ic_peer c \<notin> expired_peers now_ms (wait_answers p)) (wait_ice p)"
    "spec_ok (abs_pending (de_p ea))" "same_rest p (de_p ea)"
    "balance (de_p ea) (de_heap ea) = balance p h"
    "de_stats ea = de_stats e1" "de_send ea = de_send e1"
    by (rule drain_answers_spec[OF inv e0_def ea_def[symmetric]]) blast
  have aok: "list_all ans_ok (wait_answers p)" using P by (auto simp: spec_ok_def)
  obtain outs where O: "map fst outs = filter (\<lambda>a. \<not> expired now_ms a) (wait_answers p)"
    "fst (de_send e1) = map answer_entry outs" "ws' = map fst (filter (\<lambda>x. \<not> snd x) outs)"
    using answer_compact_log[OF aok A(1)] by (auto simp: e0_def)
  note I = drain_ice_spec[OF A(2,5) ei_def[symmetric]]
  have v: "wait_answers p' = ws'" "wait_ice p' = wait_ice (de_p ei)"
    using releaseEmpty_spec[OF I(1) rel] I(4) A(3) by simp_all
  have ap: "answer_peers (de_p ea) = answer_peers p'" using v(1) A(3) by (simp add: answer_peers_def)
  obtain iouts where L: "map fst iouts = filter (\<lambda>c. ic_peer c \<notin> answer_peers (de_p ea)) (wait_ice (de_p ea))"
    "fst (de_send ei) = fst (de_send ea) @ map ice_entry iouts"
    "wait_ice (de_p ei) = ice_left (\<lambda>c. ic_peer c \<in> answer_peers (de_p ea)) (wait_ice (de_p ea)) (map snd iouts)"
    using drain_ice_log[OF A(2,5) ei_def[symmetric]] by blast
  have "log = map answer_entry outs @ map ice_entry iouts" using L(2) sd[symmetric] O(2) A(9) by simp
  moreover have "wait_ice (de_p ea) = ice_of_live now_ms p" by (simp add: A(4) ice_of_live_def)
  ultimately show ?thesis using q O(1,3) v L(1,3) unfolding ap by auto
qed

section \<open>The cases the witnesses run\<close>

text \<open>One answer and two candidates of peer \<open>a\<close>, one candidate of peer \<open>b\<close>.\<close>

definition put_run :: "bool \<times> pending \<times> heap" where
  "put_run = kvsPendingSignalingPutAnswer kvsPendingSignalingInit (Some ''a'') None (Some ''sdp'') 3 1 100 always_grant"

definition push_run :: "string \<Rightarrow> pending \<times> heap \<Rightarrow> pending \<times> heap" where
  "push_run q s = snd (kvsPendingSignalingPushIce (fst s) (Some q) (Some ''c'') 1 1 (snd s))"

definition demo :: "pending \<times> heap" where
  "demo = push_run ''a'' (push_run ''b'' (push_run ''a'' (snd put_run)))"

lemma put_run_inv: "pending_inv (fst (snd put_run))"
proof -
  obtain ok p h where r: "put_run = (ok, p, h)" by (cases put_run) auto
  have "pending_inv p" using putAnswer_spec[OF pending_inv_init r[unfolded put_run_def]] by blast
  then show ?thesis by (simp add: r)
qed

lemma push_run_inv: "pending_inv (fst s) \<Longrightarrow> pending_inv (fst (push_run q s))"
proof -
  assume i: "pending_inv (fst s)"
  obtain ok p h where r: "kvsPendingSignalingPushIce (fst s) (Some q) (Some ''c'') 1 1 (snd s) = (ok, p, h)"
    by (metis prod_cases3)
  show ?thesis using pushIce_spec(1)[OF i r] r by (simp add: push_run_def)
qed

lemma demo_inv: "pending_inv (fst demo)"
  unfolding demo_def by (intro push_run_inv put_run_inv)

lemma demo_lists:
  "map an_peer (wait_answers (fst demo)) = [''a'']"
  "map ic_peer (wait_ice (fst demo)) = [''a'', ''b'', ''a'']"
  "batch_out (fst demo) = False" "live (snd demo) = 3" "purged_ids (fst demo) = []"
  by code_simp+

section \<open>Properties\<close>

text \<open>
  C1: in every state the owner can reach, by any interleaving of buffering, purging and flushes and
  with any allocation failures, the buffer and the batch that is out satisfy the invariant (counts
  match arrays, at most 16 candidates and 4 answers, one answer per peer, no candidate with its
  attempts used up, no empty array kept), and the live heap blocks are exactly those the two own:
  nothing leaks and nothing is freed twice.
\<close>

theorem owner_no_leak:
  assumes "owner_reachable s"
  shows "pending_inv (ow_pending s) \<and> (case ow_batch s of None \<Rightarrow> True | Some b \<Rightarrow> pending_inv b) \<and>
    live (ow_heap s) = blocks (ow_pending s) + batch_blocks s"
  using owner_reachable_inv[OF assms] by (auto simp: owner_inv_def split: option.splits)

theorem owner_no_leak_witness:
  "live (ow_heap (owner_put (Some ''a'') None (Some ''sdp'') 3 1 100 (owner_init always_grant))) =
   blocks (ow_pending (owner_put (Some ''a'') None (Some ''sdp'') 3 1 100 (owner_init always_grant))) +
   batch_blocks (owner_put (Some ''a'') None (Some ''sdp'') 3 1 100 (owner_init always_grant))"
  by (rule owner_no_leak[THEN conjunct2, THEN conjunct2], rule reach_step[OF reach_init step_put]) (simp add: always_grant_def)

text \<open>
  C4: \<open>kvsPendingSignalingPutAnswer\<close> implements the abstract insertion: an answer for the same peer is
  replaced in place, else it is appended while fewer than four wait, else the oldest answer leaves
  together with its peer's candidates. When it reports success the peer has an answer waiting; when
  it reports failure what waits is unchanged.
\<close>

theorem put_answer_refines:
  assumes "pending_inv p"
    and "kvsPendingSignalingPutAnswer p q c payload n v now_ms h = (ok, p', h')"
  shows "if ok then payload \<noteq> None \<and> 0 < n \<and>
           spec_insert (mk_answer q c (the payload) n v now_ms) (abs_pending p) = Some (abs_pending p') \<and>
           kvsPendingSignalingHasAnswer p' q
         else abs_pending p' = abs_pending p"
proof -
  note P = putAnswer_spec[OF assms]
  have "kvsPendingSignalingHasAnswer p' q"
    if "spec_insert (mk_answer q c bytes n v now_ms) (abs_pending p) = Some (abs_pending p')" for bytes
    using spec_insert_from(3)[OF that] P by (force simp: hasAnswer_iff mk_answer_def)
  then show ?thesis using P by auto
qed

theorem put_answer_refines_witness:
  "kvsPendingSignalingHasAnswer (fst (snd put_run)) (Some ''a'') \<and> fst put_run"
proof -
  have "fst put_run" by code_simp
  then have r: "kvsPendingSignalingPutAnswer kvsPendingSignalingInit (Some ''a'') None (Some ''sdp'') 3 1 100
      always_grant = (True, fst (snd put_run), snd (snd put_run))"
    by (metis put_run_def prod.collapse)
  show ?thesis using put_answer_refines[OF pending_inv_init r] \<open>fst put_run\<close> by simp
qed

text \<open>
  A buffered answer is never refused for want of room: when the payload is there, both
  allocations succeed and the clock has not stepped back behind the waiting answers,
  \<open>kvsPendingSignalingPutAnswer\<close> succeeds, however full the buffer is.
\<close>

theorem put_answer_accepts:
  assumes "pending_inv p" "0 < n" "\<forall>i. grant h i" "\<forall>a \<in> set (wait_answers p). an_queued_at a \<le> now_ms"
  shows "fst (kvsPendingSignalingPutAnswer p q c (Some bytes) n v now_ms h)"
proof -
  let ?a = "mk_answer q c bytes n v now_ms"
  have P: "shape p" "spec_ok (abs_pending p)" using assms(1) by (auto simp: pending_inv_alt)
  obtain ok p1 h1 where e: "ensureAnswerSlots p h = (ok, p1, h1)" by (metis prod_cases3)
  note E = ensureAnswerSlots_spec[OF P(1) e]
  have ok: "ok" and gr: "\<forall>i. grant h1 i" using e assms(3)
    by (auto simp: ensureAnswerSlots_def pendingCalloc_def heap_calloc_def Let_def split: option.splits)
  obtain got h2 where c: "pendingCalloc h1 = (got, h2)" by (cases "pendingCalloc h1")
  have got: "got" using c gr by (auto simp: pendingCalloc_def heap_calloc_def Let_def)
  obtain placed p2 h3 where i: "insertAnswer p1 ?a h2 = (placed, p2, h3)" by (metis prod_cases3)
  have view: "abs_pending p1 = abs_pending p" "answers p1 \<noteq> None" "shape p1" using E(1,2,3,6) ok
    by (simp_all add: abs_pending_def)
  have len: "length (an_peer ?a) < KVS_PENDING_ICE_PEERID_LEN"
    by (simp add: mk_answer_def copyPeerId_length)
  have sp: "spec_ok (abs_pending p1)" using P(2) view(1) by simp
  have ne: "spec_insert ?a (abs_pending p1) \<noteq> None"
  proof -
    have "an_queued_at (wait_answers p ! j) \<le> now_ms" if "oldest_of (wait_answers p) = Some j" for j
      using oldest_of_Some[OF that] assms(4) by auto
    moreover have "oldest_of (wait_answers p) \<noteq> None" if "\<not> length (wait_answers p) < KVS_PENDING_ANSWER_MAX"
      using that by (auto simp: oldest_of_None KVS_PENDING_ANSWER_MAX_def)
    ultimately show ?thesis
      by (auto simp: spec_insert_def Let_def view(1) mk_answer_def not_less split: option.splits)
  qed
  obtain s where "spec_insert ?a (abs_pending p1) = Some s" using ne by blast
  then have "placed" using insertAnswer_refines[OF view(3) sp view(2) len i] by simp
  moreover obtain p3 h4 where "releaseEmpty p2 h3 = (p3, h4)" by (cases "releaseEmpty p2 h3")
  ultimately show ?thesis using assms(2) e ok c got i
    by (simp add: kvsPendingSignalingPutAnswer_def)
qed

theorem put_answer_accepts_witness:
  "fst (kvsPendingSignalingPutAnswer (fst demo) (Some ''b'') None (Some ''x'') 1 1 200 always_grant)"
  by (rule put_answer_accepts[OF demo_inv]) (simp_all add: always_grant_def, code_simp)

text \<open>
  C2: a drain accounts for every send and for all that waits afterwards. The log of its sends, each
  with its outcome, is: every answer that has not expired, in the order they waited; then, in the order
  they waited, the candidates of the peers that have neither an expired answer nor an answer left
  waiting. So no candidate goes out ahead of its peer's answer. The answers that wait afterwards are
  exactly those whose send failed. Of the candidates, those of a peer whose answer expired are dropped
  unsent; of the others there wait, in order, those held behind such an answer, as they were, and those
  whose send failed, with one more attempt counted, unless it was the last one allowed.
\<close>

theorem drain_order:
  assumes "pending_inv p"
    and "kvsPendingSignalingDrain (Some p) (Some (traced f)) ([], ctx) now_ms h = (n, st, q, (log, ctx'), h')"
  shows "\<exists>p' outs iouts. q = Some p' \<and> log = map answer_entry outs @ map ice_entry iouts \<and>
    map fst outs = filter (\<lambda>a. \<not> expired now_ms a) (wait_answers p) \<and>
    wait_answers p' = map fst (filter (\<lambda>x. \<not> snd x) outs) \<and>
    map fst iouts = filter (\<lambda>c. ic_peer c \<notin> answer_peers p') (ice_of_live now_ms p) \<and>
    wait_ice p' = ice_left (\<lambda>c. ic_peer c \<in> answer_peers p') (ice_of_live now_ms p) (map snd iouts)"
  by (rule drain_log[OF assms])

text \<open>A link on which answers fail and candidates pass.\<close>

definition ice_only :: "nat pending_send" where
  "ice_only s ty peer corr payload len version = (ty = KVS_PENDING_MSG_ICE_CANDIDATE, Suc s)"

definition demo_drain :: "nat \<times> drain_stats \<times> pending option \<times> (log_entry list \<times> nat) \<times> heap" where
  "demo_drain = kvsPendingSignalingDrain (Some (fst demo)) (Some (traced ice_only)) ([], 0) 200 (snd demo)"

lemma demo_drain_log:
  "fst (fst (snd (snd (snd demo_drain)))) =
    [(KVS_PENDING_MSG_ANSWER, ''a'', ''sdp'', False), (KVS_PENDING_MSG_ICE_CANDIDATE, ''b'', ''c'', True)]"
  "map an_peer (wait_answers (the (fst (snd (snd demo_drain))))) = [''a'']"
  "map ic_peer (wait_ice (the (fst (snd (snd demo_drain))))) = [''a'', ''a'']"
  by code_simp+

theorem drain_order_witness:
  "\<exists>p' outs iouts. fst (snd (snd demo_drain)) = Some p' \<and>
    [(KVS_PENDING_MSG_ANSWER, ''a'', ''sdp'', False), (KVS_PENDING_MSG_ICE_CANDIDATE, ''b'', ''c'', True)] =
      map answer_entry outs @ map ice_entry iouts \<and>
    wait_answers p' = map fst (filter (\<lambda>x. \<not> snd x) outs) \<and> map an_peer (wait_answers p') = [''a''] \<and>
    wait_ice p' = ice_left (\<lambda>c. ic_peer c \<in> answer_peers p') (ice_of_live 200 (fst demo)) (map snd iouts) \<and>
    map ic_peer (wait_ice p') = [''a'', ''a'']"
proof -
  have r: "kvsPendingSignalingDrain (Some (fst demo)) (Some (traced ice_only)) ([], 0) 200 (snd demo) =
    (fst demo_drain, fst (snd demo_drain), fst (snd (snd demo_drain)),
     (fst (fst (snd (snd (snd demo_drain)))), snd (fst (snd (snd (snd demo_drain))))), snd (snd (snd (snd demo_drain))))"
    by (simp add: demo_drain_def)
  obtain p' outs iouts where d: "fst (snd (snd demo_drain)) = Some p'"
    "fst (fst (snd (snd (snd demo_drain)))) = map answer_entry outs @ map ice_entry iouts"
    "wait_answers p' = map fst (filter (\<lambda>x. \<not> snd x) outs)"
    "wait_ice p' = ice_left (\<lambda>c. ic_peer c \<in> answer_peers p') (ice_of_live 200 (fst demo)) (map snd iouts)"
    using drain_order[OF demo_inv r] by blast
  have "map an_peer (wait_answers p') = [''a'']" "map ic_peer (wait_ice p') = [''a'', ''a'']"
    using demo_drain_log(2,3) by (simp_all add: d(1))
  then show ?thesis using d demo_drain_log(1) by (intro exI[of _ p'] exI[of _ outs] exI[of _ iouts]) simp
qed

text \<open>
  A drain accounts for every message: what was sent, what expired, what was dropped and what
  still waits add up to what waited; the invariant holds again; the candidates of a peer whose
  answer still waits are kept untouched, in their order, with no attempt used; exactly the expired
  answers are counted as expired, and none of them is kept.
\<close>

theorem drain_accounts:
  assumes "pending_inv p"
    and "kvsPendingSignalingDrain (Some p) (Some f) ctx now_ms h = (n, st, q, ctx', h')"
  shows "\<exists>p'. q = Some p' \<and> pending_inv p' \<and> balance p' h' = balance p h \<and>
    n = length (wait_answers p') + length (wait_ice p') \<and>
    answers_sent st + answers_expired st + ice_sent st + ice_dropped st + n =
      length (wait_answers p) + length (wait_ice p) \<and>
    filter (\<lambda>c. ic_peer c \<in> answer_peers p') (wait_ice p') =
      filter (\<lambda>c. ic_peer c \<in> answer_peers p') (wait_ice p) \<and>
    answers_expired st = length (filter (expired now_ms) (wait_answers p)) \<and>
    (\<forall>a \<in> set (wait_answers p'). a \<in> set (wait_answers p) \<and> \<not> expired now_ms a)"
  by (rule drain_spec[OF assms]) blast

theorem drain_accounts_witness:
  "answers_expired (fst (snd demo_drain)) = length (filter (expired 200) (wait_answers (fst demo))) \<and>
   fst demo_drain = 3"
proof -
  have 3: "fst demo_drain = 3" by code_simp
  obtain n st q c h where r: "demo_drain = (n, st, q, c, h)" by (metis prod_cases5)
  have "answers_expired st = length (filter (expired 200) (wait_answers (fst demo)))"
    using drain_accounts[OF demo_inv r[unfolded demo_drain_def]] by (elim exE conjE) assumption
  then have "answers_expired (fst (snd demo_drain)) = length (filter (expired 200) (wait_answers (fst demo)))"
    unfolding r fst_conv snd_conv .
  then show ?thesis using 3 by (rule conjI)
qed

lemma compact_failing:
  "(\<And>s c. \<not> fst (f s c)) \<Longrightarrow> fst (compact_list (ice_body f None) cs e) =
   map (\<lambda>c. c\<lparr>ic_attempts := Suc (ic_attempts c)\<rparr>)
     (filter (\<lambda>c. Suc (ic_attempts c) < KVS_PENDING_ICE_MAX_ATTEMPTS) cs)"
proof (induction cs arbitrary: e)
  case (Cons c cs)
  obtain s' where s: "f (ie_send e) c = (False, s')"
    using Cons.prems[of "ie_send e" c] by (cases "f (ie_send e) c") auto
  let ?b = "ice_body f None" and ?c = "c\<lparr>ic_attempts := Suc (ic_attempts c)\<rparr>"
  obtain e1 where b: "?b c e = (Suc (ic_attempts c) < KVS_PENDING_ICE_MAX_ATTEMPTS, ?c, e1)"
    using s by (cases "Suc (ic_attempts c) < KVS_PENDING_ICE_MAX_ATTEMPTS")
      (auto simp: ice_body_def held_def Let_def)
  have "fst (compact_list ?b (c # cs) e) = (if Suc (ic_attempts c) < KVS_PENDING_ICE_MAX_ATTEMPTS
      then ?c # fst (compact_list ?b cs e1) else fst (compact_list ?b cs e1))"
    by (simp add: b split_beta)
  then show ?case using Cons.IH[OF Cons.prems, of e1] by simp
qed simp

text \<open>
  The in-place compaction loop \<open>iceDrain\<close>, with its read and write index over one array, computes
  exactly the list function that takes one decision per candidate in order: the survivors are the
  prefix of the array up to the new count, nothing is written out of bounds and the count never
  grows.
\<close>

theorem iceDrain_is_compaction:
  assumes "n \<le> length slots" "iceDrain slots n send_fn hold_fn e = (slots', n', e')"
  shows "compact_list (ice_body send_fn hold_fn) (take n slots) e = (take n' slots', e') \<and>
    n' \<le> n \<and> length slots' = length slots"
  using iceDrain_refines[OF assms] by simp

definition demo_slots :: "ice_candidate list" where
  "demo_slots = map (\<lambda>q. mk_candidate (Some q) ''c'' 1 1) [''a'', ''b'', ''c'']"

definition odd_send :: "nat ice_send" where
  "odd_send s c = (s mod 2 = 1, Suc s)"

theorem iceDrain_is_compaction_witness:
  "compact_list (ice_body odd_send None) (take 3 demo_slots) \<lparr>ie_send = 0, ie_sent = 0, ie_dropped = 0\<rparr> =
   (take 2 (fst (iceDrain demo_slots 3 odd_send None \<lparr>ie_send = 0, ie_sent = 0, ie_dropped = 0\<rparr>)),
    \<lparr>ie_send = 3, ie_sent = 1, ie_dropped = 0\<rparr>)"
proof -
  have "snd (iceDrain demo_slots 3 odd_send None \<lparr>ie_send = 0, ie_sent = 0, ie_dropped = 0\<rparr>) =
      (2, \<lparr>ie_send = 3, ie_sent = 1, ie_dropped = 0\<rparr>)" by code_simp
  then have r: "iceDrain demo_slots 3 odd_send None \<lparr>ie_send = 0, ie_sent = 0, ie_dropped = 0\<rparr> =
      (fst (iceDrain demo_slots 3 odd_send None \<lparr>ie_send = 0, ie_sent = 0, ie_dropped = 0\<rparr>), 2,
       \<lparr>ie_send = 3, ie_sent = 1, ie_dropped = 0\<rparr>)" by (metis prod.collapse)
  show ?thesis using iceDrain_is_compaction[OF _ r] by (simp add: demo_slots_def)
qed

text \<open>
  the attempt cap. On a link where every send fails, one \<open>kvsPendingIceDrain\<close> keeps exactly the
  candidates whose count, raised by one, is still below the cap, in order and with the raised
  count; a candidate whose fifth attempt fails gives its slot up.
\<close>

theorem attempts_capped:
  assumes "n \<le> length xs" "\<And>s c. \<not> fst (f s c)"
    and "kvsPendingIceDrain (Some xs) (Some n) (Some f) ctx = (k, Some ys, Some m, ctx')"
  shows "k = m \<and> take m ys = map (\<lambda>c. c\<lparr>ic_attempts := Suc (ic_attempts c)\<rparr>)
     (filter (\<lambda>c. Suc (ic_attempts c) < KVS_PENDING_ICE_MAX_ATTEMPTS) (take n xs))"
proof -
  obtain e' where d: "iceDrain xs n f None \<lparr>ie_send = ctx, ie_sent = 0, ie_dropped = 0\<rparr> = (ys, m, e')"
    using assms(3) by (auto simp: kvsPendingIceDrain_def split: prod.splits)
  have "k = m" using assms(3) d by (simp add: kvsPendingIceDrain_def)
  moreover have "take m ys = map (\<lambda>c. c\<lparr>ic_attempts := Suc (ic_attempts c)\<rparr>)
     (filter (\<lambda>c. Suc (ic_attempts c) < KVS_PENDING_ICE_MAX_ATTEMPTS) (take n xs))"
    using compact_failing[of f "take n xs", OF assms(2)]
    by (simp only: iceDrain_refines(1)[OF assms(1) d, symmetric, THEN arg_cong, of fst, unfolded fst_conv])
  ultimately show ?thesis by (rule conjI)
qed

definition fail_send :: "nat ice_send" where
  "fail_send s c = (False, s)"

definition tired_slots :: "ice_candidate list" where
  "tired_slots = [(demo_slots ! 0)\<lparr>ic_attempts := 4\<rparr>, (demo_slots ! 1)\<lparr>ic_attempts := 3\<rparr>]"

theorem attempts_capped_witness:
  "(1::nat) = 1 \<and> take 1 (the (fst (snd (kvsPendingIceDrain (Some tired_slots) (Some 2) (Some fail_send) 0)))) =
     [(demo_slots ! 1)\<lparr>ic_attempts := 4\<rparr>]"
proof -
  let ?r = "kvsPendingIceDrain (Some tired_slots) (Some 2) (Some fail_send) 0"
  have c: "fst ?r = 1 \<and> fst (snd ?r) \<noteq> None \<and> fst (snd (snd ?r)) = Some 1 \<and> snd (snd (snd ?r)) = 0"
    by code_simp
  then have r: "?r = (1, Some (the (fst (snd ?r))), Some 1, 0)" by (metis option.collapse prod.collapse)
  show ?thesis using attempts_capped[OF _ _ r]
    by (simp add: tired_slots_def fail_send_def demo_slots_def KVS_PENDING_ICE_MAX_ATTEMPTS_def mk_candidate_def)
qed

text \<open>
  C3: no message of a purged peer comes back with the batch. Let a flush take a batch in any reachable
  state, and let up to eight different peers be purged while it is out, each with memory for the record
  (\<open>kvs_pending_ice.h\<close>: the record holds eight, and a purge past them, or without memory for the record,
  is not remembered), between any buffering, dropping and sending. Then the merge leaves only messages
  that waited in the buffer before it and messages of the batch whose peer was not purged: answers
  unchanged, candidates unchanged but for payload bytes past the payload's length. Nothing else is
  made up, the window is closed, the record is cleared, and the live heap blocks are exactly those of
  the buffer, which satisfies the invariant.
\<close>

theorem merge_keeps_purged_out:
  assumes "owner_reachable s" "purge_window s qs t" "card (slot_id ` set qs) \<le> KVS_PENDING_PURGED_MAX"
    and "ow_batch t = Some b"
  shows "set (wait_answers (ow_pending (flush_merge t))) \<subseteq> set (wait_answers (ow_pending t)) \<union>
       {a \<in> set (wait_answers b). an_peer a \<notin> slot_id ` set qs} \<and>
    set (wait_ice (ow_pending (flush_merge t))) \<subseteq> set (wait_ice (ow_pending t)) \<union>
       {c. \<exists>c0 \<in> set (wait_ice b). ic_peer c0 \<notin> slot_id ` set qs \<and> (c = c0 \<or> c = cut c0)} \<and>
    ow_batch (flush_merge t) = None \<and> \<not> batch_out (ow_pending (flush_merge t)) \<and>
    purged_ids (ow_pending (flush_merge t)) = [] \<and> pending_inv (ow_pending (flush_merge t)) \<and>
    live (ow_heap (flush_merge t)) = blocks (ow_pending (flush_merge t))"
proof -
  have w: "window_inv qs t" using assms(2,1) by (rule window_keeps_record)
  then have ids: "set (purged_ids (ow_pending t)) = slot_id ` set qs"
    using assms(3) by (simp add: window_inv_def purge_record_ok_def)
  have i: "pending_inv (ow_pending t)" "pending_inv b" using w assms(4) by (simp_all add: window_inv_def owner_inv_def)
  obtain d p b' h where m: "kvsPendingSignalingMerge (ow_pending t) b (ow_heap t) = (d, p, b', h)"
    by (metis prod_cases4)
  have e: "ow_pending (flush_merge t) = p" "ow_batch (flush_merge t) = None" "ow_heap (flush_merge t) = h"
    by (simp_all add: flush_merge_def assms(4) m)
  have "owner_inv (flush_merge t)" using w by (simp add: window_inv_def flush_merge_inv)
  then have "live h = blocks p" by (simp add: owner_inv_def batch_blocks_def e)
  then show ?thesis using merge_spec[OF i m] unfolding e ids by simp
qed

text \<open>
  A flush takes the answer and the candidate of \<open>a\<close> and the candidate of \<open>b\<close>; while the batch is out
  a candidate of \<open>c\<close> is buffered, peer \<open>a\<close> leaves and the batch is drained on a link that is down.
\<close>

definition demo_owner :: owner where
  "demo_owner = owner_push (Some ''b'') (Some ''c'') 1 1 (owner_push (Some ''a'') (Some ''c'') 1 1
     (owner_put (Some ''a'') None (Some ''sdp'') 3 1 100 (owner_init always_grant)))"

definition link_down :: "nat pending_send" where
  "link_down s ty peer corr payload len version = (False, s)"

definition demo_window :: owner where
  "demo_window = flush_drain link_down 0 200 (owner_purge (Some ''a'')
     (owner_push (Some ''c'') (Some ''c'') 1 1 (flush_take demo_owner)))"

lemma demo_owner_reachable: "owner_reachable demo_owner"
  unfolding demo_owner_def
  by (intro reach_step[OF _ step_push] reach_step[OF _ step_put] reach_init) (simp add: always_grant_def)

lemma demo_window_lists:
  "map an_peer (wait_answers (the (ow_batch demo_window))) = [''a'']"
  "map ic_peer (wait_ice (the (ow_batch demo_window))) = [''a'', ''b'']"
  "map ic_peer (wait_ice (ow_pending (flush_merge demo_window))) = [''c'', ''b'']"
  "wait_answers (ow_pending (flush_merge demo_window)) = []"
  by code_simp+

lemma demo_window_open: "purge_window demo_owner [''a''] demo_window" "ow_batch demo_window \<noteq> None"
proof -
  have "ow_batch demo_owner = None" "ow_batch (flush_take demo_owner) \<noteq> None"
    "purged (ow_pending (owner_purge (Some ''a'')
       (owner_push (Some ''c'') (Some ''c'') 1 1 (flush_take demo_owner)))) \<noteq> None"
    by code_simp+
  then show "purge_window demo_owner [''a''] demo_window" unfolding demo_window_def
    by (intro window_drain window_purge window_push window_opens)
  show "ow_batch demo_window \<noteq> None" by code_simp
qed

theorem merge_keeps_purged_out_witness:
  "\<not> batch_out (ow_pending (flush_merge demo_window)) \<and>
   live (ow_heap (flush_merge demo_window)) = blocks (ow_pending (flush_merge demo_window)) \<and>
   map ic_peer (wait_ice (the (ow_batch demo_window))) = [''a'', ''b''] \<and>
   map ic_peer (wait_ice (ow_pending (flush_merge demo_window))) = [''c'', ''b'']"
proof -
  obtain b where b: "ow_batch demo_window = Some b" using demo_window_open(2) by blast
  have c: "card (slot_id ` set [''a'']) \<le> KVS_PENDING_PURGED_MAX" by (simp add: KVS_PENDING_PURGED_MAX_def)
  show ?thesis
    using merge_keeps_purged_out[OF demo_owner_reachable demo_window_open(1) c b] demo_window_lists by blast
qed

text \<open>
  \<open>kvsPendingSignalingPurgePeer\<close> is complete for an id that fits a slot: afterwards no answer and no
  candidate of the peer waits, every other message waits as before and in the same order, and the
  returned number is the number removed.
\<close>

theorem purge_peer_complete:
  assumes "pending_inv p" "length q < KVS_PENDING_ICE_PEERID_LEN"
    and "kvsPendingSignalingPurgePeer p (Some q) h = (removed, p', h')"
  shows "wait_ice p' = filter (\<lambda>c. ic_peer c \<noteq> q) (wait_ice p) \<and>
    wait_answers p' = filter (\<lambda>a. an_peer a \<noteq> q) (wait_answers p) \<and>
    \<not> kvsPendingSignalingHasAnswer p' (Some q) \<and>
    removed + length (wait_ice p') + length (wait_answers p') = length (wait_ice p) + length (wait_answers p)"
proof -
  note P = purgePeer_spec[OF assms(1,3)]
  have 1: "wait_ice p' = filter (\<lambda>c. ic_peer c \<noteq> q) (wait_ice p)"
    unfolding P(4) using assms(1,2) purges_fits
    by (intro filter_cong) (auto simp: pending_inv_def contents_ok_def list_all_iff cand_ok_def)
  have 2: "wait_answers p' = filter (\<lambda>a. an_peer a \<noteq> q) (wait_answers p)"
    using P(5) assms(2) by (simp add: drop_peer_answer_def copyPeerId_fits)
  then have 3: "\<not> kvsPendingSignalingHasAnswer p' (Some q)"
    using hasAnswer_iff[OF P(1)] assms(2) by (auto simp: copyPeerId_fits)
  show ?thesis using 1 2 3 P(6) by blast
qed

definition demo_purge :: "string \<Rightarrow> nat \<times> pending \<times> heap" where
  "demo_purge q = kvsPendingSignalingPurgePeer (fst demo) (Some q) (snd demo)"

theorem purge_peer_complete_witness:
  "\<not> kvsPendingSignalingHasAnswer (fst (snd (demo_purge ''a''))) (Some ''a'') \<and> fst (demo_purge ''a'') = 3"
proof -
  have "fst (demo_purge ''a'') = 3" by code_simp
  moreover obtain k p h where r: "demo_purge ''a'' = (k, p, h)" by (metis prod_cases3)
  ultimately show ?thesis
    using purge_peer_complete[OF demo_inv _ r[unfolded demo_purge_def]]
    by (simp add: r KVS_PENDING_ICE_PEERID_LEN_def)
qed

text \<open>
  For an id of 256 characters or more, which is longer than a slot holds, the two halves of
  \<open>kvsPendingSignalingPurgePeer\<close> disagree: the answer is found by comparing the 255 characters a slot
  holds and leaves, but the candidates are compared over 256 characters with the untruncated id,
  which no slot can match, so every candidate of the departed peer stays.
\<close>

theorem purge_long_id_keeps_candidates:
  assumes "pending_inv p" "KVS_PENDING_ICE_PEERID_LEN \<le> length q"
    and "kvsPendingSignalingPurgePeer p (Some q) h = (removed, p', h')"
  shows "wait_ice p' = wait_ice p \<and>
    wait_answers p' = filter (\<lambda>a. an_peer a \<noteq> copyPeerId (Some q)) (wait_answers p)"
proof -
  note P = purgePeer_spec[OF assms(1,3)]
  have "\<not> purges q c" if "c \<in> set (wait_ice p)" for c
  proof -
    have "length (ic_peer c) < KVS_PENDING_ICE_PEERID_LEN"
      using that assms(1) by (auto simp: pending_inv_def contents_ok_def list_all_iff cand_ok_def)
    then show ?thesis using assms(2) by (auto simp: purges_iff)
  qed
  then have "wait_ice p' = wait_ice p" unfolding P(4) by (simp add: filter_id_conv)
  then show ?thesis using P(5) by (simp add: drop_peer_answer_def)
qed

definition long_id :: string where "long_id = replicate 256 CHR ''x''"

definition long_run :: "pending \<times> heap" where
  "long_run = push_run long_id (kvsPendingSignalingInit, always_grant)"

theorem purge_long_id_keeps_candidates_witness:
  "wait_ice (fst (snd (kvsPendingSignalingPurgePeer (fst long_run) (Some long_id) (snd long_run)))) =
     wait_ice (fst long_run) \<and> length (wait_ice (fst long_run)) = 1"
proof -
  have i: "pending_inv (fst long_run)" unfolding long_run_def
    by (rule push_run_inv) (simp add: pending_inv_init)
  have l: "KVS_PENDING_ICE_PEERID_LEN \<le> length long_id"
    by (simp add: KVS_PENDING_ICE_PEERID_LEN_def long_id_def)
  have n: "length (wait_ice (fst long_run)) = 1" by code_simp
  obtain k p h where r: "kvsPendingSignalingPurgePeer (fst long_run) (Some long_id) (snd long_run) = (k, p, h)"
    by (metis prod_cases3)
  show ?thesis using purge_long_id_keeps_candidates[OF i l r] n by (simp add: r)
qed

text \<open>
  \<open>kvsPendingSignalingFree\<close> returns the buffer to its initial state and frees exactly the blocks it
  owned, payloads and purge record included; freeing it again frees nothing.
\<close>

theorem free_returns_everything:
  assumes "pending_inv p" "kvsPendingSignalingFree p h = (p', h')"
  shows "p' = kvsPendingSignalingInit \<and> live h' = live h - blocks p \<and>
    live (snd (kvsPendingSignalingFree p' h')) = live h'"
proof -
  note F = free_spec[OF _ assms(2)]
  have 1: "p' = kvsPendingSignalingInit" "live h' = live h - blocks p"
    using F assms(1) by (auto simp: pending_inv_def)
  have "live (snd (kvsPendingSignalingFree p' h')) = live h'"
    by (simp add: 1 kvsPendingSignalingFree_def kvsPendingSignalingInit_def releaseEmpty_def clearPurged_def
        pendingFree_def)
  then show ?thesis using 1 by blast
qed

theorem free_returns_everything_witness:
  "live (snd (kvsPendingSignalingFree (fst demo) (snd demo))) = live (snd demo) - blocks (fst demo) \<and>
   blocks (fst demo) = 3"
proof -
  have b: "blocks (fst demo) = 3" by code_simp
  obtain p h where r: "kvsPendingSignalingFree (fst demo) (snd demo) = (p, h)"
    by (cases "kvsPendingSignalingFree (fst demo) (snd demo)")
  show ?thesis using free_returns_everything[OF demo_inv r] b by (simp add: r)
qed

end
