(* ===== verification/Fifo.thy ===== *)
theory Fifo
  imports Kvs_Prelude "HOL-Library.Sublist"
begin

text \<open>
  The interface of a bounded FIFO queue with put-back at the front, as its clients see it: what waits
  is a list, \<open>pop\<close> takes its head and leaves room, \<open>push_front\<close> into room puts a message back first,
  and \<open>add\<close> puts a message last, possibly shedding waiting ones, or refuses it and changes nothing.
\<close>

locale fifo =
  fixes inv :: "'q \<Rightarrow> bool"
    and items :: "'q \<Rightarrow> 'm list"
    and roomy :: "'q \<Rightarrow> bool"
    and good :: "'m \<Rightarrow> bool"
    and count :: "'q \<Rightarrow> nat"
    and add :: "'m \<Rightarrow> 'q \<Rightarrow> bool \<times> 'q"
    and push_front :: "'m \<Rightarrow> 'q \<Rightarrow> bool \<times> 'q"
    and pop :: "'q \<Rightarrow> ('m \<times> 'q) option"
  assumes count_items: "inv q \<Longrightarrow> count q = length (items q)"
    and items_good: "inv q \<Longrightarrow> list_all good (items q)"
    and pop_None: "inv q \<Longrightarrow> pop q = None \<longleftrightarrow> items q = []"
    and pop_Some: "inv q \<Longrightarrow> pop q = Some (m, q') \<Longrightarrow> inv q' \<and> roomy q' \<and> items q = m # items q'"
    and push_front_room: "inv q \<Longrightarrow> good m \<Longrightarrow> roomy q \<Longrightarrow> push_front m q = (ok, q') \<Longrightarrow>
          ok \<and> inv q' \<and> items q' = m # items q"
    and add_inv: "inv q \<Longrightarrow> good m \<Longrightarrow> add m q = (ok, q') \<Longrightarrow>
          inv q' \<and> (\<exists>xs. subseq xs (items q) \<and> items q' = xs @ (if ok then [m] else []))"
    and add_refused: "inv q \<Longrightarrow> good m \<Longrightarrow> add m q = (False, q') \<Longrightarrow> items q' = items q"
    and add_room: "inv q \<Longrightarrow> good m \<Longrightarrow> roomy q \<Longrightarrow> add m q = (ok, q') \<Longrightarrow>
          ok \<and> items q' = items q @ [m]"
begin

text \<open>A message put back is the next one out, before what was there.\<close>

lemma pop_push_front:
  assumes "inv q" "good m" "roomy q" "push_front m q = (ok, q1)" "pop q1 = Some (m', q2)"
  shows "m' = m \<and> items q2 = items q"
  using push_front_room[OF assms(1-4)] pop_Some[of q1 m' q2] assms(5) by auto

text \<open>Popping until nothing waits gives what waited, in order.\<close>

primrec pops :: "nat \<Rightarrow> 'q \<Rightarrow> 'm list" where
  "pops 0 q = []"
| "pops (Suc n) q = (case pop q of None \<Rightarrow> [] | Some (m, q') \<Rightarrow> m # pops n q')"

lemma pops_items: "inv q \<Longrightarrow> pops (count q) q = items q"
proof (induction "count q" arbitrary: q)
  case 0
  then show ?case using count_items[of q] by simp
next
  case (Suc n)
  have "items q \<noteq> []" using Suc.hyps(2) count_items[OF Suc.prems] by auto
  then obtain m q' where p: "pop q = Some (m, q')" using pop_None[OF Suc.prems] by force
  note S = pop_Some[OF Suc.prems p]
  have "n = count q'" using Suc.hyps(2) S count_items[OF Suc.prems] count_items[of q'] by simp
  then show ?case using Suc.hyps(1)[of q'] S p Suc.hyps(2)[symmetric] by simp
qed

end

end
