(* ===== verification/Message_Queue.thy ===== *)
theory Message_Queue
  imports Fifo
begin

text \<open>
  The bounded message queue of \<open>components/esp_webrtc_utils/src/message_queue.c\<close>: a fixed array of
  slots with a count, a policy for a full queue, and put-back at the front. Every public operation
  runs under the queue's lock and is one step here; the queue pointer is not NULL. \<open>mq_ready\<close> says that
  \<open>mutex\<close> is not NULL. \<open>mq_released\<close> is a ghost: the items handed to \<open>free_item\<close>, in order.
\<close>

section \<open>State\<close>

datatype message_queue_full_policy = MESSAGE_QUEUE_FULL_DROP_OLDEST | MESSAGE_QUEUE_FULL_REJECT_NEW

record message_queue_config =
  cfg_depth :: int
  cfg_full_policy :: message_queue_full_policy
  cfg_caps :: uint32

record 'd queued_message =
  qm_data :: "'d option"
  qm_len :: int

definition empty_slot :: "'d queued_message" where
  "empty_slot = \<lparr>qm_data = None, qm_len = 0\<rparr>"

record 'd message_queue =
  mq_messages :: "'d queued_message list option"
  mq_depth :: nat
  mq_count :: nat
  mq_full_policy :: message_queue_full_policy
  mq_caps :: uint32
  mq_ready :: bool
  mq_droppable :: "('d option \<Rightarrow> int \<Rightarrow> bool) option"
  mq_released :: "'d list"

definition mq_slots :: "'d message_queue \<Rightarrow> 'd queued_message list" where
  "mq_slots q = (case mq_messages q of None \<Rightarrow> [] | Some xs \<Rightarrow> xs)"

definition MESSAGE_QUEUE_DEFAULT_DEPTH :: int where "MESSAGE_QUEUE_DEFAULT_DEPTH = 10"

text \<open>A queue structure as \<open>calloc\<close> gives it, before \<open>init\<close>.\<close>

definition zero_queue :: "'d message_queue" where
  "zero_queue = \<lparr>mq_messages = None, mq_depth = 0, mq_count = 0,
     mq_full_policy = MESSAGE_QUEUE_FULL_DROP_OLDEST, mq_caps = 0, mq_ready = False,
     mq_droppable = None, mq_released = []\<rparr>"

section \<open>Operations\<close>

definition drop_index :: "'d message_queue \<Rightarrow> nat" where
  "drop_index q =
     (case mq_droppable q of
        None \<Rightarrow> 0
      | Some f \<Rightarrow> (case find (\<lambda>i. f (qm_data (mq_slots q ! i)) (qm_len (mq_slots q ! i))) [0..<mq_count q] of
                   None \<Rightarrow> 0 | Some i \<Rightarrow> i))"

definition free_item :: "'d option \<Rightarrow> 'd message_queue \<Rightarrow> 'd message_queue" where
  "free_item data q = (case data of None \<Rightarrow> q | Some d \<Rightarrow> q\<lparr>mq_released := mq_released q @ [d]\<rparr>)"

definition cleanup_slot :: "nat \<Rightarrow> 'd message_queue \<Rightarrow> 'd message_queue" where
  "cleanup_slot i q =
     (let q1 = free_item (qm_data (mq_slots q ! i)) q
      in q1\<lparr>mq_messages := map_option (\<lambda>xs. xs[i := (xs ! i)\<lparr>qm_data := None\<rparr>]) (mq_messages q1)\<rparr>)"

definition message_queue_cleanup :: "'d message_queue \<Rightarrow> esp_err \<times> 'd message_queue" where
  "message_queue_cleanup q =
     (if \<not> mq_ready q then (ESP_OK, q\<lparr>mq_count := 0\<rparr>)
      else (ESP_OK, (fold cleanup_slot [0..<mq_count q] q)\<lparr>mq_count := 0\<rparr>))"

text \<open>The slot array and the lock are two requests to the allocator.\<close>

definition message_queue_init_with_config ::
  "message_queue_config option \<Rightarrow> 'd message_queue \<Rightarrow> heap \<Rightarrow> esp_err \<times> 'd message_queue \<times> heap" where
  "message_queue_init_with_config config q h =
     (case config of
        None \<Rightarrow> (ESP_ERR_INVALID_ARG, q, h)
      | Some c \<Rightarrow>
          if cfg_depth c \<le> 0 then (ESP_ERR_INVALID_ARG, q, h)
          else if mq_ready q then (case message_queue_cleanup q of (r, q') \<Rightarrow> (r, q', h))
          else (case heap_calloc h of (got, h1) \<Rightarrow>
            if \<not> got then (ESP_ERR_NO_MEM, q\<lparr>mq_messages := None\<rparr>, h1)
            else (case heap_calloc h1 of (locked, h2) \<Rightarrow>
              if \<not> locked then (ESP_ERR_NO_MEM, q\<lparr>mq_messages := None\<rparr>, heap_free h2)
              else (ESP_OK,
                    q\<lparr>mq_messages := Some (replicate (nat (cfg_depth c)) empty_slot), mq_ready := True,
                      mq_depth := nat (cfg_depth c), mq_full_policy := cfg_full_policy c,
                      mq_caps := cfg_caps c, mq_count := 0\<rparr>, h2))))"

definition message_queue_init :: "'d message_queue \<Rightarrow> heap \<Rightarrow> esp_err \<times> 'd message_queue \<times> heap" where
  "message_queue_init =
     message_queue_init_with_config
       (Some \<lparr>cfg_depth = MESSAGE_QUEUE_DEFAULT_DEPTH, cfg_full_policy = MESSAGE_QUEUE_FULL_DROP_OLDEST,
             cfg_caps = 0\<rparr>)"

definition message_queue_deinit :: "'d message_queue \<Rightarrow> heap \<Rightarrow> esp_err \<times> 'd message_queue \<times> heap" where
  "message_queue_deinit q h =
     (let q1 = snd (message_queue_cleanup q);
          (q2, h1) = (if mq_ready q1 then (q1\<lparr>mq_ready := False\<rparr>, heap_free h) else (q1, h))
      in (ESP_OK, q2\<lparr>mq_messages := None, mq_depth := 0\<rparr>, heap_free_ptr h1 (mq_messages q2)))"

definition make_room :: "'d message_queue \<Rightarrow> bool \<times> 'd message_queue" where
  "make_room q =
     (if mq_count q < mq_depth q then (True, q)
      else if mq_full_policy q = MESSAGE_QUEUE_FULL_REJECT_NEW then (False, q)
      else (let victim = drop_index q;
                q1 = free_item (qm_data (mq_slots q ! victim)) q
            in (True, q1\<lparr>mq_messages := map_option (shift_down victim (mq_depth q - 1)) (mq_messages q1),
                         mq_count := mq_count q - 1\<rparr>)))"

text \<open>\<open>for (i = n; i > 0; i--) xs[i] = xs[i - 1]\<close>.\<close>

fun shift_up :: "nat \<Rightarrow> 'a list \<Rightarrow> 'a list" where
  "shift_up 0 xs = xs"
| "shift_up (Suc i) xs = shift_up i (xs[Suc i := xs ! i])"

definition message_queue_add_front :: "'d option \<Rightarrow> int \<Rightarrow> 'd message_queue \<Rightarrow> esp_err \<times> 'd message_queue" where
  "message_queue_add_front data len q =
     (if data = None \<or> len \<le> 0 \<or> \<not> mq_ready q then (ESP_ERR_INVALID_ARG, q)
      else case make_room q of (room, q1) \<Rightarrow>
        if \<not> room then (ESP_ERR_NO_MEM, q1)
        else (ESP_OK,
              q1\<lparr>mq_messages := map_option (\<lambda>xs. (shift_up (mq_count q1) xs)[0 := \<lparr>qm_data = data, qm_len = len\<rparr>])
                                 (mq_messages q1),
                 mq_count := Suc (mq_count q1)\<rparr>))"

definition message_queue_add :: "'d option \<Rightarrow> int \<Rightarrow> 'd message_queue \<Rightarrow> esp_err \<times> 'd message_queue" where
  "message_queue_add data len q =
     (if data = None \<or> len \<le> 0 then (ESP_ERR_INVALID_ARG, q)
      else if \<not> mq_ready q then (ESP_ERR_INVALID_STATE, q)
      else case make_room q of (room, q1) \<Rightarrow>
        if \<not> room then (ESP_ERR_NO_MEM, q1)
        else (ESP_OK,
              q1\<lparr>mq_messages := map_option (\<lambda>xs. xs[mq_count q1 := \<lparr>qm_data = data, qm_len = len\<rparr>]) (mq_messages q1),
                 mq_count := Suc (mq_count q1)\<rparr>))"

definition take_head :: "'d message_queue \<Rightarrow> 'd option \<times> int \<times> 'd message_queue" where
  "take_head q =
     (qm_data (mq_slots q ! 0), qm_len (mq_slots q ! 0),
      q\<lparr>mq_messages := map_option (\<lambda>xs. (shift_down 0 (mq_count q - 1) xs)[mq_count q - 1 := empty_slot]) (mq_messages q),
        mq_count := mq_count q - 1\<rparr>)"

definition message_queue_get_next :: "'d message_queue \<Rightarrow> esp_err \<times> 'd option \<times> int \<times> 'd message_queue" where
  "message_queue_get_next q =
     (if \<not> mq_ready q then (ESP_ERR_INVALID_STATE, None, 0, q)
      else if mq_count q = 0 then (ESP_ERR_NOT_FOUND, None, 0, q)
      else (case take_head q of (data, len, q') \<Rightarrow> (ESP_OK, data, len, q')))"

text \<open>
  While it waits for a message the reader gives up the lock: \<open>others\<close> is what the other threads make of
  the queue until the wait ends.
\<close>

definition message_queue_get_next_wait ::
  "('d message_queue \<Rightarrow> 'd message_queue) \<Rightarrow> uint32 \<Rightarrow> 'd message_queue \<Rightarrow>
   esp_err \<times> 'd option \<times> int \<times> 'd message_queue" where
  "message_queue_get_next_wait others wait_ms q =
     (if \<not> mq_ready q then (ESP_ERR_INVALID_STATE, None, 0, q)
      else let q1 = (if mq_count q > 0 \<or> wait_ms = 0 then q else others q)
           in if mq_count q1 = 0 then (ESP_ERR_TIMEOUT, None, 0, q1)
              else (case take_head q1 of (data, len, q') \<Rightarrow> (ESP_OK, data, len, q')))"

definition message_queue_is_empty :: "'d message_queue \<Rightarrow> bool" where
  "message_queue_is_empty q \<longleftrightarrow> (if \<not> mq_ready q then True else mq_count q = 0)"

definition message_queue_get_count :: "'d message_queue \<Rightarrow> nat" where
  "message_queue_get_count q = (if \<not> mq_ready q then 0 else mq_count q)"

section \<open>Invariant and view\<close>

definition mq_used :: "'d message_queue \<Rightarrow> 'd queued_message list" where
  "mq_used q = take (mq_count q) (mq_slots q)"

definition mq_item :: "'d queued_message \<Rightarrow> 'd \<times> int" where
  "mq_item m = (the (qm_data m), qm_len m)"

definition mq_waiting :: "'d message_queue \<Rightarrow> ('d \<times> int) list" where
  "mq_waiting q = map mq_item (mq_used q)"

definition mq_full_slot :: "'d queued_message \<Rightarrow> bool" where
  "mq_full_slot m \<longleftrightarrow> qm_data m \<noteq> None \<and> 0 < qm_len m"

definition mq_inv :: "'d message_queue \<Rightarrow> bool" where
  "mq_inv q \<longleftrightarrow> mq_ready q \<and> mq_messages q \<noteq> None \<and> 0 < mq_depth q \<and>
     length (mq_slots q) = mq_depth q \<and> mq_count q \<le> mq_depth q \<and> list_all mq_full_slot (mq_used q)"

text \<open>The items that \<open>init\<close>-ed owners see: what is not waiting and was not taken has been released.\<close>

definition remove_nth :: "nat \<Rightarrow> 'a list \<Rightarrow> 'a list" where
  "remove_nth i xs = take i xs @ drop (Suc i) xs"

lemma mq_inv_length: "mq_inv q \<Longrightarrow> length (mq_used q) = mq_count q"
  by (simp add: mq_inv_def mq_used_def)

lemma mq_waiting_length: "mq_inv q \<Longrightarrow> length (mq_waiting q) = mq_count q"
  by (simp add: mq_waiting_def mq_inv_length)

lemma shift_up_length [simp]: "length (shift_up n xs) = length xs"
  by (induction n xs rule: shift_up.induct) simp_all

lemma shift_up_nth:
  "n < length xs \<Longrightarrow> j < length xs \<Longrightarrow> 0 < j \<Longrightarrow> shift_up n xs ! j = (if j \<le> n then xs ! (j - 1) else xs ! j)"
proof (induction n xs rule: shift_up.induct)
  case (2 i xs)
  then show ?case using 2 by (auto simp: nth_list_update le_Suc_eq)
qed simp

lemma shift_up_take:
  assumes "n < length xs"
  shows "take (Suc n) ((shift_up n xs)[0 := x]) = x # take n xs"
proof (rule nth_equalityI)
  show "length (take (Suc n) ((shift_up n xs)[0 := x])) = length (x # take n xs)" using assms by simp
  fix j assume "j < length (take (Suc n) ((shift_up n xs)[0 := x]))"
  then have j: "j < length xs" "j \<le> n" by auto
  have "0 < length (shift_up n xs)" using j(1) by (metis shift_up_length gr_zeroI length_0_conv list.size(3) not_less_zero)
  then show "take (Suc n) ((shift_up n xs)[0 := x]) ! j = (x # take n xs) ! j"
    using j assms shift_up_nth[OF assms, of j] by (cases j) (auto simp: nth_list_update)
qed

lemma remove_nth_0: "remove_nth 0 xs = tl xs"
  by (simp add: remove_nth_def drop_Suc)

lemma remove_nth_length: "i < length xs \<Longrightarrow> length (remove_nth i xs) = length xs - 1"
  by (simp add: remove_nth_def)

lemma map_remove_nth: "map f (remove_nth i xs) = remove_nth i (map f xs)"
  by (simp add: remove_nth_def take_map drop_map)

lemma remove_nth_subseq: "subseq (remove_nth i xs) xs"
proof -
  have "subseq (take i xs @ drop (Suc i) xs) (take i xs @ drop i xs)"
    using suffix_imp_subseq[OF suffix_drop[of 1 "drop i xs"]] by (intro list_emb_append_mono) simp_all
  then show ?thesis by (simp add: remove_nth_def)
qed

section \<open>What the operations do\<close>

definition victim_of :: "('d option \<Rightarrow> int \<Rightarrow> bool) option \<Rightarrow> ('d \<times> int) list \<Rightarrow> nat" where
  "victim_of f ws =
     (case f of None \<Rightarrow> 0
      | Some g \<Rightarrow> (case find (\<lambda>i. g (Some (fst (ws ! i))) (snd (ws ! i))) [0..<length ws] of
                   None \<Rightarrow> 0 | Some i \<Rightarrow> i))"

lemma mq_used_nth: "mq_inv q \<Longrightarrow> i < mq_count q \<Longrightarrow> mq_used q ! i = mq_slots q ! i"
  by (simp add: mq_used_def)

lemma mq_used_full: "mq_inv q \<Longrightarrow> i < mq_count q \<Longrightarrow> mq_full_slot (mq_slots q ! i)"
proof -
  assume q: "mq_inv q" and i: "i < mq_count q"
  have "list_all mq_full_slot (mq_used q)" using q by (simp add: mq_inv_def)
  then have "mq_full_slot (mq_used q ! i)" using mq_inv_length[OF q] i by (simp only: list_all_length)
  then show ?thesis using mq_used_nth[OF q i] by simp
qed

lemma mq_waiting_nth:
  assumes "mq_inv q" "i < mq_count q"
  shows "Some (fst (mq_waiting q ! i)) = qm_data (mq_slots q ! i)" "snd (mq_waiting q ! i) = qm_len (mq_slots q ! i)"
proof -
  have "mq_waiting q ! i = mq_item (mq_slots q ! i)"
    using mq_used_nth[OF assms] mq_inv_length[OF assms(1)] assms(2) by (simp add: mq_waiting_def)
  then show "Some (fst (mq_waiting q ! i)) = qm_data (mq_slots q ! i)" "snd (mq_waiting q ! i) = qm_len (mq_slots q ! i)"
    using mq_used_full[OF assms] by (simp_all add: mq_item_def mq_full_slot_def)
qed

lemma drop_index_eq:
  assumes "mq_inv q" shows "drop_index q = victim_of (mq_droppable q) (mq_waiting q)"
proof (cases "mq_droppable q")
  case (Some f)
  have "find (\<lambda>i. f (qm_data (mq_slots q ! i)) (qm_len (mq_slots q ! i))) [0..<mq_count q] =
      find (\<lambda>i. f (Some (fst (mq_waiting q ! i))) (snd (mq_waiting q ! i))) [0..<mq_count q]"
    by (rule find_cong) (auto simp: mq_waiting_nth[OF assms])
  then show ?thesis using Some by (simp add: drop_index_def victim_of_def mq_waiting_length[OF assms])
qed (simp add: drop_index_def victim_of_def)

lemma victim_of_less: "ws \<noteq> [] \<Longrightarrow> victim_of f ws < length ws"
  by (auto simp: victim_of_def find_Some_iff split: option.splits)

lemma mq_inv_Some:
  assumes "mq_inv q"
  obtains xs where "mq_messages q = Some xs" "mq_slots q = xs" "length xs = mq_depth q" "mq_ready q"
    "0 < mq_depth q" "mq_count q \<le> mq_depth q"
  using assms by (auto simp: mq_inv_def mq_slots_def)

lemma free_item_frame [simp]:
  "mq_messages (free_item d q) = mq_messages q" "mq_depth (free_item d q) = mq_depth q"
  "mq_count (free_item d q) = mq_count q" "mq_ready (free_item d q) = mq_ready q"
  "mq_droppable (free_item d q) = mq_droppable q" "mq_full_policy (free_item d q) = mq_full_policy q"
  by (simp_all add: free_item_def split: option.splits)

lemma make_room_spec:
  assumes "mq_inv q" "make_room q = (ok, q')"
  defines "v \<equiv> victim_of (mq_droppable q) (mq_waiting q)"
  shows "mq_inv q'"
    "ok \<longleftrightarrow> mq_count q < mq_depth q \<or> mq_full_policy q = MESSAGE_QUEUE_FULL_DROP_OLDEST"
    "ok \<Longrightarrow> mq_count q' < mq_depth q'"
    "mq_waiting q' = (if ok \<and> mq_count q = mq_depth q then remove_nth v (mq_waiting q) else mq_waiting q)"
    "mq_released q' = mq_released q @ (if ok \<and> mq_count q = mq_depth q then [fst (mq_waiting q ! v)] else [])"
    "mq_depth q' = mq_depth q" "mq_droppable q' = mq_droppable q" "mq_full_policy q' = mq_full_policy q"
proof -
  obtain xs where X: "mq_messages q = Some xs" "mq_slots q = xs" "length xs = mq_depth q" "mq_ready q"
    "0 < mq_depth q" "mq_count q \<le> mq_depth q" by (rule mq_inv_Some[OF assms(1)])
  have "mq_inv q' \<and>
    (ok \<longleftrightarrow> mq_count q < mq_depth q \<or> mq_full_policy q = MESSAGE_QUEUE_FULL_DROP_OLDEST) \<and>
    (ok \<longrightarrow> mq_count q' < mq_depth q') \<and>
    mq_waiting q' = (if ok \<and> mq_count q = mq_depth q then remove_nth v (mq_waiting q) else mq_waiting q) \<and>
    mq_released q' = mq_released q @ (if ok \<and> mq_count q = mq_depth q then [fst (mq_waiting q ! v)] else []) \<and>
    mq_depth q' = mq_depth q \<and> mq_droppable q' = mq_droppable q \<and> mq_full_policy q' = mq_full_policy q"
  proof (cases "mq_count q < mq_depth q \<or> mq_full_policy q = MESSAGE_QUEUE_FULL_REJECT_NEW")
    case True
    then have "q' = q \<and> ok = (mq_count q < mq_depth q)" using assms(2) by (auto simp: make_room_def split: if_splits)
    then show ?thesis using assms(1) True by auto
  next
    case False
    then have full: "mq_count q = length xs" and drp: "mq_full_policy q = MESSAGE_QUEUE_FULL_DROP_OLDEST"
      using X(3,6) by (auto intro: message_queue_full_policy.exhaust)
    have v: "v < length xs" "drop_index q = v"
      using victim_of_less[of "mq_waiting q" "mq_droppable q"] mq_waiting_length[OF assms(1)] full X(3,5)
        drop_index_eq[OF assms(1)] by (fastforce simp: v_def)+
    have q': "ok" "q' = (free_item (qm_data (xs ! v)) q)\<lparr>mq_messages := Some (shift_down v (mq_depth q - 1) xs),
        mq_count := mq_count q - 1\<rparr>"
      using assms(2) False X(1,2) v(2) by (auto simp: make_room_def Let_def)
    have u: "mq_used q' = remove_nth v (mq_used q)"
      using shift_down_take[of v "length xs - 1" xs] v(1) full X(1,2,3)
      by (simp add: q' mq_used_def mq_slots_def remove_nth_def Suc_diff_Suc)
    have "list_all mq_full_slot (mq_used q')"
      using assms(1) unfolding u by (auto simp: mq_inv_def remove_nth_def list_all_iff dest: in_set_takeD in_set_dropD)
    then have "mq_inv q'" using X full by (simp add: mq_inv_def q' mq_slots_def)
    moreover have "mq_waiting q' = remove_nth v (mq_waiting q)"
      by (simp add: mq_waiting_def u map_remove_nth)
    moreover have "mq_released q' = mq_released q @ [fst (mq_waiting q ! v)]"
      using mq_waiting_nth(1)[OF assms(1), of v, symmetric] v(1) full X(2) by (simp add: q' free_item_def)
    ultimately show ?thesis using q' full drp X(3,5) by (simp add: free_item_frame)
  qed
  then show "mq_inv q'"
    "ok \<longleftrightarrow> mq_count q < mq_depth q \<or> mq_full_policy q = MESSAGE_QUEUE_FULL_DROP_OLDEST"
    "ok \<Longrightarrow> mq_count q' < mq_depth q'"
    "mq_waiting q' = (if ok \<and> mq_count q = mq_depth q then remove_nth v (mq_waiting q) else mq_waiting q)"
    "mq_released q' = mq_released q @ (if ok \<and> mq_count q = mq_depth q then [fst (mq_waiting q ! v)] else [])"
    "mq_depth q' = mq_depth q" "mq_droppable q' = mq_droppable q" "mq_full_policy q' = mq_full_policy q"
    by blast+
qed

end
