(* ===== verification/Message_Queue_Props.thy ===== *)
theory Message_Queue_Props
  imports Message_Queue "HOL-Library.Multiset"
begin

text \<open>
  The functional behaviour of every operation of the message queue, its interpretation as a FIFO
  queue, and its properties.
\<close>

section \<open>Add, put back, take\<close>

text \<open>What an accepted message does to the waiting ones: nothing, or one of them is shed.\<close>

definition mq_room :: "'d message_queue \<Rightarrow> ('d \<times> int) list" where
  "mq_room q = (if mq_count q < mq_depth q then mq_waiting q
                else remove_nth (victim_of (mq_droppable q) (mq_waiting q)) (mq_waiting q))"

definition mq_accepts :: "'d message_queue \<Rightarrow> bool" where
  "mq_accepts q \<longleftrightarrow> mq_count q < mq_depth q \<or> mq_full_policy q = MESSAGE_QUEUE_FULL_DROP_OLDEST"

definition mq_shed :: "'d message_queue \<Rightarrow> 'd list" where
  "mq_shed q = (if mq_count q < mq_depth q then []
                else [fst (mq_waiting q ! victim_of (mq_droppable q) (mq_waiting q))])"

lemma make_room_cases:
  assumes "mq_inv q" "make_room q = (ok, q')"
  shows "ok \<longleftrightarrow> mq_accepts q" "mq_inv q'"
    "ok \<Longrightarrow> mq_count q' < mq_depth q' \<and> mq_waiting q' = mq_room q \<and> mq_released q' = mq_released q @ mq_shed q"
    "\<not> ok \<Longrightarrow> mq_waiting q' = mq_waiting q \<and> mq_released q' = mq_released q"
    "mq_depth q' = mq_depth q" "mq_droppable q' = mq_droppable q" "mq_full_policy q' = mq_full_policy q"
proof -
  note M = make_room_spec[OF assms]
  have d: "mq_count q \<le> mq_depth q" using assms(1) by (simp add: mq_inv_def)
  show "ok \<longleftrightarrow> mq_accepts q" using M(2) by (simp add: mq_accepts_def)
  show "mq_inv q'" by (rule M(1))
  show "mq_depth q' = mq_depth q" "mq_droppable q' = mq_droppable q" "mq_full_policy q' = mq_full_policy q"
    by (rule M(6) M(7) M(8))+
  show "\<not> ok \<Longrightarrow> mq_waiting q' = mq_waiting q \<and> mq_released q' = mq_released q"
    using M(4,5) by simp
  assume ok
  then show "mq_count q' < mq_depth q' \<and> mq_waiting q' = mq_room q \<and> mq_released q' = mq_released q @ mq_shed q"
    using M(3,4,5) d by (simp add: mq_room_def mq_shed_def)
qed

text \<open>Writing a slot in use or the next one.\<close>

lemma add_slot:
  assumes "mq_inv q" "mq_count q < mq_depth q" "0 < len"
    and q': "q' = q\<lparr>mq_messages := map_option (\<lambda>xs. xs[mq_count q := \<lparr>qm_data = Some d, qm_len = len\<rparr>]) (mq_messages q),
                 mq_count := Suc (mq_count q)\<rparr>"
  shows "mq_inv q'" "mq_waiting q' = mq_waiting q @ [(d, len)]"
proof -
  obtain xs where X: "mq_messages q = Some xs" "mq_slots q = xs" "length xs = mq_depth q" "mq_ready q"
    "0 < mq_depth q" "mq_count q \<le> mq_depth q" by (rule mq_inv_Some[OF assms(1)])
  have u: "mq_used q' = mq_used q @ [\<lparr>qm_data = Some d, qm_len = len\<rparr>]"
    using X assms(2) by (simp add: q' mq_used_def mq_slots_def take_Suc_conv_app_nth)
  show "mq_waiting q' = mq_waiting q @ [(d, len)]"
    by (simp add: mq_waiting_def u mq_item_def)
  have "list_all mq_full_slot (mq_used q')"
    using assms(1,3) by (simp add: u mq_inv_def mq_full_slot_def)
  then show "mq_inv q'" using X assms(2) by (simp add: mq_inv_def) (simp add: q' mq_slots_def)
qed

lemma front_slot:
  assumes "mq_inv q" "mq_count q < mq_depth q" "0 < len"
    and q': "q' = q\<lparr>mq_messages := map_option (\<lambda>xs. (shift_up (mq_count q) xs)[0 := \<lparr>qm_data = Some d, qm_len = len\<rparr>])
                 (mq_messages q), mq_count := Suc (mq_count q)\<rparr>"
  shows "mq_inv q'" "mq_waiting q' = (d, len) # mq_waiting q"
proof -
  obtain xs where X: "mq_messages q = Some xs" "mq_slots q = xs" "length xs = mq_depth q" "mq_ready q"
    "0 < mq_depth q" "mq_count q \<le> mq_depth q" by (rule mq_inv_Some[OF assms(1)])
  have "mq_count q < length xs" using X assms(2) by simp
  then have u: "mq_used q' = \<lparr>qm_data = Some d, qm_len = len\<rparr> # mq_used q"
    using X shift_up_take[of "mq_count q" xs] by (simp only: q' mq_used_def mq_slots_def) simp
  show "mq_waiting q' = (d, len) # mq_waiting q"
    by (simp add: mq_waiting_def u mq_item_def)
  have "list_all mq_full_slot (mq_used q')"
    using assms(1,3) by (simp add: u mq_inv_def mq_full_slot_def)
  then show "mq_inv q'" using X assms(2) by (simp add: mq_inv_def) (simp add: q' mq_slots_def)
qed

lemma add_spec:
  assumes "mq_inv q" "0 < len" "message_queue_add (Some d) len q = (r, q')"
  shows "mq_inv q'" "r = (if mq_accepts q then ESP_OK else ESP_ERR_NO_MEM)"
    "mq_waiting q' = (if mq_accepts q then mq_room q @ [(d, len)] else mq_waiting q)"
    "mq_released q' = mq_released q @ (if mq_accepts q then mq_shed q else [])"
    "mq_depth q' = mq_depth q"
proof -
  obtain ok q1 where m: "make_room q = (ok, q1)" by (cases "make_room q")
  note M = make_room_cases[OF assms(1) m]
  have rdy: "mq_ready q" using assms(1) by (simp add: mq_inv_def)
  have "mq_inv q' \<and> r = (if ok then ESP_OK else ESP_ERR_NO_MEM) \<and>
    mq_waiting q' = (if ok then mq_room q @ [(d, len)] else mq_waiting q) \<and>
    mq_released q' = mq_released q @ (if ok then mq_shed q else []) \<and> mq_depth q' = mq_depth q"
  proof (cases ok)
    case True
    note A = add_slot[OF M(2) _ assms(2) refl, of d]
    show ?thesis using A M(3,5) True assms(2,3) m rdy by (auto simp: message_queue_add_def)
  next
    case False
    then show ?thesis using M(2,4,5) assms(2,3) m rdy by (auto simp: message_queue_add_def)
  qed
  then show "mq_inv q'" "r = (if mq_accepts q then ESP_OK else ESP_ERR_NO_MEM)"
    "mq_waiting q' = (if mq_accepts q then mq_room q @ [(d, len)] else mq_waiting q)"
    "mq_released q' = mq_released q @ (if mq_accepts q then mq_shed q else [])"
    "mq_depth q' = mq_depth q"
    using M(1) by simp_all
qed

lemma add_front_spec:
  assumes "mq_inv q" "0 < len" "message_queue_add_front (Some d) len q = (r, q')"
  shows "mq_inv q'" "r = (if mq_accepts q then ESP_OK else ESP_ERR_NO_MEM)"
    "mq_waiting q' = (if mq_accepts q then (d, len) # mq_room q else mq_waiting q)"
    "mq_released q' = mq_released q @ (if mq_accepts q then mq_shed q else [])"
    "mq_depth q' = mq_depth q"
proof -
  obtain ok q1 where m: "make_room q = (ok, q1)" by (cases "make_room q")
  note M = make_room_cases[OF assms(1) m]
  have rdy: "mq_ready q" using assms(1) by (simp add: mq_inv_def)
  have "mq_inv q' \<and> r = (if ok then ESP_OK else ESP_ERR_NO_MEM) \<and>
    mq_waiting q' = (if ok then (d, len) # mq_room q else mq_waiting q) \<and>
    mq_released q' = mq_released q @ (if ok then mq_shed q else []) \<and> mq_depth q' = mq_depth q"
  proof (cases ok)
    case True
    note A = front_slot[OF M(2) _ assms(2) refl, of d]
    show ?thesis using A M(3,5) True assms(2,3) m rdy by (auto simp: message_queue_add_front_def)
  next
    case False
    then show ?thesis using M(2,4,5) assms(2,3) m rdy by (auto simp: message_queue_add_front_def)
  qed
  then show "mq_inv q'" "r = (if mq_accepts q then ESP_OK else ESP_ERR_NO_MEM)"
    "mq_waiting q' = (if mq_accepts q then (d, len) # mq_room q else mq_waiting q)"
    "mq_released q' = mq_released q @ (if mq_accepts q then mq_shed q else [])"
    "mq_depth q' = mq_depth q"
    using M(1) by simp_all
qed

lemma take_head_spec:
  assumes "mq_inv q" "0 < mq_count q" "take_head q = (d, len, q')"
  shows "mq_inv q'" "d \<noteq> None" "0 < len" "mq_waiting q = (the d, len) # mq_waiting q'"
    "mq_released q' = mq_released q" "mq_depth q' = mq_depth q" "mq_count q' < mq_depth q'"
proof -
  obtain xs where X: "mq_messages q = Some xs" "mq_slots q = xs" "length xs = mq_depth q" "mq_ready q"
    "0 < mq_depth q" "mq_count q \<le> mq_depth q" by (rule mq_inv_Some[OF assms(1)])
  have q': "d = qm_data (xs ! 0)" "len = qm_len (xs ! 0)"
    "q' = q\<lparr>mq_messages := Some ((shift_down 0 (mq_count q - 1) xs)[mq_count q - 1 := empty_slot]),
        mq_count := mq_count q - 1\<rparr>"
    using assms(3) X(1,2) by (auto simp: take_head_def)
  have u: "mq_used q' = drop 1 (mq_used q)"
    using shift_down_take[of 0 "mq_count q - 1" xs] assms(2) X by (simp add: q' mq_used_def mq_slots_def)
  have hd: "mq_used q = xs ! 0 # mq_used q'"
    using assms(2) X mq_inv_length[OF assms(1)] Cons_nth_drop_Suc[of 0 "mq_used q"]
    by (simp add: u) (simp add: mq_used_def)
  have full: "mq_full_slot (xs ! 0)" "list_all mq_full_slot (mq_used q')"
    using assms(1) hd by (auto simp: mq_inv_def)
  then show "d \<noteq> None" "0 < len" by (simp_all add: q' mq_full_slot_def)
  show "mq_waiting q = (the d, len) # mq_waiting q'"
    by (simp add: mq_waiting_def hd mq_item_def q'(1,2))
  show "mq_released q' = mq_released q" "mq_depth q' = mq_depth q" "mq_count q' < mq_depth q'"
    using X(6) assms(2) by (auto simp: q'(3))
  show "mq_inv q'" using full X by (simp add: mq_inv_def) (simp add: q' mq_slots_def)
qed

section \<open>Set-up and teardown\<close>

lemma cleanup_slots:
  assumes "mq_messages q = Some xs" "n \<le> length xs"
  defines "q' \<equiv> fold cleanup_slot [0..<n] q"
  shows "mq_released q' = mq_released q @ concat (map (\<lambda>m. case qm_data m of None \<Rightarrow> [] | Some d \<Rightarrow> [d]) (take n xs))"
    "mq_messages q' = Some (map (\<lambda>m. m\<lparr>qm_data := None\<rparr>) (take n xs) @ drop n xs)"
    "mq_depth q' = mq_depth q" "mq_ready q' = mq_ready q" "mq_count q' = mq_count q"
proof -
  have "mq_released q' = mq_released q @ concat (map (\<lambda>m. case qm_data m of None \<Rightarrow> [] | Some d \<Rightarrow> [d]) (take n xs)) \<and>
    mq_messages q' = Some (map (\<lambda>m. m\<lparr>qm_data := None\<rparr>) (take n xs) @ drop n xs) \<and>
    mq_depth q' = mq_depth q \<and> mq_ready q' = mq_ready q \<and> mq_count q' = mq_count q"
    unfolding q'_def using assms(2)
  proof (induction n)
    case (Suc n)
    let ?q = "fold cleanup_slot [0..<n] q"
    let ?ys = "map (\<lambda>m. m\<lparr>qm_data := None\<rparr>) (take n xs) @ drop n xs"
    have n: "n < length xs" "?ys ! n = xs ! n" using Suc.prems by (simp_all add: nth_append)
    have IH: "mq_messages ?q = Some ?ys" using Suc by simp
    have slot: "?ys[n := (xs ! n)\<lparr>qm_data := None\<rparr>] =
        map (\<lambda>m. m\<lparr>qm_data := None\<rparr>) (take (Suc n) xs) @ drop (Suc n) xs"
      using n(1) by (simp add: list_update_append take_Suc_conv_app_nth Cons_nth_drop_Suc[symmetric])
    have sl: "mq_slots ?q ! n = xs ! n" using IH n by (simp add: mq_slots_def)
    have step: "mq_messages (cleanup_slot n ?q) = Some (?ys[n := (?ys ! n)\<lparr>qm_data := None\<rparr>])"
      "mq_released (cleanup_slot n ?q) = mq_released ?q @ (case qm_data (xs ! n) of None \<Rightarrow> [] | Some d \<Rightarrow> [d])"
      "mq_depth (cleanup_slot n ?q) = mq_depth ?q" "mq_ready (cleanup_slot n ?q) = mq_ready ?q"
      "mq_count (cleanup_slot n ?q) = mq_count ?q"
      by (simp_all add: cleanup_slot_def Let_def IH sl) (simp add: free_item_def split: option.splits)
    show ?case using Suc n slot by (simp add: step take_Suc_conv_app_nth)
  qed (simp add: assms(1))
  then show "mq_released q' = mq_released q @ concat (map (\<lambda>m. case qm_data m of None \<Rightarrow> [] | Some d \<Rightarrow> [d]) (take n xs))"
    "mq_messages q' = Some (map (\<lambda>m. m\<lparr>qm_data := None\<rparr>) (take n xs) @ drop n xs)"
    "mq_depth q' = mq_depth q" "mq_ready q' = mq_ready q" "mq_count q' = mq_count q"
    by blast+
qed

lemma full_slots_released:
  "list_all mq_full_slot ms \<Longrightarrow>
   concat (map (\<lambda>m. case qm_data m of None \<Rightarrow> [] | Some d \<Rightarrow> [d]) ms) = map (\<lambda>m. fst (mq_item m)) ms"
  by (induction ms) (auto simp: mq_full_slot_def mq_item_def)

lemma cleanup_spec:
  assumes "mq_inv q" "message_queue_cleanup q = (r, q')"
  shows "r = ESP_OK" "mq_inv q'" "mq_waiting q' = []" "mq_released q' = mq_released q @ map fst (mq_waiting q)"
    "mq_depth q' = mq_depth q"
proof -
  obtain xs where X: "mq_messages q = Some xs" "mq_slots q = xs" "length xs = mq_depth q" "mq_ready q"
    "0 < mq_depth q" "mq_count q \<le> mq_depth q" by (rule mq_inv_Some[OF assms(1)])
  have n: "mq_count q \<le> length xs" using X(3,6) by simp
  note C = cleanup_slots[OF X(1) n]
  have q': "r = ESP_OK" "q' = (fold cleanup_slot [0..<mq_count q] q)\<lparr>mq_count := 0\<rparr>"
    using assms(2) X(4) by (auto simp: message_queue_cleanup_def)
  show "r = ESP_OK" "mq_depth q' = mq_depth q" using C(3) by (simp_all add: q')
  show "mq_waiting q' = []" by (simp add: q' mq_waiting_def mq_used_def)
  have "list_all mq_full_slot (take (mq_count q) xs)"
    using assms(1) X(2) by (simp add: mq_inv_def mq_used_def)
  then show "mq_released q' = mq_released q @ map fst (mq_waiting q)"
    using C(1) X(2) full_slots_released by (simp add: q' mq_waiting_def mq_used_def comp_def)
  show "mq_inv q'" using X C(2,3,4) by (simp add: mq_inv_def q' mq_slots_def mq_used_def)
qed

text \<open>What a queue owns on the heap: its slot array and its lock.\<close>

definition mq_blocks :: "'d message_queue \<Rightarrow> int" where
  "mq_blocks q = owned (mq_messages q) + (if mq_ready q then 1 else 0)"

text \<open>A queue before \<open>init\<close> or after \<open>deinit\<close>.\<close>

definition mq_down :: "'d message_queue \<Rightarrow> bool" where
  "mq_down q \<longleftrightarrow> \<not> mq_ready q \<and> mq_messages q = None"

lemma init_spec:
  assumes "mq_down q \<or> mq_inv q" "message_queue_init_with_config c q h = (r, q', h')"
  shows "r = ESP_OK \<Longrightarrow> mq_inv q' \<and> mq_waiting q' = []" "live h' - mq_blocks q' = live h - mq_blocks q"
    "r = ESP_OK \<Longrightarrow> mq_released q' = mq_released q @ (if mq_ready q then map fst (mq_waiting q) else [])"
    "r \<noteq> ESP_OK \<Longrightarrow> q' = q"
proof -
  have "(r = ESP_OK \<longrightarrow> mq_inv q' \<and> mq_waiting q' = []) \<and> live h' - mq_blocks q' = live h - mq_blocks q \<and>
    (r = ESP_OK \<longrightarrow> mq_released q' = mq_released q @ (if mq_ready q then map fst (mq_waiting q) else [])) \<and>
    (r \<noteq> ESP_OK \<longrightarrow> q' = q)"
  proof (cases "mq_ready q \<and> c \<noteq> None \<and> \<not> cfg_depth (the c) \<le> 0")
    case True
    then have i: "mq_inv q" using assms(1) by (simp add: mq_down_def)
    have run: "message_queue_cleanup q = (r, q')" "h' = h"
      using assms(2) True by (auto simp: message_queue_init_with_config_def split: prod.splits)
    note C = cleanup_spec[OF i run(1)]
    have "mq_blocks q' = mq_blocks q" using C(2) i by (auto simp: mq_blocks_def mq_inv_def owned_def)
    then show ?thesis using C run(2) True by simp
  next
    case False
    have i: "mq_messages q = None \<and> \<not> mq_ready q \<or> c = None \<or> cfg_depth (the c) \<le> 0"
      using assms(1) False by (auto simp: mq_down_def mq_inv_def)
    show ?thesis
    proof (cases "c = None \<or> cfg_depth (the c) \<le> 0")
      case True
      then have "(r, q', h') = (ESP_ERR_INVALID_ARG, q, h)" using assms(2)
        by (cases c) (simp_all add: message_queue_init_with_config_def)
      then show ?thesis by simp
    next
      case False
      then obtain c' where c: "c = Some c'" "0 < cfg_depth c'" and down: "mq_messages q = None" "\<not> mq_ready q"
        using i by (cases c) auto
      have same: "q\<lparr>mq_messages := None\<rparr> = q" using down(1) by (cases q) simp
      obtain g1 h1 where a: "heap_calloc h = (g1, h1)" by (cases "heap_calloc h")
      obtain g2 h2 where b: "heap_calloc h1 = (g2, h2)" by (cases "heap_calloc h1")
      note L = heap_calloc_live[OF a] heap_calloc_live[OF b]
      show ?thesis using assms(2) c down L
        by (cases g1; cases g2) (auto simp: message_queue_init_with_config_def a b same mq_inv_def
            mq_waiting_def mq_used_def mq_slots_def mq_blocks_def)
    qed
  qed
  then show "r = ESP_OK \<Longrightarrow> mq_inv q' \<and> mq_waiting q' = []" "live h' - mq_blocks q' = live h - mq_blocks q"
    "r = ESP_OK \<Longrightarrow> mq_released q' = mq_released q @ (if mq_ready q then map fst (mq_waiting q) else [])"
    "r \<noteq> ESP_OK \<Longrightarrow> q' = q"
    by blast+
qed

lemma deinit_spec:
  assumes "mq_inv q" "message_queue_deinit q h = (r, q', h')"
  shows "r = ESP_OK" "mq_down q'" "mq_released q' = mq_released q @ map fst (mq_waiting q)"
    "live h' = live h - mq_blocks q"
proof -
  obtain r1 q1 where c: "message_queue_cleanup q = (r1, q1)" by (cases "message_queue_cleanup q")
  note C = cleanup_spec[OF assms(1) c]
  obtain xs where X: "mq_messages q1 = Some xs" "mq_ready q1" using mq_inv_Some[OF C(2)] by metis
  have b: "mq_blocks q = 2" using assms(1) by (auto simp: mq_blocks_def mq_inv_def owned_def)
  show "r = ESP_OK" "mq_down q'" "mq_released q' = mq_released q @ map fst (mq_waiting q)"
    "live h' = live h - mq_blocks q"
    using assms(2) C(4) X b by (auto simp: message_queue_deinit_def Let_def c mq_down_def)
qed

section \<open>A FIFO queue\<close>

definition mq_add_item :: "'d \<times> int \<Rightarrow> 'd message_queue \<Rightarrow> bool \<times> 'd message_queue" where
  "mq_add_item m q = (case message_queue_add (Some (fst m)) (snd m) q of (r, q') \<Rightarrow> (r = ESP_OK, q'))"

definition mq_push_item :: "'d \<times> int \<Rightarrow> 'd message_queue \<Rightarrow> bool \<times> 'd message_queue" where
  "mq_push_item m q = (case message_queue_add_front (Some (fst m)) (snd m) q of (r, q') \<Rightarrow> (r = ESP_OK, q'))"

definition mq_pop_item :: "'d message_queue \<Rightarrow> (('d \<times> int) \<times> 'd message_queue) option" where
  "mq_pop_item q =
     (case message_queue_get_next q of (r, d, len, q') \<Rightarrow> if r = ESP_OK then Some ((the d, len), q') else None)"

definition mq_has_room :: "'d message_queue \<Rightarrow> bool" where
  "mq_has_room q \<longleftrightarrow> mq_count q < mq_depth q"

definition mq_good :: "'d \<times> int \<Rightarrow> bool" where
  "mq_good m \<longleftrightarrow> 0 < snd m"

lemma mq_items_good: "mq_inv q \<Longrightarrow> list_all mq_good (mq_waiting q)"
  by (auto simp: mq_inv_def mq_waiting_def list_all_iff mq_full_slot_def mq_good_def mq_item_def)

lemma mq_room_subseq: "subseq (mq_room q) (mq_waiting q)"
  by (simp add: mq_room_def remove_nth_subseq)

lemma mq_pop_Some:
  assumes "mq_inv q" "mq_pop_item q = Some (m, q')"
  shows "mq_inv q' \<and> mq_has_room q' \<and> mq_waiting q = m # mq_waiting q'"
proof -
  obtain d len where t: "take_head q = (d, len, q')" "m = (the d, len)" "0 < mq_count q"
    using assms(2) by (auto simp: mq_pop_item_def message_queue_get_next_def split: if_splits prod.splits)
  show ?thesis using take_head_spec[OF assms(1) t(3,1)] t(2) by (simp add: mq_has_room_def)
qed

lemma mq_pop_None: "mq_inv q \<Longrightarrow> mq_pop_item q = None \<longleftrightarrow> mq_waiting q = []"
  using mq_waiting_length[of q]
  by (auto simp: mq_pop_item_def message_queue_get_next_def mq_inv_def split: prod.splits)

interpretation mq: fifo mq_inv mq_waiting mq_has_room mq_good message_queue_get_count
  mq_add_item mq_push_item mq_pop_item
proof unfold_locales
  fix q :: "'d message_queue" and m q' ok
  assume i: "mq_inv q"
  show "message_queue_get_count q = length (mq_waiting q)"
    using i mq_waiting_length[OF i] by (simp add: message_queue_get_count_def mq_inv_def)
  show "list_all mq_good (mq_waiting q)" by (rule mq_items_good[OF i])
  show "mq_pop_item q = None \<longleftrightarrow> mq_waiting q = []" by (rule mq_pop_None[OF i])
  show "mq_pop_item q = Some (m, q') \<Longrightarrow> mq_inv q' \<and> mq_has_room q' \<and> mq_waiting q = m # mq_waiting q'"
    by (rule mq_pop_Some[OF i])
next
  fix q :: "'d message_queue" and m q' ok
  assume i: "mq_inv q" and g: "mq_good m" and room: "mq_has_room q" and run: "mq_push_item m q = (ok, q')"
  show "ok \<and> mq_inv q' \<and> mq_waiting q' = m # mq_waiting q"
    using add_front_spec[OF i, of "snd m" "fst m"] g room run
    by (auto simp: mq_push_item_def mq_good_def mq_has_room_def mq_accepts_def mq_room_def split: prod.splits)
next
  fix q :: "'d message_queue" and m q' ok
  assume i: "mq_inv q" and g: "mq_good m" and run: "mq_add_item m q = (ok, q')"
  note A = add_spec[OF i, of "snd m" "fst m"]
  show "mq_inv q' \<and> (\<exists>xs. subseq xs (mq_waiting q) \<and> mq_waiting q' = xs @ (if ok then [m] else []))"
    using A g run mq_room_subseq[of q]
    by (auto simp: mq_add_item_def mq_good_def split: prod.splits)
next
  fix q :: "'d message_queue" and m q'
  assume i: "mq_inv q" and g: "mq_good m" and run: "mq_add_item m q = (False, q')"
  show "mq_waiting q' = mq_waiting q"
    using add_spec[OF i, of "snd m" "fst m"] g run
    by (auto simp: mq_add_item_def mq_good_def split: prod.splits if_splits)
next
  fix q :: "'d message_queue" and m q' ok
  assume i: "mq_inv q" and g: "mq_good m" and room: "mq_has_room q" and run: "mq_add_item m q = (ok, q')"
  show "ok \<and> mq_waiting q' = mq_waiting q @ [m]"
    using add_spec[OF i, of "snd m" "fst m"] g room run
    by (auto simp: mq_add_item_def mq_good_def mq_has_room_def mq_accepts_def mq_room_def split: prod.splits)
qed

section \<open>Properties\<close>

text \<open>A use of the queue: any sequence of the operations its owner calls while it is up.\<close>

datatype 'd mq_call = CallAdd 'd int | CallAddFront 'd int | CallGetNext | CallCleanup

text \<open>The queue, the items it accepted and the items it gave out, in order.\<close>

definition mq_call_step :: "'d mq_call \<Rightarrow> 'd message_queue \<times> 'd list \<times> 'd list \<Rightarrow>
    'd message_queue \<times> 'd list \<times> 'd list" where
  "mq_call_step c s =
     (case s of (q, accepted, taken) \<Rightarrow>
        (case c of
           CallAdd d len \<Rightarrow> (case message_queue_add (Some d) len q of
             (r, q') \<Rightarrow> (q', accepted @ (if r = ESP_OK then [d] else []), taken))
         | CallAddFront d len \<Rightarrow> (case message_queue_add_front (Some d) len q of
             (r, q') \<Rightarrow> (q', accepted @ (if r = ESP_OK then [d] else []), taken))
         | CallGetNext \<Rightarrow> (case message_queue_get_next q of
             (r, d, len, q') \<Rightarrow> (q', accepted, taken @ (if r = ESP_OK then [the d] else [])))
         | CallCleanup \<Rightarrow> (snd (message_queue_cleanup q), accepted, taken)))"

definition mq_ledger :: "'d list \<Rightarrow> 'd message_queue \<times> 'd list \<times> 'd list \<Rightarrow> bool" where
  "mq_ledger before s = (case s of (q, accepted, taken) \<Rightarrow>
     mq_inv q \<and> mset before + mset accepted = mset (map fst (mq_waiting q)) + mset taken + mset (mq_released q))"

lemma mset_remove_nth: "i < length xs \<Longrightarrow> mset xs = add_mset (xs ! i) (mset (remove_nth i xs))"
  by (subst id_take_nth_drop[of i xs]) (simp_all add: remove_nth_def)

lemma mq_room_shed:
  assumes "mq_inv q"
  shows "mset (map fst (mq_waiting q)) = mset (map fst (mq_room q)) + mset (mq_shed q)"
proof (cases "mq_count q < mq_depth q")
  case False
  let ?v = "victim_of (mq_droppable q) (mq_waiting q)"
  have "mq_waiting q \<noteq> []" using False assms mq_waiting_length[OF assms] by (auto simp: mq_inv_def)
  then have "mset (mq_waiting q) = add_mset (mq_waiting q ! ?v) (mset (remove_nth ?v (mq_waiting q)))"
    by (intro mset_remove_nth victim_of_less)
  then show ?thesis using False by (simp add: mq_room_def mq_shed_def)
qed (simp add: mq_room_def mq_shed_def)

lemma mq_add_rejects:
  "len \<le> 0 \<Longrightarrow> message_queue_add (Some d) len q = (ESP_ERR_INVALID_ARG, q)"
  "len \<le> 0 \<Longrightarrow> message_queue_add_front (Some d) len q = (ESP_ERR_INVALID_ARG, q)"
  by (simp_all add: message_queue_add_def message_queue_add_front_def)

lemma mq_get_next_cases:
  assumes "mq_inv q" "message_queue_get_next q = (r, d, len, q')"
  shows "if mq_waiting q = [] then r = ESP_ERR_NOT_FOUND \<and> q' = q
         else r = ESP_OK \<and> mq_inv q' \<and> mq_waiting q = (the d, len) # mq_waiting q' \<and> mq_released q' = mq_released q"
proof (cases "mq_count q = 0")
  case True
  then have "mq_waiting q = []" using mq_waiting_length[OF assms(1)] by simp
  then show ?thesis using assms True by (simp add: message_queue_get_next_def mq_inv_def)
next
  case False
  have rdy: "mq_ready q" using assms(1) by (simp add: mq_inv_def)
  have ne: "mq_waiting q \<noteq> []" using False mq_waiting_length[OF assms(1)] by auto
  have t: "take_head q = (d, len, q')" "r = ESP_OK"
    using assms(2) False rdy by (auto simp: message_queue_get_next_def split: prod.splits)
  show ?thesis using take_head_spec[OF assms(1) _ t(1)] False ne t(2) by simp
qed

lemma mq_call_ledger:
  assumes "mq_ledger b s" shows "mq_ledger b (mq_call_step c s)"
proof -
  obtain q acc tk where s: "s = (q, acc, tk)" by (cases s) auto
  have i: "mq_inv q" and eq: "mset b + mset acc = mset (map fst (mq_waiting q)) + mset tk + mset (mq_released q)"
    using assms by (auto simp: s mq_ledger_def)
  have add: "mq_ledger b (q', acc @ (if r = ESP_OK then [d] else []), tk)"
    if "mq_inv q'" "r = (if mq_accepts q then ESP_OK else ESP_ERR_NO_MEM)"
      "mset (mq_waiting q') = (if mq_accepts q then add_mset (d, len) (mset (mq_room q)) else mset (mq_waiting q))"
      "mq_released q' = mq_released q @ (if mq_accepts q then mq_shed q else [])"
    for q' r and d :: 'a and len
    using that eq mq_room_shed[OF i] by (auto simp: mq_ledger_def mset_map)
  show ?thesis
  proof (cases c)
    case (CallAdd d len)
    obtain r q' where run: "message_queue_add (Some d) len q = (r, q')" by (cases "message_queue_add (Some d) len q")
    show ?thesis
    proof (cases "0 < len")
      case True
      show ?thesis using add[of q' r d len] add_spec[OF i True run] by (simp add: s mq_call_step_def CallAdd run)
    qed (use run i eq in \<open>auto simp: s mq_call_step_def CallAdd mq_add_rejects mq_ledger_def\<close>)
  next
    case (CallAddFront d len)
    obtain r q' where run: "message_queue_add_front (Some d) len q = (r, q')"
      by (cases "message_queue_add_front (Some d) len q")
    show ?thesis
    proof (cases "0 < len")
      case True
      show ?thesis using add[of q' r d len] add_front_spec[OF i True run]
        by (simp add: s mq_call_step_def CallAddFront run)
    qed (use run i eq in \<open>auto simp: s mq_call_step_def CallAddFront mq_add_rejects mq_ledger_def\<close>)
  next
    case CallGetNext
    obtain r d len q' where run: "message_queue_get_next q = (r, d, len, q')"
      by (cases "message_queue_get_next q")
    show ?thesis using mq_get_next_cases[OF i run] i eq
      by (auto simp: s mq_call_step_def CallGetNext run mq_ledger_def split: if_splits)
  next
    case CallCleanup
    obtain r q' where run: "message_queue_cleanup q = (r, q')" by (cases "message_queue_cleanup q")
    show ?thesis using cleanup_spec[OF i run] eq
      by (simp add: s mq_call_step_def CallCleanup run mq_ledger_def)
  qed
qed

definition mq_run :: "'d mq_call list \<Rightarrow> 'd message_queue \<Rightarrow> 'd message_queue \<times> 'd list \<times> 'd list" where
  "mq_run cs q = fold mq_call_step cs (q, [], [])"

lemma mq_run_ledger: "mq_ledger b s \<Longrightarrow> mq_ledger b (fold mq_call_step cs s)"
proof (induction cs arbitrary: s)
  case (Cons c cs)
  show ?case using Cons.IH[OF mq_call_ledger[OF Cons.prems]] by simp
qed simp

text \<open>
  C7: nothing is lost and nothing is duplicated. After any sequence of adds, put-backs, gets and purges on a
  fresh queue, its invariant holds and every item it accepted is exactly one of: still waiting, handed
  out, or released through \<open>free_item\<close> (shed by a full queue or purged).
\<close>

theorem queue_accounts:
  assumes "message_queue_init_with_config c zero_queue h = (ESP_OK, q, h')"
    and "mq_run cs q = (q', accepted, taken)"
  shows "mq_inv q' \<and> mset accepted = mset (map fst (mq_waiting q')) + mset taken + mset (mq_released q')"
proof -
  have z: "mq_down (zero_queue :: 'a message_queue)" by (simp add: mq_down_def zero_queue_def)
  have "mq_inv q" "mq_waiting q = []" "mq_released q = []"
    using init_spec(1,3)[OF disjI1[OF z] assms(1)] by (auto simp: zero_queue_def)
  then have "mq_ledger [] (q, [], [])" by (simp add: mq_ledger_def)
  then have "mq_ledger [] (mq_run cs q)" unfolding mq_run_def by (rule mq_run_ledger)
  then show ?thesis by (simp add: assms(2) mq_ledger_def)
qed

definition small_queue :: "esp_err \<times> nat message_queue \<times> heap" where
  "small_queue = message_queue_init_with_config
     (Some \<lparr>cfg_depth = 2, cfg_full_policy = MESSAGE_QUEUE_FULL_DROP_OLDEST, cfg_caps = 0\<rparr>) zero_queue always_grant"

lemma small_queue_inv: "mq_inv (fst (snd small_queue))" "mq_waiting (fst (snd small_queue)) = []"
proof -
  have z: "mq_down (zero_queue :: nat message_queue)" by (simp add: mq_down_def zero_queue_def)
  have ok: "fst small_queue = ESP_OK" by code_simp
  obtain r q h where s: "small_queue = (r, q, h)" by (cases small_queue)
  have "r = ESP_OK" using ok by (simp add: s)
  then show "mq_inv (fst (snd small_queue))" "mq_waiting (fst (snd small_queue)) = []"
    using init_spec(1)[OF disjI1[OF z] s[unfolded small_queue_def]] by (simp_all add: s)
qed

definition small_run :: "nat message_queue \<times> nat list \<times> nat list" where
  "small_run = mq_run [CallAdd 1 1, CallAdd 2 1, CallAdd 3 1, CallGetNext, CallAddFront 2 1] (fst (snd small_queue))"

theorem queue_accounts_witness:
  "mset [1, 2, 3, 2 :: nat] = mset (map fst (mq_waiting (fst small_run))) + mset [2] + mset (mq_released (fst small_run)) \<and>
   map fst (mq_waiting (fst small_run)) = [2, 3] \<and> mq_released (fst small_run) = [1]"
proof -
  have "fst small_queue = ESP_OK" by code_simp
  then have i: "message_queue_init_with_config
     (Some \<lparr>cfg_depth = 2, cfg_full_policy = MESSAGE_QUEUE_FULL_DROP_OLDEST, cfg_caps = 0\<rparr>) zero_queue always_grant =
     (ESP_OK, fst (snd small_queue), snd (snd small_queue))" by (metis small_queue_def prod.collapse)
  have "snd small_run = ([1, 2, 3, 2], [2])" by code_simp
  then have r: "mq_run [CallAdd 1 1, CallAdd 2 1, CallAdd 3 1, CallGetNext, CallAddFront 2 1] (fst (snd small_queue)) =
      (fst small_run, [1, 2, 3, 2], [2])" by (metis small_run_def prod.collapse)
  have w: "map fst (mq_waiting (fst small_run)) = [2, 3]" "mq_released (fst small_run) = [1]" by code_simp+
  show ?thesis using queue_accounts[OF i r] w by (intro conjI) (blast+)
qed

fun mq_add_all :: "('d \<times> int) list \<Rightarrow> 'd message_queue \<Rightarrow> 'd message_queue" where
  "mq_add_all [] q = q"
| "mq_add_all (m # ms) q = mq_add_all ms (snd (message_queue_add (Some (fst m)) (snd m) q))"

fun mq_get_all :: "nat \<Rightarrow> 'd message_queue \<Rightarrow> ('d \<times> int) list" where
  "mq_get_all 0 q = []"
| "mq_get_all (Suc n) q =
     (case message_queue_get_next q of (r, d, len, q') \<Rightarrow>
        if r = ESP_OK then (the d, len) # mq_get_all n q' else [])"

lemma mq_get_all_pops: "mq_get_all n q = mq.pops n q"
  by (induction n arbitrary: q) (auto simp: mq_pop_item_def split: prod.splits)

lemma mq_add_all_items:
  "mq_inv q \<Longrightarrow> list_all mq_good ms \<Longrightarrow> mq_count q + length ms \<le> mq_depth q \<Longrightarrow>
   mq_inv (mq_add_all ms q) \<and> mq_waiting (mq_add_all ms q) = mq_waiting q @ ms"
proof (induction ms arbitrary: q)
  case (Cons m ms)
  obtain r q' where run: "message_queue_add (Some (fst m)) (snd m) q = (r, q')"
    by (cases "message_queue_add (Some (fst m)) (snd m) q")
  have len: "0 < snd m" using Cons.prems(2) by (simp add: mq_good_def)
  note A = add_spec[OF Cons.prems(1) len run]
  have w: "mq_waiting q' = mq_waiting q @ [m]" using A(3) Cons.prems(3) by (simp add: mq_accepts_def mq_room_def)
  have "mq_count q' = Suc (mq_count q)"
    using mq_waiting_length[OF A(1)] mq_waiting_length[OF Cons.prems(1)] w by simp
  then show ?case using Cons.IH[OF A(1)] Cons.prems A(5) w run by simp
qed simp

text \<open>
  The queue is first in, first out: messages added while there is room come out, by as many
  \<open>message_queue_get_next\<close> calls as the count says, behind those that waited and in the order they went in.
\<close>

theorem queue_is_fifo:
  assumes "mq_inv q" "list_all mq_good ms" "mq_count q + length ms \<le> mq_depth q"
  shows "mq_get_all (mq_count (mq_add_all ms q)) (mq_add_all ms q) = mq_waiting q @ ms"
proof -
  note A = mq_add_all_items[OF assms]
  have "message_queue_get_count (mq_add_all ms q) = mq_count (mq_add_all ms q)"
    using A by (simp add: message_queue_get_count_def mq_inv_def)
  then show ?thesis using mq.pops_items[of "mq_add_all ms q"] A by (simp add: mq_get_all_pops)
qed

theorem queue_is_fifo_witness:
  "mq_get_all (mq_count (mq_add_all [(7, 1), (8, 1)] (fst (snd small_queue))))
     (mq_add_all [(7, 1), (8, 1)] (fst (snd small_queue))) = [] @ [(7, 1), (8, 1)]"
proof -
  have d: "mq_depth (fst (snd small_queue)) = 2" "mq_count (fst (snd small_queue)) = 0" by code_simp+
  show ?thesis
    using queue_is_fifo[OF small_queue_inv(1), of "[(7, 1), (8, 1)]"]
    by (simp only: small_queue_inv(2) d) (simp add: mq_good_def)
qed

text \<open>
  A full queue that drops sheds the oldest message the owner calls droppable, and only that one: every
  message ahead of it is one the owner does not call droppable (for AppRTC an offer or an answer), all
  others keep their order, the shed item is released, and the new message goes last.
\<close>

theorem full_queue_sheds_oldest_droppable:
  assumes "mq_inv q" "mq_count q = mq_depth q" "mq_full_policy q = MESSAGE_QUEUE_FULL_DROP_OLDEST"
    and "mq_droppable q = Some f" "\<exists>m \<in> set (mq_waiting q). f (Some (fst m)) (snd m)"
    and "0 < len" "message_queue_add (Some d) len q = (r, q')"
  shows "\<exists>pre x post. mq_waiting q = pre @ x # post \<and> (\<forall>m \<in> set pre. \<not> f (Some (fst m)) (snd m)) \<and>
    f (Some (fst x)) (snd x) \<and> r = ESP_OK \<and> mq_waiting q' = pre @ post @ [(d, len)] \<and>
    mq_released q' = mq_released q @ [fst x]"
proof -
  let ?ws = "mq_waiting q" and ?P = "\<lambda>i. f (Some (fst (mq_waiting q ! i))) (snd (mq_waiting q ! i))"
  note A = add_spec[OF assms(1,6,7)]
  obtain i where "i < length ?ws" "?P i" using assms(5) by (metis in_set_conv_nth)
  then have "find ?P [0..<length ?ws] \<noteq> None" by (auto simp: find_None_iff)
  then obtain v where v: "find ?P [0..<length ?ws] = Some v" by blast
  then have V: "v < length ?ws" "?P v" "\<And>i. i < v \<Longrightarrow> \<not> ?P i"
    by (auto simp: find_Some_iff)
  have vo: "victim_of (mq_droppable q) ?ws = v" by (simp add: victim_of_def assms(4) v)
  have "?ws = take v ?ws @ ?ws ! v # drop (Suc v) ?ws" using V(1) by (rule id_take_nth_drop)
  moreover have "\<forall>m \<in> set (take v ?ws). \<not> f (Some (fst m)) (snd m)"
  proof
    fix m assume "m \<in> set (take v ?ws)"
    then obtain i where "i < v" "m = ?ws ! i" using V(1) by (auto simp: in_set_conv_nth)
    then show "\<not> f (Some (fst m)) (snd m)" using V(3) by simp
  qed
  moreover have "r = ESP_OK" "mq_waiting q' = take v ?ws @ drop (Suc v) ?ws @ [(d, len)]"
    "mq_released q' = mq_released q @ [fst (?ws ! v)]"
    using A(2,3,4) assms(2,3) by (simp_all add: mq_accepts_def mq_room_def mq_shed_def vo remove_nth_def)
  ultimately show ?thesis using V(2) by blast
qed

text \<open>Even items are droppable.\<close>

definition even_queue :: "nat message_queue" where
  "even_queue = mq_add_all [(1, 1), (2, 1)]
     ((fst (snd small_queue))\<lparr>mq_droppable := Some (\<lambda>d len. even (the d))\<rparr>)"

theorem full_queue_sheds_oldest_droppable_witness:
  "map fst (mq_waiting (snd (message_queue_add (Some 5) 1 even_queue))) = [1, 5] \<and>
   (\<exists>pre x post. mq_waiting even_queue = pre @ x # post \<and> (\<forall>m \<in> set pre. \<not> even (fst m)) \<and> even (fst x) \<and>
     mq_waiting (snd (message_queue_add (Some 5) 1 even_queue)) = pre @ post @ [(5, 1)])"
proof -
  let ?q = "(fst (snd small_queue))\<lparr>mq_droppable := Some (\<lambda>d len. even (the d))\<rparr>"
  have i: "mq_inv ?q" using small_queue_inv(1) by (simp add: mq_inv_def mq_used_def mq_slots_def)
  have d: "mq_depth ?q = 2" "mq_count ?q = 0" by code_simp+
  have e: "mq_inv even_queue" using mq_add_all_items[OF i, of "[(1, 1), (2, 1)]"] d
    by (simp add: even_queue_def mq_good_def)
  have f: "mq_count even_queue = mq_depth even_queue" "mq_full_policy even_queue = MESSAGE_QUEUE_FULL_DROP_OLDEST"
    "mq_waiting even_queue = [(1, 1), (2, 1)]" by code_simp+
  have g: "mq_droppable even_queue = Some (\<lambda>d len. even (the d))"
    by (simp add: even_queue_def message_queue_add_def make_room_def free_item_def Let_def split: option.splits)
  have w: "map fst (mq_waiting (snd (message_queue_add (Some 5) 1 even_queue))) = [1, 5]" by code_simp
  show ?thesis
    using full_queue_sheds_oldest_droppable[OF e f(1,2) g, of 1 5 "fst (message_queue_add (Some 5) 1 even_queue)"
        "snd (message_queue_add (Some 5) 1 even_queue)"] w f(3) by simp blast
qed

text \<open>
  the set-up and the teardown of a queue balance: whatever \<open>init\<close> allocated is freed when it fails part
  way, and \<open>deinit\<close> frees the slots and the lock, releases every item that still waits, and leaves a queue
  that can be set up again.
\<close>

theorem queue_lifecycle:
  assumes "mq_down q" "message_queue_init_with_config c q h = (r, q1, h1)"
    and "mq_run cs q1 = (q2, accepted, taken)" "message_queue_deinit q2 h1 = (r', q3, h3)"
  shows "if r = ESP_OK then mq_down q3 \<and> live h3 = live h \<and>
           mset (mq_released q3) + mset taken = mset (mq_released q) + mset accepted
         else q1 = q \<and> live h1 = live h"
proof (cases "r = ESP_OK")
  case True
  have "mq_inv q1" "mq_waiting q1 = []" "live h1 - mq_blocks q1 = live h - mq_blocks q" "mq_released q1 = mq_released q"
    using init_spec[OF disjI1[OF assms(1)] assms(2)] True assms(1) by (auto simp: mq_down_def)
  note I = this
  have b: "mq_blocks x = 2" if "mq_inv x" for x :: "'a message_queue"
    using that by (auto simp: mq_blocks_def mq_inv_def owned_def)
  have "mq_ledger (mq_released q) (q1, [], [])" using I by (simp add: mq_ledger_def)
  then have L: "mq_ledger (mq_released q) (q2, accepted, taken)"
    using mq_run_ledger[of "mq_released q" "(q1, [], [])" cs] assms(3) by (simp add: mq_run_def)
  then have i2: "mq_inv q2" by (simp add: mq_ledger_def)
  note D = deinit_spec[OF i2 assms(4)]
  have "live h3 = live h" using D(4) b[OF i2] b[OF I(1)] I(3) assms(1) by (simp add: mq_blocks_def mq_down_def)
  moreover have "mset (mq_released q3) + mset taken = mset (mq_released q) + mset accepted"
    using L D(3) by (simp add: mq_ledger_def ac_simps)
  ultimately show ?thesis using True D(2) by simp
next
  case False
  then have "q1 = q" "live h1 - mq_blocks q1 = live h - mq_blocks q"
    using init_spec(2,4)[OF disjI1[OF assms(1)] assms(2)] by auto
  then show ?thesis using False by simp
qed

theorem queue_lifecycle_witness:
  "live (snd (snd (message_queue_deinit (fst small_run) (snd (snd small_queue))))) = 0 \<and>
   mset (mq_released (fst (snd (message_queue_deinit (fst small_run) (snd (snd small_queue)))))) + mset [2] =
   mset [1, 2, 3, 2]"
proof -
  have z: "mq_down (zero_queue :: nat message_queue)" by (simp add: mq_down_def zero_queue_def)
  have "fst small_queue = ESP_OK" by code_simp
  then have i: "message_queue_init_with_config
     (Some \<lparr>cfg_depth = 2, cfg_full_policy = MESSAGE_QUEUE_FULL_DROP_OLDEST, cfg_caps = 0\<rparr>) zero_queue always_grant =
     (ESP_OK, fst (snd small_queue), snd (snd small_queue))" by (metis small_queue_def prod.collapse)
  have "snd small_run = ([1, 2, 3, 2], [2])" by code_simp
  then have r: "mq_run [CallAdd 1 1, CallAdd 2 1, CallAdd 3 1, CallGetNext, CallAddFront 2 1] (fst (snd small_queue)) =
      (fst small_run, [1, 2, 3, 2], [2])" by (metis small_run_def prod.collapse)
  have d: "message_queue_deinit (fst small_run) (snd (snd small_queue)) =
      (fst (message_queue_deinit (fst small_run) (snd (snd small_queue))),
       fst (snd (message_queue_deinit (fst small_run) (snd (snd small_queue)))),
       snd (snd (message_queue_deinit (fst small_run) (snd (snd small_queue)))))" by simp
  show ?thesis using queue_lifecycle[OF z i r d]
    by (simp only: if_True simp_thms) (simp add: zero_queue_def always_grant_def)
qed

end
