(* ===== verification/Send_Order.thy ===== *)
theory Send_Order
  imports Message_Queue_Props
begin

text \<open>
  The order of outgoing AppRTC messages, \<open>components/signaling/apprtc_signaling/src/apprtc_send_order.c\<close>:
  a drain sends the queued messages while a sender decides whether it may send directly. First the two
  functions run alone, then the interleaving of their accesses to the queue and the in-flight flag.
\<close>

section \<open>The functions\<close>

datatype apprtc_send_decision = APPRTC_SEND_DIRECT | APPRTC_SEND_QUEUE

datatype apprtc_drain_result = APPRTC_DRAIN_SENT | APPRTC_DRAIN_NOT_CONNECTED | APPRTC_DRAIN_FAILED

definition apprtc_send_order_decide :: "bool \<Rightarrow> 'd message_queue \<Rightarrow> apprtc_send_decision" where
  "apprtc_send_order_decide in_flight q =
     (if message_queue_get_count q > 0 then APPRTC_SEND_QUEUE
      else if in_flight then APPRTC_SEND_QUEUE
      else APPRTC_SEND_DIRECT)"

type_synonym ('d, 'e) drain_send = "'d option \<Rightarrow> int \<Rightarrow> 'e \<Rightarrow> apprtc_drain_result \<times> 'e"
type_synonym 'd must_deliver = "('d option \<Rightarrow> int \<Rightarrow> bool) option"

definition delivers :: "'d must_deliver \<Rightarrow> 'd option \<Rightarrow> int \<Rightarrow> bool" where
  "delivers must d len = (case must of None \<Rightarrow> False | Some f \<Rightarrow> f d len)"

text \<open>
  The drain's state: the queue, the in-flight flag, the callback's state, the number sent, whether the
  message at the front was put back once, and the result so far.
\<close>

record ('d, 'e) drain_order =
  do_queue :: "'d message_queue"
  do_flight :: bool
  do_send :: 'e
  do_sent :: nat
  do_retried :: bool
  do_ret :: esp_err

lemma get_next_count:
  "\<not> message_queue_is_empty q \<Longrightarrow> message_queue_get_next q = (r, d, len, q1) \<Longrightarrow>
   r = ESP_OK \<and> Suc (mq_count q1) = mq_count q"
  by (auto simp: message_queue_is_empty_def message_queue_get_next_def take_head_def split: if_splits)

lemma add_front_count:
  "message_queue_add_front d len q = (r, q1) \<Longrightarrow> mq_count q1 \<le> Suc (mq_count q)"
  by (auto simp: message_queue_add_front_def make_room_def Let_def split: if_splits)

text \<open>One pass of the loop on a queue that is not empty: the state, and whether the loop goes on.\<close>

definition drain_pass :: "('d, 'e) drain_send \<Rightarrow> 'd must_deliver \<Rightarrow> ('d, 'e) drain_order \<Rightarrow>
    bool \<times> ('d, 'e) drain_order" where
  "drain_pass send must s =
     (case message_queue_get_next (do_queue s) of (r, data, len, q1) \<Rightarrow>
        if r \<noteq> ESP_OK then (False, s\<lparr>do_queue := q1, do_flight := False, do_ret := ESP_FAIL\<rparr>)
        else (case send data len (do_send s) of (result, e) \<Rightarrow>
          let s1 = s\<lparr>do_queue := q1, do_send := e, do_flight := True\<rparr>
          in if result = APPRTC_DRAIN_NOT_CONNECTED then
               (case message_queue_add_front data len q1 of (r2, q2) \<Rightarrow>
                  (False, s1\<lparr>do_queue := if r2 \<noteq> ESP_OK then free_item data q2 else q2,
                             do_flight := False, do_ret := ESP_ERR_INVALID_STATE\<rparr>))
             else let tryit = result = APPRTC_DRAIN_FAILED \<and> \<not> do_retried s \<and> delivers must data len;
                      (r2, q2) = (if tryit then message_queue_add_front data len q1 else (ESP_FAIL, q1))
                  in if tryit \<and> r2 = ESP_OK
                     then (True, s1\<lparr>do_queue := q2, do_retried := True, do_flight := False\<rparr>)
                     else (True, (s1\<lparr>do_queue := free_item data q2, do_flight := False, do_retried := False\<rparr>)
                             \<lparr>do_ret := (if result = APPRTC_DRAIN_FAILED then ESP_FAIL else do_ret s),
                              do_sent := (if result = APPRTC_DRAIN_FAILED then do_sent s else Suc (do_sent s))\<rparr>)))"

definition drain_measure :: "('d, 'e) drain_order \<Rightarrow> nat" where
  "drain_measure s = 2 * mq_count (do_queue s) + (if do_retried s then 0 else 1)"

lemma drain_pass_decreases:
  assumes "\<not> message_queue_is_empty (do_queue s)" "drain_pass send must s = (True, s')"
  shows "drain_measure s' < drain_measure s"
proof -
  obtain r data len q1 where g: "message_queue_get_next (do_queue s) = (r, data, len, q1)"
    by (metis prod_cases4)
  note G = get_next_count[OF assms(1) g]
  obtain result e where c: "send data len (do_send s) = (result, e)" by (cases "send data len (do_send s)")
  obtain r2 q2 where f: "message_queue_add_front data len q1 = (r2, q2)" by (cases "message_queue_add_front data len q1")
  note F = add_front_count[OF f]
  have nr: "result \<noteq> APPRTC_DRAIN_NOT_CONNECTED" using assms(2) by (auto simp: drain_pass_def g G c f Let_def)
  show ?thesis
  proof (cases "result = APPRTC_DRAIN_FAILED \<and> \<not> do_retried s \<and> delivers must data len")
    case True
    show ?thesis
    proof (cases "r2 = ESP_OK")
      case True
      then have "do_queue s' = q2 \<and> do_retried s'" using assms(2) \<open>result = _ \<and> _\<close>
        by (auto simp: drain_pass_def g G c f Let_def)
      then show ?thesis using G F \<open>result = _ \<and> _\<close> by (simp add: drain_measure_def)
    next
      case False
      have "q2 = q1" using f False by (auto simp: message_queue_add_front_def make_room_def Let_def split: if_splits prod.splits)
      then have "do_queue s' = free_item data q1 \<and> \<not> do_retried s'" using assms(2) \<open>result = _ \<and> _\<close> False
        by (auto simp: drain_pass_def g G c f Let_def)
      then show ?thesis using G by (simp add: drain_measure_def)
    qed
  next
    case False
    then have "do_queue s' = free_item data q1 \<and> \<not> do_retried s'" using assms(2) nr
      by (auto simp: drain_pass_def g G c Let_def)
    then show ?thesis using G by (simp add: drain_measure_def)
  qed
qed

function drain_loop :: "('d, 'e) drain_send \<Rightarrow> 'd must_deliver \<Rightarrow> ('d, 'e) drain_order \<Rightarrow> ('d, 'e) drain_order" where
  "drain_loop send must s =
     (if message_queue_is_empty (do_queue s) then s
      else (case drain_pass send must s of (continue, s') \<Rightarrow> if continue then drain_loop send must s' else s'))"
  by pat_completeness auto
termination
  by (relation "measure (\<lambda>(f, m, s). drain_measure s)") (auto simp: drain_pass_decreases)

declare drain_loop.simps [simp del]

text \<open>The result, \<open>*processed\<close>, the flag, the queue and the callback's state.\<close>

definition apprtc_send_order_drain :: "bool \<Rightarrow> 'd message_queue \<Rightarrow> ('d, 'e) drain_send \<Rightarrow> 'd must_deliver \<Rightarrow> 'e \<Rightarrow>
    esp_err \<times> nat \<times> bool \<times> 'd message_queue \<times> 'e" where
  "apprtc_send_order_drain in_flight q send must ctx =
     (let s = drain_loop send must \<lparr>do_queue = q, do_flight = in_flight, do_send = ctx, do_sent = 0,
                                    do_retried = False, do_ret = ESP_OK\<rparr>
      in (do_ret s, do_sent s, do_flight s, do_queue s, do_send s))"

section \<open>The drain on the list of waiting messages\<close>

text \<open>Result, number sent, what still waits, what was freed, the callback's state.\<close>

function drain_list :: "('d, 'e) drain_send \<Rightarrow> 'd must_deliver \<Rightarrow> ('d \<times> int) list \<Rightarrow> 'e \<Rightarrow> nat \<Rightarrow> bool \<Rightarrow> esp_err \<Rightarrow>
    esp_err \<times> nat \<times> ('d \<times> int) list \<times> 'd list \<times> 'e" where
  "drain_list send must [] e sent retried ret = (ret, sent, [], [], e)"
| "drain_list send must (m # ms) e sent retried ret =
     (case send (Some (fst m)) (snd m) e of (result, e') \<Rightarrow>
        if result = APPRTC_DRAIN_NOT_CONNECTED then (ESP_ERR_INVALID_STATE, sent, m # ms, [], e')
        else if result = APPRTC_DRAIN_FAILED \<and> \<not> retried \<and> delivers must (Some (fst m)) (snd m)
        then drain_list send must (m # ms) e' sent True ret
        else (case drain_list send must ms e' (if result = APPRTC_DRAIN_FAILED then sent else Suc sent) False
                     (if result = APPRTC_DRAIN_FAILED then ESP_FAIL else ret) of
                (r, n, left, freed, e'') \<Rightarrow> (r, n, left, fst m # freed, e'')))"
  by pat_completeness auto
termination
  by (relation "measure (\<lambda>(f, mu, ms, e, n, retried, r). 2 * length ms + (if retried then 0 else 1))") auto

declare drain_list.simps(2) [simp del]

lemma drain_pass_list:
  assumes "mq_inv (do_queue s)" "mq_waiting (do_queue s) = m # ms"
    and "send (Some (fst m)) (snd m) (do_send s) = (result, e)"
    and "drain_pass send must s = (continue, s')"
  shows "mq_inv (do_queue s')" "do_send s' = e" "\<not> do_flight s'"
    "result = APPRTC_DRAIN_NOT_CONNECTED \<Longrightarrow> \<not> continue \<and> mq_waiting (do_queue s') = m # ms \<and>
       do_ret s' = ESP_ERR_INVALID_STATE \<and> do_sent s' = do_sent s \<and>
       mq_released (do_queue s') = mq_released (do_queue s)"
    "result = APPRTC_DRAIN_FAILED \<Longrightarrow> \<not> do_retried s \<Longrightarrow> delivers must (Some (fst m)) (snd m) \<Longrightarrow>
       continue \<and> mq_waiting (do_queue s') = m # ms \<and> do_ret s' = do_ret s \<and> do_sent s' = do_sent s \<and>
       do_retried s' \<and> mq_released (do_queue s') = mq_released (do_queue s)"
    "result \<noteq> APPRTC_DRAIN_NOT_CONNECTED \<Longrightarrow>
       \<not> (result = APPRTC_DRAIN_FAILED \<and> \<not> do_retried s \<and> delivers must (Some (fst m)) (snd m)) \<Longrightarrow>
       continue \<and> mq_waiting (do_queue s') = ms \<and> \<not> do_retried s' \<and>
       do_ret s' = (if result = APPRTC_DRAIN_FAILED then ESP_FAIL else do_ret s) \<and>
       do_sent s' = (if result = APPRTC_DRAIN_FAILED then do_sent s else Suc (do_sent s)) \<and>
       mq_released (do_queue s') = mq_released (do_queue s) @ [fst m]"
proof -
  obtain r d len q1 where g: "message_queue_get_next (do_queue s) = (r, d, len, q1)" by (metis prod_cases4)
  have G: "r = ESP_OK" "mq_inv q1" "m = (the d, len)" "mq_waiting q1 = ms" "mq_released q1 = mq_released (do_queue s)"
    using mq_get_next_cases[OF assms(1) g] assms(2) by auto
  have p: "mq_pop_item (do_queue s) = Some (m, q1)" using g G by (simp add: mq_pop_item_def)
  have room: "mq_has_room q1" using mq_pop_Some[OF assms(1) p] by simp
  have "0 < mq_count (do_queue s)"
    using mq_waiting_length[OF assms(1)] assms(2) by (metis length_greater_0_conv list.distinct(1))
  moreover have rdy: "mq_ready (do_queue s)" using assms(1) by (simp add: mq_inv_def)
  ultimately have th: "take_head (do_queue s) = (d, len, q1)"
    using g by (auto simp: message_queue_get_next_def split: prod.splits)
  have d: "d = Some (fst m)" "0 < len" "len = snd m"
    using take_head_spec(2,3)[OF assms(1) \<open>0 < mq_count _\<close> th] G(3) by auto
  obtain r2 q2 where f: "message_queue_add_front d len q1 = (r2, q2)" by (cases "message_queue_add_front d len q1")
  have F: "r2 = ESP_OK" "mq_inv q2" "mq_waiting q2 = m # ms" "mq_released q2 = mq_released q1"
    using add_front_spec[OF G(2) d(2) f[unfolded d(1)]] room G(3,4)
    by (auto simp: mq_accepts_def mq_has_room_def mq_room_def mq_shed_def)
  have free: "mq_inv (free_item d q1)" "mq_waiting (free_item d q1) = ms"
    "mq_released (free_item d q1) = mq_released q1 @ [fst m]"
    using G(2,4) by (auto simp: d free_item_def mq_inv_def mq_waiting_def mq_used_def mq_slots_def)
  have c: "send d len (do_send s) = (result, e)" using assms(3) d by simp
  have run: "(continue, s') = (if result = APPRTC_DRAIN_NOT_CONNECTED
      then (False, s\<lparr>do_queue := q2, do_send := e, do_flight := False, do_ret := ESP_ERR_INVALID_STATE\<rparr>)
      else if result = APPRTC_DRAIN_FAILED \<and> \<not> do_retried s \<and> delivers must d len
      then (True, s\<lparr>do_queue := q2, do_send := e, do_flight := False, do_retried := True\<rparr>)
      else (True, s\<lparr>do_queue := free_item d q1, do_send := e, do_flight := False, do_retried := False,
              do_ret := (if result = APPRTC_DRAIN_FAILED then ESP_FAIL else do_ret s),
              do_sent := (if result = APPRTC_DRAIN_FAILED then do_sent s else Suc (do_sent s))\<rparr>))"
    unfolding assms(4)[symmetric] by (simp add: drain_pass_def g G(1) c f F(1) Let_def)
  have dl: "delivers must d len = delivers must (Some (fst m)) (snd m)" by (simp add: d)
  show "mq_inv (do_queue s')" "do_send s' = e" "\<not> do_flight s'"
    using run F(2) free(1) by (simp_all split: if_splits)
  show "result = APPRTC_DRAIN_NOT_CONNECTED \<Longrightarrow> \<not> continue \<and> mq_waiting (do_queue s') = m # ms \<and>
       do_ret s' = ESP_ERR_INVALID_STATE \<and> do_sent s' = do_sent s \<and>
       mq_released (do_queue s') = mq_released (do_queue s)"
    using run F(3,4) G(5) by simp
  show "result = APPRTC_DRAIN_FAILED \<Longrightarrow> \<not> do_retried s \<Longrightarrow> delivers must (Some (fst m)) (snd m) \<Longrightarrow>
       continue \<and> mq_waiting (do_queue s') = m # ms \<and> do_ret s' = do_ret s \<and> do_sent s' = do_sent s \<and>
       do_retried s' \<and> mq_released (do_queue s') = mq_released (do_queue s)"
    using run F(3,4) G(5) by (simp add: dl)
  assume "result \<noteq> APPRTC_DRAIN_NOT_CONNECTED"
    "\<not> (result = APPRTC_DRAIN_FAILED \<and> \<not> do_retried s \<and> delivers must (Some (fst m)) (snd m))"
  then have "(continue, s') = (True, s\<lparr>do_queue := free_item d q1, do_send := e, do_flight := False, do_retried := False,
              do_ret := (if result = APPRTC_DRAIN_FAILED then ESP_FAIL else do_ret s),
              do_sent := (if result = APPRTC_DRAIN_FAILED then do_sent s else Suc (do_sent s))\<rparr>)"
    unfolding run dl by (simp only: if_False)
  then show "continue \<and> mq_waiting (do_queue s') = ms \<and> \<not> do_retried s' \<and>
       do_ret s' = (if result = APPRTC_DRAIN_FAILED then ESP_FAIL else do_ret s) \<and>
       do_sent s' = (if result = APPRTC_DRAIN_FAILED then do_sent s else Suc (do_sent s)) \<and>
       mq_released (do_queue s') = mq_released (do_queue s) @ [fst m]"
    using free(2,3) G(5) by simp
qed

lemma empty_iff: "mq_inv q \<Longrightarrow> message_queue_is_empty q \<longleftrightarrow> mq_waiting q = []"
  using mq_waiting_length[of q] by (auto simp: message_queue_is_empty_def mq_inv_def)

lemma drain_loop_list:
  assumes "mq_inv (do_queue s)" "mq_waiting (do_queue s) = ms"
    and "drain_list send must ms (do_send s) (do_sent s) (do_retried s) (do_ret s) = (r, n, left, freed, e)"
    and "s' = drain_loop send must s"
  shows "do_ret s' = r \<and> do_sent s' = n \<and> mq_inv (do_queue s') \<and> mq_waiting (do_queue s') = left \<and>
    mq_released (do_queue s') = mq_released (do_queue s) @ freed \<and> do_send s' = e \<and>
    (ms \<noteq> [] \<longrightarrow> \<not> do_flight s') \<and> (ms = [] \<longrightarrow> do_flight s' = do_flight s)"
  using assms
proof (induction "drain_measure s" arbitrary: s ms freed r n left e rule: less_induct)
  case less
  show ?case
  proof (cases ms)
    case Nil
    then show ?thesis using less.prems empty_iff[OF less.prems(1)] by (simp add: drain_loop.simps[of _ _ s])
  next
    case (Cons m ms')
    have w: "mq_waiting (do_queue s) = m # ms'" using less.prems(2) Cons by simp
    have ne: "\<not> message_queue_is_empty (do_queue s)" using empty_iff[OF less.prems(1)] w by simp
    obtain result e1 where c: "send (Some (fst m)) (snd m) (do_send s) = (result, e1)"
      by (cases "send (Some (fst m)) (snd m) (do_send s)")
    obtain k s1 where p: "drain_pass send must s = (k, s1)" by (cases "drain_pass send must s")
    note P = drain_pass_list[OF less.prems(1) w c p]
    have L: "s' = (if k then drain_loop send must s1 else s1)"
      using less.prems(4) ne p by (simp add: drain_loop.simps[of _ _ s])
    have D: "drain_measure s1 < drain_measure s" if k
      by (rule drain_pass_decreases[OF ne]) (use p that in simp)
    note run = less.prems(3)[unfolded Cons drain_list.simps(2)[of send must m ms' "do_send s"] c prod.case]
    consider (nc) "result = APPRTC_DRAIN_NOT_CONNECTED"
      | (again) "result = APPRTC_DRAIN_FAILED" "\<not> do_retried s" "delivers must (Some (fst m)) (snd m)"
      | (fin) "result \<noteq> APPRTC_DRAIN_NOT_CONNECTED"
          "\<not> (result = APPRTC_DRAIN_FAILED \<and> \<not> do_retried s \<and> delivers must (Some (fst m)) (snd m))"
      by blast
    then show ?thesis
    proof cases
      case nc
      then show ?thesis using P(1,2,3) P(4)[OF nc] run L Cons by auto
    next
      case again
      note Q = P(5)[OF again]
      have r1: "drain_list send must (m # ms') (do_send s1) (do_sent s1) (do_retried s1) (do_ret s1) = (r, n, left, freed, e)"
        using run again Q P(2) by simp
      have "s' = drain_loop send must s1" using L Q by simp
      then show ?thesis using less.hyps[OF D P(1) _ r1] Q Cons by simp
    next
      case fin
      note Q = P(6)[OF fin]
      obtain fr where r1: "drain_list send must ms' (do_send s1) (do_sent s1) (do_retried s1) (do_ret s1) = (r, n, left, fr, e)"
        "freed = fst m # fr"
        using run fin Q P(2) by (auto split: prod.splits)
      have "s' = drain_loop send must s1" using L Q by simp
      then show ?thesis using less.hyps[OF D P(1) _ r1(1)] Q P(3) Cons r1(2) by (cases "ms' = []") simp_all
    qed
  qed
qed

section \<open>The log of a drain\<close>

text \<open>A send callback that also logs the message and the result of every call.\<close>

definition logged :: "('d, 'e) drain_send \<Rightarrow> ('d, (('d \<times> int) \<times> apprtc_drain_result) list \<times> 'e) drain_send" where
  "logged f d len s = (case f d len (snd s) of (r, e) \<Rightarrow> (r, (fst s @ [((the d, len), r)], e)))"

text \<open>The results a message that left the queue may have had: sent, or failed for good.\<close>

definition tries :: "'d must_deliver \<Rightarrow> 'd \<times> int \<Rightarrow> apprtc_drain_result list \<Rightarrow> bool" where
  "tries must m rs \<longleftrightarrow> rs = [APPRTC_DRAIN_SENT] \<or>
     (if delivers must (Some (fst m)) (snd m)
      then rs = [APPRTC_DRAIN_FAILED, APPRTC_DRAIN_SENT] \<or> rs = [APPRTC_DRAIN_FAILED, APPRTC_DRAIN_FAILED]
      else rs = [APPRTC_DRAIN_FAILED])"

definition log_of :: "('d \<times> int) list \<Rightarrow> apprtc_drain_result list list \<Rightarrow> (('d \<times> int) \<times> apprtc_drain_result) list" where
  "log_of ms rss = concat (map (\<lambda>(m, rs). map (Pair m) rs) (zip ms rss))"

text \<open>The attempts at the message the drain stopped at, if it stopped.\<close>

definition stopped :: "'d must_deliver \<Rightarrow> ('d \<times> int) list \<Rightarrow> (('d \<times> int) \<times> apprtc_drain_result) list \<Rightarrow> bool" where
  "stopped must left trail \<longleftrightarrow>
     (case left of [] \<Rightarrow> trail = []
      | m # _ \<Rightarrow> trail = [(m, APPRTC_DRAIN_NOT_CONNECTED)] \<or>
          delivers must (Some (fst m)) (snd m) \<and>
          trail = [(m, APPRTC_DRAIN_FAILED), (m, APPRTC_DRAIN_NOT_CONNECTED)])"

definition drain_shape :: "'d must_deliver \<Rightarrow> ('d \<times> int) list \<Rightarrow> (('d \<times> int) \<times> apprtc_drain_result) list \<Rightarrow>
    ('d \<times> int) list \<Rightarrow> 'd list \<Rightarrow> nat \<Rightarrow> bool" where
  "drain_shape must ms log left freed n \<longleftrightarrow>
     (\<exists>gone rss trail. ms = gone @ left \<and> list_all2 (tries must) gone rss \<and> log = log_of gone rss @ trail \<and>
        stopped must left trail \<and> freed = map fst gone \<and>
        n = length (filter (\<lambda>rs. last rs = APPRTC_DRAIN_SENT) rss))"

lemma drain_shape_Cons:
  assumes "drain_shape must ms log left freed n" "tries must m rs"
  shows "drain_shape must (m # ms) (map (Pair m) rs @ log) left (fst m # freed)
    (n + (if last rs = APPRTC_DRAIN_SENT then 1 else 0))"
proof -
  obtain gone rss trail where S: "ms = gone @ left" "list_all2 (tries must) gone rss" "log = log_of gone rss @ trail"
    "stopped must left trail" "freed = map fst gone" "n = length (filter (\<lambda>rs. last rs = APPRTC_DRAIN_SENT) rss)"
    using assms(1) by (auto simp: drain_shape_def)
  show ?thesis unfolding drain_shape_def
    by (rule exI[of _ "m # gone"], rule exI[of _ "rs # rss"], rule exI[of _ trail])
      (use S assms(2) in \<open>simp add: log_of_def\<close>)
qed

lemma drain_list_log:
  "drain_list (logged f) must ms (log0, e) sent False ret = (r, n, left, freed, (log, e')) \<Longrightarrow>
   \<exists>l. log = log0 @ l \<and> drain_shape must ms l left freed (n - sent) \<and> sent \<le> n"
proof (induction ms arbitrary: log0 e sent ret freed)
  case Nil
  then show ?case by (auto simp: drain_shape_def stopped_def log_of_def)
next
  case (Cons m ms)
  obtain r1 e1 where c1: "f (Some (fst m)) (snd m) e = (r1, e1)" by (cases "f (Some (fst m)) (snd m) e")
  obtain r2 e2 where c2: "f (Some (fst m)) (snd m) e1 = (r2, e2)" by (cases "f (Some (fst m)) (snd m) e1")
  have l1: "logged f (Some (fst m)) (snd m) (log0, e) = (r1, (log0 @ [(m, r1)], e1))"
    by (simp add: logged_def c1)
  have l2: "logged f (Some (fst m)) (snd m) (log0 @ [(m, r1)], e1) = (r2, (log0 @ [(m, r1), (m, r2)], e2))"
    by (simp add: logged_def c2)
  have go: ?case
    if rec: "drain_list (logged f) must ms (log0 @ map (Pair m) rs, x) s' False ret' = (r, n, left, fr, (log, e'))"
      and fr: "freed = fst m # fr" and s': "s' = sent + (if last rs = APPRTC_DRAIN_SENT then 1 else 0)"
      and t: "tries must m rs" for rs x s' ret' fr
  proof -
    obtain l where l: "log = (log0 @ map (Pair m) rs) @ l" "drain_shape must ms l left fr (n - s')" "s' \<le> n"
      using Cons.IH[OF rec] by blast
    have "n - sent = (n - s') + (if last rs = APPRTC_DRAIN_SENT then 1 else 0)" using l(3) s' by auto
    then show ?thesis using drain_shape_Cons[OF l(2) t] l(1,3) fr s' by auto
  qed
  have stop: "drain_shape must (m # ms) trail (m # ms) [] 0" if "stopped must (m # ms) trail" for trail
    unfolding drain_shape_def
    by (rule exI[of _ "[]"], rule exI[of _ "[]"], rule exI[of _ trail]) (use that in \<open>simp add: log_of_def\<close>)
  note run = Cons.prems[unfolded drain_list.simps(2)[of "logged f" must m ms "(log0, e)"] l1 prod.case]
  show ?case
  proof (cases "r1 = APPRTC_DRAIN_FAILED \<and> delivers must (Some (fst m)) (snd m)")
    case True
    have run2: "drain_list (logged f) must (m # ms) (log0 @ [(m, r1)], e1) sent True ret = (r, n, left, freed, (log, e'))"
      using run True by simp
    note run2 = run2[unfolded drain_list.simps(2)[of "logged f" must m ms "(log0 @ [(m, r1)], e1)"] l2 prod.case]
    show ?thesis
    proof (cases "r2 = APPRTC_DRAIN_NOT_CONNECTED")
      case nc: True
      then have "log = log0 @ [(m, r1), (m, r2)]" "left = m # ms" "freed = []" "n = sent" using run2 by auto
      then show ?thesis using stop[of "[(m, r1), (m, r2)]"] True nc by (simp add: stopped_def)
    next
      case False
      then have r2: "r2 = APPRTC_DRAIN_SENT \<or> r2 = APPRTC_DRAIN_FAILED" using apprtc_drain_result.exhaust by blast
      then have t: "tries must m [r1, r2]" using True by (auto simp: tries_def)
      obtain fr where rec: "drain_list (logged f) must ms (log0 @ map (Pair m) [r1, r2], e2)
          (if r2 = APPRTC_DRAIN_FAILED then sent else Suc sent) False
          (if r2 = APPRTC_DRAIN_FAILED then ESP_FAIL else ret) = (r, n, left, fr, (log, e'))" "freed = fst m # fr"
        using run2 False by (auto split: prod.splits)
      show ?thesis by (rule go[OF rec _ t]) (use r2 in auto)
    qed
  next
    case False
    show ?thesis
    proof (cases "r1 = APPRTC_DRAIN_NOT_CONNECTED")
      case nc: True
      then have "log = log0 @ [(m, r1)]" "left = m # ms" "freed = []" "n = sent" using run by auto
      then show ?thesis using stop[of "[(m, r1)]"] nc by (simp add: stopped_def)
    next
      case nnc: False
      then have r1: "r1 = APPRTC_DRAIN_SENT \<or> r1 = APPRTC_DRAIN_FAILED" using apprtc_drain_result.exhaust by blast
      then have t: "tries must m [r1]" using False by (auto simp: tries_def)
      obtain fr where rec: "drain_list (logged f) must ms (log0 @ map (Pair m) [r1], e1)
          (if r1 = APPRTC_DRAIN_FAILED then sent else Suc sent) False
          (if r1 = APPRTC_DRAIN_FAILED then ESP_FAIL else ret) = (r, n, left, fr, (log, e'))" "freed = fst m # fr"
        using run False nnc by (auto split: prod.splits)
      show ?thesis by (rule go[OF rec _ t]) (use r1 in auto)
    qed
  qed
qed

lemma drain_list_left:
  "drain_list f must ms e sent retried ret = (r, n, left, freed, e') \<Longrightarrow> left \<noteq> [] \<Longrightarrow> r = ESP_ERR_INVALID_STATE"
proof (induction f must ms e sent retried ret arbitrary: freed rule: drain_list.induct)
  case (2 send must m ms e sent retried ret)
  obtain result e1 where c: "send (Some (fst m)) (snd m) e = (result, e1)" by (cases "send (Some (fst m)) (snd m) e")
  note run = 2(3)[unfolded drain_list.simps(2)[of send must m ms e] c prod.case]
  show ?case
    using run 2(4) 2(1)[OF c[symmetric] ] 2(2)[OF c[symmetric] ]
    by (auto split: if_splits prod.splits)
qed simp

text \<open>
  A drain that runs alone sends the waiting messages strictly in order: the log of its sends is, for a
  first part of the messages, the attempts at each in turn, where a message goes on after one send or, if
  it must be delivered, after at most one more try, and then at most the attempts at the message at which
  the socket went away. That message and everything behind it still waits, unchanged and in order;
  everything before it has been freed once; the count returned is the number of successful sends, and the
  in-flight flag is down.
\<close>

theorem drain_in_order:
  assumes "mq_inv q"
    and "apprtc_send_order_drain in_flight q (logged f) must ([], e) = (ret, n, in_flight', q', (log, e'))"
  shows "mq_inv q' \<and> (\<exists>freed. drain_shape must (mq_waiting q) log (mq_waiting q') freed n \<and>
      mq_released q' = mq_released q @ freed) \<and>
    (mq_waiting q \<noteq> [] \<longrightarrow> \<not> in_flight') \<and> (mq_waiting q' \<noteq> [] \<longrightarrow> ret = ESP_ERR_INVALID_STATE)"
proof -
  define s where "s = \<lparr>do_queue = q, do_flight = in_flight, do_send = ([] :: (('a \<times> int) \<times> apprtc_drain_result) list, e),
    do_sent = 0, do_retried = False, do_ret = ESP_OK\<rparr>"
  obtain r m left freed log1 e1 where L: "drain_list (logged f) must (mq_waiting q) ([], e) 0 False ESP_OK =
      (r, m, left, freed, (log1, e1))" by (metis prod.exhaust)
  have "do_ret (drain_loop (logged f) must s) = r \<and> do_sent (drain_loop (logged f) must s) = m \<and>
    mq_inv (do_queue (drain_loop (logged f) must s)) \<and> mq_waiting (do_queue (drain_loop (logged f) must s)) = left \<and>
    mq_released (do_queue (drain_loop (logged f) must s)) = mq_released (do_queue s) @ freed \<and>
    do_send (drain_loop (logged f) must s) = (log1, e1) \<and>
    (mq_waiting q \<noteq> [] \<longrightarrow> \<not> do_flight (drain_loop (logged f) must s)) \<and>
    (mq_waiting q = [] \<longrightarrow> do_flight (drain_loop (logged f) must s) = do_flight s)"
    by (rule drain_loop_list[where ms = "mq_waiting q"]) (use assms(1) L in \<open>simp_all add: s_def\<close>)
  then have "ret = r" "n = m" "mq_inv q'" "mq_waiting q' = left" "mq_released q' = mq_released q @ freed"
    "log = log1" "mq_waiting q \<noteq> [] \<longrightarrow> \<not> in_flight'"
    using assms(2) by (auto simp: apprtc_send_order_drain_def Let_def s_def[symmetric]) (simp_all add: s_def)
  moreover have "drain_shape must (mq_waiting q) log1 left freed m" using drain_list_log[OF L] by auto
  moreover have "left \<noteq> [] \<longrightarrow> r = ESP_ERR_INVALID_STATE" using drain_list_left[OF L] by blast
  ultimately show ?thesis by blast
qed

text \<open>A socket that refuses the first send, accepts the second and then goes away.\<close>

definition flaky :: "(nat, nat) drain_send" where
  "flaky d len s = ((if s = 0 then APPRTC_DRAIN_FAILED else if s = 1 then APPRTC_DRAIN_SENT
                     else APPRTC_DRAIN_NOT_CONNECTED), Suc s)"

definition two_waiting :: "nat message_queue" where
  "two_waiting = mq_add_all [(7, 1), (8, 1)] (fst (snd small_queue))"

definition flaky_drain where
  "flaky_drain = apprtc_send_order_drain False two_waiting (logged flaky) (Some (\<lambda>_ _. True)) ([], 0)"

theorem drain_in_order_witness:
  "(\<exists>freed. drain_shape (Some (\<lambda>_ _. True)) [(7 :: nat, 1), (8, 1)]
      [((7, 1), APPRTC_DRAIN_FAILED), ((7, 1), APPRTC_DRAIN_SENT), ((8, 1), APPRTC_DRAIN_NOT_CONNECTED)]
      [(8, 1)] freed 1) \<and> fst flaky_drain = ESP_ERR_INVALID_STATE"
proof -
  have d: "mq_depth (fst (snd small_queue)) = 2" "mq_count (fst (snd small_queue)) = 0" by code_simp+
  have i: "mq_inv two_waiting" and w: "mq_waiting two_waiting = [(7, 1), (8, 1)]"
    using mq_add_all_items[OF small_queue_inv(1), of "[(7, 1), (8, 1)]"] d small_queue_inv(2)
    by (simp_all add: two_waiting_def mq_good_def)
  obtain ret n fl q log e where r: "flaky_drain = (ret, n, fl, q, (log, e))" by (metis prod.exhaust)
  have l: "fst (snd (snd (snd (snd flaky_drain)))) =
      [((7, 1), APPRTC_DRAIN_FAILED), ((7, 1), APPRTC_DRAIN_SENT), ((8, 1), APPRTC_DRAIN_NOT_CONNECTED)]"
    "mq_waiting (fst (snd (snd (snd flaky_drain)))) = [(8, 1)]" "fst (snd flaky_drain) = 1" by code_simp+
  have "log = [((7, 1), APPRTC_DRAIN_FAILED), ((7, 1), APPRTC_DRAIN_SENT), ((8, 1), APPRTC_DRAIN_NOT_CONNECTED)]"
    "mq_waiting q = [(8, 1)]" "n = 1" using l by (simp_all add: r)
  then show ?thesis using drain_in_order[OF i r[unfolded flaky_drain_def]] by (simp add: r w) blast
qed

end
