(* ===== verification/Send_Race.thy ===== *)
theory Send_Race
  imports Send_Order
begin

text \<open>
  The interleaving of one drain and one sender of \<open>apprtc_send_order.c\<close>. A step is one access to the queue
  (made under its lock), one atomic access to the in-flight flag, or one send. The queue is an
  instance of the FIFO interface; the drain and the sender are its clients.
\<close>

section \<open>The system\<close>

text \<open>
  A sender on a connected socket runs \<open>apprtc_send_order_decide\<close>: \<open>S_Count\<close> before it reads the count,
  \<open>S_Flag\<close> before it reads the flag; then it queues or sends. The drain runs the loop of
  \<open>apprtc_send_order_drain\<close>: \<open>D_Clear b\<close> before it clears the flag, and \<open>b\<close> says whether it goes on.
\<close>

datatype 'm sender_pc = S_Idle | S_Count 'm | S_Flag 'm | S_Queue 'm | S_Direct 'm

datatype 'm drain_pc = D_Idle | D_Check | D_Mark | D_Pop | D_Send 'm | D_Clear bool

record ('q, 'm) order_sys =
  sy_queue :: 'q
  sy_flight :: bool
  sy_sender :: "'m sender_pc"
  sy_drain :: "'m drain_pc"
  sy_retried :: bool
  sy_wire :: "'m list"
  sy_submitted :: "'m list"

text \<open>A step that puts a message back at the front is marked.\<close>

inductive order_step ::
  "('m \<Rightarrow> 'q \<Rightarrow> bool \<times> 'q) \<Rightarrow> ('m \<Rightarrow> 'q \<Rightarrow> bool \<times> 'q) \<Rightarrow> ('q \<Rightarrow> ('m \<times> 'q) option) \<Rightarrow> ('q \<Rightarrow> nat) \<Rightarrow>
   ('m \<Rightarrow> bool) \<Rightarrow> ('m \<Rightarrow> bool) \<Rightarrow> ('q, 'm) order_sys \<Rightarrow> bool \<Rightarrow> ('q, 'm) order_sys \<Rightarrow> bool"
  for add push pop cnt good must where
  submit: "sy_sender s = S_Idle \<Longrightarrow> good m \<Longrightarrow> order_step add push pop cnt good must s False
     (s\<lparr>sy_sender := S_Count m, sy_submitted := sy_submitted s @ [m]\<rparr>)"
| submit_offline: "sy_sender s = S_Idle \<Longrightarrow> good m \<Longrightarrow> order_step add push pop cnt good must s False
     (s\<lparr>sy_sender := S_Queue m, sy_submitted := sy_submitted s @ [m]\<rparr>)"
| read_count: "sy_sender s = S_Count m \<Longrightarrow> order_step add push pop cnt good must s False
     (s\<lparr>sy_sender := (if cnt (sy_queue s) > 0 then S_Queue m else S_Flag m)\<rparr>)"
| read_flag: "sy_sender s = S_Flag m \<Longrightarrow> order_step add push pop cnt good must s False
     (s\<lparr>sy_sender := (if sy_flight s then S_Queue m else S_Direct m)\<rparr>)"
| enqueue: "sy_sender s = S_Queue m \<Longrightarrow> add m (sy_queue s) = (ok, q') \<Longrightarrow>
     order_step add push pop cnt good must s False (s\<lparr>sy_sender := S_Idle, sy_queue := q'\<rparr>)"
| send_direct: "sy_sender s = S_Direct m \<Longrightarrow> order_step add push pop cnt good must s False
     (s\<lparr>sy_sender := S_Idle, sy_wire := sy_wire s @ [m]\<rparr>)"
| fail_direct: "sy_sender s = S_Direct m \<Longrightarrow> order_step add push pop cnt good must s False
     (s\<lparr>sy_sender := S_Idle\<rparr>)"
| drain_start: "sy_drain s = D_Idle \<Longrightarrow> order_step add push pop cnt good must s False
     (s\<lparr>sy_drain := D_Check, sy_retried := False\<rparr>)"
| drain_check: "sy_drain s = D_Check \<Longrightarrow> order_step add push pop cnt good must s False
     (s\<lparr>sy_drain := (if cnt (sy_queue s) = 0 then D_Idle else D_Mark)\<rparr>)"
| drain_mark: "sy_drain s = D_Mark \<Longrightarrow> order_step add push pop cnt good must s False
     (s\<lparr>sy_drain := D_Pop, sy_flight := True\<rparr>)"
| drain_pop: "sy_drain s = D_Pop \<Longrightarrow> pop (sy_queue s) = Some (m, q') \<Longrightarrow>
     order_step add push pop cnt good must s False (s\<lparr>sy_drain := D_Send m, sy_queue := q'\<rparr>)"
| drain_none: "sy_drain s = D_Pop \<Longrightarrow> pop (sy_queue s) = None \<Longrightarrow>
     order_step add push pop cnt good must s False (s\<lparr>sy_drain := D_Clear False\<rparr>)"
| drain_sent: "sy_drain s = D_Send m \<Longrightarrow> order_step add push pop cnt good must s False
     (s\<lparr>sy_drain := D_Clear True, sy_retried := False, sy_wire := sy_wire s @ [m]\<rparr>)"
| drain_failed: "sy_drain s = D_Send m \<Longrightarrow> sy_retried s \<or> \<not> must m \<Longrightarrow>
     order_step add push pop cnt good must s False (s\<lparr>sy_drain := D_Clear True, sy_retried := False\<rparr>)"
| drain_retry: "sy_drain s = D_Send m \<Longrightarrow> \<not> sy_retried s \<Longrightarrow> must m \<Longrightarrow> push m (sy_queue s) = (ok, q') \<Longrightarrow>
     order_step add push pop cnt good must s True
       (s\<lparr>sy_drain := D_Clear True, sy_retried := ok, sy_queue := q'\<rparr>)"
| drain_back: "sy_drain s = D_Send m \<Longrightarrow> push m (sy_queue s) = (ok, q') \<Longrightarrow>
     order_step add push pop cnt good must s True (s\<lparr>sy_drain := D_Clear False, sy_queue := q'\<rparr>)"
| drain_clear: "sy_drain s = D_Clear again \<Longrightarrow> order_step add push pop cnt good must s False
     (s\<lparr>sy_drain := (if again then D_Check else D_Idle), sy_flight := False\<rparr>)"

definition order_init :: "'q \<Rightarrow> ('q, 'm) order_sys" where
  "order_init q = \<lparr>sy_queue = q, sy_flight = False, sy_sender = S_Idle, sy_drain = D_Idle, sy_retried = False,
     sy_wire = [], sy_submitted = []\<rparr>"

text \<open>Runs; \<open>pb\<close> says whether messages may be put back.\<close>

inductive order_runs ::
  "('m \<Rightarrow> 'q \<Rightarrow> bool \<times> 'q) \<Rightarrow> ('m \<Rightarrow> 'q \<Rightarrow> bool \<times> 'q) \<Rightarrow> ('q \<Rightarrow> ('m \<times> 'q) option) \<Rightarrow> ('q \<Rightarrow> nat) \<Rightarrow>
   ('m \<Rightarrow> bool) \<Rightarrow> ('m \<Rightarrow> bool) \<Rightarrow> bool \<Rightarrow> ('q, 'm) order_sys \<Rightarrow> ('q, 'm) order_sys \<Rightarrow> bool"
  for add push pop cnt good must where
  run_refl: "order_runs add push pop cnt good must pb s s"
| run_step: "order_runs add push pop cnt good must pb s t \<Longrightarrow>
     order_step add push pop cnt good must t b u \<Longrightarrow> (b \<longrightarrow> pb) \<Longrightarrow>
     order_runs add push pop cnt good must pb s u"

section \<open>Order without put-backs\<close>

definition in_flight_msg :: "('q, 'm) order_sys \<Rightarrow> 'm list" where
  "in_flight_msg s = (case sy_drain s of D_Send m \<Rightarrow> [m] | _ \<Rightarrow> [])"

definition sender_msg :: "('q, 'm) order_sys \<Rightarrow> 'm list" where
  "sender_msg s = (case sy_sender s of S_Idle \<Rightarrow> [] | S_Count m \<Rightarrow> [m] | S_Flag m \<Rightarrow> [m] | S_Queue m \<Rightarrow> [m] | S_Direct m \<Rightarrow> [m])"

definition flag_pc :: "('q, 'm) order_sys \<Rightarrow> bool" where
  "flag_pc s = (case sy_drain s of D_Pop \<Rightarrow> True | D_Send m \<Rightarrow> True | D_Clear b \<Rightarrow> True | _ \<Rightarrow> False)"

context fifo
begin

definition sys_inv :: "('q, 'm) order_sys \<Rightarrow> bool" where
  "sys_inv s \<longleftrightarrow> inv (sy_queue s) \<and> list_all good (sender_msg s) \<and> (sy_flight s \<longleftrightarrow> flag_pc s) \<and>
     subseq (sy_wire s @ in_flight_msg s @ items (sy_queue s) @ sender_msg s) (sy_submitted s) \<and>
     (case sy_sender s of S_Flag m \<Rightarrow> items (sy_queue s) = []
      | S_Direct m \<Rightarrow> items (sy_queue s) = [] \<and> in_flight_msg s = [] | _ \<Rightarrow> True)"

lemma subseq_drop_mid: "subseq (xs @ ys @ zs) ws \<Longrightarrow> subseq ys' ys \<Longrightarrow> subseq (xs @ ys' @ zs) ws"
  by (meson list_emb_append_mono subseq_order.order_refl subseq_order.order_trans)

lemma sys_inv_step:
  assumes "sys_inv s" "order_step add push_front pop count good must s False s'"
  shows "sys_inv s'"
  using assms(2)
proof (cases rule: order_step.cases)
  case (enqueue m ok q')
  have g: "good m" and i: "inv (sy_queue s)" using assms(1) enqueue by (auto simp: sys_inv_def sender_msg_def)
  obtain xs where A: "inv q'" "subseq xs (items (sy_queue s))" "items q' = xs @ (if ok then [m] else [])"
    using add_inv[OF i g enqueue(3)] by blast
  have "subseq (sy_wire s @ in_flight_msg s @ items q') (sy_submitted s)"
  proof -
    have "subseq ((sy_wire s @ in_flight_msg s) @ (items (sy_queue s) @ [m]) @ []) (sy_submitted s)"
      using assms(1) enqueue by (simp add: sys_inv_def sender_msg_def)
    moreover have "subseq (items q') (items (sy_queue s) @ [m])"
      using A(2,3) by (auto intro: list_emb_append_mono subseq_rev_drop_many)
    ultimately have "subseq ((sy_wire s @ in_flight_msg s) @ items q' @ []) (sy_submitted s)"
      by (rule subseq_drop_mid)
    then show ?thesis by simp
  qed
  then show ?thesis using A(1) assms(1) enqueue by (simp add: sys_inv_def sender_msg_def in_flight_msg_def flag_pc_def)
next
  case (drain_pop m q')
  have i: "inv (sy_queue s)" using assms(1) by (simp add: sys_inv_def)
  have "inv q'" "items (sy_queue s) = m # items q'" using pop_Some[OF i drain_pop(3)] by auto
  then show ?thesis using assms(1) drain_pop(1,2)
    by (auto simp: sys_inv_def sender_msg_def in_flight_msg_def flag_pc_def split: sender_pc.splits)
next
  case (drain_failed m)
  have "subseq ((sy_wire s) @ [m] @ items (sy_queue s) @ sender_msg s) (sy_submitted s)"
    using assms(1) drain_failed by (simp add: sys_inv_def in_flight_msg_def)
  then have "subseq ((sy_wire s) @ [] @ items (sy_queue s) @ sender_msg s) (sy_submitted s)"
    by (rule subseq_drop_mid) simp
  then show ?thesis using assms(1) drain_failed(1,2)
    by (auto simp: sys_inv_def sender_msg_def in_flight_msg_def flag_pc_def split: sender_pc.splits)
next
  case (fail_direct m)
  have "subseq ((sy_wire s @ in_flight_msg s @ items (sy_queue s)) @ [m] @ []) (sy_submitted s)"
    using assms(1) fail_direct by (auto simp: sys_inv_def sender_msg_def)
  then have "subseq ((sy_wire s @ in_flight_msg s @ items (sy_queue s)) @ [] @ []) (sy_submitted s)"
    by (rule subseq_drop_mid) simp
  then show ?thesis using assms(1) fail_direct(1,2)
    by (auto simp: sys_inv_def sender_msg_def in_flight_msg_def flag_pc_def)
next
  case (submit m)
  have "subseq ((sy_wire s @ in_flight_msg s @ items (sy_queue s)) @ [m]) (sy_submitted s @ [m])"
    using assms(1) submit by (intro list_emb_append_mono) (simp_all add: sys_inv_def sender_msg_def)
  then show ?thesis using assms(1) submit
    by (auto simp: sys_inv_def sender_msg_def in_flight_msg_def flag_pc_def)
next
  case (submit_offline m)
  have "subseq ((sy_wire s @ in_flight_msg s @ items (sy_queue s)) @ [m]) (sy_submitted s @ [m])"
    using assms(1) submit_offline by (intro list_emb_append_mono) (simp_all add: sys_inv_def sender_msg_def)
  then show ?thesis using assms(1) submit_offline
    by (auto simp: sys_inv_def sender_msg_def in_flight_msg_def flag_pc_def)
next
  case (read_count m)
  then show ?thesis using assms(1) count_items[of "sy_queue s"]
    by (auto simp: sys_inv_def sender_msg_def in_flight_msg_def flag_pc_def)
next
  case (read_flag m)
  then show ?thesis using assms(1)
    by (auto simp: sys_inv_def sender_msg_def in_flight_msg_def flag_pc_def split: drain_pc.splits)
next
  case (send_direct m)
  then show ?thesis using assms(1)
    by (auto simp: sys_inv_def sender_msg_def in_flight_msg_def flag_pc_def)
next
  case drain_start
  then show ?thesis using assms(1)
    by (auto simp: sys_inv_def sender_msg_def in_flight_msg_def flag_pc_def split: sender_pc.splits)
next
  case drain_check
  then show ?thesis using assms(1)
    by (auto simp: sys_inv_def sender_msg_def in_flight_msg_def flag_pc_def split: sender_pc.splits)
next
  case drain_mark
  then show ?thesis using assms(1)
    by (auto simp: sys_inv_def sender_msg_def in_flight_msg_def flag_pc_def split: sender_pc.splits)
next
  case drain_none
  then show ?thesis using assms(1)
    by (auto simp: sys_inv_def sender_msg_def in_flight_msg_def flag_pc_def split: sender_pc.splits)
next
  case (drain_sent m)
  then show ?thesis using assms(1)
    by (auto simp: sys_inv_def sender_msg_def in_flight_msg_def flag_pc_def split: sender_pc.splits)
next
  case (drain_clear again)
  then show ?thesis using assms(1)
    by (auto simp: sys_inv_def sender_msg_def in_flight_msg_def flag_pc_def split: sender_pc.splits)
qed simp_all

lemma sys_inv_runs:
  "order_runs add push_front pop count good must pb s s' \<Longrightarrow> \<not> pb \<Longrightarrow> sys_inv s \<Longrightarrow> sys_inv s'"
proof (induction rule: order_runs.induct)
  case (run_step pb s t b u)
  have "\<not> b" using run_step by blast
  then have "order_step add push_front pop count good must t False u" using run_step(2) by simp
  then show ?case using run_step by (blast intro: sys_inv_step)
qed

lemma wire_in_order:
  assumes "order_runs add push_front pop count good must False (order_init q) s" "inv q" "items q = []"
  shows "subseq (sy_wire s) (sy_submitted s)"
proof -
  have "sys_inv (order_init q)" using assms(2,3)
    by (simp add: sys_inv_def order_init_def in_flight_msg_def sender_msg_def flag_pc_def)
  then have "sys_inv s" using sys_inv_runs[OF assms(1)] by simp
  then have "subseq (sy_wire s @ (in_flight_msg s @ items (sy_queue s) @ sender_msg s) @ []) (sy_submitted s)"
    by (simp add: sys_inv_def)
  then have "subseq (sy_wire s @ [] @ []) (sy_submitted s)" by (rule subseq_drop_mid) simp
  then show ?thesis by simp
qed

text \<open>With a put-back in between, a sender can overtake: it reads an empty queue, then a lowered flag.\<close>

definition sy :: "'q \<Rightarrow> bool \<Rightarrow> 'm sender_pc \<Rightarrow> 'm drain_pc \<Rightarrow> bool \<Rightarrow> 'm list \<Rightarrow> 'm list \<Rightarrow> ('q, 'm) order_sys" where
  "sy q fl sn dr rt wi su = \<lparr>sy_queue = q, sy_flight = fl, sy_sender = sn, sy_drain = dr, sy_retried = rt,
     sy_wire = wi, sy_submitted = su\<rparr>"

lemma overtaking:
  assumes q0: "inv q0" "items q0 = []" "roomy q0" and ab: "good a" "good b" "must a"
  shows "\<exists>s. order_runs add push_front pop count good must True (order_init q0) s \<and>
    sy_wire s = [b, a] \<and> sy_submitted s = [a, b]"
proof -
  let ?R = "order_runs add push_front pop count good must True (order_init q0)"
  have next_step: "?R u" if "?R t" "order_step add push_front pop count good must t k v" "v = u" for t k u v
    using run_step[OF that(1,2)] that(3) by simp
  obtain ok q1 where add1: "add a q0 = (ok, q1)" by (cases "add a q0")
  have q1: "items q1 = [a]" "inv q1" using add_room[OF q0(1) ab(1) q0(3) add1] add_inv[OF q0(1) ab(1) add1] q0(2) by auto
  then obtain q2 where pop1: "pop q1 = Some (a, q2)" using pop_None[OF q1(2)] pop_Some[OF q1(2)] by fastforce
  have q2: "items q2 = []" "inv q2" "roomy q2" using pop_Some[OF q1(2) pop1] q1(1) by auto
  obtain ok3 q3 where push1: "push_front a q2 = (ok3, q3)" by (cases "push_front a q2")
  have q3: "ok3" "items q3 = [a]" "inv q3" using push_front_room[OF q2(2) ab(1) q2(3) push1] q2(1) by auto
  then obtain q4 where pop2: "pop q3 = Some (a, q4)" using pop_None[OF q3(3)] pop_Some[OF q3(3)] by fastforce
  have cnt: "count q1 = 1" "count q2 = 0" "count q3 = 1" using q1 q2 q3 by (simp_all add: count_items)
  have s: "?R (order_init q0)" by (rule run_refl)
  have s: "?R (sy q0 False (S_Queue a) D_Idle False [] [a])"
    by (rule next_step[OF s submit_offline[where m = a]]) (simp_all add: ab order_init_def sy_def)
  have s: "?R (sy q1 False S_Idle D_Idle False [] [a])"
    by (rule next_step[OF s enqueue[where m = a and q' = q1 and ok = ok]]) (simp_all add: add1 sy_def)
  have s: "?R (sy q1 False S_Idle D_Check False [] [a])"
    by (rule next_step[OF s drain_start]) (simp_all add: sy_def)
  have s: "?R (sy q1 False S_Idle D_Mark False [] [a])"
    by (rule next_step[OF s drain_check]) (simp_all add: sy_def cnt)
  have s: "?R (sy q1 True S_Idle D_Pop False [] [a])"
    by (rule next_step[OF s drain_mark]) (simp_all add: sy_def)
  have s: "?R (sy q2 True S_Idle (D_Send a) False [] [a])"
    by (rule next_step[OF s drain_pop[where m = a and q' = q2]]) (simp_all add: sy_def pop1)
  have s: "?R (sy q2 True (S_Count b) (D_Send a) False [] [a, b])"
    by (rule next_step[OF s submit[where m = b]]) (simp_all add: sy_def ab)
  have s: "?R (sy q2 True (S_Flag b) (D_Send a) False [] [a, b])"
    by (rule next_step[OF s read_count[where m = b]]) (simp_all add: sy_def cnt)
  have s: "?R (sy q3 True (S_Flag b) (D_Clear True) True [] [a, b])"
    by (rule next_step[OF s drain_retry[where m = a and q' = q3 and ok = ok3]]) (simp_all add: sy_def ab push1 q3(1))
  have s: "?R (sy q3 False (S_Flag b) D_Check True [] [a, b])"
    by (rule next_step[OF s drain_clear[where again = True]]) (simp_all add: sy_def)
  have s: "?R (sy q3 False (S_Direct b) D_Check True [] [a, b])"
    by (rule next_step[OF s read_flag[where m = b]]) (simp_all add: sy_def)
  have s: "?R (sy q3 False S_Idle D_Check True [b] [a, b])"
    by (rule next_step[OF s send_direct[where m = b]]) (simp_all add: sy_def)
  have s: "?R (sy q3 False S_Idle D_Mark True [b] [a, b])"
    by (rule next_step[OF s drain_check]) (simp_all add: sy_def cnt)
  have s: "?R (sy q3 True S_Idle D_Pop True [b] [a, b])"
    by (rule next_step[OF s drain_mark]) (simp_all add: sy_def)
  have s: "?R (sy q4 True S_Idle (D_Send a) True [b] [a, b])"
    by (rule next_step[OF s drain_pop[where m = a and q' = q4]]) (simp_all add: sy_def pop2)
  have s: "?R (sy q4 True S_Idle (D_Clear True) False [b, a] [a, b])"
    by (rule next_step[OF s drain_sent[where m = a]]) (simp_all add: sy_def)
  have w: "sy_wire (sy q4 True S_Idle (D_Clear True) False [b, a] [a, b]) = [b, a]"
    "sy_submitted (sy q4 True S_Idle (D_Clear True) False [b, a] [a, b]) = [a, b]"
    unfolding sy_def by (simp_all only: order_sys.simps)
  show ?thesis using s w by blast
qed

text \<open>
  A run without a put-back: \<open>a\<close> waits while the socket is down and is sent by the drain; \<open>b\<close> comes when
  the queue is empty but \<open>a\<close> is in flight, and is queued behind it; \<open>c\<close> finds the queue empty and the
  flag lowered, and goes out directly.
\<close>

lemma in_flight_is_seen:
  assumes q0: "inv q0" "items q0 = []" "roomy q0" and g: "good a" "good b" "good c"
  shows "\<exists>s. order_runs add push_front pop count good must False (order_init q0) s \<and>
    sy_wire s = [a, b, c] \<and> sy_submitted s = [a, b, c]"
proof -
  let ?R = "order_runs add push_front pop count good must False (order_init q0)"
  have next_step: "?R u" if "?R t" "order_step add push_front pop count good must t False v" "v = u" for t u v
    using run_step[OF that(1,2)] that(3) by simp
  obtain ok q1 where add1: "add a q0 = (ok, q1)" by (cases "add a q0")
  have q1: "items q1 = [a]" "inv q1" using add_room[OF q0(1) g(1) q0(3) add1] add_inv[OF q0(1) g(1) add1] q0(2) by auto
  then obtain q2 where pop1: "pop q1 = Some (a, q2)" using pop_None[OF q1(2)] pop_Some[OF q1(2)] by fastforce
  have q2: "items q2 = []" "inv q2" "roomy q2" using pop_Some[OF q1(2) pop1] q1(1) by auto
  obtain ok3 q3 where add2: "add b q2 = (ok3, q3)" by (cases "add b q2")
  have q3: "items q3 = [b]" "inv q3" using add_room[OF q2(2) g(2) q2(3) add2] add_inv[OF q2(2) g(2) add2] q2(1) by auto
  then obtain q4 where pop2: "pop q3 = Some (b, q4)" using pop_None[OF q3(2)] pop_Some[OF q3(2)] by fastforce
  have q4: "items q4 = []" "inv q4" using pop_Some[OF q3(2) pop2] q3(1) by auto
  have cnt: "count q1 = 1" "count q2 = 0" "count q3 = 1" "count q4 = 0" using q1 q2 q3 q4 by (simp_all add: count_items)
  have s: "?R (order_init q0)" by (rule run_refl)
  have s: "?R (sy q0 False (S_Queue a) D_Idle False [] [a])"
    by (rule next_step[OF s submit_offline[where m = a]]) (simp_all add: g order_init_def sy_def)
  have s: "?R (sy q1 False S_Idle D_Idle False [] [a])"
    by (rule next_step[OF s enqueue[where m = a and q' = q1 and ok = ok]]) (simp_all add: add1 sy_def)
  have s: "?R (sy q1 False S_Idle D_Check False [] [a])"
    by (rule next_step[OF s drain_start]) (simp_all add: sy_def)
  have s: "?R (sy q1 False S_Idle D_Mark False [] [a])"
    by (rule next_step[OF s drain_check]) (simp_all add: sy_def cnt)
  have s: "?R (sy q1 True S_Idle D_Pop False [] [a])"
    by (rule next_step[OF s drain_mark]) (simp_all add: sy_def)
  have s: "?R (sy q2 True S_Idle (D_Send a) False [] [a])"
    by (rule next_step[OF s drain_pop[where m = a and q' = q2]]) (simp_all add: sy_def pop1)
  have s: "?R (sy q2 True (S_Count b) (D_Send a) False [] [a, b])"
    by (rule next_step[OF s submit[where m = b]]) (simp_all add: sy_def g)
  have s: "?R (sy q2 True (S_Flag b) (D_Send a) False [] [a, b])"
    by (rule next_step[OF s read_count[where m = b]]) (simp_all add: sy_def cnt)
  have s: "?R (sy q2 True (S_Queue b) (D_Send a) False [] [a, b])"
    by (rule next_step[OF s read_flag[where m = b]]) (simp_all add: sy_def)
  have s: "?R (sy q3 True S_Idle (D_Send a) False [] [a, b])"
    by (rule next_step[OF s enqueue[where m = b and q' = q3 and ok = ok3]]) (simp_all add: add2 sy_def)
  have s: "?R (sy q3 True S_Idle (D_Clear True) False [a] [a, b])"
    by (rule next_step[OF s drain_sent[where m = a]]) (simp_all add: sy_def)
  have s: "?R (sy q3 False S_Idle D_Check False [a] [a, b])"
    by (rule next_step[OF s drain_clear[where again = True]]) (simp_all add: sy_def)
  have s: "?R (sy q3 False S_Idle D_Mark False [a] [a, b])"
    by (rule next_step[OF s drain_check]) (simp_all add: sy_def cnt)
  have s: "?R (sy q3 True S_Idle D_Pop False [a] [a, b])"
    by (rule next_step[OF s drain_mark]) (simp_all add: sy_def)
  have s: "?R (sy q4 True S_Idle (D_Send b) False [a] [a, b])"
    by (rule next_step[OF s drain_pop[where m = b and q' = q4]]) (simp_all add: sy_def pop2)
  have s: "?R (sy q4 True S_Idle (D_Clear True) False [a, b] [a, b])"
    by (rule next_step[OF s drain_sent[where m = b]]) (simp_all add: sy_def)
  have s: "?R (sy q4 False S_Idle D_Check False [a, b] [a, b])"
    by (rule next_step[OF s drain_clear[where again = True]]) (simp_all add: sy_def)
  have s: "?R (sy q4 False (S_Count c) D_Check False [a, b] [a, b, c])"
    by (rule next_step[OF s submit[where m = c]]) (simp_all add: sy_def g)
  have s: "?R (sy q4 False (S_Flag c) D_Check False [a, b] [a, b, c])"
    by (rule next_step[OF s read_count[where m = c]]) (simp_all add: sy_def cnt)
  have s: "?R (sy q4 False (S_Direct c) D_Check False [a, b] [a, b, c])"
    by (rule next_step[OF s read_flag[where m = c]]) (simp_all add: sy_def)
  have s: "?R (sy q4 False S_Idle D_Check False [a, b, c] [a, b, c])"
    by (rule next_step[OF s send_direct[where m = c]]) (simp_all add: sy_def)
  have w: "sy_wire (sy q4 False S_Idle D_Check False [a, b, c] [a, b, c]) = [a, b, c]"
    "sy_submitted (sy q4 False S_Idle D_Check False [a, b, c] [a, b, c]) = [a, b, c]"
    unfolding sy_def by (simp_all only: order_sys.simps)
  show ?thesis using s w by blast
qed

end

section \<open>Properties\<close>

text \<open>
  C5: in every interleaving of one sender and one drain over the message queue in which no message is put
  back at the front, messages reach the wire in the order they were submitted: what was sent is a
  subsequence of what was submitted, so no direct send overtakes a queued or an in-flight message. This
  is what reading the count before the flag, and raising the flag before the pop, is for.
\<close>

theorem send_order_kept:
  assumes "mq_inv q" "mq_waiting q = []"
    and "order_runs mq_add_item mq_push_item mq_pop_item message_queue_get_count mq_good must False (order_init q) s"
  shows "subseq (sy_wire s) (sy_submitted s)"
  by (rule mq.wire_in_order[OF assms(3,1,2)])

theorem send_order_kept_witness:
  "\<exists>s. order_runs mq_add_item mq_push_item mq_pop_item message_queue_get_count mq_good (\<lambda>_. True) False
      (order_init (fst (snd small_queue))) s \<and>
    sy_wire s = [(7 :: nat, 1), (8, 1), (9, 1)] \<and> subseq (sy_wire s) (sy_submitted s) \<and> length (sy_submitted s) = 3"
proof -
  have room: "mq_has_room (fst (snd small_queue))"
    using small_queue_inv mq_waiting_length[OF small_queue_inv(1)] by (simp add: mq_has_room_def mq_inv_def)
  obtain s where s: "order_runs mq_add_item mq_push_item mq_pop_item message_queue_get_count mq_good (\<lambda>_. True) False
      (order_init (fst (snd small_queue))) s" "sy_wire s = [(7 :: nat, 1), (8, 1), (9, 1)]" "length (sy_submitted s) = 3"
    using mq.in_flight_is_seen[where must = "\<lambda>_. True" and a = "(7, 1)" and b = "(8, 1)" and c = "(9, 1)",
        OF small_queue_inv room] by (auto simp: mq_good_def)
  then show ?thesis using send_order_kept[OF small_queue_inv s(1)] by (intro exI[of _ s]) simp
qed

text \<open>
  C6: the order can break when the drain puts a message back to try it once more. The retry lowers the
  in-flight flag with the message at the front of the queue again; a sender that read the count while
  that message was off the queue, and reads the flag only now, sends directly and overtakes it. From any
  empty queue with room there is such a run: \<open>a\<close> is submitted before \<open>b\<close>, and \<open>b\<close> is on the wire first.
\<close>

theorem retry_lets_sender_overtake:
  assumes "mq_inv q" "mq_waiting q = []" "mq_good a" "mq_good b" "must a"
  shows "\<exists>s. order_runs mq_add_item mq_push_item mq_pop_item message_queue_get_count mq_good must True (order_init q) s \<and>
    sy_wire s = [b, a] \<and> sy_submitted s = [a, b]"
proof -
  have room: "mq_has_room q" using assms(1,2) mq_waiting_length[OF assms(1)] by (simp add: mq_has_room_def mq_inv_def)
  show ?thesis by (rule mq.overtaking[where must = must, OF assms(1,2) room assms(3-5)])
qed

theorem retry_lets_sender_overtake_witness:
  "\<exists>s. order_runs mq_add_item mq_push_item mq_pop_item message_queue_get_count mq_good (\<lambda>_. True) True
      (order_init (fst (snd small_queue))) s \<and>
    sy_wire s = [(8 :: nat, 1), (7, 1)] \<and> sy_submitted s = [(7, 1), (8, 1)]"
  by (rule retry_lets_sender_overtake[OF small_queue_inv]) (simp_all add: mq_good_def)

end
