(* ===== verification/Bytes_Le.thy ===== *)
theory Bytes_Le
  imports Kvs_Prelude
begin

text \<open>
  Little-endian 32-bit fields, as the packed headers of the chunked transport hold them on the targets
  (all of them little-endian), with the round trip of reading what was written.
\<close>

definition le32_bytes :: "uint32 \<Rightarrow> uint8 list" where
  "le32_bytes w = [ucast w, ucast (drop_bit 8 w), ucast (drop_bit 16 w), ucast (drop_bit 24 w)]"

definition le32_at :: "uint8 list \<Rightarrow> nat \<Rightarrow> uint32" where
  "le32_at bs i =
     ucast (bs ! i) OR push_bit 8 (ucast (bs ! (i + 1))) OR push_bit 16 (ucast (bs ! (i + 2))) OR
     push_bit 24 (ucast (bs ! (i + 3)))"

lemma le32_bytes_length [simp]: "length (le32_bytes w) = 4"
  by (simp add: le32_bytes_def)

lemma le32_join:
  "ucast (ucast w :: uint8) OR push_bit 8 (ucast (ucast (drop_bit 8 w) :: uint8)) OR
   push_bit 16 (ucast (ucast (drop_bit 16 w) :: uint8)) OR push_bit 24 (ucast (ucast (drop_bit 24 w) :: uint8)) = (w :: uint32)"
proof (rule bit_word_eqI)
  fix n assume n: "n < LENGTH(32)"
  then consider "n < 8" | "8 \<le> n" "n < 16" | "16 \<le> n" "n < 24" | "24 \<le> n" "n < 32" by fastforce
  then show "bit (ucast (ucast w :: uint8) OR push_bit 8 (ucast (ucast (drop_bit 8 w) :: uint8)) OR
     push_bit 16 (ucast (ucast (drop_bit 16 w) :: uint8)) OR
     push_bit 24 (ucast (ucast (drop_bit 24 w) :: uint8)) :: uint32) n = bit w n"
    by cases (auto simp: bit_simps)
qed

lemma le32_at_bytes:
  "i = length pre \<Longrightarrow> le32_at (pre @ le32_bytes w @ post) i = w"
  using le32_join[of w] by (simp add: le32_at_def le32_bytes_def nth_append)

text \<open>A 32-bit field read as a C \<open>int\<close>.\<close>

lemma sint_neg:
  assumes "2147483648 \<le> unat (c :: uint32)" shows "sint c < 0"
proof -
  have "2147483648 \<le> int (unat c)" using assms by linarith
  then have "2147483648 \<le> uint c" by (simp only: uint_nat)
  moreover have "uint c < 4294967296" using unsigned_less[of c, where ?'a=int] by simp
  ultimately have "uint c div 2147483648 = 1" by linarith
  then have "bit (uint c) 31" by (simp add: bit_iff_odd)
  then have "bit c 31" by (simp add: bit_uint_iff)
  then show ?thesis using bit_last_iff[of c] by simp
qed
lemma sint_nonneg:
  assumes "unat (c :: uint32) < 2147483648" shows "sint c = int (unat c)"
proof -
  have "int (unat c) < 2147483648" using assms by linarith
  then have "uint c < 2147483648" by (simp only: uint_nat)
  moreover have "- 2147483648 \<le> uint c" using unsigned_greater_eq[of c, where ?'a=int] by linarith
  ultimately have "signed_take_bit 31 (uint c) = uint c" by (intro signed_take_bit_int_eq_self) simp_all
  moreover have "sint c = signed_take_bit 31 (uint c)" by (simp add: sint_uint)
  ultimately show ?thesis by (simp only: uint_nat)
qed

end
