(* ===== verification/Message_Utils.thy ===== *)
theory Message_Utils
  imports Bytes_Le
begin

text \<open>
  The reassembly buffer of \<open>components/esp_webrtc_utils/src/message_utils.c\<close>. The fields of the struct are C
  \<open>int\<close>s: they are kept as integers, and an addition that leaves the range of \<open>int\<close> or a negative length
  given to \<open>memcpy\<close> is undefined behaviour, the value \<open>None\<close>.
\<close>

definition int_ok :: "int \<Rightarrow> bool" where
  "int_ok x \<longleftrightarrow> - (2 ^ 31) \<le> x \<and> x < 2 ^ 31"

record received_msg =
  rm_buf :: "uint8 list"
  rm_capacity :: int
  rm_data_size :: int

text \<open>What fresh heap memory holds is unspecified: \<open>junk\<close>.\<close>

definition esp_webrtc_create_buffer_for_msg :: "uint8 \<Rightarrow> int \<Rightarrow> heap \<Rightarrow> received_msg option \<times> heap" where
  "esp_webrtc_create_buffer_for_msg junk capacity h =
     (case heap_calloc h of (ok, h1) \<Rightarrow>
        if \<not> ok then (None, h1)
        else (case heap_calloc h1 of (got, h2) \<Rightarrow>
          if \<not> got then (None, heap_free h2)
          else (Some \<lparr>rm_buf = replicate (nat capacity) junk, rm_capacity = capacity, rm_data_size = 0\<rparr>, h2)))"

text \<open>\<open>memcpy(buf + at, data, len)\<close> with \<open>len\<close> at most the bytes there are to read.\<close>

definition put_bytes :: "nat \<Rightarrow> uint8 list \<Rightarrow> uint8 list \<Rightarrow> uint8 list" where
  "put_bytes at bs buf = take at buf @ bs @ drop (at + length bs) buf"

definition copy_in :: "received_msg \<Rightarrow> uint8 list \<Rightarrow> int \<Rightarrow> received_msg option" where
  "copy_in m data len =
     (if len < 0 \<or> int (length data) < len \<or> rm_data_size m < 0 \<or>
         int (length (rm_buf m)) < rm_data_size m + len then None
      else Some (m\<lparr>rm_buf := put_bytes (nat (rm_data_size m)) (take (nat len) data) (rm_buf m),
                   rm_data_size := rm_data_size m + len\<rparr>))"

text \<open>
  The result and the buffer, or \<open>None\<close> where the copy would read or write outside its arrays. \<open>data\<close> is the
  memory the pointer may read.
\<close>

definition esp_webrtc_append_msg_to_existing ::
  "received_msg \<Rightarrow> uint8 list \<Rightarrow> int \<Rightarrow> bool \<Rightarrow> (esp_err \<times> received_msg) option" where
  "esp_webrtc_append_msg_to_existing m data len is_fin =
     (if \<not> is_fin then
        (if \<not> int_ok (rm_data_size m + len) then None
         else if rm_data_size m + len > rm_capacity m
         then (if int_ok (rm_capacity m + 1) then Some (ESP_FAIL, m\<lparr>rm_data_size := rm_capacity m + 1\<rparr>) else None)
         else map_option (Pair ESP_ERR_NOT_FINISHED) (copy_in m data len))
      else if rm_data_size m = 0 then
        (if len > rm_capacity m then Some (ESP_FAIL, m)
         else map_option (Pair ESP_OK) (copy_in m data len))
      else if \<not> int_ok (rm_data_size m + len) then None
      else if rm_data_size m + len \<le> rm_capacity m
      then map_option (Pair ESP_OK) (copy_in m data len)
      else Some (ESP_FAIL, m\<lparr>rm_data_size := 0\<rparr>))"

section \<open>What appending does\<close>

definition msg_ok :: "received_msg \<Rightarrow> bool" where
  "msg_ok m \<longleftrightarrow> rm_capacity m < 2 ^ 31 - 1 \<and> 0 \<le> rm_data_size m \<and> rm_data_size m \<le> rm_capacity m \<and>
     int (length (rm_buf m)) = rm_capacity m"

text \<open>The bytes gathered so far.\<close>

definition msg_data :: "received_msg \<Rightarrow> uint8 list" where
  "msg_data m = take (nat (rm_data_size m)) (rm_buf m)"

lemma msg_data_length: "msg_ok m \<Longrightarrow> int (length (msg_data m)) = rm_data_size m"
  by (auto simp: msg_ok_def msg_data_def min_def)

lemma create_buffer_spec:
  assumes "esp_webrtc_create_buffer_for_msg junk cap h = (r, h')"
  shows "r = Some m \<Longrightarrow> 0 \<le> cap \<Longrightarrow> cap < 2 ^ 31 - 1 \<Longrightarrow> msg_ok m \<and> msg_data m = [] \<and> rm_capacity m = cap"
    "live h' = live h + (if r = None then 0 else 2)"
proof -
  obtain g1 h1 where a: "heap_calloc h = (g1, h1)" by (cases "heap_calloc h")
  obtain g2 h2 where b: "heap_calloc h1 = (g2, h2)" by (cases "heap_calloc h1")
  note L = heap_calloc_live[OF a] heap_calloc_live[OF b]
  show "live h' = live h + (if r = None then 0 else 2)"
    using assms a b L by (cases g1; cases g2) (auto simp: esp_webrtc_create_buffer_for_msg_def)
  show "r = Some m \<Longrightarrow> 0 \<le> cap \<Longrightarrow> cap < 2 ^ 31 - 1 \<Longrightarrow> msg_ok m \<and> msg_data m = [] \<and> rm_capacity m = cap"
    using assms a b by (cases g1; cases g2)
      (auto simp: esp_webrtc_create_buffer_for_msg_def msg_ok_def msg_data_def)
qed

lemma copy_in_spec:
  assumes "msg_ok m" "0 \<le> len" "len \<le> int (length data)" "rm_data_size m + len \<le> rm_capacity m"
  obtains m' where "copy_in m data len = Some m'" "msg_ok m'" "msg_data m' = msg_data m @ take (nat len) data"
    "rm_capacity m' = rm_capacity m"
proof -
  let ?n = "nat (rm_data_size m)" and ?bs = "take (nat len) data"
  have l: "length ?bs = nat len" using assms(2,3) by simp
  have n: "?n + nat len \<le> length (rm_buf m)" "nat (rm_data_size m + len) = ?n + nat len"
    using assms by (auto simp: msg_ok_def)
  let ?m = "m\<lparr>rm_buf := put_bytes ?n ?bs (rm_buf m), rm_data_size := rm_data_size m + len\<rparr>"
  have "copy_in m data len = Some ?m" using assms by (auto simp: copy_in_def msg_ok_def)
  moreover have "msg_ok ?m" using assms l n by (auto simp: msg_ok_def put_bytes_def)
  moreover have "msg_data ?m = msg_data m @ ?bs" using l n by (simp add: msg_data_def put_bytes_def)
  moreover have "rm_capacity ?m = rm_capacity m" by simp
  ultimately show ?thesis by (rule that)
qed

lemma append_spec:
  assumes "msg_ok m" "0 \<le> len" "len \<le> int (length data)" "int_ok (rm_data_size m + len)"
  shows "if rm_data_size m + len \<le> rm_capacity m
    then \<exists>m'. esp_webrtc_append_msg_to_existing m data len is_fin =
           Some (if is_fin then ESP_OK else ESP_ERR_NOT_FINISHED, m') \<and> msg_ok m' \<and>
           msg_data m' = msg_data m @ take (nat len) data \<and> rm_capacity m' = rm_capacity m
    else \<exists>m'. esp_webrtc_append_msg_to_existing m data len is_fin = Some (ESP_FAIL, m')"
proof (cases "rm_data_size m + len \<le> rm_capacity m")
  case True
  obtain m' where "copy_in m data len = Some m'" "msg_ok m'" "msg_data m' = msg_data m @ take (nat len) data"
    "rm_capacity m' = rm_capacity m" by (rule copy_in_spec[OF assms(1-3) True])
  then show ?thesis using True assms(1,4) by (auto simp: esp_webrtc_append_msg_to_existing_def)
next
  case False
  then show ?thesis using assms(1,4)
    by (auto simp: esp_webrtc_append_msg_to_existing_def msg_ok_def int_ok_def)
qed

end
