(* ===== verification/Bridge_Cmd.thy ===== *)
theory Bridge_Cmd
  imports Message_Utils
begin

text \<open>
  The command channel between the two chips, \<open>components/webrtc_bridge/src/bridge_cmd.c\<close>: tables of
  handlers by command, requests, responses and events, large ones cut into chunks by the sender and
  put together again by the receiver for the handlers that want the whole.

  A message is the record of its protobuf fields. Packing (protobuf-c), the transport (esp\_hosted) and
  the work queue are parameters, as are the handlers that run on a request; the handlers of responses
  and events are identities, and their calls are recorded. The status of a message is the number of
  an \<open>esp_err_t\<close>. A NULL payload has length zero. Log lines are left out, and the sections under a
  mutex are atomic.
\<close>

section \<open>Messages and state\<close>

definition BRIDGE_CMD_MSG_ID :: uint32 where "BRIDGE_CMD_MSG_ID = 0x1001"
definition BRIDGE_CMD_CHUNK_PAYLOAD_MAX :: nat where "BRIDGE_CMD_CHUNK_PAYLOAD_MAX = 8000"
definition BRIDGE_CMD_MAX_HANDLERS :: nat where "BRIDGE_CMD_MAX_HANDLERS = 16"

datatype bridge_msg_type = MSG_TYPE_CMD | MSG_TYPE_RSP | MSG_TYPE_EVT | MSG_TYPE_UNKNOWN int

record bridge_command =
  bc_cmd_id :: uint32
  bc_msg_type :: bridge_msg_type
  bc_req_id :: uint32
  bc_status :: uint32
  bc_payload :: "uint8 list"
  bc_seq_num :: uint32
  bc_is_final :: bool
  bc_total_size :: uint32

text \<open>The numbers of the results that travel.\<close>

definition STATUS_OK :: uint32 where "STATUS_OK = 0"
definition STATUS_NO_MEM :: uint32 where "STATUS_NO_MEM = 0x101"
definition STATUS_NO_HANDLER :: uint32 where "STATUS_NO_HANDLER = 0x105"

definition BRIDGE_COMMAND_INIT :: bridge_command where
  "BRIDGE_COMMAND_INIT =
     \<lparr>bc_cmd_id = 0, bc_msg_type = MSG_TYPE_CMD, bc_req_id = 0, bc_status = 0, bc_payload = [],
      bc_seq_num = 0, bc_is_final = False, bc_total_size = 0\<rparr>"

datatype bridge_handler_type = BRIDGE_CMD_HANDLER_SYNC | BRIDGE_CMD_HANDLER_STREAMING
datatype bridge_rsp_type = BRIDGE_CMD_RSP_SIMPLE | BRIDGE_CMD_RSP_CHUNKED
datatype bridge_evt_type = BRIDGE_CMD_EVT_SIMPLE | BRIDGE_CMD_EVT_CHUNKED

record ('k, 'h) bridge_entry =
  be_cmd_id :: uint32
  be_type :: 'k
  be_handler :: 'h

record reassembly_slot =
  rs_cmd_id :: uint32
  rs_msg_type :: bridge_msg_type
  rs_req_id :: uint32
  rs_status :: uint32
  rs_msg :: "received_msg option"
  rs_active :: bool

definition zero_reassembly :: reassembly_slot where
  "zero_reassembly =
     \<lparr>rs_cmd_id = 0, rs_msg_type = MSG_TYPE_CMD, rs_req_id = 0, rs_status = 0, rs_msg = None, rs_active = False\<rparr>"

text \<open>What the work queue holds: the command, its data and, of a response or an event, the callback.\<close>

datatype 'h bridge_work =
    Request_work uint32 uint32 "uint8 list option"
  | Response_work uint32 uint32 uint32 "uint8 list option" 'h
  | Event_work uint32 uint32 "uint8 list option" 'h

datatype 'h bridge_call =
    Call_response 'h uint32 uint32 uint32 "uint8 list option"
  | Call_event 'h uint32 uint32 "uint8 list option"
  | Call_chunked_response 'h uint32 uint32 uint32 "uint8 list" uint32 uint32 bool
  | Call_chunked_event 'h uint32 uint32 "uint8 list" uint32 uint32 bool

record ('h, 'b) bridge =
  br_initialized :: bool
  br_mutexes :: bool
  br_handlers :: "(bridge_handler_type, 'h) bridge_entry list"
  br_response_handlers :: "(bridge_rsp_type, 'h) bridge_entry list"
  br_event_handlers :: "(bridge_evt_type, 'h) bridge_entry list"
  br_seq_counter :: uint32
  br_reassembly :: "reassembly_slot list"
  br_heap :: heap
  br_tasks :: "'h bridge_work list"
  br_offered :: nat
  br_sent :: "'b list"
  br_calls :: "'h bridge_call list"

definition bridge_start :: "heap \<Rightarrow> ('h, 'b) bridge" where
  "bridge_start h =
     \<lparr>br_initialized = False, br_mutexes = False, br_handlers = [], br_response_handlers = [],
      br_event_handlers = [], br_seq_counter = 0,
      br_reassembly = replicate BRIDGE_CMD_MAX_HANDLERS zero_reassembly, br_heap = h, br_tasks = [],
      br_offered = 0, br_sent = [], br_calls = []\<rparr>"

text \<open>
  A streaming handler is what it does with its write callback: it writes, looks at the result, and
  ends with a status.
\<close>

datatype bridge_stream = Stream_end uint32 | Stream_write "uint8 list" "esp_err \<Rightarrow> bridge_stream"

text \<open>
  \<open>hosted_send\<close> may depend on what was sent before, \<open>add_task\<close> on how many tasks were offered;
  \<open>fresh_byte\<close> is what fresh memory holds.
\<close>

record ('h, 'b) bridge_ports =
  bp_pack :: "bridge_command \<Rightarrow> 'b"
  bp_unpack :: "'b \<Rightarrow> bridge_command option"
  hosted_send :: "'b list \<Rightarrow> 'b \<Rightarrow> esp_err"
  add_task :: "nat \<Rightarrow> esp_err"
  run_sync :: "'h \<Rightarrow> uint32 \<Rightarrow> uint8 list option \<Rightarrow> uint32 \<times> uint8 list option"
  run_streaming :: "'h \<Rightarrow> uint32 \<Rightarrow> uint8 list option \<Rightarrow> bridge_stream"
  fresh_byte :: uint8

section \<open>Tables\<close>

definition find_entry_by_id :: "uint32 \<Rightarrow> ('k, 'h) bridge_entry list \<Rightarrow> ('k, 'h) bridge_entry option" where
  "find_entry_by_id cmd_id t = find (\<lambda>e. be_cmd_id e = cmd_id) t"

fun update_entry :: "uint32 \<Rightarrow> 'k \<Rightarrow> 'h \<Rightarrow> ('k, 'h) bridge_entry list \<Rightarrow> ('k, 'h) bridge_entry list option" where
  "update_entry cmd_id k h [] = None"
| "update_entry cmd_id k h (e # t) =
     (if be_cmd_id e = cmd_id then Some (e\<lparr>be_type := k, be_handler := h\<rparr> # t)
      else map_option ((#) e) (update_entry cmd_id k h t))"

definition register_entry ::
  "uint32 \<Rightarrow> 'k \<Rightarrow> 'h option \<Rightarrow> ('k, 'h) bridge_entry list \<Rightarrow> bool \<Rightarrow> esp_err \<times> ('k, 'h) bridge_entry list" where
  "register_entry cmd_id k handler t ready =
     (if \<not> ready then (ESP_ERR_INVALID_STATE, t)
      else case handler of
        None \<Rightarrow> (ESP_ERR_INVALID_ARG, t)
      | Some h \<Rightarrow>
          (case update_entry cmd_id k h t of
             Some t' \<Rightarrow> (ESP_OK, t')
           | None \<Rightarrow>
               if BRIDGE_CMD_MAX_HANDLERS \<le> length t then (ESP_ERR_NO_MEM, t)
               else (ESP_OK, t @ [\<lparr>be_cmd_id = cmd_id, be_type = k, be_handler = h\<rparr>])))"

definition bridge_cmd_register_handler :: "uint32 \<Rightarrow> 'h option \<Rightarrow> ('h, 'b) bridge \<Rightarrow> esp_err \<times> ('h, 'b) bridge" where
  "bridge_cmd_register_handler cmd_id handler b =
     (let (ret, t) = register_entry cmd_id BRIDGE_CMD_HANDLER_SYNC handler (br_handlers b) (br_initialized b)
      in (ret, b\<lparr>br_handlers := t\<rparr>))"

definition bridge_cmd_register_with_callback :: "uint32 \<Rightarrow> 'h option \<Rightarrow> ('h, 'b) bridge \<Rightarrow> esp_err \<times> ('h, 'b) bridge" where
  "bridge_cmd_register_with_callback cmd_id handler b =
     (let (ret, t) = register_entry cmd_id BRIDGE_CMD_HANDLER_STREAMING handler (br_handlers b) (br_initialized b)
      in (ret, b\<lparr>br_handlers := t\<rparr>))"

definition bridge_cmd_register_response_handler :: "uint32 \<Rightarrow> 'h option \<Rightarrow> ('h, 'b) bridge \<Rightarrow> esp_err \<times> ('h, 'b) bridge" where
  "bridge_cmd_register_response_handler cmd_id handler b =
     (let (ret, t) = register_entry cmd_id BRIDGE_CMD_RSP_SIMPLE handler (br_response_handlers b) (br_initialized b)
      in (ret, b\<lparr>br_response_handlers := t\<rparr>))"

definition bridge_cmd_register_chunked_response_handler ::
  "uint32 \<Rightarrow> 'h option \<Rightarrow> ('h, 'b) bridge \<Rightarrow> esp_err \<times> ('h, 'b) bridge" where
  "bridge_cmd_register_chunked_response_handler cmd_id handler b =
     (let (ret, t) = register_entry cmd_id BRIDGE_CMD_RSP_CHUNKED handler (br_response_handlers b) (br_initialized b)
      in (ret, b\<lparr>br_response_handlers := t\<rparr>))"

definition bridge_cmd_register_event_handler :: "uint32 \<Rightarrow> 'h option \<Rightarrow> ('h, 'b) bridge \<Rightarrow> esp_err \<times> ('h, 'b) bridge" where
  "bridge_cmd_register_event_handler cmd_id handler b =
     (let (ret, t) = register_entry cmd_id BRIDGE_CMD_EVT_SIMPLE handler (br_event_handlers b) (br_initialized b)
      in (ret, b\<lparr>br_event_handlers := t\<rparr>))"

definition bridge_cmd_register_chunked_event_handler ::
  "uint32 \<Rightarrow> 'h option \<Rightarrow> ('h, 'b) bridge \<Rightarrow> esp_err \<times> ('h, 'b) bridge" where
  "bridge_cmd_register_chunked_event_handler cmd_id handler b =
     (let (ret, t) = register_entry cmd_id BRIDGE_CMD_EVT_CHUNKED handler (br_event_handlers b) (br_initialized b)
      in (ret, b\<lparr>br_event_handlers := t\<rparr>))"

text \<open>Which of the four mutexes were created, and the result of registering the receive callback.\<close>

definition bridge_cmd_init ::
  "bool \<Rightarrow> bool \<Rightarrow> bool \<Rightarrow> bool \<Rightarrow> esp_err \<Rightarrow> ('h, 'b) bridge \<Rightarrow> esp_err \<times> ('h, 'b) bridge" where
  "bridge_cmd_init m1 m2 m3 m4 registered b =
     (if br_initialized b then (ESP_OK, b)
      else if \<not> (m1 \<and> m2 \<and> m3 \<and> m4) then (ESP_ERR_NO_MEM, b\<lparr>br_mutexes := False\<rparr>)
      else if registered \<noteq> ESP_OK then (registered, b\<lparr>br_mutexes := False\<rparr>)
      else (ESP_OK, b\<lparr>br_mutexes := True, br_initialized := True\<rparr>))"

definition bridge_cmd_rearm_rx :: "esp_err \<Rightarrow> ('h, 'b) bridge \<Rightarrow> esp_err" where
  "bridge_cmd_rearm_rx registered b = (if br_mutexes b then registered else ESP_ERR_INVALID_STATE)"

section \<open>Sending\<close>

definition bridge_cmd_send_one :: "('h, 'b) bridge_ports \<Rightarrow> bridge_command \<Rightarrow> ('h, 'b) bridge \<Rightarrow> esp_err \<times> ('h, 'b) bridge" where
  "bridge_cmd_send_one P msg b =
     (case heap_calloc (br_heap b) of (ok, h) \<Rightarrow>
        if \<not> ok then (ESP_ERR_NO_MEM, b\<lparr>br_heap := h\<rparr>)
        else
          let ret = hosted_send P (br_sent b) (bp_pack P msg); b1 = b\<lparr>br_heap := heap_free h\<rparr>
          in (ret, if ret = ESP_OK then b1\<lparr>br_sent := br_sent b @ [bp_pack P msg]\<rparr> else b1))"

text \<open>The loop over the chunks of \<open>data\<close> from \<open>offset\<close> on.\<close>

function send_chunks ::
  "('h, 'b) bridge_ports \<Rightarrow> bridge_command \<Rightarrow> uint8 list \<Rightarrow> nat \<Rightarrow> uint32 \<Rightarrow> ('h, 'b) bridge \<Rightarrow> esp_err \<times> ('h, 'b) bridge" where
  "send_chunks P msg data offset seq_num b =
     (if offset < length data
      then
        let chunk_len = min (length data - offset) BRIDGE_CMD_CHUNK_PAYLOAD_MAX;
            (ret, b1) =
              bridge_cmd_send_one P
                (msg\<lparr>bc_seq_num := seq_num, bc_is_final := (length data \<le> offset + chunk_len),
                     bc_total_size := of_nat (length data), bc_payload := take chunk_len (drop offset data)\<rparr>) b
        in if ret \<noteq> ESP_OK then (ret, b1) else send_chunks P msg data (offset + chunk_len) (seq_num + 1) b1
      else (ESP_OK, b))"
  by pat_completeness auto
termination
  by (relation "measure (\<lambda>(P, msg, data, offset, seq_num, b). length data - offset)")
     (auto simp: BRIDGE_CMD_CHUNK_PAYLOAD_MAX_def)

declare send_chunks.simps [simp del]

definition bridge_cmd_send_typed ::
  "('h, 'b) bridge_ports \<Rightarrow> bridge_msg_type \<Rightarrow> uint32 \<Rightarrow> uint32 \<Rightarrow> uint32 \<Rightarrow> uint8 list \<Rightarrow> ('h, 'b) bridge \<Rightarrow> esp_err \<times> ('h, 'b) bridge" where
  "bridge_cmd_send_typed P msg_type cmd_id req_id status data b =
     (let msg = BRIDGE_COMMAND_INIT\<lparr>bc_cmd_id := cmd_id, bc_msg_type := msg_type, bc_req_id := req_id, bc_status := status\<rparr>
      in if length data \<le> BRIDGE_CMD_CHUNK_PAYLOAD_MAX
         then bridge_cmd_send_one P
                (msg\<lparr>bc_seq_num := 0, bc_is_final := True, bc_total_size := of_nat (length data), bc_payload := data\<rparr>) b
         else send_chunks P msg data 0 0 b)"

definition bridge_cmd_send_response ::
  "('h, 'b) bridge_ports \<Rightarrow> uint32 \<Rightarrow> uint32 \<Rightarrow> uint32 \<Rightarrow> uint8 list \<Rightarrow> ('h, 'b) bridge \<Rightarrow> esp_err \<times> ('h, 'b) bridge" where
  "bridge_cmd_send_response P = bridge_cmd_send_typed P MSG_TYPE_RSP"

definition bridge_cmd_send :: "('h, 'b) bridge_ports \<Rightarrow> uint32 \<Rightarrow> uint8 list \<Rightarrow> ('h, 'b) bridge \<Rightarrow> esp_err \<times> ('h, 'b) bridge" where
  "bridge_cmd_send P cmd_id req_data b =
     (if \<not> br_initialized b then (ESP_ERR_INVALID_STATE, b)
      else
        let n = br_seq_counter b + 1
        in bridge_cmd_send_one P
             (BRIDGE_COMMAND_INIT\<lparr>bc_cmd_id := cmd_id, bc_msg_type := MSG_TYPE_CMD, bc_req_id := n, bc_status := 0,
                bc_seq_num := 0, bc_is_final := True, bc_payload := req_data\<rparr>)
             (b\<lparr>br_seq_counter := n\<rparr>))"

definition bridge_cmd_send_event :: "('h, 'b) bridge_ports \<Rightarrow> uint32 \<Rightarrow> uint8 list \<Rightarrow> ('h, 'b) bridge \<Rightarrow> esp_err \<times> ('h, 'b) bridge" where
  "bridge_cmd_send_event P cmd_id data b =
     (if \<not> br_initialized b then (ESP_ERR_INVALID_STATE, b)
      else bridge_cmd_send_typed P MSG_TYPE_EVT cmd_id 0 STATUS_OK data b)"

section \<open>Reassembly slots\<close>

fun find_slot_loop :: "uint32 \<Rightarrow> bridge_msg_type \<Rightarrow> bool \<Rightarrow> nat \<Rightarrow> nat option \<Rightarrow> reassembly_slot list \<Rightarrow> nat option" where
  "find_slot_loop cmd_id msg_type exact i free_slot [] = (if exact then None else free_slot)"
| "find_slot_loop cmd_id msg_type exact i free_slot (s # ss) =
     (if rs_active s \<and> rs_cmd_id s = cmd_id \<and> rs_msg_type s = msg_type then Some i
      else find_slot_loop cmd_id msg_type exact (Suc i)
             (if \<not> exact \<and> \<not> rs_active s \<and> free_slot = None then Some i else free_slot) ss)"

definition find_reassembly_slot :: "uint32 \<Rightarrow> bridge_msg_type \<Rightarrow> bool \<Rightarrow> ('h, 'b) bridge \<Rightarrow> nat option" where
  "find_reassembly_slot cmd_id msg_type exact b = find_slot_loop cmd_id msg_type exact 0 None (br_reassembly b)"

abbreviation slot_of :: "('h, 'b) bridge \<Rightarrow> nat \<Rightarrow> reassembly_slot" where "slot_of b i \<equiv> br_reassembly b ! i"

definition put_reassembly :: "nat \<Rightarrow> reassembly_slot \<Rightarrow> ('h, 'b) bridge \<Rightarrow> ('h, 'b) bridge" where
  "put_reassembly i s b = b\<lparr>br_reassembly := (br_reassembly b)[i := s]\<rparr>"

definition reset_reassembly_slot :: "nat \<Rightarrow> ('h, 'b) bridge \<Rightarrow> ('h, 'b) bridge" where
  "reset_reassembly_slot i b =
     put_reassembly i zero_reassembly
       (case rs_msg (slot_of b i) of None \<Rightarrow> b | Some m \<Rightarrow> b\<lparr>br_heap := heap_free (heap_free (br_heap b))\<rparr>)"

section \<open>Receiving\<close>

definition cmd_unpack :: "('h, 'b) bridge_ports \<Rightarrow> 'b \<Rightarrow> ('h, 'b) bridge \<Rightarrow> bridge_command option \<times> ('h, 'b) bridge" where
  "cmd_unpack P data b =
     (case heap_calloc (br_heap b) of (ok, h) \<Rightarrow>
        if \<not> ok then (None, b\<lparr>br_heap := h\<rparr>)
        else case bp_unpack P data of
          None \<Rightarrow> (None, b\<lparr>br_heap := heap_free h\<rparr>)
        | Some cmd \<Rightarrow> (Some cmd, b\<lparr>br_heap := h\<rparr>))"

definition free_unpacked :: "('h, 'b) bridge \<Rightarrow> ('h, 'b) bridge" where
  "free_unpacked b = b\<lparr>br_heap := heap_free (br_heap b)\<rparr>"

fun work_data :: "'h bridge_work \<Rightarrow> uint8 list option" where
  "work_data (Request_work c r d) = d"
| "work_data (Response_work c r s d h) = d"
| "work_data (Event_work c s d h) = d"

text \<open>The work item is queued, or it and its data are freed.\<close>

definition queue_work :: "('h, 'b) bridge_ports \<Rightarrow> 'h bridge_work \<Rightarrow> ('h, 'b) bridge \<Rightarrow> ('h, 'b) bridge" where
  "queue_work P w b =
     (if add_task P (br_offered b) = ESP_OK
      then b\<lparr>br_offered := Suc (br_offered b), br_tasks := br_tasks b @ [w]\<rparr>
      else b\<lparr>br_offered := Suc (br_offered b), br_heap := heap_free (heap_free_ptr (br_heap b) (work_data w))\<rparr>)"

text \<open>The copy of a payload for the handler, NULL for an empty one; whether memory ran out.\<close>

definition copy_payload :: "uint8 list \<Rightarrow> heap \<Rightarrow> uint8 list option \<times> bool \<times> heap" where
  "copy_payload p h =
     (if p = [] then (None, False, h)
      else case heap_calloc h of (ok, h1) \<Rightarrow> if ok then (Some p, False, h1) else (None, True, h1))"

definition deliver_single ::
  "('h, 'b) bridge_ports \<Rightarrow> (uint32 \<Rightarrow> uint8 list option \<Rightarrow> 'h bridge_work) \<Rightarrow> bridge_command \<Rightarrow> ('h, 'b) bridge \<Rightarrow> ('h, 'b) bridge" where
  "deliver_single P work cmd b =
     (case copy_payload (bc_payload cmd) (br_heap b) of (d, failed, h1) \<Rightarrow>
        case heap_calloc h1 of (ok, h2) \<Rightarrow>
          if ok
          then queue_work P (work (if failed then STATUS_NO_MEM else bc_status cmd) d) (free_unpacked (b\<lparr>br_heap := h2\<rparr>))
          else free_unpacked (b\<lparr>br_heap := heap_free_ptr h2 d\<rparr>))"

text \<open>The slot for the first chunk; no slot means that the message was freed.\<close>

definition start_reassembly ::
  "('h, 'b) bridge_ports \<Rightarrow> bridge_msg_type \<Rightarrow> uint32 \<Rightarrow> bridge_command \<Rightarrow> ('h, 'b) bridge \<Rightarrow> nat option \<times> ('h, 'b) bridge" where
  "start_reassembly P msg_type req_id cmd b =
     (case find_reassembly_slot (bc_cmd_id cmd) msg_type False b of
        None \<Rightarrow> (None, free_unpacked b)
      | Some i \<Rightarrow>
          let b1 = (if rs_active (slot_of b i) then reset_reassembly_slot i b else b);
              s = \<lparr>rs_cmd_id = bc_cmd_id cmd, rs_msg_type = msg_type, rs_req_id = req_id, rs_status = bc_status cmd,
                   rs_msg = None, rs_active = True\<rparr>
          in case esp_webrtc_create_buffer_for_msg (fresh_byte P) (sint (bc_total_size cmd)) (br_heap b1) of
               (None, h) \<Rightarrow> (None, free_unpacked (reset_reassembly_slot i (put_reassembly i s (b1\<lparr>br_heap := h\<rparr>))))
             | (Some m, h) \<Rightarrow> (Some i, put_reassembly i (s\<lparr>rs_msg := Some m\<rparr>) (b1\<lparr>br_heap := h\<rparr>)))"

text \<open>The slot for a later chunk; only a response compares the request.\<close>

definition continue_reassembly :: "bridge_msg_type \<Rightarrow> bridge_command \<Rightarrow> ('h, 'b) bridge \<Rightarrow> nat option \<times> ('h, 'b) bridge" where
  "continue_reassembly msg_type cmd b =
     (case find_reassembly_slot (bc_cmd_id cmd) msg_type True b of
        None \<Rightarrow> (None, free_unpacked b)
      | Some i \<Rightarrow>
          if msg_type = MSG_TYPE_RSP \<and> rs_req_id (slot_of b i) \<noteq> bc_req_id cmd
          then (None, free_unpacked (reset_reassembly_slot i b))
          else (Some i, b))"

text \<open>The chunk is appended, and the whole is handed on when it is complete.\<close>

definition append_chunk ::
  "('h, 'b) bridge_ports \<Rightarrow> (reassembly_slot \<Rightarrow> uint8 list option \<Rightarrow> 'h bridge_work) \<Rightarrow> bridge_command \<Rightarrow> nat \<Rightarrow> ('h, 'b) bridge \<Rightarrow>
   ('h, 'b) bridge option" where
  "append_chunk P work cmd i b =
     (case rs_msg (slot_of b i) of
        None \<Rightarrow> None
      | Some m \<Rightarrow>
          (case esp_webrtc_append_msg_to_existing m (bc_payload cmd)
                  (sint (of_nat (length (bc_payload cmd)) :: uint32)) (bc_is_final cmd) of
             None \<Rightarrow> None
           | Some (ret, m') \<Rightarrow>
               let b1 = put_reassembly i ((slot_of b i)\<lparr>rs_msg := Some m'\<rparr>) b
               in if ret = ESP_OK
                  then (case heap_calloc (br_heap b1) of (ok, h) \<Rightarrow>
                          if ok
                          then Some (queue_work P (work (slot_of b i) (Some (msg_data m')))
                                 (free_unpacked (put_reassembly i zero_reassembly (b1\<lparr>br_heap := heap_free h\<rparr>))))
                          else Some (free_unpacked (reset_reassembly_slot i (b1\<lparr>br_heap := h\<rparr>))))
                  else if ret = ESP_FAIL then Some (free_unpacked (reset_reassembly_slot i b1))
                  else Some (free_unpacked b1)))"

definition reassemble ::
  "('h, 'b) bridge_ports \<Rightarrow> bridge_msg_type \<Rightarrow> uint32 \<Rightarrow> (reassembly_slot \<Rightarrow> uint8 list option \<Rightarrow> 'h bridge_work) \<Rightarrow> bridge_command \<Rightarrow>
   ('h, 'b) bridge \<Rightarrow> ('h, 'b) bridge option" where
  "reassemble P msg_type req_id work cmd b =
     (case (if bc_seq_num cmd = 0 then start_reassembly P msg_type req_id cmd b else continue_reassembly msg_type cmd b) of
        (None, b1) \<Rightarrow> Some b1
      | (Some i, b1) \<Rightarrow> append_chunk P work cmd i b1)"

definition process_response :: "('h, 'b) bridge_ports \<Rightarrow> bridge_command \<Rightarrow> ('h, 'b) bridge \<Rightarrow> ('h, 'b) bridge option" where
  "process_response P cmd b =
     (case find_entry_by_id (bc_cmd_id cmd) (br_response_handlers b) of
        None \<Rightarrow> Some (free_unpacked b)
      | Some e \<Rightarrow>
          if be_type e = BRIDGE_CMD_RSP_CHUNKED
          then Some (free_unpacked (b\<lparr>br_calls := br_calls b @
                 [Call_chunked_response (be_handler e) (bc_cmd_id cmd) (bc_req_id cmd) (bc_status cmd) (bc_payload cmd)
                    (bc_seq_num cmd) (bc_total_size cmd) (bc_is_final cmd)]\<rparr>))
          else if bc_seq_num cmd = 0 \<and> bc_is_final cmd
          then Some (deliver_single P (\<lambda>st d. Response_work (bc_cmd_id cmd) (bc_req_id cmd) st d (be_handler e)) cmd b)
          else reassemble P MSG_TYPE_RSP (bc_req_id cmd)
                 (\<lambda>s d. Response_work (rs_cmd_id s) (rs_req_id s) (rs_status s) d (be_handler e)) cmd b)"

definition process_event :: "('h, 'b) bridge_ports \<Rightarrow> bridge_command \<Rightarrow> ('h, 'b) bridge \<Rightarrow> ('h, 'b) bridge option" where
  "process_event P cmd b =
     (case find_entry_by_id (bc_cmd_id cmd) (br_event_handlers b) of
        None \<Rightarrow> Some (free_unpacked b)
      | Some e \<Rightarrow>
          if be_type e = BRIDGE_CMD_EVT_CHUNKED
          then Some (free_unpacked (b\<lparr>br_calls := br_calls b @
                 [Call_chunked_event (be_handler e) (bc_cmd_id cmd) (bc_status cmd) (bc_payload cmd)
                    (bc_seq_num cmd) (bc_total_size cmd) (bc_is_final cmd)]\<rparr>))
          else if bc_seq_num cmd = 0 \<and> bc_is_final cmd
          then Some (deliver_single P (\<lambda>st d. Event_work (bc_cmd_id cmd) st d (be_handler e)) cmd b)
          else reassemble P MSG_TYPE_EVT 0
                 (\<lambda>s d. Event_work (rs_cmd_id s) (rs_status s) d (be_handler e)) cmd b)"

definition process_request :: "('h, 'b) bridge_ports \<Rightarrow> bridge_command \<Rightarrow> ('h, 'b) bridge \<Rightarrow> ('h, 'b) bridge" where
  "process_request P cmd b =
     (case heap_calloc (br_heap b) of (ok, h) \<Rightarrow>
        if \<not> ok then free_unpacked (b\<lparr>br_heap := h\<rparr>)
        else case copy_payload (bc_payload cmd) h of (d, failed, h1) \<Rightarrow>
          queue_work P (Request_work (bc_cmd_id cmd) (bc_req_id cmd) d) (free_unpacked (b\<lparr>br_heap := h1\<rparr>)))"

definition bridge_cmd_process_message :: "('h, 'b) bridge_ports \<Rightarrow> 'b \<Rightarrow> ('h, 'b) bridge \<Rightarrow> ('h, 'b) bridge option" where
  "bridge_cmd_process_message P data b =
     (case cmd_unpack P data b of
        (None, b1) \<Rightarrow> Some b1
      | (Some cmd, b1) \<Rightarrow>
          (case bc_msg_type cmd of
             MSG_TYPE_RSP \<Rightarrow> process_response P cmd b1
           | MSG_TYPE_CMD \<Rightarrow> Some (process_request P cmd b1)
           | MSG_TYPE_EVT \<Rightarrow> process_event P cmd b1
           | MSG_TYPE_UNKNOWN n \<Rightarrow> Some (free_unpacked b1)))"

definition bridge_cmd_receive_cb :: "('h, 'b) bridge_ports \<Rightarrow> uint32 \<Rightarrow> 'b \<Rightarrow> ('h, 'b) bridge \<Rightarrow> ('h, 'b) bridge option" where
  "bridge_cmd_receive_cb P msg_id data b =
     (if msg_id \<noteq> BRIDGE_CMD_MSG_ID then Some b else bridge_cmd_process_message P data b)"

section \<open>The tasks\<close>

text \<open>The callback frees the data it is given.\<close>

definition bridge_cmd_handle_response ::
  "uint32 \<Rightarrow> uint32 \<Rightarrow> uint32 \<Rightarrow> uint8 list option \<Rightarrow> 'h \<Rightarrow> ('h, 'b) bridge \<Rightarrow> ('h, 'b) bridge" where
  "bridge_cmd_handle_response c r s d h b =
     b\<lparr>br_calls := br_calls b @ [Call_response h c r s d], br_heap := heap_free (heap_free_ptr (br_heap b) d)\<rparr>"

definition bridge_cmd_handle_event ::
  "uint32 \<Rightarrow> uint32 \<Rightarrow> uint8 list option \<Rightarrow> 'h \<Rightarrow> ('h, 'b) bridge \<Rightarrow> ('h, 'b) bridge" where
  "bridge_cmd_handle_event c s d h b =
     b\<lparr>br_calls := br_calls b @ [Call_event h c s d], br_heap := heap_free (heap_free_ptr (br_heap b) d)\<rparr>"

definition bridge_cmd_write_cb_impl ::
  "('h, 'b) bridge_ports \<Rightarrow> uint32 \<Rightarrow> uint32 \<Rightarrow> uint32 \<Rightarrow> uint8 list \<Rightarrow> ('h, 'b) bridge \<Rightarrow> esp_err \<times> uint32 \<times> ('h, 'b) bridge" where
  "bridge_cmd_write_cb_impl P cmd_id req_id seq_num data b =
     (let (ret, b1) = bridge_cmd_send_one P
            (BRIDGE_COMMAND_INIT\<lparr>bc_cmd_id := cmd_id, bc_msg_type := MSG_TYPE_RSP, bc_req_id := req_id, bc_status := STATUS_OK,
               bc_seq_num := seq_num, bc_is_final := False, bc_total_size := 0, bc_payload := data\<rparr>) b
      in (ret, if ret = ESP_OK then seq_num + 1 else seq_num, b1))"

text \<open>The streaming handler runs with the write callback; its status, the next number, the state.\<close>

primrec stream_handler ::
  "('h, 'b) bridge_ports \<Rightarrow> uint32 \<Rightarrow> uint32 \<Rightarrow> bridge_stream \<Rightarrow> uint32 \<Rightarrow> ('h, 'b) bridge \<Rightarrow> uint32 \<times> uint32 \<times> ('h, 'b) bridge" where
  "stream_handler P cmd_id req_id (Stream_end st) = (\<lambda>seq_num b. (st, seq_num, b))"
| "stream_handler P cmd_id req_id (Stream_write data k) =
     (\<lambda>seq_num b. case bridge_cmd_write_cb_impl P cmd_id req_id seq_num data b of
        (ret, seq_num1, b1) \<Rightarrow> stream_handler P cmd_id req_id (k ret) seq_num1 b1)"

text \<open>The synchronous handler allocates its response.\<close>

definition handler_alloc :: "uint8 list option \<Rightarrow> heap \<Rightarrow> heap" where
  "handler_alloc d h = h\<lparr>live := live h + owned d\<rparr>"

definition bridge_cmd_handle_request ::
  "('h, 'b) bridge_ports \<Rightarrow> uint32 \<Rightarrow> uint32 \<Rightarrow> uint8 list option \<Rightarrow> ('h, 'b) bridge \<Rightarrow> ('h, 'b) bridge" where
  "bridge_cmd_handle_request P cmd_id req_id req_data b =
     (let release = (\<lambda>b. b\<lparr>br_heap := heap_free (heap_free_ptr (br_heap b) req_data)\<rparr>)
      in case find_entry_by_id cmd_id (br_handlers b) of
           None \<Rightarrow> release (snd (bridge_cmd_send_response P cmd_id req_id STATUS_NO_HANDLER [] b))
         | Some e \<Rightarrow>
             if be_type e = BRIDGE_CMD_HANDLER_STREAMING
             then (case stream_handler P cmd_id req_id (run_streaming P (be_handler e) cmd_id req_data) 0 b of
                     (status, seq_num, b1) \<Rightarrow>
                       release (snd (bridge_cmd_send_one P
                         (BRIDGE_COMMAND_INIT\<lparr>bc_cmd_id := cmd_id, bc_msg_type := MSG_TYPE_RSP, bc_req_id := req_id,
                            bc_status := status, bc_seq_num := seq_num, bc_is_final := True, bc_total_size := 0\<rparr>) b1)))
             else (case run_sync P (be_handler e) cmd_id req_data of
                     (status, d) \<Rightarrow>
                       let b1 = b\<lparr>br_heap := handler_alloc d (br_heap b)\<rparr>;
                           (ret, b2) = bridge_cmd_send_response P cmd_id req_id status (case d of None \<Rightarrow> [] | Some x \<Rightarrow> x) b1
                       in release (b2\<lparr>br_heap := heap_free_ptr (br_heap b2) d\<rparr>)))"

text \<open>The work queue runs its first task.\<close>

fun run_work :: "('h, 'b) bridge_ports \<Rightarrow> 'h bridge_work \<Rightarrow> ('h, 'b) bridge \<Rightarrow> ('h, 'b) bridge" where
  "run_work P (Request_work c r d) = bridge_cmd_handle_request P c r d"
| "run_work P (Response_work c r s d h) = bridge_cmd_handle_response c r s d h"
| "run_work P (Event_work c s d h) = bridge_cmd_handle_event c s d h"

definition run_task :: "('h, 'b) bridge_ports \<Rightarrow> ('h, 'b) bridge \<Rightarrow> ('h, 'b) bridge" where
  "run_task P b = (case br_tasks b of [] \<Rightarrow> b | w # ws \<Rightarrow> run_work P w (b\<lparr>br_tasks := ws\<rparr>))"

end
