(* ===== verification/Chunked_Transport.thy ===== *)
theory Chunked_Transport
  imports Message_Utils
begin

text \<open>
  The chunked transport over esp_hosted, \<open>components/webrtc_bridge/src/hosted_chunked_transport.c\<close>, as built
  with \<open>CONFIG_ESP_WEBRTC_BRIDGE_HOSTED\<close>: a registration table, two wire formats, the receiver that
  detects them and reassembles messages, and the sender. \<open>size_t\<close> is 32 bits wide, as on the targets.
  A callback invocation is an event; a callback owns the message it is given.
\<close>

section \<open>Registrations\<close>

definition HOSTED_CHUNK_MAGIC :: uint32 where "HOSTED_CHUNK_MAGIC = 0x43484E4B"
definition MAX_REGISTRATIONS :: nat where "MAX_REGISTRATIONS = 32"
definition HOSTED_CHUNK_MAX_DATA :: nat where "HOSTED_CHUNK_MAX_DATA = 8166 - 16 - 50"

text \<open>A callback pointer is \<open>None\<close> for NULL; which function it is, an identifier.\<close>

record hosted_chunk_reg =
  rg_msg_id :: uint32
  rg_callback :: "nat option"
  rg_chunk_callback :: "nat option"
  rg_msg :: "received_msg option"
  rg_expected_seq :: uint32

datatype chunk_event =
    OnMsg nat "uint8 list"
  | OnChunk nat "uint8 list" uint32 uint32

definition find_reg :: "hosted_chunk_reg list \<Rightarrow> uint32 \<Rightarrow> nat option" where
  "find_reg regs msg_id = find (\<lambda>i. rg_msg_id (regs ! i) = msg_id) [0..<length regs]"

definition hosted_chunked_register :: "uint32 \<Rightarrow> nat option \<Rightarrow> hosted_chunk_reg list \<Rightarrow> hosted_chunk_reg list" where
  "hosted_chunked_register msg_id callback regs =
     (case find_reg regs msg_id of
        Some i \<Rightarrow> regs[i := (regs ! i)\<lparr>rg_callback := callback\<rparr>]
      | None \<Rightarrow> if length regs \<ge> MAX_REGISTRATIONS then regs
                else regs @ [\<lparr>rg_msg_id = msg_id, rg_callback = callback, rg_chunk_callback = None,
                              rg_msg = None, rg_expected_seq = 0\<rparr>])"

definition hosted_chunked_register_chunk_cb :: "uint32 \<Rightarrow> nat option \<Rightarrow> hosted_chunk_reg list \<Rightarrow> hosted_chunk_reg list" where
  "hosted_chunked_register_chunk_cb msg_id chunk_cb regs =
     (case find_reg regs msg_id of
        None \<Rightarrow> regs
      | Some i \<Rightarrow> regs[i := (regs ! i)\<lparr>rg_chunk_callback := chunk_cb\<rparr>])"

section \<open>Receiving\<close>

text \<open>Header layouts: new format 16 bytes, legacy format 9 bytes, both packed.\<close>

definition new_hdr_size :: nat where "new_hdr_size = 16"
definition legacy_hdr_size :: nat where "legacy_hdr_size = 9"

text \<open>Freeing the reassembly state, the buffer and the struct.\<close>

definition drop_reassembly :: "hosted_chunk_reg \<Rightarrow> heap \<Rightarrow> hosted_chunk_reg \<times> heap" where
  "drop_reassembly reg h =
     (case rg_msg reg of
        None \<Rightarrow> (reg, h)
      | Some _ \<Rightarrow> (reg\<lparr>rg_msg := None\<rparr>, heap_free (heap_free h)))"

text \<open>
  The end of both receivers: the result of the append. A complete message goes to the callback, which owns
  its buffer, or is freed; a failed one is freed.
\<close>

definition after_append :: "esp_err \<Rightarrow> received_msg \<Rightarrow> hosted_chunk_reg \<Rightarrow> heap \<Rightarrow>
    hosted_chunk_reg \<times> chunk_event list \<times> heap" where
  "after_append ret m reg h =
     (if ret = ESP_OK then
        (reg\<lparr>rg_msg := None\<rparr>,
         (case rg_callback reg of
            Some cb \<Rightarrow> [OnMsg cb (take (nat (rm_data_size m)) (rm_buf m))] | None \<Rightarrow> []),
         (case rg_callback reg of Some cb \<Rightarrow> heap_free h | None \<Rightarrow> heap_free (heap_free h)))
      else if ret = ESP_FAIL then (reg\<lparr>rg_msg := None\<rparr>, [], heap_free (heap_free h))
      else (reg\<lparr>rg_msg := Some m\<rparr>, [], h))"

definition process_new_format_chunk :: "uint8 \<Rightarrow> hosted_chunk_reg \<Rightarrow> uint8 list \<Rightarrow> heap \<Rightarrow>
    (hosted_chunk_reg \<times> chunk_event list \<times> heap) option" where
  "process_new_format_chunk junk reg data h =
     (if length data < new_hdr_size then Some (reg, [], h)
      else let total_len = le32_at data 4; offset = le32_at data 8; chunk_len = le32_at data 12;
               chunk_data = drop new_hdr_size data;
               len0 = int (length chunk_data);
               len = (if len0 > sint chunk_len then sint chunk_len else len0)
           in case rg_chunk_callback reg of
                Some cb \<Rightarrow> if len < 0 then None
                           else Some (reg, [OnChunk cb (take (nat len) chunk_data) offset total_len], h)
              | None \<Rightarrow>
                  (case (if offset = 0 then
                           (case drop_reassembly reg h of (reg1, h1) \<Rightarrow>
                              if unat total_len > 2 ^ 31 - 1 then (None, reg1, h1)
                              else (case esp_webrtc_create_buffer_for_msg junk (sint total_len) h1 of
                                      (m, h2) \<Rightarrow> (m, reg1\<lparr>rg_msg := m\<rparr>, h2)))
                         else (rg_msg reg, reg, h)) of
                     (None, reg1, h1) \<Rightarrow> Some (reg1, [], h1)
                   | (Some m, reg1, h1) \<Rightarrow>
                       (let is_fin = (offset + word_of_int len \<ge> total_len)
                        in case esp_webrtc_append_msg_to_existing m chunk_data len is_fin of
                             None \<Rightarrow> None
                           | Some (ret, m1) \<Rightarrow> Some (after_append ret m1 reg1 h1))))"

definition process_legacy_format_chunk :: "uint8 \<Rightarrow> hosted_chunk_reg \<Rightarrow> uint8 list \<Rightarrow> heap \<Rightarrow>
    (hosted_chunk_reg \<times> chunk_event list \<times> heap) option" where
  "process_legacy_format_chunk junk reg data h =
     (if length data < legacy_hdr_size then Some (reg, [], h)
      else let seq_num = le32_at data 0; total_len = le32_at data 4; is_fin = (data ! 8 \<noteq> 0);
               chunk_data = drop legacy_hdr_size data
           in case (if seq_num = 0 then
                      (case drop_reassembly reg h of (reg1, h1) \<Rightarrow>
                         (case esp_webrtc_create_buffer_for_msg junk (sint total_len) h1 of (m, h2) \<Rightarrow>
                            (m \<noteq> None, reg1\<lparr>rg_msg := m, rg_expected_seq := 0\<rparr>, h2)))
                    else (True, reg, h)) of
                (created, reg1, h1) \<Rightarrow>
                  if \<not> created then Some (reg1, [], h1)
                  else if seq_num \<noteq> rg_expected_seq reg1 then
                    (case drop_reassembly reg1 h1 of (reg2, h2) \<Rightarrow> Some (reg2\<lparr>rg_expected_seq := 0\<rparr>, [], h2))
                  else (case rg_msg reg1 of
                          None \<Rightarrow> Some (reg1, [], h1)
                        | Some m \<Rightarrow>
                            (case esp_webrtc_append_msg_to_existing m chunk_data (int (length chunk_data)) is_fin of
                               None \<Rightarrow> None
                             | Some (ret, m1) \<Rightarrow>
                                 (case after_append ret m1 reg1 h1 of (reg2, ev, h2) \<Rightarrow>
                                    Some (reg2\<lparr>rg_expected_seq :=
                                            (if ret = ESP_OK \<or> ret = ESP_FAIL then 0 else rg_expected_seq reg1 + 1)\<rparr>,
                                          ev, h2)))))"

text \<open>A message that is no chunk is copied and passed on; the callback owns the copy.\<close>

definition pass_raw :: "hosted_chunk_reg \<Rightarrow> uint8 list \<Rightarrow> heap \<Rightarrow> hosted_chunk_reg \<times> chunk_event list \<times> heap" where
  "pass_raw reg data h =
     (case rg_callback reg of
        None \<Rightarrow> (reg, [], h)
      | Some cb \<Rightarrow>
          if length data = 0 then (reg, [], h)
          else (case heap_calloc h of (ok, h1) \<Rightarrow>
            if ok then (reg, [OnMsg cb data], h1) else (reg, [], h1)))"

definition process_reg :: "uint8 \<Rightarrow> hosted_chunk_reg \<Rightarrow> uint8 list \<Rightarrow> heap \<Rightarrow>
    (hosted_chunk_reg \<times> chunk_event list \<times> heap) option" where
  "process_reg junk reg data h =
     (if length data \<ge> 4 \<and> le32_at data 0 = HOSTED_CHUNK_MAGIC then process_new_format_chunk junk reg data h
      else if length data \<ge> legacy_hdr_size \<and> (le32_at data 0 = 0 \<or> rg_msg reg \<noteq> None)
      then process_legacy_format_chunk junk reg data h
      else Some (pass_raw reg data h))"

definition hosted_chunked_process_chunk :: "uint8 \<Rightarrow> uint32 \<Rightarrow> uint8 list \<Rightarrow> hosted_chunk_reg list \<Rightarrow> heap \<Rightarrow>
    (hosted_chunk_reg list \<times> chunk_event list \<times> heap) option" where
  "hosted_chunked_process_chunk junk msg_id data regs h =
     (case find_reg regs msg_id of
        None \<Rightarrow> Some (regs, [], h)
      | Some i \<Rightarrow> map_option (\<lambda>(reg, ev, h'). (regs[i := reg], ev, h')) (process_reg junk (regs ! i) data h))"

section \<open>Sending\<close>

datatype hosted_chunk_wire_format = HOSTED_CHUNK_WIRE_NEW | HOSTED_CHUNK_WIRE_LEGACY

text \<open>\<open>esp_hosted_send_custom_data\<close> is a parameter with its own state.\<close>

type_synonym 'e custom_send = "uint32 \<Rightarrow> uint8 list \<Rightarrow> 'e \<Rightarrow> esp_err \<times> 'e"

definition new_frame :: "uint32 \<Rightarrow> nat \<Rightarrow> uint8 list \<Rightarrow> uint8 list" where
  "new_frame total_len offset chunk =
     le32_bytes HOSTED_CHUNK_MAGIC @ le32_bytes total_len @ le32_bytes (word_of_nat offset) @
     le32_bytes (word_of_nat (length chunk)) @ chunk"

definition legacy_frame :: "uint32 \<Rightarrow> uint32 \<Rightarrow> bool \<Rightarrow> uint8 list \<Rightarrow> uint8 list" where
  "legacy_frame seq total_len is_fin chunk =
     le32_bytes seq @ le32_bytes total_len @ [if is_fin then 1 else 0] @ chunk"

function send_new_loop :: "'e custom_send \<Rightarrow> uint32 \<Rightarrow> uint8 list \<Rightarrow> nat \<Rightarrow> esp_err \<Rightarrow> 'e \<Rightarrow> esp_err \<times> 'e" where
  "send_new_loop send msg_id data offset ret e =
     (if offset < length data \<and> ret = ESP_OK then
        (let n = min (length data - offset) HOSTED_CHUNK_MAX_DATA;
             (ret', e') = send msg_id (new_frame (word_of_nat (length data)) offset (take n (drop offset data))) e
         in send_new_loop send msg_id data (offset + n) ret' e')
      else (ret, e))"
  by pat_completeness auto
termination
  by (relation "measure (\<lambda>(s, i, d, off, r, e). length d - off)") (auto simp: HOSTED_CHUNK_MAX_DATA_def)

function send_legacy_loop :: "'e custom_send \<Rightarrow> uint32 \<Rightarrow> uint8 list \<Rightarrow> nat \<Rightarrow> uint32 \<Rightarrow> esp_err \<Rightarrow> 'e \<Rightarrow> esp_err \<times> 'e" where
  "send_legacy_loop send msg_id data offset seq_num ret e =
     (if offset < length data \<and> ret = ESP_OK then
        (let n = min (length data - offset) HOSTED_CHUNK_MAX_DATA;
             (ret', e') = send msg_id (legacy_frame seq_num (word_of_nat (length data)) (offset + n \<ge> length data)
                                         (take n (drop offset data))) e
         in send_legacy_loop send msg_id data (offset + n) (seq_num + 1) ret' e')
      else (ret, e))"
  by pat_completeness auto
termination
  by (relation "measure (\<lambda>(s, i, d, off, q, r, e). length d - off)") (auto simp: HOSTED_CHUNK_MAX_DATA_def)

declare send_new_loop.simps [simp del] send_legacy_loop.simps [simp del]

text \<open>\<open>data\<close> is \<open>None\<close> for NULL; \<open>mutex\<close> is \<open>None\<close> for NULL, else whether it was taken in time.\<close>

definition hosted_chunked_send :: "'e custom_send \<Rightarrow> uint32 \<Rightarrow> uint8 list option \<Rightarrow> bool option \<Rightarrow>
    hosted_chunk_wire_format \<Rightarrow> 'e \<Rightarrow> heap \<Rightarrow> esp_err \<times> 'e \<times> heap" where
  "hosted_chunked_send send msg_id data mutex wire e h =
     (case data of None \<Rightarrow> (ESP_ERR_INVALID_ARG, e, h)
      | Some bytes \<Rightarrow>
          if length bytes = 0 then (ESP_ERR_INVALID_ARG, e, h)
          else if mutex = Some False then (ESP_ERR_TIMEOUT, e, h)
          else if wire = HOSTED_CHUNK_WIRE_NEW \<and> length bytes \<le> HOSTED_CHUNK_MAX_DATA
          then (case send msg_id bytes e of (ret, e') \<Rightarrow> (ret, e', h))
          else (case heap_calloc h of (ok, h1) \<Rightarrow>
            if \<not> ok then (ESP_ERR_NO_MEM, e, h1)
            else (case (if wire = HOSTED_CHUNK_WIRE_NEW then send_new_loop send msg_id bytes 0 ESP_OK e
                        else send_legacy_loop send msg_id bytes 0 0 ESP_OK e) of
                    (ret, e') \<Rightarrow> (ret, e', heap_free h1))))"

end
