(* ===== verification/Chunked_Props.thy ===== *)
theory Chunked_Props
  imports Chunked_Transport
begin

text \<open>
  What the chunked transport promises: a message sent in either chunked format is delivered as it was
  sent, whatever was being reassembled before; a frame whose chunk length is at least \<open>2 ^ 31\<close> makes the
  receiver copy out of bounds; and a raw message that looks like a legacy chunk is not delivered.
\<close>

section \<open>Frames\<close>

lemma new_frame_fields:
  defines "fr \<equiv> \<lambda>t off c. new_frame t off c"
  shows "length (fr t off c) = 16 + length c" "drop 16 (fr t off c) = c" "le32_at (fr t off c) 0 = HOSTED_CHUNK_MAGIC"
    "le32_at (fr t off c) 4 = t" "le32_at (fr t off c) 8 = word_of_nat off"
    "le32_at (fr t off c) 12 = word_of_nat (length c)"
proof -
  show "length (fr t off c) = 16 + length c" "drop 16 (fr t off c) = c" by (simp_all add: fr_def new_frame_def)
  show "le32_at (fr t off c) 0 = HOSTED_CHUNK_MAGIC"
    using le32_at_bytes[of 0 "[]"] by (simp add: fr_def new_frame_def)
  show "le32_at (fr t off c) 4 = t"
    using le32_at_bytes[of 4 "le32_bytes HOSTED_CHUNK_MAGIC"] by (simp add: fr_def new_frame_def)
  show "le32_at (fr t off c) 8 = word_of_nat off"
    using le32_at_bytes[of 8 "le32_bytes HOSTED_CHUNK_MAGIC @ le32_bytes t"] by (simp add: fr_def new_frame_def)
  show "le32_at (fr t off c) 12 = word_of_nat (length c)"
    using le32_at_bytes[of 12 "le32_bytes HOSTED_CHUNK_MAGIC @ le32_bytes t @ le32_bytes (word_of_nat off)"]
    by (simp add: fr_def new_frame_def)
qed

lemma legacy_frame_fields:
  defines "fr \<equiv> \<lambda>q t fin c. legacy_frame q t fin c"
  shows "length (fr q t fin c) = 9 + length c" "drop 9 (fr q t fin c) = c" "le32_at (fr q t fin c) 0 = q"
    "le32_at (fr q t fin c) 4 = t" "fr q t fin c ! 8 \<noteq> 0 \<longleftrightarrow> fin"
proof -
  show "length (fr q t fin c) = 9 + length c" "drop 9 (fr q t fin c) = c" by (simp_all add: fr_def legacy_frame_def)
  show "le32_at (fr q t fin c) 0 = q" using le32_at_bytes[of 0 "[]"] by (simp add: fr_def legacy_frame_def)
  show "le32_at (fr q t fin c) 4 = t"
    using le32_at_bytes[of 4 "le32_bytes q"] by (simp add: fr_def legacy_frame_def)
  show "fr q t fin c ! 8 \<noteq> 0 \<longleftrightarrow> fin" by (simp add: fr_def legacy_frame_def nth_append)
qed

lemma sint_of_nat: "n < 2 ^ 31 \<Longrightarrow> sint (word_of_nat n :: uint32) = int n"
  by (simp add: signed_of_nat signed_take_bit_int_eq_self)

lemma unat_of_nat32: "n < 2 ^ 31 \<Longrightarrow> unat (word_of_nat n :: uint32) = n"
  by (simp add: unat_of_nat take_bit_nat_eq_self)

section \<open>One frame\<close>

text \<open>The receiver has gathered the first \<open>off\<close> bytes of \<open>data\<close>, or is about to start.\<close>

definition gathered :: "hosted_chunk_reg \<Rightarrow> nat \<Rightarrow> uint8 list \<Rightarrow> bool" where
  "gathered reg off data \<longleftrightarrow>
     (case rg_msg reg of None \<Rightarrow> False
      | Some m \<Rightarrow> msg_ok m \<and> rm_capacity m = int (length data) \<and> msg_data m = take off data)"

definition plain_reg :: "hosted_chunk_reg \<Rightarrow> nat \<Rightarrow> bool" where
  "plain_reg reg cb \<longleftrightarrow> rg_callback reg = Some cb \<and> rg_chunk_callback reg = None"

definition generous :: "heap \<Rightarrow> bool" where
  "generous h \<longleftrightarrow> (\<forall>n. grant h n)"

lemma heap_calloc_generous: "generous h \<Longrightarrow> \<exists>h'. heap_calloc h = (True, h') \<and> generous h'"
  by (simp add: generous_def heap_calloc_def Let_def)

lemma heap_free_generous [simp]: "generous (heap_free h) = generous h"
  by (simp add: generous_def heap_free_def)

lemma drop_reassembly_frame:
  assumes "drop_reassembly reg h = (reg1, h1)"
  shows "rg_callback reg1 = rg_callback reg" "rg_chunk_callback reg1 = rg_chunk_callback reg"
    "rg_msg_id reg1 = rg_msg_id reg" "generous h1 = generous h" "rg_msg reg1 = None"
    "rg_expected_seq reg1 = rg_expected_seq reg"
  using assms by (auto simp: drop_reassembly_def split: option.splits)

lemma create_generous:
  assumes "generous h" "0 \<le> cap" "cap < 2 ^ 31 - 1"
  shows "\<exists>m h'. esp_webrtc_create_buffer_for_msg junk cap h = (Some m, h') \<and> msg_ok m \<and> msg_data m = [] \<and>
    rm_capacity m = cap \<and> generous h'"
proof -
  obtain h1 where a: "heap_calloc h = (True, h1)" "generous h1" using heap_calloc_generous[OF assms(1)] by blast
  obtain h2 where b: "heap_calloc h1 = (True, h2)" "generous h2" using heap_calloc_generous[OF a(2)] by blast
  obtain r h' where c: "esp_webrtc_create_buffer_for_msg junk cap h = (r, h')" by (cases "esp_webrtc_create_buffer_for_msg junk cap h")
  have r: "r \<noteq> None \<and> h' = h2" using c a b by (auto simp: esp_webrtc_create_buffer_for_msg_def)
  then obtain m where "r = Some m" by blast
  then show ?thesis using create_buffer_spec(1)[OF c] assms(2,3) b(2) r c by auto
qed

text \<open>Appending the next piece of \<open>data\<close> and what follows it.\<close>

lemma append_piece:
  assumes "msg_ok m" "rm_capacity m = int (length data)" "msg_data m = take off data" "off \<le> length data"
    and "n = length piece" "piece = take n (drop off data)" "plain_reg reg cb" "generous h"
    and "fin \<longleftrightarrow> off + n = length data"
  shows "\<exists>ret m1 reg' h'. esp_webrtc_append_msg_to_existing m piece (int n) fin = Some (ret, m1) \<and>
    ret = (if fin then ESP_OK else ESP_ERR_NOT_FINISHED) \<and>
    after_append ret m1 reg h = (reg', if fin then [OnMsg cb data] else [], h') \<and>
    plain_reg reg' cb \<and> generous h' \<and> rg_msg_id reg' = rg_msg_id reg \<and> rg_expected_seq reg' = rg_expected_seq reg \<and>
    (\<not> fin \<longrightarrow> gathered reg' (off + n) data)"
proof -
  have dl: "rm_data_size m = int off" using msg_data_length[OF assms(1)] assms(3,4) by simp
  have n: "off + n \<le> length data" using assms(4,5,6) by (metis add_leD2 diff_le_self le_add_diff_inverse2 le_diff_conv2 length_drop length_take min.cobounded1 add.commute nat_add_left_cancel_le le_add_diff_inverse)
  have ok: "int_ok (rm_data_size m + int n)" using n assms(1,2) by (simp add: dl int_ok_def msg_ok_def)
  have fits: "rm_data_size m + int n \<le> rm_capacity m" using n by (simp add: dl assms(2))
  have le: "int n \<le> int (length piece)" using assms(5) by simp
  obtain m1 where A: "esp_webrtc_append_msg_to_existing m piece (int n) fin =
      Some (if fin then ESP_OK else ESP_ERR_NOT_FINISHED, m1)" "msg_ok m1"
    "msg_data m1 = msg_data m @ take (nat (int n)) piece" "rm_capacity m1 = rm_capacity m"
    using append_spec[OF assms(1) _ le ok, of fin] fits by auto
  have d: "msg_data m1 = take (off + n) data"
    using A(3) assms(3,5,6) by (metis nat_int take_add take_all_iff order_refl)
  show ?thesis
  proof (cases fin)
    case True
    have "take (nat (rm_data_size m1)) (rm_buf m1) = data" using d True assms(9) by (simp add: msg_data_def)
    then show ?thesis using A(1) True assms(7,8) by (auto simp: after_append_def plain_reg_def)
  next
    case False
    then show ?thesis using A d assms(2,7,8)
      by (auto simp: after_append_def plain_reg_def gathered_def)
  qed
qed

lemma new_step:
  assumes "off = 0 \<or> gathered reg off data" "plain_reg reg cb" "generous h" "off < length data"
    and len: "length data < 2 ^ 31 - 1" and n: "n = min (length data - off) HOSTED_CHUNK_MAX_DATA"
  shows "\<exists>reg' h'. process_reg junk reg (new_frame (word_of_nat (length data)) off (take n (drop off data))) h =
      Some (reg', if off + n = length data then [OnMsg cb data] else [], h') \<and>
    plain_reg reg' cb \<and> generous h' \<and> rg_msg_id reg' = rg_msg_id reg \<and>
    (off + n < length data \<longrightarrow> gathered reg' (off + n) data)"
proof -
  define p where "p = take n (drop off data)"
  let ?p = p
  let ?f = "new_frame (word_of_nat (length data)) off p"
  have np: "n = length p" "off + n \<le> length data" using n assms(4) by (auto simp: p_def)
  have small: "n < 2 ^ 31" "off < 2 ^ 31" "length data < 2 ^ 31" "off + n < 2 ^ 31" using np len assms(4) by auto
  note F = new_frame_fields[of "word_of_nat (length data)" off ?p]
  have fin: "word_of_nat (length data) \<le> (word_of_nat off :: uint32) + word_of_nat n \<longleftrightarrow> off + n = length data"
  proof -
    have "(word_of_nat off :: uint32) + word_of_nat n = word_of_nat (off + n)" by simp
    then show ?thesis using small np(2) by (auto simp: word_le_nat_alt unat_of_nat32 simp del: of_nat_add)
  qed
  have off0: "(word_of_nat off :: uint32) = 0 \<longleftrightarrow> off = 0"
    using unat_of_nat32[OF small(2)] by (metis unat_eq_zero)
  define start where "start = (if (word_of_nat off :: uint32) = 0 then
      (case drop_reassembly reg h of (reg1, h1) \<Rightarrow>
         if unat (word_of_nat (length data) :: uint32) > 2 ^ 31 - 1 then (None, reg1, h1)
         else (case esp_webrtc_create_buffer_for_msg junk (sint (word_of_nat (length data) :: uint32)) h1 of
                 (m, h2) \<Rightarrow> (m, reg1\<lparr>rg_msg := m\<rparr>, h2)))
    else (rg_msg reg, reg, h))"
  have "\<exists>m reg1 h1. start = (Some m, reg1, h1) \<and> msg_ok m \<and> rm_capacity m = int (length data) \<and>
      msg_data m = take off data \<and> plain_reg reg1 cb \<and> generous h1 \<and> rg_msg_id reg1 = rg_msg_id reg"
  proof (cases "off = 0")
    case True
    obtain reg1 h1 where d: "drop_reassembly reg h = (reg1, h1)" by (cases "drop_reassembly reg h")
    note D = drop_reassembly_frame[OF d]
    obtain m h2 where c: "esp_webrtc_create_buffer_for_msg junk (int (length data)) h1 = (Some m, h2)"
      "msg_ok m" "msg_data m = []" "rm_capacity m = int (length data)" "generous h2"
      using create_generous[of h1 "int (length data)" junk] D(4) assms(3) len by auto
    show ?thesis using True small(3) c D assms(2)
      by (simp add: start_def d sint_of_nat unat_of_nat32 plain_reg_def)
  next
    case False
    then show ?thesis using assms(1-3) off0 by (auto simp: start_def gathered_def split: option.splits)
  qed
  then obtain m reg1 h1 where S: "start = (Some m, reg1, h1)" "msg_ok m" "rm_capacity m = int (length data)"
    "msg_data m = take off data" "plain_reg reg1 cb" "generous h1" "rg_msg_id reg1 = rg_msg_id reg" by blast
  obtain ret m1 reg' h' where A: "esp_webrtc_append_msg_to_existing m ?p (int n) (off + n = length data) = Some (ret, m1)"
    "after_append ret m1 reg1 h1 = (reg', if off + n = length data then [OnMsg cb data] else [], h')"
    "plain_reg reg' cb" "generous h'" "rg_msg_id reg' = rg_msg_id reg1"
    "off + n \<noteq> length data \<longrightarrow> gathered reg' (off + n) data"
    using append_piece[OF S(2-4) _ np(1) p_def S(5,6) refl] assms(4) by (metis less_imp_le)
  have "process_reg junk reg ?f h = process_new_format_chunk junk reg ?f h"
    using F by (simp add: process_reg_def)
  also have "\<dots> = Some (reg', if off + n = length data then [OnMsg cb data] else [], h')"
    using assms(2) S(1) A(1,2) small(1) np(1)
    by (simp add: process_new_format_chunk_def new_hdr_size_def F Let_def plain_reg_def sint_of_nat
        start_def[symmetric] fin[unfolded np(1)])
  finally have "process_reg junk reg ?f h = Some (reg', if off + n = length data then [OnMsg cb data] else [], h')" .
  then show ?thesis unfolding p_def using A(3-6) S(7) np(2) by auto
qed

lemma legacy_step:
  assumes "off = 0 \<and> seq = 0 \<or> gathered reg off data \<and> rg_expected_seq reg = seq \<and> seq \<noteq> 0"
    and "seq \<noteq> HOSTED_CHUNK_MAGIC" "plain_reg reg cb" "generous h" "off < length data"
    and len: "length data < 2 ^ 31 - 1" and n: "n = min (length data - off) HOSTED_CHUNK_MAX_DATA"
  shows "\<exists>reg' h'. process_reg junk reg (legacy_frame seq (word_of_nat (length data)) (off + n \<ge> length data)
        (take n (drop off data))) h = Some (reg', if off + n = length data then [OnMsg cb data] else [], h') \<and>
    plain_reg reg' cb \<and> generous h' \<and> rg_msg_id reg' = rg_msg_id reg \<and>
    (off + n < length data \<longrightarrow> gathered reg' (off + n) data \<and> rg_expected_seq reg' = seq + 1)"
proof -
  let ?fin = "off + n = length data"
  define p where "p = take n (drop off data)"
  have np: "n = length p" "off + n \<le> length data" using n assms(5) by (auto simp: p_def)
  have fin: "off + n \<ge> length data \<longleftrightarrow> ?fin" using np(2) by auto
  define f where "f = legacy_frame seq (word_of_nat (length data)) (off + n \<ge> length data) p"
  note F = legacy_frame_fields[of seq "word_of_nat (length data)" "off + n \<ge> length data" p, folded f_def]
  define start where "start = (if seq = 0 then
      (case drop_reassembly reg h of (reg1, h1) \<Rightarrow>
         (case esp_webrtc_create_buffer_for_msg junk (sint (word_of_nat (length data) :: uint32)) h1 of (m, h2) \<Rightarrow>
            (m \<noteq> None, reg1\<lparr>rg_msg := m, rg_expected_seq := 0\<rparr>, h2)))
    else (True, reg, h))"
  have "\<exists>m reg1 h1. start = (True, reg1, h1) \<and> rg_msg reg1 = Some m \<and> msg_ok m \<and> rm_capacity m = int (length data) \<and>
      msg_data m = take off data \<and> plain_reg reg1 cb \<and> generous h1 \<and> rg_msg_id reg1 = rg_msg_id reg \<and>
      rg_expected_seq reg1 = seq"
  proof (cases "seq = 0")
    case True
    then have o: "off = 0" using assms(1) by auto
    obtain reg1 h1 where d: "drop_reassembly reg h = (reg1, h1)" by (cases "drop_reassembly reg h")
    note D = drop_reassembly_frame[OF d]
    obtain m h2 where c: "esp_webrtc_create_buffer_for_msg junk (int (length data)) h1 = (Some m, h2)"
      "msg_ok m" "msg_data m = []" "rm_capacity m = int (length data)" "generous h2"
      using create_generous[of h1 "int (length data)" junk] D(4) assms(4) len by auto
    show ?thesis using True o c D assms(3) len
      by (simp add: start_def d sint_of_nat plain_reg_def)
  next
    case False
    then show ?thesis using assms(1,3,4) by (auto simp: start_def gathered_def split: option.splits)
  qed
  then obtain m reg1 h1 where S: "start = (True, reg1, h1)" "rg_msg reg1 = Some m" "msg_ok m"
    "rm_capacity m = int (length data)" "msg_data m = take off data" "plain_reg reg1 cb" "generous h1"
    "rg_msg_id reg1 = rg_msg_id reg" "rg_expected_seq reg1 = seq" by blast
  obtain ret m1 reg2 h' where A: "esp_webrtc_append_msg_to_existing m p (int n) ?fin = Some (ret, m1)"
    "ret = (if ?fin then ESP_OK else ESP_ERR_NOT_FINISHED)"
    "after_append ret m1 reg1 h1 = (reg2, if ?fin then [OnMsg cb data] else [], h')"
    "plain_reg reg2 cb" "generous h'" "rg_msg_id reg2 = rg_msg_id reg1" "?fin \<or> gathered reg2 (off + n) data"
    using append_piece[OF S(3-5) _ np(1) p_def S(6,7) refl] assms(5) by (metis less_imp_le)
  let ?reg = "reg2\<lparr>rg_expected_seq := (if ret = ESP_OK \<or> ret = ESP_FAIL then 0 else seq + 1)\<rparr>"
  have detect: "process_reg junk reg f h = process_legacy_format_chunk junk reg f h"
    using F(1,3) assms(1,2) by (auto simp: process_reg_def legacy_hdr_size_def gathered_def split: option.splits)
  have run: "process_legacy_format_chunk junk reg f h = Some (?reg, if ?fin then [OnMsg cb data] else [], h')"
    using S(1,2,9) A(1,3) np(1)
    by (simp add: process_legacy_format_chunk_def legacy_hdr_size_def F Let_def fin[unfolded np(1)] start_def[symmetric])
  have "plain_reg ?reg cb" "rg_msg_id ?reg = rg_msg_id reg" using A(4,6) S(8) by (simp_all add: plain_reg_def)
  moreover have "off + n < length data \<longrightarrow> gathered ?reg (off + n) data \<and> rg_expected_seq ?reg = seq + 1"
    using A(2,7) by (auto simp: gathered_def)
  ultimately show ?thesis using detect run A(5) unfolding f_def p_def by auto
qed

section \<open>Whole messages\<close>

text \<open>A link that delivers every frame, and the receiver at its other end.\<close>

definition collect :: "uint8 list list custom_send" where
  "collect msg_id frame frames = (ESP_OK, frames @ [frame])"

fun receive_all :: "uint8 \<Rightarrow> uint32 \<Rightarrow> uint8 list list \<Rightarrow> hosted_chunk_reg list \<Rightarrow> heap \<Rightarrow>
    (hosted_chunk_reg list \<times> chunk_event list \<times> heap) option" where
  "receive_all junk msg_id [] regs h = Some (regs, [], h)"
| "receive_all junk msg_id (f # fs) regs h =
     (case hosted_chunked_process_chunk junk msg_id f regs h of
        None \<Rightarrow> None
      | Some (regs1, ev1, h1) \<Rightarrow>
          (case receive_all junk msg_id fs regs1 h1 of
             None \<Rightarrow> None
           | Some (regs2, ev2, h2) \<Rightarrow> Some (regs2, ev1 @ ev2, h2)))"

lemma find_reg_Some:
  "find_reg regs msg_id = Some i \<Longrightarrow> i < length regs \<and> rg_msg_id (regs ! i) = msg_id"
  by (auto simp: find_reg_def find_Some_iff)

lemma find_reg_update:
  assumes "find_reg regs msg_id = Some i" "rg_msg_id reg = msg_id"
  shows "find_reg (regs[i := reg]) msg_id = Some i"
proof -
  note S = find_reg_Some[OF assms(1)]
  have "find (\<lambda>j. rg_msg_id (regs[i := reg] ! j) = msg_id) [0..<length regs] =
      find (\<lambda>j. rg_msg_id (regs ! j) = msg_id) [0..<length regs]"
    using S assms(2) by (intro find_cong) (auto simp: nth_list_update)
  then show ?thesis using assms(1) by (simp add: find_reg_def)
qed

lemma new_loop_frames:
  "send_new_loop collect msg_id data off ESP_OK fs0 = (ret, fs) \<Longrightarrow> \<exists>gs. fs = fs0 @ gs \<and> ret = ESP_OK \<and>
     send_new_loop collect msg_id data off ESP_OK [] = (ESP_OK, gs)"
proof (induction "length data - off" arbitrary: off fs0 ret fs rule: less_induct)
  case less
  show ?case
  proof (cases "off < length data")
    case True
    define n where "n = min (length data - off) HOSTED_CHUNK_MAX_DATA"
    define f where "f = new_frame (word_of_nat (length data)) off (take n (drop off data))"
    have d: "length data - (off + n) < length data - off" using True by (auto simp: n_def HOSTED_CHUNK_MAX_DATA_def)
    have u: "send_new_loop collect msg_id data off ESP_OK es = send_new_loop collect msg_id data (off + n) ESP_OK (es @ [f])" for es
      using True by (simp add: send_new_loop.simps[of _ _ _ off] n_def f_def collect_def Let_def)
    have prem: "send_new_loop collect msg_id data (off + n) ESP_OK (fs0 @ [f]) = (ret, fs)"
      using less.prems by (simp add: u)
    obtain gs where g: "fs = (fs0 @ [f]) @ gs" "ret = ESP_OK"
      "send_new_loop collect msg_id data (off + n) ESP_OK [] = (ESP_OK, gs)"
      using less.hyps[OF d prem] by auto
    obtain ret1 fs1 where r1: "send_new_loop collect msg_id data (off + n) ESP_OK [f] = (ret1, fs1)"
      by (cases "send_new_loop collect msg_id data (off + n) ESP_OK [f]")
    then obtain gs1 where "fs1 = [f] @ gs1" "ret1 = ESP_OK"
      "send_new_loop collect msg_id data (off + n) ESP_OK [] = (ESP_OK, gs1)" using less.hyps[OF d r1] by blast
    then show ?thesis using g u[of "[]"] r1 by simp
  qed (use less.prems in \<open>simp add: send_new_loop.simps\<close>)
qed

lemma new_roundtrip:
  assumes "off = 0 \<or> gathered (regs ! i) off data" "find_reg regs msg_id = Some i" "plain_reg (regs ! i) cb"
    "generous h" "off < length data" "length data < 2 ^ 31 - 1"
    and "send_new_loop collect msg_id data off ESP_OK [] = (ret, fs)"
  shows "ret = ESP_OK \<and> (\<exists>regs' h'. receive_all junk msg_id fs regs h = Some (regs', [OnMsg cb data], h'))"
  using assms
proof (induction "length data - off" arbitrary: off regs h ret fs rule: less_induct)
  case less
  define n where "n = min (length data - off) HOSTED_CHUNK_MAX_DATA"
  define f where "f = new_frame (word_of_nat (length data)) off (take n (drop off data))"
  have n: "0 < n" "off + n \<le> length data" using less.prems(5) by (auto simp: n_def HOSTED_CHUNK_MAX_DATA_def)
  have u: "send_new_loop collect msg_id data (off + n) ESP_OK [f] = (ret, fs)"
    using less.prems(5,7) by (simp add: send_new_loop.simps[of _ _ _ off] n_def f_def collect_def Let_def)
  obtain gs where g: "fs = f # gs" "ret = ESP_OK" "send_new_loop collect msg_id data (off + n) ESP_OK [] = (ESP_OK, gs)"
    using new_loop_frames[OF u] by auto
  obtain reg' h' where S: "process_reg junk (regs ! i) f h =
      Some (reg', if off + n = length data then [OnMsg cb data] else [], h')" "plain_reg reg' cb" "generous h'"
    "rg_msg_id reg' = rg_msg_id (regs ! i)" "off + n < length data \<longrightarrow> gathered reg' (off + n) data"
    using new_step[OF less.prems(1,3,4,5,6) n_def, of junk] by (auto simp: f_def)
  note I = find_reg_Some[OF less.prems(2)]
  have step: "hosted_chunked_process_chunk junk msg_id f regs h =
      Some (regs[i := reg'], if off + n = length data then [OnMsg cb data] else [], h')"
    using less.prems(2) S(1) by (simp add: hosted_chunked_process_chunk_def)
  show ?case
  proof (cases "off + n = length data")
    case True
    have "gs = []" using g(3) True by (simp add: send_new_loop.simps[of _ _ _ "length data"])
    then show ?thesis using g step True by simp
  next
    case False
    then have lt: "off + n < length data" using n(2) by simp
    have "find_reg (regs[i := reg']) msg_id = Some i" using find_reg_update[OF less.prems(2)] S(4) I by simp
    then have "\<exists>regs' h''. receive_all junk msg_id gs (regs[i := reg']) h' = Some (regs', [OnMsg cb data], h'')"
      using less.hyps[of "off + n" "regs[i := reg']" h' ESP_OK gs] n lt S I g(3) less.prems(6) by simp
    then show ?thesis using g step False by auto
  qed
qed

lemma legacy_loop_frames:
  "send_legacy_loop collect msg_id data off seq ESP_OK fs0 = (ret, fs) \<Longrightarrow> \<exists>gs. fs = fs0 @ gs \<and> ret = ESP_OK \<and>
     send_legacy_loop collect msg_id data off seq ESP_OK [] = (ESP_OK, gs)"
proof (induction "length data - off" arbitrary: off seq fs0 ret fs rule: less_induct)
  case less
  show ?case
  proof (cases "off < length data")
    case True
    define n where "n = min (length data - off) HOSTED_CHUNK_MAX_DATA"
    define f where "f = legacy_frame seq (word_of_nat (length data)) (off + n \<ge> length data) (take n (drop off data))"
    have d: "length data - (off + n) < length data - off" using True by (auto simp: n_def HOSTED_CHUNK_MAX_DATA_def)
    have u: "send_legacy_loop collect msg_id data off seq ESP_OK es =
        send_legacy_loop collect msg_id data (off + n) (seq + 1) ESP_OK (es @ [f])" for es
      using True by (simp add: send_legacy_loop.simps[of _ _ _ off] n_def f_def collect_def Let_def)
    have prem: "send_legacy_loop collect msg_id data (off + n) (seq + 1) ESP_OK (fs0 @ [f]) = (ret, fs)"
      using less.prems by (simp add: u)
    obtain gs where g: "fs = (fs0 @ [f]) @ gs" "ret = ESP_OK"
      "send_legacy_loop collect msg_id data (off + n) (seq + 1) ESP_OK [] = (ESP_OK, gs)"
      using less.hyps[OF d prem] by auto
    obtain ret1 fs1 where r1: "send_legacy_loop collect msg_id data (off + n) (seq + 1) ESP_OK [f] = (ret1, fs1)"
      by (cases "send_legacy_loop collect msg_id data (off + n) (seq + 1) ESP_OK [f]")
    then obtain gs1 where "fs1 = [f] @ gs1" "ret1 = ESP_OK"
      "send_legacy_loop collect msg_id data (off + n) (seq + 1) ESP_OK [] = (ESP_OK, gs1)"
      using less.hyps[OF d r1] by blast
    then show ?thesis using g u[of "[]"] r1 by simp
  qed (use less.prems in \<open>simp add: send_legacy_loop.simps\<close>)
qed

lemma seq_small:
  assumes "off = HOSTED_CHUNK_MAX_DATA * k" "off < 2 ^ 31"
  shows "(word_of_nat k :: uint32) \<noteq> HOSTED_CHUNK_MAGIC" "(word_of_nat k :: uint32) = 0 \<longleftrightarrow> k = 0"
proof -
  have "8100 * k < 2147483648" using assms by (simp add: HOSTED_CHUNK_MAX_DATA_def)
  then have k: "k < 1048576" by linarith
  have "(1048576 :: nat) < 2 ^ 31" by simp
  with k have "k < 2 ^ 31" by (rule less_trans)
  then have u: "unat (word_of_nat k :: uint32) = k" by (rule unat_of_nat32)
  show "(word_of_nat k :: uint32) = 0 \<longleftrightarrow> k = 0" using unat_eq_zero[of "word_of_nat k :: uint32"] unfolding u by blast
  have "unat HOSTED_CHUNK_MAGIC \<ge> 1048576" by (simp add: HOSTED_CHUNK_MAGIC_def)
  then show "(word_of_nat k :: uint32) \<noteq> HOSTED_CHUNK_MAGIC" using u k by auto
qed

lemma legacy_roundtrip:
  assumes "off = 0 \<and> k = 0 \<or> gathered (regs ! i) off data \<and> rg_expected_seq (regs ! i) = word_of_nat k \<and> k \<noteq> 0"
    and "off = HOSTED_CHUNK_MAX_DATA * k" "find_reg regs msg_id = Some i" "plain_reg (regs ! i) cb"
    "generous h" "off < length data" "length data < 2 ^ 31 - 1"
    and "send_legacy_loop collect msg_id data off (word_of_nat k) ESP_OK [] = (ret, fs)"
  shows "ret = ESP_OK \<and> (\<exists>regs' h'. receive_all junk msg_id fs regs h = Some (regs', [OnMsg cb data], h'))"
  using assms
proof (induction "length data - off" arbitrary: off k regs h ret fs rule: less_induct)
  case less
  define n where "n = min (length data - off) HOSTED_CHUNK_MAX_DATA"
  define f where "f = legacy_frame (word_of_nat k) (word_of_nat (length data)) (off + n \<ge> length data) (take n (drop off data))"
  have n: "0 < n" "off + n \<le> length data" using less.prems(6) by (auto simp: n_def HOSTED_CHUNK_MAX_DATA_def)
  have u: "send_legacy_loop collect msg_id data (off + n) (word_of_nat k + 1) ESP_OK [f] = (ret, fs)"
    using less.prems(6,8) by (simp add: send_legacy_loop.simps[of _ _ _ off] n_def f_def collect_def Let_def)
  obtain gs where g: "fs = f # gs" "ret = ESP_OK"
    "send_legacy_loop collect msg_id data (off + n) (word_of_nat k + 1) ESP_OK [] = (ESP_OK, gs)"
    using legacy_loop_frames[OF u] by auto
  have off: "off < 2 ^ 31" using less.prems(6,7) by simp
  note Q = seq_small[OF less.prems(2) off]
  have st: "off = 0 \<and> (word_of_nat k :: uint32) = 0 \<or>
      gathered (regs ! i) off data \<and> rg_expected_seq (regs ! i) = word_of_nat k \<and> (word_of_nat k :: uint32) \<noteq> 0"
    using less.prems(1) Q(2) by auto
  obtain reg' h' where S: "process_reg junk (regs ! i) f h =
      Some (reg', if off + n = length data then [OnMsg cb data] else [], h')" "plain_reg reg' cb" "generous h'"
    "rg_msg_id reg' = rg_msg_id (regs ! i)"
    "off + n < length data \<longrightarrow> gathered reg' (off + n) data \<and> rg_expected_seq reg' = word_of_nat k + 1"
    using legacy_step[OF st Q(1) less.prems(4,5,6,7) n_def, of junk] by (auto simp: f_def)
  note I = find_reg_Some[OF less.prems(3)]
  have step: "hosted_chunked_process_chunk junk msg_id f regs h =
      Some (regs[i := reg'], if off + n = length data then [OnMsg cb data] else [], h')"
    using less.prems(3) S(1) by (simp add: hosted_chunked_process_chunk_def)
  show ?case
  proof (cases "off + n = length data")
    case True
    have "gs = []" using g(3) True by (simp add: send_legacy_loop.simps[of _ _ _ "length data"])
    then show ?thesis using g step True by simp
  next
    case False
    then have lt: "off + n < length data" using n(2) by simp
    then have "n = HOSTED_CHUNK_MAX_DATA" by (simp add: n_def)
    then have k1: "off + n = HOSTED_CHUNK_MAX_DATA * Suc k" using less.prems(2) by simp
    have "find_reg (regs[i := reg']) msg_id = Some i" using find_reg_update[OF less.prems(3)] S(4) I by simp
    then have "\<exists>regs' h''. receive_all junk msg_id gs (regs[i := reg']) h' = Some (regs', [OnMsg cb data], h'')"
      using less.hyps[of "off + n" "Suc k" "regs[i := reg']" h' ESP_OK gs] n lt S I g(3) k1 less.prems(7)
      by (simp add: add.commute)
    then show ?thesis using g step False by auto
  qed
qed

section \<open>Properties\<close>

text \<open>
  C8: the round trip. A message that \<open>hosted_chunked_send\<close> splits into chunks, in either wire format and of any
  length an \<open>int\<close> can hold, is delivered by the receiver exactly once and byte for byte when its frames
  arrive in order, whatever reassembly the registration was in the middle of.
\<close>

theorem chunked_roundtrip:
  assumes "find_reg regs msg_id = Some i" "plain_reg (regs ! i) cb" "generous h"
    and "data \<noteq> []" "length data < 2 ^ 31 - 1" "wire = HOSTED_CHUNK_WIRE_LEGACY \<or> HOSTED_CHUNK_MAX_DATA < length data"
    and "generous h0" "hosted_chunked_send collect msg_id (Some data) None wire [] h0 = (ret, frames, h1)"
  shows "ret = ESP_OK \<and> live h1 = live h0 \<and>
    (\<exists>regs' h'. receive_all junk msg_id frames regs h = Some (regs', [OnMsg cb data], h'))"
proof -
  obtain h2 where c: "heap_calloc h0 = (True, h2)" using heap_calloc_generous[OF assms(7)] by blast
  have len: "0 < length data" using assms(4) by simp
  have run: "(ret, frames) = (if wire = HOSTED_CHUNK_WIRE_NEW then send_new_loop collect msg_id data 0 ESP_OK []
      else send_legacy_loop collect msg_id data 0 0 ESP_OK [])" "h1 = heap_free h2"
    using assms(4,6,8) c by (auto simp: hosted_chunked_send_def split: if_splits prod.splits)
  have "live h1 = live h0" using run(2) heap_calloc_live[OF c] by simp
  moreover have "ret = ESP_OK \<and> (\<exists>regs' h'. receive_all junk msg_id frames regs h = Some (regs', [OnMsg cb data], h'))"
  proof (cases "wire = HOSTED_CHUNK_WIRE_NEW")
    case True
    have r: "send_new_loop collect msg_id data 0 ESP_OK [] = (ret, frames)" using run(1) True by simp
    show ?thesis by (rule new_roundtrip[OF _ assms(1-3) len assms(5) r]) simp
  next
    case False
    have r: "send_legacy_loop collect msg_id data 0 (word_of_nat 0) ESP_OK [] = (ret, frames)" using run(1) False by simp
    show ?thesis by (rule legacy_roundtrip[OF _ _ assms(1-3) len assms(5) r]) simp_all
  qed
  ultimately show ?thesis by blast
qed

definition one_reg :: "hosted_chunk_reg list" where
  "one_reg = hosted_chunked_register 0x1000 (Some 7) []"

lemma one_reg: "find_reg one_reg 0x1000 = Some 0" "plain_reg (one_reg ! 0) 7" "rg_msg (one_reg ! 0) = None"
  by (simp_all add: one_reg_def hosted_chunked_register_def find_reg_def plain_reg_def MAX_REGISTRATIONS_def)

lemma always_grant_generous: "generous always_grant"
  by (simp add: generous_def always_grant_def)

definition tiny_send :: "esp_err \<times> uint8 list list \<times> heap" where
  "tiny_send = hosted_chunked_send collect 0x1000 (Some [1, 2, 3]) None HOSTED_CHUNK_WIRE_LEGACY [] always_grant"

theorem chunked_roundtrip_witness:
  "\<exists>regs' h'. receive_all 0 0x1000 (fst (snd tiny_send)) one_reg always_grant = Some (regs', [OnMsg 7 [1, 2, 3]], h')"
proof -
  obtain ret fs h1 where r: "tiny_send = (ret, fs, h1)" by (cases tiny_send) auto
  show ?thesis
    using chunked_roundtrip[OF one_reg(1,2) always_grant_generous _ _ _ always_grant_generous r[unfolded tiny_send_def],
        of 0] by (simp add: r)
qed

text \<open>
  C10: a frame of the new format whose \<open>chunk_len\<close> is \<open>2 ^ 31\<close> or more defeats the receiver's bound: the
  length becomes negative, passes every check, and reaches \<open>memcpy\<close> as a huge size. The peer needs only
  one first chunk, so a faulty coprocessor can make the host write past its buffer.
\<close>

theorem huge_chunk_len_overruns:
  assumes "plain_reg reg cb" "generous h" "16 \<le> length data" "le32_at data 0 = HOSTED_CHUNK_MAGIC"
    and "unat (le32_at data 4) < 2147483647" "le32_at data 8 = 0" "2147483648 \<le> unat (le32_at data 12)"
  shows "process_reg junk reg data h = None"
proof -
  let ?t = "le32_at data 4" and ?c = "le32_at data 12"
  have neg: "sint ?c < 0" by (rule sint_neg[OF assms(7)])
  have st: "sint ?t = int (unat ?t)" using assms(5) by (intro sint_nonneg) simp
  obtain reg1 h1 where d: "drop_reassembly reg h = (reg1, h1)" by (cases "drop_reassembly reg h")
  note D = drop_reassembly_frame[OF d]
  have num: "(2 :: int) ^ 31 - 1 = int 2147483647" by simp
  have small: "int (unat ?t) < 2 ^ 31 - 1" unfolding num using assms(5) by (simp only: of_nat_less_iff)
  obtain m h2 where c: "esp_webrtc_create_buffer_for_msg junk (int (unat ?t)) h1 = (Some m, h2)"
    "msg_ok m" "msg_data m = []" "rm_capacity m = int (unat ?t)"
    using create_generous[of h1 "int (unat ?t)" junk, OF _ of_nat_0_le_iff] D(4) assms(2) small by blast
  have z: "rm_data_size m = 0" using msg_data_length[OF c(2)] c(3) by simp
  have "?t \<le> ?c" using assms(5,7) by (simp add: word_le_nat_alt)
  then have fin: "?t \<le> 0 + word_of_int (sint ?c)" by simp
  have cap: "\<not> rm_capacity m < sint ?c" using neg c(4) of_nat_0_le_iff[of "unat ?t", where 'a = int] by linarith
  have bad: "esp_webrtc_append_msg_to_existing m (drop new_hdr_size data) (sint ?c) True = None"
    using neg z cap by (simp add: esp_webrtc_append_msg_to_existing_def copy_in_def)
  have "process_reg junk reg data h = process_new_format_chunk junk reg data h"
    using assms(3,4) by (simp add: process_reg_def)
  also have "\<dots> = None"
    using assms(1,3,5,6) neg bad fin d c(1) st
    by (simp add: process_new_format_chunk_def new_hdr_size_def Let_def plain_reg_def)
  finally show ?thesis .
qed

definition evil_frame :: "uint8 list" where
  "evil_frame = le32_bytes HOSTED_CHUNK_MAGIC @ le32_bytes 100 @ le32_bytes 0 @ le32_bytes 0xFFFFFFFF @ [0]"

theorem huge_chunk_len_overruns_witness:
  "process_reg 0 (one_reg ! 0) evil_frame always_grant = None"
proof (rule huge_chunk_len_overruns[OF one_reg(2) always_grant_generous])
  have f: "le32_at evil_frame 4 = 100" "le32_at evil_frame 12 = 0xFFFFFFFF"
    using le32_at_bytes[of 4 "le32_bytes HOSTED_CHUNK_MAGIC"]
      le32_at_bytes[of 12 "le32_bytes HOSTED_CHUNK_MAGIC @ le32_bytes 100 @ le32_bytes 0"]
    by (simp_all add: evil_frame_def)
  show "le32_at evil_frame 0 = HOSTED_CHUNK_MAGIC" "le32_at evil_frame 8 = 0"
    using le32_at_bytes[of 0 "[]"] le32_at_bytes[of 8 "le32_bytes HOSTED_CHUNK_MAGIC @ le32_bytes 100"]
    by (simp_all add: evil_frame_def)
  show "16 \<le> length evil_frame" by (simp add: evil_frame_def)
  show "unat (le32_at evil_frame 4) < 2147483647" "2147483648 \<le> unat (le32_at evil_frame 12)"
    by (simp_all add: f)
qed

lemma append_ok_length:
  assumes "esp_webrtc_append_msg_to_existing m data (int (length data)) fin = Some (ESP_OK, m1)" "rm_data_size m = 0"
  shows "rm_data_size m1 = int (length data)"
  using assms by (auto simp: esp_webrtc_append_msg_to_existing_def copy_in_def split: if_splits)

text \<open>
  A raw message is not always delivered as it was sent. The new wire format sends a message of up to 8100
  bytes without a header, and the receiver tells it from a chunk by its first bytes: one of at least nine
  bytes that starts with four zero bytes is taken for the first chunk of the legacy format, and no
  delivery of it as it is ever happens.
\<close>

theorem raw_like_legacy_not_delivered:
  assumes "rg_callback reg = Some cb" "9 \<le> length data" "le32_at data 0 = 0"
    and "process_reg junk reg data h = Some (reg', ev, h')"
  shows "OnMsg cb data \<notin> set ev"
proof -
  have run: "process_legacy_format_chunk junk reg data h = Some (reg', ev, h')"
    using assms(2-4) by (simp add: process_reg_def legacy_hdr_size_def HOSTED_CHUNK_MAGIC_def)
  obtain reg1 h1 where d: "drop_reassembly reg h = (reg1, h1)" by (cases "drop_reassembly reg h")
  obtain m h2 where c: "esp_webrtc_create_buffer_for_msg junk (sint (le32_at data 4)) h1 = (m, h2)"
    by (cases "esp_webrtc_create_buffer_for_msg junk (sint (le32_at data 4)) h1")
  let ?d = "drop 9 data"
  show ?thesis
  proof (cases m)
    case None
    then show ?thesis using run assms(2,3) d c by (simp add: process_legacy_format_chunk_def legacy_hdr_size_def Let_def)
  next
    case (Some m0)
    have z: "rm_data_size m0 = 0" using c Some
      by (auto simp: esp_webrtc_create_buffer_for_msg_def split: prod.splits if_splits)
    let ?r = "reg1\<lparr>rg_msg := Some m0, rg_expected_seq := 0\<rparr>"
    have run2: "(case esp_webrtc_append_msg_to_existing m0 ?d (int (length ?d)) (data ! 8 \<noteq> 0) of None \<Rightarrow> None
        | Some (ret, m1) \<Rightarrow> (case after_append ret m1 ?r h2 of (reg2, ev, h2) \<Rightarrow>
            Some (reg2\<lparr>rg_expected_seq := (if ret = ESP_OK \<or> ret = ESP_FAIL then 0 else rg_expected_seq ?r + 1)\<rparr>, ev, h2))) =
        Some (reg', ev, h')"
      using run assms(2,3) d c Some by (simp add: process_legacy_format_chunk_def legacy_hdr_size_def Let_def)
    obtain ret m1 where a: "esp_webrtc_append_msg_to_existing m0 ?d (int (length ?d)) (data ! 8 \<noteq> 0) = Some (ret, m1)"
      using run2 by (auto split: option.splits)
    have ev: "ev = fst (snd (after_append ret m1 ?r h2))" using run2 a by (auto split: prod.splits)
    show ?thesis
    proof (cases "ret = ESP_OK")
      case True
      have "rm_data_size m1 = int (length ?d)" using append_ok_length[OF a[unfolded True] z] .
      then have "length (take (nat (rm_data_size m1)) (rm_buf m1)) < length data" using assms(2) by simp
      then have "take (nat (rm_data_size m1)) (rm_buf m1) \<noteq> data" by (metis less_irrefl)
      then show ?thesis using ev True by (auto simp: after_append_def split: option.splits)
    next
      case False
      then show ?thesis using ev by (simp add: after_append_def)
    qed
  qed
qed

definition zero_message :: "uint8 list" where
  "zero_message = replicate 12 0"

theorem raw_like_legacy_not_delivered_witness:
  "OnMsg 7 zero_message \<notin> set (fst (snd (the (process_reg 0 (one_reg ! 0) zero_message always_grant))))"
proof -
  have "process_reg 0 (one_reg ! 0) zero_message always_grant \<noteq> None" by code_simp
  then obtain reg ev h where r: "process_reg 0 (one_reg ! 0) zero_message always_grant = Some (reg, ev, h)" by auto
  have "le32_at zero_message 0 = 0" by code_simp
  then show ?thesis
    using raw_like_legacy_not_delivered[OF _ _ _ r, of 7] one_reg(2) unfolding r
    by (simp add: plain_reg_def) (simp add: zero_message_def)
qed

section \<open>Safety of the receiver\<close>

definition reg_ok :: "hosted_chunk_reg \<Rightarrow> bool" where
  "reg_ok reg \<longleftrightarrow> (case rg_msg reg of None \<Rightarrow> True | Some m \<Rightarrow> msg_ok m \<and> rm_capacity m \<le> 1073741824)"

text \<open>The blocks a registration owns, and those handed to callbacks.\<close>

definition reg_blocks :: "hosted_chunk_reg \<Rightarrow> int" where
  "reg_blocks reg = 2 * owned (rg_msg reg)"

definition handed :: "chunk_event list \<Rightarrow> int" where
  "handed ev = (\<Sum>e\<leftarrow>ev. case e of OnMsg _ _ \<Rightarrow> 1 | OnChunk _ _ _ _ \<Rightarrow> 0)"

definition rx_fine :: "hosted_chunk_reg \<Rightarrow> heap \<Rightarrow> hosted_chunk_reg \<times> chunk_event list \<times> heap \<Rightarrow> bool" where
  "rx_fine reg h r \<longleftrightarrow> (case r of (reg', ev, h') \<Rightarrow>
     reg_ok reg' \<and> live h' - reg_blocks reg' - handed ev = live h - reg_blocks reg)"

lemma drop_reassembly_ledger:
  "drop_reassembly reg h = (reg1, h1) \<Longrightarrow> rg_msg reg1 = None \<and> live h1 = live h - reg_blocks reg"
  by (auto simp: drop_reassembly_def reg_blocks_def split: option.splits)

lemma append_fine:
  assumes "msg_ok m" "rm_capacity m \<le> 1073741824" "rg_msg reg = Some m" "0 \<le> len" "len \<le> int (length piece)"
    "len \<le> 536870912"
  shows "\<exists>ret m1. esp_webrtc_append_msg_to_existing m piece len fin = Some (ret, m1) \<and>
    rx_fine reg h (after_append ret m1 reg h) \<and>
    (\<forall>q. rx_fine reg h (case after_append ret m1 reg h of (r, ev, h1) \<Rightarrow> (r\<lparr>rg_expected_seq := q\<rparr>, ev, h1)))"
proof -
  have ok: "int_ok (rm_data_size m + len)" using assms(1,2,4,6) by (auto simp: int_ok_def msg_ok_def)
  have b: "reg_blocks reg = 2" using assms(3) by (simp add: reg_blocks_def)
  show ?thesis
  proof (cases "rm_data_size m + len \<le> rm_capacity m")
    case True
    then obtain m1 where a: "esp_webrtc_append_msg_to_existing m piece len fin =
        Some (if fin then ESP_OK else ESP_ERR_NOT_FINISHED, m1)" "msg_ok m1" "rm_capacity m1 = rm_capacity m"
      using append_spec[OF assms(1,4,5) ok, of fin] by auto
    then show ?thesis using b assms(2)
      by (cases fin; cases "rg_callback reg")
        (auto simp: after_append_def rx_fine_def reg_ok_def reg_blocks_def handed_def)
  next
    case False
    then obtain m1 where "esp_webrtc_append_msg_to_existing m piece len fin = Some (ESP_FAIL, m1)"
      using append_spec[OF assms(1,4,5) ok, of fin] by auto
    then show ?thesis using b
      by (auto simp: after_append_def rx_fine_def reg_ok_def reg_blocks_def handed_def)
  qed
qed

lemma rx_fine_same: "reg_ok reg \<Longrightarrow> rx_fine reg h (reg, [], h)"
  by (simp add: rx_fine_def handed_def)

lemma rx_fine_trans:
  assumes "live h1 - reg_blocks reg1 = live h - reg_blocks reg"
  shows "rx_fine reg1 h1 r = rx_fine reg h r"
  using assms by (simp add: rx_fine_def split: prod.splits)

lemma create_fine:
  assumes "drop_reassembly reg h = (reg1, h1)" "esp_webrtc_create_buffer_for_msg junk cap h1 = (m, h2)"
    and "0 \<le> cap" "cap \<le> 1073741824"
  shows "reg_ok (reg1\<lparr>rg_msg := m, rg_expected_seq := q\<rparr>)" "reg_ok (reg1\<lparr>rg_msg := m\<rparr>)"
    "live h2 - reg_blocks (reg1\<lparr>rg_msg := m\<rparr>) = live h - reg_blocks reg"
    "live h2 - reg_blocks (reg1\<lparr>rg_msg := m, rg_expected_seq := q\<rparr>) = live h - reg_blocks reg"
    "m = Some m' \<Longrightarrow> msg_ok m' \<and> rm_capacity m' \<le> 1073741824"
proof -
  note C = create_buffer_spec[OF assms(2)]
  have ok: "msg_ok x \<and> rm_capacity x \<le> 1073741824" if "m = Some x" for x
    using C(1)[OF that assms(3)] assms(4) by simp
  then show "m = Some m' \<Longrightarrow> msg_ok m' \<and> rm_capacity m' \<le> 1073741824" by blast
  show "reg_ok (reg1\<lparr>rg_msg := m, rg_expected_seq := q\<rparr>)" "reg_ok (reg1\<lparr>rg_msg := m\<rparr>)"
    using ok by (auto simp: reg_ok_def split: option.splits)
  show "live h2 - reg_blocks (reg1\<lparr>rg_msg := m\<rparr>) = live h - reg_blocks reg"
    "live h2 - reg_blocks (reg1\<lparr>rg_msg := m, rg_expected_seq := q\<rparr>) = live h - reg_blocks reg"
    using C(2) drop_reassembly_ledger[OF assms(1)] by (cases m; simp add: reg_blocks_def)+
qed

lemma new_fine:
  assumes "reg_ok reg" "length data \<le> 536870912" "unat (le32_at data 4) \<le> 1073741824"
    "unat (le32_at data 12) < 2147483648"
  shows "\<exists>r. process_new_format_chunk junk reg data h = Some r \<and> rx_fine reg h r"
proof (cases "length data < new_hdr_size")
  case True
  then show ?thesis using rx_fine_same[OF assms(1)] by (simp add: process_new_format_chunk_def)
next
  case False
  let ?d = "drop new_hdr_size data" and ?c = "le32_at data 12"
  define len where "len = (if int (length ?d) > sint ?c then sint ?c else int (length ?d))"
  have sc: "sint ?c = int (unat ?c)" using assms(4) by (rule sint_nonneg)
  have len: "0 \<le> len" "len \<le> int (length ?d)" unfolding len_def sc by simp_all
  have len2: "len \<le> 536870912" using len(2) assms(2) by simp
  have st: "sint (le32_at data 4) = int (unat (le32_at data 4))" using assms(3) by (intro sint_nonneg) simp
  have "0 \<le> sint (le32_at data 4)" "sint (le32_at data 4) \<le> 1073741824"
    using assms(3) unfolding st by linarith+
  moreover have "(2 :: nat) ^ 31 - 1 = 2147483647" by simp
  then have "\<not> unat (le32_at data 4) > 2 ^ 31 - 1" using assms(3) by linarith
  ultimately have cap: "0 \<le> sint (le32_at data 4)" "sint (le32_at data 4) \<le> 1073741824"
    "\<not> unat (le32_at data 4) > 2 ^ 31 - 1" by blast+
  show ?thesis
  proof (cases "rg_chunk_callback reg")
    case (Some cb)
    have "\<not> sint ?c < 0" unfolding sc by linarith
    then show ?thesis using Some False assms(1)
      by (simp add: process_new_format_chunk_def Let_def rx_fine_def handed_def)
  next
    case None
    obtain reg1 h1 where d: "drop_reassembly reg h = (reg1, h1)" by (cases "drop_reassembly reg h")
    obtain m h2 where c: "esp_webrtc_create_buffer_for_msg junk (sint (le32_at data 4)) h1 = (m, h2)"
      by (cases "esp_webrtc_create_buffer_for_msg junk (sint (le32_at data 4)) h1")
    note C = create_fine[OF d c cap(1,2)]
    define s where "s = (if le32_at data 8 = 0 then
        (case drop_reassembly reg h of (reg1, h1) \<Rightarrow>
           if unat (le32_at data 4) > 2 ^ 31 - 1 then (None, reg1, h1)
           else (case esp_webrtc_create_buffer_for_msg junk (sint (le32_at data 4)) h1 of
                   (m, h2) \<Rightarrow> (m, reg1\<lparr>rg_msg := m\<rparr>, h2)))
      else (rg_msg reg, reg, h))"
    have s: "s = (if le32_at data 8 = 0 then (m, reg1\<lparr>rg_msg := m\<rparr>, h2) else (rg_msg reg, reg, h))"
      unfolding s_def d prod.case if_not_P[OF cap(3)] c ..
    obtain ms rs hs where S: "s = (ms, rs, hs)" by (cases s)
    have R: "rg_msg rs = ms" "reg_ok rs" "live hs - reg_blocks rs = live h - reg_blocks reg"
      using S C(2,3) assms(1) by (auto simp: s split: if_splits)
    have run: "process_new_format_chunk junk reg data h =
      (case ms of None \<Rightarrow> Some (rs, [], hs)
       | Some m \<Rightarrow> (case esp_webrtc_append_msg_to_existing m ?d len
                      (le32_at data 8 + word_of_int len \<ge> le32_at data 4) of
           None \<Rightarrow> None | Some (ret, m1) \<Rightarrow> Some (after_append ret m1 rs hs)))"
      using False None
      by (simp only: process_new_format_chunk_def Let_def if_False option.case len_def[symmetric] s_def[symmetric] S prod.case)
    show ?thesis
    proof (cases ms)
      case None
      then show ?thesis using run R by (auto simp: rx_fine_def handed_def)
    next
      case (Some m2)
      have m2: "msg_ok m2" "rm_capacity m2 \<le> 1073741824" "rg_msg rs = Some m2"
        using R(1,2) Some by (auto simp: reg_ok_def)
      obtain ret m1 where "esp_webrtc_append_msg_to_existing m2 ?d len (le32_at data 8 + word_of_int len \<ge> le32_at data 4) =
          Some (ret, m1)" "rx_fine rs hs (after_append ret m1 rs hs)"
        using append_fine[OF m2 len len2] by blast
      then show ?thesis using run Some rx_fine_trans[OF R(3)] by simp
    qed
  qed
qed

lemma legacy_fine:
  assumes "reg_ok reg" "length data \<le> 536870912" "unat (le32_at data 4) \<le> 1073741824"
  shows "\<exists>r. process_legacy_format_chunk junk reg data h = Some r \<and> rx_fine reg h r"
proof (cases "length data < legacy_hdr_size")
  case True
  then show ?thesis using rx_fine_same[OF assms(1)] by (simp add: process_legacy_format_chunk_def)
next
  case False
  let ?d = "drop legacy_hdr_size data" and ?q = "le32_at data 0"
  have len: "0 \<le> int (length ?d)" "int (length ?d) \<le> int (length ?d)" "int (length ?d) \<le> 536870912"
    using assms(2) by simp_all
  have st: "sint (le32_at data 4) = int (unat (le32_at data 4))" using assms(3) by (intro sint_nonneg) simp
  have cap: "0 \<le> sint (le32_at data 4)" "sint (le32_at data 4) \<le> 1073741824"
    using assms(3) unfolding st by linarith+
  obtain reg1 h1 where d: "drop_reassembly reg h = (reg1, h1)" by (cases "drop_reassembly reg h")
  obtain m h2 where c: "esp_webrtc_create_buffer_for_msg junk (sint (le32_at data 4)) h1 = (m, h2)"
    by (cases "esp_webrtc_create_buffer_for_msg junk (sint (le32_at data 4)) h1")
  note C = create_fine[OF d c cap]
  define s where "s = (if ?q = 0 then
      (case drop_reassembly reg h of (reg1, h1) \<Rightarrow>
         (case esp_webrtc_create_buffer_for_msg junk (sint (le32_at data 4)) h1 of (m, h2) \<Rightarrow>
            (m \<noteq> None, reg1\<lparr>rg_msg := m, rg_expected_seq := 0\<rparr>, h2)))
    else (True, reg, h))"
  obtain k rs hs where S: "s = (k, rs, hs)" by (cases s)
  have s: "s = (if ?q = 0 then (m \<noteq> None, reg1\<lparr>rg_msg := m, rg_expected_seq := 0\<rparr>, h2) else (True, reg, h))"
    by (simp add: s_def d c)
  have R: "reg_ok rs" "live hs - reg_blocks rs = live h - reg_blocks reg"
    using S C(1,4) assms(1) by (auto simp: s split: if_splits)
  have run: "process_legacy_format_chunk junk reg data h =
    (if \<not> k then Some (rs, [], hs)
     else if ?q \<noteq> rg_expected_seq rs then
       (case drop_reassembly rs hs of (reg2, h2) \<Rightarrow> Some (reg2\<lparr>rg_expected_seq := 0\<rparr>, [], h2))
     else (case rg_msg rs of
             None \<Rightarrow> Some (rs, [], hs)
           | Some m \<Rightarrow> (case esp_webrtc_append_msg_to_existing m ?d (int (length ?d)) (data ! 8 \<noteq> 0) of
               None \<Rightarrow> None
             | Some (ret, m1) \<Rightarrow> (case after_append ret m1 rs hs of (reg2, ev, h2) \<Rightarrow>
                 Some (reg2\<lparr>rg_expected_seq := (if ret = ESP_OK \<or> ret = ESP_FAIL then 0 else rg_expected_seq rs + 1)\<rparr>,
                       ev, h2)))))"
    using False by (simp only: process_legacy_format_chunk_def Let_def if_False s_def[symmetric] S prod.case)
  have same: "rx_fine reg h (rs, [], hs)" using R by (auto simp: rx_fine_def handed_def)
  obtain r2 h3 where d2: "drop_reassembly rs hs = (r2, h3)" by (cases "drop_reassembly rs hs")
  have drp: "rx_fine reg h (r2\<lparr>rg_expected_seq := 0\<rparr>, [], h3)"
    using drop_reassembly_ledger[OF d2] R(2) by (auto simp: rx_fine_def handed_def reg_ok_def reg_blocks_def)
  show ?thesis
  proof (cases "k \<and> ?q = rg_expected_seq rs \<and> rg_msg rs \<noteq> None")
    case False
    then show ?thesis using run same drp d2 by (auto split: option.splits)
  next
    case True
    then obtain m2 where m2: "msg_ok m2" "rm_capacity m2 \<le> 1073741824" "rg_msg rs = Some m2"
      using R(1) by (auto simp: reg_ok_def)
    obtain ret m1 where A: "esp_webrtc_append_msg_to_existing m2 ?d (int (length ?d)) (data ! 8 \<noteq> 0) = Some (ret, m1)"
      "\<And>q. rx_fine rs hs (case after_append ret m1 rs hs of (r, ev, h1) \<Rightarrow> (r\<lparr>rg_expected_seq := q\<rparr>, ev, h1))"
      using append_fine[OF m2 len] by blast
    obtain r3 ev h4 where aa: "after_append ret m1 rs hs = (r3, ev, h4)" by (metis prod_cases3)
    show ?thesis using run True m2(3) A(1) A(2) rx_fine_trans[OF R(2)] by (simp add: aa)
  qed
qed

text \<open>
  C9: the receiver stays inside its buffers and leaks nothing. On any frame at all whose length fields are in
  the range of a sane peer (a total of at most 1 GB and, in the new format, a chunk length below
  \<open>2 ^ 31\<close>), in any state of the reassembly and with any allocation failures, no copy goes out of
  bounds, the reassembly state stays well formed, and the live blocks are those of the reassembly plus
  the messages handed to callbacks.
\<close>

theorem chunk_receiver_safe:
  assumes "reg_ok reg" "length data \<le> 536870912" "unat (le32_at data 4) \<le> 1073741824"
    and "le32_at data 0 = HOSTED_CHUNK_MAGIC \<longrightarrow> unat (le32_at data 12) < 2147483648"
  shows "\<exists>reg' ev h'. process_reg junk reg data h = Some (reg', ev, h') \<and> reg_ok reg' \<and>
    live h' - reg_blocks reg' - handed ev = live h - reg_blocks reg"
proof -
  have raw: "rx_fine reg h (pass_raw reg data h)"
  proof -
    obtain ok h1 where c: "heap_calloc h = (ok, h1)" by (cases "heap_calloc h")
    show ?thesis using heap_calloc_live[OF c] assms(1) c
      by (auto simp: pass_raw_def rx_fine_def handed_def split: option.splits)
  qed
  have "(4 \<le> length data \<and> le32_at data 0 = HOSTED_CHUNK_MAGIC) \<or>
    (\<not> (length data \<ge> 4 \<and> le32_at data 0 = HOSTED_CHUNK_MAGIC) \<and>
      length data \<ge> legacy_hdr_size \<and> (le32_at data 0 = 0 \<or> rg_msg reg \<noteq> None)) \<or>
    process_reg junk reg data h = Some (pass_raw reg data h)"
    unfolding process_reg_def by (cases "length data \<ge> 4 \<and> le32_at data 0 = HOSTED_CHUNK_MAGIC") simp_all
  then have "\<exists>r. process_reg junk reg data h = Some r \<and> rx_fine reg h r"
  proof (elim disjE)
    assume "4 \<le> length data \<and> le32_at data 0 = HOSTED_CHUNK_MAGIC"
    then show ?thesis using new_fine[OF assms(1-3)] assms(4) by (simp add: process_reg_def)
  next
    assume "\<not> (length data \<ge> 4 \<and> le32_at data 0 = HOSTED_CHUNK_MAGIC) \<and>
      length data \<ge> legacy_hdr_size \<and> (le32_at data 0 = 0 \<or> rg_msg reg \<noteq> None)"
    then show ?thesis using legacy_fine[OF assms(1-3)] by (auto simp: process_reg_def)
  next
    assume "process_reg junk reg data h = Some (pass_raw reg data h)"
    then show ?thesis using raw by blast
  qed
  then show ?thesis by (auto simp: rx_fine_def split: prod.splits)
qed

theorem chunk_receiver_safe_witness:
  "\<exists>reg' ev h'. process_reg 0 (one_reg ! 0) zero_message always_grant = Some (reg', ev, h') \<and> reg_ok reg' \<and>
    live h' - reg_blocks reg' - handed ev = live always_grant - reg_blocks (one_reg ! 0)"
proof -
  have f: "le32_at zero_message 4 = 0" "le32_at zero_message 0 = 0" by code_simp+
  show ?thesis
    by (rule chunk_receiver_safe) (use one_reg(3) f in \<open>simp_all add: reg_ok_def zero_message_def HOSTED_CHUNK_MAGIC_def\<close>)
qed

end
