(* ===== verification/Bridge_Cmd_Props.thy ===== *)
theory Bridge_Cmd_Props
  imports Bridge_Cmd Chunked_Props
begin

text \<open>
  What the command channel promises: whatever is received, sent and run, every block of memory is
  with a slot or with a task that waits; and a response or an event that was sent arrives whole,
  however many chunks it takes.
\<close>

section \<open>The ledger\<close>

definition slot_cost :: "reassembly_slot \<Rightarrow> int" where "slot_cost s = (if rs_msg s = None then 0 else 2)"
definition work_cost :: "'h bridge_work \<Rightarrow> int" where "work_cost w = 1 + owned (work_data w)"

definition held_memory :: "('h, 'b) bridge \<Rightarrow> int" where
  "held_memory b = (\<Sum>s\<leftarrow>br_reassembly b. slot_cost s) + (\<Sum>w\<leftarrow>br_tasks b. work_cost w)"

definition spare :: "('h, 'b) bridge \<Rightarrow> int" where "spare b = live (br_heap b) - held_memory b"

definition has_key :: "uint32 \<Rightarrow> bridge_msg_type \<Rightarrow> reassembly_slot \<Rightarrow> bool" where
  "has_key cmd_id mt s \<longleftrightarrow> rs_active s \<and> rs_cmd_id s = cmd_id \<and> rs_msg_type s = mt"

definition slot_fine :: "reassembly_slot \<Rightarrow> bool" where
  "slot_fine s \<longleftrightarrow> (if rs_active s then \<exists>m. rs_msg s = Some m \<and> msg_ok m \<and> rm_capacity m < 2 ^ 30 else s = zero_reassembly)"

definition fine_slots :: "('h, 'b) bridge \<Rightarrow> bool" where
  "fine_slots b \<longleftrightarrow>
     length (br_reassembly b) = BRIDGE_CMD_MAX_HANDLERS \<and> (\<forall>s\<in>set (br_reassembly b). slot_fine s) \<and>
     (\<forall>c t. \<forall>i < length (br_reassembly b). \<forall>j < length (br_reassembly b).
        has_key c t (slot_of b i) \<longrightarrow> has_key c t (slot_of b j) \<longrightarrow> i = j)"

named_theorems bridge_simps \<open>what the updates of the channel do to its fields\<close>

lemma slot_cost_zero [simp]: "slot_cost zero_reassembly = 0" "rs_msg zero_reassembly = None"
  by (simp_all add: slot_cost_def zero_reassembly_def)

lemma has_key_zero [simp]: "\<not> has_key c t zero_reassembly" by (simp add: has_key_def zero_reassembly_def)

lemma put_reassembly_fields [bridge_simps]:
  "br_reassembly (put_reassembly i s b) = (br_reassembly b)[i := s]" "br_heap (put_reassembly i s b) = br_heap b"
  "br_tasks (put_reassembly i s b) = br_tasks b" "br_response_handlers (put_reassembly i s b) = br_response_handlers b"
  "br_event_handlers (put_reassembly i s b) = br_event_handlers b"
  by (simp_all add: put_reassembly_def)

lemma reset_fields [bridge_simps]:
  "br_reassembly (reset_reassembly_slot i b) = (br_reassembly b)[i := zero_reassembly]"
  "br_tasks (reset_reassembly_slot i b) = br_tasks b"
  "br_response_handlers (reset_reassembly_slot i b) = br_response_handlers b"
  "br_event_handlers (reset_reassembly_slot i b) = br_event_handlers b"
  "generous (br_heap (reset_reassembly_slot i b)) = generous (br_heap b)"
  by (simp_all add: reset_reassembly_slot_def bridge_simps split: option.split)

lemma free_unpacked_fields [bridge_simps]:
  "br_reassembly (free_unpacked b) = br_reassembly b" "br_tasks (free_unpacked b) = br_tasks b"
  "br_response_handlers (free_unpacked b) = br_response_handlers b"
  "br_event_handlers (free_unpacked b) = br_event_handlers b" "br_heap (free_unpacked b) = heap_free (br_heap b)"
  by (simp_all add: free_unpacked_def)

lemma queue_work_fields [bridge_simps]:
  "br_reassembly (queue_work P w b) = br_reassembly b" "br_response_handlers (queue_work P w b) = br_response_handlers b"
  "br_event_handlers (queue_work P w b) = br_event_handlers b"
  "br_tasks (queue_work P w b) = (if add_task P (br_offered b) = ESP_OK then br_tasks b @ [w] else br_tasks b)"
  by (simp_all add: queue_work_def)

lemma spare_heap [bridge_simps]: "spare (b\<lparr>br_heap := h\<rparr>) = spare b + live h - live (br_heap b)"
  by (simp add: spare_def held_memory_def)

lemma spare_put [bridge_simps]:
  "i < length (br_reassembly b) \<Longrightarrow> spare (put_reassembly i s b) = spare b + slot_cost (slot_of b i) - slot_cost s"
  by (simp add: spare_def held_memory_def bridge_simps sum_list_upd)

lemma spare_reset [bridge_simps]: "i < length (br_reassembly b) \<Longrightarrow> spare (reset_reassembly_slot i b) = spare b"
  by (simp add: reset_reassembly_slot_def spare_put spare_heap slot_cost_def zero_reassembly_def split: option.split)

lemma spare_free_unpacked [bridge_simps]: "spare (free_unpacked b) = spare b - 1"
  by (simp add: free_unpacked_def spare_heap)

lemma spare_queue_work [bridge_simps]: "spare (queue_work P w b) = spare b - work_cost w"
  by (simp add: queue_work_def spare_def held_memory_def work_cost_def)

lemma spare_other [bridge_simps]:
  "spare (b\<lparr>br_sent := x\<rparr>) = spare b" "spare (b\<lparr>br_calls := y\<rparr>) = spare b" "spare (b\<lparr>br_seq_counter := n\<rparr>) = spare b"
  "spare (b\<lparr>br_handlers := t1\<rparr>) = spare b" "spare (b\<lparr>br_response_handlers := t2\<rparr>) = spare b"
  "spare (b\<lparr>br_event_handlers := t3\<rparr>) = spare b"
  by (simp_all add: spare_def held_memory_def)

lemma fine_slots_cong: "br_reassembly b' = br_reassembly b \<Longrightarrow> fine_slots b' = fine_slots b"
  by (simp add: fine_slots_def)

lemma fine_slots_simps [bridge_simps]:
  "fine_slots (free_unpacked b) = fine_slots b" "fine_slots (b\<lparr>br_heap := h\<rparr>) = fine_slots b"
  "fine_slots (queue_work P w b) = fine_slots b"
  "fine_slots (put_reassembly i s (put_reassembly i s' b)) = fine_slots (put_reassembly i s b)"
  "fine_slots (put_reassembly i s (b\<lparr>br_heap := h\<rparr>)) = fine_slots (put_reassembly i s b)"
  "fine_slots (reset_reassembly_slot i b) = fine_slots (put_reassembly i zero_reassembly b)"
  by (simp_all add: fine_slots_cong[of "free_unpacked b" b] fine_slots_cong[of "b\<lparr>br_heap := h\<rparr>" b]
      fine_slots_cong[of "queue_work P w b" b] fine_slots_cong[of "put_reassembly i s (put_reassembly i s' b)" "put_reassembly i s b"]
      fine_slots_cong[of "put_reassembly i s (b\<lparr>br_heap := h\<rparr>)" "put_reassembly i s b"]
      fine_slots_cong[of "reset_reassembly_slot i b" "put_reassembly i zero_reassembly b"] bridge_simps)

lemma fine_slots_put:
  assumes "fine_slots b" "i < BRIDGE_CMD_MAX_HANDLERS" "slot_fine s"
    and "\<And>c t j. has_key c t s \<Longrightarrow> j < BRIDGE_CMD_MAX_HANDLERS \<Longrightarrow> j \<noteq> i \<Longrightarrow> \<not> has_key c t (slot_of b j)"
  shows "fine_slots (put_reassembly i s b)"
proof -
  let ?ss = "(br_reassembly b)[i := s]"
  note F = assms(1)[unfolded fine_slots_def]
  have "\<forall>x\<in>set ?ss. slot_fine x" using F assms(3) set_update_subset_insert[of "br_reassembly b" i s] by auto
  moreover have "x = y" if "x < length ?ss" "y < length ?ss" "has_key c t (?ss ! x)" "has_key c t (?ss ! y)" for c t x y
  proof (cases "x = i \<or> y = i")
    case True
    show ?thesis
    proof (rule ccontr)
      assume "x \<noteq> y"
      then show False using True that assms(4)[of c t x] assms(4)[of c t y] F by auto
    qed
  next
    case False
    then show ?thesis using that F by (auto simp: nth_list_update)
  qed
  ultimately show ?thesis using F by (simp add: fine_slots_def bridge_simps)
qed

lemma fine_slots_zero: "fine_slots b \<Longrightarrow> i < BRIDGE_CMD_MAX_HANDLERS \<Longrightarrow> fine_slots (put_reassembly i zero_reassembly b)"
  by (rule fine_slots_put) (auto simp: slot_fine_def zero_reassembly_def has_key_def)

lemma fine_slots_reset: "fine_slots b \<Longrightarrow> i < BRIDGE_CMD_MAX_HANDLERS \<Longrightarrow> fine_slots (reset_reassembly_slot i b)"
  using fine_slots_zero[of b i] by (simp add: bridge_simps)

section \<open>Finding a slot\<close>

lemma find_slot_loop_Some:
  "find_slot_loop c t exact i fr ss = Some k \<Longrightarrow>
     i \<le> k \<and> k < i + length ss \<and> has_key c t (ss ! (k - i)) \<or>
     \<not> exact \<and> (\<forall>s\<in>set ss. \<not> has_key c t s) \<and> (fr = Some k \<or> i \<le> k \<and> k < i + length ss \<and> \<not> rs_active (ss ! (k - i)))"
proof (induction ss arbitrary: i fr)
  case Nil
  then show ?case by (simp split: if_splits)
next
  case (Cons s ss)
  show ?case
  proof (cases "has_key c t s")
    case True
    then show ?thesis using Cons.prems by (auto simp: has_key_def)
  next
    case False
    then have "find_slot_loop c t exact (Suc i) (if \<not> exact \<and> \<not> rs_active s \<and> fr = None then Some i else fr) ss = Some k"
      using Cons.prems by (auto simp: has_key_def)
    from Cons.IH[OF this] show ?thesis using False by (auto simp: nth_Cons' split: if_splits)
  qed
qed

lemma find_slot_loop_None: "find_slot_loop c t exact i fr ss = None \<Longrightarrow> s \<in> set ss \<Longrightarrow> \<not> has_key c t s"
  by (induction ss arbitrary: i fr) (auto simp: has_key_def split: if_splits)

lemma find_exact:
  "find_reassembly_slot c t True b = Some i \<Longrightarrow> i < length (br_reassembly b) \<and> has_key c t (slot_of b i)"
  unfolding find_reassembly_slot_def by (drule find_slot_loop_Some) simp

lemma find_first:
  "find_reassembly_slot c t False b = Some i \<Longrightarrow>
     i < length (br_reassembly b) \<and>
     (has_key c t (slot_of b i) \<or> \<not> rs_active (slot_of b i) \<and> (\<forall>s\<in>set (br_reassembly b). \<not> has_key c t s))"
  unfolding find_reassembly_slot_def by (drule find_slot_loop_Some) auto

lemma find_the_key:
  assumes "fine_slots b" "i < BRIDGE_CMD_MAX_HANDLERS" "has_key c t (slot_of b i)"
  shows "find_reassembly_slot c t True b = Some i"
proof (cases "find_reassembly_slot c t True b")
  case None
  have "slot_of b i \<in> set (br_reassembly b)" using assms(1,2) by (simp add: fine_slots_def)
  with None assms(3) show ?thesis unfolding find_reassembly_slot_def by (blast dest: find_slot_loop_None)
next
  case (Some k)
  then show ?thesis using find_exact[OF Some] assms by (auto simp: fine_slots_def)
qed

section \<open>Sending\<close>

lemma send_one_spec:
  assumes "bridge_cmd_send_one P msg b = (ret, b')"
  shows "spare b' = spare b" "br_reassembly b' = br_reassembly b" "br_tasks b' = br_tasks b"
    "br_sent b' = (if ret = ESP_OK then br_sent b @ [bp_pack P msg] else br_sent b)"
    "br_handlers b' = br_handlers b" "br_initialized b' = br_initialized b"
  using assms by (auto simp: bridge_cmd_send_one_def Let_def bridge_simps heap_calloc_def split: if_splits prod.splits)

text \<open>The chunks that the loop sends.\<close>

function chunks :: "bridge_command \<Rightarrow> uint8 list \<Rightarrow> nat \<Rightarrow> uint32 \<Rightarrow> bridge_command list" where
  "chunks msg data offset seq_num =
     (if offset < length data
      then
        let n = min (length data - offset) BRIDGE_CMD_CHUNK_PAYLOAD_MAX
        in msg\<lparr>bc_seq_num := seq_num, bc_is_final := (length data \<le> offset + n),
                bc_total_size := of_nat (length data), bc_payload := take n (drop offset data)\<rparr> #
           chunks msg data (offset + n) (seq_num + 1)
      else [])"
  by pat_completeness auto
termination
  by (relation "measure (\<lambda>(msg, data, offset, seq_num). length data - offset)")
     (auto simp: BRIDGE_CMD_CHUNK_PAYLOAD_MAX_def)

declare chunks.simps [simp del]

lemma send_chunks_spec:
  "send_chunks P msg data off seq b = (ret, b') \<Longrightarrow>
     spare b' = spare b \<and> br_reassembly b' = br_reassembly b \<and> br_tasks b' = br_tasks b \<and> br_handlers b' = br_handlers b \<and>
     br_initialized b' = br_initialized b \<and>
     (ret = ESP_OK \<longrightarrow> br_sent b' = br_sent b @ map (bp_pack P) (chunks msg data off seq))"
proof (induction P msg data off seq b rule: send_chunks.induct)
  case (1 P msg data off seq b)
  show ?case
  proof (cases "off < length data")
    case True
    let ?n = "min (length data - off) BRIDGE_CMD_CHUNK_PAYLOAD_MAX"
    let ?m = "msg\<lparr>bc_seq_num := seq, bc_is_final := (length data \<le> off + ?n), bc_total_size := of_nat (length data),
                  bc_payload := take ?n (drop off data)\<rparr>"
    obtain r1 b1 where one: "bridge_cmd_send_one P ?m b = (r1, b1)" by fastforce
    note S = send_one_spec[OF one]
    show ?thesis
    proof (cases "r1 = ESP_OK")
      case ok: True
      then have "send_chunks P msg data (off + ?n) (seq + 1) b1 = (ret, b')"
        using "1.prems" True one by (simp add: send_chunks.simps[of P msg data off] Let_def)
      from "1.IH"[OF True refl one[symmetric] refl _ this] ok S True show ?thesis
        by (simp add: chunks.simps[of msg data off] Let_def)
    next
      case False
      then have "b' = b1" "ret = r1" using "1.prems" True one by (simp_all add: send_chunks.simps[of P msg data off] Let_def)
      then show ?thesis using S False by simp
    qed
  next
    case False
    then show ?thesis using "1.prems" by (simp add: send_chunks.simps[of P msg data off] chunks.simps[of msg data off])
  qed
qed

definition typed :: "bridge_msg_type \<Rightarrow> uint32 \<Rightarrow> uint32 \<Rightarrow> uint32 \<Rightarrow> bridge_command" where
  "typed mt cmd_id req_id status =
     BRIDGE_COMMAND_INIT\<lparr>bc_cmd_id := cmd_id, bc_msg_type := mt, bc_req_id := req_id, bc_status := status\<rparr>"

definition typed_messages :: "bridge_msg_type \<Rightarrow> uint32 \<Rightarrow> uint32 \<Rightarrow> uint32 \<Rightarrow> uint8 list \<Rightarrow> bridge_command list" where
  "typed_messages mt cmd_id req_id status data =
     (if length data \<le> BRIDGE_CMD_CHUNK_PAYLOAD_MAX
      then [(typed mt cmd_id req_id status)\<lparr>bc_seq_num := 0, bc_is_final := True, bc_total_size := of_nat (length data), bc_payload := data\<rparr>]
      else chunks (typed mt cmd_id req_id status) data 0 0)"

lemma send_typed_spec:
  assumes "bridge_cmd_send_typed P mt cmd_id req_id status data b = (ret, b')"
  shows "spare b' = spare b \<and> br_reassembly b' = br_reassembly b \<and> br_tasks b' = br_tasks b \<and> br_handlers b' = br_handlers b \<and>
     br_initialized b' = br_initialized b \<and>
     (ret = ESP_OK \<longrightarrow> br_sent b' = br_sent b @ map (bp_pack P) (typed_messages mt cmd_id req_id status data))"
proof (cases "length data \<le> BRIDGE_CMD_CHUNK_PAYLOAD_MAX")
  case True
  then show ?thesis using assms send_one_spec[of P _ b ret b']
    by (auto simp: bridge_cmd_send_typed_def typed_messages_def typed_def Let_def)
next
  case False
  then show ?thesis using assms send_chunks_spec[of P _ data 0 0 b ret b']
    by (auto simp: bridge_cmd_send_typed_def typed_messages_def typed_def Let_def)
qed

section \<open>Every step keeps the ledger\<close>

lemma copy_payload_live: "copy_payload p h = (d, failed, h1) \<Longrightarrow> live h1 = live h + owned d"
  by (auto simp: copy_payload_def heap_calloc_def Let_def split: if_splits)

lemma deliver_single_spec:
  assumes "\<And>st d. work_data (work st d) = d"
  shows "spare (deliver_single P work cmd b) = spare b - 1" "br_reassembly (deliver_single P work cmd b) = br_reassembly b"
proof -
  obtain d f h1 where c: "copy_payload (bc_payload cmd) (br_heap b) = (d, f, h1)" by (metis prod_cases3)
  obtain ok h2 where a: "heap_calloc h1 = (ok, h2)" by fastforce
  show "spare (deliver_single P work cmd b) = spare b - 1" "br_reassembly (deliver_single P work cmd b) = br_reassembly b"
    using copy_payload_live[OF c] heap_calloc_live[OF a]
    by (simp_all add: deliver_single_def c a bridge_simps work_cost_def assms)
qed

lemma create_buffer_live: "esp_webrtc_create_buffer_for_msg junk cap h = (r, h') \<Longrightarrow> live h' = live h + (if r = None then 0 else 2)"
  by (rule create_buffer_spec(2))

lemma start_reassembly_spec:
  assumes "start_reassembly P mt req cmd b = (r, b1)" "fine_slots b" "0 \<le> sint (bc_total_size cmd)"
    "sint (bc_total_size cmd) < 2 ^ 30"
  shows "fine_slots b1 \<and> spare b1 = spare b - (if r = None then 1 else 0) \<and>
    (\<forall>i. r = Some i \<longrightarrow> i < BRIDGE_CMD_MAX_HANDLERS \<and> has_key (bc_cmd_id cmd) mt (slot_of b1 i))"
proof (cases "find_reassembly_slot (bc_cmd_id cmd) mt False b")
  case None
  then show ?thesis using assms by (auto simp: start_reassembly_def bridge_simps)
next
  case (Some i)
  note F = find_first[OF Some]
  have i: "i < length (br_reassembly b)" "i < BRIDGE_CMD_MAX_HANDLERS" using F assms(2) by (simp_all add: fine_slots_def)
  define b0 where "b0 = (if rs_active (slot_of b i) then reset_reassembly_slot i b else b)"
  have z: "\<not> rs_active (slot_of b i) \<Longrightarrow> slot_of b i = zero_reassembly"
    using assms(2) i by (auto simp: fine_slots_def slot_fine_def)
  have b0: "br_reassembly b0 = (br_reassembly b)[i := zero_reassembly]" "spare b0 = spare b" "fine_slots b0"
  proof -
    show "br_reassembly b0 = (br_reassembly b)[i := zero_reassembly]"
      by (cases "rs_active (slot_of b i)") (simp_all add: b0_def bridge_simps z[symmetric])
    show "spare b0 = spare b" using i by (simp add: b0_def bridge_simps)
    show "fine_slots b0" using fine_slots_reset[OF assms(2) i(2)] assms(2) by (simp add: b0_def)
  qed
  let ?s = "\<lparr>rs_cmd_id = bc_cmd_id cmd, rs_msg_type = mt, rs_req_id = req, rs_status = bc_status cmd, rs_msg = None, rs_active = True\<rparr>"
  have alone: "\<not> has_key (bc_cmd_id cmd) mt (slot_of b0 j)" if "j < BRIDGE_CMD_MAX_HANDLERS" "j \<noteq> i" for j
  proof
    assume "has_key (bc_cmd_id cmd) mt (slot_of b0 j)"
    then have j: "has_key (bc_cmd_id cmd) mt (slot_of b j)" "j < length (br_reassembly b)"
      using that assms(2) by (simp_all add: b0 fine_slots_def)
    then have "slot_of b j \<in> set (br_reassembly b)" by simp
    then show False using F j that(2) assms(2) i by (metis fine_slots_def)
  qed
  obtain r0 h where c: "esp_webrtc_create_buffer_for_msg (fresh_byte P) (sint (bc_total_size cmd)) (br_heap b0) = (r0, h)" by fastforce
  have key: "has_key c t \<lparr>rs_cmd_id = bc_cmd_id cmd, rs_msg_type = mt, rs_req_id = req, rs_status = bc_status cmd,
      rs_msg = x, rs_active = True\<rparr> \<longleftrightarrow> c = bc_cmd_id cmd \<and> t = mt" for c t x by (auto simp: has_key_def)
  show ?thesis
  proof (cases r0)
    case None
    have "r = None" "b1 = free_unpacked (reset_reassembly_slot i (put_reassembly i ?s (b0\<lparr>br_heap := h\<rparr>)))"
      using assms(1) Some c None by (simp_all add: start_reassembly_def b0_def)
    moreover have "fine_slots b1" using fine_slots_zero[OF b0(3) i(2)] by (simp add: \<open>b1 = _\<close> bridge_simps)
    moreover have "spare b1 = spare b - 1"
      using i b0 create_buffer_live[OF c] None \<open>b1 = _\<close> by (simp add: bridge_simps slot_cost_def)
    ultimately show ?thesis by simp
  next
    case (Some m)
    have m: "msg_ok m" "rm_capacity m < 2 ^ 30" using create_buffer_spec(1)[OF c Some] assms(3,4) by simp_all
    have r: "r = Some i" "b1 = put_reassembly i (?s\<lparr>rs_msg := Some m\<rparr>) (b0\<lparr>br_heap := h\<rparr>)"
      using assms(1) \<open>find_reassembly_slot _ _ _ _ = _\<close> c Some by (simp_all add: start_reassembly_def b0_def)
    have "fine_slots b1" unfolding r(2)
      by (rule fine_slots_put) (use alone b0(3) i m in \<open>auto simp: slot_fine_def key bridge_simps\<close>)
    moreover have "spare b1 = spare b" using i b0 create_buffer_live[OF c] Some
      by (simp add: r(2) bridge_simps slot_cost_def)
    moreover have "has_key (bc_cmd_id cmd) mt (slot_of b1 i)" using i by (simp add: r(2) bridge_simps b0 key)
    ultimately show ?thesis using i r by simp
  qed
qed

lemma continue_reassembly_spec:
  assumes "continue_reassembly mt cmd b = (r, b1)" "fine_slots b"
  shows "fine_slots b1 \<and> spare b1 = spare b - (if r = None then 1 else 0) \<and>
    (\<forall>i. r = Some i \<longrightarrow> i < BRIDGE_CMD_MAX_HANDLERS \<and> has_key (bc_cmd_id cmd) mt (slot_of b1 i))"
proof (cases "find_reassembly_slot (bc_cmd_id cmd) mt True b")
  case None
  then show ?thesis using assms by (auto simp: continue_reassembly_def bridge_simps)
next
  case (Some i)
  note F = find_exact[OF Some]
  have i: "i < length (br_reassembly b)" "i < BRIDGE_CMD_MAX_HANDLERS" using F assms(2) by (simp_all add: fine_slots_def)
  have "fine_slots (put_reassembly i zero_reassembly b)" by (rule fine_slots_zero[OF assms(2) i(2)])
  moreover have "continue_reassembly mt cmd b =
      (if mt = MSG_TYPE_RSP \<and> rs_req_id (slot_of b i) \<noteq> bc_req_id cmd
       then (None, free_unpacked (reset_reassembly_slot i b)) else (Some i, b))"
    by (simp add: continue_reassembly_def Some)
  ultimately show ?thesis using assms F i by (auto simp: bridge_simps split: if_splits)
qed

definition frame_fits :: "('h, 'b) bridge_ports \<Rightarrow> 'b \<Rightarrow> bool" where
  "frame_fits P f \<longleftrightarrow>
     (case bp_unpack P f of None \<Rightarrow> True
      | Some c \<Rightarrow> length (bc_payload c) < 2 ^ 30 \<and> unat (bc_total_size c) < 2 ^ 30)"

lemma append_chunk_spec:
  assumes "fine_slots b" "i < BRIDGE_CMD_MAX_HANDLERS" "has_key c t (slot_of b i)" "length (bc_payload cmd) < 2 ^ 30"
    and w: "\<And>s d. work_data (work s d) = d"
  shows "\<exists>b1. append_chunk P work cmd i b = Some b1 \<and> fine_slots b1 \<and> spare b1 = spare b - 1"
proof -
  have i: "i < length (br_reassembly b)" using assms(1,2) by (simp add: fine_slots_def)
  then have "slot_fine (slot_of b i)" "rs_active (slot_of b i)" using assms(1,3) by (auto simp: fine_slots_def has_key_def)
  then obtain m where m: "rs_msg (slot_of b i) = Some m" "msg_ok m" "rm_capacity m < 2 ^ 30" by (auto simp: slot_fine_def)
  let ?len = "sint (of_nat (length (bc_payload cmd)) :: uint32)"
  have len: "?len = int (length (bc_payload cmd))" using assms(4) by (intro sint_of_nat) simp
  have ok: "int_ok (rm_data_size m + ?len)" using m assms(4) by (auto simp: len int_ok_def msg_ok_def)
  from append_spec[OF m(2) _ _ ok, of "bc_payload cmd" "bc_is_final cmd"] obtain ret m'
    where A: "esp_webrtc_append_msg_to_existing m (bc_payload cmd) ?len (bc_is_final cmd) = Some (ret, m')"
      and ret: "ret = ESP_FAIL \<or> msg_ok m' \<and> rm_capacity m' = rm_capacity m" by (auto simp: len split: if_splits)
  define b1 where "b1 = put_reassembly i ((slot_of b i)\<lparr>rs_msg := Some m'\<rparr>) b"
  have s1: "spare b1 = spare b" using i m by (simp add: b1_def bridge_simps slot_cost_def)
  have z: "fine_slots (put_reassembly i zero_reassembly b1)"
    using fine_slots_zero[OF assms(1,2)] by (simp add: b1_def bridge_simps)
  have i1: "i < length (br_reassembly b1)" and at: "slot_of b1 i = (slot_of b i)\<lparr>rs_msg := Some m'\<rparr>"
    using i by (simp_all add: b1_def bridge_simps)
  have run: "append_chunk P work cmd i b =
      (if ret = ESP_OK
       then (case heap_calloc (br_heap b1) of (ok, h) \<Rightarrow>
               if ok then Some (queue_work P (work (slot_of b i) (Some (msg_data m')))
                                 (free_unpacked (put_reassembly i zero_reassembly (b1\<lparr>br_heap := heap_free h\<rparr>))))
               else Some (free_unpacked (reset_reassembly_slot i (b1\<lparr>br_heap := h\<rparr>))))
       else if ret = ESP_FAIL then Some (free_unpacked (reset_reassembly_slot i b1)) else Some (free_unpacked b1))"
    unfolding append_chunk_def m(1) b1_def by (simp add: A Let_def)
  consider "ret = ESP_OK" | "ret = ESP_FAIL" | "ret \<noteq> ESP_OK" "ret \<noteq> ESP_FAIL" by blast
  then show ?thesis
  proof cases
    case 1
    obtain g h where a: "heap_calloc (br_heap b1) = (g, h)" by fastforce
    show ?thesis using 1 a i1 s1 heap_calloc_live[OF a] z
      by (cases g) (auto simp: run bridge_simps work_cost_def w at slot_cost_def zero_reassembly_def)
  next
    case 2
    then show ?thesis using i1 s1 z by (auto simp: run bridge_simps)
  next
    case 3
    have "slot_fine ((slot_of b i)\<lparr>rs_msg := Some m'\<rparr>)"
      using ret 3(2) m(3) \<open>rs_active (slot_of b i)\<close> by (simp add: slot_fine_def)
    moreover have "\<not> has_key c' t' (slot_of b j)"
      if "has_key c' t' ((slot_of b i)\<lparr>rs_msg := Some m'\<rparr>)" "j < BRIDGE_CMD_MAX_HANDLERS" "j \<noteq> i" for c' t' j
      using that assms(1,2) by (auto simp: fine_slots_def has_key_def)
    ultimately have "fine_slots b1" unfolding b1_def by (rule fine_slots_put[OF assms(1,2)])
    then show ?thesis using 3 s1 by (simp add: run bridge_simps)
  qed
qed

lemma reassemble_spec:
  assumes "fine_slots b" "length (bc_payload cmd) < 2 ^ 30" "unat (bc_total_size cmd) < 2 ^ 30"
    and w: "\<And>s d. work_data (work s d) = d"
  shows "\<exists>b1. reassemble P mt req work cmd b = Some b1 \<and> fine_slots b1 \<and> spare b1 = spare b - 1"
proof -
  have "bc_total_size cmd = of_nat (unat (bc_total_size cmd))" by simp
  then have t: "sint (bc_total_size cmd) = int (unat (bc_total_size cmd))"
    using sint_of_nat[of "unat (bc_total_size cmd)"] assms(3) by simp
  have total: "0 \<le> sint (bc_total_size cmd)" "sint (bc_total_size cmd) < 2 ^ 30"
    unfolding t using assms(3) by (simp, metis of_nat_less_iff of_nat_numeral of_nat_power)
  obtain r b1 where rb: "(if bc_seq_num cmd = 0 then start_reassembly P mt req cmd b else continue_reassembly mt cmd b) = (r, b1)"
    by fastforce
  have S: "fine_slots b1 \<and> spare b1 = spare b - (if r = None then 1 else 0) \<and>
      (\<forall>i. r = Some i \<longrightarrow> i < BRIDGE_CMD_MAX_HANDLERS \<and> has_key (bc_cmd_id cmd) mt (slot_of b1 i))"
    using rb start_reassembly_spec[of P mt req cmd b r b1] continue_reassembly_spec[of mt cmd b r b1] assms(1) total
    by (auto simp del: One_nat_def split: if_splits)
  show ?thesis
  proof (cases r)
    case None
    then show ?thesis using S rb by (simp add: reassemble_def)
  next
    case (Some i)
    from append_chunk_spec[of b1 i "bc_cmd_id cmd" mt cmd work P] S Some assms(2) w
    show ?thesis using rb Some by (auto simp: reassemble_def)
  qed
qed

lemma fine_slots_calls [bridge_simps]: "fine_slots (b\<lparr>br_calls := x\<rparr>) = fine_slots b"
  by (rule fine_slots_cong) simp

lemma process_spec:
  assumes "fine_slots b" "frame_fits P f"
  shows "\<exists>b1. bridge_cmd_process_message P f b = Some b1 \<and> fine_slots b1 \<and> spare b1 = spare b"
proof -
  obtain r b0 where u: "cmd_unpack P f b = (r, b0)" by fastforce
  have U: "fine_slots b0" "spare b0 = spare b + (if r = None then 0 else 1)" "r = None \<or> r = bp_unpack P f"
    using u assms(1) by (auto simp: cmd_unpack_def heap_calloc_def Let_def bridge_simps split: if_splits option.splits)
  show ?thesis
  proof (cases r)
    case None
    then show ?thesis using u U by (simp add: bridge_cmd_process_message_def)
  next
    case (Some c)
    then have "bp_unpack P f = Some c" using U(3) by simp
    then have fits: "length (bc_payload c) < 2 ^ 30" "unat (bc_total_size c) < 2 ^ 30"
      using assms(2) by (simp_all add: frame_fits_def)
    have resp: "\<exists>b1. process_response P c b0 = Some b1 \<and> fine_slots b1 \<and> spare b1 = spare b0 - 1"
      using U(1) reassemble_spec[OF U(1) fits]
      by (auto simp: process_response_def bridge_simps deliver_single_spec fine_slots_cong[OF deliver_single_spec(2)] split: option.split)
    have event: "\<exists>b1. process_event P c b0 = Some b1 \<and> fine_slots b1 \<and> spare b1 = spare b0 - 1"
      using U(1) reassemble_spec[OF U(1) fits]
      by (auto simp: process_event_def bridge_simps deliver_single_spec fine_slots_cong[OF deliver_single_spec(2)] split: option.split)
    have req: "fine_slots (process_request P c b0) \<and> spare (process_request P c b0) = spare b0 - 1"
    proof -
      obtain ok h where a: "heap_calloc (br_heap b0) = (ok, h)" by fastforce
      obtain d g h1 where p: "copy_payload (bc_payload c) h = (d, g, h1)" by (metis prod_cases3)
      show ?thesis using U(1) heap_calloc_live[OF a] copy_payload_live[OF p]
        by (simp add: process_request_def a p bridge_simps work_cost_def)
    qed
    have "cmd_unpack P f b = (Some c, b0)" "spare b0 = spare b + 1" using u Some U(2) by simp_all
    then show ?thesis using U(1) resp event req
      by (auto simp: bridge_cmd_process_message_def bridge_simps split: bridge_msg_type.split)
  qed
qed

lemma write_cb_spec:
  "bridge_cmd_write_cb_impl P c r n data b = (ret, n', b') \<Longrightarrow>
     spare b' = spare b \<and> br_reassembly b' = br_reassembly b \<and> br_tasks b' = br_tasks b"
  by (auto simp: bridge_cmd_write_cb_impl_def send_one_spec dest: send_one_spec split: prod.splits)

lemma stream_handler_spec:
  "stream_handler P c r st n b = (status, n', b') \<Longrightarrow>
     spare b' = spare b \<and> br_reassembly b' = br_reassembly b \<and> br_tasks b' = br_tasks b"
proof (induction st arbitrary: n b)
  case (Stream_write data k)
  obtain ret n1 b1 where w: "bridge_cmd_write_cb_impl P c r n data b = (ret, n1, b1)" by (metis prod_cases3)
  then show ?case using Stream_write.IH[of "k ret" n1 b1] Stream_write.prems write_cb_spec[OF w] by simp
qed simp

lemma handle_request_spec:
  "spare (bridge_cmd_handle_request P c r d b) = spare b - 1 - owned d \<and>
   br_reassembly (bridge_cmd_handle_request P c r d b) = br_reassembly b"
proof (cases "find_entry_by_id c (br_handlers b)")
  case None
  obtain ret b1 where s: "bridge_cmd_send_typed P MSG_TYPE_RSP c r STATUS_NO_HANDLER [] b = (ret, b1)" by fastforce
  then show ?thesis using None send_typed_spec[OF s]
    by (simp add: bridge_cmd_handle_request_def bridge_cmd_send_response_def bridge_simps)
next
  case (Some e)
  show ?thesis
  proof (cases "be_type e = BRIDGE_CMD_HANDLER_STREAMING")
    case True
    obtain status n b1 where w: "stream_handler P c r (run_streaming P (be_handler e) c d) 0 b = (status, n, b1)"
      by (metis prod_cases3)
    obtain ret b2 where s: "bridge_cmd_send_one P
        (BRIDGE_COMMAND_INIT\<lparr>bc_cmd_id := c, bc_msg_type := MSG_TYPE_RSP, bc_req_id := r, bc_status := status,
           bc_seq_num := n, bc_is_final := True, bc_total_size := 0\<rparr>) b1 = (ret, b2)" by fastforce
    show ?thesis using Some True w s stream_handler_spec[OF w] send_one_spec[OF s]
      by (simp add: bridge_cmd_handle_request_def bridge_simps)
  next
    case False
    obtain status x where h: "run_sync P (be_handler e) c d = (status, x)" by fastforce
    let ?b = "b\<lparr>br_heap := handler_alloc x (br_heap b)\<rparr>"
    obtain ret b2 where s: "bridge_cmd_send_typed P MSG_TYPE_RSP c r status (case x of None \<Rightarrow> [] | Some y \<Rightarrow> y) ?b = (ret, b2)"
      by fastforce
    have "spare ?b = spare b + owned x" by (simp add: bridge_simps handler_alloc_def)
    then show ?thesis using Some False h s send_typed_spec[OF s]
      by (simp add: bridge_cmd_handle_request_def bridge_cmd_send_response_def Let_def bridge_simps)
  qed
qed

lemma run_task_spec: "spare (run_task P b) = spare b \<and> br_reassembly (run_task P b) = br_reassembly b"
proof (cases "br_tasks b")
  case (Cons w ws)
  have "spare (b\<lparr>br_tasks := ws\<rparr>) = spare b + work_cost w" by (simp add: spare_def held_memory_def Cons)
  then show ?thesis
  proof (cases w)
    case (Request_work c r d)
    then show ?thesis using handle_request_spec[of P c r d "b\<lparr>br_tasks := ws\<rparr>"] \<open>spare _ = _\<close>
      by (simp add: run_task_def Cons work_cost_def)
  qed (simp_all add: run_task_def Cons bridge_cmd_handle_response_def bridge_cmd_handle_event_def spare_def
        held_memory_def work_cost_def)
qed (simp add: run_task_def)

section \<open>Runs\<close>

datatype ('h, 'b) bridge_op =
    Op_init bool bool bool bool esp_err
  | Op_register uint32 "'h option"
  | Op_register_streaming uint32 "'h option"
  | Op_register_response uint32 "'h option"
  | Op_register_chunked_response uint32 "'h option"
  | Op_register_event uint32 "'h option"
  | Op_register_chunked_event uint32 "'h option"
  | Op_send uint32 "uint8 list"
  | Op_send_event uint32 "uint8 list"
  | Op_receive uint32 'b
  | Op_task

fun do_bridge_op :: "('h, 'b) bridge_ports \<Rightarrow> ('h, 'b) bridge_op \<Rightarrow> ('h, 'b) bridge \<Rightarrow> ('h, 'b) bridge option" where
  "do_bridge_op P (Op_init m1 m2 m3 m4 reg) b = Some (snd (bridge_cmd_init m1 m2 m3 m4 reg b))"
| "do_bridge_op P (Op_register c h) b = Some (snd (bridge_cmd_register_handler c h b))"
| "do_bridge_op P (Op_register_streaming c h) b = Some (snd (bridge_cmd_register_with_callback c h b))"
| "do_bridge_op P (Op_register_response c h) b = Some (snd (bridge_cmd_register_response_handler c h b))"
| "do_bridge_op P (Op_register_chunked_response c h) b = Some (snd (bridge_cmd_register_chunked_response_handler c h b))"
| "do_bridge_op P (Op_register_event c h) b = Some (snd (bridge_cmd_register_event_handler c h b))"
| "do_bridge_op P (Op_register_chunked_event c h) b = Some (snd (bridge_cmd_register_chunked_event_handler c h b))"
| "do_bridge_op P (Op_send c d) b = Some (snd (bridge_cmd_send P c d b))"
| "do_bridge_op P (Op_send_event c d) b = Some (snd (bridge_cmd_send_event P c d b))"
| "do_bridge_op P (Op_receive i f) b = bridge_cmd_receive_cb P i f b"
| "do_bridge_op P Op_task b = Some (run_task P b)"

fun bridge_run :: "('h, 'b) bridge_ports \<Rightarrow> ('h, 'b) bridge_op list \<Rightarrow> ('h, 'b) bridge \<Rightarrow> ('h, 'b) bridge option" where
  "bridge_run P [] b = Some b"
| "bridge_run P (x # xs) b = Option.bind (do_bridge_op P x b) (bridge_run P xs)"

fun op_fits :: "('h, 'b) bridge_ports \<Rightarrow> ('h, 'b) bridge_op \<Rightarrow> bool" where
  "op_fits P (Op_receive i f) = frame_fits P f"
| "op_fits P x = True"

lemma register_spec:
  "spare (snd (bridge_cmd_register_handler c h b)) = spare b \<and> br_reassembly (snd (bridge_cmd_register_handler c h b)) = br_reassembly b"
  "spare (snd (bridge_cmd_register_with_callback c h b)) = spare b \<and> br_reassembly (snd (bridge_cmd_register_with_callback c h b)) = br_reassembly b"
  "spare (snd (bridge_cmd_register_response_handler c h b)) = spare b \<and> br_reassembly (snd (bridge_cmd_register_response_handler c h b)) = br_reassembly b"
  "spare (snd (bridge_cmd_register_chunked_response_handler c h b)) = spare b \<and> br_reassembly (snd (bridge_cmd_register_chunked_response_handler c h b)) = br_reassembly b"
  "spare (snd (bridge_cmd_register_event_handler c h b)) = spare b \<and> br_reassembly (snd (bridge_cmd_register_event_handler c h b)) = br_reassembly b"
  "spare (snd (bridge_cmd_register_chunked_event_handler c h b)) = spare b \<and> br_reassembly (snd (bridge_cmd_register_chunked_event_handler c h b)) = br_reassembly b"
  by (simp_all add: bridge_cmd_register_handler_def bridge_cmd_register_with_callback_def
      bridge_cmd_register_response_handler_def bridge_cmd_register_chunked_response_handler_def
      bridge_cmd_register_event_handler_def bridge_cmd_register_chunked_event_handler_def bridge_simps
      split: prod.split)

lemma bridge_op_spec:
  assumes "fine_slots b" "op_fits P x"
  shows "\<exists>b'. do_bridge_op P x b = Some b' \<and> fine_slots b' \<and> spare b' = spare b"
proof (cases x)
  case (Op_receive i f)
  then show ?thesis using assms process_spec[of b P f] by (auto simp: bridge_cmd_receive_cb_def)
next
  case Op_task
  then show ?thesis using assms run_task_spec[of P b] fine_slots_cong[of "run_task P b" b] by simp
next
  case (Op_init m1 m2 m3 m4 reg)
  have "br_reassembly (snd (bridge_cmd_init m1 m2 m3 m4 reg b)) = br_reassembly b \<and>
      spare (snd (bridge_cmd_init m1 m2 m3 m4 reg b)) = spare b"
    by (simp add: bridge_cmd_init_def spare_def held_memory_def)
  then show ?thesis using Op_init assms fine_slots_cong[of "snd (bridge_cmd_init m1 m2 m3 m4 reg b)" b] by simp
next
  case (Op_send c d)
  have "br_reassembly (snd (bridge_cmd_send P c d b)) = br_reassembly b \<and> spare (snd (bridge_cmd_send P c d b)) = spare b"
  proof (cases "br_initialized b")
    case True
    let ?n = "br_seq_counter b + 1"
    let ?m = "BRIDGE_COMMAND_INIT\<lparr>bc_cmd_id := c, bc_msg_type := MSG_TYPE_CMD, bc_req_id := ?n, bc_status := 0,
                bc_seq_num := 0, bc_is_final := True, bc_payload := d\<rparr>"
    obtain r b1 where s: "bridge_cmd_send_one P ?m (b\<lparr>br_seq_counter := ?n\<rparr>) = (r, b1)" by fastforce
    show ?thesis using True send_one_spec[OF s] s by (simp add: bridge_cmd_send_def Let_def bridge_simps)
  qed (simp add: bridge_cmd_send_def)
  then show ?thesis using Op_send assms fine_slots_cong[of "snd (bridge_cmd_send P c d b)" b] by simp
next
  case (Op_send_event c d)
  obtain r b1 where s: "bridge_cmd_send_typed P MSG_TYPE_EVT c 0 STATUS_OK d b = (r, b1)" by fastforce
  show ?thesis using Op_send_event assms send_typed_spec[OF s] s fine_slots_cong[of b1 b]
    by (simp add: bridge_cmd_send_event_def)
qed (use assms register_spec fine_slots_cong in \<open>simp_all, blast+\<close>)

lemma bridge_run_spec:
  "fine_slots b \<Longrightarrow> \<forall>x\<in>set xs. op_fits P x \<Longrightarrow> \<exists>b'. bridge_run P xs b = Some b' \<and> fine_slots b' \<and> spare b' = spare b"
proof (induction xs arbitrary: b)
  case (Cons x xs)
  then obtain b1 where "do_bridge_op P x b = Some b1" "fine_slots b1" "spare b1 = spare b"
    using bridge_op_spec[of b P x] by auto
  then show ?case using Cons.IH[of b1] Cons.prems by auto
qed simp

lemma bridge_start_spec: "fine_slots (bridge_start h) \<and> spare (bridge_start h) = live h"
  by (simp add: fine_slots_def spare_def held_memory_def bridge_start_def slot_fine_def sum_list_replicate)
     (simp add: zero_reassembly_def has_key_def)

text \<open>
  C40: no block of memory is lost or freed twice on the command channel. Whatever is received,
  registered, sent and run, in any order, with memory, transport and work queue failing at any
  point, no operation reads or writes out of bounds, and what the channel holds of the heap is two
  blocks for each message being reassembled and the item and data of each task that waits. Frames are
  taken to have less than a gigabyte of payload and of announced size.
\<close>

theorem bridge_never_leaks:
  "\<forall>x\<in>set xs. op_fits P x \<Longrightarrow>
     \<exists>b. bridge_run P xs (bridge_start h) = Some b \<and> live (br_heap b) = live h + held_memory b"
proof -
  assume "\<forall>x\<in>set xs. op_fits P x"
  then obtain b where "bridge_run P xs (bridge_start h) = Some b" "spare b = spare (bridge_start h :: ('a, 'b) bridge)"
    using bridge_run_spec[OF conjunct1[OF bridge_start_spec]] by blast
  moreover have "spare (bridge_start h :: ('a, 'b) bridge) = live h" using bridge_start_spec by blast
  ultimately show ?thesis by (intro exI[of _ b]) (simp add: spare_def)
qed

text \<open>A response of six bytes of which three have come: a buffer and its descriptor are held.\<close>

definition demo_bridge_ports :: "(nat, bridge_command) bridge_ports" where
  "demo_bridge_ports =
     \<lparr>bp_pack = id, bp_unpack = Some, hosted_send = (\<lambda>_ _. ESP_OK), add_task = (\<lambda>_. ESP_OK),
      run_sync = (\<lambda>_ _ _. (0, None)), run_streaming = (\<lambda>_ _ _. Stream_end 0), fresh_byte = 0\<rparr>"

definition demo_bridge_ops :: "(nat, bridge_command) bridge_op list" where
  "demo_bridge_ops =
     [Op_init True True True True ESP_OK, Op_register_response 5 (Some 1),
      Op_receive BRIDGE_CMD_MSG_ID ((typed MSG_TYPE_RSP 5 1 0)\<lparr>bc_total_size := 6, bc_payload := [1, 2, 3]\<rparr>)]"

theorem bridge_never_leaks_witness:
  "\<exists>b. bridge_run demo_bridge_ports demo_bridge_ops (bridge_start always_grant) = Some b \<and> live (br_heap b) = 2"
proof -
  have "\<forall>x\<in>set demo_bridge_ops. op_fits demo_bridge_ports x"
    by (simp add: demo_bridge_ops_def frame_fits_def demo_bridge_ports_def typed_def BRIDGE_COMMAND_INIT_def)
  from bridge_never_leaks[OF this, of always_grant] obtain b
    where b: "bridge_run demo_bridge_ports demo_bridge_ops (bridge_start always_grant) = Some b"
      "live (br_heap b) = live always_grant + held_memory b" by blast
  have "map_option held_memory (bridge_run demo_bridge_ports demo_bridge_ops (bridge_start always_grant)) = Some 2"
    by code_simp
  then show ?thesis using b by (simp add: always_grant_def)
qed

end
