(* ===== verification/Bridge_Cmd_Trip.thy ===== *)
theory Bridge_Cmd_Trip
  imports Bridge_Cmd_Props
begin

text \<open>
  A response or an event goes from one chip to the other: the frames the sender hands to the transport
  make the receiver queue the callback of a simple handler once, with the whole payload.
\<close>

section \<open>Receiving the frames\<close>

fun receive_all :: "('h, 'b) bridge_ports \<Rightarrow> 'b list \<Rightarrow> ('h, 'b) bridge \<Rightarrow> ('h, 'b) bridge option" where
  "receive_all P [] b = Some b"
| "receive_all P (f # fs) b = Option.bind (bridge_cmd_receive_cb P BRIDGE_CMD_MSG_ID f b) (receive_all P fs)"

text \<open>The receiver has a simple handler for the message; \<open>work\<close> makes its task.\<close>

definition wants_whole ::
  "bridge_msg_type \<Rightarrow> uint32 \<Rightarrow> (uint32 \<Rightarrow> uint32 \<Rightarrow> uint32 \<Rightarrow> uint8 list option \<Rightarrow> 'h bridge_work) \<Rightarrow> ('h, 'b) bridge \<Rightarrow> bool" where
  "wants_whole mt cmd_id work b \<longleftrightarrow>
     (case mt of
        MSG_TYPE_RSP \<Rightarrow>
          (case find_entry_by_id cmd_id (br_response_handlers b) of None \<Rightarrow> False
           | Some e \<Rightarrow> be_type e = BRIDGE_CMD_RSP_SIMPLE \<and> work = (\<lambda>c r s d. Response_work c r s d (be_handler e)))
      | MSG_TYPE_EVT \<Rightarrow>
          (case find_entry_by_id cmd_id (br_event_handlers b) of None \<Rightarrow> False
           | Some e \<Rightarrow> be_type e = BRIDGE_CMD_EVT_SIMPLE \<and> work = (\<lambda>c r s d. Event_work c s d (be_handler e)))
      | _ \<Rightarrow> False)"

lemma wants_whole_data: "wants_whole mt cmd_id work b \<Longrightarrow> work_data (work c r s d) = d"
  by (auto simp: wants_whole_def split: bridge_msg_type.splits option.splits)

lemma wants_whole_cong:
  "br_response_handlers b' = br_response_handlers b \<Longrightarrow> br_event_handlers b' = br_event_handlers b \<Longrightarrow>
     wants_whole mt c work b' = wants_whole mt c work b"
  by (simp add: wants_whole_def split: bridge_msg_type.splits)

lemma wants_whole_simps [bridge_simps]:
  "wants_whole mt c work (put_reassembly i s b) = wants_whole mt c work b"
  "wants_whole mt c work (reset_reassembly_slot i b) = wants_whole mt c work b"
  "wants_whole mt c work (free_unpacked b) = wants_whole mt c work b"
  "wants_whole mt c work (queue_work P w b) = wants_whole mt c work b"
  "wants_whole mt c work (b\<lparr>br_heap := h\<rparr>) = wants_whole mt c work b"
  by (rule wants_whole_cong; simp add: bridge_simps)+

definition takes_all :: "('h, 'b) bridge_ports \<Rightarrow> bool" where
  "takes_all P \<longleftrightarrow> (\<forall>m. bp_unpack P (bp_pack P m) = Some m) \<and> (\<forall>n. add_task P n = ESP_OK)"

text \<open>The receiver is well: its slots are fine, it has memory and it has the handler.\<close>

definition well :: "bridge_msg_type \<Rightarrow> uint32 \<Rightarrow> (uint32 \<Rightarrow> uint32 \<Rightarrow> uint32 \<Rightarrow> uint8 list option \<Rightarrow> 'h bridge_work) \<Rightarrow> ('h, 'b) bridge \<Rightarrow> bool" where
  "well mt c work b \<longleftrightarrow> fine_slots b \<and> generous (br_heap b) \<and> wants_whole mt c work b"

lemma receive_typed:
  assumes "takes_all P" "well (bc_msg_type m) (bc_cmd_id m) work b" "bc_msg_type m = MSG_TYPE_EVT \<longrightarrow> bc_req_id m = 0"
  shows "\<exists>b1. bridge_cmd_receive_cb P BRIDGE_CMD_MSG_ID (bp_pack P m) b =
      (if bc_seq_num m = 0 \<and> bc_is_final m then Some (deliver_single P (work (bc_cmd_id m) (bc_req_id m)) m b1)
       else reassemble P (bc_msg_type m) (bc_req_id m) (\<lambda>s d. work (rs_cmd_id s) (rs_req_id s) (rs_status s) d) m b1) \<and>
     well (bc_msg_type m) (bc_cmd_id m) work b1 \<and> br_tasks b1 = br_tasks b \<and> br_reassembly b1 = br_reassembly b"
proof -
  obtain h where h: "heap_calloc (br_heap b) = (True, h)" "generous h"
    using heap_calloc_generous assms(2) by (auto simp: well_def)
  let ?b = "b\<lparr>br_heap := h\<rparr>"
  have "well (bc_msg_type m) (bc_cmd_id m) work ?b" "br_tasks ?b = br_tasks b" "br_reassembly ?b = br_reassembly b"
    using assms(2) h by (simp_all add: well_def bridge_simps)
  moreover have "cmd_unpack P (bp_pack P m) b = (Some m, ?b)" using assms(1) h by (simp add: cmd_unpack_def takes_all_def)
  moreover have "wants_whole (bc_msg_type m) (bc_cmd_id m) work b" using assms(2) by (simp add: well_def)
  ultimately show ?thesis using assms(3)
    by (intro exI[of _ ?b])
       (auto simp: bridge_cmd_receive_cb_def bridge_cmd_process_message_def process_response_def process_event_def
          wants_whole_def split: bridge_msg_type.splits option.splits)
qed

section \<open>Chunk by chunk\<close>

text \<open>The slot \<open>i\<close> has gathered the bytes \<open>got\<close> of a payload of \<open>sz\<close> bytes.\<close>

definition in_slot :: "nat \<Rightarrow> bridge_msg_type \<Rightarrow> uint32 \<Rightarrow> uint32 \<Rightarrow> uint32 \<Rightarrow> nat \<Rightarrow> uint8 list \<Rightarrow> ('h, 'b) bridge \<Rightarrow> bool" where
  "in_slot i mt c r st sz got b \<longleftrightarrow>
     i < BRIDGE_CMD_MAX_HANDLERS \<and> has_key c mt (slot_of b i) \<and> rs_req_id (slot_of b i) = r \<and> rs_status (slot_of b i) = st \<and>
     (\<exists>m. rs_msg (slot_of b i) = Some m \<and> msg_ok m \<and> rm_capacity m = int sz \<and> msg_data m = got)"

text \<open>The next piece is appended to the slot.\<close>

lemma append_next:
  assumes "takes_all P" "well mt c work b" "in_slot i mt c r st sz got b"
    and piece: "length got + length (bc_payload m) \<le> sz" "sz < 2 ^ 30"
  shows "\<exists>b'. append_chunk P (\<lambda>s d. work (rs_cmd_id s) (rs_req_id s) (rs_status s) d) m i b = Some b' \<and> well mt c work b' \<and>
     (if bc_is_final m then br_tasks b' = br_tasks b @ [work c r st (Some (got @ bc_payload m))]
      else br_tasks b' = br_tasks b \<and> in_slot i mt c r st sz (got @ bc_payload m) b')"
proof -
  let ?work = "\<lambda>s d. work (rs_cmd_id s) (rs_req_id s) (rs_status s) d"
  let ?n = "length (bc_payload m)"
  obtain d where d: "rs_msg (slot_of b i) = Some d" "msg_ok d" "rm_capacity d = int sz" "msg_data d = got"
    using assms(3) by (auto simp: in_slot_def)
  have i: "i < length (br_reassembly b)" "i < BRIDGE_CMD_MAX_HANDLERS" "has_key c mt (slot_of b i)"
    "rs_req_id (slot_of b i) = r" "rs_status (slot_of b i) = st" "rs_cmd_id (slot_of b i) = c"
    using assms(2,3) by (auto simp: in_slot_def well_def fine_slots_def has_key_def)
  have l: "sint (of_nat ?n :: uint32) = int ?n" using piece by (intro sint_of_nat) simp
  have ds: "rm_data_size d = int (length got)" using msg_data_length[OF d(2)] d(4) by simp
  have ok: "int_ok (rm_data_size d + int ?n)" using piece by (simp add: ds int_ok_def)
  have fits: "rm_data_size d + int ?n \<le> rm_capacity d" using piece by (simp add: ds d)
  obtain d' where A: "esp_webrtc_append_msg_to_existing d (bc_payload m) (int ?n) (bc_is_final m) =
      Some (if bc_is_final m then ESP_OK else ESP_ERR_NOT_FINISHED, d')" "msg_ok d'"
    "msg_data d' = msg_data d @ bc_payload m" "rm_capacity d' = rm_capacity d"
    using append_spec[OF d(2) _ _ ok, of "bc_payload m" "bc_is_final m"] fits by auto
  have data': "msg_data d' = got @ bc_payload m" using A(3) d(4) by simp
  define b1 where "b1 = put_reassembly i ((slot_of b i)\<lparr>rs_msg := Some d'\<rparr>) b"
  have z: "fine_slots (put_reassembly i zero_reassembly b1)"
    using fine_slots_zero[of b i] i assms(2) by (simp add: b1_def bridge_simps well_def)
  have w1: "wants_whole mt c work b1" using assms(2) by (simp add: well_def b1_def bridge_simps)
  show ?thesis
  proof (cases "bc_is_final m")
    case True
    obtain h where h: "heap_calloc (br_heap b1) = (True, h)" "generous h"
      using heap_calloc_generous assms(2) by (auto simp: well_def b1_def bridge_simps)
    let ?b = "queue_work P (?work (slot_of b i) (Some (msg_data d')))
                (free_unpacked (put_reassembly i zero_reassembly (b1\<lparr>br_heap := heap_free h\<rparr>)))"
    have "append_chunk P ?work m i b = Some ?b"
    proof -
      have "esp_webrtc_append_msg_to_existing d (bc_payload m) (int ?n) (bc_is_final m) = Some (ESP_OK, d')"
        using A(1) True by simp
      then show ?thesis unfolding append_chunk_def d(1) l by (simp add: Let_def b1_def[symmetric] h)
    qed
    moreover have "well mt c work ?b"
    proof -
      have "generous (br_heap ?b)" using h assms(1) by (simp add: queue_work_def takes_all_def bridge_simps)
      moreover have "wants_whole mt c work ?b" using w1 by (simp add: bridge_simps)
      ultimately show ?thesis using z by (simp add: well_def bridge_simps)
    qed
    moreover have "br_tasks ?b = br_tasks b @ [work c r st (Some (got @ bc_payload m))]"
      using assms(1) True by (simp add: bridge_simps b1_def takes_all_def data' i)
    ultimately show ?thesis using True by auto
  next
    case False
    have "append_chunk P ?work m i b = Some (free_unpacked b1)"
    proof -
      have "esp_webrtc_append_msg_to_existing d (bc_payload m) (int ?n) (bc_is_final m) = Some (ESP_ERR_NOT_FINISHED, d')"
        using A(1) False by simp
      then show ?thesis unfolding append_chunk_def d(1) l by (simp add: Let_def b1_def[symmetric])
    qed
    moreover have "fine_slots b1" unfolding b1_def
    proof (rule fine_slots_put)
      have "slot_fine (slot_of b i)" "rs_active (slot_of b i)" using assms(2) i by (auto simp: well_def fine_slots_def has_key_def)
      then show "slot_fine ((slot_of b i)\<lparr>rs_msg := Some d'\<rparr>)" using A(2,4) d(3) piece(2) by (simp add: slot_fine_def)
      show "\<not> has_key c' t' (slot_of b j)"
        if "has_key c' t' ((slot_of b i)\<lparr>rs_msg := Some d'\<rparr>)" "j < BRIDGE_CMD_MAX_HANDLERS" "j \<noteq> i" for c' t' j
        using that assms(2) i(2) by (auto simp: well_def fine_slots_def has_key_def)
    qed (use assms(2) i in \<open>simp_all add: well_def\<close>)
    moreover have "generous (br_heap (free_unpacked b1))" using assms(2) by (simp add: well_def b1_def bridge_simps)
    moreover have "wants_whole mt c work (free_unpacked b1)" using w1 by (simp add: bridge_simps)
    moreover have "in_slot i mt c r st sz (got @ bc_payload m) (free_unpacked b1)"
      using A(2,4) d(3) data' i by (simp add: in_slot_def bridge_simps b1_def has_key_def)
    ultimately show ?thesis using False by (auto simp: well_def bridge_simps b1_def)
  qed
qed

lemma min_chunk: "off < length data \<Longrightarrow> 0 < min (length data - off) BRIDGE_CMD_CHUNK_PAYLOAD_MAX"
  by (simp add: BRIDGE_CMD_CHUNK_PAYLOAD_MAX_def)

text \<open>The chunks after the first.\<close>

lemma later_chunks:
  assumes "takes_all P" "mt = MSG_TYPE_EVT \<longrightarrow> r = 0"
  shows "length data < 2 ^ 30 \<Longrightarrow> off < length data \<Longrightarrow> 0 < unat q \<Longrightarrow> unat q + (length data - off) < 2 ^ 32 \<Longrightarrow>
    well mt c work b \<Longrightarrow> in_slot i mt c r st (length data) (take off data) b \<Longrightarrow>
    \<exists>b'. receive_all P (map (bp_pack P) (chunks (typed mt c r st) data off q)) b = Some b' \<and>
         br_tasks b' = br_tasks b @ [work c r st (Some data)]"
proof (induction "typed mt c r st" data off q arbitrary: b rule: chunks.induct)
  case (1 data off q)
  define n where "n = min (length data - off) BRIDGE_CMD_CHUNK_PAYLOAD_MAX"
  define m where "m = (typed mt c r st)\<lparr>bc_seq_num := q, bc_is_final := (length data \<le> off + n),
              bc_total_size := of_nat (length data), bc_payload := take n (drop off data)\<rparr>"
  have m: "bc_msg_type m = mt" "bc_cmd_id m = c" "bc_req_id m = r" "bc_seq_num m = q"
    "bc_payload m = take n (drop off data)" "bc_is_final m \<longleftrightarrow> length data \<le> off + n"
    by (simp_all add: m_def typed_def)
  have q: "q \<noteq> 0" using 1 by auto
  have nb: "off + n \<le> length data" "0 < n" "n \<le> 2 ^ 30"
    using 1 min_chunk[of off data] by (auto simp: n_def BRIDGE_CMD_CHUNK_PAYLOAD_MAX_def)
  have fin: "bc_is_final m \<longleftrightarrow> off + n = length data" using m(6) nb by auto
  obtain b1 where b1: "bridge_cmd_receive_cb P BRIDGE_CMD_MSG_ID (bp_pack P m) b =
      reassemble P mt r (\<lambda>s d. work (rs_cmd_id s) (rs_req_id s) (rs_status s) d) m b1"
    "well mt c work b1" "br_tasks b1 = br_tasks b" "br_reassembly b1 = br_reassembly b"
    using receive_typed[OF assms(1), of m work b] 1 m q assms(2) by auto
  have slot: "in_slot i mt c r st (length data) (take off data) b1" using 1 b1(4) by (simp add: in_slot_def)
  then have "find_reassembly_slot c mt True b1 = Some i" "rs_req_id (slot_of b1 i) = r"
    using find_the_key[of b1 i c mt] b1(2) by (auto simp: well_def in_slot_def)
  then have "continue_reassembly mt m b1 = (Some i, b1)" using m by (simp add: continue_reassembly_def)
  then have re: "reassemble P mt r w m b1 = append_chunk P w m i b1" for w using m q by (simp add: reassemble_def)
  have len: "length data < 2 ^ 30" using 1 by simp
  obtain b2 where b2: "append_chunk P (\<lambda>s d. work (rs_cmd_id s) (rs_req_id s) (rs_status s) d) m i b1 = Some b2"
    "well mt c work b2" "if bc_is_final m then br_tasks b2 = br_tasks b1 @ [work c r st (Some data)]
      else br_tasks b2 = br_tasks b1 \<and> in_slot i mt c r st (length data) (take (off + n) data) b2"
    using append_next[OF assms(1) b1(2) slot, of m] m(5) nb len fin by (auto simp: take_add)
  have eq: "chunks (typed mt c r st) data off q = m # chunks (typed mt c r st) data (off + n) (q + 1)"
    using 1 by (simp add: chunks.simps[of _ data off] Let_def m_def n_def)
  show ?case
  proof (cases "off + n = length data")
    case True
    then have "chunks (typed mt c r st) data (off + n) (q + 1) = []" by (simp add: chunks.simps)
    then show ?thesis using eq b1 b2 re True fin by simp
  next
    case False
    then have less: "off + n < length data" using nb by simp
    have q1: "unat (q + 1) = unat q + 1" using 1 by (simp add: unat_word_ariths(1))
    have q2: "0 < unat (q + 1)" "unat (q + 1) + (length data - (off + n)) < 2 ^ 32"
      using 1(4) nb(1,2) 1(2,3,5) q1 by linarith+
    have s2: "in_slot i mt c r st (length data) (take (off + n) data) b2" "br_tasks b2 = br_tasks b1" using b2(3) False fin by simp_all
    obtain b3 where "receive_all P (map (bp_pack P) (chunks (typed mt c r st) data (off + n) (q + 1))) b2 = Some b3"
      "br_tasks b3 = br_tasks b2 @ [work c r st (Some data)]"
      using "1.hyps"[OF "1.prems"(2) n_def len less q2 b2(2) s2(1)] by blast
    then show ?thesis using eq b1 s2(2) b2(1) re by simp
  qed
qed

section \<open>The whole message\<close>

text \<open>The first chunk of several finds a slot.\<close>

lemma first_chunk:
  assumes "takes_all P" "well mt c work b" "find_reassembly_slot c mt False b \<noteq> None" "length data < 2 ^ 30"
    and m: "bc_cmd_id m = c" "bc_status m = st" "bc_total_size m = of_nat (length data)"
  shows "\<exists>i b1. start_reassembly P mt r m b = (Some i, b1) \<and> well mt c work b1 \<and> in_slot i mt c r st (length data) [] b1 \<and>
    br_tasks b1 = br_tasks b"
proof -
  obtain i where i: "find_reassembly_slot c mt False b = Some i" using assms(3) by blast
  have ib: "i < length (br_reassembly b)" "i < BRIDGE_CMD_MAX_HANDLERS"
    using find_first[OF i] assms(2) by (simp_all add: well_def fine_slots_def)
  define b0 where "b0 = (if rs_active (slot_of b i) then reset_reassembly_slot i b else b)"
  have g0: "generous (br_heap b0)" "wants_whole mt c work b0" "br_tasks b0 = br_tasks b" "i < length (br_reassembly b0)"
    using assms(2) ib by (simp_all add: b0_def well_def bridge_simps)
  have total: "sint (bc_total_size m) = int (length data)" unfolding m(3) using assms(4) by (intro sint_of_nat) simp
  obtain d h where d: "esp_webrtc_create_buffer_for_msg (fresh_byte P) (int (length data)) (br_heap b0) = (Some d, h)"
    "msg_ok d" "msg_data d = []" "rm_capacity d = int (length data)" "generous h"
    using create_generous[OF g0(1), of "int (length data)" "fresh_byte P"] assms(4) by auto
  let ?s = "\<lparr>rs_cmd_id = c, rs_msg_type = mt, rs_req_id = r, rs_status = st, rs_msg = Some d, rs_active = True\<rparr>"
  let ?b = "put_reassembly i ?s (b0\<lparr>br_heap := h\<rparr>)"
  have run: "start_reassembly P mt r m b = (Some i, ?b)"
    using i d(1) total by (simp add: start_reassembly_def m b0_def[symmetric] Let_def)
  have "fine_slots ?b"
    using start_reassembly_spec[OF run] assms(2,4) by (simp add: well_def total)
  then have "well mt c work ?b" using g0 d by (simp add: well_def bridge_simps)
  moreover have "in_slot i mt c r st (length data) [] ?b" using g0 d ib by (simp add: in_slot_def bridge_simps has_key_def)
  ultimately show ?thesis using run g0 by (simp add: bridge_simps)
qed

lemma many_chunks:
  assumes "takes_all P" "well mt c work b" "find_reassembly_slot c mt False b \<noteq> None" "length data < 2 ^ 30"
    and "mt = MSG_TYPE_EVT \<longrightarrow> r = 0" "BRIDGE_CMD_CHUNK_PAYLOAD_MAX < length data"
  shows "\<exists>b'. receive_all P (map (bp_pack P) (chunks (typed mt c r st) data 0 0)) b = Some b' \<and>
    br_tasks b' = br_tasks b @ [work c r st (Some data)]"
proof -
  have ne: "data \<noteq> []" using assms(6) by (cases data) simp_all
  define n where "n = BRIDGE_CMD_CHUNK_PAYLOAD_MAX"
  define m where "m = (typed mt c r st)\<lparr>bc_seq_num := 0, bc_is_final := (length data \<le> 0 + n),
              bc_total_size := of_nat (length data), bc_payload := take n (drop 0 data)\<rparr>"
  have m: "bc_msg_type m = mt" "bc_cmd_id m = c" "bc_req_id m = r" "bc_status m = st" "bc_seq_num m = 0"
    "bc_total_size m = of_nat (length data)" "bc_payload m = take n (drop 0 data)" "\<not> bc_is_final m"
    using assms(6) ne by (simp_all add: m_def typed_def n_def)
  have eq: "chunks (typed mt c r st) data 0 0 = m # chunks (typed mt c r st) data (0 + n) 1"
    using assms(6) ne by (simp add: chunks.simps[of _ data 0] Let_def m_def n_def)
  obtain b0 where b0: "bridge_cmd_receive_cb P BRIDGE_CMD_MSG_ID (bp_pack P m) b =
      reassemble P mt r (\<lambda>s d. work (rs_cmd_id s) (rs_req_id s) (rs_status s) d) m b0"
    "well mt c work b0" "br_tasks b0 = br_tasks b" "br_reassembly b0 = br_reassembly b"
    using receive_typed[OF assms(1), of m work b] assms(2,5) m by auto
  have "find_reassembly_slot c mt False b0 \<noteq> None" using assms(3) b0(4) by (simp add: find_reassembly_slot_def)
  then obtain i b1 where b1: "start_reassembly P mt r m b0 = (Some i, b1)" "well mt c work b1"
    "in_slot i mt c r st (length data) [] b1" "br_tasks b1 = br_tasks b0"
    using first_chunk[OF assms(1) b0(2) _ assms(4) m(2,4,6), of r] by blast
  have nb: "0 + n \<le> length data" "0 < n" "n \<le> 2 ^ 30" "0 + n < length data"
    using assms(6) by (simp_all add: n_def BRIDGE_CMD_CHUNK_PAYLOAD_MAX_def)
  have q1: "unat (1 :: uint32) + (length data - (0 + n)) < 2 ^ 32" using assms(4) by simp
  obtain b2 where b2: "append_chunk P (\<lambda>s d. work (rs_cmd_id s) (rs_req_id s) (rs_status s) d) m i b1 = Some b2"
    "well mt c work b2" "br_tasks b2 = br_tasks b1" "in_slot i mt c r st (length data) (take (0 + n) data) b2"
    using append_next[OF assms(1) b1(2,3), of m] m(7,8) assms(4) by (auto simp: min_le_iff_disj)
  have step: "bridge_cmd_receive_cb P BRIDGE_CMD_MSG_ID (bp_pack P m) b = Some b2"
    using b0(1) b1(1) b2(1) m(5) by (simp add: reassemble_def)
  obtain b3 where "receive_all P (map (bp_pack P) (chunks (typed mt c r st) data (0 + n) 1)) b2 = Some b3"
    "br_tasks b3 = br_tasks b2 @ [work c r st (Some data)]"
    using later_chunks[OF assms(1,5,4) nb(4) _ q1 b2(2,4)] by auto
  then show ?thesis using eq step b2(3) b1(4) b0(3) by simp
qed

lemma one_message:
  assumes "takes_all P" "well mt c work b" "mt = MSG_TYPE_EVT \<longrightarrow> r = 0"
  shows "\<exists>b'. receive_all P [bp_pack P ((typed mt c r st)\<lparr>bc_seq_num := 0, bc_is_final := True, bc_total_size := t,
      bc_payload := data\<rparr>)] b = Some b' \<and> br_tasks b' = br_tasks b @ [work c r st (if data = [] then None else Some data)]"
proof -
  define m where "m = (typed mt c r st)\<lparr>bc_seq_num := 0, bc_is_final := True, bc_total_size := t, bc_payload := data\<rparr>"
  have m: "bc_msg_type m = mt" "bc_cmd_id m = c" "bc_req_id m = r" "bc_status m = st" "bc_seq_num m = 0"
    "bc_payload m = data" "bc_is_final m" by (simp_all add: m_def typed_def)
  obtain b1 where b1: "bridge_cmd_receive_cb P BRIDGE_CMD_MSG_ID (bp_pack P m) b = Some (deliver_single P (work c r) m b1)"
    "well mt c work b1" "br_tasks b1 = br_tasks b"
    using receive_typed[OF assms(1), of m work b] assms(2,3) m by auto
  obtain h where h: "copy_payload data (br_heap b1) = (if data = [] then None else Some data, False, h)" "generous h"
    using heap_calloc_generous[of "br_heap b1"] b1(2) by (cases "data = []") (auto simp: copy_payload_def well_def)
  obtain h2 where "heap_calloc h = (True, h2)" using heap_calloc_generous[OF h(2)] by blast
  then have "br_tasks (deliver_single P (work c r) m b1) = br_tasks b @ [work c r st (if data = [] then None else Some data)]"
    using h b1(3) assms(1) by (simp add: deliver_single_def m bridge_simps takes_all_def)
  then show ?thesis using b1(1) by (simp add: m_def)
qed

text \<open>
  C39: what one chip sends as a response or an event arrives whole at the other. When the sender
  reports success, the frames it gave to the transport, received in their order by a channel that has
  a simple handler for the command, memory and a free slot, queue that handler's callback exactly
  once, with the request, the status and the whole payload, be it one message or many chunks.
\<close>

theorem bridge_roundtrip:
  assumes "takes_all P" "bridge_cmd_send_typed P mt c r st data s = (ESP_OK, s')" "length data < 2 ^ 30"
    and "mt = MSG_TYPE_EVT \<longrightarrow> r = 0" "well mt c work b" "find_reassembly_slot c mt False b \<noteq> None"
  shows "\<exists>fs b'. br_sent s' = br_sent s @ fs \<and> receive_all P fs b = Some b' \<and>
           br_tasks b' = br_tasks b @ [work c r st (if data = [] then None else Some data)]"
proof -
  let ?ms = "typed_messages mt c r st data"
  have "br_sent s' = br_sent s @ map (bp_pack P) ?ms" using send_typed_spec[OF assms(2)] by simp
  moreover have "\<exists>b'. receive_all P (map (bp_pack P) ?ms) b = Some b' \<and>
      br_tasks b' = br_tasks b @ [work c r st (if data = [] then None else Some data)]"
  proof (cases "length data \<le> BRIDGE_CMD_CHUNK_PAYLOAD_MAX")
    case True
    then show ?thesis using one_message[OF assms(1,5,4)] by (simp add: typed_messages_def)
  next
    case False
    then have "data \<noteq> []" by auto
    then show ?thesis using many_chunks[OF assms(1,5,6,3,4)] False by (simp add: typed_messages_def)
  qed
  ultimately show ?thesis by blast
qed

text \<open>A chip with a simple handler, number 1, for the responses to the command 5.\<close>

definition demo_chip :: "(nat, bridge_command) bridge" where
  "demo_chip = the (bridge_run demo_bridge_ports [Op_init True True True True ESP_OK, Op_register_response 5 (Some 1)]
                      (bridge_start always_grant))"

theorem bridge_roundtrip_witness:
  "\<exists>fs b'. br_sent (snd (bridge_cmd_send_typed demo_bridge_ports MSG_TYPE_RSP 5 1 0 [7, 8, 9] (bridge_start always_grant))) = fs \<and>
     receive_all demo_bridge_ports fs demo_chip = Some b' \<and> br_tasks b' = [Response_work 5 1 0 (Some [7, 8, 9]) 1]"
proof -
  let ?s = "bridge_cmd_send_typed demo_bridge_ports MSG_TYPE_RSP 5 1 0 [7, 8, 9] (bridge_start always_grant)"
  have run: "bridge_run demo_bridge_ports [Op_init True True True True ESP_OK, Op_register_response 5 (Some 1)] (bridge_start always_grant)
      = Some demo_chip"
    by (simp add: demo_chip_def bridge_cmd_init_def bridge_cmd_register_response_handler_def split: prod.split)
  have "fine_slots demo_chip"
    using bridge_run_spec[OF conjunct1[OF bridge_start_spec], of
        "[Op_init True True True True ESP_OK, Op_register_response 5 (Some 1)]" demo_bridge_ports always_grant] run by simp
  moreover have "find_entry_by_id 5 (br_response_handlers demo_chip) =
      Some \<lparr>be_cmd_id = 5, be_type = BRIDGE_CMD_RSP_SIMPLE, be_handler = 1\<rparr>" "br_tasks demo_chip = []"
    "find_reassembly_slot 5 MSG_TYPE_RSP False demo_chip = Some 0" by code_simp+
  moreover have "br_heap demo_chip = always_grant"
    by (simp add: demo_chip_def bridge_cmd_init_def bridge_cmd_register_response_handler_def bridge_start_def split: prod.split)
  ultimately have r: "well MSG_TYPE_RSP 5 (\<lambda>c r s d. Response_work c r s d 1) demo_chip"
    "find_reassembly_slot 5 MSG_TYPE_RSP False demo_chip \<noteq> None" "br_tasks demo_chip = []"
    by (simp_all add: well_def wants_whole_def generous_def always_grant_def)
  have "fst ?s = ESP_OK" by code_simp
  then have s: "?s = (ESP_OK, snd ?s)" by (metis prod.collapse)
  have P: "takes_all demo_bridge_ports" by (simp add: takes_all_def demo_bridge_ports_def)
  have "br_sent (bridge_start always_grant :: (nat, bridge_command) bridge) = []" by (simp add: bridge_start_def)
  with bridge_roundtrip[OF P s _ _ r(1,2)] r(3) show ?thesis by auto
qed

section \<open>What the model showed\<close>

text \<open>
  A chunk that was lost on the way, for want of memory to unpack it or in the transport, goes unnoticed: neither
  the numbers of the chunks nor the size of the whole are compared, and with the last chunk the handler
  gets what came, without the missing bytes and with the status of the sender.
\<close>

lemma lost_chunk_goes_unnoticed:
  assumes "takes_all P" "well mt c work b" "in_slot i mt c r st sz got b"
    and m: "bc_msg_type m = mt" "bc_cmd_id m = c" "bc_req_id m = r" "bc_seq_num m \<noteq> 0" "bc_is_final m"
    and "mt = MSG_TYPE_EVT \<longrightarrow> r = 0" "length got + length (bc_payload m) < sz" "sz < 2 ^ 30"
  shows "\<exists>b'. bridge_cmd_receive_cb P BRIDGE_CMD_MSG_ID (bp_pack P m) b = Some b' \<and>
    br_tasks b' = br_tasks b @ [work c r st (Some (got @ bc_payload m))]"
proof -
  obtain b1 where b1: "bridge_cmd_receive_cb P BRIDGE_CMD_MSG_ID (bp_pack P m) b =
      reassemble P mt r (\<lambda>s d. work (rs_cmd_id s) (rs_req_id s) (rs_status s) d) m b1"
    "well mt c work b1" "br_tasks b1 = br_tasks b" "br_reassembly b1 = br_reassembly b"
    using receive_typed[OF assms(1), of m work b] assms(2,9) m by auto
  have slot: "in_slot i mt c r st sz got b1" using assms(3) b1(4) by (simp add: in_slot_def)
  then have "find_reassembly_slot c mt True b1 = Some i" "rs_req_id (slot_of b1 i) = r"
    using find_the_key[of b1 i c mt] b1(2) by (auto simp: well_def in_slot_def)
  then have re: "reassemble P mt r w m b1 = append_chunk P w m i b1" for w
    using m by (simp add: reassemble_def continue_reassembly_def)
  then show ?thesis using append_next[OF assms(1) b1(2) slot, of m] assms(10,11) m(5) b1(1,3) by auto
qed

text \<open>
  The first write of a streaming handler announces no size, so a receiver with a simple response
  handler refuses it, and the handler is never called.
\<close>

lemma streamed_write_refused:
  assumes "msg_ok d" "rm_capacity d = 0" "p \<noteq> []" "length p < 2 ^ 30"
  shows "\<exists>d'. esp_webrtc_append_msg_to_existing d p (int (length p)) False = Some (ESP_FAIL, d')"
  using assms by (auto simp: esp_webrtc_append_msg_to_existing_def msg_ok_def int_ok_def)

end
