(* ===== verification/Rate_Ctrl.thy ===== *)
theory Rate_Ctrl
  imports Kvs_Prelude
begin

text \<open>
  The congestion-adaptive rate control of \<open>components/media_stream/src/video_rate_ctrl.c\<close>: one controller
  per sink walks a ladder of (frame rate, bitrate) rungs, and one encoder is driven at the minimum over
  the controllers that are enabled and still reporting. The file-scope state (the controller slots, the
  encoder's \<open>s_agg\<close>, the published atomics) is the record \<open>vrate\<close>, and each function of the file a function
  on it. Unsigned arithmetic is on \<open>nat\<close> with the wrap-around written as \<open>u32\<close> and \<open>u64\<close>. A handle is the
  index of a slot, \<open>None\<close> for NULL. \<open>now\<close> is the value of \<open>esp_timer_get_time()\<close>, in microseconds; where the
  code reads the clock twice there are two of them. The Kconfig values are the defaults of the source.
\<close>

section \<open>Numbers\<close>

definition u32 :: "nat \<Rightarrow> nat" where "u32 n = n mod 4294967296"
definition u64 :: "nat \<Rightarrow> nat" where "u64 n = n mod 18446744073709551616"

text \<open>The conversion of an unsigned value to \<open>int32_t\<close>.\<close>

definition s32 :: "nat \<Rightarrow> int" where
  "s32 n = (if u32 n < 2147483648 then int (u32 n) else int (u32 n) - 4294967296)"

definition INT64_MAX :: int where "INT64_MAX = 9223372036854775807"

section \<open>Constants\<close>

named_theorems vrate_consts \<open>the constants of the rate controller\<close>

definition VIDEO_RATE_CTRL_MAX :: nat where [vrate_consts]: "VIDEO_RATE_CTRL_MAX = 4"
definition VRATE_NAME_LEN :: nat where [vrate_consts]: "VRATE_NAME_LEN = 16"
definition START_LEVEL :: nat where [vrate_consts]: "START_LEVEL = 3"
definition START_LEVEL_FPS_FIXED :: nat where [vrate_consts]: "START_LEVEL_FPS_FIXED = 0"
definition FPS_FLOOR :: nat where [vrate_consts]: "FPS_FLOOR = 12"
definition EMA_A_NUM :: nat where [vrate_consts]: "EMA_A_NUM = 1"
definition EMA_A_DEN :: nat where [vrate_consts]: "EMA_A_DEN = 4"
definition CONGEST_NUM :: nat where [vrate_consts]: "CONGEST_NUM = 13"
definition CONGEST_DEN :: nat where [vrate_consts]: "CONGEST_DEN = 10"
definition HEALTHY_NUM :: nat where [vrate_consts]: "HEALTHY_NUM = 6"
definition HEALTHY_DEN :: nat where [vrate_consts]: "HEALTHY_DEN = 10"
definition RECOVER_DWELL_MS :: int where [vrate_consts]: "RECOVER_DWELL_MS = 3000"
definition RECOVER_MIN_REPORTS :: nat where [vrate_consts]: "RECOVER_MIN_REPORTS = 8"
definition QUEUE_EVAL_MS :: nat where [vrate_consts]: "QUEUE_EVAL_MS = 500"
definition QUEUE_CONGEST_PCT :: nat where [vrate_consts]: "QUEUE_CONGEST_PCT = 35"
definition QUEUE_HEALTHY_PCT :: nat where [vrate_consts]: "QUEUE_HEALTHY_PCT = 10"
definition QUEUE_TREND_GAIN :: int where [vrate_consts]: "QUEUE_TREND_GAIN = 2"
definition QUEUE_JUMP2_PCT :: nat where [vrate_consts]: "QUEUE_JUMP2_PCT = 60"
definition QUEUE_JUMP3_PCT :: nat where [vrate_consts]: "QUEUE_JUMP3_PCT = 85"
definition VRATE_STALE_MS :: int where [vrate_consts]: "VRATE_STALE_MS = 5000"
definition MIN_BITRATE_BPS :: nat where [vrate_consts]: "MIN_BITRATE_BPS = 100 * 1024"
definition RES_FLOOR_MBPS_PER_PX :: nat where [vrate_consts]: "RES_FLOOR_MBPS_PER_PX = 280"
definition PINNED_BPP_NUM :: nat where [vrate_consts]: "PINNED_BPP_NUM = 15"
definition PINNED_BPP_DEN :: nat where [vrate_consts]: "PINNED_BPP_DEN = 1000"
definition PROBE_BAR_DECAY_MS :: int where [vrate_consts]: "PROBE_BAR_DECAY_MS = 60000"
definition PIN_REASSERT_DWELL_MS :: int where [vrate_consts]: "PIN_REASSERT_DWELL_MS = 30000"
definition RECOVER_EVAL_MS :: nat where [vrate_consts]: "RECOVER_EVAL_MS = 3000"

text \<open>The ladder: frames per second (0 for the camera's own) and percent of the maximal bitrate.\<close>

record vrate_rung =
  rung_fps :: nat
  rung_pct :: nat

definition LADDER :: "vrate_rung list" where
  "LADDER = map (\<lambda>(f, p). \<lparr>rung_fps = f, rung_pct = p\<rparr>)
     [(0, 100), (24, 80), (22, 65), (20, 50), (16, 38), (12, 28), (12, 18), (12, 10)]"

definition LADDER_N :: nat where [vrate_consts]: "LADDER_N = 8"

section \<open>State\<close>

record controller =
  rc_in_use :: bool
  rc_enabled :: bool
  rc_name :: string
  rc_level :: nat
  rc_target_fps :: nat
  rc_target_bps :: nat
  rc_net_ceiling :: nat
  rc_ema_ms :: nat
  rc_q_used :: nat
  rc_q_cap :: nat
  rc_q_ema_pct :: nat
  rc_q_delta :: int
  rc_q_primed :: bool
  rc_q_next_eval :: int
  rc_load_pct :: nat
  rc_healthy_since :: int
  rc_healthy_reports :: nat
  rc_probe_bar_level :: nat
  rc_probe_bar_us :: int
  rc_last_report :: int
  rc_stale :: bool
  rc_reports :: nat

text \<open>\<open>memset(h, 0, sizeof(*h))\<close>\<close>

definition zero_controller :: controller where
  "zero_controller = \<lparr>rc_in_use = False, rc_enabled = False, rc_name = '''', rc_level = 0, rc_target_fps = 0,
     rc_target_bps = 0, rc_net_ceiling = 0, rc_ema_ms = 0, rc_q_used = 0, rc_q_cap = 0, rc_q_ema_pct = 0,
     rc_q_delta = 0, rc_q_primed = False, rc_q_next_eval = 0, rc_load_pct = 0, rc_healthy_since = 0,
     rc_healthy_reports = 0, rc_probe_bar_level = 0, rc_probe_bar_us = 0, rc_last_report = 0,
     rc_stale = False, rc_reports = 0\<rparr>"

record encoder =
  ag_inited :: bool
  ag_fps_actuable :: bool
  ag_camera_fps :: nat
  ag_width :: nat
  ag_height :: nat
  ag_max_bps :: nat
  ag_min_bps :: nat
  ag_requested :: nat
  ag_committed :: nat
  ag_bitrate_actuable :: bool
  ag_period_ms :: nat
  ag_pin_wanted :: bool
  ag_pinned :: bool
  ag_pin_released :: int

record vrate =
  v_lock :: bool
  v_ctrl :: "controller list"
  v_agg :: encoder
  v_pub_fps :: nat
  v_pub_camera_fps :: nat
  v_pending_bps :: nat
  v_pending_pin :: int
  v_stale_check :: int

definition vrate_boot :: vrate where
  "vrate_boot = \<lparr>v_lock = False, v_ctrl = replicate VIDEO_RATE_CTRL_MAX zero_controller,
     v_agg = \<lparr>ag_inited = False, ag_fps_actuable = False, ag_camera_fps = 0, ag_width = 0, ag_height = 0,
       ag_max_bps = 0, ag_min_bps = 0, ag_requested = 0, ag_committed = 0, ag_bitrate_actuable = False,
       ag_period_ms = 0, ag_pin_wanted = False, ag_pinned = False, ag_pin_released = 0\<rparr>,
     v_pub_fps = 0, v_pub_camera_fps = 0, v_pending_bps = 0, v_pending_pin = - 1, v_stale_check = 0\<rparr>"

definition put_ctrl :: "nat \<Rightarrow> controller \<Rightarrow> vrate \<Rightarrow> vrate" where
  "put_ctrl i h v = v\<lparr>v_ctrl := (v_ctrl v)[i := h]\<rparr>"

section \<open>Operating points\<close>

definition vrate_level_eval_period_us :: "encoder \<Rightarrow> int" where
  "vrate_level_eval_period_us a = int (if ag_period_ms a > QUEUE_EVAL_MS then ag_period_ms a else QUEUE_EVAL_MS) * 1000"

definition vrate_recover_eval_period_us :: int where
  "vrate_recover_eval_period_us = int (if RECOVER_EVAL_MS > QUEUE_EVAL_MS then RECOVER_EVAL_MS else QUEUE_EVAL_MS) * 1000"

definition vrate_start_level :: "encoder \<Rightarrow> nat" where
  "vrate_start_level a = (if ag_fps_actuable a then START_LEVEL else START_LEVEL_FPS_FIXED)"

definition vrate_pinned_floor_raw :: "encoder \<Rightarrow> nat" where
  "vrate_pinned_floor_raw a =
     (let px = u64 (ag_width a * ag_height a); fps = (if ag_camera_fps a \<noteq> 0 then ag_camera_fps a else 30)
      in if px = 0 then 0 else u32 (u64 (px * fps * PINNED_BPP_NUM) div PINNED_BPP_DEN))"

definition vrate_resolution_floor_bps :: "encoder \<Rightarrow> nat" where
  "vrate_resolution_floor_bps a =
     (let px = u64 (ag_width a * ag_height a)
      in if px = 0 then 0 else u32 (u64 (px * RES_FLOOR_MBPS_PER_PX) div 1000))"

definition vrate_floor_bps :: "encoder \<Rightarrow> nat" where
  "vrate_floor_bps a =
     (let f0 = ag_min_bps a;
          f1 = (if vrate_resolution_floor_bps a > f0 then vrate_resolution_floor_bps a else f0);
          f2 = (if ag_pinned a then (if vrate_pinned_floor_raw a > f1 then vrate_pinned_floor_raw a else f1) else f1)
      in if ag_max_bps a \<noteq> 0 \<and> f2 > ag_max_bps a then ag_max_bps a else f2)"

definition vrate_rung_bitrate :: "encoder \<Rightarrow> nat \<Rightarrow> nat" where
  "vrate_rung_bitrate a level =
     (let b = u32 ((ag_max_bps a * rung_pct (LADDER ! level)) div 100)
      in if b < vrate_floor_bps a then vrate_floor_bps a else b)"

definition vrate_rung_fps :: "encoder \<Rightarrow> nat \<Rightarrow> nat" where
  "vrate_rung_fps a level =
     (if \<not> ag_fps_actuable a then ag_camera_fps a
      else let f = rung_fps (LADDER ! level);
               f1 = (if f = 0 then ag_camera_fps a else f);
               f2 = (if f1 < FPS_FLOOR then FPS_FLOOR else f1)
           in if f2 > ag_camera_fps a then ag_camera_fps a else f2)"

text \<open>The loop from the bottom rung upward while a rung differs in nothing from the one above it.\<close>

fun deepest_loop :: "encoder \<Rightarrow> nat \<Rightarrow> nat" where
  "deepest_loop a 0 = 0"
| "deepest_loop a (Suc l) =
     (if vrate_rung_fps a (Suc l) = vrate_rung_fps a l \<and> vrate_rung_bitrate a (Suc l) = vrate_rung_bitrate a l
      then deepest_loop a l else Suc l)"

definition vrate_deepest_useful_level :: "encoder \<Rightarrow> nat" where
  "vrate_deepest_useful_level a = deepest_loop a (LADDER_N - 1)"

definition vrate_eff_max :: "encoder \<Rightarrow> controller \<Rightarrow> nat" where
  "vrate_eff_max a h =
     (let eff = (if rc_net_ceiling h \<noteq> 0 \<and> rc_net_ceiling h < ag_max_bps a then rc_net_ceiling h else ag_max_bps a)
      in if eff < vrate_floor_bps a then vrate_floor_bps a else eff)"

definition vrate_ceiling_level :: "encoder \<Rightarrow> controller \<Rightarrow> nat" where
  "vrate_ceiling_level a h =
     (case find (\<lambda>i. vrate_rung_bitrate a i \<le> vrate_eff_max a h) [0..<LADDER_N] of
        Some i \<Rightarrow> i | None \<Rightarrow> LADDER_N - 1)"

definition clamp_level :: "encoder \<Rightarrow> controller \<Rightarrow> nat \<Rightarrow> nat" where
  "clamp_level a h level =
     (let l1 = (if level < vrate_ceiling_level a h then vrate_ceiling_level a h else level);
          l2 = (if l1 > vrate_deepest_useful_level a then vrate_deepest_useful_level a else l1)
      in if l2 > LADDER_N - 1 then LADDER_N - 1 else l2)"

definition vrate_apply_level :: "encoder \<Rightarrow> nat \<Rightarrow> controller \<Rightarrow> controller" where
  "vrate_apply_level a level h =
     (let l = clamp_level a h level
      in h\<lparr>rc_level := l, rc_target_fps := vrate_rung_fps a l, rc_target_bps := vrate_rung_bitrate a l\<rparr>)"

definition vrate_reset_signal :: "controller \<Rightarrow> controller" where
  "vrate_reset_signal h =
     h\<lparr>rc_ema_ms := 0, rc_q_ema_pct := 0, rc_q_delta := 0, rc_q_primed := False, rc_q_next_eval := 0,
       rc_load_pct := 0, rc_healthy_since := 0, rc_healthy_reports := 0\<rparr>"

section \<open>Arbitration\<close>

definition vrate_is_stale :: "int \<Rightarrow> controller \<Rightarrow> bool" where
  "vrate_is_stale now h \<longleftrightarrow> now - rc_last_report h > VRATE_STALE_MS * 1000"

definition vrate_eligible :: "int \<Rightarrow> controller \<Rightarrow> bool" where
  "vrate_eligible now h \<longleftrightarrow> rc_in_use h \<and> rc_enabled h \<and> \<not> vrate_is_stale now h"

text \<open>Neither column of the ladder reaches the encoder.\<close>

definition vrate_inert :: "encoder \<Rightarrow> bool" where
  "vrate_inert a \<longleftrightarrow> ag_inited a \<and> \<not> ag_fps_actuable a \<and> \<not> ag_bitrate_actuable a"

record arb =
  arb_fps :: nat
  arb_bps :: nat
  arb_any :: bool
  arb_soonest :: int

definition arb_step :: "int \<Rightarrow> controller \<Rightarrow> arb \<Rightarrow> arb" where
  "arb_step now h b =
     (if \<not> rc_in_use h \<or> \<not> rc_enabled h then b
      else if vrate_is_stale now h then b
      else let expires = rc_last_report h + VRATE_STALE_MS * 1000
           in \<lparr>arb_fps = (if \<not> arb_any b \<or> rc_target_fps h < arb_fps b then rc_target_fps h else arb_fps b),
               arb_bps = (if \<not> arb_any b \<or> rc_target_bps h < arb_bps b then rc_target_bps h else arb_bps b),
               arb_any = True,
               arb_soonest = (if expires < arb_soonest b then expires else arb_soonest b)\<rparr>)"

definition arbitrate :: "int \<Rightarrow> controller list \<Rightarrow> arb" where
  "arbitrate now hs = fold (arb_step now) hs \<lparr>arb_fps = 0, arb_bps = 0, arb_any = False, arb_soonest = INT64_MAX\<rparr>"

definition reassert_pin :: "int \<Rightarrow> nat \<Rightarrow> vrate \<Rightarrow> vrate" where
  "reassert_pin now min_bps v =
     (let a = v_agg v in
      if ag_pin_wanted a \<and> \<not> ag_pinned a \<and> min_bps \<ge> vrate_pinned_floor_raw a \<and>
         now - ag_pin_released a \<ge> PIN_REASSERT_DWELL_MS * 1000
      then v\<lparr>v_agg := a\<lparr>ag_pinned := True\<rparr>, v_pending_pin := 1\<rparr> else v)"

definition request_bitrate :: "nat \<Rightarrow> vrate \<Rightarrow> vrate" where
  "request_bitrate bps v =
     (if bps \<noteq> ag_requested (v_agg v)
      then v\<lparr>v_agg := (v_agg v)\<lparr>ag_requested := bps\<rparr>, v_pending_bps := bps\<rparr> else v)"

definition vrate_rearbitrate :: "int \<Rightarrow> vrate \<Rightarrow> vrate" where
  "vrate_rearbitrate now v =
     (let a = v_agg v; b = arbitrate now (v_ctrl v) in
      if vrate_inert a then v\<lparr>v_stale_check := INT64_MAX\<rparr>
      else if \<not> ag_inited a then v\<lparr>v_pub_fps := 0, v_stale_check := INT64_MAX\<rparr>
      else if \<not> arb_any b
      then (request_bitrate (ag_max_bps a) (v\<lparr>v_pub_fps := 0\<rparr>))\<lparr>v_stale_check := INT64_MAX\<rparr>
      else (request_bitrate (arb_bps b) ((reassert_pin now (arb_bps b) v)\<lparr>v_pub_fps := arb_fps b\<rparr>))
             \<lparr>v_stale_check := arb_soonest b\<rparr>)"

section \<open>Moving on the ladder\<close>

definition raise_bar :: "int \<Rightarrow> controller \<Rightarrow> controller" where
  "raise_bar now h =
     h\<lparr>rc_probe_bar_level :=
         (if rc_level h + 1 > rc_probe_bar_level h
          then (if rc_level h + 1 \<le> LADDER_N - 1 then rc_level h + 1 else LADDER_N - 1)
          else rc_probe_bar_level h),
       rc_probe_bar_us := now\<rparr>"

definition release_pin :: "int \<Rightarrow> vrate \<Rightarrow> vrate" where
  "release_pin now v = v\<lparr>v_agg := (v_agg v)\<lparr>ag_pinned := False, ag_pin_released := now\<rparr>, v_pending_pin := 0\<rparr>"

definition vrate_reset_healthy :: "controller \<Rightarrow> controller" where
  "vrate_reset_healthy h = h\<lparr>rc_healthy_since := 0, rc_healthy_reports := 0\<rparr>"

text \<open>The result is whether the rung moved. \<open>now\<close> is read inside.\<close>

definition vrate_step_down :: "int \<Rightarrow> nat \<Rightarrow> nat \<Rightarrow> vrate \<Rightarrow> bool \<times> vrate" where
  "vrate_step_down now i jump v =
     (let a = v_agg v; h0 = vrate_reset_healthy (v_ctrl v ! i); h = raise_bar now h0;
          at_bottom = (rc_level h \<ge> vrate_deepest_useful_level a)
      in if vrate_inert a then (False, put_ctrl i h0 v)
      else if at_bottom \<and> \<not> ag_pinned a then (False, put_ctrl i h v)
      else let v1 = (if at_bottom then release_pin now v else v) in
      if rc_level h \<ge> LADDER_N - 1 then (False, put_ctrl i h v1)
      else let nl = (if rc_level h + jump < LADDER_N then rc_level h + jump else LADDER_N - 1);
               h' = vrate_apply_level (v_agg v1) nl h
           in (rc_level h' \<noteq> rc_level h, put_ctrl i h' v1))"

definition decay_bar :: "int \<Rightarrow> controller \<Rightarrow> controller" where
  "decay_bar now h =
     (if rc_probe_bar_level h > 0 \<and> now - rc_probe_bar_us h \<ge> PROBE_BAR_DECAY_MS * 1000
      then h\<lparr>rc_probe_bar_level := rc_probe_bar_level h - 1, rc_probe_bar_us := now\<rparr> else h)"

definition recover_level :: "controller \<Rightarrow> nat" where
  "recover_level h =
     (let bar = rc_probe_bar_level h;
          nl = (if rc_q_primed h \<and> rc_q_ema_pct h = 0 \<and> rc_level h \<ge> bar + 3 then rc_level h - 2 else rc_level h - 1)
      in if nl < bar then bar else nl)"

definition vrate_mark_healthy :: "encoder \<Rightarrow> int \<Rightarrow> controller \<Rightarrow> bool \<times> controller" where
  "vrate_mark_healthy a now h =
     (let h0 = (if rc_healthy_since h = 0 then h\<lparr>rc_healthy_since := now, rc_healthy_reports := rc_reports h\<rparr> else h)
      in if now - rc_healthy_since h0 < RECOVER_DWELL_MS * 1000 \<or>
            u32 (rc_reports h0 + 4294967296 - rc_healthy_reports h0) < RECOVER_MIN_REPORTS then (False, h0)
      else let h1 = vrate_reset_healthy h0 in
      if rc_level h1 = 0 then (False, h1)
      else let h2 = decay_bar now h1 in
      if rc_level h2 \<le> rc_probe_bar_level h2 then (False, h2)
      else let h3 = vrate_apply_level a (recover_level h2) h2 in (rc_level h3 \<noteq> rc_level h2, h3))"

end
