(* ===== verification/Rate_Api.thy ===== *)
theory Rate_Api
  imports Rate_Ctrl
begin

text \<open>
  The entry points of \<open>components/media_stream/src/video_rate_ctrl.c\<close>: those of the transports
  (\<open>video_rate_ctrl.h\<close>) and those of the frame grabber (\<open>video_rate_ctrl_priv.h\<close>). Each is one critical
  section; \<open>mutex_ok\<close> is whether \<open>pthread_mutex_init\<close> succeeds, \<open>got\<close> whether a \<open>trylock\<close> does.
\<close>

section \<open>Set-up\<close>

definition vrate_lock_init :: "bool \<Rightarrow> vrate \<Rightarrow> esp_err \<times> vrate" where
  "vrate_lock_init mutex_ok v =
     (if \<not> v_lock v then (if \<not> mutex_ok then (ESP_ERR_NO_MEM, v) else (ESP_OK, v\<lparr>v_lock := True\<rparr>))
      else (ESP_OK, v))"

definition init_controller :: "encoder \<Rightarrow> int \<Rightarrow> controller \<Rightarrow> controller" where
  "init_controller a now h =
     (if \<not> rc_in_use h then h
      else let h1 = (vrate_reset_signal h)\<lparr>rc_last_report := now, rc_stale := False,
                      rc_probe_bar_level := 0, rc_probe_bar_us := now\<rparr>
           in if rc_enabled h then vrate_apply_level a (vrate_start_level a) h1 else h1)"

definition init_encoder :: "nat \<Rightarrow> nat \<Rightarrow> nat \<Rightarrow> nat \<Rightarrow> bool \<Rightarrow> encoder \<Rightarrow> encoder" where
  "init_encoder camera_fps max_bitrate_bps width height fps_actuable a =
     a\<lparr>ag_camera_fps := (if camera_fps \<noteq> 0 then camera_fps else 25), ag_fps_actuable := fps_actuable,
       ag_width := width, ag_height := height, ag_max_bps := max_bitrate_bps,
       ag_min_bps := (if max_bitrate_bps > MIN_BITRATE_BPS then MIN_BITRATE_BPS else max_bitrate_bps),
       ag_requested := max_bitrate_bps, ag_bitrate_actuable := True, ag_committed := 0, ag_period_ms := 0,
       ag_pinned := ag_pin_wanted a, ag_pin_released := 0, ag_inited := True\<rparr>"

definition video_rate_ctrl_init :: "bool \<Rightarrow> int \<Rightarrow> nat \<Rightarrow> nat \<Rightarrow> nat \<Rightarrow> nat \<Rightarrow> bool \<Rightarrow> vrate \<Rightarrow> vrate" where
  "video_rate_ctrl_init mutex_ok now camera_fps max_bitrate_bps width height fps_actuable v =
     (case vrate_lock_init mutex_ok v of (err, v0) \<Rightarrow>
        if err \<noteq> ESP_OK then v0
        else let a = init_encoder camera_fps max_bitrate_bps width height fps_actuable (v_agg v0)
             in vrate_rearbitrate now
                  (v0\<lparr>v_agg := a, v_pub_camera_fps := ag_camera_fps a, v_pending_bps := 0,
                      v_ctrl := map (init_controller a now) (v_ctrl v0)\<rparr>))"

text \<open>\<open>name\<close> is \<open>None\<close> for NULL, and \<open>out\<close> whether the result pointer is not NULL.\<close>

definition video_rate_ctrl_create :: "bool \<Rightarrow> int \<Rightarrow> string option \<Rightarrow> bool \<Rightarrow> vrate \<Rightarrow> esp_err \<times> nat option \<times> vrate" where
  "video_rate_ctrl_create mutex_ok now name out v =
     (if name = None \<or> \<not> out then (ESP_ERR_INVALID_ARG, None, v)
      else (case vrate_lock_init mutex_ok v of (err, v0) \<Rightarrow>
        if err \<noteq> ESP_OK then (err, None, v0)
        else (case find (\<lambda>i. \<not> rc_in_use (v_ctrl v0 ! i)) [0..<VIDEO_RATE_CTRL_MAX] of
            None \<Rightarrow> (ESP_ERR_NOT_FOUND, None, v0)
          | Some i \<Rightarrow>
              (let h = zero_controller\<lparr>rc_in_use := True, rc_enabled := False, rc_last_report := now,
                         rc_name := strncpy_term VRATE_NAME_LEN (the name)\<rparr>;
                   h' = (if ag_inited (v_agg v0) then vrate_apply_level (v_agg v0) (vrate_start_level (v_agg v0)) h else h)
               in (ESP_OK, Some i, put_ctrl i h' v0)))))"

definition video_rate_ctrl_find :: "string option \<Rightarrow> bool \<Rightarrow> vrate \<Rightarrow> esp_err \<times> nat option" where
  "video_rate_ctrl_find name out v =
     (if name = None \<or> \<not> out then (ESP_ERR_INVALID_ARG, None)
      else if \<not> v_lock v then (ESP_ERR_NOT_FOUND, None)
      else (case find (\<lambda>i. rc_in_use (v_ctrl v ! i) \<and> rc_name (v_ctrl v ! i) = the name) [0..<VIDEO_RATE_CTRL_MAX] of
              None \<Rightarrow> (ESP_ERR_NOT_FOUND, None) | Some i \<Rightarrow> (ESP_OK, Some i)))"

definition video_rate_ctrl_destroy :: "int \<Rightarrow> nat option \<Rightarrow> vrate \<Rightarrow> vrate" where
  "video_rate_ctrl_destroy now h v =
     (case h of None \<Rightarrow> v
      | Some i \<Rightarrow> if \<not> v_lock v \<or> \<not> rc_in_use (v_ctrl v ! i) then v
                  else vrate_rearbitrate now (put_ctrl i zero_controller v))"

definition video_rate_ctrl_enable :: "int \<Rightarrow> nat option \<Rightarrow> bool \<Rightarrow> vrate \<Rightarrow> vrate" where
  "video_rate_ctrl_enable now h enable v =
     (case h of None \<Rightarrow> v
      | Some i \<Rightarrow>
          let c = v_ctrl v ! i in
          if \<not> v_lock v \<or> \<not> rc_in_use c \<or> rc_enabled c = enable then v
          else let c1 = (vrate_reset_signal (c\<lparr>rc_enabled := enable\<rparr>))\<lparr>rc_last_report := now, rc_stale := False\<rparr>;
                   c2 = (if enable \<and> ag_inited (v_agg v)
                         then vrate_apply_level (v_agg v) (vrate_start_level (v_agg v)) c1 else c1)
               in vrate_rearbitrate now (put_ctrl i c2 v))"

section \<open>Reports\<close>

text \<open>What every report does first: the time stamp, the staleness flag and the counter.\<close>

definition stamp_report :: "int \<Rightarrow> controller \<Rightarrow> controller" where
  "stamp_report now c = c\<lparr>rc_last_report := now, rc_stale := False, rc_reports := u32 (rc_reports c + 1)\<rparr>"

definition reportable :: "vrate \<Rightarrow> nat \<Rightarrow> bool" where
  "reportable v i \<longleftrightarrow> rc_in_use (v_ctrl v ! i) \<and> rc_enabled (v_ctrl v ! i) \<and> ag_inited (v_agg v)"

definition send_budget_ms :: "controller \<Rightarrow> nat" where
  "send_budget_ms c = 1000 div (if rc_target_fps c \<noteq> 0 then rc_target_fps c else 1)"

definition stamp_send :: "int \<Rightarrow> nat \<Rightarrow> controller \<Rightarrow> controller" where
  "stamp_send now send_ms c =
     (let c1 = stamp_report now c;
          ema = u32 (rc_ema_ms c1 * (EMA_A_DEN - EMA_A_NUM) + send_ms * EMA_A_NUM) div EMA_A_DEN;
          congest_ms = (send_budget_ms c1 * CONGEST_NUM) div CONGEST_DEN
      in c1\<lparr>rc_ema_ms := ema, rc_load_pct := (if congest_ms \<noteq> 0 then u32 (ema * 100) div congest_ms else 0)\<rparr>)"

definition video_rate_ctrl_report_send_ms :: "int \<Rightarrow> int \<Rightarrow> nat option \<Rightarrow> nat \<Rightarrow> vrate \<Rightarrow> vrate" where
  "video_rate_ctrl_report_send_ms now now2 h send_ms v =
     (case h of None \<Rightarrow> v
      | Some i \<Rightarrow>
          if \<not> v_lock v \<or> \<not> reportable v i then v
          else let c = v_ctrl v ! i; was_stale = (rc_stale c \<or> vrate_is_stale now c);
                   c1 = stamp_send now send_ms c; v1 = put_ctrl i c1 v;
                   ema = rc_ema_ms c1; budget = send_budget_ms c1
               in (case (if u32 (ema * CONGEST_DEN) > budget * CONGEST_NUM
                         then vrate_step_down now2 i (if ema \<ge> budget * 3 then 3 else if ema \<ge> budget * 2 then 2 else 1) v1
                         else if u32 (ema * HEALTHY_DEN) < budget * HEALTHY_NUM
                         then (case vrate_mark_healthy (v_agg v1) now c1 of (m, c2) \<Rightarrow> (m, put_ctrl i c2 v1))
                         else (False, put_ctrl i (vrate_reset_healthy c1) v1)) of
                     (moved, v2) \<Rightarrow> if moved \<or> was_stale then vrate_rearbitrate now v2 else v2))"

definition sample_queue :: "encoder \<Rightarrow> int \<Rightarrow> nat \<Rightarrow> nat \<Rightarrow> controller \<Rightarrow> controller" where
  "sample_queue a now used capacity c =
     (let occ = u32 (used * 100) div capacity;
          c1 = c\<lparr>rc_q_next_eval := now + vrate_level_eval_period_us a\<rparr>;
          c2 = (if \<not> rc_q_primed c1 then c1\<lparr>rc_q_ema_pct := occ, rc_q_delta := 0, rc_q_primed := True\<rparr>
                else let ema = u32 (rc_q_ema_pct c1 * (EMA_A_DEN - EMA_A_NUM) + occ * EMA_A_NUM) div EMA_A_DEN
                     in c1\<lparr>rc_q_ema_pct := ema, rc_q_delta := s32 ema - s32 (rc_q_ema_pct c1)\<rparr>)
      in c2\<lparr>rc_load_pct := u32 (rc_q_ema_pct c2 * 100) div QUEUE_CONGEST_PCT\<rparr>)"

definition queue_jump :: "controller \<Rightarrow> nat" where
  "queue_jump c = (if rc_q_ema_pct c \<ge> QUEUE_JUMP3_PCT then 3 else if rc_q_ema_pct c \<ge> QUEUE_JUMP2_PCT then 2 else 1)"

definition evaluate_queue :: "int \<Rightarrow> int \<Rightarrow> nat \<Rightarrow> vrate \<Rightarrow> bool \<times> vrate" where
  "evaluate_queue now now2 i v =
     (let c = v_ctrl v ! i; eff = s32 (rc_q_ema_pct c) + QUEUE_TREND_GAIN * rc_q_delta c
      in if eff \<ge> int QUEUE_CONGEST_PCT then vrate_step_down now2 i (queue_jump c) v
         else if rc_q_ema_pct c \<le> QUEUE_HEALTHY_PCT \<and> rc_q_delta c \<le> 0
         then (case vrate_mark_healthy (v_agg v) now c of (m, c1) \<Rightarrow>
                 (m, put_ctrl i (c1\<lparr>rc_q_next_eval := now + vrate_recover_eval_period_us\<rparr>) v))
         else (False, put_ctrl i ((vrate_reset_healthy c)\<lparr>rc_q_next_eval := now + vrate_recover_eval_period_us\<rparr>) v))"

definition video_rate_ctrl_report_queue ::
  "bool \<Rightarrow> int \<Rightarrow> int \<Rightarrow> nat option \<Rightarrow> nat \<Rightarrow> nat \<Rightarrow> vrate \<Rightarrow> vrate" where
  "video_rate_ctrl_report_queue got now now2 h used capacity v =
     (case h of None \<Rightarrow> v
      | Some i \<Rightarrow>
          if \<not> v_lock v \<or> capacity = 0 \<or> \<not> got \<or> \<not> reportable v i then v
          else let c = v_ctrl v ! i; was_stale = (rc_stale c \<or> vrate_is_stale now c);
                   c1 = (stamp_report now c)\<lparr>rc_q_used := used, rc_q_cap := capacity\<rparr>;
                   v1 = put_ctrl i c1 v;
                   v2 = (if was_stale then vrate_rearbitrate now v1 else v1)
               in if now < rc_q_next_eval c1 then v2
                  else (case evaluate_queue now now2 i (put_ctrl i (sample_queue (v_agg v2) now used capacity c1) v2) of
                          (moved, v3) \<Rightarrow> if moved then vrate_rearbitrate now v3 else v3))"

definition stamp_overflow :: "int \<Rightarrow> controller \<Rightarrow> controller" where
  "stamp_overflow now c =
     (stamp_report now c)\<lparr>rc_q_primed := True, rc_q_ema_pct := 100, rc_q_delta := 0,
        rc_load_pct := (100 * 100) div QUEUE_CONGEST_PCT\<rparr>"

definition video_rate_ctrl_report_overflow :: "int \<Rightarrow> int \<Rightarrow> nat option \<Rightarrow> vrate \<Rightarrow> vrate" where
  "video_rate_ctrl_report_overflow now now2 h v =
     (case h of None \<Rightarrow> v
      | Some i \<Rightarrow>
          if \<not> v_lock v \<or> \<not> reportable v i then v
          else let c = v_ctrl v ! i; was_stale = (rc_stale c \<or> vrate_is_stale now c);
                   c1 = stamp_overflow now c
               in (case (if now \<ge> rc_q_next_eval c1
                         then vrate_step_down now2 i 2
                                (put_ctrl i (c1\<lparr>rc_q_next_eval := now + vrate_level_eval_period_us (v_agg v)\<rparr>) v)
                         else (False, put_ctrl i c1 v)) of
                     (moved, v2) \<Rightarrow> if moved \<or> was_stale then vrate_rearbitrate now v2 else v2))"

definition video_rate_ctrl_set_network_ceiling_bps :: "int \<Rightarrow> nat option \<Rightarrow> nat \<Rightarrow> vrate \<Rightarrow> vrate" where
  "video_rate_ctrl_set_network_ceiling_bps now h bps v =
     (case h of None \<Rightarrow> v
      | Some i \<Rightarrow>
          let c = v_ctrl v ! i in
          if \<not> v_lock v \<or> \<not> rc_in_use c then v
          else let c1 = c\<lparr>rc_net_ceiling := bps\<rparr> in
          if rc_enabled c1 \<and> ag_inited (v_agg v)
          then let c2 = vrate_apply_level (v_agg v) (rc_level c1) c1; v1 = put_ctrl i c2 v
               in if rc_level c2 \<noteq> rc_level c1 then vrate_rearbitrate now v1 else v1
          else put_ctrl i c1 v)"

section \<open>The encoder side\<close>

definition reapply :: "(controller \<Rightarrow> bool) \<Rightarrow> encoder \<Rightarrow> controller \<Rightarrow> controller" where
  "reapply P a h = (if P h then vrate_apply_level a (rc_level h) h else h)"

definition vrate_set_pin :: "bool \<Rightarrow> int \<Rightarrow> int \<Rightarrow> bool \<Rightarrow> bool \<Rightarrow> vrate \<Rightarrow> vrate" where
  "vrate_set_pin mutex_ok now now2 pinned set_request v =
     (case vrate_lock_init mutex_ok v of (err, v0) \<Rightarrow>
        if err \<noteq> ESP_OK then v0
        else let a = v_agg v0;
                 a1 = (if set_request then a\<lparr>ag_pin_wanted := pinned, ag_pin_released := 0\<rparr>
                       else if \<not> pinned then a\<lparr>ag_pin_released := now\<rparr> else a);
                 a2 = a1\<lparr>ag_pinned := pinned\<rparr>
             in if ag_inited a2 \<and> ag_pinned a \<noteq> pinned
                then vrate_rearbitrate now2
                       (v0\<lparr>v_agg := a2, v_ctrl := map (reapply (\<lambda>h. rc_in_use h \<and> rc_enabled h) a2) (v_ctrl v0)\<rparr>)
                else v0\<lparr>v_agg := a2\<rparr>)"

definition video_rate_ctrl_set_fps_pinned :: "bool \<Rightarrow> int \<Rightarrow> int \<Rightarrow> bool \<Rightarrow> bool \<Rightarrow> vrate \<Rightarrow> vrate" where
  "video_rate_ctrl_set_fps_pinned mutex_ok now now2 pinned operator_request v =
     vrate_set_pin mutex_ok now now2 pinned operator_request v"

definition video_rate_ctrl_pull_fps_pin :: "vrate \<Rightarrow> int \<times> vrate" where
  "video_rate_ctrl_pull_fps_pin v = (v_pending_pin v, v\<lparr>v_pending_pin := - 1\<rparr>)"

definition video_rate_ctrl_set_min_bitrate_bps :: "int \<Rightarrow> nat \<Rightarrow> vrate \<Rightarrow> vrate" where
  "video_rate_ctrl_set_min_bitrate_bps now bps v =
     (if \<not> v_lock v then v
      else let a = v_agg v;
               f0 = (if bps > MIN_BITRATE_BPS then bps else MIN_BITRATE_BPS);
               flr = (if ag_max_bps a \<noteq> 0 \<and> f0 > ag_max_bps a then ag_max_bps a else f0);
               a1 = a\<lparr>ag_min_bps := flr\<rparr>
           in if ag_min_bps a \<noteq> flr
              then vrate_rearbitrate now (v\<lparr>v_agg := a1, v_ctrl := map (reapply rc_in_use a1) (v_ctrl v)\<rparr>)
              else v\<lparr>v_agg := a1\<rparr>)"

definition video_rate_ctrl_set_actuation_period_ms :: "nat \<Rightarrow> vrate \<Rightarrow> vrate" where
  "video_rate_ctrl_set_actuation_period_ms ms v =
     (if \<not> v_lock v then v else v\<lparr>v_agg := (v_agg v)\<lparr>ag_period_ms := ms\<rparr>\<rparr>)"

definition video_rate_ctrl_report_committed_bitrate_bps :: "nat \<Rightarrow> vrate \<Rightarrow> vrate" where
  "video_rate_ctrl_report_committed_bitrate_bps bps v =
     (if \<not> v_lock v then v else v\<lparr>v_agg := (v_agg v)\<lparr>ag_committed := bps\<rparr>\<rparr>)"

definition video_rate_ctrl_set_bitrate_actuable :: "bool \<Rightarrow> vrate \<Rightarrow> vrate" where
  "video_rate_ctrl_set_bitrate_actuable actuable v =
     (if \<not> v_lock v then v else v\<lparr>v_agg := (v_agg v)\<lparr>ag_bitrate_actuable := actuable\<rparr>\<rparr>)"

definition vrate_expire_if_due :: "bool \<Rightarrow> int \<Rightarrow> vrate \<Rightarrow> vrate" where
  "vrate_expire_if_due got now v =
     (if now < v_stale_check v then v
      else if \<not> v_lock v \<or> \<not> got then v
      else vrate_rearbitrate now
             (v\<lparr>v_ctrl := map (\<lambda>h. if rc_in_use h \<and> rc_enabled h \<and> \<not> rc_stale h \<and> vrate_is_stale now h
                                   then h\<lparr>rc_stale := True\<rparr> else h) (v_ctrl v)\<rparr>))"

definition video_rate_ctrl_target_fps :: "vrate \<Rightarrow> nat" where
  "video_rate_ctrl_target_fps v = v_pub_fps v"

definition video_rate_ctrl_pull_bitrate_bps :: "bool \<Rightarrow> int \<Rightarrow> vrate \<Rightarrow> nat \<times> vrate" where
  "video_rate_ctrl_pull_bitrate_bps got now v =
     (let v1 = vrate_expire_if_due got now v in (v_pending_bps v1, v1\<lparr>v_pending_bps := 0\<rparr>))"

section \<open>Diagnostics\<close>

record encoder_stats =
  es_requested_bps :: nat
  es_committed_bps :: nat
  es_fps_actuable :: bool
  es_bitrate_actuable :: bool
  es_fps_pin_wanted :: bool
  es_fps_pinned :: bool
  es_pinned_floor_bps :: nat
  es_floor_bps :: nat
  es_deepest_level :: nat

definition video_rate_ctrl_get_encoder_stats ::
  "bool \<Rightarrow> int \<Rightarrow> bool \<Rightarrow> vrate \<Rightarrow> esp_err \<times> encoder_stats option \<times> vrate" where
  "video_rate_ctrl_get_encoder_stats got now out v =
     (if \<not> out then (ESP_ERR_INVALID_ARG, None, v)
      else if \<not> v_lock v
      then (ESP_OK, Some \<lparr>es_requested_bps = 0, es_committed_bps = 0, es_fps_actuable = False,
              es_bitrate_actuable = False, es_fps_pin_wanted = False, es_fps_pinned = False,
              es_pinned_floor_bps = 0, es_floor_bps = 0, es_deepest_level = 0\<rparr>, v)
      else let v1 = vrate_expire_if_due got now v; a = v_agg v1
           in (ESP_OK, Some \<lparr>es_requested_bps = (if ag_inited a then ag_requested a else 0),
                 es_committed_bps = ag_committed a, es_fps_actuable = ag_fps_actuable a,
                 es_bitrate_actuable = ag_bitrate_actuable a, es_fps_pin_wanted = ag_pin_wanted a,
                 es_fps_pinned = ag_pinned a,
                 es_pinned_floor_bps = (if ag_pin_wanted a then vrate_pinned_floor_raw a else 0),
                 es_floor_bps = (if ag_inited a then vrate_floor_bps a else 0),
                 es_deepest_level = (if ag_inited a then vrate_deepest_useful_level a else 0)\<rparr>, v1))"

record ctrl_stats =
  cs_name :: string
  cs_enabled :: bool
  cs_stale :: bool
  cs_level :: nat
  cs_target_fps :: nat
  cs_target_bps :: nat
  cs_load_pct :: nat
  cs_net_ceiling :: nat
  cs_reports :: nat
  cs_probe_bar_level :: nat

definition stats_of :: "int \<Rightarrow> controller \<Rightarrow> ctrl_stats" where
  "stats_of now h =
     \<lparr>cs_name = rc_name h, cs_enabled = rc_enabled h, cs_stale = (rc_enabled h \<and> vrate_is_stale now h),
      cs_level = rc_level h, cs_target_fps = rc_target_fps h, cs_target_bps = rc_target_bps h,
      cs_load_pct = rc_load_pct h, cs_net_ceiling = rc_net_ceiling h, cs_reports = rc_reports h,
      cs_probe_bar_level = rc_probe_bar_level h\<rparr>"

text \<open>The first \<open>max\<close> controllers in use, and the arbitrated frame rate and bitrate.\<close>

definition video_rate_ctrl_get_stats :: "int \<Rightarrow> nat \<Rightarrow> vrate \<Rightarrow> ctrl_stats list \<times> nat \<times> nat" where
  "video_rate_ctrl_get_stats now max_n v =
     (if \<not> v_lock v then ([], 0, 0)
      else (map (stats_of now) (take max_n (filter rc_in_use (v_ctrl v))),
            (if v_pub_fps v \<noteq> 0 then v_pub_fps v else ag_camera_fps (v_agg v)),
            (if ag_inited (v_agg v) then ag_requested (v_agg v) else 0)))"

section \<open>The calls and the states they reach\<close>

text \<open>Every entry point that changes state, with what it is given, as the environment of the component makes it.\<close>

datatype vrate_call =
    Init nat nat nat nat bool bool
  | Create string bool
  | Destroy nat
  | Enable nat bool
  | Send_ms nat nat
  | Queue nat nat nat bool
  | Overflow nat
  | Ceiling nat nat
  | Set_pin bool bool bool
  | Pull_pin
  | Set_min nat
  | Set_period nat
  | Committed nat
  | Set_actuable bool
  | Pull_bitrate bool
  | Encoder_stats bool

fun vrate_do :: "int \<Rightarrow> int \<Rightarrow> vrate_call \<Rightarrow> vrate \<Rightarrow> vrate" where
  "vrate_do now now2 (Init fps bps w h act ok) v = video_rate_ctrl_init ok now fps bps w h act v"
| "vrate_do now now2 (Create name ok) v = snd (snd (video_rate_ctrl_create ok now (Some name) True v))"
| "vrate_do now now2 (Destroy i) v = video_rate_ctrl_destroy now (Some i) v"
| "vrate_do now now2 (Enable i b) v = video_rate_ctrl_enable now (Some i) b v"
| "vrate_do now now2 (Send_ms i ms) v = video_rate_ctrl_report_send_ms now now2 (Some i) ms v"
| "vrate_do now now2 (Queue i used cap got) v = video_rate_ctrl_report_queue got now now2 (Some i) used cap v"
| "vrate_do now now2 (Overflow i) v = video_rate_ctrl_report_overflow now now2 (Some i) v"
| "vrate_do now now2 (Ceiling i bps) v = video_rate_ctrl_set_network_ceiling_bps now (Some i) bps v"
| "vrate_do now now2 (Set_pin b req ok) v = video_rate_ctrl_set_fps_pinned ok now now2 b req v"
| "vrate_do now now2 Pull_pin v = snd (video_rate_ctrl_pull_fps_pin v)"
| "vrate_do now now2 (Set_min bps) v = video_rate_ctrl_set_min_bitrate_bps now bps v"
| "vrate_do now now2 (Set_period ms) v = video_rate_ctrl_set_actuation_period_ms ms v"
| "vrate_do now now2 (Committed bps) v = video_rate_ctrl_report_committed_bitrate_bps bps v"
| "vrate_do now now2 (Set_actuable b) v = video_rate_ctrl_set_bitrate_actuable b v"
| "vrate_do now now2 (Pull_bitrate got) v = snd (video_rate_ctrl_pull_bitrate_bps got now v)"
| "vrate_do now now2 (Encoder_stats got) v = snd (snd (video_rate_ctrl_get_encoder_stats got now True v))"

text \<open>The arguments fit their C types, and a handle names a slot.\<close>

definition is_u32 :: "nat \<Rightarrow> bool" where "is_u32 n \<longleftrightarrow> n < 4294967296"

fun call_ok :: "vrate_call \<Rightarrow> bool" where
  "call_ok (Init fps bps w h act ok) \<longleftrightarrow> is_u32 fps \<and> is_u32 bps \<and> is_u32 w \<and> is_u32 h"
| "call_ok (Destroy i) \<longleftrightarrow> i < VIDEO_RATE_CTRL_MAX"
| "call_ok (Enable i b) \<longleftrightarrow> i < VIDEO_RATE_CTRL_MAX"
| "call_ok (Send_ms i ms) \<longleftrightarrow> i < VIDEO_RATE_CTRL_MAX \<and> is_u32 ms"
| "call_ok (Queue i used cap got) \<longleftrightarrow> i < VIDEO_RATE_CTRL_MAX \<and> is_u32 used \<and> is_u32 cap"
| "call_ok (Overflow i) \<longleftrightarrow> i < VIDEO_RATE_CTRL_MAX"
| "call_ok (Ceiling i bps) \<longleftrightarrow> i < VIDEO_RATE_CTRL_MAX \<and> is_u32 bps"
| "call_ok (Set_min bps) \<longleftrightarrow> is_u32 bps"
| "call_ok (Set_period ms) \<longleftrightarrow> is_u32 ms"
| "call_ok (Committed bps) \<longleftrightarrow> is_u32 bps"
| "call_ok _ \<longleftrightarrow> True"

text \<open>
  \<open>vrate_runs P v t cs v' t'\<close>: the calls \<open>cs\<close>, each of the kind \<open>P\<close>, made in this order at times that never step
  back, lead from \<open>v\<close> at time \<open>t\<close> to \<open>v'\<close> at time \<open>t'\<close>.
\<close>

inductive vrate_runs :: "(vrate_call \<Rightarrow> bool) \<Rightarrow> vrate \<Rightarrow> int \<Rightarrow> vrate_call list \<Rightarrow> vrate \<Rightarrow> int \<Rightarrow> bool" for P v t where
  runs_none: "vrate_runs P v t [] v t"
| runs_call: "vrate_runs P v t cs v1 t1 \<Longrightarrow> t1 \<le> now \<Longrightarrow> now \<le> now2 \<Longrightarrow> call_ok c \<Longrightarrow> P c \<Longrightarrow>
    vrate_runs P v t (cs @ [c]) (vrate_do now now2 c v1) now2"

inductive_cases vrate_runs_snoc: "vrate_runs P v t cs v' t'"

lemma runs_time: "vrate_runs P v t cs v' t' \<Longrightarrow> t \<le> t'"
  by (induction rule: vrate_runs.induct) auto

text \<open>An assertion that every call of the kind \<open>P\<close> keeps holds after every run of such calls.\<close>

lemma runs_invariant:
  assumes "vrate_runs P v t cs v' t'" "I t v"
    and "\<And>c t v now now2. I t v \<Longrightarrow> t \<le> now \<Longrightarrow> now \<le> now2 \<Longrightarrow> call_ok c \<Longrightarrow> P c \<Longrightarrow> I now2 (vrate_do now now2 c v)"
  shows "I t' v'"
  using assms(1,2) by (induction rule: vrate_runs.induct) (auto intro: assms(3))

end
