(* ===== verification/Rate_Ladder.thy ===== *)
theory Rate_Ladder
  imports Rate_Api
begin

text \<open>
  The ladder: frame rate and bitrate never rise from a rung to the next, rungs below the deepest useful one
  are the same operating point, and what the clamping of a level does to the operating point.
\<close>

lemma u32_le [simp]: "u32 n \<le> n"
  by (simp add: u32_def)

lemma u32_id: "n < 4294967296 \<Longrightarrow> u32 n = n"
  by (simp add: u32_def)

lemma ladder_level_cases:
  assumes "i < LADDER_N"
  obtains "i = 0" | "i = 1" | "i = 2" | "i = 3" | "i = 4" | "i = 5" | "i = 6" | "i = 7"
  using assms by (auto simp: LADDER_N_def less_Suc_eq numeral_eq_Suc)

lemma LADDER_pct: "i < LADDER_N \<Longrightarrow> rung_pct (LADDER ! i) \<le> 100"
  by (erule ladder_level_cases) (simp_all add: LADDER_def)

lemma LADDER_pct_step: "Suc i < LADDER_N \<Longrightarrow> rung_pct (LADDER ! Suc i) \<le> rung_pct (LADDER ! i)"
  by (simp add: LADDER_N_def less_Suc_eq numeral_eq_Suc, elim disjE) (simp_all add: LADDER_def)

lemma LADDER_fps_step: "Suc (Suc i) < LADDER_N \<Longrightarrow>
    rung_fps (LADDER ! Suc (Suc i)) \<le> rung_fps (LADDER ! Suc i) \<and> 12 \<le> rung_fps (LADDER ! Suc (Suc i))"
  by (simp add: LADDER_N_def less_Suc_eq numeral_eq_Suc, elim disjE) (simp_all add: LADDER_def)

lemma antitone_from_steps:
  fixes f :: "nat \<Rightarrow> nat"
  assumes "\<And>i. Suc i < n \<Longrightarrow> f (Suc i) \<le> f i" "i \<le> j" "j < n"
  shows "f j \<le> f i"
  using assms(2,3)
proof (induction j)
  case (Suc j)
  then show ?case using assms(1)[of j] by (cases "i = Suc j") (auto intro: order_trans)
qed simp

text \<open>The frame rate of a rung.\<close>

lemma rung_fps_le_camera: "vrate_rung_fps a l \<le> ag_camera_fps a"
  by (simp add: vrate_rung_fps_def Let_def)

lemma rung_fps_floor: "min FPS_FLOOR (ag_camera_fps a) \<le> vrate_rung_fps a l"
  by (auto simp: vrate_rung_fps_def Let_def)

lemma rung_fps_top: "vrate_rung_fps a 0 = ag_camera_fps a"
  by (simp add: vrate_rung_fps_def Let_def LADDER_def)

lemma rung_fps_antitone:
  assumes "i \<le> j" "j < LADDER_N"
  shows "vrate_rung_fps a j \<le> vrate_rung_fps a i"
proof (rule antitone_from_steps[OF _ assms])
  fix i assume "Suc i < LADDER_N"
  then show "vrate_rung_fps a (Suc i) \<le> vrate_rung_fps a i"
  proof (cases i)
    case 0
    then show ?thesis using rung_fps_le_camera rung_fps_top by simp
  next
    case (Suc k)
    then have "rung_fps (LADDER ! Suc i) \<le> rung_fps (LADDER ! i)" "12 \<le> rung_fps (LADDER ! Suc i)"
      using LADDER_fps_step[of k] \<open>Suc i < LADDER_N\<close> by auto
    then show ?thesis by (auto simp: vrate_rung_fps_def Let_def FPS_FLOOR_def)
  qed
qed

text \<open>The bitrate of a rung. The part that does not depend on the floor:\<close>

definition rung_share :: "encoder \<Rightarrow> nat \<Rightarrow> nat" where
  "rung_share a l = u32 ((ag_max_bps a * rung_pct (LADDER ! l)) div 100)"

lemma rung_bitrate_max: "vrate_rung_bitrate a l = max (rung_share a l) (vrate_floor_bps a)"
  by (simp add: vrate_rung_bitrate_def rung_share_def Let_def max_def)

lemma rung_share_le_max: "l < LADDER_N \<Longrightarrow> rung_share a l \<le> ag_max_bps a"
proof -
  assume "l < LADDER_N"
  then have "ag_max_bps a * rung_pct (LADDER ! l) \<le> ag_max_bps a * 100" using LADDER_pct by simp
  then have "(ag_max_bps a * rung_pct (LADDER ! l)) div 100 \<le> (ag_max_bps a * 100) div 100" by (rule div_le_mono)
  then have "(ag_max_bps a * rung_pct (LADDER ! l)) div 100 \<le> ag_max_bps a" by simp
  then show ?thesis unfolding rung_share_def by (rule order_trans[OF u32_le])
qed

lemma rung_share_antitone:
  assumes "i \<le> j" "j < LADDER_N" "is_u32 (ag_max_bps a)"
  shows "rung_share a j \<le> rung_share a i"
proof (rule antitone_from_steps[OF _ assms(1,2)])
  fix i assume i: "Suc i < LADDER_N"
  have small: "u32 ((ag_max_bps a * rung_pct (LADDER ! l)) div 100) = (ag_max_bps a * rung_pct (LADDER ! l)) div 100"
    if "l < LADDER_N" for l
  proof (rule u32_id)
    have "ag_max_bps a * rung_pct (LADDER ! l) \<le> ag_max_bps a * 100" by (rule mult_le_mono2[OF LADDER_pct[OF that]])
    then have "(ag_max_bps a * rung_pct (LADDER ! l)) div 100 \<le> (ag_max_bps a * 100) div 100" by (rule div_le_mono)
    then have "(ag_max_bps a * rung_pct (LADDER ! l)) div 100 \<le> ag_max_bps a" by simp
    then show "(ag_max_bps a * rung_pct (LADDER ! l)) div 100 < 4294967296"
      using assms(3) unfolding is_u32_def by (rule le_less_trans)
  qed
  show "rung_share a (Suc i) \<le> rung_share a i"
    unfolding rung_share_def small[OF i] small[OF Suc_lessD[OF i]]
    by (intro div_le_mono mult_le_mono2 LADDER_pct_step i)
qed

lemma rung_bitrate_antitone:
  assumes "i \<le> j" "j < LADDER_N" "is_u32 (ag_max_bps a)"
  shows "vrate_rung_bitrate a j \<le> vrate_rung_bitrate a i"
  using rung_share_antitone[OF assms] by (simp add: rung_bitrate_max max_def)

lemma floor_le_rung: "vrate_floor_bps a \<le> vrate_rung_bitrate a l"
  by (simp add: rung_bitrate_max)

lemma floor_le_max: "ag_max_bps a \<noteq> 0 \<Longrightarrow> vrate_floor_bps a \<le> ag_max_bps a"
  by (simp add: vrate_floor_bps_def Let_def)

lemma rung_bitrate_le_max: "ag_max_bps a \<noteq> 0 \<Longrightarrow> l < LADDER_N \<Longrightarrow> vrate_rung_bitrate a l \<le> ag_max_bps a"
  using rung_share_le_max floor_le_max by (simp add: rung_bitrate_max)

section \<open>The deepest useful rung\<close>

definition point :: "encoder \<Rightarrow> nat \<Rightarrow> nat \<times> nat" where
  "point a l = (vrate_rung_fps a l, vrate_rung_bitrate a l)"

lemma deepest_loop_le: "deepest_loop a l \<le> l"
  by (induction l) auto

lemma deepest_loop_same: "deepest_loop a n \<le> l \<Longrightarrow> l \<le> n \<Longrightarrow> point a l = point a n"
proof (induction n)
  case (Suc n)
  then show ?case by (cases "l = Suc n") (auto simp: point_def split: if_splits)
qed simp

lemma deepest_loop_distinct: "deepest_loop a n = Suc d \<Longrightarrow> point a (Suc d) \<noteq> point a d"
  by (induction n) (auto simp: point_def split: if_splits)

lemma deepest_loop_last: "0 < l \<Longrightarrow> l \<le> n \<Longrightarrow> point a l \<noteq> point a (l - 1) \<Longrightarrow> l \<le> deepest_loop a n"
proof (induction n)
  case (Suc n)
  then show ?case by (cases "l = Suc n") (auto simp: point_def)
qed simp

lemma deepest_lt: "vrate_deepest_useful_level a < LADDER_N"
  using deepest_loop_le[of a "LADDER_N - 1"] by (simp add: vrate_deepest_useful_level_def LADDER_N_def)

lemma deepest_same: "vrate_deepest_useful_level a \<le> l \<Longrightarrow> l < LADDER_N \<Longrightarrow>
    point a l = point a (vrate_deepest_useful_level a)"
  using deepest_loop_same[of a "LADDER_N - 1" l] deepest_loop_same[of a "LADDER_N - 1" "vrate_deepest_useful_level a"]
    deepest_lt[of a]
  by (simp add: vrate_deepest_useful_level_def LADDER_N_def)

lemma point_min_deepest: "l < LADDER_N \<Longrightarrow> point a (min l (vrate_deepest_useful_level a)) = point a l"
  using deepest_same[of a l] by (auto simp: min_def)

section \<open>Clamping a level\<close>

lemma ceiling_lt: "vrate_ceiling_level a h < LADDER_N"
  by (auto simp: vrate_ceiling_level_def find_Some_iff LADDER_N_def split: option.splits)

lemma clamp_level_min:
  "clamp_level a h l = min (max l (vrate_ceiling_level a h)) (vrate_deepest_useful_level a)"
  using deepest_lt[of a] by (auto simp: clamp_level_def Let_def min_def max_def)

lemma clamp_level_lt: "clamp_level a h l < LADDER_N"
  using deepest_lt[of a] by (simp add: clamp_level_min)

lemma ceiling_fits:
  assumes "vrate_rung_bitrate a (LADDER_N - 1) \<le> vrate_eff_max a h"
  shows "vrate_rung_bitrate a (vrate_ceiling_level a h) \<le> vrate_eff_max a h"
proof (cases "find (\<lambda>i. vrate_rung_bitrate a i \<le> vrate_eff_max a h) [0..<LADDER_N]")
  case None
  then have "\<not> vrate_rung_bitrate a (LADDER_N - 1) \<le> vrate_eff_max a h"
    by (auto simp: find_None_iff LADDER_N_def)
  then show ?thesis using assms by simp
next
  case (Some i)
  then have "vrate_ceiling_level a h = i" by (simp add: vrate_ceiling_level_def)
  then show ?thesis using Some by (auto simp: find_Some_iff)
qed

end
