(* ===== verification/Rate_Inv.thy ===== *)
theory Rate_Inv
  imports Rate_Ladder
begin

text \<open>
  Arbitration as a minimum over the eligible controllers, and the invariant of the rate control: every enabled
  controller stands on a rung of the ladder, and what the encoder is asked for stays between the survival
  floor and the configured maximum.
\<close>

section \<open>Arbitration\<close>

definition eligible :: "int \<Rightarrow> vrate \<Rightarrow> controller list" where
  "eligible now v = filter (vrate_eligible now) (v_ctrl v)"

lemma arbitrate_Nil: "arbitrate now [] = \<lparr>arb_fps = 0, arb_bps = 0, arb_any = False, arb_soonest = INT64_MAX\<rparr>"
  by (simp add: arbitrate_def)

lemma arbitrate_snoc: "arbitrate now (hs @ [h]) = arb_step now h (arbitrate now hs)"
  by (simp add: arbitrate_def)

lemma arb_step_ineligible: "\<not> vrate_eligible now h \<Longrightarrow> arb_step now h b = b"
  by (auto simp: arb_step_def vrate_eligible_def)

lemma arb_step_eligible:
  assumes "vrate_eligible now h"
  shows "arb_any (arb_step now h b)"
    "arb_fps (arb_step now h b) = (if arb_any b then min (rc_target_fps h) (arb_fps b) else rc_target_fps h)"
    "arb_bps (arb_step now h b) = (if arb_any b then min (rc_target_bps h) (arb_bps b) else rc_target_bps h)"
    "arb_soonest (arb_step now h b) = min (rc_last_report h + VRATE_STALE_MS * 1000) (arb_soonest b)"
  using assms by (auto simp: arb_step_def vrate_eligible_def Let_def min_def)

lemma arbitrate_any: "arb_any (arbitrate now hs) \<longleftrightarrow> filter (vrate_eligible now) hs \<noteq> []"
proof (induction hs rule: rev_induct)
  case Nil
  then show ?case by (simp add: arbitrate_Nil)
next
  case (snoc h hs)
  then show ?case
    by (cases "vrate_eligible now h") (simp_all add: arbitrate_snoc arb_step_eligible arb_step_ineligible)
qed

lemma arbitrate_min:
  assumes "filter (vrate_eligible now) hs \<noteq> []"
  shows "arb_fps (arbitrate now hs) = Min (rc_target_fps ` set (filter (vrate_eligible now) hs)) \<and>
    arb_bps (arbitrate now hs) = Min (rc_target_bps ` set (filter (vrate_eligible now) hs))"
  using assms
proof (induction hs rule: rev_induct)
  case (snoc h hs)
  show ?case
  proof (cases "vrate_eligible now h")
    case False
    then show ?thesis using snoc by (simp add: arbitrate_snoc arb_step_ineligible)
  next
    case True
    show ?thesis
    proof (cases "filter (vrate_eligible now) hs = []")
      case True': True
      then have "\<not> arb_any (arbitrate now hs)" by (simp add: arbitrate_any)
      then show ?thesis using True True' by (simp add: arbitrate_snoc arb_step_eligible)
    next
      case False
      then have "arb_any (arbitrate now hs)" by (simp add: arbitrate_any)
      moreover have "set (filter (vrate_eligible now) hs) \<noteq> {}" using False by (simp only: set_empty) simp
      ultimately show ?thesis using True snoc.IH[OF False]
        by (simp add: arbitrate_snoc arb_step_eligible)
    qed
  qed
qed simp

lemma arbitrate_soonest:
  "arb_soonest (arbitrate now hs) =
     Min (insert INT64_MAX ((\<lambda>h. rc_last_report h + VRATE_STALE_MS * 1000) ` set (filter (vrate_eligible now) hs)))"
proof (induction hs rule: rev_induct)
  case Nil
  then show ?case by (simp add: arbitrate_Nil)
next
  case (snoc h hs)
  have min_swap: "Min (insert m (insert x S)) = min x (Min (insert m S))" if "finite S" for m x :: int and S
    using that by (subst insert_commute) simp
  show ?case
  proof (cases "vrate_eligible now h")
    case True
    then show ?thesis using snoc
      by (simp add: arbitrate_snoc arb_step_eligible min_swap del: Min_insert)
  next
    case False
    then show ?thesis using snoc by (simp add: arbitrate_snoc arb_step_ineligible)
  qed
qed

section \<open>What a change of the encoder record leaves alone\<close>

lemma rung_fps_agg [simp]:
  "vrate_rung_fps (a\<lparr>ag_requested := x\<rparr>) l = vrate_rung_fps a l"
  "vrate_rung_fps (a\<lparr>ag_pinned := b\<rparr>) l = vrate_rung_fps a l"
  "vrate_rung_fps (a\<lparr>ag_pin_released := t\<rparr>) l = vrate_rung_fps a l"
  "vrate_rung_fps (a\<lparr>ag_pin_wanted := b\<rparr>) l = vrate_rung_fps a l"
  "vrate_rung_fps (a\<lparr>ag_min_bps := x\<rparr>) l = vrate_rung_fps a l"
  "vrate_rung_fps (a\<lparr>ag_period_ms := x\<rparr>) l = vrate_rung_fps a l"
  "vrate_rung_fps (a\<lparr>ag_committed := x\<rparr>) l = vrate_rung_fps a l"
  "vrate_rung_fps (a\<lparr>ag_bitrate_actuable := b\<rparr>) l = vrate_rung_fps a l"
  by (simp_all add: vrate_rung_fps_def Let_def)

lemma resolution_floor_agg [simp]:
  "vrate_resolution_floor_bps (a\<lparr>ag_requested := x\<rparr>) = vrate_resolution_floor_bps a"
  "vrate_resolution_floor_bps (a\<lparr>ag_pinned := b\<rparr>) = vrate_resolution_floor_bps a"
  "vrate_resolution_floor_bps (a\<lparr>ag_pin_released := t\<rparr>) = vrate_resolution_floor_bps a"
  "vrate_resolution_floor_bps (a\<lparr>ag_pin_wanted := b\<rparr>) = vrate_resolution_floor_bps a"
  "vrate_resolution_floor_bps (a\<lparr>ag_min_bps := x\<rparr>) = vrate_resolution_floor_bps a"
  "vrate_resolution_floor_bps (a\<lparr>ag_period_ms := x\<rparr>) = vrate_resolution_floor_bps a"
  "vrate_resolution_floor_bps (a\<lparr>ag_committed := x\<rparr>) = vrate_resolution_floor_bps a"
  "vrate_resolution_floor_bps (a\<lparr>ag_bitrate_actuable := b\<rparr>) = vrate_resolution_floor_bps a"
  by (simp_all add: vrate_resolution_floor_bps_def Let_def)

section \<open>The invariant\<close>

text \<open>The least bitrate that any floor lets through; it depends on the last \<open>init\<close> alone.\<close>

definition survival_bps :: "encoder \<Rightarrow> nat" where
  "survival_bps a = min (ag_max_bps a) (max MIN_BITRATE_BPS (vrate_resolution_floor_bps a))"

definition in_range :: "encoder \<Rightarrow> nat \<Rightarrow> bool" where
  "in_range a bps \<longleftrightarrow> survival_bps a \<le> bps \<and> (ag_max_bps a \<noteq> 0 \<longrightarrow> bps \<le> ag_max_bps a)"

definition agg_ok :: "encoder \<Rightarrow> bool" where
  "agg_ok a \<longleftrightarrow> is_u32 (ag_max_bps a) \<and> min (ag_max_bps a) MIN_BITRATE_BPS \<le> ag_min_bps a \<and>
     (ag_max_bps a \<noteq> 0 \<longrightarrow> ag_min_bps a \<le> ag_max_bps a)"

definition on_ladder :: "encoder \<Rightarrow> controller \<Rightarrow> bool" where
  "on_ladder a h \<longleftrightarrow> rc_level h < LADDER_N \<and> rc_target_fps h = vrate_rung_fps a (rc_level h) \<and>
     in_range a (rc_target_bps h)"

definition ctrl_ok :: "encoder \<Rightarrow> controller \<Rightarrow> bool" where
  "ctrl_ok a h \<longleftrightarrow> (rc_in_use h \<and> rc_enabled h \<longrightarrow> on_ladder a h)"

definition fps_ok :: "encoder \<Rightarrow> nat \<Rightarrow> bool" where
  "fps_ok a fps \<longleftrightarrow> fps = 0 \<or> (min FPS_FLOOR (ag_camera_fps a) \<le> fps \<and> fps \<le> ag_camera_fps a)"

definition core_ok :: "vrate \<Rightarrow> bool" where
  "core_ok v \<longleftrightarrow> length (v_ctrl v) = VIDEO_RATE_CTRL_MAX \<and>
     (ag_inited (v_agg v) \<longrightarrow> agg_ok (v_agg v) \<and> list_all (ctrl_ok (v_agg v)) (v_ctrl v) \<and>
        in_range (v_agg v) (ag_requested (v_agg v)) \<and> v_pending_bps v \<in> {0, ag_requested (v_agg v)})"

definition pub_ok :: "vrate \<Rightarrow> bool" where
  "pub_ok v \<longleftrightarrow> (if ag_inited (v_agg v) then fps_ok (v_agg v) (v_pub_fps v) else v_pub_fps v = 0)"

definition vrate_ok :: "vrate \<Rightarrow> bool" where
  "vrate_ok v \<longleftrightarrow> core_ok v \<and> pub_ok v"

lemma in_range_agg [simp]:
  "in_range (a\<lparr>ag_requested := x\<rparr>) y = in_range a y" "in_range (a\<lparr>ag_pinned := b\<rparr>) y = in_range a y"
  "in_range (a\<lparr>ag_pin_released := t\<rparr>) y = in_range a y" "in_range (a\<lparr>ag_pin_wanted := b\<rparr>) y = in_range a y"
  "in_range (a\<lparr>ag_min_bps := x\<rparr>) y = in_range a y" "in_range (a\<lparr>ag_period_ms := x\<rparr>) y = in_range a y"
  "in_range (a\<lparr>ag_committed := x\<rparr>) y = in_range a y" "in_range (a\<lparr>ag_bitrate_actuable := b\<rparr>) y = in_range a y"
  by (simp_all add: in_range_def survival_bps_def)

lemma agg_ok_agg [simp]:
  "agg_ok (a\<lparr>ag_requested := x\<rparr>) = agg_ok a" "agg_ok (a\<lparr>ag_pinned := b\<rparr>) = agg_ok a"
  "agg_ok (a\<lparr>ag_pin_released := t\<rparr>) = agg_ok a" "agg_ok (a\<lparr>ag_pin_wanted := b\<rparr>) = agg_ok a"
  "agg_ok (a\<lparr>ag_period_ms := x\<rparr>) = agg_ok a" "agg_ok (a\<lparr>ag_committed := x\<rparr>) = agg_ok a"
  "agg_ok (a\<lparr>ag_bitrate_actuable := b\<rparr>) = agg_ok a"
  by (simp_all add: agg_ok_def)

lemma on_ladder_agg [simp]:
  "on_ladder (a\<lparr>ag_requested := x\<rparr>) = on_ladder a" "on_ladder (a\<lparr>ag_pinned := b\<rparr>) = on_ladder a"
  "on_ladder (a\<lparr>ag_pin_released := t\<rparr>) = on_ladder a" "on_ladder (a\<lparr>ag_pin_wanted := b\<rparr>) = on_ladder a"
  "on_ladder (a\<lparr>ag_min_bps := x\<rparr>) = on_ladder a" "on_ladder (a\<lparr>ag_period_ms := x\<rparr>) = on_ladder a"
  "on_ladder (a\<lparr>ag_committed := x\<rparr>) = on_ladder a" "on_ladder (a\<lparr>ag_bitrate_actuable := b\<rparr>) = on_ladder a"
  by (simp_all add: on_ladder_def fun_eq_iff)

lemma ctrl_ok_agg [simp]:
  "ctrl_ok (a\<lparr>ag_requested := x\<rparr>) = ctrl_ok a" "ctrl_ok (a\<lparr>ag_pinned := b\<rparr>) = ctrl_ok a"
  "ctrl_ok (a\<lparr>ag_pin_released := t\<rparr>) = ctrl_ok a" "ctrl_ok (a\<lparr>ag_pin_wanted := b\<rparr>) = ctrl_ok a"
  "ctrl_ok (a\<lparr>ag_min_bps := x\<rparr>) = ctrl_ok a" "ctrl_ok (a\<lparr>ag_period_ms := x\<rparr>) = ctrl_ok a"
  "ctrl_ok (a\<lparr>ag_committed := x\<rparr>) = ctrl_ok a" "ctrl_ok (a\<lparr>ag_bitrate_actuable := b\<rparr>) = ctrl_ok a"
  by (simp_all add: ctrl_ok_def fun_eq_iff)

lemma fps_ok_agg [simp]:
  "fps_ok (a\<lparr>ag_requested := x\<rparr>) = fps_ok a" "fps_ok (a\<lparr>ag_pinned := b\<rparr>) = fps_ok a"
  "fps_ok (a\<lparr>ag_pin_released := t\<rparr>) = fps_ok a" "fps_ok (a\<lparr>ag_pin_wanted := b\<rparr>) = fps_ok a"
  "fps_ok (a\<lparr>ag_min_bps := x\<rparr>) = fps_ok a" "fps_ok (a\<lparr>ag_period_ms := x\<rparr>) = fps_ok a"
  "fps_ok (a\<lparr>ag_committed := x\<rparr>) = fps_ok a" "fps_ok (a\<lparr>ag_bitrate_actuable := b\<rparr>) = fps_ok a"
  by (simp_all add: fps_ok_def fun_eq_iff)

lemma floor_ge_survival: "agg_ok a \<Longrightarrow> survival_bps a \<le> vrate_floor_bps a"
  by (auto simp: agg_ok_def survival_bps_def vrate_floor_bps_def Let_def)

lemma rung_in_range: "agg_ok a \<Longrightarrow> l < LADDER_N \<Longrightarrow> in_range a (vrate_rung_bitrate a l)"
  using floor_ge_survival[of a] floor_le_rung[of a l] rung_bitrate_le_max[of a l] by (auto simp: in_range_def)

lemma apply_level_fields [simp]:
  "rc_in_use (vrate_apply_level a l h) = rc_in_use h" "rc_enabled (vrate_apply_level a l h) = rc_enabled h"
  "rc_level (vrate_apply_level a l h) = clamp_level a h l"
  "rc_target_fps (vrate_apply_level a l h) = vrate_rung_fps a (clamp_level a h l)"
  "rc_target_bps (vrate_apply_level a l h) = vrate_rung_bitrate a (clamp_level a h l)"
  "rc_last_report (vrate_apply_level a l h) = rc_last_report h" "rc_stale (vrate_apply_level a l h) = rc_stale h"
  "rc_reports (vrate_apply_level a l h) = rc_reports h" "rc_net_ceiling (vrate_apply_level a l h) = rc_net_ceiling h"
  "rc_healthy_since (vrate_apply_level a l h) = rc_healthy_since h"
  "rc_healthy_reports (vrate_apply_level a l h) = rc_healthy_reports h"
  "rc_probe_bar_level (vrate_apply_level a l h) = rc_probe_bar_level h"
  "rc_probe_bar_us (vrate_apply_level a l h) = rc_probe_bar_us h"
  "rc_q_next_eval (vrate_apply_level a l h) = rc_q_next_eval h"
  "rc_q_primed (vrate_apply_level a l h) = rc_q_primed h" "rc_q_ema_pct (vrate_apply_level a l h) = rc_q_ema_pct h"
  by (simp_all add: vrate_apply_level_def Let_def)

lemma apply_level_ok: "agg_ok a \<Longrightarrow> on_ladder a (vrate_apply_level a l h)"
  using rung_in_range[of a "clamp_level a h l"] clamp_level_lt[of a h l] by (simp add: on_ladder_def)

section \<open>The parts of the calls keep it\<close>

lemma Min_in_range:
  fixes f :: "controller \<Rightarrow> nat"
  assumes "xs \<noteq> []" "\<And>h. h \<in> set xs \<Longrightarrow> P (f h)"
  shows "P (Min (f ` set xs))"
proof -
  have "Min (f ` set xs) \<in> f ` set xs" using assms(1) by (intro Min_in) auto
  then show ?thesis using assms(2) by auto
qed

lemma eligible_ok:
  assumes "core_ok v" "ag_inited (v_agg v)" "eligible now v \<noteq> []"
  shows "in_range (v_agg v) (arb_bps (arbitrate now (v_ctrl v)))" "fps_ok (v_agg v) (arb_fps (arbitrate now (v_ctrl v)))"
proof -
  have ok: "on_ladder (v_agg v) h" if "h \<in> set (eligible now v)" for h
    using assms(1,2) that by (auto simp: eligible_def core_ok_def list_all_iff ctrl_ok_def vrate_eligible_def)
  note m = arbitrate_min[of now "v_ctrl v", folded eligible_def, OF assms(3)]
  show "in_range (v_agg v) (arb_bps (arbitrate now (v_ctrl v)))"
    unfolding conjunct2[OF m] by (rule Min_in_range[OF assms(3)]) (use ok in \<open>simp add: on_ladder_def\<close>)
  show "fps_ok (v_agg v) (arb_fps (arbitrate now (v_ctrl v)))"
    unfolding conjunct1[OF m]
    by (rule Min_in_range[OF assms(3)]) (use ok in \<open>auto simp: on_ladder_def fps_ok_def rung_fps_le_camera rung_fps_floor\<close>)
qed

text \<open>What re-arbitration does to the state, in the cases of the code.\<close>

lemma rearbitrate_inert: "vrate_inert (v_agg v) \<Longrightarrow> vrate_rearbitrate now v = v\<lparr>v_stale_check := INT64_MAX\<rparr>"
  by (simp add: vrate_rearbitrate_def)

lemma rearbitrate_uninit:
  "\<not> ag_inited (v_agg v) \<Longrightarrow> vrate_rearbitrate now v = v\<lparr>v_pub_fps := 0, v_stale_check := INT64_MAX\<rparr>"
  by (simp add: vrate_rearbitrate_def vrate_inert_def)

lemma rearbitrate_none:
  "ag_inited (v_agg v) \<Longrightarrow> \<not> vrate_inert (v_agg v) \<Longrightarrow> eligible now v = [] \<Longrightarrow>
   vrate_rearbitrate now v =
     (request_bitrate (ag_max_bps (v_agg v)) (v\<lparr>v_pub_fps := 0\<rparr>))\<lparr>v_stale_check := INT64_MAX\<rparr>"
  by (simp add: vrate_rearbitrate_def arbitrate_any eligible_def)

lemma rearbitrate_some:
  "ag_inited (v_agg v) \<Longrightarrow> \<not> vrate_inert (v_agg v) \<Longrightarrow> eligible now v \<noteq> [] \<Longrightarrow> arbitrate now (v_ctrl v) = b \<Longrightarrow>
   vrate_rearbitrate now v =
     (request_bitrate (arb_bps b) ((reassert_pin now (arb_bps b) v)\<lparr>v_pub_fps := arb_fps b\<rparr>))
       \<lparr>v_stale_check := arb_soonest b\<rparr>"
  by (auto simp: vrate_rearbitrate_def arbitrate_any eligible_def Let_def)

lemma rearbitrate_ctrl [simp]: "v_ctrl (vrate_rearbitrate now v) = v_ctrl v"
  by (simp add: vrate_rearbitrate_def request_bitrate_def reassert_pin_def Let_def)

lemma rearbitrate_lock [simp]: "v_lock (vrate_rearbitrate now v) = v_lock v"
  by (simp add: vrate_rearbitrate_def request_bitrate_def reassert_pin_def Let_def)

lemma request_ok:
  assumes "core_ok v" "in_range (v_agg v) bps"
  shows "core_ok (request_bitrate bps v)" "pub_ok (request_bitrate bps v) = pub_ok v"
  using assms by (auto simp: core_ok_def request_bitrate_def pub_ok_def)

lemma max_in_range: "in_range a (ag_max_bps a)"
  by (simp add: in_range_def survival_bps_def)

lemma rearbitrate_ok:
  assumes "core_ok v" "pub_ok v \<or> (ag_inited (v_agg v) \<and> \<not> vrate_inert (v_agg v))"
  shows "vrate_ok (vrate_rearbitrate now v)"
proof -
  have frame: "vrate_ok (w\<lparr>v_stale_check := t\<rparr>) = vrate_ok w" for w t
    by (simp add: vrate_ok_def core_ok_def pub_ok_def)
  have pub: "core_ok (w\<lparr>v_pub_fps := f\<rparr>) = core_ok w" for w f by (simp add: core_ok_def)
  consider "vrate_inert (v_agg v)" | "\<not> ag_inited (v_agg v)"
    | "ag_inited (v_agg v)" "\<not> vrate_inert (v_agg v)" "eligible now v = []"
    | "ag_inited (v_agg v)" "\<not> vrate_inert (v_agg v)" "eligible now v \<noteq> []" by blast
  then show ?thesis
  proof cases
    case 1
    then show ?thesis using assms rearbitrate_inert[OF 1] by (auto simp: vrate_ok_def core_ok_def pub_ok_def)
  next
    case 2
    then show ?thesis using assms(1) rearbitrate_uninit[OF 2] by (auto simp: vrate_ok_def core_ok_def pub_ok_def)
  next
    case 3
    have "core_ok (v\<lparr>v_pub_fps := 0\<rparr>)" "pub_ok (v\<lparr>v_pub_fps := 0\<rparr>)"
      using assms(1) by (simp_all add: pub pub_ok_def fps_ok_def)
    then show ?thesis unfolding rearbitrate_none[OF 3] frame
      using request_ok[of "v\<lparr>v_pub_fps := 0\<rparr>" "ag_max_bps (v_agg v)"]
      by (simp add: vrate_ok_def max_in_range)
  next
    case 4
    let ?b = "arbitrate now (v_ctrl v)"
    let ?w = "(reassert_pin now (arb_bps ?b) v)\<lparr>v_pub_fps := arb_fps ?b\<rparr>"
    note E = eligible_ok[OF assms(1) 4(1,3)]
    have "core_ok ?w" "pub_ok ?w" "in_range (v_agg ?w) (arb_bps ?b)"
      using assms(1) E 4(1) by (auto simp: reassert_pin_def Let_def core_ok_def pub_ok_def)
    then show ?thesis unfolding rearbitrate_some[OF 4 refl] frame
      using request_ok unfolding vrate_ok_def by blast
  qed
qed

lemma put_ctrl_simps [simp]:
  "v_agg (put_ctrl i h v) = v_agg v" "v_lock (put_ctrl i h v) = v_lock v"
  "length (v_ctrl (put_ctrl i h v)) = length (v_ctrl v)" "v_pub_fps (put_ctrl i h v) = v_pub_fps v"
  "v_pending_bps (put_ctrl i h v) = v_pending_bps v" "v_stale_check (put_ctrl i h v) = v_stale_check v"
  "v_pending_pin (put_ctrl i h v) = v_pending_pin v"
  "put_ctrl i h (put_ctrl i g v) = put_ctrl i h v"
  by (simp_all add: put_ctrl_def)

lemma put_ctrl_nth: "j < length (v_ctrl v) \<Longrightarrow> v_ctrl (put_ctrl i h v) ! j = (if i = j then h else v_ctrl v ! j)"
  by (simp add: put_ctrl_def nth_list_update)

lemma put_ctrl_same [simp]: "i < length (v_ctrl v) \<Longrightarrow> v_ctrl (put_ctrl i h v) ! i = h"
  by (simp add: put_ctrl_nth)

lemma put_ok:
  assumes "vrate_ok v" "ag_inited (v_agg v) \<Longrightarrow> ctrl_ok (v_agg v) h"
  shows "vrate_ok (put_ctrl i h v)"
  using assms set_update_subset_insert[of "v_ctrl v" i h]
  by (fastforce simp: vrate_ok_def core_ok_def pub_ok_def put_ctrl_def list_all_iff)

lemma ctrl_ok_nth: "vrate_ok v \<Longrightarrow> i < VIDEO_RATE_CTRL_MAX \<Longrightarrow> ag_inited (v_agg v) \<Longrightarrow> ctrl_ok (v_agg v) (v_ctrl v ! i)"
  by (auto simp: vrate_ok_def core_ok_def list_all_length)

lemma ctrl_ok_fields:
  "rc_level h' = rc_level h \<Longrightarrow> rc_target_fps h' = rc_target_fps h \<Longrightarrow> rc_target_bps h' = rc_target_bps h \<Longrightarrow>
   rc_in_use h' = rc_in_use h \<Longrightarrow> rc_enabled h' = rc_enabled h \<Longrightarrow> ctrl_ok a h' = ctrl_ok a h"
  by (simp add: ctrl_ok_def on_ladder_def)

lemma vrate_ok_length: "vrate_ok v \<Longrightarrow> length (v_ctrl v) = VIDEO_RATE_CTRL_MAX"
  by (simp add: vrate_ok_def core_ok_def)

lemma vrate_ok_agg: "vrate_ok v \<Longrightarrow> ag_inited (v_agg v) \<Longrightarrow> agg_ok (v_agg v)"
  by (simp add: vrate_ok_def core_ok_def)

end
