(* ===== verification/Rate_Calls.thy ===== *)
theory Rate_Calls
  imports Rate_Inv
begin

text \<open>Every call of the rate control keeps its invariant.\<close>

lemma signal_fields [simp]:
  "rc_level (raise_bar now h) = rc_level h" "rc_level (vrate_reset_healthy h) = rc_level h"
  "rc_level (decay_bar now h) = rc_level h" "rc_level (vrate_reset_signal h) = rc_level h"
  "rc_in_use (raise_bar now h) = rc_in_use h" "rc_in_use (vrate_reset_healthy h) = rc_in_use h"
  "rc_in_use (decay_bar now h) = rc_in_use h" "rc_in_use (vrate_reset_signal h) = rc_in_use h"
  "rc_enabled (raise_bar now h) = rc_enabled h" "rc_enabled (vrate_reset_healthy h) = rc_enabled h"
  "rc_enabled (decay_bar now h) = rc_enabled h" "rc_enabled (vrate_reset_signal h) = rc_enabled h"
  "rc_last_report (raise_bar now h) = rc_last_report h" "rc_last_report (vrate_reset_healthy h) = rc_last_report h"
  "rc_last_report (decay_bar now h) = rc_last_report h" "rc_last_report (vrate_reset_signal h) = rc_last_report h"
  "rc_healthy_since (vrate_reset_healthy h) = 0" "rc_healthy_since (raise_bar now h) = rc_healthy_since h"
  "rc_healthy_since (decay_bar now h) = rc_healthy_since h"
  "rc_q_next_eval (raise_bar now h) = rc_q_next_eval h" "rc_q_next_eval (vrate_reset_healthy h) = rc_q_next_eval h"
  "rc_reports (raise_bar now h) = rc_reports h" "rc_reports (vrate_reset_healthy h) = rc_reports h"
  "rc_probe_bar_level (vrate_reset_healthy h) = rc_probe_bar_level h"
  "rc_probe_bar_us (vrate_reset_healthy h) = rc_probe_bar_us h"
  by (simp_all add: raise_bar_def vrate_reset_healthy_def decay_bar_def vrate_reset_signal_def)

lemma stamp_fields [simp]:
  "rc_level (stamp_report now h) = rc_level h" "rc_level (stamp_send now ms h) = rc_level h"
  "rc_level (stamp_overflow now h) = rc_level h" "rc_level (sample_queue a now u c h) = rc_level h"
  "rc_in_use (stamp_report now h) = rc_in_use h" "rc_in_use (stamp_send now ms h) = rc_in_use h"
  "rc_in_use (stamp_overflow now h) = rc_in_use h" "rc_in_use (sample_queue a now u c h) = rc_in_use h"
  "rc_enabled (stamp_report now h) = rc_enabled h" "rc_enabled (stamp_send now ms h) = rc_enabled h"
  "rc_enabled (stamp_overflow now h) = rc_enabled h" "rc_enabled (sample_queue a now u c h) = rc_enabled h"
  "rc_last_report (stamp_report now h) = now" "rc_last_report (stamp_send now ms h) = now"
  "rc_last_report (stamp_overflow now h) = now" "rc_last_report (sample_queue a now u c h) = rc_last_report h"
  "rc_healthy_since (stamp_report now h) = rc_healthy_since h" "rc_healthy_since (stamp_send now ms h) = rc_healthy_since h"
  "rc_healthy_since (stamp_overflow now h) = rc_healthy_since h"
  "rc_healthy_since (sample_queue a now u c h) = rc_healthy_since h"
  "rc_q_next_eval (stamp_report now h) = rc_q_next_eval h" "rc_q_next_eval (stamp_send now ms h) = rc_q_next_eval h"
  "rc_q_next_eval (stamp_overflow now h) = rc_q_next_eval h"
  by (simp_all add: stamp_report_def stamp_send_def stamp_overflow_def sample_queue_def Let_def)

lemma ctrl_ok_signal [simp]:
  "ctrl_ok a (raise_bar now h) = ctrl_ok a h" "ctrl_ok a (vrate_reset_healthy h) = ctrl_ok a h"
  "ctrl_ok a (decay_bar now h) = ctrl_ok a h" "ctrl_ok a (vrate_reset_signal h) = ctrl_ok a h"
  "ctrl_ok a (stamp_report now h) = ctrl_ok a h" "ctrl_ok a (stamp_send now ms h) = ctrl_ok a h"
  "ctrl_ok a (stamp_overflow now h) = ctrl_ok a h" "ctrl_ok a (sample_queue e now u c h) = ctrl_ok a h"
  "ctrl_ok a (h\<lparr>rc_q_next_eval := t\<rparr>) = ctrl_ok a h" "ctrl_ok a (h\<lparr>rc_stale := s\<rparr>) = ctrl_ok a h"
  "ctrl_ok a (h\<lparr>rc_net_ceiling := n\<rparr>) = ctrl_ok a h" "ctrl_ok a (h\<lparr>rc_q_used := n, rc_q_cap := m\<rparr>) = ctrl_ok a h"
  "ctrl_ok a (h\<lparr>rc_last_report := t, rc_stale := s\<rparr>) = ctrl_ok a h"
  by (rule ctrl_ok_fields;
      simp add: raise_bar_def vrate_reset_healthy_def decay_bar_def vrate_reset_signal_def stamp_report_def
        stamp_send_def stamp_overflow_def sample_queue_def Let_def)+

lemma apply_level_ctrl_ok: "agg_ok a \<Longrightarrow> ctrl_ok a (vrate_apply_level a l h)"
  using apply_level_ok by (simp add: ctrl_ok_def)

lemma reapply_ctrl_ok: "agg_ok a \<Longrightarrow> ctrl_ok a h \<Longrightarrow> ctrl_ok a (reapply P a h)"
  by (simp add: reapply_def apply_level_ctrl_ok)

lemma release_pin_ok: "vrate_ok (release_pin now v) = vrate_ok v"
  by (simp add: release_pin_def vrate_ok_def core_ok_def pub_ok_def)

lemma release_pin_simps [simp]:
  "ag_inited (v_agg (release_pin now v)) = ag_inited (v_agg v)" "v_lock (release_pin now v) = v_lock v"
  "v_ctrl (release_pin now v) = v_ctrl v" "v_stale_check (release_pin now v) = v_stale_check v"
  "v_pub_fps (release_pin now v) = v_pub_fps v" "ag_requested (v_agg (release_pin now v)) = ag_requested (v_agg v)"
  "ag_max_bps (v_agg (release_pin now v)) = ag_max_bps (v_agg v)"
  "vrate_inert (v_agg (release_pin now v)) = vrate_inert (v_agg v)"
  by (simp_all add: release_pin_def vrate_inert_def)

text \<open>The five ways out of a step down, with the state each leaves.\<close>

lemma step_down_cases:
  fixes v :: vrate and i :: nat and now :: int
  defines "h0 \<equiv> vrate_reset_healthy (v_ctrl v ! i)"
  defines "h \<equiv> raise_bar now h0"
  assumes "vrate_step_down now i jump v = (moved, v')"
  obtains (inert) "vrate_inert (v_agg v)" "\<not> moved" "v' = put_ctrl i h0 v"
  | (bottom) "\<not> vrate_inert (v_agg v)" "vrate_deepest_useful_level (v_agg v) \<le> rc_level h" "\<not> ag_pinned (v_agg v)"
      "\<not> moved" "v' = put_ctrl i h v"
  | (last) w where "\<not> vrate_inert (v_agg v)" "LADDER_N - 1 \<le> rc_level h" "\<not> moved" "v' = put_ctrl i h w"
      "w = v \<or> w = release_pin now v" "\<not> ag_pinned (v_agg v) \<Longrightarrow> w = v"
  | (step) w where "\<not> vrate_inert (v_agg v)" "rc_level h < LADDER_N - 1"
      "v' = put_ctrl i (vrate_apply_level (v_agg w) (min (rc_level h + jump) (LADDER_N - 1)) h) w"
      "moved = (clamp_level (v_agg w) h (min (rc_level h + jump) (LADDER_N - 1)) \<noteq> rc_level h)"
      "w = (if vrate_deepest_useful_level (v_agg v) \<le> rc_level h then release_pin now v else v)"
      "vrate_deepest_useful_level (v_agg v) \<le> rc_level h \<Longrightarrow> ag_pinned (v_agg v)"
proof -
  define w where "w = (if vrate_deepest_useful_level (v_agg v) \<le> rc_level h then release_pin now v else v)"
  have nl: "(if rc_level h + jump < LADDER_N then rc_level h + jump else LADDER_N - 1) = min (rc_level h + jump) (LADDER_N - 1)"
    by (simp add: LADDER_N_def)
  have run: "(moved, v') =
     (if vrate_inert (v_agg v) then (False, put_ctrl i h0 v)
      else if vrate_deepest_useful_level (v_agg v) \<le> rc_level h \<and> \<not> ag_pinned (v_agg v) then (False, put_ctrl i h v)
      else if LADDER_N - 1 \<le> rc_level h then (False, put_ctrl i h w)
      else (clamp_level (v_agg w) h (min (rc_level h + jump) (LADDER_N - 1)) \<noteq> rc_level h,
            put_ctrl i (vrate_apply_level (v_agg w) (min (rc_level h + jump) (LADDER_N - 1)) h) w))"
    using assms(3)
    by (simp only: vrate_step_down_def Let_def h0_def[symmetric] h_def[symmetric] w_def[symmetric] nl apply_level_fields)
  show thesis
  proof (cases "vrate_inert (v_agg v)")
    case True
    then show thesis using run by (intro inert) auto
  next
    case F1: False
    show thesis
    proof (cases "vrate_deepest_useful_level (v_agg v) \<le> rc_level h \<and> \<not> ag_pinned (v_agg v)")
      case True
      then show thesis using run F1 by (intro bottom) auto
    next
      case F2: False
      show thesis
      proof (cases "LADDER_N - 1 \<le> rc_level h")
        case True
        show thesis by (rule last[of w]) (use run F1 F2 True in \<open>auto simp: w_def\<close>)
      next
        case False
        show thesis by (rule step[of w]) (use run F1 F2 False in \<open>auto simp: w_def\<close>)
      qed
    qed
  qed
qed

lemma step_down_ok:
  assumes "vrate_ok v" "i < VIDEO_RATE_CTRL_MAX" "vrate_step_down now i jump v = (moved, v')"
  shows "vrate_ok v'" "v_lock v' = v_lock v" "ag_inited (v_agg v') = ag_inited (v_agg v)"
proof -
  note c = ctrl_ok_nth[OF assms(1,2)]
  have w: "vrate_ok w" "ag_inited (v_agg w) = ag_inited (v_agg v)" "ctrl_ok (v_agg w) = ctrl_ok (v_agg v)"
    if "w = v \<or> w = release_pin now v" for w
    using that assms(1) by (auto simp: release_pin_ok) (simp_all add: release_pin_def)
  show "vrate_ok v'" using assms(3)
  proof (cases rule: step_down_cases)
    case (last w)
    show ?thesis unfolding last(4)
      by (rule put_ok) (use w[OF last(5)] c in simp_all)
  next
    case (step w)
    have e: "w = v \<or> w = release_pin now v" using step(5) by auto
    show ?thesis unfolding step(3)
      by (rule put_ok[OF w(1)[OF e]]) (rule apply_level_ctrl_ok[OF vrate_ok_agg[OF w(1)[OF e]]])
  qed (use assms(1) c in \<open>simp_all add: put_ok\<close>)
  show "v_lock v' = v_lock v" "ag_inited (v_agg v') = ag_inited (v_agg v)"
    using assms(3) by (cases rule: step_down_cases; auto)+
qed

lemma mark_healthy_cases:
  fixes h :: controller and now :: int
  assumes "vrate_mark_healthy a now h = (moved, h')"
  defines "h0 \<equiv> if rc_healthy_since h = 0 then h\<lparr>rc_healthy_since := now, rc_healthy_reports := rc_reports h\<rparr> else h"
  defines "h2 \<equiv> decay_bar now (vrate_reset_healthy h0)"
  obtains (early) "\<not> moved" "h' = h0"
  | (top) "\<not> moved" "h' = vrate_reset_healthy h0 \<or> h' = h2"
  | (climb) "RECOVER_DWELL_MS * 1000 \<le> now - rc_healthy_since h0"
      "RECOVER_MIN_REPORTS \<le> u32 (rc_reports h0 + 4294967296 - rc_healthy_reports h0)"
      "rc_probe_bar_level h2 < rc_level h2" "h' = vrate_apply_level a (recover_level h2) h2"
      "moved = (clamp_level a h2 (recover_level h2) \<noteq> rc_level h2)"
proof -
  have run: "(moved, h') =
     (if now - rc_healthy_since h0 < RECOVER_DWELL_MS * 1000 \<or>
            u32 (rc_reports h0 + 4294967296 - rc_healthy_reports h0) < RECOVER_MIN_REPORTS then (False, h0)
      else if rc_level (vrate_reset_healthy h0) = 0 then (False, vrate_reset_healthy h0)
      else if rc_level h2 \<le> rc_probe_bar_level h2 then (False, h2)
      else (clamp_level a h2 (recover_level h2) \<noteq> rc_level h2, vrate_apply_level a (recover_level h2) h2))"
    using assms(1) by (simp only: vrate_mark_healthy_def Let_def h0_def[symmetric] h2_def[symmetric] apply_level_fields)
  show thesis
  proof (cases "now - rc_healthy_since h0 < RECOVER_DWELL_MS * 1000 \<or>
            u32 (rc_reports h0 + 4294967296 - rc_healthy_reports h0) < RECOVER_MIN_REPORTS")
    case True
    then show thesis using run by (intro early) auto
  next
    case F: False
    show thesis
    proof (cases "rc_level (vrate_reset_healthy h0) = 0 \<or> rc_level h2 \<le> rc_probe_bar_level h2")
      case True
      then show thesis using run F by (intro top) (auto split: if_splits)
    next
      case False
      then show thesis using run F by (intro climb) auto
    qed
  qed
qed

lemma mark_healthy_ok:
  assumes "agg_ok a" "ctrl_ok a h" "vrate_mark_healthy a now h = (moved, h')"
  shows "ctrl_ok a h'"
proof -
  have h0: "ctrl_ok a (h\<lparr>rc_healthy_since := t, rc_healthy_reports := r\<rparr>)" for t r
    using assms(2) by (simp add: ctrl_ok_def on_ladder_def)
  from assms(3) show ?thesis
    by (cases rule: mark_healthy_cases) (use assms(1,2) h0 in \<open>auto simp: apply_level_ctrl_ok split: if_splits\<close>)
qed

lemma map_ok:
  assumes "vrate_ok v" "ag_inited (v_agg v) \<Longrightarrow> agg_ok a \<and> (\<forall>h. ctrl_ok (v_agg v) h \<longrightarrow> ctrl_ok a (f h))"
    "ag_inited a = ag_inited (v_agg v)" "ag_requested a = ag_requested (v_agg v)"
    "in_range a = in_range (v_agg v)" "fps_ok a = fps_ok (v_agg v)"
  shows "vrate_ok (v\<lparr>v_agg := a, v_ctrl := map f (v_ctrl v)\<rparr>)"
  using assms by (auto simp: vrate_ok_def core_ok_def pub_ok_def list_all_iff)

lemma rearbitrate_vrate_ok: "vrate_ok v \<Longrightarrow> vrate_ok (vrate_rearbitrate now v)"
  by (rule rearbitrate_ok) (simp_all add: vrate_ok_def)

lemma rearbitrate_inited [simp]: "ag_inited (v_agg (vrate_rearbitrate now v)) = ag_inited (v_agg v)"
  by (simp add: vrate_rearbitrate_def request_bitrate_def reassert_pin_def Let_def)

lemma rearbitrate_ctrl_ok [simp]: "ctrl_ok (v_agg (vrate_rearbitrate now v)) = ctrl_ok (v_agg v)"
  by (simp add: vrate_rearbitrate_def request_bitrate_def reassert_pin_def Let_def)

section \<open>The calls\<close>

lemma lock_init_ok: "vrate_lock_init ok v = (err, v0) \<Longrightarrow> vrate_ok v0 = vrate_ok v \<and> v_agg v0 = v_agg v \<and> v_ctrl v0 = v_ctrl v"
  by (auto simp: vrate_lock_init_def vrate_ok_def core_ok_def pub_ok_def split: if_splits)

lemma init_ok:
  assumes "vrate_ok v" "is_u32 bps"
  shows "vrate_ok (video_rate_ctrl_init ok now fps bps w h act v)"
proof -
  obtain err v0 where l: "vrate_lock_init ok v = (err, v0)" by (cases "vrate_lock_init ok v")
  note v0 = lock_init_ok[OF l]
  let ?a = "init_encoder fps bps w h act (v_agg v0)"
  let ?v = "v0\<lparr>v_agg := ?a, v_pub_camera_fps := ag_camera_fps ?a, v_pending_bps := 0,
              v_ctrl := map (init_controller ?a now) (v_ctrl v0)\<rparr>"
  have a: "agg_ok ?a" "ag_inited ?a" "\<not> vrate_inert ?a"
    using assms(2) by (auto simp: agg_ok_def init_encoder_def vrate_inert_def)
  have "ctrl_ok ?a (init_controller ?a now c)" for c
    using a(1) by (simp add: init_controller_def Let_def apply_level_ctrl_ok) (simp add: ctrl_ok_def)
  moreover have "in_range ?a (ag_requested ?a)" using max_in_range[of ?a] by (simp add: init_encoder_def)
  ultimately have "core_ok ?v" using a assms(1) v0 by (simp add: core_ok_def list_all_iff vrate_ok_def)
  then have "vrate_ok (vrate_rearbitrate now ?v)" using a by (intro rearbitrate_ok) simp_all
  then show ?thesis using l v0 assms(1) by (simp add: video_rate_ctrl_init_def Let_def)
qed

lemma create_ok:
  assumes "vrate_ok v" "video_rate_ctrl_create ok now name out v = (err, h, v')"
  shows "vrate_ok v'"
proof -
  obtain e v0 where l: "vrate_lock_init ok v = (e, v0)" by (cases "vrate_lock_init ok v")
  note v0 = lock_init_ok[OF l]
  let ?h = "zero_controller\<lparr>rc_in_use := True, rc_enabled := False, rc_last_report := now,
              rc_name := strncpy_term VRATE_NAME_LEN (the name)\<rparr>"
  let ?h' = "if ag_inited (v_agg v0) then vrate_apply_level (v_agg v0) (vrate_start_level (v_agg v0)) ?h else ?h"
  have "\<not> rc_enabled ?h'" by (simp add: zero_controller_def)
  then have new: "vrate_ok (put_ctrl i ?h' v0)" for i
    using assms(1) v0 by (intro put_ok) (simp_all add: ctrl_ok_def)
  consider "v' = v" | "v' = v0" | i where "v' = put_ctrl i ?h' v0"
    using assms(2) l by (auto simp: video_rate_ctrl_create_def Let_def split: if_splits option.splits)
  then show ?thesis using new assms(1) v0 by cases auto
qed

lemma destroy_ok: "vrate_ok v \<Longrightarrow> vrate_ok (video_rate_ctrl_destroy now h v)"
  by (auto simp: video_rate_ctrl_destroy_def zero_controller_def ctrl_ok_def split: option.split
      intro!: rearbitrate_vrate_ok put_ok)

lemma enable_ok: "vrate_ok v \<Longrightarrow> vrate_ok (video_rate_ctrl_enable now h b v)"
  by (auto simp: video_rate_ctrl_enable_def Let_def split: option.split
      intro!: rearbitrate_vrate_ok put_ok apply_level_ctrl_ok vrate_ok_agg) (simp_all add: ctrl_ok_def)

text \<open>What a report does, in the branches of the code.\<close>

definition was_stale :: "int \<Rightarrow> controller \<Rightarrow> bool" where
  "was_stale now c \<longleftrightarrow> rc_stale c \<or> vrate_is_stale now c"

definition rearbitrate_if :: "bool \<Rightarrow> int \<Rightarrow> vrate \<Rightarrow> vrate" where
  "rearbitrate_if b now v = (if b then vrate_rearbitrate now v else v)"

lemma rearbitrate_if_ok: "vrate_ok v \<Longrightarrow> vrate_ok (rearbitrate_if b now v)"
  by (simp add: rearbitrate_if_def rearbitrate_vrate_ok)

lemma rearbitrate_if_simps [simp]:
  "v_ctrl (rearbitrate_if b now v) = v_ctrl v" "v_lock (rearbitrate_if b now v) = v_lock v"
  "ag_inited (v_agg (rearbitrate_if b now v)) = ag_inited (v_agg v)"
  by (simp_all add: rearbitrate_if_def)

lemma report_send_cases:
  fixes v :: vrate and i ms :: nat and now :: int
  defines "c1 \<equiv> stamp_send now ms (v_ctrl v ! i)" and "b \<equiv> was_stale now (v_ctrl v ! i)"
  assumes "video_rate_ctrl_report_send_ms now now2 (Some i) ms v = v'"
  obtains (ignored) "\<not> (v_lock v \<and> reportable v i)" "v' = v"
  | (down) jump moved v2 where "v_lock v" "reportable v i" "0 < jump"
      "vrate_step_down now2 i jump (put_ctrl i c1 v) = (moved, v2)" "v' = rearbitrate_if (moved \<or> b) now v2"
  | (up) moved c2 where "v_lock v" "reportable v i"
      "vrate_mark_healthy (v_agg v) now c1 = (moved, c2)" "v' = rearbitrate_if (moved \<or> b) now (put_ctrl i c2 v)"
  | (hold) "v_lock v" "reportable v i" "v' = rearbitrate_if b now (put_ctrl i (vrate_reset_healthy c1) v)"
proof (cases "v_lock v \<and> reportable v i")
  case False
  then show thesis using assms(3) by (intro ignored) (auto simp: video_rate_ctrl_report_send_ms_def)
next
  case True
  define j where "j = (if rc_ema_ms c1 \<ge> send_budget_ms c1 * 3 then 3 else if rc_ema_ms c1 \<ge> send_budget_ms c1 * 2 then 2 else 1 :: nat)"
  obtain m2 v2 where sd: "vrate_step_down now2 i j (put_ctrl i c1 v) = (m2, v2)" by fastforce
  obtain m c2 where mh: "vrate_mark_healthy (v_agg v) now c1 = (m, c2)" by fastforce
  have run: "v' = (if u32 (rc_ema_ms c1 * CONGEST_DEN) > send_budget_ms c1 * CONGEST_NUM
         then rearbitrate_if (m2 \<or> b) now v2
       else if u32 (rc_ema_ms c1 * HEALTHY_DEN) < send_budget_ms c1 * HEALTHY_NUM
         then rearbitrate_if (m \<or> b) now (put_ctrl i c2 v)
       else rearbitrate_if b now (put_ctrl i (vrate_reset_healthy c1) v))"
  proof -
    have "v' = (case (if u32 (rc_ema_ms c1 * CONGEST_DEN) > send_budget_ms c1 * CONGEST_NUM then (m2, v2)
         else if u32 (rc_ema_ms c1 * HEALTHY_DEN) < send_budget_ms c1 * HEALTHY_NUM then (m, put_ctrl i c2 v)
         else (False, put_ctrl i (vrate_reset_healthy c1) v)) of (moved, v2) \<Rightarrow> rearbitrate_if (moved \<or> b) now v2)"
      using assms(3) True
      by (simp only: video_rate_ctrl_report_send_ms_def option.case Let_def c1_def[symmetric] b_def was_stale_def
          j_def[symmetric] sd mh put_ctrl_simps prod.case rearbitrate_if_def not_not if_False de_Morgan_disj simp_thms)
    then show ?thesis by simp
  qed
  show thesis
  proof (cases "u32 (rc_ema_ms c1 * CONGEST_DEN) > send_budget_ms c1 * CONGEST_NUM")
    case C: True
    show thesis by (rule down[of j m2 v2]) (use run C True sd in \<open>auto simp: j_def\<close>)
  next
    case C: False
    show thesis
    proof (cases "u32 (rc_ema_ms c1 * HEALTHY_DEN) < send_budget_ms c1 * HEALTHY_NUM")
      case H: True
      show thesis by (rule up[of m c2]) (use run C H True mh in auto)
    next
      case H: False
      show thesis by (rule hold) (use run C H True in auto)
    qed
  qed
qed

definition queue_trend :: "controller \<Rightarrow> int" where
  "queue_trend c = s32 (rc_q_ema_pct c) + QUEUE_TREND_GAIN * rc_q_delta c"

lemma report_queue_cases:
  fixes v :: vrate and i used cap :: nat and now :: int
  defines "c1 \<equiv> (stamp_report now (v_ctrl v ! i))\<lparr>rc_q_used := used, rc_q_cap := cap\<rparr>"
    and "b \<equiv> was_stale now (v_ctrl v ! i)"
  defines "v2 \<equiv> rearbitrate_if b now (put_ctrl i c1 v)"
  defines "c \<equiv> sample_queue (v_agg v2) now used cap c1"
  assumes "video_rate_ctrl_report_queue got now now2 (Some i) used cap v = v'" "i < length (v_ctrl v)"
  obtains (ignored) "\<not> (v_lock v \<and> cap \<noteq> 0 \<and> got \<and> reportable v i)" "v' = v"
  | (waiting) "v_lock v" "cap \<noteq> 0" "got" "reportable v i" "now < rc_q_next_eval (v_ctrl v ! i)" "v' = v2"
  | (down) jump moved v3 where "v_lock v" "reportable v i" "cap \<noteq> 0" "got" "rc_q_next_eval (v_ctrl v ! i) \<le> now" "0 < jump"
      "int QUEUE_CONGEST_PCT \<le> queue_trend c" "vrate_step_down now2 i jump (put_ctrl i c v2) = (moved, v3)"
      "v' = rearbitrate_if moved now v3"
  | (up) moved c2 where "v_lock v" "reportable v i" "rc_q_next_eval (v_ctrl v ! i) \<le> now"
      "queue_trend c < int QUEUE_CONGEST_PCT" "vrate_mark_healthy (v_agg v2) now c = (moved, c2)"
      "v' = rearbitrate_if moved now (put_ctrl i (c2\<lparr>rc_q_next_eval := now + vrate_recover_eval_period_us\<rparr>) v2)"
  | (hold) "v_lock v" "reportable v i" "rc_q_next_eval (v_ctrl v ! i) \<le> now" "queue_trend c < int QUEUE_CONGEST_PCT"
      "v' = put_ctrl i ((vrate_reset_healthy c)\<lparr>rc_q_next_eval := now + vrate_recover_eval_period_us\<rparr>) v2"
proof -
  have l: "i < length (v_ctrl (put_ctrl i c1 v))" "i < length (v_ctrl v2)" using assms(6) by (simp_all add: v2_def)
  have same: "v_ctrl (put_ctrl i c v2) ! i = c" "v_agg (put_ctrl i c v2) = v_agg v2" using l by simp_all
  have q1: "rc_q_next_eval c1 = rc_q_next_eval (v_ctrl v ! i)" by (simp add: c1_def)
  obtain m c2 where mh: "vrate_mark_healthy (v_agg v2) now c = (m, c2)" by fastforce
  obtain m3 v3 where sd: "vrate_step_down now2 i (queue_jump c) (put_ctrl i c v2) = (m3, v3)" by fastforce
  let ?t = "now + vrate_recover_eval_period_us"
  have eval: "evaluate_queue now now2 i (put_ctrl i c v2) =
    (if queue_trend c \<ge> int QUEUE_CONGEST_PCT then (m3, v3)
     else if rc_q_ema_pct c \<le> QUEUE_HEALTHY_PCT \<and> rc_q_delta c \<le> 0
     then (m, put_ctrl i (c2\<lparr>rc_q_next_eval := ?t\<rparr>) v2)
     else (False, put_ctrl i ((vrate_reset_healthy c)\<lparr>rc_q_next_eval := ?t\<rparr>) v2))"
    using mh sd by (simp add: evaluate_queue_def same Let_def queue_trend_def)
  have run: "v' = (if now < rc_q_next_eval c1 then v2
      else if queue_trend c \<ge> int QUEUE_CONGEST_PCT then rearbitrate_if m3 now v3
      else if rc_q_ema_pct c \<le> QUEUE_HEALTHY_PCT \<and> rc_q_delta c \<le> 0
      then rearbitrate_if m now (put_ctrl i (c2\<lparr>rc_q_next_eval := ?t\<rparr>) v2)
      else put_ctrl i ((vrate_reset_healthy c)\<lparr>rc_q_next_eval := ?t\<rparr>) v2)"
    if "v_lock v \<and> cap \<noteq> 0 \<and> got \<and> reportable v i"
  proof -
    have "v' = (let v2 = rearbitrate_if b now (put_ctrl i c1 v) in
        if now < rc_q_next_eval c1 then v2
        else (case evaluate_queue now now2 i (put_ctrl i (sample_queue (v_agg v2) now used cap c1) v2) of
                (moved, v3) \<Rightarrow> if moved then vrate_rearbitrate now v3 else v3))"
      using assms(5) that
      by (simp only: video_rate_ctrl_report_queue_def option.case Let_def c1_def[symmetric] b_def was_stale_def
          rearbitrate_if_def not_not if_False de_Morgan_disj simp_thms)
    then show ?thesis unfolding Let_def v2_def[symmetric] c_def[symmetric] eval by (simp add: rearbitrate_if_def)
  qed
  show thesis
  proof (cases "v_lock v \<and> cap \<noteq> 0 \<and> got \<and> reportable v i")
    case False
    then show thesis using assms(5) by (intro ignored) (auto simp: video_rate_ctrl_report_queue_def)
  next
    case True
    note r = run[OF True]
    consider "now < rc_q_next_eval c1"
      | "rc_q_next_eval c1 \<le> now" "int QUEUE_CONGEST_PCT \<le> queue_trend c"
      | "rc_q_next_eval c1 \<le> now" "queue_trend c < int QUEUE_CONGEST_PCT" "rc_q_ema_pct c \<le> QUEUE_HEALTHY_PCT \<and> rc_q_delta c \<le> 0"
      | "rc_q_next_eval c1 \<le> now" "queue_trend c < int QUEUE_CONGEST_PCT" "\<not> (rc_q_ema_pct c \<le> QUEUE_HEALTHY_PCT \<and> rc_q_delta c \<le> 0)"
      by linarith
    then show thesis
    proof cases
      case 1
      then show thesis using r True q1 by (intro waiting) auto
    next
      case 2
      show thesis by (rule down[of "queue_jump c" m3 v3]) (use 2 r True q1 sd in \<open>auto simp: queue_jump_def\<close>)
    next
      case 3
      show thesis by (rule up[of m c2]) (use 3 r True q1 mh in auto)
    next
      case 4
      show thesis by (rule hold) (use 4 r True q1 in auto)
    qed
  qed
qed

lemma report_overflow_cases:
  fixes v :: vrate and i :: nat and now :: int
  defines "c1 \<equiv> stamp_overflow now (v_ctrl v ! i)" and "b \<equiv> was_stale now (v_ctrl v ! i)"
  assumes "video_rate_ctrl_report_overflow now now2 (Some i) v = v'"
  obtains (ignored) "\<not> (v_lock v \<and> reportable v i)" "v' = v"
  | (down) moved v2 where "v_lock v" "reportable v i" "rc_q_next_eval (v_ctrl v ! i) \<le> now"
      "vrate_step_down now2 i 2 (put_ctrl i (c1\<lparr>rc_q_next_eval := now + vrate_level_eval_period_us (v_agg v)\<rparr>) v) = (moved, v2)"
      "v' = rearbitrate_if (moved \<or> b) now v2"
  | (held) "v_lock v" "reportable v i" "now < rc_q_next_eval (v_ctrl v ! i)" "v' = rearbitrate_if b now (put_ctrl i c1 v)"
proof (cases "v_lock v \<and> reportable v i")
  case False
  then show thesis using assms(3) by (intro ignored) (auto simp: video_rate_ctrl_report_overflow_def)
next
  case True
  let ?c = "c1\<lparr>rc_q_next_eval := now + vrate_level_eval_period_us (v_agg v)\<rparr>"
  obtain m v2 where sd: "vrate_step_down now2 i 2 (put_ctrl i ?c v) = (m, v2)" by fastforce
  have q: "rc_q_next_eval c1 = rc_q_next_eval (v_ctrl v ! i)" by (simp add: c1_def)
  have run: "v' = (if rc_q_next_eval (v_ctrl v ! i) \<le> now then rearbitrate_if (m \<or> b) now v2
      else rearbitrate_if b now (put_ctrl i c1 v))"
  proof -
    have "v' = (case (if rc_q_next_eval c1 \<le> now then (m, v2) else (False, put_ctrl i c1 v)) of
        (moved, v2) \<Rightarrow> rearbitrate_if (moved \<or> b) now v2)"
      using assms(3) True
      by (simp only: video_rate_ctrl_report_overflow_def option.case Let_def c1_def[symmetric] b_def was_stale_def
          sd prod.case rearbitrate_if_def not_not if_False de_Morgan_disj simp_thms)
    then show ?thesis by (simp add: q)
  qed
  show thesis
  proof (cases "rc_q_next_eval (v_ctrl v ! i) \<le> now")
    case D: True
    show thesis by (rule down[of m v2]) (use run D True sd in auto)
  next
    case D: False
    then show thesis using run True by (intro held) auto
  qed
qed

lemma report_send_ok:
  assumes "vrate_ok v" "i < VIDEO_RATE_CTRL_MAX"
  shows "vrate_ok (video_rate_ctrl_report_send_ms now now2 (Some i) ms v)"
proof -
  obtain v' where r: "video_rate_ctrl_report_send_ms now now2 (Some i) ms v = v'" by blast
  have put: "vrate_ok (put_ctrl i h v)" if "reportable v i" "ctrl_ok (v_agg v) h" for h
    using that assms(1) by (simp add: put_ok)
  have c: "ctrl_ok (v_agg v) (stamp_send now ms (v_ctrl v ! i))" if "reportable v i"
    using ctrl_ok_nth[OF assms] that by (simp add: reportable_def)
  from r have "vrate_ok v'"
  proof (cases rule: report_send_cases)
    case (down jump moved v2)
    then show ?thesis using step_down_ok(1)[OF put[OF _ c] assms(2)] by (simp add: rearbitrate_if_ok)
  next
    case (up moved c2)
    then show ?thesis using mark_healthy_ok[OF _ c up(3)] put vrate_ok_agg[OF assms(1)]
      by (simp add: rearbitrate_if_ok reportable_def)
  qed (use assms(1) put c in \<open>simp_all add: rearbitrate_if_ok\<close>)
  then show ?thesis using r by simp
qed

lemma report_queue_ok:
  assumes "vrate_ok v" "i < VIDEO_RATE_CTRL_MAX"
  shows "vrate_ok (video_rate_ctrl_report_queue got now now2 (Some i) used cap v)"
proof -
  let ?c1 = "(stamp_report now (v_ctrl v ! i))\<lparr>rc_q_used := used, rc_q_cap := cap\<rparr>"
  let ?v2 = "rearbitrate_if (was_stale now (v_ctrl v ! i)) now (put_ctrl i ?c1 v)"
  let ?c = "sample_queue (v_agg ?v2) now used cap ?c1"
  have l: "i < length (v_ctrl v)" using assms by (simp add: vrate_ok_length)
  obtain v' where r: "video_rate_ctrl_report_queue got now now2 (Some i) used cap v = v'" by blast
  have c: "ctrl_ok (v_agg v) ?c1" if "reportable v i" using ctrl_ok_nth[OF assms] that by (simp add: reportable_def)
  have v2: "vrate_ok ?v2" "ag_inited (v_agg ?v2)" "ctrl_ok (v_agg ?v2) ?c" if "reportable v i"
    using c[OF that] assms(1) that by (auto simp: rearbitrate_if_ok put_ok reportable_def) (simp add: rearbitrate_if_def)
  have put: "vrate_ok (put_ctrl i h ?v2)" if "reportable v i" "ctrl_ok (v_agg ?v2) h" for h
    using v2[OF that(1)] that(2) by (simp add: put_ok)
  from r l have "vrate_ok v'"
  proof (cases rule: report_queue_cases)
    case (down jump moved v3)
    then show ?thesis using step_down_ok(1)[OF put[OF _ v2(3)] assms(2)] by (simp add: rearbitrate_if_ok)
  next
    case (up moved c2)
    have "ctrl_ok (v_agg ?v2) c2"
      using mark_healthy_ok[OF vrate_ok_agg[OF v2(1,2)] v2(3) up(5)] up(2) by blast
    then show ?thesis using up put by (simp add: rearbitrate_if_ok)
  qed (use assms(1) put v2 in simp_all)
  then show ?thesis using r by simp
qed

lemma report_overflow_ok:
  assumes "vrate_ok v" "i < VIDEO_RATE_CTRL_MAX"
  shows "vrate_ok (video_rate_ctrl_report_overflow now now2 (Some i) v)"
proof -
  obtain v' where r: "video_rate_ctrl_report_overflow now now2 (Some i) v = v'" by blast
  have put: "vrate_ok (put_ctrl i ((stamp_overflow now (v_ctrl v ! i))\<lparr>rc_q_next_eval := t\<rparr>) v)"
    "vrate_ok (put_ctrl i (stamp_overflow now (v_ctrl v ! i)) v)" if "reportable v i" for t
    using ctrl_ok_nth[OF assms] that assms(1) by (simp_all add: put_ok reportable_def)
  from r have "vrate_ok v'"
  proof (cases rule: report_overflow_cases)
    case (down moved v2)
    then show ?thesis using step_down_ok(1)[OF put(1) assms(2)] by (simp add: rearbitrate_if_ok)
  qed (use assms(1) put in \<open>simp_all add: rearbitrate_if_ok\<close>)
  then show ?thesis using r by simp
qed

lemma ceiling_ok:
  assumes "vrate_ok v" "i < VIDEO_RATE_CTRL_MAX"
  shows "vrate_ok (video_rate_ctrl_set_network_ceiling_bps now (Some i) bps v)"
  using assms(1) ctrl_ok_nth[OF assms]
  by (auto simp: video_rate_ctrl_set_network_ceiling_bps_def Let_def
      intro!: rearbitrate_vrate_ok put_ok apply_level_ctrl_ok vrate_ok_agg)

lemma agg_only_ok:
  assumes "vrate_ok v" "agg_ok a = agg_ok (v_agg v)" "ctrl_ok a = ctrl_ok (v_agg v)" "in_range a = in_range (v_agg v)"
    "fps_ok a = fps_ok (v_agg v)" "ag_inited a = ag_inited (v_agg v)" "ag_requested a = ag_requested (v_agg v)"
  shows "vrate_ok (v\<lparr>v_agg := a\<rparr>)"
  using assms by (simp add: vrate_ok_def core_ok_def pub_ok_def)

lemma in_range_fun [simp]:
  "in_range (a\<lparr>ag_requested := x\<rparr>) = in_range a" "in_range (a\<lparr>ag_pinned := b\<rparr>) = in_range a"
  "in_range (a\<lparr>ag_pin_released := t\<rparr>) = in_range a" "in_range (a\<lparr>ag_pin_wanted := b\<rparr>) = in_range a"
  "in_range (a\<lparr>ag_min_bps := x\<rparr>) = in_range a" "in_range (a\<lparr>ag_period_ms := x\<rparr>) = in_range a"
  "in_range (a\<lparr>ag_committed := x\<rparr>) = in_range a" "in_range (a\<lparr>ag_bitrate_actuable := b\<rparr>) = in_range a"
  by (simp_all add: fun_eq_iff)

lemma set_pin_ok:
  assumes "vrate_ok v"
  shows "vrate_ok (video_rate_ctrl_set_fps_pinned ok now now2 pinned req v)"
proof -
  obtain err v0 where l: "vrate_lock_init ok v = (err, v0)" by (cases "vrate_lock_init ok v")
  note v0 = lock_init_ok[OF l]
  define a2 where "a2 = (if req then (v_agg v0)\<lparr>ag_pin_wanted := pinned, ag_pin_released := 0\<rparr>
      else if \<not> pinned then (v_agg v0)\<lparr>ag_pin_released := now\<rparr> else v_agg v0)\<lparr>ag_pinned := pinned\<rparr>"
  have a2: "agg_ok a2 = agg_ok (v_agg v0)" "ctrl_ok a2 = ctrl_ok (v_agg v0)" "in_range a2 = in_range (v_agg v0)"
    "fps_ok a2 = fps_ok (v_agg v0)" "ag_inited a2 = ag_inited (v_agg v0)" "ag_requested a2 = ag_requested (v_agg v0)"
    by (simp_all add: a2_def)
  have ok: "vrate_ok v0" using v0 assms by simp
  have "vrate_ok (v0\<lparr>v_agg := a2\<rparr>)" by (rule agg_only_ok[OF ok a2])
  moreover have "vrate_ok (v0\<lparr>v_agg := a2, v_ctrl := map (reapply (\<lambda>h. rc_in_use h \<and> rc_enabled h) a2) (v_ctrl v0)\<rparr>)"
    by (rule map_ok[OF ok _ a2(5,6,3,4)]) (simp add: a2(1) vrate_ok_agg[OF ok] a2(2)[symmetric] reapply_ctrl_ok)
  moreover have "video_rate_ctrl_set_fps_pinned ok now now2 pinned req v =
      (if err \<noteq> ESP_OK then v0
       else if ag_inited a2 \<and> ag_pinned (v_agg v0) \<noteq> pinned
       then vrate_rearbitrate now2
              (v0\<lparr>v_agg := a2, v_ctrl := map (reapply (\<lambda>h. rc_in_use h \<and> rc_enabled h) a2) (v_ctrl v0)\<rparr>)
       else v0\<lparr>v_agg := a2\<rparr>)"
    by (simp only: video_rate_ctrl_set_fps_pinned_def vrate_set_pin_def l prod.case Let_def a2_def[symmetric])
  ultimately show ?thesis using ok by (simp add: rearbitrate_vrate_ok)
qed

lemma set_min_ok:
  assumes "vrate_ok v"
  shows "vrate_ok (video_rate_ctrl_set_min_bitrate_bps now bps v)"
proof -
  define f0 where "f0 = (if bps > MIN_BITRATE_BPS then bps else MIN_BITRATE_BPS)"
  define flr where "flr = (if ag_max_bps (v_agg v) \<noteq> 0 \<and> f0 > ag_max_bps (v_agg v) then ag_max_bps (v_agg v) else f0)"
  define a where "a = (v_agg v)\<lparr>ag_min_bps := flr\<rparr>"
  have "agg_ok (v_agg v) \<Longrightarrow> agg_ok a" by (auto simp: a_def flr_def f0_def agg_ok_def)
  then have agg: "ag_inited (v_agg v) \<Longrightarrow> agg_ok a" using vrate_ok_agg[OF assms] by blast
  have a: "ctrl_ok a = ctrl_ok (v_agg v)" "in_range a = in_range (v_agg v)"
    "fps_ok a = fps_ok (v_agg v)" "ag_inited a = ag_inited (v_agg v)" "ag_requested a = ag_requested (v_agg v)"
    by (simp_all add: a_def)
  have "vrate_ok (v\<lparr>v_agg := a, v_ctrl := map (reapply rc_in_use a) (v_ctrl v)\<rparr>)"
    by (rule map_ok[OF assms _ a(4,5,2,3)]) (simp add: agg a(1)[symmetric] reapply_ctrl_ok)
  moreover have "vrate_ok (v\<lparr>v_agg := a, v_ctrl := map (\<lambda>h. h) (v_ctrl v)\<rparr>)"
    by (rule map_ok[OF assms _ a(4,5,2,3)]) (simp add: agg a(1))
  moreover have "video_rate_ctrl_set_min_bitrate_bps now bps v =
      (if \<not> v_lock v then v
       else if ag_min_bps (v_agg v) \<noteq> flr
       then vrate_rearbitrate now (v\<lparr>v_agg := a, v_ctrl := map (reapply rc_in_use a) (v_ctrl v)\<rparr>)
       else v\<lparr>v_agg := a\<rparr>)"
    by (simp only: video_rate_ctrl_set_min_bitrate_bps_def Let_def f0_def[symmetric] flr_def[symmetric] a_def[symmetric])
  ultimately show ?thesis using assms by (simp add: rearbitrate_vrate_ok)
qed

lemma expire_ok:
  assumes "vrate_ok v"
  shows "vrate_ok (vrate_expire_if_due got now v)"
proof -
  let ?f = "\<lambda>h. if rc_in_use h \<and> rc_enabled h \<and> \<not> rc_stale h \<and> vrate_is_stale now h then h\<lparr>rc_stale := True\<rparr> else h"
  have "vrate_ok (v\<lparr>v_agg := v_agg v, v_ctrl := map ?f (v_ctrl v)\<rparr>)"
    by (rule map_ok[OF assms]) (use vrate_ok_agg[OF assms] in \<open>simp_all\<close>)
  then show ?thesis using assms by (simp add: vrate_expire_if_due_def rearbitrate_vrate_ok)
qed

lemma pull_ok: "vrate_ok v \<Longrightarrow> vrate_ok (snd (video_rate_ctrl_pull_bitrate_bps got now v))"
  using expire_ok[of v got now]
  by (simp add: video_rate_ctrl_pull_bitrate_bps_def Let_def vrate_ok_def core_ok_def pub_ok_def)

lemma vrate_do_ok:
  assumes "vrate_ok v" "call_ok c"
  shows "vrate_ok (vrate_do now now2 c v)"
proof (cases c)
  case (Create name ok)
  obtain e h v' where "video_rate_ctrl_create ok now (Some name) True v = (e, h, v')" by (metis prod_cases3)
  then show ?thesis using create_ok[OF assms(1)] Create by simp
next
  case Pull_pin
  then show ?thesis using assms(1)
    by (simp add: video_rate_ctrl_pull_fps_pin_def vrate_ok_def core_ok_def pub_ok_def)
next
  case (Encoder_stats got)
  then show ?thesis using assms(1) expire_ok[OF assms(1)] by (simp add: video_rate_ctrl_get_encoder_stats_def Let_def)
qed (use assms in \<open>simp_all add: init_ok destroy_ok enable_ok report_send_ok report_queue_ok report_overflow_ok ceiling_ok
      set_pin_ok set_min_ok pull_ok agg_only_ok video_rate_ctrl_set_actuation_period_ms_def
      video_rate_ctrl_report_committed_bitrate_bps_def video_rate_ctrl_set_bitrate_actuable_def\<close>)

lemma vrate_boot_ok: "vrate_ok vrate_boot"
  by (simp add: vrate_ok_def core_ok_def pub_ok_def vrate_boot_def)

lemma runs_ok: "vrate_runs P vrate_boot t cs v' t' \<Longrightarrow> vrate_ok v'"
  by (erule runs_invariant[where I = "\<lambda>_. vrate_ok"]) (simp_all add: vrate_boot_ok vrate_do_ok)

end
