(* ===== verification/Rate_Props.thy ===== *)
theory Rate_Props
  imports Rate_Calls "HOL-Library.Code_Target_Numeral"
begin

text \<open>
  What the rate control promises: arbitration is the worst sink, the encoder stays within its limits whatever
  the transports do, a clamped rung loses nothing, and controllers that fall silent are let go.
\<close>

section \<open>Arbitration\<close>

text \<open>
  Worst sink wins. Re-arbitration with a lever on the encoder publishes the least frame rate and asks for
  the least bitrate over exactly the controllers that are enabled and reported in the last five seconds
  (the camera's own rate and the configured maximum when there is none), leaves every controller alone,
  announces a bitrate only when it differs from the last one asked for, and looks again when the first
  of them falls silent.
\<close>

theorem worst_sink_wins:
  assumes "ag_inited (v_agg v)" "\<not> vrate_inert (v_agg v)" "vrate_rearbitrate now v = v'"
  shows "v_ctrl v' = v_ctrl v \<and>
    v_pub_fps v' = (if eligible now v = [] then 0 else Min (rc_target_fps ` set (eligible now v))) \<and>
    ag_requested (v_agg v') =
      (if eligible now v = [] then ag_max_bps (v_agg v) else Min (rc_target_bps ` set (eligible now v))) \<and>
    v_pending_bps v' = (if ag_requested (v_agg v') = ag_requested (v_agg v) then v_pending_bps v else ag_requested (v_agg v')) \<and>
    v_stale_check v' = Min (insert INT64_MAX ((\<lambda>h. rc_last_report h + VRATE_STALE_MS * 1000) ` set (eligible now v)))"
proof (cases "eligible now v = []")
  case True
  then show ?thesis using rearbitrate_none[OF assms(1,2) True] assms(3) by (auto simp: request_bitrate_def)
next
  case False
  note m = arbitrate_min[of now "v_ctrl v", folded eligible_def, OF False]
    arbitrate_soonest[of now "v_ctrl v", folded eligible_def]
  have r: "v_ctrl (reassert_pin now b v) = v_ctrl v" "ag_requested (v_agg (reassert_pin now b v)) = ag_requested (v_agg v)"
    "v_pending_bps (reassert_pin now b v) = v_pending_bps v" for b
    by (simp_all add: reassert_pin_def Let_def)
  show ?thesis using rearbitrate_some[OF assms(1,2) False refl] assms(3) False m r
    by (auto simp: request_bitrate_def)
qed

text \<open>Two enabled controllers on a 720p camera, the second stepped down by overflows.\<close>

definition two_sinks :: vrate where
  "two_sinks =
     vrate_do 3000000 3000000 (Overflow 1)
       (vrate_do 2000000 2000000 (Enable 1 True)
         (vrate_do 2000000 2000000 (Enable 0 True)
           (vrate_do 1000000 1000000 (Create ''upload'' True)
             (vrate_do 1000000 1000000 (Create ''webrtc'' True)
               (vrate_do 1000000 1000000 (Init 30 2000000 1280 720 True True) vrate_boot)))))"

lemma two_sinks_value:
  "two_sinks = \<lparr>v_lock = True,
    v_ctrl =
      [\<lparr>rc_in_use = True, rc_enabled = True, rc_name = ''webrtc'', rc_level = 3, rc_target_fps = 20,
          rc_target_bps = 1000000, rc_net_ceiling = 0, rc_ema_ms = 0, rc_q_used = 0, rc_q_cap = 0,
          rc_q_ema_pct = 0, rc_q_delta = 0, rc_q_primed = False, rc_q_next_eval = 0, rc_load_pct = 0,
          rc_healthy_since = 0, rc_healthy_reports = 0, rc_probe_bar_level = 0, rc_probe_bar_us = 0,
          rc_last_report = 2000000, rc_stale = False, rc_reports = 0\<rparr>,
       \<lparr>rc_in_use = True, rc_enabled = True, rc_name = ''upload'', rc_level = 5, rc_target_fps = 12,
          rc_target_bps = 560000, rc_net_ceiling = 0, rc_ema_ms = 0, rc_q_used = 0, rc_q_cap = 0,
          rc_q_ema_pct = 100, rc_q_delta = 0, rc_q_primed = True, rc_q_next_eval = 3500000, rc_load_pct = 285,
          rc_healthy_since = 0, rc_healthy_reports = 0, rc_probe_bar_level = 4, rc_probe_bar_us = 3000000,
          rc_last_report = 3000000, rc_stale = False, rc_reports = 1\<rparr>,
       zero_controller, zero_controller],
    v_agg =
      \<lparr>ag_inited = True, ag_fps_actuable = True, ag_camera_fps = 30, ag_width = 1280, ag_height = 720,
         ag_max_bps = 2000000, ag_min_bps = 102400, ag_requested = 560000, ag_committed = 0,
         ag_bitrate_actuable = True, ag_period_ms = 0, ag_pin_wanted = False, ag_pinned = False, ag_pin_released = 0\<rparr>,
    v_pub_fps = 12, v_pub_camera_fps = 30, v_pending_bps = 560000, v_pending_pin = - 1, v_stale_check = 7000000\<rparr>"
  by code_simp

lemma two_sinks_facts:
  "ag_inited (v_agg two_sinks)" "\<not> vrate_inert (v_agg two_sinks)" "length (eligible 4000000 two_sinks) = 2"
  "v_lock two_sinks" "ag_requested (v_agg two_sinks) = 560000" "ag_max_bps (v_agg two_sinks) = 2000000"
  "eligible 9000000 two_sinks = []"
  by (simp_all add: two_sinks_value eligible_def vrate_eligible_def vrate_is_stale_def vrate_inert_def
      zero_controller_def VRATE_STALE_MS_def)

theorem worst_sink_wins_witness:
  "v_pub_fps (vrate_rearbitrate 4000000 two_sinks) = Min (rc_target_fps ` set (eligible 4000000 two_sinks)) \<and>
   length (eligible 4000000 two_sinks) = 2"
proof -
  have "eligible 4000000 two_sinks \<noteq> []" using two_sinks_facts(3) by auto
  then show ?thesis using worst_sink_wins[OF two_sinks_facts(1,2) refl] two_sinks_facts(3) by simp
qed

section \<open>The limits of the encoder\<close>

lemma two_sinks_runs: "\<exists>cs. vrate_runs (\<lambda>c. \<forall>b. c \<noteq> Set_actuable b) vrate_boot 0 cs two_sinks 3000000"
proof -
  let ?R = "vrate_runs (\<lambda>c. \<forall>b. c \<noteq> Set_actuable b) vrate_boot 0"
  have step: "?R (cs @ [c]) (vrate_do now now c v) now"
    if "?R cs v t" "t \<le> now" "call_ok c" "\<forall>b. c \<noteq> Set_actuable b" for cs v t now c
    using that by (intro runs_call) auto
  have slots: "0 < VIDEO_RATE_CTRL_MAX" "1 < VIDEO_RATE_CTRL_MAX" by (simp_all add: vrate_consts)
  show ?thesis unfolding two_sinks_def
    by (rule exI, (rule step)+, rule runs_none) (use slots in \<open>simp_all add: is_u32_def\<close>)
qed

text \<open>
  C11: the encoder stays within its limits. After any calls whatever, made by any number of transports and the
  frame grabber at any times, the bitrate asked for lies between the survival floor (the least of the
  encoder's own minimum and the resolution's, or the maximum when that is lower) and the configured
  maximum, a bitrate still to be collected is the one asked for, the published frame rate is the
  camera's or lies between the floor of the ladder and the camera's, and every enabled controller
  stands on a rung of the ladder with that rung's frame rate and a bitrate within the same bounds.
\<close>

theorem encoder_within_limits:
  assumes "vrate_runs P vrate_boot t cs v t'" "ag_inited (v_agg v)" "ag_max_bps (v_agg v) \<noteq> 0"
  shows "survival_bps (v_agg v) \<le> ag_requested (v_agg v) \<and> ag_requested (v_agg v) \<le> ag_max_bps (v_agg v) \<and>
    v_pending_bps v \<in> {0, ag_requested (v_agg v)} \<and>
    (v_pub_fps v = 0 \<or> min FPS_FLOOR (ag_camera_fps (v_agg v)) \<le> v_pub_fps v \<and> v_pub_fps v \<le> ag_camera_fps (v_agg v)) \<and>
    (\<forall>h \<in> set (v_ctrl v). rc_in_use h \<and> rc_enabled h \<longrightarrow>
       rc_level h < LADDER_N \<and> rc_target_fps h = vrate_rung_fps (v_agg v) (rc_level h) \<and>
       survival_bps (v_agg v) \<le> rc_target_bps h \<and> rc_target_bps h \<le> ag_max_bps (v_agg v))"
  using runs_ok[OF assms(1)] assms(2,3)
  by (auto simp: vrate_ok_def core_ok_def pub_ok_def in_range_def fps_ok_def list_all_iff ctrl_ok_def on_ladder_def)

theorem encoder_within_limits_witness:
  "survival_bps (v_agg two_sinks) = 258048 \<and> 258048 \<le> ag_requested (v_agg two_sinks) \<and>
   ag_requested (v_agg two_sinks) \<le> 2000000"
proof -
  obtain cs where r: "vrate_runs (\<lambda>c. \<forall>b. c \<noteq> Set_actuable b) vrate_boot 0 cs two_sinks 3000000"
    using two_sinks_runs by blast
  have s: "survival_bps (v_agg two_sinks) = 258048"
    by (simp add: two_sinks_value survival_bps_def vrate_resolution_floor_bps_def u64_def u32_def vrate_consts Let_def)
  show ?thesis using encoder_within_limits[OF r two_sinks_facts(1)] two_sinks_facts(6) s by simp
qed

section \<open>Clamping\<close>

text \<open>
  A controller moved to a level gets the operating point of that level, or of the best rung its network
  ceiling affords when that is lower: stopping at the deepest useful rung costs nothing. The ceiling
  is respected exactly when the lowest rung of the ladder fits under it.
\<close>

theorem apply_level_operating_point:
  assumes "level < LADDER_N" "is_u32 (ag_max_bps a)"
  shows "point a (rc_level (vrate_apply_level a level h)) = point a (max level (vrate_ceiling_level a h)) \<and>
    (rc_target_fps (vrate_apply_level a level h), rc_target_bps (vrate_apply_level a level h)) =
       point a (max level (vrate_ceiling_level a h)) \<and>
    (rc_target_bps (vrate_apply_level a level h) \<le> vrate_eff_max a h \<longleftrightarrow>
       vrate_rung_bitrate a (LADDER_N - 1) \<le> vrate_eff_max a h)"
proof -
  let ?l = "max level (vrate_ceiling_level a h)" and ?c = "clamp_level a h level"
  have l: "?l < LADDER_N" using assms(1) ceiling_lt[of a h] by simp
  have p: "point a ?c = point a ?l" using point_min_deepest[OF l] by (simp add: clamp_level_min)
  have b: "vrate_rung_bitrate a ?c = vrate_rung_bitrate a ?l" using p by (simp add: point_def)
  have "vrate_rung_bitrate a (LADDER_N - 1) \<le> vrate_rung_bitrate a ?l"
    using l by (intro rung_bitrate_antitone[OF _ _ assms(2)]) (simp_all add: LADDER_N_def)
  moreover have "vrate_rung_bitrate a ?l \<le> vrate_rung_bitrate a (vrate_ceiling_level a h)"
    by (rule rung_bitrate_antitone[OF _ l assms(2)]) simp
  ultimately have "vrate_rung_bitrate a ?c \<le> vrate_eff_max a h \<longleftrightarrow>
      vrate_rung_bitrate a (LADDER_N - 1) \<le> vrate_eff_max a h"
    using ceiling_fits[of a h] b by linarith
  then show ?thesis using p by (simp add: point_def)
qed

text \<open>A 1080p encoder of 10 Mbit/s whose network carries 700 kbit/s: the lowest rung is 1 Mbit/s.\<close>

definition fast_encoder :: encoder where
  "fast_encoder = init_encoder 30 10000000 1920 1080 True (v_agg vrate_boot)"

definition slow_network :: controller where
  "slow_network = zero_controller\<lparr>rc_in_use := True, rc_enabled := True, rc_net_ceiling := 700000\<rparr>"

theorem apply_level_operating_point_witness:
  "vrate_eff_max fast_encoder slow_network = 700000 \<and>
   \<not> rc_target_bps (vrate_apply_level fast_encoder 3 slow_network) \<le> 700000"
proof -
  have f: "vrate_eff_max fast_encoder slow_network = 700000" "vrate_rung_bitrate fast_encoder (LADDER_N - 1) = 1000000"
    by code_simp+
  have "is_u32 (ag_max_bps fast_encoder)" by (simp add: is_u32_def fast_encoder_def init_encoder_def)
  then show ?thesis using apply_level_operating_point[of 3 fast_encoder slow_network] f by (simp add: LADDER_N_def)
qed

section \<open>Controllers that fall silent\<close>

text \<open>The encoder runs as if nobody asked for less.\<close>

definition native :: "vrate \<Rightarrow> bool" where
  "native v \<longleftrightarrow> v_pub_fps v = 0 \<and> ag_requested (v_agg v) = ag_max_bps (v_agg v)"

definition watched :: "vrate \<Rightarrow> bool" where
  "watched v \<longleftrightarrow> (\<exists>h \<in> set (v_ctrl v). rc_in_use h \<and> rc_enabled h \<and>
     v_stale_check v \<le> rc_last_report h + VRATE_STALE_MS * 1000)"

definition watch_inv :: "int \<Rightarrow> vrate \<Rightarrow> bool" where
  "watch_inv t v \<longleftrightarrow> length (v_ctrl v) = VIDEO_RATE_CTRL_MAX \<and>
     (ag_inited (v_agg v) \<longrightarrow> ag_bitrate_actuable (v_agg v) \<and> (native v \<or> watched v)) \<and>
     (\<forall>h \<in> set (v_ctrl v). rc_in_use h \<longrightarrow> rc_last_report h \<le> t)"

text \<open>A change that touches neither what is published nor who is enabled, and moves no report back.\<close>

definition keeps :: "vrate \<Rightarrow> vrate \<Rightarrow> bool" where
  "keeps v v' \<longleftrightarrow> v_pub_fps v' = v_pub_fps v \<and> ag_requested (v_agg v') = ag_requested (v_agg v) \<and>
     ag_max_bps (v_agg v') = ag_max_bps (v_agg v) \<and> v_stale_check v' = v_stale_check v \<and>
     ag_inited (v_agg v') = ag_inited (v_agg v) \<and> ag_bitrate_actuable (v_agg v') = ag_bitrate_actuable (v_agg v) \<and>
     list_all2 (\<lambda>h h'. rc_in_use h' = rc_in_use h \<and> rc_enabled h' = rc_enabled h \<and>
        (rc_in_use h \<longrightarrow> rc_last_report h \<le> rc_last_report h')) (v_ctrl v) (v_ctrl v')"

lemma watched_keeps: "watched v \<Longrightarrow> keeps v v' \<Longrightarrow> watched v'"
  unfolding watched_def keeps_def by (fastforce simp: list_all2_conv_all_nth in_set_conv_nth)

lemma watch_keeps:
  assumes "watch_inv t v" "keeps v v'" "t \<le> t'" "\<forall>h \<in> set (v_ctrl v'). rc_in_use h \<longrightarrow> rc_last_report h \<le> t'"
  shows "watch_inv t' v'"
  using assms watched_keeps[of v v']
  by (auto simp: watch_inv_def keeps_def native_def dest: list_all2_lengthD)

lemma watch_rearbitrate:
  assumes "length (v_ctrl v) = VIDEO_RATE_CTRL_MAX" "ag_inited (v_agg v) \<Longrightarrow> ag_bitrate_actuable (v_agg v)"
    "\<forall>h \<in> set (v_ctrl v). rc_in_use h \<longrightarrow> rc_last_report h \<le> t"
  shows "watch_inv t (vrate_rearbitrate now v)"
proof (cases "ag_inited (v_agg v)")
  case False
  then show ?thesis using assms by (simp add: watch_inv_def rearbitrate_uninit)
next
  case True
  let ?v = "vrate_rearbitrate now v"
  have lever: "\<not> vrate_inert (v_agg v)" using assms(2)[OF True] by (simp add: vrate_inert_def)
  have act: "ag_bitrate_actuable (v_agg ?v)" "ag_max_bps (v_agg ?v) = ag_max_bps (v_agg v)"
    using assms(2)[OF True] by (simp_all add: vrate_rearbitrate_def request_bitrate_def reassert_pin_def Let_def)
  have "native ?v \<or> watched ?v"
  proof (cases "eligible now v = []")
    case E: True
    then show ?thesis using rearbitrate_none[OF True lever E] by (simp add: native_def request_bitrate_def)
  next
    case False
    then obtain h where h: "h \<in> set (eligible now v)" by fastforce
    have "v_stale_check ?v = arb_soonest (arbitrate now (v_ctrl v))"
      using rearbitrate_some[OF True lever False refl] by simp
    also have "\<dots> \<le> rc_last_report h + VRATE_STALE_MS * 1000"
      unfolding arbitrate_soonest using h by (intro Min_le) (auto simp: eligible_def)
    finally have "v_stale_check ?v \<le> rc_last_report h + VRATE_STALE_MS * 1000" .
    then show ?thesis using h unfolding watched_def eligible_def vrate_eligible_def by (intro disjI2 bexI[of _ h]) auto
  qed
  then show ?thesis using assms act by (simp add: watch_inv_def)
qed

lemma watch_rearbitrate': "watch_inv t v \<Longrightarrow> watch_inv t (vrate_rearbitrate now v)"
  by (rule watch_rearbitrate) (simp_all add: watch_inv_def)

lemma put_keeps:
  assumes "i < length (v_ctrl v)" "rc_in_use h = rc_in_use (v_ctrl v ! i)" "rc_enabled h = rc_enabled (v_ctrl v ! i)"
    "rc_in_use h \<Longrightarrow> rc_last_report (v_ctrl v ! i) \<le> rc_last_report h"
  shows "keeps v (put_ctrl i h v)"
  using assms by (auto simp: keeps_def list_all2_conv_all_nth put_ctrl_nth)

lemma watch_put:
  assumes "watch_inv t v" "i < VIDEO_RATE_CTRL_MAX" "rc_in_use h = rc_in_use (v_ctrl v ! i)"
    "rc_enabled h = rc_enabled (v_ctrl v ! i)" "t \<le> t'"
    "rc_in_use h \<Longrightarrow> rc_last_report (v_ctrl v ! i) \<le> rc_last_report h \<and> rc_last_report h \<le> t'"
  shows "watch_inv t' (put_ctrl i h v)"
proof -
  have l: "i < length (v_ctrl v)" using assms(1,2) by (simp add: watch_inv_def)
  have "keeps v (put_ctrl i h v)" using put_keeps[OF l assms(3,4)] assms(6) by blast
  moreover have "\<forall>g \<in> set (v_ctrl (put_ctrl i h v)). rc_in_use g \<longrightarrow> rc_last_report g \<le> t'"
    using assms(1,5,6) set_update_subset_insert[of "v_ctrl v" i h]
    by (fastforce simp: watch_inv_def put_ctrl_def)
  ultimately show ?thesis by (rule watch_keeps[OF assms(1) _ assms(5)])
qed

lemma watch_mono: "watch_inv t v \<Longrightarrow> t \<le> t' \<Longrightarrow> watch_inv t' v"
  by (auto simp: watch_inv_def)

lemma watch_release: "watch_inv t (release_pin now v) = watch_inv t v"
  by (simp add: watch_inv_def native_def watched_def) (simp add: release_pin_def)

lemma last_report_le: "watch_inv t v \<Longrightarrow> i < VIDEO_RATE_CTRL_MAX \<Longrightarrow> rc_in_use (v_ctrl v ! i) \<Longrightarrow> rc_last_report (v_ctrl v ! i) \<le> t"
  by (simp add: watch_inv_def)

lemma watch_step_down:
  assumes "watch_inv t v" "i < VIDEO_RATE_CTRL_MAX" "vrate_step_down now i jump v = (moved, v')"
  shows "watch_inv t v'"
proof -
  have put: "watch_inv t (put_ctrl i h w)"
    if "w = v \<or> w = release_pin now v" "rc_in_use h = rc_in_use (v_ctrl v ! i)"
      "rc_enabled h = rc_enabled (v_ctrl v ! i)" "rc_last_report h = rc_last_report (v_ctrl v ! i)" for h w
    using that watch_put[of t w i h t] assms(1,2) last_report_le[OF assms(1,2)] watch_release by auto
  from assms(3) show ?thesis
  proof (cases rule: step_down_cases)
    case (last w)
    show ?thesis unfolding last(4) by (rule put[OF last(5)]) simp_all
  next
    case (step w)
    show ?thesis unfolding step(3) by (rule put) (use step(5) in auto)
  qed (simp_all add: put)
qed

lemma mark_healthy_same:
  assumes "vrate_mark_healthy a now h = (moved, h')"
  shows "rc_in_use h' = rc_in_use h" "rc_enabled h' = rc_enabled h" "rc_last_report h' = rc_last_report h"
  using assms by (cases rule: mark_healthy_cases; auto split: if_splits)+

lemma watch_put_mono:
  assumes "watch_inv t v" "i < VIDEO_RATE_CTRL_MAX" "rc_in_use h = rc_in_use (v_ctrl v ! i)"
    "rc_enabled h = rc_enabled (v_ctrl v ! i)" "rc_last_report h = rc_last_report (v_ctrl v ! i)"
  shows "watch_inv t (put_ctrl i h v)"
  by (rule watch_put[OF assms(1-4)]) (use assms last_report_le[OF assms(1,2)] in auto)

lemma watch_rearbitrate_if: "watch_inv t v \<Longrightarrow> watch_inv t (rearbitrate_if b now v)"
  by (simp add: rearbitrate_if_def watch_rearbitrate')

lemma watch_stamp:
  assumes "watch_inv t v" "i < VIDEO_RATE_CTRL_MAX" "t \<le> now" "rc_in_use h = rc_in_use (v_ctrl v ! i)"
    "rc_enabled h = rc_enabled (v_ctrl v ! i)" "rc_last_report h = now"
  shows "watch_inv now (put_ctrl i h v)"
  by (rule watch_put[OF assms(1,2,4,5,3)]) (use assms last_report_le[OF assms(1,2)] in auto)

lemma watch_send:
  assumes "watch_inv t v" "i < VIDEO_RATE_CTRL_MAX" "t \<le> now"
  shows "watch_inv now (video_rate_ctrl_report_send_ms now now2 (Some i) ms v)"
proof -
  let ?c = "stamp_send now ms (v_ctrl v ! i)"
  obtain v' where r: "video_rate_ctrl_report_send_ms now now2 (Some i) ms v = v'" by blast
  note put = watch_stamp[OF assms]
  from r have "watch_inv now v'"
  proof (cases rule: report_send_cases)
    case (down jump moved v2)
    then show ?thesis using watch_step_down[OF put assms(2) down(4)] by (simp add: watch_rearbitrate_if)
  next
    case (up moved c2)
    then show ?thesis using put mark_healthy_same[OF up(3)] by (simp add: watch_rearbitrate_if)
  qed (use watch_mono assms put in \<open>auto simp: watch_rearbitrate_if\<close>)
  then show ?thesis using r by simp
qed

lemma watch_queue:
  assumes "watch_inv t v" "i < VIDEO_RATE_CTRL_MAX" "t \<le> now"
  shows "watch_inv now (video_rate_ctrl_report_queue got now now2 (Some i) used cap v)"
proof -
  let ?c1 = "(stamp_report now (v_ctrl v ! i))\<lparr>rc_q_used := used, rc_q_cap := cap\<rparr>"
  let ?v2 = "rearbitrate_if (was_stale now (v_ctrl v ! i)) now (put_ctrl i ?c1 v)"
  have l: "i < length (v_ctrl v)" using assms(1,2) by (simp add: watch_inv_def)
  obtain v' where r: "video_rate_ctrl_report_queue got now now2 (Some i) used cap v = v'" by blast
  have v2: "watch_inv now ?v2" using watch_stamp[OF assms] by (simp add: watch_rearbitrate_if)
  have nth: "v_ctrl ?v2 ! i = ?c1" using l by simp
  have put: "watch_inv now (put_ctrl i h ?v2)"
    if "rc_in_use h = rc_in_use ?c1" "rc_enabled h = rc_enabled ?c1" "rc_last_report h = rc_last_report ?c1" for h
    by (rule watch_put_mono[OF v2 assms(2)]) (use that nth in simp_all)
  from r l have "watch_inv now v'"
  proof (cases rule: report_queue_cases)
    case (down jump moved v3)
    show ?thesis unfolding down(9)
      by (rule watch_rearbitrate_if, rule watch_step_down[OF put assms(2) down(8)]) simp_all
  next
    case (up moved c2)
    note m = mark_healthy_same[OF up(5)]
    show ?thesis unfolding up(6) by (rule watch_rearbitrate_if, rule put) (use m in simp_all)
  next
    case hold
    show ?thesis unfolding hold(5) by (rule put) simp_all
  qed (use watch_mono assms v2 in auto)
  then show ?thesis using r by simp
qed

lemma watch_overflow:
  assumes "watch_inv t v" "i < VIDEO_RATE_CTRL_MAX" "t \<le> now"
  shows "watch_inv now (video_rate_ctrl_report_overflow now now2 (Some i) v)"
proof -
  obtain v' where r: "video_rate_ctrl_report_overflow now now2 (Some i) v = v'" by blast
  note put = watch_stamp[OF assms]
  from r have "watch_inv now v'"
  proof (cases rule: report_overflow_cases)
    case (down moved v2)
    show ?thesis unfolding down(5)
      by (rule watch_rearbitrate_if, rule watch_step_down[OF put assms(2) down(4)]) simp_all
  qed (use watch_mono assms put in \<open>auto simp: watch_rearbitrate_if\<close>)
  then show ?thesis using r by simp
qed

text \<open>The remaining calls either re-arbitrate or change nothing the assertion is about.\<close>

lemma watch_map:
  assumes "watch_inv t v" "ag_bitrate_actuable a = ag_bitrate_actuable (v_agg v)" "ag_inited a = ag_inited (v_agg v)"
    "\<And>h. rc_in_use (f h) = rc_in_use h \<and> rc_last_report (f h) = rc_last_report h"
  shows "watch_inv t (vrate_rearbitrate now (v\<lparr>v_agg := a, v_ctrl := map f (v_ctrl v)\<rparr>))"
  by (rule watch_rearbitrate) (use assms in \<open>auto simp: watch_inv_def\<close>)

lemma watch_agg:
  assumes "watch_inv t v" "ag_bitrate_actuable a = ag_bitrate_actuable (v_agg v)" "ag_inited a = ag_inited (v_agg v)"
    "ag_requested a = ag_requested (v_agg v)" "ag_max_bps a = ag_max_bps (v_agg v)"
  shows "watch_inv t (v\<lparr>v_agg := a\<rparr>)"
  using assms by (simp add: watch_inv_def native_def watched_def)

lemma reapply_fields [simp]:
  "rc_in_use (reapply P a h) = rc_in_use h" "rc_last_report (reapply P a h) = rc_last_report h"
  by (simp_all add: reapply_def)

lemma watch_lock_init: "vrate_lock_init ok v = (err, v0) \<Longrightarrow> watch_inv t v0 = watch_inv t v"
  by (auto simp: vrate_lock_init_def watch_inv_def native_def watched_def split: if_splits)

lemma watch_init:
  assumes "watch_inv t v" "t \<le> now"
  shows "watch_inv now (video_rate_ctrl_init ok now fps bps w h act v)"
proof -
  obtain err v0 where l: "vrate_lock_init ok v = (err, v0)" by (cases "vrate_lock_init ok v")
  have v0: "watch_inv now v0" using watch_mono[OF assms] watch_lock_init[OF l] by simp
  let ?a = "init_encoder fps bps w h act (v_agg v0)"
  have f: "rc_in_use (init_controller a now c) = rc_in_use c" "rc_in_use c \<Longrightarrow> rc_last_report (init_controller a now c) = now" for a c
    by (simp_all add: init_controller_def Let_def)
  have "watch_inv now (vrate_rearbitrate now (v0\<lparr>v_agg := ?a, v_pub_camera_fps := ag_camera_fps ?a, v_pending_bps := 0,
      v_ctrl := map (init_controller ?a now) (v_ctrl v0)\<rparr>))"
  proof (rule watch_rearbitrate)
    show "length (v_ctrl (v0\<lparr>v_agg := ?a, v_pub_camera_fps := ag_camera_fps ?a, v_pending_bps := 0,
      v_ctrl := map (init_controller ?a now) (v_ctrl v0)\<rparr>)) = VIDEO_RATE_CTRL_MAX"
      using v0 by (simp add: watch_inv_def)
  qed (simp_all add: f, simp add: init_encoder_def)
  then show ?thesis unfolding video_rate_ctrl_init_def l prod.case Let_def using v0 by simp
qed

lemma watch_new:
  assumes "watch_inv t v" "t \<le> now" "\<not> rc_in_use (v_ctrl v ! i)" "i < VIDEO_RATE_CTRL_MAX" "rc_last_report h = now"
  shows "watch_inv now (put_ctrl i h v)"
proof -
  have l: "i < length (v_ctrl v)" using assms(1,4) by (simp add: watch_inv_def)
  have "watched (put_ctrl i h v)" if w: "watched v"
  proof -
    obtain j where j: "j < length (v_ctrl v)" "rc_in_use (v_ctrl v ! j)" "rc_enabled (v_ctrl v ! j)"
      "v_stale_check v \<le> rc_last_report (v_ctrl v ! j) + VRATE_STALE_MS * 1000"
      using w by (auto simp: watched_def in_set_conv_nth)
    then have "v_ctrl (put_ctrl i h v) ! j = v_ctrl v ! j" using assms(3) by (auto simp: put_ctrl_nth)
    then show ?thesis using j unfolding watched_def
      by (intro bexI[of _ "v_ctrl (put_ctrl i h v) ! j"] nth_mem) auto
  qed
  then show ?thesis using assms set_update_subset_insert[of "v_ctrl v" i h]
    by (fastforce simp: watch_inv_def native_def put_ctrl_def)
qed

lemma watch_create:
  assumes "watch_inv t v" "t \<le> now" "video_rate_ctrl_create ok now name out v = (err, h, v')"
  shows "watch_inv now v'"
proof -
  obtain e v0 where l: "vrate_lock_init ok v = (e, v0)" by (cases "vrate_lock_init ok v")
  have v0: "watch_inv t v0" using assms(1) watch_lock_init[OF l] by simp
  let ?s = "find (\<lambda>i. \<not> rc_in_use (v_ctrl v0 ! i)) [0..<VIDEO_RATE_CTRL_MAX]"
  show ?thesis
  proof (cases ?s)
    case None
    then have "v' = v \<or> v' = v0" using assms(3) l by (auto simp: video_rate_ctrl_create_def split: if_splits)
    then show ?thesis using watch_mono[OF _ assms(2)] assms(1) v0 by blast
  next
    case (Some i)
    define g where "g = zero_controller\<lparr>rc_in_use := True, rc_enabled := False, rc_last_report := now,
                         rc_name := strncpy_term VRATE_NAME_LEN (the name)\<rparr>"
    define g' where "g' = (if ag_inited (v_agg v0) then vrate_apply_level (v_agg v0) (vrate_start_level (v_agg v0)) g else g)"
    have i: "\<not> rc_in_use (v_ctrl v0 ! i)" "i < VIDEO_RATE_CTRL_MAX" using Some by (auto simp: find_Some_iff)
    have "rc_last_report g' = now" by (simp add: g'_def g_def)
    then have new: "watch_inv now (put_ctrl i g' v0)" by (rule watch_new[OF v0 assms(2) i])
    have "v' = v \<or> v' = v0 \<or> v' = put_ctrl i g' v0"
      using assms(3) unfolding video_rate_ctrl_create_def l prod.case Some option.case Let_def g_def[symmetric] g'_def[symmetric]
      by (auto split: if_splits)
    then show ?thesis using new watch_mono[OF _ assms(2)] assms(1) v0 by blast
  qed
qed

lemma watch_put_rearbitrate:
  assumes "watch_inv t v" "t \<le> now" "rc_in_use h \<Longrightarrow> rc_last_report h \<le> now"
  shows "watch_inv now (vrate_rearbitrate now (put_ctrl i h v))"
proof (rule watch_rearbitrate)
  note W = assms(1)[unfolded watch_inv_def]
  show "length (v_ctrl (put_ctrl i h v)) = VIDEO_RATE_CTRL_MAX" using W by simp
  show "ag_inited (v_agg (put_ctrl i h v)) \<Longrightarrow> ag_bitrate_actuable (v_agg (put_ctrl i h v))" using W by simp
  show "\<forall>g \<in> set (v_ctrl (put_ctrl i h v)). rc_in_use g \<longrightarrow> rc_last_report g \<le> now"
  proof
    fix g assume "g \<in> set (v_ctrl (put_ctrl i h v))"
    then have "g = h \<or> g \<in> set (v_ctrl v)" using set_update_subset_insert[of "v_ctrl v" i h] by (auto simp: put_ctrl_def)
    then show "rc_in_use g \<longrightarrow> rc_last_report g \<le> now" using W assms(2,3) by fastforce
  qed
qed

lemma watch_destroy:
  assumes "watch_inv t v" "t \<le> now"
  shows "watch_inv now (video_rate_ctrl_destroy now h v)"
proof -
  have "watch_inv now (vrate_rearbitrate now (put_ctrl i zero_controller v))" for i
    by (rule watch_put_rearbitrate[OF assms]) (simp add: zero_controller_def)
  then show ?thesis using watch_mono[OF assms] by (simp add: video_rate_ctrl_destroy_def split: option.split)
qed

lemma watch_enable:
  assumes "watch_inv t v" "t \<le> now"
  shows "watch_inv now (video_rate_ctrl_enable now h b v)"
proof -
  have "watch_inv now (vrate_rearbitrate now (put_ctrl i c v))" if "rc_last_report c = now" for i c
    by (rule watch_put_rearbitrate[OF assms]) (simp add: that)
  then show ?thesis using watch_mono[OF assms] by (simp add: video_rate_ctrl_enable_def Let_def split: option.split)
qed

lemma watch_ceiling:
  assumes "watch_inv t v" "t \<le> now" "i < VIDEO_RATE_CTRL_MAX"
  shows "watch_inv now (video_rate_ctrl_set_network_ceiling_bps now (Some i) bps v)"
  using watch_mono[OF assms(1,2)] assms(3)
  by (auto simp: video_rate_ctrl_set_network_ceiling_bps_def Let_def intro!: watch_rearbitrate' watch_put_mono)

lemma watch_set_pin:
  assumes "watch_inv t v" "t \<le> now"
  shows "watch_inv now (video_rate_ctrl_set_fps_pinned ok now1 now2 pinned req v)"
proof -
  obtain err v0 where l: "vrate_lock_init ok v = (err, v0)" by (cases "vrate_lock_init ok v")
  have v0: "watch_inv now v0" using watch_mono[OF assms] watch_lock_init[OF l] by simp
  show ?thesis unfolding video_rate_ctrl_set_fps_pinned_def vrate_set_pin_def l prod.case Let_def
    using v0 by (auto intro!: watch_map watch_agg)
qed

lemma watch_set_min:
  assumes "watch_inv t v" "t \<le> now"
  shows "watch_inv now (video_rate_ctrl_set_min_bitrate_bps now1 bps v)"
  unfolding video_rate_ctrl_set_min_bitrate_bps_def Let_def
  using watch_mono[OF assms] by (auto intro!: watch_map watch_agg)

lemma watch_expire:
  assumes "watch_inv t v"
  shows "watch_inv t (vrate_expire_if_due got now v)"
proof -
  let ?f = "\<lambda>h. if rc_in_use h \<and> rc_enabled h \<and> \<not> rc_stale h \<and> vrate_is_stale now h then h\<lparr>rc_stale := True\<rparr> else h"
  have "watch_inv t (vrate_rearbitrate now (v\<lparr>v_agg := v_agg v, v_ctrl := map ?f (v_ctrl v)\<rparr>))"
    by (rule watch_map[OF assms]) simp_all
  then show ?thesis using assms by (simp add: vrate_expire_if_due_def)
qed

lemma watch_pull:
  assumes "watch_inv t v"
  shows "watch_inv t (snd (video_rate_ctrl_pull_bitrate_bps got now v))"
  using watch_expire[OF assms, of got now]
  by (simp add: video_rate_ctrl_pull_bitrate_bps_def Let_def watch_inv_def native_def watched_def)

lemma watch_do:
  assumes "watch_inv t v" "t \<le> now" "now \<le> now2" "call_ok c" "\<forall>b. c \<noteq> Set_actuable b"
  shows "watch_inv now2 (vrate_do now now2 c v)"
proof (rule watch_mono[OF _ assms(3)])
  show "watch_inv now (vrate_do now now2 c v)"
  proof (cases c)
    case (Create name ok)
    obtain e h v' where "video_rate_ctrl_create ok now (Some name) True v = (e, h, v')" by (metis prod_cases3)
    then show ?thesis using watch_create[OF assms(1,2)] Create by simp
  next
    case Pull_pin
    then show ?thesis using watch_mono[OF assms(1,2)]
      by (simp add: video_rate_ctrl_pull_fps_pin_def watch_inv_def native_def watched_def)
  next
    case (Encoder_stats got)
    then show ?thesis using watch_mono[OF assms(1,2)] watch_expire
      by (simp add: video_rate_ctrl_get_encoder_stats_def Let_def)
  qed (use assms in \<open>simp_all add: watch_init watch_destroy watch_enable watch_send watch_queue watch_overflow
        watch_ceiling watch_set_pin watch_set_min watch_pull watch_mono watch_agg
        video_rate_ctrl_set_actuation_period_ms_def video_rate_ctrl_report_committed_bitrate_bps_def\<close>)
qed

text \<open>
  C12: silence does not hold the encoder down. As long as bitrate changes have always been able to reach the
  encoder, after any calls, once no enabled controller has reported in the last five seconds, the next
  bitrate collected (with the lock free) finds the encoder back at its own frame rate and asked for its
  maximal bitrate.
\<close>

theorem silent_controllers_released:
  assumes "vrate_runs (\<lambda>c. \<forall>b. c \<noteq> Set_actuable b) vrate_boot 0 cs v t" "t \<le> now" "v_lock v" "ag_inited (v_agg v)"
    and "eligible now v = []" "video_rate_ctrl_pull_bitrate_bps True now v = (bps, v')"
  shows "v_pub_fps v' = 0 \<and> ag_requested (v_agg v') = ag_max_bps (v_agg v')"
proof -
  have "watch_inv 0 vrate_boot" by (simp add: watch_inv_def vrate_boot_def zero_controller_def)
  then have inv: "watch_inv t v" by (rule runs_invariant[OF assms(1)]) (use watch_do in blast)
  then have lever: "\<not> vrate_inert (v_agg v)" using assms(4) by (simp add: watch_inv_def vrate_inert_def)
  let ?f = "\<lambda>h. if rc_in_use h \<and> rc_enabled h \<and> \<not> rc_stale h \<and> vrate_is_stale now h then h\<lparr>rc_stale := True\<rparr> else h"
  have v': "v' = (vrate_expire_if_due True now v)\<lparr>v_pending_bps := 0\<rparr>"
    using assms(6) by (auto simp: video_rate_ctrl_pull_bitrate_bps_def Let_def)
  have "native (vrate_expire_if_due True now v)"
  proof (cases "now < v_stale_check v")
    case True
    have "\<not> watched v"
    proof
      assume "watched v"
      then obtain h where h: "h \<in> set (v_ctrl v)" "rc_in_use h" "rc_enabled h" "v_stale_check v \<le> rc_last_report h + VRATE_STALE_MS * 1000"
        by (auto simp: watched_def)
      then have "h \<in> set (eligible now v)" using True by (auto simp: eligible_def vrate_eligible_def vrate_is_stale_def)
      then show False using assms(5) by simp
    qed
    then show ?thesis using inv assms(4) True by (auto simp: watch_inv_def vrate_expire_if_due_def)
  next
    case False
    let ?w = "v\<lparr>v_ctrl := map ?f (v_ctrl v)\<rparr>"
    have e: "vrate_eligible now (?f h) = vrate_eligible now h" for h by (simp add: vrate_eligible_def vrate_is_stale_def)
    have "eligible now ?w = map ?f (eligible now v)" unfolding eligible_def by (simp add: filter_map o_def e)
    then have none: "eligible now ?w = []" using assms(5) by simp
    have "vrate_expire_if_due True now v = vrate_rearbitrate now ?w" using False assms(3) by (simp add: vrate_expire_if_due_def)
    then show ?thesis using rearbitrate_none[OF _ _ none] assms(4) lever by (simp add: native_def request_bitrate_def)
  qed
  then show ?thesis unfolding v' by (simp add: native_def)
qed

theorem silent_controllers_released_witness:
  "v_pub_fps (snd (video_rate_ctrl_pull_bitrate_bps True 9000000 two_sinks)) = 0 \<and>
   ag_requested (v_agg two_sinks) = 560000 \<and>
   ag_requested (v_agg (snd (video_rate_ctrl_pull_bitrate_bps True 9000000 two_sinks))) =
     ag_max_bps (v_agg (snd (video_rate_ctrl_pull_bitrate_bps True 9000000 two_sinks)))"
proof -
  obtain cs where r: "vrate_runs (\<lambda>c. \<forall>b. c \<noteq> Set_actuable b) vrate_boot 0 cs two_sinks 3000000"
    using two_sinks_runs by blast
  obtain bps v' where p: "video_rate_ctrl_pull_bitrate_bps True 9000000 two_sinks = (bps, v')" by fastforce
  show ?thesis
    using silent_controllers_released[OF r _ two_sinks_facts(4,1,7) p] two_sinks_facts(5) by (simp add: p)
qed

text \<open>
  C13: the exception. When a pull is due while no change can reach the encoder, the deadline is parked; when
  bitrate changes reach it again nothing sets the deadline anew, so however long the controllers then stay
  silent, no pull lets them go: the encoder keeps the bitrate it was last asked for and there is nothing
  to collect.
\<close>

theorem thawed_encoder_not_released:
  assumes "v_lock v" "vrate_inert (v_agg v)" "v_stale_check v \<le> t" "now < INT64_MAX"
    and "video_rate_ctrl_set_bitrate_actuable True (snd (video_rate_ctrl_pull_bitrate_bps True t v)) = v'"
  shows "\<not> vrate_inert (v_agg v') \<and> fst (video_rate_ctrl_pull_bitrate_bps True now v') = 0 \<and>
    ag_requested (v_agg (snd (video_rate_ctrl_pull_bitrate_bps True now v'))) = ag_requested (v_agg v)"
proof -
  have "v_stale_check v' = INT64_MAX \<and> v_pending_bps v' = 0 \<and> ag_requested (v_agg v') = ag_requested (v_agg v) \<and>
      \<not> vrate_inert (v_agg v')"
    unfolding assms(5)[symmetric] using assms(1-3)
    by (simp add: video_rate_ctrl_set_bitrate_actuable_def video_rate_ctrl_pull_bitrate_bps_def vrate_expire_if_due_def
        rearbitrate_inert Let_def) (simp add: vrate_inert_def)
  then show ?thesis using assms(4)
    by (simp add: video_rate_ctrl_pull_bitrate_bps_def vrate_expire_if_due_def)
qed

text \<open>A camera whose frame rate is fixed, with one sink that overflowed.\<close>

definition fixed_rate_sink :: vrate where
  "fixed_rate_sink =
     vrate_do 4000000 4000000 (Set_actuable False)
       (vrate_do 3000000 3000000 (Overflow 0)
         (vrate_do 2000000 2000000 (Enable 0 True)
           (vrate_do 1000000 1000000 (Create ''upload'' True)
             (vrate_do 1000000 1000000 (Init 30 2000000 1280 720 False True) vrate_boot))))"

theorem thawed_encoder_not_released_witness:
  "let v' = video_rate_ctrl_set_bitrate_actuable True (snd (video_rate_ctrl_pull_bitrate_bps True 8000000 fixed_rate_sink))
   in eligible 3600000000 v' = [] \<and>
      ag_requested (v_agg (snd (video_rate_ctrl_pull_bitrate_bps True 3600000000 v'))) = 1300000"
proof -
  let ?v = "video_rate_ctrl_set_bitrate_actuable True (snd (video_rate_ctrl_pull_bitrate_bps True 8000000 fixed_rate_sink))"
  have f: "v_lock fixed_rate_sink" "vrate_inert (v_agg fixed_rate_sink)" "v_stale_check fixed_rate_sink \<le> 8000000"
    "ag_requested (v_agg fixed_rate_sink) = 1300000" "eligible 3600000000 ?v = []"
    by code_simp+
  show ?thesis using thawed_encoder_not_released[OF f(1-3) _ refl, of 3600000000] f(4,5) by (simp add: INT64_MAX_def Let_def)
qed

end
