(* ===== verification/Rate_Pace.thy ===== *)
theory Rate_Pace
  imports Rate_Props
begin

text \<open>
  The pace of the rate control: a queue steps a controller down at most once per actuation period, a rung
  that congested stays barred for a minute, a rung is won back only after three healthy seconds and eight
  reports, and overflows that persist reach the deepest useful rung.
\<close>

lemma rearbitrate_nth [simp]: "v_ctrl (rearbitrate_if b now v) ! i = v_ctrl v ! i"
  by simp

lemma step_down_others:
  assumes "vrate_step_down now j jump v = (moved, v')" "i \<noteq> j"
  shows "v_ctrl v' ! i = v_ctrl v ! i" "length (v_ctrl v') = length (v_ctrl v)"
  using assms by (cases rule: step_down_cases; auto simp: put_ctrl_def)+

lemma step_down_length:
  assumes "vrate_step_down now j jump v = (moved, v')"
  shows "length (v_ctrl v') = length (v_ctrl v)"
  using assms by (cases rule: step_down_cases; auto simp: put_ctrl_def)

lemma put_other: "i \<noteq> j \<Longrightarrow> v_ctrl (put_ctrl j h v) ! i = v_ctrl v ! i"
  by (simp add: put_ctrl_def)

section \<open>One step down per actuation period\<close>

text \<open>The calls of a system whose controllers all report queues.\<close>

fun queue_call :: "vrate_call \<Rightarrow> bool" where
  "queue_call (Queue i used cap got) = True"
| "queue_call (Overflow i) = True"
| "queue_call Pull_pin = True"
| "queue_call (Pull_bitrate got) = True"
| "queue_call (Encoder_stats got) = True"
| "queue_call (Committed bps) = True"
| "queue_call (Set_period ms) = True"
| "queue_call _ = False"

definition same_rung :: "controller \<Rightarrow> controller \<Rightarrow> bool" where
  "same_rung h h' \<longleftrightarrow> rc_level h' = rc_level h \<and> rc_target_fps h' = rc_target_fps h \<and>
     rc_target_bps h' = rc_target_bps h \<and> rc_q_next_eval h' = rc_q_next_eval h"

lemma same_rung_refl [simp]: "same_rung h h"
  by (simp add: same_rung_def)

lemma same_rung_trans: "same_rung h h1 \<Longrightarrow> same_rung h1 h2 \<Longrightarrow> same_rung h h2"
  by (simp add: same_rung_def)

lemma expire_same_rung: "i < length (v_ctrl v) \<Longrightarrow> same_rung (v_ctrl v ! i) (v_ctrl (vrate_expire_if_due got now v) ! i)"
  by (simp add: vrate_expire_if_due_def same_rung_def)

lemma expire_length [simp]: "length (v_ctrl (vrate_expire_if_due got now v)) = length (v_ctrl v)"
  by (simp add: vrate_expire_if_due_def)

lemma queue_same_rung:
  assumes "length (v_ctrl v) = VIDEO_RATE_CTRL_MAX" "j < VIDEO_RATE_CTRL_MAX" "i < VIDEO_RATE_CTRL_MAX"
    "now < rc_q_next_eval (v_ctrl v ! i)" "video_rate_ctrl_report_queue got now now2 (Some j) used cap v = v'"
  shows "same_rung (v_ctrl v ! i) (v_ctrl v' ! i)" "length (v_ctrl v') = VIDEO_RATE_CTRL_MAX"
proof -
  have l: "j < length (v_ctrl v)" using assms by simp
  from assms(5) l have "same_rung (v_ctrl v ! i) (v_ctrl v' ! i) \<and> length (v_ctrl v') = VIDEO_RATE_CTRL_MAX"
  proof (cases rule: report_queue_cases)
    case waiting
    show ?thesis unfolding waiting(6) using assms(1,3) by (auto simp: put_ctrl_nth same_rung_def stamp_report_def)
  next
    case (down jump moved v3)
    then have "i \<noteq> j" using assms(4) by auto
    then show ?thesis unfolding down(9) using step_down_others[OF down(8)] step_down_length[OF down(8)] assms(1)
      by (simp add: put_other)
  next
    case (up moved c2)
    then have "i \<noteq> j" using assms(4) by auto
    then show ?thesis unfolding up(6) using assms(1) by (simp add: put_other)
  next
    case hold
    then have "i \<noteq> j" using assms(4) by auto
    then show ?thesis unfolding hold(5) using assms(1) by (simp add: put_other)
  qed (use assms(1) in simp)
  then show "same_rung (v_ctrl v ! i) (v_ctrl v' ! i)" "length (v_ctrl v') = VIDEO_RATE_CTRL_MAX" by auto
qed

lemma overflow_same_rung:
  assumes "length (v_ctrl v) = VIDEO_RATE_CTRL_MAX" "j < VIDEO_RATE_CTRL_MAX" "i < VIDEO_RATE_CTRL_MAX"
    "now < rc_q_next_eval (v_ctrl v ! i)" "video_rate_ctrl_report_overflow now now2 (Some j) v = v'"
  shows "same_rung (v_ctrl v ! i) (v_ctrl v' ! i)" "length (v_ctrl v') = VIDEO_RATE_CTRL_MAX"
proof -
  from assms(5) have "same_rung (v_ctrl v ! i) (v_ctrl v' ! i) \<and> length (v_ctrl v') = VIDEO_RATE_CTRL_MAX"
  proof (cases rule: report_overflow_cases)
    case (down moved v3)
    then have "i \<noteq> j" using assms(4) by auto
    then show ?thesis unfolding down(5) using step_down_others[OF down(4)] step_down_length[OF down(4)] assms(1)
      by (simp add: put_other)
  next
    case held
    have "rc_target_fps (stamp_overflow now h) = rc_target_fps h" "rc_target_bps (stamp_overflow now h) = rc_target_bps h" for h
      by (simp_all add: stamp_overflow_def stamp_report_def)
    then show ?thesis unfolding held(4) using assms(1,3) by (auto simp: put_ctrl_nth same_rung_def)
  qed (use assms(1) in simp)
  then show "same_rung (v_ctrl v ! i) (v_ctrl v' ! i)" "length (v_ctrl v') = VIDEO_RATE_CTRL_MAX" by auto
qed

lemma queue_call_same_rung:
  assumes "length (v_ctrl v) = VIDEO_RATE_CTRL_MAX" "i < VIDEO_RATE_CTRL_MAX" "call_ok c" "queue_call c"
    "now < rc_q_next_eval (v_ctrl v ! i)"
  shows "same_rung (v_ctrl v ! i) (v_ctrl (vrate_do now now2 c v) ! i) \<and>
    length (v_ctrl (vrate_do now now2 c v)) = VIDEO_RATE_CTRL_MAX"
proof (cases c)
  case (Queue j used cap got)
  then show ?thesis using queue_same_rung[OF assms(1) _ assms(2,5) refl] assms(3) by simp
next
  case (Overflow j)
  then show ?thesis using overflow_same_rung[OF assms(1) _ assms(2,5) refl] assms(3) by simp
next
  case (Pull_bitrate got)
  then show ?thesis using assms expire_same_rung[of i v] by (simp add: video_rate_ctrl_pull_bitrate_bps_def Let_def)
next
  case (Encoder_stats got)
  then show ?thesis using assms expire_same_rung[of i v] by (simp add: video_rate_ctrl_get_encoder_stats_def Let_def)
qed (use assms in \<open>simp_all add: video_rate_ctrl_pull_fps_pin_def video_rate_ctrl_report_committed_bitrate_bps_def
    video_rate_ctrl_set_actuation_period_ms_def\<close>)

lemma queue_runs_same_rung:
  assumes "vrate_runs queue_call v t cs v' t'" "length (v_ctrl v) = VIDEO_RATE_CTRL_MAX" "i < VIDEO_RATE_CTRL_MAX"
    "t' < rc_q_next_eval (v_ctrl v ! i)"
  shows "same_rung (v_ctrl v ! i) (v_ctrl v' ! i) \<and> length (v_ctrl v') = VIDEO_RATE_CTRL_MAX"
  using assms(1,4)
proof (induction rule: vrate_runs.induct)
  case (runs_call cs v1 t1 now now2 c)
  have ih: "same_rung (v_ctrl v ! i) (v_ctrl v1 ! i)" "length (v_ctrl v1) = VIDEO_RATE_CTRL_MAX"
    using runs_call by auto
  then have "now < rc_q_next_eval (v_ctrl v1 ! i)" using runs_call by (simp add: same_rung_def)
  then show ?case using queue_call_same_rung[OF ih(2) assms(3) runs_call(4,5), of now now2] same_rung_trans[OF ih(1)] by blast
qed (use assms(2) in simp)

lemma level_eval_period: "0 \<le> vrate_level_eval_period_us a"
  by (simp add: vrate_level_eval_period_us_def)

text \<open>An evaluation that finds congestion arms the next one a whole actuation period ahead.\<close>

lemma step_down_next_eval:
  assumes "vrate_step_down now i jump v = (moved, v')" "i < length (v_ctrl v)"
  shows "rc_q_next_eval (v_ctrl v' ! i) = rc_q_next_eval (v_ctrl v ! i)"
  using assms by (cases rule: step_down_cases; auto simp: put_ctrl_nth split: if_splits)

definition congested_call :: "int \<Rightarrow> vrate \<Rightarrow> nat \<Rightarrow> vrate_call \<Rightarrow> bool" where
  "congested_call now v i c \<longleftrightarrow> c = Overflow i \<or>
     (\<exists>used cap. c = Queue i used cap True \<and> cap \<noteq> 0 \<and>
        int QUEUE_CONGEST_PCT \<le> queue_trend (sample_queue (v_agg v) now used cap (v_ctrl v ! i)))"

lemma queue_trend_sample:
  "rc_q_ema_pct h' = rc_q_ema_pct h \<Longrightarrow> rc_q_primed h' = rc_q_primed h \<Longrightarrow> rc_q_delta h' = rc_q_delta h \<Longrightarrow>
   queue_trend (sample_queue a' now u c h') = queue_trend (sample_queue a now u c h)"
  by (simp add: queue_trend_def sample_queue_def Let_def)

lemma rearbitrate_period: "ag_period_ms (v_agg (rearbitrate_if b now v)) = ag_period_ms (v_agg v)"
  by (simp add: rearbitrate_if_def vrate_rearbitrate_def request_bitrate_def reassert_pin_def Let_def)

lemma congested_arms:
  assumes "length (v_ctrl v) = VIDEO_RATE_CTRL_MAX" "i < VIDEO_RATE_CTRL_MAX" "v_lock v" "reportable v i"
    "rc_q_next_eval (v_ctrl v ! i) \<le> now" "congested_call now v i c"
  shows "rc_q_next_eval (v_ctrl (vrate_do now now2 c v) ! i) = now + vrate_level_eval_period_us (v_agg v) \<and>
    length (v_ctrl (vrate_do now now2 c v)) = VIDEO_RATE_CTRL_MAX"
proof -
  have l: "i < length (v_ctrl v)" using assms by simp
  from assms(6) consider "c = Overflow i" | used cap where "c = Queue i used cap True" "cap \<noteq> 0"
      "int QUEUE_CONGEST_PCT \<le> queue_trend (sample_queue (v_agg v) now used cap (v_ctrl v ! i))"
    by (auto simp: congested_call_def)
  then show ?thesis
  proof cases
    case 1
    obtain v' where r: "video_rate_ctrl_report_overflow now now2 (Some i) v = v'" by blast
    from r have "rc_q_next_eval (v_ctrl v' ! i) = now + vrate_level_eval_period_us (v_agg v) \<and> length (v_ctrl v') = VIDEO_RATE_CTRL_MAX"
    proof (cases rule: report_overflow_cases)
      case (down moved v2)
      show ?thesis unfolding down(5) using step_down_next_eval[OF down(4)] step_down_length[OF down(4)] l assms(1) by simp
    qed (use assms in auto)
    then show ?thesis using 1 r by simp
  next
    case (2 used cap)
    obtain v' where r: "video_rate_ctrl_report_queue True now now2 (Some i) used cap v = v'" by blast
    let ?c1 = "(stamp_report now (v_ctrl v ! i))\<lparr>rc_q_used := used, rc_q_cap := cap\<rparr>"
    have tr: "queue_trend (sample_queue a now used cap ?c1) = queue_trend (sample_queue (v_agg v) now used cap (v_ctrl v ! i))" for a
      by (rule queue_trend_sample) (simp_all add: stamp_report_def)
    have sq: "rc_q_next_eval (sample_queue a now used cap h) = now + vrate_level_eval_period_us a" for a h
      by (simp add: sample_queue_def Let_def)
    from r l have "rc_q_next_eval (v_ctrl v' ! i) = now + vrate_level_eval_period_us (v_agg v) \<and> length (v_ctrl v') = VIDEO_RATE_CTRL_MAX"
    proof (cases rule: report_queue_cases)
      case (down jump moved v3)
      have "vrate_level_eval_period_us (v_agg (rearbitrate_if b now (put_ctrl i h v))) = vrate_level_eval_period_us (v_agg v)" for b h
        by (simp add: vrate_level_eval_period_us_def rearbitrate_period)
      then show ?thesis unfolding down(9) using step_down_next_eval[OF down(8)] step_down_length[OF down(8)] l assms(1) sq by simp
    qed (use assms 2 tr in auto)
    then show ?thesis using 2 r by simp
  qed
qed

text \<open>
  One step down per actuation period. A controller whose queue is evaluated and found congested, or that
  overflows when an evaluation is due, keeps the rung that call leaves it on for the whole time a change
  needs to reach the encoder, whatever queue samples and overflows come from any sink meanwhile.
\<close>

theorem one_step_per_actuation_period:
  assumes "length (v_ctrl v) = VIDEO_RATE_CTRL_MAX" "i < VIDEO_RATE_CTRL_MAX" "v_lock v" "reportable v i"
    "rc_q_next_eval (v_ctrl v ! i) \<le> now" "congested_call now v i c" "vrate_do now now2 c v = v1"
    and "vrate_runs queue_call v1 now2 cs v2 t" "t < now + vrate_level_eval_period_us (v_agg v)"
  shows "rc_level (v_ctrl v2 ! i) = rc_level (v_ctrl v1 ! i) \<and> rc_target_fps (v_ctrl v2 ! i) = rc_target_fps (v_ctrl v1 ! i) \<and>
    rc_target_bps (v_ctrl v2 ! i) = rc_target_bps (v_ctrl v1 ! i)"
  using queue_runs_same_rung[OF assms(8) _ assms(2)] congested_arms[OF assms(1-6), of now2] assms(7,9)
  by (simp add: same_rung_def)

text \<open>Two overflows two seconds apart on an encoder that takes thirty seconds to change.\<close>

definition slow_actuator :: vrate where
  "slow_actuator = vrate_do 3000000 3000000 (Set_period 30000) two_sinks"

theorem one_step_per_actuation_period_witness:
  "rc_level (v_ctrl (vrate_do 7000000 7000000 (Overflow 0) (vrate_do 5000000 5000000 (Overflow 0) slow_actuator)) ! 0) = 5"
proof -
  let ?v1 = "vrate_do 5000000 5000000 (Overflow 0) slow_actuator"
  have f: "length (v_ctrl slow_actuator) = VIDEO_RATE_CTRL_MAX" "v_lock slow_actuator" "reportable slow_actuator 0"
    "rc_q_next_eval (v_ctrl slow_actuator ! 0) \<le> 5000000" "vrate_level_eval_period_us (v_agg slow_actuator) = 30000000"
    by (simp_all add: slow_actuator_def two_sinks_value video_rate_ctrl_set_actuation_period_ms_def reportable_def
        vrate_consts vrate_level_eval_period_us_def)
  have l: "rc_level (v_ctrl ?v1 ! 0) = 5" unfolding slow_actuator_def two_sinks_value by code_simp
  have r: "vrate_runs queue_call ?v1 5000000 ([] @ [Overflow 0]) (vrate_do 7000000 7000000 (Overflow 0) ?v1) 7000000"
    by (rule runs_call[OF runs_none]) (simp_all add: vrate_consts)
  show ?thesis
    using one_step_per_actuation_period[OF f(1) _ f(2-4) _ refl r] f(5) l by (simp add: congested_call_def vrate_consts)
qed

end
