(* ===== verification/Rate_Recovery.thy ===== *)
theory Rate_Recovery
  imports Rate_Pace
begin

text \<open>How a controller comes back up the ladder, and how far down overflows take it.\<close>

section \<open>The bar of a congested rung\<close>

text \<open>The calls of a running system: reports of any kind and network estimates, with the encoder side polling.\<close>

fun report_call :: "vrate_call \<Rightarrow> bool" where
  "report_call (Send_ms i ms) = True"
| "report_call (Queue i used cap got) = True"
| "report_call (Overflow i) = True"
| "report_call (Ceiling i bps) = True"
| "report_call Pull_pin = True"
| "report_call (Pull_bitrate got) = True"
| "report_call (Encoder_stats got) = True"
| "report_call (Committed bps) = True"
| "report_call (Set_period ms) = True"
| "report_call _ = False"

text \<open>The frame rate is not pinned, and the operating points are those of \<open>a\<close>.\<close>

definition points_of :: "encoder \<Rightarrow> encoder \<Rightarrow> bool" where
  "points_of a b \<longleftrightarrow> ag_inited b = ag_inited a \<and> ag_fps_actuable b = ag_fps_actuable a \<and>
     ag_camera_fps b = ag_camera_fps a \<and> ag_width b = ag_width a \<and> ag_height b = ag_height a \<and>
     ag_max_bps b = ag_max_bps a \<and> ag_min_bps b = ag_min_bps a \<and>
     ag_bitrate_actuable b = ag_bitrate_actuable a \<and> ag_pin_wanted b = ag_pin_wanted a \<and> ag_pinned b = ag_pinned a"

definition unpinned :: "encoder \<Rightarrow> bool" where
  "unpinned a \<longleftrightarrow> \<not> ag_pinned a \<and> \<not> ag_pin_wanted a"

lemma points_of_refl [simp]: "points_of a a"
  by (simp add: points_of_def)

lemma points_ofD:
  assumes "points_of a b"
  shows "ag_pinned b = ag_pinned a" "ag_pin_wanted b = ag_pin_wanted a" "ag_inited b = ag_inited a"
    "vrate_inert b = vrate_inert a" "vrate_rung_fps b = vrate_rung_fps a" "vrate_floor_bps b = vrate_floor_bps a"
    "vrate_rung_bitrate b = vrate_rung_bitrate a" "vrate_deepest_useful_level b = vrate_deepest_useful_level a"
    "ag_max_bps b = ag_max_bps a"
proof -
  note b = assms[unfolded points_of_def]
  show "ag_pinned b = ag_pinned a" "ag_pin_wanted b = ag_pin_wanted a" "ag_inited b = ag_inited a"
    "vrate_inert b = vrate_inert a" "ag_max_bps b = ag_max_bps a" using b by (simp_all add: vrate_inert_def)
  have pf: "vrate_pinned_floor_raw b = vrate_pinned_floor_raw a" using b by (simp add: vrate_pinned_floor_raw_def Let_def)
  show fps: "vrate_rung_fps b = vrate_rung_fps a" using b by (simp add: fun_eq_iff vrate_rung_fps_def Let_def)
  have "vrate_resolution_floor_bps b = vrate_resolution_floor_bps a" using b by (simp add: vrate_resolution_floor_bps_def Let_def)
  then show fl: "vrate_floor_bps b = vrate_floor_bps a" using b pf by (simp add: vrate_floor_bps_def Let_def)
  show bps: "vrate_rung_bitrate b = vrate_rung_bitrate a"
    using fl b by (simp add: fun_eq_iff vrate_rung_bitrate_def Let_def)
  have "deepest_loop b l = deepest_loop a l" for l by (induction l) (simp_all add: fps bps)
  then show "vrate_deepest_useful_level b = vrate_deepest_useful_level a" by (simp add: vrate_deepest_useful_level_def)
qed

lemma points_of_upd [simp]: "points_of a (b\<lparr>ag_requested := r\<rparr>) = points_of a b"
  "points_of a (b\<lparr>ag_committed := c\<rparr>) = points_of a b" "points_of a (b\<lparr>ag_period_ms := p\<rparr>) = points_of a b"
  by (simp_all add: points_of_def)

lemma points_of_rearbitrate:
  assumes "points_of a (v_agg v)" "unpinned a"
  shows "points_of a (v_agg (vrate_rearbitrate now v))"
proof -
  have "\<not> ag_pin_wanted (v_agg v)" using points_ofD[OF assms(1)] assms(2) by (simp add: unpinned_def)
  then have "reassert_pin now b v = v" for b by (simp add: reassert_pin_def Let_def)
  then show ?thesis using assms(1)
    by (simp add: vrate_rearbitrate_def request_bitrate_def Let_def)
qed

text \<open>A controller that has congested on rung \<open>l\<close> at time \<open>t\<close> and has not come back to it.\<close>

definition barred :: "encoder \<Rightarrow> nat \<Rightarrow> int \<Rightarrow> controller \<Rightarrow> bool" where
  "barred a l t h \<longleftrightarrow> min (Suc l) (LADDER_N - 1) \<le> rc_probe_bar_level h \<and> t \<le> rc_probe_bar_us h \<and>
     min (Suc l) (vrate_deepest_useful_level a) \<le> rc_level h"

definition bar_inv :: "encoder \<Rightarrow> nat \<Rightarrow> nat \<Rightarrow> int \<Rightarrow> vrate \<Rightarrow> bool" where
  "bar_inv a i l t v \<longleftrightarrow> length (v_ctrl v) = VIDEO_RATE_CTRL_MAX \<and> points_of a (v_agg v) \<and> barred a l t (v_ctrl v ! i)"

lemma barred_fields:
  "rc_level h' = rc_level h \<Longrightarrow> rc_probe_bar_level h' = rc_probe_bar_level h \<Longrightarrow> rc_probe_bar_us h' = rc_probe_bar_us h \<Longrightarrow>
   barred a l t h' = barred a l t h"
  by (simp add: barred_def)

lemma barred_stamp [simp]:
  "barred a l t (stamp_report now h) = barred a l t h" "barred a l t (stamp_send now ms h) = barred a l t h"
  "barred a l t (stamp_overflow now h) = barred a l t h" "barred a l t (sample_queue e now u c h) = barred a l t h"
  "barred a l t (vrate_reset_healthy h) = barred a l t h" "barred a l t (h\<lparr>rc_q_next_eval := q\<rparr>) = barred a l t h"
  "barred a l t (h\<lparr>rc_q_used := n, rc_q_cap := m\<rparr>) = barred a l t h" "barred a l t (h\<lparr>rc_stale := s\<rparr>) = barred a l t h"
  "barred a l t (h\<lparr>rc_net_ceiling := n\<rparr>) = barred a l t h"
  by (rule barred_fields; simp add: stamp_report_def stamp_send_def stamp_overflow_def sample_queue_def
      vrate_reset_healthy_def Let_def)+

lemma barred_raise: "barred a l t h \<Longrightarrow> t \<le> now \<Longrightarrow> barred a l t (raise_bar now h)"
  by (auto simp: barred_def raise_bar_def LADDER_N_def)

lemma clamp_ge:
  "points_of a b \<Longrightarrow> min (Suc l) (vrate_deepest_useful_level a) \<le> m \<Longrightarrow>
   min (Suc l) (vrate_deepest_useful_level a) \<le> clamp_level b h m"
  using points_ofD(8)[of a b] by (simp add: clamp_level_min)

lemma barred_apply:
  "barred a l t h \<Longrightarrow> points_of a b \<Longrightarrow> min (Suc l) (vrate_deepest_useful_level a) \<le> m \<Longrightarrow>
   barred a l t (vrate_apply_level b m h)"
  using clamp_ge[of a b l m h] by (simp add: barred_def)

lemma barred_mark_healthy:
  assumes "barred a l t h" "points_of a b" "now < t + PROBE_BAR_DECAY_MS * 1000"
    "vrate_mark_healthy b now h = (moved, h')"
  shows "barred a l t h'"
proof -
  let ?h0 = "if rc_healthy_since h = 0 then h\<lparr>rc_healthy_since := now, rc_healthy_reports := rc_reports h\<rparr> else h"
  have h0: "barred a l t ?h0" using assms(1) by (simp add: barred_def)
  have h2: "decay_bar now (vrate_reset_healthy ?h0) = vrate_reset_healthy ?h0"
    using assms(1,3) by (auto simp: decay_bar_def barred_def)
  from assms(4) show ?thesis
  proof (cases rule: mark_healthy_cases)
    case early
    then show ?thesis using h0 by simp
  next
    case top
    then show ?thesis using h0 h2 by auto
  next
    case climb
    let ?h2 = "vrate_reset_healthy ?h0"
    have bar: "barred a l t ?h2" using h0 by simp
    have "rc_probe_bar_level ?h2 \<le> recover_level ?h2" by (simp add: recover_level_def Let_def)
    then have "min (Suc l) (vrate_deepest_useful_level a) \<le> recover_level ?h2"
      using bar deepest_lt[of a] unfolding barred_def LADDER_N_def by linarith
    then show ?thesis unfolding climb(4) h2 by (rule barred_apply[OF bar assms(2)])
  qed
qed

lemma bar_put:
  "bar_inv a i l t v \<Longrightarrow> i < VIDEO_RATE_CTRL_MAX \<Longrightarrow> (j = i \<Longrightarrow> barred a l t h) \<Longrightarrow> bar_inv a i l t (put_ctrl j h v)"
  by (simp add: bar_inv_def put_ctrl_nth)

lemma bar_rearbitrate_if: "bar_inv a i l t v \<Longrightarrow> unpinned a \<Longrightarrow> bar_inv a i l t (rearbitrate_if b now v)"
  by (simp add: bar_inv_def rearbitrate_if_def points_of_rearbitrate)

lemma bar_step_down:
  assumes "bar_inv a i l t v" "unpinned a" "i < VIDEO_RATE_CTRL_MAX" "j < VIDEO_RATE_CTRL_MAX" "t \<le> now"
    "vrate_step_down now j jump v = (moved, v')"
  shows "bar_inv a i l t v'"
proof -
  have nopin: "\<not> ag_pinned (v_agg v)" using assms(1,2) by (auto simp: bar_inv_def unpinned_def dest: points_ofD(1))
  have lv: "j = i \<Longrightarrow> barred a l t (v_ctrl v ! i)" using assms(1) by (simp add: bar_inv_def)
  from assms(6) show ?thesis
  proof (cases rule: step_down_cases)
    case inert
    then show ?thesis using bar_put[OF assms(1,3)] lv by auto
  next
    case bottom
    then show ?thesis using bar_put[OF assms(1,3)] lv barred_raise[OF _ assms(5)] by auto
  next
    case (last w)
    have "w = v" by (rule last(6)[OF nopin])
    then show ?thesis unfolding last(4) using bar_put[OF assms(1,3)] lv barred_raise[OF _ assms(5)] by auto
  next
    case (step w)
    let ?h = "raise_bar now (vrate_reset_healthy (v_ctrl v ! j))"
    have w: "w = v" using step(5,6) nopin by auto
    have p: "points_of a (v_agg v)" using assms(1) by (simp add: bar_inv_def)
    show ?thesis unfolding step(3) w
    proof (rule bar_put[OF assms(1,3)])
      assume "j = i"
      then have b: "barred a l t ?h" using lv barred_raise[OF _ assms(5)] by simp
      show "barred a l t (vrate_apply_level (v_agg v) (min (rc_level ?h + jump) (LADDER_N - 1)) ?h)"
        by (rule barred_apply[OF b p]) (use b deepest_lt[of a] in \<open>simp add: barred_def LADDER_N_def\<close>)
    qed
  qed
qed

lemma bar_expire:
  assumes "bar_inv a i l t v" "unpinned a" "i < VIDEO_RATE_CTRL_MAX"
  shows "bar_inv a i l t (vrate_expire_if_due got now v)"
proof -
  let ?f = "\<lambda>h. if rc_in_use h \<and> rc_enabled h \<and> \<not> rc_stale h \<and> vrate_is_stale now h then h\<lparr>rc_stale := True\<rparr> else h"
  have "bar_inv a i l t (v\<lparr>v_ctrl := map ?f (v_ctrl v)\<rparr>)" using assms(1,3) by (simp add: bar_inv_def)
  then have "bar_inv a i l t (rearbitrate_if True now (v\<lparr>v_ctrl := map ?f (v_ctrl v)\<rparr>))"
    by (rule bar_rearbitrate_if[OF _ assms(2)])
  then show ?thesis using assms(1) by (simp add: vrate_expire_if_due_def rearbitrate_if_def)
qed

lemma bar_report:
  assumes "bar_inv a i l t v" "unpinned a" "i < VIDEO_RATE_CTRL_MAX" "t \<le> now" "now \<le> now2"
    "now < t + PROBE_BAR_DECAY_MS * 1000" "call_ok c" "report_call c"
  shows "bar_inv a i l t (vrate_do now now2 c v)"
proof (cases c)
  case (Send_ms j ms)
  then have j: "j < VIDEO_RATE_CTRL_MAX" using assms(7) by simp
  have put: "bar_inv a i l t (put_ctrl j h v)" if "j = i \<Longrightarrow> barred a l t (v_ctrl v ! i) \<Longrightarrow> barred a l t h" for h
    using bar_put[OF assms(1,3)] that assms(1) by (simp add: bar_inv_def)
  obtain v' where r: "video_rate_ctrl_report_send_ms now now2 (Some j) ms v = v'" by blast
  from r have "bar_inv a i l t v'"
  proof (cases rule: report_send_cases)
    case (down jump moved v2)
    show ?thesis unfolding down(5)
      by (rule bar_rearbitrate_if[OF bar_step_down[OF put assms(2,3) j _ down(4)] assms(2)]) (use assms in auto)
  next
    case (up moved c2)
    show ?thesis unfolding up(4)
      by (rule bar_rearbitrate_if[OF put assms(2)])
        (use barred_mark_healthy[OF _ _ assms(6) up(3)] assms(1) in \<open>simp add: bar_inv_def\<close>)
  next
    case hold
    show ?thesis unfolding hold(3) by (rule bar_rearbitrate_if[OF put assms(2)]) simp
  qed (use assms(1) in simp)
  then show ?thesis using r Send_ms by simp
next
  case (Queue j used cap got)
  then have j: "j < VIDEO_RATE_CTRL_MAX" using assms(7) by simp
  have lj: "j < length (v_ctrl v)" using j assms(1) by (simp add: bar_inv_def)
  define c1 where "c1 = (stamp_report now (v_ctrl v ! j))\<lparr>rc_q_used := used, rc_q_cap := cap\<rparr>"
  define v2 where "v2 = rearbitrate_if (was_stale now (v_ctrl v ! j)) now (put_ctrl j c1 v)"
  have v2: "bar_inv a i l t v2" unfolding v2_def
    by (rule bar_rearbitrate_if[OF bar_put[OF assms(1,3)] assms(2)]) (use assms(1) in \<open>simp add: c1_def bar_inv_def\<close>)
  have c1: "j = i \<Longrightarrow> barred a l t c1" using assms(1) by (simp add: c1_def bar_inv_def)
  note put = bar_put[OF v2 assms(3)]
  obtain v' where r: "video_rate_ctrl_report_queue got now now2 (Some j) used cap v = v'" by blast
  from r lj have "bar_inv a i l t v'" unfolding c1_def[symmetric] v2_def[symmetric]
  proof (cases rule: report_queue_cases)
    case waiting
    then show ?thesis using v2 by (simp add: v2_def c1_def)
  next
    case (down jump moved v3)
    show ?thesis unfolding down(9)
      by (rule bar_rearbitrate_if[OF bar_step_down[OF put assms(2,3) j _ down(8)[folded c1_def, folded v2_def]] assms(2)])
        (use assms c1 in auto)
  next
    case (up moved c2)
    have b: "j = i \<Longrightarrow> barred a l t c2"
      using barred_mark_healthy[OF _ _ assms(6) up(5)[folded c1_def, folded v2_def]] v2 c1 by (simp add: bar_inv_def)
    show ?thesis unfolding up(6) by (fold c1_def, fold v2_def, rule bar_rearbitrate_if[OF put assms(2)]) (use b in simp)
  next
    case hold
    show ?thesis unfolding hold(5) by (fold c1_def, fold v2_def, rule put) (use c1 in simp)
  qed (use assms(1) in simp)
  then show ?thesis using r Queue by simp
next
  case (Overflow j)
  then have j: "j < VIDEO_RATE_CTRL_MAX" using assms(7) by simp
  have put: "bar_inv a i l t (put_ctrl j h v)" if "j = i \<Longrightarrow> barred a l t (v_ctrl v ! i) \<Longrightarrow> barred a l t h" for h
    using bar_put[OF assms(1,3)] that assms(1) by (simp add: bar_inv_def)
  obtain v' where r: "video_rate_ctrl_report_overflow now now2 (Some j) v = v'" by blast
  from r have "bar_inv a i l t v'"
  proof (cases rule: report_overflow_cases)
    case (down moved v2)
    show ?thesis unfolding down(5)
      by (rule bar_rearbitrate_if[OF bar_step_down[OF put assms(2,3) j _ down(4)] assms(2)]) (use assms in auto)
  next
    case held
    show ?thesis unfolding held(4) by (rule bar_rearbitrate_if[OF put assms(2)]) simp
  qed (use assms(1) in simp)
  then show ?thesis using r Overflow by simp
next
  case (Ceiling j bps)
  have p: "points_of a (v_agg v)" and b: "barred a l t (v_ctrl v ! i)" using assms(1) by (simp_all add: bar_inv_def)
  let ?c = "(v_ctrl v ! j)\<lparr>rc_net_ceiling := bps\<rparr>"
  have "bar_inv a i l t (put_ctrl j (vrate_apply_level (v_agg v) (rc_level (v_ctrl v ! j)) ?c) v)"
  proof (rule bar_put[OF assms(1,3)])
    assume "j = i"
    then show "barred a l t (vrate_apply_level (v_agg v) (rc_level (v_ctrl v ! j)) ?c)"
      using b by (intro barred_apply[OF _ p]) (simp_all add: barred_def)
  qed
  moreover have "bar_inv a i l t (put_ctrl j ?c v)" by (rule bar_put[OF assms(1,3)]) (use b in simp)
  ultimately show ?thesis using Ceiling assms(1) bar_rearbitrate_if[OF _ assms(2), of _ _ _ _ True]
    by (simp add: video_rate_ctrl_set_network_ceiling_bps_def Let_def rearbitrate_if_def)
next
  case (Pull_bitrate got)
  then show ?thesis using bar_expire[OF assms(1-3)] by (simp add: video_rate_ctrl_pull_bitrate_bps_def Let_def bar_inv_def)
next
  case (Encoder_stats got)
  then show ?thesis using bar_expire[OF assms(1-3)] assms(1) by (simp add: video_rate_ctrl_get_encoder_stats_def Let_def)
qed (use assms in \<open>simp_all add: bar_inv_def video_rate_ctrl_pull_fps_pin_def video_rate_ctrl_report_committed_bitrate_bps_def
    video_rate_ctrl_set_actuation_period_ms_def\<close>)

lemma bar_runs:
  assumes "vrate_runs report_call v t0 cs v' t'" "bar_inv a i l t0 v" "unpinned a" "i < VIDEO_RATE_CTRL_MAX"
    "t' < t0 + PROBE_BAR_DECAY_MS * 1000"
  shows "bar_inv a i l t0 v'"
  using assms(1,5)
proof (induction rule: vrate_runs.induct)
  case (runs_call cs v1 t1 now now2 c)
  have "t0 \<le> now" using runs_time[OF runs_call(1)] runs_call(2) by simp
  then show ?case using runs_call by (intro bar_report[OF _ assms(3,4)]) auto
qed (use assms(2) in simp)

text \<open>
  C14: no return to a rung that congested. When a controller is stepped down from a rung and the frame rate is
  not pinned, nothing that sinks report in the next minute (slow or fast sends, queues, overflows, network
  estimates, from any of them) takes it back to that rung or a better one; a controller already on the
  deepest useful rung stays there.
\<close>

theorem congested_rung_is_barred:
  assumes "length (v_ctrl v) = VIDEO_RATE_CTRL_MAX" "i < VIDEO_RATE_CTRL_MAX" "unpinned (v_agg v)" "\<not> vrate_inert (v_agg v)"
    and "vrate_step_down now i jump v = (moved, v1)" "0 < jump"
    and "vrate_runs report_call v1 now cs v2 t" "t < now + PROBE_BAR_DECAY_MS * 1000"
  shows "rc_level (v_ctrl v ! i) < rc_level (v_ctrl v2 ! i) \<or>
    vrate_deepest_useful_level (v_agg v) \<le> rc_level (v_ctrl v2 ! i)"
proof -
  let ?l = "rc_level (v_ctrl v ! i)" and ?h = "raise_bar now (vrate_reset_healthy (v_ctrl v ! i))"
  let ?d = "vrate_deepest_useful_level (v_agg v)"
  have nopin: "\<not> ag_pinned (v_agg v)" using assms(3) by (simp add: unpinned_def)
  have bar: "min (Suc ?l) (LADDER_N - 1) \<le> rc_probe_bar_level ?h" "now \<le> rc_probe_bar_us ?h"
    by (auto simp: raise_bar_def LADDER_N_def)
  have li: "i < length (v_ctrl v)" using assms(1,2) by simp
  have put: "bar_inv (v_agg v) i ?l now (put_ctrl i g v)"
    if "rc_probe_bar_level g = rc_probe_bar_level ?h" "rc_probe_bar_us g = rc_probe_bar_us ?h" "min (Suc ?l) ?d \<le> rc_level g" for g
    using that bar assms(1) li by (simp add: bar_inv_def barred_def)
  from assms(5) have "bar_inv (v_agg v) i ?l now v1"
  proof (cases rule: step_down_cases)
    case inert
    then show ?thesis using assms(4) by simp
  next
    case bottom
    show ?thesis unfolding bottom(5) by (rule put) (use bottom(2) in auto)
  next
    case (last w)
    have w: "w = v" by (rule last(6)[OF nopin])
    show ?thesis unfolding last(4) w by (rule put) (use last(2) deepest_lt[of "v_agg v"] in auto)
  next
    case (step w)
    have w: "w = v" using step(5,6) nopin by auto
    let ?m = "min (rc_level ?h + jump) (LADDER_N - 1)"
    have "?d \<le> 7" using deepest_lt[of "v_agg v"] by (simp add: LADDER_N_def)
    then have "min (Suc ?l) ?d \<le> ?l + jump" "min (Suc ?l) ?d \<le> 7" using assms(6) by linarith+
    then have "min (Suc ?l) ?d \<le> ?m" by (simp add: LADDER_N_def)
    then have "min (Suc ?l) ?d \<le> clamp_level (v_agg v) ?h ?m" by (rule clamp_ge[OF points_of_refl])
    then show ?thesis unfolding step(3) w by (intro put) simp_all
  qed
  then have "bar_inv (v_agg v) i ?l now v2" using bar_runs[OF assms(7) _ assms(3,2,8)] by blast
  then show ?thesis by (auto simp: bar_inv_def barred_def)
qed

theorem congested_rung_is_barred_witness:
  "let v1 = snd (vrate_step_down 4000000 0 1 two_sinks);
       v2 = vrate_do 20000000 20000000 (Send_ms 0 1) v1
   in rc_level (v_ctrl two_sinks ! 0) < rc_level (v_ctrl v2 ! 0) \<or>
      vrate_deepest_useful_level (v_agg two_sinks) \<le> rc_level (v_ctrl v2 ! 0)"
proof -
  let ?v1 = "snd (vrate_step_down 4000000 0 1 two_sinks)"
  have f: "length (v_ctrl two_sinks) = VIDEO_RATE_CTRL_MAX" "unpinned (v_agg two_sinks)" "\<not> vrate_inert (v_agg two_sinks)"
    by (simp_all add: two_sinks_value unpinned_def vrate_inert_def vrate_consts)
  obtain m where s: "vrate_step_down 4000000 0 1 two_sinks = (m, ?v1)" by (metis prod.collapse)
  have r: "vrate_runs report_call ?v1 4000000 ([] @ [Send_ms 0 1]) (vrate_do 20000000 20000000 (Send_ms 0 1) ?v1) 20000000"
    by (rule runs_call[OF runs_none]) (simp_all add: vrate_consts is_u32_def)
  show ?thesis unfolding Let_def
    by (rule congested_rung_is_barred[OF f(1) _ f(2,3) s _ r]) (simp_all add: vrate_consts)
qed

end
