(* ===== verification/Rate_Dwell.thy ===== *)
theory Rate_Dwell
  imports Rate_Recovery
begin

text \<open>
  How far overflows that persist take a controller, and how long a controller has to be healthy before it
  wins a rung back.
\<close>

section \<open>Overflows that persist\<close>

definition overflow_storm :: "nat \<Rightarrow> int list \<Rightarrow> vrate \<Rightarrow> vrate" where
  "overflow_storm i ts v = fold (\<lambda>now. video_rate_ctrl_report_overflow now now (Some i)) ts v"

text \<open>The first time is not before \<open>q\<close>, and each one at least \<open>p\<close> after the one before.\<close>

fun spaced :: "int \<Rightarrow> int \<Rightarrow> int list \<Rightarrow> bool" where
  "spaced p q [] \<longleftrightarrow> True"
| "spaced p q (t # ts) \<longleftrightarrow> q \<le> t \<and> spaced p (t + p) ts"

lemma rearbitrate_points: "points_of a (v_agg v) \<Longrightarrow> unpinned a \<Longrightarrow> points_of a (v_agg (rearbitrate_if b now v))"
  by (simp add: rearbitrate_if_def points_of_rearbitrate)

lemma step_down_descends:
  assumes "vrate_step_down now i jump v = (moved, v')" "i < length (v_ctrl v)" "\<not> ag_pinned (v_agg v)" "\<not> vrate_inert (v_agg v)"
    "0 < jump"
  shows "v_agg v' = v_agg v \<and> v_lock v' = v_lock v \<and>
    min (rc_level (v_ctrl v ! i) + jump) (vrate_deepest_useful_level (v_agg v)) \<le> rc_level (v_ctrl v' ! i) \<and>
    (rc_level (v_ctrl v ! i) \<le> vrate_deepest_useful_level (v_agg v) \<longrightarrow>
       rc_level (v_ctrl v' ! i) \<le> vrate_deepest_useful_level (v_agg v)) \<and>
    rc_in_use (v_ctrl v' ! i) = rc_in_use (v_ctrl v ! i) \<and> rc_enabled (v_ctrl v' ! i) = rc_enabled (v_ctrl v ! i)"
  using assms(1)
proof (cases rule: step_down_cases)
  case inert
  then show ?thesis using assms by simp
next
  case bottom
  then show ?thesis using assms(2) by simp
next
  case (last w)
  then show ?thesis using assms(2,3) deepest_lt[of "v_agg v"] by auto
next
  case (step w)
  have w: "w = v" using step(5,6) assms(3) by auto
  let ?h = "raise_bar now (vrate_reset_healthy (v_ctrl v ! i))" and ?d = "vrate_deepest_useful_level (v_agg v)"
  let ?m = "min (rc_level ?h + jump) (LADDER_N - 1)"
  have "min (rc_level ?h + jump) ?d \<le> clamp_level (v_agg v) ?h ?m"
    using deepest_lt[of "v_agg v"] by (auto simp: clamp_level_min LADDER_N_def)
  moreover have "clamp_level (v_agg v) ?h ?m \<le> ?d" by (simp add: clamp_level_min)
  ultimately show ?thesis using assms(2) w step(3) by simp
qed

lemma overflow_descends:
  assumes "length (v_ctrl v) = VIDEO_RATE_CTRL_MAX" "i < VIDEO_RATE_CTRL_MAX" "v_lock v" "reportable v i"
    "unpinned (v_agg v)" "\<not> vrate_inert (v_agg v)" "rc_q_next_eval (v_ctrl v ! i) \<le> now"
    "video_rate_ctrl_report_overflow now now (Some i) v = v'"
  shows "length (v_ctrl v') = VIDEO_RATE_CTRL_MAX \<and> v_lock v' \<and> reportable v' i \<and> points_of (v_agg v) (v_agg v') \<and>
    vrate_level_eval_period_us (v_agg v') = vrate_level_eval_period_us (v_agg v) \<and>
    rc_q_next_eval (v_ctrl v' ! i) = now + vrate_level_eval_period_us (v_agg v) \<and>
    min (rc_level (v_ctrl v ! i) + 2) (vrate_deepest_useful_level (v_agg v)) \<le> rc_level (v_ctrl v' ! i) \<and>
    (rc_level (v_ctrl v ! i) \<le> vrate_deepest_useful_level (v_agg v) \<longrightarrow>
       rc_level (v_ctrl v' ! i) \<le> vrate_deepest_useful_level (v_agg v))"
proof -
  have li: "i < length (v_ctrl v)" using assms(1,2) by simp
  from assms(8) show ?thesis
  proof (cases rule: report_overflow_cases)
    case (down moved v2)
    let ?w = "put_ctrl i ((stamp_overflow now (v_ctrl v ! i))\<lparr>rc_q_next_eval := now + vrate_level_eval_period_us (v_agg v)\<rparr>) v"
    have pin: "\<not> ag_pinned (v_agg ?w)" "\<not> vrate_inert (v_agg ?w)" using assms(5,6) by (simp_all add: unpinned_def)
    have lw: "i < length (v_ctrl ?w)" using li by simp
    have s: "v_agg v2 = v_agg v" "v_lock v2 = v_lock v"
      "min (rc_level (v_ctrl v ! i) + 2) (vrate_deepest_useful_level (v_agg v)) \<le> rc_level (v_ctrl v2 ! i)"
      "rc_level (v_ctrl v ! i) \<le> vrate_deepest_useful_level (v_agg v) \<longrightarrow>
       rc_level (v_ctrl v2 ! i) \<le> vrate_deepest_useful_level (v_agg v)"
      "rc_in_use (v_ctrl v2 ! i) = rc_in_use (v_ctrl v ! i)" "rc_enabled (v_ctrl v2 ! i) = rc_enabled (v_ctrl v ! i)"
      using step_down_descends[OF down(4) lw pin] li by simp_all
    have q: "rc_q_next_eval (v_ctrl v2 ! i) = now + vrate_level_eval_period_us (v_agg v)"
      using step_down_next_eval[OF down(4) lw] li by simp
    have p: "points_of (v_agg v) (v_agg (rearbitrate_if b now v2))" for b
      by (rule rearbitrate_points[OF _ assms(5)]) (simp add: s)
    have per: "vrate_level_eval_period_us (v_agg (rearbitrate_if b now v2)) = vrate_level_eval_period_us (v_agg v)" for b
      by (simp add: vrate_level_eval_period_us_def rearbitrate_period s)
    have l2: "length (v_ctrl v2) = VIDEO_RATE_CTRL_MAX" using step_down_length[OF down(4)] assms(1) by simp
    have rep: "reportable (rearbitrate_if b now v2) i" for b
      using assms(4) s by (simp add: reportable_def)
    show ?thesis unfolding down(5) using p per rep q s(2-4) l2 assms(3) by simp
  qed (use assms in auto)
qed

lemma storm_descends:
  assumes "length (v_ctrl v) = VIDEO_RATE_CTRL_MAX" "i < VIDEO_RATE_CTRL_MAX" "v_lock v" "reportable v i"
    "unpinned (v_agg v)" "\<not> vrate_inert (v_agg v)" "rc_level (v_ctrl v ! i) \<le> vrate_deepest_useful_level (v_agg v)"
    "spaced (vrate_level_eval_period_us (v_agg v)) (rc_q_next_eval (v_ctrl v ! i)) ts"
  shows "min (rc_level (v_ctrl v ! i) + 2 * length ts) (vrate_deepest_useful_level (v_agg v)) \<le> rc_level (v_ctrl (overflow_storm i ts v) ! i) \<and>
    rc_level (v_ctrl (overflow_storm i ts v) ! i) \<le> vrate_deepest_useful_level (v_agg v)"
  using assms
proof (induction ts arbitrary: v)
  case Nil
  then show ?case by (simp add: overflow_storm_def)
next
  case (Cons now ts)
  let ?v = "video_rate_ctrl_report_overflow now now (Some i) v"
  have le: "rc_q_next_eval (v_ctrl v ! i) \<le> now" using Cons.prems(8) by simp
  note s = overflow_descends[OF Cons.prems(1-6) le refl]
  have p: "points_of (v_agg v) (v_agg ?v)" using s by blast
  have d: "vrate_deepest_useful_level (v_agg ?v) = vrate_deepest_useful_level (v_agg v)" by (rule points_ofD(8)[OF p])
  have u: "unpinned (v_agg ?v)" "\<not> vrate_inert (v_agg ?v)"
    using Cons.prems(5,6) points_ofD(1,2,4)[OF p] by (simp_all add: unpinned_def)
  have "min (rc_level (v_ctrl ?v ! i) + 2 * length ts) (vrate_deepest_useful_level (v_agg ?v))
      \<le> rc_level (v_ctrl (overflow_storm i ts ?v) ! i) \<and>
    rc_level (v_ctrl (overflow_storm i ts ?v) ! i) \<le> vrate_deepest_useful_level (v_agg ?v)"
    by (rule Cons.IH[OF _ Cons.prems(2) _ _ u]) (use s Cons.prems(7,8) d in simp_all)
  moreover have "overflow_storm i (now # ts) v = overflow_storm i ts ?v" by (simp add: overflow_storm_def)
  ultimately show ?case using s d by (auto simp: min_def split: if_splits)
qed

text \<open>
  C15: overflows that persist take a controller all the way down. Four overflows, each at least an actuation
  period after the one before, bring an enabled controller on any useful rung to the deepest useful one,
  however the period was set and whatever its network ceiling, as long as the frame rate is not pinned.
\<close>

theorem overflows_reach_the_bottom:
  assumes "length (v_ctrl v) = VIDEO_RATE_CTRL_MAX" "i < VIDEO_RATE_CTRL_MAX" "v_lock v" "reportable v i"
    "unpinned (v_agg v)" "\<not> vrate_inert (v_agg v)" "rc_level (v_ctrl v ! i) \<le> vrate_deepest_useful_level (v_agg v)"
    "spaced (vrate_level_eval_period_us (v_agg v)) (rc_q_next_eval (v_ctrl v ! i)) ts" "4 \<le> length ts"
  shows "rc_level (v_ctrl (overflow_storm i ts v) ! i) = vrate_deepest_useful_level (v_agg v)"
proof -
  have "vrate_deepest_useful_level (v_agg v) \<le> rc_level (v_ctrl v ! i) + 2 * length ts"
    using deepest_lt[of "v_agg v"] assms(9) by (simp add: LADDER_N_def)
  then show ?thesis using storm_descends[OF assms(1-8)] by (simp add: min_def split: if_splits)
qed

theorem overflows_reach_the_bottom_witness:
  "rc_level (v_ctrl (overflow_storm 0 [5000000, 5500000, 6000000, 6500000] two_sinks) ! 0) =
   vrate_deepest_useful_level (v_agg two_sinks)"
proof -
  have d: "vrate_deepest_useful_level (v_agg two_sinks) = 7" unfolding two_sinks_value by code_simp
  have f: "length (v_ctrl two_sinks) = VIDEO_RATE_CTRL_MAX" "v_lock two_sinks" "reportable two_sinks 0" "unpinned (v_agg two_sinks)"
    "\<not> vrate_inert (v_agg two_sinks)" "rc_level (v_ctrl two_sinks ! 0) = 3"
    "spaced (vrate_level_eval_period_us (v_agg two_sinks)) (rc_q_next_eval (v_ctrl two_sinks ! 0)) [5000000, 5500000, 6000000, 6500000]"
    by (simp_all add: two_sinks_value reportable_def unpinned_def vrate_inert_def vrate_level_eval_period_us_def vrate_consts)
  show ?thesis
    using overflows_reach_the_bottom[OF f(1) _ f(2-5) _ f(7)] f(6) d by (simp add: VIDEO_RATE_CTRL_MAX_def)
qed

section \<open>Winning a rung back\<close>

lemma u32_bound [simp]: "u32 n < 4294967296"
  by (simp add: u32_def)

text \<open>Reports since the healthy stretch began, as the code counts them.\<close>

definition healthy_count :: "controller \<Rightarrow> nat" where
  "healthy_count h = u32 (rc_reports h + 4294967296 - rc_healthy_reports h)"

text \<open>The healthy stretch began at \<open>t\<close> or later and has seen at most \<open>n\<close> reports.\<close>

definition stretch :: "int \<Rightarrow> nat \<Rightarrow> controller \<Rightarrow> bool" where
  "stretch t n h \<longleftrightarrow> is_u32 (rc_reports h) \<and> is_u32 (rc_healthy_reports h) \<and>
     (rc_healthy_since h = 0 \<or> (t \<le> rc_healthy_since h \<and> healthy_count h \<le> n))"

lemma stretch_fields:
  "rc_reports h' = rc_reports h \<Longrightarrow> rc_healthy_reports h' = rc_healthy_reports h \<Longrightarrow>
   rc_healthy_since h' = rc_healthy_since h \<Longrightarrow> stretch t n h' = stretch t n h"
  by (simp add: stretch_def healthy_count_def)

lemma stretch_same [simp]:
  "stretch t n (vrate_apply_level a l h) = stretch t n h" "stretch t n (raise_bar now h) = stretch t n h"
  "stretch t n (sample_queue a now u c h) = stretch t n h" "stretch t n (h\<lparr>rc_q_next_eval := q\<rparr>) = stretch t n h"
  "stretch t n (h\<lparr>rc_q_used := x, rc_q_cap := y\<rparr>) = stretch t n h" "stretch t n (h\<lparr>rc_stale := s\<rparr>) = stretch t n h"
  "stretch t n (h\<lparr>rc_net_ceiling := x\<rparr>) = stretch t n h" "stretch t n (reapply P a h) = stretch t n h"
  "stretch t n (stamp_send now ms h) = stretch t n (stamp_report now h)"
  "stretch t n (stamp_overflow now h) = stretch t n (stamp_report now h)"
  by (rule stretch_fields; simp add: raise_bar_def sample_queue_def reapply_def stamp_send_def stamp_overflow_def
      stamp_report_def Let_def)+

lemma stretch_reset: "stretch t n h \<Longrightarrow> stretch t m (vrate_reset_healthy h)"
  by (simp add: stretch_def vrate_reset_healthy_def is_u32_def)

lemma stretch_mono: "stretch t n h \<Longrightarrow> n \<le> m \<Longrightarrow> stretch t m h"
  by (auto simp: stretch_def)

lemma count_stamp:
  assumes "is_u32 (rc_reports h)" "is_u32 (rc_healthy_reports h)"
  shows "healthy_count (stamp_report now h) \<le> Suc (healthy_count h)"
proof -
  have "healthy_count h = (if rc_healthy_reports h \<le> rc_reports h then rc_reports h - rc_healthy_reports h
      else rc_reports h + 4294967296 - rc_healthy_reports h)" if "is_u32 (rc_reports h)" "is_u32 (rc_healthy_reports h)" for h
  proof (cases "rc_healthy_reports h \<le> rc_reports h")
    case True
    then have "rc_reports h + 4294967296 - rc_healthy_reports h = (rc_reports h - rc_healthy_reports h) + 4294967296" by linarith
    moreover have "rc_reports h - rc_healthy_reports h < 4294967296" using that by (simp add: is_u32_def)
    ultimately show ?thesis unfolding healthy_count_def u32_def using True by (simp only: mod_add_self2 mod_less if_True)
  next
    case False
    then have "rc_reports h + 4294967296 - rc_healthy_reports h < 4294967296" by linarith
    then show ?thesis using False by (simp add: healthy_count_def u32_def)
  qed
  note count = this[OF assms] this[of "stamp_report now h"]
  show ?thesis
  proof (cases "rc_reports h + 1 < 4294967296")
    case True
    then have "rc_reports (stamp_report now h) = rc_reports h + 1" by (simp add: stamp_report_def u32_def)
    moreover have "rc_healthy_reports (stamp_report now h) = rc_healthy_reports h" by (simp add: stamp_report_def)
    ultimately show ?thesis using count True assms by (simp add: is_u32_def split: if_splits)
  next
    case False
    then have r: "rc_reports h = 4294967295" using assms(1) by (simp add: is_u32_def)
    then have "rc_reports (stamp_report now h) = 0" by (simp add: stamp_report_def u32_def)
    moreover have "rc_healthy_reports (stamp_report now h) = rc_healthy_reports h" by (simp add: stamp_report_def)
    ultimately show ?thesis using count r assms by (simp add: is_u32_def split: if_splits)
  qed
qed

lemma stretch_stamp: "stretch t n h \<Longrightarrow> stretch t (Suc n) (stamp_report now h)"
proof -
  assume s: "stretch t n h"
  have "is_u32 (rc_reports (stamp_report now h))" by (simp add: stamp_report_def is_u32_def)
  moreover have "rc_healthy_reports (stamp_report now h) = rc_healthy_reports h" by (simp add: stamp_report_def)
  ultimately show ?thesis using s count_stamp[of h now] by (auto simp: stretch_def)
qed

lemma stretch_mark_healthy:
  assumes "stretch t n h" "t \<le> now" "vrate_mark_healthy a now h = (moved, h')"
  shows "stretch t n h'"
proof -
  let ?h0 = "if rc_healthy_since h = 0 then h\<lparr>rc_healthy_since := now, rc_healthy_reports := rc_reports h\<rparr> else h"
  have h0: "stretch t n ?h0" using assms(1,2)
    by (cases "rc_healthy_since h = 0") (simp_all add: stretch_def healthy_count_def u32_def)
  have d: "stretch t n (decay_bar now g) = stretch t n g" for g by (rule stretch_fields) (simp_all add: decay_bar_def)
  from assms(3) show ?thesis
    by (cases rule: mark_healthy_cases) (use stretch_reset[OF h0] h0 in \<open>auto simp: d\<close>)
qed

lemma stretch_step_down:
  assumes "vrate_step_down now j jump v = (moved, v')" "i < length (v_ctrl v)" "stretch t n (v_ctrl v ! i)"
  shows "stretch t n (v_ctrl v' ! i)"
  using assms(1)
proof (cases rule: step_down_cases)
  case (last w)
  have "v_ctrl w = v_ctrl v" using last(5) by auto
  then show ?thesis unfolding last(4) using assms(2,3) stretch_reset by (simp add: put_ctrl_nth)
next
  case (step w)
  have "v_ctrl w = v_ctrl v" using step(5) by auto
  then show ?thesis unfolding step(3) using assms(2,3) stretch_reset by (simp add: put_ctrl_nth)
qed (use assms(2,3) stretch_reset in \<open>auto simp: put_ctrl_nth\<close>)

text \<open>The reports of controller \<open>i\<close>.\<close>

definition reports_of :: "nat \<Rightarrow> vrate_call \<Rightarrow> bool" where
  "reports_of i c \<longleftrightarrow> (\<exists>ms. c = Send_ms i ms) \<or> (\<exists>used cap got. c = Queue i used cap got) \<or> c = Overflow i"

definition stretch_inv :: "nat \<Rightarrow> int \<Rightarrow> nat \<Rightarrow> vrate \<Rightarrow> bool" where
  "stretch_inv i t n v \<longleftrightarrow> length (v_ctrl v) = VIDEO_RATE_CTRL_MAX \<and> stretch t n (v_ctrl v ! i)"

lemma stretch_inv_mono: "stretch_inv i t n v \<Longrightarrow> n \<le> m \<Longrightarrow> stretch_inv i t m v"
  by (auto simp: stretch_inv_def intro: stretch_mono)

lemma stretch_inv_put:
  "stretch_inv i t n v \<Longrightarrow> i < VIDEO_RATE_CTRL_MAX \<Longrightarrow> n \<le> m \<Longrightarrow> (j = i \<Longrightarrow> stretch t m h) \<Longrightarrow> stretch_inv i t m (put_ctrl j h v)"
  by (auto simp: stretch_inv_def put_ctrl_nth intro: stretch_mono)

lemma stretch_inv_ctrl: "stretch_inv i t n v \<Longrightarrow> v_ctrl w = v_ctrl v \<Longrightarrow> stretch_inv i t n w"
  by (simp add: stretch_inv_def)

lemma stretch_inv_rearbitrate [simp]: "stretch_inv i t n (vrate_rearbitrate now v) = stretch_inv i t n v"
  by (simp add: stretch_inv_def)

lemma stretch_inv_step_down:
  "stretch_inv i t n v \<Longrightarrow> i < VIDEO_RATE_CTRL_MAX \<Longrightarrow> vrate_step_down now j jump v = (moved, v') \<Longrightarrow> stretch_inv i t n v'"
  using stretch_step_down[of now j jump v moved v' i t n] step_down_length[of now j jump v moved v']
  by (simp add: stretch_inv_def)

lemma stretch_zero [simp]: "stretch t n (zero_controller\<lparr>rc_in_use := b, rc_enabled := e, rc_last_report := x, rc_name := s\<rparr>)"
  "stretch t n zero_controller"
  by (simp_all add: stretch_def zero_controller_def is_u32_def)

lemma stretch_signal: "stretch t n h \<Longrightarrow> stretch t n ((vrate_reset_signal h)\<lparr>rc_last_report := x, rc_stale := s\<rparr>)"
  by (simp add: stretch_def vrate_reset_signal_def is_u32_def)

lemma stretch_init_controller: "stretch t n h \<Longrightarrow> stretch t n (init_controller a now h)"
proof -
  assume s: "stretch t n h"
  have "stretch t n ((vrate_reset_signal h)\<lparr>rc_last_report := now, rc_stale := False, rc_probe_bar_level := 0, rc_probe_bar_us := now\<rparr>)"
    using s by (simp add: stretch_def vrate_reset_signal_def is_u32_def)
  then show ?thesis using s by (simp add: init_controller_def Let_def)
qed

lemma stretch_inv_map:
  "stretch_inv i t n v \<Longrightarrow> i < VIDEO_RATE_CTRL_MAX \<Longrightarrow> (\<And>h. stretch t n h \<Longrightarrow> stretch t n (f h)) \<Longrightarrow>
   v_ctrl w = map f (v_ctrl v) \<Longrightarrow> stretch_inv i t n w"
  by (simp add: stretch_inv_def)

lemma stretch_inv_report:
  assumes "stretch_inv i t n v" "i < VIDEO_RATE_CTRL_MAX" "t \<le> now" "call_ok c" "reports_of j c"
  shows "stretch_inv i t (if j = i then Suc n else n) (vrate_do now now2 c v)"
proof -
  let ?m = "if j = i then Suc n else n"
  have li: "stretch t n (v_ctrl v ! i)" "length (v_ctrl v) = VIDEO_RATE_CTRL_MAX" using assms(1) by (simp_all add: stretch_inv_def)
  have put: "stretch_inv i t ?m (put_ctrl j h v)" if "j = i \<Longrightarrow> stretch t (Suc n) h" for h
    by (rule stretch_inv_put[OF assms(1,2)]) (use that in auto)
  have st: "stretch t (Suc n) (stamp_report now (v_ctrl v ! j))" if "j = i" using stretch_stamp[OF li(1)] that by simp
  have re: "stretch_inv i t m w \<Longrightarrow> stretch_inv i t m (rearbitrate_if b now w)" for m w b
    by (rule stretch_inv_ctrl[of i t m w]) simp_all
  have same: "stretch_inv i t ?m v" by (rule stretch_inv_mono[OF assms(1)]) simp
  from assms(5) consider ms where "c = Send_ms j ms" | used cap got where "c = Queue j used cap got" | "c = Overflow j"
    by (auto simp: reports_of_def)
  then show ?thesis
  proof cases
    case (1 ms)
    obtain v' where r: "video_rate_ctrl_report_send_ms now now2 (Some j) ms v = v'" by blast
    from r have "stretch_inv i t ?m v'"
    proof (cases rule: report_send_cases)
      case (down jump moved v2)
      show ?thesis unfolding down(5) by (rule re[OF stretch_inv_step_down[OF put assms(2) down(4)]]) (use st in simp)
    next
      case (up moved c2)
      show ?thesis unfolding up(4) by (rule re[OF put]) (use stretch_mark_healthy[OF _ assms(3) up(3)] st in simp)
    next
      case hold
      show ?thesis unfolding hold(3) by (rule re[OF put]) (use st stretch_reset in simp)
    qed (use same in simp)
    then show ?thesis using 1 r by simp
  next
    case (2 used cap got)
    then have lj: "j < length (v_ctrl v)" using assms(4) li(2) by simp
    define c1 where "c1 = (stamp_report now (v_ctrl v ! j))\<lparr>rc_q_used := used, rc_q_cap := cap\<rparr>"
    define v2 where "v2 = rearbitrate_if (was_stale now (v_ctrl v ! j)) now (put_ctrl j c1 v)"
    have v2: "stretch_inv i t ?m v2" unfolding v2_def c1_def by (rule re[OF put]) (use st in simp)
    have c1: "j = i \<Longrightarrow> stretch t ?m c1" using st by (simp add: c1_def)
    note put2 = stretch_inv_put[OF v2 assms(2) order_refl]
    obtain v' where r: "video_rate_ctrl_report_queue got now now2 (Some j) used cap v = v'" by blast
    from r lj have "stretch_inv i t ?m v'" unfolding c1_def[symmetric] v2_def[symmetric]
    proof (cases rule: report_queue_cases)
      case waiting
      then show ?thesis using v2 by (simp add: v2_def c1_def)
    next
      case (down jump moved v3)
      show ?thesis unfolding down(9)
        by (rule re[OF stretch_inv_step_down[OF put2 assms(2) down(8)[folded c1_def, folded v2_def]]]) (use c1 in simp)
    next
      case (up moved c2)
      have b: "j = i \<Longrightarrow> stretch t ?m c2"
        using stretch_mark_healthy[OF _ assms(3) up(5)[folded c1_def, folded v2_def]] c1 by simp
      show ?thesis unfolding up(6) by (fold c1_def, fold v2_def, rule re[OF put2]) (use b in simp)
    next
      case hold
      show ?thesis unfolding hold(5) by (fold c1_def, fold v2_def, rule put2) (use c1 stretch_reset in simp)
    qed (use same in simp)
    then show ?thesis using 2 r by simp
  next
    case 3
    obtain v' where r: "video_rate_ctrl_report_overflow now now2 (Some j) v = v'" by blast
    from r have "stretch_inv i t ?m v'"
    proof (cases rule: report_overflow_cases)
      case (down moved v2)
      show ?thesis unfolding down(5) by (rule re[OF stretch_inv_step_down[OF put assms(2) down(4)]]) (use st in simp)
    next
      case held
      show ?thesis unfolding held(4) by (rule re[OF put]) (use st in simp)
    qed (use same in simp)
    then show ?thesis using 3 r by simp
  qed
qed

lemma stretch_inv_other:
  assumes "stretch_inv i t n v" "i < VIDEO_RATE_CTRL_MAX" "call_ok c" "\<forall>j. \<not> reports_of j c"
  shows "stretch_inv i t n (vrate_do now now2 c v)"
proof -
  note put = stretch_inv_put[OF assms(1,2) order_refl]
  note map = stretch_inv_map[OF assms(1,2)]
  have s: "stretch t n (v_ctrl v ! i)" using assms(1) by (simp add: stretch_inv_def)
  have li: "i < length (v_ctrl v)" using assms(1,2) by (simp add: stretch_inv_def)
  have lock: "v_ctrl v0 = v_ctrl v" if "vrate_lock_init ok v = (err, v0)" for ok err v0
    using that by (auto simp: vrate_lock_init_def split: if_splits)
  show ?thesis
  proof (cases c)
    case (Init fps bps w h act ok)
    obtain err v0 where l: "vrate_lock_init ok v = (err, v0)" by (cases "vrate_lock_init ok v")
    let ?a = "init_encoder fps bps w h act (v_agg v0)"
    have "stretch_inv i t n x" if "v_ctrl x = map (init_controller ?a now) (v_ctrl v)" for x
      by (rule map[OF stretch_init_controller that])
    then show ?thesis using Init lock[OF l] stretch_inv_ctrl[OF assms(1), of v0]
      by (simp add: video_rate_ctrl_init_def l Let_def)
  next
    case (Create name ok)
    obtain err v0 where l: "vrate_lock_init ok v = (err, v0)" by (cases "vrate_lock_init ok v")
    have v0: "stretch_inv i t n v0" by (rule stretch_inv_ctrl[OF assms(1) lock[OF l]])
    have "stretch_inv i t n (put_ctrl j g v0)" if "stretch t n g" for j g
      by (rule stretch_inv_put[OF v0 assms(2) order_refl that])
    then show ?thesis using Create v0 by (auto simp: video_rate_ctrl_create_def l Let_def split: option.splits)
  next
    case (Destroy j)
    then show ?thesis using assms(1) put[of j zero_controller]
      by (auto simp: video_rate_ctrl_destroy_def stretch_inv_def)
  next
    case (Enable j b)
    have "stretch t n ((vrate_reset_signal ((v_ctrl v ! i)\<lparr>rc_enabled := e\<rparr>))\<lparr>rc_last_report := now, rc_stale := False\<rparr>)" for e
      using s by (intro stretch_signal) (simp add: stretch_def healthy_count_def)
    then show ?thesis using Enable assms(1)
      by (auto simp: video_rate_ctrl_enable_def Let_def intro!: put)
  next
    case (Ceiling j bps)
    then show ?thesis using assms(1) s
      by (auto simp: video_rate_ctrl_set_network_ceiling_bps_def Let_def intro!: put)
  next
    case (Set_pin pinned req ok)
    obtain err v0 where l: "vrate_lock_init ok v = (err, v0)" by (cases "vrate_lock_init ok v")
    have v0: "stretch_inv i t n v0" by (rule stretch_inv_ctrl[OF assms(1) lock[OF l]])
    show ?thesis using Set_pin v0 lock[OF l] assms(1) s li
      by (auto simp: video_rate_ctrl_set_fps_pinned_def vrate_set_pin_def l Let_def stretch_inv_def)
  next
    case (Set_min bps)
    then show ?thesis using assms(1) s li
      by (auto simp: video_rate_ctrl_set_min_bitrate_bps_def Let_def stretch_inv_def)
  next
    case (Pull_bitrate got)
    then show ?thesis using assms(1) s li
      by (auto simp: video_rate_ctrl_pull_bitrate_bps_def vrate_expire_if_due_def Let_def stretch_inv_def)
  next
    case (Encoder_stats got)
    then show ?thesis using assms(1) s li
      by (auto simp: video_rate_ctrl_get_encoder_stats_def vrate_expire_if_due_def Let_def stretch_inv_def)
  qed (use assms(1,4) in \<open>auto simp: reports_of_def stretch_inv_def video_rate_ctrl_pull_fps_pin_def
      video_rate_ctrl_set_actuation_period_ms_def video_rate_ctrl_report_committed_bitrate_bps_def
      video_rate_ctrl_set_bitrate_actuable_def\<close>)
qed

definition report_count :: "nat \<Rightarrow> vrate_call list \<Rightarrow> nat" where
  "report_count i cs = length (filter (reports_of i) cs)"

lemma reports_of_unique: "reports_of j c \<Longrightarrow> reports_of i c \<longleftrightarrow> j = i"
  by (auto simp: reports_of_def)

lemma stretch_runs:
  assumes "vrate_runs P v t cs v' t'" "stretch_inv i t 0 v" "i < VIDEO_RATE_CTRL_MAX"
  shows "stretch_inv i t (report_count i cs) v'"
  using assms(1)
proof (induction rule: vrate_runs.induct)
  case (runs_call cs v1 t1 now now2 c)
  have now: "t \<le> now" using runs_time[OF runs_call(1)] runs_call(2) by simp
  show ?case
  proof (cases "\<exists>j. reports_of j c")
    case True
    then obtain j where j: "reports_of j c" by blast
    show ?thesis using stretch_inv_report[OF runs_call(6) assms(3) now runs_call(4) j, of now2] reports_of_unique[OF j, of i]
      by (simp add: report_count_def split: if_splits)
  next
    case False
    then show ?thesis using stretch_inv_other[OF runs_call(6) assms(3) runs_call(4), of now now2]
      by (simp add: report_count_def)
  qed
qed (use assms(2) in \<open>simp add: report_count_def\<close>)

text \<open>Releasing the pin never makes the ladder shorter.\<close>

lemma release_deepest:
  assumes "is_u32 (ag_max_bps (v_agg v))"
  shows "vrate_deepest_useful_level (v_agg v) \<le> vrate_deepest_useful_level (v_agg (release_pin now v))"
proof (cases "vrate_deepest_useful_level (v_agg v)")
  case (Suc d)
  let ?a = "v_agg v" and ?b = "v_agg (release_pin now v)"
  have d: "Suc d < LADDER_N" using deepest_lt[of ?a] Suc by simp
  have differ: "point ?a (Suc d) \<noteq> point ?a d"
    using Suc by (intro deepest_loop_distinct[of ?a "LADDER_N - 1"]) (simp add: vrate_deepest_useful_level_def)
  have fps: "vrate_rung_fps ?b l = vrate_rung_fps ?a l" for l by (simp add: release_pin_def)
  have share: "rung_share ?b l = rung_share ?a l" for l by (simp add: rung_share_def release_pin_def)
  have fl: "vrate_floor_bps ?b \<le> vrate_floor_bps ?a"
    by (simp add: vrate_floor_bps_def release_pin_def vrate_resolution_floor_bps_def vrate_pinned_floor_raw_def Let_def)
  have "rung_share ?a (Suc d) \<le> rung_share ?a d" by (rule rung_share_antitone[OF _ d assms]) simp
  then have "point ?b (Suc d) \<noteq> point ?b d"
    using differ fl by (auto simp: point_def fps share rung_bitrate_max max_def split: if_splits)
  then show ?thesis unfolding vrate_deepest_useful_level_def[of ?b] Suc
    by (intro deepest_loop_last) (use d in \<open>simp_all add: LADDER_N_def\<close>)
qed simp

lemma step_down_no_climb:
  assumes "vrate_step_down now i jump v = (moved, v')" "i < length (v_ctrl v)" "is_u32 (ag_max_bps (v_agg v))"
    "rc_level (v_ctrl v ! i) \<le> vrate_deepest_useful_level (v_agg v)"
  shows "rc_level (v_ctrl v ! i) \<le> rc_level (v_ctrl v' ! i)"
  using assms(1)
proof (cases rule: step_down_cases)
  case (last w)
  then show ?thesis using assms(2) by auto
next
  case (step w)
  have "vrate_deepest_useful_level (v_agg v) \<le> vrate_deepest_useful_level (v_agg w)"
    using step(5) release_deepest[OF assms(3)] by simp
  then show ?thesis using step(2,3,5) assms(2,4) by (auto simp: clamp_level_min put_ctrl_nth split: if_splits)
qed (use assms(2) in simp_all)

lemma mark_healthy_climb:
  assumes "vrate_mark_healthy a now h = (moved, h')" "rc_level h' < rc_level h" "stretch t n h"
  shows "t + RECOVER_DWELL_MS * 1000 \<le> now \<and> RECOVER_MIN_REPORTS \<le> n"
  using assms(1)
proof (cases rule: mark_healthy_cases)
  case climb
  let ?h0 = "if rc_healthy_since h = 0 then h\<lparr>rc_healthy_since := now, rc_healthy_reports := rc_reports h\<rparr> else h"
  have "rc_healthy_since h \<noteq> 0" using climb(1) by (auto simp: RECOVER_DWELL_MS_def)
  then show ?thesis using climb(1,2) assms(3) by (simp add: stretch_def healthy_count_def)
qed (use assms(2) in \<open>auto split: if_splits\<close>)

text \<open>
  A rung is won back slowly. From any moment at which a controller is in no healthy stretch (it has just
  been enabled, congested or moved), whatever is called in between, a report takes it to a better rung
  only three seconds later or more and only as the eighth of its reports or a later one.
\<close>

theorem recovery_needs_dwell:
  assumes "vrate_runs P vrate_boot t0 cs0 v t" "rc_healthy_since (v_ctrl v ! i) = 0" "i < VIDEO_RATE_CTRL_MAX"
    and "is_u32 (rc_reports (v_ctrl v ! i))" "is_u32 (rc_healthy_reports (v_ctrl v ! i))"
    and "vrate_runs Q v t cs v1 t1" "t1 \<le> now" "call_ok c" "reports_of i c" "vrate_do now now2 c v1 = v2"
    and "ag_pin_wanted (v_agg v1) \<longrightarrow> ag_pinned (v_agg v1)"
    and "rc_level (v_ctrl v1 ! i) \<le> vrate_deepest_useful_level (v_agg v1)"
    and "rc_level (v_ctrl v2 ! i) < rc_level (v_ctrl v1 ! i)"
  shows "t + 3000000 \<le> now \<and> 8 \<le> report_count i (cs @ [c])"
proof -
  have v_ok: "vrate_ok v" by (rule runs_ok[OF assms(1)])
  have v1_ok: "vrate_ok v1" using v_ok
    by (rule runs_invariant[OF assms(6), where I = "\<lambda>_. vrate_ok"]) (rule vrate_do_ok)
  have "stretch_inv i t 0 v" using assms(2,4,5) v_ok by (simp add: stretch_inv_def stretch_def vrate_ok_length)
  then have inv: "stretch_inv i t (report_count i cs) v1" by (rule stretch_runs[OF assms(6) _ assms(3)])
  let ?n = "report_count i cs"
  have n: "report_count i (cs @ [c]) = Suc ?n" using assms(9) by (simp add: report_count_def)
  have st: "stretch t (Suc ?n) (stamp_report now (v_ctrl v1 ! i))" using inv stretch_stamp by (simp add: stretch_inv_def)
  have li: "i < length (v_ctrl v1)" using assms(3) vrate_ok_length[OF v1_ok] by simp
  have big: "is_u32 (ag_max_bps (v_agg v1))" if "reportable v1 i"
    using vrate_ok_agg[OF v1_ok] that by (simp add: reportable_def agg_ok_def)
  have climb: ?thesis if "vrate_mark_healthy a now h = (moved, h')" "rc_level h' < rc_level h" "stretch t (Suc ?n) h" for a h moved h'
    using mark_healthy_climb[OF that] n by (simp add: vrate_consts)
  have no: False if "vrate_step_down now2 i jump (put_ctrl i h w) = (moved, v')" "rc_level h = rc_level (v_ctrl v1 ! i)"
    "i < length (v_ctrl w)" "vrate_deepest_useful_level (v_agg w) = vrate_deepest_useful_level (v_agg v1)"
    "is_u32 (ag_max_bps (v_agg w))" "rc_level (v_ctrl v' ! i) < rc_level (v_ctrl v1 ! i)" for jump h w moved v'
    using step_down_no_climb[OF that(1)] that(2-6) assms(12) by simp
  from assms(9) consider ms where "c = Send_ms i ms" | used cap got where "c = Queue i used cap got" | "c = Overflow i"
    by (auto simp: reports_of_def)
  then show ?thesis
  proof cases
    case (1 ms)
    then have r: "video_rate_ctrl_report_send_ms now now2 (Some i) ms v1 = v2" using assms(10) by simp
    from r show ?thesis
    proof (cases rule: report_send_cases)
      case (down jump moved w)
      have "rc_level (v_ctrl w ! i) < rc_level (v_ctrl v1 ! i)" using down(5) assms(13) by simp
      then show ?thesis using no[OF down(4) _ li refl big[OF down(2)]] by simp
    next
      case (up moved c2)
      then show ?thesis using climb[OF up(3)] assms(13) li st by simp
    qed (use assms(13) li in auto)
  next
    case (2 used cap got)
    then have r: "video_rate_ctrl_report_queue got now now2 (Some i) used cap v1 = v2" using assms(10) by simp
    let ?c1 = "(stamp_report now (v_ctrl v1 ! i))\<lparr>rc_q_used := used, rc_q_cap := cap\<rparr>"
    let ?w = "rearbitrate_if (was_stale now (v_ctrl v1 ! i)) now (put_ctrl i ?c1 v1)"
    have "reassert_pin now b (put_ctrl i ?c1 v1) = put_ctrl i ?c1 v1" for b
      using assms(11) by (auto simp: reassert_pin_def Let_def)
    then have p: "points_of (v_agg v1) (v_agg ?w)"
      by (simp add: rearbitrate_if_def vrate_rearbitrate_def request_bitrate_def Let_def)
    from r li show ?thesis
    proof (cases rule: report_queue_cases)
      case (down jump moved w)
      have "rc_level (v_ctrl w ! i) < rc_level (v_ctrl v1 ! i)" using down(9) assms(13) by simp
      then show ?thesis using no[OF down(8)] li points_ofD(8,9)[OF p] big[OF down(2)] by simp
    next
      case (up moved c2)
      then show ?thesis using climb[OF up(5)] assms(13) li st by simp
    qed (use assms(13) li in auto)
  next
    case 3
    then have r: "video_rate_ctrl_report_overflow now now2 (Some i) v1 = v2" using assms(10) by simp
    from r show ?thesis
    proof (cases rule: report_overflow_cases)
      case (down moved w)
      have "rc_level (v_ctrl w ! i) < rc_level (v_ctrl v1 ! i)" using down(5) assms(13) by simp
      then show ?thesis using no[OF down(4) _ li refl big[OF down(2)]] by simp
    qed (use assms(13) li in auto)
  qed
qed

text \<open>Nine fast sends of the first controller in four seconds.\<close>

definition eight_sends :: "int list" where
  "eight_sends = [3100000, 3500000, 4000000, 4500000, 5000000, 5500000, 6000000, 6500000]"

definition sends :: "int list \<Rightarrow> vrate \<Rightarrow> vrate" where
  "sends ts v = fold (\<lambda>now. vrate_do now now (Send_ms 0 1)) ts v"

lemma sends_runs:
  "sorted (t # ts) \<Longrightarrow> vrate_runs (\<lambda>_. True) v t (map (\<lambda>_. Send_ms 0 1) ts) (sends ts v) (last (t # ts))"
proof (induction ts rule: rev_induct)
  case Nil
  show ?case by (simp add: sends_def runs_none)
next
  case (snoc now ts)
  have s: "sorted (t # ts)" "last (t # ts) \<le> now"
    using snoc.prems by (auto simp: sorted_append)
  show ?case using runs_call[OF snoc.IH[OF s(1)] s(2) order_refl, of "Send_ms 0 1"]
    by (simp add: sends_def vrate_consts is_u32_def)
qed

theorem recovery_needs_dwell_witness:
  "rc_level (v_ctrl (sends (eight_sends @ [7000000]) two_sinks) ! 0) < rc_level (v_ctrl (sends eight_sends two_sinks) ! 0) \<and>
   (3000000 :: int) + 3000000 \<le> 7000000 \<and> 8 \<le> report_count 0 (map (\<lambda>_. Send_ms 0 1) eight_sends @ [Send_ms 0 1])"
proof -
  obtain cs where r: "vrate_runs (\<lambda>c. \<forall>b. c \<noteq> Set_actuable b) vrate_boot 0 cs two_sinks 3000000"
    using two_sinks_runs by blast
  have f: "rc_healthy_since (v_ctrl two_sinks ! 0) = 0" "is_u32 (rc_reports (v_ctrl two_sinks ! 0))"
    "is_u32 (rc_healthy_reports (v_ctrl two_sinks ! 0))"
    by (simp_all add: two_sinks_value is_u32_def)
  have s: "sorted (3000000 # eight_sends)" by (simp add: eight_sends_def)
  have l: "last (3000000 # eight_sends) \<le> 7000000" by (simp add: eight_sends_def)
  have v1: "ag_pin_wanted (v_agg (sends eight_sends two_sinks)) \<longrightarrow> ag_pinned (v_agg (sends eight_sends two_sinks))"
    "rc_level (v_ctrl (sends eight_sends two_sinks) ! 0) \<le> vrate_deepest_useful_level (v_agg (sends eight_sends two_sinks))"
    "rc_level (v_ctrl (vrate_do 7000000 7000000 (Send_ms 0 1) (sends eight_sends two_sinks)) ! 0) <
       rc_level (v_ctrl (sends eight_sends two_sinks) ! 0)"
    unfolding two_sinks_value by code_simp+
  have e: "sends (eight_sends @ [7000000]) two_sinks = vrate_do 7000000 7000000 (Send_ms 0 1) (sends eight_sends two_sinks)"
    by (simp add: sends_def)
  have ok: "call_ok (Send_ms 0 1)" "reports_of 0 (Send_ms 0 1)" "0 < VIDEO_RATE_CTRL_MAX"
    by (simp_all add: vrate_consts is_u32_def reports_of_def)
  show ?thesis unfolding e
    using recovery_needs_dwell[OF r f(1) ok(3) f(2,3) sends_runs[OF s] l ok(1,2) refl v1] v1(3) by blast
qed

end
