(* ===== verification/Kvs_Client.thy ===== *)
theory Kvs_Client
  imports Pending_Owner
begin

text \<open>
  The KVS signaling client, \<open>components/signaling/kvs_signaling/src/kvs_signaling.c\<close>: its data, the
  registry of live clients, the translation of states, statuses and messages, and the callbacks
  the SDK calls. Sending and flushing are in \<open>Kvs_Send\<close>, the life cycle in \<open>Kvs_Life\<close>.
\<close>

section \<open>Codes\<close>

definition STATUS_OPERATION_TIMED_OUT :: STATUS where [status_defs]: "STATUS_OPERATION_TIMED_OUT = 0x0000000F"

abbreviation STATUS_FAILED :: "STATUS \<Rightarrow> bool" where "STATUS_FAILED x \<equiv> x \<noteq> STATUS_SUCCESS"
abbreviation STATUS_SUCCEEDED :: "STATUS \<Rightarrow> bool" where "STATUS_SUCCEEDED x \<equiv> x = STATUS_SUCCESS"

text \<open>
  States and codes of the SDK, whose header is not part of the repository: one constructor per name
  the source uses, and one for every other value.
\<close>

datatype SIGNALING_CLIENT_STATE =
    SIGNALING_CLIENT_STATE_UNKNOWN | SIGNALING_CLIENT_STATE_NEW | SIGNALING_CLIENT_STATE_CONNECTING
  | SIGNALING_CLIENT_STATE_GET_CREDENTIALS | SIGNALING_CLIENT_STATE_DESCRIBE | SIGNALING_CLIENT_STATE_CREATE
  | SIGNALING_CLIENT_STATE_GET_ENDPOINT | SIGNALING_CLIENT_STATE_GET_ICE_CONFIG
  | SIGNALING_CLIENT_STATE_READY | SIGNALING_CLIENT_STATE_CONNECTED | SIGNALING_CLIENT_STATE_JOIN_SESSION
  | SIGNALING_CLIENT_STATE_JOIN_SESSION_WAITING | SIGNALING_CLIENT_STATE_JOIN_SESSION_CONNECTED
  | SIGNALING_CLIENT_STATE_DISCONNECTED | SIGNALING_CLIENT_STATE_DELETE | SIGNALING_CLIENT_STATE_DELETED
  | SIGNALING_CLIENT_STATE_OTHER nat

datatype kvs_status =
    STATUS_SIGNALING_ICE_CONFIG_REFRESH_FAILED | STATUS_SIGNALING_RECONNECT_FAILED
  | STATUS_SIGNALING_CONNECT_CALL_FAILED | STATUS_SIGNALING_LWS_CLIENT_CONNECT_FAILED
  | STATUS_SIGNALING_LWS_CALL_FAILED | STATUS_SIGNALING_CONNECTED_CALLBACK_FAILED
  | STATUS_SIGNALING_MESSAGE_DELIVERY_FAILED | STATUS_SIGNALING_DISCONNECTED_CALLBACK_FAILED
  | STATUS_SIGNALING_GET_TOKEN_CALL_FAILED | STATUS_SIGNALING_DESCRIBE_CALL_FAILED
  | STATUS_SIGNALING_CREATE_CALL_FAILED | STATUS_SIGNALING_GET_ENDPOINT_CALL_FAILED
  | STATUS_SIGNALING_GET_ICE_CONFIG_CALL_FAILED | STATUS_SIGNALING_DELETE_CALL_FAILED
  | KVS_STATUS_OTHER

datatype webrtc_signaling_state =
    WEBRTC_SIGNALING_STATE_NEW | WEBRTC_SIGNALING_STATE_CONNECTING | WEBRTC_SIGNALING_STATE_CONNECTED
  | WEBRTC_SIGNALING_STATE_DISCONNECTED | WEBRTC_SIGNALING_STATE_FAILED

type_synonym WEBRTC_STATUS = uint32

definition WEBRTC_STATUS_SUCCESS :: WEBRTC_STATUS where [status_defs]: "WEBRTC_STATUS_SUCCESS = 0"
definition WEBRTC_STATUS_NULL_ARG :: WEBRTC_STATUS where [status_defs]: "WEBRTC_STATUS_NULL_ARG = 1"
definition WEBRTC_STATUS_INVALID_ARG :: WEBRTC_STATUS where [status_defs]: "WEBRTC_STATUS_INVALID_ARG = 2"
definition WEBRTC_STATUS_INTERNAL_ERROR :: WEBRTC_STATUS where [status_defs]: "WEBRTC_STATUS_INTERNAL_ERROR = 12"
definition WEBRTC_STATUS_SIGNALING_ICE_REFRESH_FAILED :: WEBRTC_STATUS where [status_defs]: "WEBRTC_STATUS_SIGNALING_ICE_REFRESH_FAILED = 129"
definition WEBRTC_STATUS_SIGNALING_RECONNECT_FAILED :: WEBRTC_STATUS where [status_defs]: "WEBRTC_STATUS_SIGNALING_RECONNECT_FAILED = 130"
definition WEBRTC_STATUS_SIGNALING_CONNECTION_LOST :: WEBRTC_STATUS where [status_defs]: "WEBRTC_STATUS_SIGNALING_CONNECTION_LOST = 131"
definition WEBRTC_STATUS_SIGNALING_AUTH_FAILED :: WEBRTC_STATUS where [status_defs]: "WEBRTC_STATUS_SIGNALING_AUTH_FAILED = 132"
definition WEBRTC_STATUS_SIGNALING_TIMEOUT :: WEBRTC_STATUS where [status_defs]: "WEBRTC_STATUS_SIGNALING_TIMEOUT = 133"

section \<open>Translations\<close>

definition convertKvsToWebrtcSignalingState :: "SIGNALING_CLIENT_STATE \<Rightarrow> webrtc_signaling_state" where
  "convertKvsToWebrtcSignalingState s =
     (case s of
        SIGNALING_CLIENT_STATE_NEW \<Rightarrow> WEBRTC_SIGNALING_STATE_NEW
      | SIGNALING_CLIENT_STATE_CONNECTING \<Rightarrow> WEBRTC_SIGNALING_STATE_CONNECTING
      | SIGNALING_CLIENT_STATE_GET_CREDENTIALS \<Rightarrow> WEBRTC_SIGNALING_STATE_CONNECTING
      | SIGNALING_CLIENT_STATE_DESCRIBE \<Rightarrow> WEBRTC_SIGNALING_STATE_CONNECTING
      | SIGNALING_CLIENT_STATE_CREATE \<Rightarrow> WEBRTC_SIGNALING_STATE_CONNECTING
      | SIGNALING_CLIENT_STATE_GET_ENDPOINT \<Rightarrow> WEBRTC_SIGNALING_STATE_CONNECTING
      | SIGNALING_CLIENT_STATE_GET_ICE_CONFIG \<Rightarrow> WEBRTC_SIGNALING_STATE_CONNECTING
      | SIGNALING_CLIENT_STATE_READY \<Rightarrow> WEBRTC_SIGNALING_STATE_CONNECTING
      | SIGNALING_CLIENT_STATE_CONNECTED \<Rightarrow> WEBRTC_SIGNALING_STATE_CONNECTED
      | SIGNALING_CLIENT_STATE_JOIN_SESSION_CONNECTED \<Rightarrow> WEBRTC_SIGNALING_STATE_CONNECTED
      | SIGNALING_CLIENT_STATE_DISCONNECTED \<Rightarrow> WEBRTC_SIGNALING_STATE_DISCONNECTED
      | SIGNALING_CLIENT_STATE_DELETE \<Rightarrow> WEBRTC_SIGNALING_STATE_DISCONNECTED
      | SIGNALING_CLIENT_STATE_DELETED \<Rightarrow> WEBRTC_SIGNALING_STATE_DISCONNECTED
      | _ \<Rightarrow> WEBRTC_SIGNALING_STATE_FAILED)"

definition kvsStateHasWebSocket :: "SIGNALING_CLIENT_STATE \<Rightarrow> bool" where
  "kvsStateHasWebSocket s =
     (case s of
        SIGNALING_CLIENT_STATE_CONNECTED \<Rightarrow> True
      | SIGNALING_CLIENT_STATE_JOIN_SESSION \<Rightarrow> True
      | SIGNALING_CLIENT_STATE_JOIN_SESSION_WAITING \<Rightarrow> True
      | SIGNALING_CLIENT_STATE_JOIN_SESSION_CONNECTED \<Rightarrow> True
      | _ \<Rightarrow> False)"

definition convertStatusToWebrtcStatus :: "STATUS \<Rightarrow> WEBRTC_STATUS" where
  "convertStatusToWebrtcStatus s =
     (if s = STATUS_SUCCESS then WEBRTC_STATUS_SUCCESS else WEBRTC_STATUS_INTERNAL_ERROR)"

text \<open>\<open>code\<close> says which of the SDK's names a number has; a number with no such name is passed on.\<close>

definition mapKvsErrorToWebrtcStatus :: "(STATUS \<Rightarrow> kvs_status) \<Rightarrow> STATUS \<Rightarrow> WEBRTC_STATUS" where
  "mapKvsErrorToWebrtcStatus code s =
     (case code s of
        STATUS_SIGNALING_ICE_CONFIG_REFRESH_FAILED \<Rightarrow> WEBRTC_STATUS_SIGNALING_ICE_REFRESH_FAILED
      | STATUS_SIGNALING_RECONNECT_FAILED \<Rightarrow> WEBRTC_STATUS_SIGNALING_RECONNECT_FAILED
      | STATUS_SIGNALING_CONNECT_CALL_FAILED \<Rightarrow> WEBRTC_STATUS_SIGNALING_CONNECTION_LOST
      | STATUS_SIGNALING_LWS_CLIENT_CONNECT_FAILED \<Rightarrow> WEBRTC_STATUS_SIGNALING_CONNECTION_LOST
      | STATUS_SIGNALING_LWS_CALL_FAILED \<Rightarrow> WEBRTC_STATUS_SIGNALING_CONNECTION_LOST
      | STATUS_SIGNALING_CONNECTED_CALLBACK_FAILED \<Rightarrow> WEBRTC_STATUS_SIGNALING_CONNECTION_LOST
      | STATUS_SIGNALING_MESSAGE_DELIVERY_FAILED \<Rightarrow> WEBRTC_STATUS_SIGNALING_CONNECTION_LOST
      | STATUS_SIGNALING_DISCONNECTED_CALLBACK_FAILED \<Rightarrow> WEBRTC_STATUS_SIGNALING_CONNECTION_LOST
      | STATUS_SIGNALING_GET_TOKEN_CALL_FAILED \<Rightarrow> WEBRTC_STATUS_SIGNALING_AUTH_FAILED
      | STATUS_SIGNALING_DESCRIBE_CALL_FAILED \<Rightarrow> WEBRTC_STATUS_SIGNALING_TIMEOUT
      | STATUS_SIGNALING_CREATE_CALL_FAILED \<Rightarrow> WEBRTC_STATUS_SIGNALING_TIMEOUT
      | STATUS_SIGNALING_GET_ENDPOINT_CALL_FAILED \<Rightarrow> WEBRTC_STATUS_SIGNALING_TIMEOUT
      | STATUS_SIGNALING_GET_ICE_CONFIG_CALL_FAILED \<Rightarrow> WEBRTC_STATUS_SIGNALING_TIMEOUT
      | STATUS_SIGNALING_DELETE_CALL_FAILED \<Rightarrow> WEBRTC_STATUS_SIGNALING_TIMEOUT
      | KVS_STATUS_OTHER \<Rightarrow> s)"

section \<open>Messages\<close>

datatype webrtc_message_type =
    WEBRTC_MESSAGE_TYPE_OFFER | WEBRTC_MESSAGE_TYPE_ANSWER | WEBRTC_MESSAGE_TYPE_ICE_CANDIDATE
  | WEBRTC_MESSAGE_TYPE_GO_AWAY | WEBRTC_MESSAGE_TYPE_RECONNECT_ICE_SERVER
  | WEBRTC_MESSAGE_TYPE_STATE_CHANGE | WEBRTC_MESSAGE_TYPE_ERROR | WEBRTC_MESSAGE_TYPE_TRIGGER_OFFER

record webrtc_message =
  message_type :: webrtc_message_type
  peer_client_id :: string
  correlation_id :: string
  msg_payload :: "string option"
  msg_payload_len :: nat
  msg_version :: uint32

text \<open>\<open>SignalingMessage\<close> of the SDK; its message types likewise by the names the source uses.\<close>

datatype SIGNALING_MESSAGE_TYPE =
    SIGNALING_MESSAGE_TYPE_OFFER | SIGNALING_MESSAGE_TYPE_ANSWER | SIGNALING_MESSAGE_TYPE_ICE_CANDIDATE
  | SIGNALING_MESSAGE_TYPE_OTHER nat

record signaling_message =
  sm_type :: SIGNALING_MESSAGE_TYPE
  sm_peer :: string
  sm_corr :: string
  sm_payload :: "string option"
  sm_payload_len :: nat
  sm_version :: uint32

text \<open>The protocol's limits, which \<open>app_webrtc_if.h\<close> repeats as \<open>APP_WEBRTC_MAX_...\<close>; \<open>strlcpy\<close> cuts to one less.\<close>

definition MAX_SIGNALING_CLIENT_ID_LEN :: nat where "MAX_SIGNALING_CLIENT_ID_LEN = 256"
definition MAX_CORRELATION_ID_LEN :: nat where "MAX_CORRELATION_ID_LEN = 256"

definition strlcpy :: "string \<Rightarrow> nat \<Rightarrow> string" where
  "strlcpy s n = take (n - 1) s"

definition convertKvsToWebRtcMessage :: "signaling_message option \<Rightarrow> STATUS + webrtc_message" where
  "convertKvsToWebRtcMessage k =
     (case k of
        None \<Rightarrow> Inl STATUS_NULL_ARG
      | Some m \<Rightarrow>
          (let fill = (\<lambda>ty. Inr \<lparr>message_type = ty,
                 peer_client_id = strlcpy (sm_peer m) MAX_SIGNALING_CLIENT_ID_LEN,
                 correlation_id = strlcpy (sm_corr m) MAX_CORRELATION_ID_LEN,
                 msg_payload = sm_payload m, msg_payload_len = sm_payload_len m, msg_version = sm_version m\<rparr>)
           in case sm_type m of
                SIGNALING_MESSAGE_TYPE_OFFER \<Rightarrow> fill WEBRTC_MESSAGE_TYPE_OFFER
              | SIGNALING_MESSAGE_TYPE_ANSWER \<Rightarrow> fill WEBRTC_MESSAGE_TYPE_ANSWER
              | SIGNALING_MESSAGE_TYPE_ICE_CANDIDATE \<Rightarrow> fill WEBRTC_MESSAGE_TYPE_ICE_CANDIDATE
              | SIGNALING_MESSAGE_TYPE_OTHER _ \<Rightarrow> Inl STATUS_INVALID_ARG))"

section \<open>Registry of live clients\<close>

text \<open>\<open>s_liveClients\<close>, pointers as numbers, and its mutex, created on the first registration.\<close>

definition KVS_MAX_LIVE_CLIENTS :: nat where "KVS_MAX_LIVE_CLIENTS = 4"

record registry =
  s_liveClients :: "nat option list"
  s_liveClientsLock :: bool

definition registry_init :: registry where
  "registry_init = \<lparr>s_liveClients = replicate KVS_MAX_LIVE_CLIENTS None, s_liveClientsLock = False\<rparr>"

text \<open>The three scans stop at the first slot that fits.\<close>

definition put_first :: "nat option \<Rightarrow> nat option \<Rightarrow> nat option list \<Rightarrow> nat option list" where
  "put_first old new xs =
     (case find (\<lambda>i. xs ! i = old) [0..<length xs] of None \<Rightarrow> xs | Some i \<Rightarrow> xs[i := new])"

definition kvsSignalingClientRegister :: "bool \<Rightarrow> nat \<Rightarrow> registry \<Rightarrow> registry" where
  "kvsSignalingClientRegister mutex_ok p r =
     (let r1 = (if s_liveClientsLock r then r else r\<lparr>s_liveClientsLock := mutex_ok\<rparr>)
      in if \<not> s_liveClientsLock r1 then r1
         else r1\<lparr>s_liveClients := put_first None (Some p) (s_liveClients r1)\<rparr>)"

definition kvsSignalingClientUnregister :: "nat \<Rightarrow> registry \<Rightarrow> registry" where
  "kvsSignalingClientUnregister p r =
     (if \<not> s_liveClientsLock r then r
      else r\<lparr>s_liveClients := put_first (Some p) None (s_liveClients r)\<rparr>)"

definition kvsSignalingClientIsLive :: "nat \<Rightarrow> registry \<Rightarrow> bool" where
  "kvsSignalingClientIsLive p r =
     (s_liveClientsLock r \<and> list_ex (\<lambda>q. q = Some p) (s_liveClients r))"

section \<open>The client\<close>

text \<open>
  The application's callbacks act on its own state \<open>'w\<close>, which also holds what the SDK and the
  network keep. \<open>CallbackAdapterData\<close> carries the callbacks registered through the portable interface.
\<close>

record 'w adapter_data =
  originalCustomData :: uint64
  originalOnSignalingStateChanged :: "(uint64 \<Rightarrow> webrtc_signaling_state \<Rightarrow> 'w \<Rightarrow> WEBRTC_STATUS \<times> 'w) option"
  originalOnError :: "(uint64 \<Rightarrow> WEBRTC_STATUS \<Rightarrow> string \<Rightarrow> uint32 \<Rightarrow> 'w \<Rightarrow> WEBRTC_STATUS \<times> 'w) option"

datatype cred_provider = callback_provider | iot_provider | static_provider

text \<open>\<open>kvs_signaling_config_t\<close>; a pointer to text that may be NULL is an option.\<close>

record kvs_config =
  useIotCredentials :: bool
  iotCoreCredentialEndpoint :: "string option"
  iotCoreCert :: "string option"
  iotCorePrivateKey :: "string option"
  iotCoreRoleAlias :: "string option"
  iotCoreThingName :: "string option"
  awsAccessKey :: "string option"
  awsSecretKey :: "string option"
  awsRegion :: "string option"
  caCertPath :: "string option"
  fetch_credentials_cb :: bool

datatype SIGNALING_CHANNEL_ROLE_TYPE = SIGNALING_CHANNEL_ROLE_TYPE_MASTER | SIGNALING_CHANNEL_ROLE_TYPE_VIEWER

record 'w client =
  cl_self :: nat
  cl_registry :: registry
  cl_heap :: heap
  cl_world :: 'w
  cl_flush_tasks :: nat
  signalingClientHandle :: bool
  initialized :: bool
  connected :: bool
  aborting :: bool
  lastNotifiedState :: SIGNALING_CLIENT_STATE
  cl_pending :: pending
  pendingFlushes :: uint32
  flushAgain :: bool
  flushAnswerPeers :: "string list"
  flushAnswerPeerCount :: nat
  customData :: "'w adapter_data option"
  on_msg_received :: "(uint64 \<Rightarrow> webrtc_message \<Rightarrow> 'w \<Rightarrow> STATUS \<times> 'w) option"
  on_state_changed :: bool
  on_error :: bool
  pCallbackAdapterData :: "'w adapter_data option"
  pCredentialProvider :: "cred_provider option"
  pCredFetchAdapterCtx :: "unit option"
  signalingSendMessageLock :: bool
  config :: kvs_config
  channelRoleType :: SIGNALING_CHANNEL_ROLE_TYPE
  on_ice_servers_updated :: "(uint32 \<Rightarrow> 'w \<Rightarrow> WEBRTC_STATUS \<times> 'w) option"

text \<open>
  What the client calls outside the repository, or on another task. \<open>others\<close> is what the other tasks
  did to the client since this one last held \<open>signalingSendMessageLock\<close>; it is applied wherever the
  lock is taken. \<open>send_sync\<close> is \<open>signalingClientSendMessageSync\<close>, during which callbacks of the
  SDK may also run; \<open>sdk_connected\<close> is the SDK's own \<open>connected\<close> flag, \<open>add_task_ok\<close> whether the work
  queue takes another task, \<open>now_ms\<close> the monotonic clock, \<open>cast_type\<close> the cast of a message type to
  the SDK's numbering, \<open>kvs_code\<close> the name of a status number.
\<close>

record 'w ports =
  others :: "'w client \<Rightarrow> 'w client"
  send_sync :: "signaling_message \<Rightarrow> 'w client \<Rightarrow> STATUS \<times> 'w client"
  get_metrics :: "'w client \<Rightarrow> STATUS \<times> 'w client"
  sdk_connected :: "'w client \<Rightarrow> bool"
  add_task_ok :: "'w client \<Rightarrow> bool"
  now_ms :: "'w client \<Rightarrow> uint64"
  cast_type :: "webrtc_message_type \<Rightarrow> SIGNALING_MESSAGE_TYPE"
  kvs_code :: "STATUS \<Rightarrow> kvs_status"

definition queue_flush :: "'w ports \<Rightarrow> 'w client \<Rightarrow> 'w client" where
  "queue_flush W c = (if add_task_ok W c then c\<lparr>cl_flush_tasks := Suc (cl_flush_tasks c)\<rparr> else c)"

section \<open>Callbacks from the SDK\<close>

definition adapterStateChangedCallback :: "'w adapter_data option \<Rightarrow> SIGNALING_CLIENT_STATE \<Rightarrow> 'w \<Rightarrow> STATUS \<times> 'w" where
  "adapterStateChangedCallback d state w =
     (case d of
        None \<Rightarrow> (STATUS_SUCCESS, w)
      | Some a \<Rightarrow>
          (case originalOnSignalingStateChanged a of
             None \<Rightarrow> (STATUS_SUCCESS, w)
           | Some f \<Rightarrow>
               (case f (originalCustomData a) (convertKvsToWebrtcSignalingState state) w of (r, w') \<Rightarrow>
                  (if r = WEBRTC_STATUS_SUCCESS then STATUS_SUCCESS else STATUS_INTERNAL_ERROR, w'))))"

definition adapterErrorCallback :: "(STATUS \<Rightarrow> kvs_status) \<Rightarrow> 'w adapter_data option \<Rightarrow> STATUS \<Rightarrow> string \<Rightarrow> uint32 \<Rightarrow> 'w \<Rightarrow> STATUS \<times> 'w" where
  "adapterErrorCallback code d status msg sub w =
     (case d of
        None \<Rightarrow> (STATUS_SUCCESS, w)
      | Some a \<Rightarrow>
          (case originalOnError a of
             None \<Rightarrow> (STATUS_SUCCESS, w)
           | Some f \<Rightarrow>
               (case f (originalCustomData a) (mapKvsErrorToWebrtcStatus code status) msg sub w of (r, w') \<Rightarrow>
                  (if r = WEBRTC_STATUS_SUCCESS then STATUS_SUCCESS else STATUS_INTERNAL_ERROR, w'))))"

text \<open>
  \<open>on_state_changed\<close> is either NULL or \<open>adapterStateChangedCallback\<close>: the interface stores no other.
  A NULL client is \<open>STATUS_NULL_ARG\<close>.
\<close>

definition kvsStateChangedCallback :: "'w ports \<Rightarrow> SIGNALING_CLIENT_STATE \<Rightarrow> 'w client option \<Rightarrow> STATUS \<times> 'w client option" where
  "kvsStateChangedCallback W state q =
     (case q of
        None \<Rightarrow> (STATUS_NULL_ARG, None)
      | Some c \<Rightarrow>
          if state = lastNotifiedState c then (STATUS_SUCCESS, Some c)
          else
            (let c1 = c\<lparr>lastNotifiedState := state, connected := kvsStateHasWebSocket state\<rparr>;
                 c2 = (if connected c1 \<and> \<not> connected c then queue_flush W c1 else c1)
             in if on_state_changed c2
                then (case adapterStateChangedCallback (customData c2) state (cl_world c2) of
                        (s, w) \<Rightarrow> (s, Some (c2\<lparr>cl_world := w\<rparr>)))
                else (STATUS_SUCCESS, Some c2)))"

text \<open>The status is translated here and once more in the adapter.\<close>

definition kvsErrorCallback :: "'w ports \<Rightarrow> STATUS \<Rightarrow> string \<Rightarrow> uint32 \<Rightarrow> 'w client option \<Rightarrow> STATUS \<times> 'w client option" where
  "kvsErrorCallback W status msg len q =
     (case q of
        None \<Rightarrow> (STATUS_NULL_ARG, None)
      | Some c \<Rightarrow>
          if on_error c
          then (case adapterErrorCallback (kvs_code W) (customData c)
                       (mapKvsErrorToWebrtcStatus (kvs_code W) status) msg len (cl_world c) of
                  (s, w) \<Rightarrow> (s, Some (c\<lparr>cl_world := w\<rparr>)))
          else (STATUS_SUCCESS, Some c))"

text \<open>\<open>None\<close> is the NULL dereference of \<open>pAdapterData->originalCustomData\<close>.\<close>

definition kvsMessageReceivedCallback :: "signaling_message option \<Rightarrow> 'w client option \<Rightarrow> (STATUS \<times> 'w client option) option" where
  "kvsMessageReceivedCallback m q =
     (case (q, m) of
        (Some c, Some k) \<Rightarrow>
          (case on_msg_received c of
             None \<Rightarrow> Some (STATUS_SUCCESS, q)
           | Some f \<Rightarrow>
               (case convertKvsToWebRtcMessage (Some k) of
                  Inl e \<Rightarrow> Some (e, q)
                | Inr msg \<Rightarrow>
                    (case customData c of
                       None \<Rightarrow> None
                     | Some a \<Rightarrow> (case f (originalCustomData a) msg (cl_world c) of
                                    (s, w) \<Rightarrow> Some (s, Some (c\<lparr>cl_world := w\<rparr>))))))
      | _ \<Rightarrow> Some (STATUS_NULL_ARG, q))"

end
