(* ===== verification/Kvs_Send.thy ===== *)
theory Kvs_Send
  imports Kvs_Client
begin

text \<open>
  Sending through the KVS signaling client (\<open>kvs_signaling.c\<close>): \<open>sendKvsSignalingMessage\<close> with its
  buffering, the flush of the buffer after a reconnect, and the purge of a peer. A critical section
  of \<open>signalingSendMessageLock\<close> is one atomic piece; \<open>others\<close> acts before it.
\<close>

section \<open>Helpers\<close>

definition cl_is_live :: "'w client \<Rightarrow> bool" where
  "cl_is_live c = kvsSignalingClientIsLive (cl_self c) (cl_registry c)"

definition kvsFlushHoldsAnswerFor :: "'w client \<Rightarrow> string \<Rightarrow> bool" where
  "kvsFlushHoldsAnswerFor c peerId =
     list_ex (\<lambda>i. strncmp_eq (flushAnswerPeers c ! i) peerId KVS_PENDING_ICE_PEERID_LEN)
       [0..<flushAnswerPeerCount c]"

definition kvsSignalingLinkDown :: "'w ports \<Rightarrow> 'w client \<Rightarrow> bool" where
  "kvsSignalingLinkDown W c = (\<not> connected c \<or> \<not> signalingClientHandle c \<or> \<not> sdk_connected W c)"

text \<open>\<open>kvsPendingSignalingPushIce\<close> and \<open>kvsPendingSignalingPutAnswer\<close> on the client's buffer.\<close>

definition push_message :: "string \<Rightarrow> string option \<Rightarrow> nat \<Rightarrow> uint32 \<Rightarrow> 'w client \<Rightarrow> bool \<times> 'w client" where
  "push_message peer pl n v c =
     (case kvsPendingSignalingPushIce (cl_pending c) (Some peer) pl n v (cl_heap c) of
        (ok, p, h) \<Rightarrow> (ok, c\<lparr>cl_pending := p, cl_heap := h\<rparr>))"

definition put_message :: "'w ports \<Rightarrow> webrtc_message \<Rightarrow> 'w client \<Rightarrow> bool \<times> 'w client" where
  "put_message W m c =
     (case kvsPendingSignalingPutAnswer (cl_pending c) (Some (peer_client_id m)) (Some (correlation_id m))
             (msg_payload m) (msg_payload_len m) (msg_version m) (now_ms W c) (cl_heap c) of
        (ok, p, h) \<Rightarrow> (ok, c\<lparr>cl_pending := p, cl_heap := h\<rparr>))"

definition kvsBufferFailedSend :: "'w ports \<Rightarrow> webrtc_message \<Rightarrow> 'w client \<Rightarrow> bool \<times> 'w client" where
  "kvsBufferFailedSend W m c =
     (if message_type m = WEBRTC_MESSAGE_TYPE_ANSWER then put_message W m c
      else if message_type m = WEBRTC_MESSAGE_TYPE_ICE_CANDIDATE
      then push_message (peer_client_id m) (msg_payload m) (msg_payload_len m) (msg_version m) c
      else (False, c))"

section \<open>The flush\<close>

text \<open>\<open>kvsResendPendingMessage\<close>, the send callback of the drain; its state is the client.\<close>

definition kvsResendPendingMessage :: "'w ports \<Rightarrow> 'w client pending_send" where
  "kvsResendPendingMessage W c type peerId correlationId payload payloadLen version =
     (if \<not> cl_is_live c then (False, c)
      else
        (let c1 = others W c;
             purged = kvsPendingSignalingIsPurged (cl_pending c1) (Some peerId);
             newerAnswer = (\<not> purged \<and> kvsPendingSignalingHasAnswer (cl_pending c1) (Some peerId));
             superseded = (newerAnswer \<and> type = KVS_PENDING_MSG_ANSWER)
         in if newerAnswer \<and> type = KVS_PENDING_MSG_ICE_CANDIDATE
            then (True, snd (push_message peerId (Some payload) payloadLen version c1))
            else if purged \<or> superseded then (True, c1)
            else
              (case send_sync W
                      \<lparr>sm_type = (if type = KVS_PENDING_MSG_ANSWER then SIGNALING_MESSAGE_TYPE_ANSWER
                                  else SIGNALING_MESSAGE_TYPE_ICE_CANDIDATE),
                       sm_peer = strlcpy peerId MAX_SIGNALING_CLIENT_ID_LEN,
                       sm_corr = strlcpy correlationId MAX_CORRELATION_ID_LEN,
                       sm_payload = Some payload, sm_payload_len = payloadLen, sm_version = version\<rparr> c1 of
                 (s, c2) \<Rightarrow> (STATUS_SUCCEEDED s, c2))))"

text \<open>
  The first critical section. The peers whose answers the batch holds are copied with
  \<open>STRNCPY\<close> into rows of 256 bytes; the rows behind them keep what they had.
\<close>

datatype flush_begin = flush_leaves | flush_holds pending

definition copy_answer_peers :: "pending \<Rightarrow> string list \<Rightarrow> string list" where
  "copy_answer_peers b rows =
     (let n = min (answer_count b) KVS_PENDING_ANSWER_MAX
      in map (\<lambda>i. strncpy_term KVS_PENDING_ICE_PEERID_LEN (an_peer (answer_slots b ! i))) [0..<n] @ drop n rows)"

definition flush_enter :: "'w client \<Rightarrow> flush_begin \<times> 'w client" where
  "flush_enter c =
     (if pendingFlushes c > 0 then (flush_leaves, c\<lparr>flushAgain := True\<rparr>)
      else case kvsPendingSignalingTake (cl_pending c) of (p, b) \<Rightarrow>
        if kvsPendingSignalingCount (Some b) = 0
        then (flush_leaves, c\<lparr>cl_pending := p, cl_heap := snd (kvsPendingSignalingFree b (cl_heap c))\<rparr>)
        else (flush_holds b,
              c\<lparr>cl_pending := p, pendingFlushes := pendingFlushes c + 1, flushAgain := False,
                flushAnswerPeers := copy_answer_peers b (flushAnswerPeers c),
                flushAnswerPeerCount := min (answer_count b) KVS_PENDING_ANSWER_MAX\<rparr>))"

text \<open>
  The drain frees what it sent while the callback buffers into the client, in one heap. The model
  gives the drain a copy of the heap and charges what it freed to the client's afterwards: the drain
  itself allocates nothing.
\<close>

definition charge_frees :: "heap \<Rightarrow> heap \<Rightarrow> heap \<Rightarrow> heap" where
  "charge_frees h0 h1 h = h\<lparr>live := live h + (live h1 - live h0)\<rparr>"

definition flush_send :: "'w ports \<Rightarrow> pending \<Rightarrow> 'w client \<Rightarrow> nat \<times> pending \<times> 'w client" where
  "flush_send W b c =
     (case kvsPendingSignalingDrain (Some b) (Some (kvsResendPendingMessage W)) c (now_ms W c) (cl_heap c) of
        (remaining, stats, b', c', h) \<Rightarrow>
          (remaining, the b', c'\<lparr>cl_heap := charge_frees (cl_heap c) h (cl_heap c')\<rparr>))"

text \<open>The second critical section: whether another round follows.\<close>

definition flush_leave :: "nat \<Rightarrow> pending \<Rightarrow> 'w client \<Rightarrow> bool \<times> 'w client" where
  "flush_leave remaining b c =
     (case kvsPendingSignalingMerge (cl_pending c) b (cl_heap c) of
        (dropped, p, b', h) \<Rightarrow>
          ((remaining = 0 \<or> flushAgain c) \<and> kvsPendingSignalingCount (Some p) > 0,
           c\<lparr>cl_pending := p, cl_heap := h, pendingFlushes := pendingFlushes c - 1,
             flushAnswerPeerCount := 0, flushAgain := False\<rparr>))"

text \<open>One round: whether the loop goes on.\<close>

definition flush_round :: "'w ports \<Rightarrow> 'w client \<Rightarrow> bool \<times> 'w client" where
  "flush_round W c =
     (if \<not> cl_is_live c then (False, c)
      else case flush_enter (others W c) of
        (flush_leaves, c1) \<Rightarrow> (False, c1)
      | (flush_holds b, c1) \<Rightarrow>
          (case flush_send W b c1 of (remaining, b', c2) \<Rightarrow> flush_leave remaining b' (others W c2)))"

definition KVS_PENDING_FLUSH_MAX_ROUNDS :: nat where "KVS_PENDING_FLUSH_MAX_ROUNDS = 4"

primrec flush_rounds :: "'w ports \<Rightarrow> nat \<Rightarrow> 'w client \<Rightarrow> 'w client" where
  "flush_rounds W 0 c = queue_flush W c"
| "flush_rounds W (Suc n) c =
     (case flush_round W c of (again, c1) \<Rightarrow> if again then flush_rounds W n c1 else c1)"

definition kvsFlushPendingSignaling :: "'w ports \<Rightarrow> 'w client \<Rightarrow> 'w client" where
  "kvsFlushPendingSignaling W c =
     (if \<not> signalingClientHandle c then c else flush_rounds W KVS_PENDING_FLUSH_MAX_ROUNDS c)"

definition kvs_flush_pending_task :: "'w ports \<Rightarrow> 'w client \<Rightarrow> 'w client" where
  "kvs_flush_pending_task W c = (if \<not> cl_is_live c then c else kvsFlushPendingSignaling W c)"

section \<open>Sending\<close>

definition to_signaling_message :: "'w ports \<Rightarrow> webrtc_message \<Rightarrow> signaling_message" where
  "to_signaling_message W m =
     \<lparr>sm_type = cast_type W (message_type m),
      sm_peer = strlcpy (peer_client_id m) MAX_SIGNALING_CLIENT_ID_LEN,
      sm_corr = strlcpy (correlation_id m) MAX_CORRELATION_ID_LEN,
      sm_payload = msg_payload m, sm_payload_len = msg_payload_len m, sm_version = msg_version m\<rparr>"

text \<open>The direct send, the last branch of the critical section: status, whether it was buffered.\<close>

definition send_direct :: "'w ports \<Rightarrow> webrtc_message \<Rightarrow> 'w client \<Rightarrow> STATUS \<times> bool \<times> 'w client" where
  "send_direct W m c =
     (case send_sync W (to_signaling_message W m) c of
        (s, c1) \<Rightarrow>
          if STATUS_FAILED s \<and> kvsSignalingLinkDown W c1
          then (case kvsBufferFailedSend W m c1 of
                  (buffered, c2) \<Rightarrow> (if buffered then STATUS_SUCCESS else s, buffered, c2))
          else if STATUS_SUCCEEDED s \<and> message_type m = WEBRTC_MESSAGE_TYPE_ANSWER
          then (case kvsPendingSignalingDropAnswer (cl_pending c1) (Some (peer_client_id m)) (cl_heap c1) of
                  (_, p, h) \<Rightarrow> (s, False, c1\<lparr>cl_pending := p, cl_heap := h\<rparr>))
          else (s, False, c1))"

text \<open>A refused \<open>PutAnswer\<close> falls through to the direct send.\<close>

definition send_locked :: "'w ports \<Rightarrow> webrtc_message \<Rightarrow> 'w client \<Rightarrow> STATUS \<times> bool \<times> 'w client" where
  "send_locked W m c =
     (let inFlush = (pendingFlushes c > 0 \<and> kvsFlushHoldsAnswerFor c (peer_client_id m))
      in if message_type m = WEBRTC_MESSAGE_TYPE_ICE_CANDIDATE \<and>
            (inFlush \<or> kvsPendingSignalingHasAnswer (cl_pending c) (Some (peer_client_id m)))
         then (case push_message (peer_client_id m) (msg_payload m) (msg_payload_len m) (msg_version m) c of
                 (ok, c1) \<Rightarrow> (if ok then STATUS_SUCCESS else STATUS_NOT_ENOUGH_MEMORY, ok, c1))
         else if message_type m = WEBRTC_MESSAGE_TYPE_ANSWER \<and> inFlush
         then (case put_message W m c of
                 (ok, c1) \<Rightarrow> if ok then (STATUS_SUCCESS, True, c1) else send_direct W m c1)
         else send_direct W m c)"

definition send_unlocked :: "'w ports \<Rightarrow> webrtc_message \<Rightarrow> STATUS \<Rightarrow> bool \<Rightarrow> bool \<Rightarrow> 'w client \<Rightarrow> STATUS \<times> 'w client" where
  "send_unlocked W m s buffered flushBacklog c =
     (let metrics = (if STATUS_SUCCEEDED s \<and> \<not> buffered \<and> message_type m = WEBRTC_MESSAGE_TYPE_ANSWER
                     then get_metrics W c else (STATUS_SUCCESS, c))
      in case metrics of
           (ms, c1) \<Rightarrow>
             if STATUS_FAILED ms then (ms, c1)
             else (s, if flushBacklog then queue_flush W c1 else c1))"

definition sendKvsSignalingMessage :: "'w ports \<Rightarrow> 'w client option \<Rightarrow> webrtc_message option \<Rightarrow> STATUS \<times> 'w client option" where
  "sendKvsSignalingMessage W q msg =
     (case (q, msg) of
        (Some c, Some m) \<Rightarrow>
          if \<not> signalingClientHandle c then (STATUS_INVALID_OPERATION, q)
          else
            (case send_locked W m (others W c) of
               (s, buffered, c1) \<Rightarrow>
                 (let flushBacklog = (\<not> buffered \<and> STATUS_SUCCEEDED s \<and> pendingFlushes c1 = 0 \<and>
                                      kvsPendingSignalingCount (Some (cl_pending c1)) > 0)
                  in case send_unlocked W m s buffered flushBacklog c1 of (r, c2) \<Rightarrow> (r, Some c2)))
      | _ \<Rightarrow> (STATUS_NULL_ARG, q))"

definition kvsSignalingPurgePeerCandidates :: "'w ports \<Rightarrow> 'w client option \<Rightarrow> string option \<Rightarrow> STATUS \<times> 'w client option" where
  "kvsSignalingPurgePeerCandidates W q peerId =
     (case (q, peerId) of
        (Some c, Some _) \<Rightarrow>
          (let c1 = others W c
           in case kvsPendingSignalingPurgePeer (cl_pending c1) peerId (cl_heap c1) of
                (removed, p, h) \<Rightarrow> (STATUS_SUCCESS, Some (c1\<lparr>cl_pending := p, cl_heap := h\<rparr>)))
      | _ \<Rightarrow> (STATUS_NULL_ARG, q))"

end
