(* ===== verification/Kvs_Drain.thy ===== *)
theory Kvs_Drain
  imports Kvs_Send
begin

text \<open>
  The drain with a callback whose state matters: what the callback keeps is kept by the drain, and
  a callback that always succeeds is called once for each answer in time and then once for each
  candidate that is left, and empties the batch.
\<close>

section \<open>The callback's state\<close>

definition keeps_ctx :: "('e \<Rightarrow> bool) \<Rightarrow> 'e pending_send \<Rightarrow> bool" where
  "keeps_ctx I f \<longleftrightarrow> (\<forall>s ty q corr pl n v. I s \<longrightarrow> I (snd (f s ty q corr pl n v)))"

lemma keeps_ctxD: "keeps_ctx I f \<Longrightarrow> I s \<Longrightarrow> f s ty q corr pl n v = (ok, s') \<Longrightarrow> I s'"
  unfolding keeps_ctx_def by (metis snd_conv)

lemma answer_compact_ctx:
  assumes "keeps_ctx I f" "I (de_send e)" "compact_list (answer_body f t) ws e = (ws', e')"
  shows "I (de_send e')"
  using assms(2,3)
proof (induction ws arbitrary: e ws')
  case Nil
  then show ?case by simp
next
  case (Cons a ws)
  obtain k a' e1 where b: "answer_body f t a e = (k, a', e1)" by (cases "answer_body f t a e") auto
  obtain vs e2 where r: "compact_list (answer_body f t) ws e1 = (vs, e2)"
    by (cases "compact_list (answer_body f t) ws e1") auto
  have e2: "e2 = e'" using Cons.prems(2) b r by auto
  have "I (de_send e1)" using b Cons.prems(1) keeps_ctxD[OF assms(1)]
    by (auto simp: answer_body_def split: if_splits prod.splits)
  from Cons.IH[OF this r[unfolded e2]] show ?case using Cons.prems(2) b r by auto
qed

lemma ice_compact_ctx:
  assumes "keeps_ctx I f" "I (ie_send e)"
    "compact_list (ice_body (pendingIceSendAdapter f) hold) cs e = (cs', e')"
  shows "I (ie_send e')"
  using assms(2,3)
proof (induction cs arbitrary: e cs')
  case Nil
  then show ?case by simp
next
  case (Cons c cs)
  let ?b = "ice_body (pendingIceSendAdapter f) hold"
  obtain k c' e1 where b: "?b c e = (k, c', e1)" by (cases "?b c e") auto
  obtain vs e2 where r: "compact_list ?b cs e1 = (vs, e2)" by (cases "compact_list ?b cs e1") auto
  have e2: "e2 = e'" using Cons.prems b r by auto
  have "I (ie_send e1)" using b Cons.prems(1) keeps_ctxD[OF assms(1)]
    by (auto simp: ice_body_def pendingIceSendAdapter_def Let_def split: if_splits prod.splits)
  from Cons.IH[OF this r[unfolded e2]] show ?case using Cons.prems(2) b r by auto
qed

text \<open>The drain as its two passes, over the lists that wait.\<close>

lemma drain_passes:
  assumes inv: "pending_inv p"
    and run: "kvsPendingSignalingDrain (Some p) (Some f) ctx t h = (n, st, q, ctx', h')"
  obtains e0 ws' e1 ea cs' i0 i1 where
    "e0 = \<lparr>de_p = p, de_heap = h, de_stats = zero_stats, de_send = ctx\<rparr>"
    "compact_list (answer_body f t) (wait_answers p) e0 = (ws', e1)"
    "ie_send i0 = de_send e1" "wait_answers ea = ws'" "shape ea" "spec_ok (abs_pending ea)"
    "compact_list (ice_body (pendingIceSendAdapter f) (Some (holdBehindAnswer ea)))
       (filter (\<lambda>c. ic_peer c \<notin> expired_peers t (wait_answers p)) (wait_ice p)) i0 = (cs', i1)"
    "ctx' = ie_send i1" "n = length ws' + length cs'"
proof -
  define e0 where "e0 = \<lparr>de_p = p, de_heap = h, de_stats = zero_stats, de_send = ctx\<rparr>"
  define ea where "ea = drain_answers f t e0"
  define ei where "ei = drain_ice f ea"
  obtain ws' e1 where A: "compact_list (answer_body f t) (wait_answers p) e0 = (ws', e1)"
    "shape (de_p ea)" "wait_answers (de_p ea) = ws'"
    "wait_ice (de_p ea) = filter (\<lambda>c. ic_peer c \<notin> expired_peers t (wait_answers p)) (wait_ice p)"
    "spec_ok (abs_pending (de_p ea))" "de_send ea = de_send e1"
    by (rule drain_answers_spec[OF inv e0_def ea_def[symmetric]]) blast
  obtain p' where rel: "releaseEmpty (de_p ei) (de_heap ei) = (p', h')"
    and n: "n = kvsPendingSignalingCount (Some p')" and ctx: "ctx' = de_send ei"
    using run by (auto simp: kvsPendingSignalingDrain_def Let_def e0_def[symmetric] ea_def[symmetric]
        ei_def[symmetric] split: prod.splits)
  have np: "n = ice_count (de_p ei) + answer_count (de_p ei)" using n rel
    by (auto simp: kvsPendingSignalingCount_def releaseEmpty_def Let_def split: if_splits)
  note D = drain_ice_spec[OF A(2,5) ei_def[symmetric]]
  have n': "n = length ws' + length (wait_ice (de_p ei))"
    using np length_wait_ice[OF D(1)] length_wait_answers[OF D(1)] D(4) A(3) by simp
  let ?hold = "Some (holdBehindAnswer (de_p ea))"
  show ?thesis
  proof (cases "ice (de_p ea)")
    case None
    then have "ei = ea" by (simp add: ei_def drain_ice_def)
    moreover have "wait_ice (de_p ea) = []" using None by (simp add: wait_ice_def)
    ultimately show ?thesis using A n' ctx
      by (intro that[OF e0_def A(1), of "\<lparr>ie_send = de_send e1, ie_sent = 0, ie_dropped = 0\<rparr>" "de_p ea" "[]"])
         auto
  next
    case (Some xs)
    define i0 where "i0 = \<lparr>ie_send = de_send ea, ie_sent = ice_sent (de_stats ea),
                   ie_dropped = ice_dropped (de_stats ea)\<rparr>"
    obtain ys w i1 where d: "iceDrain xs (ice_count (de_p ea)) (pendingIceSendAdapter f) ?hold i0 = (ys, w, i1)"
      by (cases "iceDrain xs (ice_count (de_p ea)) (pendingIceSendAdapter f) ?hold i0") auto
    have cap: "ice_count (de_p ea) \<le> length xs" using A(2) Some by (auto simp: shape_def)
    have c: "compact_list (ice_body (pendingIceSendAdapter f) ?hold) (wait_ice (de_p ea)) i0 = (take w ys, i1)"
      using iceDrain_refines[OF cap d] Some by (simp add: wait_ice_def)
    have "ctx' = ie_send i1" "wait_ice (de_p ei) = take w ys"
      using Some d ctx by (simp_all add: ei_def drain_ice_def i0_def wait_ice_def)
    then show ?thesis using A n' c
      by (intro that[OF e0_def A(1), of i0 "de_p ea" "take w ys" i1]) (auto simp: i0_def)
  qed
qed

lemma drain_keeps_ctx:
  assumes "pending_inv p" "keeps_ctx I f" "I ctx"
    and run: "kvsPendingSignalingDrain (Some p) (Some f) ctx t h = (n, st, q, ctx', h')"
  shows "I ctx'"
proof (rule drain_passes[OF assms(1) run])
  fix e0 ws' e1 ea cs' and i0 i1 :: "'a ice_env"
  assume e0: "e0 = \<lparr>de_p = p, de_heap = h, de_stats = zero_stats, de_send = ctx\<rparr>"
    and a: "compact_list (answer_body f t) (wait_answers p) e0 = (ws', e1)" and i: "ie_send i0 = de_send e1"
    and c: "compact_list (ice_body (pendingIceSendAdapter f) (Some (holdBehindAnswer ea)))
       (filter (\<lambda>c. ic_peer c \<notin> expired_peers t (wait_answers p)) (wait_ice p)) i0 = (cs', i1)"
    and out: "ctx' = ie_send i1"
  have "I (de_send e0)" using assms(3) e0 by simp
  from answer_compact_ctx[OF assms(2) this a] have "I (ie_send i0)" using i by simp
  from ice_compact_ctx[OF assms(2) this c] show "I ctx'" using out by simp
qed

section \<open>A callback that always succeeds\<close>

definition always_ok :: "('e \<Rightarrow> bool) \<Rightarrow> 'e pending_send \<Rightarrow> bool" where
  "always_ok I f \<longleftrightarrow> (\<forall>s ty q corr pl n v. I s \<longrightarrow> fst (f s ty q corr pl n v))"

definition answer_call :: "'e pending_send \<Rightarrow> answer \<Rightarrow> 'e \<Rightarrow> 'e" where
  "answer_call f a s = snd (f s KVS_PENDING_MSG_ANSWER (an_peer a) (an_corr a)
     (case an_payload a of None \<Rightarrow> [] | Some b \<Rightarrow> b) (an_payload_len a) (an_version a))"

definition ice_call :: "'e pending_send \<Rightarrow> ice_candidate \<Rightarrow> 'e \<Rightarrow> 'e" where
  "ice_call f c s = snd (pendingIceSendAdapter f s c)"

lemma answer_compact_ok:
  assumes "keeps_ctx I f" "always_ok I f" "I (de_send e)"
    "compact_list (answer_body f t) ws e = (ws', e')"
  shows "ws' = [] \<and> de_send e' = fold (answer_call f) (filter (\<lambda>a. \<not> expired t a) ws) (de_send e)"
  using assms(3,4)
proof (induction ws arbitrary: e ws')
  case Nil
  then show ?case by simp
next
  case (Cons a ws)
  obtain k a' e1 where b: "answer_body f t a e = (k, a', e1)" by (cases "answer_body f t a e") auto
  obtain vs e2 where r: "compact_list (answer_body f t) ws e1 = (vs, e2)"
    by (cases "compact_list (answer_body f t) ws e1") auto
  have e2: "e2 = e'" using Cons.prems(2) b r by auto
  have ok: "fst (f (de_send e) ty q corr pl n v)" for ty q corr pl n v
    using assms(2) Cons.prems(1) by (simp add: always_ok_def)
  have s: "\<not> k" "de_send e1 = (if expired t a then de_send e else answer_call f a (de_send e))"
    using b ok[of KVS_PENDING_MSG_ANSWER "an_peer a" "an_corr a"
        "case an_payload a of None \<Rightarrow> [] | Some b \<Rightarrow> b" "an_payload_len a" "an_version a"]
    by (auto simp: answer_body_def expired_def answer_call_def split: if_splits prod.splits)
  have "I (de_send e1)" using s(2) Cons.prems(1) assms(1) by (auto simp: answer_call_def keeps_ctx_def)
  from Cons.IH[OF this r[unfolded e2]] show ?case using Cons.prems(2) b r s by auto
qed

lemma ice_compact_ok_all:
  assumes "keeps_ctx I f" "always_ok I f" "I (ie_send e)" "\<forall>c \<in> set cs. \<not> held hold (ic_peer c)"
    "compact_list (ice_body (pendingIceSendAdapter f) hold) cs e = (cs', e')"
  shows "cs' = [] \<and> ie_send e' = fold (ice_call f) cs (ie_send e)"
  using assms(3-5)
proof (induction cs arbitrary: e cs')
  case Nil
  then show ?case by simp
next
  case (Cons c cs)
  let ?b = "ice_body (pendingIceSendAdapter f) hold"
  obtain k c' e1 where b: "?b c e = (k, c', e1)" by (cases "?b c e") auto
  obtain vs e2 where r: "compact_list ?b cs e1 = (vs, e2)" by (cases "compact_list ?b cs e1") auto
  have e2: "e2 = e'" using Cons.prems b r by auto
  have ok: "fst (pendingIceSendAdapter f (ie_send e) c)"
    using assms(2) Cons.prems(1) by (simp add: always_ok_def pendingIceSendAdapter_def)
  have s: "\<not> k" "ie_send e1 = ice_call f c (ie_send e)"
    using b ok Cons.prems(2) by (auto simp: ice_body_def ice_call_def Let_def split: if_splits prod.splits)
  have "I (ie_send e1)" using s(2) Cons.prems(1) assms(1)
    by (auto simp: ice_call_def pendingIceSendAdapter_def keeps_ctx_def)
  from Cons.IH[OF this _ r[unfolded e2]] show ?case using Cons.prems(2,3) b r s by auto
qed

lemma drain_all_ok:
  assumes inv: "pending_inv p" and I: "keeps_ctx I f" "always_ok I f" "I ctx"
    and run: "kvsPendingSignalingDrain (Some p) (Some f) ctx t h = (n, st, q, ctx', h')"
  shows "n = 0"
    "ctx' = fold (ice_call f) (filter (\<lambda>c. ic_peer c \<notin> expired_peers t (wait_answers p)) (wait_ice p))
       (fold (answer_call f) (filter (\<lambda>a. \<not> expired t a) (wait_answers p)) ctx)"
proof -
  obtain e0 ws' e1 ea cs' i0 i1 where P:
    "e0 = \<lparr>de_p = p, de_heap = h, de_stats = zero_stats, de_send = ctx\<rparr>"
    "compact_list (answer_body f t) (wait_answers p) e0 = (ws', e1)"
    "ie_send i0 = de_send e1" "wait_answers ea = ws'" "shape ea" "spec_ok (abs_pending ea)"
    "compact_list (ice_body (pendingIceSendAdapter f) (Some (holdBehindAnswer ea)))
       (filter (\<lambda>c. ic_peer c \<notin> expired_peers t (wait_answers p)) (wait_ice p)) i0 = (cs', i1)"
    "ctx' = ie_send i1" "n = length ws' + length cs'"
    by (rule drain_passes[OF inv run])
  have e0: "I (de_send e0)" using I(3) P(1) by simp
  note A = answer_compact_ok[OF I(1,2) e0 P(2)]
  have i0: "I (ie_send i0)" using answer_compact_ctx[OF I(1) e0 P(2)] P(3) by simp
  have none: "answer_peers ea = {}" using A P(4) by (simp add: answer_peers_def)
  have ic: "list_all cand_ok (wait_ice p)" using inv by (simp add: pending_inv_alt spec_ok_def)
  have hold: "\<forall>c \<in> set (filter (\<lambda>c. ic_peer c \<notin> expired_peers t (wait_answers p)) (wait_ice p)).
      \<not> held (Some (holdBehindAnswer ea)) (ic_peer c)"
    using held_behind[OF P(5,6)] ic none by (auto simp: list_all_iff cand_ok_def)
  note C = ice_compact_ok_all[OF I(1,2) i0 hold P(7)]
  show "n = 0" using A C P(9) by simp
  show "ctx' = fold (ice_call f) (filter (\<lambda>c. ic_peer c \<notin> expired_peers t (wait_answers p)) (wait_ice p))
       (fold (answer_call f) (filter (\<lambda>a. \<not> expired t a) (wait_answers p)) ctx)"
    using A C P(1,3,8) by simp
qed

end
