(* ===== verification/Kvs_Rely.thy ===== *)
theory Kvs_Rely
  imports Kvs_Drain
begin

text \<open>
  What the tasks of the KVS signaling client rely on and guarantee to each other: under the send
  lock they keep the buffer well formed and its ledger balanced, and only the task that holds a
  flushed batch touches the record of that batch.
\<close>

section \<open>Rely and guarantee\<close>

definition same_flush :: "'w client \<Rightarrow> 'w client \<Rightarrow> bool" where
  "same_flush c c' \<longleftrightarrow> pendingFlushes c' = pendingFlushes c \<and> flushAnswerPeers c' = flushAnswerPeers c \<and>
     flushAnswerPeerCount c' = flushAnswerPeerCount c"

definition rely :: "'w client \<Rightarrow> 'w client \<Rightarrow> bool" where
  "rely c c' \<longleftrightarrow> same_flush c c' \<and>
     (pending_inv (cl_pending c) \<longrightarrow> pending_inv (cl_pending c') \<and>
        balance (cl_pending c') (cl_heap c') = balance (cl_pending c) (cl_heap c))"

lemma rely_refl [simp, intro]: "rely c c"
  by (simp add: rely_def same_flush_def)

lemma rely_trans [trans]: "rely a b \<Longrightarrow> rely b c \<Longrightarrow> rely a c"
  by (auto simp: rely_def same_flush_def)

lemma rely_inv: "rely c c' \<Longrightarrow> pending_inv (cl_pending c) \<Longrightarrow> pending_inv (cl_pending c')"
  by (simp add: rely_def)

text \<open>A field outside the lock, and the buffer with its heap.\<close>

lemma rely_frame [simp]:
  "rely c (c\<lparr>cl_world := w\<rparr>)" "rely c (c\<lparr>cl_flush_tasks := n\<rparr>)" "rely c (c\<lparr>flushAgain := b\<rparr>)"
  "rely c (c\<lparr>lastNotifiedState := s, connected := b\<rparr>)"
  by (simp_all add: rely_def same_flush_def)

lemma rely_buffer:
  "pending_inv (cl_pending c) \<Longrightarrow> pending_inv p \<Longrightarrow> balance p h = balance (cl_pending c) (cl_heap c) \<Longrightarrow>
   rely c (c\<lparr>cl_pending := p, cl_heap := h\<rparr>)"
  by (simp add: rely_def same_flush_def)

definition ports_ok :: "'w ports \<Rightarrow> bool" where
  "ports_ok W \<longleftrightarrow> (\<forall>c. rely c (others W c)) \<and> (\<forall>m c. rely c (snd (send_sync W m c))) \<and>
     (\<forall>c. rely c (snd (get_metrics W c)))"

lemma ports_okD:
  assumes "ports_ok W"
  shows "rely c (others W c)" "send_sync W m c = (s, c') \<Longrightarrow> rely c c'"
    "get_metrics W c = (s, c') \<Longrightarrow> rely c c'"
  using assms unfolding ports_ok_def by (simp, metis snd_conv, metis snd_conv)

section \<open>Buffering\<close>

lemma push_message_spec:
  assumes inv: "pending_inv (cl_pending c)" and run: "push_message q pl n v c = (ok, c')"
  shows "rely c c'" "cl_world c' = cl_world c"
    "wait_answers (cl_pending c') = wait_answers (cl_pending c)"
    "wait_ice (cl_pending c') = wait_ice (cl_pending c) @ (if ok then [mk_candidate (Some q) (the pl) n v] else [])"
    "c' = c\<lparr>cl_pending := cl_pending c', cl_heap := cl_heap c'\<rparr>"
proof -
  obtain p h where r: "kvsPendingSignalingPushIce (cl_pending c) (Some q) pl n v (cl_heap c) = (ok, p, h)"
    and c': "c' = c\<lparr>cl_pending := p, cl_heap := h\<rparr>"
    using run by (auto simp: push_message_def split: prod.splits)
  note S = pushIce_spec[OF inv r]
  show "rely c c'" using rely_buffer[OF inv S(1,3)] c' by simp
  show "cl_world c' = cl_world c" "c' = c\<lparr>cl_pending := cl_pending c', cl_heap := cl_heap c'\<rparr>"
    by (simp_all add: c')
  show "wait_answers (cl_pending c') = wait_answers (cl_pending c)"
    "wait_ice (cl_pending c') = wait_ice (cl_pending c) @ (if ok then [mk_candidate (Some q) (the pl) n v] else [])"
    using S(4,5) c' by auto
qed

lemma put_message_spec:
  assumes inv: "pending_inv (cl_pending c)" and run: "put_message W m c = (ok, c')"
  shows "rely c c'" "cl_world c' = cl_world c" "ok \<Longrightarrow> mk_answer (Some (peer_client_id m)) (Some (correlation_id m))
      (the (msg_payload m)) (msg_payload_len m) (msg_version m) (now_ms W c) \<in> set (wait_answers (cl_pending c'))"
    "\<not> ok \<Longrightarrow> abs_pending (cl_pending c') = abs_pending (cl_pending c)"
    "c' = c\<lparr>cl_pending := cl_pending c', cl_heap := cl_heap c'\<rparr>"
proof -
  let ?put = "kvsPendingSignalingPutAnswer (cl_pending c) (Some (peer_client_id m)) (Some (correlation_id m))
             (msg_payload m) (msg_payload_len m) (msg_version m) (now_ms W c) (cl_heap c)"
  obtain p h where r: "?put = (ok, p, h)" and c': "c' = c\<lparr>cl_pending := p, cl_heap := h\<rparr>"
    using run by (auto simp: put_message_def split: prod.splits)
  note S = putAnswer_spec[OF inv r]
  show "rely c c'" using rely_buffer[OF inv, of p h] S c' by simp
  show "cl_world c' = cl_world c" "c' = c\<lparr>cl_pending := cl_pending c', cl_heap := cl_heap c'\<rparr>"
    by (simp_all add: c')
  show "\<not> ok \<Longrightarrow> abs_pending (cl_pending c') = abs_pending (cl_pending c)" using S c' by simp
  assume ok
  then obtain bytes where b: "msg_payload m = Some bytes"
    "spec_insert (mk_answer (Some (peer_client_id m)) (Some (correlation_id m)) bytes (msg_payload_len m)
       (msg_version m) (now_ms W c)) (abs_pending (cl_pending c)) = Some (abs_pending p)"
    using S by auto
  have "a \<in> set (sp_answers s')" if "spec_insert a s = Some s'" for a s s'
    using that by (auto simp: spec_insert_def Let_def split: if_splits option.splits)
  from this[OF b(2)] show "mk_answer (Some (peer_client_id m)) (Some (correlation_id m))
      (the (msg_payload m)) (msg_payload_len m) (msg_version m) (now_ms W c) \<in> set (wait_answers (cl_pending c'))"
    using b(1) c' by simp
qed

text \<open>A message that waits in the buffer: its answer, or its candidate as the newest one.\<close>

definition waits_in :: "webrtc_message \<Rightarrow> 'w client \<Rightarrow> bool" where
  "waits_in m c \<longleftrightarrow>
     (message_type m = WEBRTC_MESSAGE_TYPE_ANSWER \<and>
        (\<exists>t. mk_answer (Some (peer_client_id m)) (Some (correlation_id m)) (the (msg_payload m))
               (msg_payload_len m) (msg_version m) t \<in> set (wait_answers (cl_pending c)))) \<or>
     (message_type m = WEBRTC_MESSAGE_TYPE_ICE_CANDIDATE \<and> wait_ice (cl_pending c) \<noteq> [] \<and>
        last (wait_ice (cl_pending c)) =
          mk_candidate (Some (peer_client_id m)) (the (msg_payload m)) (msg_payload_len m) (msg_version m))"

lemma buffer_failed_spec:
  assumes inv: "pending_inv (cl_pending c)" and run: "kvsBufferFailedSend W m c = (ok, c')"
  shows "rely c c'" "ok \<Longrightarrow> waits_in m c'" "\<not> ok \<Longrightarrow> abs_pending (cl_pending c') = abs_pending (cl_pending c)"
    "cl_world c' = cl_world c"
proof -
  have "rely c c' \<and> (ok \<longrightarrow> waits_in m c') \<and>
      (\<not> ok \<longrightarrow> abs_pending (cl_pending c') = abs_pending (cl_pending c)) \<and> cl_world c' = cl_world c"
  proof (cases "message_type m")
    case WEBRTC_MESSAGE_TYPE_ANSWER
    then have "put_message W m c = (ok, c')" using run by (simp add: kvsBufferFailedSend_def)
    from put_message_spec[OF inv this] WEBRTC_MESSAGE_TYPE_ANSWER show ?thesis by (auto simp: waits_in_def)
  next
    case WEBRTC_MESSAGE_TYPE_ICE_CANDIDATE
    then have "push_message (peer_client_id m) (msg_payload m) (msg_payload_len m) (msg_version m) c = (ok, c')"
      using run by (simp add: kvsBufferFailedSend_def)
    from push_message_spec[OF inv this] WEBRTC_MESSAGE_TYPE_ICE_CANDIDATE show ?thesis
      by (auto simp: waits_in_def abs_pending_def)
  qed (use run in \<open>simp_all add: kvsBufferFailedSend_def rely_refl\<close>)
  then show "rely c c'" "ok \<Longrightarrow> waits_in m c'" "\<not> ok \<Longrightarrow> abs_pending (cl_pending c') = abs_pending (cl_pending c)"
    "cl_world c' = cl_world c" by auto
qed

section \<open>The guarantee of every task\<close>

lemma send_direct_rely:
  assumes W: "ports_ok W" and inv: "pending_inv (cl_pending c)" and run: "send_direct W m c = (s, buffered, c')"
  shows "rely c c'"
proof -
  obtain s1 c1 where d: "send_sync W (to_signaling_message W m) c = (s1, c1)"
    by (cases "send_sync W (to_signaling_message W m) c") auto
  note r1 = ports_okD(2)[OF W d]
  note i1 = rely_inv[OF r1 inv]
  obtain ok c2 where b: "kvsBufferFailedSend W m c1 = (ok, c2)" by (cases "kvsBufferFailedSend W m c1") auto
  obtain k p h where a: "kvsPendingSignalingDropAnswer (cl_pending c1) (Some (peer_client_id m)) (cl_heap c1) = (k, p, h)"
    by (metis prod_cases3)
  have r: "rely c1 c2" "rely c1 (c1\<lparr>cl_pending := p, cl_heap := h\<rparr>)"
    using buffer_failed_spec(1)[OF i1 b] rely_buffer[OF i1] dropAnswer_spec(1,3)[OF i1 a] by auto
  have "c' \<in> {c1, c2, c1\<lparr>cl_pending := p, cl_heap := h\<rparr>}"
    using run d b a by (auto simp: send_direct_def split: if_splits)
  then show ?thesis using r1 r rely_trans by blast
qed

lemma send_locked_rely:
  assumes W: "ports_ok W" and inv: "pending_inv (cl_pending c)" and run: "send_locked W m c = (s, buffered, c')"
  shows "rely c c'"
proof -
  obtain ok c1 where p: "push_message (peer_client_id m) (msg_payload m) (msg_payload_len m) (msg_version m) c = (ok, c1)"
    by (cases "push_message (peer_client_id m) (msg_payload m) (msg_payload_len m) (msg_version m) c") auto
  obtain ok' c2 where a: "put_message W m c = (ok', c2)" by (cases "put_message W m c") auto
  note rp = push_message_spec(1)[OF inv p] and ra = put_message_spec(1)[OF inv a]
  note i2 = rely_inv[OF ra inv]
  have "c' = c1 \<or> c' = c2 \<or> send_direct W m c2 = (s, buffered, c') \<or> send_direct W m c = (s, buffered, c')"
    using run p a by (auto simp: send_locked_def Let_def split: if_splits)
  then show ?thesis
    using rp ra send_direct_rely[OF W i2] send_direct_rely[OF W inv] rely_trans by blast
qed

lemma send_unlocked_rely:
  assumes "ports_ok W" "send_unlocked W m s buffered fb c = (r, c')"
  shows "rely c c'"
proof -
  obtain ms c1 where g: "get_metrics W c = (ms, c1)" by (cases "get_metrics W c") auto
  note R = ports_okD(3)[OF assms(1) g]
  have "rely a (queue_flush W a)" for a by (simp add: queue_flush_def)
  then show ?thesis using assms(2) g R rely_trans
    by (fastforce simp: send_unlocked_def Let_def split: if_splits prod.splits)
qed

lemma send_guarantee:
  assumes W: "ports_ok W" and inv: "pending_inv (cl_pending c)"
    and run: "sendKvsSignalingMessage W (Some c) msg = (r, Some c')"
  shows "rely c c'"
proof (cases "msg = None \<or> \<not> signalingClientHandle c")
  case True
  then show ?thesis using run by (auto simp: sendKvsSignalingMessage_def split: option.splits)
next
  case False
  then obtain m where m: "msg = Some m" by auto
  note R = ports_okD(1)[OF W, of c]
  obtain s b c1 where l: "send_locked W m (others W c) = (s, b, c1)" by (metis prod_cases3)
  have "rely c c1" using send_locked_rely[OF W rely_inv[OF R inv] l] R rely_trans by blast
  moreover have "rely c1 c'" using run l m False send_unlocked_rely[OF W]
    by (auto simp: sendKvsSignalingMessage_def Let_def split: prod.splits)
  ultimately show ?thesis by (rule rely_trans)
qed

lemma purge_guarantee:
  assumes W: "ports_ok W" and inv: "pending_inv (cl_pending c)"
    and run: "kvsSignalingPurgePeerCandidates W (Some c) q = (r, Some c')"
  shows "rely c c'"
proof (cases q)
  case None
  then show ?thesis using run by (simp add: kvsSignalingPurgePeerCandidates_def)
next
  case (Some x)
  note R = ports_okD(1)[OF W, of c]
  note i = rely_inv[OF R inv]
  obtain k p h where a: "kvsPendingSignalingPurgePeer (cl_pending (others W c)) (Some x) (cl_heap (others W c)) = (k, p, h)"
    by (metis prod_cases3)
  have "c' = (others W c)\<lparr>cl_pending := p, cl_heap := h\<rparr>"
    using run Some a by (simp add: kvsSignalingPurgePeerCandidates_def Let_def)
  then show ?thesis using rely_buffer[OF i] purgePeer_spec(1,2)[OF i a] R rely_trans by blast
qed

lemma state_guarantee:
  assumes "kvsStateChangedCallback W s (Some c) = (r, Some c')"
  shows "rely c c'"
proof -
  have q: "rely a b \<Longrightarrow> rely a (queue_flush W b)" for a b
    using rely_trans[of a b "queue_flush W b"] by (simp add: queue_flush_def)
  have w: "rely a b \<Longrightarrow> rely a (b\<lparr>cl_world := u\<rparr>)" for a b u using rely_trans[of a b] by simp
  show ?thesis using assms
    by (auto simp: kvsStateChangedCallback_def Let_def intro!: q w split: if_splits prod.splits)
qed

text \<open>A flush that finds another one running only asks it for one more pass.\<close>

lemma second_flush_guarantee:
  "pendingFlushes c > 0 \<Longrightarrow> flush_enter c = (flush_leaves, c\<lparr>flushAgain := True\<rparr>)"
  by (simp add: flush_enter_def)

section \<open>The batch of a running flush\<close>

lemma flush_enter_holds:
  assumes inv: "pending_inv (cl_pending c)" and run: "flush_enter c = (flush_holds b, c')"
  shows "pending_inv b" "pending_inv (cl_pending c')" "pendingFlushes c = 0" "pendingFlushes c' = 1"
    "abs_pending b = abs_pending (cl_pending c)" "abs_pending (cl_pending c') = \<lparr>sp_answers = [], sp_ice = []\<rparr>"
    "take (flushAnswerPeerCount c') (flushAnswerPeers c') = map an_peer (wait_answers b)"
    "blocks (cl_pending c) = blocks (cl_pending c') + blocks b" "cl_heap c' = cl_heap c"
    "purged_ids (cl_pending c') = purged_ids (cl_pending c)"
    "wait_answers b \<noteq> [] \<or> wait_ice b \<noteq> []"
    "c' = c\<lparr>cl_pending := cl_pending c', pendingFlushes := 1, flushAgain := False,
            flushAnswerPeers := flushAnswerPeers c', flushAnswerPeerCount := flushAnswerPeerCount c'\<rparr>"
proof -
  obtain p where t: "kvsPendingSignalingTake (cl_pending c) = (p, b)"
    and z: "pendingFlushes c = 0" "kvsPendingSignalingCount (Some b) \<noteq> 0"
    and c': "c' = c\<lparr>cl_pending := p, pendingFlushes := pendingFlushes c + 1, flushAgain := False,
                flushAnswerPeers := copy_answer_peers b (flushAnswerPeers c),
                flushAnswerPeerCount := min (answer_count b) KVS_PENDING_ANSWER_MAX\<rparr>"
    using run by (auto simp: flush_enter_def word_gt_0 split: if_splits prod.splits)
  note T = take_spec[OF inv t]
  have sh: "shape b" and ok: "list_all ans_ok (wait_answers b)"
    using T(2) by (auto simp: pending_inv_alt spec_ok_def)
  have n: "answer_count b \<le> KVS_PENDING_ANSWER_MAX"
    using sh by (auto simp: shape_def slots_ok_def split: option.splits)
  have "strncpy_term KVS_PENDING_ICE_PEERID_LEN (an_peer (answer_slots b ! i)) = an_peer (wait_answers b ! i)"
    if i: "i < answer_count b" for i
  proof -
    have "wait_answers b ! i \<in> set (wait_answers b)" using i length_wait_answers[OF sh] by simp
    then have "length (an_peer (wait_answers b ! i)) < KVS_PENDING_ICE_PEERID_LEN"
      using ok by (auto simp: list_all_iff ans_ok_def)
    then show ?thesis by (simp add: strncpy_term_id nth_wait_answers[OF i, symmetric])
  qed
  then have "map (\<lambda>i. strncpy_term KVS_PENDING_ICE_PEERID_LEN (an_peer (answer_slots b ! i))) [0..<answer_count b] =
      map an_peer (wait_answers b)"
    using length_wait_answers[OF sh] by (intro nth_equalityI) auto
  then show "take (flushAnswerPeerCount c') (flushAnswerPeers c') = map an_peer (wait_answers b)"
    using n length_wait_answers[OF sh] by (simp add: c' copy_answer_peers_def Let_def min_absorb1)
  show "pending_inv b" "pending_inv (cl_pending c')" "abs_pending b = abs_pending (cl_pending c)"
    "abs_pending (cl_pending c') = \<lparr>sp_answers = [], sp_ice = []\<rparr>"
    "blocks (cl_pending c) = blocks (cl_pending c') + blocks b" "purged_ids (cl_pending c') = purged_ids (cl_pending c)"
    "cl_heap c' = cl_heap c" using T by (simp_all add: c')
  show "pendingFlushes c = 0" "pendingFlushes c' = 1" using z by (simp_all add: c')
  show "wait_answers b \<noteq> [] \<or> wait_ice b \<noteq> []" using z(2) length_wait_answers[OF sh] length_wait_ice[OF sh]
    by (auto simp: kvsPendingSignalingCount_def)
  show "c' = c\<lparr>cl_pending := cl_pending c', pendingFlushes := 1, flushAgain := False,
            flushAnswerPeers := flushAnswerPeers c', flushAnswerPeerCount := flushAnswerPeerCount c'\<rparr>"
    using z by (simp add: c')
qed

lemma flush_enter_rows:
  "flush_enter c = (flush_holds b, c') \<Longrightarrow> flushAnswerPeerCount c' \<le> length (flushAnswerPeers c')"
  by (auto simp: flush_enter_def copy_answer_peers_def Let_def split: if_splits prod.splits)

lemma holds_answer_for:
  assumes n: "flushAnswerPeerCount c \<le> length (flushAnswerPeers c)"
    and q: "q \<in> set (take (flushAnswerPeerCount c) (flushAnswerPeers c))"
  shows "kvsFlushHoldsAnswerFor c q"
proof -
  obtain i where "i < flushAnswerPeerCount c" "flushAnswerPeers c ! i = q"
    using q n by (auto simp: in_set_conv_nth)
  then show ?thesis by (auto simp: kvsFlushHoldsAnswerFor_def list_ex_iff intro!: bexI[of _ i])
qed

end
