(* ===== verification/Kvs_Flush.thy ===== *)
theory Kvs_Flush
  imports Kvs_Rely
begin

text \<open>
  The flush of the KVS signaling client with other tasks interleaved: it keeps the buffer and its
  ledger, and once the link is up it ends, after finitely many flush tasks, with nothing waiting.
\<close>

section \<open>Invariant and ledger of a round\<close>

lemma resend_keeps:
  assumes W: "ports_ok W" and inv: "pending_inv (cl_pending c)"
  shows "keeps_ctx (rely c) (kvsResendPendingMessage W)"
proof (unfold keeps_ctx_def, intro allI impI)
  fix s ty q corr pl n v assume s: "rely c s"
  note o = ports_okD(1)[OF W, of s]
  have so: "rely c (others W s)" using s o rely_trans by blast
  note i = rely_inv[OF so inv]
  define msg where "msg = \<lparr>sm_type = (if ty = KVS_PENDING_MSG_ANSWER then SIGNALING_MESSAGE_TYPE_ANSWER
                                  else SIGNALING_MESSAGE_TYPE_ICE_CANDIDATE),
                       sm_peer = strlcpy q MAX_SIGNALING_CLIENT_ID_LEN,
                       sm_corr = strlcpy corr MAX_CORRELATION_ID_LEN,
                       sm_payload = Some pl, sm_payload_len = n, sm_version = v\<rparr>"
  obtain st c2 where d: "send_sync W msg (others W s) = (st, c2)" by (cases "send_sync W msg (others W s)") auto
  obtain ok c3 where p: "push_message q (Some pl) n v (others W s) = (ok, c3)"
    by (cases "push_message q (Some pl) n v (others W s)") auto
  have "snd (kvsResendPendingMessage W s ty q corr pl n v) \<in> {s, others W s, c2, c3}"
    using d p by (auto simp: kvsResendPendingMessage_def Let_def msg_def[symmetric])
  moreover have "rely c c2" "rely c c3"
    using so ports_okD(2)[OF W d] push_message_spec(1)[OF i p] rely_trans by blast+
  ultimately show "rely c (snd (kvsResendPendingMessage W s ty q corr pl n v))" using s so by auto
qed

lemma flush_send_drain:
  assumes "flush_send W b c = (remaining, b', c')"
  obtains st ctx h where
    "kvsPendingSignalingDrain (Some b) (Some (kvsResendPendingMessage W)) c (now_ms W c) (cl_heap c) =
       (remaining, st, Some b', ctx, h)"
    "c' = ctx\<lparr>cl_heap := charge_frees (cl_heap c) h (cl_heap ctx)\<rparr>"
proof -
  obtain n st q ctx h where d: "kvsPendingSignalingDrain (Some b) (Some (kvsResendPendingMessage W)) c
      (now_ms W c) (cl_heap c) = (n, st, q, ctx, h)" by (metis prod_cases5)
  have "q \<noteq> None" using d by (auto simp: kvsPendingSignalingDrain_def Let_def split: prod.splits)
  then show ?thesis using assms d that by (auto simp: flush_send_def)
qed

lemma flush_send_spec:
  assumes W: "ports_ok W" and inv: "pending_inv (cl_pending c)" "pending_inv b"
    and run: "flush_send W b c = (remaining, b', c')"
  shows "same_flush c c'" "pending_inv (cl_pending c')" "pending_inv b'"
    "live (cl_heap c') - blocks (cl_pending c') - blocks b' = live (cl_heap c) - blocks (cl_pending c) - blocks b"
    "remaining = length (wait_answers b') + length (wait_ice b')"
    "answer_peers b' \<subseteq> answer_peers b"
proof -
  obtain st ctx h where d: "kvsPendingSignalingDrain (Some b) (Some (kvsResendPendingMessage W)) c
        (now_ms W c) (cl_heap c) = (remaining, st, Some b', ctx, h)"
    and c': "c' = ctx\<lparr>cl_heap := charge_frees (cl_heap c) h (cl_heap ctx)\<rparr>"
    by (rule flush_send_drain[OF run])
  note R = drain_keeps_ctx[OF inv(2) resend_keeps[OF W inv(1)] rely_refl d]
  obtain p' where q: "Some b' = Some p'" and D: "pending_inv p'" "balance p' h = balance b (cl_heap c)"
    "remaining = length (wait_answers p') + length (wait_ice p')"
    "\<forall>a \<in> set (wait_answers p'). a \<in> set (wait_answers b) \<and> \<not> expired (now_ms W c) a"
    by (rule drain_spec[OF inv(2) d]) blast
  show "same_flush c c'" using R by (simp add: c' rely_def same_flush_def)
  show "pending_inv (cl_pending c')" using rely_inv[OF R inv(1)] by (simp add: c')
  show "pending_inv b'" "remaining = length (wait_answers b') + length (wait_ice b')" using q D by auto
  show "answer_peers b' \<subseteq> answer_peers b" using q D(4) by (auto simp: answer_peers_def)
  show "live (cl_heap c') - blocks (cl_pending c') - blocks b' = live (cl_heap c) - blocks (cl_pending c) - blocks b"
    using R inv(1) q D(2) by (simp add: c' charge_frees_def rely_def balance_def)
qed

lemma count_zero_iff:
  assumes "pending_inv p"
  shows "kvsPendingSignalingCount (Some p) = 0 \<longleftrightarrow> wait_answers p = [] \<and> wait_ice p = []"
  using assms length_wait_answers[of p] length_wait_ice[of p]
  by (auto simp: kvsPendingSignalingCount_def pending_inv_alt)

lemma flush_leave_spec:
  assumes inv: "pending_inv (cl_pending c)" "pending_inv b"
    and run: "flush_leave remaining b c = (again, c')"
  shows "pending_inv (cl_pending c')"
    "live (cl_heap c') - blocks (cl_pending c') = live (cl_heap c) - blocks (cl_pending c) - blocks b"
    "again \<longleftrightarrow> (remaining = 0 \<or> flushAgain c) \<and> (wait_answers (cl_pending c') \<noteq> [] \<or> wait_ice (cl_pending c') \<noteq> [])"
    "wait_answers b = [] \<and> wait_ice b = [] \<and> wait_answers (cl_pending c) = [] \<and> wait_ice (cl_pending c) = [] \<Longrightarrow>
     wait_answers (cl_pending c') = [] \<and> wait_ice (cl_pending c') = []"
    "c' = c\<lparr>cl_pending := cl_pending c', cl_heap := cl_heap c', pendingFlushes := pendingFlushes c - 1,
            flushAnswerPeerCount := 0, flushAgain := False\<rparr>"
proof -
  obtain d p b' h where m: "kvsPendingSignalingMerge (cl_pending c) b (cl_heap c) = (d, p, b', h)"
    by (metis prod_cases4)
  have c': "c' = c\<lparr>cl_pending := p, cl_heap := h, pendingFlushes := pendingFlushes c - 1,
            flushAnswerPeerCount := 0, flushAgain := False\<rparr>"
    and ag: "again \<longleftrightarrow> (remaining = 0 \<or> flushAgain c) \<and> kvsPendingSignalingCount (Some p) > 0"
    using run m by (auto simp: flush_leave_def)
  note M = merge_spec[OF inv m]
  show "pending_inv (cl_pending c')" using M(1) c' by simp
  show "live (cl_heap c') - blocks (cl_pending c') = live (cl_heap c) - blocks (cl_pending c) - blocks b"
    using M(5) c' by simp
  show "again \<longleftrightarrow> (remaining = 0 \<or> flushAgain c) \<and> (wait_answers (cl_pending c') \<noteq> [] \<or> wait_ice (cl_pending c') \<noteq> [])"
    using ag count_zero_iff[OF M(1)] c' by auto
  show "wait_answers b = [] \<and> wait_ice b = [] \<and> wait_answers (cl_pending c) = [] \<and> wait_ice (cl_pending c) = [] \<Longrightarrow>
     wait_answers (cl_pending c') = [] \<and> wait_ice (cl_pending c') = []"
    using M(6,7) c' by simp
  show "c' = c\<lparr>cl_pending := cl_pending c', cl_heap := cl_heap c', pendingFlushes := pendingFlushes c - 1,
            flushAnswerPeerCount := 0, flushAgain := False\<rparr>" by (simp add: c')
qed

lemma flush_enter_leaves:
  assumes inv: "pending_inv (cl_pending c)" and run: "flush_enter c = (flush_leaves, c')"
  shows "rely c c'" "pendingFlushes c = 0 \<Longrightarrow> wait_answers (cl_pending c') = [] \<and> wait_ice (cl_pending c') = []"
    "\<exists>p h a. c' = c\<lparr>cl_pending := p, cl_heap := h, flushAgain := a\<rparr>"
proof -
  obtain p b where t: "kvsPendingSignalingTake (cl_pending c) = (p, b)"
    by (cases "kvsPendingSignalingTake (cl_pending c)") auto
  note T = take_spec[OF inv t]
  obtain b' h where f: "kvsPendingSignalingFree b (cl_heap c) = (b', h)"
    by (cases "kvsPendingSignalingFree b (cl_heap c)") auto
  have "shape b" using T(2) by (simp add: pending_inv_alt)
  note F = free_spec(2)[OF this f]
  consider "pendingFlushes c \<noteq> 0" "c' = c\<lparr>flushAgain := True\<rparr>"
    | "pendingFlushes c = 0" "c' = c\<lparr>cl_pending := p, cl_heap := h\<rparr>"
    using run t f by (auto simp: flush_enter_def word_gt_0 split: if_splits)
  then have "rely c c' \<and> (pendingFlushes c = 0 \<longrightarrow> wait_answers (cl_pending c') = [] \<and> wait_ice (cl_pending c') = [])
     \<and> (\<exists>p h a. c' = c\<lparr>cl_pending := p, cl_heap := h, flushAgain := a\<rparr>)"
  proof cases
    case 1
    then show ?thesis by (auto intro!: exI[of _ "cl_pending c"] exI[of _ "cl_heap c"] exI[of _ True])
  next
    case 2
    have "rely c c'" using 2 rely_buffer[OF inv T(1)] F T(5) by (simp add: balance_def)
    moreover have "wait_answers (cl_pending c') = [] \<and> wait_ice (cl_pending c') = []"
      using T(4) 2 by (simp add: abs_pending_def)
    ultimately show ?thesis using 2 by (auto intro!: exI[of _ p] exI[of _ h] exI[of _ "flushAgain c"])
  qed
  then show "rely c c'" "pendingFlushes c = 0 \<Longrightarrow> wait_answers (cl_pending c') = [] \<and> wait_ice (cl_pending c') = []"
    "\<exists>p h a. c' = c\<lparr>cl_pending := p, cl_heap := h, flushAgain := a\<rparr>" by auto
qed

text \<open>A round: the number of running flushes is as before, nothing leaks and nothing is freed twice.\<close>

lemma round_spec:
  assumes W: "ports_ok W" and inv: "pending_inv (cl_pending c)" and run: "flush_round W c = (again, c')"
  shows "pending_inv (cl_pending c')" "pendingFlushes c' = pendingFlushes c"
    "balance (cl_pending c') (cl_heap c') = balance (cl_pending c) (cl_heap c)"
proof -
  note o = ports_okD(1)[OF W, of c]
  note i = rely_inv[OF o inv]
  have "pending_inv (cl_pending c') \<and> pendingFlushes c' = pendingFlushes c \<and>
    balance (cl_pending c') (cl_heap c') = balance (cl_pending c) (cl_heap c)"
  proof (cases "cl_is_live c")
    case False
    then show ?thesis using run inv by (simp add: flush_round_def)
  next
    case live: True
    show ?thesis
    proof (cases "flush_enter (others W c)")
      case (Pair e c1)
      show ?thesis
      proof (cases e)
        case flush_leaves
        note L = flush_enter_leaves(1)[OF i Pair[unfolded flush_leaves]]
        have "c' = c1" using run live Pair flush_leaves by (simp add: flush_round_def)
        moreover have "rely c c1" using o L by (rule rely_trans)
        ultimately show ?thesis using inv by (simp add: rely_def same_flush_def)
      next
        case (flush_holds b)
        note E = flush_enter_holds[OF i Pair[unfolded flush_holds]]
        obtain n b' c2 where s: "flush_send W b c1 = (n, b', c2)" by (metis prod_cases3)
        note S = flush_send_spec[OF W E(2,1) s]
        note o2 = ports_okD(1)[OF W, of c2]
        note i2 = rely_inv[OF o2 S(2)]
        have l: "flush_leave n b' (others W c2) = (again, c')"
          using run live Pair flush_holds s by (simp add: flush_round_def)
        note L = flush_leave_spec[OF i2 S(3) l]
        have bal: "balance (cl_pending (others W c2)) (cl_heap (others W c2)) = balance (cl_pending c2) (cl_heap c2)"
          and fl: "pendingFlushes (others W c2) = 1"
          using o2 S(1,2) E(4) by (simp_all add: rely_def same_flush_def)
        have z: "pendingFlushes c = 0" using o E(3) by (simp add: rely_def same_flush_def)
        have "pendingFlushes c' = pendingFlushes (others W c2) - 1" by (subst L(5)) simp
        then have "pendingFlushes c' = pendingFlushes c" using fl z by simp
        moreover have "balance (cl_pending c') (cl_heap c') = balance (cl_pending c) (cl_heap c)"
          using L(2) bal S(4) E(8,9) o inv by (simp add: rely_def balance_def)
        ultimately show ?thesis using L(1) by blast
      qed
    qed
  qed
  then show "pending_inv (cl_pending c')" "pendingFlushes c' = pendingFlushes c"
    "balance (cl_pending c') (cl_heap c') = balance (cl_pending c) (cl_heap c)" by auto
qed

end
