(* ===== verification/Kvs_Worker.thy ===== *)
theory Kvs_Worker
  imports Kvs_Flush
begin

text \<open>
  The work queue that runs the flush tasks: with the link up and only finitely many messages still
  to come from other tasks, it ends with the buffer empty, although a flush may put itself back on
  the queue.
\<close>

section \<open>The work queue's worker\<close>

text \<open>The worker takes one flush task after the other; \<open>None\<close> when the fuel does not suffice.\<close>

fun worker :: "'w ports \<Rightarrow> nat \<Rightarrow> 'w client \<Rightarrow> 'w client option" where
  "worker W 0 c = (if cl_flush_tasks c = 0 then Some c else None)"
| "worker W (Suc n) c =
     (if cl_flush_tasks c = 0 then Some c
      else worker W n (kvs_flush_pending_task W (c\<lparr>cl_flush_tasks := cl_flush_tasks c - 1\<rparr>)))"

text \<open>
  The link is up: every send succeeds and acts on the world alone, the queue takes every task, and
  other tasks change the client only finitely often: each change uses up some of \<open>budget\<close>.
\<close>

definition link_up :: "('w \<Rightarrow> nat) \<Rightarrow> 'w ports \<Rightarrow> bool" where
  "link_up budget W \<longleftrightarrow> ports_ok W \<and> (\<forall>c. add_task_ok W c) \<and>
     (\<forall>m c. \<exists>w. send_sync W m c = (STATUS_SUCCESS, c\<lparr>cl_world := w\<rparr>) \<and> budget w \<le> budget (cl_world c)) \<and>
     (\<forall>c. others W c \<noteq> c \<longrightarrow> budget (cl_world (others W c)) < budget (cl_world c)) \<and>
     (\<forall>c. cl_is_live c \<longrightarrow> cl_is_live (others W c)) \<and>
     (\<forall>c. signalingClientHandle c \<longrightarrow> signalingClientHandle (others W c)) \<and>
     (\<forall>c. cl_flush_tasks (others W c) = cl_flush_tasks c)"

lemma link_upD:
  assumes "link_up budget W"
  shows "ports_ok W" "add_task_ok W c" "cl_is_live c \<Longrightarrow> cl_is_live (others W c)"
    "signalingClientHandle c \<Longrightarrow> signalingClientHandle (others W c)"
    "cl_flush_tasks (others W c) = cl_flush_tasks c"
    "others W c = c \<or> budget (cl_world (others W c)) < budget (cl_world c)"
  using assms by (auto simp: link_up_def)

lemma link_up_send:
  assumes "link_up budget W"
  obtains w where "send_sync W m c = (STATUS_SUCCESS, c\<lparr>cl_world := w\<rparr>)" "budget w \<le> budget (cl_world c)"
  using assms unfolding link_up_def by blast

section \<open>One round with the link up\<close>

text \<open>
  Relative to \<open>c\<close>: the client can go on, and as long as no other task has stepped in, nothing was
  added to the buffer.
\<close>

definition nothing_waits :: "'w client \<Rightarrow> bool" where
  "nothing_waits c \<longleftrightarrow> wait_answers (cl_pending c) = [] \<and> wait_ice (cl_pending c) = []"

definition going :: "('w \<Rightarrow> nat) \<Rightarrow> 'w client \<Rightarrow> 'w client \<Rightarrow> bool" where
  "going budget c s \<longleftrightarrow> rely c s \<and> cl_is_live s \<and> signalingClientHandle s \<and> cl_flush_tasks s = cl_flush_tasks c \<and>
     (budget (cl_world s) < budget (cl_world c) \<or>
      budget (cl_world s) = budget (cl_world c) \<and> nothing_waits s)"

lemma is_live_frame [simp]:
  "cl_is_live (s\<lparr>cl_world := w\<rparr>) = cl_is_live s"
  "cl_is_live (s\<lparr>cl_pending := p, cl_heap := h\<rparr>) = cl_is_live s"
  "cl_is_live (s\<lparr>cl_pending := p\<rparr>) = cl_is_live s"
  "cl_is_live (s\<lparr>cl_heap := h\<rparr>) = cl_is_live s"
  "cl_is_live (s\<lparr>cl_flush_tasks := n\<rparr>) = cl_is_live s"
  by (simp_all add: cl_is_live_def)

lemma going_others:
  assumes L: "link_up budget W" and g: "going budget c s"
  shows "going budget c (others W s)"
proof -
  have "rely c s" using g by (simp add: going_def)
  then have "rely c (others W s)" using ports_okD(1)[OF link_upD(1)[OF L]] by (rule rely_trans)
  moreover have "cl_is_live (others W s)" "signalingClientHandle (others W s)"
    "cl_flush_tasks (others W s) = cl_flush_tasks c"
    using g link_upD(3,4,5)[OF L, of s] by (simp_all add: going_def)
  moreover have "budget (cl_world (others W s)) < budget (cl_world c) \<or>
      budget (cl_world (others W s)) = budget (cl_world c) \<and> nothing_waits (others W s)"
    using g link_upD(6)[OF L, of s] unfolding going_def by (metis less_trans)
  ultimately show ?thesis by (simp add: going_def)
qed

lemma going_world:
  assumes "going budget c s" "budget w \<le> budget (cl_world s)"
  shows "going budget c (s\<lparr>cl_world := w\<rparr>)"
proof -
  have "rely c (s\<lparr>cl_world := w\<rparr>)"
    using assms(1) rely_trans[of c s "s\<lparr>cl_world := w\<rparr>"] by (simp add: going_def)
  then show ?thesis using assms by (auto simp: going_def nothing_waits_def)
qed

lemma going_push:
  assumes inv: "pending_inv (cl_pending s)" and g: "going budget c s"
    and a: "kvsPendingSignalingHasAnswer (cl_pending s) (Some q)" and p: "push_message q pl n v s = (ok, s')"
  shows "going budget c s'"
proof -
  note P = push_message_spec[OF inv p]
  have "wait_answers (cl_pending s) \<noteq> []" using a hasAnswer_iff[OF inv] by auto
  then have lt: "budget (cl_world s) < budget (cl_world c)" using g by (auto simp: going_def nothing_waits_def)
  have "rely c s" using g by (simp add: going_def)
  then have r: "rely c s'" using P(1) by (rule rely_trans)
  obtain pd hp where "s' = s\<lparr>cl_pending := pd, cl_heap := hp\<rparr>" using P(5) by blast
  then have "cl_is_live s' = cl_is_live s" "signalingClientHandle s' = signalingClientHandle s"
    "cl_flush_tasks s' = cl_flush_tasks s" by simp_all
  then show ?thesis using g lt r P(2) by (simp add: going_def)
qed

lemma resend_going:
  assumes L: "link_up budget W" and inv: "pending_inv (cl_pending c)"
  shows "keeps_ctx (going budget c) (kvsResendPendingMessage W)"
    "always_ok (going budget c) (kvsResendPendingMessage W)"
proof -
  have "fst (kvsResendPendingMessage W s ty q corr pl n v) \<and>
        going budget c (snd (kvsResendPendingMessage W s ty q corr pl n v))"
    if g: "going budget c s" for s ty q corr pl n v
  proof -
    note go = going_others[OF L g]
    have io: "pending_inv (cl_pending (others W s))" using go inv rely_inv by (auto simp: going_def)
    have live: "cl_is_live s" using g by (simp add: going_def)
    let ?has = "kvsPendingSignalingHasAnswer (cl_pending (others W s)) (Some q)"
    obtain ok s3 where p: "push_message q (Some pl) n v (others W s) = (ok, s3)"
      by (cases "push_message q (Some pl) n v (others W s)") auto
    have gp: "?has \<Longrightarrow> going budget c s3" by (rule going_push[OF io go _ p])
    obtain w where d: "send_sync W
        \<lparr>sm_type = (if ty = KVS_PENDING_MSG_ANSWER then SIGNALING_MESSAGE_TYPE_ANSWER
                                  else SIGNALING_MESSAGE_TYPE_ICE_CANDIDATE),
                       sm_peer = strlcpy q MAX_SIGNALING_CLIENT_ID_LEN,
                       sm_corr = strlcpy corr MAX_CORRELATION_ID_LEN,
                       sm_payload = Some pl, sm_payload_len = n, sm_version = v\<rparr> (others W s) =
           (STATUS_SUCCESS, (others W s)\<lparr>cl_world := w\<rparr>)" "budget w \<le> budget (cl_world (others W s))"
      by (rule link_up_send[OF L])
    show ?thesis using live p d(1) gp go going_world[OF go d(2)]
      by (simp add: kvsResendPendingMessage_def Let_def)
  qed
  then show "keeps_ctx (going budget c) (kvsResendPendingMessage W)"
    "always_ok (going budget c) (kvsResendPendingMessage W)"
    by (auto simp: keeps_ctx_def always_ok_def)
qed

text \<open>A round either leaves nothing, or another task has stepped in and it asks for the next round.\<close>

definition ready :: "'w client \<Rightarrow> bool" where
  "ready c \<longleftrightarrow> pending_inv (cl_pending c) \<and> cl_is_live c \<and> signalingClientHandle c \<and> pendingFlushes c = 0"

lemma round_link_up:
  assumes L: "link_up budget W" and rdy: "ready c" and run: "flush_round W c = (again, c')"
  shows "ready c'" "cl_flush_tasks c' = cl_flush_tasks c" "budget (cl_world c') \<le> budget (cl_world c)"
    "if again then budget (cl_world c') < budget (cl_world c) else nothing_waits c'"
proof -
  have inv: "pending_inv (cl_pending c)" and live: "cl_is_live c" and h: "signalingClientHandle c"
    and z: "pendingFlushes c = 0" using rdy by (auto simp: ready_def)
  note W = link_upD(1)[OF L]
  note R = round_spec[OF W inv run]
  note o = ports_okD(1)[OF W, of c]
  note i = rely_inv[OF o inv]
  have oz: "pendingFlushes (others W c) = 0" using o z by (simp add: rely_def same_flush_def)
  have ob: "budget (cl_world (others W c)) \<le> budget (cl_world c)" using link_upD(6)[OF L, of c] by auto
  have "cl_is_live c' \<and> signalingClientHandle c' \<and> cl_flush_tasks c' = cl_flush_tasks c \<and>
     budget (cl_world c') \<le> budget (cl_world c) \<and>
     (if again then budget (cl_world c') < budget (cl_world c) else nothing_waits c')"
  proof (cases "flush_enter (others W c)")
    case (Pair e c1)
    show ?thesis
    proof (cases e)
      case flush_leaves
      note E = flush_enter_leaves[OF i Pair[unfolded flush_leaves]]
      have out: "again = False" "c' = c1" using run live Pair flush_leaves by (auto simp: flush_round_def)
      obtain p hp a where c1: "c1 = (others W c)\<lparr>cl_pending := p, cl_heap := hp, flushAgain := a\<rparr>"
        using E(3) by blast
      show ?thesis using out E(2)[OF oz] link_upD(3,4,5)[OF L, of c] live h ob
        by (simp add: c1 nothing_waits_def cl_is_live_def)
    next
      case (flush_holds b)
      note E = flush_enter_holds[OF i Pair[unfolded flush_holds]]
      have lv: "cl_is_live c1 = cl_is_live (others W c)" "signalingClientHandle c1 = signalingClientHandle (others W c)"
        "cl_flush_tasks c1 = cl_flush_tasks (others W c)" "cl_world c1 = cl_world (others W c)"
        by (subst E(12), simp add: cl_is_live_def)+
      have g1: "going budget c1 c1" using lv E(6) live h link_upD(3,4)[OF L, of c]
        by (simp add: going_def nothing_waits_def abs_pending_def)
      obtain n b' c2 where s: "flush_send W b c1 = (n, b', c2)" by (metis prod_cases3)
      obtain st ctx hp where d: "kvsPendingSignalingDrain (Some b) (Some (kvsResendPendingMessage W)) c1
            (now_ms W c1) (cl_heap c1) = (n, st, Some b', ctx, hp)"
        and c2: "c2 = ctx\<lparr>cl_heap := charge_frees (cl_heap c1) hp (cl_heap ctx)\<rparr>"
        by (rule flush_send_drain[OF s])
      note K = resend_going[OF L E(2)]
      have gx: "going budget c1 ctx" by (rule drain_keeps_ctx[OF E(1) K(1) g1 d])
      have n0: "n = 0" by (rule drain_all_ok(1)[OF E(1) K g1 d])
      note S = flush_send_spec[OF W E(2,1) s]
      have b'0: "wait_answers b' = [] \<and> wait_ice b' = []" using S(5) n0 by simp
      define c3 where "c3 = others W c2"
      have g2: "cl_is_live c2" "signalingClientHandle c2" "cl_flush_tasks c2 = cl_flush_tasks c1"
        "budget (cl_world c2) < budget (cl_world c1) \<or> budget (cl_world c2) = budget (cl_world c1) \<and> nothing_waits c2"
        using gx by (auto simp: c2 going_def nothing_waits_def)
      have g3: "cl_is_live c3" "signalingClientHandle c3" "cl_flush_tasks c3 = cl_flush_tasks c1"
        "budget (cl_world c3) < budget (cl_world c1) \<or> budget (cl_world c3) = budget (cl_world c1) \<and> nothing_waits c3"
        using g2 link_upD(3,4,5,6)[OF L, of c2] by (auto simp: c3_def)
      have i3: "pending_inv (cl_pending c3)" using rely_inv[OF ports_okD(1)[OF W] S(2)] by (simp add: c3_def)
      have l: "flush_leave n b' c3 = (again, c')"
        using run live Pair flush_holds s by (simp add: flush_round_def c3_def)
      note F = flush_leave_spec[OF i3 S(3) l]
      have fr: "cl_is_live c' = cl_is_live c3" "signalingClientHandle c' = signalingClientHandle c3"
        "cl_flush_tasks c' = cl_flush_tasks c3" "cl_world c' = cl_world c3"
        by (subst F(5), simp add: cl_is_live_def)+
      have b1: "budget (cl_world c1) \<le> budget (cl_world c)" using lv(4) ob by simp
      have "if again then budget (cl_world c') < budget (cl_world c) else nothing_waits c'"
      proof (cases again)
        case True
        then have "\<not> nothing_waits c3" using F(3,4) b'0 by (auto simp: nothing_waits_def)
        then show ?thesis using True g3(4) fr(4) b1 by auto
      next
        case False
        then show ?thesis using F(3) n0 by (auto simp: nothing_waits_def)
      qed
      then show ?thesis using fr g3 lv(3) link_upD(5)[OF L, of c] b1 by auto
    qed
  qed
  then show "ready c'" "cl_flush_tasks c' = cl_flush_tasks c" "budget (cl_world c') \<le> budget (cl_world c)"
    "if again then budget (cl_world c') < budget (cl_world c) else nothing_waits c'"
    using R(1,2) z by (auto simp: ready_def)
qed

section \<open>Whole flushes and the worker\<close>

lemma rounds_link_up:
  assumes L: "link_up budget W" and "ready c" "flush_rounds W n c = c'"
  shows "ready c' \<and> (nothing_waits c' \<and> cl_flush_tasks c' = cl_flush_tasks c \<and>
            budget (cl_world c') \<le> budget (cl_world c) \<or>
          cl_flush_tasks c' = Suc (cl_flush_tasks c) \<and> budget (cl_world c') + n \<le> budget (cl_world c))"
  using assms(2,3)
proof (induction n arbitrary: c)
  case 0
  then show ?case using link_upD(2)[OF L, of c] by (auto simp: queue_flush_def ready_def)
next
  case (Suc n)
  obtain again c1 where r: "flush_round W c = (again, c1)" by (cases "flush_round W c") auto
  note R = round_link_up[OF L Suc.prems(1) r]
  show ?case
  proof (cases again)
    case True
    then have "flush_rounds W n c1 = c'" using Suc.prems(2) r by simp
    from Suc.IH[OF R(1) this] show ?thesis using R(2,4) True by auto
  next
    case False
    then show ?thesis using Suc.prems(2) r R by auto
  qed
qed

lemma task_link_up:
  assumes L: "link_up budget W" and rdy: "ready c" and run: "kvs_flush_pending_task W c = c'"
  shows "ready c' \<and> (nothing_waits c' \<and> cl_flush_tasks c' = cl_flush_tasks c \<and>
            budget (cl_world c') \<le> budget (cl_world c) \<or>
          cl_flush_tasks c' = Suc (cl_flush_tasks c) \<and> budget (cl_world c') < budget (cl_world c))"
proof -
  have "flush_rounds W KVS_PENDING_FLUSH_MAX_ROUNDS c = c'"
    using rdy run by (simp add: kvs_flush_pending_task_def kvsFlushPendingSignaling_def ready_def)
  from rounds_link_up[OF L rdy this] show ?thesis by (auto simp: KVS_PENDING_FLUSH_MAX_ROUNDS_def)
qed

lemma worker_link_up:
  assumes L: "link_up budget W" and "ready c" "cl_flush_tasks c \<noteq> 0 \<or> nothing_waits c"
    and "cl_flush_tasks c + 2 * budget (cl_world c) \<le> n"
  shows "\<exists>c'. worker W n c = Some c' \<and> nothing_waits c' \<and> cl_flush_tasks c' = 0 \<and> ready c'"
  using assms(2-4)
proof (induction n arbitrary: c)
  case 0
  then show ?case by auto
next
  case (Suc n)
  show ?case
  proof (cases "cl_flush_tasks c")
    case 0
    then show ?thesis using Suc.prems by auto
  next
    case (Suc k)
    define d where "d = c\<lparr>cl_flush_tasks := k\<rparr>"
    have d: "ready d" using Suc.prems(1) by (simp add: d_def ready_def)
    define c1 where "c1 = kvs_flush_pending_task W d"
    note T = task_link_up[OF L d c1_def[symmetric]]
    have "ready c1" "cl_flush_tasks c1 \<noteq> 0 \<or> nothing_waits c1" "cl_flush_tasks c1 + 2 * budget (cl_world c1) \<le> n"
      using T Suc.prems(3) Suc by (auto simp: d_def)
    from Suc.IH[OF this] show ?thesis using Suc by (simp add: d_def c1_def)
  qed
qed

end
