(* ===== verification/Kvs_Deliver.thy ===== *)
theory Kvs_Deliver
  imports Kvs_Worker
begin

text \<open>
  What one flush puts on the wire when nothing interferes: the lemmas behind the properties of the
  KVS signaling client.
\<close>

definition answer_message :: "answer \<Rightarrow> signaling_message" where
  "answer_message a =
     \<lparr>sm_type = SIGNALING_MESSAGE_TYPE_ANSWER, sm_peer = strlcpy (an_peer a) MAX_SIGNALING_CLIENT_ID_LEN,
      sm_corr = strlcpy (an_corr a) MAX_CORRELATION_ID_LEN,
      sm_payload = Some (case an_payload a of None \<Rightarrow> [] | Some b \<Rightarrow> b),
      sm_payload_len = an_payload_len a, sm_version = an_version a\<rparr>"

definition candidate_message :: "ice_candidate \<Rightarrow> signaling_message" where
  "candidate_message c =
     \<lparr>sm_type = SIGNALING_MESSAGE_TYPE_ICE_CANDIDATE, sm_peer = strlcpy (ic_peer c) MAX_SIGNALING_CLIENT_ID_LEN,
      sm_corr = [], sm_payload = Some (ic_payload c), sm_payload_len = ic_payload_len c,
      sm_version = ic_version c\<rparr>"

text \<open>No other task acts, and every send is appended to the world, a list.\<close>

definition quiet :: "signaling_message list ports \<Rightarrow> bool" where
  "quiet W \<longleftrightarrow> (\<forall>c. others W c = c) \<and> (\<forall>c. add_task_ok W c) \<and>
     (\<forall>c. \<exists>s w. get_metrics W c = (s, c\<lparr>cl_world := w\<rparr>)) \<and>
     (\<forall>m c. send_sync W m c = (STATUS_SUCCESS, c\<lparr>cl_world := cl_world c @ [m]\<rparr>))"

lemma quietD:
  assumes "quiet W"
  shows "others W c = c" "send_sync W m c = (STATUS_SUCCESS, c\<lparr>cl_world := cl_world c @ [m]\<rparr>)"
  using assms by (simp_all add: quiet_def)

lemma quiet_link_up: "quiet W \<Longrightarrow> link_up (\<lambda>_. 0) W"
proof -
  assume q: "quiet W"
  have m: "rely c (snd (get_metrics W c))" for c
  proof -
    obtain s w where "get_metrics W c = (s, c\<lparr>cl_world := w\<rparr>)" using q unfolding quiet_def by blast
    then show ?thesis by simp
  qed
  show ?thesis using q m by (auto simp: link_up_def quiet_def ports_ok_def)
qed

text \<open>The callback on a client with an empty buffer and nobody purged.\<close>

lemma resend_quiet:
  assumes q: "quiet W" and c: "cl_is_live c" "pending_inv (cl_pending c)" "nothing_waits c"
    "purged_ids (cl_pending c) = []"
  shows "answer_call (kvsResendPendingMessage W) a c = c\<lparr>cl_world := cl_world c @ [answer_message a]\<rparr>"
    "ice_call (kvsResendPendingMessage W) i c = c\<lparr>cl_world := cl_world c @ [candidate_message i]\<rparr>"
proof -
  have "\<not> kvsPendingSignalingHasAnswer (cl_pending c) p" "\<not> kvsPendingSignalingIsPurged (cl_pending c) p" for p
    using c(3,4) hasAnswer_iff[OF c(2)] by (simp_all add: nothing_waits_def kvsPendingSignalingIsPurged_def)
  then show "answer_call (kvsResendPendingMessage W) a c = c\<lparr>cl_world := cl_world c @ [answer_message a]\<rparr>"
    "ice_call (kvsResendPendingMessage W) i c = c\<lparr>cl_world := cl_world c @ [candidate_message i]\<rparr>"
    using c(1) quietD[OF q]
    by (simp_all add: answer_call_def ice_call_def pendingIceSendAdapter_def kvsResendPendingMessage_def
        answer_message_def candidate_message_def Let_def strlcpy_def)
qed

lemma fold_resend_quiet:
  assumes q: "quiet W" and c: "cl_is_live c" "pending_inv (cl_pending c)" "nothing_waits c"
    "purged_ids (cl_pending c) = []"
  shows "fold (answer_call (kvsResendPendingMessage W)) xs c = c\<lparr>cl_world := cl_world c @ map answer_message xs\<rparr>"
    "fold (ice_call (kvsResendPendingMessage W)) ys c = c\<lparr>cl_world := cl_world c @ map candidate_message ys\<rparr>"
proof -
  have ok: "cl_is_live (c\<lparr>cl_world := w\<rparr>)" "pending_inv (cl_pending (c\<lparr>cl_world := w\<rparr>))"
    "nothing_waits (c\<lparr>cl_world := w\<rparr>)" "purged_ids (cl_pending (c\<lparr>cl_world := w\<rparr>)) = []" for w
    using c by (simp_all add: nothing_waits_def)
  have "fold (answer_call (kvsResendPendingMessage W)) xs (c\<lparr>cl_world := w\<rparr>) = c\<lparr>cl_world := w @ map answer_message xs\<rparr>" for w
    by (induction xs arbitrary: w) (simp_all add: resend_quiet(1)[OF q ok])
  from this[of "cl_world c"]
  show "fold (answer_call (kvsResendPendingMessage W)) xs c = c\<lparr>cl_world := cl_world c @ map answer_message xs\<rparr>" by simp
  have "fold (ice_call (kvsResendPendingMessage W)) ys (c\<lparr>cl_world := w\<rparr>) = c\<lparr>cl_world := w @ map candidate_message ys\<rparr>" for w
    by (induction ys arbitrary: w) (simp_all add: resend_quiet(2)[OF q ok])
  from this[of "cl_world c"]
  show "fold (ice_call (kvsResendPendingMessage W)) ys c = c\<lparr>cl_world := cl_world c @ map candidate_message ys\<rparr>" by simp
qed

lemma merge_purged_None:
  "kvsPendingSignalingMerge p b h = (d, p', b', h') \<Longrightarrow> purged p' = None"
  by (auto simp: kvsPendingSignalingMerge_def Let_def clearPurged_def split: prod.splits)

lemma blocks_zero:
  assumes "pending_inv p" "wait_answers p = []" "wait_ice p = []" "purged p = None"
  shows "blocks p = 0"
proof -
  have "shape p" "tight p" using assms(1) by (auto simp: pending_inv_alt)
  then have "ice p = None" "answers p = None"
    using assms(2,3) length_wait_answers[of p] length_wait_ice[of p] by (auto simp: tight_def)
  then show ?thesis using assms(2,4) by (simp add: blocks_def)
qed

text \<open>One round delivers everything.\<close>

definition delivery :: "uint64 \<Rightarrow> pending \<Rightarrow> signaling_message list" where
  "delivery t p =
     map answer_message (filter (\<lambda>a. \<not> expired t a) (wait_answers p)) @
     map candidate_message (filter (\<lambda>c. ic_peer c \<notin> expired_peers t (wait_answers p)) (wait_ice p))"

lemma round_delivers:
  assumes q: "quiet W" and t: "\<And>c. now_ms W c = t" and rdy: "ready c" and np: "purged (cl_pending c) = None"
    and run: "flush_round W c = (again, c')"
  shows "\<not> again" "nothing_waits c'" "cl_world c' = cl_world c @ delivery t (cl_pending c)"
    "cl_flush_tasks c' = cl_flush_tasks c" "ready c'" "live (cl_heap c') = live (cl_heap c) - blocks (cl_pending c)"
proof -
  note L = quiet_link_up[OF q]
  note R = round_link_up[OF L rdy run]
  have inv: "pending_inv (cl_pending c)" and live: "cl_is_live c" and z: "pendingFlushes c = 0"
    using rdy by (auto simp: ready_def)
  show na: "\<not> again" using R(4) by (auto split: if_splits)
  then show nw: "nothing_waits c'" using R(4) by simp
  show "cl_flush_tasks c' = cl_flush_tasks c" "ready c'" using R by auto
  have main: "cl_world c' = cl_world c @ delivery t (cl_pending c) \<and> purged (cl_pending c') = None"
  proof (cases "flush_enter c")
    case (Pair e c1)
    show ?thesis
    proof (cases e)
      case flush_leaves
      obtain p b where k: "kvsPendingSignalingTake (cl_pending c) = (p, b)"
        by (cases "kvsPendingSignalingTake (cl_pending c)") auto
      note T = take_spec[OF inv k]
      have b: "wait_answers b = [] \<and> wait_ice b = []" and c1: "cl_pending c1 = p" "cl_world c1 = cl_world c"
        using Pair flush_leaves k z count_zero_iff[OF T(2)] by (auto simp: flush_enter_def split: if_splits)
      have "wait_answers (cl_pending c) = [] \<and> wait_ice (cl_pending c) = []"
        using b T(3) by (simp add: abs_pending_def)
      moreover have "purged p = None" using k np by (auto simp: kvsPendingSignalingTake_def Let_def)
      moreover have "c' = c1" using run live Pair flush_leaves quietD(1)[OF q] by (simp add: flush_round_def)
      ultimately show ?thesis using c1 by (simp add: delivery_def)
    next
      case (flush_holds b)
      note E = flush_enter_holds[OF inv Pair[unfolded flush_holds]]
      have lv: "cl_is_live c1" using live by (subst E(12)) (simp add: cl_is_live_def)
      have wd: "cl_world c1 = cl_world c" by (subst E(12)) simp
      have h: "signalingClientHandle c1" using rdy by (subst E(12)) (simp add: ready_def)
      have nw1: "nothing_waits c1" using E(6) by (simp add: nothing_waits_def abs_pending_def)
      have pu: "purged_ids (cl_pending c1) = []" using E(10) np by (simp add: purged_ids_def)
      obtain n b' c2 where s: "flush_send W b c1 = (n, b', c2)" by (metis prod_cases3)
      obtain st ctx hp where d: "kvsPendingSignalingDrain (Some b) (Some (kvsResendPendingMessage W)) c1
            (now_ms W c1) (cl_heap c1) = (n, st, Some b', ctx, hp)"
        and c2: "c2 = ctx\<lparr>cl_heap := charge_frees (cl_heap c1) hp (cl_heap ctx)\<rparr>"
        by (rule flush_send_drain[OF s])
      have g1: "going (\<lambda>_. 0) c1 c1" using lv h nw1 by (simp add: going_def)
      note K = resend_going[OF L E(2)]
      define w1 where "w1 = cl_world c1 @ map answer_message (filter (\<lambda>a. \<not> expired t a) (wait_answers b))"
      have ok: "cl_is_live (c1\<lparr>cl_world := w1\<rparr>)" "pending_inv (cl_pending (c1\<lparr>cl_world := w1\<rparr>))"
        "nothing_waits (c1\<lparr>cl_world := w1\<rparr>)" "purged_ids (cl_pending (c1\<lparr>cl_world := w1\<rparr>)) = []"
        using lv E(2) nw1 pu by (simp_all add: nothing_waits_def)
      have ctx: "ctx = c1\<lparr>cl_world := w1 @ map candidate_message
          (filter (\<lambda>c. ic_peer c \<notin> expired_peers t (wait_answers b)) (wait_ice b))\<rparr>"
        unfolding drain_all_ok(2)[OF E(1) K g1 d] t fold_resend_quiet(1)[OF q lv E(2) nw1 pu] w1_def[symmetric]
        using fold_resend_quiet(2)[OF q ok] by simp
      have l: "flush_leave n b' c2 = (again, c')"
        using run live Pair flush_holds s quietD(1)[OF q] by (simp add: flush_round_def)
      have w: "cl_world c' = cl_world c2" and pn: "purged (cl_pending c') = None"
        using l by (auto simp: flush_leave_def dest: merge_purged_None split: prod.splits)
      have "delivery t b = delivery t (cl_pending c)" using E(5) by (simp add: delivery_def abs_pending_def)
      then show ?thesis using w pn c2 ctx wd by (simp add: w1_def delivery_def)
    qed
  qed
  then show "cl_world c' = cl_world c @ delivery t (cl_pending c)" by blast
  have pn: "purged (cl_pending c') = None" using main by blast
  have W: "ports_ok W" using L by (rule link_upD(1))
  have "blocks (cl_pending c') = 0"
    using blocks_zero[OF round_spec(1)[OF W inv run]] nw pn by (simp add: nothing_waits_def)
  then show "live (cl_heap c') = live (cl_heap c) - blocks (cl_pending c)"
    using round_spec(3)[OF W inv run] by (simp add: balance_def)
qed

lemma flush_delivers:
  assumes "quiet W" "\<And>c. now_ms W c = t" "ready c" "purged (cl_pending c) = None"
    and run: "kvsFlushPendingSignaling W c = c'"
  shows "nothing_waits c'" "cl_world c' = cl_world c @ delivery t (cl_pending c)"
    "cl_flush_tasks c' = cl_flush_tasks c" "ready c'" "live (cl_heap c') = live (cl_heap c) - blocks (cl_pending c)"
proof -
  obtain again c1 where r: "flush_round W c = (again, c1)" by (cases "flush_round W c") auto
  note R = round_delivers[OF assms(1-4) r]
  have "c' = c1" using run r R(1) assms(3)
    by (simp add: kvsFlushPendingSignaling_def ready_def KVS_PENDING_FLUSH_MAX_ROUNDS_def numeral_eq_Suc)
  then show "nothing_waits c'" "cl_world c' = cl_world c @ delivery t (cl_pending c)"
    "cl_flush_tasks c' = cl_flush_tasks c" "ready c'" "live (cl_heap c') = live (cl_heap c) - blocks (cl_pending c)"
    using R by auto
qed

section \<open>What becomes of a sent message\<close>

text \<open>What the status of a send says: case lemmas for \<open>sendKvsSignalingMessage\<close>.\<close>

text \<open>The SDK does not touch the buffer while the client holds its lock.\<close>

definition sends_apart :: "'w ports \<Rightarrow> bool" where
  "sends_apart W \<longleftrightarrow> (\<forall>m c. cl_pending (snd (send_sync W m c)) = cl_pending c)"

text \<open>The SDK accepted the message in the state in which it was given it.\<close>

definition accepted_from :: "'w ports \<Rightarrow> webrtc_message \<Rightarrow> 'w client \<Rightarrow> bool" where
  "accepted_from W m c \<longleftrightarrow>
     (\<exists>c1. rely c c1 \<and> cl_world c1 = cl_world c \<and> fst (send_sync W (to_signaling_message W m) c1) = STATUS_SUCCESS)"

definition outcome_ok :: "'w ports \<Rightarrow> webrtc_message \<Rightarrow> 'w client \<Rightarrow> STATUS \<Rightarrow> bool \<Rightarrow> 'w client \<Rightarrow> bool" where
  "outcome_ok W m c s buffered c' \<longleftrightarrow>
     (if buffered then s = STATUS_SUCCESS \<and> waits_in m c'
      else if s = STATUS_SUCCESS then accepted_from W m c
      else abs_pending (cl_pending c') = abs_pending (cl_pending c))"

lemma send_direct_outcome:
  assumes W: "ports_ok W" "sends_apart W" and inv: "pending_inv (cl_pending c)"
    and run: "send_direct W m c = (s, buffered, c')"
  shows "outcome_ok W m c s buffered c'"
proof -
  obtain s1 c1 where d: "send_sync W (to_signaling_message W m) c = (s1, c1)"
    by (cases "send_sync W (to_signaling_message W m) c") auto
  have p1: "cl_pending c1 = cl_pending c" using W(2) d unfolding sends_apart_def by (metis snd_conv)
  have acc: "s1 = STATUS_SUCCESS \<Longrightarrow> accepted_from W m c"
    using d by (auto simp: accepted_from_def intro!: exI[of _ c])
  obtain ok c2 where b: "kvsBufferFailedSend W m c1 = (ok, c2)" by (cases "kvsBufferFailedSend W m c1") auto
  have i1: "pending_inv (cl_pending c1)" using inv p1 by simp
  note B = buffer_failed_spec[OF i1 b]
  show ?thesis
  proof (cases "STATUS_FAILED s1 \<and> kvsSignalingLinkDown W c1")
    case True
    then have "s = (if ok then STATUS_SUCCESS else s1)" "buffered = ok" "c' = c2"
      using run d b by (auto simp: send_direct_def split: if_splits)
    then show ?thesis using B(2,3) p1 True by (auto simp: outcome_ok_def)
  next
    case False
    then have "s = s1" "\<not> buffered" "STATUS_FAILED s1 \<Longrightarrow> c' = c1"
      using run d by (auto simp: send_direct_def split: if_splits prod.splits)
    then show ?thesis using acc p1 by (auto simp: outcome_ok_def)
  qed
qed

lemma send_locked_outcome:
  assumes W: "ports_ok W" "sends_apart W" and inv: "pending_inv (cl_pending c)"
    and run: "send_locked W m c = (s, buffered, c')"
  shows "outcome_ok W m c s buffered c'"
proof -
  obtain ok c1 where p: "push_message (peer_client_id m) (msg_payload m) (msg_payload_len m) (msg_version m) c = (ok, c1)"
    by (cases "push_message (peer_client_id m) (msg_payload m) (msg_payload_len m) (msg_version m) c") auto
  obtain ok' c2 where a: "put_message W m c = (ok', c2)" by (cases "put_message W m c") auto
  note P = push_message_spec[OF inv p] and A = put_message_spec[OF inv a]
  have "(message_type m = WEBRTC_MESSAGE_TYPE_ICE_CANDIDATE \<and> c' = c1 \<and> buffered = ok \<and>
      s = (if ok then STATUS_SUCCESS else STATUS_NOT_ENOUGH_MEMORY)) \<or>
    (message_type m = WEBRTC_MESSAGE_TYPE_ANSWER \<and> ok' \<and> c' = c2 \<and> buffered \<and> s = STATUS_SUCCESS) \<or>
    (\<not> ok' \<and> send_direct W m c2 = (s, buffered, c')) \<or> send_direct W m c = (s, buffered, c')"
    using run by (simp add: send_locked_def Let_def p a split: if_splits)
  then consider "message_type m = WEBRTC_MESSAGE_TYPE_ICE_CANDIDATE" "c' = c1" "buffered = ok"
      "s = (if ok then STATUS_SUCCESS else STATUS_NOT_ENOUGH_MEMORY)"
    | "message_type m = WEBRTC_MESSAGE_TYPE_ANSWER" ok' "c' = c2" buffered "s = STATUS_SUCCESS"
    | "\<not> ok'" "send_direct W m c2 = (s, buffered, c')"
    | "send_direct W m c = (s, buffered, c')"
    by blast
  then show ?thesis
  proof cases
    case 1
    have "STATUS_NOT_ENOUGH_MEMORY \<noteq> STATUS_SUCCESS" by (simp add: status_defs)
    then show ?thesis using 1 P(3,4) by (cases ok) (auto simp: outcome_ok_def waits_in_def abs_pending_def)
  next
    case 2
    then show ?thesis using A(3) by (auto simp: outcome_ok_def waits_in_def)
  next
    case 3
    have o: "outcome_ok W m c2 s buffered c'"
      by (rule send_direct_outcome[OF W rely_inv[OF A(1) inv] 3(2)])
    have "accepted_from W m c2 \<Longrightarrow> accepted_from W m c"
      unfolding accepted_from_def using A(1,2) rely_trans by (metis (no_types, lifting))
    then show ?thesis using o A(4)[OF 3(1)] by (auto simp: outcome_ok_def split: if_splits)
  next
    case 4
    then show ?thesis by (rule send_direct_outcome[OF W inv])
  qed
qed

text \<open>A candidate whose peer has an answer waiting never reaches the SDK.\<close>

lemma candidate_waits:
  assumes inv: "pending_inv (cl_pending c)" and m: "message_type m = WEBRTC_MESSAGE_TYPE_ICE_CANDIDATE"
    and w: "kvsPendingSignalingHasAnswer (cl_pending c) (Some (peer_client_id m)) \<or>
            pendingFlushes c > 0 \<and> kvsFlushHoldsAnswerFor c (peer_client_id m)"
    and run: "send_locked W m c = (s, buffered, c')"
  shows "cl_world c' = cl_world c" "if buffered then s = STATUS_SUCCESS \<and> waits_in m c'
     else s = STATUS_NOT_ENOUGH_MEMORY \<and> wait_ice (cl_pending c') = wait_ice (cl_pending c)"
    "wait_answers (cl_pending c') = wait_answers (cl_pending c)"
proof -
  obtain ok c1 where p: "push_message (peer_client_id m) (msg_payload m) (msg_payload_len m) (msg_version m) c = (ok, c1)"
    by (cases "push_message (peer_client_id m) (msg_payload m) (msg_payload_len m) (msg_version m) c") auto
  have r: "c' = c1" "buffered = ok" "s = (if ok then STATUS_SUCCESS else STATUS_NOT_ENOUGH_MEMORY)"
    using run p m w by (auto simp: send_locked_def Let_def)
  note P = push_message_spec[OF inv p]
  show "cl_world c' = cl_world c" "wait_answers (cl_pending c') = wait_answers (cl_pending c)"
    using P(2,3) r by auto
  show "if buffered then s = STATUS_SUCCESS \<and> waits_in m c'
     else s = STATUS_NOT_ENOUGH_MEMORY \<and> wait_ice (cl_pending c') = wait_ice (cl_pending c)"
    using P(4) r m by (auto simp: waits_in_def)
qed

end
