(* ===== verification/Kvs_Life.thy ===== *)
theory Kvs_Life
  imports Kvs_Worker
begin

text \<open>
  The life of a KVS signaling client (\<open>kvs_signaling.c\<close>): creation with its credential provider,
  connecting, aborting, the callbacks of the application, and the teardown.
\<close>

section \<open>What the SDK provides\<close>

text \<open>
  Calls of the SDK, the work queue and the file system. \<open>queue_sync\<close> is \<open>esp_work_queue_sync\<close>,
  \<open>file_exists\<close> that \<open>fileExists\<close> succeeds and finds the file, \<open>iot_enabled\<close> the build option
  \<open>CONFIG_IOT_CORE_ENABLE_CREDENTIALS\<close>.
\<close>

record 'w sdk = "'w ports" +
  create_sdk :: "'w client \<Rightarrow> STATUS \<times> 'w client"
  fetch_sdk :: "'w client \<Rightarrow> STATUS \<times> 'w client"
  connect_sdk :: "'w client \<Rightarrow> STATUS \<times> 'w client"
  disconnect_sdk :: "'w client \<Rightarrow> STATUS \<times> 'w client"
  free_sdk :: "'w client \<Rightarrow> STATUS \<times> 'w client"
  current_state :: "'w client \<Rightarrow> STATUS \<times> SIGNALING_CLIENT_STATE"
  abort_sdk :: "'w \<Rightarrow> 'w"
  create_provider :: "cred_provider \<Rightarrow> kvs_config \<Rightarrow> STATUS"
  file_exists :: "string \<Rightarrow> bool"
  queue_sync :: "'w client \<Rightarrow> bool"
  mutex_create :: bool
  iot_enabled :: bool
  STATUS_SIGNALING_FREE_IN_PROGRESS :: STATUS

definition STATUS_NOT_IMPLEMENTED :: STATUS where [status_defs]: "STATUS_NOT_IMPLEMENTED = 0x00000006"

section \<open>Creation\<close>

definition text_set :: "string option \<Rightarrow> bool" where
  "text_set s = (case s of None \<Rightarrow> False | Some t \<Rightarrow> t \<noteq> [])"

definition use_provider :: "'w sdk \<Rightarrow> cred_provider \<Rightarrow> 'w client \<Rightarrow> STATUS \<times> 'w client" where
  "use_provider W k c =
     (let s = create_provider W k (config c)
      in (s, if STATUS_SUCCEEDED s then c\<lparr>pCredentialProvider := Some k\<rparr> else c))"

definition createCredentialProvider :: "'w sdk \<Rightarrow> 'w client \<Rightarrow> STATUS \<times> 'w client" where
  "createCredentialProvider W c =
     (let g = config c
      in if fetch_credentials_cb g then
           (case heap_calloc (cl_heap c) of
              (False, h) \<Rightarrow> (STATUS_NOT_ENOUGH_MEMORY, c\<lparr>cl_heap := h\<rparr>)
            | (True, h) \<Rightarrow> use_provider W callback_provider (c\<lparr>cl_heap := h, pCredFetchAdapterCtx := Some ()\<rparr>))
         else if useIotCredentials g then
           if \<not> text_set (iotCoreCredentialEndpoint g) \<or> \<not> text_set (iotCoreCert g) \<or>
              \<not> text_set (iotCorePrivateKey g) \<or> \<not> text_set (iotCoreRoleAlias g) \<or> \<not> text_set (iotCoreThingName g)
           then (STATUS_INVALID_OPERATION, c)
           else if \<not> file_exists W (the (iotCoreCert g)) \<or> \<not> file_exists W (the (iotCorePrivateKey g)) \<or>
                   (case caCertPath g of None \<Rightarrow> False | Some f \<Rightarrow> \<not> file_exists W f)
           then (STATUS_INVALID_OPERATION, c)
           else if \<not> iot_enabled W then (STATUS_NOT_IMPLEMENTED, c)
           else use_provider W iot_provider c
         else
           if \<not> text_set (awsAccessKey g) \<or> \<not> text_set (awsSecretKey g) then (STATUS_INVALID_OPERATION, c)
           else use_provider W static_provider c)"

text \<open>
  The adapter for credentials the application fetches: the callback's result, or nothing when it
  reports an error. The expiry is given in seconds from now.
\<close>

record credentials =
  accessKey :: string
  secretKey :: string
  sessionToken :: string
  expiration :: uint64

definition fetchCredentialsAdapter :: "(unit \<Rightarrow> int \<times> string \<times> string \<times> string \<times> uint32) option \<Rightarrow> uint64 \<Rightarrow> STATUS + credentials" where
  "fetchCredentialsAdapter cb currentTime =
     (case cb of
        None \<Rightarrow> Inl STATUS_NULL_ARG
      | Some f \<Rightarrow>
          (case f () of (rc, ak, sk, tk, exp) \<Rightarrow>
             if rc \<noteq> 0 then Inl STATUS_INTERNAL_ERROR
             else Inr \<lparr>accessKey = ak, secretKey = sk, sessionToken = tk,
                       expiration = currentTime + ucast exp * 10000000\<rparr>))"

section \<open>Teardown\<close>

text \<open>
  \<open>Inl\<close>: the client is still there, either alive or leaked on purpose. \<open>Inr\<close>: it is gone, and what
  is left is the registry and the heap.
\<close>

definition free_blocks :: "'w client \<Rightarrow> heap" where
  "free_blocks c =
     (let h1 = heap_free_ptr (cl_heap c) (pCredFetchAdapterCtx c);
          h2 = heap_free_ptr h1 (pCallbackAdapterData c);
          h3 = snd (kvsPendingSignalingFree (cl_pending c) h2)
      in heap_free h3)"

definition freeKvsSignalingClient :: "'w sdk \<Rightarrow> 'w client option \<Rightarrow> STATUS \<times> ('w client + registry \<times> heap) option" where
  "freeKvsSignalingClient W q =
     (case q of
        None \<Rightarrow> (STATUS_NULL_ARG, None)
      | Some c \<Rightarrow>
          (let c1 = c\<lparr>cl_registry := kvsSignalingClientUnregister (cl_self c) (cl_registry c)\<rparr>
           in if \<not> queue_sync W c1 then (STATUS_OPERATION_TIMED_OUT, Some (Inl c1))
              else (case (if signalingClientHandle c1 then free_sdk W c1 else (STATUS_SUCCESS, c1)) of
                      (s, c2) \<Rightarrow>
                        if STATUS_FAILED s then (s, Some (Inl c2))
                        else (STATUS_SUCCESS, Some (Inr (cl_registry c2, free_blocks c2))))))"

text \<open>
  \<open>createKvsSignalingClient\<close>: \<open>self\<close> is the address \<open>calloc\<close> gives. A failure after the allocation
  frees the client again, whatever the teardown returns.
\<close>

definition zero_client :: "nat \<Rightarrow> registry \<Rightarrow> heap \<Rightarrow> 'w \<Rightarrow> kvs_config \<Rightarrow> 'w client" where
  "zero_client self r h w g =
     \<lparr>cl_self = self, cl_registry = r, cl_heap = h, cl_world = w, cl_flush_tasks = 0,
      signalingClientHandle = False, initialized = False, connected = False, aborting = False,
      lastNotifiedState = SIGNALING_CLIENT_STATE_UNKNOWN, cl_pending = kvsPendingSignalingInit,
      pendingFlushes = 0, flushAgain = False, flushAnswerPeers = replicate KVS_PENDING_ANSWER_MAX [],
      flushAnswerPeerCount = 0, customData = None, on_msg_received = None, on_state_changed = False,
      on_error = False, pCallbackAdapterData = None, pCredentialProvider = None,
      pCredFetchAdapterCtx = None, signalingSendMessageLock = False, config = g,
      channelRoleType = SIGNALING_CHANNEL_ROLE_TYPE_MASTER, on_ice_servers_updated = None\<rparr>"

definition createKvsSignalingClient :: "'w sdk \<Rightarrow> nat \<Rightarrow> registry \<Rightarrow> heap \<Rightarrow> 'w \<Rightarrow> kvs_config option \<Rightarrow>
    STATUS \<times> ('w client + registry \<times> heap)" where
  "createKvsSignalingClient W self r h w cfg =
     (case cfg of
        None \<Rightarrow> (STATUS_NULL_ARG, Inr (r, h))
      | Some g \<Rightarrow>
          (case heap_calloc h of
             (False, h1) \<Rightarrow> (STATUS_NOT_ENOUGH_MEMORY, Inr (r, h1))
           | (True, h1) \<Rightarrow>
               (let c = zero_client self (kvsSignalingClientRegister (mutex_create W) self r) h1 w g;
                    c1 = c\<lparr>signalingSendMessageLock := mutex_create W\<rparr>
                in case (if mutex_create W then createCredentialProvider W c1
                         else (STATUS_INVALID_OPERATION, c1)) of
                     (s, c2) \<Rightarrow>
                       if STATUS_FAILED s
                       then (s, case snd (freeKvsSignalingClient W (Some c2)) of
                                  Some (Inr x) \<Rightarrow> Inr x | Some (Inl c3) \<Rightarrow> Inr (cl_registry c3, cl_heap c3)
                                | None \<Rightarrow> Inr (r, h1))
                       else (s, Inl c2))))"

section \<open>Connecting\<close>

definition connectKvsSignalingClient :: "'w sdk \<Rightarrow> 'w client option \<Rightarrow> STATUS \<times> 'w client option" where
  "connectKvsSignalingClient W q =
     (let step = (\<lambda>f (s, c). if STATUS_FAILED s then (s, c) else f c);
          stop = (\<lambda>f c. if aborting c then (STATUS_SIGNALING_FREE_IN_PROGRESS W, c) else f c)
      in case q of
           None \<Rightarrow> (STATUS_NULL_ARG, None)
         | Some c \<Rightarrow>
             map_prod id Some
               (step (\<lambda>c. (STATUS_SUCCESS, c\<lparr>initialized := True\<rparr>))
                 (step (get_metrics W)
                   (step (stop (connect_sdk W))
                     (step (stop (fetch_sdk W))
                       (stop (\<lambda>c. if signalingClientHandle c then (STATUS_SUCCESS, c) else create_sdk W c) c))))))"

definition disconnectKvsSignalingClient :: "'w sdk \<Rightarrow> 'w client option \<Rightarrow> STATUS \<times> 'w client option" where
  "disconnectKvsSignalingClient W q =
     (case q of
        None \<Rightarrow> (STATUS_NULL_ARG, None)
      | Some c \<Rightarrow> if \<not> signalingClientHandle c then (STATUS_INVALID_OPERATION, q)
                  else map_prod id Some (disconnect_sdk W c))"

text \<open>\<open>abort_sdk\<close> sets the SDK's shutdown flag and wakes its waits.\<close>

definition abortKvsSignalingClient :: "'w sdk \<Rightarrow> 'w client option \<Rightarrow> STATUS \<times> 'w client option" where
  "abortKvsSignalingClient W q =
     (case q of
        None \<Rightarrow> (STATUS_NULL_ARG, None)
      | Some c \<Rightarrow> (STATUS_SUCCESS, Some (c\<lparr>aborting := True, cl_world := abort_sdk W (cl_world c)\<rparr>)))"

definition setKvsSignalingRoleType :: "SIGNALING_CHANNEL_ROLE_TYPE \<Rightarrow> 'w client option \<Rightarrow> STATUS \<times> 'w client option" where
  "setKvsSignalingRoleType role q =
     (case q of
        None \<Rightarrow> (STATUS_NULL_ARG, None)
      | Some c \<Rightarrow> (STATUS_SUCCESS, Some (c\<lparr>channelRoleType := role\<rparr>)))"

section \<open>The portable interface\<close>

text \<open>An adapter registered earlier is overwritten, not freed.\<close>

definition kvsSetCallbacksWrapper :: "uint64 \<Rightarrow> (uint64 \<Rightarrow> webrtc_message \<Rightarrow> 'w \<Rightarrow> STATUS \<times> 'w) option \<Rightarrow>
    (uint64 \<Rightarrow> webrtc_signaling_state \<Rightarrow> 'w \<Rightarrow> WEBRTC_STATUS \<times> 'w) option \<Rightarrow>
    (uint64 \<Rightarrow> WEBRTC_STATUS \<Rightarrow> string \<Rightarrow> uint32 \<Rightarrow> 'w \<Rightarrow> WEBRTC_STATUS \<times> 'w) option \<Rightarrow>
    'w client option \<Rightarrow> WEBRTC_STATUS \<times> 'w client option" where
  "kvsSetCallbacksWrapper custom on_msg on_state on_err q =
     (case q of
        None \<Rightarrow> (WEBRTC_STATUS_INTERNAL_ERROR, None)
      | Some c \<Rightarrow>
          (let store = (\<lambda>d c. (WEBRTC_STATUS_SUCCESS,
                 Some (c\<lparr>customData := d, on_msg_received := on_msg,
                         on_state_changed := on_state \<noteq> None, on_error := on_err \<noteq> None\<rparr>)))
           in if on_state \<noteq> None \<or> on_err \<noteq> None then
                (case heap_calloc (cl_heap c) of
                   (False, h) \<Rightarrow> (WEBRTC_STATUS_INTERNAL_ERROR, Some (c\<lparr>cl_heap := h\<rparr>))
                 | (True, h) \<Rightarrow>
                     (let d = Some \<lparr>originalCustomData = custom, originalOnSignalingStateChanged = on_state,
                                    originalOnError = on_err\<rparr>
                      in store d (c\<lparr>cl_heap := h, pCallbackAdapterData := d\<rparr>)))
              else store None c))"

definition kvsGetStateWrapper :: "'w sdk \<Rightarrow> 'w client option \<Rightarrow> WEBRTC_STATUS \<times> webrtc_signaling_state option" where
  "kvsGetStateWrapper W q =
     (case q of
        None \<Rightarrow> (WEBRTC_STATUS_INVALID_ARG, None)
      | Some c \<Rightarrow>
          (WEBRTC_STATUS_SUCCESS, Some
            (if signalingClientHandle c then
               (case current_state W c of
                  (s, k) \<Rightarrow>
                    if STATUS_SUCCEEDED s then convertKvsToWebrtcSignalingState k
                    else if connected c then WEBRTC_SIGNALING_STATE_CONNECTED
                    else if initialized c then WEBRTC_SIGNALING_STATE_DISCONNECTED
                    else WEBRTC_SIGNALING_STATE_NEW)
             else WEBRTC_SIGNALING_STATE_NEW)))"

definition kvsSendMessageWrapper :: "'w sdk \<Rightarrow> 'w client option \<Rightarrow> webrtc_message option \<Rightarrow> WEBRTC_STATUS \<times> 'w client option" where
  "kvsSendMessageWrapper W q m =
     (case sendKvsSignalingMessage (ports.truncate W) q m of (s, q') \<Rightarrow> (convertStatusToWebrtcStatus s, q'))"

definition kvsInitWrapper :: "'w sdk \<Rightarrow> nat \<Rightarrow> registry \<Rightarrow> heap \<Rightarrow> 'w \<Rightarrow> kvs_config option \<Rightarrow>
    WEBRTC_STATUS \<times> ('w client + registry \<times> heap)" where
  "kvsInitWrapper W self r h w cfg =
     (case createKvsSignalingClient W self r h w cfg of (s, x) \<Rightarrow> (convertStatusToWebrtcStatus s, x))"

text \<open>A C enumeration may hold a value that is none of its constants.\<close>

datatype webrtc_channel_role_type = WEBRTC_CHANNEL_ROLE_TYPE_MASTER | WEBRTC_CHANNEL_ROLE_TYPE_VIEWER | WEBRTC_CHANNEL_ROLE_TYPE_OTHER nat

definition kvsSetRoleTypeWrapper :: "webrtc_channel_role_type \<Rightarrow> 'w client option \<Rightarrow> WEBRTC_STATUS \<times> 'w client option" where
  "kvsSetRoleTypeWrapper role q =
     (case setKvsSignalingRoleType
             (case role of
                WEBRTC_CHANNEL_ROLE_TYPE_VIEWER \<Rightarrow> SIGNALING_CHANNEL_ROLE_TYPE_VIEWER
              | WEBRTC_CHANNEL_ROLE_TYPE_MASTER \<Rightarrow> SIGNALING_CHANNEL_ROLE_TYPE_MASTER
              | WEBRTC_CHANNEL_ROLE_TYPE_OTHER _ \<Rightarrow> SIGNALING_CHANNEL_ROLE_TYPE_MASTER) q of
        (s, q') \<Rightarrow> (convertStatusToWebrtcStatus s, q'))"

definition kvsConnectWrapper :: "'w sdk \<Rightarrow> 'w client option \<Rightarrow> WEBRTC_STATUS \<times> 'w client option" where
  "kvsConnectWrapper W q = (case connectKvsSignalingClient W q of (s, q') \<Rightarrow> (convertStatusToWebrtcStatus s, q'))"

definition kvsDisconnectWrapper :: "'w sdk \<Rightarrow> 'w client option \<Rightarrow> WEBRTC_STATUS \<times> 'w client option" where
  "kvsDisconnectWrapper W q = (case disconnectKvsSignalingClient W q of (s, q') \<Rightarrow> (convertStatusToWebrtcStatus s, q'))"

definition kvsAbortWrapper :: "'w sdk \<Rightarrow> 'w client option \<Rightarrow> WEBRTC_STATUS \<times> 'w client option" where
  "kvsAbortWrapper W q = (case abortKvsSignalingClient W q of (s, q') \<Rightarrow> (convertStatusToWebrtcStatus s, q'))"

definition kvsPurgePeerCandidatesWrapper :: "'w sdk \<Rightarrow> 'w client option \<Rightarrow> string option \<Rightarrow> WEBRTC_STATUS \<times> 'w client option" where
  "kvsPurgePeerCandidatesWrapper W q peer =
     (case kvsSignalingPurgePeerCandidates (ports.truncate W) q peer of
        (s, q') \<Rightarrow> (convertStatusToWebrtcStatus s, q'))"

definition kvsFreeWrapper :: "'w sdk \<Rightarrow> 'w client option \<Rightarrow> WEBRTC_STATUS \<times> ('w client + registry \<times> heap) option" where
  "kvsFreeWrapper W q = (case freeKvsSignalingClient W q of (s, r) \<Rightarrow> (convertStatusToWebrtcStatus s, r))"

section \<open>What the teardown returns\<close>

definition client_blocks :: "'w client \<Rightarrow> int" where
  "client_blocks c = 1 + owned (pCredFetchAdapterCtx c) + owned (pCallbackAdapterData c) + blocks (cl_pending c)"

lemma free_blocks_live:
  assumes "pending_inv (cl_pending c)"
  shows "live (free_blocks c) = live (cl_heap c) - client_blocks c"
proof -
  define h2 where "h2 = heap_free_ptr (heap_free_ptr (cl_heap c) (pCredFetchAdapterCtx c)) (pCallbackAdapterData c)"
  obtain p h3 where f: "kvsPendingSignalingFree (cl_pending c) h2 = (p, h3)"
    by (cases "kvsPendingSignalingFree (cl_pending c) h2") auto
  have "shape (cl_pending c)" using assms by (simp add: pending_inv_alt)
  from free_spec(2)[OF this f] have "live h3 = live h2 - blocks (cl_pending c)" .
  then show ?thesis using f by (simp add: free_blocks_def Let_def h2_def[symmetric] client_blocks_def)
      (simp add: h2_def)
qed

lemma create_failure_leaves_nothing:
  assumes run: "createKvsSignalingClient W self r h w cfg = (s, Inr (r', h'))" and q: "\<And>c. queue_sync W c"
  shows "live h' = live h"
proof (cases cfg)
  case None
  then show ?thesis using run by (simp add: createKvsSignalingClient_def)
next
  case (Some g)
  obtain ok h1 where c: "heap_calloc h = (ok, h1)" by (cases "heap_calloc h") auto
  note cl = live_heap_calloc[of h, unfolded c, simplified]
  show ?thesis
  proof (cases ok)
    case False
    then show ?thesis using run Some c cl by (simp add: createKvsSignalingClient_def)
  next
    case True
    define c1 where "c1 = (zero_client self (kvsSignalingClientRegister (mutex_create W) self r) h1 w g)
        \<lparr>signalingSendMessageLock := mutex_create W\<rparr>"
    obtain s2 c2 where p: "(if mutex_create W then createCredentialProvider W c1
         else (STATUS_INVALID_OPERATION, c1)) = (s2, c2)" by fastforce
    have run': "(if STATUS_FAILED s2
                       then (s2, case snd (freeKvsSignalingClient W (Some c2)) of
                                  Some (Inr x) \<Rightarrow> Inr x | Some (Inl c3) \<Rightarrow> Inr (cl_registry c3, cl_heap c3)
                                | None \<Rightarrow> Inr (r, h1))
                       else (s2, Inl c2)) = (s, Inr (r', h'))"
      using run by (simp only: createKvsSignalingClient_def Some option.case c prod.case True bool.case Let_def
          c1_def[symmetric] p)
    have u: "cl_pending c1 = kvsPendingSignalingInit" "pCredFetchAdapterCtx c1 = None" "cl_heap c1 = h1"
      "pCallbackAdapterData c1 = None" "signalingClientHandle c1 = False"
      by (simp_all add: c1_def zero_client_def)
    have al: "live h' = live (cl_heap c1) + (if b then 1 else 0)" if "heap_calloc (cl_heap c1) = (b, h')" for b h'
      using live_heap_calloc[of "cl_heap c1"] that by simp
    have v: "cl_pending c2 = kvsPendingSignalingInit" "pCallbackAdapterData c2 = None"
      "signalingClientHandle c2 = False" "live (cl_heap c2) = live h1 + owned (pCredFetchAdapterCtx c2)"
      using p u
      by (auto simp: createCredentialProvider_def use_provider_def Let_def dest: al
          split: if_splits prod.splits bool.splits)
    have fail: "STATUS_FAILED s2" and "(r', h') = (case snd (freeKvsSignalingClient W (Some c2)) of
          Some (Inr x) \<Rightarrow> x | Some (Inl c3) \<Rightarrow> (cl_registry c3, cl_heap c3) | None \<Rightarrow> (r, h1))"
      using run' by (auto split: if_splits option.splits sum.splits)
    then have h': "h' = free_blocks (c2\<lparr>cl_registry := kvsSignalingClientUnregister (cl_self c2) (cl_registry c2)\<rparr>)"
      using v(3) q by (simp add: freeKvsSignalingClient_def Let_def)
    have "pending_inv (cl_pending c2)" using v(1) pending_inv_init by simp
    then have "live h' = live (cl_heap c2) - client_blocks c2"
      using free_blocks_live[of "c2\<lparr>cl_registry := kvsSignalingClientUnregister (cl_self c2) (cl_registry c2)\<rparr>"]
      by (simp add: h' client_blocks_def)
    also have "\<dots> = live h1 - 1" using v
      by (simp add: client_blocks_def blocks_def kvsPendingSignalingInit_def wait_answers_def answer_slots_def)
    finally show ?thesis using cl True by simp
  qed
qed

end
