(* ===== verification/Kvs_Ice.thy ===== *)
theory Kvs_Ice
  imports Kvs_Life
begin

text \<open>
  ICE servers of the KVS signaling client (\<open>kvs_signaling.c\<close>): the list for a new peer connection,
  the query by index with its background refresh, and the work-queue tasks that refresh or apply the
  configuration. The checks of its age are \<open>signaling_has_valid_ice_config\<close> and
  \<open>signaling_is_ice_config_refresh_needed\<close> of \<open>port/Signaling_esp.c\<close>; the build is the default one,
  with \<open>CONFIG_USE_ESP_WEBSOCKET_CLIENT\<close>.
\<close>

section \<open>Age of the cached configuration\<close>

text \<open>The fields of the SDK's client that the checks read, and its clock, in units of 100 ns.\<close>

record ice_state =
  iceConfigCount :: nat
  iceConfigExpiration :: uint64
  getIceConfigTime :: uint64
  curTime :: uint64

definition MIN_ICE_REFRESH_INTERVAL_100NS :: uint64 where
  "MIN_ICE_REFRESH_INTERVAL_100NS = 30 * 10000000"

definition signaling_has_valid_ice_config :: "ice_state option \<Rightarrow> bool" where
  "signaling_has_valid_ice_config s =
     (case s of None \<Rightarrow> False | Some i \<Rightarrow> iceConfigCount i > 0 \<and> curTime i \<le> iceConfigExpiration i)"

definition signaling_is_ice_config_refresh_needed :: "ice_state option \<Rightarrow> bool" where
  "signaling_is_ice_config_refresh_needed s =
     (case s of None \<Rightarrow> False
      | Some i \<Rightarrow>
          if getIceConfigTime i \<noteq> 0 \<and> curTime i - getIceConfigTime i < MIN_ICE_REFRESH_INTERVAL_100NS then False
          else iceConfigCount i = 0 \<or> curTime i > iceConfigExpiration i)"

section \<open>Servers\<close>

record ice_server =
  urls :: string
  username :: string
  credential :: string

record ice_config =
  uris :: "string list"
  ic_userName :: string
  ic_password :: string

text \<open>
  The SDK's calls and constants. A pointer to a configuration is a number and \<open>config_at\<close> what is
  there; \<open>stun_url\<close> formats the region and a postfix, for KVS the host to use outside or inside China.
\<close>

record 'w ice_ports =
  ice_state_of :: "'w \<Rightarrow> ice_state"
  config_count :: "'w \<Rightarrow> STATUS \<times> nat"
  config_info :: "nat \<Rightarrow> 'w \<Rightarrow> STATUS \<times> nat option"
  config_at :: "nat \<Rightarrow> 'w \<Rightarrow> ice_config"
  refresh_ice_configuration :: "'w \<Rightarrow> STATUS \<times> 'w"
  stun_url :: "string option \<Rightarrow> string \<Rightarrow> string"
  stun_postfix :: string
  stun_postfix_cn :: string
  MAX_ICE_CONFIG_URI_LEN :: nat
  MAX_ICE_CONFIG_USER_NAME_LEN :: nat
  MAX_ICE_CONFIG_CREDENTIAL_LEN :: nat
  MAX_ICE_SERVERS_COUNT :: nat
  MAX_ICE_CONFIG_COUNT :: nat

definition APP_WEBRTC_MAX_ICE_CONFIG_URI_LEN :: nat where "APP_WEBRTC_MAX_ICE_CONFIG_URI_LEN = 127"
definition APP_WEBRTC_MAX_ICE_CONFIG_USER_NAME_LEN :: nat where "APP_WEBRTC_MAX_ICE_CONFIG_USER_NAME_LEN = 256"
definition APP_WEBRTC_MAX_ICE_CONFIG_CREDENTIAL_LEN :: nat where "APP_WEBRTC_MAX_ICE_CONFIG_CREDENTIAL_LEN = 256"
definition APP_WEBRTC_MAX_ICE_SERVERS_COUNT :: nat where "APP_WEBRTC_MAX_ICE_SERVERS_COUNT = 5"
definition APP_WEBRTC_DEFAULT_STUN_SERVER :: string where
  "APP_WEBRTC_DEFAULT_STUN_SERVER = ''stun:stun.l.google.com:19302''"

primrec strstr :: "string \<Rightarrow> string \<Rightarrow> bool" where
  "strstr n [] = (n = [])"
| "strstr n (x # xs) = (take (length n) (x # xs) = n \<or> strstr n xs)"

text \<open>\<open>SNPRINTF\<close> into a buffer of \<open>n\<close> bytes.\<close>

definition snprintf_cut :: "nat \<Rightarrow> string \<Rightarrow> string" where
  "snprintf_cut n s = take (n - 1) s"

definition region_postfix :: "'w ice_ports \<Rightarrow> string option \<Rightarrow> string" where
  "region_postfix P r =
     (if (case r of None \<Rightarrow> False | Some t \<Rightarrow> strstr ''cn-'' t) then stun_postfix_cn P else stun_postfix P)"

text \<open>The inner loop of \<open>getKvsSignalingIceServers\<close> over the URIs of a configuration; \<open>n\<close> is \<open>uriCount\<close>.\<close>

definition unusable_uri :: "string \<Rightarrow> bool" where
  "unusable_uri u \<longleftrightarrow> take 6 u = ''turns:'' \<and> strstr ''transport=udp'' u"

fun turn_servers :: "'w ice_ports \<Rightarrow> ice_config \<Rightarrow> nat \<Rightarrow> string list \<Rightarrow> ice_server list" where
  "turn_servers P g n [] = []"
| "turn_servers P g n (u # us) =
     (if n + 1 < MAX_ICE_SERVERS_COUNT P then
        if unusable_uri u then turn_servers P g n us
        else \<lparr>urls = strlcpy u (MAX_ICE_CONFIG_URI_LEN P),
              username = strlcpy (ic_userName g) (MAX_ICE_CONFIG_USER_NAME_LEN P),
              credential = strlcpy (ic_password g) (MAX_ICE_CONFIG_CREDENTIAL_LEN P)\<rparr>
             # turn_servers P g (Suc n) us
      else [])"

text \<open>
  The servers filled in, whose number is \<open>*pIceConfigCount\<close>. \<open>None\<close> as the list: \<open>STRSTR\<close> of a NULL
  region. The outer loop runs once, \<open>maxTurnServer\<close> being 1.
\<close>

definition getKvsSignalingIceServers :: "'w ice_ports \<Rightarrow> 'w client option \<Rightarrow> STATUS \<times> ice_server list option" where
  "getKvsSignalingIceServers P q =
     (case q of
        None \<Rightarrow> (STATUS_NULL_ARG, Some [])
      | Some c \<Rightarrow>
          if \<not> signalingClientHandle c then
            (STATUS_SUCCESS, Some [\<lparr>urls = snprintf_cut (MAX_ICE_CONFIG_URI_LEN P) APP_WEBRTC_DEFAULT_STUN_SERVER,
                                    username = [], credential = []\<rparr>])
          else (case awsRegion (config c) of
            None \<Rightarrow> (STATUS_SUCCESS, None)
          | Some r \<Rightarrow>
              (let stun = \<lparr>urls = snprintf_cut (MAX_ICE_CONFIG_URI_LEN P) (stun_url P (Some r) (region_postfix P (Some r))),
                           username = [], credential = []\<rparr>;
                   n = (case config_count P (cl_world c) of (s, n) \<Rightarrow> if STATUS_FAILED s then 0 else n);
                   turn = (if n = 0 then []
                           else case config_info P 0 (cl_world c) of
                                  (s, a) \<Rightarrow> if STATUS_FAILED s then []
                                            else let g = config_at P (the a) (cl_world c) in turn_servers P g 0 (uris g))
               in (STATUS_SUCCESS, Some (stun # turn)))))"

text \<open>The interface copies at most the servers that fit, each field cut to its own size.\<close>

definition copy_ice_server :: "ice_server \<Rightarrow> ice_server" where
  "copy_ice_server s =
     \<lparr>urls = take APP_WEBRTC_MAX_ICE_CONFIG_URI_LEN (urls s),
      username = take APP_WEBRTC_MAX_ICE_CONFIG_USER_NAME_LEN (username s),
      credential = take APP_WEBRTC_MAX_ICE_CONFIG_CREDENTIAL_LEN (credential s)\<rparr>"

definition kvsGetIceServersWrapper :: "'w ice_ports \<Rightarrow> 'w client option \<Rightarrow> heap \<Rightarrow>
    WEBRTC_STATUS \<times> ice_server list option \<times> heap" where
  "kvsGetIceServersWrapper P q h =
     (case heap_calloc h of
        (False, h1) \<Rightarrow> (WEBRTC_STATUS_INTERNAL_ERROR, Some [], h1)
      | (True, h1) \<Rightarrow>
          (case getKvsSignalingIceServers P q of
             (s, l) \<Rightarrow>
               (convertStatusToWebrtcStatus s,
                if STATUS_SUCCEEDED s
                then map_option (\<lambda>l. map copy_ice_server
                       (take (min APP_WEBRTC_MAX_ICE_SERVERS_COUNT (MAX_ICE_CONFIG_COUNT P)) l)) l
                else Some [],
                heap_free h1)))"

section \<open>Refresh\<close>

definition kvsHasValidIceConfigWrapper :: "'w ice_ports \<Rightarrow> 'w client option \<Rightarrow> bool" where
  "kvsHasValidIceConfigWrapper P q =
     (case q of None \<Rightarrow> False
      | Some c \<Rightarrow> signalingClientHandle c \<and> signaling_has_valid_ice_config (Some (ice_state_of P (cl_world c))))"

definition kvsIsIceRefreshNeededWrapper :: "'w ice_ports \<Rightarrow> 'w client option \<Rightarrow> bool" where
  "kvsIsIceRefreshNeededWrapper P q =
     (case q of None \<Rightarrow> True
      | Some c \<Rightarrow> if \<not> signalingClientHandle c then True
                  else signaling_is_ice_config_refresh_needed (Some (ice_state_of P (cl_world c))))"

definition kvsRefreshIceConfigurationWrapper :: "'w ice_ports \<Rightarrow> 'w client option \<Rightarrow> WEBRTC_STATUS \<times> 'w client option" where
  "kvsRefreshIceConfigurationWrapper P q =
     (case q of None \<Rightarrow> (WEBRTC_STATUS_INVALID_ARG, None)
      | Some c \<Rightarrow> if \<not> signalingClientHandle c then (WEBRTC_STATUS_INVALID_ARG, q)
                  else (case refresh_ice_configuration P (cl_world c) of
                          (s, w) \<Rightarrow> (convertStatusToWebrtcStatus s, Some (c\<lparr>cl_world := w\<rparr>))))"

definition kvsSetIceUpdateCallbackWrapper :: "(uint32 \<Rightarrow> 'w \<Rightarrow> WEBRTC_STATUS \<times> 'w) option \<Rightarrow> 'w client option \<Rightarrow>
    WEBRTC_STATUS \<times> 'w client option" where
  "kvsSetIceUpdateCallbackWrapper f q =
     (case q of None \<Rightarrow> (convertStatusToWebrtcStatus STATUS_NULL_ARG, None)
      | Some c \<Rightarrow> (convertStatusToWebrtcStatus STATUS_SUCCESS, Some (c\<lparr>on_ice_servers_updated := f\<rparr>)))"

text \<open>The notification of both tasks: only when there are servers and a callback.\<close>

definition notify_ice :: "'w ice_ports \<Rightarrow> 'w client \<Rightarrow> 'w client" where
  "notify_ice P c =
     (case on_ice_servers_updated c of
        None \<Rightarrow> c
      | Some f \<Rightarrow>
          (case config_count P (cl_world c) of
             (s, n) \<Rightarrow> if STATUS_SUCCEEDED s \<and> n > 0
                       then c\<lparr>cl_world := snd (f (of_nat n) (cl_world c))\<rparr> else c))"

definition kvs_apply_cached_ice_task :: "'w ice_ports \<Rightarrow> 'w client \<Rightarrow> 'w client" where
  "kvs_apply_cached_ice_task P c = (if \<not> cl_is_live c then c else notify_ice P c)"

definition kvs_refresh_ice_task :: "'w ice_ports \<Rightarrow> 'w client \<Rightarrow> 'w client" where
  "kvs_refresh_ice_task P c =
     (if \<not> cl_is_live c \<or> \<not> signalingClientHandle c then c
      else case refresh_ice_configuration P (cl_world c) of
             (s, w) \<Rightarrow> if STATUS_FAILED s then c\<lparr>cl_world := w\<rparr> else notify_ice P (c\<lparr>cl_world := w\<rparr>))"

section \<open>Query by index\<close>

text \<open>
  \<open>kvsSignalingQueryServerGetByIdx\<close> keeps its progress in \<open>static\<close> variables, shared by all clients.
  \<open>queued\<close> are the tasks put on the work queue, whatever the queue answers.
\<close>

datatype ice_task = refresh_task | apply_task

record query_state =
  uriCount :: uint32
  pIceConfigInfo :: "nat option"
  is_ice_refresh_in_progress :: bool
  queued :: "ice_task list"

definition query_init :: query_state where
  "query_init = \<lparr>uriCount = 0, pIceConfigInfo = None, is_ice_refresh_in_progress = False, queued = []\<rparr>"

record query_reply =
  qr_status :: STATUS
  qr_server :: "ice_server option"
  qr_have_more :: bool

definition query_first :: "'w ice_ports \<Rightarrow> 'w client \<Rightarrow> bool \<Rightarrow> heap \<Rightarrow> query_state \<Rightarrow> query_reply \<times> heap \<times> query_state" where
  "query_first P c useTurn h s =
     (let s1 = s\<lparr>uriCount := 1, is_ice_refresh_in_progress := False\<rparr>
      in case heap_calloc h of
           (False, h1) \<Rightarrow> (\<lparr>qr_status = STATUS_NOT_ENOUGH_MEMORY, qr_server = None, qr_have_more = False\<rparr>, h1, s1)
         | (True, h1) \<Rightarrow>
             (let r = awsRegion (config c);
                  srv = \<lparr>urls = snprintf_cut APP_WEBRTC_MAX_ICE_CONFIG_URI_LEN (stun_url P r (region_postfix P r)),
                         username = [], credential = []\<rparr>;
                  s2 = (if useTurn \<and> signalingClientHandle c then
                          if kvsIsIceRefreshNeededWrapper P (Some c)
                          then s1\<lparr>is_ice_refresh_in_progress := True, queued := queued s1 @ [refresh_task]\<rparr>
                          else s1\<lparr>queued := queued s1 @ [apply_task]\<rparr>
                        else s1)
              in (\<lparr>qr_status = STATUS_SUCCESS, qr_server = Some srv, qr_have_more = True\<rparr>, h1, s2)))"

text \<open>The configuration that index 1 looks up; \<open>None\<close> when it gives up there.\<close>

definition query_lookup :: "'w ice_ports \<Rightarrow> 'w client \<Rightarrow> bool \<Rightarrow> query_state \<Rightarrow> query_state option" where
  "query_lookup P c useTurn s =
     (if useTurn \<and> signalingClientHandle c then
        if kvsIsIceRefreshNeededWrapper P (Some c) then None
        else (case config_count P (cl_world c) of
                (st, n) \<Rightarrow>
                  if STATUS_FAILED st then None
                  else if n > 0 then
                    (case config_info P 0 (cl_world c) of
                       (st2, a) \<Rightarrow>
                         if STATUS_FAILED st2 \<or> a = None then None
                         else Some (s\<lparr>uriCount := uriCount s + of_nat (length (uris (config_at P (the a) (cl_world c)))),
                                     pIceConfigInfo := a\<rparr>))
                  else Some s)
      else Some s)"

definition query_turn :: "'w ice_ports \<Rightarrow> 'w client \<Rightarrow> int \<Rightarrow> heap \<Rightarrow> query_state \<Rightarrow> query_reply \<times> heap \<times> query_state" where
  "query_turn P c index h s =
     (let no_more = \<lparr>qr_status = STATUS_SUCCESS, qr_server = None, qr_have_more = False\<rparr>
      in if index \<ge> 1 \<and> pIceConfigInfo s \<noteq> None then
           (let g = config_at P (the (pIceConfigInfo s)) (cl_world c); turnIndex = nat (index - 1)
            in if turnIndex < length (uris g) then
                 (case heap_calloc h of
                    (False, h1) \<Rightarrow> (\<lparr>qr_status = STATUS_NOT_ENOUGH_MEMORY, qr_server = None, qr_have_more = False\<rparr>, h1, s)
                  | (True, h1) \<Rightarrow>
                      (\<lparr>qr_status = STATUS_SUCCESS,
                        qr_server = Some
                          \<lparr>urls = strncpy_term APP_WEBRTC_MAX_ICE_CONFIG_URI_LEN (uris g ! turnIndex),
                           username = strncpy_term APP_WEBRTC_MAX_ICE_CONFIG_USER_NAME_LEN (ic_userName g),
                           credential = strncpy_term APP_WEBRTC_MAX_ICE_CONFIG_CREDENTIAL_LEN (ic_password g)\<rparr>,
                        qr_have_more = (of_int index < uriCount s - 1)\<rparr>, h1, s))
               else (no_more, h, s))
         else (no_more, h, s))"

definition kvsSignalingQueryServerGetByIdx :: "'w ice_ports \<Rightarrow> 'w client option \<Rightarrow> int \<Rightarrow> bool \<Rightarrow> heap \<Rightarrow> query_state \<Rightarrow>
    query_reply \<times> heap \<times> query_state" where
  "kvsSignalingQueryServerGetByIdx P q index useTurn h s =
     (case q of
        None \<Rightarrow> (\<lparr>qr_status = STATUS_NULL_ARG, qr_server = None, qr_have_more = False\<rparr>, h, s)
      | Some c \<Rightarrow>
          if index = 0 then query_first P c useTurn h s
          else
            (let asked = (is_ice_refresh_in_progress s \<and> useTurn \<and> signalingClientHandle c)
             in if asked \<and> kvsIsIceRefreshNeededWrapper P q
                then (\<lparr>qr_status = STATUS_SUCCESS, qr_server = None, qr_have_more = True\<rparr>, h, s)
                else
                  (let s1 = (if asked then s\<lparr>is_ice_refresh_in_progress := False\<rparr> else s)
                   in if index = 1 then
                        (case query_lookup P c useTurn s1 of
                           None \<Rightarrow> (\<lparr>qr_status = STATUS_SUCCESS, qr_server = None, qr_have_more = False\<rparr>, h, s1)
                         | Some s2 \<Rightarrow> query_turn P c index h s2)
                      else query_turn P c index h s1)))"

definition kvsQueryServerGetByIdxWrapper :: "'w ice_ports \<Rightarrow> 'w client option \<Rightarrow> int \<Rightarrow> bool \<Rightarrow> heap \<Rightarrow> query_state \<Rightarrow>
    WEBRTC_STATUS \<times> query_reply \<times> heap \<times> query_state" where
  "kvsQueryServerGetByIdxWrapper P q index useTurn h s =
     (case kvsSignalingQueryServerGetByIdx P q index useTurn h s of
        (r, h', s') \<Rightarrow> (convertStatusToWebrtcStatus (qr_status r), r, h', s'))"

end
