(* ===== verification/Kvs_Props.thy ===== *)
theory Kvs_Props
  imports Kvs_Deliver Kvs_Ice
begin

text \<open>The properties of the KVS signaling client.\<close>

section \<open>A client to try them on\<close>

definition demo_config :: kvs_config where
  "demo_config = \<lparr>useIotCredentials = False, iotCoreCredentialEndpoint = None, iotCoreCert = None,
     iotCorePrivateKey = None, iotCoreRoleAlias = None, iotCoreThingName = None,
     awsAccessKey = Some ''key'', awsSecretKey = Some ''secret'', awsRegion = Some ''eu-west-1'',
     caCertPath = None, fetch_credentials_cb = False\<rparr>"

definition demo_client :: "'w \<Rightarrow> 'w client" where
  "demo_client w = (zero_client 7 (kvsSignalingClientRegister True 7 registry_init) always_grant w demo_config)
     \<lparr>signalingClientHandle := True, signalingSendMessageLock := True, connected := True\<rparr>"

definition demo_answer :: webrtc_message where
  "demo_answer = \<lparr>message_type = WEBRTC_MESSAGE_TYPE_ANSWER, peer_client_id = ''v'', correlation_id = ''c1'',
     msg_payload = Some ''sdp'', msg_payload_len = 3, msg_version = 1\<rparr>"

definition demo_candidate :: webrtc_message where
  "demo_candidate = \<lparr>message_type = WEBRTC_MESSAGE_TYPE_ICE_CANDIDATE, peer_client_id = ''v'', correlation_id = [],
     msg_payload = Some ''cand'', msg_payload_len = 4, msg_version = 1\<rparr>"

definition demo_ports :: "signaling_message list ports" where
  "demo_ports = \<lparr>others = (\<lambda>c. c), send_sync = (\<lambda>m c. (STATUS_SUCCESS, c\<lparr>cl_world := cl_world c @ [m]\<rparr>)),
     get_metrics = (\<lambda>c. (STATUS_SUCCESS, c)), sdk_connected = (\<lambda>_. True), add_task_ok = (\<lambda>_. True),
     now_ms = (\<lambda>_. 5), cast_type = (\<lambda>_. SIGNALING_MESSAGE_TYPE_OTHER 9), kvs_code = (\<lambda>_. KVS_STATUS_OTHER)\<rparr>"

text \<open>An answer and a candidate of one viewer wait.\<close>

definition demo_waiting :: "signaling_message list client" where
  "demo_waiting = snd (push_message ''v'' (Some ''cand'') 4 1 (snd (put_message demo_ports demo_answer (demo_client []))))"

lemma demo_quiet: "quiet demo_ports"
proof -
  have "\<exists>s w. get_metrics demo_ports c = (s, c\<lparr>cl_world := w\<rparr>)" for c
    by (intro exI[of _ STATUS_SUCCESS] exI[of _ "cl_world c"]) (simp add: demo_ports_def)
  then show ?thesis unfolding quiet_def by (simp add: demo_ports_def)
qed

lemma demo_client_inv: "pending_inv (cl_pending (demo_client w))"
  by (simp add: demo_client_def zero_client_def pending_inv_init)

lemma demo_waiting_inv: "pending_inv (cl_pending demo_waiting)"
proof -
  obtain b c1 where p: "put_message demo_ports demo_answer (demo_client []) = (b, c1)"
    by (cases "put_message demo_ports demo_answer (demo_client [])") auto
  obtain b2 c2 where i: "push_message ''v'' (Some ''cand'') 4 1 c1 = (b2, c2)"
    by (cases "push_message ''v'' (Some ''cand'') 4 1 c1") auto
  have i1: "pending_inv (cl_pending c1)"
    using rely_inv[OF put_message_spec(1)[OF demo_client_inv p] demo_client_inv] .
  have "pending_inv (cl_pending c2)" using rely_inv[OF push_message_spec(1)[OF i1 i] i1] .
  then show ?thesis by (simp add: demo_waiting_def p i)
qed

lemma demo_waiting_views:
  "wait_answers (cl_pending demo_waiting) =
     [\<lparr>an_peer = ''v'', an_corr = ''c1'', an_payload = Some ''sdp'', an_payload_len = 3, an_version = 1, an_queued_at = 5\<rparr>]"
  "map ic_peer (wait_ice (cl_pending demo_waiting)) = [''v'']"
  "delivery 5 (cl_pending demo_waiting) =
     [\<lparr>sm_type = SIGNALING_MESSAGE_TYPE_ANSWER, sm_peer = ''v'', sm_corr = ''c1'', sm_payload = Some ''sdp'',
       sm_payload_len = 3, sm_version = 1\<rparr>,
      \<lparr>sm_type = SIGNALING_MESSAGE_TYPE_ICE_CANDIDATE, sm_peer = ''v'', sm_corr = [], sm_payload = Some ''cand'',
       sm_payload_len = 4, sm_version = 1\<rparr>]"
  "purged (cl_pending demo_waiting) = None" "cl_is_live demo_waiting" "signalingClientHandle demo_waiting"
  "pendingFlushes demo_waiting = 0" "cl_world demo_waiting = []" "blocks (cl_pending demo_waiting) = 3"
  "live (cl_heap demo_waiting) = 3"
  by code_simp+

lemma demo_ready: "ready demo_waiting"
  using demo_waiting_inv demo_waiting_views by (simp add: ready_def)

section \<open>Candidates wait for their answer\<close>

text \<open>
  C16: No ICE candidate overtakes the SDP answer of its viewer, when the id of the peer is shorter than
  256 characters (the answer of a peer with a longer id is not found in the batch, lemma
  \<open>long_id_not_held\<close> of \<open>Kvs_Ice_Props\<close>). Take a client at the start of a flush that takes the waiting
  messages out as a batch, and any later state that other tasks may have produced, under the lock,
  while the batch is out. A candidate for such a peer whose answer is in the batch, or waits in the
  buffer again, is not given to the SDK: the world is untouched, and the candidate is either the
  newest one in the buffer (and the status is success) or refused with \<open>STATUS_NOT_ENOUGH_MEMORY\<close>.
\<close>

theorem candidate_waits_for_its_answer:
  assumes inv: "pending_inv (cl_pending c)" and enter: "flush_enter c = (flush_holds b, c1)"
    and other_tasks: "rely c1 c2"
    and m: "message_type m = WEBRTC_MESSAGE_TYPE_ICE_CANDIDATE" "length (peer_client_id m) < KVS_PENDING_ICE_PEERID_LEN"
    and waits: "peer_client_id m \<in> answer_peers b \<union> answer_peers (cl_pending c2)"
    and run: "send_locked W m c2 = (s, buffered, c')"
  shows "cl_world c' = cl_world c2 \<and>
    (if buffered then s = STATUS_SUCCESS \<and> waits_in m c'
     else s = STATUS_NOT_ENOUGH_MEMORY \<and> wait_ice (cl_pending c') = wait_ice (cl_pending c2))"
proof -
  note E = flush_enter_holds[OF inv enter]
  have inv2: "pending_inv (cl_pending c2)" by (rule rely_inv[OF other_tasks E(2)])
  have same: "pendingFlushes c2 = 1" "take (flushAnswerPeerCount c2) (flushAnswerPeers c2) = map an_peer (wait_answers b)"
    "flushAnswerPeerCount c2 = flushAnswerPeerCount c1" "flushAnswerPeers c2 = flushAnswerPeers c1"
    using other_tasks E(4,7) by (simp_all add: rely_def same_flush_def)
  have len: "flushAnswerPeerCount c2 \<le> length (flushAnswerPeers c2)"
    unfolding same using flush_enter_rows[OF enter] .
  have "kvsPendingSignalingHasAnswer (cl_pending c2) (Some (peer_client_id m)) \<or>
      pendingFlushes c2 > 0 \<and> kvsFlushHoldsAnswerFor c2 (peer_client_id m)"
  proof (cases "peer_client_id m \<in> answer_peers b")
    case True
    then have "peer_client_id m \<in> set (take (flushAnswerPeerCount c2) (flushAnswerPeers c2))"
      unfolding same(2) by (simp add: answer_peers_def)
    then show ?thesis using holds_answer_for[OF len] same(1) by simp
  next
    case False
    then show ?thesis using waits hasAnswer_iff[OF inv2] copyPeerId_fits[OF m(2)] by (auto simp: answer_peers_def)
  qed
  from candidate_waits[OF inv2 m(1) this run] show ?thesis by simp
qed

text \<open>The candidate of a viewer whose answer a flush is re-sending.\<close>

definition demo_enter :: "signaling_message list client" where
  "demo_enter = snd (flush_enter demo_waiting)"

theorem candidate_waits_for_its_answer_witness:
  "\<exists>b s buffered c'. flush_enter demo_waiting = (flush_holds b, demo_enter) \<and> ''v'' \<in> answer_peers b \<and>
     send_locked demo_ports demo_candidate demo_enter = (s, buffered, c') \<and> cl_world c' = [] \<and> buffered \<and>
     s = STATUS_SUCCESS \<and> waits_in demo_candidate c'"
proof -
  have live: "case fst (flush_enter demo_waiting) of flush_holds b \<Rightarrow> ''v'' \<in> set (map an_peer (wait_answers b)) | flush_leaves \<Rightarrow> False"
    "fst (snd (send_locked demo_ports demo_candidate demo_enter))" "cl_world demo_enter = []"
    by code_simp+
  obtain b where e: "flush_enter demo_waiting = (flush_holds b, demo_enter)" and v: "''v'' \<in> answer_peers b"
    using live(1) by (cases "fst (flush_enter demo_waiting)"; cases "flush_enter demo_waiting")
      (auto simp: demo_enter_def answer_peers_def)
  obtain s k c' where r: "send_locked demo_ports demo_candidate demo_enter = (s, k, c')" by (metis prod_cases3)
  have m: "message_type demo_candidate = WEBRTC_MESSAGE_TYPE_ICE_CANDIDATE"
    "length (peer_client_id demo_candidate) < KVS_PENDING_ICE_PEERID_LEN" "peer_client_id demo_candidate = ''v''"
    by (simp_all add: demo_candidate_def KVS_PENDING_ICE_PEERID_LEN_def)
  have "peer_client_id demo_candidate \<in> answer_peers b \<union> answer_peers (cl_pending demo_enter)" using v m(3) by simp
  from candidate_waits_for_its_answer[OF demo_waiting_inv e rely_refl m(1,2) this r]
  show ?thesis using e v r live(2,3) by auto
qed

section \<open>A flush delivers\<close>

text \<open>
  C17: When the link is up and no other task interferes, one flush puts everything that waits on the
  wire and nothing else: first the answers that are not too old, in the order in which they were
  buffered, then the candidates, in theirs, except those whose peer's answer was too old. Afterwards
  nothing waits, no flush is marked as running or queued, and all the memory of the buffer is free.
\<close>

theorem flush_delivers_everything:
  assumes "quiet W" "\<And>c. now_ms W c = t" "ready c" "purged (cl_pending c) = None"
    and "kvsFlushPendingSignaling W c = c'"
  shows "cl_world c' = cl_world c @
       map answer_message (filter (\<lambda>a. \<not> expired t a) (wait_answers (cl_pending c))) @
       map candidate_message (filter (\<lambda>i. ic_peer i \<notin> expired_peers t (wait_answers (cl_pending c)))
         (wait_ice (cl_pending c))) \<and>
     wait_answers (cl_pending c') = [] \<and> wait_ice (cl_pending c') = [] \<and>
     pendingFlushes c' = 0 \<and> cl_flush_tasks c' = cl_flush_tasks c \<and>
     live (cl_heap c') = live (cl_heap c) - blocks (cl_pending c)"
  using flush_delivers[OF assms] by (simp add: nothing_waits_def delivery_def ready_def)

theorem flush_delivers_everything_witness:
  "cl_world (kvsFlushPendingSignaling demo_ports demo_waiting) =
     [\<lparr>sm_type = SIGNALING_MESSAGE_TYPE_ANSWER, sm_peer = ''v'', sm_corr = ''c1'', sm_payload = Some ''sdp'',
       sm_payload_len = 3, sm_version = 1\<rparr>,
      \<lparr>sm_type = SIGNALING_MESSAGE_TYPE_ICE_CANDIDATE, sm_peer = ''v'', sm_corr = [], sm_payload = Some ''cand'',
       sm_payload_len = 4, sm_version = 1\<rparr>] \<and> live (cl_heap (kvsFlushPendingSignaling demo_ports demo_waiting)) = 0"
proof -
  have t: "now_ms demo_ports c = 5" for c by (simp add: demo_ports_def)
  from flush_delivers_everything[OF demo_quiet t demo_ready demo_waiting_views(4) refl]
  show ?thesis using demo_waiting_views by (simp add: delivery_def)
qed

section \<open>The work queue comes to rest\<close>

text \<open>
  C18: The flush re-queues itself when its four rounds are over and messages are still waiting, but
  not for ever. With the link up (every send and every queueing succeeds and the client stays live),
  and other tasks that act on the client only finitely often (each action takes at least one from
  \<open>budget\<close>) and queue no flush themselves, a worker that runs the flush tasks ends, after at most
  the queued tasks plus twice the budget, with the queue empty and nothing waiting in the buffer.
\<close>

theorem flush_tasks_come_to_rest:
  assumes "link_up budget W" "ready c" "cl_flush_tasks c \<noteq> 0"
    and "n = cl_flush_tasks c + 2 * budget (cl_world c)"
  shows "\<exists>c'. worker W n c = Some c' \<and> cl_flush_tasks c' = 0 \<and>
    wait_answers (cl_pending c') = [] \<and> wait_ice (cl_pending c') = []"
  using worker_link_up[OF assms(1,2), of n] assms(3,4) by (auto simp: nothing_waits_def)

text \<open>
  Five candidates of another task arrive one by one, each time the flush gets back to its lock: more
  than a flush has rounds for, so it goes back to the queue.
\<close>

definition trickle :: "(nat \<times> signaling_message list) client \<Rightarrow> (nat \<times> signaling_message list) client" where
  "trickle c =
     (case cl_world c of
        (0, l) \<Rightarrow> c
      | (Suc k, l) \<Rightarrow> (snd (push_message ''v'' (Some ''cand'') 4 1 c))\<lparr>cl_world := (k, l)\<rparr>)"

definition trickle_ports :: "(nat \<times> signaling_message list) ports" where
  "trickle_ports = \<lparr>others = trickle,
     send_sync = (\<lambda>m c. (STATUS_SUCCESS, c\<lparr>cl_world := (fst (cl_world c), snd (cl_world c) @ [m])\<rparr>)),
     get_metrics = (\<lambda>c. (STATUS_SUCCESS, c)), sdk_connected = (\<lambda>_. True), add_task_ok = (\<lambda>_. True),
     now_ms = (\<lambda>_. 5), cast_type = (\<lambda>_. SIGNALING_MESSAGE_TYPE_OTHER 9), kvs_code = (\<lambda>_. KVS_STATUS_OTHER)\<rparr>"

lemma push_frame:
  "\<exists>p h. snd (push_message q pl n v c) = c\<lparr>cl_pending := p, cl_heap := h\<rparr>"
  by (auto simp: push_message_def split: prod.splits)

lemma push_rely: "rely c (snd (push_message q pl n v c))"
proof (cases "pending_inv (cl_pending c)")
  case True
  then show ?thesis using push_message_spec(1)[OF True, of q pl n v "fst (push_message q pl n v c)"] by simp
next
  case False
  obtain p h where "snd (push_message q pl n v c) = c\<lparr>cl_pending := p, cl_heap := h\<rparr>" using push_frame by blast
  then show ?thesis using False by (simp add: rely_def same_flush_def)
qed

lemma trickle_facts:
  "rely c (trickle c)" "trickle c \<noteq> c \<Longrightarrow> fst (cl_world (trickle c)) < fst (cl_world c)"
  "cl_is_live (trickle c) = cl_is_live c" "signalingClientHandle (trickle c) = signalingClientHandle c"
  "cl_flush_tasks (trickle c) = cl_flush_tasks c"
proof -
  obtain p h where f: "snd (push_message ''v'' (Some ''cand'') 4 1 c) = c\<lparr>cl_pending := p, cl_heap := h\<rparr>"
    using push_frame by blast
  have "rely c (c\<lparr>cl_pending := p, cl_heap := h\<rparr>)" using push_rely[of c "''v''" "Some ''cand''" 4 1] f by simp
  then have "rely c (c\<lparr>cl_pending := p, cl_heap := h, cl_world := w\<rparr>)" for w
    by (rule rely_trans) (simp add: rely_def same_flush_def)
  then show "rely c (trickle c)" using f by (auto simp: trickle_def split: prod.splits nat.splits)
  show "trickle c \<noteq> c \<Longrightarrow> fst (cl_world (trickle c)) < fst (cl_world c)"
    "cl_is_live (trickle c) = cl_is_live c" "signalingClientHandle (trickle c) = signalingClientHandle c"
    "cl_flush_tasks (trickle c) = cl_flush_tasks c"
    using f by (auto simp: trickle_def cl_is_live_def split: prod.splits nat.splits)
qed

lemma trickle_up: "link_up fst trickle_ports"
proof -
  have s: "\<exists>w. send_sync trickle_ports m c = (STATUS_SUCCESS, c\<lparr>cl_world := w\<rparr>) \<and> fst w \<le> fst (cl_world c)" for m c
    by (intro exI[of _ "(fst (cl_world c), snd (cl_world c) @ [m])"]) (simp add: trickle_ports_def)
  have "ports_ok trickle_ports" using trickle_facts(1) by (simp add: ports_ok_def trickle_ports_def)
  moreover have "others trickle_ports = trickle" "add_task_ok trickle_ports = (\<lambda>_. True)"
    by (simp_all add: trickle_ports_def)
  ultimately show ?thesis unfolding link_up_def using s trickle_facts(2-5) by simp
qed

theorem flush_tasks_come_to_rest_witness:
  "\<exists>c'. worker trickle_ports 41 ((demo_client (20, []))\<lparr>cl_flush_tasks := 1\<rparr>) = Some c' \<and> cl_flush_tasks c' = 0 \<and>
    wait_answers (cl_pending c') = [] \<and> wait_ice (cl_pending c') = []"
proof -
  have r: "ready ((demo_client (20, []))\<lparr>cl_flush_tasks := 1\<rparr> :: (nat \<times> signaling_message list) client)"
    using demo_client_inv by (simp add: ready_def cl_is_live_def)
      (simp add: demo_client_def zero_client_def; code_simp)
  show ?thesis
    using flush_tasks_come_to_rest[OF trickle_up r, of 41] by (simp add: demo_client_def zero_client_def)
qed

section \<open>What a status means\<close>

text \<open>
  C19: The status of a send tells the truth about the message, as long as the SDK's metrics can be
  read. Success means that the SDK accepted it, in a state with nothing but the buffer changed since
  the send began, or that it now waits in the buffer to be re-sent. Any other status means that
  nothing of it is left behind: the answers and candidates waiting are those that waited before.
\<close>

theorem send_status_truthful:
  assumes W: "ports_ok W" "sends_apart W" and metrics: "\<And>c. get_metrics W c = (STATUS_SUCCESS, c)"
    and c: "pending_inv (cl_pending c)" "signalingClientHandle c"
    and run: "sendKvsSignalingMessage W (Some c) (Some m) = (r, Some c')"
  shows "if r = STATUS_SUCCESS then waits_in m c' \<or> accepted_from W m (others W c)
     else abs_pending (cl_pending c') = abs_pending (cl_pending (others W c))"
proof -
  note R = ports_okD(1)[OF W(1), of c]
  obtain s b c1 where l: "send_locked W m (others W c) = (s, b, c1)" by (metis prod_cases3)
  note O = send_locked_outcome[OF W rely_inv[OF R c(1)] l]
  obtain fb where u: "send_unlocked W m s b fb c1 = (r, c')"
    using run l c(2) by (auto simp: sendKvsSignalingMessage_def Let_def split: prod.splits)
  have "r = s" "c' = c1 \<or> c' = queue_flush W c1"
    using u metrics by (auto simp: send_unlocked_def split: if_splits)
  moreover have "cl_pending (queue_flush W c1) = cl_pending c1" by (simp add: queue_flush_def)
  ultimately have p: "r = s" "cl_pending c' = cl_pending c1" by auto
  then have "waits_in m c' = waits_in m c1" by (simp add: waits_in_def)
  then show ?thesis using O p by (auto simp: outcome_ok_def split: if_splits)
qed

text \<open>A link that is down: the candidate is buffered, an offer is refused.\<close>

definition down_ports :: "unit ports" where
  "down_ports = \<lparr>others = (\<lambda>c. c), send_sync = (\<lambda>m c. (STATUS_INTERNAL_ERROR, c)),
     get_metrics = (\<lambda>c. (STATUS_SUCCESS, c)), sdk_connected = (\<lambda>_. False), add_task_ok = (\<lambda>_. True),
     now_ms = (\<lambda>_. 5), cast_type = (\<lambda>_. SIGNALING_MESSAGE_TYPE_OTHER 9), kvs_code = (\<lambda>_. KVS_STATUS_OTHER)\<rparr>"

theorem send_status_truthful_witness:
  "\<exists>r c' r2 c2. sendKvsSignalingMessage down_ports (Some (demo_client ())) (Some demo_candidate) = (r, Some c') \<and>
     r = STATUS_SUCCESS \<and> waits_in demo_candidate c' \<and>
     sendKvsSignalingMessage down_ports (Some (demo_client ()))
       (Some (demo_candidate\<lparr>message_type := WEBRTC_MESSAGE_TYPE_OFFER\<rparr>)) = (r2, Some c2) \<and>
     r2 = STATUS_INTERNAL_ERROR \<and> wait_ice (cl_pending c2) = []"
proof -
  let ?offer = "demo_candidate\<lparr>message_type := WEBRTC_MESSAGE_TYPE_OFFER\<rparr>"
  have W: "ports_ok down_ports" "sends_apart down_ports" "\<And>c. get_metrics down_ports c = (STATUS_SUCCESS, c)"
    by (simp_all add: ports_ok_def sends_apart_def down_ports_def)
  have h: "signalingClientHandle (demo_client ())" by (simp add: demo_client_def)
  have v: "fst (sendKvsSignalingMessage down_ports (Some (demo_client ())) (Some demo_candidate)) = STATUS_SUCCESS"
    "fst (sendKvsSignalingMessage down_ports (Some (demo_client ())) (Some ?offer)) = STATUS_INTERNAL_ERROR"
    "snd (sendKvsSignalingMessage down_ports (Some (demo_client ())) (Some demo_candidate)) \<noteq> None"
    "snd (sendKvsSignalingMessage down_ports (Some (demo_client ())) (Some ?offer)) \<noteq> None"
    "wait_ice (cl_pending (demo_client ())) = []"
    by code_simp+
  obtain r c' where a: "sendKvsSignalingMessage down_ports (Some (demo_client ())) (Some demo_candidate) = (r, Some c')"
    using v(3) by (cases "sendKvsSignalingMessage down_ports (Some (demo_client ())) (Some demo_candidate)") auto
  obtain r2 c2 where o: "sendKvsSignalingMessage down_ports (Some (demo_client ())) (Some ?offer) = (r2, Some c2)"
    using v(4) by (cases "sendKvsSignalingMessage down_ports (Some (demo_client ())) (Some ?offer)") auto
  note A = send_status_truthful[OF W demo_client_inv h a] and O = send_status_truthful[OF W demo_client_inv h o]
  have r: "r = STATUS_SUCCESS" "r2 = STATUS_INTERNAL_ERROR" using v(1,2) a o by simp_all
  have "\<not> accepted_from down_ports demo_candidate x" for x
    by (simp add: accepted_from_def down_ports_def status_defs)
  then have "waits_in demo_candidate c'" using A r by simp
  moreover have "wait_ice (cl_pending c2) = []" using O r v(5) by (simp add: status_defs down_ports_def abs_pending_def)
  ultimately show ?thesis using a o r by blast
qed

end
