(* ===== verification/Kvs_Ice_Props.thy ===== *)
theory Kvs_Ice_Props
  imports Kvs_Props
begin

text \<open>
  The query of ICE servers by index as its caller uses it, and what modelling showed about the
  client's less used paths.
\<close>

section \<open>Asking for all servers\<close>

text \<open>
  The caller asks for index 0, 1, 2, ... as long as the reply says that there is more, and collects the servers.
  The flag is whether it ended before the fuel did.
\<close>

fun ice_walk :: "'w ice_ports \<Rightarrow> 'w client \<Rightarrow> nat \<Rightarrow> int \<Rightarrow> heap \<Rightarrow> query_state \<Rightarrow> ice_server list \<times> bool" where
  "ice_walk P c 0 i h s = ([], False)"
| "ice_walk P c (Suc n) i h s =
     (case kvsSignalingQueryServerGetByIdx P (Some c) i True h s of
        (r, h', s') \<Rightarrow>
          (let here = (case qr_server r of None \<Rightarrow> [] | Some x \<Rightarrow> [x])
           in if qr_have_more r then (case ice_walk P c n (i + 1) h' s' of (l, e) \<Rightarrow> (here @ l, e))
              else (here, True)))"

definition turn_server :: "ice_config \<Rightarrow> string \<Rightarrow> ice_server" where
  "turn_server g u = \<lparr>urls = strncpy_term APP_WEBRTC_MAX_ICE_CONFIG_URI_LEN u,
     username = strncpy_term APP_WEBRTC_MAX_ICE_CONFIG_USER_NAME_LEN (ic_userName g),
     credential = strncpy_term APP_WEBRTC_MAX_ICE_CONFIG_CREDENTIAL_LEN (ic_password g)\<rparr>"

lemma calloc_granted: "\<forall>n. grant h n \<Longrightarrow> \<exists>h'. heap_calloc h = (True, h') \<and> (\<forall>n. grant h' n)"
  by (simp add: heap_calloc_def Let_def)

lemma query_turn_reply:
  fixes P :: "'w ice_ports" and c :: "'w client"
  defines "g a \<equiv> config_at P a (cl_world c)"
  assumes h: "\<forall>n. grant h n" and i: "j < length (uris (g a))"
    and s: "pIceConfigInfo s = Some a" "uriCount s = 1 + of_nat (length (uris (g a)))"
    and small: "length (uris (g a)) < 2 ^ 32"
  shows "\<exists>h'. query_turn P c (int (Suc j)) h s =
     (\<lparr>qr_status = STATUS_SUCCESS, qr_server = Some (turn_server (g a) (uris (g a) ! j)),
       qr_have_more = (Suc j < length (uris (g a)))\<rparr>, h', s) \<and> (\<forall>n. grant h' n)"
proof -
  obtain h' where h': "heap_calloc h = (True, h')" "\<forall>n. grant h' n" using calloc_granted[OF h] by blast
  have u: "unat (of_nat (Suc j) :: uint32) = Suc j"
    using i small by (simp add: unat_of_nat take_bit_nat_eq_self del: of_nat_Suc)
  have v: "unat (of_nat (length (uris (g a))) :: uint32) = length (uris (g a))"
    using small by (simp add: unat_of_nat take_bit_nat_eq_self)
  have "(of_int (int (Suc j)) < uriCount s - 1) = (Suc j < length (uris (g a)))"
    unfolding s(2) of_int_of_nat_eq word_less_nat_alt u by (simp add: v)
  then show ?thesis using h' i s by (simp add: query_turn_def Let_def turn_server_def g_def)
qed

text \<open>From index 2 on, and from the lookup at index 1.\<close>

lemma walk_rest:
  fixes P :: "'w ice_ports" and c :: "'w client"
  defines "g a \<equiv> config_at P a (cl_world c)"
  assumes "\<forall>n. grant h n" "j < length (uris (g a))" "0 < j"
    and s: "pIceConfigInfo s = Some a" "uriCount s = 1 + of_nat (length (uris (g a)))" "\<not> is_ice_refresh_in_progress s"
    and small: "length (uris (g a)) < 2 ^ 32" and "length (uris (g a)) \<le> j + n"
  shows "ice_walk P c n (int (Suc j)) h s = (map (turn_server (g a)) (drop j (uris (g a))), True)"
  using assms(2-4,9)
proof (induction n arbitrary: j h)
  case 0
  then show ?case by simp
next
  case (Suc n)
  obtain h' where q: "query_turn P c (int (Suc j)) h s =
     (\<lparr>qr_status = STATUS_SUCCESS, qr_server = Some (turn_server (g a) (uris (g a) ! j)),
       qr_have_more = (Suc j < length (uris (g a)))\<rparr>, h', s)" "\<forall>n. grant h' n"
    using query_turn_reply[of h j P a c s] Suc.prems(1,2) s small by (auto simp: g_def)
  have k: "kvsSignalingQueryServerGetByIdx P (Some c) (int (Suc j)) True h s = query_turn P c (int (Suc j)) h s"
    using s(3) Suc.prems(3) by (simp add: kvsSignalingQueryServerGetByIdx_def Let_def)
  have d: "drop j (uris (g a)) = uris (g a) ! j # drop (Suc j) (uris (g a))"
    using Suc.prems(2) by (simp add: Cons_nth_drop_Suc)
  show ?case
  proof (cases "Suc j < length (uris (g a))")
    case True
    have "ice_walk P c n (int (Suc j) + 1) h' s = (map (turn_server (g a)) (drop (Suc j) (uris (g a))), True)"
      using Suc.IH[of h' "Suc j"] True Suc.prems(4) q(2) by (simp add: algebra_simps)
    then show ?thesis using k q(1) True by (simp add: d)
  next
    case False
    then show ?thesis using k q(1) by (simp add: d)
  qed
qed

text \<open>
  C20: A caller that asks for the ICE servers of a connected client one by one, as long as there is
  more, gets the STUN server and then every TURN URI of the current configuration, once and in order,
  and is told to stop after the last one, if the configuration is fresh and there is memory.
\<close>

theorem ice_query_lists_all:
  assumes h: "\<forall>n. grant h n" and up: "signalingClientHandle c"
    and fresh: "\<not> signaling_is_ice_config_refresh_needed (Some (ice_state_of P (cl_world c)))"
    and info: "config_count P (cl_world c) = (STATUS_SUCCESS, k)" "0 < k"
      "config_info P 0 (cl_world c) = (STATUS_SUCCESS, Some a)"
    and small: "length (uris (config_at P a (cl_world c))) < 2 ^ 32"
    and n: "length (uris (config_at P a (cl_world c))) + 2 \<le> n"
  shows "ice_walk P c n 0 h s =
    (\<lparr>urls = snprintf_cut APP_WEBRTC_MAX_ICE_CONFIG_URI_LEN
         (stun_url P (awsRegion (config c)) (region_postfix P (awsRegion (config c)))),
      username = [], credential = []\<rparr> #
     map (turn_server (config_at P a (cl_world c))) (uris (config_at P a (cl_world c))), True)"
proof -
  let ?g = "config_at P a (cl_world c)"
  obtain h1 where h1: "heap_calloc h = (True, h1)" "\<forall>n. grant h1 n" using calloc_granted[OF h] by blast
  define s1 where "s1 = s\<lparr>uriCount := 1, is_ice_refresh_in_progress := False, queued := queued s @ [apply_task]\<rparr>"
  define s2 where "s2 = s1\<lparr>uriCount := 1 + of_nat (length (uris ?g)), pIceConfigInfo := Some a\<rparr>"
  have nr: "\<not> kvsIsIceRefreshNeededWrapper P (Some c)" using up fresh by (simp add: kvsIsIceRefreshNeededWrapper_def)
  have lk: "query_lookup P c True s1 = Some s2"
    using up nr info by (simp add: query_lookup_def s1_def s2_def)
  have q1: "kvsSignalingQueryServerGetByIdx P (Some c) 1 True h1 s1 = query_turn P c 1 h1 s2"
    using lk by (simp add: kvsSignalingQueryServerGetByIdx_def s1_def Let_def)
  have s2: "pIceConfigInfo s2 = Some a" "uriCount s2 = 1 + of_nat (length (uris ?g))" "\<not> is_ice_refresh_in_progress s2"
    by (simp_all add: s2_def s1_def)
  obtain m where m: "n = Suc (Suc m)" "length (uris ?g) \<le> m" using n by (metis add_2_eq_Suc' Suc_le_D Suc_le_mono)
  have rest: "ice_walk P c (Suc m) 1 h1 s1 = (map (turn_server ?g) (uris ?g), True)"
  proof (cases "uris ?g")
    case Nil
    then show ?thesis by (simp add: q1) (simp add: query_turn_def Let_def s2)
  next
    case (Cons u us)
    obtain h2 where q2: "query_turn P c (int (Suc 0)) h1 s2 =
     (\<lparr>qr_status = STATUS_SUCCESS, qr_server = Some (turn_server ?g (uris ?g ! 0)),
       qr_have_more = (Suc 0 < length (uris ?g))\<rparr>, h2, s2)" "\<forall>n. grant h2 n"
      using query_turn_reply[OF h1(2), of 0 P a c s2] Cons s2 small by auto
    show ?thesis
    proof (cases us)
      case Nil
      then show ?thesis using q1 q2(1) Cons by simp
    next
      case (Cons v vs)
      have "ice_walk P c m (int (Suc 1)) h2 s2 = (map (turn_server ?g) (drop 1 (uris ?g)), True)"
        using \<open>uris ?g = u # us\<close> Cons m(2) by (intro walk_rest[OF q2(2) _ _ s2 small]) auto
      then show ?thesis using q1 q2(1) \<open>uris ?g = u # us\<close> Cons by simp
    qed
  qed
  have q0: "kvsSignalingQueryServerGetByIdx P (Some c) 0 True h s =
     (\<lparr>qr_status = STATUS_SUCCESS, qr_server = Some \<lparr>urls = snprintf_cut APP_WEBRTC_MAX_ICE_CONFIG_URI_LEN
         (stun_url P (awsRegion (config c)) (region_postfix P (awsRegion (config c)))),
      username = [], credential = []\<rparr>, qr_have_more = True\<rparr>, h1, s1)"
    using h1(1) up nr by (simp add: kvsSignalingQueryServerGetByIdx_def query_first_def Let_def s1_def)
  show ?thesis using rest by (simp add: m(1) q0)
qed

text \<open>Two TURN URIs.\<close>

definition demo_ice :: "'w ice_ports" where
  "demo_ice = \<lparr>ice_state_of = (\<lambda>_. \<lparr>iceConfigCount = 1, iceConfigExpiration = 100, getIceConfigTime = 0, curTime = 5\<rparr>),
     config_count = (\<lambda>_. (STATUS_SUCCESS, 1)), config_info = (\<lambda>_ _. (STATUS_SUCCESS, Some 1)),
     config_at = (\<lambda>_ _. \<lparr>uris = [''turn:a'', ''turn:b''], ic_userName = ''u'', ic_password = ''p''\<rparr>),
     refresh_ice_configuration = (\<lambda>w. (STATUS_SUCCESS, w)), stun_url = (\<lambda>r p. ''stun:'' @ p),
     stun_postfix = ''com'', stun_postfix_cn = ''com.cn'', MAX_ICE_CONFIG_URI_LEN = 256,
     MAX_ICE_CONFIG_USER_NAME_LEN = 256, MAX_ICE_CONFIG_CREDENTIAL_LEN = 256, MAX_ICE_SERVERS_COUNT = 21,
     MAX_ICE_CONFIG_COUNT = 5\<rparr>"

theorem ice_query_lists_all_witness:
  "ice_walk demo_ice (demo_client ()) 4 0 always_grant query_init =
     ([\<lparr>urls = ''stun:com'', username = [], credential = []\<rparr>,
       \<lparr>urls = ''turn:a'', username = ''u'', credential = ''p''\<rparr>,
       \<lparr>urls = ''turn:b'', username = ''u'', credential = ''p''\<rparr>], True)"
proof -
  have h: "\<forall>n. grant always_grant n" by (simp add: always_grant_def)
  have P: "\<not> signaling_is_ice_config_refresh_needed (Some (ice_state_of demo_ice w))"
    "config_count demo_ice w = (STATUS_SUCCESS, 1)" "config_info demo_ice 0 w = (STATUS_SUCCESS, Some 1)"
    "config_at demo_ice 1 w = \<lparr>uris = [''turn:a'', ''turn:b''], ic_userName = ''u'', ic_password = ''p''\<rparr>" for w
    by (simp_all add: demo_ice_def signaling_is_ice_config_refresh_needed_def)
  have up: "signalingClientHandle (demo_client ())" by (simp add: demo_client_def)
  have v: "turn_server \<lparr>uris = [''turn:a'', ''turn:b''], ic_userName = ''u'', ic_password = ''p''\<rparr> u =
      \<lparr>urls = strncpy_term 127 u, username = ''u'', credential = ''p''\<rparr>" for u
    by (simp add: turn_server_def APP_WEBRTC_MAX_ICE_CONFIG_URI_LEN_def APP_WEBRTC_MAX_ICE_CONFIG_USER_NAME_LEN_def
        APP_WEBRTC_MAX_ICE_CONFIG_CREDENTIAL_LEN_def strncpy_term_id)
  have s: "snprintf_cut APP_WEBRTC_MAX_ICE_CONFIG_URI_LEN
       (stun_url demo_ice (awsRegion (config (demo_client ()))) (region_postfix demo_ice (awsRegion (config (demo_client ()))))) =
       ''stun:com''" by code_simp
  show ?thesis
    using ice_query_lists_all[OF h up P(1) P(2) _ P(3), of 4 query_init] unfolding P(4) s v
    by (simp add: strncpy_term_id)
qed

section \<open>What modelling showed\<close>

text \<open>The configuration found for one caller is still served when a later caller wants no TURN server.\<close>

lemma stale_turn_server:
  "\<exists>h s r h2 s2.
     kvsSignalingQueryServerGetByIdx demo_ice (Some (demo_client ())) 1 True always_grant query_init = (r, h, s) \<and>
     (case kvsSignalingQueryServerGetByIdx demo_ice (Some (demo_client ())) 0 False h s of
        (_, h1, s1) \<Rightarrow> kvsSignalingQueryServerGetByIdx demo_ice (Some (demo_client ())) 1 False h1 s1) =
       (\<lparr>qr_status = STATUS_SUCCESS, qr_server = Some \<lparr>urls = ''turn:a'', username = ''u'', credential = ''p''\<rparr>,
         qr_have_more = False\<rparr>, h2, s2)"
  by (simp add: kvsSignalingQueryServerGetByIdx_def query_lookup_def query_turn_def query_first_def
      kvsIsIceRefreshNeededWrapper_def signaling_is_ice_config_refresh_needed_def demo_ice_def demo_client_def
      heap_calloc_def always_grant_def query_init_def Let_def APP_WEBRTC_MAX_ICE_CONFIG_URI_LEN_def
      APP_WEBRTC_MAX_ICE_CONFIG_USER_NAME_LEN_def APP_WEBRTC_MAX_ICE_CONFIG_CREDENTIAL_LEN_def strncpy_term_id)

text \<open>
  The metrics of a sent answer cannot be read: the send returns that failure although the answer went
  out, and the backlog, which a successful send should get moving, is not queued.
\<close>

lemma metrics_failure_hides_sent_answer:
  "\<lbrakk>get_metrics W c = (e, c); e \<noteq> STATUS_SUCCESS; message_type m = WEBRTC_MESSAGE_TYPE_ANSWER\<rbrakk> \<Longrightarrow>
   send_unlocked W m STATUS_SUCCESS False True c = (e, c)"
  by (simp add: send_unlocked_def)

text \<open>While a storage session is being joined the websocket is up, and the application is told \<open>FAILED\<close>.\<close>

lemma join_session_reported_failed:
  "s \<in> {SIGNALING_CLIENT_STATE_JOIN_SESSION, SIGNALING_CLIENT_STATE_JOIN_SESSION_WAITING} \<Longrightarrow>
   kvsStateHasWebSocket s \<and> convertKvsToWebrtcSignalingState s = WEBRTC_SIGNALING_STATE_FAILED"
  by (auto simp: kvsStateHasWebSocket_def convertKvsToWebrtcSignalingState_def)

text \<open>Only a message callback: the first message received dereferences a NULL adapter.\<close>

lemma message_callback_without_adapter:
  "kvsSetCallbacksWrapper u (Some f) None None (Some c) = (r, Some c') \<Longrightarrow>
   sm_type m = SIGNALING_MESSAGE_TYPE_OFFER \<Longrightarrow> kvsMessageReceivedCallback (Some m) (Some c') = None"
  by (auto simp: kvsSetCallbacksWrapper_def kvsMessageReceivedCallback_def convertKvsToWebRtcMessage_def Let_def)

text \<open>Callbacks set twice: one more block is alive, and one adapter is owned, as before.\<close>

lemma callbacks_set_twice_leak:
  assumes "kvsSetCallbacksWrapper u f (Some g) e (Some c) = (WEBRTC_STATUS_SUCCESS, Some c')"
    "pCallbackAdapterData c \<noteq> None"
  shows "live (cl_heap c') - client_blocks c' = live (cl_heap c) - client_blocks c + 1"
proof -
  obtain ok h where h: "heap_calloc (cl_heap c) = (ok, h)" by (cases "heap_calloc (cl_heap c)") auto
  have "live h = live (cl_heap c) + (if ok then 1 else 0)" using live_heap_calloc[of "cl_heap c"] h by simp
  then show ?thesis using assms h
    by (auto simp: kvsSetCallbacksWrapper_def Let_def client_blocks_def WEBRTC_STATUS_SUCCESS_def
        WEBRTC_STATUS_INTERNAL_ERROR_def split: bool.splits)
qed

text \<open>The registry holds four clients; a fifth is never live, so none of its tasks runs.\<close>

lemma fifth_client_never_live:
  "\<not> kvsSignalingClientIsLive 5 (fold (kvsSignalingClientRegister True) [1, 2, 3, 4, 5] registry_init)"
  by code_simp

text \<open>
  The check of the flush compares 256 characters, the buffer keeps 255 of a peer's id: with an id of
  256 characters a candidate goes out while its answer is in the running flush's batch.
\<close>

lemma long_id_not_held:
  assumes "length q = 256" "flushAnswerPeers c = [strncpy_term KVS_PENDING_ICE_PEERID_LEN q]"
    "flushAnswerPeerCount c = 1" "CHR 0x00 \<notin> set q"
  shows "\<not> kvsFlushHoldsAnswerFor c q"
proof -
  have "length (strncpy_term KVS_PENDING_ICE_PEERID_LEN q) < 256"
    using strncpy_term_length[of KVS_PENDING_ICE_PEERID_LEN q] by (simp add: KVS_PENDING_ICE_PEERID_LEN_def)
  then have "take 256 (strncpy_term KVS_PENDING_ICE_PEERID_LEN q) \<noteq> take 256 q"
    using assms(1) by (metis le_refl less_irrefl_nat less_or_eq_imp_le take_all)
  then show ?thesis using assms(2,3)
    by (simp add: kvsFlushHoldsAnswerFor_def strncmp_eq_def KVS_PENDING_ICE_PEERID_LEN_def)
qed

end
