(* ===== verification/Session_Watchdog.thy ===== *)
theory Session_Watchdog
  imports Kvs_Prelude "HOL-Library.Sublist"
begin

text \<open>
  The liveness watchdog of peer connections: the decision of
  \<open>components/kvs_webrtc/src/kvs_liveness.c\<close>, the tick of \<open>kvs_webrtc.c\<close> that feeds it from the
  byte counters of the selected candidate pair (\<open>kvs_metricsCollectionCallback\<close>), and the handler
  of connection states it drives (\<open>onConnectionStateChangeHandler\<close>).
\<close>

section \<open>The decision\<close>

record liveness_health =
  terminate_flag :: bool
  awaiting_answer :: bool
  ever_connected :: bool
  ever_sent :: bool
  ever_recvd :: bool
  offer_time :: uint64
  last_send_progress :: uint64
  last_recv_progress :: uint64

record liveness_cfg =
  answer_deadline :: uint64
  connect_deadline :: uint64
  stall_deadline :: uint64

text \<open>Past a deadline, a time stamp ahead of \<open>now\<close> not being past any.\<close>

definition past :: "uint64 \<Rightarrow> uint64 \<Rightarrow> uint64 \<Rightarrow> bool" where
  "past now since deadline = (if now < since then False else now - since > deadline)"

definition kvs_liveness_should_evict :: "liveness_health option \<Rightarrow> liveness_cfg option \<Rightarrow> uint64 \<Rightarrow> bool" where
  "kvs_liveness_should_evict hp cp now =
     (case (hp, cp) of
        (Some h, Some cfg) \<Rightarrow>
          if terminate_flag h then False
          else if awaiting_answer h then past now (offer_time h) (answer_deadline cfg)
          else if \<not> ever_connected h then past now (offer_time h) (connect_deadline cfg)
          else if ever_sent h then past now (last_send_progress h) (stall_deadline cfg)
          else if ever_recvd h then past now (last_recv_progress h) (stall_deadline cfg)
          else False
      | _ \<Rightarrow> False)"

section \<open>The session\<close>

datatype peer_connection_state =
    RTC_PEER_CONNECTION_STATE_NEW | RTC_PEER_CONNECTION_STATE_CONNECTING
  | RTC_PEER_CONNECTION_STATE_CONNECTED | RTC_PEER_CONNECTION_STATE_DISCONNECTED
  | RTC_PEER_CONNECTION_STATE_FAILED | RTC_PEER_CONNECTION_STATE_CLOSED
  | RTC_PEER_CONNECTION_STATE_OTHER nat

datatype webrtc_peer_state =
    WEBRTC_PEER_STATE_NEW | WEBRTC_PEER_STATE_CONNECTING | WEBRTC_PEER_STATE_CONNECTED
  | WEBRTC_PEER_STATE_DISCONNECTED | WEBRTC_PEER_STATE_FAILED | WEBRTC_PEER_STATE_MEDIA_STARTING

text \<open>The fields of \<open>kvs_pc_session_t\<close> that these functions use; \<open>'w\<close> is the world outside.\<close>

record 'w session =
  terminated :: bool
  peer_connection :: bool
  se_client :: bool
  is_initiator :: bool
  answer_applied :: bool
  answer_time :: uint64
  start_time :: uint64
  wd_last_sent :: uint64
  wd_last_send_time :: uint64
  wd_ever_sent :: bool
  wd_last_recvd :: uint64
  wd_last_recv_time :: uint64
  wd_ever_recvd :: bool
  wd_ever_connected :: bool
  wd_disconnect_done :: bool
  media_started :: bool
  media_threads_started :: bool
  last_kvs_state :: peer_connection_state
  receive_media :: bool
  enable_metrics :: bool
  on_peer_state_changed :: "(webrtc_peer_state \<Rightarrow> 'w \<Rightarrow> 'w) option"
  prevTs :: uint64
  se_world :: 'w

text \<open>The media layer, the SDK's statistics and the clock.\<close>

record 'w pc_ports =
  start_reception :: "'w \<Rightarrow> STATUS \<times> 'w"
  stop_session :: "'w \<Rightarrow> 'w"
  pc_metrics :: "'w \<Rightarrow> STATUS \<times> 'w"
  ice_metrics :: "'w \<Rightarrow> STATUS \<times> 'w"
  pair_stats :: "'w \<Rightarrow> STATUS \<times> uint64 \<times> uint64 \<times> 'w"
  gettime :: "'w \<Rightarrow> uint64"

definition notify_peer_state :: "webrtc_peer_state \<Rightarrow> 'w session \<Rightarrow> 'w session" where
  "notify_peer_state st s =
     (case on_peer_state_changed s of None \<Rightarrow> s | Some f \<Rightarrow> s\<lparr>se_world := f st (se_world s)\<rparr>)"

definition on_connected :: "'w pc_ports \<Rightarrow> 'w session \<Rightarrow> 'w session" where
  "on_connected P s =
     (let s1 = s\<lparr>media_started := True, wd_ever_connected := True\<rparr>;
          s2 = (if receive_media s1 \<and> \<not> media_threads_started s1 then
                  (case start_reception P (se_world s1) of
                     (st, w) \<Rightarrow> s1\<lparr>se_world := w, media_threads_started := (st = STATUS_SUCCESS)\<rparr>)
                else s1)
      in if enable_metrics s2 then
           (case pc_metrics P (se_world s2) of
              (st, w) \<Rightarrow> if st \<noteq> STATUS_SUCCESS then s2\<lparr>se_world := w\<rparr>
                         else s2\<lparr>se_world := snd (ice_metrics P w)\<rparr>)
         else s2)"

text \<open>\<open>ATOMIC_EXCHANGE_BOOL\<close> lets only the first disconnect through; the others are not even reported.\<close>

definition onConnectionStateChangeHandler :: "'w pc_ports \<Rightarrow> peer_connection_state \<Rightarrow> 'w session option \<Rightarrow> 'w session option" where
  "onConnectionStateChangeHandler P st q =
     (case q of None \<Rightarrow> None
      | Some s0 \<Rightarrow>
          (let s = s0\<lparr>last_kvs_state := st\<rparr>
           in if st = RTC_PEER_CONNECTION_STATE_NEW then Some (notify_peer_state WEBRTC_PEER_STATE_NEW s)
              else if st = RTC_PEER_CONNECTION_STATE_CONNECTING then Some (notify_peer_state WEBRTC_PEER_STATE_CONNECTING s)
              else if st = RTC_PEER_CONNECTION_STATE_CONNECTED
              then Some (notify_peer_state WEBRTC_PEER_STATE_CONNECTED (on_connected P s))
              else if st \<in> {RTC_PEER_CONNECTION_STATE_DISCONNECTED, RTC_PEER_CONNECTION_STATE_FAILED,
                            RTC_PEER_CONNECTION_STATE_CLOSED} then
                (let s1 = s\<lparr>media_started := False, wd_disconnect_done := True\<rparr>
                 in if wd_disconnect_done s then Some s1
                    else (let s2 = s1\<lparr>terminated := True\<rparr>
                          in Some (notify_peer_state WEBRTC_PEER_STATE_DISCONNECTED
                                     (s2\<lparr>se_world := stop_session P (se_world s2)\<rparr>))))
              else Some (notify_peer_state WEBRTC_PEER_STATE_CONNECTING s)))"

section \<open>The tick\<close>

text \<open>The counters of the pair, and the snapshot for the decision.\<close>

definition wd_update :: "uint64 \<Rightarrow> uint64 \<Rightarrow> uint64 \<Rightarrow> 'w session \<Rightarrow> 'w session" where
  "wd_update now sent recvd s =
     (let s1 = (if sent > wd_last_sent s
                then s\<lparr>wd_last_sent := sent, wd_last_send_time := now, wd_ever_sent := True\<rparr> else s)
      in if recvd > wd_last_recvd s1
         then s1\<lparr>wd_last_recvd := recvd, wd_last_recv_time := now, wd_ever_recvd := True\<rparr> else s1)"

definition wd_health :: "liveness_cfg \<Rightarrow> 'w session \<Rightarrow> liveness_health" where
  "wd_health cfg s =
     (let answer_wait = (is_initiator s \<and> answer_deadline cfg > 0)
      in \<lparr>terminate_flag = terminated s, awaiting_answer = (answer_wait \<and> \<not> answer_applied s),
          ever_connected = wd_ever_connected s, ever_sent = wd_ever_sent s, ever_recvd = wd_ever_recvd s,
          offer_time = (if answer_wait \<and> answer_applied s then answer_time s else start_time s),
          last_send_progress = wd_last_send_time s, last_recv_progress = wd_last_recv_time s\<rparr>)"

definition wd_evicts :: "liveness_cfg \<Rightarrow> uint64 \<Rightarrow> 'w session \<Rightarrow> bool" where
  "wd_evicts cfg now s = kvs_liveness_should_evict (Some (wd_health cfg s)) (Some cfg) now"

text \<open>
  \<open>kvs_metricsCollectionCallback\<close> for one session of the table; every early exit returns success, so
  that the iteration goes on.
\<close>

definition kvs_metricsCollectionCallback :: "'w pc_ports \<Rightarrow> liveness_cfg \<Rightarrow> 'w session option \<Rightarrow> STATUS \<times> 'w session option" where
  "kvs_metricsCollectionCallback P cfg q =
     (case q of None \<Rightarrow> (STATUS_NULL_ARG, None)
      | Some s \<Rightarrow>
          (STATUS_SUCCESS,
           if terminated s \<or> \<not> peer_connection s \<or> \<not> se_client s then q
           else
             (case pair_stats P (se_world s) of
                (st, sent, recvd, w) \<Rightarrow>
                  if st \<noteq> STATUS_SUCCESS then Some (s\<lparr>se_world := w\<rparr>)
                  else
                    (let now = gettime P w; s1 = wd_update now sent recvd (s\<lparr>se_world := w\<rparr>)
                     in if wd_evicts cfg now s1
                        then onConnectionStateChangeHandler P RTC_PEER_CONNECTION_STATE_DISCONNECTED (Some s1)
                        else if enable_metrics s1 then
                          (case pc_metrics P (se_world s1) of
                             (st2, w2) \<Rightarrow>
                               if st2 \<noteq> STATUS_SUCCESS then Some (s1\<lparr>se_world := w2\<rparr>)
                               else (let w3 = snd (ice_metrics P w2)
                                     in Some (s1\<lparr>se_world := w3, prevTs := gettime P w3\<rparr>)))
                        else Some (s1\<lparr>prevTs := gettime P (se_world s1)\<rparr>)))))"

definition KVS_LIVENESS_CONNECT_DEADLINE :: uint64 where "KVS_LIVENESS_CONNECT_DEADLINE = 30 * 10000000"
definition KVS_LIVENESS_STALL_DEADLINE :: uint64 where "KVS_LIVENESS_STALL_DEADLINE = 30 * 10000000"

definition gKvsLivenessCfg :: liveness_cfg where
  "gKvsLivenessCfg = \<lparr>answer_deadline = 0, connect_deadline = KVS_LIVENESS_CONNECT_DEADLINE,
     stall_deadline = KVS_LIVENESS_STALL_DEADLINE\<rparr>"

definition kvs_peer_connection_set_answer_timeout :: "uint32 \<Rightarrow> liveness_cfg \<Rightarrow> liveness_cfg" where
  "kvs_peer_connection_set_answer_timeout seconds cfg = cfg\<lparr>answer_deadline := ucast seconds * 10000000\<rparr>"

section \<open>The properties\<close>

text \<open>
  The decision of the watchdog over a whole series of ticks: which silence ends a connected
  session, and what a disconnect does once the first one has been handled.
\<close>

section \<open>What a series of samples says\<close>

text \<open>A sample is the time of a tick with the two byte counters; a tick whose statistics fail has none.\<close>

type_synonym tick_sample = "uint64 \<times> uint64 \<times> uint64"

abbreviation sent_of :: "tick_sample \<Rightarrow> uint64" where "sent_of x \<equiv> fst (snd x)"
abbreviation recvd_of :: "tick_sample \<Rightarrow> uint64" where "recvd_of x \<equiv> snd (snd x)"

definition sample :: "'w pc_ports \<Rightarrow> 'w \<Rightarrow> tick_sample option" where
  "sample P w = (case pair_stats P w of
     (st, sent, recvd, w') \<Rightarrow> if st = STATUS_SUCCESS then Some (gettime P w', sent, recvd) else None)"

definition samples :: "'w pc_ports \<Rightarrow> 'w list \<Rightarrow> tick_sample list" where
  "samples P ws = List.map_filter (sample P) ws"

text \<open>The highest count seen, and the time it was first seen; no time when nothing was ever counted.\<close>

definition top_count :: "(tick_sample \<Rightarrow> uint64) \<Rightarrow> tick_sample list \<Rightarrow> uint64" where
  "top_count f xs = Max (insert 0 (f ` set xs))"

definition progress :: "(tick_sample \<Rightarrow> uint64) \<Rightarrow> tick_sample list \<Rightarrow> uint64 option" where
  "progress f xs = (if top_count f xs = 0 then None
                    else map_option fst (find (\<lambda>x. f x = top_count f xs) xs))"

text \<open>
  Silence at the last sample: the sent counter alone decides once anything was sent; the received
  one decides only for a session that never sent.
\<close>

definition silent :: "uint64 \<Rightarrow> tick_sample list \<Rightarrow> bool" where
  "silent D xs = (xs \<noteq> [] \<and>
     (case progress sent_of xs of
        Some T \<Rightarrow> past (fst (last xs)) T D
      | None \<Rightarrow> (case progress recvd_of xs of Some T \<Rightarrow> past (fst (last xs)) T D | None \<Rightarrow> False)))"

text \<open>The ticks of a session; before each one the world outside has become \<open>w\<close>.\<close>

definition tick :: "'w pc_ports \<Rightarrow> liveness_cfg \<Rightarrow> 'w \<Rightarrow> 'w session \<Rightarrow> 'w session" where
  "tick P cfg w s = the (snd (kvs_metricsCollectionCallback P cfg (Some (s\<lparr>se_world := w\<rparr>))))"

definition ticks :: "'w pc_ports \<Rightarrow> liveness_cfg \<Rightarrow> 'w list \<Rightarrow> 'w session \<Rightarrow> 'w session" where
  "ticks P cfg ws s = fold (tick P cfg) ws s"

lemma top_count_Nil [simp]: "top_count f [] = 0"
  by (simp add: top_count_def)

lemma top_count_snoc: "top_count f (xs @ [x]) = max (top_count f xs) (f x)"
proof -
  have "insert 0 (f ` set (xs @ [x])) = insert (f x) (insert 0 (f ` set xs))" by auto
  then show ?thesis by (simp add: top_count_def max.commute)
qed

lemma top_count_ge: "x \<in> set xs \<Longrightarrow> f x \<le> top_count f xs"
  by (simp add: top_count_def)

lemma top_count_attained:
  assumes "top_count f xs \<noteq> 0"
  obtains x where "x \<in> set xs" "f x = top_count f xs"
proof -
  have "top_count f xs \<in> insert 0 (f ` set xs)" unfolding top_count_def by (rule Max_in) simp_all
  then have "top_count f xs \<in> f ` set xs" using assms by simp
  then show ?thesis using that by (metis imageE)
qed

lemma find_top:
  assumes "top_count f xs \<noteq> 0"
  obtains y where "find (\<lambda>y. f y = top_count f xs) xs = Some y"
proof -
  obtain x where "x \<in> set xs" "f x = top_count f xs" by (rule top_count_attained[OF assms])
  then have "find (\<lambda>y. f y = top_count f xs) xs \<noteq> None" unfolding find_None_iff by metis
  then show ?thesis using that by blast
qed

lemma find_append: "find Q (xs @ ys) = (case find Q xs of Some x \<Rightarrow> Some x | None \<Rightarrow> find Q ys)"
  by (induction xs) auto

lemma progress_Nil [simp]: "progress f [] = None"
  by (simp add: progress_def)

lemma progress_snoc:
  "progress f (xs @ [x]) = (if f x > top_count f xs then Some (fst x) else progress f xs)"
proof (cases "f x > top_count f xs")
  case True
  have "find (\<lambda>y. f y = f x) xs = None"
    using True top_count_ge[of _ xs f] by (force simp: find_None_iff)
  moreover have "f x \<noteq> 0" using True by auto
  ultimately show ?thesis
    using True by (simp add: progress_def top_count_snoc max_def find_append less_imp_le)
next
  case False
  then have top: "top_count f (xs @ [x]) = top_count f xs" by (simp add: top_count_snoc max_def not_less)
  show ?thesis
  proof (cases "top_count f xs = 0")
    case True with False top show ?thesis by (simp add: progress_def)
  next
    case nz: False
    obtain y where "find (\<lambda>y. f y = top_count f xs) xs = Some y"
      by (rule find_top[OF nz])
    with False top nz show ?thesis by (simp add: progress_def find_append)
  qed
qed

section \<open>The fields of the session say the same\<close>

definition tracks :: "'w session \<Rightarrow> tick_sample list \<Rightarrow> bool" where
  "tracks s xs \<longleftrightarrow>
     wd_last_sent s = top_count sent_of xs \<and> wd_last_recvd s = top_count recvd_of xs \<and>
     wd_ever_sent s = (progress sent_of xs \<noteq> None) \<and> wd_ever_recvd s = (progress recvd_of xs \<noteq> None) \<and>
     (progress sent_of xs \<noteq> None \<longrightarrow> progress sent_of xs = Some (wd_last_send_time s)) \<and>
     (progress recvd_of xs \<noteq> None \<longrightarrow> progress recvd_of xs = Some (wd_last_recv_time s))"

lemma tracks_update:
  assumes "tracks s xs"
  shows "tracks (wd_update now sent recvd s) (xs @ [(now, sent, recvd)])"
  using assms by (auto simp: tracks_def wd_update_def Let_def top_count_snoc progress_snoc max_def)

text \<open>A live session, judged by its traffic.\<close>

definition judged_by_traffic :: "liveness_cfg \<Rightarrow> 'w session \<Rightarrow> bool" where
  "judged_by_traffic cfg s \<longleftrightarrow>
     \<not> terminated s \<and> \<not> wd_disconnect_done s \<and> peer_connection s \<and> se_client s \<and> wd_ever_connected s \<and>
     (is_initiator s \<and> answer_deadline cfg > 0 \<longrightarrow> answer_applied s)"

lemma wd_update_fields [simp]:
  "terminated (wd_update n a b s) = terminated s" "wd_disconnect_done (wd_update n a b s) = wd_disconnect_done s"
  "peer_connection (wd_update n a b s) = peer_connection s" "se_client (wd_update n a b s) = se_client s"
  "wd_ever_connected (wd_update n a b s) = wd_ever_connected s" "is_initiator (wd_update n a b s) = is_initiator s"
  "answer_applied (wd_update n a b s) = answer_applied s"
  by (simp_all add: wd_update_def Let_def)

lemma evicts_iff_silent:
  assumes "tracks s (xs @ [x])" "judged_by_traffic cfg s"
  shows "wd_evicts cfg (fst x) s \<longleftrightarrow> silent (stall_deadline cfg) (xs @ [x])"
  using assms
  by (auto simp: tracks_def judged_by_traffic_def wd_evicts_def wd_health_def kvs_liveness_should_evict_def
      silent_def Let_def split: option.splits)

lemma tracks_irrelevant [simp]:
  "tracks (s\<lparr>se_world := w\<rparr>) xs = tracks s xs" "tracks (s\<lparr>prevTs := t\<rparr>) xs = tracks s xs"
  "judged_by_traffic cfg (s\<lparr>se_world := w\<rparr>) = judged_by_traffic cfg s"
  "judged_by_traffic cfg (s\<lparr>prevTs := t\<rparr>) = judged_by_traffic cfg s"
  by (simp_all add: tracks_def judged_by_traffic_def)

lemma judged_update [simp]: "judged_by_traffic cfg (wd_update n a b s) = judged_by_traffic cfg s"
  by (simp add: judged_by_traffic_def)

lemma tick_terminated: "terminated s \<Longrightarrow> terminated (tick P cfg w s)"
  by (simp add: tick_def kvs_metricsCollectionCallback_def)

lemma ticks_terminated: "terminated s \<Longrightarrow> terminated (ticks P cfg ws s)"
  unfolding ticks_def by (induction ws arbitrary: s) (simp_all add: tick_terminated)

lemma disconnect_terminates:
  "\<not> wd_disconnect_done s \<Longrightarrow>
   terminated (the (onConnectionStateChangeHandler P RTC_PEER_CONNECTION_STATE_DISCONNECTED (Some s)))"
  by (simp add: onConnectionStateChangeHandler_def Let_def notify_peer_state_def split: option.splits)

lemma tick_live_skip:
  assumes "judged_by_traffic cfg s" "sample P w = None" "tracks s xs"
  shows "judged_by_traffic cfg (tick P cfg w s)" "tracks (tick P cfg w s) xs"
  using assms
  by (auto simp: tick_def kvs_metricsCollectionCallback_def sample_def judged_by_traffic_def tracks_def
      split: prod.splits if_splits)

lemma tick_live_sample:
  assumes J: "judged_by_traffic cfg s" and S: "sample P w = Some x" and T: "tracks s xs"
  shows "if silent (stall_deadline cfg) (xs @ [x]) then terminated (tick P cfg w s)
         else judged_by_traffic cfg (tick P cfg w s) \<and> tracks (tick P cfg w s) (xs @ [x])"
proof -
  obtain sent recvd w' where st: "pair_stats P w = (STATUS_SUCCESS, sent, recvd, w')"
    and x: "x = (gettime P w', sent, recvd)"
    using S by (auto simp: sample_def split: prod.splits if_splits)
  define s1 where "s1 = wd_update (gettime P w') sent recvd (s\<lparr>se_world := w'\<rparr>)"
  have J1: "judged_by_traffic cfg s1" and T1: "tracks s1 (xs @ [x])"
    using J tracks_update[of "s\<lparr>se_world := w'\<rparr>" xs] T by (simp_all add: s1_def x)
  have ev: "wd_evicts cfg (gettime P w') s1 \<longleftrightarrow> silent (stall_deadline cfg) (xs @ [x])"
    using evicts_iff_silent[OF T1 J1] by (simp add: x)
  have live: "\<not> terminated s" "peer_connection s" "se_client s" "\<not> wd_disconnect_done s1"
    using J J1 by (simp_all add: judged_by_traffic_def)
  show ?thesis
  proof (cases "silent (stall_deadline cfg) (xs @ [x])")
    case True
    then have "tick P cfg w s =
        the (onConnectionStateChangeHandler P RTC_PEER_CONNECTION_STATE_DISCONNECTED (Some s1))"
      using live st ev by (simp add: tick_def kvs_metricsCollectionCallback_def Let_def s1_def)
    then show ?thesis using True disconnect_terminates[OF live(4)] by simp
  next
    case False
    then have "\<exists>w2 t. tick P cfg w s = s1\<lparr>se_world := w2\<rparr> \<or> tick P cfg w s = s1\<lparr>prevTs := t\<rparr>
                  \<or> tick P cfg w s = s1\<lparr>se_world := w2, prevTs := t\<rparr>"
      using live st ev
      by (simp add: tick_def kvs_metricsCollectionCallback_def Let_def s1_def split: prod.splits) blast
    then show ?thesis using False J1 T1 by auto
  qed
qed

lemma ticks_from:
  assumes "judged_by_traffic cfg s" "tracks s xs"
  shows "terminated (ticks P cfg ws s) \<longleftrightarrow>
         (\<exists>ys. ys \<noteq> [] \<and> prefix ys (samples P ws) \<and> silent (stall_deadline cfg) (xs @ ys))"
  using assms
proof (induction ws arbitrary: s xs)
  case Nil
  then show ?case by (simp add: ticks_def samples_def judged_by_traffic_def List.map_filter_simps)
next
  case (Cons w ws)
  have step: "ticks P cfg (w # ws) s = ticks P cfg ws (tick P cfg w s)" by (simp add: ticks_def)
  show ?case
  proof (cases "sample P w")
    case None
    then have "samples P (w # ws) = samples P ws" by (simp add: samples_def List.map_filter_simps)
    then show ?thesis
      using Cons.IH[OF tick_live_skip[OF Cons.prems(1) None Cons.prems(2)]] by (simp add: step)
  next
    case (Some x)
    then have sm: "samples P (w # ws) = x # samples P ws" by (simp add: samples_def List.map_filter_simps)
    note live = tick_live_sample[OF Cons.prems(1) Some Cons.prems(2)]
    show ?thesis
    proof (cases "silent (stall_deadline cfg) (xs @ [x])")
      case True
      then have "terminated (ticks P cfg (w # ws) s)" using live ticks_terminated by (simp add: step)
      moreover have "prefix [x] (samples P (w # ws))" by (simp add: sm)
      ultimately show ?thesis using True by blast
    next
      case False
      then have "terminated (ticks P cfg (w # ws) s) \<longleftrightarrow>
          (\<exists>ys. ys \<noteq> [] \<and> prefix ys (samples P ws) \<and> silent (stall_deadline cfg) ((xs @ [x]) @ ys))"
        using Cons.IH[of "tick P cfg w s" "xs @ [x]"] live False unfolding step by (simp only: if_False)
      also have "\<dots> \<longleftrightarrow> (\<exists>ys. ys \<noteq> [] \<and> prefix ys (samples P (w # ws)) \<and> silent (stall_deadline cfg) (xs @ ys))"
      proof
        assume "\<exists>ys. ys \<noteq> [] \<and> prefix ys (samples P ws) \<and> silent (stall_deadline cfg) ((xs @ [x]) @ ys)"
        then obtain ys where "prefix ys (samples P ws)" "silent (stall_deadline cfg) (xs @ x # ys)" by auto
        then show "\<exists>ys. ys \<noteq> [] \<and> prefix ys (samples P (w # ws)) \<and> silent (stall_deadline cfg) (xs @ ys)"
          by (intro exI[of _ "x # ys"]) (simp add: sm)
      next
        assume "\<exists>ys. ys \<noteq> [] \<and> prefix ys (samples P (w # ws)) \<and> silent (stall_deadline cfg) (xs @ ys)"
        then obtain ys where "prefix ys (samples P ws)" "silent (stall_deadline cfg) (xs @ x # ys)"
          by (auto simp: sm prefix_Cons)
        moreover have "ys \<noteq> []" using calculation(2) False by auto
        ultimately show "\<exists>ys. ys \<noteq> [] \<and> prefix ys (samples P ws) \<and> silent (stall_deadline cfg) ((xs @ [x]) @ ys)"
          by auto
      qed
      finally show ?thesis .
    qed
  qed
qed

text \<open>
  C21: A connected session that is not waiting for an answer is ended by the watchdog after a series
  of ticks exactly when at one of them the traffic had been silent for longer than the stall deadline.
  Silence counts from the tick at which the highest sent count was first seen, whatever is received
  meanwhile; the received count decides only for a session that has sent nothing, and a session
  without any traffic is never ended. Ticks whose statistics fail do not matter.
\<close>

theorem watchdog_evicts_on_silence:
  assumes "judged_by_traffic cfg s" "wd_last_sent s = 0" "wd_last_recvd s = 0"
    "\<not> wd_ever_sent s" "\<not> wd_ever_recvd s"
  shows "terminated (ticks P cfg ws s) \<longleftrightarrow>
         (\<exists>xs. prefix xs (samples P ws) \<and> silent (stall_deadline cfg) xs)"
proof -
  have "tracks s []" using assms by (simp add: tracks_def)
  from ticks_from[OF assms(1) this, of P ws]
  show ?thesis by (auto simp: silent_def)
qed

text \<open>A session of which the world is its clock with the counters of the pair.\<close>

definition demo_ports :: "(uint64 \<times> uint64 \<times> uint64) pc_ports" where
  "demo_ports = \<lparr>start_reception = (\<lambda>w. (STATUS_SUCCESS, w)), stop_session = (\<lambda>w. w),
     pc_metrics = (\<lambda>w. (STATUS_SUCCESS, w)), ice_metrics = (\<lambda>w. (STATUS_SUCCESS, w)),
     pair_stats = (\<lambda>w. (STATUS_SUCCESS, sent_of w, recvd_of w, w)), gettime = fst\<rparr>"

definition demo_session :: "(uint64 \<times> uint64 \<times> uint64) session" where
  "demo_session = \<lparr>terminated = False, peer_connection = True, se_client = True, is_initiator = False,
     answer_applied = False, answer_time = 0, start_time = 0, wd_last_sent = 0, wd_last_send_time = 0,
     wd_ever_sent = False, wd_last_recvd = 0, wd_last_recv_time = 0, wd_ever_recvd = False,
     wd_ever_connected = True, wd_disconnect_done = False, media_started = True,
     media_threads_started = False, last_kvs_state = RTC_PEER_CONNECTION_STATE_CONNECTED,
     receive_media = False, enable_metrics = False, on_peer_state_changed = None, prevTs = 0,
     se_world = (0, 0, 0)\<rparr>"

text \<open>The sent counter stands still at 7 while 30 seconds and more pass; what arrives does not help.\<close>

theorem watchdog_evicts_on_silence_witness:
  "terminated (ticks demo_ports gKvsLivenessCfg [(10, 7, 1), (200000000, 7, 2), (300000011, 7, 3)] demo_session)"
proof -
  let ?xs = "[(10, 7, 1), (200000000, 7, 2), (300000011, 7, 3)] :: tick_sample list"
  have "samples demo_ports ?xs = ?xs" by code_simp
  moreover have "silent (stall_deadline gKvsLivenessCfg) ?xs" by code_simp
  ultimately have "\<exists>xs. prefix xs (samples demo_ports ?xs) \<and> silent (stall_deadline gKvsLivenessCfg) xs"
    by (intro exI[of _ ?xs]) simp
  then show ?thesis
    by (subst watchdog_evicts_on_silence) (simp_all add: judged_by_traffic_def demo_session_def)
qed

section \<open>After the first disconnect\<close>

lemma second_disconnect_does_nothing:
  assumes "wd_disconnect_done s"
  shows "onConnectionStateChangeHandler P RTC_PEER_CONNECTION_STATE_DISCONNECTED (Some s)
         = Some (s\<lparr>last_kvs_state := RTC_PEER_CONNECTION_STATE_DISCONNECTED, media_started := False,
                   wd_disconnect_done := True\<rparr>)"
  using assms by (simp add: onConnectionStateChangeHandler_def Let_def)

text \<open>
  A session that is reported connected again after its first disconnect starts its media anew and
  tells the application so; the disconnect that follows stops nothing and tells nobody.
\<close>

lemma reconnect_then_disconnect_unnoticed:
  assumes "wd_disconnect_done s" "receive_media s" "\<not> media_threads_started s" "\<not> enable_metrics s"
    "on_peer_state_changed s = Some f" "start_reception P (se_world s) = (STATUS_SUCCESS, w)"
    "onConnectionStateChangeHandler P RTC_PEER_CONNECTION_STATE_CONNECTED (Some s) = Some s1"
    "onConnectionStateChangeHandler P RTC_PEER_CONNECTION_STATE_DISCONNECTED (Some s1) = Some s2"
  shows "se_world s1 = f WEBRTC_PEER_STATE_CONNECTED w \<and> se_world s2 = se_world s1 \<and> media_threads_started s2"
  using assms by (auto simp: onConnectionStateChangeHandler_def on_connected_def notify_peer_state_def Let_def)

end
