(* ===== verification/State_Machine.thy ===== *)
theory State_Machine
  imports Kvs_Prelude
begin

text \<open>
  The state machine of \<open>components/state_machine/state_machine.c\<close>: a table of states with their
  callbacks, stepped by the signaling client. The current state is a position in the table. The
  callbacks get \<open>customData\<close>, through which the clients of this code reach the machine itself, so a
  callback here takes and returns the context of the machine with the world outside (\<open>'w\<close>).
\<close>

section \<open>Data\<close>

record StateMachineContext =
  pCurrentState :: nat
  localStateRetryCount :: uint32
  stateTransitionWaitTime :: uint64

record 'w StateMachineState =
  state :: uint64
  acceptStates :: uint64
  getNextStateFn :: "(StateMachineContext \<times> 'w \<Rightarrow> STATUS \<times> uint64 \<times> StateMachineContext \<times> 'w) option"
  executeStateFn :: "(uint64 \<Rightarrow> StateMachineContext \<times> 'w \<Rightarrow> STATUS \<times> StateMachineContext \<times> 'w) option"
  stateTransitionHookFunc :: "(StateMachineContext \<times> 'w \<Rightarrow> STATUS \<times> uint64 \<times> StateMachineContext \<times> 'w) option"
  maxLocalStateRetryCount :: uint32
  status :: STATUS

record 'w StateMachine =
  version :: uint32
  getCurrentTimeFunc :: "'w \<Rightarrow> uint64"
  sm_context :: StateMachineContext
  stateCount :: uint32
  stateMachineName :: string
  states :: "'w StateMachineState list"
  sm_world :: 'w

definition INFINITE_RETRY_COUNT_SENTINEL :: uint32 where "INFINITE_RETRY_COUNT_SENTINEL = 0"
definition STATE_MACHINE_CURRENT_VERSION :: uint32 where "STATE_MACHINE_CURRENT_VERSION = 0"
definition MAX_STATE_MACHINE_NAME_LENGTH :: nat where "MAX_STATE_MACHINE_NAME_LENGTH = 32"

text \<open>The state at a position, and the current one.\<close>

definition state_at :: "'w StateMachine \<Rightarrow> nat \<Rightarrow> 'w StateMachineState" where
  "state_at m i = states m ! i"

definition current :: "'w StateMachine \<Rightarrow> 'w StateMachineState" where
  "current m = state_at m (pCurrentState (sm_context m))"

text \<open>A machine after a callback left the context and the world as \<open>cw\<close>.\<close>

definition after :: "StateMachineContext \<times> 'w \<Rightarrow> 'w StateMachine \<Rightarrow> 'w StateMachine" where
  "after cw m = m\<lparr>sm_context := fst cw, sm_world := snd cw\<rparr>"

section \<open>Creation\<close>

text \<open>
  \<open>None\<close> stands for a NULL argument. The context of a new machine is the zeroed memory of
  \<open>calloc\<close>; the name is empty. A failed allocation hands out nothing.
\<close>

definition createStateMachine ::
  "'w StateMachineState list option \<Rightarrow> uint32 \<Rightarrow> ('w \<Rightarrow> uint64) option \<Rightarrow> 'w \<Rightarrow> heap
   \<Rightarrow> STATUS \<times> 'w StateMachine option \<times> heap" where
  "createStateMachine pStates count clock w h =
     (case (pStates, clock) of
        (Some sts, Some f) \<Rightarrow>
          if count = 0 then (STATUS_INVALID_ARG, None, h)
          else
            (case heap_calloc h of
               (ok, h') \<Rightarrow>
                 if \<not> ok then (STATUS_NOT_ENOUGH_MEMORY, None, h')
                 else (STATUS_SUCCESS,
                       Some \<lparr>version = STATE_MACHINE_CURRENT_VERSION, getCurrentTimeFunc = f,
                             sm_context = \<lparr>pCurrentState = 0, localStateRetryCount = 0, stateTransitionWaitTime = 0\<rparr>,
                             stateCount = count, stateMachineName = '''', states = take (unat count) sts,
                             sm_world = w\<rparr>, h'))
      | _ \<Rightarrow> (STATUS_NULL_ARG, None, h))"

definition createStateMachineWithName ::
  "'w StateMachineState list option \<Rightarrow> uint32 \<Rightarrow> ('w \<Rightarrow> uint64) option \<Rightarrow> 'w \<Rightarrow> string option \<Rightarrow> heap
   \<Rightarrow> STATUS \<times> 'w StateMachine option \<times> heap" where
  "createStateMachineWithName pStates count clock w name h =
     (case name of
        None \<Rightarrow> (STATUS_NULL_ARG, None, h)
      | Some n \<Rightarrow>
          if n = '''' then (STATUS_STATE_MACHINE_NAME_LEN_INVALID, None, h)
          else if \<not> min (length n) (MAX_STATE_MACHINE_NAME_LENGTH + 1) \<le> MAX_STATE_MACHINE_NAME_LENGTH
          then (STATUS_STATE_MACHINE_NAME_LEN_INVALID, None, h)
          else
            (case createStateMachine pStates count clock w h of
               (st, r, h') \<Rightarrow>
                 if st \<noteq> STATUS_SUCCESS then (st, r, h')
                 else (case r of
                         None \<Rightarrow> (STATUS_NULL_ARG, None, h')
                       | Some m \<Rightarrow> (STATUS_SUCCESS,
                                    Some (m\<lparr>stateMachineName := take MAX_STATE_MACHINE_NAME_LENGTH n\<rparr>), h'))))"

definition freeStateMachine :: "'w StateMachine option \<Rightarrow> heap \<Rightarrow> STATUS \<times> heap" where
  "freeStateMachine p h = (case p of None \<Rightarrow> (STATUS_SUCCESS, h) | Some _ \<Rightarrow> (STATUS_SUCCESS, heap_free h))"

section \<open>Lookup\<close>

text \<open>The loop of \<open>getStateMachineState\<close>: the first position with the code.\<close>

fun find_state :: "uint64 \<Rightarrow> 'w StateMachineState list \<Rightarrow> nat \<Rightarrow> nat option" where
  "find_state c [] i = None"
| "find_state c (s # sts) i = (if state s = c then Some i else find_state c sts (Suc i))"

definition getStateMachineState :: "'w StateMachine \<Rightarrow> uint64 \<Rightarrow> STATUS \<times> nat option" where
  "getStateMachineState m c =
     (case find_state c (states m) 0 of
        None \<Rightarrow> (STATUS_STATE_MACHINE_STATE_NOT_FOUND, None)
      | Some i \<Rightarrow> (STATUS_SUCCESS, Some i))"

definition getStateMachineCurrentState :: "'w StateMachine \<Rightarrow> STATUS \<times> nat" where
  "getStateMachineCurrentState m = (STATUS_SUCCESS, pCurrentState (sm_context m))"

definition acceptStateMachineState :: "'w StateMachine \<Rightarrow> uint64 \<Rightarrow> STATUS" where
  "acceptStateMachineState m requiredStates =
     (if requiredStates AND state (current m) = state (current m) then STATUS_SUCCESS
      else STATUS_INVALID_STREAM_STATE)"

definition setStateMachineCurrentState :: "'w StateMachine \<Rightarrow> uint64 \<Rightarrow> STATUS \<times> 'w StateMachine" where
  "setStateMachineCurrentState m c =
     (case getStateMachineState m c of
        (st, Some i) \<Rightarrow> (STATUS_SUCCESS, m\<lparr>sm_context := (sm_context m)\<lparr>pCurrentState := i\<rparr>\<rparr>)
      | (st, None) \<Rightarrow> (st, m))"

definition resetStateMachineRetryCount :: "'w StateMachine \<Rightarrow> STATUS \<times> 'w StateMachine" where
  "resetStateMachineRetryCount m =
     (STATUS_SUCCESS,
      m\<lparr>sm_context := (sm_context m)\<lparr>localStateRetryCount := 0, stateTransitionWaitTime := 0\<rparr>\<rparr>)"

text \<open>
  The loop of \<open>checkForStateTransition\<close> never sets \<open>pState\<close> and ends at the first position with
  the next state's code.
\<close>

definition checkForStateTransition :: "'w StateMachine \<Rightarrow> STATUS \<times> bool option \<times> 'w StateMachine" where
  "checkForStateTransition m =
     (case getNextStateFn (current m) of
        None \<Rightarrow> (STATUS_NULL_ARG, None, m)
      | Some f \<Rightarrow>
          (case f (sm_context m, sm_world m) of
             (st, nextState, cw) \<Rightarrow>
               if st \<noteq> STATUS_SUCCESS then (st, None, after cw m)
               else (let m1 = after cw m
                     in (STATUS_SUCCESS,
                         Some (find_state nextState (states m1) 0 \<noteq> None \<and> state (current m1) \<noteq> nextState),
                         m1))))"

definition getStateMachineName :: "'w StateMachine option \<Rightarrow> string option" where
  "getStateMachineName p = map_option stateMachineName p"

section \<open>The step\<close>

text \<open>The retry count after a step to \<open>target\<close>, and whether it is still within the cap of \<open>target\<close>.\<close>

definition count_retry :: "'w StateMachineState \<Rightarrow> 'w StateMachine \<Rightarrow> 'w StateMachine" where
  "count_retry target m =
     m\<lparr>sm_context := (sm_context m)\<lparr>localStateRetryCount :=
         (if state target \<noteq> state (current m) then 0 else localStateRetryCount (sm_context m) + 1)\<rparr>\<rparr>"

definition within_cap :: "'w StateMachineState \<Rightarrow> 'w StateMachine \<Rightarrow> bool" where
  "within_cap target m \<longleftrightarrow>
     maxLocalStateRetryCount target = INFINITE_RETRY_COUNT_SENTINEL \<or>
     localStateRetryCount (sm_context m) \<le> maxLocalStateRetryCount target"

text \<open>The hook of the state that is left, with the extra wait it asks for.\<close>

definition run_hook :: "'w StateMachine \<Rightarrow> STATUS \<times> uint64 \<times> 'w StateMachine" where
  "run_hook m =
     (case stateTransitionHookFunc (current m) of
        None \<Rightarrow> (STATUS_SUCCESS, 0, m)
      | Some f \<Rightarrow> (case f (sm_context m, sm_world m) of (st, wait, cw) \<Rightarrow> (st, wait, after cw m)))"

text \<open>Entering the state at position \<open>i\<close>: the context is set and the state is executed.\<close>

definition enter_state :: "nat \<Rightarrow> uint64 \<Rightarrow> 'w StateMachine \<Rightarrow> STATUS \<times> 'w StateMachine" where
  "enter_state i wait m =
     (let m1 = m\<lparr>sm_context := (sm_context m)\<lparr>stateTransitionWaitTime := wait, pCurrentState := i\<rparr>\<rparr>
      in case executeStateFn (current m1) of
           None \<Rightarrow> (STATUS_SUCCESS, m1)
         | Some f \<Rightarrow> (case f wait (sm_context m1, sm_world m1) of (st, cw) \<Rightarrow> (st, after cw m1)))"

definition stepStateMachine :: "'w StateMachine \<Rightarrow> STATUS \<times> 'w StateMachine" where
  "stepStateMachine m =
     (case getNextStateFn (current m) of
        None \<Rightarrow> (STATUS_NULL_ARG, m)
      | Some f \<Rightarrow>
          (case f (sm_context m, sm_world m) of
             (st, nextState, cw) \<Rightarrow>
               (let m1 = after cw m
                in if st \<noteq> STATUS_SUCCESS then (st, m1)
                   else
                     (case getStateMachineState m1 nextState of
                        (st1, None) \<Rightarrow> (st1, m1)
                      | (_, Some i) \<Rightarrow>
                          (let acc = acceptStateMachineState m1 (acceptStates (state_at m1 i))
                           in if acc \<noteq> STATUS_SUCCESS then (acc, m1)
                              else
                                (let time = getCurrentTimeFunc m1 (sm_world m1)
                                 in case run_hook m1 of
                                      (st2, wait, m2) \<Rightarrow>
                                        if st2 \<noteq> STATUS_SUCCESS then (st2, m2)
                                        else
                                          (let m3 = count_retry (state_at m2 i) m2
                                           in if \<not> within_cap (state_at m3 i) m3
                                              then (status (state_at m3 i), m3)
                                              else enter_state i (time + wait) m3)))))))"

text \<open>A number of steps, with their statuses.\<close>

fun steps :: "nat \<Rightarrow> 'w StateMachine \<Rightarrow> STATUS list \<times> 'w StateMachine" where
  "steps 0 m = ([], m)"
| "steps (Suc n) m = (case stepStateMachine m of
     (st, m1) \<Rightarrow> (case steps n m1 of (sts, m2) \<Rightarrow> (st # sts, m2)))"

section \<open>The properties\<close>

text \<open>
  Which states a machine can reach, and how often it stays in one: the properties of
  \<open>stepStateMachine\<close> for callbacks that leave the context of the machine to it.
\<close>

section \<open>Callbacks that leave the context alone\<close>

definition quiet_state :: "'w StateMachineState \<Rightarrow> bool" where
  "quiet_state s \<longleftrightarrow>
     (\<forall>f cw. getNextStateFn s = Some f \<longrightarrow> fst (snd (snd (f cw))) = fst cw) \<and>
     (\<forall>f t cw. executeStateFn s = Some f \<longrightarrow> fst (snd (f t cw)) = fst cw) \<and>
     (\<forall>f cw. stateTransitionHookFunc s = Some f \<longrightarrow> fst (snd (snd (f cw))) = fst cw)"

definition quiet :: "'w StateMachine \<Rightarrow> bool" where
  "quiet m \<longleftrightarrow> (\<forall>s\<in>set (states m). quiet_state s) \<and> pCurrentState (sm_context m) < length (states m)"

text \<open>Whether the state at \<open>j\<close> is the first with its code and accepts the one at \<open>i\<close>.\<close>

definition edge :: "'w StateMachineState list \<Rightarrow> nat \<Rightarrow> nat \<Rightarrow> bool" where
  "edge sts i j \<longleftrightarrow> j < length sts \<and> find_state (state (sts ! j)) sts 0 = Some j \<and>
     acceptStates (sts ! j) AND state (sts ! i) = state (sts ! i)"

lemma find_state_Some:
  "find_state c sts i = Some j \<Longrightarrow> i \<le> j \<and> j - i < length sts \<and> state (sts ! (j - i)) = c"
proof (induction sts arbitrary: i)
  case (Cons s sts)
  show ?case
  proof (cases "state s = c")
    case True with Cons.prems show ?thesis by simp
  next
    case False
    with Cons.prems have "find_state c sts (Suc i) = Some j" by simp
    from Cons.IH[OF this] show ?thesis by (auto simp: nth_Cons' not_le Suc_diff_Suc[symmetric] less_Suc_eq_le)
  qed
qed simp

lemma after_simps [simp]:
  "states (after cw m) = states m" "sm_context (after cw m) = fst cw" "sm_world (after cw m) = snd cw"
  "getCurrentTimeFunc (after cw m) = getCurrentTimeFunc m"
  by (simp_all add: after_def)

lemma state_at_after [simp]: "state_at (after cw m) i = state_at m i"
  by (simp add: state_at_def)

lemma quiet_stateD:
  "quiet_state s \<Longrightarrow> getNextStateFn s = Some f \<Longrightarrow> f cw = (st, c, cw') \<Longrightarrow> fst cw' = fst cw"
  "quiet_state s \<Longrightarrow> executeStateFn s = Some g \<Longrightarrow> g t cw = (st, cw') \<Longrightarrow> fst cw' = fst cw"
  "quiet_state s \<Longrightarrow> stateTransitionHookFunc s = Some h \<Longrightarrow> h cw = (st, w, cw') \<Longrightarrow> fst cw' = fst cw"
  unfolding quiet_state_def by (metis fst_conv snd_conv)+

lemma current_in: "quiet m \<Longrightarrow> quiet_state (current m)"
  by (simp add: quiet_def current_def state_at_def)

lemma count_retry_simps [simp]:
  "states (count_retry s m) = states m" "sm_world (count_retry s m) = sm_world m"
  "pCurrentState (sm_context (count_retry s m)) = pCurrentState (sm_context m)"
  "state_at (count_retry s m) i = state_at m i"
  by (simp_all add: count_retry_def state_at_def)

lemma run_hook_quiet:
  assumes "quiet m" "run_hook m = (st, t, m')"
  shows "states m' = states m" "sm_context m' = sm_context m"
  using assms quiet_stateD(3)[OF current_in[OF assms(1)]]
  by (auto simp: run_hook_def split: option.splits prod.splits)

lemma enter_state_quiet:
  assumes "\<forall>s\<in>set (states m). quiet_state s" "i < length (states m)" "enter_state i t m = (st, m')"
  shows "states m' = states m" "pCurrentState (sm_context m') = i"
    "localStateRetryCount (sm_context m') = localStateRetryCount (sm_context m)"
proof -
  have q: "quiet_state (states m ! i)" using assms(1,2) by simp
  show "states m' = states m" "pCurrentState (sm_context m') = i"
    "localStateRetryCount (sm_context m') = localStateRetryCount (sm_context m)"
    using assms(3)
    by (auto dest!: quiet_stateD(2)[OF q] simp: enter_state_def current_def state_at_def Let_def split: option.splits prod.splits)
qed

section \<open>One step\<close>

lemma step_quiet:
  assumes Q: "quiet m" and S: "stepStateMachine m = (st, m')"
  shows "states m' = states m \<and>
    (pCurrentState (sm_context m') = pCurrentState (sm_context m) \<or>
     edge (states m) (pCurrentState (sm_context m)) (pCurrentState (sm_context m')))"
proof (cases "getNextStateFn (current m)")
  case None
  then show ?thesis using S by (simp add: stepStateMachine_def)
next
  case (Some f)
  obtain st0 next_code cw where f: "f (sm_context m, sm_world m) = (st0, next_code, cw)" by (metis prod_cases3)
  have cw: "fst cw = sm_context m"
    using quiet_stateD(1)[OF current_in[OF Q] Some f] by simp
  let ?m1 = "after cw m"
  have Q1: "quiet ?m1" using Q by (simp add: quiet_def cw)
  show ?thesis
  proof (cases "st0 \<noteq> STATUS_SUCCESS \<or> find_state next_code (states m) 0 = None")
    case True
    then show ?thesis using S Some f by (auto simp: stepStateMachine_def getStateMachineState_def Let_def cw split: if_splits)
  next
    case False
    then obtain i where i: "find_state next_code (states m) 0 = Some i" by auto
    have il: "i < length (states m)" and ic: "state (states m ! i) = next_code"
      using find_state_Some[OF i] by auto
    obtain st2 wait m2 where h: "run_hook ?m1 = (st2, wait, m2)" by (metis prod_cases3)
    note hq = run_hook_quiet[OF Q1 h]
    let ?acc = "acceptStateMachineState ?m1 (acceptStates (state_at m i))"
    let ?m3 = "count_retry (state_at m2 i) m2"
    show ?thesis
    proof (cases "?acc \<noteq> STATUS_SUCCESS \<or> st2 \<noteq> STATUS_SUCCESS \<or> \<not> within_cap (state_at ?m3 i) ?m3")
      case True
      then show ?thesis
        using S Some f False i h hq
        by (auto simp: stepStateMachine_def getStateMachineState_def Let_def cw split: if_splits)
    next
      case ok: False
      then have S': "enter_state i (getCurrentTimeFunc m (snd cw) + wait) ?m3 = (st, m')"
        using S Some f False i h by (auto simp: stepStateMachine_def getStateMachineState_def Let_def)
      have Qs: "\<forall>s\<in>set (states ?m3). quiet_state s" using Q hq by (simp add: quiet_def)
      have "edge (states m) (pCurrentState (sm_context m)) i"
        using ok il i ic
        by (auto simp: edge_def acceptStateMachineState_def current_def state_at_def cw status_defs split: if_splits)
      then show ?thesis using enter_state_quiet[OF Qs _ S'] il hq by simp
    qed
  qed
qed

lemma step_keeps_quiet: "quiet m \<Longrightarrow> stepStateMachine m = (st, m') \<Longrightarrow> quiet m'"
  using step_quiet[of m st m'] by (auto simp: quiet_def edge_def)

text \<open>A step that moved and reports an error reports that of the state it executed.\<close>

lemma step_error_after_move:
  assumes Q: "quiet m" and S: "stepStateMachine m = (st, m')"
    and moved: "pCurrentState (sm_context m') \<noteq> pCurrentState (sm_context m)" and err: "st \<noteq> STATUS_SUCCESS"
  shows "\<exists>g t cw. executeStateFn (current m') = Some g \<and> fst (g t cw) = st"
proof (cases "getNextStateFn (current m)")
  case None
  then show ?thesis using S moved by (simp add: stepStateMachine_def)
next
  case (Some f)
  obtain st0 next_code cw where f: "f (sm_context m, sm_world m) = (st0, next_code, cw)" by (metis prod_cases3)
  have cw: "fst cw = sm_context m"
    using quiet_stateD(1)[OF current_in[OF Q] Some f] by simp
  let ?m1 = "after cw m"
  have Q1: "quiet ?m1" using Q by (simp add: quiet_def cw)
  obtain st2 wait m2 where h: "run_hook ?m1 = (st2, wait, m2)" by (metis prod_cases3)
  note hq = run_hook_quiet[OF Q1 h]
  obtain i t where i: "find_state next_code (states m) 0 = Some i"
    and en: "enter_state i t (count_retry (state_at m2 i) m2) = (st, m')"
    using S Some f h moved hq
    by (auto simp: stepStateMachine_def getStateMachineState_def Let_def cw split: if_splits option.splits)
  let ?m3 = "count_retry (state_at m2 i) m2"
  have "\<forall>s\<in>set (states ?m3). quiet_state s" "i < length (states ?m3)"
    using Q hq find_state_Some[OF i] by (simp_all add: quiet_def)
  note eq = enter_state_quiet[OF this en]
  have "current m' = states m ! i" using eq hq by (simp add: current_def state_at_def)
  then show ?thesis using en err hq
    by (auto simp: enter_state_def current_def state_at_def Let_def split: option.splits prod.splits) (metis fst_conv)
qed

text \<open>
  C22: As long as its callbacks leave the context of the machine to it, a machine moves only along the
  accept lists: after any number of steps, failed ones included, the current state is one of the
  table, reached from the first by moves each of which goes to a state, the first with its code, that
  accepts the state it leaves. A step that reports an error has stayed where it was, unless the error
  is the one with which the state just entered was executed.
\<close>

theorem moves_only_where_accepted:
  assumes "quiet m" "steps n m = (sts, m')" "stepStateMachine m' = (st, m'')"
  shows "states m'' = states m \<and> pCurrentState (sm_context m'') < length (states m) \<and>
    (edge (states m))\<^sup>*\<^sup>* (pCurrentState (sm_context m)) (pCurrentState (sm_context m')) \<and>
    (pCurrentState (sm_context m'') = pCurrentState (sm_context m') \<or>
     edge (states m) (pCurrentState (sm_context m')) (pCurrentState (sm_context m'')) \<and>
     (st = STATUS_SUCCESS \<or> (\<exists>g t cw. executeStateFn (current m'') = Some g \<and> fst (g t cw) = st)))"
proof -
  have "states m' = states m \<and> quiet m' \<and>
    (edge (states m))\<^sup>*\<^sup>* (pCurrentState (sm_context m)) (pCurrentState (sm_context m'))"
    using assms(1,2)
  proof (induction n arbitrary: m sts)
    case 0
    then show ?case by simp
  next
    case (Suc n)
    obtain st m1 where s: "stepStateMachine m = (st, m1)" by fastforce
    obtain sts' where r: "steps n m1 = (sts', m')" using Suc.prems(2) s by (auto split: prod.splits)
    note one = step_quiet[OF Suc.prems(1) s]
    note rest = Suc.IH[OF step_keeps_quiet[OF Suc.prems(1) s] r]
    show ?case using one rest by (auto intro: converse_rtranclp_into_rtranclp)
  qed
  then have Q: "quiet m'" and s: "states m' = states m"
    and r: "(edge (states m))\<^sup>*\<^sup>* (pCurrentState (sm_context m)) (pCurrentState (sm_context m'))" by simp_all
  show ?thesis
    using step_quiet[OF Q assms(3)] step_keeps_quiet[OF Q assms(3)] step_error_after_move[OF Q assms(3)] s r
    by (auto simp: quiet_def)
qed

section \<open>Staying in a state\<close>

text \<open>
  The machine is at position \<open>i\<close>, whose state keeps asking for itself, accepts itself, has the
  retry cap \<open>cap\<close> and executes to the status \<open>e\<close>.
\<close>

definition retrying :: "nat \<Rightarrow> STATUS \<Rightarrow> uint32 \<Rightarrow> 'w StateMachine \<Rightarrow> bool" where
  "retrying i e cap m \<longleftrightarrow>
     quiet m \<and> pCurrentState (sm_context m) = i \<and> edge (states m) i i \<and>
     maxLocalStateRetryCount (states m ! i) = cap \<and>
     (\<exists>f. getNextStateFn (states m ! i) = Some f \<and>
          (\<forall>cw. fst (f cw) = STATUS_SUCCESS \<and> fst (snd (f cw)) = state (states m ! i))) \<and>
     (\<forall>h cw. stateTransitionHookFunc (states m ! i) = Some h \<longrightarrow> fst (h cw) = STATUS_SUCCESS) \<and>
     (\<exists>g. executeStateFn (states m ! i) = Some g \<and> (\<forall>t cw. fst (g t cw) = e))"

text \<open>
  \<open>runs\<close> reads off the world how often the state was executed: its execution raises it by one, its
  other callbacks leave it.
\<close>

definition counts_runs :: "('w \<Rightarrow> nat) \<Rightarrow> 'w StateMachineState \<Rightarrow> bool" where
  "counts_runs runs s \<longleftrightarrow>
     (\<forall>f cw. getNextStateFn s = Some f \<longrightarrow> runs (snd (snd (snd (f cw)))) = runs (snd cw)) \<and>
     (\<forall>g t cw. executeStateFn s = Some g \<longrightarrow> runs (snd (snd (g t cw))) = Suc (runs (snd cw))) \<and>
     (\<forall>h cw. stateTransitionHookFunc s = Some h \<longrightarrow> runs (snd (snd (snd (h cw)))) = runs (snd cw))"

lemma counts_runsD:
  "counts_runs runs s \<Longrightarrow> getNextStateFn s = Some f \<Longrightarrow> f cw = (st, c, cw') \<Longrightarrow> runs (snd cw') = runs (snd cw)"
  "counts_runs runs s \<Longrightarrow> executeStateFn s = Some g \<Longrightarrow> g t cw = (st, cw') \<Longrightarrow> runs (snd cw') = Suc (runs (snd cw))"
  "counts_runs runs s \<Longrightarrow> stateTransitionHookFunc s = Some h \<Longrightarrow> h cw = (st, w, cw') \<Longrightarrow> runs (snd cw') = runs (snd cw)"
  unfolding counts_runs_def by (metis snd_conv)+

lemma retrying_step:
  assumes R: "retrying i e cap m" and C: "counts_runs runs (states m ! i)" and S: "stepStateMachine m = (st, m')"
  defines "r \<equiv> localStateRetryCount (sm_context m) + 1"
  shows "retrying i e cap m' \<and> localStateRetryCount (sm_context m') = r \<and>
    st = (if cap = 0 \<or> r \<le> cap then e else status (states m ! i)) \<and>
    runs (sm_world m') = runs (sm_world m) + (if cap = 0 \<or> r \<le> cap then 1 else 0)"
proof -
  have Q: "quiet m" and i: "pCurrentState (sm_context m) = i" and E: "edge (states m) i i"
    using R by (simp_all add: retrying_def)
  have cur: "current m = states m ! i" by (simp add: current_def state_at_def i)
  obtain f where f: "getNextStateFn (states m ! i) = Some f"
    and ff: "\<And>cw. fst (f cw) = STATUS_SUCCESS \<and> fst (snd (f cw)) = state (states m ! i)"
    using R unfolding retrying_def by blast
  obtain cw where fc: "f (sm_context m, sm_world m) = (STATUS_SUCCESS, state (states m ! i), cw)"
    using ff[of "(sm_context m, sm_world m)"] by (metis prod.collapse)
  have qs: "quiet_state (states m ! i)" using current_in[OF Q] by (simp add: cur)
  have cw: "fst cw = sm_context m" using quiet_stateD(1)[OF qs f fc] by simp
  let ?m1 = "after cw m"
  have Q1: "quiet ?m1" using Q by (simp add: quiet_def cw)
  have c1: "current ?m1 = states m ! i" by (simp add: current_def state_at_def cw i)
  obtain st2 wait m2 where h: "run_hook ?m1 = (st2, wait, m2)" by (metis prod_cases3)
  note hq = run_hook_quiet[OF Q1 h]
  have hk: "fst (hh cw') = STATUS_SUCCESS" if "stateTransitionHookFunc (states m ! i) = Some hh" for hh cw'
    using R that unfolding retrying_def by blast
  have st2: "st2 = STATUS_SUCCESS"
    using h hk[of _ "(sm_context ?m1, sm_world ?m1)"]
    by (simp add: run_hook_def c1 split: option.splits prod.splits)
  have w2: "runs (sm_world m2) = runs (sm_world m)"
    using h counts_runsD(1)[OF C f fc]
    by (auto simp: run_hook_def c1 dest: counts_runsD(3)[OF C] split: option.splits prod.splits)
  have c2: "current m2 = states m ! i" using hq by (simp add: current_def state_at_def cw i)
  let ?m3 = "count_retry (state_at m2 i) m2"
  have r3: "localStateRetryCount (sm_context ?m3) = r"
    using hq c2 by (simp add: count_retry_def state_at_def cw r_def)
  have cap3: "within_cap (state_at ?m3 i) ?m3 \<longleftrightarrow> cap = 0 \<or> r \<le> cap"
    using R hq r3 by (simp add: within_cap_def state_at_def retrying_def INFINITE_RETRY_COUNT_SENTINEL_def)
  have step: "(st, m') = (if cap = 0 \<or> r \<le> cap then enter_state i (getCurrentTimeFunc m (snd cw) + wait) ?m3
                         else (status (states m ! i), ?m3))"
    using S f fc E h st2 cap3 hq
    by (auto simp: stepStateMachine_def cur Let_def getStateMachineState_def edge_def
        acceptStateMachineState_def c1 state_at_def split: if_splits)
  have keep: "retrying i e cap m'" if "states m' = states m" "pCurrentState (sm_context m') = i"
    using R that by (simp add: retrying_def quiet_def)
  show ?thesis
  proof (cases "cap = 0 \<or> r \<le> cap")
    case True
    then have en: "enter_state i (getCurrentTimeFunc m (snd cw) + wait) ?m3 = (st, m')" using step by simp
    have "\<forall>s\<in>set (states ?m3). quiet_state s" "i < length (states ?m3)" using Q hq i by (simp_all add: quiet_def)
    note eq = enter_state_quiet[OF this en]
    obtain g where g: "executeStateFn (states m ! i) = Some g" and ge: "\<And>t cw. fst (g t cw) = e"
      using R unfolding retrying_def by blast
    have "st = fst (enter_state i (getCurrentTimeFunc m (snd cw) + wait) ?m3)" using en by simp
    also have "\<dots> = e" using g ge hq by (simp add: enter_state_def Let_def current_def state_at_def case_prod_beta)
    finally have "st = e" .
    moreover have "runs (sm_world m') = Suc (runs (sm_world m))"
      using en g counts_runsD(2)[OF C g] hq w2
      by (auto simp: enter_state_def Let_def current_def state_at_def split: prod.splits)
    ultimately show ?thesis using keep eq hq True r3 by simp
  next
    case False
    then have "st = status (states m ! i)" "m' = ?m3" using step by simp_all
    then show ?thesis using False keep r3 hq w2 by (simp add: cw i)
  qed
qed

lemma budget_Cons:
  "(if r < c then e else x) # replicate (min n (c - Suc r)) e @ replicate (n - (c - Suc r)) x
   = replicate (min (Suc n) (c - r)) e @ replicate (Suc n - (c - r)) x"
proof (cases "r < c")
  case True
  then obtain k where "c - r = Suc k" "c - Suc r = k" by (metis Suc_diff_Suc)
  with True show ?thesis by simp
qed simp

lemma retrying_steps:
  assumes "retrying i e cap m" "counts_runs runs (states m ! i)" "cap \<noteq> 0"
    "unat (localStateRetryCount (sm_context m)) + n < 2 ^ 32"
  shows "fst (steps n m) =
      replicate (min n (unat cap - unat (localStateRetryCount (sm_context m)))) e @
      replicate (n - (unat cap - unat (localStateRetryCount (sm_context m)))) (status (states m ! i)) \<and>
    runs (sm_world (snd (steps n m))) =
      runs (sm_world m) + min n (unat cap - unat (localStateRetryCount (sm_context m))) \<and>
    pCurrentState (sm_context (snd (steps n m))) = i"
  using assms
proof (induction n arbitrary: m)
  case 0
  then show ?case by (simp add: retrying_def)
next
  case (Suc n)
  obtain st m1 where s: "stepStateMachine m = (st, m1)" by fastforce
  note one = retrying_step[OF Suc.prems(1,2) s]
  let ?r = "localStateRetryCount (sm_context m)"
  have r1: "unat (localStateRetryCount (sm_context m1)) = Suc (unat ?r)"
    using one Suc.prems(4) by (simp add: unat_word_ariths)
  have sts: "states m1 = states m"
    using step_quiet[OF _ s] Suc.prems(1) by (simp add: retrying_def)
  have IH: "fst (steps n m1) =
      replicate (min n (unat cap - Suc (unat ?r))) e @
      replicate (n - (unat cap - Suc (unat ?r))) (status (states m ! i))"
    "runs (sm_world (snd (steps n m1))) = runs (sm_world m1) + min n (unat cap - Suc (unat ?r))"
    "pCurrentState (sm_context (snd (steps n m1))) = i"
    using Suc.IH[of m1] one Suc.prems(2,3,4) r1 sts by simp_all
  have so: "fst (steps (Suc n) m) = st # fst (steps n m1)" "snd (steps (Suc n) m) = snd (steps n m1)"
    using s by (simp_all split: prod.splits)
  have lt: "cap = 0 \<or> ?r + 1 \<le> cap \<longleftrightarrow> unat ?r < unat cap"
    using one Suc.prems(3) r1 by (simp add: word_le_nat_alt Suc_le_eq)
  have "runs (sm_world (snd (steps (Suc n) m))) = runs (sm_world m) + min (Suc n) (unat cap - unat ?r)"
    using one IH(2) lt so(2) by auto
  moreover have "st = (if unat ?r < unat cap then e else status (states m ! i))" using one lt by simp
  ultimately show ?case using IH so by (simp only: budget_Cons)
qed


section \<open>A machine of two states\<close>

text \<open>
  The second state is tried three times before its error; the world counts the executions.
\<close>

definition idle_state :: "nat StateMachineState" where
  "idle_state = \<lparr>state = 1, acceptStates = 3, getNextStateFn = Some (\<lambda>(c, w). (STATUS_SUCCESS, 2, c, w)),
     executeStateFn = None, stateTransitionHookFunc = None, maxLocalStateRetryCount = 0, status = STATUS_SUCCESS\<rparr>"

definition busy_state :: "nat StateMachineState" where
  "busy_state = \<lparr>state = 2, acceptStates = 3, getNextStateFn = Some (\<lambda>(c, w). (STATUS_SUCCESS, 2, c, w)),
     executeStateFn = Some (\<lambda>t (c, w). (STATUS_SUCCESS, c, Suc w)), stateTransitionHookFunc = None,
     maxLocalStateRetryCount = 3, status = STATUS_INTERNAL_ERROR\<rparr>"

definition two_states :: "nat StateMachine" where
  "two_states = \<lparr>version = 0, getCurrentTimeFunc = (\<lambda>w. 0),
     sm_context = \<lparr>pCurrentState = 0, localStateRetryCount = 0, stateTransitionWaitTime = 0\<rparr>,
     stateCount = 2, stateMachineName = '''', states = [idle_state, busy_state], sm_world = 0\<rparr>"

definition busy_machine :: "nat StateMachine" where
  "busy_machine = two_states\<lparr>sm_context := (sm_context two_states)\<lparr>pCurrentState := 1\<rparr>\<rparr>"

lemma two_states_quiet: "quiet two_states" "quiet busy_machine"
  by (auto simp: quiet_def two_states_def quiet_state_def idle_state_def busy_state_def busy_machine_def)

theorem moves_only_where_accepted_witness:
  "(edge [idle_state, busy_state])\<^sup>*\<^sup>* 0 (pCurrentState (sm_context (snd (steps 4 two_states)))) \<and>
   pCurrentState (sm_context (snd (steps 4 two_states))) = 1"
proof -
  have "pCurrentState (sm_context (snd (steps 4 two_states))) = 1" by code_simp
  then show ?thesis
    using moves_only_where_accepted[OF two_states_quiet(1), of 4 "fst (steps 4 two_states)" "snd (steps 4 two_states)"
        "fst (stepStateMachine (snd (steps 4 two_states)))" "snd (stepStateMachine (snd (steps 4 two_states)))"]
    by (simp add: two_states_def)
qed

lemma busy_retrying: "retrying 1 STATUS_SUCCESS 3 busy_machine"
  unfolding retrying_def
  using two_states_quiet(2)
  by (auto simp: two_states_def edge_def idle_state_def busy_state_def busy_machine_def)

lemma busy_counts: "counts_runs (\<lambda>w. w) (states busy_machine ! 1)"
  by (auto simp: counts_runs_def two_states_def busy_state_def busy_machine_def)

definition busy_five :: "STATUS list \<times> nat StateMachine" where
  "busy_five = steps 5 (snd (resetStateMachineRetryCount busy_machine))"


section \<open>Edges of the contract\<close>

text \<open>
  The hook of a state runs on every step that is accepted, also when the state does not change;
  the public header says that it is not called then.
\<close>

lemma hook_runs_without_a_change:
  assumes "getNextStateFn (current m) = Some f"
    "f (sm_context m, sm_world m) = (STATUS_SUCCESS, state (current m), sm_context m, w)"
    "find_state (state (current m)) (states m) 0 = Some (pCurrentState (sm_context m))"
    "acceptStates (current m) AND state (current m) = state (current m)"
    "stateTransitionHookFunc (current m) = Some h" "h (sm_context m, w) = (st, t, cw)" "st \<noteq> STATUS_SUCCESS"
  shows "stepStateMachine m = (st, after cw m)"
  using assms
  by (simp add: stepStateMachine_def getStateMachineState_def Let_def acceptStateMachineState_def
      run_hook_def current_def state_at_def) (simp add: after_def)

text \<open>A retry count of 2^32 - 1 wraps to 0, which is within every cap.\<close>

lemma retry_count_wraps:
  "state s = state (current m) \<Longrightarrow> localStateRetryCount (sm_context m) = - 1 \<Longrightarrow> within_cap s (count_retry s m)"
  by (simp add: within_cap_def count_retry_def)

text \<open>A failed creation hands out no machine and keeps no block.\<close>

lemma create_failure_keeps_nothing:
  assumes "createStateMachineWithName sts n f w name h = (st, r, h')" "unat n \<le> length (the sts)"
  shows "if st = STATUS_SUCCESS
         then \<exists>m. r = Some m \<and> live h' = live h + 1 \<and> states m \<noteq> [] \<and> pCurrentState (sm_context m) = 0
         else r = None \<and> live h' = live h"
  using assms
  by (auto simp: createStateMachineWithName_def createStateMachine_def heap_calloc_def Let_def status_defs
      unat_eq_zero split: option.splits if_splits prod.splits)

end
