(* ===== verification/Single_List.thy ===== *)
theory Single_List
  imports Kvs_Prelude "HOL-Library.Monad_Syntax"
begin

text \<open>
  The singly linked list of \<open>components/kvs_utils/src/single_linked_list.c\<close>, over an explicit
  store of nodes. Every function is a value of \<open>option\<close>: \<open>None\<close> is an access through a pointer
  to memory that is not allocated, or a loop that does not end, so a result \<open>Some\<close> says that
  neither happened. The list structure itself is passed and returned by value.
\<close>

section \<open>The store\<close>

type_synonym ptr = "nat option"

record list_node =
  pNext :: ptr
  node_data :: uint64

record store =
  ledger :: heap
  nodes :: "nat \<Rightarrow> list_node option"
  brk :: nat

record single_list =
  list_count :: uint32
  pHead :: ptr
  pTail :: ptr

text \<open>A fresh node is placed above every node that was ever allocated.\<close>

definition priv_single_list_allocateNode :: "uint64 \<Rightarrow> store \<Rightarrow> STATUS \<times> ptr \<times> store" where
  "priv_single_list_allocateNode d s =
     (case heap_calloc (ledger s) of
        (ok, h) \<Rightarrow>
          if \<not> ok then (STATUS_NOT_ENOUGH_MEMORY, None, s\<lparr>ledger := h\<rparr>)
          else (STATUS_SUCCESS, Some (brk s),
                s\<lparr>ledger := h, nodes := (nodes s)(brk s \<mapsto> \<lparr>pNext = None, node_data = d\<rparr>), brk := Suc (brk s)\<rparr>))"

definition free_node :: "nat \<Rightarrow> store \<Rightarrow> store option" where
  "free_node a s =
     (case nodes s a of None \<Rightarrow> None
      | Some _ \<Rightarrow> Some (s\<lparr>ledger := heap_free (ledger s), nodes := (nodes s)(a := None)\<rparr>))"

text \<open>\<open>MEMFREE\<close> of what a handle points to.\<close>

definition free_data :: "store \<Rightarrow> store" where
  "free_data s = s\<lparr>ledger := heap_free (ledger s)\<rparr>"

definition set_next :: "nat \<Rightarrow> ptr \<Rightarrow> store \<Rightarrow> store option" where
  "set_next a q s =
     (case nodes s a of None \<Rightarrow> None | Some n \<Rightarrow> Some (s\<lparr>nodes := (nodes s)(a \<mapsto> n\<lparr>pNext := q\<rparr>)\<rparr>))"

definition set_data :: "nat \<Rightarrow> uint64 \<Rightarrow> store \<Rightarrow> store option" where
  "set_data a d s =
     (case nodes s a of None \<Rightarrow> None | Some n \<Rightarrow> Some (s\<lparr>nodes := (nodes s)(a \<mapsto> n\<lparr>node_data := d\<rparr>)\<rparr>))"

section \<open>Creation and release\<close>

definition empty_list :: single_list where
  "empty_list = \<lparr>list_count = 0, pHead = None, pTail = None\<rparr>"

definition singleListCreate :: "store \<Rightarrow> STATUS \<times> single_list option \<times> store" where
  "singleListCreate s =
     (case heap_calloc (ledger s) of
        (ok, h) \<Rightarrow> if ok then (STATUS_SUCCESS, Some empty_list, s\<lparr>ledger := h\<rparr>)
                   else (STATUS_NOT_ENOUGH_MEMORY, None, s\<lparr>ledger := h\<rparr>))"

partial_function (option) clear_loop :: "bool \<Rightarrow> ptr \<Rightarrow> store \<Rightarrow> store option" where
  "clear_loop freeData p s =
     (case p of
        None \<Rightarrow> Some s
      | Some a \<Rightarrow> do {
          n \<leftarrow> nodes s a;
          s1 \<leftarrow> free_node a (if freeData \<and> node_data n \<noteq> 0 then free_data s else s);
          clear_loop freeData (pNext n) s1
        })"

definition singleListClear :: "single_list \<Rightarrow> bool \<Rightarrow> store \<Rightarrow> (STATUS \<times> single_list \<times> store) option" where
  "singleListClear l freeData s = do {
     s1 \<leftarrow> clear_loop freeData (pHead l) s;
     Some (STATUS_SUCCESS, l\<lparr>list_count := 0, pHead := None, pTail := None\<rparr>, s1)
   }"

definition singleListFree :: "single_list option \<Rightarrow> store \<Rightarrow> (STATUS \<times> store) option" where
  "singleListFree p s =
     (case p of
        None \<Rightarrow> Some (STATUS_SUCCESS, s)
      | Some l \<Rightarrow> do {
          (_, _, s1) \<leftarrow> singleListClear l False s;
          Some (STATUS_SUCCESS, s1\<lparr>ledger := heap_free (ledger s1)\<rparr>)
        })"

section \<open>Insertion\<close>

definition priv_single_list_insertNodeHead :: "single_list \<Rightarrow> nat \<Rightarrow> store \<Rightarrow> (STATUS \<times> single_list \<times> store) option" where
  "priv_single_list_insertNodeHead l a s = do {
     s1 \<leftarrow> set_next a (pHead l) s;
     if pHead l = None \<and> pTail l \<noteq> None then Some (STATUS_INTERNAL_ERROR, l, s1)
     else (let l1 = (if pHead l = None then l\<lparr>pTail := Some a\<rparr> else l)
           in Some (STATUS_SUCCESS, l1\<lparr>pHead := Some a, list_count := list_count l1 + 1\<rparr>, s1))
   }"

definition priv_single_list_insertNodeTail :: "single_list \<Rightarrow> nat \<Rightarrow> store \<Rightarrow> (STATUS \<times> single_list \<times> store) option" where
  "priv_single_list_insertNodeTail l a s = do {
     s1 \<leftarrow> set_next a None s;
     case pTail l of
       Some t \<Rightarrow> do {
         s2 \<leftarrow> set_next t (Some a) s1;
         Some (STATUS_SUCCESS, l\<lparr>pTail := Some a, list_count := list_count l + 1\<rparr>, s2)
       }
     | None \<Rightarrow>
         if pHead l \<noteq> None then Some (STATUS_INTERNAL_ERROR, l, s1)
         else Some (STATUS_SUCCESS, l\<lparr>pHead := Some a, pTail := Some a, list_count := list_count l + 1\<rparr>, s1)
   }"

definition priv_single_list_insertNodeAfter :: "single_list \<Rightarrow> nat \<Rightarrow> nat \<Rightarrow> store \<Rightarrow> (STATUS \<times> single_list \<times> store) option" where
  "priv_single_list_insertNodeAfter l b a s = do {
     n \<leftarrow> nodes s b;
     s1 \<leftarrow> set_next a (pNext n) s;
     if pNext n = None \<and> pTail l \<noteq> Some b then Some (STATUS_INTERNAL_ERROR, l, s1)
     else do {
       s2 \<leftarrow> set_next b (Some a) s1;
       let l1 = (if pNext n = None then l\<lparr>pTail := Some a\<rparr> else l);
       Some (STATUS_SUCCESS, l1\<lparr>list_count := list_count l1 + 1\<rparr>, s2)
     }
   }"

text \<open>The functions that take a node check it for NULL.\<close>

definition singleListInsertNodeHead :: "single_list \<Rightarrow> ptr \<Rightarrow> store \<Rightarrow> (STATUS \<times> single_list \<times> store) option" where
  "singleListInsertNodeHead l p s =
     (case p of None \<Rightarrow> Some (STATUS_NULL_ARG, l, s) | Some a \<Rightarrow> priv_single_list_insertNodeHead l a s)"

definition singleListInsertNodeTail :: "single_list \<Rightarrow> ptr \<Rightarrow> store \<Rightarrow> (STATUS \<times> single_list \<times> store) option" where
  "singleListInsertNodeTail l p s =
     (case p of None \<Rightarrow> Some (STATUS_NULL_ARG, l, s) | Some a \<Rightarrow> priv_single_list_insertNodeTail l a s)"

definition singleListInsertNodeAfter :: "single_list \<Rightarrow> ptr \<Rightarrow> ptr \<Rightarrow> store \<Rightarrow> (STATUS \<times> single_list \<times> store) option" where
  "singleListInsertNodeAfter l p q s =
     (case (p, q) of (Some b, Some a) \<Rightarrow> priv_single_list_insertNodeAfter l b a s
      | _ \<Rightarrow> Some (STATUS_NULL_ARG, l, s))"

definition singleListInsertItemHead :: "single_list \<Rightarrow> uint64 \<Rightarrow> store \<Rightarrow> (STATUS \<times> single_list \<times> store) option" where
  "singleListInsertItemHead l d s =
     (case priv_single_list_allocateNode d s of
        (st, Some a, s1) \<Rightarrow> priv_single_list_insertNodeHead l a s1
      | (st, None, s1) \<Rightarrow> Some (st, l, s1))"

definition singleListInsertItemTail :: "single_list \<Rightarrow> uint64 \<Rightarrow> store \<Rightarrow> (STATUS \<times> single_list \<times> store) option" where
  "singleListInsertItemTail l d s =
     (case priv_single_list_allocateNode d s of
        (st, Some a, s1) \<Rightarrow> priv_single_list_insertNodeTail l a s1
      | (st, None, s1) \<Rightarrow> Some (st, l, s1))"

definition singleListInsertItemAfter :: "single_list \<Rightarrow> ptr \<Rightarrow> uint64 \<Rightarrow> store \<Rightarrow> (STATUS \<times> single_list \<times> store) option" where
  "singleListInsertItemAfter l p d s =
     (case p of
        None \<Rightarrow> Some (STATUS_NULL_ARG, l, s)
      | Some b \<Rightarrow>
          (case priv_single_list_allocateNode d s of
             (st, Some a, s1) \<Rightarrow> priv_single_list_insertNodeAfter l b a s1
           | (st, None, s1) \<Rightarrow> Some (st, l, s1)))"

section \<open>Deletion\<close>

definition singleListDeleteHead :: "single_list \<Rightarrow> store \<Rightarrow> (STATUS \<times> single_list \<times> store) option" where
  "singleListDeleteHead l s =
     (case pHead l of
        None \<Rightarrow> Some (STATUS_SUCCESS, l, s)
      | Some a \<Rightarrow> do {
          n \<leftarrow> nodes s a;
          let l1 = l\<lparr>pHead := pNext n\<rparr>;
          let l2 = (if pNext n = None then l1\<lparr>pTail := None\<rparr> else l1);
          s1 \<leftarrow> free_node a s;
          Some (STATUS_SUCCESS, l2\<lparr>list_count := list_count l2 - 1\<rparr>, s1)
        })"

definition singleListDeleteNextNode :: "single_list \<Rightarrow> ptr \<Rightarrow> store \<Rightarrow> (STATUS \<times> single_list \<times> store) option" where
  "singleListDeleteNextNode l p s =
     (case p of
        None \<Rightarrow> Some (STATUS_NULL_ARG, l, s)
      | Some b \<Rightarrow> do {
          n \<leftarrow> nodes s b;
          case pNext n of
            Some a \<Rightarrow> do {
              m \<leftarrow> nodes s a;
              s1 \<leftarrow> set_next b (pNext m) s;
              if pNext m = None \<and> pTail l \<noteq> Some a then Some (STATUS_INTERNAL_ERROR, l, s1)
              else do {
                let l1 = (if pNext m = None then l\<lparr>pTail := Some b\<rparr> else l);
                s2 \<leftarrow> free_node a s1;
                Some (STATUS_SUCCESS, l1\<lparr>list_count := list_count l1 - 1\<rparr>, s2)
              }
            }
          | None \<Rightarrow> Some (if pTail l = Some b then STATUS_SUCCESS else STATUS_INVALID_ARG, l, s)
        })"

partial_function (option) prev_loop :: "store \<Rightarrow> nat \<Rightarrow> ptr \<Rightarrow> ptr option" where
  "prev_loop s a p =
     (case p of
        None \<Rightarrow> Some None
      | Some b \<Rightarrow> do {
          n \<leftarrow> nodes s b;
          if pNext n = Some a then Some (Some b) else prev_loop s a (pNext n)
        })"

definition singleListDeleteNode :: "single_list \<Rightarrow> ptr \<Rightarrow> store \<Rightarrow> (STATUS \<times> single_list \<times> store) option" where
  "singleListDeleteNode l p s =
     (case p of
        None \<Rightarrow> Some (STATUS_NULL_ARG, l, s)
      | Some a \<Rightarrow>
          if pHead l = Some a then singleListDeleteHead l s
          else do {
            q \<leftarrow> prev_loop s a (pHead l);
            if q = None then Some (STATUS_SUCCESS, l, s) else singleListDeleteNextNode l q s
          })"

section \<open>Access\<close>

definition singleListGetHeadNode :: "single_list \<Rightarrow> STATUS \<times> ptr" where
  "singleListGetHeadNode l = (STATUS_SUCCESS, pHead l)"

definition singleListGetTailNode :: "single_list \<Rightarrow> STATUS \<times> ptr" where
  "singleListGetTailNode l = (STATUS_SUCCESS, pTail l)"

fun priv_single_list_getNodeAt :: "nat \<Rightarrow> ptr \<Rightarrow> store \<Rightarrow> (STATUS \<times> ptr) option" where
  "priv_single_list_getNodeAt 0 p s = Some (STATUS_SUCCESS, p)"
| "priv_single_list_getNodeAt (Suc i) None s = Some (STATUS_INTERNAL_ERROR, None)"
| "priv_single_list_getNodeAt (Suc i) (Some a) s = do { n \<leftarrow> nodes s a; priv_single_list_getNodeAt i (pNext n) s }"

definition singleListGetNodeAt :: "single_list \<Rightarrow> uint32 \<Rightarrow> store \<Rightarrow> (STATUS \<times> ptr) option" where
  "singleListGetNodeAt l i s =
     (if \<not> i < list_count l then Some (STATUS_INVALID_ARG, None)
      else priv_single_list_getNodeAt (unat i) (pHead l) s)"

definition singleListGetNodeData :: "ptr \<Rightarrow> store \<Rightarrow> (STATUS \<times> uint64) option" where
  "singleListGetNodeData p s =
     (case p of None \<Rightarrow> Some (STATUS_NULL_ARG, 0) | Some a \<Rightarrow> do { n \<leftarrow> nodes s a; Some (STATUS_SUCCESS, node_data n) })"

text \<open>\<open>singleListGetNodeDataAt\<close> reads through the node it found without a check for NULL.\<close>

definition singleListGetNodeDataAt :: "single_list \<Rightarrow> uint32 \<Rightarrow> store \<Rightarrow> (STATUS \<times> uint64) option" where
  "singleListGetNodeDataAt l i s =
     (if \<not> i < list_count l then Some (STATUS_INVALID_ARG, 0)
      else do {
        (st, p) \<leftarrow> priv_single_list_getNodeAt (unat i) (pHead l) s;
        if st \<noteq> STATUS_SUCCESS then Some (st, 0)
        else do { a \<leftarrow> p; n \<leftarrow> nodes s a; Some (STATUS_SUCCESS, node_data n) }
      })"

definition singleListGetNextNode :: "ptr \<Rightarrow> store \<Rightarrow> (STATUS \<times> ptr) option" where
  "singleListGetNextNode p s =
     (case p of None \<Rightarrow> Some (STATUS_NULL_ARG, None) | Some a \<Rightarrow> do { n \<leftarrow> nodes s a; Some (STATUS_SUCCESS, pNext n) })"

definition singleListGetNodeCount :: "single_list \<Rightarrow> STATUS \<times> uint32" where
  "singleListGetNodeCount l = (STATUS_SUCCESS, list_count l)"

text \<open>The list appended is released and its pointer cleared; \<open>None\<close> is a NULL list to append.\<close>

definition singleListAppendList :: "single_list \<Rightarrow> single_list option \<Rightarrow> store \<Rightarrow> (STATUS \<times> single_list \<times> store) option" where
  "singleListAppendList l p s =
     (case p of
        None \<Rightarrow> Some (STATUS_SUCCESS, l, s)
      | Some k \<Rightarrow> do {
          (l1, s1) \<leftarrow>
            (if list_count l = 0 then Some (l\<lparr>pHead := pHead k, pTail := pTail k\<rparr>, s)
             else if list_count k \<noteq> 0 then do {
               t \<leftarrow> pTail l;
               s1 \<leftarrow> set_next t (pHead k) s;
               Some (l\<lparr>pTail := pTail k\<rparr>, s1)
             }
             else Some (l, s));
          Some (STATUS_SUCCESS, l1\<lparr>list_count := list_count l1 + list_count k\<rparr>,
                s1\<lparr>ledger := heap_free (ledger s1)\<rparr>)
        })"

end
