(* ===== verification/Stack_Queue.thy ===== *)
theory Stack_Queue
  imports Single_List
begin

text \<open>
  The stack and queue of \<open>components/kvs_utils/src/stack_queue.c\<close>: a thin layer over the singly
  linked list. An iterator is the pointer to a node. As below, \<open>None\<close> is an invalid access.
\<close>

definition stackQueueCreate :: "store \<Rightarrow> STATUS \<times> single_list option \<times> store" where
  "stackQueueCreate = singleListCreate"

definition stackQueueFree :: "single_list option \<Rightarrow> store \<Rightarrow> (STATUS \<times> store) option" where
  "stackQueueFree = singleListFree"

definition stackQueueClear :: "single_list \<Rightarrow> bool \<Rightarrow> store \<Rightarrow> (STATUS \<times> single_list \<times> store) option" where
  "stackQueueClear = singleListClear"

definition stackQueueGetCount :: "single_list \<Rightarrow> STATUS \<times> uint32" where
  "stackQueueGetCount = singleListGetNodeCount"

definition stackQueueIsEmpty :: "single_list \<Rightarrow> STATUS \<times> bool" where
  "stackQueueIsEmpty l = (case singleListGetNodeCount l of (st, n) \<Rightarrow> (st, n = 0))"

definition stackQueuePush :: "single_list \<Rightarrow> uint64 \<Rightarrow> store \<Rightarrow> (STATUS \<times> single_list \<times> store) option" where
  "stackQueuePush = singleListInsertItemHead"

definition stackQueuePeek :: "single_list \<Rightarrow> store \<Rightarrow> (STATUS \<times> uint64) option" where
  "stackQueuePeek l s =
     (case singleListGetHeadNode l of
        (_, None) \<Rightarrow> Some (STATUS_NOT_FOUND, 0)
      | (_, Some a) \<Rightarrow> singleListGetNodeData (Some a) s)"

definition stackQueuePop :: "single_list \<Rightarrow> store \<Rightarrow> (STATUS \<times> uint64 \<times> single_list \<times> store) option" where
  "stackQueuePop l s = do {
     (st, d) \<leftarrow> stackQueuePeek l s;
     if st \<noteq> STATUS_SUCCESS then Some (st, 0, l, s)
     else do { (st1, l1, s1) \<leftarrow> singleListDeleteHead l s; Some (st1, d, l1, s1) }
   }"

partial_function (option) index_loop :: "store \<Rightarrow> uint64 \<Rightarrow> ptr \<Rightarrow> uint32 \<Rightarrow> uint32 option option" where
  "index_loop s item p i =
     (case p of
        None \<Rightarrow> Some None
      | Some a \<Rightarrow> do {
          (st, d) \<leftarrow> singleListGetNodeData (Some a) s;
          if d = item then Some (Some i)
          else do { n \<leftarrow> nodes s a; index_loop s item (pNext n) (i + 1) }
        })"

definition stackQueueGetIndexOf :: "single_list \<Rightarrow> uint64 \<Rightarrow> store \<Rightarrow> (STATUS \<times> uint32) option" where
  "stackQueueGetIndexOf l item s = do {
     r \<leftarrow> index_loop s item (pHead l) 0;
     Some (case r of None \<Rightarrow> (STATUS_NOT_FOUND, 0) | Some i \<Rightarrow> (STATUS_SUCCESS, i))
   }"

definition stackQueueGetAt :: "single_list \<Rightarrow> uint32 \<Rightarrow> store \<Rightarrow> (STATUS \<times> uint64) option" where
  "stackQueueGetAt l i s = singleListGetNodeDataAt l i s"

definition stackQueueSetAt :: "single_list \<Rightarrow> uint32 \<Rightarrow> uint64 \<Rightarrow> store \<Rightarrow> (STATUS \<times> single_list \<times> store) option" where
  "stackQueueSetAt l i d s = do {
     (st, p) \<leftarrow> singleListGetNodeAt l i s;
     if st \<noteq> STATUS_SUCCESS then Some (st, l, s)
     else do { a \<leftarrow> p; s1 \<leftarrow> set_data a d s; Some (STATUS_SUCCESS, l, s1) }
   }"

definition stackQueueRemoveAt :: "single_list \<Rightarrow> uint32 \<Rightarrow> store \<Rightarrow> (STATUS \<times> single_list \<times> store) option" where
  "stackQueueRemoveAt l i s = do {
     (st, p) \<leftarrow> singleListGetNodeAt l i s;
     if st \<noteq> STATUS_SUCCESS then Some (st, l, s) else singleListDeleteNode l p s
   }"

definition stackQueueRemoveItem :: "single_list \<Rightarrow> uint64 \<Rightarrow> store \<Rightarrow> (STATUS \<times> single_list \<times> store) option" where
  "stackQueueRemoveItem l item s = do {
     (st, i) \<leftarrow> stackQueueGetIndexOf l item s;
     if st \<noteq> STATUS_SUCCESS then Some (st, l, s) else stackQueueRemoveAt l i s
   }"

definition stackQueueEnqueue :: "single_list \<Rightarrow> uint64 \<Rightarrow> store \<Rightarrow> (STATUS \<times> single_list \<times> store) option" where
  "stackQueueEnqueue = singleListInsertItemTail"

definition stackQueueDequeue :: "single_list \<Rightarrow> store \<Rightarrow> (STATUS \<times> uint64 \<times> single_list \<times> store) option" where
  "stackQueueDequeue l s =
     (case singleListGetHeadNode l of
        (_, None) \<Rightarrow> Some (STATUS_NOT_FOUND, 0, l, s)
      | (_, Some a) \<Rightarrow> do {
          (st, d) \<leftarrow> singleListGetNodeData (Some a) s;
          (st1, l1, s1) \<leftarrow> singleListDeleteHead l s;
          Some (st1, d, l1, s1)
        })"

definition stackQueueGetIterator :: "single_list \<Rightarrow> STATUS \<times> ptr" where
  "stackQueueGetIterator l = singleListGetHeadNode l"

definition stackQueueIteratorNext :: "ptr \<Rightarrow> store \<Rightarrow> (STATUS \<times> ptr) option" where
  "stackQueueIteratorNext p s =
     (case p of None \<Rightarrow> Some (STATUS_NOT_FOUND, None) | Some a \<Rightarrow> singleListGetNextNode (Some a) s)"

definition stackQueueIteratorGetItem :: "ptr \<Rightarrow> store \<Rightarrow> (STATUS \<times> uint64) option" where
  "stackQueueIteratorGetItem p s =
     (case p of None \<Rightarrow> Some (STATUS_NOT_FOUND, 0) | Some a \<Rightarrow> singleListGetNodeData (Some a) s)"

end
