(* ===== verification/Single_List_Rep.thy ===== *)
theory Single_List_Rep
  imports Single_List
begin

text \<open>
  What a singly linked list stands for: a chain of distinct allocated nodes from the head to the
  tail, with the count. Each operation of the list is shown to act on the list of items, to touch
  no node of any other list, and to change the ledger exactly by what it allocates and frees.
\<close>

section \<open>Chains\<close>

fun chain :: "(nat \<Rightarrow> list_node option) \<Rightarrow> ptr \<Rightarrow> nat list \<Rightarrow> ptr \<Rightarrow> bool" where
  "chain N p [] q \<longleftrightarrow> p = q"
| "chain N p (a # as) q \<longleftrightarrow> p = Some a \<and> N a \<noteq> None \<and> chain N (pNext (the (N a))) as q"

lemma chain_append: "chain N p (as @ bs) q \<longleftrightarrow> (\<exists>r. chain N p as r \<and> chain N r bs q)"
  by (induction as arbitrary: p) auto

lemma chain_fun_upd [simp]: "a \<notin> set as \<Longrightarrow> chain (N(a := x)) p as q = chain N p as q"
  by (induction as arbitrary: p) auto

lemma chain_alloc: "chain N p as q \<Longrightarrow> a \<in> set as \<Longrightarrow> N a \<noteq> None"
  by (induction as arbitrary: p) auto

lemma chain_None [simp]: "chain N None as q \<longleftrightarrow> as = [] \<and> q = None"
  by (cases as) auto

lemma chain_Some: "chain N (Some a) as None \<longleftrightarrow> (\<exists>bs. as = a # bs \<and> N a \<noteq> None \<and> chain N (pNext (the (N a))) bs None)"
  by (cases as) auto

section \<open>Representation\<close>

definition store_ok :: "store \<Rightarrow> bool" where
  "store_ok s \<longleftrightarrow> (\<forall>a. nodes s a \<noteq> None \<longrightarrow> a < brk s)"

definition items :: "store \<Rightarrow> nat list \<Rightarrow> uint64 list" where
  "items s as = map (\<lambda>a. node_data (the (nodes s a))) as"

definition rep :: "nat list \<Rightarrow> single_list \<Rightarrow> store \<Rightarrow> bool" where
  "rep as l s \<longleftrightarrow> chain (nodes s) (pHead l) as None \<and> distinct as \<and>
     pTail l = (if as = [] then None else Some (last as)) \<and>
     list_count l = of_nat (length as) \<and> length as < 2 ^ 32"

text \<open>What an operation on the list of the nodes \<open>as\<close> leaves alone.\<close>

definition frame :: "nat list \<Rightarrow> store \<Rightarrow> store \<Rightarrow> nat list \<Rightarrow> bool" where
  "frame as s s' as' \<longleftrightarrow> store_ok s' \<and> brk s \<le> brk s' \<and>
     (\<forall>a. a \<notin> set as \<longrightarrow> a < brk s \<longrightarrow> nodes s' a = nodes s a) \<and>
     (\<forall>a\<in>set as'. a \<in> set as \<or> brk s \<le> a)"

lemma frame_refl: "store_ok s \<Longrightarrow> frame as s s as"
  by (simp add: frame_def)

lemma rep_below: "rep as l s \<Longrightarrow> store_ok s \<Longrightarrow> a \<in> set as \<Longrightarrow> a < brk s"
  unfolding rep_def store_ok_def using chain_alloc by blast

lemma rep_empty [simp]: "rep [] empty_list s"
  by (simp add: rep_def empty_list_def)

lemma rep_length: "rep as l s \<Longrightarrow> unat (list_count l) = length as"
  by (simp add: rep_def unat_of_nat take_bit_nat_eq_self)

lemma rep_head: "rep as l s \<Longrightarrow> pHead l = (case as of [] \<Rightarrow> None | a # _ \<Rightarrow> Some a)"
  unfolding rep_def by (cases as) auto

lemma items_ledger [simp]: "items (s\<lparr>ledger := h\<rparr>) as = items s as"
  by (simp add: items_def)

text \<open>The list is not affected by what happens to nodes of another one.\<close>

lemma rep_frame:
  assumes "frame as s s' as'" "rep bs k s" "store_ok s" "set as \<inter> set bs = {}"
  shows "rep bs k s' \<and> items s' bs = items s bs \<and> set as' \<inter> set bs = {}"
proof -
  have eq: "nodes s' b = nodes s b" if "b \<in> set bs" for b
    using assms that rep_below[OF assms(2,3)] unfolding frame_def by blast
  have "chain (nodes s') p bs q = chain (nodes s) p bs q" for p q
    using eq by (induction bs arbitrary: p) auto
  then have "rep bs k s'" using assms(2) by (simp add: rep_def)
  moreover have "set as' \<inter> set bs = {}"
    using assms(1,4) rep_below[OF assms(2,3)] unfolding frame_def by force
  ultimately show ?thesis using eq by (auto simp: items_def)
qed

lemma store_ok_ledger [simp]: "store_ok (s\<lparr>ledger := h\<rparr>) = store_ok s"
  by (simp add: store_ok_def)

lemma rep_ledger [simp]: "rep as l (s\<lparr>ledger := h\<rparr>) = rep as l s"
  by (simp add: rep_def)

lemma frame_ledger: "store_ok s \<Longrightarrow> frame as s (s\<lparr>ledger := h\<rparr>) as"
  by (simp add: frame_def)

text \<open>
  The operation on the list of the nodes \<open>as\<close> returned \<open>st\<close>, left a list of the items \<open>xs\<close> and
  the ledger \<open>h\<close>, and kept to its own nodes.
\<close>

definition becomes :: "nat list \<Rightarrow> store \<Rightarrow> (STATUS \<times> single_list \<times> store) option \<Rightarrow> STATUS \<Rightarrow> uint64 list \<Rightarrow> heap \<Rightarrow> bool" where
  "becomes as s res st xs h \<longleftrightarrow>
     (\<exists>as' l' s'. res = Some (st, l', s') \<and> rep as' l' s' \<and> items s' as' = xs \<and> ledger s' = h \<and> frame as s s' as')"

lemma becomesI:
  "res = Some (st, l', s') \<Longrightarrow> rep as' l' s' \<Longrightarrow> items s' as' = xs \<Longrightarrow> ledger s' = h \<Longrightarrow> frame as s s' as'
   \<Longrightarrow> becomes as s res st xs h"
  unfolding becomes_def by blast

lemma becomes_same: "rep as l s \<Longrightarrow> store_ok s \<Longrightarrow> becomes as s (Some (st, l, s\<lparr>ledger := h\<rparr>)) st (items s as) h"
  by (rule becomesI[of _ _ l "s\<lparr>ledger := h\<rparr>" as]) (auto simp: frame_ledger)

section \<open>Insertion\<close>

lemma rep_pTail: "rep as l s \<Longrightarrow> pTail l = None \<longleftrightarrow> as = []"
  by (simp add: rep_def)

lemma rep_pHead: "rep as l s \<Longrightarrow> pHead l = None \<longleftrightarrow> as = []"
  by (auto simp: rep_head split: list.splits)

text \<open>The first \<open>ok\<close> of an allocation and the ledger after it.\<close>

abbreviation granted :: "store \<Rightarrow> bool" where "granted s \<equiv> fst (heap_calloc (ledger s))"
abbreviation charged :: "store \<Rightarrow> heap" where "charged s \<equiv> snd (heap_calloc (ledger s))"

lemma insert_head:
  assumes R: "rep as l s" and S: "store_ok s" and L: "Suc (length as) < 2 ^ 32"
  shows "becomes as s (singleListInsertItemHead l d s)
    (if granted s then STATUS_SUCCESS else STATUS_NOT_ENOUGH_MEMORY)
    (if granted s then d # items s as else items s as) (charged s)"
proof (cases "granted s")
  case True
  let ?a = "brk s"
  let ?s = "s\<lparr>ledger := charged s, nodes := (nodes s)(?a \<mapsto> \<lparr>pNext = pHead l, node_data = d\<rparr>), brk := Suc ?a\<rparr>"
  let ?l = "\<lparr>list_count = list_count l + 1, pHead = Some ?a, pTail = (if as = [] then Some ?a else pTail l)\<rparr>"
  have new: "?a \<notin> set as" using rep_below[OF R S] by blast
  show ?thesis
  proof (rule becomesI)
    show "singleListInsertItemHead l d s =
      Some (if granted s then STATUS_SUCCESS else STATUS_NOT_ENOUGH_MEMORY, ?l, ?s)"
      using True rep_pHead[OF R] rep_pTail[OF R]
      by (auto simp: singleListInsertItemHead_def priv_single_list_allocateNode_def
          priv_single_list_insertNodeHead_def set_next_def Let_def split: prod.splits)
    show "rep (?a # as) ?l ?s" using R new L by (auto simp: rep_def)
    show "items ?s (?a # as) = (if granted s then d # items s as else items s as)"
      using new True by (auto simp: items_def)
    show "frame as s ?s (?a # as)" using S by (auto simp: frame_def store_ok_def less_Suc_eq)
  qed simp
next
  case False
  then show ?thesis
    using becomes_same[OF R S, of STATUS_NOT_ENOUGH_MEMORY "charged s"]
    by (simp add: singleListInsertItemHead_def priv_single_list_allocateNode_def case_prod_beta)
qed

text \<open>A chain is lengthened at its last node.\<close>

lemma chain_extend:
  assumes "chain N p (as @ [t]) None" "distinct (as @ [t])" "a \<notin> set (as @ [t])" "N t = Some n" "pNext m = None"
  shows "chain (N(a \<mapsto> m, t \<mapsto> n\<lparr>pNext := Some a\<rparr>)) p (as @ [t, a]) None"
  using assms by (auto simp: chain_append)

lemma insert_tail:
  assumes R: "rep as l s" and S: "store_ok s" and L: "Suc (length as) < 2 ^ 32"
  shows "becomes as s (singleListInsertItemTail l d s)
    (if granted s then STATUS_SUCCESS else STATUS_NOT_ENOUGH_MEMORY)
    (if granted s then items s as @ [d] else items s as) (charged s)"
proof (cases "granted s")
  case False
  then show ?thesis
    using becomes_same[OF R S, of STATUS_NOT_ENOUGH_MEMORY "charged s"]
    by (simp add: singleListInsertItemTail_def priv_single_list_allocateNode_def case_prod_beta)
next
  case True
  let ?a = "brk s"
  have new: "?a \<notin> set as" using rep_below[OF R S] by blast
  have alloc: "priv_single_list_allocateNode d s = (STATUS_SUCCESS, Some ?a,
      s\<lparr>ledger := charged s, nodes := (nodes s)(?a \<mapsto> \<lparr>pNext = None, node_data = d\<rparr>), brk := Suc ?a\<rparr>)"
    using True by (simp add: priv_single_list_allocateNode_def case_prod_beta)
  show ?thesis
  proof (cases as rule: rev_cases)
    case Nil
    let ?s = "s\<lparr>ledger := charged s, nodes := (nodes s)(?a \<mapsto> \<lparr>pNext = None, node_data = d\<rparr>), brk := Suc ?a\<rparr>"
    let ?l = "\<lparr>list_count = list_count l + 1, pHead = Some ?a, pTail = Some ?a\<rparr>"
    show ?thesis
    proof (rule becomesI)
      show "singleListInsertItemTail l d s =
        Some (if granted s then STATUS_SUCCESS else STATUS_NOT_ENOUGH_MEMORY, ?l, ?s)"
        using True Nil rep_pHead[OF R] rep_pTail[OF R]
        by (auto simp: singleListInsertItemTail_def alloc priv_single_list_insertNodeTail_def set_next_def)
      show "rep [?a] ?l ?s" using R Nil L by (auto simp: rep_def)
      show "items ?s [?a] = (if granted s then items s as @ [d] else items s as)"
        using True Nil by (simp add: items_def)
      show "frame as s ?s [?a]" using S by (auto simp: frame_def store_ok_def less_Suc_eq)
    qed simp
  next
    case (snoc bs t)
    have ch: "chain (nodes s) (pHead l) (bs @ [t]) None" and di: "distinct (bs @ [t])"
      using R snoc by (auto simp: rep_def)
    then obtain n where n: "nodes s t = Some n" by (auto simp: chain_append)
    have ta: "t \<noteq> ?a" using new snoc by auto
    let ?N = "(nodes s)(?a \<mapsto> \<lparr>pNext = None, node_data = d\<rparr>, t \<mapsto> n\<lparr>pNext := Some ?a\<rparr>)"
    let ?s = "s\<lparr>ledger := charged s, nodes := ?N, brk := Suc ?a\<rparr>"
    let ?l = "l\<lparr>pTail := Some ?a, list_count := list_count l + 1\<rparr>"
    show ?thesis
    proof (rule becomesI)
      have "pTail l = Some t" using R snoc by (simp add: rep_def)
      then show "singleListInsertItemTail l d s =
        Some (if granted s then STATUS_SUCCESS else STATUS_NOT_ENOUGH_MEMORY, ?l, ?s)"
        using True n ta
        by (simp add: singleListInsertItemTail_def alloc priv_single_list_insertNodeTail_def set_next_def)
      show "rep (as @ [?a]) ?l ?s"
        using R new L chain_extend[OF ch di _ n, of ?a "\<lparr>pNext = None, node_data = d\<rparr>"] snoc
        by (auto simp: rep_def)
      show "items ?s (as @ [?a]) = (if granted s then items s as @ [d] else items s as)"
        using True new ta n by (auto simp: items_def)
      show "frame as s ?s (as @ [?a])" using S snoc n by (auto simp: frame_def store_ok_def less_Suc_eq)
    qed simp
  qed
qed

section \<open>Reading\<close>

lemma nodes_at:
  "chain (nodes s) p as None \<Longrightarrow> i < length as \<Longrightarrow> priv_single_list_getNodeAt i p s = Some (STATUS_SUCCESS, Some (as ! i))"
proof (induction i arbitrary: p as)
  case 0
  then show ?case by (cases as) auto
next
  case (Suc i)
  then obtain a bs where "as = a # bs" by (cases as) auto
  with Suc show ?case by (cases "nodes s a") auto
qed

lemma get_node_at:
  assumes "rep as l s"
  shows "singleListGetNodeAt l i s =
    Some (if unat i < length as then (STATUS_SUCCESS, Some (as ! unat i)) else (STATUS_INVALID_ARG, None))"
  using assms nodes_at[of s "pHead l" as "unat i"] rep_length[OF assms]
  by (auto simp: singleListGetNodeAt_def rep_def word_less_nat_alt)

lemma get_data_at:
  assumes "rep as l s"
  shows "singleListGetNodeDataAt l i s =
    Some (if unat i < length as then (STATUS_SUCCESS, items s as ! unat i) else (STATUS_INVALID_ARG, 0))"
proof (cases "unat i < length as")
  case True
  then obtain n where "nodes s (as ! unat i) = Some n"
    using assms chain_alloc[of "nodes s" "pHead l" as None "as ! unat i"] by (auto simp: rep_def)
  then show ?thesis
    using True assms nodes_at[of s "pHead l" as "unat i"] rep_length[OF assms]
    by (auto simp: singleListGetNodeDataAt_def rep_def word_less_nat_alt items_def)
next
  case False
  then show ?thesis using rep_length[OF assms] by (simp add: singleListGetNodeDataAt_def word_less_nat_alt)
qed

lemma head_data:
  "rep (a # as) l s \<Longrightarrow> singleListGetNodeData (Some a) s = Some (STATUS_SUCCESS, node_data (the (nodes s a)))"
  by (auto simp: rep_def singleListGetNodeData_def)

section \<open>Deletion\<close>

lemma delete_head:
  assumes R: "rep as l s" and S: "store_ok s"
  shows "becomes as s (singleListDeleteHead l s) STATUS_SUCCESS (tl (items s as))
    (if as = [] then ledger s else heap_free (ledger s))"
proof (cases as)
  case Nil
  then show ?thesis
    using becomes_same[OF R S, of STATUS_SUCCESS "ledger s"] rep_pHead[OF R]
    by (simp add: singleListDeleteHead_def items_def)
next
  case (Cons a bs)
  then obtain n where n: "nodes s a = Some n" and ch: "chain (nodes s) (pNext n) bs None"
    and p: "pHead l = Some a" and nb: "a \<notin> set bs"
    using R by (auto simp: rep_def)
  let ?s = "s\<lparr>ledger := heap_free (ledger s), nodes := (nodes s)(a := None)\<rparr>"
  let ?l = "\<lparr>list_count = list_count l - 1, pHead = pNext n, pTail = (if pNext n = None then None else pTail l)\<rparr>"
  show ?thesis
  proof (rule becomesI)
    show "singleListDeleteHead l s = Some (STATUS_SUCCESS, ?l, ?s)"
      using p n by (simp add: singleListDeleteHead_def free_node_def Let_def)
    have "pNext n = None \<longleftrightarrow> bs = []" using ch by (cases bs) auto
    then show "rep bs ?l ?s" using R Cons ch nb by (auto simp: rep_def)
    show "items ?s bs = tl (items s as)" using Cons nb by (auto simp: items_def)
    show "frame as s ?s bs" using S Cons by (auto simp: frame_def store_ok_def)
  qed (use Cons in simp)
qed

lemma prev_loop_finds:
  assumes "chain (nodes s) p (as @ b # a # bs) None" "distinct (as @ b # a # bs)"
  shows "prev_loop s a p = Some (Some b)"
  using assms
proof (induction as arbitrary: p)
  case Nil
  then show ?case by (auto simp: prev_loop.simps)
next
  case (Cons c as)
  then obtain n where n: "nodes s c = Some n" "p = Some c" by auto
  have "pNext n \<noteq> Some a"
    using Cons.prems n by (cases as) auto
  then show ?case using Cons n by (subst prev_loop.simps) simp
qed

lemma delete_inner:
  assumes R: "rep (pre @ b # a # post) l s" and S: "store_ok s"
  shows "becomes (pre @ b # a # post) s (singleListDeleteNode l (Some a) s) STATUS_SUCCESS
    (items s (pre @ b # post)) (heap_free (ledger s))"
proof -
  have ch: "chain (nodes s) (pHead l) (pre @ b # a # post) None"
    and di: "distinct (pre @ b # a # post)"
    and tl: "pTail l = Some (last (pre @ b # a # post))"
    using R by (auto simp: rep_def)
  obtain nb na where nb: "nodes s b = Some nb" "pNext nb = Some a" and na: "nodes s a = Some na"
    and post: "chain (nodes s) (pNext na) post None" and pre: "chain (nodes s) (pHead l) pre (Some b)"
    using ch by (auto simp: chain_append)
  have ne: "b \<noteq> a" "b \<notin> set pre" "a \<notin> set pre" "b \<notin> set post" "a \<notin> set post"
    using di by auto
  let ?s = "s\<lparr>ledger := heap_free (ledger s), nodes := (nodes s)(b \<mapsto> nb\<lparr>pNext := pNext na\<rparr>, a := None)\<rparr>"
  let ?l = "l\<lparr>pTail := (if pNext na = None then Some b else pTail l), list_count := list_count l - 1\<rparr>"
  have pn: "pNext na = None \<longleftrightarrow> post = []" using post by (cases post) auto
  have hd: "pHead l \<noteq> Some a" using pre ne by (cases pre) auto
  show ?thesis
  proof (rule becomesI)
    have "singleListDeleteNode l (Some a) s = singleListDeleteNextNode l (Some b) s"
      using hd prev_loop_finds[OF ch di] by (simp add: singleListDeleteNode_def)
    also have "\<dots> = Some (STATUS_SUCCESS, ?l, ?s)"
      using nb na ne(1) pn tl
      by (cases "pNext na") (auto simp: singleListDeleteNextNode_def set_next_def free_node_def Let_def)
    finally show "singleListDeleteNode l (Some a) s = Some (STATUS_SUCCESS, ?l, ?s)" .
    have "chain (nodes ?s) (pHead l) (pre @ b # post) None"
      using pre post ne by (auto simp: chain_append)
    then show "rep (pre @ b # post) ?l ?s"
      using R di pn tl by (auto simp: rep_def)
    show "items ?s (pre @ b # post) = items s (pre @ b # post)"
      using ne nb by (auto simp: items_def)
    show "frame (pre @ b # a # post) s ?s (pre @ b # post)" using S nb by (auto simp: frame_def store_ok_def)
  qed simp
qed

lemma delete_node:
  assumes R: "rep as l s" and S: "store_ok s" and i: "i < length as"
  shows "becomes as s (singleListDeleteNode l (Some (as ! i)) s) STATUS_SUCCESS
    (take i (items s as) @ drop (Suc i) (items s as)) (heap_free (ledger s))"
proof (cases i)
  case 0
  then obtain b bs where ab: "as = b # bs" using i by (cases as) auto
  then show ?thesis
    using delete_head[OF R S] rep_head[OF R] 0
    by (simp add: singleListDeleteNode_def items_def drop_Suc)
next
  case (Suc j)
  have spl: "as = take j as @ as ! j # as ! i # drop (Suc i) as"
    using i Suc by (metis Cons_nth_drop_Suc Suc_lessD append_take_drop_id)
  have "items s (take j as @ as ! j # drop (Suc i) as) = take i (items s as) @ drop (Suc i) (items s as)"
    using i Suc by (simp add: items_def take_map drop_map take_Suc_conv_app_nth)
  moreover have "rep (take j as @ as ! j # as ! i # drop (Suc i) as) l s" using R spl by simp
  ultimately show ?thesis using delete_inner[OF _ S] spl by metis
qed

section \<open>Clearing\<close>

text \<open>\<open>n\<close> blocks are given back.\<close>

definition frees :: "nat \<Rightarrow> heap \<Rightarrow> heap" where
  "frees n h = h\<lparr>live := live h - int n\<rparr>"

lemma frees_simps [simp]: "frees 0 h = h" "heap_free (frees n h) = frees (Suc n) h" "frees n (heap_free h) = frees (Suc n) h"
  by (simp_all add: frees_def heap_free_def)

lemma clear_loop_clears:
  assumes "chain (nodes s) p as None" "distinct as" "store_ok s"
  shows "\<exists>s'. clear_loop fd p s = Some s' \<and>
    ledger s' = frees (length as + (if fd then length (filter (\<lambda>d. d \<noteq> 0) (items s as)) else 0)) (ledger s) \<and>
    frame as s s' []"
  using assms
proof (induction as arbitrary: p s)
  case Nil
  then show ?case by (auto simp: clear_loop.simps frame_def items_def)
next
  case (Cons a as)
  then obtain n where n: "nodes s a = Some n" "p = Some a" and ch: "chain (nodes s) (pNext n) as None" and na: "a \<notin> set as"
    by auto
  let ?h = "frees (if fd \<and> node_data n \<noteq> 0 then 2 else 1) (ledger s)"
  let ?s = "s\<lparr>ledger := ?h, nodes := (nodes s)(a := None)\<rparr>"
  have step: "clear_loop fd p s = clear_loop fd (pNext n) ?s"
    using n by (subst clear_loop.simps) (auto simp: free_node_def free_data_def frees_def heap_free_def)
  have "store_ok ?s" using Cons.prems(3) by (auto simp: store_ok_def)
  moreover have "chain (nodes ?s) (pNext n) as None" using ch na by (simp add: chain_fun_upd del: fun_upd_apply)
  moreover have "distinct as" using Cons.prems(2) by simp
  ultimately have "\<exists>s'. clear_loop fd (pNext n) ?s = Some s' \<and>
    ledger s' = frees (length as + (if fd then length (filter (\<lambda>d. d \<noteq> 0) (items ?s as)) else 0)) (ledger ?s) \<and>
    frame as ?s s' []"
    by (intro Cons.IH)
  then obtain s' where s': "clear_loop fd (pNext n) ?s = Some s'"
    "ledger s' = frees (length as + (if fd then length (filter (\<lambda>d. d \<noteq> 0) (items ?s as)) else 0)) ?h"
    "frame as ?s s' []"
    by fastforce
  have it: "items ?s as = items s as" using na by (auto simp: items_def)
  have "ledger s' = frees (length (a # as) + (if fd then length (filter (\<lambda>d. d \<noteq> 0) (items s (a # as))) else 0)) (ledger s)"
    using s'(2) n unfolding it by (auto simp: frees_def items_def)
  moreover have "frame (a # as) s s' []" using s'(3) by (auto simp: frame_def)
  ultimately show ?case using step s'(1) by auto
qed

lemma clear_list:
  assumes R: "rep as l s" and S: "store_ok s"
  shows "becomes as s (singleListClear l fd s) STATUS_SUCCESS []
    (frees (length as + (if fd then length (filter (\<lambda>d. d \<noteq> 0) (items s as)) else 0)) (ledger s))"
proof -
  obtain s' where s': "clear_loop fd (pHead l) s = Some s'"
    "ledger s' = frees (length as + (if fd then length (filter (\<lambda>d. d \<noteq> 0) (items s as)) else 0)) (ledger s)"
    "frame as s s' []"
    using clear_loop_clears[of s "pHead l" as fd] R S unfolding rep_def by auto
  show ?thesis
    by (rule becomesI[of _ _ "l\<lparr>list_count := 0, pHead := None, pTail := None\<rparr>" s' "[]"])
       (use s' in \<open>auto simp: singleListClear_def rep_def items_def\<close>)
qed

end
