(* ===== verification/Refinement.thy ===== *)
theory Refinement
  imports Kvs_Prelude
begin

text \<open>
  The interface between a container of the utilities and its abstract specification: each call is
  simulated, as long as the abstract state has room, and so is every sequence of calls.
\<close>

fun run_exec :: "('op \<Rightarrow> 'c \<Rightarrow> ('r \<times> 'c) option) \<Rightarrow> 'op list \<Rightarrow> 'c \<Rightarrow> ('r list \<times> 'c) option" where
  "run_exec exec [] c = Some ([], c)"
| "run_exec exec (x # xs) c =
     (case exec x c of
        None \<Rightarrow> None
      | Some (r, c1) \<Rightarrow> (case run_exec exec xs c1 of None \<Rightarrow> None | Some (rs, c2) \<Rightarrow> Some (r # rs, c2)))"

fun run_spec :: "('op \<Rightarrow> 'a \<Rightarrow> 'r \<times> 'a) \<Rightarrow> 'op list \<Rightarrow> 'a \<Rightarrow> 'r list \<times> 'a" where
  "run_spec spec [] a = ([], a)"
| "run_spec spec (x # xs) a = (case spec x a of (r, a1) \<Rightarrow> (case run_spec spec xs a1 of (rs, a2) \<Rightarrow> (r # rs, a2)))"

locale refines =
  fixes exec :: "'op \<Rightarrow> 'c \<Rightarrow> ('r \<times> 'c) option"
    and spec :: "'op \<Rightarrow> 'a \<Rightarrow> 'r \<times> 'a"
    and rel :: "'c \<Rightarrow> 'a \<Rightarrow> bool"
    and room :: "'a \<Rightarrow> nat"
  assumes step: "rel c a \<Longrightarrow> 0 < room a \<Longrightarrow> \<exists>c'. exec x c = Some (fst (spec x a), c') \<and> rel c' (snd (spec x a))"
    and room: "room a \<le> Suc (room (snd (spec x a)))"
begin

lemma run:
  assumes "rel c a" "length xs \<le> room a"
  shows "\<exists>c'. run_exec exec xs c = Some (fst (run_spec spec xs a), c') \<and> rel c' (snd (run_spec spec xs a))"
  using assms
proof (induction xs arbitrary: c a)
  case Nil
  then show ?case by simp
next
  case (Cons x xs)
  then obtain c1 where c1: "exec x c = Some (fst (spec x a), c1)" "rel c1 (snd (spec x a))"
    using step[of c a x] by auto
  have "length xs \<le> room (snd (spec x a))" using Cons.prems(2) room[of a x] by simp
  from Cons.IH[OF c1(2) this] show ?case using c1(1) by (auto simp: case_prod_beta)
qed

end

text \<open>
  The same for specifications that leave a choice, such as whether memory runs out: every call
  behaves as the specification allows for the abstraction of the state, and so do all together.
\<close>

fun run_all :: "('op \<Rightarrow> 'c \<Rightarrow> 'r \<times> 'c) \<Rightarrow> 'op list \<Rightarrow> 'c \<Rightarrow> 'r list \<times> 'c" where
  "run_all exec [] c = ([], c)"
| "run_all exec (x # xs) c = (case exec x c of (r, c1) \<Rightarrow> (case run_all exec xs c1 of (rs, c2) \<Rightarrow> (r # rs, c2)))"

fun run_allowed :: "('op \<Rightarrow> 'a \<Rightarrow> 'r \<Rightarrow> 'a \<Rightarrow> bool) \<Rightarrow> 'op list \<Rightarrow> 'a \<Rightarrow> 'r list \<Rightarrow> 'a \<Rightarrow> bool" where
  "run_allowed A [] a rs a' \<longleftrightarrow> rs = [] \<and> a' = a"
| "run_allowed A (x # xs) a rs a' \<longleftrightarrow> (\<exists>r rs' a1. rs = r # rs' \<and> A x a r a1 \<and> run_allowed A xs a1 rs' a')"

locale allowed =
  fixes exec :: "'op \<Rightarrow> 'c \<Rightarrow> 'r \<times> 'c"
    and allows :: "'op \<Rightarrow> 'a \<Rightarrow> 'r \<Rightarrow> 'a \<Rightarrow> bool"
    and abs :: "'c \<Rightarrow> 'a"
    and inv :: "'c \<Rightarrow> bool"
    and size :: "'c \<Rightarrow> nat"
    and bound :: nat
  assumes step: "inv c \<Longrightarrow> size c < bound \<Longrightarrow> exec x c = (r, c') \<Longrightarrow>
      inv c' \<and> size c' \<le> Suc (size c) \<and> allows x (abs c) r (abs c')"
begin

lemma run:
  assumes "inv c" "size c + length xs \<le> bound" "run_all exec xs c = (rs, c')"
  shows "inv c' \<and> size c' \<le> size c + length xs \<and> run_allowed allows xs (abs c) rs (abs c')"
  using assms
proof (induction xs arbitrary: c rs)
  case Nil
  then show ?case by simp
next
  case (Cons x xs)
  obtain r c1 where x: "exec x c = (r, c1)" by fastforce
  obtain rs1 where xs: "run_all exec xs c1 = (rs1, c')" "rs = r # rs1"
    using Cons.prems(3) x by (auto split: prod.splits)
  have one: "inv c1 \<and> size c1 \<le> Suc (size c) \<and> allows x (abs c) r (abs c1)"
    using step[OF Cons.prems(1) _ x] Cons.prems(2) by simp
  with Cons.IH[of c1 rs1] Cons.prems(2) xs
  have "inv c' \<and> size c' \<le> size c1 + length xs \<and> run_allowed allows xs (abs c1) rs1 (abs c')" by simp
  then show ?case using one xs(2) by auto
qed

end

end
