(* ===== verification/Stack_Queue_Refine.thy ===== *)
theory Stack_Queue_Refine
  imports Stack_Queue Single_List_Rep Refinement
begin

text \<open>
  The stack and queue over linked nodes behave as a list of items: the same statuses, the same
  values, the same allocations, in every sequence of calls.
\<close>

section \<open>The specification\<close>

datatype sq_op =
    Push uint64 | Pop | Peek | Enqueue uint64 | Dequeue
  | GetAt uint32 | SetAt uint32 uint64 | RemoveAt uint32 | RemoveItem uint64
  | IndexOf uint64 | IsEmpty | Count | Clear bool

text \<open>The results of all calls are given as a status with a value, 0 when there is none.\<close>

fun sq_spec :: "sq_op \<Rightarrow> uint64 list \<times> heap \<Rightarrow> (STATUS \<times> uint64) \<times> uint64 list \<times> heap" where
  "sq_spec (Push d) (xs, h) =
     (case heap_calloc h of (ok, h') \<Rightarrow> if ok then ((STATUS_SUCCESS, 0), d # xs, h') else ((STATUS_NOT_ENOUGH_MEMORY, 0), xs, h'))"
| "sq_spec (Enqueue d) (xs, h) =
     (case heap_calloc h of (ok, h') \<Rightarrow> if ok then ((STATUS_SUCCESS, 0), xs @ [d], h') else ((STATUS_NOT_ENOUGH_MEMORY, 0), xs, h'))"
| "sq_spec Pop (xs, h) = (case xs of [] \<Rightarrow> ((STATUS_NOT_FOUND, 0), [], h) | x # ys \<Rightarrow> ((STATUS_SUCCESS, x), ys, heap_free h))"
| "sq_spec Dequeue (xs, h) = (case xs of [] \<Rightarrow> ((STATUS_NOT_FOUND, 0), [], h) | x # ys \<Rightarrow> ((STATUS_SUCCESS, x), ys, heap_free h))"
| "sq_spec Peek (xs, h) = (case xs of [] \<Rightarrow> ((STATUS_NOT_FOUND, 0), [], h) | x # ys \<Rightarrow> ((STATUS_SUCCESS, x), xs, h))"
| "sq_spec (GetAt i) (xs, h) =
     ((if unat i < length xs then (STATUS_SUCCESS, xs ! unat i) else (STATUS_INVALID_ARG, 0)), xs, h)"
| "sq_spec (SetAt i d) (xs, h) =
     (if unat i < length xs then ((STATUS_SUCCESS, 0), xs[unat i := d], h) else ((STATUS_INVALID_ARG, 0), xs, h))"
| "sq_spec (RemoveAt i) (xs, h) =
     (if unat i < length xs then ((STATUS_SUCCESS, 0), take (unat i) xs @ drop (Suc (unat i)) xs, heap_free h)
      else ((STATUS_INVALID_ARG, 0), xs, h))"
| "sq_spec (RemoveItem d) (xs, h) =
     (if d \<in> set xs then ((STATUS_SUCCESS, 0), remove1 d xs, heap_free h) else ((STATUS_NOT_FOUND, 0), xs, h))"
| "sq_spec (IndexOf d) (xs, h) =
     ((if d \<in> set xs then (STATUS_SUCCESS, of_nat (length (takeWhile (\<lambda>x. x \<noteq> d) xs))) else (STATUS_NOT_FOUND, 0)), xs, h)"
| "sq_spec IsEmpty (xs, h) = ((STATUS_SUCCESS, (if xs = [] then 1 else 0)), xs, h)"
| "sq_spec Count (xs, h) = ((STATUS_SUCCESS, of_nat (length xs)), xs, h)"
| "sq_spec (Clear fd) (xs, h) =
     ((STATUS_SUCCESS, 0), [], frees (length xs + (if fd then length (filter (\<lambda>d. d \<noteq> 0) xs) else 0)) h)"

text \<open>The calls on the linked list.\<close>

definition no_value :: "(STATUS \<times> single_list \<times> store) option \<Rightarrow> ((STATUS \<times> uint64) \<times> single_list \<times> store) option" where
  "no_value r = map_option (\<lambda>(st, c). ((st, 0), c)) r"

fun sq_exec :: "sq_op \<Rightarrow> single_list \<times> store \<Rightarrow> ((STATUS \<times> uint64) \<times> single_list \<times> store) option" where
  "sq_exec (Push d) (l, s) = no_value (stackQueuePush l d s)"
| "sq_exec (Enqueue d) (l, s) = no_value (stackQueueEnqueue l d s)"
| "sq_exec Pop (l, s) = map_option (\<lambda>(st, d, c). ((st, d), c)) (stackQueuePop l s)"
| "sq_exec Dequeue (l, s) = map_option (\<lambda>(st, d, c). ((st, d), c)) (stackQueueDequeue l s)"
| "sq_exec Peek (l, s) = map_option (\<lambda>r. (r, l, s)) (stackQueuePeek l s)"
| "sq_exec (GetAt i) (l, s) = map_option (\<lambda>r. (r, l, s)) (stackQueueGetAt l i s)"
| "sq_exec (SetAt i d) (l, s) = no_value (stackQueueSetAt l i d s)"
| "sq_exec (RemoveAt i) (l, s) = no_value (stackQueueRemoveAt l i s)"
| "sq_exec (RemoveItem d) (l, s) = no_value (stackQueueRemoveItem l d s)"
| "sq_exec (IndexOf d) (l, s) = map_option (\<lambda>(st, i). ((st, ucast i), l, s)) (stackQueueGetIndexOf l d s)"
| "sq_exec IsEmpty (l, s) = (case stackQueueIsEmpty l of (st, b) \<Rightarrow> Some ((st, (if b then 1 else 0)), l, s))"
| "sq_exec Count (l, s) = (case stackQueueGetCount l of (st, n) \<Rightarrow> Some ((st, ucast n), l, s))"
| "sq_exec (Clear fd) (l, s) = no_value (stackQueueClear l fd s)"

definition sq_rel :: "single_list \<times> store \<Rightarrow> uint64 list \<times> heap \<Rightarrow> bool" where
  "sq_rel c a \<longleftrightarrow> (\<exists>as. rep as (fst c) (snd c) \<and> store_ok (snd c) \<and> items (snd c) as = fst a \<and> ledger (snd c) = snd a)"

definition sq_room :: "uint64 list \<times> heap \<Rightarrow> nat" where
  "sq_room a = 2 ^ 32 - 1 - length (fst a)"

section \<open>Each call\<close>

lemma becomes_rel:
  "becomes as s res st xs h \<Longrightarrow> \<exists>c'. no_value res = Some ((st, 0), c') \<and> sq_rel c' (xs, h)"
  unfolding becomes_def no_value_def sq_rel_def frame_def by auto

lemma becomesE:
  assumes "becomes as s res st xs h"
  obtains l' s' where "res = Some (st, l', s')" "sq_rel (l', s') (xs, h)"
  using assms unfolding becomes_def sq_rel_def frame_def by auto

lemma index_loop_finds:
  "chain (nodes s) p as None \<Longrightarrow>
   index_loop s d p i = Some (if d \<in> set (items s as)
     then Some (i + of_nat (length (takeWhile (\<lambda>x. x \<noteq> d) (items s as)))) else None)"
proof (induction as arbitrary: p i)
  case Nil
  then show ?case by (simp add: index_loop.simps items_def)
next
  case (Cons a as)
  then obtain n where n: "nodes s a = Some n" "p = Some a" by auto
  then have "index_loop s d p i = (if node_data n = d then Some (Some i) else index_loop s d (pNext n) (i + 1))"
    by (subst index_loop.simps) (simp add: singleListGetNodeData_def)
  then show ?case using Cons n by (auto simp: items_def algebra_simps)
qed

lemma remove1_index:
  "d \<in> set xs \<Longrightarrow> remove1 d xs = take (length (takeWhile (\<lambda>x. x \<noteq> d) xs)) xs @ drop (Suc (length (takeWhile (\<lambda>x. x \<noteq> d) xs))) xs"
  by (induction xs) auto

lemma takeWhile_short: "d \<in> set xs \<Longrightarrow> length (takeWhile (\<lambda>x. x \<noteq> d) xs) < length xs"
  by (induction xs) auto

lemma get_index:
  assumes "rep as l s"
  shows "stackQueueGetIndexOf l d s =
    Some (if d \<in> set (items s as) then (STATUS_SUCCESS, of_nat (length (takeWhile (\<lambda>x. x \<noteq> d) (items s as)))) else (STATUS_NOT_FOUND, 0))"
  using index_loop_finds[of s "pHead l" as d 0] assms by (simp add: stackQueueGetIndexOf_def rep_def)

lemma items_length [simp]: "length (items s as) = length as"
  by (simp add: items_def)

lemma peek:
  assumes "rep as l s"
  shows "stackQueuePeek l s = Some (case items s as of [] \<Rightarrow> (STATUS_NOT_FOUND, 0) | x # xs \<Rightarrow> (STATUS_SUCCESS, x))"
  using rep_head[OF assms] head_data assms
  by (cases as) (auto simp: stackQueuePeek_def singleListGetHeadNode_def items_def)

lemma remove_at:
  assumes R: "rep as l s" and S: "store_ok s"
  shows "becomes as s (stackQueueRemoveAt l i s)
    (if unat i < length as then STATUS_SUCCESS else STATUS_INVALID_ARG)
    (if unat i < length as then take (unat i) (items s as) @ drop (Suc (unat i)) (items s as) else items s as)
    (if unat i < length as then heap_free (ledger s) else ledger s)"
proof (cases "unat i < length as")
  case True
  then show ?thesis
    using delete_node[OF R S True] get_node_at[OF R, of i] by (simp add: stackQueueRemoveAt_def)
next
  case False
  then show ?thesis
    using becomes_same[OF R S, of STATUS_INVALID_ARG "ledger s"] get_node_at[OF R, of i]
    by (simp add: stackQueueRemoveAt_def status_defs)
qed

lemma set_at:
  assumes R: "rep as l s" and S: "store_ok s" and i: "unat i < length as"
  shows "becomes as s (stackQueueSetAt l i d s) STATUS_SUCCESS ((items s as)[unat i := d]) (ledger s)"
proof -
  let ?a = "as ! unat i"
  have di: "distinct as" using R by (simp add: rep_def)
  obtain n where n: "nodes s ?a = Some n"
    using R i chain_alloc[of "nodes s" "pHead l" as None ?a] by (auto simp: rep_def)
  let ?s = "s\<lparr>nodes := (nodes s)(?a \<mapsto> n\<lparr>node_data := d\<rparr>)\<rparr>"
  have ch: "chain (nodes ?s) p bs q = chain (nodes s) p bs q" for p bs q
    using n by (induction bs arbitrary: p) auto
  show ?thesis
  proof (rule becomesI)
    show "stackQueueSetAt l i d s = Some (STATUS_SUCCESS, l, ?s)"
      using get_node_at[OF R, of i] i n by (simp add: stackQueueSetAt_def set_data_def)
    show "rep as l ?s" using R ch by (simp add: rep_def)
    show "items ?s as = (items s as)[unat i := d]"
      using di i by (auto simp: items_def list_eq_iff_nth_eq nth_list_update nth_eq_iff_index_eq)
    show "frame as s ?s as" using S i n by (auto simp: frame_def store_ok_def)
  qed simp
qed

lemma sq_step:
  assumes "sq_rel (l, s) (xs, h)" "0 < sq_room (xs, h)"
  shows "\<exists>c'. sq_exec x (l, s) = Some (fst (sq_spec x (xs, h)), c') \<and> sq_rel c' (snd (sq_spec x (xs, h)))"
proof -
  obtain as where R: "rep as l s" and S: "store_ok s" and xs: "items s as = xs" and h: "ledger s = h"
    using assms(1) by (auto simp: sq_rel_def)
  have L: "Suc (length as) < 2 ^ 32" using assms(2) by (simp add: sq_room_def xs[symmetric])
  have same: "sq_rel (l, s) (xs, h)" by (rule assms(1))
  have pop: "\<exists>c'. map_option (\<lambda>(st, d, c). ((st, d), c)) (stackQueuePop l s) = Some (fst (sq_spec Pop (xs, h)), c')
      \<and> sq_rel c' (snd (sq_spec Pop (xs, h)))"
    using peek[OF R] same becomesE[OF delete_head[OF R S]]
    by (cases as) (fastforce simp: stackQueuePop_def xs[symmetric] h items_def status_defs)+
  have deq: "map_option (\<lambda>(st, d, c). ((st, d), c)) (stackQueueDequeue l s)
      = map_option (\<lambda>(st, d, c). ((st, d), c)) (stackQueuePop l s)"
    using peek[OF R] rep_head[OF R] head_data R
    by (cases as) (auto simp: stackQueuePop_def stackQueueDequeue_def singleListGetHeadNode_def items_def status_defs)
  show ?thesis
  proof (cases x)
    case (Push d)
    then show ?thesis using becomes_rel[OF insert_head[OF R S L, of d]]
      by (simp add: stackQueuePush_def xs h case_prod_beta split: if_splits)
  next
    case (Enqueue d)
    then show ?thesis using becomes_rel[OF insert_tail[OF R S L, of d]]
      by (simp add: stackQueueEnqueue_def xs h case_prod_beta split: if_splits)
  next
    case Pop
    then show ?thesis using pop by simp
  next
    case Dequeue
    then show ?thesis using pop deq by simp
  next
    case Peek
    then show ?thesis using peek[OF R] same by (simp add: xs split: list.splits)
  next
    case (GetAt i)
    then show ?thesis using get_data_at[OF R, of i] same rep_length[OF R] by (simp add: stackQueueGetAt_def xs[symmetric])
  next
    case (SetAt i d)
    show ?thesis
    proof (cases "unat i < length as")
      case True
      then show ?thesis using becomes_rel[OF set_at[OF R S True, of d]] SetAt by (simp add: xs h) (simp add: xs[symmetric])
    next
      case False
      then show ?thesis using SetAt get_node_at[OF R, of i] same
        by (simp add: stackQueueSetAt_def xs[symmetric] no_value_def status_defs)
    qed
  next
    case (RemoveAt i)
    have "length as = length xs" by (simp add: xs[symmetric])
    with RemoveAt show ?thesis using becomes_rel[OF remove_at[OF R S, of i]]
      by (cases "unat i < length xs") (simp_all add: xs h)
  next
    case (RemoveItem d)
    show ?thesis
    proof (cases "d \<in> set xs")
      case True
      let ?i = "of_nat (length (takeWhile (\<lambda>x. x \<noteq> d) xs)) :: uint32"
      have i: "unat ?i = length (takeWhile (\<lambda>x. x \<noteq> d) xs)"
        using takeWhile_short[OF True] L by (simp add: unat_of_nat take_bit_nat_eq_self xs[symmetric])
      have "length as = length xs" by (simp add: xs[symmetric])
      then have "unat ?i < length as" using takeWhile_short[OF True] by (simp add: i)
      then show ?thesis
        using becomes_rel[OF remove_at[OF R S, of ?i]] RemoveItem True get_index[OF R, of d]
        by (simp add: stackQueueRemoveItem_def xs h i remove1_index)
    next
      case False
      then show ?thesis using RemoveItem get_index[OF R, of d] same
        by (simp add: stackQueueRemoveItem_def xs no_value_def status_defs)
    qed
  next
    case (IndexOf d)
    have "ucast (of_nat (length (takeWhile (\<lambda>x. x \<noteq> d) xs)) :: uint32)
        = (of_nat (length (takeWhile (\<lambda>x. x \<noteq> d) xs)) :: uint64)" if "d \<in> set xs"
      using takeWhile_short[OF that] L
      by (simp add: unsigned_of_nat take_bit_nat_eq_self xs[symmetric])
    then show ?thesis using IndexOf get_index[OF R, of d] same by (simp add: xs)
  next
    case IsEmpty
    have "list_count l = 0 \<longleftrightarrow> xs = []"
      using rep_length[OF R] by (auto simp: xs[symmetric] items_def unat_eq_zero)
    then show ?thesis using IsEmpty same by (simp add: stackQueueIsEmpty_def singleListGetNodeCount_def)
  next
    case Count
    have "ucast (list_count l) = (of_nat (length xs) :: uint64)"
      using rep_length[OF R] of_nat_unat[of "list_count l", where ?'a = "64 word"] by (simp add: xs[symmetric])
    then show ?thesis using Count same by (simp add: stackQueueGetCount_def singleListGetNodeCount_def)
  next
    case (Clear fd)
    then show ?thesis using becomes_rel[OF clear_list[OF R S, of fd]]
      by (cases fd) (simp_all add: stackQueueClear_def xs[symmetric] h)
  qed
qed

lemma sq_room_step: "sq_room a \<le> Suc (sq_room (snd (sq_spec x a)))"
  by (cases a; cases x) (auto simp: sq_room_def length_remove1 split: prod.splits list.splits if_splits)

interpretation sq: refines sq_exec sq_spec sq_rel sq_room
proof unfold_locales
  show "\<exists>c'. sq_exec x c = Some (fst (sq_spec x a), c') \<and> sq_rel c' (snd (sq_spec x a))"
    if "sq_rel c a" "0 < sq_room a" for c a x
    using that sq_step by (cases c; cases a) auto
  show "sq_room a \<le> Suc (sq_room (snd (sq_spec x a)))" for a x
    by (rule sq_room_step)
qed

text \<open>
  C24: Every sequence of fewer than 2^32 calls on a new stack-queue returns: no call reads or writes
  through a pointer to memory that is not allocated, and no loop over the nodes runs forever. The
  statuses and values are those of a plain list of items under the same allocator, and so are the
  blocks allocated and freed at the end.
\<close>

theorem stack_queue_refines_list:
  assumes "length ops < 2 ^ 32" "store_ok s"
  shows "\<exists>l' s'. run_exec sq_exec ops (empty_list, s) = Some (fst (run_spec sq_spec ops ([], ledger s)), l', s')
    \<and> sq_rel (l', s') (snd (run_spec sq_spec ops ([], ledger s)))"
proof -
  have "sq_rel (empty_list, s) ([], ledger s)"
    using assms(2) rep_empty[of s] by (auto simp: sq_rel_def items_def intro!: exI[of _ "[]"])
  from sq.run[OF this, of ops] assms(1) show ?thesis by (auto simp: sq_room_def)
qed

definition empty_store :: store where
  "empty_store = \<lparr>ledger = always_grant, nodes = (\<lambda>_. None), brk = 0\<rparr>"

text \<open>Two items are queued, one is pushed before them, the middle one is taken out.\<close>

theorem stack_queue_refines_list_witness:
  "map_option fst (run_exec sq_exec [Enqueue 5, Enqueue 7, Push 3, RemoveItem 5, Dequeue, Dequeue, Dequeue] (empty_list, empty_store))
   = Some [(0, 0), (0, 0), (0, 0), (0, 0), (0, 3), (0, 7), (STATUS_NOT_FOUND, 0)]"
proof -
  let ?ops = "[Enqueue 5, Enqueue 7, Push 3, RemoveItem 5, Dequeue, Dequeue, Dequeue]"
  have "fst (run_spec sq_spec ?ops ([], ledger empty_store)) =
      [(0, 0), (0, 0), (0, 0), (0, 0), (0, 3), (0, 7), (STATUS_NOT_FOUND, 0)]"
    by (simp add: empty_store_def always_grant_def heap_calloc_def heap_free_def Let_def STATUS_SUCCESS_def)
  moreover have "store_ok empty_store" by (simp add: store_ok_def empty_store_def)
  ultimately show ?thesis using stack_queue_refines_list[of ?ops empty_store] by auto
qed

section \<open>Iterators\<close>

text \<open>Walking with an iterator from the first node gives the items in order.\<close>

fun iterate :: "nat \<Rightarrow> ptr \<Rightarrow> store \<Rightarrow> uint64 list option" where
  "iterate 0 p s = Some []"
| "iterate (Suc n) p s =
     (case p of None \<Rightarrow> Some []
      | Some a \<Rightarrow> do {
          (_, d) \<leftarrow> stackQueueIteratorGetItem (Some a) s;
          (_, q) \<leftarrow> stackQueueIteratorNext (Some a) s;
          ds \<leftarrow> iterate n q s;
          Some (d # ds)
        })"

lemma iterator_visits:
  assumes "rep as l s" "length as \<le> n"
  shows "iterate n (snd (stackQueueGetIterator l)) s = Some (items s as)"
proof -
  have "iterate n p s = Some (items s as)" if "chain (nodes s) p as None" "length as \<le> n" for p
    using that
  proof (induction as arbitrary: p n)
    case Nil
    then show ?case by (cases n) (auto simp: items_def)
  next
    case (Cons a as)
    then obtain m where "n = Suc m" by (cases n) auto
    with Cons show ?case
      by (auto simp: stackQueueIteratorGetItem_def stackQueueIteratorNext_def singleListGetNodeData_def
          singleListGetNextNode_def items_def)
  qed
  then show ?thesis using assms by (simp add: stackQueueGetIterator_def singleListGetHeadNode_def rep_def)
qed

text \<open>Appending moves all nodes of the other list to the end and releases its structure.\<close>

lemma append_lists:
  assumes R: "rep as l s" and K: "rep bs k s" and S: "store_ok s" and D: "set as \<inter> set bs = {}"
    and L: "length as + length bs < 2 ^ 32"
  shows "\<exists>l' s'. singleListAppendList l (Some k) s = Some (STATUS_SUCCESS, l', s') \<and>
    rep (as @ bs) l' s' \<and> items s' (as @ bs) = items s as @ items s bs \<and> ledger s' = heap_free (ledger s)"
proof (cases as rule: rev_cases)
  case Nil
  have "list_count l = 0" using R Nil by (simp add: rep_def)
  then show ?thesis using R K Nil by (auto simp: singleListAppendList_def rep_def items_def)
next
  case (snoc cs t)
  have t: "pTail l = Some t" and nz: "list_count l \<noteq> 0"
    using R snoc rep_length[OF R] by (auto simp: rep_def)
  have ch: "chain (nodes s) (pHead l) (cs @ [t]) None" "distinct (cs @ [t])" using R snoc by (simp_all add: rep_def)
  then obtain n where n: "nodes s t = Some n" by (auto simp: chain_append)
  show ?thesis
  proof (cases bs)
    case Nil
    then have "list_count k = 0" using K by (simp add: rep_def)
    then show ?thesis using nz R Nil by (auto simp: singleListAppendList_def rep_def items_def)
  next
    case (Cons b bs')
    have kz: "list_count k \<noteq> 0" using rep_length[OF K] Cons by auto
    let ?s = "s\<lparr>nodes := (nodes s)(t \<mapsto> n\<lparr>pNext := pHead k\<rparr>), ledger := heap_free (ledger s)\<rparr>"
    let ?l = "l\<lparr>pTail := pTail k, list_count := list_count l + list_count k\<rparr>"
    have "singleListAppendList l (Some k) s = Some (STATUS_SUCCESS, ?l, ?s)"
      using nz kz t n by (simp add: singleListAppendList_def set_next_def)
    moreover have "chain (nodes ?s) (pHead l) (as @ bs) None"
      using ch n K D snoc Cons by (auto simp: chain_append rep_def)
    then have "rep (as @ bs) ?l ?s" using R K D L Cons by (auto simp: rep_def)
    moreover have "items ?s (as @ bs) = items s as @ items s bs" using n by (auto simp: items_def)
    moreover have "ledger ?s = heap_free (ledger s)" by simp
    ultimately show ?thesis by blast
  qed
qed

end
