(* ===== verification/Hash_Table.thy ===== *)
theory Hash_Table
  imports Kvs_Prelude
begin

text \<open>
  The hash table of \<open>components/kvs_utils/src/hash_table.c\<close>: a fixed array of buckets, each an
  array of entries that starts inside the table's own block and is moved to a block of its own when
  it grows. Of a bucket's array only the first \<open>count\<close> entries are ever read; the list \<open>entries\<close> is
  these, \<open>hb_length\<close> is the number the array has room for.
\<close>

section \<open>Data\<close>

record hash_entry =
  he_key :: uint64
  he_value :: uint64

record hash_bucket =
  hb_length :: uint32
  entries :: "hash_entry list"

record hash_table =
  itemCount :: uint32
  bucketCount :: uint32
  bucketLength :: uint32
  buckets :: "hash_bucket list"

definition hb_count :: "hash_bucket \<Rightarrow> nat" where
  "hb_count b = length (entries b)"

definition DEFAULT_HASH_TABLE_BUCKET_LENGTH :: uint32 where "DEFAULT_HASH_TABLE_BUCKET_LENGTH = 2"
definition DEFAULT_HASH_TABLE_BUCKET_COUNT :: uint32 where "DEFAULT_HASH_TABLE_BUCKET_COUNT = 10000"
definition MIN_HASH_TABLE_ENTRIES_ALLOC_LENGTH :: uint32 where "MIN_HASH_TABLE_ENTRIES_ALLOC_LENGTH = 8"
definition MIN_HASH_BUCKET_COUNT :: uint32 where "MIN_HASH_BUCKET_COUNT = 16"

section \<open>The hash\<close>

definition getKeyHash :: "uint64 \<Rightarrow> uint64" where
  "getKeyHash key =
     fold (\<lambda>i h. (h XOR (drop_bit (i * 8) key AND 0xff)) * 0x100000001b3) [0..<8] 0xcbf29ce484222325"

definition bucket_index :: "hash_table \<Rightarrow> uint64 \<Rightarrow> nat" where
  "bucket_index t key = unat (getKeyHash key mod ucast (bucketCount t))"

definition getHashBucket :: "hash_table \<Rightarrow> uint64 \<Rightarrow> hash_bucket" where
  "getHashBucket t key = buckets t ! bucket_index t key"

section \<open>Creation and release\<close>

definition hashTableClear :: "hash_table \<Rightarrow> STATUS \<times> hash_table" where
  "hashTableClear t =
     (STATUS_SUCCESS, t\<lparr>buckets := map (\<lambda>b. b\<lparr>entries := []\<rparr>) (buckets t), itemCount := 0\<rparr>)"

definition hashTableFree :: "hash_table option \<Rightarrow> heap \<Rightarrow> STATUS \<times> heap" where
  "hashTableFree p h =
     (case p of
        None \<Rightarrow> (STATUS_SUCCESS, h)
      | Some t0 \<Rightarrow>
          (let t = snd (hashTableClear t0)
           in (STATUS_SUCCESS,
               heap_free (fold (\<lambda>b h. if hb_length b \<noteq> bucketLength t then heap_free h else h) (buckets t) h))))"

text \<open>
  The sizes are those of the 32-bit target. The size of the block is computed in 32 bits; where it
  wraps, the buckets and entries that are laid out in the block do not fit it: no result.
\<close>

definition SIZEOF_HashEntry :: uint32 where "SIZEOF_HashEntry = 16"
definition SIZEOF_HashBucket :: uint32 where "SIZEOF_HashBucket = 12"
definition SIZEOF_HashTable :: uint32 where "SIZEOF_HashTable = 16"

definition table_allocSize :: "uint32 \<Rightarrow> uint32 \<Rightarrow> uint32" where
  "table_allocSize bc bl =
     (let entryAllocSize = SIZEOF_HashEntry * bl; bucketAllocSize = SIZEOF_HashBucket * bc
      in SIZEOF_HashTable + bucketAllocSize + entryAllocSize * bc)"

definition table_needs :: "uint32 \<Rightarrow> uint32 \<Rightarrow> nat" where
  "table_needs bc bl =
     unat SIZEOF_HashTable + unat SIZEOF_HashBucket * unat bc + unat SIZEOF_HashEntry * unat bl * unat bc"

definition hashTableCreateWithParams :: "uint32 \<Rightarrow> uint32 \<Rightarrow> heap \<Rightarrow> (STATUS \<times> hash_table option \<times> heap) option" where
  "hashTableCreateWithParams bc bl h =
     (if \<not> (bc \<ge> MIN_HASH_BUCKET_COUNT \<and> bl > 0) then Some (STATUS_NULL_ARG, None, h)
      else (case heap_calloc h of
              (ok, h1) \<Rightarrow>
                if \<not> ok then Some (STATUS_NOT_ENOUGH_MEMORY, None, snd (hashTableFree None h1))
                else if unat (table_allocSize bc bl) < table_needs bc bl then None
                else Some (STATUS_SUCCESS,
                      Some \<lparr>itemCount = 0, bucketCount = bc, bucketLength = bl,
                            buckets = replicate (unat bc) \<lparr>hb_length = bl, entries = []\<rparr>\<rparr>, h1)))"

definition hashTableCreate :: "heap \<Rightarrow> (STATUS \<times> hash_table option \<times> heap) option" where
  "hashTableCreate h = hashTableCreateWithParams DEFAULT_HASH_TABLE_BUCKET_COUNT DEFAULT_HASH_TABLE_BUCKET_LENGTH h"

section \<open>Reading\<close>

definition hashTableGetCount :: "hash_table \<Rightarrow> STATUS \<times> uint32" where
  "hashTableGetCount t = (STATUS_SUCCESS, itemCount t)"

definition hashTableGetBucketCount :: "hash_table \<Rightarrow> STATUS \<times> uint32" where
  "hashTableGetBucketCount t = (STATUS_SUCCESS, bucketCount t)"

definition hashTableIsEmpty :: "hash_table \<Rightarrow> STATUS \<times> bool" where
  "hashTableIsEmpty t = (STATUS_SUCCESS, itemCount t = 0)"

text \<open>The search of a bucket: the first entry with the key.\<close>

fun find_entry :: "uint64 \<Rightarrow> hash_entry list \<Rightarrow> nat \<Rightarrow> nat option" where
  "find_entry key [] i = None"
| "find_entry key (e # es) i = (if he_key e = key then Some i else find_entry key es (Suc i))"

definition hashTableGet :: "hash_table \<Rightarrow> uint64 \<Rightarrow> STATUS \<times> uint64" where
  "hashTableGet t key =
     (let b = getHashBucket t key
      in case find_entry key (entries b) 0 of
           None \<Rightarrow> (STATUS_HASH_KEY_NOT_PRESENT, 0)
         | Some i \<Rightarrow> (STATUS_SUCCESS, he_value (entries b ! i)))"

definition hashTableContains :: "hash_table \<Rightarrow> uint64 \<Rightarrow> STATUS \<times> bool" where
  "hashTableContains t key =
     (case hashTableGet t key of
        (st, v) \<Rightarrow> if \<not> (st = STATUS_HASH_KEY_NOT_PRESENT \<or> st = STATUS_SUCCESS) then (st, False)
                   else (STATUS_SUCCESS, st = STATUS_SUCCESS))"

text \<open>
  The copy of all entries into an array with room for \<open>room\<close> of them; \<open>None\<close> asks for the number
  only. The result is the status, what was copied and the number reported.
\<close>

definition hashTableGetAllEntries :: "hash_table \<Rightarrow> uint32 option \<Rightarrow> STATUS \<times> hash_entry list \<times> uint32 option" where
  "hashTableGetAllEntries t room =
     (case room of
        None \<Rightarrow> (STATUS_SUCCESS, [], Some (itemCount t))
      | Some n \<Rightarrow>
          if itemCount t = 0 then (STATUS_SUCCESS, [], Some (itemCount t))
          else if \<not> n \<ge> itemCount t then (STATUS_BUFFER_TOO_SMALL, [], None)
          else (STATUS_SUCCESS, concat (map entries (buckets t)), Some (itemCount t)))"

text \<open>The iteration over the entries, with a callback that reads an entry and changes the world.\<close>

fun iterate_entries :: "(hash_entry \<Rightarrow> 'w \<Rightarrow> STATUS \<times> 'w) \<Rightarrow> hash_entry list \<Rightarrow> 'w \<Rightarrow> STATUS \<times> 'w" where
  "iterate_entries f [] w = (STATUS_SUCCESS, w)"
| "iterate_entries f (e # es) w =
     (case f e w of
        (st, w1) \<Rightarrow>
          if \<not> (st = STATUS_HASH_ENTRY_ITERATION_ABORT \<or> st = STATUS_SUCCESS) then (st, w1)
          else if st = STATUS_HASH_ENTRY_ITERATION_ABORT then (STATUS_SUCCESS, w1)
          else iterate_entries f es w1)"

definition hashTableIterateEntries :: "hash_table \<Rightarrow> (hash_entry \<Rightarrow> 'w \<Rightarrow> STATUS \<times> 'w) \<Rightarrow> 'w \<Rightarrow> STATUS \<times> 'w" where
  "hashTableIterateEntries t f w = iterate_entries f (concat (map entries (buckets t))) w"

section \<open>Writing\<close>

definition set_bucket :: "hash_table \<Rightarrow> uint64 \<Rightarrow> hash_bucket \<Rightarrow> hash_table" where
  "set_bucket t key b = t\<lparr>buckets := (buckets t)[bucket_index t key := b]\<rparr>"

text \<open>A full bucket moves to a block of twice its size; the block it had before, if any, is released.\<close>

definition grow_bucket :: "hash_table \<Rightarrow> hash_bucket \<Rightarrow> heap \<Rightarrow> bool \<times> hash_bucket \<times> heap" where
  "grow_bucket t b h =
     (if of_nat (hb_count b) \<noteq> hb_length b then (True, b, h)
      else
        (let entriesLength = max (hb_length b * 2) MIN_HASH_TABLE_ENTRIES_ALLOC_LENGTH
         in case heap_calloc h of
              (ok, h1) \<Rightarrow>
                if \<not> ok then (False, b, h1)
                else (True, b\<lparr>hb_length := entriesLength\<rparr>,
                      if hb_length b \<noteq> bucketLength t then heap_free h1 else h1)))"

definition hashTableUpsert :: "hash_table \<Rightarrow> uint64 \<Rightarrow> uint64 \<Rightarrow> heap \<Rightarrow> STATUS \<times> hash_table \<times> heap" where
  "hashTableUpsert t key v h =
     (let b = getHashBucket t key
      in case find_entry key (entries b) 0 of
           Some i \<Rightarrow> (STATUS_SUCCESS, set_bucket t key (b\<lparr>entries := (entries b)[i := (entries b ! i)\<lparr>he_value := v\<rparr>]\<rparr>), h)
         | None \<Rightarrow>
             (case grow_bucket t b h of
                (ok, b1, h1) \<Rightarrow>
                  if \<not> ok then (STATUS_NOT_ENOUGH_MEMORY, t, h1)
                  else (STATUS_SUCCESS,
                        (set_bucket t key (b1\<lparr>entries := entries b1 @ [\<lparr>he_key = key, he_value = v\<rparr>]\<rparr>))
                          \<lparr>itemCount := itemCount t + 1\<rparr>, h1)))"

definition hashTablePut :: "hash_table \<Rightarrow> uint64 \<Rightarrow> uint64 \<Rightarrow> heap \<Rightarrow> STATUS \<times> hash_table \<times> heap" where
  "hashTablePut t key v h =
     (case hashTableContains t key of
        (st, contains) \<Rightarrow>
          if st \<noteq> STATUS_SUCCESS then (st, t, h)
          else if contains then (STATUS_HASH_KEY_ALREADY_PRESENT, t, h)
          else hashTableUpsert t key v h)"

definition hashTableRemove :: "hash_table \<Rightarrow> uint64 \<Rightarrow> STATUS \<times> hash_table" where
  "hashTableRemove t key =
     (let b = getHashBucket t key
      in case find_entry key (entries b) 0 of
           None \<Rightarrow> (STATUS_HASH_KEY_NOT_PRESENT, t)
         | Some i \<Rightarrow>
             (STATUS_SUCCESS,
              (set_bucket t key (b\<lparr>entries := take i (entries b) @ drop (Suc i) (entries b)\<rparr>))
                \<lparr>itemCount := itemCount t - 1\<rparr>))"

end
