(* ===== verification/Hash_Table_Map.thy ===== *)
theory Hash_Table_Map
  imports Hash_Table Refinement
begin

text \<open>
  The hash table is a finite map: the invariant of its buckets, what each call does to the map, and
  the blocks it owns.
\<close>

section \<open>One bucket\<close>

definition lookup :: "hash_entry list \<Rightarrow> uint64 \<Rightarrow> uint64 option" where
  "lookup es k = map_option he_value (find (\<lambda>e. he_key e = k) es)"

lemma lookup_simps [simp]:
  "lookup [] k = None"
  "lookup (e # es) k = (if he_key e = k then Some (he_value e) else lookup es k)"
  by (simp_all add: lookup_def)

lemma lookup_append [simp]:
  "lookup (as @ bs) k = (case lookup as k of None \<Rightarrow> lookup bs k | Some v \<Rightarrow> Some v)"
  by (induction as) auto

lemma lookup_None: "lookup es k = None \<longleftrightarrow> k \<notin> he_key ` set es"
  by (induction es) auto

lemma find_entry_None: "find_entry k es i = None \<longleftrightarrow> lookup es k = None"
  by (induction es arbitrary: i) auto

lemma find_entry_split:
  "find_entry k es i = Some j \<Longrightarrow>
   \<exists>as e bs. es = as @ e # bs \<and> length as = j - i \<and> i \<le> j \<and> he_key e = k \<and> lookup as k = None"
proof (induction es arbitrary: i)
  case (Cons e es)
  show ?case
  proof (cases "he_key e = k")
    case True
    with Cons.prems show ?thesis by (intro exI[of _ "[]"] exI[of _ e] exI[of _ es]) auto
  next
    case False
    with Cons.prems have "find_entry k es (Suc i) = Some j" by simp
    from Cons.IH[OF this] obtain as f bs where "es = as @ f # bs" "length as = j - Suc i" "Suc i \<le> j"
      "he_key f = k" "lookup as k = None" by blast
    then show ?thesis using False by (intro exI[of _ "e # as"] exI[of _ f] exI[of _ bs]) auto
  qed
qed simp

lemma find_entryE:
  assumes "find_entry k es 0 = Some j"
  obtains as e bs where "es = as @ e # bs" "length as = j" "he_key e = k" "lookup as k = None"
  using find_entry_split[OF assms] by auto

section \<open>The table\<close>

definition table_of :: "hash_table \<Rightarrow> uint64 \<Rightarrow> uint64 option" where
  "table_of t k = lookup (entries (getHashBucket t k)) k"

definition bucket_ok :: "hash_table \<Rightarrow> nat \<Rightarrow> hash_bucket \<Rightarrow> bool" where
  "bucket_ok t i b \<longleftrightarrow> distinct (map he_key (entries b)) \<and> (\<forall>e\<in>set (entries b). bucket_index t (he_key e) = i) \<and>
     length (entries b) \<le> unat (hb_length b) \<and> bucketLength t \<le> hb_length b"

definition ht_inv :: "hash_table \<Rightarrow> bool" where
  "ht_inv t \<longleftrightarrow> 0 < bucketCount t \<and> 0 < bucketLength t \<and> length (buckets t) = unat (bucketCount t) \<and>
     (\<forall>i<length (buckets t). bucket_ok t i (buckets t ! i)) \<and>
     finite (dom (table_of t)) \<and> itemCount t = of_nat (card (dom (table_of t)))"

text \<open>The buckets that have a block of their own.\<close>

definition grown :: "hash_table \<Rightarrow> hash_bucket \<Rightarrow> nat" where
  "grown t b = (if hb_length b \<noteq> bucketLength t then 1 else 0)"

definition blocks :: "hash_table \<Rightarrow> nat" where
  "blocks t = Suc (sum_list (map (grown t) (buckets t)))"

lemma unat_ucast64: "unat (ucast (w :: uint32) :: uint64) = unat w"
proof -
  have "unat w < 2 ^ 64" using unsigned_less[of w, where ?'a = nat] by simp
  then show ?thesis by (simp add: unsigned_ucast_eq take_bit_nat_eq_self)
qed

lemma index_less: "0 < bucketCount t \<Longrightarrow> bucket_index t k < unat (bucketCount t)"
  by (simp add: bucket_index_def unat_mod unat_ucast64 word_less_nat_alt)

lemma bucket_ok_at: "ht_inv t \<Longrightarrow> bucket_ok t (bucket_index t k) (getHashBucket t k)"
  by (simp add: ht_inv_def getHashBucket_def index_less)

section \<open>Replacing a bucket\<close>

lemma set_bucket_simps [simp]:
  "bucketCount (set_bucket t k b) = bucketCount t" "bucketLength (set_bucket t k b) = bucketLength t"
  "bucket_index (set_bucket t k b) x = bucket_index t x" "length (buckets (set_bucket t k b)) = length (buckets t)"
  by (simp_all add: set_bucket_def bucket_index_def)

lemma grown_itemCount [simp]: "grown (t\<lparr>itemCount := n\<rparr>) = grown t"
  by (simp add: grown_def fun_eq_iff)

lemma itemCount_irrelevant [simp]:
  "bucket_index (t\<lparr>itemCount := n\<rparr>) x = bucket_index t x" "getHashBucket (t\<lparr>itemCount := n\<rparr>) x = getHashBucket t x"
  "table_of (t\<lparr>itemCount := n\<rparr>) = table_of t" "bucket_ok (t\<lparr>itemCount := n\<rparr>) i b = bucket_ok t i b"
  "blocks (t\<lparr>itemCount := n\<rparr>) = blocks t"
  by (auto simp: bucket_index_def getHashBucket_def table_of_def bucket_ok_def blocks_def fun_eq_iff)

lemma bucket_ok_set [simp]: "bucket_ok (set_bucket t k b) i c = bucket_ok t i c"
  by (simp add: bucket_ok_def)

lemma getHashBucket_set:
  assumes "ht_inv t"
  shows "getHashBucket (set_bucket t k b) x = (if bucket_index t x = bucket_index t k then b else getHashBucket t x)"
  using assms index_less[of t k] by (simp add: getHashBucket_def ht_inv_def) (simp add: set_bucket_def)

text \<open>The bucket of \<open>k\<close> changes what it holds for \<open>k\<close> only.\<close>

lemma table_of_set:
  assumes "ht_inv t" "\<And>x. x \<noteq> k \<Longrightarrow> lookup (entries b) x = lookup (entries (getHashBucket t k)) x"
  shows "table_of (set_bucket t k b) = (table_of t)(k := lookup (entries b) k)"
  using assms by (auto simp: table_of_def fun_eq_iff getHashBucket_set) (simp add: getHashBucket_def)

lemma ht_inv_set:
  assumes I: "ht_inv t" and B: "bucket_ok t (bucket_index t k) b"
    and L: "\<And>x. x \<noteq> k \<Longrightarrow> lookup (entries b) x = lookup (entries (getHashBucket t k)) x"
    and N: "n = of_nat (card (dom ((table_of t)(k := lookup (entries b) k))))"
  shows "ht_inv ((set_bucket t k b)\<lparr>itemCount := n\<rparr>)"
proof -
  have "bucket_ok t i ((buckets t)[bucket_index t k := b] ! i)" if "i < length (buckets t)" for i
    using I B that by (cases "i = bucket_index t k") (auto simp: ht_inv_def)
  then have "\<forall>i<length (buckets t). bucket_ok t i (buckets (set_bucket t k b) ! i)"
    by (simp add: set_bucket_def)
  then show ?thesis
    using I N table_of_set[OF I L] by (simp add: ht_inv_def)
qed

lemma blocks_set:
  assumes "ht_inv t"
  shows "blocks (set_bucket t k b) + grown t (getHashBucket t k) = blocks t + grown t b"
proof -
  have i: "bucket_index t k < length (map (grown t) (buckets t))"
    using assms index_less[of t k] by (simp add: ht_inv_def)
  have "grown (set_bucket t k b) = grown t" by (simp add: grown_def fun_eq_iff)
  then have "blocks (set_bucket t k b) = Suc (sum_list ((map (grown t) (buckets t))[bucket_index t k := grown t b]))"
    by (simp add: blocks_def set_bucket_def map_update)
  moreover have "grown t (getHashBucket t k) \<le> sum_list (map (grown t) (buckets t))"
    using elem_le_sum_list[OF i] i by (simp add: getHashBucket_def)
  ultimately show ?thesis using i
    by (simp add: sum_list_update blocks_def getHashBucket_def)
qed

section \<open>Reading\<close>

lemma get_table: "hashTableGet t k =
  (case table_of t k of None \<Rightarrow> (STATUS_HASH_KEY_NOT_PRESENT, 0) | Some v \<Rightarrow> (STATUS_SUCCESS, v))"
proof (cases "find_entry k (entries (getHashBucket t k)) 0")
  case None
  then have "table_of t k = None" using find_entry_None[of k "entries (getHashBucket t k)" 0] by (simp add: table_of_def)
  then show ?thesis using None by (simp add: hashTableGet_def)
next
  case (Some j)
  then obtain as e bs where "entries (getHashBucket t k) = as @ e # bs" "length as = j" "he_key e = k" "lookup as k = None"
    by (rule find_entryE)
  then show ?thesis using Some by (auto simp: hashTableGet_def table_of_def nth_append)
qed

lemma contains_table: "hashTableContains t k = (STATUS_SUCCESS, k \<in> dom (table_of t))"
  by (auto simp: hashTableContains_def get_table status_defs split: option.splits)

section \<open>Writing\<close>

lemma remove_table:
  assumes I: "ht_inv t" and k: "table_of t k = Some v"
  shows "\<exists>t'. hashTableRemove t k = (STATUS_SUCCESS, t') \<and> ht_inv t' \<and> table_of t' = (table_of t)(k := None) \<and> blocks t' = blocks t"
proof -
  let ?b = "getHashBucket t k"
  have "find_entry k (entries ?b) 0 \<noteq> None" using k find_entry_None[of k "entries ?b" 0] by (simp add: table_of_def)
  then obtain j where j: "find_entry k (entries ?b) 0 = Some j" by auto
  then obtain as e bs where es: "entries ?b = as @ e # bs" and len: "length as = j" and e: "he_key e = k" "lookup as k = None"
    by (rule find_entryE)
  have B: "bucket_ok t (bucket_index t k) ?b" by (rule bucket_ok_at[OF I])
  let ?b' = "?b\<lparr>entries := as @ bs\<rparr>"
  let ?t = "(set_bucket t k ?b')\<lparr>itemCount := itemCount t - 1\<rparr>"
  have rem: "hashTableRemove t k = (STATUS_SUCCESS, ?t)"
    using j es len by (simp add: hashTableRemove_def Let_def)
  have kb: "lookup bs k = None" using B es e by (auto simp: bucket_ok_def lookup_None)
  have L: "lookup (entries ?b') x = lookup (entries ?b) x" if "x \<noteq> k" for x
    using that es e by (auto split: option.splits)
  have Lk: "lookup (entries ?b') k = None" using e kb by simp
  have B': "bucket_ok t (bucket_index t k) ?b'" using B es by (auto simp: bucket_ok_def)
  have fin: "finite (dom (table_of t))" and cnt: "itemCount t = of_nat (card (dom (table_of t)))"
    using I by (simp_all add: ht_inv_def)
  have kd: "k \<in> dom (table_of t)" using k by auto
  then have "card (dom (table_of t)) = Suc (card (dom (table_of t) - {k}))" using fin by (metis card.remove)
  then have n: "itemCount t - 1 = of_nat (card (dom ((table_of t)(k := lookup (entries ?b') k))))"
    using cnt unfolding Lk by (simp add: dom_fun_upd del: fun_upd_apply)
  have "ht_inv ?t" using ht_inv_set[OF I B' L n] .
  moreover have "table_of ?t = (table_of t)(k := None)" using table_of_set[OF I L] Lk by simp
  moreover have "blocks ?t = blocks t" using blocks_set[OF I, of k ?b'] by (simp add: grown_def)
  ultimately show ?thesis using rem by blast
qed

lemma remove_absent: "table_of t k = None \<Longrightarrow> hashTableRemove t k = (STATUS_HASH_KEY_NOT_PRESENT, t)"
  by (simp add: hashTableRemove_def table_of_def find_entry_None[symmetric, of _ _ 0])

lemma upsert_present:
  assumes I: "ht_inv t" and k: "table_of t k = Some w"
  shows "\<exists>t'. hashTableUpsert t k v h = (STATUS_SUCCESS, t', h) \<and> ht_inv t' \<and> table_of t' = (table_of t)(k \<mapsto> v) \<and> blocks t' = blocks t"
proof -
  let ?b = "getHashBucket t k"
  have "find_entry k (entries ?b) 0 \<noteq> None" using k find_entry_None[of k "entries ?b" 0] by (simp add: table_of_def)
  then obtain j where j: "find_entry k (entries ?b) 0 = Some j" by auto
  then obtain as e bs where es: "entries ?b = as @ e # bs" and len: "length as = j" and e: "he_key e = k" "lookup as k = None"
    by (rule find_entryE)
  let ?b' = "?b\<lparr>entries := as @ (e\<lparr>he_value := v\<rparr>) # bs\<rparr>"
  let ?t = "set_bucket t k ?b'"
  have up: "hashTableUpsert t k v h = (STATUS_SUCCESS, ?t, h)"
    using j es unfolding len[symmetric] by (simp add: hashTableUpsert_def Let_def list_update_append nth_append)
  have L: "lookup (entries ?b') x = lookup (entries ?b) x" if "x \<noteq> k" for x
    using that es e by (auto split: option.splits)
  have Lk: "lookup (entries ?b') k = Some v" using e by simp
  have B': "bucket_ok t (bucket_index t k) ?b'" using bucket_ok_at[OF I, of k] es by (auto simp: bucket_ok_def)
  have n: "itemCount t = of_nat (card (dom ((table_of t)(k := lookup (entries ?b') k))))"
    using I k unfolding Lk by (simp add: ht_inv_def insert_absorb domI)
  have same: "?t\<lparr>itemCount := itemCount t\<rparr> = ?t" by (simp add: set_bucket_def)
  have "ht_inv ?t" using ht_inv_set[OF I B' L n] same by simp
  moreover have "table_of ?t = (table_of t)(k \<mapsto> v)" using table_of_set[OF I L] Lk by simp
  moreover have "blocks ?t = blocks t" using blocks_set[OF I, of k ?b'] by (simp add: grown_def)
  ultimately show ?thesis using up by blast
qed

text \<open>The entries of a bucket are at most the keys of the table.\<close>

lemma bucket_small:
  assumes "ht_inv t"
  shows "length (entries (getHashBucket t k)) \<le> card (dom (table_of t))"
proof -
  let ?es = "entries (getHashBucket t k)"
  have B: "bucket_ok t (bucket_index t k) (getHashBucket t k)" by (rule bucket_ok_at[OF assms])
  have "he_key ` set ?es \<subseteq> dom (table_of t)"
  proof
    fix x assume "x \<in> he_key ` set ?es"
    then have "bucket_index t x = bucket_index t k" "lookup ?es x \<noteq> None"
      using B by (auto simp: bucket_ok_def lookup_None)
    then show "x \<in> dom (table_of t)" by (auto simp: table_of_def getHashBucket_def)
  qed
  moreover have "finite (dom (table_of t))" using assms by (simp add: ht_inv_def)
  ultimately have "card (he_key ` set ?es) \<le> card (dom (table_of t))" by (rule card_mono[rotated])
  moreover have "card (set (map he_key ?es)) = length (map he_key ?es)"
    using B unfolding bucket_ok_def by (intro distinct_card) simp
  ultimately show ?thesis by simp
qed

text \<open>A bucket that has to grow: its new length is above the old one, and never the one of the table.\<close>

lemma grow_table:
  assumes I: "ht_inv t" and S: "card (dom (table_of t)) < 2 ^ 26" and g: "grow_bucket t (getHashBucket t k) h = (ok, b, h1)"
  shows "entries b = entries (getHashBucket t k) \<and>
    (if ok then length (entries b) < unat (hb_length b) \<and> bucketLength t \<le> hb_length b \<and>
                live h1 + int (grown t (getHashBucket t k)) = live h + int (grown t b)
     else live h1 = live h)"
proof -
  let ?b = "getHashBucket t k"
  have B: "length (entries ?b) \<le> unat (hb_length ?b)" "bucketLength t \<le> hb_length ?b" "0 < bucketLength t"
    using bucket_ok_at[OF I, of k] I by (simp_all add: bucket_ok_def ht_inv_def)
  have c: "length (entries ?b) < 2 ^ 26" using bucket_small[OF I, of k] S by simp
  then have cw: "unat (of_nat (hb_count ?b) :: uint32) = length (entries ?b)"
    by (simp add: hb_count_def unat_of_nat take_bit_nat_eq_self)
  show ?thesis
  proof (cases "of_nat (hb_count ?b) = hb_length ?b")
    case False
    then have "length (entries ?b) \<noteq> unat (hb_length ?b)" using cw by (simp add: word_unat_eq_iff)
    then show ?thesis using g B False by (auto simp: grow_bucket_def)
  next
    case True
    then have len: "unat (hb_length ?b) = length (entries ?b)" using cw by simp
    let ?n = "max (hb_length ?b * 2) MIN_HASH_TABLE_ENTRIES_ALLOC_LENGTH"
    have "unat (hb_length ?b * 2) = 2 * length (entries ?b)"
      using len c by (simp add: unat_word_ariths)
    moreover have "0 < length (entries ?b)"
      using B(2,3) len by (metis neq0_conv unat_eq_zero word_gt_0 word_not_simps(1) word_le_0_iff)
    ultimately have up: "unat (hb_length ?b) < unat ?n"
      using len by (auto simp: max_def word_le_nat_alt MIN_HASH_TABLE_ENTRIES_ALLOC_LENGTH_def)
    then have ne: "?n \<noteq> bucketLength t" "bucketLength t \<le> ?n" using B(2) by (auto simp: word_le_nat_alt)
    obtain ok' h' where hc: "heap_calloc h = (ok', h')" by fastforce
    show ?thesis
      using g True hc up ne len heap_calloc_live[OF hc] by (auto simp: grow_bucket_def grown_def Let_def split: if_splits)
  qed
qed

lemma upsert_absent:
  assumes I: "ht_inv t" and k: "table_of t k = None" and S: "card (dom (table_of t)) < 2 ^ 26"
    and U: "hashTableUpsert t k v h = (st, t', h')"
  shows "ht_inv t' \<and> live h' + int (blocks t) = live h + int (blocks t') \<and>
    (st = STATUS_SUCCESS \<and> table_of t' = (table_of t)(k \<mapsto> v) \<or> st = STATUS_NOT_ENOUGH_MEMORY \<and> t' = t)"
proof -
  let ?b = "getHashBucket t k"
  have f: "find_entry k (entries ?b) 0 = None" using k by (simp add: table_of_def find_entry_None)
  obtain ok b1 h1 where g: "grow_bucket t ?b h = (ok, b1, h1)" by (metis prod_cases3)
  note gt = grow_table[OF I S g]
  show ?thesis
  proof (cases ok)
    case False
    then show ?thesis using U f g gt I by (simp add: hashTableUpsert_def Let_def)
  next
    case True
    let ?b' = "b1\<lparr>entries := entries b1 @ [\<lparr>he_key = k, he_value = v\<rparr>]\<rparr>"
    have t': "t' = (set_bucket t k ?b')\<lparr>itemCount := itemCount t + 1\<rparr>" "st = STATUS_SUCCESS" "h' = h1"
      using U f g True by (simp_all add: hashTableUpsert_def Let_def)
    have none: "lookup (entries ?b) k = None" using k by (simp add: table_of_def)
    have L: "lookup (entries ?b') x = lookup (entries ?b) x" if "x \<noteq> k" for x
      using that gt by (simp split: option.splits)
    have Lk: "lookup (entries ?b') k = Some v" using gt none by simp
    have B': "bucket_ok t (bucket_index t k) ?b'"
      using bucket_ok_at[OF I, of k] gt True none by (auto simp: bucket_ok_def lookup_None)
    have "finite (dom (table_of t))" "itemCount t = of_nat (card (dom (table_of t)))" "k \<notin> dom (table_of t)"
      using I k by (auto simp: ht_inv_def)
    then have n: "itemCount t + 1 = of_nat (card (dom ((table_of t)(k := lookup (entries ?b') k))))"
      unfolding Lk by simp
    have "ht_inv t'" using ht_inv_set[OF I B' L n] t' by simp
    moreover have "table_of t' = (table_of t)(k \<mapsto> v)" using table_of_set[OF I L] Lk t' by simp
    moreover have "live h' + int (blocks t) = live h + int (blocks t')"
    proof -
      have "grown t ?b' = grown t b1" by (simp add: grown_def)
      then show ?thesis using blocks_set[OF I, of k ?b'] gt True t' by simp
    qed
    ultimately show ?thesis using t' by simp
  qed
qed

section \<open>All calls\<close>

datatype ht_op = Upsert uint64 uint64 | Put uint64 uint64 | Remove uint64 | Get uint64 | Contains uint64 | GetCount | ClearAll

fun ht_exec :: "ht_op \<Rightarrow> hash_table \<times> heap \<Rightarrow> (STATUS \<times> uint64) \<times> hash_table \<times> heap" where
  "ht_exec (Upsert k v) (t, h) = (case hashTableUpsert t k v h of (st, c) \<Rightarrow> ((st, 0), c))"
| "ht_exec (Put k v) (t, h) = (case hashTablePut t k v h of (st, c) \<Rightarrow> ((st, 0), c))"
| "ht_exec (Remove k) (t, h) = (case hashTableRemove t k of (st, t1) \<Rightarrow> ((st, 0), t1, h))"
| "ht_exec (Get k) (t, h) = (hashTableGet t k, t, h)"
| "ht_exec (Contains k) (t, h) = (case hashTableContains t k of (st, b) \<Rightarrow> ((st, (if b then 1 else 0)), t, h))"
| "ht_exec GetCount (t, h) = (case hashTableGetCount t of (st, n) \<Rightarrow> ((st, ucast n), t, h))"
| "ht_exec ClearAll (t, h) = (case hashTableClear t of (st, t1) \<Rightarrow> ((st, 0), t1, h))"

text \<open>What a map allows each call to return, and the map after it.\<close>

fun ht_allows :: "ht_op \<Rightarrow> (uint64 \<Rightarrow> uint64 option) \<Rightarrow> STATUS \<times> uint64 \<Rightarrow> (uint64 \<Rightarrow> uint64 option) \<Rightarrow> bool" where
  "ht_allows (Upsert k v) m r m' \<longleftrightarrow>
     r = (STATUS_SUCCESS, 0) \<and> m' = m(k \<mapsto> v) \<or> m k = None \<and> r = (STATUS_NOT_ENOUGH_MEMORY, 0) \<and> m' = m"
| "ht_allows (Put k v) m r m' \<longleftrightarrow>
     (if m k \<noteq> None then r = (STATUS_HASH_KEY_ALREADY_PRESENT, 0) \<and> m' = m
      else r = (STATUS_SUCCESS, 0) \<and> m' = m(k \<mapsto> v) \<or> r = (STATUS_NOT_ENOUGH_MEMORY, 0) \<and> m' = m)"
| "ht_allows (Remove k) m r m' \<longleftrightarrow>
     r = ((if m k = None then STATUS_HASH_KEY_NOT_PRESENT else STATUS_SUCCESS), 0) \<and> m' = m(k := None)"
| "ht_allows (Get k) m r m' \<longleftrightarrow>
     r = (case m k of None \<Rightarrow> (STATUS_HASH_KEY_NOT_PRESENT, 0) | Some v \<Rightarrow> (STATUS_SUCCESS, v)) \<and> m' = m"
| "ht_allows (Contains k) m r m' \<longleftrightarrow> r = (STATUS_SUCCESS, (if m k = None then 0 else 1)) \<and> m' = m"
| "ht_allows GetCount m r m' \<longleftrightarrow> r = (STATUS_SUCCESS, of_nat (card (dom m))) \<and> m' = m"
| "ht_allows ClearAll m r m' \<longleftrightarrow> r = (STATUS_SUCCESS, 0) \<and> m' = Map.empty"

text \<open>The invariant, with the blocks beyond the \<open>base\<close> that were there before the table.\<close>

definition ht_ok :: "int \<Rightarrow> hash_table \<times> heap \<Rightarrow> bool" where
  "ht_ok base c \<longleftrightarrow> ht_inv (fst c) \<and> live (snd c) = base + int (blocks (fst c))"

definition ht_size :: "hash_table \<times> heap \<Rightarrow> nat" where
  "ht_size c = card (dom (table_of (fst c)))"

lemma ht_finite: "ht_inv t \<Longrightarrow> finite (dom (table_of t))"
  by (simp add: ht_inv_def)

lemma card_dom_upd: "finite (dom m) \<Longrightarrow> card (dom (m(k := x))) \<le> Suc (card (dom m))"
  by (cases x) (auto simp: card_insert_if intro: le_SucI card_mono order_trans[OF card_Diff1_le])

lemma upsert_step:
  assumes "ht_inv t" "card (dom (table_of t)) < 2 ^ 26" "hashTableUpsert t k v h = (st, t', h')"
  shows "ht_inv t' \<and> live h' + int (blocks t) = live h + int (blocks t') \<and>
    card (dom (table_of t')) \<le> Suc (card (dom (table_of t))) \<and>
    (st = STATUS_SUCCESS \<and> table_of t' = (table_of t)(k \<mapsto> v) \<or>
     table_of t k = None \<and> st = STATUS_NOT_ENOUGH_MEMORY \<and> t' = t)"
proof (cases "table_of t k")
  case None
  then show ?thesis
    using upsert_absent[OF assms(1) None assms(2,3)] card_dom_upd[OF ht_finite[OF assms(1)], of k "Some v"] by auto
next
  case (Some w)
  then show ?thesis
    using upsert_present[OF assms(1) Some, of v h] assms(3) card_dom_upd[OF ht_finite[OF assms(1)], of k "Some v"] by auto
qed

lemma clear_table:
  assumes "ht_inv t"
  shows "ht_inv (snd (hashTableClear t)) \<and> table_of (snd (hashTableClear t)) = Map.empty \<and>
    blocks (snd (hashTableClear t)) = blocks t"
proof -
  let ?t = "snd (hashTableClear t)"
  have b: "buckets ?t = map (\<lambda>b. b\<lparr>entries := []\<rparr>) (buckets t)" "bucketCount ?t = bucketCount t" "bucketLength ?t = bucketLength t"
    by (simp_all add: hashTableClear_def)
  have e: "table_of ?t = Map.empty"
    using index_less[of t] assms b by (auto simp: table_of_def getHashBucket_def bucket_index_def ht_inv_def fun_eq_iff)
  have "grown ?t (b\<lparr>entries := []\<rparr>) = grown t b" for b using b by (simp add: grown_def)
  then have "blocks ?t = blocks t" by (simp add: blocks_def b comp_def)
  moreover have "ht_inv ?t"
    using assms e b by (auto simp: ht_inv_def bucket_ok_def hashTableClear_def)
  ultimately show ?thesis using e by simp
qed

lemma ht_step:
  assumes "ht_ok base c" "ht_size c < 2 ^ 26" "ht_exec x c = (r, c')"
  shows "ht_ok base c' \<and> ht_size c' \<le> Suc (ht_size c) \<and> ht_allows x (table_of (fst c)) r (table_of (fst c'))"
proof -
  obtain t h where c: "c = (t, h)" by fastforce
  have I: "ht_inv t" and S: "card (dom (table_of t)) < 2 ^ 26" and M: "live h = base + int (blocks t)"
    using assms(1,2) by (simp_all add: c ht_ok_def ht_size_def)
  have U: "ht_ok base c1 \<and> ht_size c1 \<le> Suc (ht_size c) \<and> ht_allows (Upsert k v) (table_of t) (st, 0) (table_of (fst c1))"
    if "hashTableUpsert t k v h = (st, c1)" for k v st c1
    using upsert_step[OF I S, of k v h st "fst c1" "snd c1"] that M by (auto simp: ht_ok_def ht_size_def c)
  show ?thesis
  proof (cases x)
    case (Upsert k v)
    obtain st c1 where u: "hashTableUpsert t k v h = (st, c1)" by (metis prod.exhaust)
    then have "r = (st, 0)" "c' = c1" using Upsert assms(3) by (simp_all add: c)
    then show ?thesis using U[OF u] Upsert by (simp add: c)
  next
    case (Put k v)
    show ?thesis
    proof (cases "table_of t k")
      case None
      then have "hashTablePut t k v h = hashTableUpsert t k v h"
        by (simp add: hashTablePut_def contains_table domIff)
      moreover obtain st c1 where u: "hashTableUpsert t k v h = (st, c1)" by (metis prod.exhaust)
      ultimately have "r = (st, 0)" "c' = c1" using Put assms(3) by (simp_all add: c)
      then show ?thesis using U[OF u] Put None by (simp add: c)
    next
      case (Some w)
      then have "hashTablePut t k v h = (STATUS_HASH_KEY_ALREADY_PRESENT, t, h)"
        by (simp add: hashTablePut_def contains_table domI)
      then show ?thesis using Put assms Some by (auto simp: c)
    qed
  next
    case (Remove k)
    show ?thesis
    proof (cases "table_of t k")
      case None
      then show ?thesis using Remove assms remove_absent[OF None] by (auto simp: c)
    next
      case (Some w)
      then show ?thesis
        using Remove assms(3) remove_table[OF I Some] M card_dom_upd[OF ht_finite[OF I], of k None]
        by (auto simp: c ht_ok_def ht_size_def)
    qed
  next
    case (Get k)
    then show ?thesis using assms by (auto simp: c get_table split: option.splits)
  next
    case (Contains k)
    then show ?thesis using assms by (auto simp: c contains_table)
  next
    case GetCount
    have "ucast (itemCount t) = (of_nat (card (dom (table_of t))) :: uint64)"
      using I S by (simp add: ht_inv_def unsigned_of_nat take_bit_nat_eq_self)
    then show ?thesis using GetCount assms by (auto simp: c hashTableGetCount_def)
  next
    case ClearAll
    then show ?thesis using assms(3) clear_table[OF I] M
      by (auto simp: c ht_ok_def ht_size_def hashTableClear_def)
  qed
qed

interpretation ht: allowed ht_exec ht_allows "\<lambda>c. table_of (fst c)" "ht_ok base" ht_size "2 ^ 26" for base
  by unfold_locales (rule ht_step)

section \<open>Creation and release\<close>

lemma create_table:
  assumes "hashTableCreateWithParams bc bl h = Some (STATUS_SUCCESS, Some t, h1)"
  shows "ht_ok (live h) (t, h1) \<and> table_of t = Map.empty"
proof -
  have p: "16 \<le> bc" "0 < bl" and ok: "heap_calloc h = (True, h1)"
    and t: "t = \<lparr>itemCount = 0, bucketCount = bc, bucketLength = bl, buckets = replicate (unat bc) \<lparr>hb_length = bl, entries = []\<rparr>\<rparr>"
    using assms by (auto simp: hashTableCreateWithParams_def MIN_HASH_BUCKET_COUNT_def status_defs split: if_splits prod.splits)
  have "0 < bc" using p(1) by (auto simp: word_less_nat_alt word_le_nat_alt)
  moreover have "table_of t = Map.empty"
    using index_less[of t] \<open>0 < bc\<close> by (auto simp: table_of_def getHashBucket_def t fun_eq_iff)
  moreover have "blocks t = 1" by (simp add: blocks_def t grown_def sum_list_replicate)
  ultimately show ?thesis
    using p heap_calloc_live[OF ok] by (simp add: ht_ok_def ht_inv_def t bucket_ok_def)
qed

lemma fold_frees: "live (fold (\<lambda>b h. if P b then heap_free h else h) bs h) = live h - int (sum_list (map (\<lambda>b. if P b then 1 else 0) bs))"
  by (induction bs arbitrary: h) auto

lemma free_table:
  assumes "ht_ok base (t, h)"
  shows "live (snd (hashTableFree (Some t) h)) = base"
proof -
  have "blocks (snd (hashTableClear t)) = blocks t" using clear_table assms by (simp add: ht_ok_def)
  then show ?thesis
    using assms by (simp add: hashTableFree_def Let_def fold_frees ht_ok_def blocks_def grown_def[abs_def])
qed

text \<open>
  Which tables fit: the size does not wrap exactly when the bytes that are laid out are fewer than
  2^32; then a granted block is a table. The default table fits.
\<close>

lemma table_allocSize_wraps: "unat (table_allocSize bc bl) = table_needs bc bl mod 2 ^ 32"
  by (simp add: table_allocSize_def table_needs_def Let_def unat_word_ariths SIZEOF_HashEntry_def SIZEOF_HashBucket_def
      SIZEOF_HashTable_def mod_simps)

lemma wraps_iff: "n mod 2 ^ 32 < n \<longleftrightarrow> \<not> n < (2 ^ 32 :: nat)"
proof (cases "n < 2 ^ 32")
  case False
  have "n mod 2 ^ 32 < (2 ^ 32 :: nat)" by simp
  then show ?thesis using False by linarith
qed simp

lemma creates_iff_fits:
  assumes "16 \<le> bc" "0 < bl" "grant h (requests h)"
  shows "hashTableCreateWithParams bc bl h \<noteq> None \<longleftrightarrow> table_needs bc bl < 2 ^ 32"
proof -
  have "unat (table_allocSize bc bl) < table_needs bc bl \<longleftrightarrow> \<not> table_needs bc bl < 2 ^ 32"
    unfolding table_allocSize_wraps by (rule wraps_iff)
  then show ?thesis using assms
    by (auto simp: hashTableCreateWithParams_def MIN_HASH_BUCKET_COUNT_def heap_calloc_def Let_def)
qed

lemmas table_sizes = table_needs_def SIZEOF_HashEntry_def SIZEOF_HashBucket_def SIZEOF_HashTable_def

lemma default_table_fits: "table_needs DEFAULT_HASH_TABLE_BUCKET_COUNT DEFAULT_HASH_TABLE_BUCKET_LENGTH < 2 ^ 32"
  by (simp add: table_sizes DEFAULT_HASH_TABLE_BUCKET_COUNT_def DEFAULT_HASH_TABLE_BUCKET_LENGTH_def)

text \<open>
  A million buckets of 4096 entries ask for a block of 12 MiB and a bit: the entries, 64 GiB, wrap to nothing.
\<close>

lemma wrapped_table_overruns:
  "table_allocSize 0x100000 0x1000 = 0xC00010" "table_needs 0x100000 0x1000 = 0x1000C00010"
  "hashTableCreateWithParams 0x100000 0x1000 always_grant = None"
proof -
  show "table_allocSize 0x100000 0x1000 = 0xC00010"
    by (simp add: table_allocSize_def Let_def SIZEOF_HashEntry_def SIZEOF_HashBucket_def SIZEOF_HashTable_def)
  show n: "table_needs 0x100000 0x1000 = 0x1000C00010" by (simp add: table_sizes)
  show "hashTableCreateWithParams 0x100000 0x1000 always_grant = None"
    using creates_iff_fits[of "0x100000" "0x1000" always_grant] n
    by (simp add: always_grant_def del: split_paired_All split_paired_Ex not_None_eq)
qed



end
