(* ===== verification/Base64.thy ===== *)
theory Base64
  imports Kvs_Prelude
begin

text \<open>
  Base64 of \<open>components/kvs_utils/src/base64.c\<close>. Memory that is read is the list of its bytes
  from the pointer on; a read past its end has no result (\<open>None\<close>). What is written to the output
  buffer is returned, so that it can be compared with the capacity the caller gave. An output
  pointer that is NULL is the flag \<open>out\<close> being false; \<open>pOutputLength\<close> may be NULL.
\<close>

section \<open>The code\<close>

definition BASE64_ENCODE_ALPHA :: string where
  "BASE64_ENCODE_ALPHA = ''ABCDEFGHIJKLMNOPQRSTUVWXYZabcdefghijklmnopqrstuvwxyz0123456789+/''"

definition BASE64_DECODE_ALPHA :: "uint8 list" where
  "BASE64_DECODE_ALPHA =
    [0, 0, 0, 0, 0, 0, 0, 0, 0, 0,
     0, 0, 0, 0, 0, 0, 0, 0, 0, 0,
     0, 0, 0, 0, 0, 0, 0, 0, 0, 0,
     0, 0, 0, 0, 0, 0, 0, 0, 0, 0,
     0, 0, 0, 62, 0, 0, 0, 63, 52, 53,
     54, 55, 56, 57, 58, 59, 60, 61, 0, 0,
     0, 0, 0, 0, 0, 0, 1, 2, 3, 4,
     5, 6, 7, 8, 9, 10, 11, 12, 13, 14,
     15, 16, 17, 18, 19, 20, 21, 22, 23, 24,
     25, 0, 0, 0, 0, 0, 0, 26, 27, 28,
     29, 30, 31, 32, 33, 34, 35, 36, 37, 38,
     39, 40, 41, 42, 43, 44, 45, 46, 47, 48,
     49, 50, 51, 0, 0, 0, 0, 0, 0, 0] @ replicate 126 0"

definition BASE64_ENCODE_PADDING :: "nat list" where
  "BASE64_ENCODE_PADDING = [0, 2, 1]"

definition BASE64_DECODE_PADDING :: "nat list" where
  "BASE64_DECODE_PADDING = [0, 0xff, 2, 1]"

text \<open>One character of the output: the alphabet at a six-bit index.\<close>

definition alpha64 :: "uint8 \<Rightarrow> char" where
  "alpha64 i = BASE64_ENCODE_ALPHA ! unat i"

definition value64 :: "char \<Rightarrow> uint8" where
  "value64 c = BASE64_DECODE_ALPHA ! of_char c"

definition quad64 :: "uint8 \<Rightarrow> uint8 \<Rightarrow> uint8 \<Rightarrow> string" where
  "quad64 b0 b1 b2 =
     [alpha64 (drop_bit 2 b0), alpha64 (push_bit 4 (0x03 AND b0) + drop_bit 4 b1),
      alpha64 (push_bit 2 (0x0f AND b1) + drop_bit 6 b2), alpha64 (0x3f AND b2)]"

text \<open>The loop over the triads, with its counter; it returns what it wrote and what is left to read.\<close>

fun encode_triads :: "nat \<Rightarrow> nat \<Rightarrow> uint8 list \<Rightarrow> (string \<times> uint8 list) option" where
  "encode_triads i n (b0 # b1 # b2 # pInput) =
     (if i \<le> n - 3
      then map_option (\<lambda>(w, rest). (quad64 b0 b1 b2 @ w, rest)) (encode_triads (i + 3) n pInput)
      else Some ([], b0 # b1 # b2 # pInput))"
| "encode_triads i n pInput = (if i \<le> n - 3 then None else Some ([], pInput))"

definition encode_padding :: "nat \<Rightarrow> uint8 list \<Rightarrow> string option" where
  "encode_padding padding pInput =
     (if padding = 1
      then (case pInput of
              b0 # b1 # _ \<Rightarrow>
                Some [alpha64 (drop_bit 2 b0), alpha64 (push_bit 4 (0x03 AND b0) + drop_bit 4 b1),
                      alpha64 (push_bit 2 (0x0f AND b1)), CHR ''='']
            | _ \<Rightarrow> None)
      else if padding = 2
      then (case pInput of
              b0 # _ \<Rightarrow>
                Some [alpha64 (drop_bit 2 b0), alpha64 (push_bit 4 (0x03 AND b0)), CHR ''='', CHR ''='']
            | [] \<Rightarrow> None)
      else Some [])"

definition base64Encode ::
  "uint8 list option \<Rightarrow> uint32 \<Rightarrow> bool \<Rightarrow> uint32 option \<Rightarrow> (STATUS \<times> string \<times> uint32 option) option" where
  "base64Encode pInputData inputLength out pOutputLength =
     (case (pInputData, pOutputLength) of
        (Some pInput, Some capacity) \<Rightarrow>
          if inputLength = 0 then Some (STATUS_INVALID_ARG_LEN, [], pOutputLength)
          else
            let padding = BASE64_ENCODE_PADDING ! (unat inputLength mod 3);
                outputLength = 4 * (inputLength + of_nat padding) div 3 + 1
            in if \<not> out then Some (STATUS_SUCCESS, [], Some outputLength)
               else if capacity < outputLength then Some (STATUS_BUFFER_TOO_SMALL, [], pOutputLength)
               else (case (if 3 \<le> inputLength then encode_triads 0 (unat inputLength) pInput
                           else Some ([], pInput)) of
                       None \<Rightarrow> None
                     | Some (w, rest) \<Rightarrow>
                         map_option (\<lambda>p. (STATUS_SUCCESS, w @ p @ [CHR 0x00], Some outputLength))
                           (encode_padding padding rest))
      | _ \<Rightarrow> Some (STATUS_NULL_ARG, [], pOutputLength))"

fun decode_quads :: "nat \<Rightarrow> nat \<Rightarrow> string \<Rightarrow> (uint8 list \<times> string) option" where
  "decode_quads i n (c0 # c1 # c2 # c3 # pInput) =
     (if i \<le> n - 4
      then map_option (\<lambda>(w, rest).
             ((push_bit 2 (value64 c0) OR drop_bit 4 (value64 c1)) #
              (push_bit 4 (value64 c1) OR drop_bit 2 (value64 c2)) #
              (push_bit 6 (value64 c2) OR value64 c3) # w, rest))
             (decode_quads (i + 4) n pInput)
      else Some ([], c0 # c1 # c2 # c3 # pInput))"
| "decode_quads i n pInput = (if i \<le> n - 4 then None else Some ([], pInput))"

definition decode_padding :: "nat \<Rightarrow> string \<Rightarrow> uint8 list option" where
  "decode_padding padding pInput =
     (if padding = 1
      then (case pInput of
              c0 # c1 # c2 # _ \<Rightarrow>
                Some [push_bit 2 (value64 c0) OR drop_bit 4 (value64 c1),
                      push_bit 4 (value64 c1) OR drop_bit 2 (value64 c2)]
            | _ \<Rightarrow> None)
      else if padding = 2
      then (case pInput of
              c0 # c1 # _ \<Rightarrow> Some [push_bit 2 (value64 c0) OR drop_bit 4 (value64 c1)]
            | _ \<Rightarrow> None)
      else Some [])"

text \<open>\<open>STRLEN\<close> reads up to the NUL, which must be there.\<close>

definition STRLEN :: "string \<Rightarrow> nat option" where
  "STRLEN m = (if CHR 0x00 \<in> set m then Some (length (takeWhile (\<lambda>c. c \<noteq> CHR 0x00) m)) else None)"

text \<open>A caller that gives no length means the length of the string.\<close>

definition text_length :: "string \<Rightarrow> uint32 \<Rightarrow> uint32 option" where
  "text_length m inputLength =
     (if inputLength \<noteq> 0 then Some inputLength else map_option of_nat (STRLEN m))"

definition read_char :: "string \<Rightarrow> nat \<Rightarrow> char option" where
  "read_char m i = (if i < length m then Some (m ! i) else None)"

definition strip_pad :: "string \<Rightarrow> uint32 \<Rightarrow> uint32 option" where
  "strip_pad m n = map_option (\<lambda>c. if c = CHR ''='' then n - 1 else n) (read_char m (unat (n - 1)))"

definition base64Decode ::
  "string option \<Rightarrow> uint32 \<Rightarrow> bool \<Rightarrow> uint32 option \<Rightarrow> (STATUS \<times> uint8 list \<times> uint32 option) option" where
  "base64Decode pInputData inputLength out pOutputLength =
     (case (pInputData, pOutputLength) of
        (Some pInput, Some capacity) \<Rightarrow>
          (case text_length pInput inputLength of
             None \<Rightarrow> None
           | Some n0 \<Rightarrow>
               if n0 < 2 then Some (STATUS_INVALID_ARG_LEN, [], pOutputLength)
               else
                 (case Option.bind (strip_pad pInput n0) (strip_pad pInput) of
                    None \<Rightarrow> None
                  | Some n \<Rightarrow>
                      let padding = BASE64_DECODE_PADDING ! (unat n mod 4)
                      in if padding = 0xff then Some (STATUS_INVALID_BASE64_ENCODE, [], pOutputLength)
                         else
                           let outputLength = 3 * n div 4
                           in if \<not> out then Some (STATUS_SUCCESS, [], Some outputLength)
                              else if capacity < outputLength
                              then Some (STATUS_BUFFER_TOO_SMALL, [], pOutputLength)
                              else (case (if 4 \<le> n then decode_quads 0 (unat n) pInput
                                          else Some ([], pInput)) of
                                      None \<Rightarrow> None
                                    | Some (w, rest) \<Rightarrow>
                                        map_option (\<lambda>p. (STATUS_SUCCESS, w @ p, Some outputLength))
                                          (decode_padding padding rest))))
      | _ \<Rightarrow> Some (STATUS_NULL_ARG, [], pOutputLength))"

section \<open>The two alphabets\<close>

lemma value64_alpha64_all: "\<forall>i\<in>set [0..<64]. value64 (BASE64_ENCODE_ALPHA ! i) = of_nat i"
  by (simp add: value64_def BASE64_ENCODE_ALPHA_def BASE64_DECODE_ALPHA_def upt_rec)

lemma alpha64_not_special_all:
  "\<forall>i\<in>set [0..<64]. BASE64_ENCODE_ALPHA ! i \<noteq> CHR ''='' \<and> BASE64_ENCODE_ALPHA ! i \<noteq> CHR 0x00"
  by (simp add: BASE64_ENCODE_ALPHA_def upt_rec)

lemma value64_alpha64: "i < 64 \<Longrightarrow> value64 (alpha64 i) = i"
  using value64_alpha64_all by (simp add: alpha64_def word_less_nat_alt)

lemma alpha64_not_special: "i < 64 \<Longrightarrow> alpha64 i \<noteq> CHR ''='' \<and> alpha64 i \<noteq> CHR 0x00"
  using alpha64_not_special_all by (simp add: alpha64_def word_less_nat_alt)

section \<open>The round trip\<close>

text \<open>
  What Base64 promises: decoding what was encoded gives the data back, and neither direction writes
  past the buffer the caller declared, for inputs below a gigabyte.
\<close>

section \<open>Six bits\<close>

lemma masks: "(0x03 :: uint8) = mask 2" "(0x0f :: uint8) = mask 4" "(0x3f :: uint8) = mask 6"
  by (simp_all add: mask_eq_exp_minus_1)

lemma byte_out [simp]: "8 \<le> i \<Longrightarrow> \<not> bit (x :: uint8) i"
  using bit_imp_le_length[of x i] by auto

lemma byte_eqI:
  assumes "bit a 0 = bit b 0" "bit a 1 = bit b 1" "bit a 2 = bit b 2" "bit a 3 = bit b 3"
    "bit a 4 = bit b 4" "bit a 5 = bit b 5" "bit a 6 = bit b 6" "bit a 7 = bit b 7"
  shows "(a :: uint8) = b"
proof (rule bit_word_eqI)
  fix n assume "n < LENGTH(8)"
  then have "n \<in> {0, 1, 2, 3, 4, 5, 6, 7}" by auto
  then show "bit a n = bit b n" using assms by auto
qed

lemma six_bits:
  assumes "\<not> bit x 6" "\<not> bit x 7"
  shows "(x :: uint8) < 64"
proof -
  have "x = take_bit 6 x" by (rule byte_eqI) (use assms in \<open>simp_all add: bit_take_bit_iff\<close>)
  then have "unat x = take_bit 6 (unat x)" by (metis unsigned_take_bit_eq)
  then have "unat x < 64" by (simp add: take_bit_eq_mod)
  then show ?thesis by (simp add: word_less_nat_alt)
qed

lemma plus_or:
  "push_bit 4 (0x03 AND b0) + drop_bit 4 b1 = (push_bit 4 (0x03 AND b0) OR drop_bit 4 b1 :: uint8)"
  "push_bit 2 (0x0f AND b1) + drop_bit 6 b2 = (push_bit 2 (0x0f AND b1) OR drop_bit 6 b2 :: uint8)"
  unfolding masks
  by (rule disjunctive_add_eq_or; rule byte_eqI; simp add: bit_simps)+

lemma indexes:
  "drop_bit 2 (b0 :: uint8) < 64"
  "push_bit 4 (0x03 AND b0) + drop_bit 4 b1 < (64 :: uint8)"
  "push_bit 4 (0x03 AND b0) < (64 :: uint8)"
  "push_bit 2 (0x0f AND b1) + drop_bit 6 b2 < (64 :: uint8)"
  "push_bit 2 (0x0f AND b1) < (64 :: uint8)"
  "0x3f AND b2 < (64 :: uint8)"
  by ((unfold plus_or)?; (unfold masks)?; rule six_bits; simp add: bit_simps)+

lemma bytes_back:
  "push_bit 2 (drop_bit 2 b0) OR drop_bit 4 (push_bit 4 (0x03 AND b0) + drop_bit 4 b1) = (b0 :: uint8)"
  "push_bit 2 (drop_bit 2 b0) OR drop_bit 4 (push_bit 4 (0x03 AND b0)) = (b0 :: uint8)"
  "push_bit 4 (push_bit 4 (0x03 AND b0) + drop_bit 4 b1) OR drop_bit 2 (push_bit 2 (0x0f AND b1) + drop_bit 6 b2) = (b1 :: uint8)"
  "push_bit 4 (push_bit 4 (0x03 AND b0) + drop_bit 4 b1) OR drop_bit 2 (push_bit 2 (0x0f AND b1)) = (b1 :: uint8)"
  "push_bit 6 (push_bit 2 (0x0f AND b1) + drop_bit 6 b2) OR (0x3f AND b2) = (b2 :: uint8)"
  by ((unfold plus_or)?; (unfold masks)?; rule byte_eqI; simp add: bit_simps)+

section \<open>The loops as functions of the data\<close>

declare push_bit_and [simp del]

fun chars64 :: "uint8 list \<Rightarrow> string" where
  "chars64 (b0 # b1 # b2 # d) = quad64 b0 b1 b2 @ chars64 d"
| "chars64 [b0, b1] =
     [alpha64 (drop_bit 2 b0), alpha64 (push_bit 4 (0x03 AND b0) + drop_bit 4 b1), alpha64 (push_bit 2 (0x0f AND b1))]"
| "chars64 [b0] = [alpha64 (drop_bit 2 b0), alpha64 (push_bit 4 (0x03 AND b0))]"
| "chars64 [] = []"

definition pad64 :: "nat \<Rightarrow> nat" where
  "pad64 n = BASE64_ENCODE_PADDING ! (n mod 3)"

fun triads :: "'a list \<Rightarrow> 'a list" where
  "triads (a # b # c # d) = a # b # c # triads d"
| "triads d = []"

fun after_triads :: "'a list \<Rightarrow> 'a list" where
  "after_triads (a # b # c # d) = after_triads d"
| "after_triads d = d"

lemma triads_append: "triads d @ after_triads d = d"
  by (induction d rule: triads.induct) simp_all

lemma chars64_split: "chars64 d = chars64 (triads d) @ chars64 (after_triads d)"
  by (induction d rule: chars64.induct) simp_all

lemma length_after_triads: "length (after_triads d) = length d mod 3"
  by (induction d rule: after_triads.induct) (simp_all add: mod_if)

lemma length_triads: "length (triads d) = 3 * (length d div 3)"
  using arg_cong[OF triads_append[of d], of length] length_after_triads[of d]
  by (simp add: minus_mod_eq_mult_div[symmetric])

lemma after_triads_cases: "after_triads d = [] \<or> (\<exists>a. after_triads d = [a]) \<or> (\<exists>a b. after_triads d = [a, b])"
  by (induction d rule: after_triads.induct) simp_all

lemma pad64_cases:
  obtains "after_triads d = []" "pad64 (length d) = 0"
  | a where "after_triads d = [a]" "pad64 (length d) = 2"
  | a b where "after_triads d = [a, b]" "pad64 (length d) = 1"
  using after_triads_cases[of d] length_after_triads[of d]
  by (auto simp: pad64_def BASE64_ENCODE_PADDING_def)

lemma length_chars64: "length (chars64 d) = (4 * length d + 2) div 3"
  by (induction d rule: chars64.induct) (simp_all add: quad64_def)

lemma length_chars64_triads: "length (chars64 (triads d)) = 4 * (length d div 3)"
  by (simp add: length_chars64 length_triads)

lemma chars64_not_special: "c \<in> set (chars64 d) \<Longrightarrow> c \<noteq> CHR ''='' \<and> c \<noteq> CHR 0x00"
  by (induction d rule: chars64.induct)
    (auto simp: quad64_def alpha64_not_special indexes)

lemma encode_triads_stop: "\<not> i \<le> n - 3 \<Longrightarrow> encode_triads i n m = Some ([], m)"
  by (cases "(i, n, m)" rule: encode_triads.cases) simp_all

lemma encode_triads_data:
  "3 \<le> n \<Longrightarrow> n = i + length d \<Longrightarrow>
   encode_triads i n (d @ extra) = Some (chars64 (triads d), after_triads d @ extra)"
proof (induction d arbitrary: i rule: triads.induct)
  case (1 a b c d)
  from "1.IH"[of "i + 3"] "1.prems" show ?case by simp
qed (simp_all add: encode_triads_stop)

lemma encode_padding_data:
  "encode_padding (pad64 (length d)) (after_triads d @ extra) =
     Some (chars64 (after_triads d) @ replicate (pad64 (length d)) (CHR ''=''))"
  by (rule pad64_cases[of d]) (simp_all add: encode_padding_def numeral_2_eq_2)

lemma decode_quads_stop: "\<not> i \<le> n - 4 \<Longrightarrow> decode_quads i n m = Some ([], m)"
  by (cases "(i, n, m)" rule: decode_quads.cases) simp_all

lemma value64_chars [simp]:
  "value64 (alpha64 (drop_bit 2 b0)) = drop_bit 2 b0"
  "value64 (alpha64 (push_bit 4 (0x03 AND b0) + drop_bit 4 b1)) = push_bit 4 (0x03 AND b0) + drop_bit 4 b1"
  "value64 (alpha64 (push_bit 4 (0x03 AND b0))) = push_bit 4 (0x03 AND b0)"
  "value64 (alpha64 (push_bit 2 (0x0f AND b1) + drop_bit 6 b2)) = push_bit 2 (0x0f AND b1) + drop_bit 6 b2"
  "value64 (alpha64 (push_bit 2 (0x0f AND b1))) = push_bit 2 (0x0f AND b1)"
  "value64 (alpha64 (0x3f AND b2)) = 0x3f AND b2"
  by (rule value64_alpha64, rule indexes)+

lemma decode_quads_data:
  "4 \<le> n \<Longrightarrow> n = i + length (chars64 d) \<Longrightarrow>
   decode_quads i n (chars64 d @ extra) = Some (triads d, chars64 (after_triads d) @ extra)"
proof (induction d arbitrary: i rule: triads.induct)
  case (1 a b c d)
  from "1.IH"[of "i + 4"] "1.prems" show ?case
    by (simp add: quad64_def value64_chars bytes_back)
qed (simp_all add: decode_quads_stop)

lemma decode_padding_data:
  "decode_padding (pad64 (length d)) (chars64 (after_triads d) @ extra) = Some (after_triads d)"
  by (rule pad64_cases[of d]) (simp_all add: decode_padding_def bytes_back)

section \<open>The round trip\<close>

text \<open>The text of some data: its characters and the padding.\<close>

definition text64 :: "uint8 list \<Rightarrow> string" where
  "text64 d = chars64 d @ replicate (pad64 (length d)) (CHR ''='')"

lemma length_plus_pad: "n + pad64 n = 3 * ((n + 2) div 3)"
proof -
  obtain q r where n: "n = 3 * q + r" "r < 3" by (metis mult.commute div_mult_mod_eq mod_less_divisor zero_less_numeral)
  then have "n mod 3 = r" by simp
  moreover from n have "(n + 2) div 3 = q + (r + 2) div 3" by simp
  moreover from n(2) have "r = 0 \<or> r = 1 \<or> r = 2" by auto
  ultimately show ?thesis using n by (auto simp: pad64_def BASE64_ENCODE_PADDING_def)
qed

lemma length_text64: "length (text64 d) = 4 * ((length d + 2) div 3)"
proof -
  have "length d = 3 * (length d div 3) + length (after_triads d)" by (simp add: length_after_triads)
  moreover have "length (text64 d) = 4 * (length d div 3) + length (chars64 (after_triads d)) + pad64 (length d)"
    using arg_cong[OF chars64_split[of d], of length] by (simp add: text64_def length_chars64_triads)
  ultimately have "3 * length (text64 d) = 4 * (length d + pad64 (length d))"
    by (cases rule: pad64_cases[of d]) simp_all
  then show ?thesis by (simp add: length_plus_pad)
qed

lemma unat_small: "n < 2 ^ 32 \<Longrightarrow> unat (of_nat n :: uint32) = n"
  by (simp add: unat_of_nat)

lemma encoded_length:
  assumes "n + 2 < 2 ^ 30"
  shows "unat (4 * (of_nat n + of_nat (pad64 n)) div 3 + 1 :: uint32) = 4 * ((n + 2) div 3) + 1"
proof -
  let ?k = "(n + 2) div 3"
  have k: "12 * ?k < 2 ^ 32" using assms by simp
  have "of_nat n + of_nat (pad64 n) = (of_nat (3 * ?k) :: uint32)" by (metis length_plus_pad of_nat_add)
  then have "4 * (of_nat n + of_nat (pad64 n)) = (of_nat (12 * ?k) :: uint32)" by simp
  then have "unat (4 * (of_nat n + of_nat (pad64 n)) div 3 :: uint32) = 4 * ?k"
    using k by (simp only: unat_div unat_small) simp
  moreover have "4 * ?k + 1 < 2 ^ 32" using assms by simp
  ultimately show ?thesis by (simp add: unat_word_ariths del: unat_div)
qed

lemma encode_text64:
  assumes "d \<noteq> []" "length d + 2 < 2 ^ 30" "length (text64 d) < unat capacity"
  shows "\<exists>l. base64Encode (Some (d @ extra)) (of_nat (length d)) True (Some capacity) =
               Some (STATUS_SUCCESS, text64 d @ [CHR 0x00], Some l) \<and> unat l = Suc (length (text64 d))"
proof -
  let ?n = "of_nat (length d) :: uint32"
  have n: "unat ?n = length d" using assms(2) by (simp add: unat_small)
  have n0: "?n \<noteq> 0" using n assms(1) by (metis length_0_conv unat_0)
  let ?l = "4 * (?n + of_nat (pad64 (length d))) div 3 + 1 :: uint32"
  have l: "unat ?l = Suc (length (text64 d))" using encoded_length[OF assms(2)] by (simp add: length_text64)
  have cap: "\<not> capacity < ?l" using l assms(3) by (simp add: word_less_nat_alt)
  have three: "3 \<le> ?n \<longleftrightarrow> 3 \<le> length d" using n by (simp add: word_le_nat_alt)
  have pad: "BASE64_ENCODE_PADDING ! (length d mod 3) = pad64 (length d)" by (simp add: pad64_def)
  show ?thesis
  proof (cases "3 \<le> length d")
    case True
    then have "encode_triads 0 (length d) (d @ extra) = Some (chars64 (triads d), after_triads d @ extra)"
      by (rule encode_triads_data) simp
    then show ?thesis using True three n0 cap l
      by (simp add: base64Encode_def Let_def n pad encode_padding_data text64_def chars64_split[of d])
  next
    case False
    then have "after_triads d = d" by (cases d rule: triads.cases) simp_all
    then have "encode_padding (pad64 (length d)) (d @ extra) = Some (text64 d)"
      using encode_padding_data[of d extra] by (simp add: text64_def)
    moreover have "BASE64_ENCODE_PADDING ! length d = pad64 (length d)" using False pad by simp
    ultimately show ?thesis using False three n0 cap l
      by (simp add: base64Encode_def Let_def n)
  qed
qed

lemma strip_pad_eq:
  "Suc (length a) < 2 ^ 32 \<Longrightarrow>
   strip_pad (a @ c # x) (of_nat (Suc (length a))) =
     Some (if c = CHR ''='' then of_nat (length a) else of_nat (Suc (length a)))"
  by (simp add: strip_pad_def read_char_def unat_of_nat)

lemma strip_text64:
  assumes "d \<noteq> []" "length (text64 d) < 2 ^ 32"
  shows "Option.bind (strip_pad (text64 d @ x) (of_nat (length (text64 d)))) (strip_pad (text64 d @ x)) =
           Some (of_nat (length (chars64 d)))"
proof -
  have "chars64 d \<noteq> []" using assms(1) by (cases d rule: chars64.cases) (simp_all add: quad64_def)
  then obtain a c where ac: "chars64 d = a @ [c]" by (metis rev_exhaust)
  then have c: "c \<noteq> CHR ''=''" using chars64_not_special[of c d] by simp
  have small: "Suc (Suc (Suc (length a))) < 2 ^ 32 \<or> pad64 (length d) \<noteq> 2"
    "Suc (Suc (length a)) < 2 ^ 32 \<or> pad64 (length d) \<noteq> 1" "Suc (length a) < 2 ^ 32"
    using assms(2) ac by (auto simp: text64_def)
  have last: "strip_pad (a @ c # y) (of_nat (Suc (length a))) = Some (of_nat (Suc (length a)))" for y
    using strip_pad_eq[OF small(3), of c y] c by simp
  show ?thesis
  proof (rule pad64_cases[of d])
    assume "pad64 (length d) = 0"
    then show ?thesis using last[of x] by (simp add: text64_def ac)
  next
    assume p: "pad64 (length d) = 2"
    have "strip_pad ((a @ [c, CHR ''='']) @ CHR ''='' # x) (of_nat (Suc (length (a @ [c, CHR ''=''])))) =
        Some (of_nat (length (a @ [c, CHR ''=''])))"
      by (subst strip_pad_eq) (use small(1) p in simp_all)
    moreover have "strip_pad ((a @ [c]) @ CHR ''='' # CHR ''='' # x) (of_nat (Suc (length (a @ [c])))) =
        Some (of_nat (length (a @ [c])))"
      by (subst strip_pad_eq) (use small(1) p in simp_all)
    ultimately show ?thesis using p by (simp add: text64_def ac numeral_2_eq_2)
  next
    assume p: "pad64 (length d) = 1"
    have "strip_pad ((a @ [c]) @ CHR ''='' # x) (of_nat (Suc (length (a @ [c])))) =
        Some (of_nat (length (a @ [c])))"
      by (subst strip_pad_eq) (use small(2) p in simp_all)
    then show ?thesis using p last[of "CHR ''='' # x"] by (simp add: text64_def ac)
  qed
qed

lemma base64Decode_run:
  assumes "text_length m inputLength = Some n0" "\<not> n0 < 2"
    "Option.bind (strip_pad m n0) (strip_pad m) = Some n"
    "BASE64_DECODE_PADDING ! (unat n mod 4) = p" "p \<noteq> 0xff" "3 * n div 4 = l" "\<not> capacity < l"
    "(if 4 \<le> n then decode_quads 0 (unat n) m else Some ([], m)) = Some (w, rest)"
    "decode_padding p rest = Some v"
  shows "base64Decode (Some m) inputLength True (Some capacity) = Some (STATUS_SUCCESS, w @ v, Some l)"
  unfolding base64Decode_def by (simp only: assms Let_def prod.case option.case if_False if_True simp_thms option.map)

lemma decode_text64:
  assumes "d \<noteq> []" "length d + 2 < 2 ^ 30" "length d \<le> unat capacity"
    and "text_length (text64 d @ x) inputLength = Some (of_nat (length (text64 d)))"
  shows "base64Decode (Some (text64 d @ x)) inputLength True (Some capacity) =
           Some (STATUS_SUCCESS, d, Some (of_nat (length d)))"
proof -
  let ?c = "length (chars64 d)"
  have small: "length (text64 d) < 2 ^ 32" using assms(2) by (simp add: length_text64)
  have "?c \<le> length (text64 d)" by (simp add: text64_def)
  then have n: "unat (of_nat ?c :: uint32) = ?c" using small by (simp add: unat_small)
  have "0 < length d" using assms(1) by simp
  then have "1 \<le> (length d + 2) div 3" by presburger
  then have "2 \<le> length (text64 d)" by (simp add: length_text64)
  then have n0: "\<not> (of_nat (length (text64 d)) :: uint32) < 2"
    using small by (simp add: word_less_nat_alt unat_small)
  have c3: "3 * ?c < 2 ^ 32" "3 * ?c div 4 = length d" using assms(2) by (simp_all add: length_chars64)
  have l: "3 * of_nat ?c div 4 = (of_nat (length d) :: uint32)"
  proof (rule word_unat_eq_iff[THEN iffD2])
    have "unat (3 * of_nat ?c :: uint32) = 3 * ?c"
      using unat_small[OF c3(1)] by simp
    then have "unat (3 * of_nat ?c div 4 :: uint32) = 3 * ?c div 4" by (simp add: unat_div)
    then show "unat (3 * of_nat ?c div 4 :: uint32) = unat (of_nat (length d) :: uint32)"
      using c3(2) assms(2) by (simp add: unat_small)
  qed
  have cap: "\<not> capacity < of_nat (length d)" using assms(2,3) by (simp add: word_less_nat_alt unat_small)
  have pad: "BASE64_DECODE_PADDING ! (?c mod 4) = pad64 (length d) \<and> pad64 (length d) \<noteq> 0xff"
    by (rule pad64_cases[of d])
      (use length_after_triads[of d] in
        \<open>auto simp: chars64_split[of d] length_chars64_triads BASE64_DECODE_PADDING_def\<close>)
  have four: "4 \<le> (of_nat ?c :: uint32) \<longleftrightarrow> 4 \<le> ?c" using n by (simp add: word_le_nat_alt)
  let ?y = "replicate (pad64 (length d)) (CHR ''='') @ x"
  have mem: "text64 d @ x = chars64 d @ ?y" by (simp add: text64_def)
  have loop: "(if 4 \<le> (of_nat ?c :: uint32) then decode_quads 0 (unat (of_nat ?c :: uint32)) (text64 d @ x)
       else Some ([], text64 d @ x)) =
      Some (triads d, chars64 (after_triads d) @ ?y)"
  proof (cases "4 \<le> ?c")
    case True
    then have "decode_quads 0 ?c (chars64 d @ ?y) = Some (triads d, chars64 (after_triads d) @ ?y)"
      by (rule decode_quads_data) simp
    then show ?thesis using True by (simp only: four n mem if_True)
  next
    case False
    then have "after_triads d = d" "triads d = []"
      using length_chars64[of d] by (cases d rule: triads.cases; simp)+
    then show ?thesis using False by (simp only: four mem if_False)
  qed
  show ?thesis
    using base64Decode_run[OF assms(4) n0 strip_text64[OF assms(1) small] _ _ l cap loop decode_padding_data]
      pad n triads_append[of d] by simp
qed

text \<open>
  C34: Data of less than a gigabyte that is encoded into a large enough buffer gives a string that,
  decoded with its length or up to its terminator, whatever follows in memory, is the data again.
\<close>
theorem base64_roundtrip:
  assumes "d \<noteq> []" "length d + 2 < 2 ^ 30" "4 * ((length d + 2) div 3) < unat room" "length d \<le> unat room'"
  shows "\<exists>t l. base64Encode (Some (d @ beyond)) (of_nat (length d)) True (Some room) =
                  Some (STATUS_SUCCESS, t @ [CHR 0x00], Some l) \<and>
               unat l = length t + 1 \<and> CHR 0x00 \<notin> set t \<and>
               (\<forall>x. base64Decode (Some (t @ CHR 0x00 # x)) 0 True (Some room') =
                       Some (STATUS_SUCCESS, d, Some (of_nat (length d)))) \<and>
               (\<forall>x. base64Decode (Some (t @ x)) (l - 1) True (Some room') =
                       Some (STATUS_SUCCESS, d, Some (of_nat (length d))))"
proof -
  let ?t = "text64 d"
  have small: "length ?t < 2 ^ 32" "Suc (length ?t) < 2 ^ 32" using assms(2) by (simp_all add: length_text64)
  obtain l where l: "base64Encode (Some (d @ beyond)) (of_nat (length d)) True (Some room) =
      Some (STATUS_SUCCESS, ?t @ [CHR 0x00], Some l)" "unat l = Suc (length ?t)"
    using encode_text64[OF assms(1,2)] assms(3) unfolding length_text64[symmetric] by blast
  have nul: "CHR 0x00 \<notin> set ?t" using chars64_not_special[of _ d] by (auto simp: text64_def)
  have len: "text_length (?t @ CHR 0x00 # x) 0 = Some (of_nat (length ?t))" for x
  proof -
    have "takeWhile (\<lambda>c. c \<noteq> CHR 0x00) (?t @ CHR 0x00 # x) = ?t" using nul by (subst takeWhile_append2) auto
    then show ?thesis by (simp add: text_length_def STRLEN_def)
  qed
  have "l = of_nat (Suc (length ?t))" by (rule word_unat_eq_iff[THEN iffD2]) (simp only: l(2) unat_small[OF small(2)])
  then have l1: "l - 1 = of_nat (length ?t)" by simp
  have "0 < length d" using assms(1) by simp
  then have "1 \<le> (length d + 2) div 3" by presburger
  then have "0 < length ?t" by (simp add: length_text64)
  then have "unat (of_nat (length ?t) :: uint32) \<noteq> 0" by (simp only: unat_small[OF small(1)])
  then have "text_length (?t @ x) (l - 1) = Some (of_nat (length ?t))" for x
    unfolding text_length_def l1 by (metis unat_0)
  then show ?thesis using l nul decode_text64[OF assms(1,2,4)] len by fastforce
qed

theorem base64_roundtrip_witness:
  "\<exists>t l. base64Encode (Some [0x4d, 0x61, 0x6e, 0xff]) 4 True (Some 9) = Some (STATUS_SUCCESS, t @ [CHR 0x00], Some l) \<and>
     base64Decode (Some (t @ CHR 0x00 # ''x'')) 0 True (Some 4) =
       Some (STATUS_SUCCESS, [0x4d, 0x61, 0x6e, 0xff], Some 4)"
  using base64_roundtrip[of "[0x4d, 0x61, 0x6e, 0xff]" 9 4 "[]"] by auto

section \<open>Within the buffers\<close>

lemma encode_triads_bounds:
  "3 \<le> n \<Longrightarrow> i \<le> n \<Longrightarrow> n - i \<le> length m \<Longrightarrow>
   \<exists>w. encode_triads i n m = Some (w, drop (3 * ((n - i) div 3)) m) \<and> length w = 4 * ((n - i) div 3)"
proof (induction "n - i" arbitrary: i m rule: less_induct)
  case less
  show ?case
  proof (cases "i \<le> n - 3")
    case True
    then have e: "n - i = n - (i + 3) + 3" and "3 \<le> length m" using less.prems by simp_all
    from e have k: "(n - i) div 3 = Suc ((n - (i + 3)) div 3)" by (metis div_add_self2 Suc_eq_plus1 zero_neq_numeral)
    from \<open>3 \<le> length m\<close> obtain b0 b1 b2 m' where m: "m = b0 # b1 # b2 # m'" by (auto simp: Suc_le_length_iff numeral_3_eq_3)
    have "n - (i + 3) < n - i" "i + 3 \<le> n" "n - (i + 3) \<le> length m'" using True less.prems m by simp_all
    from less.hyps[OF this(1) less.prems(1) this(2,3)] show ?thesis using True k m
      by (auto simp: quad64_def drop_Cons' add.commute[of _ 3])
  next
    case False
    then have "(n - i) div 3 = 0" using less.prems(1) by simp
    with False show ?thesis by (simp add: encode_triads_stop)
  qed
qed

lemma decode_quads_bounds:
  "4 \<le> n \<Longrightarrow> i \<le> n \<Longrightarrow> n - i \<le> length m \<Longrightarrow>
   \<exists>w. decode_quads i n m = Some (w, drop (4 * ((n - i) div 4)) m) \<and> length w = 3 * ((n - i) div 4)"
proof (induction "n - i" arbitrary: i m rule: less_induct)
  case less
  show ?case
  proof (cases "i \<le> n - 4")
    case True
    then have e: "n - i = n - (i + 4) + 4" and "4 \<le> length m" using less.prems by simp_all
    from e have k: "(n - i) div 4 = Suc ((n - (i + 4)) div 4)" by (metis div_add_self2 Suc_eq_plus1 zero_neq_numeral)
    from \<open>4 \<le> length m\<close> obtain c0 c1 c2 c3 m' where m: "m = c0 # c1 # c2 # c3 # m'" by (auto simp: Suc_le_length_iff numeral_eq_Suc)
    have "n - (i + 4) < n - i" "i + 4 \<le> n" "n - (i + 4) \<le> length m'" using True less.prems m by simp_all
    from less.hyps[OF this(1) less.prems(1) this(2,3)] show ?thesis using True k m by (auto simp: drop_Cons')
  next
    case False
    then have "(n - i) div 4 = 0" using less.prems(1) by simp
    with False show ?thesis by (simp add: decode_quads_stop)
  qed
qed

lemma strip_pad_bounds:
  "n \<noteq> 0 \<Longrightarrow> unat n \<le> length m \<Longrightarrow> \<exists>n'. strip_pad m n = Some n' \<and> (n' = n \<or> n' = n - 1)"
  using unat_gt_0[of n] by (auto simp: strip_pad_def read_char_def unat_minus_one)

lemma strip_both_bounds:
  assumes "\<not> n < (2 :: uint32)" "unat n \<le> length m"
  shows "\<exists>n'. Option.bind (strip_pad m n) (strip_pad m) = Some n' \<and> unat n' \<le> unat n"
proof -
  have n: "2 \<le> unat n" using assms(1) by (simp add: word_less_nat_alt)
  then have "n \<noteq> 0" by auto
  then obtain n1 where n1: "strip_pad m n = Some n1" "n1 = n \<or> n1 = n - 1"
    using strip_pad_bounds assms(2) by blast
  with n \<open>n \<noteq> 0\<close> have u: "1 \<le> unat n1" "unat n1 \<le> unat n" by (auto simp: unat_minus_one)
  then have "n1 \<noteq> 0" by auto
  then obtain n2 where "strip_pad m n1 = Some n2" "n2 = n1 \<or> n2 = n1 - 1"
    using strip_pad_bounds u assms(2) by (metis order_trans)
  then show ?thesis using n1(1) u \<open>n1 \<noteq> 0\<close> by (auto simp: unat_minus_one)
qed

lemma decoded_length:
  assumes "unat (n :: uint32) < 2 ^ 30"
  shows "unat (3 * n div 4) = 3 * unat n div 4"
proof -
  have "unat (3 * n) = 3 * unat n" using assms by (simp add: unat_word_ariths)
  then show ?thesis by (simp add: unat_div)
qed

text \<open>What the loop and the rest of a decoding write is what the length computation says.\<close>

lemma decode_writes:
  assumes "n \<le> length m" "BASE64_DECODE_PADDING ! (n mod 4) \<noteq> 0xff"
  shows "\<exists>w rest v. (if 4 \<le> n then decode_quads 0 n m else Some ([], m)) = Some (w, rest) \<and>
           decode_padding (BASE64_DECODE_PADDING ! (n mod 4)) rest = Some v \<and> length w + length v = 3 * n div 4"
proof -
  let ?rest = "drop (4 * (n div 4)) m"
  obtain w where w: "(if 4 \<le> n then decode_quads 0 n m else Some ([], m)) = Some (w, ?rest)" "length w = 3 * (n div 4)"
    using decode_quads_bounds[of n 0 m] assms(1) by (cases "4 \<le> n") auto
  have r: "n mod 4 \<le> length ?rest" using assms(1) by (simp add: minus_mult_div_eq_mod[symmetric] diff_le_mono)
  have "\<exists>v. decode_padding (BASE64_DECODE_PADDING ! k) r = Some v \<and> length v = 3 * k div 4"
    if "k < 4" "BASE64_DECODE_PADDING ! k \<noteq> 0xff" "k \<le> length r" for k r
  proof -
    from that(1) consider "k = 0" | "k = 1" | "k = 2" | "k = 3" by linarith
    then show ?thesis
    proof cases
      case 3
      with that(3) obtain a b r' where "r = a # b # r'" by (auto simp: Suc_le_length_iff numeral_2_eq_2)
      with 3 show ?thesis by (simp add: BASE64_DECODE_PADDING_def decode_padding_def)
    next
      case 4
      with that(3) obtain a b c r' where "r = a # b # c # r'" by (auto simp: Suc_le_length_iff numeral_3_eq_3)
      with 4 show ?thesis by (simp add: BASE64_DECODE_PADDING_def decode_padding_def)
    qed (use that(2) in \<open>simp_all add: BASE64_DECODE_PADDING_def decode_padding_def\<close>)
  qed
  from this[OF _ assms(2) r] obtain v where
    "decode_padding (BASE64_DECODE_PADDING ! (n mod 4)) ?rest = Some v" "length v = 3 * (n mod 4) div 4" by auto
  moreover have "3 * n = 3 * (n mod 4) + 3 * (n div 4) * 4" using mult_div_mod_eq[of 4 n] by linarith
  then have "3 * n div 4 = 3 * (n div 4) + 3 * (n mod 4) div 4"
    by (simp only: div_mult_self1[OF zero_neq_numeral[symmetric]])
  ultimately show ?thesis using w by auto
qed

text \<open>
  Neither direction reads past its input or writes past the buffer, for inputs of less than a
  gigabyte and whatever the bytes and characters are.
\<close>

lemma base64Encode_in_bounds:
  assumes "unat n \<le> length m" "unat n + 2 < 2 ^ 30"
  shows "\<exists>st w l. base64Encode (Some m) n True (Some room) = Some (st, w, Some l) \<and> length w \<le> unat room"
proof (cases "n = 0")
  case False
  let ?d = "take (unat n) m"
  have d: "length ?d = unat n" "?d \<noteq> []" using assms(1) False unat_gt_0[of n] by auto
  have m: "?d @ drop (unat n) m = m" by simp
  have n: "of_nat (unat n) = n" by simp
  let ?l = "4 * (n + of_nat (pad64 (unat n))) div 3 + 1"
  have l: "unat ?l = Suc (length (text64 ?d))"
    using encoded_length[OF assms(2)] unfolding length_text64 d(1) by simp
  show ?thesis
  proof (cases "room < ?l")
    case True
    then show ?thesis using False by (simp add: base64Encode_def Let_def pad64_def)
  next
    case room: False
    then have "length (text64 ?d) < unat room" using l by (simp add: word_less_nat_alt)
    from encode_text64[OF d(2) _ this, of "drop (unat n) m"] room l show ?thesis
      using assms(2) d m by (auto simp: word_less_nat_alt)
  qed
qed (simp add: base64Encode_def)

theorem base64Decode_in_bounds:
  assumes "n \<noteq> 0" "unat n \<le> length m" "unat n < 2 ^ 30"
  shows "\<exists>st w l. base64Decode (Some m) n True (Some room) = Some (st, w, Some l) \<and> length w \<le> unat room \<and>
           (st = STATUS_SUCCESS \<longrightarrow> length w = unat l)"
proof -
  have tl: "text_length m n = Some n" using assms(1) by (simp add: text_length_def)
  consider "n < 2" | "\<not> n < 2" by blast
  then show ?thesis
  proof cases
    case 1
    then show ?thesis using tl by (simp add: base64Decode_def status_defs)
  next
    case 2
    then obtain n' where n': "Option.bind (strip_pad m n) (strip_pad m) = Some n'" "unat n' \<le> unat n"
      using strip_both_bounds assms(2) by blast
    let ?p = "BASE64_DECODE_PADDING ! (unat n' mod 4)" and ?l = "3 * n' div 4"
    consider "?p = 0xff" | "?p \<noteq> 0xff" "room < ?l" | "?p \<noteq> 0xff" "\<not> room < ?l" by blast
    then show ?thesis
    proof cases
      case 3
      obtain w rest v where w: "(if 4 \<le> unat n' then decode_quads 0 (unat n') m else Some ([], m)) = Some (w, rest)"
        "decode_padding ?p rest = Some v" "length w + length v = 3 * unat n' div 4"
        using decode_writes[OF _ 3(1)] n'(2) assms(2) by (meson order_trans)
      have "4 \<le> n' \<longleftrightarrow> 4 \<le> unat n'" by (simp add: word_le_nat_alt)
      with w(1) have "(if 4 \<le> n' then decode_quads 0 (unat n') m else Some ([], m)) = Some (w, rest)" by simp
      from base64Decode_run[OF tl 2 n'(1) refl 3(1) refl 3(2) this w(2)]
      show ?thesis using w(3) decoded_length[of n'] n'(2) assms(3) 3(2) by (auto simp: word_less_nat_alt)
    qed (use 2 tl n'(1) in \<open>simp_all add: base64Decode_def Let_def status_defs\<close>)
  qed
qed

text \<open>
  Beyond that the length computation wraps: for a gigabyte of data the encoder asks for a buffer of
  three bytes, and writes the whole text.
\<close>

lemma encoded_length_wraps:
  "base64Encode (Some m) (2 ^ 30) False (Some room) = Some (STATUS_SUCCESS, [], Some 3)"
  by (simp add: base64Encode_def BASE64_ENCODE_PADDING_def)

text \<open>A character that is not of the alphabet is taken for \<open>A\<close>, without an error.\<close>

lemma bad_characters_decode:
  "base64Decode (Some ''!?\<newline>*'') 4 True (Some 3) = base64Decode (Some ''AAAA'') 4 True (Some 3)"
  by code_simp

end
