(* ===== verification/Hex.thy ===== *)
theory Hex
  imports Base64
begin

text \<open>
  Hexadecimal of \<open>components/kvs_utils/src/hex.c\<close>, with memory and output buffers as for Base64.
\<close>

section \<open>The code\<close>

definition HEX_ENCODE_ALPHA_UPPER :: string where
  "HEX_ENCODE_ALPHA_UPPER = ''0123456789ABCDEF''"

definition HEX_ENCODE_ALPHA_LOWER :: string where
  "HEX_ENCODE_ALPHA_LOWER = ''0123456789abcdef''"

definition HEX_DECODE_ALPHA :: "uint8 list" where
  "HEX_DECODE_ALPHA =
     replicate 48 0xff @ [0x00, 0x01, 0x02, 0x03, 0x04, 0x05, 0x06, 0x07, 0x08, 0x09] @
     replicate 7 0xff @ [0x0a, 0x0b, 0x0c, 0x0d, 0x0e, 0x0f] @
     replicate 26 0xff @ [0x0a, 0x0b, 0x0c, 0x0d, 0x0e, 0x0f] @ replicate 153 0xff"

fun encode_nibbles :: "string \<Rightarrow> nat \<Rightarrow> uint8 list \<Rightarrow> string option" where
  "encode_nibbles pAlpha 0 pInput = Some []"
| "encode_nibbles pAlpha (Suc n) [] = None"
| "encode_nibbles pAlpha (Suc n) (b # pInput) =
     map_option (\<lambda>w. pAlpha ! unat (drop_bit 4 b) # pAlpha ! unat (b AND 0x0f) # w)
       (encode_nibbles pAlpha n pInput)"

definition hexEncodeCase ::
  "uint8 list option \<Rightarrow> uint32 \<Rightarrow> bool \<Rightarrow> uint32 option \<Rightarrow> bool \<Rightarrow> (STATUS \<times> string \<times> uint32 option) option" where
  "hexEncodeCase pInputData inputLength out pOutputLength upperCase =
     (let pAlpha = (if upperCase then HEX_ENCODE_ALPHA_UPPER else HEX_ENCODE_ALPHA_LOWER)
      in case (pInputData, pOutputLength) of
           (Some pInput, Some capacity) \<Rightarrow>
             if inputLength = 0 then Some (STATUS_INVALID_ARG_LEN, [], pOutputLength)
             else
               let outputLength = 2 * inputLength + 1
               in if \<not> out then Some (STATUS_SUCCESS, [], Some outputLength)
                  else if capacity < outputLength then Some (STATUS_BUFFER_TOO_SMALL, [], pOutputLength)
                  else map_option (\<lambda>w. (STATUS_SUCCESS, w @ [CHR 0x00], Some outputLength))
                         (encode_nibbles pAlpha (unat inputLength) pInput)
         | _ \<Rightarrow> Some (STATUS_NULL_ARG, [], pOutputLength))"

definition hexEncode ::
  "uint8 list option \<Rightarrow> uint32 \<Rightarrow> bool \<Rightarrow> uint32 option \<Rightarrow> (STATUS \<times> string \<times> uint32 option) option" where
  "hexEncode pInputData inputLength out pOutputLength =
     hexEncodeCase pInputData inputLength out pOutputLength True"

text \<open>
  The decoding loop, with its counter: the bytes written so far stay written when a character is
  refused.
\<close>

fun decode_nibbles :: "nat \<Rightarrow> nat \<Rightarrow> string \<Rightarrow> (STATUS \<times> uint8 list) option" where
  "decode_nibbles i n (c0 # c1 # pInput) =
     (if i < n then
        let hiNibble = HEX_DECODE_ALPHA ! of_char c0; loNibble = HEX_DECODE_ALPHA ! of_char c1
        in if 0x0f < hiNibble \<or> 0x0f < loNibble then Some (STATUS_INVALID_ARG, [])
           else map_option (\<lambda>(st, w). (st, (push_bit 4 hiNibble OR loNibble) # w)) (decode_nibbles (i + 2) n pInput)
      else Some (STATUS_SUCCESS, []))"
| "decode_nibbles i n pInput = (if i < n then None else Some (STATUS_SUCCESS, []))"

definition hexDecode ::
  "string option \<Rightarrow> uint32 \<Rightarrow> bool \<Rightarrow> uint32 option \<Rightarrow> (STATUS \<times> uint8 list \<times> uint32 option) option" where
  "hexDecode pInputData inputLength out pOutputLength =
     (case (pInputData, pOutputLength) of
        (Some pInput, Some capacity) \<Rightarrow>
          (case text_length pInput inputLength of
             None \<Rightarrow> None
           | Some n0 \<Rightarrow>
               if n0 \<le> 1 then Some (STATUS_INVALID_ARG_LEN, [], pOutputLength)
               else
                 let outputLength = drop_bit 1 n0
                 in if \<not> out then Some (STATUS_SUCCESS, [], Some outputLength)
                    else if capacity < outputLength then Some (STATUS_BUFFER_TOO_SMALL, [], pOutputLength)
                    else map_option
                           (\<lambda>(st, w). (st, w, if st = STATUS_SUCCESS then Some outputLength else pOutputLength))
                           (decode_nibbles 0 (unat (n0 AND 0xfffffffe)) pInput))
      | _ \<Rightarrow> Some (STATUS_NULL_ARG, [], pOutputLength))"

section \<open>The round trip\<close>

definition alphabet :: "bool \<Rightarrow> string" where
  "alphabet upperCase = (if upperCase then HEX_ENCODE_ALPHA_UPPER else HEX_ENCODE_ALPHA_LOWER)"

definition hex_text :: "bool \<Rightarrow> uint8 list \<Rightarrow> string" where
  "hex_text u d = concat (map (\<lambda>b. [alphabet u ! unat (drop_bit 4 b), alphabet u ! unat (b AND 0x0f)]) d)"

lemma nibble_values: "\<forall>u. \<forall>i\<in>set [0..<16]. HEX_DECODE_ALPHA ! of_char (alphabet u ! i) = of_nat i \<and> alphabet u ! i \<noteq> CHR 0x00"
  by (simp add: all_bool_eq alphabet_def HEX_ENCODE_ALPHA_UPPER_def HEX_ENCODE_ALPHA_LOWER_def HEX_DECODE_ALPHA_def
      upt_rec nth_append)

lemma nibble_value:
  "x < 16 \<Longrightarrow> HEX_DECODE_ALPHA ! of_char (alphabet u ! unat (x :: uint8)) = x \<and> alphabet u ! unat x \<noteq> CHR 0x00"
  using nibble_values by (simp add: word_less_nat_alt)

lemma nibbles: "drop_bit 4 (b :: uint8) < 16" "b AND 0x0f < (16 :: uint8)"
proof -
  have "unat b < 256" using unsigned_less[of b] by simp
  then show "drop_bit 4 b < 16" by (simp only: drop_bit_eq_div) (simp add: word_less_nat_alt unat_div)
  have "b AND 0x0f \<le> 0x0f" by (rule word_and_le1)
  then show "b AND 0x0f < 16" by (simp add: word_le_nat_alt word_less_nat_alt)
qed

lemma nibbles_le: "\<not> 0x0f < drop_bit 4 (b :: uint8)" "\<not> 0x0f < b AND (0x0f :: uint8)"
  using nibbles[of b] by (simp_all add: word_less_nat_alt not_less)

lemma byte_of_nibbles: "push_bit 4 (drop_bit 4 b) OR (b AND 0x0f) = (b :: uint8)"
  unfolding masks by (rule byte_eqI) (simp_all add: bit_simps)

lemma encode_nibbles_data: "encode_nibbles (alphabet u) (length d) (d @ x) = Some (hex_text u d)"
  by (induction d) (simp_all add: hex_text_def)

lemma decode_nibbles_data:
  "n = i + 2 * length d \<Longrightarrow> decode_nibbles i n (hex_text u d @ x) = Some (STATUS_SUCCESS, d)"
proof (induction d arbitrary: i)
  case Nil
  then show ?case by (cases "(i, n, x)" rule: decode_nibbles.cases) (simp_all add: hex_text_def)
next
  case (Cons b d)
  have "i < n" "n = (i + 2) + 2 * length d" using Cons.prems by simp_all
  with Cons.IH[OF this(2)] show ?case
    by (simp add: hex_text_def nibble_value nibbles nibbles_le byte_of_nibbles Let_def)
qed

lemma length_hex_text: "length (hex_text u d) = 2 * length d"
  by (induction d) (simp_all add: hex_text_def)

lemma hex_text_no_nul: "CHR 0x00 \<notin> set (hex_text u d)"
  using nibble_value[OF nibbles(1)] nibble_value[OF nibbles(2)] by (auto simp: hex_text_def) metis+

lemma hexEncodeCase_data:
  assumes "d \<noteq> []" "length d < 2 ^ 31 - 1" "2 * length d < unat room"
  shows "hexEncodeCase (Some (d @ x)) (of_nat (length d)) True (Some room) u =
           Some (STATUS_SUCCESS, hex_text u d @ [CHR 0x00], Some (of_nat (2 * length d + 1)))"
proof -
  have n: "unat (of_nat (length d) :: uint32) = length d" "unat (of_nat (2 * length d + 1) :: uint32) = 2 * length d + 1"
    by (rule unat_small, use assms(2) in simp)+
  have l: "2 * of_nat (length d) + 1 = (of_nat (2 * length d + 1) :: uint32)" by simp
  have "(of_nat (length d) :: uint32) \<noteq> 0" using n(1) assms(1) by (metis length_0_conv unat_0)
  moreover have "\<not> room < of_nat (2 * length d + 1)" using n(2) assms(3) by (simp only: word_less_nat_alt)
  ultimately show ?thesis
    by (simp only: hexEncodeCase_def Let_def l n alphabet_def[symmetric] encode_nibbles_data prod.case option.case
        if_False if_True simp_thms option.map)
qed

lemma even_mask: "\<forall>n\<in>set [0..<32]. bit (0xfffffffe :: uint32) n \<longleftrightarrow> n \<noteq> 0"
  by code_simp

lemma even_length:
  assumes "2 * k < 2 ^ 32"
  shows "unat (of_nat (2 * k) AND 0xfffffffe :: uint32) = 2 * k"
proof -
  have "of_nat (2 * k) AND 0xfffffffe = (of_nat (2 * k) :: uint32)"
  proof (rule bit_word_eqI)
    fix n assume "n < LENGTH(32)"
    then have "bit (0xfffffffe :: uint32) n \<longleftrightarrow> n \<noteq> 0" using even_mask by simp
    then show "bit (of_nat (2 * k) AND 0xfffffffe :: uint32) n = bit (of_nat (2 * k) :: uint32) n"
      by (auto simp: bit_and_iff bit_0)
  qed
  then show ?thesis using assms by (simp only: unat_small)
qed

lemma hexDecode_data:
  assumes "d \<noteq> []" "length d < 2 ^ 31" "length d \<le> unat room"
    and "text_length (hex_text u d @ x) n = Some (of_nat (2 * length d))"
  shows "hexDecode (Some (hex_text u d @ x)) n True (Some room) =
           Some (STATUS_SUCCESS, d, Some (of_nat (length d)))"
proof -
  have small: "2 * length d < 2 ^ 32" "length d < 2 ^ 32" using assms(2) by simp_all
  have "unat (of_nat (2 * length d) :: uint32) = 2 * length d" by (rule unat_small[OF small(1)])
  moreover have "1 < 2 * length d" using assms(1) by (cases d) simp_all
  ultimately have n1: "\<not> of_nat (2 * length d) \<le> (1 :: uint32)" by (metis word_le_nat_alt unat_1 not_le)
  have half: "drop_bit 1 (of_nat (2 * length d)) = (of_nat (length d) :: uint32)"
  proof (rule word_unat_eq_iff[THEN iffD2])
    have "unat (drop_bit 1 (of_nat (2 * length d) :: uint32)) = drop_bit 1 (2 * length d)"
      by (simp only: unat_drop_bit_eq unat_small[OF small(1)])
    then show "unat (drop_bit 1 (of_nat (2 * length d) :: uint32)) = unat (of_nat (length d) :: uint32)"
      by (simp only: unat_small[OF small(2)]) (simp add: drop_bit_eq_div)
  qed
  have cap: "\<not> room < of_nat (length d)" using unat_small[OF small(2)] assms(3) by (simp only: word_less_nat_alt not_less)
  have loop: "decode_nibbles 0 (2 * length d) (hex_text u d @ x) = Some (STATUS_SUCCESS, d)"
    by (rule decode_nibbles_data) simp
  show ?thesis
    by (simp only: hexDecode_def Let_def assms(4) n1 half cap even_length[OF small(1)] loop prod.case option.case
        if_False if_True simp_thms option.map)
qed

text \<open>
  Data of less than two gigabytes that is encoded in either case into a large enough buffer gives a
  string that, decoded with its length or up to its terminator, is the data again.
\<close>
theorem hex_roundtrip:
  assumes "d \<noteq> []" "length d < 2 ^ 31 - 1" "2 * length d < unat room" "length d \<le> unat room'"
  shows "\<exists>t l. hexEncodeCase (Some (d @ beyond)) (of_nat (length d)) True (Some room) u =
                  Some (STATUS_SUCCESS, t @ [CHR 0x00], Some l) \<and> unat l = length t + 1 \<and>
               (\<forall>x. hexDecode (Some (t @ CHR 0x00 # x)) 0 True (Some room') =
                       Some (STATUS_SUCCESS, d, Some (of_nat (length d)))) \<and>
               (\<forall>x. hexDecode (Some (t @ x)) (l - 1) True (Some room') =
                       Some (STATUS_SUCCESS, d, Some (of_nat (length d))))"
proof -
  let ?t = "hex_text u d" and ?l = "of_nat (2 * length d + 1) :: uint32"
  have small: "2 * length d + 1 < 2 ^ 32" "2 * length d < 2 ^ 32" "length d < 2 ^ 31" using assms(2) by simp_all
  have len: "text_length (?t @ CHR 0x00 # x) 0 = Some (of_nat (2 * length d))" for x
  proof -
    have "takeWhile (\<lambda>c. c \<noteq> CHR 0x00) (?t @ CHR 0x00 # x) = ?t"
      using hex_text_no_nul[of u d] by (subst takeWhile_append2) auto
    then show ?thesis by (simp add: text_length_def STRLEN_def length_hex_text)
  qed
  have l1: "?l - 1 = of_nat (2 * length d)" by simp
  have "unat (of_nat (2 * length d) :: uint32) \<noteq> 0" using assms(1) by (simp only: unat_small[OF small(2)]) simp
  then have len': "text_length (?t @ x) (?l - 1) = Some (of_nat (2 * length d))" for x
    unfolding text_length_def l1 by (metis unat_0)
  have "unat ?l = length ?t + 1" by (simp only: unat_small[OF small(1)] length_hex_text)
  then show ?thesis
    using hexEncodeCase_data[OF assms(1-3), of beyond u] hexDecode_data[OF assms(1) small(3) assms(4) len]
      hexDecode_data[OF assms(1) small(3) assms(4) len'] by blast
qed

theorem hex_roundtrip_witness:
  "\<exists>t l. hexEncodeCase (Some [0x4d, 0xff]) 2 True (Some 5) False = Some (STATUS_SUCCESS, t @ [CHR 0x00], Some l) \<and>
     hexDecode (Some (t @ CHR 0x00 # ''x'')) 0 True (Some 2) = Some (STATUS_SUCCESS, [0x4d, 0xff], Some 2)"
  using hex_roundtrip[of "[0x4d, 0xff]" 5 2 "[]" False] by auto

section \<open>What is refused\<close>

text \<open>
  A character that is no hexadecimal digit is refused, and the caller's length is left alone.
\<close>

lemma non_hex_refused:
  assumes "0x0f < HEX_DECODE_ALPHA ! of_char c" "2 * length d + 2 \<le> n"
  shows "decode_nibbles i (i + n) (hex_text u d @ c # c' # x) = Some (STATUS_INVALID_ARG, d)"
  using assms(2)
proof (induction d arbitrary: i n)
  case Nil
  then show ?case using assms(1) by (simp add: hex_text_def Let_def)
next
  case (Cons b d)
  obtain k where k: "n = k + 2" "2 * length d + 2 \<le> k" using Cons.prems by (cases n) (auto intro: that[of "n - 2"])
  then have "decode_nibbles (i + 2) (i + n) (hex_text u d @ c # c' # x) = Some (STATUS_INVALID_ARG, d)"
    using Cons.IH[of k "i + 2"] by (simp add: ac_simps)
  with k show ?case
    by (simp add: hex_text_def nibble_value nibbles nibbles_le byte_of_nibbles Let_def)
qed

text \<open>The last character of an odd number of them is not looked at.\<close>

lemma odd_character_ignored:
  "hexDecode (Some ''4dZ'') 3 True (Some 1) = Some (STATUS_SUCCESS, [0x4d], Some 1)"
  by code_simp

end
