(* ===== verification/Raw_Bus.thy ===== *)
theory Raw_Bus
  imports Kvs_Prelude
begin

text \<open>
  The raw-frame bus, \<open>components/media_stream/src/video_raw_bus.c\<close>: camera frames are shared by
  reference between the sinks, each with its own bounded queue of descriptors, and a buffer goes
  back to the driver when the last holder releases it. Each function is given by its critical
  sections, one definition each, and by its own sequence of them; \<open>Raw_Bus_Run\<close> interleaves the
  sections of all tasks. A queue of FreeRTOS is a list with a length limit. The return of a buffer
  to the driver (\<open>esp_video_if_release_frame\<close>) is recorded in \<open>returned\<close>. The number of buffers,
  the reserve and the number of sinks are the defaults. Hold times and other statistics of time, log
  lines and task parameters are left out; the clock is an argument where it decides something.
\<close>

section \<open>State\<close>

definition MEDIA_STREAM_CAM_BUFFER_COUNT :: nat where "MEDIA_STREAM_CAM_BUFFER_COUNT = 4"
definition CONFIG_MEDIA_STREAM_CAM_BUFFER_RESERVE :: nat where "CONFIG_MEDIA_STREAM_CAM_BUFFER_RESERVE = 2"
definition CONFIG_VIDEO_RAW_SINK_MAX :: nat where "CONFIG_VIDEO_RAW_SINK_MAX = 5"
definition CONFIG_VIDEO_RAW_SINK_BLOCK_TIMEOUT_MS :: uint32 where "CONFIG_VIDEO_RAW_SINK_BLOCK_TIMEOUT_MS = 100"
definition NO_SLOT :: uint8 where "NO_SLOT = 0xFF"

definition LOAN_CAP :: nat where
  "LOAN_CAP = MEDIA_STREAM_CAM_BUFFER_COUNT - CONFIG_MEDIA_STREAM_CAM_BUFFER_RESERVE"

text \<open>A camera buffer as the driver hands it over; \<open>fb_data\<close> is its content with its geometry.\<close>

record 'd video_fb =
  fb_index :: uint8
  fb_data :: 'd

record 'd video_raw_frame =
  fr_data :: 'd
  fr_fourcc :: uint32
  fr_seq :: uint32
  fr_slot :: uint8
  fr_generation :: uint8
  fr_owned :: bool

record 'd raw_slot =
  refs :: uint8
  slot_gen :: uint8
  slot_fb :: "'d video_fb option"
  counted :: bool

datatype video_raw_mode = VIDEO_RAW_MODE_PASSTHROUGH | VIDEO_RAW_MODE_CONVERTED | VIDEO_RAW_MODE_INLINE
datatype video_raw_overflow = VIDEO_RAW_OVERFLOW_DROP_OLD | VIDEO_RAW_OVERFLOW_DROP_NEW | VIDEO_RAW_OVERFLOW_BLOCK

text \<open>\<open>has_callback\<close> is \<open>on_frame\<close> not being NULL, \<open>has_task\<close> and \<open>has_conv\<close> likewise.\<close>

record 'd raw_sink =
  in_use :: bool
  sink_name :: string
  sink_mode :: video_raw_mode
  has_callback :: bool
  sink_enabled :: bool
  sink_q :: "'d video_raw_frame list option"
  queue_depth :: uint8
  cap :: uint8
  sink_overflow :: video_raw_overflow
  block_timeout_ms :: uint32
  fps_limit :: uint8
  in_flight :: uint8
  held :: bool
  dispatch_refs :: "16 word"
  has_task :: bool
  task_run :: bool
  want_fourcc :: uint32
  want_width :: "16 word"
  want_height :: "16 word"
  has_conv :: bool
  rate_acc :: uint32
  delivered :: uint32
  drop_queue :: uint32
  drop_inflight :: uint32
  drop_nobuf :: uint32
  drop_rate :: uint32
  drop_timeout :: uint32
  drop_convert :: uint32

record 'd raw_bus =
  s_slots :: "'d raw_slot list"
  s_sinks :: "'d raw_sink list"
  bus_ready :: bool
  locks_ready :: bool
  freed_sem :: nat
  s_pinned :: uint8
  s_seq :: uint32
  s_stopping :: bool
  returned :: "'d video_fb list"

definition empty_slot :: "'d raw_slot" where
  "empty_slot = \<lparr>refs = 0, slot_gen = 0, slot_fb = None, counted = False\<rparr>"

definition empty_sink :: "'d raw_sink" where
  "empty_sink =
     \<lparr>in_use = False, sink_name = [], sink_mode = VIDEO_RAW_MODE_PASSTHROUGH, has_callback = False,
      sink_enabled = False, sink_q = None, queue_depth = 0, cap = 0,
      sink_overflow = VIDEO_RAW_OVERFLOW_DROP_OLD, block_timeout_ms = 0, fps_limit = 0, in_flight = 0,
      held = False, dispatch_refs = 0, has_task = False, task_run = False, want_fourcc = 0,
      want_width = 0, want_height = 0, has_conv = False, rate_acc = 0, delivered = 0, drop_queue = 0,
      drop_inflight = 0, drop_nobuf = 0, drop_rate = 0, drop_timeout = 0, drop_convert = 0\<rparr>"

definition bus_start :: "'d raw_bus" where
  "bus_start =
     \<lparr>s_slots = replicate MEDIA_STREAM_CAM_BUFFER_COUNT empty_slot,
      s_sinks = replicate CONFIG_VIDEO_RAW_SINK_MAX empty_sink, bus_ready = False, locks_ready = False, freed_sem = 0,
      s_pinned = 0, s_seq = 0, s_stopping = False, returned = []\<rparr>"

definition put_slot :: "nat \<Rightarrow> 'd raw_slot \<Rightarrow> 'd raw_bus \<Rightarrow> 'd raw_bus" where
  "put_slot ix s b = b\<lparr>s_slots := (s_slots b)[ix := s]\<rparr>"

definition put_sink :: "nat \<Rightarrow> 'd raw_sink \<Rightarrow> 'd raw_bus \<Rightarrow> 'd raw_bus" where
  "put_sink i s b = b\<lparr>s_sinks := (s_sinks b)[i := s]\<rparr>"

abbreviation slot_at :: "'d raw_bus \<Rightarrow> nat \<Rightarrow> 'd raw_slot" where "slot_at b ix \<equiv> s_slots b ! ix"
abbreviation sink_at :: "'d raw_bus \<Rightarrow> nat \<Rightarrow> 'd raw_sink" where "sink_at b i \<equiv> s_sinks b ! i"

definition give_freed :: "'d raw_bus \<Rightarrow> 'd raw_bus" where
  "give_freed b = b\<lparr>freed_sem := min (freed_sem b + 1) (MEDIA_STREAM_CAM_BUFFER_COUNT * 2)\<rparr>"

definition return_frame :: "'d video_fb option \<Rightarrow> 'd raw_bus \<Rightarrow> 'd raw_bus" where
  "return_frame to_return b = (case to_return of None \<Rightarrow> b | Some f \<Rightarrow> b\<lparr>returned := returned b @ [f]\<rparr>)"

text \<open>
  \<open>video_raw_bus_init\<close>: which of the three primitives were created, and the result of
  \<open>video_frame_convert_init\<close>. \<open>bus_ready\<close> is the sink lock not being NULL, which is all that the
  next call looks at; \<open>locks_ready\<close> is the other two not being NULL.
\<close>

definition video_raw_bus_init :: "bool \<Rightarrow> bool \<Rightarrow> bool \<Rightarrow> esp_err \<Rightarrow> 'd raw_bus \<Rightarrow> esp_err \<times> 'd raw_bus" where
  "video_raw_bus_init sink_lock slot_lock freed conv_init b =
     (if bus_ready b then (ESP_OK, b)
      else
        let b1 = b\<lparr>bus_ready := sink_lock, locks_ready := slot_lock \<and> freed, freed_sem := 0\<rparr>
        in if \<not> (sink_lock \<and> slot_lock \<and> freed) then (ESP_ERR_NO_MEM, b1)
           else if conv_init \<noteq> ESP_OK then (conv_init, b1)
           else (ESP_OK, b1\<lparr>s_stopping := False\<rparr>))"

section \<open>References\<close>

text \<open>The last reference takes the buffer out of the table, to be returned.\<close>

definition drop_ref :: "nat \<Rightarrow> 'd raw_bus \<Rightarrow> 'd video_fb option \<times> 'd raw_bus" where
  "drop_ref ix b =
     (let s = slot_at b ix; r = refs s - 1
      in if r = 0
         then (slot_fb s,
               put_slot ix (s\<lparr>refs := 0, counted := False, slot_fb := None\<rparr>)
                 (if counted s then b\<lparr>s_pinned := s_pinned b - 1\<rparr> else b))
         else (None, put_slot ix (s\<lparr>refs := r\<rparr>) b))"

definition slot_release :: "uint8 \<Rightarrow> uint8 \<Rightarrow> 'd raw_bus \<Rightarrow> 'd raw_bus" where
  "slot_release slot generation b =
     (if slot = NO_SLOT then b
      else if MEDIA_STREAM_CAM_BUFFER_COUNT \<le> unat slot then b
      else if slot_gen (slot_at b (unat slot)) \<noteq> generation then b
      else if refs (slot_at b (unat slot)) = 0 then b
      else let (to_return, b1) = drop_ref (unat slot) b in give_freed (return_frame to_return b1))"

text \<open>The pool of a converter is the converter's; giving a frame back to it touches nothing here.\<close>

definition frame_release :: "'d video_raw_frame \<Rightarrow> 'd raw_bus \<Rightarrow> 'd raw_bus" where
  "frame_release f b = (if fr_owned f then give_freed b else slot_release (fr_slot f) (fr_generation f) b)"

section \<open>Delivery\<close>

definition rate_gate_pass :: "uint8 \<Rightarrow> 'd raw_sink \<Rightarrow> bool \<times> 'd raw_sink" where
  "rate_gate_pass camera_fps s =
     (if fps_limit s = 0 \<or> camera_fps = 0 \<or> camera_fps \<le> fps_limit s then (True, s)
      else
        let acc = rate_acc s + ucast (fps_limit s)
        in if ucast camera_fps \<le> acc then (True, s\<lparr>rate_acc := acc - ucast camera_fps\<rparr>)
           else (False, s\<lparr>rate_acc := acc\<rparr>))"

definition count_drop :: "bool \<Rightarrow> bool \<Rightarrow> 'd raw_sink \<Rightarrow> 'd raw_sink" where
  "count_drop no_loan at_limit s =
     (if no_loan then s\<lparr>drop_nobuf := drop_nobuf s + 1\<rparr>
      else if at_limit then s\<lparr>drop_inflight := drop_inflight s + 1\<rparr>
      else s\<lparr>drop_queue := drop_queue s + 1\<rparr>)"

text \<open>\<open>None\<close> is false, nothing to evict.\<close>

definition evict_oldest_locked :: "nat \<Rightarrow> 'd raw_bus \<Rightarrow> ('d video_fb option \<times> 'd raw_bus) option" where
  "evict_oldest_locked i b =
     (case sink_q (sink_at b i) of
        Some (old # rest) \<Rightarrow>
          let b1 = put_sink i ((sink_at b i)\<lparr>sink_q := Some rest\<rparr>) b;
              (to_return, b2) =
                (if fr_owned old \<or> fr_slot old = NO_SLOT then (None, b1)
                 else if slot_gen (slot_at b1 (unat (fr_slot old))) = fr_generation old \<and>
                         0 < refs (slot_at b1 (unat (fr_slot old)))
                 then drop_ref (unat (fr_slot old)) b1 else (None, b1));
              s2 = sink_at b2 i
          in Some (to_return,
                   put_sink i (s2\<lparr>in_flight := in_flight s2 - 1, drop_queue := drop_queue s2 + 1\<rparr>) b2)
      | _ \<Rightarrow> None)"

text \<open>
  One round of the loop of \<open>sink_enqueue\<close> under the slot lock. \<open>Again\<close> is the round that evicted,
  \<open>Would_block\<close> the one that goes on to wait.
\<close>

datatype attempt = Queued | Dropped | Again | Would_block

definition queue_room :: "'d raw_sink \<Rightarrow> bool" where
  "queue_room s = (case sink_q s of
     None \<Rightarrow> False | Some fs \<Rightarrow> length fs < (if queue_depth s = 0 then 1 else unat (queue_depth s)))"

definition enqueue_round :: "nat \<Rightarrow> 'd video_raw_frame \<Rightarrow> 'd raw_bus \<Rightarrow> attempt \<times> 'd raw_bus" where
  "enqueue_round i d b =
     (let s = sink_at b i; ix = unat (fr_slot d); uses_slot = (\<not> fr_owned d);
          charged = (uses_slot \<and> counted (slot_at b ix));
          at_limit = (cap s \<le> in_flight s);
          no_loan = (uses_slot \<and> \<not> charged \<and> LOAN_CAP \<le> unat (s_pinned b))
      in if \<not> at_limit \<and> \<not> no_loan \<and> queue_room s
         then
           let b1 = (if uses_slot
                     then
                       let b0 = put_slot ix ((slot_at b ix)\<lparr>refs := refs (slot_at b ix) + 1, counted := True\<rparr>) b
                       in if charged then b0 else b0\<lparr>s_pinned := s_pinned b0 + 1\<rparr>
                     else b)
           in (Queued, put_sink i (s\<lparr>sink_q := map_option (\<lambda>fs. fs @ [d]) (sink_q s),
                                     in_flight := in_flight s + 1, delivered := delivered s + 1\<rparr>) b1)
         else
           case sink_overflow s of
             VIDEO_RAW_OVERFLOW_DROP_OLD \<Rightarrow>
               (case evict_oldest_locked i b of
                  Some (evicted, b1) \<Rightarrow> (Again, give_freed (return_frame evicted b1))
                | None \<Rightarrow> (Dropped, put_sink i (count_drop no_loan at_limit s) b))
           | VIDEO_RAW_OVERFLOW_DROP_NEW \<Rightarrow> (Dropped, put_sink i (count_drop no_loan at_limit s) b)
           | VIDEO_RAW_OVERFLOW_BLOCK \<Rightarrow> (Would_block, b))"

text \<open>
  The wait of a blocking sink: \<open>in_time\<close> is whether the deadline had not passed and a token came.
  True means the loop goes on.
\<close>

definition block_wait :: "bool \<Rightarrow> nat \<Rightarrow> 'd raw_bus \<Rightarrow> bool \<times> 'd raw_bus" where
  "block_wait in_time i b =
     (let s = sink_at b i; timed_out = put_sink i (s\<lparr>drop_timeout := drop_timeout s + 1\<rparr>) b
      in if s_stopping b \<or> \<not> sink_enabled s then (False, timed_out)
         else if \<not> in_time \<or> freed_sem b = 0 then (False, timed_out)
         else (True, b\<lparr>freed_sem := freed_sem b - 1\<rparr>))"

section \<open>The pump\<close>

text \<open>
  Where the pump is in \<open>video_raw_bus_publish\<close>, with the frame it publishes, the frame rate of the
  camera, the sinks still in its list and the sink it is at.
\<close>

datatype 'd pump =
    Pump_Idle
  | Pump_Snapshot "'d video_raw_frame" uint8
  | Pump_Next "'d video_raw_frame" uint8 "nat list"
  | Pump_Enqueue "'d video_raw_frame" uint8 nat "nat list"
  | Pump_Blocked "'d video_raw_frame" uint8 nat "nat list"
  | Pump_Leave "'d video_raw_frame" uint8 nat "nat list"

definition publish_begin :: "'d video_fb option \<Rightarrow> uint32 \<Rightarrow> uint8 \<Rightarrow> 'd raw_bus \<Rightarrow> 'd raw_bus \<times> 'd pump" where
  "publish_begin fbp fourcc camera_fps b =
     (case fbp of
        None \<Rightarrow> (b, Pump_Idle)
      | Some fb \<Rightarrow>
          if \<not> bus_ready b then (return_frame (Some fb) b, Pump_Idle)
          else if MEDIA_STREAM_CAM_BUFFER_COUNT \<le> unat (fb_index fb) then (return_frame (Some fb) b, Pump_Idle)
          else
            let ix = unat (fb_index fb); g = slot_gen (slot_at b ix) + 1;
                b1 = put_slot ix \<lparr>refs = 1, slot_gen = g, slot_fb = Some fb, counted = False\<rparr> b;
                b2 = b1\<lparr>s_seq := s_seq b1 + 1\<rparr>
            in (b2, Pump_Snapshot \<lparr>fr_data = fb_data fb, fr_fourcc = fourcc, fr_seq = s_seq b2,
                                   fr_slot = fb_index fb, fr_generation = g, fr_owned = False\<rparr> camera_fps))"

definition takes_frames :: "'d raw_sink \<Rightarrow> bool" where
  "takes_frames s \<longleftrightarrow> in_use s \<and> sink_enabled s"

definition snapshot :: "'d raw_bus \<Rightarrow> nat list \<times> 'd raw_bus" where
  "snapshot b =
     (filter (\<lambda>i. takes_frames (sink_at b i)) [0..<length (s_sinks b)],
      b\<lparr>s_sinks := map (\<lambda>s. if takes_frames s then s\<lparr>dispatch_refs := dispatch_refs s + 1\<rparr> else s) (s_sinks b)\<rparr>)"

text \<open>
  One step of the pump: the inline callback is the consumer's and touches nothing here.
\<close>

fun pump_step :: "bool \<Rightarrow> 'd raw_bus \<Rightarrow> 'd pump \<Rightarrow> 'd raw_bus \<times> 'd pump" where
  "pump_step in_time b Pump_Idle = (b, Pump_Idle)"
| "pump_step in_time b (Pump_Snapshot d fps) = (let (todo, b1) = snapshot b in (b1, Pump_Next d fps todo))"
| "pump_step in_time b (Pump_Next d fps []) = (slot_release (fr_slot d) (fr_generation d) b, Pump_Idle)"
| "pump_step in_time b (Pump_Next d fps (i # todo)) =
     (let (pass, s) = rate_gate_pass fps (sink_at b i)
      in if \<not> pass then (put_sink i (s\<lparr>drop_rate := drop_rate s + 1\<rparr>) b, Pump_Leave d fps i todo)
         else if sink_mode s = VIDEO_RAW_MODE_INLINE
         then (put_sink i (s\<lparr>delivered := delivered s + 1\<rparr>) b, Pump_Leave d fps i todo)
         else (put_sink i s b, Pump_Enqueue d fps i todo))"
| "pump_step in_time b (Pump_Enqueue d fps i todo) =
     (case enqueue_round i d b of
        (Queued, b1) \<Rightarrow> (b1, Pump_Leave d fps i todo)
      | (Dropped, b1) \<Rightarrow> (b1, Pump_Leave d fps i todo)
      | (Again, b1) \<Rightarrow> (b1, Pump_Enqueue d fps i todo)
      | (Would_block, b1) \<Rightarrow> (b1, Pump_Blocked d fps i todo))"
| "pump_step in_time b (Pump_Blocked d fps i todo) =
     (case block_wait in_time i b of
        (True, b1) \<Rightarrow> (b1, Pump_Enqueue d fps i todo)
      | (False, b1) \<Rightarrow> (b1, Pump_Leave d fps i todo))"
| "pump_step in_time b (Pump_Leave d fps i todo) =
     (put_sink i ((sink_at b i)\<lparr>dispatch_refs := dispatch_refs (sink_at b i) - 1\<rparr>) b, Pump_Next d fps todo)"

section \<open>Consumers\<close>

definition queue_receive :: "nat \<Rightarrow> 'd raw_bus \<Rightarrow> 'd video_raw_frame option \<times> 'd raw_bus" where
  "queue_receive i b =
     (case sink_q (sink_at b i) of
        Some (f # rest) \<Rightarrow> (Some f, put_sink i ((sink_at b i)\<lparr>sink_q := Some rest\<rparr>) b)
      | _ \<Rightarrow> (None, b))"

text \<open>\<open>in_flight\<close> is lowered under the slot lock; the calls of a pull consumer stop at zero.\<close>

definition count_off :: "nat \<Rightarrow> 'd raw_bus \<Rightarrow> 'd raw_bus" where
  "count_off i b = put_sink i ((sink_at b i)\<lparr>in_flight := in_flight (sink_at b i) - 1\<rparr>) b"

definition count_off_guarded :: "nat \<Rightarrow> 'd raw_bus \<Rightarrow> 'd raw_bus" where
  "count_off_guarded i b = (if 0 < in_flight (sink_at b i) then count_off i b else b)"

text \<open>
  \<open>sink_convert\<close>: \<open>created\<close> is whether the converter could be made, if there was none, and \<open>run\<close>
  what it made of the frame. No frame means that the camera frame is released all the same.
\<close>

definition sink_convert ::
  "nat \<Rightarrow> 'd video_raw_frame \<Rightarrow> bool \<Rightarrow> 'd video_raw_frame option \<Rightarrow> 'd raw_bus \<Rightarrow>
   'd video_raw_frame option \<times> 'd raw_bus" where
  "sink_convert i f created run b =
     (if \<not> has_conv (sink_at b i) \<and> \<not> created
      then (None, slot_release (fr_slot f) (fr_generation f) (put_sink i ((sink_at b i)\<lparr>sink_enabled := False\<rparr>) b))
      else
        let b1 = put_sink i ((sink_at b i)\<lparr>has_conv := True\<rparr>) b;
            b2 = slot_release (fr_slot f) (fr_generation f) b1
        in case run of
             None \<Rightarrow> (None, put_sink i ((sink_at b2 i)\<lparr>drop_convert := drop_convert (sink_at b2 i) + 1\<rparr>) b2)
           | Some out \<Rightarrow> (Some (out\<lparr>fr_owned := True\<rparr>), b2))"

text \<open>One round of a sink's task; the callback is the consumer's.\<close>

definition sink_task_round :: "nat \<Rightarrow> bool \<Rightarrow> 'd video_raw_frame option \<Rightarrow> 'd raw_bus \<Rightarrow> 'd raw_bus" where
  "sink_task_round i created run b =
     (if \<not> task_run (sink_at b i) then b
      else case queue_receive i b of
        (None, b1) \<Rightarrow> b1
      | (Some f, b1) \<Rightarrow>
          if sink_mode (sink_at b1 i) = VIDEO_RAW_MODE_CONVERTED
          then (case sink_convert i f created run b1 of
                  (None, b2) \<Rightarrow> count_off i b2
                | (Some f', b2) \<Rightarrow> frame_release f' (count_off i b2))
          else frame_release f (count_off i b1))"

fun drain_times :: "nat \<Rightarrow> nat \<Rightarrow> 'd raw_bus \<Rightarrow> 'd raw_bus" where
  "drain_times 0 i b = b"
| "drain_times (Suc n) i b =
     (case queue_receive i b of
        (None, b1) \<Rightarrow> b1
      | (Some f, b1) \<Rightarrow> drain_times n i (frame_release f (count_off i b1)))"

definition sink_drain :: "nat \<Rightarrow> 'd raw_bus \<Rightarrow> 'd raw_bus" where
  "sink_drain i b = (case sink_q (sink_at b i) of None \<Rightarrow> b | Some fs \<Rightarrow> drain_times (length fs) i b)"

definition valid_handle :: "nat option \<Rightarrow> 'd raw_bus \<Rightarrow> bool" where
  "valid_handle h b \<longleftrightarrow> (case h of None \<Rightarrow> False | Some i \<Rightarrow> in_use (sink_at b i))"

definition video_raw_sink_acquire ::
  "nat option \<Rightarrow> bool \<Rightarrow> 'd video_raw_frame option \<Rightarrow> 'd raw_bus \<Rightarrow> esp_err \<times> 'd video_raw_frame option \<times> 'd raw_bus" where
  "video_raw_sink_acquire h created run b =
     (if \<not> valid_handle h b then (ESP_ERR_INVALID_ARG, None, b)
      else
        let i = the h; s = sink_at b i
        in if sink_q s = None \<or> has_callback s then (ESP_ERR_INVALID_STATE, None, b)
           else if held s then (ESP_ERR_INVALID_STATE, None, b)
           else case queue_receive i b of
             (None, b1) \<Rightarrow> (ESP_ERR_TIMEOUT, None, b1)
           | (Some f, b1) \<Rightarrow>
               (case (if sink_mode s = VIDEO_RAW_MODE_CONVERTED then sink_convert i f created run b1 else (Some f, b1)) of
                  (None, b2) \<Rightarrow> (ESP_ERR_TIMEOUT, None, count_off_guarded i b2)
                | (Some f', b2) \<Rightarrow> (ESP_OK, Some f', put_sink i ((sink_at b2 i)\<lparr>held := True\<rparr>) b2)))"

definition release_hold :: "nat \<Rightarrow> 'd raw_bus \<Rightarrow> 'd raw_bus" where
  "release_hold i b =
     (let b1 = count_off_guarded i b in put_sink i ((sink_at b1 i)\<lparr>held := False\<rparr>) b1)"

definition video_raw_sink_release :: "nat option \<Rightarrow> 'd video_raw_frame option \<Rightarrow> 'd raw_bus \<Rightarrow> esp_err \<times> 'd raw_bus" where
  "video_raw_sink_release h frame b =
     (case frame of
        Some f \<Rightarrow>
          if \<not> valid_handle h b then (ESP_ERR_INVALID_ARG, b)
          else (ESP_OK, frame_release f (release_hold (the h) b))
      | None \<Rightarrow> (ESP_ERR_INVALID_ARG, b))"

section \<open>Registration and control\<close>

record raw_sink_config =
  cfg_name :: "string option"
  cfg_mode :: video_raw_mode
  cfg_callback :: bool
  cfg_queue_depth :: uint8
  cfg_overflow :: video_raw_overflow
  cfg_block_timeout_ms :: uint32
  cfg_fps_limit :: uint8
  cfg_want_fourcc :: uint32
  cfg_want_width :: "16 word"
  cfg_want_height :: "16 word"

text \<open>What the sinks that borrow camera buffers have claimed.\<close>

definition borrows :: "'d raw_sink \<Rightarrow> bool" where
  "borrows s \<longleftrightarrow> in_use s \<and> (sink_mode s = VIDEO_RAW_MODE_PASSTHROUGH \<or> sink_mode s = VIDEO_RAW_MODE_CONVERTED)"

definition committed :: "'d raw_bus \<Rightarrow> nat" where
  "committed b = sum_list (map (\<lambda>s. unat (cap s)) (filter borrows (s_sinks b)))"

definition new_sink :: "raw_sink_config \<Rightarrow> 'd raw_sink" where
  "new_sink cfg =
     empty_sink
       \<lparr>in_use := True, sink_name := take 15 (the (cfg_name cfg)), sink_mode := cfg_mode cfg,
        has_callback := cfg_callback cfg, queue_depth := cfg_queue_depth cfg, cap := cfg_queue_depth cfg + 1,
        sink_overflow := cfg_overflow cfg,
        block_timeout_ms := (if cfg_block_timeout_ms cfg \<noteq> 0 then cfg_block_timeout_ms cfg
                             else CONFIG_VIDEO_RAW_SINK_BLOCK_TIMEOUT_MS),
        fps_limit := cfg_fps_limit cfg, want_fourcc := cfg_want_fourcc cfg, want_width := cfg_want_width cfg,
        want_height := cfg_want_height cfg\<rparr>"

text \<open>
  \<open>init\<close> is the call of \<open>video_raw_bus_init\<close>, \<open>check_dst\<close> the answer of the converter about the
  target format, \<open>q_ok\<close> and \<open>task_ok\<close> whether queue and task could be created.
\<close>

definition video_raw_sink_register ::
  "('d raw_bus \<Rightarrow> esp_err \<times> 'd raw_bus) \<Rightarrow> esp_err \<Rightarrow> bool \<Rightarrow> bool \<Rightarrow> raw_sink_config option \<Rightarrow> 'd raw_bus \<Rightarrow>
   esp_err \<times> nat option \<times> 'd raw_bus" where
  "video_raw_sink_register init check_dst q_ok task_ok cfgp b =
     (case cfgp of
        None \<Rightarrow> (ESP_ERR_INVALID_ARG, None, b)
      | Some cfg \<Rightarrow>
          if cfg_name cfg = None then (ESP_ERR_INVALID_ARG, None, b)
          else if cfg_mode cfg = VIDEO_RAW_MODE_INLINE \<and> \<not> cfg_callback cfg then (ESP_ERR_INVALID_ARG, None, b)
          else if cfg_mode cfg = VIDEO_RAW_MODE_CONVERTED \<and>
                  (cfg_want_fourcc cfg = 0 \<or> cfg_want_width cfg = 0 \<or> cfg_want_height cfg = 0)
          then (ESP_ERR_INVALID_ARG, None, b)
          else if cfg_mode cfg = VIDEO_RAW_MODE_CONVERTED \<and> check_dst \<noteq> ESP_OK then (check_dst, None, b)
          else
            (case init b of (err, b1) \<Rightarrow>
              if err \<noteq> ESP_OK then (err, None, b1)
              else if cfg_queue_depth cfg = 0xFF then (ESP_ERR_INVALID_ARG, None, b1)
              else if cfg_mode cfg \<noteq> VIDEO_RAW_MODE_INLINE \<and>
                      LOAN_CAP < committed b1 + unat (cfg_queue_depth cfg + 1)
              then (ESP_ERR_NO_MEM, None, b1)
              else
                (case filter (\<lambda>i. \<not> in_use (sink_at b1 i)) [0..<length (s_sinks b1)] of
                   [] \<Rightarrow> (ESP_ERR_NOT_FOUND, None, b1)
                 | i # _ \<Rightarrow>
                     if cfg_mode cfg = VIDEO_RAW_MODE_INLINE
                     then (ESP_OK, Some i, put_sink i (new_sink cfg) b1)
                     else if \<not> q_ok \<or> cfg_callback cfg \<and> \<not> task_ok
                     then (ESP_ERR_NO_MEM, None, put_sink i empty_sink b1)
                     else (ESP_OK, Some i,
                           put_sink i ((new_sink cfg)\<lparr>sink_q := Some [], has_task := cfg_callback cfg,
                                                     task_run := cfg_callback cfg\<rparr>) b1))))"

definition set_sink_enabled :: "nat \<Rightarrow> bool \<Rightarrow> 'd raw_bus \<Rightarrow> 'd raw_bus" where
  "set_sink_enabled i e b = put_sink i ((sink_at b i)\<lparr>sink_enabled := e\<rparr>) b"

definition video_raw_sink_set_enabled :: "nat option \<Rightarrow> bool \<Rightarrow> 'd raw_bus \<Rightarrow> esp_err \<times> 'd raw_bus" where
  "video_raw_sink_set_enabled h enabled b =
     (if \<not> valid_handle h b then (ESP_ERR_INVALID_ARG, b)
      else let b1 = set_sink_enabled (the h) enabled b
           in (ESP_OK, if enabled then b1 else sink_drain (the h) b1))"

definition video_raw_sink_set_fps_limit :: "nat option \<Rightarrow> uint8 \<Rightarrow> 'd raw_bus \<Rightarrow> esp_err \<times> 'd raw_bus" where
  "video_raw_sink_set_fps_limit h fps b =
     (if \<not> valid_handle h b then (ESP_ERR_INVALID_ARG, b)
      else (ESP_OK, put_sink (the h) ((sink_at b (the h))\<lparr>fps_limit := fps\<rparr>) b))"

text \<open>
  The sections of \<open>video_raw_sink_unregister\<close>: it begins, it waits until no dispatch is inside the
  sink, it stops the task and drains the queue, it waits for the task or, for a while, for the
  consumer, and it clears the sink.
\<close>

definition unregister_begin :: "nat \<Rightarrow> 'd raw_bus \<Rightarrow> 'd raw_bus" where
  "unregister_begin i b = give_freed (set_sink_enabled i False b)"

definition unregister_may_stop :: "nat \<Rightarrow> 'd raw_bus \<Rightarrow> bool" where
  "unregister_may_stop i b \<longleftrightarrow> dispatch_refs (sink_at b i) = 0"

definition unregister_stop :: "nat \<Rightarrow> 'd raw_bus \<Rightarrow> 'd raw_bus" where
  "unregister_stop i b = put_sink i ((sink_at b i)\<lparr>task_run := False\<rparr>) b"

definition unregister_end :: "nat \<Rightarrow> 'd raw_bus \<Rightarrow> 'd raw_bus" where
  "unregister_end i b = put_sink i empty_sink b"

definition video_raw_bus_halt :: "'d raw_bus \<Rightarrow> 'd raw_bus" where
  "video_raw_bus_halt b =
     (if \<not> bus_ready b then b
      else b\<lparr>s_stopping := True, freed_sem := MEDIA_STREAM_CAM_BUFFER_COUNT * 2\<rparr>)"

definition video_raw_bus_resume :: "'d raw_bus \<Rightarrow> 'd raw_bus" where
  "video_raw_bus_resume b = b\<lparr>freed_sem := 0, s_stopping := False\<rparr>"

text \<open>The sinks to drain, and what \<open>video_raw_bus_drain\<close> answers once its wait is over.\<close>

definition drain_sinks :: "'d raw_bus \<Rightarrow> nat list" where
  "drain_sinks b = filter (\<lambda>i. in_use (sink_at b i)) [0..<length (s_sinks b)]"

definition drain_clean :: "nat list \<Rightarrow> 'd raw_bus \<Rightarrow> bool" where
  "drain_clean is b \<longleftrightarrow> (\<forall>i\<in>set is. in_flight (sink_at b i) = 0) \<and> (\<forall>s\<in>set (s_slots b). refs s = 0)"

fun drain_attempts :: "('d raw_bus \<Rightarrow> 'd raw_bus) \<Rightarrow> nat \<Rightarrow> nat list \<Rightarrow> 'd raw_bus \<Rightarrow> 'd raw_bus" where
  "drain_attempts env 0 is b = b"
| "drain_attempts env (Suc n) is b =
     (if \<forall>i\<in>set is. in_flight (sink_at b i) = 0 then b else drain_attempts env n is (env b))"

definition video_raw_bus_drain :: "('d raw_bus \<Rightarrow> 'd raw_bus) \<Rightarrow> 'd raw_bus \<Rightarrow> bool \<times> 'd raw_bus" where
  "video_raw_bus_drain env b =
     (if \<not> bus_ready b then (True, b)
      else
        let b1 = video_raw_bus_halt b; is = drain_sinks b1;
            b2 = drain_attempts env 200 is (fold sink_drain is b1)
        in (drain_clean is b2, b2))"

definition reset_sink_stats :: "'d raw_sink \<Rightarrow> 'd raw_sink" where
  "reset_sink_stats s =
     (if \<not> in_use s then s
      else s\<lparr>delivered := 0, drop_queue := 0, drop_inflight := 0, drop_nobuf := 0, drop_rate := 0,
             drop_timeout := 0, drop_convert := 0\<rparr>)"

definition video_raw_sink_reset_stats :: "'d raw_bus \<Rightarrow> 'd raw_bus" where
  "video_raw_sink_reset_stats b = (if bus_ready b then b\<lparr>s_sinks := map reset_sink_stats (s_sinks b)\<rparr> else b)"

text \<open>The statistics of the sinks in use, at most \<open>max_n\<close> of them, as far as they are modelled.\<close>

definition video_raw_sink_get_stats :: "nat \<Rightarrow> 'd raw_bus \<Rightarrow> esp_err \<times> 'd raw_sink list" where
  "video_raw_sink_get_stats max_n b =
     (if bus_ready b then (ESP_OK, take max_n (filter in_use (s_sinks b))) else (ESP_ERR_INVALID_ARG, []))"

end
