(* ===== verification/Raw_Bus_Run.thy ===== *)
theory Raw_Bus_Run
  imports Raw_Bus "HOL-Library.Multiset"
begin

text \<open>
  The slot table of the raw-frame bus against the descriptors that refer to it: each section of the
  code that takes or drops a reference keeps the count of a slot equal to the number of descriptors
  that name it, and accounts for the buffers handed over and returned.
\<close>

section \<open>The invariant of the table\<close>

definition loaned :: "'d raw_bus \<Rightarrow> nat set" where
  "loaned b = {ix. ix < MEDIA_STREAM_CAM_BUFFER_COUNT \<and> counted (slot_at b ix)}"

text \<open>A descriptor is good when its slot holds the buffer it was made for.\<close>

definition good_frame :: "'d raw_bus \<Rightarrow> 'd video_raw_frame \<Rightarrow> bool" where
  "good_frame b f \<longleftrightarrow>
     unat (fr_slot f) < MEDIA_STREAM_CAM_BUFFER_COUNT \<and>
     slot_gen (slot_at b (unat (fr_slot f))) = fr_generation f \<and>
     slot_fb (slot_at b (unat (fr_slot f))) = Some \<lparr>fb_index = fr_slot f, fb_data = fr_data f\<rparr>"

definition fbs_out :: "'d raw_bus \<Rightarrow> 'd video_fb multiset" where
  "fbs_out b = (\<Sum>ix\<in>{..<MEDIA_STREAM_CAM_BUFFER_COUNT}.
                  case slot_fb (slot_at b ix) of None \<Rightarrow> {#} | Some f \<Rightarrow> {#f#})"

definition slots_ok :: "'d raw_bus \<Rightarrow> 'd video_raw_frame multiset \<Rightarrow> 'd video_fb list \<Rightarrow> bool" where
  "slots_ok b F pub \<longleftrightarrow>
     length (s_slots b) = MEDIA_STREAM_CAM_BUFFER_COUNT \<and>
     (\<forall>ix < MEDIA_STREAM_CAM_BUFFER_COUNT.
        unat (refs (slot_at b ix)) = size {#f \<in># F. unat (fr_slot f) = ix#} \<and>
        (refs (slot_at b ix) = 0 \<longrightarrow> slot_fb (slot_at b ix) = None \<and> \<not> counted (slot_at b ix)) \<and>
        (\<forall>f. slot_fb (slot_at b ix) = Some f \<longrightarrow> unat (fb_index f) = ix)) \<and>
     (\<forall>f\<in>#F. good_frame b f) \<and>
     unat (s_pinned b) = card (loaned b) \<and> card (loaned b) \<le> LOAN_CAP \<and>
     mset pub = mset (returned b) + fbs_out b"

lemma slots_okD:
  assumes "slots_ok b F pub"
  shows "length (s_slots b) = MEDIA_STREAM_CAM_BUFFER_COUNT"
    and "ix < MEDIA_STREAM_CAM_BUFFER_COUNT \<Longrightarrow> unat (refs (slot_at b ix)) = size {#f \<in># F. unat (fr_slot f) = ix#}"
    and "ix < MEDIA_STREAM_CAM_BUFFER_COUNT \<Longrightarrow> refs (slot_at b ix) = 0 \<Longrightarrow>
           slot_fb (slot_at b ix) = None \<and> \<not> counted (slot_at b ix)"
    and "ix < MEDIA_STREAM_CAM_BUFFER_COUNT \<Longrightarrow> slot_fb (slot_at b ix) = Some fb \<Longrightarrow> unat (fb_index fb) = ix"
    and "f \<in># F \<Longrightarrow> good_frame b f"
    and "unat (s_pinned b) = card (loaned b)" "card (loaned b) \<le> LOAN_CAP"
    and "mset pub = mset (returned b) + fbs_out b"
  using assms unfolding slots_ok_def by blast+

named_theorems bus_simps \<open>what the updates of a bus do to its fields\<close>

lemma put_sink_fields [bus_simps]:
  "s_slots (put_sink i s b) = s_slots b" "s_sinks (put_sink i s b) = (s_sinks b)[i := s]"
  "bus_ready (put_sink i s b) = bus_ready b" "freed_sem (put_sink i s b) = freed_sem b"
  "s_pinned (put_sink i s b) = s_pinned b" "s_stopping (put_sink i s b) = s_stopping b"
  "returned (put_sink i s b) = returned b" "s_seq (put_sink i s b) = s_seq b"
  by (simp_all add: put_sink_def)

lemma put_slot_fields [bus_simps]:
  "s_slots (put_slot ix s b) = (s_slots b)[ix := s]" "s_sinks (put_slot ix s b) = s_sinks b"
  "bus_ready (put_slot ix s b) = bus_ready b" "freed_sem (put_slot ix s b) = freed_sem b"
  "s_pinned (put_slot ix s b) = s_pinned b" "s_stopping (put_slot ix s b) = s_stopping b"
  "returned (put_slot ix s b) = returned b" "s_seq (put_slot ix s b) = s_seq b"
  by (simp_all add: put_slot_def)

lemma give_freed_fields [bus_simps]:
  "s_slots (give_freed b) = s_slots b" "s_sinks (give_freed b) = s_sinks b"
  "s_pinned (give_freed b) = s_pinned b" "returned (give_freed b) = returned b" "bus_ready (give_freed b) = bus_ready b"
  by (simp_all add: give_freed_def)

lemma return_frame_fields [bus_simps]:
  "s_slots (return_frame t b) = s_slots b" "s_sinks (return_frame t b) = s_sinks b"
  "s_pinned (return_frame t b) = s_pinned b" "bus_ready (return_frame t b) = bus_ready b"
  "returned (return_frame t b) = returned b @ (case t of None \<Rightarrow> [] | Some f \<Rightarrow> [f])"
  by (simp_all add: return_frame_def split: option.splits)

lemma slots_ok_cong:
  "s_slots b' = s_slots b \<Longrightarrow> s_pinned b' = s_pinned b \<Longrightarrow> returned b' = returned b \<Longrightarrow>
   slots_ok b' F pub = slots_ok b F pub"
  by (simp add: slots_ok_def good_frame_def loaned_def fbs_out_def)

lemma loaned_finite [simp]: "finite (loaned b)" by (simp add: loaned_def)

lemma sum_update:
  assumes "finite A" "k \<in> A" "\<And>i. i \<in> A \<Longrightarrow> i \<noteq> k \<Longrightarrow> g i = f i"
  shows "f k + sum g A = g k + (sum f A :: 'x multiset)"
proof -
  have "sum g (A - {k}) = sum f (A - {k})" by (rule sum.cong) (use assms(3) in auto)
  then show ?thesis by (simp add: sum.remove[OF assms(1,2)] ac_simps)
qed

section \<open>A reference is dropped\<close>

definition dropped :: "nat \<Rightarrow> 'd raw_bus \<Rightarrow> 'd raw_bus" where
  "dropped ix b = (case drop_ref ix b of (t, b1) \<Rightarrow> return_frame t b1)"

lemma dropped_sinks [bus_simps]: "s_sinks (dropped ix b) = s_sinks b" "bus_ready (dropped ix b) = bus_ready b"
  by (simp_all add: dropped_def drop_ref_def Let_def bus_simps)

lemma good_frame_slots:
  "s_slots b' = (s_slots b)[ix := s] \<Longrightarrow> ix < length (s_slots b) \<Longrightarrow>
   (unat (fr_slot f) = ix \<Longrightarrow> slot_gen s = slot_gen (slot_at b ix) \<and> slot_fb s = slot_fb (slot_at b ix)) \<Longrightarrow>
   good_frame b' f = good_frame b f"
  by (cases "unat (fr_slot f) = ix") (auto simp: good_frame_def nth_list_update)

lemma slots_ok_dropped:
  assumes ok: "slots_ok b (add_mset f F) pub"
  shows "slots_ok (dropped (unat (fr_slot f)) b) F pub"
proof -
  let ?ix = "unat (fr_slot f)" let ?s = "slot_at b ?ix"
  have len: "length (s_slots b) = MEDIA_STREAM_CAM_BUFFER_COUNT" using ok by (simp add: slots_ok_def)
  have ix: "?ix < MEDIA_STREAM_CAM_BUFFER_COUNT" using ok by (simp add: slots_ok_def good_frame_def)
  have r: "unat (refs ?s) = Suc (size {#g \<in># F. unat (fr_slot g) = ?ix#})" using ok ix by (simp add: slots_ok_def)
  have others: "unat (refs (slot_at b ix)) = size {#g \<in># F. unat (fr_slot g) = ix#}"
    if "ix < MEDIA_STREAM_CAM_BUFFER_COUNT" "ix \<noteq> ?ix" for ix
    using ok that by (simp add: slots_ok_def)
  have r1: "unat (refs ?s - 1) = size {#g \<in># F. unat (fr_slot g) = ?ix#}"
  proof -
    have "refs ?s \<noteq> 0" using r by auto
    then show ?thesis using r by (simp add: unat_minus_one)
  qed
  show ?thesis
  proof (cases "refs ?s - 1 = 0")
    case False
    then have d: "dropped ?ix b = put_slot ?ix (?s\<lparr>refs := refs ?s - 1\<rparr>) b"
      by (simp add: dropped_def drop_ref_def Let_def return_frame_def)
    have at: "slot_at (dropped ?ix b) ix = (if ix = ?ix then ?s\<lparr>refs := refs ?s - 1\<rparr> else slot_at b ix)" for ix
      using ix len by (simp add: d bus_simps)
    have g: "good_frame (dropped ?ix b) h = good_frame b h" for h by (simp add: good_frame_def at)
    have l: "loaned (dropped ?ix b) = loaned b" by (auto simp: loaned_def at)
    have o: "fbs_out (dropped ?ix b) = fbs_out b" unfolding fbs_out_def by (rule sum.cong) (simp_all add: at)
    show ?thesis
      unfolding slots_ok_def g l o
      using ok others r1 False by (auto simp: at slots_ok_def) (simp_all add: d bus_simps)
  next
    case True
    then have F: "{#g \<in># F. unat (fr_slot g) = ?ix#} = {#}" using r1 by simp
    let ?s' = "?s\<lparr>refs := 0, counted := False, slot_fb := None\<rparr>"
    have at: "slot_at (dropped ?ix b) ix = (if ix = ?ix then ?s' else slot_at b ix)" for ix
      using ix len True by (simp add: dropped_def drop_ref_def Let_def bus_simps)
    have len': "length (s_slots (dropped ?ix b)) = MEDIA_STREAM_CAM_BUFFER_COUNT"
      using len by (simp add: dropped_def drop_ref_def Let_def bus_simps)
    have g: "good_frame (dropped ?ix b) h" if "h \<in># F" for h
    proof -
      have "unat (fr_slot h) \<noteq> ?ix" using arg_cong[OF F, of set_mset] that by auto
      moreover have "good_frame b h" using ok that by (simp add: slots_ok_def)
      ultimately show ?thesis by (simp add: good_frame_def at)
    qed
    have l: "loaned (dropped ?ix b) = loaned b - {?ix}" by (auto simp: loaned_def at)
    have pin: "unat (s_pinned (dropped ?ix b)) = card (loaned b - {?ix})"
    proof (cases "counted ?s")
      case True
      then have mem: "?ix \<in> loaned b" using ix by (simp add: loaned_def)
      then have "0 < card (loaned b)" by (auto simp: card_gt_0_iff)
      then have "s_pinned b \<noteq> 0" using ok by (auto simp: slots_ok_def)
      then have "unat (s_pinned b - 1) = card (loaned b) - 1" using ok by (simp add: slots_ok_def unat_minus_one)
      then show ?thesis using True \<open>refs ?s - 1 = 0\<close> mem
        by (simp add: dropped_def drop_ref_def Let_def bus_simps)
    next
      case False
      then have "loaned b - {?ix} = loaned b" by (auto simp: loaned_def)
      then show ?thesis using False \<open>refs ?s - 1 = 0\<close> ok
        by (simp add: dropped_def drop_ref_def Let_def bus_simps slots_ok_def)
    qed
    have out: "mset (returned (dropped ?ix b)) + fbs_out (dropped ?ix b) = mset (returned b) + fbs_out b"
    proof -
      let ?p = "\<lambda>b ix. case slot_fb (slot_at b ix) of None \<Rightarrow> {#} | Some f \<Rightarrow> {#f#}"
      have "?p b ?ix + fbs_out (dropped ?ix b) = ?p (dropped ?ix b) ?ix + fbs_out b"
        unfolding fbs_out_def by (rule sum_update) (use ix in \<open>simp_all add: at\<close>)
      moreover have "mset (returned (dropped ?ix b)) = mset (returned b) + ?p b ?ix"
        using True by (simp add: dropped_def drop_ref_def Let_def bus_simps split: option.splits)
      ultimately show ?thesis by (simp add: at ac_simps)
    qed
    have "card (loaned b - {?ix}) \<le> LOAN_CAP"
      using ok card_Diff1_le[of "loaned b" ?ix] by (simp add: slots_ok_def)
    then show ?thesis
      unfolding slots_ok_def l out len'
      using ok others r1 True g pin F by (auto simp: at slots_ok_def)
  qed
qed

text \<open>The other descriptors stay charged to the loans if they were.\<close>

definition charged :: "'d raw_bus \<Rightarrow> 'd video_raw_frame \<Rightarrow> bool" where
  "charged b f \<longleftrightarrow> counted (slot_at b (unat (fr_slot f)))"

lemma charged_cong: "s_slots b' = s_slots b \<Longrightarrow> charged b' f = charged b f"
  by (simp add: charged_def)

lemma charged_dropped:
  assumes ok: "slots_ok b (add_mset f F) pub" and h: "h \<in># F" "charged b h"
  shows "charged (dropped (unat (fr_slot f)) b) h"
proof (cases "fr_slot h = fr_slot f")
  case True
  let ?ix = "unat (fr_slot f)"
  have ix: "?ix < MEDIA_STREAM_CAM_BUFFER_COUNT" using slots_okD(5)[OF ok, of f] by (simp add: good_frame_def)
  have "h \<in># {#g \<in># F. unat (fr_slot g) = ?ix#}" using h(1) True by simp
  then have "size {#g \<in># F. unat (fr_slot g) = ?ix#} \<noteq> 0" by (metis empty_iff set_mset_empty size_eq_0_iff_empty)
  then have "1 \<le> size {#g \<in># F. unat (fr_slot g) = ?ix#}" by linarith
  moreover have "unat (refs (slot_at b ?ix)) = Suc (size {#g \<in># F. unat (fr_slot g) = ?ix#})" using slots_okD(2)[OF ok ix] by simp
  ultimately have two: "2 \<le> unat (refs (slot_at b ?ix))" by linarith
  then have "refs (slot_at b ?ix) \<noteq> 0" by auto
  then have "unat (refs (slot_at b ?ix) - 1) \<noteq> 0" using two by (simp add: unat_minus_one)
  then have "refs (slot_at b ?ix) - 1 \<noteq> 0" by auto
  then show ?thesis using h(2) True ix slots_okD(1)[OF ok]
    by (simp add: charged_def dropped_def drop_ref_def Let_def return_frame_def bus_simps)
next
  case False
  then have "unat (fr_slot f) \<noteq> unat (fr_slot h)" by (simp add: word_unat_eq_iff)
  then show ?thesis using h(2) by (simp add: charged_def dropped_def drop_ref_def Let_def bus_simps)
qed

lemma slot_release_good:
  assumes "slots_ok b (add_mset f F) pub"
  shows "slot_release (fr_slot f) (fr_generation f) b = give_freed (dropped (unat (fr_slot f)) b)"
proof -
  have good: "unat (fr_slot f) < MEDIA_STREAM_CAM_BUFFER_COUNT" "slot_gen (slot_at b (unat (fr_slot f))) = fr_generation f"
    using assms by (simp_all add: slots_ok_def good_frame_def)
  have "unat (refs (slot_at b (unat (fr_slot f)))) \<noteq> 0" using assms good by (simp add: slots_ok_def)
  then have "refs (slot_at b (unat (fr_slot f))) \<noteq> 0" by auto
  moreover have "fr_slot f \<noteq> NO_SLOT" using good(1) by (auto simp: NO_SLOT_def MEDIA_STREAM_CAM_BUFFER_COUNT_def)
  ultimately show ?thesis using good by (simp add: slot_release_def dropped_def split: prod.split)
qed

lemma slots_ok_release:
  "slots_ok b (add_mset f F) pub \<Longrightarrow> slots_ok (slot_release (fr_slot f) (fr_generation f) b) F pub"
  using slots_ok_dropped by (simp add: slot_release_good slots_ok_cong[of "give_freed _" "_"] bus_simps)

lemma charged_release:
  "slots_ok b (add_mset f F) pub \<Longrightarrow> h \<in># F \<Longrightarrow> charged b h \<Longrightarrow> charged (slot_release (fr_slot f) (fr_generation f) b) h"
  using charged_dropped by (simp add: slot_release_good charged_cong[of "give_freed _" "_"] bus_simps)

lemma slot_release_sinks [bus_simps]:
  "s_sinks (slot_release sl g b) = s_sinks b" "bus_ready (slot_release sl g b) = bus_ready b"
  by (simp_all add: slot_release_def drop_ref_def Let_def bus_simps)

lemma evict_good:
  assumes ok: "slots_ok b (add_mset old F) pub" and q: "sink_q (sink_at b i) = Some (old # rest)"
    and i: "i < length (s_sinks b)" and cam: "\<not> fr_owned old"
  shows "\<exists>t b'. evict_oldest_locked i b = Some (t, b') \<and> slots_ok (give_freed (return_frame t b')) F pub \<and>
           (\<forall>h\<in>#F. charged b h \<longrightarrow> charged (give_freed (return_frame t b')) h) \<and> bus_ready b' = bus_ready b \<and>
           s_sinks b' = (s_sinks b)[i := (sink_at b i)\<lparr>sink_q := Some rest, in_flight := in_flight (sink_at b i) - 1,
                                                       drop_queue := drop_queue (sink_at b i) + 1\<rparr>]"
proof -
  let ?b1 = "put_sink i ((sink_at b i)\<lparr>sink_q := Some rest\<rparr>) b" and ?ix = "unat (fr_slot old)"
  have ok1: "slots_ok ?b1 (add_mset old F) pub" using ok by (simp add: slots_ok_cong[of ?b1 b] bus_simps)
  have good: "?ix < MEDIA_STREAM_CAM_BUFFER_COUNT" "slot_gen (slot_at ?b1 ?ix) = fr_generation old"
    using ok1 by (simp_all add: slots_ok_def good_frame_def)
  have "unat (refs (slot_at ?b1 ?ix)) \<noteq> 0" using ok1 good(1) by (simp add: slots_ok_def)
  then have r: "0 < refs (slot_at ?b1 ?ix)" by (metis word_neq_0_conv unat_0)
  have ns: "fr_slot old \<noteq> NO_SLOT" using good(1) by (auto simp: NO_SLOT_def MEDIA_STREAM_CAM_BUFFER_COUNT_def)
  obtain t b2 where d: "drop_ref ?ix ?b1 = (t, b2)" by (cases "drop_ref ?ix ?b1")
  then have dr: "return_frame t b2 = dropped ?ix ?b1" by (simp add: dropped_def)
  have s2: "s_sinks b2 = s_sinks ?b1" "bus_ready b2 = bus_ready ?b1"
    using arg_cong[OF dr, of s_sinks] arg_cong[OF dr, of bus_ready] by (simp_all add: bus_simps)
  let ?s = "(sink_at b2 i)\<lparr>in_flight := in_flight (sink_at b2 i) - 1, drop_queue := drop_queue (sink_at b2 i) + 1\<rparr>"
  have e: "evict_oldest_locked i b = Some (t, put_sink i ?s b2)"
    by (simp only: evict_oldest_locked_def q Let_def option.case list.case cam ns good(2) r d prod.case
        if_False if_True simp_thms)
  have "slots_ok (return_frame t b2) F pub" unfolding dr by (rule slots_ok_dropped[OF ok1])
  then have "slots_ok (give_freed (return_frame t (put_sink i ?s b2))) F pub"
    by (subst slots_ok_cong[of _ "return_frame t b2"]) (simp_all add: bus_simps)
  moreover have "charged (give_freed (return_frame t (put_sink i ?s b2))) h" if h: "h \<in># F" "charged b h" for h
  proof -
    have "charged (dropped ?ix ?b1) h"
      by (rule charged_dropped[OF ok1 h(1)]) (use h(2) in \<open>simp add: charged_cong[of ?b1 b] bus_simps\<close>)
    then show ?thesis unfolding dr[symmetric]
      by (subst charged_cong[of _ "return_frame t b2"]) (simp_all add: bus_simps)
  qed
  ultimately show ?thesis using e s2 i by (simp add: bus_simps)
qed

section \<open>A reference is taken\<close>

definition taken :: "nat \<Rightarrow> 'd raw_bus \<Rightarrow> 'd raw_bus" where
  "taken ix b =
     (let b0 = put_slot ix ((slot_at b ix)\<lparr>refs := refs (slot_at b ix) + 1, counted := True\<rparr>) b
      in if counted (slot_at b ix) then b0 else b0\<lparr>s_pinned := s_pinned b0 + 1\<rparr>)"

lemma taken_sinks [bus_simps]: "s_sinks (taken ix b) = s_sinks b" "bus_ready (taken ix b) = bus_ready b"
  by (simp_all add: taken_def Let_def bus_simps)

lemma LOAN_CAP_small: "LOAN_CAP < 255" by (simp add: LOAN_CAP_def MEDIA_STREAM_CAM_BUFFER_COUNT_def)

lemma slots_ok_taken:
  assumes ok: "slots_ok b F pub" and f: "f \<in># F" and few: "size {#g \<in># F. fr_slot g = fr_slot f#} < 255"
    and loan: "counted (slot_at b (unat (fr_slot f))) \<or> unat (s_pinned b) < LOAN_CAP"
  shows "slots_ok (taken (unat (fr_slot f)) b) (add_mset f F) pub"
proof -
  let ?ix = "unat (fr_slot f)" let ?s = "slot_at b ?ix"
  let ?s' = "?s\<lparr>refs := refs ?s + 1, counted := True\<rparr>"
  have len: "length (s_slots b) = MEDIA_STREAM_CAM_BUFFER_COUNT" using ok by (simp add: slots_ok_def)
  have gf: "good_frame b f" using ok f by (simp add: slots_ok_def)
  then have ix: "?ix < MEDIA_STREAM_CAM_BUFFER_COUNT" by (simp add: good_frame_def)
  have "unat (refs ?s) = size {#g \<in># F. unat (fr_slot g) = ?ix#}" using ok ix by (simp add: slots_ok_def)
  moreover have "{#g \<in># F. unat (fr_slot g) = ?ix#} = {#g \<in># F. fr_slot g = fr_slot f#}"
    by (rule filter_mset_cong) (simp_all add: word_unat_eq_iff)
  ultimately have r: "unat (refs ?s + 1) = Suc (size {#g \<in># F. unat (fr_slot g) = ?ix#})"
    using few by (simp add: unat_word_ariths)
  have at: "slot_at (taken ?ix b) ix = (if ix = ?ix then ?s' else slot_at b ix)" for ix
    using ix len by (simp add: taken_def Let_def bus_simps)
  have len': "length (s_slots (taken ?ix b)) = MEDIA_STREAM_CAM_BUFFER_COUNT"
    using len by (simp add: taken_def Let_def bus_simps)
  have g: "good_frame (taken ?ix b) h = good_frame b h" for h by (simp add: good_frame_def at)
  have o: "fbs_out (taken ?ix b) = fbs_out b" unfolding fbs_out_def by (rule sum.cong) (simp_all add: at)
  have l: "loaned (taken ?ix b) = insert ?ix (loaned b)" using ix by (auto simp: loaned_def at)
  have pin: "unat (s_pinned (taken ?ix b)) = card (insert ?ix (loaned b)) \<and> card (insert ?ix (loaned b)) \<le> LOAN_CAP"
  proof (cases "counted ?s")
    case True
    then have "insert ?ix (loaned b) = loaned b" using ix by (auto simp: loaned_def)
    then show ?thesis using True ok by (simp add: slots_ok_def taken_def bus_simps)
  next
    case False
    then have "?ix \<notin> loaned b" by (simp add: loaned_def)
    moreover have "unat (s_pinned b + 1) = unat (s_pinned b) + 1"
      using loan False LOAN_CAP_small by (simp add: unat_word_ariths)
    ultimately show ?thesis using False loan ok by (simp add: slots_ok_def taken_def Let_def bus_simps)
  qed
  have ret: "returned (taken ?ix b) = returned b" by (simp add: taken_def Let_def bus_simps)
  have "refs ?s + 1 \<noteq> 0" using r by auto
  then show ?thesis
    unfolding slots_ok_def g l o len' ret
    using ok r pin gf by (auto simp: at slots_ok_def)
qed

lemma charged_taken:
  assumes "unat (fr_slot f) < length (s_slots b)"
  shows "charged (taken (unat (fr_slot f)) b) f" "charged b h \<Longrightarrow> charged (taken (unat (fr_slot f)) b) h"
  using assms by (cases "unat (fr_slot h) = unat (fr_slot f)"; simp add: charged_def taken_def Let_def bus_simps)+

section \<open>A buffer is published\<close>

lemma slots_ok_publish:
  assumes ok: "slots_ok b F pub" and ready: "bus_ready b"
    and small: "unat (fb_index fb) < MEDIA_STREAM_CAM_BUFFER_COUNT"
    and free: "slot_fb (slot_at b (unat (fb_index fb))) = None"
    and step: "publish_begin (Some fb) fourcc fps b = (b', p)"
  shows "\<exists>d. p = Pump_Snapshot d fps \<and> fr_slot d = fb_index fb \<and> \<not> fr_owned d \<and>
           slots_ok b' (add_mset d F) (pub @ [fb]) \<and> s_sinks b' = s_sinks b \<and> bus_ready b' \<and>
           (\<forall>f\<in>#F. fr_slot f \<noteq> fr_slot d \<and> charged b' f = charged b f)"
proof -
  let ?ix = "unat (fb_index fb)" let ?s = "slot_at b ?ix"
  let ?s' = "\<lparr>refs = 1, slot_gen = slot_gen ?s + 1, slot_fb = Some fb, counted = False\<rparr>"
  let ?d = "\<lparr>fr_data = fb_data fb, fr_fourcc = fourcc, fr_seq = s_seq b + 1, fr_slot = fb_index fb,
             fr_generation = slot_gen ?s + 1, fr_owned = False\<rparr>"
  have len: "length (s_slots b) = MEDIA_STREAM_CAM_BUFFER_COUNT" using ok by (simp add: slots_ok_def)
  have b': "b' = (put_slot ?ix ?s' b)\<lparr>s_seq := s_seq b + 1\<rparr>" and p: "p = Pump_Snapshot ?d fps"
    using step ready small by (simp_all add: publish_begin_def Let_def bus_simps)
  have none: "unat (fr_slot f) \<noteq> ?ix" if "f \<in># F" for f
  proof -
    have "good_frame b f" using ok that by (simp add: slots_ok_def)
    then show ?thesis using free by (auto simp: good_frame_def)
  qed
  then have F: "{#f \<in># F. unat (fr_slot f) = ?ix#} = {#}" by (subst set_mset_eq_empty_iff[symmetric]) auto
  have at: "slot_at b' ix = (if ix = ?ix then ?s' else slot_at b ix)" for ix
    using small len by (simp add: b' bus_simps)
  have len': "length (s_slots b') = MEDIA_STREAM_CAM_BUFFER_COUNT" using len by (simp add: b' bus_simps)
  have g: "good_frame b' f" if "f \<in># F" for f
  proof -
    have "good_frame b f" using ok that by (simp add: slots_ok_def)
    then show ?thesis using none[OF that] by (simp add: good_frame_def at)
  qed
  have gd: "good_frame b' ?d" using small by (simp add: good_frame_def at)
  have nc: "\<not> counted ?s"
  proof
    assume "counted ?s"
    then have "refs ?s \<noteq> 0" using ok small unfolding slots_ok_def by blast
    then have "unat (refs ?s) \<noteq> 0" using unat_gt_0[of "refs ?s"] by simp
    moreover have "unat (refs ?s) = size {#f \<in># F. unat (fr_slot f) = ?ix#}"
      using ok small unfolding slots_ok_def by blast
    ultimately show False using F by simp
  qed
  have l: "loaned b' = loaned b" using nc by (auto simp: loaned_def at)
  have out: "fbs_out b' = add_mset fb (fbs_out b)"
  proof -
    let ?p = "\<lambda>b ix. case slot_fb (slot_at b ix) of None \<Rightarrow> {#} | Some f \<Rightarrow> {#f#}"
    have "?p b ?ix + fbs_out b' = ?p b' ?ix + fbs_out b"
      unfolding fbs_out_def by (rule sum_update) (use small in \<open>simp_all add: at\<close>)
    then show ?thesis using free by (simp add: at)
  qed
  have rest: "s_pinned b' = s_pinned b" "returned b' = returned b" "s_sinks b' = s_sinks b" "bus_ready b'"
    using ready by (simp_all add: b' bus_simps)
  have "slots_ok b' (add_mset ?d F) (pub @ [fb])"
    unfolding slots_ok_def l out len' rest
  proof (intro conjI allI impI ballI)
    fix ix assume ix: "ix < MEDIA_STREAM_CAM_BUFFER_COUNT"
    show "unat (refs (slot_at b' ix)) = size {#f \<in># add_mset ?d F. unat (fr_slot f) = ix#}"
      using F slots_okD(2)[OF ok ix] by (auto simp: at)
    show "unat (fb_index f) = ix" if "slot_fb (slot_at b' ix) = Some f" for f
      using that slots_okD(4)[OF ok ix] by (auto simp: at split: if_splits)
    assume "refs (slot_at b' ix) = 0"
    then show "slot_fb (slot_at b' ix) = None" "\<not> counted (slot_at b' ix)"
      using slots_okD(3)[OF ok ix] by (auto simp: at split: if_splits)
  next
    fix f assume "f \<in># add_mset ?d F"
    then show "good_frame b' f" using g gd by auto
  qed (use slots_okD(6-8)[OF ok] in simp_all)
  moreover have "charged b' f = charged b f" if "f \<in># F" for f using none[OF that] by (simp add: charged_def at)
  ultimately show ?thesis using p rest none by (auto simp: word_unat_eq_iff)
qed

section \<open>The bus in use\<close>

text \<open>
  The raw-frame bus in use: one pump, any consumers and any tasks that control the sinks, whose
  critical sections are interleaved in any order. A frame that a task has taken out of a queue is a
  hand: \<open>Got\<close> while the task works on it, \<open>Off\<close> once it is no longer counted in flight, \<open>Gone\<close> when
  its conversion failed and only the count is left, \<open>Leaked\<close> when its pull consumer kept it beyond
  the unregistration of its sink. What the bus asks of its users is in the rules: the driver hands
  over only a buffer it has, nobody uses a sink while it is being unregistered, and a frame is given
  back once. The return of a buffer to the driver is part of the section that drops its last
  reference, as is the end of a failed conversion.
\<close>

section \<open>The world\<close>

datatype 'd hand =
    Got nat "'d video_raw_frame"
  | Off nat "'d video_raw_frame"
  | Gone nat
  | Leaked nat "'d video_raw_frame"

record 'd raw_world =
  rw_bus :: "'d raw_bus"
  rw_pump :: "'d pump"
  rw_hands :: "'d hand multiset"
  rw_published :: "'d video_fb list"
  rw_closing :: "nat \<Rightarrow> nat"

text \<open>The driver has a buffer that was never handed over, or was returned as often as it was.\<close>

definition with_driver :: "'d raw_world \<Rightarrow> uint8 \<Rightarrow> bool" where
  "with_driver w ix \<longleftrightarrow>
     size {#f \<in># mset (rw_published w). fb_index f = ix#} = size {#f \<in># mset (returned (rw_bus w)). fb_index f = ix#}"

fun leak :: "nat \<Rightarrow> 'd hand \<Rightarrow> 'd hand" where
  "leak i (Got j f) = (if j = i then Leaked j f else Got j f)"
| "leak i h = h"

fun inside :: "nat \<Rightarrow> 'd hand \<Rightarrow> bool" where
  "inside i (Off j f) = (j = i)"
| "inside i (Gone j) = (j = i)"
| "inside i h = False"

fun works_on :: "nat \<Rightarrow> 'd hand \<Rightarrow> bool" where
  "works_on i (Got j f) = (j = i)"
| "works_on i h = False"

inductive raw_step :: "'d raw_world \<Rightarrow> 'd raw_world \<Rightarrow> bool" where
  raw_publish: "rw_pump w = Pump_Idle \<Longrightarrow> with_driver w (fb_index fb) \<Longrightarrow>
    publish_begin (Some fb) fourcc fps (rw_bus w) = (b, p) \<Longrightarrow>
    raw_step w (w\<lparr>rw_bus := b, rw_pump := p, rw_published := rw_published w @ [fb]\<rparr>)"
| raw_pump: "pump_step in_time (rw_bus w) (rw_pump w) = (b, p) \<Longrightarrow> raw_step w (w\<lparr>rw_bus := b, rw_pump := p\<rparr>)"
| raw_take: "i < length (s_sinks (rw_bus w)) \<Longrightarrow> queue_receive i (rw_bus w) = (Some f, b) \<Longrightarrow>
    raw_step w (w\<lparr>rw_bus := b, rw_hands := add_mset (Got i f) (rw_hands w)\<rparr>)"
| raw_converted: "rw_hands w = add_mset (Got i f) H \<Longrightarrow> \<not> fr_owned f \<Longrightarrow>
    sink_convert i f created run (rw_bus w) = (Some f', b) \<Longrightarrow>
    raw_step w (w\<lparr>rw_bus := b, rw_hands := add_mset (Got i f') H\<rparr>)"
| raw_not_converted: "rw_hands w = add_mset (Got i f) H \<Longrightarrow> \<not> fr_owned f \<Longrightarrow>
    sink_convert i f created run (rw_bus w) = (None, b) \<Longrightarrow>
    raw_step w (w\<lparr>rw_bus := b, rw_hands := add_mset (Gone i) H\<rparr>)"
| raw_hold: "rw_hands w = add_mset (Got i f) H \<Longrightarrow>
    raw_step w (w\<lparr>rw_bus := put_sink i ((sink_at (rw_bus w) i)\<lparr>held := True\<rparr>) (rw_bus w)\<rparr>)"
| raw_count_off: "rw_hands w = add_mset (Got i f) H \<Longrightarrow>
    raw_step w (w\<lparr>rw_bus := count_off i (rw_bus w), rw_hands := add_mset (Off i f) H\<rparr>)"
| raw_release_hold: "rw_hands w = add_mset (Got i f) H \<Longrightarrow>
    raw_step w (w\<lparr>rw_bus := release_hold i (rw_bus w), rw_hands := add_mset (Off i f) H\<rparr>)"
| raw_gone_off: "rw_hands w = add_mset (Gone i) H \<Longrightarrow>
    raw_step w (w\<lparr>rw_bus := count_off_guarded i (rw_bus w), rw_hands := H\<rparr>)"
| raw_release: "rw_hands w = add_mset (Off i f) H \<Longrightarrow>
    raw_step w (w\<lparr>rw_bus := frame_release f (rw_bus w), rw_hands := H\<rparr>)"
| raw_enable: "in_use (sink_at (rw_bus w) i) \<Longrightarrow> i < length (s_sinks (rw_bus w)) \<Longrightarrow> (e \<longrightarrow> rw_closing w i = 0) \<Longrightarrow>
    raw_step w (w\<lparr>rw_bus := set_sink_enabled i e (rw_bus w)\<rparr>)"
| raw_fps: "video_raw_sink_set_fps_limit h fps (rw_bus w) = (err, b) \<Longrightarrow> raw_step w (w\<lparr>rw_bus := b\<rparr>)"
| raw_register: "video_raw_sink_register (video_raw_bus_init l1 l2 l3 c) check_dst q_ok task_ok cfgp (rw_bus w) = (err, h, b) \<Longrightarrow>
    raw_step w (w\<lparr>rw_bus := b\<rparr>)"
| raw_unregister: "in_use (sink_at (rw_bus w) i) \<Longrightarrow> i < length (s_sinks (rw_bus w)) \<Longrightarrow> rw_closing w i = 0 \<Longrightarrow>
    raw_step w (w\<lparr>rw_bus := unregister_begin i (rw_bus w), rw_closing := (rw_closing w)(i := 1)\<rparr>)"
| raw_stop: "rw_closing w i = 1 \<Longrightarrow> unregister_may_stop i (rw_bus w) \<Longrightarrow>
    raw_step w (w\<lparr>rw_bus := unregister_stop i (rw_bus w), rw_closing := (rw_closing w)(i := 2)\<rparr>)"
| raw_drained: "rw_closing w i = 2 \<Longrightarrow> queue_receive i (rw_bus w) = (None, b) \<Longrightarrow>
    raw_step w (w\<lparr>rw_closing := (rw_closing w)(i := 3)\<rparr>)"
| raw_end: "rw_closing w i = 3 \<Longrightarrow> (\<forall>h\<in>#rw_hands w. \<not> inside i h) \<Longrightarrow>
    (has_task (sink_at (rw_bus w) i) \<Longrightarrow> \<forall>h\<in>#rw_hands w. \<not> works_on i h) \<Longrightarrow>
    raw_step w (w\<lparr>rw_bus := unregister_end i (rw_bus w), rw_hands := image_mset (leak i) (rw_hands w),
                  rw_closing := (rw_closing w)(i := 0)\<rparr>)"
| raw_halt: "raw_step w (w\<lparr>rw_bus := video_raw_bus_halt (rw_bus w)\<rparr>)"
| raw_resume: "raw_step w (w\<lparr>rw_bus := video_raw_bus_resume (rw_bus w)\<rparr>)"
| raw_reset_stats: "raw_step w (w\<lparr>rw_bus := video_raw_sink_reset_stats (rw_bus w)\<rparr>)"

text \<open>The bus starts when \<open>video_raw_bus_init\<close> has succeeded.\<close>

definition raw_start :: "'d raw_world" where
  "raw_start = \<lparr>rw_bus = snd (video_raw_bus_init True True True ESP_OK bus_start), rw_pump = Pump_Idle,
                rw_hands = {#}, rw_published = [], rw_closing = (\<lambda>_. 0)\<rparr>"

definition raw_reachable :: "'d raw_world \<Rightarrow> bool" where
  "raw_reachable w \<longleftrightarrow> raw_step\<^sup>*\<^sup>* raw_start w"

section \<open>Who refers to a buffer\<close>

definition queue_of :: "'d raw_sink \<Rightarrow> 'd video_raw_frame list" where
  "queue_of s = (case sink_q s of None \<Rightarrow> [] | Some fs \<Rightarrow> fs)"

fun hand_frames :: "'d hand \<Rightarrow> (nat \<times> 'd video_raw_frame) multiset" where
  "hand_frames (Got i f) = {#(i, f)#}"
| "hand_frames (Off i f) = {#(i, f)#}"
| "hand_frames (Gone i) = {#}"
| "hand_frames (Leaked i f) = {#(i, f)#}"

fun hand_counts :: "'d hand \<Rightarrow> nat multiset" where
  "hand_counts (Got i f) = {#i#}"
| "hand_counts (Gone i) = {#i#}"
| "hand_counts h = {#}"

definition queued :: "'d raw_bus \<Rightarrow> (nat \<times> 'd video_raw_frame) multiset" where
  "queued b = (\<Sum>i\<in>{..<length (s_sinks b)}. image_mset (Pair i) (mset (queue_of (sink_at b i))))"

definition in_hands :: "'d hand multiset \<Rightarrow> (nat \<times> 'd video_raw_frame) multiset" where
  "in_hands H = (\<Sum>h\<in>#H. hand_frames h)"

definition counting :: "'d hand multiset \<Rightarrow> nat multiset" where
  "counting H = (\<Sum>h\<in>#H. hand_counts h)"

lemma in_hands_simps [simp]: "in_hands {#} = {#}" "in_hands (add_mset h H) = hand_frames h + in_hands H"
  by (simp_all add: in_hands_def)

lemma counting_simps [simp]: "counting {#} = {#}" "counting (add_mset h H) = hand_counts h + counting H"
  by (simp_all add: counting_def)

definition camera_frames :: "'d raw_world \<Rightarrow> (nat \<times> 'd video_raw_frame) multiset" where
  "camera_frames w = {#p \<in># queued (rw_bus w) + in_hands (rw_hands w). \<not> fr_owned (snd p)#}"

fun pump_frames :: "'d pump \<Rightarrow> 'd video_raw_frame multiset" where
  "pump_frames Pump_Idle = {#}"
| "pump_frames (Pump_Snapshot d fps) = {#d#}"
| "pump_frames (Pump_Next d fps todo) = {#d#}"
| "pump_frames (Pump_Enqueue d fps i todo) = {#d#}"
| "pump_frames (Pump_Blocked d fps i todo) = {#d#}"
| "pump_frames (Pump_Leave d fps i todo) = {#d#}"

definition referring :: "'d raw_world \<Rightarrow> 'd video_raw_frame multiset" where
  "referring w = image_mset snd (camera_frames w) + pump_frames (rw_pump w)"

text \<open>The sinks the pump is dispatching to, and those that have not been offered the frame yet.\<close>

fun dispatching :: "'d pump \<Rightarrow> nat list" where
  "dispatching (Pump_Next d fps todo) = todo"
| "dispatching (Pump_Enqueue d fps i todo) = i # todo"
| "dispatching (Pump_Blocked d fps i todo) = i # todo"
| "dispatching (Pump_Leave d fps i todo) = i # todo"
| "dispatching p = []"

fun awaits :: "'d pump \<Rightarrow> nat \<Rightarrow> bool" where
  "awaits (Pump_Snapshot d fps) i = True"
| "awaits (Pump_Leave d fps j todo) i = (i \<in> set todo)"
| "awaits p i = (i \<in> set (dispatching p))"

section \<open>The invariant\<close>

definition sink_ok :: "'d raw_sink \<Rightarrow> nat \<Rightarrow> nat \<Rightarrow> nat \<Rightarrow> bool" where
  "sink_ok s c p st \<longleftrightarrow>
     unat (in_flight s) = length (queue_of s) + c \<and> in_flight s \<le> cap s \<and>
     (in_use s \<longrightarrow> unat (cap s) = unat (queue_depth s) + 1) \<and>
     unat (dispatch_refs s) = p \<and> (0 < p \<longrightarrow> in_use s) \<and> (\<forall>f\<in>set (queue_of s). \<not> fr_owned f) \<and>
     (0 < st \<longrightarrow> in_use s \<and> \<not> sink_enabled s) \<and> (1 < st \<longrightarrow> p = 0) \<and> (2 < st \<longrightarrow> queue_of s = []) \<and>
     (\<not> in_use s \<longrightarrow> s = empty_sink)"

definition claims_ok :: "(nat \<times> 'd video_raw_frame) multiset \<Rightarrow> 'd pump \<Rightarrow> bool" where
  "claims_ok C p \<longleftrightarrow>
     (\<forall>i sl. size {#x \<in># C. fst x = i \<and> fr_slot (snd x) = sl#} \<le> 1) \<and>
     (\<forall>x\<in>#C. fst x < CONFIG_VIDEO_RAW_SINK_MAX) \<and>
     (\<forall>d\<in>#pump_frames p. \<not> fr_owned d) \<and>
     (\<forall>i. awaits p i \<longrightarrow> (\<forall>d\<in>#pump_frames p. \<forall>x\<in>#C. fst x = i \<longrightarrow> fr_slot (snd x) \<noteq> fr_slot d)) \<and>
     distinct (dispatching p) \<and> set (dispatching p) \<subseteq> {..<CONFIG_VIDEO_RAW_SINK_MAX}"

definition raw_inv :: "'d raw_world \<Rightarrow> bool" where
  "raw_inv w \<longleftrightarrow>
     bus_ready (rw_bus w) \<and> length (s_sinks (rw_bus w)) = CONFIG_VIDEO_RAW_SINK_MAX \<and>
     slots_ok (rw_bus w) (referring w) (rw_published w) \<and>
     claims_ok (camera_frames w) (rw_pump w) \<and> (\<forall>x\<in>#camera_frames w. charged (rw_bus w) (snd x)) \<and>
     (\<forall>x\<in>#in_hands (rw_hands w). fst x < CONFIG_VIDEO_RAW_SINK_MAX) \<and> (\<forall>i\<in>#counting (rw_hands w). i < CONFIG_VIDEO_RAW_SINK_MAX) \<and>
     (\<forall>i \<ge> CONFIG_VIDEO_RAW_SINK_MAX. rw_closing w i = 0) \<and>
     (\<forall>i < CONFIG_VIDEO_RAW_SINK_MAX.
        sink_ok (sink_at (rw_bus w) i) (count (counting (rw_hands w)) i) (count_list (dispatching (rw_pump w)) i) (rw_closing w i))"

end
