(* ===== verification/Raw_Bus_Inv.thy ===== *)
theory Raw_Bus_Inv
  imports Raw_Bus_Run
begin

text \<open>
  Each section of the raw-frame bus keeps the invariant: the steps of the consumers and of the tasks
  that control the sinks.
\<close>

section \<open>Queues, hands and claims\<close>

lemma queued_same:
  assumes "s_sinks b' = (s_sinks b)[i := s]" "queue_of s = queue_of (sink_at b i)"
  shows "queued b' = queued b"
  unfolding queued_def using assms
  by (cases "i < length (s_sinks b)") (auto intro!: sum.cong simp: nth_list_update)

lemma queued_pop:
  assumes "s_sinks b' = (s_sinks b)[i := s]" "i < length (s_sinks b)" "queue_of (sink_at b i) = f # queue_of s"
  shows "queued b = add_mset (i, f) (queued b')"
proof -
  let ?p = "\<lambda>b i. image_mset (Pair i) (mset (queue_of (sink_at b i)))"
  have "?p b i + queued b' = ?p b' i + queued b"
    unfolding queued_def assms(1) length_list_update
    by (rule sum_update) (use assms in \<open>auto simp: nth_list_update\<close>)
  then show ?thesis using assms by simp
qed

lemma queued_push:
  assumes "s_sinks b' = (s_sinks b)[i := s]" "i < length (s_sinks b)" "queue_of s = queue_of (sink_at b i) @ [f]"
  shows "queued b' = add_mset (i, f) (queued b)"
proof -
  let ?p = "\<lambda>b i. image_mset (Pair i) (mset (queue_of (sink_at b i)))"
  have "?p b i + queued b' = ?p b' i + queued b"
    unfolding queued_def assms(1) length_list_update
    by (rule sum_update) (use assms in \<open>auto simp: nth_list_update\<close>)
  then show ?thesis using assms by simp
qed

lemma claims_ok_subset: "claims_ok C p \<Longrightarrow> C' \<subseteq># C \<Longrightarrow> claims_ok C' p"
  unfolding claims_ok_def
  by (meson mset_subset_eqD multiset_filter_mono order_trans size_mset_mono)

lemma camera_frames_alt:
  "camera_frames w = {#p \<in># queued (rw_bus w). \<not> fr_owned (snd p)#} + {#p \<in># in_hands (rw_hands w). \<not> fr_owned (snd p)#}"
  by (simp add: camera_frames_def)

lemma count_image: "count (image_mset h M) y = size {#x \<in># M. h x = y#}"
  by (induction M) simp_all

text \<open>The slot of a frame is referred to by each sink at most once.\<close>

lemma few_references:
  assumes "claims_ok C p"
  shows "size {#g \<in># image_mset snd C. fr_slot g = sl#} \<le> CONFIG_VIDEO_RAW_SINK_MAX"
proof -
  let ?M = "{#x \<in># C. fr_slot (snd x) = sl#}"
  have one: "count (image_mset fst ?M) i \<le> 1" for i
  proof -
    have "count (image_mset fst ?M) i = size {#x \<in># C. fst x = i \<and> fr_slot (snd x) = sl#}"
      by (simp add: count_image filter_filter_mset conj_commute)
    then show ?thesis using assms by (simp add: claims_ok_def)
  qed
  have sub: "set_mset (image_mset fst ?M) \<subseteq> {..<CONFIG_VIDEO_RAW_SINK_MAX}" using assms by (auto simp: claims_ok_def)
  have "size {#g \<in># image_mset snd C. fr_slot g = sl#} = size (image_mset fst ?M)"
    by (simp add: filter_mset_image_mset)
  also have "\<dots> = (\<Sum>i\<in>set_mset (image_mset fst ?M). count (image_mset fst ?M) i)"
    by (simp add: size_multiset_overloaded_eq)
  also have "\<dots> \<le> (\<Sum>i\<in>set_mset (image_mset fst ?M). 1)" by (rule sum_mono) (rule one)
  also have "\<dots> \<le> card {..<CONFIG_VIDEO_RAW_SINK_MAX}" using card_mono[OF finite_lessThan sub] by simp
  finally show ?thesis by simp
qed

section \<open>One sink at a time\<close>

lemma raw_invD:
  assumes "raw_inv w"
  shows "bus_ready (rw_bus w)" "length (s_sinks (rw_bus w)) = CONFIG_VIDEO_RAW_SINK_MAX"
    and "slots_ok (rw_bus w) (referring w) (rw_published w)" "claims_ok (camera_frames w) (rw_pump w)"
    and "x \<in># in_hands (rw_hands w) \<Longrightarrow> fst x < CONFIG_VIDEO_RAW_SINK_MAX" "i \<in># counting (rw_hands w) \<Longrightarrow> i < CONFIG_VIDEO_RAW_SINK_MAX"
    and "CONFIG_VIDEO_RAW_SINK_MAX \<le> i \<Longrightarrow> rw_closing w i = 0"
    and "i < CONFIG_VIDEO_RAW_SINK_MAX \<Longrightarrow>
        sink_ok (sink_at (rw_bus w) i) (count (counting (rw_hands w)) i) (count_list (dispatching (rw_pump w)) i) (rw_closing w i)"
    and "x \<in># camera_frames w \<Longrightarrow> charged (rw_bus w) (snd x)"
  using assms unfolding raw_inv_def by blast+

text \<open>The rule for a step that updates one sink: what has to be shown of the rest.\<close>

lemma raw_inv_update:
  assumes inv: "raw_inv w"
    and bus: "bus_ready (rw_bus w')" "s_sinks (rw_bus w') = (s_sinks (rw_bus w))[k := s]"
    and slots: "slots_ok (rw_bus w') (referring w') (rw_published w')"
    and claims: "claims_ok (camera_frames w') (rw_pump w')" "\<And>x. x \<in># camera_frames w' \<Longrightarrow> charged (rw_bus w') (snd x)"
    and hands: "\<And>x. x \<in># in_hands (rw_hands w') \<Longrightarrow> fst x < CONFIG_VIDEO_RAW_SINK_MAX"
      "\<And>i. i \<in># counting (rw_hands w') \<Longrightarrow> i < CONFIG_VIDEO_RAW_SINK_MAX"
    and sink: "k < CONFIG_VIDEO_RAW_SINK_MAX \<Longrightarrow>
        sink_ok s (count (counting (rw_hands w')) k) (count_list (dispatching (rw_pump w')) k) (rw_closing w' k)"
    and others: "\<And>i. i \<noteq> k \<Longrightarrow> count (counting (rw_hands w')) i = count (counting (rw_hands w)) i"
      "\<And>i. i \<noteq> k \<Longrightarrow> count_list (dispatching (rw_pump w')) i = count_list (dispatching (rw_pump w)) i"
      "\<And>i. i \<noteq> k \<Longrightarrow> rw_closing w' i = rw_closing w i"
    and closing: "CONFIG_VIDEO_RAW_SINK_MAX \<le> k \<Longrightarrow> rw_closing w' k = 0"
  shows "raw_inv w'"
proof -
  note D = raw_invD[OF inv]
  have "rw_closing w' i = 0" if "CONFIG_VIDEO_RAW_SINK_MAX \<le> i" for i
    using closing that D(7)[OF that] others(3)[of i] by (cases "i = k") simp_all
  moreover have "sink_ok (sink_at (rw_bus w') i) (count (counting (rw_hands w')) i) (count_list (dispatching (rw_pump w')) i) (rw_closing w' i)"
    if "i < CONFIG_VIDEO_RAW_SINK_MAX" for i
    using sink that D(8)[OF that] others[of i] D(2) by (cases "i = k") (simp_all add: bus)
  ultimately show ?thesis using bus slots claims hands D(2) by (simp add: raw_inv_def)
qed

text \<open>Most steps leave the slots, the references and the pump alone.\<close>

definition same_table :: "'d raw_bus \<Rightarrow> 'd raw_bus \<Rightarrow> bool" where
  "same_table b' b \<longleftrightarrow> s_slots b' = s_slots b \<and> s_pinned b' = s_pinned b \<and> returned b' = returned b \<and> bus_ready b' = bus_ready b"

lemma same_table_intros [simp]:
  "same_table b b" "same_table (put_sink i s b) b" "same_table (give_freed b) b"
  by (simp_all add: same_table_def bus_simps)

lemma same_table_trans: "same_table b'' b' \<Longrightarrow> same_table b' b \<Longrightarrow> same_table b'' b"
  by (simp add: same_table_def)

lemma raw_inv_sink_step:
  assumes inv: "raw_inv w"
    and table: "same_table (rw_bus w') (rw_bus w)" "rw_pump w' = rw_pump w" "rw_published w' = rw_published w"
    and frames: "camera_frames w' = camera_frames w"
    and bus: "s_sinks (rw_bus w') = (s_sinks (rw_bus w))[k := s]"
    and hands: "\<And>x. x \<in># in_hands (rw_hands w') \<Longrightarrow> fst x < CONFIG_VIDEO_RAW_SINK_MAX"
      "\<And>i. i \<in># counting (rw_hands w') \<Longrightarrow> i < CONFIG_VIDEO_RAW_SINK_MAX"
    and sink: "k < CONFIG_VIDEO_RAW_SINK_MAX \<Longrightarrow>
        sink_ok s (count (counting (rw_hands w')) k) (count_list (dispatching (rw_pump w)) k) (rw_closing w' k)"
    and others: "\<And>i. i \<noteq> k \<Longrightarrow> count (counting (rw_hands w')) i = count (counting (rw_hands w)) i"
      "\<And>i. i \<noteq> k \<Longrightarrow> rw_closing w' i = rw_closing w i"
    and closing: "CONFIG_VIDEO_RAW_SINK_MAX \<le> k \<Longrightarrow> rw_closing w' k = 0"
  shows "raw_inv w'"
proof (rule raw_inv_update[OF inv _ bus _ _ _ hands _ others(1) _ others(2) closing])
  note D = raw_invD[OF inv]
  show "bus_ready (rw_bus w')" using D(1) table(1) by (simp add: same_table_def)
  have "referring w' = referring w" by (simp add: referring_def frames table)
  then show "slots_ok (rw_bus w') (referring w') (rw_published w')"
    using D(3) table by (subst slots_ok_cong[of _ "rw_bus w"]) (simp_all add: same_table_def)
  show "claims_ok (camera_frames w') (rw_pump w')" using D(4) by (simp add: frames table)
  show "x \<in># camera_frames w' \<Longrightarrow> charged (rw_bus w') (snd x)" for x
    using D(9)[of x] table by (simp add: frames same_table_def charged_cong[of "rw_bus w'" "rw_bus w"])
qed (use sink table in simp_all)

text \<open>Of a sink that something is known of, the counts say that it is in use.\<close>

lemma sink_ok_in_use: "sink_ok s c p st \<Longrightarrow> 0 < c \<or> 0 < p \<or> 0 < st \<or> queue_of s \<noteq> [] \<Longrightarrow> in_use s"
  by (auto simp: sink_ok_def empty_sink_def)

section \<open>Steps of the consumers\<close>

lemma inv_take:
  assumes inv: "raw_inv w" and i: "i < length (s_sinks (rw_bus w))" and q: "queue_receive i (rw_bus w) = (Some f, b)"
  shows "raw_inv (w\<lparr>rw_bus := b, rw_hands := add_mset (Got i f) (rw_hands w)\<rparr>)" (is "raw_inv ?w")
proof -
  note D = raw_invD[OF inv]
  obtain rest where rest: "sink_q (sink_at (rw_bus w) i) = Some (f # rest)"
    and b: "b = put_sink i ((sink_at (rw_bus w) i)\<lparr>sink_q := Some rest\<rparr>) (rw_bus w)"
    using q by (auto simp: queue_receive_def split: option.splits list.splits)
  let ?s = "(sink_at (rw_bus w) i)\<lparr>sink_q := Some rest\<rparr>"
  have pop: "queued (rw_bus w) = add_mset (i, f) (queued b)"
    by (rule queued_pop[of _ _ _ ?s]) (use i rest in \<open>simp_all add: b bus_simps queue_of_def\<close>)
  have ok: "sink_ok (sink_at (rw_bus w) i) (count (counting (rw_hands w)) i) (count_list (dispatching (rw_pump w)) i) (rw_closing w i)"
    using D(8) i D(2) by simp
  show ?thesis
  proof (rule raw_inv_sink_step[OF inv, of _ i ?s])
    show "camera_frames ?w = camera_frames w" by (simp add: camera_frames_alt pop)
    have "in_use (sink_at (rw_bus w) i)" using ok rest by (rule_tac sink_ok_in_use) (auto simp: queue_of_def)
    then show "sink_ok ?s (count (counting (rw_hands ?w)) i) (count_list (dispatching (rw_pump w)) i) (rw_closing ?w i)"
      using ok rest by (simp add: sink_ok_def queue_of_def)
  qed (use D i in \<open>auto simp: b bus_simps\<close>)
qed

text \<open>A hand that works on a frame: the sink is in use, and has it counted.\<close>

lemma got_sink:
  assumes "raw_inv w" "i \<in># counting (rw_hands w)"
  shows "i < CONFIG_VIDEO_RAW_SINK_MAX" "in_use (sink_at (rw_bus w) i)" "0 < in_flight (sink_at (rw_bus w) i)"
    "unat (in_flight (sink_at (rw_bus w) i) - 1) = unat (in_flight (sink_at (rw_bus w) i)) - 1"
    "in_flight (sink_at (rw_bus w) i) - 1 \<le> cap (sink_at (rw_bus w) i)"
proof -
  note D = raw_invD[OF assms(1)]
  show i: "i < CONFIG_VIDEO_RAW_SINK_MAX" by (rule D(6)[OF assms(2)])
  have c: "0 < count (counting (rw_hands w)) i" using assms(2) by simp
  then show "in_use (sink_at (rw_bus w) i)" using sink_ok_in_use[OF D(8)[OF i]] by simp
  have "unat (in_flight (sink_at (rw_bus w) i)) \<noteq> 0" using D(8)[OF i] c by (simp add: sink_ok_def)
  then have n: "in_flight (sink_at (rw_bus w) i) \<noteq> 0" by auto
  then show "0 < in_flight (sink_at (rw_bus w) i)" by (simp add: word_neq_0_conv)
  show u: "unat (in_flight (sink_at (rw_bus w) i) - 1) = unat (in_flight (sink_at (rw_bus w) i)) - 1"
    using n by (simp add: unat_minus_one)
  have "in_flight (sink_at (rw_bus w) i) \<le> cap (sink_at (rw_bus w) i)" using D(8)[OF i] by (simp add: sink_ok_def)
  then show "in_flight (sink_at (rw_bus w) i) - 1 \<le> cap (sink_at (rw_bus w) i)"
    unfolding word_le_nat_alt u by simp
qed

lemma in_hands_plus [simp]: "in_hands (K + H) = in_hands K + in_hands H" "counting (K + H) = counting K + counting H"
  by (simp_all add: in_hands_def counting_def)

text \<open>
  A step that counts the hand \<open>h\<close> off, and leaves the hands \<open>K\<close> of it: \<open>s\<close> differs from the sink
  in the count and in fields that do not matter here.
\<close>

lemma inv_count_off:
  assumes inv: "raw_inv w" and h: "rw_hands w = add_mset h H" "hand_counts h = {#i#}"
    and K: "in_hands K = hand_frames h" "counting K = {#}"
    and b: "same_table b (rw_bus w)" "s_sinks b = (s_sinks (rw_bus w))[i := s]"
    and s: "in_flight s = in_flight (sink_at (rw_bus w) i) - 1" "sink_q s = sink_q (sink_at (rw_bus w) i)"
      "cap s = cap (sink_at (rw_bus w) i)" "in_use s = in_use (sink_at (rw_bus w) i)"
      "queue_depth s = queue_depth (sink_at (rw_bus w) i)" "dispatch_refs s = dispatch_refs (sink_at (rw_bus w) i)"
      "sink_enabled s = sink_enabled (sink_at (rw_bus w) i)"
  shows "raw_inv (w\<lparr>rw_bus := b, rw_hands := K + H\<rparr>)" (is "raw_inv ?w")
proof (rule raw_inv_sink_step[OF inv, of _ i s])
  note D = raw_invD[OF inv]
  have "i \<in># counting (rw_hands w)" by (simp add: h)
  note G = got_sink[OF inv this]
  have q: "queued b = queued (rw_bus w)" by (rule queued_same[OF b(2)]) (simp add: queue_of_def s)
  show "camera_frames ?w = camera_frames w" by (simp add: camera_frames_def q h K)
  show "sink_ok s (count (counting (rw_hands ?w)) i) (count_list (dispatching (rw_pump w)) i) (rw_closing ?w i)"
    using D(8)[OF G(1)] G s by (auto simp: sink_ok_def h K queue_of_def)
qed (use b h K raw_invD[OF inv] in auto)

lemma count_off_fields [bus_simps]:
  "s_sinks (count_off i b) = (s_sinks b)[i := (sink_at b i)\<lparr>in_flight := in_flight (sink_at b i) - 1\<rparr>]"
  by (simp add: count_off_def bus_simps)

lemma same_table_count_off [simp]: "same_table (count_off i b) b" "same_table (count_off_guarded i b) b"
  by (simp_all add: count_off_def count_off_guarded_def)

lemma inv_count_off_step:
  assumes "raw_inv w" "rw_hands w = add_mset (Got i f) H"
  shows "raw_inv (w\<lparr>rw_bus := count_off i (rw_bus w), rw_hands := add_mset (Off i f) H\<rparr>)"
  using inv_count_off[OF assms, of i "{#Off i f#}" "count_off i (rw_bus w)"] by (simp add: bus_simps)

lemma inv_release_hold:
  assumes inv: "raw_inv w" and h: "rw_hands w = add_mset (Got i f) H"
  shows "raw_inv (w\<lparr>rw_bus := release_hold i (rw_bus w), rw_hands := add_mset (Off i f) H\<rparr>)"
proof -
  have G: "0 < in_flight (sink_at (rw_bus w) i)" "i < CONFIG_VIDEO_RAW_SINK_MAX" using got_sink[OF inv, of i] h by simp_all
  let ?s = "(sink_at (rw_bus w) i)\<lparr>in_flight := in_flight (sink_at (rw_bus w) i) - 1, held := False\<rparr>"
  have r: "release_hold i (rw_bus w) = put_sink i ?s (rw_bus w)"
    using G raw_invD(2)[OF inv]
    by (simp add: release_hold_def count_off_guarded_def count_off_def Let_def put_sink_def)
  show ?thesis
    using inv_count_off[OF inv h, of i "{#Off i f#}" "release_hold i (rw_bus w)" ?s] by (simp add: r bus_simps)
qed

lemma inv_gone_off:
  assumes inv: "raw_inv w" and h: "rw_hands w = add_mset (Gone i) H"
  shows "raw_inv (w\<lparr>rw_bus := count_off_guarded i (rw_bus w), rw_hands := H\<rparr>)"
proof -
  have "count_off_guarded i (rw_bus w) = count_off i (rw_bus w)"
    using got_sink(3)[OF inv, of i] h by (simp add: count_off_guarded_def)
  then show ?thesis
    using inv_count_off[OF inv h, of i "{#}" "count_off i (rw_bus w)"] by (simp add: bus_simps)
qed

text \<open>A step that updates a sink in fields that do not matter.\<close>

lemma inv_touch:
  assumes inv: "raw_inv w" and b: "same_table b (rw_bus w)" "s_sinks b = (s_sinks (rw_bus w))[i := s]"
    and s: "in_flight s = in_flight (sink_at (rw_bus w) i)" "sink_q s = sink_q (sink_at (rw_bus w) i)"
      "cap s = cap (sink_at (rw_bus w) i)" "in_use s = in_use (sink_at (rw_bus w) i)"
      "queue_depth s = queue_depth (sink_at (rw_bus w) i)" "dispatch_refs s = dispatch_refs (sink_at (rw_bus w) i)"
    and use: "in_use (sink_at (rw_bus w) i)"
    and e: "sink_enabled s \<longrightarrow> sink_enabled (sink_at (rw_bus w) i) \<or> rw_closing w i = 0"
  shows "raw_inv (w\<lparr>rw_bus := b\<rparr>)"
proof (rule raw_inv_sink_step[OF inv, of _ i s])
  note D = raw_invD[OF inv]
  have q: "queued b = queued (rw_bus w)" by (rule queued_same[OF b(2)]) (simp add: queue_of_def s)
  then show "camera_frames (w\<lparr>rw_bus := b\<rparr>) = camera_frames w" by (simp add: camera_frames_def)
  show "sink_ok s (count (counting (rw_hands (w\<lparr>rw_bus := b\<rparr>))) i) (count_list (dispatching (rw_pump w)) i)
      (rw_closing (w\<lparr>rw_bus := b\<rparr>) i)" if "i < CONFIG_VIDEO_RAW_SINK_MAX"
    using D(8)[OF that] s use e by (auto simp: sink_ok_def queue_of_def)
qed (use b raw_invD[OF inv] in auto)

lemma inv_hold:
  assumes inv: "raw_inv w" and h: "rw_hands w = add_mset (Got i f) H"
  shows "raw_inv (w\<lparr>rw_bus := put_sink i ((sink_at (rw_bus w) i)\<lparr>held := True\<rparr>) (rw_bus w)\<rparr>)"
  using inv_touch[OF inv, of "put_sink i ((sink_at (rw_bus w) i)\<lparr>held := True\<rparr>) (rw_bus w)" i] got_sink(2)[OF inv, of i] h
  by (simp add: bus_simps)

section \<open>Steps that drop a reference\<close>

text \<open>
  A frame of the camera that is in nobody's queue or hand any more, and a bus whose table has dropped
  it; the sink may have changed in fields that do not matter.
\<close>

lemma inv_drop:
  assumes inv: "raw_inv w" and h: "rw_hands w = add_mset h H" "hand_frames h = {#(i, f)#}" "\<not> fr_owned f"
    and K: "counting K = hand_counts h" "\<And>x. x \<in># in_hands K \<Longrightarrow> fr_owned (snd x) \<and> fst x = i"
    and b: "s_sinks b = (s_sinks (rw_bus w))[i := s]" "bus_ready b"
      "\<And>F. slots_ok (rw_bus w) (add_mset f F) (rw_published w) \<Longrightarrow> slots_ok b F (rw_published w)"
      "\<And>F h. slots_ok (rw_bus w) (add_mset f F) (rw_published w) \<Longrightarrow> h \<in># F \<Longrightarrow> charged (rw_bus w) h \<Longrightarrow> charged b h"
    and s: "s = sink_at (rw_bus w) i \<or> in_use (sink_at (rw_bus w) i)"
      "in_flight s = in_flight (sink_at (rw_bus w) i)" "sink_q s = sink_q (sink_at (rw_bus w) i)"
      "cap s = cap (sink_at (rw_bus w) i)" "in_use s = in_use (sink_at (rw_bus w) i)"
      "queue_depth s = queue_depth (sink_at (rw_bus w) i)" "dispatch_refs s = dispatch_refs (sink_at (rw_bus w) i)"
      "sink_enabled s \<longrightarrow> sink_enabled (sink_at (rw_bus w) i)"
  shows "raw_inv (w\<lparr>rw_bus := b, rw_hands := K + H\<rparr>)" (is "raw_inv ?w")
proof (rule raw_inv_update[OF inv, of _ i s])
  note D = raw_invD[OF inv]
  have i: "i < CONFIG_VIDEO_RAW_SINK_MAX" using D(5)[of "(i, f)"] h by simp
  have q: "queued b = queued (rw_bus w)" by (rule queued_same[OF b(1)]) (simp add: queue_of_def s)
  have K0: "{#x \<in># in_hands K. \<not> fr_owned (snd x)#} = {#}"
    using K(2) by (subst set_mset_eq_empty_iff[symmetric]) auto
  have cam: "camera_frames w = add_mset (i, f) (camera_frames ?w)"
    by (simp add: camera_frames_alt q h K0)
  then have ref: "referring w = add_mset f (referring ?w)" by (simp add: referring_def)
  then show "slots_ok (rw_bus ?w) (referring ?w) (rw_published ?w)" using b(3) D(3) by simp
  show "charged (rw_bus ?w) (snd x)" if "x \<in># camera_frames ?w" for x
    using b(4)[of "referring ?w" "snd x"] D(3) D(9)[of x] that cam ref by (auto simp: referring_def)
  show "claims_ok (camera_frames ?w) (rw_pump ?w)" using claims_ok_subset[OF D(4)] cam by simp
  show "sink_ok s (count (counting (rw_hands ?w)) i) (count_list (dispatching (rw_pump ?w)) i) (rw_closing ?w i)"
    using D(8)[OF i] s h K by (auto simp: sink_ok_def queue_of_def)
  show "x \<in># in_hands (rw_hands ?w) \<Longrightarrow> fst x < CONFIG_VIDEO_RAW_SINK_MAX" for x
    using D(5)[of x] i K(2)[of x] h by auto
qed (use b h K raw_invD[OF inv] in auto)

lemma inv_release:
  assumes inv: "raw_inv w" and h: "rw_hands w = add_mset (Off i f) H"
  shows "raw_inv (w\<lparr>rw_bus := frame_release f (rw_bus w), rw_hands := H\<rparr>)"
proof (cases "fr_owned f")
  case False
  then show ?thesis
    using inv_drop[OF inv h, of i f "{#}" "frame_release f (rw_bus w)" "sink_at (rw_bus w) i"] raw_invD(1)[OF inv]
    by (simp add: frame_release_def bus_simps slots_ok_release charged_release)
next
  case True
  show ?thesis
  proof (rule raw_inv_sink_step[OF inv, of _ i "sink_at (rw_bus w) i"])
    show "camera_frames (w\<lparr>rw_bus := frame_release f (rw_bus w), rw_hands := H\<rparr>) = camera_frames w"
      using True h by (simp add: camera_frames_alt frame_release_def queued_def bus_simps)
  qed (use True h raw_invD[OF inv] in \<open>auto simp: frame_release_def bus_simps\<close>)
qed

lemma inv_convert:
  assumes inv: "raw_inv w" and h: "rw_hands w = add_mset (Got i f) H" and cam: "\<not> fr_owned f"
    and c: "sink_convert i f created run (rw_bus w) = (r, b)"
  shows "raw_inv (w\<lparr>rw_bus := b, rw_hands := add_mset (case r of None \<Rightarrow> Gone i | Some f' \<Rightarrow> Got i f') H\<rparr>)"
proof -
  let ?b = "rw_bus w" and ?K = "{#case r of None \<Rightarrow> Gone i | Some f' \<Rightarrow> Got i f'#}"
  have G: "in_use (sink_at ?b i)" "i < length (s_sinks ?b)" using got_sink(1,2)[OF inv, of i] h raw_invD(2)[OF inv] by simp_all
  have keep: "slots_ok b' (add_mset f F) pub \<Longrightarrow> slots_ok (put_sink j t (slot_release (fr_slot f) (fr_generation f) b')) F pub" for b' F pub j t
    using slots_ok_release by (subst slots_ok_cong[of _ "slot_release (fr_slot f) (fr_generation f) b'"]) (simp_all add: bus_simps)
  have pre: "slots_ok ?b (add_mset f F) pub \<Longrightarrow> slots_ok (put_sink i t ?b) (add_mset f F) pub" for F pub t
    by (subst slots_ok_cong[of _ ?b]) (simp_all add: bus_simps)
  have ck: "charged (put_sink j t b') h = charged b' h" for j t b' h by (rule charged_cong) (simp add: bus_simps)
  have cp: "slots_ok ?b (add_mset f F) pub \<Longrightarrow> h \<in># F \<Longrightarrow> charged ?b h \<Longrightarrow>
      charged (slot_release (fr_slot f) (fr_generation f) (put_sink i t ?b)) h" for F pub t h
    by (rule charged_release[OF pre]) (simp_all add: ck)
  have r: "\<And>f'. r = Some f' \<Longrightarrow> fr_owned f'"
    using c by (auto simp: sink_convert_def Let_def split: if_splits option.splits)
  have K: "counting ?K = hand_counts (Got i f)" "\<And>x. x \<in># in_hands ?K \<Longrightarrow> fr_owned (snd x) \<and> fst x = i"
    using r by (auto split: option.splits)
  have "\<exists>s. s_sinks b = (s_sinks ?b)[i := s] \<and> bus_ready b \<and>
      (\<forall>F. slots_ok ?b (add_mset f F) (rw_published w) \<longrightarrow> slots_ok b F (rw_published w)) \<and>
      (\<forall>F h. slots_ok ?b (add_mset f F) (rw_published w) \<longrightarrow> h \<in># F \<longrightarrow> charged ?b h \<longrightarrow> charged b h) \<and>
      in_flight s = in_flight (sink_at ?b i) \<and> sink_q s = sink_q (sink_at ?b i) \<and>
      cap s = cap (sink_at ?b i) \<and> in_use s = in_use (sink_at ?b i) \<and>
      queue_depth s = queue_depth (sink_at ?b i) \<and> dispatch_refs s = dispatch_refs (sink_at ?b i) \<and>
      (sink_enabled s \<longrightarrow> sink_enabled (sink_at ?b i))"
  proof (cases "\<not> has_conv (sink_at ?b i) \<and> \<not> created")
    case True
    then have "b = slot_release (fr_slot f) (fr_generation f) (put_sink i ((sink_at ?b i)\<lparr>sink_enabled := False\<rparr>) ?b)"
      using c by (simp add: sink_convert_def)
    then show ?thesis
      using slots_ok_release[OF pre] cp raw_invD(1)[OF inv]
      by (intro exI[of _ "(sink_at ?b i)\<lparr>sink_enabled := False\<rparr>"]) (simp add: bus_simps)
  next
    case False
    let ?b2 = "slot_release (fr_slot f) (fr_generation f) (put_sink i ((sink_at ?b i)\<lparr>has_conv := True\<rparr>) ?b)"
    from False c have "b = (if run = None
        then put_sink i ((sink_at ?b2 i)\<lparr>drop_convert := drop_convert (sink_at ?b2 i) + 1\<rparr>) ?b2 else ?b2)"
      by (auto simp: sink_convert_def Let_def split: option.splits)
    then show ?thesis
      using slots_ok_release[OF pre] keep[OF pre] cp raw_invD(1)[OF inv] G(2)
      by (intro exI[of _ "if run = None
            then (sink_at ?b i)\<lparr>has_conv := True, drop_convert := drop_convert (sink_at ?b i) + 1\<rparr>
            else (sink_at ?b i)\<lparr>has_conv := True\<rparr>"])
        (cases run; auto simp: bus_simps ck)
  qed
  then obtain s where s: "s_sinks b = (s_sinks ?b)[i := s]" "bus_ready b"
      "\<And>F. slots_ok ?b (add_mset f F) (rw_published w) \<Longrightarrow> slots_ok b F (rw_published w)"
      "\<And>F h. slots_ok ?b (add_mset f F) (rw_published w) \<Longrightarrow> h \<in># F \<Longrightarrow> charged ?b h \<Longrightarrow> charged b h"
      "in_flight s = in_flight (sink_at ?b i)" "sink_q s = sink_q (sink_at ?b i)"
      "cap s = cap (sink_at ?b i)" "in_use s = in_use (sink_at ?b i)"
      "queue_depth s = queue_depth (sink_at ?b i)" "dispatch_refs s = dispatch_refs (sink_at ?b i)"
      "sink_enabled s \<longrightarrow> sink_enabled (sink_at ?b i)" by blast
  show ?thesis
    using inv_drop[OF inv h _ cam K(1) K(2) s(1-4) disjI2[OF G(1)] s(5-11)] by simp
qed

end
