(* ===== verification/Raw_Bus_Safe.thy ===== *)
theory Raw_Bus_Safe
  imports Raw_Bus_Inv
begin

text \<open>
  The steps of the pump and of the tasks that control the sinks keep the invariant of the raw-frame
  bus; so it holds in every reachable state.
\<close>

section \<open>Control\<close>

lemma inv_enable:
  assumes "raw_inv w" "in_use (sink_at (rw_bus w) i)" "e \<longrightarrow> rw_closing w i = 0"
  shows "raw_inv (w\<lparr>rw_bus := set_sink_enabled i e (rw_bus w)\<rparr>)"
  using inv_touch[OF assms(1), of "set_sink_enabled i e (rw_bus w)" i "(sink_at (rw_bus w) i)\<lparr>sink_enabled := e\<rparr>"] assms(2,3)
  by (simp add: set_sink_enabled_def bus_simps)

lemma inv_fps:
  assumes "raw_inv w" "video_raw_sink_set_fps_limit h fps (rw_bus w) = (err, b)"
  shows "raw_inv (w\<lparr>rw_bus := b\<rparr>)"
proof (cases "valid_handle h (rw_bus w)")
  case True
  then obtain i where i: "h = Some i" "in_use (sink_at (rw_bus w) i)" by (auto simp: valid_handle_def split: option.splits)
  then show ?thesis
    using inv_touch[OF assms(1), of "put_sink i ((sink_at (rw_bus w) i)\<lparr>fps_limit := fps\<rparr>) (rw_bus w)" i
        "(sink_at (rw_bus w) i)\<lparr>fps_limit := fps\<rparr>"] assms(2) True
    by (auto simp: video_raw_sink_set_fps_limit_def bus_simps)
next
  case False
  then show ?thesis using assms by (auto simp: video_raw_sink_set_fps_limit_def)
qed

text \<open>A bus that differs only in tokens and flags.\<close>

lemma inv_same_sinks:
  assumes inv: "raw_inv w" and b: "same_table b (rw_bus w)" "s_sinks b = s_sinks (rw_bus w)"
  shows "raw_inv (w\<lparr>rw_bus := b\<rparr>)"
proof (rule raw_inv_sink_step[OF inv, of _ 0 "sink_at (rw_bus w) 0"])
  have q: "queued b = queued (rw_bus w)" by (simp add: queued_def b)
  then show "camera_frames (w\<lparr>rw_bus := b\<rparr>) = camera_frames w" by (simp add: camera_frames_def)
qed (use b raw_invD[OF inv] in auto)

lemma inv_halt: "raw_inv w \<Longrightarrow> raw_inv (w\<lparr>rw_bus := video_raw_bus_halt (rw_bus w)\<rparr>)"
  by (rule inv_same_sinks) (simp_all add: video_raw_bus_halt_def same_table_def)

lemma inv_resume: "raw_inv w \<Longrightarrow> raw_inv (w\<lparr>rw_bus := video_raw_bus_resume (rw_bus w)\<rparr>)"
  by (rule inv_same_sinks) (simp_all add: video_raw_bus_resume_def same_table_def)

lemma inv_reset_stats:
  assumes inv: "raw_inv w"
  shows "raw_inv (w\<lparr>rw_bus := video_raw_sink_reset_stats (rw_bus w)\<rparr>)"
proof -
  let ?b = "video_raw_sink_reset_stats (rw_bus w)"
  note D = raw_invD[OF inv]
  have s: "s_sinks ?b = map reset_sink_stats (s_sinks (rw_bus w))" "same_table ?b (rw_bus w)"
    using D(1) by (simp_all add: video_raw_sink_reset_stats_def same_table_def)
  have q: "queued ?b = queued (rw_bus w)"
    unfolding queued_def s by (rule sum.cong) (simp_all add: queue_of_def reset_sink_stats_def)
  have cam: "camera_frames (w\<lparr>rw_bus := ?b\<rparr>) = camera_frames w" by (simp add: camera_frames_def q)
  have ok: "sink_ok (reset_sink_stats s) c p st" if "sink_ok s c p st" for s c p st
    using that by (auto simp: sink_ok_def reset_sink_stats_def queue_of_def)
  have ref: "referring (w\<lparr>rw_bus := ?b\<rparr>) = referring w" by (simp add: referring_def cam)
  have sl: "slots_ok ?b (referring w) (rw_published w)"
    using D(3) s(2) by (subst slots_ok_cong[of _ "rw_bus w"]) (simp_all add: same_table_def)
  have "sink_ok (sink_at ?b i) (count (counting (rw_hands w)) i) (count_list (dispatching (rw_pump w)) i) (rw_closing w i)"
    if "i < CONFIG_VIDEO_RAW_SINK_MAX" for i
    using ok[OF D(8)[OF that]] that D(2) by (simp add: s)
  moreover have "charged ?b h = charged (rw_bus w) h" for h using s(2) by (intro charged_cong) (simp add: same_table_def)
  ultimately show ?thesis using D sl s by (simp add: raw_inv_def cam ref same_table_def)
qed

lemma inv_unregister:
  assumes inv: "raw_inv w" and u: "in_use (sink_at (rw_bus w) i)" "i < length (s_sinks (rw_bus w))" "rw_closing w i = 0"
  shows "raw_inv (w\<lparr>rw_bus := unregister_begin i (rw_bus w), rw_closing := (rw_closing w)(i := 1)\<rparr>)" (is "raw_inv ?w")
proof (rule raw_inv_sink_step[OF inv, of _ i "(sink_at (rw_bus w) i)\<lparr>sink_enabled := False\<rparr>"])
  note D = raw_invD[OF inv]
  have b: "s_sinks (unregister_begin i (rw_bus w)) = (s_sinks (rw_bus w))[i := (sink_at (rw_bus w) i)\<lparr>sink_enabled := False\<rparr>]"
    by (simp add: unregister_begin_def set_sink_enabled_def bus_simps)
  then show "s_sinks (rw_bus ?w) = (s_sinks (rw_bus w))[i := (sink_at (rw_bus w) i)\<lparr>sink_enabled := False\<rparr>]" by simp
  have "queued (unregister_begin i (rw_bus w)) = queued (rw_bus w)" by (rule queued_same[OF b]) (simp add: queue_of_def)
  then show "camera_frames ?w = camera_frames w" by (simp add: camera_frames_def)
  show "sink_ok ((sink_at (rw_bus w) i)\<lparr>sink_enabled := False\<rparr>) (count (counting (rw_hands ?w)) i)
      (count_list (dispatching (rw_pump w)) i) (rw_closing ?w i)"
    using D(8)[of i] D(2) u by (auto simp: sink_ok_def queue_of_def)
  show "same_table (rw_bus ?w) (rw_bus w)"
    by (simp add: unregister_begin_def set_sink_enabled_def same_table_def bus_simps)
qed (use raw_invD[OF inv] u in auto)

lemma inv_stop:
  assumes inv: "raw_inv w" and u: "rw_closing w i = 1" "unregister_may_stop i (rw_bus w)"
  shows "raw_inv (w\<lparr>rw_bus := unregister_stop i (rw_bus w), rw_closing := (rw_closing w)(i := 2)\<rparr>)" (is "raw_inv ?w")
proof (rule raw_inv_sink_step[OF inv, of _ i "(sink_at (rw_bus w) i)\<lparr>task_run := False\<rparr>"])
  note D = raw_invD[OF inv]
  have i: "i < CONFIG_VIDEO_RAW_SINK_MAX" using D(7)[of i] u(1) by (cases "i < CONFIG_VIDEO_RAW_SINK_MAX") auto
  have b: "s_sinks (unregister_stop i (rw_bus w)) = (s_sinks (rw_bus w))[i := (sink_at (rw_bus w) i)\<lparr>task_run := False\<rparr>]"
    by (simp add: unregister_stop_def bus_simps)
  then show "s_sinks (rw_bus ?w) = (s_sinks (rw_bus w))[i := (sink_at (rw_bus w) i)\<lparr>task_run := False\<rparr>]" by simp
  have "queued (unregister_stop i (rw_bus w)) = queued (rw_bus w)" by (rule queued_same[OF b]) (simp add: queue_of_def)
  then show "camera_frames ?w = camera_frames w" by (simp add: camera_frames_def)
  show "sink_ok ((sink_at (rw_bus w) i)\<lparr>task_run := False\<rparr>) (count (counting (rw_hands ?w)) i)
      (count_list (dispatching (rw_pump w)) i) (rw_closing ?w i)"
    using D(8)[OF i] u by (auto simp: sink_ok_def queue_of_def unregister_may_stop_def)
  show "CONFIG_VIDEO_RAW_SINK_MAX \<le> i \<Longrightarrow> rw_closing ?w i = 0" using i by simp
qed (use raw_invD[OF inv] u in \<open>auto simp: unregister_stop_def\<close>)

lemma inv_drained:
  assumes inv: "raw_inv w" and u: "rw_closing w i = 2" "queue_receive i (rw_bus w) = (None, b)"
  shows "raw_inv (w\<lparr>rw_closing := (rw_closing w)(i := 3)\<rparr>)" (is "raw_inv ?w")
proof (rule raw_inv_sink_step[OF inv, of _ i "sink_at (rw_bus w) i"])
  note D = raw_invD[OF inv]
  have i: "i < CONFIG_VIDEO_RAW_SINK_MAX" using D(7)[of i] u(1) by (cases "i < CONFIG_VIDEO_RAW_SINK_MAX") auto
  show "camera_frames ?w = camera_frames w" by (simp add: camera_frames_def)
  have "queue_of (sink_at (rw_bus w) i) = []"
    using u(2) by (auto simp: queue_receive_def queue_of_def split: option.splits list.splits)
  then show "sink_ok (sink_at (rw_bus w) i) (count (counting (rw_hands ?w)) i)
      (count_list (dispatching (rw_pump w)) i) (rw_closing ?w i)"
    using D(8)[OF i] u by (auto simp: sink_ok_def)
  show "CONFIG_VIDEO_RAW_SINK_MAX \<le> i \<Longrightarrow> rw_closing ?w i = 0" using i by simp
qed (use raw_invD[OF inv] u in auto)

lemma in_hands_leak: "in_hands (image_mset (leak i) H) = in_hands H"
proof (induction H)
  case (add h H)
  then show ?case by (cases h) simp_all
qed simp

lemma counting_leak:
  "\<forall>h\<in>#H. \<not> inside i h \<Longrightarrow> count (counting (image_mset (leak i) H)) j = (if j = i then 0 else count (counting H) j)"
proof (induction H)
  case (add h H)
  then show ?case by (cases h) auto
qed simp

lemma queue_of_empty_sink [simp]: "queue_of empty_sink = []"
  by (simp add: queue_of_def empty_sink_def)

lemma sink_ok_empty: "sink_ok empty_sink 0 0 0"
  by (simp add: sink_ok_def) (simp add: empty_sink_def)

lemma inv_end:
  assumes inv: "raw_inv w" and u: "rw_closing w i = 3" "\<forall>h\<in>#rw_hands w. \<not> inside i h"
  shows "raw_inv (w\<lparr>rw_bus := unregister_end i (rw_bus w), rw_hands := image_mset (leak i) (rw_hands w),
                    rw_closing := (rw_closing w)(i := 0)\<rparr>)" (is "raw_inv ?w")
proof (rule raw_inv_sink_step[OF inv, of _ i empty_sink])
  note D = raw_invD[OF inv]
  have i: "i < CONFIG_VIDEO_RAW_SINK_MAX" using D(7)[of i] u(1) by (cases "i < CONFIG_VIDEO_RAW_SINK_MAX") auto
  have b: "s_sinks (unregister_end i (rw_bus w)) = (s_sinks (rw_bus w))[i := empty_sink]"
    by (simp add: unregister_end_def bus_simps)
  then show "s_sinks (rw_bus ?w) = (s_sinks (rw_bus w))[i := empty_sink]" by simp
  have "queue_of (sink_at (rw_bus w) i) = []" using D(8)[OF i] u(1) by (simp add: sink_ok_def)
  then have "queued (unregister_end i (rw_bus w)) = queued (rw_bus w)" by (intro queued_same[OF b]) simp
  then show "camera_frames ?w = camera_frames w" by (simp add: camera_frames_def in_hands_leak)
  have "count_list (dispatching (rw_pump w)) i = 0" using D(8)[OF i] u(1) by (simp add: sink_ok_def)
  then show "sink_ok empty_sink (count (counting (rw_hands ?w)) i) (count_list (dispatching (rw_pump w)) i) (rw_closing ?w i)"
    using sink_ok_empty by (simp add: counting_leak[OF u(2)])
  show "j < CONFIG_VIDEO_RAW_SINK_MAX" if "j \<in># counting (rw_hands ?w)" for j
  proof -
    have "0 < count (counting (image_mset (leak i) (rw_hands w))) j" using that by simp
    then have "j \<in># counting (rw_hands w)" unfolding counting_leak[OF u(2)] by (simp split: if_splits)
    then show ?thesis by (rule D(6))
  qed
qed (use raw_invD[OF inv] u in \<open>auto simp: unregister_end_def in_hands_leak counting_leak\<close>)

lemma inv_register:
  assumes inv: "raw_inv w"
    and r: "video_raw_sink_register (video_raw_bus_init l1 l2 l3 c) check_dst q_ok task_ok cfgp (rw_bus w) = (err, h, b)"
  shows "raw_inv (w\<lparr>rw_bus := b\<rparr>)"
proof -
  note D = raw_invD[OF inv]
  have init: "video_raw_bus_init l1 l2 l3 c (rw_bus w) = (ESP_OK, rw_bus w)" using D(1) by (simp add: video_raw_bus_init_def)
  show ?thesis
  proof (cases "b = rw_bus w")
    case False
    then obtain cfg i more where cfg: "cfgp = Some cfg" "cfg_queue_depth cfg \<noteq> 0xFF"
      and f: "filter (\<lambda>i. \<not> in_use (sink_at (rw_bus w) i)) [0..<length (s_sinks (rw_bus w))] = i # more"
      and b: "b = put_sink i empty_sink (rw_bus w) \<or> b = put_sink i (new_sink cfg) (rw_bus w) \<or>
           b = put_sink i ((new_sink cfg)\<lparr>sink_q := Some [], has_task := cfg_callback cfg, task_run := cfg_callback cfg\<rparr>) (rw_bus w)"
      using r unfolding video_raw_sink_register_def init
      by (auto split: option.splits if_splits list.splits)
    have "i \<in> set (filter (\<lambda>i. \<not> in_use (sink_at (rw_bus w) i)) [0..<length (s_sinks (rw_bus w))])" by (simp add: f)
    then have i: "i < CONFIG_VIDEO_RAW_SINK_MAX" "\<not> in_use (sink_at (rw_bus w) i)" using D(2) by auto
    then have e: "sink_at (rw_bus w) i = empty_sink" using D(8)[OF i(1)] by (simp add: sink_ok_def)
    have z: "count (counting (rw_hands w)) i = 0" "count_list (dispatching (rw_pump w)) i = 0" "rw_closing w i = 0"
      using i(2) sink_ok_in_use[OF D(8)[OF i(1)]] by (metis not_gr_zero)+
    obtain s where s: "b = put_sink i s (rw_bus w)" "queue_of s = []" "sink_ok s 0 0 0"
    proof -
      have "unat (cfg_queue_depth cfg + 1) = unat (cfg_queue_depth cfg) + 1"
      proof -
        have "unat (cfg_queue_depth cfg) < 256" using unsigned_less[of "cfg_queue_depth cfg"] by simp
        moreover have "unat (cfg_queue_depth cfg) \<noteq> 255" using cfg(2) by (simp add: word_unat_eq_iff)
        ultimately show ?thesis by (simp add: unat_word_ariths)
      qed
      then show ?thesis
        using b that[of empty_sink] that[of "new_sink cfg"]
          that[of "(new_sink cfg)\<lparr>sink_q := Some [], has_task := cfg_callback cfg, task_run := cfg_callback cfg\<rparr>"] sink_ok_empty
        by (auto simp: sink_ok_def queue_of_def new_sink_def empty_sink_def)
    qed
    show ?thesis
    proof (rule raw_inv_sink_step[OF inv, of _ i s])
      have "queued b = queued (rw_bus w)" by (rule queued_same[of _ _ i s]) (simp_all add: s bus_simps e)
      then show "camera_frames (w\<lparr>rw_bus := b\<rparr>) = camera_frames w" by (simp add: camera_frames_def)
    qed (use D z s in \<open>auto simp: bus_simps\<close>)
  qed (use inv in simp)
qed

section \<open>The pump\<close>

lemma claims_ok_pump:
  assumes "claims_ok C p0" "pump_frames p = pump_frames p0" "\<And>j. awaits p j \<Longrightarrow> awaits p0 j"
    "distinct (dispatching p)" "set (dispatching p) \<subseteq> {..<CONFIG_VIDEO_RAW_SINK_MAX}"
  shows "claims_ok C p"
proof -
  have "\<forall>i. awaits p i \<longrightarrow> (\<forall>d\<in>#pump_frames p0. \<forall>x\<in>#C. fst x = i \<longrightarrow> fr_slot (snd x) \<noteq> fr_slot d)"
    using assms(1,3) unfolding claims_ok_def by blast
  then show ?thesis using assms(1,4,5) unfolding claims_ok_def assms(2) by blast
qed

text \<open>A step of the pump at the sink \<open>i\<close> that leaves the references as they are.\<close>

lemma inv_pump_touch:
  assumes inv: "raw_inv w" and b: "same_table b (rw_bus w)" "s_sinks b = (s_sinks (rw_bus w))[i := s]"
    and p: "pump_frames p = pump_frames (rw_pump w)" "\<And>j. awaits p j \<Longrightarrow> awaits (rw_pump w) j"
      "distinct (dispatching p)" "set (dispatching p) \<subseteq> set (dispatching (rw_pump w))"
      "\<And>j. j \<noteq> i \<Longrightarrow> count_list (dispatching p) j = count_list (dispatching (rw_pump w)) j"
    and s: "in_flight s = in_flight (sink_at (rw_bus w) i)" "sink_q s = sink_q (sink_at (rw_bus w) i)"
      "cap s = cap (sink_at (rw_bus w) i)" "in_use s = in_use (sink_at (rw_bus w) i)"
      "queue_depth s = queue_depth (sink_at (rw_bus w) i)" "sink_enabled s = sink_enabled (sink_at (rw_bus w) i)"
    and d: "unat (dispatch_refs s) = count_list (dispatching p) i"
      "count_list (dispatching p) i \<le> count_list (dispatching (rw_pump w)) i"
    and use: "in_use (sink_at (rw_bus w) i)"
  shows "raw_inv (w\<lparr>rw_bus := b, rw_pump := p\<rparr>)" (is "raw_inv ?w")
proof (rule raw_inv_update[OF inv, of _ i s])
  note D = raw_invD[OF inv]
  have q: "queued b = queued (rw_bus w)" by (rule queued_same[OF b(2)]) (simp add: queue_of_def s)
  have cam: "camera_frames ?w = camera_frames w" by (simp add: camera_frames_def q)
  then have ref: "referring ?w = referring w" by (simp add: referring_def p)
  show "bus_ready (rw_bus ?w)" using b D(1) by (simp add: same_table_def)
  show "slots_ok (rw_bus ?w) (referring ?w) (rw_published ?w)"
    unfolding ref using D(3) b(1) by (subst slots_ok_cong[of _ "rw_bus w"]) (simp_all add: same_table_def)
  show "claims_ok (camera_frames ?w) (rw_pump ?w)"
    using claims_ok_pump[OF D(4) p(1-3)] p(4) D(4) by (auto simp: cam claims_ok_def[of _ "rw_pump w"])
  show "x \<in># camera_frames ?w \<Longrightarrow> charged (rw_bus ?w) (snd x)" for x
    using D(9)[of x] b(1) unfolding cam by (simp add: same_table_def charged_cong[of b "rw_bus w"])
  show "sink_ok s (count (counting (rw_hands ?w)) i) (count_list (dispatching (rw_pump ?w)) i) (rw_closing ?w i)"
    if "i < CONFIG_VIDEO_RAW_SINK_MAX"
    using D(8)[OF that] s use d by (auto simp: sink_ok_def queue_of_def)
qed (use b p raw_invD[OF inv] in auto)

text \<open>The sink the pump is at is in use, and counts one dispatch.\<close>

lemma pump_sink:
  assumes inv: "raw_inv w" and p: "dispatching (rw_pump w) = i # todo"
  shows "i < CONFIG_VIDEO_RAW_SINK_MAX" "in_use (sink_at (rw_bus w) i)" "dispatch_refs (sink_at (rw_bus w) i) = 1"
    "i \<notin> set todo" "distinct todo" "rw_closing w i < 2"
proof -
  note D = raw_invD[OF inv]
  show i: "i < CONFIG_VIDEO_RAW_SINK_MAX" using D(4) p by (simp add: claims_ok_def)
  show n: "i \<notin> set todo" "distinct todo" using D(4) p by (simp_all add: claims_ok_def)
  then have c: "count_list (dispatching (rw_pump w)) i = 1" by (simp add: p)
  then show "in_use (sink_at (rw_bus w) i)" using sink_ok_in_use[OF D(8)[OF i]] by simp
  have "unat (dispatch_refs (sink_at (rw_bus w) i)) = 1" using D(8)[OF i] c by (simp add: sink_ok_def)
  then show "dispatch_refs (sink_at (rw_bus w) i) = 1" by (metis unat_1 word_unat_eq_iff)
  show "rw_closing w i < 2" using D(8)[OF i] c by (auto simp: sink_ok_def)
qed

lemma inv_gate:
  assumes inv: "raw_inv w" and p: "rw_pump w = Pump_Next d fps (i # todo)"
    and s: "pump_step o1 (rw_bus w) (Pump_Next d fps (i # todo)) = (b, q)"
  shows "raw_inv (w\<lparr>rw_bus := b, rw_pump := q\<rparr>)"
proof -
  have P: "i < CONFIG_VIDEO_RAW_SINK_MAX" "in_use (sink_at (rw_bus w) i)" "dispatch_refs (sink_at (rw_bus w) i) = 1"
    "i \<notin> set todo" "distinct todo" using pump_sink[OF inv, of i todo] p by simp_all
  obtain pass t where g: "rate_gate_pass fps (sink_at (rw_bus w) i) = (pass, t)" by (cases "rate_gate_pass fps (sink_at (rw_bus w) i)")
  have t: "\<exists>acc. t = (sink_at (rw_bus w) i)\<lparr>rate_acc := acc\<rparr>"
  proof -
    have "t = (sink_at (rw_bus w) i)\<lparr>rate_acc := rate_acc t\<rparr>"
      using g by (auto simp: rate_gate_pass_def Let_def split: if_splits)
    then show ?thesis by blast
  qed
  then obtain acc where acc: "t = (sink_at (rw_bus w) i)\<lparr>rate_acc := acc\<rparr>" by blast
  let ?u = "if \<not> pass then t\<lparr>drop_rate := drop_rate t + 1\<rparr>
            else if sink_mode t = VIDEO_RAW_MODE_INLINE then t\<lparr>delivered := delivered t + 1\<rparr> else t"
  have "b = put_sink i ?u (rw_bus w)" "q = Pump_Leave d fps i todo \<or> q = Pump_Enqueue d fps i todo"
    using s g by (auto split: if_splits)
  then show ?thesis
    using P by (intro inv_pump_touch[OF inv, of _ i ?u]) (auto simp: p bus_simps acc)
qed

lemma inv_leave:
  assumes inv: "raw_inv w" and p: "rw_pump w = Pump_Leave d fps i todo"
    and s: "pump_step o1 (rw_bus w) (Pump_Leave d fps i todo) = (b, q)"
  shows "raw_inv (w\<lparr>rw_bus := b, rw_pump := q\<rparr>)"
proof -
  have P: "i < CONFIG_VIDEO_RAW_SINK_MAX" "in_use (sink_at (rw_bus w) i)" "dispatch_refs (sink_at (rw_bus w) i) = 1"
    "i \<notin> set todo" "distinct todo" using pump_sink[OF inv, of i todo] p by simp_all
  then show ?thesis
    using s by (intro inv_pump_touch[OF inv, of _ i "(sink_at (rw_bus w) i)\<lparr>dispatch_refs := dispatch_refs (sink_at (rw_bus w) i) - 1\<rparr>"])
      (auto simp: p bus_simps)
qed

lemma inv_blocked:
  assumes inv: "raw_inv w" and p: "rw_pump w = Pump_Blocked d fps i todo"
    and s: "pump_step o1 (rw_bus w) (Pump_Blocked d fps i todo) = (b, q)"
  shows "raw_inv (w\<lparr>rw_bus := b, rw_pump := q\<rparr>)"
proof -
  have P: "i < CONFIG_VIDEO_RAW_SINK_MAX" "in_use (sink_at (rw_bus w) i)" "dispatch_refs (sink_at (rw_bus w) i) = 1"
    "i \<notin> set todo" "distinct todo" using pump_sink[OF inv, of i todo] p by simp_all
  let ?u = "(sink_at (rw_bus w) i)\<lparr>drop_timeout := drop_timeout (sink_at (rw_bus w) i) + 1\<rparr>"
  have "(b = put_sink i ?u (rw_bus w) \<and> q = Pump_Leave d fps i todo) \<or>
        (b = (rw_bus w)\<lparr>freed_sem := freed_sem (rw_bus w) - 1\<rparr> \<and> q = Pump_Enqueue d fps i todo)"
    using s by (auto simp: block_wait_def Let_def split: if_splits)
  then show ?thesis
  proof
    assume "b = put_sink i ?u (rw_bus w) \<and> q = Pump_Leave d fps i todo"
    then show ?thesis using P by (intro inv_pump_touch[OF inv, of _ i ?u]) (auto simp: p bus_simps)
  next
    assume "b = (rw_bus w)\<lparr>freed_sem := freed_sem (rw_bus w) - 1\<rparr> \<and> q = Pump_Enqueue d fps i todo"
    then show ?thesis
      using P by (intro inv_pump_touch[OF inv, of _ i "sink_at (rw_bus w) i"]) (auto simp: p same_table_def)
  qed
qed

lemma count_list_filter_upt: "count_list (filter P [0..<n]) i = (if i < n \<and> P i then 1 else 0)"
  by (induction n) auto

lemma inv_snapshot:
  assumes inv: "raw_inv w" and p: "rw_pump w = Pump_Snapshot d fps"
    and s: "pump_step o1 (rw_bus w) (Pump_Snapshot d fps) = (b, q)"
  shows "raw_inv (w\<lparr>rw_bus := b, rw_pump := q\<rparr>)" (is "raw_inv ?w")
proof -
  note D = raw_invD[OF inv]
  let ?todo = "filter (\<lambda>i. takes_frames (sink_at (rw_bus w) i)) [0..<length (s_sinks (rw_bus w))]"
  have b: "s_sinks b = map (\<lambda>s. if takes_frames s then s\<lparr>dispatch_refs := dispatch_refs s + 1\<rparr> else s) (s_sinks (rw_bus w))"
    "same_table b (rw_bus w)" and q: "q = Pump_Next d fps ?todo"
    using s by (auto simp: snapshot_def same_table_def)
  have at: "sink_at b i = (let s = sink_at (rw_bus w) i in if takes_frames s then s\<lparr>dispatch_refs := dispatch_refs s + 1\<rparr> else s)"
    if "i < CONFIG_VIDEO_RAW_SINK_MAX" for i using that D(2) by (simp add: b Let_def)
  have "queued b = queued (rw_bus w)"
    unfolding queued_def b(1) length_map by (rule sum.cong) (simp_all add: queue_of_def)
  then have cam: "camera_frames ?w = camera_frames w" by (simp add: camera_frames_def)
  then have ref: "referring ?w = referring w" by (simp add: referring_def p q)
  have claims: "claims_ok (camera_frames w) q"
    by (rule claims_ok_pump[OF D(4)]) (use D(2) in \<open>auto simp: p q\<close>)
  have slots: "slots_ok b (referring w) (rw_published w)"
    using D(3) b(2) by (subst slots_ok_cong[of _ "rw_bus w"]) (simp_all add: same_table_def)
  have "sink_ok (sink_at b i) (count (counting (rw_hands w)) i) (count_list (dispatching q) i) (rw_closing w i)"
    if i: "i < CONFIG_VIDEO_RAW_SINK_MAX" for i
  proof -
    have ok: "sink_ok (sink_at (rw_bus w) i) (count (counting (rw_hands w)) i) 0 (rw_closing w i)" using D(8)[OF i] by (simp add: p)
    then have z: "dispatch_refs (sink_at (rw_bus w) i) = 0" by (simp add: sink_ok_def unat_eq_0)
    show ?thesis
    proof (cases "takes_frames (sink_at (rw_bus w) i)")
      case True
      then have "count_list (dispatching q) i = 1" using i D(2) by (simp add: q count_list_filter_upt)
      moreover have "\<not> 0 < rw_closing w i" using ok True by (auto simp: sink_ok_def takes_frames_def)
      ultimately show ?thesis using ok True z by (auto simp: at[OF i] sink_ok_def queue_of_def takes_frames_def)
    next
      case False
      then show ?thesis using ok i D(2) by (simp add: at[OF i] q count_list_filter_upt)
    qed
  qed
  moreover have "charged b h = charged (rw_bus w) h" for h using b(2) by (intro charged_cong) (simp add: same_table_def)
  ultimately show ?thesis
    using D b slots claims by (simp add: raw_inv_def cam ref same_table_def)
qed

lemma inv_retire:
  assumes inv: "raw_inv w" and p: "rw_pump w = Pump_Next d fps []"
    and s: "pump_step o1 (rw_bus w) (Pump_Next d fps []) = (b, q)"
  shows "raw_inv (w\<lparr>rw_bus := b, rw_pump := q\<rparr>)" (is "raw_inv ?w")
proof (rule raw_inv_update[OF inv, of _ 0 "sink_at (rw_bus w) 0"])
  note D = raw_invD[OF inv]
  have b: "b = slot_release (fr_slot d) (fr_generation d) (rw_bus w)" and q: "q = Pump_Idle" using s by simp_all
  have cam: "camera_frames ?w = camera_frames w" by (simp add: camera_frames_def queued_def b bus_simps)
  have ref: "referring w = add_mset d (referring ?w)" unfolding referring_def cam by (simp add: p q)
  then show "slots_ok (rw_bus ?w) (referring ?w) (rw_published ?w)" using D(3) slots_ok_release by (simp add: b)
  show "charged (rw_bus ?w) (snd x)" if x: "x \<in># camera_frames ?w" for x
  proof -
    have "charged (slot_release (fr_slot d) (fr_generation d) (rw_bus w)) (snd x)"
      by (rule charged_release[OF D(3)[unfolded ref]])
        (use x D(9)[of x] in \<open>auto simp: cam referring_def[of ?w]\<close>)
    then show ?thesis by (simp add: b)
  qed
  show "claims_ok (camera_frames ?w) (rw_pump ?w)" using D(4) unfolding cam by (auto simp: q claims_ok_def)
  show "sink_ok (sink_at (rw_bus w) 0) (count (counting (rw_hands ?w)) 0) (count_list (dispatching (rw_pump ?w)) 0) (rw_closing ?w 0)"
    if "0 < CONFIG_VIDEO_RAW_SINK_MAX" using D(8)[OF that] by (simp add: p q)
qed (use s raw_invD[OF inv] in \<open>auto simp: p bus_simps\<close>)

lemma returned_none:
  assumes ok: "slots_ok b F pub" and small: "unat ix < MEDIA_STREAM_CAM_BUFFER_COUNT"
    and home: "size {#f \<in># mset pub. fb_index f = ix#} = size {#f \<in># mset (returned b). fb_index f = ix#}"
  shows "slot_fb (slot_at b (unat ix)) = None"
proof (rule ccontr)
  assume "slot_fb (slot_at b (unat ix)) \<noteq> None"
  then obtain fb where fb: "slot_fb (slot_at b (unat ix)) = Some fb" by blast
  then have ix: "fb_index fb = ix" using slots_okD(4)[OF ok small] by (simp add: word_unat_eq_iff)
  have "fb \<in># fbs_out b"
    unfolding fbs_out_def using small fb
    by (subst sum.remove[of _ "unat ix"]) simp_all
  then have "fb \<in># {#f \<in># fbs_out b. fb_index f = ix#}" using ix by simp
  then have "size {#f \<in># fbs_out b. fb_index f = ix#} \<noteq> 0" by (metis empty_iff set_mset_empty size_eq_0_iff_empty)
  then show False using home slots_okD(8)[OF ok] by auto
qed

lemma inv_publish:
  assumes inv: "raw_inv w" and p: "rw_pump w = Pump_Idle" and w: "with_driver w (fb_index fb)"
    and s: "publish_begin (Some fb) fourcc fps (rw_bus w) = (b, q)"
  shows "raw_inv (w\<lparr>rw_bus := b, rw_pump := q, rw_published := rw_published w @ [fb]\<rparr>)" (is "raw_inv ?w")
proof (cases "unat (fb_index fb) < MEDIA_STREAM_CAM_BUFFER_COUNT")
  case True
  note D = raw_invD[OF inv]
  have none: "slot_fb (slot_at (rw_bus w) (unat (fb_index fb))) = None"
    by (rule returned_none[OF D(3) True w[unfolded with_driver_def]])
  obtain d where d: "q = Pump_Snapshot d fps" "fr_slot d = fb_index fb" "\<not> fr_owned d"
      "slots_ok b (add_mset d (referring w)) (rw_published w @ [fb])" "s_sinks b = s_sinks (rw_bus w)" "bus_ready b"
      "\<forall>f\<in>#referring w. fr_slot f \<noteq> fr_slot d \<and> charged b f = charged (rw_bus w) f"
    using slots_ok_publish[OF D(3) D(1) True none s] by blast
  have cam: "camera_frames ?w = camera_frames w" by (simp add: camera_frames_def queued_def d)
  have ref: "referring ?w = add_mset d (referring w)" unfolding referring_def cam by (simp add: p d)
  have claims: "claims_ok (camera_frames w) q"
    using D(4) d(3,7) by (auto simp: claims_ok_def p d(1) referring_def)
  have "charged b (snd x)" if "x \<in># camera_frames w" for x using d(7) D(9)[OF that] that by (auto simp: referring_def)
  then show ?thesis unfolding raw_inv_def cam ref using D d(4-6) claims by (simp add: d(1) p)
next
  case False
  note D = raw_invD[OF inv]
  have b: "b = return_frame (Some fb) (rw_bus w)" and q: "q = Pump_Idle" using s False D(1) by (simp_all add: publish_begin_def)
  have cam: "camera_frames ?w = camera_frames w" by (simp add: camera_frames_def queued_def b bus_simps)
  have ref: "referring ?w = referring w" unfolding referring_def cam by (simp add: p q)
  have "slots_ok b (referring w) (rw_published w @ [fb])"
    using D(3) by (simp add: slots_ok_def b bus_simps good_frame_def loaned_def fbs_out_def)
  moreover have "charged b h = charged (rw_bus w) h" for h by (rule charged_cong) (simp add: b bus_simps)
  ultimately show ?thesis unfolding raw_inv_def cam ref using D by (simp add: p q b bus_simps)
qed

section \<open>A frame is offered to a sink\<close>

lemma claims_ok_add:
  assumes ok: "claims_ok C p0" and p0: "pump_frames p0 = {#d#}" "awaits p0 i" "i < CONFIG_VIDEO_RAW_SINK_MAX"
    and p: "pump_frames p = {#d#}" "\<And>j. awaits p j \<Longrightarrow> awaits p0 j \<and> j \<noteq> i" "distinct (dispatching p)"
      "set (dispatching p) \<subseteq> {..<CONFIG_VIDEO_RAW_SINK_MAX}"
  shows "claims_ok (add_mset (i, d) C) p"
proof -
  have no: "fst x = i \<Longrightarrow> fr_slot (snd x) \<noteq> fr_slot d" if "x \<in># C" for x
    using ok p0(1,2) that by (auto simp: claims_ok_def)
  have one: "size {#x \<in># C. fst x = j \<and> fr_slot (snd x) = sl#} \<le> 1" for j sl using ok by (simp add: claims_ok_def)
  have z: "{#x \<in># C. fst x = i \<and> fr_slot (snd x) = fr_slot d#} = {#}"
    by (subst set_mset_eq_empty_iff[symmetric]) (use no in auto)
  have "size {#x \<in># add_mset (i, d) C. fst x = j \<and> fr_slot (snd x) = sl#} \<le> 1" for j sl
    using one[of j sl] z by (cases "i = j \<and> fr_slot d = sl") auto
  moreover have "\<not> fr_owned d" using ok p0(1) by (simp add: claims_ok_def)
  moreover have "fr_slot (snd x) \<noteq> fr_slot d" if "awaits p j" "x \<in># add_mset (i, d) C" "fst x = j" for j x
    using ok p0(1) p(2)[OF that(1)] that(2,3) by (auto simp: claims_ok_def)
  ultimately show ?thesis using ok p p0(3) unfolding claims_ok_def by auto
qed

lemma byte_lt: "unat (x :: uint8) < 256"
  using unsigned_less[of x] by simp

lemma inv_enqueue_taken:
  assumes inv: "raw_inv w" and p: "rw_pump w = Pump_Enqueue d fps i todo"
    and e: "enqueue_round i d (rw_bus w) = (Queued, b)"
  shows "raw_inv (w\<lparr>rw_bus := b, rw_pump := Pump_Leave d fps i todo\<rparr>)" (is "raw_inv ?w")
proof -
  note D = raw_invD[OF inv]
  have P: "i < CONFIG_VIDEO_RAW_SINK_MAX" "in_use (sink_at (rw_bus w) i)" "i \<notin> set todo" "distinct todo" "rw_closing w i < 2"
    using pump_sink[OF inv, of i todo] p by simp_all
  have cam: "\<not> fr_owned d" using D(4) by (simp add: p claims_ok_def)
  let ?s = "sink_at (rw_bus w) i" and ?ix = "unat (fr_slot d)"
  let ?s' = "?s\<lparr>sink_q := map_option (\<lambda>fs. fs @ [d]) (sink_q ?s), in_flight := in_flight ?s + 1, delivered := delivered ?s + 1\<rparr>"
  have r: "\<not> cap ?s \<le> in_flight ?s" "counted (slot_at (rw_bus w) ?ix) \<or> unat (s_pinned (rw_bus w)) < LOAN_CAP" "queue_room ?s"
    and b: "b = put_sink i ?s' (taken ?ix (rw_bus w))"
    using e cam by (auto simp: enqueue_round_def Let_def taken_def split: if_splits video_raw_overflow.splits option.splits prod.splits)
  have sb: "s_sinks b = (s_sinks (rw_bus w))[i := ?s']" by (simp add: b bus_simps)
  have q': "queue_of ?s' = queue_of ?s @ [d]" using r(3) by (auto simp: queue_of_def queue_room_def split: option.splits)
  have push: "queued b = add_mset (i, d) (queued (rw_bus w))" by (rule queued_push[OF sb _ q']) (use P(1) D(2) in simp)
  have cams: "camera_frames ?w = add_mset (i, d) (camera_frames w)" by (simp add: camera_frames_alt push cam)
  have ref: "referring ?w = add_mset d (referring w)" unfolding referring_def cams by (simp add: p)
  have few: "size {#g \<in># referring w. fr_slot g = fr_slot d#} < 255"
    using few_references[OF D(4), of "fr_slot d"] by (simp add: referring_def p CONFIG_VIDEO_RAW_SINK_MAX_def)
  have mem: "d \<in># referring w" by (simp add: referring_def p)
  have slots: "slots_ok (taken ?ix (rw_bus w)) (add_mset d (referring w)) (rw_published w)"
    by (rule slots_ok_taken[OF D(3) mem few r(2)])
  have less: "in_flight ?s < cap ?s" using r(1) by simp
  have u: "unat (in_flight ?s + 1) = unat (in_flight ?s) + 1"
    using less byte_lt[of "cap ?s"] by (simp add: word_less_nat_alt unat_word_ariths)
  show ?thesis
  proof (rule raw_inv_update[OF inv, of _ i ?s'])
    show "slots_ok (rw_bus ?w) (referring ?w) (rw_published ?w)"
      unfolding ref using slots by (subst slots_ok_cong[of _ "taken ?ix (rw_bus w)"]) (simp_all add: b bus_simps)
    have dsub: "distinct (i # todo)" "set (i # todo) \<subseteq> {..<CONFIG_VIDEO_RAW_SINK_MAX}" using D(4) by (simp_all add: p claims_ok_def)
    show "claims_ok (camera_frames ?w) (rw_pump ?w)"
      unfolding cams by (rule claims_ok_add[OF D(4)]) (use p P dsub in auto)
    have ix: "?ix < length (s_slots (rw_bus w))" using slots_okD(5)[OF D(3) mem] slots_okD(1)[OF D(3)] by (simp add: good_frame_def)
    have "charged b h = charged (taken ?ix (rw_bus w)) h" for h by (rule charged_cong) (simp add: b bus_simps)
    then show "x \<in># camera_frames ?w \<Longrightarrow> charged (rw_bus ?w) (snd x)" for x
      unfolding cams using charged_taken[OF ix] D(9)[of x] by auto
    have le: "in_flight ?s + 1 \<le> cap ?s" unfolding word_le_nat_alt u using less by (simp add: word_less_nat_alt)
    show "sink_ok ?s' (count (counting (rw_hands ?w)) i) (count_list (dispatching (rw_pump ?w)) i) (rw_closing ?w i)"
      using D(8)[OF P(1)] P q' u le cam by (auto simp: sink_ok_def p)
  qed (use D p b sb in \<open>auto simp: bus_simps\<close>)
qed

lemma inv_enqueue_again:
  assumes inv: "raw_inv w" and p: "rw_pump w = Pump_Enqueue d fps i todo"
    and e: "enqueue_round i d (rw_bus w) = (Again, b)"
  shows "raw_inv (w\<lparr>rw_bus := b\<rparr>)" (is "raw_inv ?w")
proof -
  note D = raw_invD[OF inv]
  have P: "i < CONFIG_VIDEO_RAW_SINK_MAX" "in_use (sink_at (rw_bus w) i)" "i \<notin> set todo" "distinct todo" "rw_closing w i < 2"
    using pump_sink[OF inv, of i todo] p by simp_all
  let ?s = "sink_at (rw_bus w) i"
  obtain t b1 where ev: "evict_oldest_locked i (rw_bus w) = Some (t, b1)" and b: "b = give_freed (return_frame t b1)"
    using e by (auto simp: enqueue_round_def Let_def split: if_splits video_raw_overflow.splits option.splits prod.splits)
  then obtain old rest where q: "sink_q ?s = Some (old # rest)"
    by (auto simp: evict_oldest_locked_def split: option.splits list.splits)
  have ok: "sink_ok ?s (count (counting (rw_hands w)) i) (count_list (dispatching (rw_pump w)) i) (rw_closing w i)" by (rule D(8)[OF P(1)])
  then have cam: "\<not> fr_owned old" using q by (simp add: sink_ok_def queue_of_def)
  let ?s' = "?s\<lparr>sink_q := Some rest, in_flight := in_flight ?s - 1, drop_queue := drop_queue ?s + 1\<rparr>"
  have i: "i < length (s_sinks (rw_bus w))" using P(1) D(2) by simp
  let ?B = "(rw_bus w)\<lparr>s_sinks := (s_sinks (rw_bus w))[i := ?s']\<rparr>"
  have pop: "queued (rw_bus w) = add_mset (i, old) (queued ?B)"
    by (rule queued_pop[of _ _ _ ?s']) (use i q in \<open>simp_all add: queue_of_def\<close>)
  let ?C = "{#x \<in># queued ?B. \<not> fr_owned (snd x)#} + {#x \<in># in_hands (rw_hands w). \<not> fr_owned (snd x)#}"
  let ?F = "image_mset snd ?C + pump_frames (rw_pump w)"
  have camw: "camera_frames w = add_mset (i, old) ?C" by (simp add: camera_frames_alt pop cam)
  have "referring w = add_mset old ?F" by (simp add: referring_def camw)
  then have sl: "slots_ok (rw_bus w) (add_mset old ?F) (rw_published w)" using D(3) by simp
  have g: "slots_ok b ?F (rw_published w)" "\<forall>h\<in>#?F. charged (rw_bus w) h \<longrightarrow> charged b h" "s_sinks b1 = (s_sinks (rw_bus w))[i := ?s']" "bus_ready b1 = bus_ready (rw_bus w)"
    using evict_good[OF sl q i cam] ev by (auto simp: b)
  have sb: "s_sinks b = (s_sinks (rw_bus w))[i := ?s']" by (simp add: b bus_simps g)
  have "queued b = queued ?B" by (simp add: queued_def sb)
  then have cams: "camera_frames ?w = ?C" by (simp add: camera_frames_alt)
  then have ref: "referring ?w = ?F" by (simp add: referring_def)
  have n: "in_flight ?s \<noteq> 0" using ok q by (auto simp: sink_ok_def queue_of_def)
  have u: "unat (in_flight ?s - 1) = unat (in_flight ?s) - 1" using n by (simp add: unat_minus_one)
  have "in_flight ?s \<le> cap ?s" using ok by (simp add: sink_ok_def)
  then have le: "in_flight ?s - 1 \<le> cap ?s" unfolding word_le_nat_alt u by simp
  show ?thesis
  proof (rule raw_inv_update[OF inv, of _ i ?s'])
    show "slots_ok (rw_bus ?w) (referring ?w) (rw_published ?w)" unfolding ref using g(1) by simp
    show "claims_ok (camera_frames ?w) (rw_pump ?w)" unfolding cams using claims_ok_subset[OF D(4)] camw by simp
    show "x \<in># camera_frames ?w \<Longrightarrow> charged (rw_bus ?w) (snd x)" for x
      unfolding cams using D(9)[of x] g(2) camw by auto
    show "sink_ok ?s' (count (counting (rw_hands ?w)) i) (count_list (dispatching (rw_pump ?w)) i) (rw_closing ?w i)"
      using ok P q u le by (auto simp: sink_ok_def queue_of_def p)
  qed (use D g sb in \<open>auto simp: b bus_simps\<close>)
qed

lemma inv_enqueue:
  assumes inv: "raw_inv w" and p: "rw_pump w = Pump_Enqueue d fps i todo"
    and s: "pump_step o1 (rw_bus w) (Pump_Enqueue d fps i todo) = (b, q)"
  shows "raw_inv (w\<lparr>rw_bus := b, rw_pump := q\<rparr>)"
proof (cases "enqueue_round i d (rw_bus w)")
  case (Pair a b')
  have P: "i < CONFIG_VIDEO_RAW_SINK_MAX" "in_use (sink_at (rw_bus w) i)" "dispatch_refs (sink_at (rw_bus w) i) = 1" "i \<notin> set todo" "distinct todo"
    using pump_sink[OF inv, of i todo] p by simp_all
  show ?thesis
  proof (cases a)
    case Queued
    then show ?thesis using inv_enqueue_taken[OF inv p] Pair s by simp
  next
    case Dropped
    then obtain nl al where "b' = put_sink i (count_drop nl al (sink_at (rw_bus w) i)) (rw_bus w)"
      using Pair by (auto simp: enqueue_round_def Let_def split: if_splits video_raw_overflow.splits option.splits prod.splits)
    then show ?thesis
      using P s Pair Dropped
      by (intro inv_pump_touch[OF inv, of _ i "count_drop nl al (sink_at (rw_bus w) i)"]) (auto simp: p bus_simps count_drop_def)
  next
    case Again
    have "w\<lparr>rw_bus := b, rw_pump := q\<rparr> = w\<lparr>rw_bus := b'\<rparr>" using Again Pair s p by (cases w) simp
    then show ?thesis using inv_enqueue_again[OF inv p] Pair Again by simp
  next
    case Would_block
    then have "b' = rw_bus w"
      using Pair by (auto simp: enqueue_round_def Let_def split: if_splits video_raw_overflow.splits option.splits prod.splits)
    then show ?thesis
      using P s Pair Would_block
      by (intro inv_pump_touch[OF inv, of _ i "sink_at (rw_bus w) i"]) (auto simp: p)
  qed
qed

lemma inv_pump:
  assumes inv: "raw_inv w" and s: "pump_step o1 (rw_bus w) (rw_pump w) = (b, q)"
  shows "raw_inv (w\<lparr>rw_bus := b, rw_pump := q\<rparr>)"
proof (cases "rw_pump w")
  case Pump_Idle
  then have "w\<lparr>rw_bus := b, rw_pump := q\<rparr> = w" using s by (cases w) auto
  then show ?thesis using inv by simp
next
  case (Pump_Next d fps todo)
  then show ?thesis using inv_retire[OF inv] inv_gate[OF inv] s by (cases todo) auto
qed (use inv_snapshot[OF inv] inv_enqueue[OF inv] inv_blocked[OF inv] inv_leave[OF inv] s in auto)

section \<open>Every reachable state\<close>

lemma raw_step_inv: "raw_step w w' \<Longrightarrow> raw_inv w \<Longrightarrow> raw_inv w'"
proof (induction rule: raw_step.induct)
  case (raw_converted w i f H created run f' b)
  then show ?case using inv_convert[of w i f H created run "Some f'" b] by simp
next
  case (raw_not_converted w i f H created run b)
  then show ?case using inv_convert[of w i f H created run None b] by simp
next
  case raw_publish
  then show ?case by (blast intro: inv_publish)
next
  case raw_pump
  then show ?case by (blast intro: inv_pump)
next
  case raw_take
  then show ?case by (blast intro: inv_take)
next
  case raw_hold
  then show ?case by (blast intro: inv_hold)
next
  case raw_count_off
  then show ?case by (blast intro: inv_count_off_step)
next
  case raw_release_hold
  then show ?case by (blast intro: inv_release_hold)
next
  case raw_gone_off
  then show ?case by (blast intro: inv_gone_off)
next
  case raw_release
  then show ?case by (blast intro: inv_release)
next
  case raw_enable
  then show ?case by (blast intro: inv_enable)
next
  case raw_fps
  then show ?case by (blast intro: inv_fps)
next
  case raw_register
  then show ?case by (blast intro: inv_register)
next
  case raw_unregister
  then show ?case by (blast intro: inv_unregister)
next
  case raw_stop
  then show ?case by (blast intro: inv_stop)
next
  case raw_drained
  then show ?case by (blast intro: inv_drained)
next
  case raw_end
  then show ?case by (blast intro: inv_end)
next
  case raw_halt
  then show ?case by (blast intro: inv_halt)
next
  case raw_resume
  then show ?case by (blast intro: inv_resume)
next
  case raw_reset_stats
  then show ?case by (blast intro: inv_reset_stats)
qed

lemma raw_inv_start: "raw_inv raw_start"
proof -
  let ?b = "rw_bus (raw_start :: 'a raw_world)"
  have sinks: "s_sinks ?b = replicate CONFIG_VIDEO_RAW_SINK_MAX empty_sink" "bus_ready ?b"
    and slots: "s_slots ?b = replicate MEDIA_STREAM_CAM_BUFFER_COUNT empty_slot" "s_pinned ?b = 0" "returned ?b = []"
    by (simp_all add: raw_start_def video_raw_bus_init_def bus_start_def)
  have rest: "rw_pump (raw_start :: 'a raw_world) = Pump_Idle" "rw_hands (raw_start :: 'a raw_world) = {#}"
    "rw_published (raw_start :: 'a raw_world) = []" "rw_closing (raw_start :: 'a raw_world) = (\<lambda>_. 0)"
    by (simp_all add: raw_start_def)
  have cam: "camera_frames (raw_start :: 'a raw_world) = {#}"
    by (simp add: camera_frames_def queued_def sinks rest)
  have ref: "referring (raw_start :: 'a raw_world) = {#}" unfolding referring_def cam by (simp add: rest)
  have l: "loaned ?b = {}" by (auto simp: loaned_def slots empty_slot_def)
  have o: "fbs_out ?b = {#}" by (simp add: fbs_out_def slots empty_slot_def)
  have "slots_ok ?b {#} []" unfolding slots_ok_def l o by (simp add: slots empty_slot_def)
  moreover have "claims_ok {#} (Pump_Idle :: 'a pump)" by (simp add: claims_ok_def)
  ultimately show ?thesis
    unfolding raw_inv_def cam ref by (simp add: sinks rest sink_ok_empty)
qed

lemma raw_reachable_inv: "raw_reachable w \<Longrightarrow> raw_inv w"
proof -
  have "raw_step\<^sup>*\<^sup>* a w \<Longrightarrow> raw_inv a \<Longrightarrow> raw_inv w" for a
    by (induction rule: rtranclp_induct) (auto intro: raw_step_inv)
  then show "raw_reachable w \<Longrightarrow> raw_inv w" using raw_inv_start by (auto simp: raw_reachable_def)
qed

end
