(* ===== verification/Raw_Bus_Props.thy ===== *)
theory Raw_Bus_Props
  imports Raw_Bus_Safe
begin

text \<open>
  The properties of the raw-frame bus: no frame changes under its holder, no buffer is lost or
  returned twice, the loans stay within their budget, and a sink that drops never holds up the pump.
\<close>

section \<open>A run with one frame\<close>

text \<open>A passthrough sink of depth one takes a frame of the camera.\<close>

definition demo_config :: raw_sink_config where
  "demo_config =
     \<lparr>cfg_name = Some ''enc'', cfg_mode = VIDEO_RAW_MODE_PASSTHROUGH, cfg_callback = False, cfg_queue_depth = 1,
      cfg_overflow = VIDEO_RAW_OVERFLOW_DROP_OLD, cfg_block_timeout_ms = 0, cfg_fps_limit = 0,
      cfg_want_fourcc = 0, cfg_want_width = 0, cfg_want_height = 0\<rparr>"

definition demo_ready :: "nat raw_bus" where
  "demo_ready =
     set_sink_enabled 0 True
       (snd (snd (video_raw_sink_register (video_raw_bus_init True True True ESP_OK) ESP_OK True True (Some demo_config)
                    (rw_bus raw_start))))"

definition demo_frame :: "nat video_fb" where "demo_frame = \<lparr>fb_index = 3, fb_data = 42\<rparr>"

definition pump_again :: "nat \<Rightarrow> 'd raw_bus \<times> 'd pump \<Rightarrow> 'd raw_bus \<times> 'd pump" where
  "pump_again n = (\<lambda>(b, p). pump_step True b p) ^^ n"

definition demo_world :: "nat \<Rightarrow> nat raw_world" where
  "demo_world n =
     (let (b, p) = pump_again n (publish_begin (Some demo_frame) 7 30 demo_ready)
      in raw_start\<lparr>rw_bus := b, rw_pump := p, rw_published := [demo_frame]\<rparr>)"

definition demo_held :: "nat raw_world" where
  "demo_held =
     (case queue_receive 0 (rw_bus (demo_world 5)) of
        (Some f, b) \<Rightarrow> (demo_world 5)\<lparr>rw_bus := b, rw_hands := {#Got 0 f#}\<rparr>
      | (None, b) \<Rightarrow> demo_world 5)"

definition demo_desc :: "nat video_raw_frame" where
  "demo_desc = \<lparr>fr_data = 42, fr_fourcc = 7, fr_seq = 1, fr_slot = 3, fr_generation = 1, fr_owned = False\<rparr>"

definition demo_off :: "nat raw_world" where
  "demo_off = demo_held\<lparr>rw_bus := release_hold 0 (rw_bus demo_held), rw_hands := {#Off 0 demo_desc#}\<rparr>"

definition demo_released :: "nat raw_world" where
  "demo_released = demo_off\<lparr>rw_bus := frame_release demo_desc (rw_bus demo_off), rw_hands := {#}\<rparr>"

lemma pump_again_Suc: "pump_again (Suc n) bp = (case pump_again n bp of (b, p) \<Rightarrow> pump_step True b p)"
  by (simp add: pump_again_def)

lemma raw_reachable_step: "raw_reachable w \<Longrightarrow> raw_step w w' \<Longrightarrow> raw_reachable w'"
  unfolding raw_reachable_def by (rule rtranclp.rtrancl_into_rtrancl)

lemma demo_ready_reached: "raw_reachable (raw_start\<lparr>rw_bus := demo_ready\<rparr>)"
proof -
  let ?r = "video_raw_sink_register (video_raw_bus_init True True True ESP_OK) ESP_OK True True (Some demo_config)
              (rw_bus (raw_start :: nat raw_world))"
  let ?w = "(raw_start :: nat raw_world)\<lparr>rw_bus := snd (snd ?r)\<rparr>"
  have "?r = (fst ?r, fst (snd ?r), snd (snd ?r))" by simp
  then have "raw_step raw_start ?w" by (rule raw_register)
  then have w: "raw_reachable ?w" unfolding raw_reachable_def by (rule r_into_rtranclp)
  have "in_use (sink_at (rw_bus ?w) 0) \<and> 0 < length (s_sinks (rw_bus ?w))" by code_simp
  then have "raw_step ?w (?w\<lparr>rw_bus := set_sink_enabled 0 True (rw_bus ?w)\<rparr>)"
    by (intro raw_enable) (simp_all add: raw_start_def)
  then have "raw_reachable (?w\<lparr>rw_bus := set_sink_enabled 0 True (rw_bus ?w)\<rparr>)" by (rule raw_reachable_step[OF w])
  then show ?thesis by (simp add: demo_ready_def)
qed

lemma demo_world_reached: "raw_reachable (demo_world n)"
proof (induction n)
  case 0
  let ?w = "(raw_start :: nat raw_world)\<lparr>rw_bus := demo_ready\<rparr>"
  obtain b p where bp: "publish_begin (Some demo_frame) 7 30 (rw_bus ?w) = (b, p)" by fastforce
  have "returned demo_ready = []" by code_simp
  then have "raw_step ?w (?w\<lparr>rw_bus := b, rw_pump := p, rw_published := rw_published ?w @ [demo_frame]\<rparr>)"
    using bp by (intro raw_publish) (simp_all add: with_driver_def raw_start_def)
  then have "raw_reachable (?w\<lparr>rw_bus := b, rw_pump := p, rw_published := rw_published ?w @ [demo_frame]\<rparr>)"
    by (rule raw_reachable_step[OF demo_ready_reached])
  then show ?case using bp by (simp add: demo_world_def pump_again_def raw_start_def)
next
  case (Suc n)
  let ?w = "demo_world n"
  obtain b p where bp: "pump_step True (rw_bus ?w) (rw_pump ?w) = (b, p)" by fastforce
  have "demo_world (Suc n) = ?w\<lparr>rw_bus := b, rw_pump := p\<rparr>"
    using bp by (simp add: demo_world_def pump_again_Suc split: prod.splits)
  then show ?case using raw_reachable_step[OF Suc raw_pump[OF bp]] by simp
qed

lemma demo_run:
  shows "demo_held = (demo_world 5)\<lparr>rw_bus := snd (queue_receive 0 (rw_bus (demo_world 5))), rw_hands := {#Got 0 demo_desc#}\<rparr>"
    and "raw_reachable demo_held" "raw_reachable demo_released"
proof -
  have got: "fst (queue_receive 0 (rw_bus (demo_world 5))) = Some demo_desc" by code_simp
  have len: "0 < length (s_sinks (rw_bus (demo_world 5)))" by code_simp
  have "rw_hands (demo_world 5) = {#}" by (simp add: demo_world_def raw_start_def split: prod.splits)
  moreover obtain b where b: "queue_receive 0 (rw_bus (demo_world 5)) = (Some demo_desc, b)"
    using got by (metis prod.collapse)
  ultimately show held: "demo_held = (demo_world 5)\<lparr>rw_bus := snd (queue_receive 0 (rw_bus (demo_world 5))), rw_hands := {#Got 0 demo_desc#}\<rparr>"
    by (simp add: demo_held_def)
  have "raw_step (demo_world 5) demo_held" unfolding held
    using raw_take[OF len b] \<open>rw_hands (demo_world 5) = {#}\<close> by (simp add: b)
  then show reached: "raw_reachable demo_held" by (rule raw_reachable_step[OF demo_world_reached])
  have "raw_step demo_held demo_off" unfolding demo_off_def
    by (rule raw_release_hold[of _ _ demo_desc "{#}"]) (simp add: held)
  moreover have "raw_step demo_off demo_released" unfolding demo_released_def
    by (rule raw_release[of _ 0]) (simp add: demo_off_def)
  ultimately show "raw_reachable demo_released" using reached by (blast intro: raw_reachable_step)
qed

section \<open>Frames and buffers\<close>

text \<open>
  C35: no frame changes under its holder, and no buffer is lost or returned twice. In every reachable
  state of the bus, under any interleaving of the pump, the consumers and the tasks that control
  the sinks, each camera frame in a queue, with a consumer or in the pump names a slot of the table
  that still holds the buffer it was made for; and the buffers the driver handed over are, as a
  multiset, those that were returned to it and those in the table.
\<close>

theorem raw_bus_frames_stay_valid:
  "raw_reachable w \<Longrightarrow>
     (\<forall>f\<in>#referring w. good_frame (rw_bus w) f) \<and>
     mset (rw_published w) = mset (returned (rw_bus w)) + fbs_out (rw_bus w)"
  using raw_invD(3)[OF raw_reachable_inv] by (auto dest: slots_okD)

theorem raw_bus_frames_stay_valid_witness:
  "demo_desc \<in># referring demo_held \<and> good_frame (rw_bus demo_held) demo_desc \<and>
   {#demo_frame#} = mset (returned (rw_bus demo_held)) + fbs_out (rw_bus demo_held)"
proof -
  have "\<not> fr_owned demo_desc" by (simp add: demo_desc_def)
  then have "demo_desc \<in># referring demo_held"
    by (simp add: referring_def camera_frames_def demo_run(1))
  moreover have "rw_published demo_held = [demo_frame]"
    by (simp add: demo_run(1) demo_world_def split: prod.splits)
  ultimately show ?thesis using raw_bus_frames_stay_valid[OF demo_run(2)] by simp
qed

text \<open>
  C36: the reserve is kept. In every reachable state the camera frames that sinks and their consumers
  have are of at most \<open>LOAN_CAP\<close> buffers, whatever the number of sinks, so that the camera always
  has the reserve to itself; and a sink never has more in flight than its depth and one, which is
  what its queue and its consumer account for, the byte of the counter never wrapping around.
\<close>

theorem raw_bus_loans_bounded:
  "raw_reachable w \<Longrightarrow> i < CONFIG_VIDEO_RAW_SINK_MAX \<Longrightarrow>
     card ((\<lambda>x. fr_slot (snd x)) ` set_mset (camera_frames w)) \<le> LOAN_CAP \<and>
     unat (in_flight (sink_at (rw_bus w) i)) = length (queue_of (sink_at (rw_bus w) i)) + count (counting (rw_hands w)) i \<and>
     (in_use (sink_at (rw_bus w) i) \<longrightarrow>
        unat (in_flight (sink_at (rw_bus w) i)) \<le> unat (queue_depth (sink_at (rw_bus w) i)) + 1)"
proof -
  assume reach: "raw_reachable w" and i: "i < CONFIG_VIDEO_RAW_SINK_MAX"
  note inv = raw_reachable_inv[OF reach]
  let ?S = "(\<lambda>x. fr_slot (snd x)) ` set_mset (camera_frames w)"
  have "unat (fr_slot (snd x)) \<in> loaned (rw_bus w)" if "x \<in># camera_frames w" for x
  proof -
    have "snd x \<in># referring w" using that by (simp add: referring_def)
    then have "good_frame (rw_bus w) (snd x)" using raw_invD(3)[OF inv] by (blast dest: slots_okD)
    then show ?thesis using raw_invD(9)[OF inv that] by (simp add: loaned_def charged_def good_frame_def)
  qed
  then have "unat ` ?S \<subseteq> loaned (rw_bus w)" by auto
  then have "card (unat ` ?S) \<le> card (loaned (rw_bus w))" by (rule card_mono[OF loaned_finite])
  moreover have "card (unat ` ?S) = card ?S" by (rule card_image) (simp add: inj_on_def word_unat_eq_iff)
  moreover have "card (loaned (rw_bus w)) \<le> LOAN_CAP" using raw_invD(3)[OF inv] by (rule slots_okD)
  ultimately have "card ?S \<le> LOAN_CAP" by linarith
  then show ?thesis
    using raw_invD(8)[OF inv i] by (auto simp: sink_ok_def word_le_nat_alt)
qed

theorem raw_bus_loans_bounded_witness:
  "card ((\<lambda>x. fr_slot (snd x)) ` set_mset (camera_frames demo_held)) \<le> LOAN_CAP \<and>
   unat (in_flight (sink_at (rw_bus demo_held) 0)) = length (queue_of (sink_at (rw_bus demo_held) 0)) + 1"
  using raw_bus_loans_bounded[OF demo_run(2), of 0] by (simp add: CONFIG_VIDEO_RAW_SINK_MAX_def demo_run(1))

section \<open>Nothing stays behind\<close>

text \<open>
  C37: a bus at rest holds nothing. When the pump is between two frames, the queues are empty and
  no consumer has a frame, every buffer the driver handed over has been returned to it, each as
  often as it was handed over, no loan is charged, and \<open>video_raw_bus_drain\<close> finds the bus clean.
\<close>

theorem raw_bus_idle_returns_all:
  assumes "raw_reachable w" "rw_pump w = Pump_Idle" "rw_hands w = {#}" "queued (rw_bus w) = {#}"
  shows "mset (rw_published w) = mset (returned (rw_bus w)) \<and> s_pinned (rw_bus w) = 0 \<and>
         drain_clean (drain_sinks (rw_bus w)) (rw_bus w)"
proof -
  let ?b = "rw_bus w"
  note inv = raw_reachable_inv[OF assms(1)]
  have none: "referring w = {#}" using assms(2-4) by (simp add: referring_def camera_frames_def)
  note S = slots_okD[OF raw_invD(3)[OF inv, unfolded none]]
  have refs: "refs (slot_at ?b ix) = 0" if "ix < MEDIA_STREAM_CAM_BUFFER_COUNT" for ix
    using S(2)[OF that] by (simp add: unat_eq_0)
  then have "fbs_out ?b = {#}" "loaned ?b = {}" using S(3) by (simp_all add: fbs_out_def loaned_def)
  moreover have "in_flight (sink_at ?b i) = 0" if "i < CONFIG_VIDEO_RAW_SINK_MAX" for i
  proof -
    have "image_mset (Pair i) (mset (queue_of (sink_at ?b i))) = {#}"
      using assms(4) raw_invD(2)[OF inv] that by (simp add: queued_def sum_eq_empty_iff)
    then show ?thesis using raw_invD(8)[OF inv that] assms(3) by (simp add: sink_ok_def unat_eq_0)
  qed
  moreover have "\<forall>s\<in>set (s_slots ?b). refs s = 0" using refs S(1) by (auto simp: in_set_conv_nth)
  ultimately show ?thesis using S(6,8) raw_invD(2)[OF inv]
    by (auto simp: drain_clean_def drain_sinks_def unat_eq_0)
qed

theorem raw_bus_idle_returns_all_witness:
  "{#demo_frame#} = mset (returned (rw_bus demo_released)) \<and> drain_clean (drain_sinks (rw_bus demo_released)) (rw_bus demo_released)"
proof -
  have "map queue_of (s_sinks (rw_bus demo_released)) = replicate 5 []" by code_simp
  then have "length (s_sinks (rw_bus demo_released)) = 5" "\<And>i. i < 5 \<Longrightarrow> queue_of (sink_at (rw_bus demo_released) i) = []"
    by (metis length_map length_replicate, metis length_map length_replicate nth_map nth_replicate)
  then have "queued (rw_bus demo_released) = {#}" by (simp add: queued_def sum_eq_empty_iff)
  moreover have "rw_pump demo_released = Pump_Idle" by code_simp
  moreover have "rw_published demo_released = [demo_frame]" "rw_hands demo_released = {#}"
    by (simp_all add: demo_released_def demo_off_def demo_run(1) demo_world_def split: prod.splits)
  ultimately show ?thesis using raw_bus_idle_returns_all[OF demo_run(3)] by simp
qed

section \<open>A sink that drops\<close>

lemma evict_shortens:
  assumes "evict_oldest_locked i b = Some (t, b')" "i < length (s_sinks b)"
  shows "length (queue_of (sink_at b i)) = Suc (length (queue_of (sink_at b' i)))"
    and "sink_overflow (sink_at b' i) = sink_overflow (sink_at b i)" "length (s_sinks b') = length (s_sinks b)"
proof -
  obtain old rest where q: "sink_q (sink_at b i) = Some (old # rest)"
    using assms(1) by (auto simp: evict_oldest_locked_def split: option.splits list.splits)
  have d: "s_sinks (snd (drop_ref ix c)) = s_sinks c" for ix and c :: "'a raw_bus"
    by (simp add: drop_ref_def Let_def bus_simps)
  let ?b1 = "put_sink i ((sink_at b i)\<lparr>sink_q := Some rest\<rparr>) b"
  let ?k = "unat (fr_slot old)"
  define b2 where "b2 = (if fr_owned old \<or> fr_slot old = NO_SLOT then ?b1
    else if slot_gen (slot_at ?b1 ?k) = fr_generation old \<and> 0 < refs (slot_at ?b1 ?k) then snd (drop_ref ?k ?b1) else ?b1)"
  have b2: "s_sinks b2 = (s_sinks b)[i := (sink_at b i)\<lparr>sink_q := Some rest\<rparr>]" by (simp add: b2_def d bus_simps)
  have b': "b' = put_sink i ((sink_at b2 i)\<lparr>in_flight := in_flight (sink_at b2 i) - 1, drop_queue := drop_queue (sink_at b2 i) + 1\<rparr>) b2"
    using assms(1) unfolding evict_oldest_locked_def b2_def q
    by (cases "drop_ref ?k ?b1") (auto simp: Let_def split: if_splits)
  show "length (queue_of (sink_at b i)) = Suc (length (queue_of (sink_at b' i)))"
    "sink_overflow (sink_at b' i) = sink_overflow (sink_at b i)" "length (s_sinks b') = length (s_sinks b)"
    using assms(2) by (simp_all add: b' bus_simps b2 queue_of_def q)
qed

lemma round_outcome:
  assumes "sink_overflow (sink_at b i) \<noteq> VIDEO_RAW_OVERFLOW_BLOCK" "i < length (s_sinks b)"
    and "enqueue_round i d b = (a, b')"
  shows "a = Queued \<or> a = Dropped \<or>
         a = Again \<and> length (queue_of (sink_at b i)) = Suc (length (queue_of (sink_at b' i))) \<and>
           sink_overflow (sink_at b' i) = sink_overflow (sink_at b i) \<and> i < length (s_sinks b')"
proof (cases "a = Again")
  case True
  then obtain t c where ev: "evict_oldest_locked i b = Some (t, c)" and b': "b' = give_freed (return_frame t c)"
    using assms(3) by (auto simp: enqueue_round_def Let_def split: if_splits video_raw_overflow.splits option.splits)
  then show ?thesis using evict_shortens[OF ev assms(2)] True assms(2) by (simp add: bus_simps)
next
  case False
  then show ?thesis using assms(1,3)
    by (auto simp: enqueue_round_def Let_def split: if_splits video_raw_overflow.splits option.splits)
qed

text \<open>
  C38: a sink that drops never holds up the pump. Offering a frame to a sink whose overflow is not
  \<open>BLOCK\<close> takes at most as many rounds of the loop of \<open>sink_enqueue\<close> as frames are queued there,
  and one, after which the pump leaves the sink.
\<close>

theorem raw_bus_dropping_sink_returns:
  "sink_overflow (sink_at b i) \<noteq> VIDEO_RAW_OVERFLOW_BLOCK \<Longrightarrow> i < length (s_sinks b) \<Longrightarrow>
     \<exists>n \<le> Suc (length (queue_of (sink_at b i))). snd (pump_again n (b, Pump_Enqueue d fps i todo)) = Pump_Leave d fps i todo"
proof (induction "length (queue_of (sink_at b i))" arbitrary: b rule: less_induct)
  case less
  obtain a b' where r: "enqueue_round i d b = (a, b')" by fastforce
  have step: "pump_again (Suc n) (b, Pump_Enqueue d fps i todo) = pump_again n (pump_step True b (Pump_Enqueue d fps i todo))" for n
    by (simp add: pump_again_def funpow_Suc_right del: funpow.simps)
  from round_outcome[OF less.prems r] consider "a = Queued \<or> a = Dropped"
    | "a = Again" "length (queue_of (sink_at b i)) = Suc (length (queue_of (sink_at b' i)))"
      "sink_overflow (sink_at b' i) \<noteq> VIDEO_RAW_OVERFLOW_BLOCK" "i < length (s_sinks b')"
    using less.prems by auto
  then show ?case
  proof cases
    case 1
    then have "snd (pump_again (Suc 0) (b, Pump_Enqueue d fps i todo)) = Pump_Leave d fps i todo"
      using r by (auto simp: step) (simp_all add: pump_again_def)
    then show ?thesis by (intro exI[of _ "Suc 0"]) simp
  next
    case 2
    then obtain n where "n \<le> Suc (length (queue_of (sink_at b' i)))"
      "snd (pump_again n (b', Pump_Enqueue d fps i todo)) = Pump_Leave d fps i todo"
      using less.hyps[of b'] by auto
    then show ?thesis using 2 r by (intro exI[of _ "Suc n"]) (simp add: step)
  qed
qed

text \<open>The queue of depth one of the run is full: the older frame is evicted, and the new one queued.\<close>

theorem raw_bus_dropping_sink_returns_witness:
  "\<exists>n \<le> Suc 1. snd (pump_again n (rw_bus (demo_world 5), Pump_Enqueue demo_desc 30 0 [])) = Pump_Leave demo_desc 30 0 []"
proof -
  have s: "sink_overflow (sink_at (rw_bus (demo_world 5)) 0) \<noteq> VIDEO_RAW_OVERFLOW_BLOCK"
    "0 < length (s_sinks (rw_bus (demo_world 5)))" by code_simp+
  have "length (queue_of (sink_at (rw_bus (demo_world 5)) 0)) = 1" by code_simp
  then show ?thesis using raw_bus_dropping_sink_returns[OF s, of demo_desc 30 "[]"] by simp
qed

section \<open>What the model showed\<close>

text \<open>
  An initialization that failed is taken for a success by the next call: the sink lock is there, and
  nothing else is looked at.
\<close>

lemma init_after_failure_is_ok:
  "fst (video_raw_bus_init True False True ESP_OK b) = ESP_ERR_NO_MEM \<and>
   fst (video_raw_bus_init l1 l2 l3 c (snd (video_raw_bus_init True False True ESP_OK b))) = ESP_OK \<and>
   \<not> locks_ready (snd (video_raw_bus_init l1 l2 l3 c (snd (video_raw_bus_init True False True ESP_OK b))))"
  if "\<not> bus_ready b"
  using that by (simp add: video_raw_bus_init_def)

text \<open>A converted sink that asks for the resolution of the capture, with a size of zero, is refused.\<close>

lemma capture_resolution_refused:
  "cfg_mode cfg = VIDEO_RAW_MODE_CONVERTED \<Longrightarrow> cfg_want_width cfg = 0 \<Longrightarrow>
     fst (video_raw_sink_register init check_dst q_ok task_ok (Some cfg) b) = ESP_ERR_INVALID_ARG"
  by (simp add: video_raw_sink_register_def)

text \<open>
  A second release of a descriptor answers \<open>ESP_OK\<close>, and it still takes the sink's next frame off
  the count, so that the sink may hold one more than it registered for.
\<close>

lemma second_release_counts:
  "in_use (sink_at b i) \<Longrightarrow> \<not> fr_owned f \<Longrightarrow> i < length (s_sinks b) \<Longrightarrow> 0 < in_flight (sink_at b i) \<Longrightarrow>
   slot_gen (slot_at b (unat (fr_slot f))) \<noteq> fr_generation f \<Longrightarrow>
     fst (video_raw_sink_release (Some i) (Some f) b) = ESP_OK \<and>
     in_flight (sink_at (snd (video_raw_sink_release (Some i) (Some f) b)) i) = in_flight (sink_at b i) - 1"
  by (simp add: video_raw_sink_release_def valid_handle_def frame_release_def slot_release_def release_hold_def
      count_off_guarded_def count_off_def bus_simps)

text \<open>
  A dispatch that was under way when a sink was disabled still queues its frame after the drain, for
  a task or consumer to find when the sink is enabled again.
\<close>

lemma disabled_sink_still_queues:
  "\<not> sink_enabled (sink_at b i) \<Longrightarrow> in_flight (sink_at b i) < cap (sink_at b i) \<Longrightarrow> queue_room (sink_at b i) \<Longrightarrow>
   counted (slot_at b (unat (fr_slot d))) \<Longrightarrow> fst (enqueue_round i d b) = Queued"
  by (simp add: enqueue_round_def Let_def not_le)

end
