(* ===== verification/App_State.thy ===== *)
theory App_State
  imports Kvs_Ice Hash_Table Crc32 "HOL-Library.Monad_Syntax"
begin

text \<open>
  The application layer, \<open>components/app_webrtc/src/app_webrtc.c\<close>: its context and sessions
  (\<open>app_webrtc_internal.h\<close>), the interfaces it drives (\<open>app_webrtc_if.h\<close>), the events it raises, and
  the queues in which candidates wait for the offer of their peer.

  Sessions and waiting queues live at addresses, which the list of sessions, the hash table and the
  list of queues hold as handles; 0 is NULL. What an operation does with an address that was freed
  has no result: it is \<open>None\<close>. The list of queues and each queue of messages are stack-queues: their
  operations are those of the list specification that \<open>Stack_Queue_Refine\<close> shows the linked nodes
  to implement.
\<close>

section \<open>Codes\<close>

definition WEBRTC_STATUS_INVALID_OPERATION :: WEBRTC_STATUS where [status_defs]: "WEBRTC_STATUS_INVALID_OPERATION = 13"
definition WEBRTC_STATUS_SIGNALING_BASE :: WEBRTC_STATUS where [status_defs]: "WEBRTC_STATUS_SIGNALING_BASE = 128"
definition WEBRTC_STATUS_PEER_CONNECTION_BASE :: WEBRTC_STATUS where [status_defs]: "WEBRTC_STATUS_PEER_CONNECTION_BASE = 256"

definition WEBRTC_STATUS_IS_SIGNALING_ERROR :: "WEBRTC_STATUS \<Rightarrow> bool" where
  "WEBRTC_STATUS_IS_SIGNALING_ERROR x \<longleftrightarrow> x \<ge> WEBRTC_STATUS_SIGNALING_BASE \<and> x < WEBRTC_STATUS_PEER_CONNECTION_BASE"

definition APP_WEBRTC_MAX_SIGNALING_CLIENT_ID_LEN :: nat where "APP_WEBRTC_MAX_SIGNALING_CLIENT_ID_LEN = 256"
definition APP_WEBRTC_MAX_CORRELATION_ID_LEN :: nat where "APP_WEBRTC_MAX_CORRELATION_ID_LEN = 256"
definition APP_WEBRTC_MAX_MESSAGE_PAYLOAD_LEN :: nat where "APP_WEBRTC_MAX_MESSAGE_PAYLOAD_LEN = 24 * 1024"

definition HUNDREDS_OF_NANOS_IN_A_SECOND :: uint64 where "HUNDREDS_OF_NANOS_IN_A_SECOND = 10000000"
definition SAMPLE_PENDING_MESSAGE_CLEANUP_DURATION :: uint64 where
  "SAMPLE_PENDING_MESSAGE_CLEANUP_DURATION = 20 * HUNDREDS_OF_NANOS_IN_A_SECOND"
definition SAMPLE_HASH_TABLE_BUCKET_COUNT :: uint32 where "SAMPLE_HASH_TABLE_BUCKET_COUNT = 50"
definition SAMPLE_HASH_TABLE_BUCKET_LENGTH :: uint32 where "SAMPLE_HASH_TABLE_BUCKET_LENGTH = 2"

datatype app_event_id =
    APP_WEBRTC_EVENT_INITIALIZED | APP_WEBRTC_EVENT_DEINITIALIZING
  | APP_WEBRTC_EVENT_SIGNALING_CONNECTING | APP_WEBRTC_EVENT_SIGNALING_CONNECTED
  | APP_WEBRTC_EVENT_SIGNALING_DISCONNECTED | APP_WEBRTC_EVENT_SIGNALING_DESCRIBE
  | APP_WEBRTC_EVENT_SIGNALING_GET_ENDPOINT | APP_WEBRTC_EVENT_SIGNALING_GET_ICE
  | APP_WEBRTC_EVENT_PEER_CONNECTION_REQUESTED | APP_WEBRTC_EVENT_PEER_CONNECTED
  | APP_WEBRTC_EVENT_PEER_DISCONNECTED | APP_WEBRTC_EVENT_STREAMING_STARTED
  | APP_WEBRTC_EVENT_STREAMING_STOPPED | APP_WEBRTC_EVENT_RECEIVED_OFFER
  | APP_WEBRTC_EVENT_SENT_ANSWER | APP_WEBRTC_EVENT_SENT_OFFER
  | APP_WEBRTC_EVENT_RECEIVED_ICE_CANDIDATE | APP_WEBRTC_EVENT_SENT_ICE_CANDIDATE
  | APP_WEBRTC_EVENT_ICE_GATHERING_COMPLETE | APP_WEBRTC_EVENT_PEER_CONNECTING
  | APP_WEBRTC_EVENT_PEER_CONNECTION_FAILED | APP_WEBRTC_EVENT_ERROR | APP_WEBRTC_EVENT_SIGNALING_ERROR

section \<open>State\<close>

record app_event =
  event_id :: app_event_id
  status_code :: uint32
  ev_peer_id :: string
  ev_message :: string

record app_session =
  terminateFlag :: bool
  connectedAnnounced :: bool
  peerId :: string
  interface_session_handle :: uint64
  shutdownCallbackCustomData :: uint64
  offerReceiveTime :: uint64

record pending_queue =
  hashValue :: uint64
  createTime :: uint64
  messageQueue :: "webrtc_message list option"

text \<open>The settings that the API changes; the values of the enumerations are those of the headers.\<close>

datatype app_webrtc_rtc_codec =
    APP_WEBRTC_CODEC_H264 | APP_WEBRTC_CODEC_OPUS | APP_WEBRTC_CODEC_VP8 | APP_WEBRTC_CODEC_MULAW
  | APP_WEBRTC_CODEC_ALAW | APP_WEBRTC_CODEC_UNKNOWN | APP_WEBRTC_CODEC_H265 | APP_WEBRTC_CODEC_MAX

fun codec_value :: "app_webrtc_rtc_codec \<Rightarrow> nat" where
  "codec_value APP_WEBRTC_CODEC_H264 = 1"
| "codec_value APP_WEBRTC_CODEC_OPUS = 2"
| "codec_value APP_WEBRTC_CODEC_VP8 = 3"
| "codec_value APP_WEBRTC_CODEC_MULAW = 4"
| "codec_value APP_WEBRTC_CODEC_ALAW = 5"
| "codec_value APP_WEBRTC_CODEC_UNKNOWN = 6"
| "codec_value APP_WEBRTC_CODEC_H265 = 7"
| "codec_value APP_WEBRTC_CODEC_MAX = 8"

datatype app_webrtc_streaming_media = APP_WEBRTC_MEDIA_VIDEO | APP_WEBRTC_MEDIA_AUDIO_VIDEO | APP_WEBRTC_MEDIA_OTHER nat

record app_settings =
  audioCodec :: app_webrtc_rtc_codec
  videoCodec :: app_webrtc_rtc_codec
  mediaType :: app_webrtc_streaming_media
  channel_role_type :: webrtc_channel_role_type
  trickle_ice :: bool
  use_turn :: bool
  media_reception :: bool
  logLevel :: uint32

text \<open>The calls on the peer connection interface are logged, as a trace to state properties on.\<close>

datatype pc_call =
    Pc_create string bool uint64 | Pc_send uint64 webrtc_message | Pc_destroy uint64

text \<open>
  The context, with the globals of the file that its operations use. An event callback changes the
  world outside the application only.
\<close>

record 'w app =
  app_world :: 'w
  app_heap :: heap
  app_brk :: nat
  app_sessions :: "uint64 \<Rightarrow> app_session option"
  app_queues :: "uint64 \<Rightarrow> pending_queue option"
  pRtcPeerConnectionForRemoteClient :: hash_table
  webrtcSessionList :: "uint64 list"
  streamingSessionCount :: uint32
  pPendingSignalingMessageForRemoteClient :: "uint64 list"
  appTerminateFlag :: bool
  recreate_signaling_client :: bool
  reconnectInProgress :: bool
  bridge_mode :: bool
  app_settings :: app_settings
  g_kvs_webrtc_client :: bool
  gSignalingClientData :: bool
  gEventCallbacks :: "(app_event \<Rightarrow> 'w \<Rightarrow> 'w) list"
  app_events :: "app_event list"
  pc_log :: "pc_call list"

text \<open>
  The interfaces. A member that is NULL is \<open>None\<close>. The members get the whole state, because they
  may call back into the application before they return; the clock is read off the world.
\<close>

record 'w app_ports =
  GETTIME :: "'w app \<Rightarrow> uint64"
  create_session :: "(string \<Rightarrow> bool \<Rightarrow> 'w app \<Rightarrow> (WEBRTC_STATUS \<times> uint64) \<times> 'w app) option"
  pc_set_callbacks :: "(uint64 \<Rightarrow> uint64 \<Rightarrow> 'w app \<Rightarrow> WEBRTC_STATUS \<times> 'w app) option"
  pc_send_message :: "(uint64 \<Rightarrow> webrtc_message \<Rightarrow> 'w app \<Rightarrow> WEBRTC_STATUS \<times> 'w app) option"
  destroy_session :: "(uint64 \<Rightarrow> 'w app \<Rightarrow> WEBRTC_STATUS \<times> 'w app) option"
  set_ice_servers :: "(ice_server list \<Rightarrow> 'w app \<Rightarrow> WEBRTC_STATUS \<times> 'w app) option"
  set_data_channel_callbacks :: "(uint64 \<Rightarrow> uint64 \<Rightarrow> 'w app \<Rightarrow> WEBRTC_STATUS \<times> 'w app) option"
  send_data_channel_message :: "(uint64 \<Rightarrow> uint64 \<Rightarrow> bool \<Rightarrow> uint8 list \<Rightarrow> 'w app \<Rightarrow> WEBRTC_STATUS \<times> 'w app) option"
  sig_connect :: "'w app \<Rightarrow> WEBRTC_STATUS \<times> 'w app"
  sig_disconnect :: "'w app \<Rightarrow> WEBRTC_STATUS \<times> 'w app"
  sig_send_message :: "webrtc_message \<Rightarrow> 'w app \<Rightarrow> WEBRTC_STATUS \<times> 'w app"
  sig_get_state :: "('w app \<Rightarrow> (WEBRTC_STATUS \<times> webrtc_signaling_state) \<times> 'w app) option"
  sig_get_ice_servers :: "('w app \<Rightarrow> (WEBRTC_STATUS \<times> ice_server list) \<times> 'w app) option"
  sig_get_ice_server_by_idx :: "(int \<Rightarrow> bool \<Rightarrow> 'w app \<Rightarrow> (WEBRTC_STATUS \<times> ice_server list option \<times> bool) \<times> 'w app) option"
  sig_has_valid_ice_config :: "('w app \<Rightarrow> (WEBRTC_STATUS \<times> bool) \<times> 'w app) option"
  sig_is_ice_refresh_needed :: "('w app \<Rightarrow> (WEBRTC_STATUS \<times> bool) \<times> 'w app) option"
  sig_refresh_ice_configuration :: "('w app \<Rightarrow> WEBRTC_STATUS \<times> 'w app) option"
  purge_peer_candidates :: "(string \<Rightarrow> 'w app \<Rightarrow> WEBRTC_STATUS \<times> 'w app) option"
  pc_free :: "'w app \<Rightarrow> WEBRTC_STATUS \<times> 'w app"
  sig_free :: "'w app \<Rightarrow> WEBRTC_STATUS \<times> 'w app"

section \<open>Memory\<close>

text \<open>
  An allocated object is placed above every object before it; there is none when memory or the
  addresses run out.
\<close>

definition allocate :: "'w app \<Rightarrow> uint64 \<times> 'w app" where
  "allocate a =
     (if \<not> Suc (app_brk a) < 2 ^ 64 then (0, a)
      else (case heap_calloc (app_heap a) of
              (ok, h) \<Rightarrow> if \<not> ok then (0, a\<lparr>app_heap := h\<rparr>)
                         else (of_nat (Suc (app_brk a)), a\<lparr>app_heap := h, app_brk := Suc (app_brk a)\<rparr>)))"

definition app_free :: "nat \<Rightarrow> 'w app \<Rightarrow> 'w app" where
  "app_free n a = a\<lparr>app_heap := (heap_free ^^ n) (app_heap a)\<rparr>"

definition app_calloc :: "'w app \<Rightarrow> bool \<times> 'w app" where
  "app_calloc a = (case heap_calloc (app_heap a) of (ok, h) \<Rightarrow> (ok, a\<lparr>app_heap := h\<rparr>))"

definition put_session :: "uint64 \<Rightarrow> app_session \<Rightarrow> 'w app \<Rightarrow> 'w app" where
  "put_session p s a = a\<lparr>app_sessions := (app_sessions a)(p \<mapsto> s)\<rparr>"

definition put_queue :: "uint64 \<Rightarrow> pending_queue \<Rightarrow> 'w app \<Rightarrow> 'w app" where
  "put_queue q s a = a\<lparr>app_queues := (app_queues a)(q \<mapsto> s)\<rparr>"

text \<open>\<open>stackQueueEnqueue\<close> and \<open>stackQueueDequeue\<close> on the list of waiting queues, and what the ledger sees of them on a queue of messages.\<close>

definition pending_enqueue :: "uint64 \<Rightarrow> 'w app \<Rightarrow> STATUS \<times> 'w app" where
  "pending_enqueue q a =
     (case app_calloc a of
        (ok, a1) \<Rightarrow>
          if \<not> ok then (STATUS_NOT_ENOUGH_MEMORY, a1)
          else (STATUS_SUCCESS, a1\<lparr>pPendingSignalingMessageForRemoteClient := pPendingSignalingMessageForRemoteClient a1 @ [q]\<rparr>))"

definition pending_remove :: "uint64 \<Rightarrow> 'w app \<Rightarrow> STATUS \<times> 'w app" where
  "pending_remove q a =
     (if q \<in> set (pPendingSignalingMessageForRemoteClient a)
      then (STATUS_SUCCESS, (app_free 1 a)\<lparr>pPendingSignalingMessageForRemoteClient := remove1 q (pPendingSignalingMessageForRemoteClient a)\<rparr>)
      else (STATUS_NOT_FOUND, a))"

definition COMPUTE_PEER_HASH :: "string \<Rightarrow> uint64" where
  "COMPUTE_PEER_HASH s = ucast (COMPUTE_CRC32 s)"

section \<open>Events\<close>

definition MAX_EVENT_CALLBACKS :: nat where "MAX_EVENT_CALLBACKS = 5"

definition raiseEvent :: "app_event_id \<Rightarrow> uint32 \<Rightarrow> string option \<Rightarrow> string \<Rightarrow> 'w app \<Rightarrow> 'w app" where
  "raiseEvent i st peer msg a =
     (let e = \<lparr>event_id = i, status_code = st,
               ev_peer_id = (case peer of None \<Rightarrow> [] | Some p \<Rightarrow> strncpy_term (APP_WEBRTC_MAX_SIGNALING_CLIENT_ID_LEN + 1) p),
               ev_message = strncpy_term 256 msg\<rparr>
      in a\<lparr>app_events := app_events a @ [e], app_world := fold (\<lambda>cb w. cb e w) (gEventCallbacks a) (app_world a)\<rparr>)"

definition app_webrtc_register_event_callback :: "(app_event \<Rightarrow> 'w \<Rightarrow> 'w) option \<Rightarrow> bool \<Rightarrow> 'w app \<Rightarrow> STATUS \<times> 'w app" where
  "app_webrtc_register_event_callback cb lock_ok a =
     (case cb of
        None \<Rightarrow> (STATUS_INVALID_OPERATION, a)
      | Some f \<Rightarrow>
          if \<not> lock_ok then (STATUS_INVALID_OPERATION, a)
          else if length (gEventCallbacks a) \<ge> MAX_EVENT_CALLBACKS then (STATUS_NOT_ENOUGH_MEMORY, a)
          else (STATUS_SUCCESS, a\<lparr>gEventCallbacks := gEventCallbacks a @ [f]\<rparr>))"

section \<open>Queues of messages that wait for an offer\<close>

text \<open>
  \<open>freeMessageQueue\<close> clears the queue with \<open>freeData\<close>, which frees the node and the block of each
  message, and frees the queue and its holder; a payload of a message is a block of its own.
\<close>

definition freeMessageQueue :: "uint64 \<Rightarrow> 'w app \<Rightarrow> (STATUS \<times> 'w app) option" where
  "freeMessageQueue q a =
     (if q = 0 then Some (STATUS_SUCCESS, a)
      else do {
        s \<leftarrow> app_queues a q;
        let a1 = (case messageQueue s of None \<Rightarrow> a | Some ms \<Rightarrow> app_free (2 * length ms + 1) a);
        Some (STATUS_SUCCESS, (app_free 1 a1)\<lparr>app_queues := (app_queues a1)(q := None)\<rparr>)
      })"

definition createMessageQueue :: "'w app_ports \<Rightarrow> uint64 \<Rightarrow> 'w app \<Rightarrow> (STATUS \<times> uint64 \<times> 'w app) option" where
  "createMessageQueue P k a =
     (case allocate a of
        (q, a1) \<Rightarrow>
          if q = 0 then Some (STATUS_NOT_ENOUGH_MEMORY, 0, a1)
          else
            (case app_calloc a1 of
               (ok, a2) \<Rightarrow>
                 let a3 = put_queue q \<lparr>hashValue = k, createTime = GETTIME P a1, messageQueue = (if ok then Some [] else None)\<rparr> a2
                 in if ok then Some (STATUS_SUCCESS, q, a3)
                    else do { (_, a4) \<leftarrow> freeMessageQueue q a3; Some (STATUS_NOT_ENOUGH_MEMORY, 0, a4) }))"

text \<open>The search stops at the first queue of the peer; 0 when there is none.\<close>

fun find_queue :: "'w app \<Rightarrow> uint64 \<Rightarrow> uint64 list \<Rightarrow> uint64 option" where
  "find_queue a k [] = Some 0"
| "find_queue a k (q # qs) = do { s \<leftarrow> app_queues a q; if k = hashValue s then Some q else find_queue a k qs }"

definition getPendingMessageQueueForHash :: "uint64 \<Rightarrow> bool \<Rightarrow> 'w app \<Rightarrow> (STATUS \<times> uint64 \<times> 'w app) option" where
  "getPendingMessageQueueForHash k rm a =
     do {
       q \<leftarrow> find_queue a k (pPendingSignalingMessageForRemoteClient a);
       if q = 0 then Some (STATUS_SUCCESS, 0, a)
       else if rm then (case pending_remove q a of (st, a1) \<Rightarrow> Some (st, q, a1))
       else Some (STATUS_SUCCESS, q, a)
     }"

text \<open>The expiry: every queue is taken off the front and, unless it is too old, put back at the end.\<close>

fun expire_loop :: "nat \<Rightarrow> uint64 \<Rightarrow> 'w app \<Rightarrow> (STATUS \<times> 'w app) option" where
  "expire_loop 0 now a = Some (STATUS_SUCCESS, a)"
| "expire_loop (Suc n) now a =
     (case pPendingSignalingMessageForRemoteClient a of
        [] \<Rightarrow> Some (STATUS_NOT_FOUND, a)
      | q # qs \<Rightarrow> do {
          let a1 = (app_free 1 a)\<lparr>pPendingSignalingMessageForRemoteClient := qs\<rparr>;
          s \<leftarrow> app_queues a1 q;
          if createTime s + SAMPLE_PENDING_MESSAGE_CLEANUP_DURATION < now
          then do { (_, a2) \<leftarrow> freeMessageQueue q a1; expire_loop n now a2 }
          else (case pending_enqueue q a1 of
                  (st, a2) \<Rightarrow> if st \<noteq> STATUS_SUCCESS then Some (st, a2) else expire_loop n now a2)
        })"

definition removeExpiredMessageQueues :: "'w app_ports \<Rightarrow> 'w app \<Rightarrow> (STATUS \<times> 'w app) option" where
  "removeExpiredMessageQueues P a =
     expire_loop (length (pPendingSignalingMessageForRemoteClient a)) (GETTIME P a) a"

end
