(* ===== verification/App_Ice.thy ===== *)
theory App_Ice
  imports App_State
begin

text \<open>
  ICE servers of the application layer: the queries it passes on to the signaling client, the update
  of the peer connection client, and the progressive start that gives a new session what is at hand.
  An array of servers that signaling returns is a list; its \<open>urls\<close> are C strings. The server structs
  and the block that holds them are whole, so a length that is no multiple of a struct does not occur.
\<close>

definition default_stun_server :: ice_server where
  "default_stun_server =
     \<lparr>urls = strncpy_term (APP_WEBRTC_MAX_ICE_CONFIG_URI_LEN + 1) APP_WEBRTC_DEFAULT_STUN_SERVER, username = [], credential = []\<rparr>"

text \<open>
  The sanitizing loop: entry \<open>i\<close> is copied down to \<open>valid\<close> when its URL is not empty. The result is
  the array and the number of entries kept at its front.
\<close>

fun sanitize_loop :: "ice_server list \<Rightarrow> nat \<Rightarrow> nat \<Rightarrow> nat \<Rightarrow> ice_server list \<times> nat" where
  "sanitize_loop xs i valid 0 = (xs, valid)"
| "sanitize_loop xs i valid (Suc n) =
     (if urls (xs ! i) \<noteq> []
      then sanitize_loop (if i \<noteq> valid then xs[valid := xs ! i] else xs) (Suc i) (Suc valid) n
      else sanitize_loop xs (Suc i) valid n)"

definition app_webrtc_update_ice_servers :: "'w app_ports \<Rightarrow> 'w app \<Rightarrow> STATUS \<times> 'w app" where
  "app_webrtc_update_ice_servers P a =
     (if \<not> g_kvs_webrtc_client a then (STATUS_INVALID_OPERATION, a)
      else case set_ice_servers P of
        None \<Rightarrow> (STATUS_NOT_IMPLEMENTED, a)
      | Some set_servers \<Rightarrow>
          if \<not> gSignalingClientData a then (STATUS_INVALID_OPERATION, a)
          else (case sig_get_ice_servers P of
                  None \<Rightarrow> (STATUS_INVALID_OPERATION, a)
                | Some get \<Rightarrow>
                    (case get a of
                       ((st, servers), a1) \<Rightarrow>
                         if \<not> (st = STATUS_SUCCESS \<and> 0 < length servers) then (STATUS_INVALID_OPERATION, a1)
                         else (case sanitize_loop servers 0 0 (length servers) of
                                 (xs, valid) \<Rightarrow>
                                   if \<not> 0 < valid then (STATUS_INVALID_OPERATION, a1)
                                   else (case set_servers (take valid xs) a1 of
                                           (st1, a2) \<Rightarrow>
                                             (if st1 \<noteq> WEBRTC_STATUS_SUCCESS then STATUS_INTERNAL_ERROR else STATUS_SUCCESS, a2))))))"

definition app_webrtc_on_ice_servers_updated :: "'w app_ports \<Rightarrow> uint32 \<Rightarrow> 'w app \<Rightarrow> WEBRTC_STATUS \<times> 'w app" where
  "app_webrtc_on_ice_servers_updated P newServerCount a =
     (if newServerCount = 0 then (WEBRTC_STATUS_SUCCESS, a) else app_webrtc_update_ice_servers P a)"

definition app_webrtc_apply_immediate_ice_server :: "'w app_ports \<Rightarrow> ice_server list option \<Rightarrow> 'w app \<Rightarrow> bool \<times> 'w app" where
  "app_webrtc_apply_immediate_ice_server P ice_data a =
     (case ice_data of
        None \<Rightarrow> (False, a)
      | Some servers \<Rightarrow>
          if servers = [] then (False, a)
          else if \<not> g_kvs_webrtc_client a then (False, a)
          else (case set_ice_servers P of
                  None \<Rightarrow> (False, a)
                | Some set_servers \<Rightarrow>
                    (case set_servers servers a of (st, a1) \<Rightarrow> (st = WEBRTC_STATUS_SUCCESS, a1))))"

text \<open>The install of what the query for index 0 returned, for a signaling client that can be asked by index.\<close>

definition apply_progressive :: "'w app_ports \<Rightarrow> ice_server list option \<Rightarrow> bool \<Rightarrow> 'w app \<Rightarrow> 'w app" where
  "apply_progressive P ice_data have_more a =
     (if ice_data = None \<and> \<not> have_more
      then (if g_kvs_webrtc_client a
            then (case set_ice_servers P of None \<Rightarrow> a | Some set_servers \<Rightarrow> snd (set_servers [] a))
            else a)
      else
        (case (case sig_has_valid_ice_config P of
                 None \<Rightarrow> (False, a)
               | Some has \<Rightarrow> (case has a of ((st, usable), a1) \<Rightarrow> (st = WEBRTC_STATUS_SUCCESS \<and> usable, a1))) of
           (cache_usable, a1) \<Rightarrow>
             (case (if cache_usable \<and> have_more
                    then (case app_webrtc_update_ice_servers P a1 of (st, a2) \<Rightarrow> (st = WEBRTC_STATUS_SUCCESS, a2))
                    else (False, a1)) of
                (applied, a2) \<Rightarrow>
                  if applied then a2 else snd (app_webrtc_apply_immediate_ice_server P ice_data a2))))"

definition app_webrtc_trigger_progressive_ice :: "'w app_ports \<Rightarrow> bool \<Rightarrow> 'w app \<Rightarrow> WEBRTC_STATUS \<times> 'w app" where
  "app_webrtc_trigger_progressive_ice P useTurn a =
     (if \<not> gSignalingClientData a then (WEBRTC_STATUS_INVALID_OPERATION, a)
      else case sig_get_ice_server_by_idx P of
        Some get \<Rightarrow>
          (case get 0 useTurn a of
             ((st, ice_data, have_more), a1) \<Rightarrow>
               if st = WEBRTC_STATUS_SUCCESS
               then (case apply_progressive P ice_data have_more a1 of
                       a2 \<Rightarrow> (st, if ice_data = None then a2 else app_free 1 a2))
               else (st, a1))
      | None \<Rightarrow>
          (case (if g_kvs_webrtc_client a
                 then (case set_ice_servers P of None \<Rightarrow> a | Some set_servers \<Rightarrow> snd (set_servers [default_stun_server] a))
                 else a) of
             a1 \<Rightarrow>
               (WEBRTC_STATUS_SUCCESS,
                case sig_refresh_ice_configuration P of None \<Rightarrow> a1 | Some refresh \<Rightarrow> snd (refresh a1))))"

section \<open>Queries passed on\<close>

definition app_webrtc_get_server_by_idx :: "'w app_ports \<Rightarrow> int \<Rightarrow> bool \<Rightarrow> 'w app \<Rightarrow>
    (STATUS \<times> (ice_server list option \<times> bool) option) \<times> 'w app" where
  "app_webrtc_get_server_by_idx P i useTurn a =
     (if \<not> gSignalingClientData a then ((STATUS_INVALID_OPERATION, None), a)
      else case sig_get_ice_server_by_idx P of
        None \<Rightarrow> ((STATUS_INVALID_OPERATION, None), a)
      | Some get \<Rightarrow> (case get i useTurn a of ((st, d, have_more), a1) \<Rightarrow> ((st, Some (d, have_more)), a1)))"

text \<open>When the answer is not known, a refresh is needed.\<close>

definition app_webrtc_is_ice_refresh_needed :: "'w app_ports \<Rightarrow> 'w app \<Rightarrow> (STATUS \<times> bool) \<times> 'w app" where
  "app_webrtc_is_ice_refresh_needed P a =
     (if \<not> gSignalingClientData a then ((STATUS_INVALID_OPERATION, True), a)
      else case sig_is_ice_refresh_needed P of
        None \<Rightarrow> ((STATUS_INVALID_OPERATION, True), a)
      | Some needed \<Rightarrow> (case needed a of ((st, b), a1) \<Rightarrow> ((st, if st \<noteq> STATUS_SUCCESS then True else b), a1)))"

definition app_webrtc_refresh_ice_configuration :: "'w app_ports \<Rightarrow> 'w app \<Rightarrow> STATUS \<times> 'w app" where
  "app_webrtc_refresh_ice_configuration P a =
     (if \<not> gSignalingClientData a then (STATUS_INVALID_OPERATION, a)
      else case sig_refresh_ice_configuration P of
        None \<Rightarrow> (STATUS_INVALID_OPERATION, a)
      | Some refresh \<Rightarrow> refresh a)"

text \<open>The servers for the bridge: the number and the whole array, which is copied when there is any.\<close>

definition app_webrtc_get_ice_servers :: "'w app_ports \<Rightarrow> 'w app \<Rightarrow> (STATUS \<times> nat \<times> ice_server list option) \<times> 'w app" where
  "app_webrtc_get_ice_servers P a =
     (if \<not> gSignalingClientData a then ((STATUS_INVALID_OPERATION, 0, None), a)
      else case sig_get_ice_servers P of
        None \<Rightarrow> ((STATUS_SUCCESS, 0, None), a)
      | Some get \<Rightarrow>
          (case get a of
             ((st, servers), a1) \<Rightarrow>
               if st \<noteq> STATUS_SUCCESS then ((st, 0, None), a1)
               else ((STATUS_SUCCESS, length servers, if servers = [] then None else Some servers), a1)))"

section \<open>What is installed\<close>

lemma sanitize_loop_filter:
  "i + n \<le> length xs \<Longrightarrow> v \<le> i \<Longrightarrow>
   take (snd (sanitize_loop xs i v n)) (fst (sanitize_loop xs i v n)) = take v xs @ filter (\<lambda>s. urls s \<noteq> []) (take n (drop i xs)) \<and>
   snd (sanitize_loop xs i v n) \<le> length xs \<and> length (fst (sanitize_loop xs i v n)) = length xs"
proof (induction n arbitrary: xs i v)
  case 0
  then show ?case by auto
next
  case (Suc n)
  have d: "take (Suc n) (drop i xs) = xs ! i # take n (drop (Suc i) xs)"
    using Suc.prems by (simp add: Cons_nth_drop_Suc[symmetric])
  show ?case
  proof (cases "urls (xs ! i) = []")
    case True
    with Suc.IH[of "Suc i" xs v] Suc.prems d show ?thesis by simp
  next
    case False
    let ?xs = "if i \<noteq> v then xs[v := xs ! i] else xs"
    have l: "length ?xs = length xs" by simp
    have t: "take (Suc v) ?xs = take v xs @ [xs ! i]"
      using Suc.prems by (auto simp: take_Suc_conv_app_nth)
    have r: "take n (drop (Suc i) ?xs) = take n (drop (Suc i) xs)" using Suc.prems by (auto simp: drop_update_cancel)
    from Suc.IH[of "Suc i" ?xs "Suc v"] Suc.prems False d t r l show ?thesis by (simp split: if_splits)
  qed
qed

lemma sanitize_filter:
  "sanitize_loop xs 0 0 (length xs) = (ys, n) \<Longrightarrow> take n ys = filter (\<lambda>s. urls s \<noteq> []) xs \<and> n = length (filter (\<lambda>s. urls s \<noteq> []) xs)"
  using sanitize_loop_filter[of 0 "length xs" xs 0] by (auto dest!: arg_cong[where f = length])

end
