(* ===== verification/App_Message.thy ===== *)
theory App_Message
  imports App_Ice
begin

text \<open>
  What the application does with a message from the signaling client:
  \<open>signalingMessageReceived\<close> with the session it creates, re-negotiates or replaces for an offer,
  the answer, and the candidates that are passed on or wait. The whole of it runs under the lock of
  the context, so it is one step; the interfaces may call back meanwhile.
\<close>

section \<open>Sessions\<close>

definition pc_send :: "'w app_ports \<Rightarrow> uint64 \<Rightarrow> webrtc_message \<Rightarrow> 'w app \<Rightarrow> (WEBRTC_STATUS \<times> 'w app) option" where
  "pc_send P i m a = do { f \<leftarrow> pc_send_message P; Some (f i m (a\<lparr>pc_log := pc_log a @ [Pc_send i m]\<rparr>)) }"

definition purge_peer :: "'w app_ports \<Rightarrow> string \<Rightarrow> 'w app \<Rightarrow> 'w app" where
  "purge_peer P p a =
     (if gSignalingClientData a then (case purge_peer_candidates P of None \<Rightarrow> a | Some f \<Rightarrow> snd (f p a)) else a)"

definition destroy_interface_session :: "'w app_ports \<Rightarrow> uint64 \<Rightarrow> 'w app \<Rightarrow> 'w app option" where
  "destroy_interface_session P p a =
     do {
       s \<leftarrow> app_sessions a p;
       if interface_session_handle s = 0 then Some a
       else do {
         let a1 = (case destroy_session P of
                     None \<Rightarrow> a
                   | Some f \<Rightarrow> snd (f (interface_session_handle s) (a\<lparr>pc_log := pc_log a @ [Pc_destroy (interface_session_handle s)]\<rparr>)));
         s1 \<leftarrow> app_sessions a1 p;
         Some (put_session p (s1\<lparr>interface_session_handle := 0, terminateFlag := True\<rparr>) a1)
       }
     }"

text \<open>The shutdown callback of a session is never set in the repository, so it is not called.\<close>

definition freeAppWebRTCSession :: "'w app_ports \<Rightarrow> uint64 \<Rightarrow> 'w app \<Rightarrow> (STATUS \<times> 'w app) option" where
  "freeAppWebRTCSession P p a =
     (if p = 0 then Some (STATUS_SUCCESS, a)
      else do {
        s \<leftarrow> app_sessions a p;
        a1 \<leftarrow> destroy_interface_session P p (put_session p (s\<lparr>terminateFlag := True\<rparr>) a);
        s1 \<leftarrow> app_sessions a1 p;
        let a2 = purge_peer P (peerId s1) a1;
        s2 \<leftarrow> app_sessions a2 p;
        Some (STATUS_SUCCESS, (app_free 1 a2)\<lparr>app_sessions := (app_sessions a2)(p := None)\<rparr>)
      })"

definition sendSignalingMessage :: "'w app_ports \<Rightarrow> uint64 \<Rightarrow> webrtc_message \<Rightarrow> 'w app \<Rightarrow> STATUS \<times> 'w app" where
  "sendSignalingMessage P p m a =
     (if p = 0 then (STATUS_NULL_ARG, a)
      else if gSignalingClientData a then sig_send_message P m a
      else (STATUS_INVALID_OPERATION, a))"

section \<open>Candidates that waited\<close>

definition message_blocks :: "webrtc_message \<Rightarrow> nat" where
  "message_blocks m = (if msg_payload m \<noteq> None then 2 else 1)"

text \<open>The candidate at the front: its node is freed, it is sent, and it is freed whether that failed or not.\<close>

definition submit_one :: "'w app_ports \<Rightarrow> uint64 \<Rightarrow> uint64 \<Rightarrow> webrtc_message \<Rightarrow> webrtc_message list \<Rightarrow> 'w app \<Rightarrow> (STATUS \<times> 'w app) option" where
  "submit_one P q p m ms a =
     do {
       s \<leftarrow> app_queues a q;
       let a1 = put_queue q (s\<lparr>messageQueue := Some ms\<rparr>) (app_free 1 a);
       (st, a2) \<leftarrow>
         (if message_type m = WEBRTC_MESSAGE_TYPE_ICE_CANDIDATE \<and> pc_send_message P \<noteq> None
          then do { x \<leftarrow> app_sessions a1 p; pc_send P (interface_session_handle x) m a1 }
          else Some (STATUS_SUCCESS, a1));
       Some (st, app_free (message_blocks m) a2)
     }"

partial_function (option) submit_loop :: "'w app_ports \<Rightarrow> uint64 \<Rightarrow> uint64 \<Rightarrow> 'w app \<Rightarrow> (STATUS \<times> 'w app) option" where
  "submit_loop P q p a =
     do {
       s \<leftarrow> app_queues a q;
       ms \<leftarrow> messageQueue s;
       if ms = [] then Some (STATUS_SUCCESS, a)
       else do {
         r \<leftarrow> submit_one P q p (hd ms) (tl ms) a;
         if fst r \<noteq> STATUS_SUCCESS then Some r else submit_loop P q p (snd r)
       }
     }"

definition submitPendingIceCandidate :: "'w app_ports \<Rightarrow> uint64 \<Rightarrow> uint64 \<Rightarrow> 'w app \<Rightarrow> (STATUS \<times> 'w app) option" where
  "submitPendingIceCandidate P q p a =
     (if q = 0 then Some (STATUS_NULL_ARG, a)
      else do {
        s \<leftarrow> app_queues a q;
        if messageQueue s = None \<or> p = 0 then Some (STATUS_NULL_ARG, a)
        else do {
          (st, a1) \<leftarrow> submit_loop P q p a;
          if st \<noteq> STATUS_SUCCESS then Some (st, a1) else freeMessageQueue q a1
        }
      })"

section \<open>An offer\<close>

text \<open>
  What a branch leaves for the common clean-up: the status, a waiting queue to free and a session to
  free (0 for none) and the copy of a message to free.
\<close>

type_synonym 'w outcome = "STATUS \<times> uint64 \<times> uint64 \<times> webrtc_message option \<times> 'w app"

definition leave :: "STATUS \<Rightarrow> 'w app \<Rightarrow> 'w outcome" where
  "leave st a = (st, 0, 0, None, a)"

definition renegotiate :: "'w app_ports \<Rightarrow> uint64 \<Rightarrow> webrtc_message \<Rightarrow> 'w app \<Rightarrow> 'w outcome option" where
  "renegotiate P p m a =
     do {
       s \<leftarrow> app_sessions a p;
       if interface_session_handle s \<noteq> 0
       then do {
         (st, a1) \<leftarrow> pc_send P (interface_session_handle s) m a;
         Some (leave (if st \<noteq> WEBRTC_STATUS_SUCCESS then STATUS_INTERNAL_ERROR else STATUS_SUCCESS) a1)
       }
       else Some (leave STATUS_INVALID_OPERATION a)
     }"

text \<open>The terminated session leaves the list: the last one takes its place.\<close>

fun list_position :: "uint64 \<Rightarrow> uint64 list \<Rightarrow> nat \<Rightarrow> nat option" where
  "list_position p [] i = None"
| "list_position p (x # xs) i = (if x = p then Some i else list_position p xs (Suc i))"

definition swap_out :: "uint64 \<Rightarrow> 'w app \<Rightarrow> 'w app" where
  "swap_out p a =
     (case list_position p (take (unat (streamingSessionCount a)) (webrtcSessionList a)) 0 of
        None \<Rightarrow> a
      | Some i \<Rightarrow>
          (let n = streamingSessionCount a - 1
           in a\<lparr>streamingSessionCount := n,
                webrtcSessionList := (webrtcSessionList a)[i := webrtcSessionList a ! unat n]\<rparr>))"

definition replace_session :: "'w app_ports \<Rightarrow> uint64 \<Rightarrow> uint64 \<Rightarrow> 'w app \<Rightarrow> (STATUS \<times> 'w app) option" where
  "replace_session P k p a =
     (case hashTableRemove (pRtcPeerConnectionForRemoteClient a) k of
        (st, t) \<Rightarrow>
          if st \<noteq> STATUS_SUCCESS then Some (st, a)
          else do {
            (_, a1) \<leftarrow> freeAppWebRTCSession P p (swap_out p (a\<lparr>pRtcPeerConnectionForRemoteClient := t\<rparr>));
            Some (STATUS_SUCCESS, a1)
          })"

text \<open>The session object around a handle of the interface.\<close>

definition new_session :: "'w app_ports \<Rightarrow> string \<Rightarrow> uint64 \<Rightarrow> 'w app \<Rightarrow> uint64 \<times> 'w app" where
  "new_session P peer i a =
     (case allocate a of
        (p, a1) \<Rightarrow>
          if p = 0 then (0, a1)
          else (p, put_session p \<lparr>terminateFlag = False, connectedAnnounced = False, peerId = peer, interface_session_handle = i,
                                  shutdownCallbackCustomData = 0, offerReceiveTime = GETTIME P a1\<rparr> a1))"

definition wire_callbacks :: "'w app_ports \<Rightarrow> uint64 \<Rightarrow> 'w app \<Rightarrow> 'w app option" where
  "wire_callbacks P p a =
     (case pc_set_callbacks P of
        None \<Rightarrow> Some a
      | Some f \<Rightarrow> do { s \<leftarrow> app_sessions a p; Some (snd (f (interface_session_handle s) p a)) })"

definition interface_create :: "'w app_ports \<Rightarrow> string \<Rightarrow> bool \<Rightarrow> 'w app \<Rightarrow> ((WEBRTC_STATUS \<times> uint64) \<times> 'w app) option" where
  "interface_create P peer initiator a =
     do {
       f \<leftarrow> create_session P;
       let ((st, i), a1) = f peer initiator a;
       Some ((st, i), if st = WEBRTC_STATUS_SUCCESS then a1\<lparr>pc_log := pc_log a1 @ [Pc_create peer initiator i]\<rparr> else a1)
     }"

text \<open>The hash table, with the heap in which its buckets grow.\<close>

definition publish :: "uint64 \<Rightarrow> uint64 \<Rightarrow> 'w app \<Rightarrow> STATUS \<times> 'w app" where
  "publish k p a =
     (case hashTablePut (pRtcPeerConnectionForRemoteClient a) k p (app_heap a) of
        (st, t, h) \<Rightarrow> (st, a\<lparr>pRtcPeerConnectionForRemoteClient := t, app_heap := h\<rparr>))"

definition list_append :: "uint64 \<Rightarrow> 'w app \<Rightarrow> 'w app" where
  "list_append p a =
     a\<lparr>webrtcSessionList := (webrtcSessionList a)[unat (streamingSessionCount a) := p],
       streamingSessionCount := streamingSessionCount a + 1\<rparr>"

text \<open>The waiting candidates of the peer go to the session; a queue that could not be submitted is for the clean-up.\<close>

definition submit_waiting :: "'w app_ports \<Rightarrow> uint64 \<Rightarrow> uint64 \<Rightarrow> 'w app \<Rightarrow> (STATUS \<times> uint64 \<times> 'w app) option" where
  "submit_waiting P k p a =
     do {
       (st, q, a1) \<leftarrow> getPendingMessageQueueForHash k True a;
       if st \<noteq> STATUS_SUCCESS then Some (st, q, a1)
       else if q = 0 then Some (STATUS_SUCCESS, 0, a1)
       else do {
         (st1, a2) \<leftarrow> submitPendingIceCandidate P q p a1;
         Some (st1, if st1 \<noteq> STATUS_SUCCESS then q else 0, a2)
       }
     }"

definition start_session :: "'w app_ports \<Rightarrow> uint64 \<Rightarrow> uint64 \<Rightarrow> webrtc_message \<Rightarrow> 'w app \<Rightarrow> 'w outcome option" where
  "start_session P k p m a =
     do {
       a1 \<leftarrow> wire_callbacks P p a;
       s \<leftarrow> app_sessions a1 p;
       (st, a2) \<leftarrow> pc_send P (interface_session_handle s) m a1;
       if st \<noteq> WEBRTC_STATUS_SUCCESS then Some (STATUS_INTERNAL_ERROR, 0, p, None, a2)
       else do {
         (st1, q, a3) \<leftarrow> submit_waiting P k p a2;
         if st1 \<noteq> STATUS_SUCCESS then Some (st1, q, p, None, a3)
         else (case publish k p a3 of
                 (st2, a4) \<Rightarrow>
                   if st2 \<noteq> STATUS_SUCCESS then Some (st2, 0, p, None, a4)
                   else Some (leave STATUS_SUCCESS (list_append p a4)))
       }
     }"

definition create_for_offer :: "'w app_ports \<Rightarrow> uint64 \<Rightarrow> webrtc_message \<Rightarrow> 'w app \<Rightarrow> 'w outcome option" where
  "create_for_offer P k m a =
     (if unat (streamingSessionCount a) \<ge> length (webrtcSessionList a)
      then do { (st, q, a1) \<leftarrow> getPendingMessageQueueForHash k True a; Some (st, q, 0, None, a1) }
      else if \<not> g_kvs_webrtc_client a then Some (leave STATUS_INVALID_OPERATION a)
      else do {
        let (_, a1) = app_webrtc_trigger_progressive_ice P True a;
        ((st, i), a2) \<leftarrow> interface_create P (peer_client_id m) False a1;
        if st \<noteq> WEBRTC_STATUS_SUCCESS then Some (leave STATUS_INTERNAL_ERROR a2)
        else (case new_session P (peer_client_id m) i a2 of
                (p, a3) \<Rightarrow>
                  if p = 0 then Some (leave STATUS_NOT_ENOUGH_MEMORY a3)
                  else start_session P k p m a3)
      })"

definition receive_offer :: "'w app_ports \<Rightarrow> uint64 \<Rightarrow> uint64 \<Rightarrow> webrtc_message \<Rightarrow> 'w app \<Rightarrow> 'w outcome option" where
  "receive_offer P k p m a =
     (if p = 0 then create_for_offer P k m a
      else do {
        s \<leftarrow> app_sessions a p;
        if \<not> terminateFlag s then renegotiate P p m a
        else do {
          (st, a1) \<leftarrow> replace_session P k p a;
          if st \<noteq> STATUS_SUCCESS then Some (leave st a1) else create_for_offer P k m a1
        }
      })"

section \<open>An answer, a candidate\<close>

definition receive_answer :: "'w app_ports \<Rightarrow> uint64 \<Rightarrow> webrtc_message \<Rightarrow> 'w app \<Rightarrow> 'w outcome option" where
  "receive_answer P k m a =
     (let p = webrtcSessionList a ! 0
      in if p = 0 then Some (leave STATUS_INVALID_OPERATION a)
         else do {
           let (_, a1) = app_webrtc_trigger_progressive_ice P True a;
           s \<leftarrow> app_sessions a1 p;
           (st, a2) \<leftarrow> pc_send P (interface_session_handle s) m a1;
           if st \<noteq> WEBRTC_STATUS_SUCCESS then Some (leave STATUS_INTERNAL_ERROR a2)
           else do {
             (st1, q, a3) \<leftarrow> submit_waiting P k p a2;
             Some (st1, q, 0, None, a3)
           }
         })"

definition message_copy :: "webrtc_message \<Rightarrow> bool \<Rightarrow> webrtc_message" where
  "message_copy m with_payload =
     \<lparr>message_type = message_type m,
      peer_client_id = strncpy_term (APP_WEBRTC_MAX_SIGNALING_CLIENT_ID_LEN + 1) (peer_client_id m),
      correlation_id = strncpy_term (APP_WEBRTC_MAX_CORRELATION_ID_LEN + 1) (correlation_id m),
      msg_payload = (if with_payload then map_option (take (msg_payload_len m)) (msg_payload m) else None),
      msg_payload_len = msg_payload_len m, msg_version = msg_version m\<rparr>"

text \<open>The copy of a candidate goes to the end of the queue \<open>q\<close>; where memory runs out, \<open>q\<close> and the copy are for the clean-up.\<close>

definition keep_candidate :: "uint64 \<Rightarrow> webrtc_message \<Rightarrow> 'w app \<Rightarrow> 'w outcome option" where
  "keep_candidate q m a =
     (case app_calloc a of
        (ok, a1) \<Rightarrow>
          if \<not> ok then Some (STATUS_NOT_ENOUGH_MEMORY, q, 0, None, a1)
          else (let wants = (0 < msg_payload_len m \<and> msg_payload m \<noteq> None)
                in case (if wants then app_calloc a1 else (True, a1)) of
                     (ok1, a2) \<Rightarrow>
                       if \<not> ok1 then Some (STATUS_NOT_ENOUGH_MEMORY, q, 0, Some (message_copy m False), a2)
                       else (case app_calloc a2 of
                               (ok2, a3) \<Rightarrow>
                                 if \<not> ok2 then Some (STATUS_NOT_ENOUGH_MEMORY, q, 0, Some (message_copy m wants), a3)
                                 else do {
                                   s \<leftarrow> app_queues a3 q;
                                   ms \<leftarrow> messageQueue s;
                                   Some (leave STATUS_SUCCESS (put_queue q (s\<lparr>messageQueue := Some (ms @ [message_copy m wants])\<rparr>) a3))
                                 })))"

definition queue_candidate :: "'w app_ports \<Rightarrow> uint64 \<Rightarrow> webrtc_message \<Rightarrow> 'w app \<Rightarrow> 'w outcome option" where
  "queue_candidate P k m a =
     do {
       (st, q, a1) \<leftarrow> getPendingMessageQueueForHash k False a;
       if st \<noteq> STATUS_SUCCESS then Some (st, q, 0, None, a1)
       else if q \<noteq> 0 then keep_candidate q m a1
       else do {
         (st1, q1, a2) \<leftarrow> createMessageQueue P k a1;
         if st1 \<noteq> STATUS_SUCCESS then Some (st1, q1, 0, None, a2)
         else (case pending_enqueue q1 a2 of
                 (st2, a3) \<Rightarrow> if st2 \<noteq> STATUS_SUCCESS then Some (st2, q1, 0, None, a3) else keep_candidate q1 m a3)
       }
     }"

text \<open>A session without a handle would be passed itself.\<close>

definition pass_candidate :: "'w app_ports \<Rightarrow> uint64 \<Rightarrow> webrtc_message \<Rightarrow> 'w app \<Rightarrow> 'w outcome option" where
  "pass_candidate P p m a =
     do {
       s \<leftarrow> app_sessions a p;
       (st, a1) \<leftarrow> pc_send P (if interface_session_handle s \<noteq> 0 then interface_session_handle s else p) m a;
       Some (leave (if st \<noteq> WEBRTC_STATUS_SUCCESS then STATUS_INTERNAL_ERROR else STATUS_SUCCESS) a1)
     }"

definition receive_candidate :: "'w app_ports \<Rightarrow> uint64 \<Rightarrow> uint64 \<Rightarrow> webrtc_message \<Rightarrow> 'w app \<Rightarrow> 'w outcome option" where
  "receive_candidate P k p m a =
     (if \<not> msg_payload_len m \<le> APP_WEBRTC_MAX_MESSAGE_PAYLOAD_LEN then Some (leave STATUS_INVALID_ARG a)
      else if p = 0 then queue_candidate P k m a
      else pass_candidate P p m a)"

section \<open>The handler\<close>

definition message_cleanup :: "'w app_ports \<Rightarrow> 'w outcome \<Rightarrow> (STATUS \<times> 'w app) option" where
  "message_cleanup P r =
     (case r of
        (st, q, p, copy, a) \<Rightarrow> do {
          let a1 = (case copy of None \<Rightarrow> a | Some c \<Rightarrow> app_free (message_blocks c) a);
          (_, a2) \<leftarrow> freeMessageQueue q a1;
          (_, a3) \<leftarrow> freeAppWebRTCSession P p a2;
          Some (st, a3)
        })"

definition lookup_session :: "uint64 \<Rightarrow> 'w app \<Rightarrow> STATUS \<times> uint64" where
  "lookup_session k a =
     (case hashTableContains (pRtcPeerConnectionForRemoteClient a) k of
        (st, found) \<Rightarrow>
          if st \<noteq> STATUS_SUCCESS then (st, 0)
          else if found then hashTableGet (pRtcPeerConnectionForRemoteClient a) k
          else (STATUS_SUCCESS, 0))"

definition signalingMessageReceived :: "'w app_ports \<Rightarrow> webrtc_message \<Rightarrow> 'w app \<Rightarrow> (STATUS \<times> 'w app) option" where
  "signalingMessageReceived P m a =
     (let k = COMPUTE_PEER_HASH (peer_client_id m)
      in case lookup_session k a of
           (st, p) \<Rightarrow> do {
             r \<leftarrow> (if st \<noteq> STATUS_SUCCESS then Some (leave st a)
                  else case message_type m of
                    WEBRTC_MESSAGE_TYPE_OFFER \<Rightarrow> receive_offer P k p m a
                  | WEBRTC_MESSAGE_TYPE_ANSWER \<Rightarrow> receive_answer P k m a
                  | WEBRTC_MESSAGE_TYPE_ICE_CANDIDATE \<Rightarrow> receive_candidate P k p m a
                  | _ \<Rightarrow> Some (leave STATUS_SUCCESS a));
             message_cleanup P r
           })"

definition signalingMessageReceivedWrapper :: "'w app_ports \<Rightarrow> webrtc_message option \<Rightarrow> 'w app \<Rightarrow> (WEBRTC_STATUS \<times> 'w app) option" where
  "signalingMessageReceivedWrapper P msg a =
     (case msg of
        None \<Rightarrow> Some (WEBRTC_STATUS_NULL_ARG, a)
      | Some m \<Rightarrow>
          if bridge_mode a
          then (if pc_send_message P \<noteq> None
                then do {
                  (st, a1) \<leftarrow> pc_send P 0 m a;
                  Some (if st \<noteq> WEBRTC_STATUS_SUCCESS then WEBRTC_STATUS_INTERNAL_ERROR else WEBRTC_STATUS_SUCCESS, a1)
                }
                else Some (WEBRTC_STATUS_INVALID_OPERATION, a))
          else do {
            (st, a1) \<leftarrow> signalingMessageReceived P (if peer_client_id m = [] then m\<lparr>peer_client_id := ''default''\<rparr> else m) a;
            Some (if st = STATUS_SUCCESS then WEBRTC_STATUS_SUCCESS else WEBRTC_STATUS_INTERNAL_ERROR, a1)
          })"

end
