(* ===== verification/App_Peer.thy ===== *)
theory App_Peer
  imports App_Message Session_Watchdog
begin

text \<open>
  The callbacks the application hands out: the states of a peer connection, the messages a peer
  connection wants to send, the states and errors of the signaling client.
\<close>

section \<open>States of a peer connection\<close>

text \<open>The custom data of the callback: NULL, a session, or the context for a bridge.\<close>

datatype peer_data = No_data | Session_data uint64 | Context_data

text \<open>
  The callback tells a session from a context by the characters at the place of \<open>peerId\<close>. In a
  context the codec of the audio is at that place: four flags of one size come first in both
  structures. The text there is the low byte of the codec's value, and ends after it.
\<close>

definition text_at_peerId :: "peer_data \<Rightarrow> 'w app \<Rightarrow> string option" where
  "text_at_peerId d a =
     (case d of
        No_data \<Rightarrow> Some []
      | Session_data p \<Rightarrow> map_option peerId (app_sessions a p)
      | Context_data \<Rightarrow> Some (if codec_value (audioCodec (app_settings a)) = 0 then [] else [char_of (codec_value (audioCodec (app_settings a)))]))"

definition looks_like_session :: "string \<Rightarrow> bool" where
  "looks_like_session t \<longleftrightarrow> t \<noteq> [] \<and> length t < 256"

definition session_state_changed :: "uint64 \<Rightarrow> webrtc_peer_state \<Rightarrow> 'w app \<Rightarrow> 'w app option" where
  "session_state_changed p state a =
     do {
       s \<leftarrow> app_sessions a p;
       case state of
         WEBRTC_PEER_STATE_CONNECTED \<Rightarrow>
           Some (raiseEvent APP_WEBRTC_EVENT_PEER_CONNECTED 0 (Some (peerId s)) ''Peer connected''
             (put_session p (s\<lparr>connectedAnnounced := True\<rparr>) a))
       | WEBRTC_PEER_STATE_MEDIA_STARTING \<Rightarrow>
           Some (raiseEvent APP_WEBRTC_EVENT_STREAMING_STARTED 0 (Some (peerId s)) ''Media streaming started'' a)
       | WEBRTC_PEER_STATE_NEW \<Rightarrow> Some a
       | WEBRTC_PEER_STATE_CONNECTING \<Rightarrow> Some a
       | _ \<Rightarrow>
           (let a1 = put_session p (s\<lparr>connectedAnnounced := False\<rparr>) a;
                a2 = (if connectedAnnounced s
                      then raiseEvent APP_WEBRTC_EVENT_PEER_DISCONNECTED 0 (Some (peerId s)) ''Peer disconnected'' a1 else a1);
                a3 = raiseEvent APP_WEBRTC_EVENT_STREAMING_STOPPED 0 (Some (peerId s)) ''Media streaming stopped'' a2
            in Some (put_session p (s\<lparr>connectedAnnounced := False, terminateFlag := True\<rparr>) a3))
     }"

text \<open>The bridge's branch ends the first session of the list that has a handle.\<close>

fun bridge_peer_lost :: "uint64 list \<Rightarrow> 'w app \<Rightarrow> 'w app option" where
  "bridge_peer_lost [] a = Some a"
| "bridge_peer_lost (p # ps) a =
     (if p = 0 then bridge_peer_lost ps a
      else do {
        s \<leftarrow> app_sessions a p;
        if interface_session_handle s = 0 then bridge_peer_lost ps a
        else Some (put_session p (s\<lparr>terminateFlag := True\<rparr>)
               (raiseEvent APP_WEBRTC_EVENT_STREAMING_STOPPED 0 (Some (peerId s)) ''Media streaming stopped''
                 (raiseEvent APP_WEBRTC_EVENT_PEER_DISCONNECTED 0 (Some (peerId s)) ''Peer disconnected'' a)))
      })"

definition bridge_state_changed :: "webrtc_peer_state \<Rightarrow> 'w app \<Rightarrow> 'w app option" where
  "bridge_state_changed state a =
     (case state of
        WEBRTC_PEER_STATE_CONNECTED \<Rightarrow> Some (raiseEvent APP_WEBRTC_EVENT_PEER_CONNECTED 0 None ''Peer connected'' a)
      | WEBRTC_PEER_STATE_MEDIA_STARTING \<Rightarrow> Some (raiseEvent APP_WEBRTC_EVENT_STREAMING_STARTED 0 None ''Media streaming started'' a)
      | WEBRTC_PEER_STATE_NEW \<Rightarrow> Some a
      | WEBRTC_PEER_STATE_CONNECTING \<Rightarrow> Some a
      | _ \<Rightarrow> bridge_peer_lost (take (unat (streamingSessionCount a)) (webrtcSessionList a)) a)"

text \<open>A session that is taken for a context, or the other way round, is used as what it is not: no result.\<close>

definition peerConnectionStateChangedWrapper :: "peer_data \<Rightarrow> webrtc_peer_state \<Rightarrow> 'w app \<Rightarrow> (WEBRTC_STATUS \<times> 'w app) option" where
  "peerConnectionStateChangedWrapper d state a =
     (if d = No_data then Some (WEBRTC_STATUS_NULL_ARG, a)
      else do {
        t \<leftarrow> text_at_peerId d a;
        a1 \<leftarrow> (case d of
                 Session_data p \<Rightarrow> if looks_like_session t then session_state_changed p state a else None
               | _ \<Rightarrow> if looks_like_session t then None else bridge_state_changed state a);
        Some (WEBRTC_STATUS_SUCCESS, a1)
      })"

section \<open>Messages of a peer connection\<close>

definition peerOutboundMessageWrapper :: "'w app_ports \<Rightarrow> webrtc_message option \<Rightarrow> 'w app \<Rightarrow> WEBRTC_STATUS \<times> 'w app" where
  "peerOutboundMessageWrapper P msg a =
     (case msg of
        None \<Rightarrow> (WEBRTC_STATUS_NULL_ARG, a)
      | Some m \<Rightarrow>
          (let isAnswer = (message_type m = WEBRTC_MESSAGE_TYPE_ANSWER)
           in case (if gSignalingClientData a
                    then (case sig_send_message P m a of
                            (st, a1) \<Rightarrow> (st, if st \<noteq> STATUS_SUCCESS then WEBRTC_STATUS_INTERNAL_ERROR else WEBRTC_STATUS_SUCCESS, a1))
                    else (STATUS_SUCCESS, WEBRTC_STATUS_INVALID_OPERATION, a)) of
                (retStatus, sendStatus, a1) \<Rightarrow>
                  (sendStatus,
                   if \<not> isAnswer then a1
                   else if sendStatus = WEBRTC_STATUS_SUCCESS
                   then raiseEvent APP_WEBRTC_EVENT_SENT_ANSWER 0 (Some (peer_client_id m)) ''Sent answer to peer'' a1
                   else raiseEvent APP_WEBRTC_EVENT_SIGNALING_ERROR (if retStatus \<noteq> STATUS_SUCCESS then retStatus else sendStatus)
                          (Some (peer_client_id m)) ''Failed to send answer to peer'' a1)))"

section \<open>The signaling client\<close>

definition signalingClientStateChangedWrapper :: "webrtc_signaling_state \<Rightarrow> 'w app \<Rightarrow> WEBRTC_STATUS \<times> 'w app" where
  "signalingClientStateChangedWrapper state a =
     (WEBRTC_STATUS_SUCCESS,
      case state of
        WEBRTC_SIGNALING_STATE_NEW \<Rightarrow> a
      | WEBRTC_SIGNALING_STATE_CONNECTING \<Rightarrow> raiseEvent APP_WEBRTC_EVENT_SIGNALING_CONNECTING 0 None ''Signaling client connecting'' a
      | WEBRTC_SIGNALING_STATE_CONNECTED \<Rightarrow>
          (raiseEvent APP_WEBRTC_EVENT_SIGNALING_CONNECTED 0 None ''Signaling client connected'' a)\<lparr>recreate_signaling_client := False\<rparr>
      | WEBRTC_SIGNALING_STATE_DISCONNECTED \<Rightarrow>
          raiseEvent APP_WEBRTC_EVENT_SIGNALING_DISCONNECTED 0 None ''Signaling client disconnected'' a
      | WEBRTC_SIGNALING_STATE_FAILED \<Rightarrow>
          raiseEvent APP_WEBRTC_EVENT_SIGNALING_DISCONNECTED 0 None ''Signaling client failed'' a)"

definition needs_reconnect :: "WEBRTC_STATUS \<Rightarrow> bool" where
  "needs_reconnect st \<longleftrightarrow> st = WEBRTC_STATUS_SIGNALING_ICE_REFRESH_FAILED \<or> st = WEBRTC_STATUS_SIGNALING_RECONNECT_FAILED \<or>
     st = WEBRTC_STATUS_SIGNALING_CONNECTION_LOST \<or> st = WEBRTC_STATUS_SIGNALING_AUTH_FAILED"

text \<open>The text of the event is printed from the status and the message.\<close>

definition signalingClientError :: "(WEBRTC_STATUS \<Rightarrow> string \<Rightarrow> string) \<Rightarrow> WEBRTC_STATUS \<Rightarrow> string \<Rightarrow> 'w app \<Rightarrow> STATUS \<times> 'w app" where
  "signalingClientError print_error st msg a =
     (let a1 = raiseEvent APP_WEBRTC_EVENT_SIGNALING_ERROR st None (strncpy_term 256 (print_error st msg)) a
      in (STATUS_SUCCESS, if needs_reconnect st then a1\<lparr>recreate_signaling_client := True\<rparr> else a1))"

definition signalingClientErrorWrapper :: "(WEBRTC_STATUS \<Rightarrow> string \<Rightarrow> string) \<Rightarrow> WEBRTC_STATUS \<Rightarrow> string \<Rightarrow> 'w app \<Rightarrow> WEBRTC_STATUS \<times> 'w app" where
  "signalingClientErrorWrapper print_error st msg a =
     (case signalingClientError print_error st msg a of
        (st1, a1) \<Rightarrow> (if st1 = STATUS_SUCCESS then WEBRTC_STATUS_SUCCESS else WEBRTC_STATUS_INTERNAL_ERROR, a1))"

section \<open>Closing all sessions\<close>

fun mark_all :: "uint64 list \<Rightarrow> 'w app \<Rightarrow> (nat \<times> 'w app) option" where
  "mark_all [] a = Some (0, a)"
| "mark_all (p # ps) a =
     (if p = 0 then mark_all ps a
      else do {
        s \<leftarrow> app_sessions a p;
        if terminateFlag s then mark_all ps a
        else do { (n, a1) \<leftarrow> mark_all ps (put_session p (s\<lparr>terminateFlag := True\<rparr>) a); Some (Suc n, a1) }
      })"

text \<open>
  The wait for the cleanup loop: up to 200 looks at the count, \<open>env\<close> being what the other tasks do
  while this one sleeps.
\<close>

fun drain_wait :: "('w app \<Rightarrow> 'w app) \<Rightarrow> nat \<Rightarrow> 'w app \<Rightarrow> 'w app" where
  "drain_wait env 0 a = a"
| "drain_wait env (Suc n) a = (if streamingSessionCount a = 0 then a else drain_wait env n (env a))"

definition app_webrtc_close_all_sessions :: "('w app \<Rightarrow> 'w app) \<Rightarrow> 'w app \<Rightarrow> (WEBRTC_STATUS \<times> 'w app) option" where
  "app_webrtc_close_all_sessions env a =
     do {
       (marked, a1) \<leftarrow> mark_all (take (unat (streamingSessionCount a)) (webrtcSessionList a)) a;
       if marked = 0 then Some (WEBRTC_STATUS_SUCCESS, a1)
       else if appTerminateFlag a1 then Some (WEBRTC_STATUS_SUCCESS, a1)
       else Some (WEBRTC_STATUS_SUCCESS, drain_wait env 200 a1)
     }"

end
