(* ===== verification/App_Cleanup.thy ===== *)
theory App_Cleanup
  imports App_Peer
begin

text \<open>
  The cleanup loop \<open>sessionCleanupWait\<close>: each pass frees one session that has ended, drives the
  reconnection of the signaling client with its growing delays, and drops the queues of candidates
  that waited too long. \<open>env\<close> is what other tasks do at a moment at which the loop does not hold the
  lock, \<open>sleep\<close> what they do while it waits for its condition variable.
\<close>

section \<open>Sessions that have ended\<close>

fun find_terminated :: "'w app \<Rightarrow> uint64 list \<Rightarrow> nat \<Rightarrow> (nat \<times> uint64) option option" where
  "find_terminated a [] i = Some None"
| "find_terminated a (p # ps) i =
     do { s \<leftarrow> app_sessions a p; if terminateFlag s then Some (Some (i, p)) else find_terminated a ps (Suc i) }"

definition shift_out :: "nat \<Rightarrow> 'w app \<Rightarrow> 'w app" where
  "shift_out i a =
     a\<lparr>webrtcSessionList := shift_down i (unat (streamingSessionCount a) - 1) (webrtcSessionList a),
       streamingSessionCount := streamingSessionCount a - 1\<rparr>"

definition drop_terminated :: "'w app_ports \<Rightarrow> 'w app \<Rightarrow> (STATUS \<times> 'w app) option" where
  "drop_terminated P a =
     do {
       r \<leftarrow> find_terminated a (take (unat (streamingSessionCount a)) (webrtcSessionList a)) 0;
       case r of
         None \<Rightarrow> Some (STATUS_SUCCESS, a)
       | Some (i, p) \<Rightarrow> do {
           s \<leftarrow> app_sessions a p;
           case hashTableRemove (pRtcPeerConnectionForRemoteClient a) (COMPUTE_PEER_HASH (peerId s)) of
             (st, t) \<Rightarrow>
               if st \<noteq> STATUS_SUCCESS then Some (st, a)
               else do {
                 (_, a1) \<leftarrow> freeAppWebRTCSession P p (shift_out i (a\<lparr>pRtcPeerConnectionForRemoteClient := t\<rparr>));
                 Some (STATUS_SUCCESS, a1)
               }
         }
     }"

section \<open>Reconnecting the signaling client\<close>

record retry_state =
  retryCount :: uint32
  lastRetryTime :: uint64
  connectionStartTime :: uint64
  connectionInProgress :: bool

definition retry_init :: retry_state where
  "retry_init = \<lparr>retryCount = 0, lastRetryTime = 0, connectionStartTime = 0, connectionInProgress = False\<rparr>"

definition retryDelays :: "uint64 list" where
  "retryDelays = map (\<lambda>s. s * HUNDREDS_OF_NANOS_IN_A_SECOND) [5, 10, 20, 40, 60]"

definition CONNECTION_TIMEOUT :: uint64 where "CONNECTION_TIMEOUT = 15 * HUNDREDS_OF_NANOS_IN_A_SECOND"

definition retry_delay :: "retry_state \<Rightarrow> uint64" where
  "retry_delay r = retryDelays ! min (unat (retryCount r)) (length retryDelays - 1)"

text \<open>A failed attempt: at once, by its time-out, or found out by the state of the client.\<close>

definition attempt_failed :: "uint64 \<Rightarrow> retry_state \<Rightarrow> retry_state" where
  "attempt_failed now r = r\<lparr>connectionInProgress := False, retryCount := retryCount r + 1, lastRetryTime := now\<rparr>"

definition check_timeout :: "uint64 \<Rightarrow> retry_state \<Rightarrow> retry_state" where
  "check_timeout now r =
     (if connectionInProgress r \<and> now - connectionStartTime r \<ge> CONNECTION_TIMEOUT then attempt_failed now r else r)"

definition should_retry :: "uint64 \<Rightarrow> uint64 \<Rightarrow> retry_state \<Rightarrow> bool" where
  "should_retry now delay r \<longleftrightarrow> \<not> connectionInProgress r \<and> (lastRetryTime r = 0 \<or> now - lastRetryTime r \<ge> delay)"

text \<open>The lock is released over the two calls; the flag tells a terminating task that they run.\<close>

definition reconnect :: "'w app_ports \<Rightarrow> ('w app \<Rightarrow> 'w app) \<Rightarrow> uint64 \<Rightarrow> retry_state \<Rightarrow> 'w app \<Rightarrow> bool \<times> retry_state \<times> 'w app" where
  "reconnect P env now r a =
     (let a1 = env (a\<lparr>reconnectInProgress := True\<rparr>)
      in if appTerminateFlag a1 then (True, r, a1\<lparr>reconnectInProgress := False\<rparr>)
         else
           (let a2 = snd (sig_disconnect P a1);
                r1 = r\<lparr>connectionInProgress := True, connectionStartTime := now\<rparr>;
                (st, a3) = sig_connect P a2;
                a4 = env (a3\<lparr>reconnectInProgress := False\<rparr>)
            in if appTerminateFlag a4 then (True, r1, a4)
               else (False, if st \<noteq> STATUS_SUCCESS then attempt_failed now r1 else r1, a4)))"

definition check_connected :: "'w app_ports \<Rightarrow> uint64 \<Rightarrow> retry_state \<Rightarrow> 'w app \<Rightarrow> retry_state \<times> 'w app" where
  "check_connected P now r a =
     (if \<not> connectionInProgress r then (r, a)
      else case sig_get_state P of
        None \<Rightarrow> (r, a)
      | Some f \<Rightarrow>
          (case f a of
             ((st, state), a1) \<Rightarrow>
               if st \<noteq> STATUS_SUCCESS then (r, a1)
               else if state = WEBRTC_SIGNALING_STATE_CONNECTED
               then (r\<lparr>connectionInProgress := False, retryCount := 0, lastRetryTime := 0\<rparr>, a1\<lparr>recreate_signaling_client := False\<rparr>)
               else if state = WEBRTC_SIGNALING_STATE_FAILED \<or> state = WEBRTC_SIGNALING_STATE_DISCONNECTED
               then (attempt_failed now r, a1)
               else (r, a1)))"

definition reconnect_step :: "'w app_ports \<Rightarrow> ('w app \<Rightarrow> 'w app) \<Rightarrow> retry_state \<Rightarrow> 'w app \<Rightarrow> bool \<times> retry_state \<times> 'w app" where
  "reconnect_step P env r a =
     (if \<not> (recreate_signaling_client a \<and> gSignalingClientData a) then (False, r, a)
      else
        (let now = GETTIME P a;
             delay = retry_delay r;
             r1 = check_timeout now r;
             (leave_loop, r2, a1) = (if should_retry now delay r1 then reconnect P env now r1 a else (False, r1, a))
         in if leave_loop then (True, r2, a1)
            else (case check_connected P now r2 a1 of (r3, a2) \<Rightarrow> (False, r3, a2))))"

section \<open>The loop\<close>

datatype pass_end = Leave_loop STATUS | Wait_for_next

definition cleanup_pass :: "'w app_ports \<Rightarrow> ('w app \<Rightarrow> 'w app) \<Rightarrow> bool \<Rightarrow> retry_state \<Rightarrow> 'w app \<Rightarrow> (pass_end \<times> retry_state \<times> 'w app) option" where
  "cleanup_pass P env isSignalingOnly r a =
     do {
       (st, a1) \<leftarrow> drop_terminated P a;
       if st \<noteq> STATUS_SUCCESS then Some (Leave_loop st, r, a1)
       else (case reconnect_step P env r a1 of
               (leave_loop, r1, a2) \<Rightarrow>
                 if leave_loop then Some (Leave_loop STATUS_SUCCESS, r1, a2)
                 else do {
                   (_, a3) \<leftarrow> (if isSignalingOnly then Some (STATUS_SUCCESS, a2) else removeExpiredMessageQueues P a2);
                   Some (if appTerminateFlag a3 then Leave_loop STATUS_SUCCESS else Wait_for_next, r1, a3)
                 })
     }"

partial_function (option) cleanup_loop ::
  "'w app_ports \<Rightarrow> ('w app \<Rightarrow> 'w app) \<Rightarrow> ('w app \<Rightarrow> 'w app) \<Rightarrow> bool \<Rightarrow> retry_state \<Rightarrow> 'w app \<Rightarrow> (STATUS \<times> 'w app) option" where
  "cleanup_loop P env sleep sig_only r a =
     (if appTerminateFlag a then Some (STATUS_SUCCESS, a)
      else do {
        x \<leftarrow> cleanup_pass P env sig_only r a;
        case fst x of
          Leave_loop st \<Rightarrow> Some (st, snd (snd x))
        | Wait_for_next \<Rightarrow> cleanup_loop P env sleep sig_only (fst (snd x)) (sleep (snd (snd x)))
      })"

definition sessionCleanupWait :: "'w app_ports \<Rightarrow> ('w app \<Rightarrow> 'w app) \<Rightarrow> ('w app \<Rightarrow> 'w app) \<Rightarrow> bool \<Rightarrow> 'w app \<Rightarrow> (STATUS \<times> 'w app) option" where
  "sessionCleanupWait P env sleep isSignalingOnly a = cleanup_loop P env sleep isSignalingOnly retry_init a"

section \<open>Creation and teardown of the context\<close>

text \<open>The blocks of a context are its own, the structure of its queue list and the hash table.\<close>

definition default_settings :: "bool \<Rightarrow> bool \<Rightarrow> uint32 \<Rightarrow> app_settings" where
  "default_settings trickle turn level =
     \<lparr>audioCodec = APP_WEBRTC_CODEC_OPUS, videoCodec = APP_WEBRTC_CODEC_H264, mediaType = APP_WEBRTC_MEDIA_AUDIO_VIDEO,
      channel_role_type = WEBRTC_CHANNEL_ROLE_TYPE_MASTER, trickle_ice = trickle, use_turn = turn, media_reception = True, logLevel = level\<rparr>"

definition createAppWebRTCContext ::
  "'w app_ports \<Rightarrow> nat \<Rightarrow> bool \<Rightarrow> bool \<Rightarrow> uint32 \<Rightarrow> (app_event \<Rightarrow> 'w \<Rightarrow> 'w) list \<Rightarrow> 'w \<Rightarrow> heap \<Rightarrow> (STATUS \<times> 'w app option \<times> heap) option" where
  "createAppWebRTCContext P max_streams trickle turn level callbacks w h =
     (case heap_calloc h of
        (ok, h1) \<Rightarrow>
          if \<not> ok then Some (STATUS_NOT_ENOUGH_MEMORY, None, h1)
          else (case heap_calloc h1 of
                  (ok1, h2) \<Rightarrow>
                    if \<not> ok1 then Some (STATUS_NOT_ENOUGH_MEMORY, None, heap_free h2)
                    else (case hashTableCreateWithParams SAMPLE_HASH_TABLE_BUCKET_COUNT SAMPLE_HASH_TABLE_BUCKET_LENGTH h2 of
                            None \<Rightarrow> None
                          | Some (st, t, h3) \<Rightarrow>
                              Some
                              (case t of
                                 None \<Rightarrow> (st, None, heap_free (heap_free h3))
                               | Some t \<Rightarrow>
                                   (STATUS_SUCCESS,
                                    Some \<lparr>app_world = w, app_heap = h3, app_brk = 0, app_sessions = Map.empty, app_queues = Map.empty,
                                          pRtcPeerConnectionForRemoteClient = t, webrtcSessionList = replicate max_streams 0,
                                          streamingSessionCount = 0, pPendingSignalingMessageForRemoteClient = [],
                                          appTerminateFlag = False, recreate_signaling_client = False, reconnectInProgress = False,
                                          bridge_mode = (create_session P = None), app_settings = default_settings trickle turn level,
                                          g_kvs_webrtc_client = False, gSignalingClientData = False, gEventCallbacks = callbacks,
                                          app_events = [], pc_log = []\<rparr>, h3)))))"

fun free_sessions :: "'w app_ports \<Rightarrow> uint64 list \<Rightarrow> 'w app \<Rightarrow> 'w app option" where
  "free_sessions P [] a = Some a"
| "free_sessions P (p # ps) a =
     (if p = 0 then free_sessions P ps a
      else do { (_, a1) \<leftarrow> freeAppWebRTCSession P p a; free_sessions P ps a1 })"

text \<open>The sessions are taken off the list before the first is freed.\<close>

definition detach_sessions :: "'w app \<Rightarrow> uint64 list \<times> 'w app" where
  "detach_sessions a =
     (let n = unat (streamingSessionCount a)
      in (take n (webrtcSessionList a),
          a\<lparr>webrtcSessionList := replicate (min n (length (webrtcSessionList a))) 0 @ drop n (webrtcSessionList a), streamingSessionCount := 0\<rparr>))"

definition freeAllAppWebRTCSessions :: "'w app_ports \<Rightarrow> 'w app \<Rightarrow> 'w app option" where
  "freeAllAppWebRTCSessions P a =
     (case detach_sessions (a\<lparr>pRtcPeerConnectionForRemoteClient := snd (hashTableClear (pRtcPeerConnectionForRemoteClient a))\<rparr>) of
        (ps, a1) \<Rightarrow> free_sessions P ps a1)"

fun free_queues :: "uint64 list \<Rightarrow> 'w app \<Rightarrow> 'w app option" where
  "free_queues [] a = Some a"
| "free_queues (q # qs) a = do { (_, a1) \<leftarrow> freeMessageQueue q a; free_queues qs a1 }"

definition freeAppWebRTCContext :: "'w app_ports \<Rightarrow> 'w app \<Rightarrow> 'w app option" where
  "freeAppWebRTCContext P a =
     do {
       a1 \<leftarrow> free_queues (pPendingSignalingMessageForRemoteClient a) a;
       let a2 = (app_free (length (pPendingSignalingMessageForRemoteClient a1) + 1) a1)\<lparr>pPendingSignalingMessageForRemoteClient := []\<rparr>;
       let a3 = a2\<lparr>app_heap := snd (hashTableFree (Some (snd (hashTableClear (pRtcPeerConnectionForRemoteClient a2)))) (app_heap a2))\<rparr>;
       let (ps, a4) = detach_sessions a3;
       a5 \<leftarrow> free_sessions P ps a4;
       Some (app_free 1 a5)
     }"

text \<open>The teardown waits at most 30 seconds, in steps of 20 ms, for a reconnection that is under way.\<close>

definition APP_WEBRTC_RECONNECT_DRAIN_TIMEOUT_MS :: nat where "APP_WEBRTC_RECONNECT_DRAIN_TIMEOUT_MS = 30000"

fun reconnect_wait :: "('w app \<Rightarrow> 'w app) \<Rightarrow> nat \<Rightarrow> 'w app \<Rightarrow> 'w app" where
  "reconnect_wait env 0 a = a"
| "reconnect_wait env (Suc n) a = (if reconnectInProgress a then reconnect_wait env n (env a) else a)"

definition app_webrtc_teardown :: "'w app_ports \<Rightarrow> ('w app \<Rightarrow> 'w app) \<Rightarrow> 'w app \<Rightarrow> 'w app option" where
  "app_webrtc_teardown P env a =
     (let a1 = reconnect_wait env (APP_WEBRTC_RECONNECT_DRAIN_TIMEOUT_MS div 20) (a\<lparr>appTerminateFlag := True\<rparr>);
          a2 = (if gSignalingClientData a1 then snd (sig_disconnect P a1) else a1)
      in do {
           a3 \<leftarrow> freeAllAppWebRTCSessions P a2;
           let a4 = (if g_kvs_webrtc_client a3 then (snd (pc_free P a3))\<lparr>g_kvs_webrtc_client := False\<rparr> else a3);
           let a5 = (if gSignalingClientData a4 then snd (sig_free P a4) else a4);
           a6 \<leftarrow> freeAppWebRTCContext P a5;
           Some (a6\<lparr>gSignalingClientData := False\<rparr>)
         })"

end
