(* ===== verification/App_Api.thy ===== *)
theory App_Api
  imports App_Cleanup
begin

text \<open>
  The calls of the application's users: an offer of our own, data channels, settings. A call without
  a context (\<open>gSampleConfiguration\<close> is NULL) is a call on \<open>None\<close>.
\<close>

section \<open>An offer of our own\<close>

text \<open>\<open>STRCPY\<close> into an array of \<open>n\<close> characters: a longer text is written past its end, which has no result.\<close>

definition strcpy_into :: "nat \<Rightarrow> string \<Rightarrow> string option" where
  "strcpy_into n s = (if length s < n then Some s else None)"

definition create_for_trigger :: "'w app_ports \<Rightarrow> uint64 \<Rightarrow> string \<Rightarrow> 'w app \<Rightarrow> (STATUS \<times> uint64 \<times> 'w app) option" where
  "create_for_trigger P k peer a =
     (if unat (streamingSessionCount a) \<ge> length (webrtcSessionList a) then Some (STATUS_INVALID_OPERATION, 0, a)
      else if \<not> g_kvs_webrtc_client a then Some (STATUS_INVALID_OPERATION, 0, a)
      else do {
        let (_, a1) = app_webrtc_trigger_progressive_ice P True a;
        ((st, i), a2) \<leftarrow> interface_create P peer True a1;
        if st \<noteq> WEBRTC_STATUS_SUCCESS then Some (STATUS_INTERNAL_ERROR, 0, a2)
        else (case new_session P peer i a2 of
                (p, a3) \<Rightarrow>
                  if p = 0 then Some (STATUS_NOT_ENOUGH_MEMORY, 0, a3)
                  else do {
                    _ \<leftarrow> strcpy_into (APP_WEBRTC_MAX_SIGNALING_CLIENT_ID_LEN + 1) peer;
                    a4 \<leftarrow> wire_callbacks P p a3;
                    case publish k p (list_append p a4) of (st1, a5) \<Rightarrow> Some (st1, p, a5)
                  })
      })"

text \<open>After the lock is released, \<open>env\<close> is what other tasks do before the session is used again.\<close>

definition announce_offer :: "'w app_ports \<Rightarrow> string \<Rightarrow> uint64 \<Rightarrow> 'w app \<Rightarrow> (STATUS \<times> 'w app) option" where
  "announce_offer P peer p a =
     do {
       s \<leftarrow> app_sessions a p;
       if interface_session_handle s \<noteq> 0
       then Some (STATUS_SUCCESS, raiseEvent APP_WEBRTC_EVENT_SENT_OFFER 0 (Some peer) ''Using existing session'' a)
       else do {
         ((st, i), a1) \<leftarrow> interface_create P peer True a;
         if st \<noteq> WEBRTC_STATUS_SUCCESS then Some (STATUS_INTERNAL_ERROR, a1)
         else do {
           s1 \<leftarrow> app_sessions a1 p;
           f \<leftarrow> pc_set_callbacks P;
           case f i p (put_session p (s1\<lparr>interface_session_handle := i\<rparr>) a1) of
             (st1, a2) \<Rightarrow>
               if st1 \<noteq> WEBRTC_STATUS_SUCCESS then Some (STATUS_INTERNAL_ERROR, a2)
               else Some (STATUS_SUCCESS,
                      raiseEvent APP_WEBRTC_EVENT_SENT_OFFER 0 (Some peer) ''Triggered offer creation via interface'' a2)
         }
       }
     }"

definition app_webrtc_trigger_offer :: "'w app_ports \<Rightarrow> ('w app \<Rightarrow> 'w app) \<Rightarrow> string option \<Rightarrow> 'w app \<Rightarrow> (STATUS \<times> 'w app) option" where
  "app_webrtc_trigger_offer P env pPeerId a =
     (case pPeerId of
        None \<Rightarrow> Some (STATUS_NULL_ARG, a)
      | Some peer \<Rightarrow>
          (let k = COMPUTE_PEER_HASH peer
           in case lookup_session k a of
                (st, p) \<Rightarrow>
                  if st \<noteq> STATUS_SUCCESS then Some (st, a)
                  else do {
                    (st1, p1, a1) \<leftarrow> (if p \<noteq> 0 then Some (STATUS_SUCCESS, p, a) else create_for_trigger P k peer a);
                    if st1 \<noteq> STATUS_SUCCESS then Some (st1, a1) else announce_offer P peer p1 (env a1)
                  }))"

section \<open>Data channels\<close>

fun find_peer :: "'w app \<Rightarrow> string \<Rightarrow> uint64 list \<Rightarrow> uint64 option" where
  "find_peer a peer [] = Some 0"
| "find_peer a peer (p # ps) =
     (if p = 0 then find_peer a peer ps
      else do { s \<leftarrow> app_sessions a p; if peerId s = peer then Some p else find_peer a peer ps })"

definition listed :: "'w app \<Rightarrow> uint64 list" where
  "listed a = take (unat (streamingSessionCount a)) (webrtcSessionList a)"

text \<open>
  The callbacks are kept in \<open>g_early_data_channel_callbacks\<close>, the first of the two globals here, and, if the
  peer has a session, set at once; \<open>cb\<close> names the pair of callbacks. \<open>CHK(TRUE, ...)\<close> does not leave, so
  without a context the code goes on and uses it: no result.
\<close>

definition app_webrtc_set_data_channel_callbacks ::
  "'w app_ports \<Rightarrow> string option \<Rightarrow> uint64 \<Rightarrow> uint64 \<Rightarrow> (uint64 \<times> uint64) option \<times> 'w app option \<Rightarrow>
   (STATUS \<times> (uint64 \<times> uint64) option \<times> 'w app option) option" where
  "app_webrtc_set_data_channel_callbacks P peer_id cb custom_data globals =
     (case (peer_id, globals) of
        (None, _) \<Rightarrow> Some (STATUS_NULL_ARG, globals)
      | (Some peer, _, g) \<Rightarrow> do {
          let early = Some (cb, custom_data);
          a \<leftarrow> g;
          p \<leftarrow> find_peer a peer (listed a);
          if p = 0 then Some (STATUS_SUCCESS, early, Some a)
          else (case set_data_channel_callbacks P of
                  None \<Rightarrow> Some (STATUS_NOT_IMPLEMENTED, early, Some a)
                | Some f \<Rightarrow> do {
                    s \<leftarrow> app_sessions a p;
                    let (st, a1) = f (interface_session_handle s) cb a;
                    if st \<noteq> STATUS_SUCCESS then Some (st, early, Some a1)
                    else do {
                      s1 \<leftarrow> app_sessions a1 p;
                      Some (st, early, Some (put_session p (s1\<lparr>shutdownCallbackCustomData := custom_data\<rparr>) a1))
                    }
                  })
        })"

definition app_webrtc_send_data_channel_message ::
  "'w app_ports \<Rightarrow> string option \<Rightarrow> uint64 \<Rightarrow> bool \<Rightarrow> uint8 list option \<Rightarrow> 'w app option \<Rightarrow> (STATUS \<times> 'w app option) option" where
  "app_webrtc_send_data_channel_message P peer_id pDataChannel isBinary pMessage g =
     (case (peer_id, pMessage) of
        (Some peer, Some bytes) \<Rightarrow>
          if \<not> 0 < length bytes then Some (STATUS_NULL_ARG, g)
          else (case g of
                  None \<Rightarrow> Some (STATUS_INVALID_OPERATION, g)
                | Some a \<Rightarrow> do {
                    p \<leftarrow> find_peer a peer (listed a);
                    if p = 0 then Some (STATUS_INVALID_ARG, g)
                    else (case send_data_channel_message P of
                            None \<Rightarrow> Some (STATUS_NOT_IMPLEMENTED, g)
                          | Some f \<Rightarrow> do {
                              s \<leftarrow> app_sessions a p;
                              let (st, a1) = f (interface_session_handle s) pDataChannel isBinary bytes a;
                              Some (st, Some a1)
                            })
                  })
      | _ \<Rightarrow> Some (STATUS_NULL_ARG, g))"

section \<open>Settings\<close>

text \<open>Each setter needs an initialised application with a context; \<open>init\<close> is \<open>gapp_webrtc_initialized\<close>.\<close>

definition with_settings :: "bool \<Rightarrow> (app_settings \<Rightarrow> app_settings) \<Rightarrow> 'w app option \<Rightarrow> STATUS \<times> 'w app option" where
  "with_settings init f g =
     (if \<not> init then (STATUS_INVALID_OPERATION, g)
      else case g of
        None \<Rightarrow> (STATUS_NULL_ARG, g)
      | Some a \<Rightarrow> (STATUS_SUCCESS, Some (a\<lparr>app_settings := f (app_settings a)\<rparr>)))"

definition app_webrtc_set_role :: "bool \<Rightarrow> webrtc_channel_role_type \<Rightarrow> 'w app option \<Rightarrow> STATUS \<times> 'w app option" where
  "app_webrtc_set_role init role g =
     (if init \<and> g \<noteq> None \<and> role \<notin> {WEBRTC_CHANNEL_ROLE_TYPE_MASTER, WEBRTC_CHANNEL_ROLE_TYPE_VIEWER}
      then (STATUS_INVALID_ARG, g)
      else with_settings init (\<lambda>s. s\<lparr>channel_role_type := role\<rparr>) g)"

definition app_webrtc_set_ice_config :: "bool \<Rightarrow> bool \<Rightarrow> bool \<Rightarrow> 'w app option \<Rightarrow> STATUS \<times> 'w app option" where
  "app_webrtc_set_ice_config init trickle turn g = with_settings init (\<lambda>s. s\<lparr>trickle_ice := trickle, use_turn := turn\<rparr>) g"

definition app_webrtc_set_log_level :: "uint32 \<Rightarrow> 'w app option \<Rightarrow> STATUS \<times> 'w app option" where
  "app_webrtc_set_log_level level g =
     (if \<not> level \<le> 8 then (STATUS_INVALID_ARG, g)
      else (STATUS_SUCCESS, map_option (\<lambda>a. a\<lparr>app_settings := (app_settings a)\<lparr>logLevel := level\<rparr>\<rparr>) g))"

definition audio_codec_or_default :: "app_webrtc_rtc_codec \<Rightarrow> app_webrtc_rtc_codec" where
  "audio_codec_or_default c =
     (if c \<in> {APP_WEBRTC_CODEC_OPUS, APP_WEBRTC_CODEC_MULAW, APP_WEBRTC_CODEC_ALAW} then c else APP_WEBRTC_CODEC_OPUS)"

definition video_codec_or_default :: "app_webrtc_rtc_codec \<Rightarrow> app_webrtc_rtc_codec" where
  "video_codec_or_default c =
     (if c \<in> {APP_WEBRTC_CODEC_H264, APP_WEBRTC_CODEC_H265, APP_WEBRTC_CODEC_VP8} then c else APP_WEBRTC_CODEC_H264)"

definition app_webrtc_set_codecs :: "bool \<Rightarrow> app_webrtc_rtc_codec \<Rightarrow> app_webrtc_rtc_codec \<Rightarrow> 'w app option \<Rightarrow> STATUS \<times> 'w app option" where
  "app_webrtc_set_codecs init audio video g =
     with_settings init (\<lambda>s. s\<lparr>audioCodec := audio_codec_or_default audio, videoCodec := video_codec_or_default video\<rparr>) g"

definition app_webrtc_set_media_type :: "bool \<Rightarrow> app_webrtc_streaming_media \<Rightarrow> 'w app option \<Rightarrow> STATUS \<times> 'w app option" where
  "app_webrtc_set_media_type init m g =
     with_settings init (\<lambda>s. s\<lparr>mediaType := (if m = APP_WEBRTC_MEDIA_VIDEO then m else APP_WEBRTC_MEDIA_AUDIO_VIDEO)\<rparr>) g"

definition app_webrtc_enable_media_reception :: "bool \<Rightarrow> bool \<Rightarrow> 'w app option \<Rightarrow> STATUS \<times> 'w app option" where
  "app_webrtc_enable_media_reception init enable g = with_settings init (\<lambda>s. s\<lparr>media_reception := enable\<rparr>) g"

end
