(* ===== verification/App_Env.thy ===== *)
theory App_Env
  imports App_Api Hash_Table_Map
begin

text \<open>
  What happens around the application while one of its operations runs: the interfaces it calls and
  the tasks beside it run its callbacks and raise flags, and change nothing else of its state
  (\<open>quiet\<close>); where the lock is free the other tasks do anything that keeps the invariant (\<open>keeps\<close>).
\<close>

section \<open>Steps of the environment\<close>

inductive env_step :: "'w app \<Rightarrow> 'w app \<Rightarrow> bool" where
  env_world: "env_step a (a\<lparr>app_world := w\<rparr>)"
| env_flags: "(appTerminateFlag a \<Longrightarrow> t) \<Longrightarrow> env_step a (a\<lparr>appTerminateFlag := t, recreate_signaling_client := r\<rparr>)"
| env_heap: "env_step a (a\<lparr>app_heap := h\<rparr>)"
| env_peer: "session_state_changed p st a = Some a' \<Longrightarrow> env_step a a'"
| env_event: "i \<notin> {APP_WEBRTC_EVENT_PEER_CONNECTED, APP_WEBRTC_EVENT_PEER_DISCONNECTED} \<Longrightarrow> env_step a (raiseEvent i st peer msg a)"

definition env :: "'w app \<Rightarrow> 'w app \<Rightarrow> bool" where
  "env a a' \<longleftrightarrow> env_step\<^sup>*\<^sup>* a a'"

text \<open>An interface keeps what it allocates apart from the application's blocks.\<close>

definition quiet :: "'w app \<Rightarrow> 'w app \<Rightarrow> bool" where
  "quiet a a' \<longleftrightarrow> env a a' \<and> live (app_heap a') = live (app_heap a)"

lemma env_refl [simp]: "env a a" by (simp add: env_def)

lemma env_trans: "env a b \<Longrightarrow> env b c \<Longrightarrow> env a c" by (simp add: env_def)

lemma env_step: "env_step a b \<Longrightarrow> env a b" by (simp add: env_def)

lemma quiet_refl [simp]: "quiet a a" by (simp add: quiet_def)

lemma quiet_trans: "quiet a b \<Longrightarrow> quiet b c \<Longrightarrow> quiet a c" unfolding quiet_def by (metis env_trans)

text \<open>What an interface has to respect; the block with servers that signaling returns is the caller's.\<close>

definition ports_ok :: "'w app_ports \<Rightarrow> bool" where
  "ports_ok P \<longleftrightarrow>
     (\<forall>f a s b. create_session P = Some f \<longrightarrow> quiet a (snd (f s b a))) \<and>
     (\<forall>f a i p. pc_set_callbacks P = Some f \<longrightarrow> quiet a (snd (f i p a))) \<and>
     (\<forall>f a i m. pc_send_message P = Some f \<longrightarrow> quiet a (snd (f i m a))) \<and>
     (\<forall>f a i. destroy_session P = Some f \<longrightarrow> quiet a (snd (f i a))) \<and>
     (\<forall>f a xs. set_ice_servers P = Some f \<longrightarrow> quiet a (snd (f xs a))) \<and>
     (\<forall>f a i c. set_data_channel_callbacks P = Some f \<longrightarrow> quiet a (snd (f i c a))) \<and>
     (\<forall>f a i d b xs. send_data_channel_message P = Some f \<longrightarrow> quiet a (snd (f i d b xs a))) \<and>
     (\<forall>a. quiet a (snd (sig_connect P a))) \<and> (\<forall>a. quiet a (snd (sig_disconnect P a))) \<and>
     (\<forall>a m. quiet a (snd (sig_send_message P m a))) \<and>
     (\<forall>f a. sig_get_state P = Some f \<longrightarrow> quiet a (snd (f a))) \<and>
     (\<forall>f a. sig_get_ice_servers P = Some f \<longrightarrow> quiet a (snd (f a))) \<and>
     (\<forall>f a i b st d mr a1. sig_get_ice_server_by_idx P = Some f \<longrightarrow> f i b a = ((st, d, mr), a1) \<longrightarrow>
        env a a1 \<and> live (app_heap a1) = live (app_heap a) + (if st = WEBRTC_STATUS_SUCCESS then owned d else 0)) \<and>
     (\<forall>f a. sig_has_valid_ice_config P = Some f \<longrightarrow> quiet a (snd (f a))) \<and>
     (\<forall>f a. sig_is_ice_refresh_needed P = Some f \<longrightarrow> quiet a (snd (f a))) \<and>
     (\<forall>f a. sig_refresh_ice_configuration P = Some f \<longrightarrow> quiet a (snd (f a))) \<and>
     (\<forall>f a s. purge_peer_candidates P = Some f \<longrightarrow> quiet a (snd (f s a)))"

section \<open>What stays\<close>

definition same_session :: "app_session \<Rightarrow> app_session \<Rightarrow> bool" where
  "same_session s s' \<longleftrightarrow> peerId s' = peerId s \<and> interface_session_handle s' = interface_session_handle s \<and>
     shutdownCallbackCustomData s' = shutdownCallbackCustomData s \<and> offerReceiveTime s' = offerReceiveTime s \<and>
     (terminateFlag s \<longrightarrow> terminateFlag s')"

definition frame :: "'w app \<Rightarrow> 'w app \<Rightarrow> bool" where
  "frame a a' \<longleftrightarrow> app_brk a' = app_brk a \<and> app_queues a' = app_queues a \<and>
     pRtcPeerConnectionForRemoteClient a' = pRtcPeerConnectionForRemoteClient a \<and>
     webrtcSessionList a' = webrtcSessionList a \<and> streamingSessionCount a' = streamingSessionCount a \<and>
     pPendingSignalingMessageForRemoteClient a' = pPendingSignalingMessageForRemoteClient a \<and>
     bridge_mode a' = bridge_mode a \<and> app_settings a' = app_settings a \<and>
     g_kvs_webrtc_client a' = g_kvs_webrtc_client a \<and> gSignalingClientData a' = gSignalingClientData a \<and>
     gEventCallbacks a' = gEventCallbacks a \<and>
     (\<forall>p. rel_option same_session (app_sessions a p) (app_sessions a' p))"

lemma same_session_refl [simp]: "same_session s s" by (simp add: same_session_def)

lemma same_session_trans: "same_session s t \<Longrightarrow> same_session t u \<Longrightarrow> same_session s u"
  by (auto simp: same_session_def)

lemma app_frame_refl [simp]: "frame a a" by (simp add: frame_def option.rel_refl)

lemma same_sessions_trans:
  "rel_option same_session x y \<Longrightarrow> rel_option same_session y z \<Longrightarrow> rel_option same_session x z"
  by (cases x; cases y; cases z) (auto intro: same_session_trans)

lemma frame_trans: "frame a b \<Longrightarrow> frame b c \<Longrightarrow> frame a c"
  unfolding frame_def by (elim conjE, intro conjI allI) (simp_all, metis same_sessions_trans)

lemma raiseEvent_simps [simp]:
  "app_heap (raiseEvent i st p m a) = app_heap a" "app_brk (raiseEvent i st p m a) = app_brk a"
  "app_sessions (raiseEvent i st p m a) = app_sessions a" "app_queues (raiseEvent i st p m a) = app_queues a"
  "pRtcPeerConnectionForRemoteClient (raiseEvent i st p m a) = pRtcPeerConnectionForRemoteClient a"
  "webrtcSessionList (raiseEvent i st p m a) = webrtcSessionList a"
  "streamingSessionCount (raiseEvent i st p m a) = streamingSessionCount a"
  "pPendingSignalingMessageForRemoteClient (raiseEvent i st p m a) = pPendingSignalingMessageForRemoteClient a"
  "appTerminateFlag (raiseEvent i st p m a) = appTerminateFlag a" "recreate_signaling_client (raiseEvent i st p m a) = recreate_signaling_client a"
  "reconnectInProgress (raiseEvent i st p m a) = reconnectInProgress a" "bridge_mode (raiseEvent i st p m a) = bridge_mode a"
  "app_settings (raiseEvent i st p m a) = app_settings a" "g_kvs_webrtc_client (raiseEvent i st p m a) = g_kvs_webrtc_client a"
  "gSignalingClientData (raiseEvent i st p m a) = gSignalingClientData a" "gEventCallbacks (raiseEvent i st p m a) = gEventCallbacks a"
  "pc_log (raiseEvent i st p m a) = pc_log a"
  by (simp_all add: raiseEvent_def Let_def)

lemma put_session_simps [simp]:
  "app_heap (put_session p s a) = app_heap a" "app_brk (put_session p s a) = app_brk a"
  "app_sessions (put_session p s a) = (app_sessions a)(p \<mapsto> s)" "app_queues (put_session p s a) = app_queues a"
  "pRtcPeerConnectionForRemoteClient (put_session p s a) = pRtcPeerConnectionForRemoteClient a"
  "webrtcSessionList (put_session p s a) = webrtcSessionList a"
  "streamingSessionCount (put_session p s a) = streamingSessionCount a"
  "pPendingSignalingMessageForRemoteClient (put_session p s a) = pPendingSignalingMessageForRemoteClient a"
  "appTerminateFlag (put_session p s a) = appTerminateFlag a" "recreate_signaling_client (put_session p s a) = recreate_signaling_client a"
  "reconnectInProgress (put_session p s a) = reconnectInProgress a" "bridge_mode (put_session p s a) = bridge_mode a"
  "app_settings (put_session p s a) = app_settings a" "g_kvs_webrtc_client (put_session p s a) = g_kvs_webrtc_client a"
  "gSignalingClientData (put_session p s a) = gSignalingClientData a" "gEventCallbacks (put_session p s a) = gEventCallbacks a"
  "pc_log (put_session p s a) = pc_log a" "app_events (put_session p s a) = app_events a"
  by (simp_all add: put_session_def)

lemma heap_free_pow_live [simp]: "live ((heap_free ^^ n) h) = live h - int n"
  by (induction n) auto

lemma app_free_simps [simp]:
  "live (app_heap (app_free n a)) = live (app_heap a) - int n" "app_brk (app_free n a) = app_brk a"
  "app_sessions (app_free n a) = app_sessions a" "app_queues (app_free n a) = app_queues a"
  "pRtcPeerConnectionForRemoteClient (app_free n a) = pRtcPeerConnectionForRemoteClient a"
  "webrtcSessionList (app_free n a) = webrtcSessionList a"
  "streamingSessionCount (app_free n a) = streamingSessionCount a"
  "pPendingSignalingMessageForRemoteClient (app_free n a) = pPendingSignalingMessageForRemoteClient a"
  "appTerminateFlag (app_free n a) = appTerminateFlag a" "recreate_signaling_client (app_free n a) = recreate_signaling_client a"
  "reconnectInProgress (app_free n a) = reconnectInProgress a" "bridge_mode (app_free n a) = bridge_mode a"
  "app_settings (app_free n a) = app_settings a" "g_kvs_webrtc_client (app_free n a) = g_kvs_webrtc_client a"
  "gSignalingClientData (app_free n a) = gSignalingClientData a" "gEventCallbacks (app_free n a) = gEventCallbacks a"
  "pc_log (app_free n a) = pc_log a" "app_events (app_free n a) = app_events a" "app_world (app_free n a) = app_world a"
  by (simp_all add: app_free_def)

lemma frame_ended:
  assumes "app_sessions a p = Some s"
  shows "frame a (put_session p (s\<lparr>connectedAnnounced := False, terminateFlag := True\<rparr>)
           (raiseEvent i st q m (if c then raiseEvent j st1 q1 m1 (put_session p (s\<lparr>connectedAnnounced := False\<rparr>) a)
                                 else put_session p (s\<lparr>connectedAnnounced := False\<rparr>) a)))"
  using assms by (simp add: frame_def same_session_def option.rel_refl)

lemma session_state_frame:
  assumes "session_state_changed p st a = Some a'"
  shows "frame a a' \<and> pc_log a' = pc_log a"
proof -
  obtain s where s: "app_sessions a p = Some s"
    using assms by (cases "app_sessions a p") (simp_all add: session_state_changed_def)
  show ?thesis
  proof (cases st)
    case WEBRTC_PEER_STATE_CONNECTED
    with assms s have "a' = raiseEvent APP_WEBRTC_EVENT_PEER_CONNECTED 0 (Some (peerId s)) ''Peer connected''
             (put_session p (s\<lparr>connectedAnnounced := True\<rparr>) a)" by (simp add: session_state_changed_def)
    then show ?thesis using s by (simp add: frame_def same_session_def option.rel_refl)
  next
    case WEBRTC_PEER_STATE_MEDIA_STARTING
    with assms s have "a' = raiseEvent APP_WEBRTC_EVENT_STREAMING_STARTED 0 (Some (peerId s)) ''Media streaming started'' a"
      by (simp add: session_state_changed_def)
    then show ?thesis by (simp add: frame_def option.rel_refl)
  next
    case WEBRTC_PEER_STATE_DISCONNECTED
    with assms s show ?thesis by (auto simp: session_state_changed_def Let_def intro!: frame_ended)
  next
    case WEBRTC_PEER_STATE_FAILED
    with assms s show ?thesis by (auto simp: session_state_changed_def Let_def intro!: frame_ended)
  qed (use assms s in \<open>simp_all add: session_state_changed_def\<close>)
qed

lemma frame_flags:
  "frame a (a\<lparr>app_world := w\<rparr>)" "frame a (a\<lparr>app_heap := h\<rparr>)"
  "frame a (a\<lparr>appTerminateFlag := u, recreate_signaling_client := r\<rparr>)" "frame a (raiseEvent i st q m a)"
  by (simp_all add: frame_def option.rel_refl)

lemma env_step_frame: "env_step a a' \<Longrightarrow> frame a a' \<and> pc_log a' = pc_log a"
  by (erule env_step.cases) (auto simp: frame_flags dest: session_state_frame)

lemma env_frame: "env a a' \<Longrightarrow> frame a a' \<and> pc_log a' = pc_log a"
  unfolding env_def
proof (induction rule: rtranclp_induct)
  case base
  then show ?case by simp
next
  case (step b c)
  then show ?case using env_step_frame frame_trans by metis
qed

lemma quiet_frame: "quiet a a' \<Longrightarrow> frame a a' \<and> pc_log a' = pc_log a \<and> live (app_heap a') = live (app_heap a)"
  using env_frame by (auto simp: quiet_def)

lemma frame_session: "frame a a' \<Longrightarrow> app_sessions a p = Some s \<Longrightarrow> \<exists>s'. app_sessions a' p = Some s' \<and> same_session s s'"
  unfolding frame_def by (metis option_rel_Some1)

lemma frame_dom: "frame a a' \<Longrightarrow> dom (app_sessions a') = dom (app_sessions a)"
proof -
  assume "frame a a'"
  then have "app_sessions a' p = None \<longleftrightarrow> app_sessions a p = None" for p
    by (cases "app_sessions a p"; cases "app_sessions a' p") (auto simp: frame_def dest!: spec[of _ p])
  then show ?thesis by (auto simp: dom_def)
qed

section \<open>The invariant of the application\<close>

text \<open>
  The invariant of the application's state. The list, its count and the hash table agree: the listed
  sessions are distinct objects in memory, and a key leads to a session exactly when that session is
  listed and the key is the hash of its peer. Every session in memory is listed, but for those of a
  set \<open>X\<close> that an operation holds itself. The waiting queues are distinct objects in memory, at most
  one for each hash.
\<close>

definition peer_key :: "app_session \<Rightarrow> uint64" where
  "peer_key s = COMPUTE_PEER_HASH (peerId s)"

definition list_ok :: "'w app \<Rightarrow> bool" where
  "list_ok a \<longleftrightarrow> unat (streamingSessionCount a) \<le> length (webrtcSessionList a) \<and> length (webrtcSessionList a) < 2 ^ 26 \<and>
     distinct (listed a) \<and> 0 \<notin> set (listed a)"

definition table_ok :: "'w app \<Rightarrow> bool" where
  "table_ok a \<longleftrightarrow> ht_inv (pRtcPeerConnectionForRemoteClient a) \<and>
     (\<forall>k p. table_of (pRtcPeerConnectionForRemoteClient a) k = Some p \<longleftrightarrow>
        p \<in> set (listed a) \<and> (\<exists>s. app_sessions a p = Some s \<and> peer_key s = k))"

definition queues_ok :: "'w app \<Rightarrow> bool" where
  "queues_ok a \<longleftrightarrow> distinct (pPendingSignalingMessageForRemoteClient a) \<and> 0 \<notin> set (pPendingSignalingMessageForRemoteClient a) \<and>
     (\<forall>q\<in>set (pPendingSignalingMessageForRemoteClient a). \<exists>s ms. app_queues a q = Some s \<and> messageQueue s = Some ms) \<and>
     inj_on (\<lambda>q. hashValue (the (app_queues a q))) (set (pPendingSignalingMessageForRemoteClient a))"

definition places_ok :: "'w app \<Rightarrow> bool" where
  "places_ok a \<longleftrightarrow> (\<forall>p\<in>dom (app_sessions a) \<union> dom (app_queues a). 0 < unat p \<and> unat p \<le> app_brk a) \<and> app_brk a < 2 ^ 64"

definition app_ok :: "uint64 set \<Rightarrow> 'w app \<Rightarrow> bool" where
  "app_ok X a \<longleftrightarrow> list_ok a \<and> table_ok a \<and> queues_ok a \<and> places_ok a \<and>
     dom (app_sessions a) = set (listed a) \<union> X \<and> X \<inter> set (listed a) = {}"

section \<open>The environment\<close>

lemma frame_listed: "frame a a' \<Longrightarrow> listed a' = listed a"
  by (simp add: frame_def listed_def)

lemma frame_key:
  assumes "frame a a'"
  shows "(\<exists>s. app_sessions a' p = Some s \<and> peer_key s = k) \<longleftrightarrow> (\<exists>s. app_sessions a p = Some s \<and> peer_key s = k)"
proof -
  have r: "rel_option same_session (app_sessions a p) (app_sessions a' p)" using assms by (simp add: frame_def)
  show ?thesis
    by (cases "app_sessions a p"; cases "app_sessions a' p"; use r in \<open>auto simp: same_session_def peer_key_def\<close>)
qed

lemma frame_ok:
  assumes "frame a a'" "app_ok X a"
  shows "app_ok X a'"
proof -
  note e = frame_listed[OF assms(1)] frame_dom[OF assms(1)]
  have f: "webrtcSessionList a' = webrtcSessionList a" "streamingSessionCount a' = streamingSessionCount a"
    "pRtcPeerConnectionForRemoteClient a' = pRtcPeerConnectionForRemoteClient a" "app_queues a' = app_queues a"
    "pPendingSignalingMessageForRemoteClient a' = pPendingSignalingMessageForRemoteClient a" "app_brk a' = app_brk a"
    using assms(1) by (simp_all add: frame_def)
  have "list_ok a' = list_ok a" "queues_ok a' = queues_ok a" "places_ok a' = places_ok a"
    by (simp_all add: list_ok_def queues_ok_def places_ok_def e f)
  moreover have "table_ok a' = table_ok a" by (simp add: table_ok_def e f frame_key[OF assms(1)])
  ultimately show ?thesis using assms(2) by (simp add: app_ok_def e)
qed

lemma quiet_ok: "quiet a a' \<Longrightarrow> app_ok X a \<Longrightarrow> app_ok X a'"
  using quiet_frame frame_ok by blast

text \<open>What other tasks may do while an operation has released the lock: anything that keeps the state in agreement.\<close>

definition keeps :: "('w app \<Rightarrow> 'w app) \<Rightarrow> bool" where
  "keeps E \<longleftrightarrow> (\<forall>a. app_ok {} a \<longrightarrow> app_ok {} (E a))"

lemma quiet_keeps: "(\<And>a. quiet a (E a)) \<Longrightarrow> keeps E"
  using quiet_ok by (auto simp: keeps_def)

text \<open>Operations that touch neither sessions nor queues nor the table are frames too.\<close>

lemma frame_upd [simp]:
  "frame a (a\<lparr>app_heap := h\<rparr>)" "frame a (app_free n a)" "frame a (a\<lparr>pc_log := l\<rparr>)"
  "frame a (a\<lparr>appTerminateFlag := u\<rparr>)" "frame a (a\<lparr>recreate_signaling_client := r\<rparr>)" "frame a (raiseEvent i st q m a)"
  by (simp_all add: frame_def option.rel_refl)

lemma frame_calloc: "app_calloc a = (ok, a') \<Longrightarrow> frame a a' \<and> app_queues a' = app_queues a \<and>
    live (app_heap a') = live (app_heap a) + (if ok then 1 else 0) \<and> pc_log a' = pc_log a"
  by (auto simp: app_calloc_def frame_def option.rel_refl heap_calloc_def Let_def)

section \<open>Allocation\<close>

lemma allocate_cases:
  assumes "allocate a = (p, a')" "app_brk a < 2 ^ 64"
  shows "p = 0 \<and> frame a a' \<and> live (app_heap a') = live (app_heap a) \<or>
    p \<noteq> 0 \<and> unat p = Suc (app_brk a) \<and> app_brk a' = Suc (app_brk a) \<and> app_brk a' < 2 ^ 64 \<and>
    frame a (a'\<lparr>app_brk := app_brk a\<rparr>) \<and> live (app_heap a') = live (app_heap a) + 1"
proof (cases "Suc (app_brk a) < 2 ^ 64 \<and> fst (heap_calloc (app_heap a))")
  case True
  then have p: "p = of_nat (Suc (app_brk a))" and a': "a' = a\<lparr>app_heap := snd (heap_calloc (app_heap a)), app_brk := Suc (app_brk a)\<rparr>"
    using assms(1) by (auto simp: allocate_def split: prod.splits if_splits)
  have u: "unat p = Suc (app_brk a)" using True by (simp add: p unsigned_of_nat take_bit_nat_eq_self del: of_nat_Suc)
  then have "p \<noteq> 0" by auto
  moreover have "live (snd (heap_calloc (app_heap a))) = live (app_heap a) + 1" using True by simp
  ultimately show ?thesis using u True by (simp add: a' frame_def option.rel_refl)
next
  case False
  then show ?thesis
    using assms(1) by (auto simp: allocate_def frame_def option.rel_refl heap_calloc_def Let_def split: prod.splits if_splits)
qed

lemma frame_app_brk:
  assumes "frame a (b\<lparr>app_brk := app_brk a\<rparr>)"
  shows "listed b = listed a" "app_queues b = app_queues a" "pRtcPeerConnectionForRemoteClient b = pRtcPeerConnectionForRemoteClient a"
    "webrtcSessionList b = webrtcSessionList a" "streamingSessionCount b = streamingSessionCount a"
    "pPendingSignalingMessageForRemoteClient b = pPendingSignalingMessageForRemoteClient a"
    "rel_option same_session (app_sessions a p) (app_sessions b p)" "dom (app_sessions b) = dom (app_sessions a)"
  using assms frame_dom[OF assms] frame_listed[OF assms] by (simp_all add: frame_def listed_def)

lemma brk_ok:
  assumes "app_ok X a" "frame a (b\<lparr>app_brk := app_brk a\<rparr>)" "app_brk b = Suc (app_brk a)" "app_brk b < 2 ^ 64"
  shows "app_ok X b"
proof -
  have "app_ok X (b\<lparr>app_brk := app_brk a\<rparr>)" by (rule frame_ok[OF assms(2,1)])
  then show ?thesis
    using assms(3,4)
    by (auto simp: app_ok_def list_ok_def table_ok_def queues_ok_def places_ok_def listed_def intro: le_SucI)
qed

lemma fresh_place:
  assumes "app_ok X a" "unat p = Suc (app_brk a)"
  shows "p \<notin> dom (app_sessions a)" "p \<notin> dom (app_queues a)" "p \<noteq> 0" "p \<notin> set (listed a)" "p \<notin> X" "p \<notin> set (pPendingSignalingMessageForRemoteClient a)"
proof -
  have n: "q \<noteq> p" if "q \<in> dom (app_sessions a) \<union> dom (app_queues a)" for q
    using assms that unfolding app_ok_def places_ok_def by (metis Suc_n_not_le_n)
  show "p \<notin> dom (app_sessions a)" "p \<notin> dom (app_queues a)" using n by auto
  then show "p \<notin> set (listed a)" "p \<notin> X" using assms(1) by (auto simp: app_ok_def)
  show "p \<noteq> 0" using assms(2) by auto
  show "p \<notin> set (pPendingSignalingMessageForRemoteClient a)"
    using \<open>p \<notin> dom (app_queues a)\<close> assms(1) by (force simp: app_ok_def queues_ok_def)
qed

lemma put_new_session:
  assumes "app_ok X a" "p \<notin> dom (app_sessions a)" "0 < unat p" "unat p \<le> app_brk a"
  shows "app_ok (insert p X) (put_session p s a)"
proof -
  have n: "p \<notin> set (listed a)" using assms(1,2) by (auto simp: app_ok_def)
  have l: "listed (put_session p s a) = listed a" by (simp add: listed_def)
  have "table_ok (put_session p s a)" using assms(1) n
    by (simp add: app_ok_def table_ok_def l)
  then show ?thesis using assms n
    by (auto simp: app_ok_def list_ok_def queues_ok_def places_ok_def l)
qed

lemma put_new_queue:
  assumes "app_ok X a" "q \<notin> set (pPendingSignalingMessageForRemoteClient a)" "0 < unat q" "unat q \<le> app_brk a"
  shows "app_ok X (put_queue q s a)"
  using assms
  by (auto simp: app_ok_def list_ok_def table_ok_def queues_ok_def places_ok_def put_queue_def listed_def inj_on_def)

end
