(* ===== verification/App_Ops.thy ===== *)
theory App_Ops
  imports App_Env
begin

text \<open>Each building block of the handler keeps the invariant and touches only live objects.\<close>

section \<open>Interfaces\<close>

lemma pc_send_spec:
  assumes "ports_ok P" "pc_send P i m a = Some (st, a')"
  shows "frame a a' \<and> pc_log a' = pc_log a @ [Pc_send i m] \<and> live (app_heap a') = live (app_heap a)"
proof -
  obtain f where f: "pc_send_message P = Some f" "f i m (a\<lparr>pc_log := pc_log a @ [Pc_send i m]\<rparr>) = (st, a')"
    using assms(2) by (auto simp: pc_send_def split: bind_splits)
  then have "quiet (a\<lparr>pc_log := pc_log a @ [Pc_send i m]\<rparr>) a'" using assms(1) unfolding ports_ok_def by (metis snd_conv)
  from quiet_frame[OF this] show ?thesis using frame_trans[OF frame_upd(3)] by auto
qed

lemma pc_send_defined: "pc_send_message P \<noteq> None \<Longrightarrow> \<exists>st a'. pc_send P i m a = Some (st, a')"
  by (cases "pc_send_message P") (simp_all add: pc_send_def)

lemma purge_peer_quiet: "ports_ok P \<Longrightarrow> quiet a (purge_peer P s a)"
  by (auto simp: purge_peer_def ports_ok_def split: option.splits)

lemma set_servers_quiet: "ports_ok P \<Longrightarrow> set_ice_servers P = Some f \<Longrightarrow> quiet a (snd (f xs a))"
  by (simp add: ports_ok_def)

lemma update_ice_quiet: "ports_ok P \<Longrightarrow> quiet a (snd (app_webrtc_update_ice_servers P a))"
proof -
  assume P: "ports_ok P"
  then have g: "quiet a a1" if "sig_get_ice_servers P = Some f" "f a = (x, a1)" for f x a1
    using that unfolding ports_ok_def by (metis snd_conv)
  have s: "quiet a1 a2" if "set_ice_servers P = Some f" "f xs a1 = (x, a2)" for f x a1 a2 xs
    using set_servers_quiet[OF P that(1), of a1 xs] that(2) by simp
  show ?thesis
    using g s by (auto simp: app_webrtc_update_ice_servers_def split: option.splits prod.splits) (metis quiet_trans)
qed

lemma apply_immediate_quiet: "ports_ok P \<Longrightarrow> quiet a (snd (app_webrtc_apply_immediate_ice_server P d a))"
proof -
  assume P: "ports_ok P"
  have s: "quiet a1 a2" if "set_ice_servers P = Some f" "f xs a1 = (x, a2)" for f x a1 a2 xs
    using set_servers_quiet[OF P that(1), of a1 xs] that(2) by simp
  show ?thesis using s by (auto simp: app_webrtc_apply_immediate_ice_server_def split: option.splits prod.splits)
qed

lemma apply_progressive_quiet: "ports_ok P \<Longrightarrow> quiet a (apply_progressive P d mr a)"
proof -
  assume P: "ports_ok P"
  obtain usable a1 where h: "(case sig_has_valid_ice_config P of None \<Rightarrow> (False, a)
      | Some has \<Rightarrow> (case has a of ((st, usable), a1) \<Rightarrow> (st = WEBRTC_STATUS_SUCCESS \<and> usable, a1))) = (usable, a1)"
    by (metis prod.exhaust)
  have q1: "quiet a a1"
  proof (cases "sig_has_valid_ice_config P")
    case (Some has)
    then have "quiet a (snd (has a))" using P by (simp add: ports_ok_def)
    then show ?thesis using h Some by (auto split: prod.splits)
  qed (use h in auto)
  obtain ap a2 where u: "(if usable \<and> mr then (case app_webrtc_update_ice_servers P a1 of (st, a2) \<Rightarrow> (st = WEBRTC_STATUS_SUCCESS, a2))
      else (False, a1)) = (ap, a2)" by (metis prod.exhaust)
  have q2: "quiet a1 a2" using u update_ice_quiet[OF P, of a1] by (auto split: prod.splits if_splits)
  show ?thesis
    using quiet_trans[OF q1 q2] apply_immediate_quiet[OF P, of a2 d] set_servers_quiet[OF P]
    by (auto simp: apply_progressive_def h u split: option.splits intro: quiet_trans)
qed

lemma env_free: "env a (app_free n a)"
  using env_step[OF env_heap[of a "(heap_free ^^ n) (app_heap a)"]] by (simp add: app_free_def)

lemma progressive_quiet: "ports_ok P \<Longrightarrow> quiet a (snd (app_webrtc_trigger_progressive_ice P u a))"
proof -
  assume P: "ports_ok P"
  show ?thesis
  proof (cases "gSignalingClientData a")
    case True
    show ?thesis
    proof (cases "sig_get_ice_server_by_idx P")
      case (Some get)
      obtain st d mr a1 where g: "get 0 u a = ((st, d, mr), a1)" by (metis prod.exhaust)
      have e: "env a a1" "live (app_heap a1) = live (app_heap a) + (if st = WEBRTC_STATUS_SUCCESS then owned d else 0)"
        using P Some g unfolding ports_ok_def by blast+
      have q: "env a1 (apply_progressive P d mr a1)" "live (app_heap (apply_progressive P d mr a1)) = live (app_heap a1)"
        using apply_progressive_quiet[OF P, of a1 d mr] by (simp_all add: quiet_def)
      show ?thesis
        using e q env_trans[OF e(1) q(1)] env_trans[OF _ env_free[of _ 1]] True Some g
        by (cases d) (auto simp: app_webrtc_trigger_progressive_ice_def quiet_def)
    next
      case None
      have r: "quiet b (snd (f b))" if "sig_refresh_ice_configuration P = Some f" for f b
        using P that by (simp add: ports_ok_def)
      show ?thesis
        using True None r set_servers_quiet[OF P] 
        by (auto simp: app_webrtc_trigger_progressive_ice_def split: option.splits) (metis quiet_trans)
    qed
  qed (simp add: app_webrtc_trigger_progressive_ice_def)
qed

section \<open>Waiting queues\<close>

definition queue_msgs :: "'w app \<Rightarrow> uint64 \<Rightarrow> webrtc_message list" where
  "queue_msgs a q = (case app_queues a q of None \<Rightarrow> [] | Some s \<Rightarrow> (case messageQueue s of None \<Rightarrow> [] | Some ms \<Rightarrow> ms))"

lemma free_queue_ok:
  assumes "app_ok X a" "q \<notin> set (pPendingSignalingMessageForRemoteClient a)" "q = 0 \<or> q \<in> dom (app_queues a)"
  shows "\<exists>a'. freeMessageQueue q a = Some (STATUS_SUCCESS, a') \<and> app_ok X a' \<and> frame a (a'\<lparr>app_queues := app_queues a\<rparr>) \<and>
    (q \<noteq> 0 \<longrightarrow> app_queues a' = (app_queues a)(q := None)) \<and> (q = 0 \<longrightarrow> a' = a) \<and> pc_log a' = pc_log a \<and> app_events a' = app_events a"
proof (cases "q = 0")
  case False
  then obtain s where s: "app_queues a q = Some s" using assms(3) by auto
  let ?a1 = "case messageQueue s of None \<Rightarrow> a | Some ms \<Rightarrow> app_free (2 * length ms + 1) a"
  have f: "frame a ?a1" "pc_log ?a1 = pc_log a" "app_events ?a1 = app_events a" "app_queues ?a1 = app_queues a" by (auto split: option.splits)
  let ?a' = "(app_free 1 ?a1)\<lparr>app_queues := (app_queues ?a1)(q := None)\<rparr>"
  have g: "frame a (?a'\<lparr>app_queues := app_queues a\<rparr>)"
    using f by (auto simp: frame_def option.rel_refl split: option.splits)
  have "app_ok X (?a'\<lparr>app_queues := app_queues a\<rparr>)" by (rule frame_ok[OF g assms(1)])
  then have "app_ok X ?a'"
    using assms(2) f(4)
    by (auto simp: app_ok_def list_ok_def table_ok_def queues_ok_def places_ok_def listed_def inj_on_def split: option.splits)
  then show ?thesis using False s f g by (simp add: freeMessageQueue_def)
qed (use assms in \<open>simp add: freeMessageQueue_def\<close>)

lemma find_queue_some:
  "(\<forall>q\<in>set qs. q \<noteq> 0 \<and> app_queues a q \<noteq> None) \<Longrightarrow>
   find_queue a k qs = Some (case find (\<lambda>q. hashValue (the (app_queues a q)) = k) qs of None \<Rightarrow> 0 | Some q \<Rightarrow> q)"
  by (induction qs) (auto split: option.splits)

definition waiting_for :: "'w app \<Rightarrow> uint64 \<Rightarrow> uint64 option" where
  "waiting_for a k = find (\<lambda>q. hashValue (the (app_queues a q)) = k) (pPendingSignalingMessageForRemoteClient a)"

lemma waiting_for_Some: "waiting_for a k = Some q \<Longrightarrow> q \<in> set (pPendingSignalingMessageForRemoteClient a) \<and> hashValue (the (app_queues a q)) = k"
  unfolding waiting_for_def by (auto simp: find_Some_iff)

lemma get_pending_ok:
  assumes "app_ok X a"
  shows "\<exists>a'. getPendingMessageQueueForHash k rm a = Some (STATUS_SUCCESS, (case waiting_for a k of None \<Rightarrow> 0 | Some q \<Rightarrow> q), a') \<and>
    app_ok X a' \<and> app_queues a' = app_queues a \<and> app_sessions a' = app_sessions a \<and> listed a' = listed a \<and>
    webrtcSessionList a' = webrtcSessionList a \<and> streamingSessionCount a' = streamingSessionCount a \<and>
    pRtcPeerConnectionForRemoteClient a' = pRtcPeerConnectionForRemoteClient a \<and>
    pc_log a' = pc_log a \<and> app_events a' = app_events a \<and>
    pPendingSignalingMessageForRemoteClient a' =
      (case waiting_for a k of None \<Rightarrow> pPendingSignalingMessageForRemoteClient a
       | Some q \<Rightarrow> if rm then remove1 q (pPendingSignalingMessageForRemoteClient a) else pPendingSignalingMessageForRemoteClient a)"
proof -
  let ?ps = "pPendingSignalingMessageForRemoteClient a"
  have Q: "queues_ok a" using assms by (simp add: app_ok_def)
  then have "\<forall>q\<in>set ?ps. q \<noteq> 0 \<and> app_queues a q \<noteq> None" unfolding queues_ok_def by fastforce
  from find_queue_some[OF this] have f: "find_queue a k ?ps = Some (case waiting_for a k of None \<Rightarrow> 0 | Some q \<Rightarrow> q)"
    by (simp add: waiting_for_def)
  show ?thesis
  proof (cases "waiting_for a k")
    case None
    then show ?thesis using f assms by (simp add: getPendingMessageQueueForHash_def)
  next
    case (Some q)
    then have q: "q \<in> set ?ps" "q \<noteq> 0" using waiting_for_Some Q by (auto simp: queues_ok_def)
    let ?a = "(app_free 1 a)\<lparr>pPendingSignalingMessageForRemoteClient := remove1 q ?ps\<rparr>"
    have "app_ok X (app_free 1 a)" by (rule frame_ok[OF frame_upd(2) assms])
    then have ok: "app_ok X ?a"
      using Q by (auto simp: app_ok_def list_ok_def table_ok_def queues_ok_def places_ok_def listed_def intro: inj_on_subset)
    show ?thesis
      using f Some q ok assms by (cases rm) (simp_all add: getPendingMessageQueueForHash_def pending_remove_def listed_def)
  qed
qed

end
