(* ===== verification/App_Submit.thy ===== *)
theory App_Submit
  imports App_Ops
begin

text \<open>What the handler does with the queue of candidates that waited for a peer.\<close>

section \<open>Changes of the queues alone\<close>

definition wframe :: "'w app \<Rightarrow> 'w app \<Rightarrow> bool" where
  "wframe a a' \<longleftrightarrow> frame a (a'\<lparr>app_queues := app_queues a, pPendingSignalingMessageForRemoteClient := pPendingSignalingMessageForRemoteClient a\<rparr>)"

lemma wframe_refl [simp]: "wframe a a" by (simp add: wframe_def)

lemma frame_wframe: "frame a a' \<Longrightarrow> wframe a a'" by (simp add: wframe_def frame_def)

lemma qframe_wframe: "frame a (a'\<lparr>app_queues := app_queues a\<rparr>) \<Longrightarrow> wframe a a'" by (simp add: wframe_def frame_def)

lemma wframe_trans: "wframe a b \<Longrightarrow> wframe b c \<Longrightarrow> wframe a c"
  unfolding wframe_def frame_def by (elim conjE, intro conjI allI) (simp_all, metis same_sessions_trans)

lemma wframe_fields:
  assumes "wframe a a'"
  shows "listed a' = listed a" "webrtcSessionList a' = webrtcSessionList a" "streamingSessionCount a' = streamingSessionCount a"
    "pRtcPeerConnectionForRemoteClient a' = pRtcPeerConnectionForRemoteClient a" "app_brk a' = app_brk a"
    "dom (app_sessions a') = dom (app_sessions a)" "g_kvs_webrtc_client a' = g_kvs_webrtc_client a"
    "gSignalingClientData a' = gSignalingClientData a" "bridge_mode a' = bridge_mode a" "gEventCallbacks a' = gEventCallbacks a"
  using assms frame_dom[of a "a'\<lparr>app_queues := app_queues a, pPendingSignalingMessageForRemoteClient := pPendingSignalingMessageForRemoteClient a\<rparr>"]
  by (simp_all add: wframe_def frame_def listed_def)

lemma wframe_session:
  assumes "wframe a a'" "app_sessions a p = Some s"
  shows "\<exists>s'. app_sessions a' p = Some s' \<and> same_session s s'"
proof -
  let ?b = "a'\<lparr>app_queues := app_queues a, pPendingSignalingMessageForRemoteClient := pPendingSignalingMessageForRemoteClient a\<rparr>"
  have "frame a ?b" using assms(1) by (simp add: wframe_def)
  from frame_session[OF this assms(2)] show ?thesis by simp
qed

lemma wframe_ok:
  assumes "wframe a a'" "app_ok X a" "queues_ok a'" "\<And>q. q \<in> dom (app_queues a') \<Longrightarrow> 0 < unat q \<and> unat q \<le> app_brk a"
  shows "app_ok X a'"
proof -
  let ?b = "a'\<lparr>app_queues := app_queues a, pPendingSignalingMessageForRemoteClient := pPendingSignalingMessageForRemoteClient a\<rparr>"
  have "app_ok X ?b" using assms(1,2) frame_ok unfolding wframe_def by blast
  then show ?thesis using assms(3,4) wframe_fields(5)[OF assms(1)]
    by (auto simp: app_ok_def list_ok_def table_ok_def places_ok_def listed_def)
qed

lemma queue_place: "app_ok X a \<Longrightarrow> q \<in> dom (app_queues a) \<Longrightarrow> 0 < unat q \<and> unat q \<le> app_brk a"
  by (simp add: app_ok_def places_ok_def)

lemma put_detached_queue:
  assumes "app_ok X a" "q \<in> dom (app_queues a)" "q \<notin> set (pPendingSignalingMessageForRemoteClient a)"
  shows "app_ok X (put_queue q s a)"
  using put_new_queue[OF assms(1,3)] queue_place[OF assms(1,2)] by simp

lemma put_queue_wframe: "wframe a (put_queue q s a)"
  by (simp add: wframe_def put_queue_def frame_def option.rel_refl)

section \<open>Submitting\<close>

definition usable :: "'w app_ports \<Rightarrow> bool" where
  "usable P \<longleftrightarrow> ports_ok P \<and> create_session P \<noteq> None \<and> pc_send_message P \<noteq> None"

definition candidates :: "webrtc_message list \<Rightarrow> webrtc_message list" where
  "candidates ms = filter (\<lambda>m. message_type m = WEBRTC_MESSAGE_TYPE_ICE_CANDIDATE) ms"

text \<open>A queue \<open>q\<close> that the handler has taken off the list, with the messages \<open>ms\<close>.\<close>

definition holds_queue :: "uint64 \<Rightarrow> webrtc_message list \<Rightarrow> 'w app \<Rightarrow> bool" where
  "holds_queue q ms a \<longleftrightarrow> q \<notin> set (pPendingSignalingMessageForRemoteClient a) \<and> q \<noteq> 0 \<and>
     (\<exists>s. app_queues a q = Some s \<and> messageQueue s = Some ms)"

lemma submit_one_ok:
  assumes "usable P" "app_ok X a" "holds_queue q (m # ms) a" "app_sessions a p = Some x"
  shows "\<exists>st a'. submit_one P q p m ms a = Some (st, a') \<and> app_ok X a' \<and> wframe a a' \<and> holds_queue q ms a' \<and>
    pPendingSignalingMessageForRemoteClient a' = pPendingSignalingMessageForRemoteClient a \<and>
    (\<forall>r. r \<noteq> q \<longrightarrow> app_queues a' r = app_queues a r) \<and>
    pc_log a' = pc_log a @ map (Pc_send (interface_session_handle x)) (candidates [m])"
proof -
  obtain s where s: "app_queues a q = Some s" and q: "q \<notin> set (pPendingSignalingMessageForRemoteClient a)" "q \<noteq> 0"
    using assms(3) by (auto simp: holds_queue_def)
  let ?a1 = "put_queue q (s\<lparr>messageQueue := Some ms\<rparr>) (app_free 1 a)"
  have w1: "wframe a ?a1" using wframe_trans[OF frame_wframe[OF frame_upd(2)] put_queue_wframe] by blast
  have o1: "app_ok X ?a1"
    by (rule put_detached_queue[OF frame_ok[OF frame_upd(2) assms(2)]]) (use s q in auto)
  have h1: "holds_queue q ms ?a1" using q by (simp add: holds_queue_def put_queue_def)
  have f1: "pPendingSignalingMessageForRemoteClient ?a1 = pPendingSignalingMessageForRemoteClient a" "pc_log ?a1 = pc_log a"
    "app_sessions ?a1 p = Some x" "\<forall>r. r \<noteq> q \<longrightarrow> app_queues ?a1 r = app_queues a r"
    using assms(4) by (simp_all add: put_queue_def)
  obtain st a2 where r: "(if message_type m = WEBRTC_MESSAGE_TYPE_ICE_CANDIDATE \<and> pc_send_message P \<noteq> None
          then do { x \<leftarrow> app_sessions ?a1 p; pc_send P (interface_session_handle x) m ?a1 }
          else Some (STATUS_SUCCESS, ?a1)) = Some (st, a2)"
    using pc_send_defined[of P "interface_session_handle x" m ?a1] f1(3) by (cases "message_type m = WEBRTC_MESSAGE_TYPE_ICE_CANDIDATE \<and> pc_send_message P \<noteq> None") auto
  have two: "frame ?a1 a2" "pc_log a2 = pc_log a @ map (Pc_send (interface_session_handle x)) (candidates [m])"
    using r pc_send_spec[of P "interface_session_handle x" m ?a1 st a2] f1 assms(1)
    by (auto simp: usable_def candidates_def split: if_splits)
  let ?a3 = "app_free (message_blocks m) a2"
  have "submit_one P q p m ms a = Some (st, ?a3)" using s r by (simp add: submit_one_def Let_def del: One_nat_def)
  moreover have "frame ?a1 ?a3" by (rule frame_trans[OF two(1) frame_upd(2)])
  moreover from this have "app_ok X ?a3" "wframe a ?a3" using o1 w1 frame_ok frame_wframe wframe_trans by blast+
  moreover from \<open>frame ?a1 ?a3\<close> have "holds_queue q ms ?a3" using h1 by (simp add: holds_queue_def frame_def)
  moreover have "app_queues ?a3 = app_queues ?a1"
    "pPendingSignalingMessageForRemoteClient ?a3 = pPendingSignalingMessageForRemoteClient ?a1"
    using \<open>frame ?a1 ?a3\<close> by (simp_all add: frame_def)
  ultimately show ?thesis using two(2) f1 by (intro exI[of _ st] exI[of _ ?a3]) simp
qed

lemma submit_loop_ok:
  assumes "usable P" "app_ok X a" "holds_queue q ms a" "app_sessions a p = Some x"
  shows "\<exists>st a' ms'. submit_loop P q p a = Some (st, a') \<and> app_ok X a' \<and> wframe a a' \<and> holds_queue q ms' a' \<and>
    pPendingSignalingMessageForRemoteClient a' = pPendingSignalingMessageForRemoteClient a \<and>
    (\<forall>r. r \<noteq> q \<longrightarrow> app_queues a' r = app_queues a r) \<and>
    (st = STATUS_SUCCESS \<longrightarrow> ms' = [] \<and> pc_log a' = pc_log a @ map (Pc_send (interface_session_handle x)) (candidates ms))"
  using assms(2-4)
proof (induction ms arbitrary: a x)
  case Nil
  then obtain s where "app_queues a q = Some s" "messageQueue s = Some []" by (auto simp: holds_queue_def)
  then have "submit_loop P q p a = Some (STATUS_SUCCESS, a)" by (subst submit_loop.simps) simp
  then show ?case using Nil by (auto simp: candidates_def)
next
  case (Cons m ms)
  then obtain s where s: "app_queues a q = Some s" "messageQueue s = Some (m # ms)" by (auto simp: holds_queue_def)
  obtain st a1 where one: "submit_one P q p m ms a = Some (st, a1)" "app_ok X a1" "wframe a a1" "holds_queue q ms a1"
    "pPendingSignalingMessageForRemoteClient a1 = pPendingSignalingMessageForRemoteClient a"
    "\<forall>r. r \<noteq> q \<longrightarrow> app_queues a1 r = app_queues a r"
    "pc_log a1 = pc_log a @ map (Pc_send (interface_session_handle x)) (candidates [m])"
    using submit_one_ok[OF assms(1) Cons.prems] by blast
  have l: "submit_loop P q p a = (if st \<noteq> STATUS_SUCCESS then Some (st, a1) else submit_loop P q p a1)"
    by (subst submit_loop.simps) (simp add: s one(1))
  obtain x1 where x1: "app_sessions a1 p = Some x1" "interface_session_handle x1 = interface_session_handle x"
    using wframe_session[OF one(3) Cons.prems(3)] by (auto simp: same_session_def)
  show ?case
  proof (cases "st = STATUS_SUCCESS")
    case False
    then show ?thesis using l one by (intro exI[of _ st] exI[of _ a1] exI[of _ ms]) simp
  next
    case True
    from Cons.IH[OF one(2,4) x1(1)] obtain st' a2 ms' where two: "submit_loop P q p a1 = Some (st', a2)" "app_ok X a2" "wframe a1 a2"
      "holds_queue q ms' a2" "pPendingSignalingMessageForRemoteClient a2 = pPendingSignalingMessageForRemoteClient a1"
      "\<forall>r. r \<noteq> q \<longrightarrow> app_queues a2 r = app_queues a1 r"
      "st' = STATUS_SUCCESS \<longrightarrow> ms' = [] \<and> pc_log a2 = pc_log a1 @ map (Pc_send (interface_session_handle x1)) (candidates ms)"
      by blast
    have "candidates (m # ms) = candidates [m] @ candidates ms" by (simp add: candidates_def)
    then show ?thesis using l two one x1(2) True wframe_trans[OF one(3) two(3)]
      by (intro exI[of _ st'] exI[of _ a2] exI[of _ ms']) simp
  qed
qed

lemma submit_ok:
  assumes "usable P" "app_ok X a" "holds_queue q ms a" "app_sessions a p = Some x" "p \<noteq> 0"
  shows "\<exists>st a'. submitPendingIceCandidate P q p a = Some (st, a') \<and> app_ok X a' \<and> wframe a a' \<and>
    pPendingSignalingMessageForRemoteClient a' = pPendingSignalingMessageForRemoteClient a \<and>
    (\<forall>r. r \<noteq> q \<longrightarrow> app_queues a' r = app_queues a r) \<and>
    (if st = STATUS_SUCCESS then app_queues a' q = None \<and> pc_log a' = pc_log a @ map (Pc_send (interface_session_handle x)) (candidates ms)
     else q \<in> dom (app_queues a'))"
proof -
  obtain s where s: "app_queues a q = Some s" "messageQueue s = Some ms" and q: "q \<noteq> 0" "q \<notin> set (pPendingSignalingMessageForRemoteClient a)"
    using assms(3) by (auto simp: holds_queue_def)
  obtain st a1 ms' where l: "submit_loop P q p a = Some (st, a1)" "app_ok X a1" "wframe a a1" "holds_queue q ms' a1"
    "pPendingSignalingMessageForRemoteClient a1 = pPendingSignalingMessageForRemoteClient a"
    "\<forall>r. r \<noteq> q \<longrightarrow> app_queues a1 r = app_queues a r"
    "st = STATUS_SUCCESS \<longrightarrow> ms' = [] \<and> pc_log a1 = pc_log a @ map (Pc_send (interface_session_handle x)) (candidates ms)"
    using submit_loop_ok[OF assms(1-4)] by blast
  show ?thesis
  proof (cases "st = STATUS_SUCCESS")
    case False
    then show ?thesis using l s q assms(5)
      by (intro exI[of _ st] exI[of _ a1]) (auto simp: submitPendingIceCandidate_def holds_queue_def)
  next
    case True
    have "q \<notin> set (pPendingSignalingMessageForRemoteClient a1)" "q \<in> dom (app_queues a1)" using l(4) by (auto simp: holds_queue_def)
    with free_queue_ok[OF l(2)] obtain a2 where f: "freeMessageQueue q a1 = Some (STATUS_SUCCESS, a2)" "app_ok X a2"
      "frame a1 (a2\<lparr>app_queues := app_queues a1\<rparr>)" "app_queues a2 = (app_queues a1)(q := None)" "pc_log a2 = pc_log a1"
      using q(1) by metis
    have "wframe a a2" using wframe_trans[OF l(3) qframe_wframe[OF f(3)]] .
    moreover have "pPendingSignalingMessageForRemoteClient a2 = pPendingSignalingMessageForRemoteClient a1" using f(3) by (simp add: frame_def)
    ultimately show ?thesis using True l s q f assms(5)
      by (intro exI[of _ STATUS_SUCCESS] exI[of _ a2]) (simp add: submitPendingIceCandidate_def)
  qed
qed

lemma remove1_not_member: "distinct xs \<Longrightarrow> q \<notin> set (remove1 q xs)" by simp

text \<open>The queue of the peer with the key, and what waits in it.\<close>

definition waiting_msgs :: "'w app \<Rightarrow> uint64 \<Rightarrow> webrtc_message list" where
  "waiting_msgs a k = (case waiting_for a k of None \<Rightarrow> [] | Some q \<Rightarrow> queue_msgs a q)"

lemma submit_waiting_ok:
  assumes "usable P" "app_ok X a" "app_sessions a p = Some x" "p \<noteq> 0"
  shows "\<exists>st q a'. submit_waiting P k p a = Some (st, q, a') \<and> app_ok X a' \<and> wframe a a' \<and>
    (q = 0 \<or> q \<in> dom (app_queues a')) \<and> q \<notin> set (pPendingSignalingMessageForRemoteClient a') \<and>
    set (pPendingSignalingMessageForRemoteClient a') \<subseteq> set (pPendingSignalingMessageForRemoteClient a) \<and>
    (st = STATUS_SUCCESS \<longrightarrow> q = 0 \<and> pc_log a' = pc_log a @ map (Pc_send (interface_session_handle x)) (candidates (waiting_msgs a k)))"
proof -
  obtain a1 where g: "getPendingMessageQueueForHash k True a = Some (STATUS_SUCCESS, (case waiting_for a k of None \<Rightarrow> 0 | Some q \<Rightarrow> q), a1)"
    "app_ok X a1" "app_queues a1 = app_queues a" "app_sessions a1 = app_sessions a" "pc_log a1 = pc_log a"
    "pPendingSignalingMessageForRemoteClient a1 = (case waiting_for a k of None \<Rightarrow> pPendingSignalingMessageForRemoteClient a
       | Some q \<Rightarrow> remove1 q (pPendingSignalingMessageForRemoteClient a))"
    using get_pending_ok[OF assms(2), of k True] by (simp only: if_True) blast
  have w: "wframe a a1" using g(1)
    by (auto simp: getPendingMessageQueueForHash_def pending_remove_def wframe_def frame_def option.rel_refl split: bind_splits if_splits)
  have D: "distinct (pPendingSignalingMessageForRemoteClient a)" "0 \<notin> set (pPendingSignalingMessageForRemoteClient a)"
    using assms(2) by (simp_all add: app_ok_def queues_ok_def)
  show ?thesis
  proof (cases "waiting_for a k")
    case None
    then have "submit_waiting P k p a = Some (STATUS_SUCCESS, 0, a1)" using g(1) by (simp add: submit_waiting_def)
    then show ?thesis using g w None D by (auto simp: waiting_msgs_def candidates_def)
  next
    case (Some q)
    have qp: "q \<in> set (pPendingSignalingMessageForRemoteClient a)" using waiting_for_Some[OF Some] by simp
    then have q0: "q \<noteq> 0" using D(2) by auto
    obtain s ms where s: "app_queues a q = Some s" "messageQueue s = Some ms"
      using qp assms(2) by (auto simp: app_ok_def queues_ok_def)
    have "holds_queue q ms a1" using g(3,6) Some s q0 D by (simp add: holds_queue_def)
    from submit_ok[OF assms(1) g(2) this _ assms(4)] assms(3) g(4)
    obtain st a2 where t: "submitPendingIceCandidate P q p a1 = Some (st, a2)" "app_ok X a2" "wframe a1 a2"
      "pPendingSignalingMessageForRemoteClient a2 = pPendingSignalingMessageForRemoteClient a1"
      "if st = STATUS_SUCCESS then app_queues a2 q = None \<and> pc_log a2 = pc_log a1 @ map (Pc_send (interface_session_handle x)) (candidates ms)
       else q \<in> dom (app_queues a2)" by auto
    have "submit_waiting P k p a = Some (st, if st \<noteq> STATUS_SUCCESS then q else 0, a2)"
      using g(1) Some q0 t(1) by (simp add: submit_waiting_def)
    moreover have "waiting_msgs a k = ms" using Some s by (simp add: waiting_msgs_def queue_msgs_def)
    ultimately show ?thesis
      using t g(5,6) Some wframe_trans[OF w t(3)] D
      by (intro exI[of _ st] exI[of _ "if st \<noteq> STATUS_SUCCESS then q else 0"] exI[of _ a2]) (auto dest: notin_set_remove1)
  qed
qed

end
