(* ===== verification/App_Sessions.thy ===== *)
theory App_Sessions
  imports App_Submit "HOL-Library.Multiset"
begin

text \<open>Sessions: their creation, their place in the list and the table, and their release.\<close>

section \<open>A session the handler holds itself\<close>

abbreviation forget :: "uint64 \<Rightarrow> 'w app \<Rightarrow> 'w app" where
  "forget p a \<equiv> a\<lparr>app_sessions := (app_sessions a)(p := None)\<rparr>"

definition others_same :: "uint64 \<Rightarrow> 'w app \<Rightarrow> 'w app \<Rightarrow> bool" where
  "others_same p a a' \<longleftrightarrow> frame (forget p a) (forget p a')"

lemma others_same_refl [simp]: "others_same p a a" by (simp add: others_same_def)

lemma others_same_trans: "others_same p a b \<Longrightarrow> others_same p b c \<Longrightarrow> others_same p a c"
  unfolding others_same_def by (rule frame_trans)

lemma frame_others: "frame a a' \<Longrightarrow> others_same p a a'"
  by (simp add: others_same_def frame_def)

lemma put_others: "others_same p a (put_session p s a)"
  by (simp add: others_same_def frame_def option.rel_refl)

lemma others_same_fields:
  assumes "others_same p a a'"
  shows "listed a' = listed a" "app_queues a' = app_queues a" "webrtcSessionList a' = webrtcSessionList a"
    "streamingSessionCount a' = streamingSessionCount a"
    "pRtcPeerConnectionForRemoteClient a' = pRtcPeerConnectionForRemoteClient a"
    "pPendingSignalingMessageForRemoteClient a' = pPendingSignalingMessageForRemoteClient a" "app_brk a' = app_brk a"
    "g_kvs_webrtc_client a' = g_kvs_webrtc_client a"
  using assms by (simp_all add: others_same_def frame_def listed_def)

lemma forget_ok:
  assumes "app_ok X a" "p \<in> X"
  shows "app_ok (X - {p}) (forget p a)"
proof -
  have n: "p \<notin> set (listed a)" using assms by (auto simp: app_ok_def)
  have l: "listed (forget p a) = listed a" by (simp add: listed_def)
  have "table_ok (forget p a)" using assms(1) n by (auto simp: app_ok_def table_ok_def l)
  then show ?thesis using assms n
    by (auto simp: app_ok_def list_ok_def queues_ok_def places_ok_def l)
qed

lemma others_same_ok:
  assumes "others_same p a a'" "app_ok X a" "p \<in> X"
  shows "app_ok (if app_sessions a' p = None then X - {p} else X) a'"
proof -
  have o: "app_ok (X - {p}) (forget p a')"
    using frame_ok[OF _ forget_ok[OF assms(2,3)]] assms(1) by (simp add: others_same_def)
  have b: "0 < unat p" "unat p \<le> app_brk a"
    using assms(2,3) by (auto simp: app_ok_def places_ok_def)
  show ?thesis
  proof (cases "app_sessions a' p")
    case None
    then have "forget p a' = a'" by (simp add: fun_upd_idem)
    then show ?thesis using o None by simp
  next
    case (Some s)
    have "put_session p s (forget p a') = a'" using Some by (simp add: put_session_def fun_upd_idem)
    moreover have "app_ok (insert p (X - {p})) (put_session p s (forget p a'))"
      by (rule put_new_session[OF o]) (use b others_same_fields(7)[OF assms(1)] in auto)
    ultimately show ?thesis using Some assms(3) by (simp add: insert_absorb)
  qed
qed

section \<open>Release\<close>

lemma destroy_session_ok:
  assumes "ports_ok P" "app_sessions a p = Some s"
  shows "\<exists>a'. destroy_interface_session P p a = Some a' \<and> others_same p a a' \<and> (\<exists>s'. app_sessions a' p = Some s' \<and> peerId s' = peerId s) \<and>
    live (app_heap a') = live (app_heap a) \<and>
    pc_log a' = pc_log a @ (if interface_session_handle s \<noteq> 0 \<and> destroy_session P \<noteq> None then [Pc_destroy (interface_session_handle s)] else [])"
proof (cases "interface_session_handle s = 0")
  case False
  let ?a1 = "case destroy_session P of None \<Rightarrow> a
     | Some f \<Rightarrow> snd (f (interface_session_handle s) (a\<lparr>pc_log := pc_log a @ [Pc_destroy (interface_session_handle s)]\<rparr>))"
  have a1: "frame a ?a1 \<and> live (app_heap ?a1) = live (app_heap a) \<and>
    pc_log ?a1 = pc_log a @ (if destroy_session P \<noteq> None then [Pc_destroy (interface_session_handle s)] else [])"
  proof (cases "destroy_session P")
    case (Some f)
    then have "quiet (a\<lparr>pc_log := pc_log a @ [Pc_destroy (interface_session_handle s)]\<rparr>)
      (snd (f (interface_session_handle s) (a\<lparr>pc_log := pc_log a @ [Pc_destroy (interface_session_handle s)]\<rparr>)))"
      using assms(1) by (simp add: ports_ok_def)
    from quiet_frame[OF this] show ?thesis using Some frame_trans[OF frame_upd(3)] by auto
  qed simp
  then obtain s1 where s1: "app_sessions ?a1 p = Some s1" "same_session s s1" using frame_session assms(2) by blast
  let ?a' = "put_session p (s1\<lparr>interface_session_handle := 0, terminateFlag := True\<rparr>) ?a1"
  have "destroy_interface_session P p a = Some ?a'"
    using assms(2) False s1(1) by (simp add: destroy_interface_session_def Let_def)
  moreover have "others_same p a ?a'" using a1 frame_others put_others others_same_trans by blast
  ultimately show ?thesis using a1 s1 False by (intro exI[of _ ?a']) (auto simp: same_session_def)
qed (use assms in \<open>auto simp: destroy_interface_session_def\<close>)

lemma free_session_ok:
  assumes "ports_ok P" "app_ok X a" "p \<in> X"
  shows "\<exists>a'. freeAppWebRTCSession P p a = Some (STATUS_SUCCESS, a') \<and> others_same p a a' \<and> app_sessions a' p = None \<and>
    app_ok (X - {p}) a' \<and> live (app_heap a') = live (app_heap a) - 1 \<and>
    (\<exists>l. pc_log a' = pc_log a @ l \<and> (\<forall>c\<in>set l. \<exists>i. c = Pc_destroy i))"
proof -
  have p0: "p \<noteq> 0" using assms(2,3) by (force simp: app_ok_def places_ok_def)
  obtain s where s: "app_sessions a p = Some s" using assms(2,3) by (force simp: app_ok_def)
  let ?a0 = "put_session p (s\<lparr>terminateFlag := True\<rparr>) a"
  have s0: "app_sessions ?a0 p = Some (s\<lparr>terminateFlag := True\<rparr>)" by simp
  obtain a1 s1 where d: "destroy_interface_session P p ?a0 = Some a1" "others_same p ?a0 a1" "app_sessions a1 p = Some s1"
    "live (app_heap a1) = live (app_heap ?a0)"
    and lg: "pc_log a1 = pc_log ?a0 @ (if interface_session_handle s \<noteq> 0 \<and> destroy_session P \<noteq> None
               then [Pc_destroy (interface_session_handle s)] else [])"
    using destroy_session_ok[OF assms(1) s0] by auto
  let ?a2 = "purge_peer P (peerId s1) a1"
  have q: "frame a1 ?a2" "pc_log ?a2 = pc_log a1" "live (app_heap ?a2) = live (app_heap a1)"
    using quiet_frame[OF purge_peer_quiet[OF assms(1)]] by blast+
  obtain s2 where s2: "app_sessions ?a2 p = Some s2" using frame_session[OF q(1) d(3)] by blast
  let ?a' = "(app_free 1 ?a2)\<lparr>app_sessions := (app_sessions ?a2)(p := None)\<rparr>"
  have f: "freeAppWebRTCSession P p a = Some (STATUS_SUCCESS, ?a')"
    using p0 s d(1,3) s2 by (simp add: freeAppWebRTCSession_def Let_def del: One_nat_def)
  have "others_same p ?a2 ?a'" by (simp add: others_same_def frame_def option.rel_refl)
  then have o: "others_same p a ?a'"
    using others_same_trans[OF put_others others_same_trans[OF d(2) others_same_trans[OF frame_others[OF q(1)]]]] by blast
  have "app_ok (X - {p}) ?a'" using others_same_ok[OF o assms(2,3)] by simp
  then show ?thesis using f o q d(4) lg by (intro exI[of _ ?a']) auto
qed

section \<open>Creation\<close>

lemma new_session_ok:
  assumes "app_ok X a" "new_session P peer i a = (p, a')"
  shows "p = 0 \<and> frame a a' \<and> live (app_heap a') = live (app_heap a) \<and> pc_log a' = pc_log a \<or>
    p \<noteq> 0 \<and> p \<notin> X \<and> p \<notin> set (listed a) \<and> app_ok (insert p X) a' \<and>
    (\<exists>s. app_sessions a' p = Some s \<and> peerId s = peer \<and> interface_session_handle s = i \<and> \<not> terminateFlag s) \<and>
    app_queues a' = app_queues a \<and> pPendingSignalingMessageForRemoteClient a' = pPendingSignalingMessageForRemoteClient a \<and>
    pRtcPeerConnectionForRemoteClient a' = pRtcPeerConnectionForRemoteClient a \<and> listed a' = listed a \<and>
    webrtcSessionList a' = webrtcSessionList a \<and> streamingSessionCount a' = streamingSessionCount a \<and>
    live (app_heap a') = live (app_heap a) + 1 \<and> pc_log a' = pc_log a"
proof -
  obtain p1 a1 where al: "allocate a = (p1, a1)" by fastforce
  have b: "app_brk a < 2 ^ 64" using assms(1) by (simp add: app_ok_def places_ok_def)
  have pl: "pc_log a1 = pc_log a" using al by (auto simp: allocate_def split: prod.splits if_splits)
  show ?thesis
  proof (cases "p1 = 0")
    case True
    then show ?thesis using assms(2) al allocate_cases[OF al b] pl by (auto simp: new_session_def)
  next
    case False
    then have a1: "unat p1 = Suc (app_brk a)" "app_brk a1 = Suc (app_brk a)" "app_brk a1 < 2 ^ 64" "frame a (a1\<lparr>app_brk := app_brk a\<rparr>)"
      "live (app_heap a1) = live (app_heap a) + 1" using allocate_cases[OF al b] by auto
    note F = frame_app_brk[OF a1(4)]
    have o1: "app_ok X a1" by (rule brk_ok[OF assms(1) a1(4,2,3)])
    have pa: "p = p1" "a' = put_session p1 \<lparr>terminateFlag = False, connectedAnnounced = False, peerId = peer, interface_session_handle = i,
        shutdownCallbackCustomData = 0, offerReceiveTime = GETTIME P a1\<rparr> a1"
      using assms(2) al False by (auto simp: new_session_def)
    note fr = fresh_place[OF assms(1) a1(1)]
    have "app_ok (insert p1 X) a'" unfolding pa(2)
      by (rule put_new_session[OF o1]) (use fr(1) F(8) a1(1,2) in auto)
    then show ?thesis using pa fr F a1(5) pl False by (simp add: listed_def)
  qed
qed

lemma wire_ok:
  assumes "ports_ok P" "app_sessions a p = Some s"
  shows "\<exists>a'. wire_callbacks P p a = Some a' \<and> quiet a a'"
  using assms by (cases "pc_set_callbacks P") (auto simp: wire_callbacks_def ports_ok_def)

lemma interface_create_ok:
  assumes "usable P"
  shows "\<exists>st i a'. interface_create P peer ini a = Some ((st, i), a') \<and> frame a a' \<and> live (app_heap a') = live (app_heap a) \<and>
    pc_log a' = pc_log a @ (if st = WEBRTC_STATUS_SUCCESS then [Pc_create peer ini i] else [])"
proof -
  obtain f where f: "create_session P = Some f" using assms by (auto simp: usable_def)
  obtain st i a1 where r: "f peer ini a = ((st, i), a1)" by (metis prod.exhaust)
  have "quiet a a1" using assms f r unfolding usable_def ports_ok_def by (metis snd_conv)
  note q = quiet_frame[OF this]
  let ?a' = "if st = WEBRTC_STATUS_SUCCESS then a1\<lparr>pc_log := pc_log a1 @ [Pc_create peer ini i]\<rparr> else a1"
  have "frame a ?a'" using q frame_trans[OF _ frame_upd(3)] by auto
  then show ?thesis using f r q by (intro exI[of _ st] exI[of _ i] exI[of _ ?a']) (simp add: interface_create_def)
qed

section \<open>The list and the table\<close>

lemma table_small:
  assumes "app_ok X a"
  shows "card (dom (table_of (pRtcPeerConnectionForRemoteClient a))) < 2 ^ 26"
proof -
  let ?t = "pRtcPeerConnectionForRemoteClient a"
  have "dom (table_of ?t) \<subseteq> (\<lambda>p. peer_key (the (app_sessions a p))) ` set (listed a)"
  proof
    fix k assume "k \<in> dom (table_of ?t)"
    then obtain p where "table_of ?t k = Some p" by auto
    then obtain s where "p \<in> set (listed a)" "app_sessions a p = Some s" "peer_key s = k"
      using assms by (auto simp: app_ok_def table_ok_def)
    then show "k \<in> (\<lambda>p. peer_key (the (app_sessions a p))) ` set (listed a)" by force
  qed
  then have "card (dom (table_of ?t)) \<le> card (set (listed a))"
    by (meson card_image_le card_mono finite_imageI finite_set le_trans)
  also have "\<dots> \<le> length (listed a)" by (rule card_length)
  also have "\<dots> < 2 ^ 26" using assms by (simp add: app_ok_def list_ok_def listed_def)
  finally show ?thesis .
qed

lemma publish_ok:
  assumes "app_ok X a" "table_of (pRtcPeerConnectionForRemoteClient a) k = None" "publish k p a = (st, a')"
  shows "ht_inv (pRtcPeerConnectionForRemoteClient a') \<and>
    frame (a\<lparr>pRtcPeerConnectionForRemoteClient := pRtcPeerConnectionForRemoteClient a'\<rparr>) a' \<and> app_sessions a' = app_sessions a \<and> pc_log a' = pc_log a \<and>
    (st = STATUS_SUCCESS \<and> table_of (pRtcPeerConnectionForRemoteClient a') = (table_of (pRtcPeerConnectionForRemoteClient a))(k \<mapsto> p) \<or>
     st = STATUS_NOT_ENOUGH_MEMORY \<and> frame a a')"
proof -
  let ?t = "pRtcPeerConnectionForRemoteClient a"
  have I: "ht_inv ?t" using assms(1) by (simp add: app_ok_def table_ok_def)
  obtain t h where u: "hashTableUpsert ?t k p (app_heap a) = (st, t, h)"
    using assms(2,3) contains_table[of ?t k] by (auto simp: publish_def hashTablePut_def domIff split: prod.splits)
  have a': "a' = a\<lparr>pRtcPeerConnectionForRemoteClient := t, app_heap := h\<rparr>"
    using assms(2,3) u contains_table[of ?t k] by (simp add: publish_def hashTablePut_def domIff)
  show ?thesis using upsert_absent[OF I assms(2) table_small[OF assms(1)] u]
    by (auto simp: a' frame_def option.rel_refl)
qed

lemma listed_append:
  assumes "unat (streamingSessionCount a) < length (webrtcSessionList a)" "length (webrtcSessionList a) < 2 ^ 26"
  shows "listed (list_append p a) = listed a @ [p]" "unat (streamingSessionCount (list_append p a)) = Suc (unat (streamingSessionCount a))"
proof -
  show u: "unat (streamingSessionCount (list_append p a)) = Suc (unat (streamingSessionCount a))"
    using assms by (simp add: list_append_def unat_word_ariths)
  show "listed (list_append p a) = listed a @ [p]"
    using assms(1) unfolding listed_def u by (simp add: list_append_def take_Suc_conv_app_nth)
qed

lemma enlist_ok:
  assumes "app_ok X a" "p \<in> X" "app_sessions a p = Some s" "table_of (pRtcPeerConnectionForRemoteClient a) (peer_key s) = None"
    "unat (streamingSessionCount a) < length (webrtcSessionList a)" "publish (peer_key s) p a = (st, a')"
  shows "if st = STATUS_SUCCESS then app_ok (X - {p}) (list_append p a') else app_ok X a'"
proof -
  note pb = publish_ok[OF assms(1,4,6)]
  show ?thesis
  proof (cases "st = STATUS_SUCCESS")
    case False
    then show ?thesis using pb frame_ok[OF _ assms(1)] by auto
  next
    case True
    then have t: "table_of (pRtcPeerConnectionForRemoteClient a') = (table_of (pRtcPeerConnectionForRemoteClient a))(peer_key s \<mapsto> p)"
      using pb by (auto simp: status_defs)
    have f: "webrtcSessionList a' = webrtcSessionList a" "streamingSessionCount a' = streamingSessionCount a" "app_sessions a' = app_sessions a"
      "app_queues a' = app_queues a" "pPendingSignalingMessageForRemoteClient a' = pPendingSignalingMessageForRemoteClient a" "app_brk a' = app_brk a"
      using pb by (simp_all add: frame_def)
    have L: "list_ok a" using assms(1) by (simp add: app_ok_def)
    have l: "listed (list_append p a') = listed a @ [p]" "unat (streamingSessionCount (list_append p a')) = Suc (unat (streamingSessionCount a))"
      using listed_append[of a' p] assms(5) L by (simp_all add: f list_ok_def listed_def)
    have n: "p \<notin> set (listed a)" "p \<noteq> 0" using assms(1,2) by (force simp: app_ok_def places_ok_def)+
    have g: "webrtcSessionList (list_append p a') = (webrtcSessionList a)[unat (streamingSessionCount a) := p]"
      "app_sessions (list_append p a') = app_sessions a" "app_queues (list_append p a') = app_queues a"
      "pPendingSignalingMessageForRemoteClient (list_append p a') = pPendingSignalingMessageForRemoteClient a"
      "app_brk (list_append p a') = app_brk a"
      "pRtcPeerConnectionForRemoteClient (list_append p a') = pRtcPeerConnectionForRemoteClient a'"
      by (simp_all add: list_append_def f)
    have alone: "peer_key x \<noteq> peer_key s" if "q \<in> set (listed a)" "app_sessions a q = Some x" for q x
      using assms(1,4) that unfolding app_ok_def table_ok_def by (metis option.distinct(1))
    have "list_ok (list_append p a')" using L n assms(5) by (auto simp: list_ok_def l g)
    moreover have "table_ok (list_append p a')"
      using assms(1,3) n pb alone by (auto simp: table_ok_def l g t app_ok_def)
    ultimately show ?thesis using True assms(1,2) n
      by (auto simp: app_ok_def queues_ok_def places_ok_def l g)
  qed
qed

text \<open>A listed session taken off both.\<close>

lemma unlist_ok:
  assumes "app_ok X a" "p \<in> set (listed a)" "app_sessions a p = Some s"
    "length l' = length (webrtcSessionList a)" "unat n \<le> length l'" "mset (take (unat n) l') = mset (listed a) - {#p#}"
  shows "\<exists>t. hashTableRemove (pRtcPeerConnectionForRemoteClient a) (peer_key s) = (STATUS_SUCCESS, t) \<and>
    app_ok (insert p X) (a\<lparr>pRtcPeerConnectionForRemoteClient := t, webrtcSessionList := l', streamingSessionCount := n\<rparr>)"
proof -
  let ?t = "pRtcPeerConnectionForRemoteClient a"
  have T: "table_of ?t (peer_key s) = Some p" "ht_inv ?t" using assms(1-3) by (auto simp: app_ok_def table_ok_def)
  then obtain t where t: "hashTableRemove ?t (peer_key s) = (STATUS_SUCCESS, t)" "ht_inv t" "table_of t = (table_of ?t)(peer_key s := None)"
    using remove_table by blast
  let ?a = "a\<lparr>pRtcPeerConnectionForRemoteClient := t, webrtcSessionList := l', streamingSessionCount := n\<rparr>"
  have l: "listed ?a = take (unat n) l'" by (simp add: listed_def)
  have D: "distinct (listed a)" "0 \<notin> set (listed a)" using assms(1) by (simp_all add: app_ok_def list_ok_def)
  have m: "mset (listed ?a) = mset (listed a) - {#p#}" using assms(6) l by simp
  then have m': "mset (listed ?a) = mset (remove1 p (listed a))" by simp
  then have s: "set (listed ?a) = set (listed a) - {p}" using D(1) by (metis set_mset_mset set_remove1_eq)
  have d: "distinct (listed ?a)" using D(1) m' by (metis distinct_remove1 mset_eq_imp_distinct_iff)
  have tb: "(table_of t k = Some q) = (q \<in> set (listed ?a) \<and> (\<exists>x. app_sessions a q = Some x \<and> peer_key x = k))" for k q
  proof -
    have "(table_of ?t k = Some q) = (q \<in> set (listed a) \<and> (\<exists>x. app_sessions a q = Some x \<and> peer_key x = k))" for k q
      using assms(1) by (simp add: app_ok_def table_ok_def)
    from this[of k q] this[of "peer_key s" q] show ?thesis using T(1) assms(3) by (cases "k = peer_key s") (auto simp: t(3) s)
  qed
  have "app_ok (insert p X) ?a"
    using assms(1,2,4,5) D(2) d s tb t(2)
    by (auto simp: app_ok_def list_ok_def table_ok_def queues_ok_def places_ok_def)
  then show ?thesis using t(1) by blast
qed

lemma mset_butlast: "xs \<noteq> [] \<Longrightarrow> mset (butlast xs) = mset xs - {#last xs#}"
  by (cases xs rule: rev_cases) auto

lemma list_position_Some: "list_position p xs i = Some j \<Longrightarrow> i \<le> j \<and> j - i < length xs \<and> xs ! (j - i) = p"
proof (induction xs arbitrary: i)
  case (Cons x xs)
  show ?case
  proof (cases "x = p")
    case False
    with Cons.prems have "list_position p xs (Suc i) = Some j" by simp
    note h = Cons.IH[OF this]
    then have "j - i = Suc (j - Suc i)" by arith
    then show ?thesis using h by simp
  qed (use Cons.prems in auto)
qed simp

lemma list_position_in: "p \<in> set xs \<Longrightarrow> \<exists>j. list_position p xs i = Some j"
  by (induction xs arbitrary: i) auto

lemma swap_out_list:
  assumes "i < n" "n \<le> length l"
  shows "mset (take (n - 1) (l[i := l ! (n - 1)])) = mset (take n l) - {#l ! i#}"
proof -
  let ?xs = "take n l"
  have ne: "?xs \<noteq> []" using assms by auto
  have la: "last ?xs = l ! (n - 1)" using assms by (simp add: last_conv_nth[OF ne] min_absorb2)
  have "take (n - 1) (l[i := l ! (n - 1)]) = butlast (take n (l[i := l ! (n - 1)]))"
    using assms by (simp add: butlast_take)
  also have "\<dots> = butlast (?xs[i := last ?xs])" by (simp add: take_update_swap la)
  finally have e: "take (n - 1) (l[i := l ! (n - 1)]) = butlast (?xs[i := last ?xs])" .
  have ls: "last (?xs[i := last ?xs]) = last ?xs"
    using assms ne by (simp add: last_list_update)
  have "mset (?xs[i := last ?xs]) = add_mset (last ?xs) (mset ?xs - {#?xs ! i#})"
    using assms by (intro mset_update) auto
  moreover have "mset (butlast (?xs[i := last ?xs])) = mset (?xs[i := last ?xs]) - {#last ?xs#}"
    using mset_butlast[of "?xs[i := last ?xs]"] ne ls by simp
  moreover have "?xs ! i = l ! i" using assms(1) by simp
  ultimately show ?thesis unfolding e by simp
qed

lemma shift_out_list:
  assumes "i < n" "n \<le> length l"
  shows "mset (take (n - 1) (shift_down i (n - 1) l)) = mset (take n l) - {#l ! i#}"
proof -
  have "take n l = take i l @ l ! i # drop (Suc i) (take n l)"
    using assms id_take_nth_drop[of i "take n l"] by (simp add: min_absorb1)
  moreover have "take (n - 1) (shift_down i (n - 1) l) = take i l @ drop (Suc i) (take n l)"
    using shift_down_take[of i "n - 1" l] assms by (simp add: drop_take)
  ultimately show ?thesis by (metis add_mset_add_single add_mset_remove_trivial mset.simps(2) mset_append union_mset_add_mset_right)
qed

lemma count_less:
  assumes "app_ok X a" "p \<in> set (listed a)"
  shows "0 < unat (streamingSessionCount a)" "unat (streamingSessionCount a - 1) = unat (streamingSessionCount a) - 1"
    "unat (streamingSessionCount a) \<le> length (webrtcSessionList a)"
proof -
  show c: "0 < unat (streamingSessionCount a)"
    using assms(2) by (cases "unat (streamingSessionCount a)") (simp_all add: listed_def)
  then have "1 \<le> streamingSessionCount a" by (simp add: word_le_nat_alt)
  then show "unat (streamingSessionCount a - 1) = unat (streamingSessionCount a) - 1" by (simp add: unat_sub)
  show "unat (streamingSessionCount a) \<le> length (webrtcSessionList a)" using assms(1) by (simp add: app_ok_def list_ok_def)
qed

end
