(* ===== verification/App_Handler.thy ===== *)
theory App_Handler
  imports App_Sessions
begin

text \<open>The handler of messages: no branch of it touches a freed object, and which branches keep the invariant.\<close>

section \<open>What a branch leaves\<close>

definition outcome_ok :: "'w outcome \<Rightarrow> bool" where
  "outcome_ok r \<longleftrightarrow>
     (case r of (st, q, p, copy, a) \<Rightarrow>
        (q = 0 \<or> q \<in> dom (app_queues a)) \<and> q \<notin> set (pPendingSignalingMessageForRemoteClient a) \<and>
        app_ok (if p = 0 then {} else {p}) a)"

lemma leave_ok: "app_ok {} a \<Longrightarrow> outcome_ok (leave st a)"
  by (auto simp: outcome_ok_def leave_def app_ok_def queues_ok_def)

definition only_destroys :: "pc_call list \<Rightarrow> bool" where
  "only_destroys l \<longleftrightarrow> (\<forall>c\<in>set l. \<exists>i. c = Pc_destroy i)"

lemma cleanup_ok:
  assumes "ports_ok P" "outcome_ok (st, q, p, copy, a)"
  shows "\<exists>a'. message_cleanup P (st, q, p, copy, a) = Some (st, a') \<and> app_ok {} a' \<and>
    (q = 0 \<and> p = 0 \<and> copy = None \<longrightarrow> a' = a)"
proof -
  let ?a1 = "case copy of None \<Rightarrow> a | Some c \<Rightarrow> app_free (message_blocks c) a"
  have f: "frame a ?a1" by (simp split: option.splits)
  let ?X = "if p = 0 then {} else {p}"
  have o1: "app_ok ?X ?a1" using frame_ok[OF f] assms(2) by (simp add: outcome_ok_def)
  have q: "q = 0 \<or> q \<in> dom (app_queues ?a1)" "q \<notin> set (pPendingSignalingMessageForRemoteClient ?a1)"
    using assms(2) by (auto simp: outcome_ok_def split: option.splits)
  from free_queue_ok[OF o1 q(2,1)] obtain a2 where a2: "freeMessageQueue q ?a1 = Some (STATUS_SUCCESS, a2)" "app_ok ?X a2"
    "q = 0 \<longrightarrow> a2 = ?a1" by blast
  show ?thesis
  proof (cases "p = 0")
    case True
    then show ?thesis using a2 by (auto simp: message_cleanup_def Let_def freeAppWebRTCSession_def)
  next
    case False
    then obtain a3 where "freeAppWebRTCSession P p a2 = Some (STATUS_SUCCESS, a3)" "app_ok {} a3"
      using free_session_ok[OF assms(1) a2(2), of p] by auto
    then show ?thesis using a2 False by (auto simp: message_cleanup_def Let_def)
  qed
qed

section \<open>An offer\<close>

lemma key_handle: "app_ok X a \<Longrightarrow> table_of (pRtcPeerConnectionForRemoteClient a) k = Some p \<Longrightarrow>
    p \<noteq> 0 \<and> p \<in> set (listed a) \<and> (\<exists>s. app_sessions a p = Some s \<and> peer_key s = k)"
  by (auto simp: app_ok_def table_ok_def list_ok_def)

lemma lookup_session_table:
  "lookup_session k a = (STATUS_SUCCESS, case table_of (pRtcPeerConnectionForRemoteClient a) k of None \<Rightarrow> 0 | Some p \<Rightarrow> p)"
  by (auto simp: lookup_session_def contains_table get_table split: option.splits)

lemma renegotiate_ok:
  assumes "usable P" "app_ok {} a" "app_sessions a p = Some s"
  shows "\<exists>r. renegotiate P p m a = Some r \<and> outcome_ok r"
proof (cases "interface_session_handle s = 0")
  case True
  then show ?thesis using assms leave_ok by (auto simp: renegotiate_def)
next
  case False
  obtain st a1 where r: "pc_send P (interface_session_handle s) m a = Some (st, a1)"
    using pc_send_defined assms(1) by (metis usable_def)
  then have "app_ok {} a1" using pc_send_spec[OF _ r] assms(1,2) frame_ok by (auto simp: usable_def)
  then show ?thesis using assms(3) False r leave_ok by (auto simp: renegotiate_def)
qed

lemma swap_out_eq:
  assumes "app_ok X a" "p \<in> set (listed a)"
  shows "\<exists>l'. (\<forall>t. swap_out p (a\<lparr>pRtcPeerConnectionForRemoteClient := t\<rparr>) =
      a\<lparr>pRtcPeerConnectionForRemoteClient := t, webrtcSessionList := l', streamingSessionCount := streamingSessionCount a - 1\<rparr>) \<and>
    length l' = length (webrtcSessionList a) \<and> mset (take (unat (streamingSessionCount a - 1)) l') = mset (listed a) - {#p#}"
proof -
  let ?l = "webrtcSessionList a"
  obtain i where i: "list_position p (take (unat (streamingSessionCount a)) ?l) 0 = Some i"
    using list_position_in assms(2) unfolding listed_def by blast
  note c = count_less[OF assms]
  have p: "i < unat (streamingSessionCount a)" "?l ! i = p"
    using list_position_Some[OF i] by auto
  let ?l' = "?l[i := ?l ! unat (streamingSessionCount a - 1)]"
  have "mset (take (unat (streamingSessionCount a) - 1) ?l') = mset (listed a) - {#p#}"
    using swap_out_list[OF p(1) c(3)] by (simp add: c(2) listed_def p(2))
  then show ?thesis using i c(2) by (intro exI[of _ ?l']) (simp add: swap_out_def Let_def)
qed

lemma replace_ok:
  assumes "ports_ok P" "app_ok {} a" "table_of (pRtcPeerConnectionForRemoteClient a) k = Some p"
  shows "\<exists>a'. replace_session P k p a = Some (STATUS_SUCCESS, a') \<and> app_ok {} a' \<and>
    table_of (pRtcPeerConnectionForRemoteClient a') k = None \<and> app_queues a' = app_queues a \<and>
    pPendingSignalingMessageForRemoteClient a' = pPendingSignalingMessageForRemoteClient a \<and>
    unat (streamingSessionCount a') < length (webrtcSessionList a') \<and> g_kvs_webrtc_client a' = g_kvs_webrtc_client a \<and>
    (\<exists>l. pc_log a' = pc_log a @ l \<and> only_destroys l)"
proof -
  obtain s where s: "p \<in> set (listed a)" "app_sessions a p = Some s" "peer_key s = k" using key_handle[OF assms(2,3)] by blast
  obtain l' where l': "\<And>t. swap_out p (a\<lparr>pRtcPeerConnectionForRemoteClient := t\<rparr>) =
      a\<lparr>pRtcPeerConnectionForRemoteClient := t, webrtcSessionList := l', streamingSessionCount := streamingSessionCount a - 1\<rparr>"
    "length l' = length (webrtcSessionList a)" "mset (take (unat (streamingSessionCount a - 1)) l') = mset (listed a) - {#p#}"
    using swap_out_eq[OF assms(2) s(1)] by blast
  note c = count_less[OF assms(2) s(1)]
  have n: "unat (streamingSessionCount a - 1) \<le> length l'" using c l'(2) by simp
  obtain t where t: "hashTableRemove (pRtcPeerConnectionForRemoteClient a) k = (STATUS_SUCCESS, t)"
    "app_ok {p} (a\<lparr>pRtcPeerConnectionForRemoteClient := t, webrtcSessionList := l', streamingSessionCount := streamingSessionCount a - 1\<rparr>)"
    using unlist_ok[OF assms(2) s(1,2) l'(2) n l'(3)] s(3) by auto
  let ?a1 = "a\<lparr>pRtcPeerConnectionForRemoteClient := t, webrtcSessionList := l', streamingSessionCount := streamingSessionCount a - 1\<rparr>"
  obtain a2 where a2: "freeAppWebRTCSession P p ?a1 = Some (STATUS_SUCCESS, a2)" "others_same p ?a1 a2" "app_ok {} a2"
    "\<exists>l. pc_log a2 = pc_log ?a1 @ l \<and> (\<forall>c\<in>set l. \<exists>i. c = Pc_destroy i)"
    using free_session_ok[OF assms(1) t(2), of p] by auto
  note F = others_same_fields[OF a2(2)]
  have I: "ht_inv (pRtcPeerConnectionForRemoteClient a)" using assms(2) by (simp add: app_ok_def table_ok_def)
  have "table_of t k = None" using remove_table[OF I assms(3)] t(1) by auto
  then show ?thesis using t(1) l'(1,2) a2 F c
    by (intro exI[of _ a2]) (simp add: replace_session_def only_destroys_def)
qed

lemma waiting_msgs_cong:
  "app_queues a' = app_queues a \<Longrightarrow> pPendingSignalingMessageForRemoteClient a' = pPendingSignalingMessageForRemoteClient a \<Longrightarrow>
   waiting_msgs a' k = waiting_msgs a k"
  by (simp add: waiting_msgs_def waiting_for_def queue_msgs_def split: option.splits)

lemma start_ok:
  assumes U: "usable P" and O: "app_ok {p} a" and s: "app_sessions a p = Some s" "peer_key s = k" "interface_session_handle s = i"
    and t: "table_of (pRtcPeerConnectionForRemoteClient a) k = None"
    and c: "unat (streamingSessionCount a) < length (webrtcSessionList a)"
  shows "\<exists>st q fs a'. start_session P k p m a = Some (st, q, fs, None, a') \<and> outcome_ok (st, q, fs, None, a') \<and>
    (st = STATUS_SUCCESS \<longrightarrow> q = 0 \<and> fs = 0 \<and> table_of (pRtcPeerConnectionForRemoteClient a') k = Some p \<and>
       pc_log a' = pc_log a @ [Pc_send i m] @ map (Pc_send i) (candidates (waiting_msgs a k)))"
proof -
  have P: "ports_ok P" using U by (simp add: usable_def)
  have p0: "p \<noteq> 0" using O by (force simp: app_ok_def places_ok_def)
  obtain a1 where a1: "wire_callbacks P p a = Some a1" "quiet a a1" using wire_ok[OF P s(1)] by blast
  note q1 = quiet_frame[OF a1(2)]
  obtain s1 where s1: "app_sessions a1 p = Some s1" "same_session s s1" using frame_session[of a a1] q1 s(1) by blast
  have i1: "interface_session_handle s1 = i" "peer_key s1 = k" using s1(2) s by (simp_all add: same_session_def peer_key_def)
  obtain st2 a2 where a2: "pc_send P i m a1 = Some (st2, a2)" using pc_send_defined U by (metis usable_def)
  note q2 = pc_send_spec[OF P a2]
  have f2: "frame a a2" using q1 q2 frame_trans by blast
  have O2: "app_ok {p} a2" by (rule frame_ok[OF f2 O])
  obtain s2 where s2: "app_sessions a2 p = Some s2" "same_session s1 s2" using frame_session[of a1 a2] q2 s1(1) by blast
  have i2: "interface_session_handle s2 = i" "peer_key s2 = k" using s2(2) i1 by (simp_all add: same_session_def peer_key_def)
  have w2: "waiting_msgs a2 k = waiting_msgs a k"
    by (rule waiting_msgs_cong) (use f2 in \<open>simp_all add: frame_def\<close>)
  show ?thesis
  proof (cases "st2 = WEBRTC_STATUS_SUCCESS")
    case False
    have "outcome_ok (STATUS_INTERNAL_ERROR, 0, p, None, a2)"
      using O2 p0 by (auto simp: outcome_ok_def app_ok_def queues_ok_def)
    then show ?thesis using a1(1) s1(1) i1(1) a2 False by (simp add: start_session_def STATUS_INTERNAL_ERROR_def STATUS_SUCCESS_def)
  next
    case True
    obtain st3 q a3 where a3: "submit_waiting P k p a2 = Some (st3, q, a3)" "app_ok {p} a3" "wframe a2 a3"
      "q = 0 \<or> q \<in> dom (app_queues a3)" "q \<notin> set (pPendingSignalingMessageForRemoteClient a3)"
      "st3 = STATUS_SUCCESS \<longrightarrow> q = 0 \<and> pc_log a3 = pc_log a2 @ map (Pc_send i) (candidates (waiting_msgs a2 k))"
      using submit_waiting_ok[OF U O2 s2(1) p0, of k] i2(1) by auto
    show ?thesis
    proof (cases "st3 = STATUS_SUCCESS")
      case False
      have "outcome_ok (st3, q, p, None, a3)" using a3 p0 by (simp add: outcome_ok_def)
      then show ?thesis using a1(1) s1(1) i1(1) a2 True a3(1) False by (simp add: start_session_def)
    next
      case S: True
      obtain s3 where s3: "app_sessions a3 p = Some s3" "same_session s2 s3" using wframe_session[OF a3(3) s2(1)] by blast
      have k3: "peer_key s3 = k" using s3(2) i2 by (simp add: same_session_def peer_key_def)
      note W = wframe_fields[OF a3(3)]
      have t3: "table_of (pRtcPeerConnectionForRemoteClient a3) k = None" "unat (streamingSessionCount a3) < length (webrtcSessionList a3)"
        using t c f2 W by (simp_all add: frame_def)
      obtain st4 a4 where a4: "publish k p a3 = (st4, a4)" by fastforce
      note e = enlist_ok[OF a3(2) _ s3(1), unfolded k3, OF _ t3 a4]
      note pb = publish_ok[OF a3(2) t3(1) a4]
      show ?thesis
      proof (cases "st4 = STATUS_SUCCESS")
        case False
        then have O4: "app_ok {p} a4" using e by simp
        then have "outcome_ok (st4, 0, p, None, a4)" using p0 by (auto simp: outcome_ok_def app_ok_def queues_ok_def)
        then show ?thesis using a1(1) s1(1) i1(1) a2 True a3(1) S a4 False by (simp add: start_session_def)
      next
        case T: True
        then have O4: "app_ok {} (list_append p a4)" using e by simp
        have lg: "pc_log (list_append p a4) = pc_log a @ [Pc_send i m] @ map (Pc_send i) (candidates (waiting_msgs a k))"
          using pb a3(6) S q1 q2 w2 by (simp add: list_append_def)
        have tb: "table_of (pRtcPeerConnectionForRemoteClient (list_append p a4)) k = Some p"
          using pb T by (auto simp: list_append_def status_defs)
        have "outcome_ok (leave STATUS_SUCCESS (list_append p a4))" by (rule leave_ok[OF O4])
        moreover have "start_session P k p m a = Some (leave STATUS_SUCCESS (list_append p a4))"
          using a1(1) s1(1) i1(1) a2 True a3(1) S a4 T by (simp add: start_session_def)
        ultimately show ?thesis using lg tb by (simp add: leave_def)
      qed
    qed
  qed
qed

lemma over_limit_ok:
  assumes "app_ok {} a"
  shows "\<exists>st q a'. getPendingMessageQueueForHash k True a = Some (st, q, a') \<and> outcome_ok (st, q, 0, None, a') \<and> st = STATUS_SUCCESS"
proof -
  obtain a1 where g: "getPendingMessageQueueForHash k True a = Some (STATUS_SUCCESS, (case waiting_for a k of None \<Rightarrow> 0 | Some q \<Rightarrow> q), a1)"
    "app_ok {} a1" "app_queues a1 = app_queues a"
    "pPendingSignalingMessageForRemoteClient a1 = (case waiting_for a k of None \<Rightarrow> pPendingSignalingMessageForRemoteClient a
       | Some q \<Rightarrow> remove1 q (pPendingSignalingMessageForRemoteClient a))"
    using get_pending_ok[OF assms, of k True] by (simp only: if_True) blast
  have Q: "queues_ok a" using assms by (simp add: app_ok_def)
  have "outcome_ok (STATUS_SUCCESS, (case waiting_for a k of None \<Rightarrow> 0 | Some q \<Rightarrow> q), 0, None, a1)"
  proof (cases "waiting_for a k")
    case None
    then show ?thesis using g(2,4) Q by (simp add: outcome_ok_def queues_ok_def)
  next
    case (Some q)
    then have "q \<in> set (pPendingSignalingMessageForRemoteClient a)" using waiting_for_Some by blast
    then have "q \<in> dom (app_queues a)" using Q by (force simp: queues_ok_def)
    then show ?thesis using g(2,3,4) Q Some by (simp add: outcome_ok_def queues_ok_def)
  qed
  then show ?thesis using g(1) by blast
qed

text \<open>
  The creation of a session for an offer. When there is room and it succeeds, the interface has got
  the offer and then, in order, every candidate that waited.
\<close>

lemma create_for_offer_ok:
  assumes U: "usable P" and O: "app_ok {} a" and t: "table_of (pRtcPeerConnectionForRemoteClient a) k = None"
    and k: "k = COMPUTE_PEER_HASH (peer_client_id m)"
  shows "\<exists>st q fs a'. create_for_offer P k m a = Some (st, q, fs, None, a') \<and> outcome_ok (st, q, fs, None, a') \<and>
    (st = STATUS_SUCCESS \<longrightarrow> unat (streamingSessionCount a) < length (webrtcSessionList a) \<longrightarrow> q = 0 \<and> fs = 0 \<and>
       table_of (pRtcPeerConnectionForRemoteClient a') k \<noteq> None \<and>
       (\<exists>i. pc_log a' = pc_log a @ [Pc_create (peer_client_id m) False i, Pc_send i m] @ map (Pc_send i) (candidates (waiting_msgs a k))))"
proof (cases "unat (streamingSessionCount a) < length (webrtcSessionList a)")
  case False
  then show ?thesis using over_limit_ok[OF O, of k] by (auto simp: create_for_offer_def)
next
  case room: True
  have P: "ports_ok P" using U by (simp add: usable_def)
  show ?thesis
  proof (cases "g_kvs_webrtc_client a")
    case False
    then show ?thesis using room leave_ok[OF O] by (simp add: create_for_offer_def leave_def status_defs)
  next
    case True
    obtain st0 a1 where a1: "app_webrtc_trigger_progressive_ice P True a = (st0, a1)" by fastforce
    have "quiet a a1" using progressive_quiet[OF P, of a True] a1 by simp
    note q1 = quiet_frame[OF this]
    obtain st i a2 where a2: "interface_create P (peer_client_id m) False a1 = Some ((st, i), a2)" "frame a1 a2"
      "pc_log a2 = pc_log a1 @ (if st = WEBRTC_STATUS_SUCCESS then [Pc_create (peer_client_id m) False i] else [])"
      using interface_create_ok[OF U] by blast
    have f2: "frame a a2" using q1 a2(2) frame_trans by blast
    have O2: "app_ok {} a2" by (rule frame_ok[OF f2 O])
    show ?thesis
    proof (cases "st = WEBRTC_STATUS_SUCCESS")
      case False
      then show ?thesis using True room a1 a2(1) leave_ok[OF O2]
        by (simp add: create_for_offer_def leave_def status_defs)
    next
      case S: True
      obtain p a3 where a3: "new_session P (peer_client_id m) i a2 = (p, a3)" by fastforce
      note ns = new_session_ok[OF O2 a3]
      show ?thesis
      proof (cases "p = 0")
        case p0: True
        then have "app_ok {} a3" using ns frame_ok[OF _ O2] by auto
        then show ?thesis using True room a1 a2(1) S a3 p0 leave_ok[of a3]
          by (simp add: create_for_offer_def leave_def status_defs)
      next
        case False
        then have n: "app_ok {p} a3" "app_queues a3 = app_queues a2"
          "pPendingSignalingMessageForRemoteClient a3 = pPendingSignalingMessageForRemoteClient a2"
          "pRtcPeerConnectionForRemoteClient a3 = pRtcPeerConnectionForRemoteClient a2" "webrtcSessionList a3 = webrtcSessionList a2"
          "streamingSessionCount a3 = streamingSessionCount a2" "pc_log a3 = pc_log a2"
          "\<exists>s. app_sessions a3 p = Some s \<and> peerId s = peer_client_id m \<and> interface_session_handle s = i"
          using ns by auto
        then obtain s where s: "app_sessions a3 p = Some s" "peer_key s = k" "interface_session_handle s = i"
          by (auto simp: peer_key_def k)
        have t3: "table_of (pRtcPeerConnectionForRemoteClient a3) k = None" "unat (streamingSessionCount a3) < length (webrtcSessionList a3)"
          using t room f2 n by (simp_all add: frame_def)
        have w3: "waiting_msgs a3 k = waiting_msgs a k"
          by (rule waiting_msgs_cong) (use f2 n in \<open>simp_all add: frame_def\<close>)
        have r: "create_for_offer P k m a = start_session P k p m a3"
          using True room a1 a2(1) S a3 False by (simp add: create_for_offer_def)
        have lg: "pc_log a3 = pc_log a @ [Pc_create (peer_client_id m) False i]" using n(7) a2(3) q1 S by simp
        show ?thesis unfolding r using start_ok[OF U n(1) s t3, of m] by (fastforce simp: w3 lg)
      qed
    qed
  qed
qed

lemma receive_offer_ok:
  assumes U: "usable P" and O: "app_ok {} a" and k: "k = COMPUTE_PEER_HASH (peer_client_id m)"
    and p: "p = (case table_of (pRtcPeerConnectionForRemoteClient a) k of None \<Rightarrow> 0 | Some p \<Rightarrow> p)"
  shows "\<exists>r. receive_offer P k p m a = Some r \<and> outcome_ok r"
proof (cases "table_of (pRtcPeerConnectionForRemoteClient a) k")
  case None
  then show ?thesis using p create_for_offer_ok[OF U O None k] by (auto simp: receive_offer_def)
next
  case (Some p')
  obtain s where s: "p \<noteq> 0" "app_sessions a p = Some s" using key_handle[OF O Some] p Some by auto
  show ?thesis
  proof (cases "terminateFlag s")
    case False
    then show ?thesis using renegotiate_ok[OF U O s(2)] s by (auto simp: receive_offer_def)
  next
    case True
    have P: "ports_ok P" using U by (simp add: usable_def)
    obtain a1 where a1: "replace_session P k p a = Some (STATUS_SUCCESS, a1)" "app_ok {} a1"
      "table_of (pRtcPeerConnectionForRemoteClient a1) k = None"
      using replace_ok[OF P O Some] p Some by auto
    then show ?thesis using create_for_offer_ok[OF U a1(2,3) k] s True by (auto simp: receive_offer_def)
  qed
qed

end
