(* ===== verification/App_Candidate.thy ===== *)
theory App_Candidate
  imports App_Handler
begin

text \<open>A candidate whose peer has no session yet: its copy goes to the end of the queue of its peer.\<close>

section \<open>Changes of queues and memory alone\<close>

definition same_queues :: "'w app \<Rightarrow> 'w app \<Rightarrow> 'w app" where
  "same_queues a b = b\<lparr>app_heap := app_heap a, app_brk := app_brk a, app_queues := app_queues a,
     pPendingSignalingMessageForRemoteClient := pPendingSignalingMessageForRemoteClient a\<rparr>"

definition qonly :: "'w app \<Rightarrow> 'w app \<Rightarrow> bool" where
  "qonly a a' \<longleftrightarrow> app_brk a \<le> app_brk a' \<and> app_brk a' < 2 ^ 64 \<and> same_queues a a' = a"

lemma same_queues_trans: "same_queues a b = a \<Longrightarrow> same_queues b c = b \<Longrightarrow> same_queues a c = a"
proof -
  assume "same_queues a b = a" "same_queues b c = b"
  moreover have "same_queues a c = same_queues a (same_queues b c)" by (simp add: same_queues_def)
  ultimately show ?thesis by simp
qed

lemma qonly_trans: "qonly a b \<Longrightarrow> qonly b c \<Longrightarrow> qonly a c"
  unfolding qonly_def using same_queues_trans le_trans by blast

lemma same_queues_fields:
  "app_sessions (same_queues a b) = app_sessions b" "pRtcPeerConnectionForRemoteClient (same_queues a b) = pRtcPeerConnectionForRemoteClient b"
  "pc_log (same_queues a b) = pc_log b" "webrtcSessionList (same_queues a b) = webrtcSessionList b"
  "streamingSessionCount (same_queues a b) = streamingSessionCount b" "app_events (same_queues a b) = app_events b"
  "g_kvs_webrtc_client (same_queues a b) = g_kvs_webrtc_client b" "listed (same_queues a b) = listed b"
  by (simp_all add: same_queues_def listed_def)

lemma qonly_fields:
  assumes "qonly a a'"
  shows "listed a' = listed a" "app_sessions a' = app_sessions a" "pRtcPeerConnectionForRemoteClient a' = pRtcPeerConnectionForRemoteClient a"
    "pc_log a' = pc_log a" "webrtcSessionList a' = webrtcSessionList a" "streamingSessionCount a' = streamingSessionCount a"
    "app_events a' = app_events a" "g_kvs_webrtc_client a' = g_kvs_webrtc_client a"
proof -
  have e: "same_queues a a' = a" using assms by (simp add: qonly_def)
  note f = same_queues_fields[of a a', unfolded e]
  show "listed a' = listed a" "app_sessions a' = app_sessions a" "pRtcPeerConnectionForRemoteClient a' = pRtcPeerConnectionForRemoteClient a"
    "pc_log a' = pc_log a" "webrtcSessionList a' = webrtcSessionList a" "streamingSessionCount a' = streamingSessionCount a"
    "app_events a' = app_events a" "g_kvs_webrtc_client a' = g_kvs_webrtc_client a"
    using f by simp_all
qed

lemma qonly_ok:
  assumes "qonly a a'" "app_ok X a" "queues_ok a'" "\<And>q. q \<in> dom (app_queues a') \<Longrightarrow> 0 < unat q \<and> unat q \<le> app_brk a'"
  shows "app_ok X a'"
proof -
  have b: "app_brk a \<le> app_brk a'" "app_brk a' < 2 ^ 64" using assms(1) by (auto simp: qonly_def)
  have "table_ok a'" "list_ok a'" using assms(2) by (simp_all add: app_ok_def table_ok_def list_ok_def qonly_fields[OF assms(1)])
  moreover have "places_ok a'"
    unfolding places_ok_def qonly_fields[OF assms(1)]
  proof (intro conjI ballI)
    fix p assume p: "p \<in> dom (app_sessions a) \<union> dom (app_queues a')"
    have "0 < unat p \<and> unat p \<le> app_brk a" if "p \<in> dom (app_sessions a)"
      using assms(2) that by (simp add: app_ok_def places_ok_def)
    then show "0 < unat p" "unat p \<le> app_brk a'" using p assms(4) b(1) by fastforce+
  qed (use b in simp)
  ultimately show ?thesis using assms(2,3) by (simp add: app_ok_def qonly_fields[OF assms(1)])
qed

lemma qonly_heap: "app_brk a < 2 ^ 64 \<Longrightarrow> qonly a (a\<lparr>app_heap := h\<rparr>)"
  by (simp add: qonly_def same_queues_def)

lemma qonly_place:
  "app_brk a \<le> b \<Longrightarrow> b < 2 ^ 64 \<Longrightarrow> qonly a (a\<lparr>app_heap := h, app_brk := b\<rparr>)"
  "app_brk a \<le> b \<Longrightarrow> b < 2 ^ 64 \<Longrightarrow> qonly a (a\<lparr>app_heap := h, app_brk := b, app_queues := qs\<rparr>)"
  by (simp_all add: qonly_def same_queues_def)

lemma qonly_put: "qonly a b \<Longrightarrow> qonly a (put_queue q s b)"
  by (simp add: qonly_def same_queues_def put_queue_def)

lemma calloc_eq: "app_calloc a = (ok, a') \<Longrightarrow> a' = a\<lparr>app_heap := snd (heap_calloc (app_heap a))\<rparr> \<and> ok = fst (heap_calloc (app_heap a))"
  by (auto simp: app_calloc_def split: prod.splits)

lemma brk_bound: "app_ok X a \<Longrightarrow> app_brk a < 2 ^ 64"
  by (simp add: app_ok_def places_ok_def)

section \<open>The queue of the peer\<close>

lemma allocate_eq:
  assumes "allocate a = (p, a1)" "app_brk a < 2 ^ 64"
  shows "\<exists>h b. a1 = a\<lparr>app_heap := h, app_brk := b\<rparr> \<and> app_brk a \<le> b \<and> b < 2 ^ 64"
proof -
  have "a1 = a \<or> a1 = a\<lparr>app_heap := app_heap a1\<rparr> \<or> a1 = a\<lparr>app_heap := app_heap a1, app_brk := Suc (app_brk a)\<rparr> \<and> Suc (app_brk a) < 2 ^ 64"
    using assms(1) by (auto simp: allocate_def split: prod.splits if_splits)
  then show ?thesis
  proof (elim disjE)
    assume "a1 = a"
    then show ?thesis using assms(2) by (intro exI[of _ "app_heap a"] exI[of _ "app_brk a"]) simp
  next
    assume h: "a1 = a\<lparr>app_heap := app_heap a1\<rparr>"
    have "a1 = a\<lparr>app_heap := app_heap a1, app_brk := app_brk a\<rparr>" by (subst h) simp
    then show ?thesis using assms(2) by blast
  next
    assume h: "a1 = a\<lparr>app_heap := app_heap a1, app_brk := Suc (app_brk a)\<rparr> \<and> Suc (app_brk a) < 2 ^ 64"
    then show ?thesis using le_SucI by blast
  qed
qed

lemma create_queue_ok:
  assumes "app_ok {} a" "createMessageQueue P k a = Some (st, q, a')"
  shows "qonly a a' \<and> pPendingSignalingMessageForRemoteClient a' = pPendingSignalingMessageForRemoteClient a \<and>
    (if st = STATUS_SUCCESS
     then q \<noteq> 0 \<and> q \<notin> dom (app_queues a) \<and> 0 < unat q \<and> unat q \<le> app_brk a' \<and>
       (\<exists>t. app_queues a' = (app_queues a)(q \<mapsto> \<lparr>hashValue = k, createTime = t, messageQueue = Some []\<rparr>))
     else st = STATUS_NOT_ENOUGH_MEMORY \<and> q = 0 \<and> app_queues a' = app_queues a)"
proof -
  note b = brk_bound[OF assms(1)]
  obtain p a1 where al: "allocate a = (p, a1)" by fastforce
  obtain h bk where a1: "a1 = a\<lparr>app_heap := h, app_brk := bk\<rparr>" "app_brk a \<le> bk" "bk < 2 ^ 64" using allocate_eq[OF al b] by blast
  show ?thesis
  proof (cases "p = 0")
    case True
    then have r: "a' = a1" "st = STATUS_NOT_ENOUGH_MEMORY" "q = 0" using assms(2) al by (simp_all add: createMessageQueue_def)
    then show ?thesis using qonly_place(1)[OF a1(2,3)] a1(1) by (simp add: status_defs)
  next
    case False
    then have u: "unat p = Suc (app_brk a)" "bk = Suc (app_brk a)" using allocate_cases[OF al b] a1(1) by auto
    note fr = fresh_place[OF assms(1) u(1)]
    obtain ok a2 where c: "app_calloc a1 = (ok, a2)" by fastforce
    have "a2 = a\<lparr>app_heap := app_heap a2, app_brk := bk\<rparr>"
      by (rule app.equality) (use calloc_eq[OF c] a1(1) in simp_all)
    then obtain h2 where a2: "a2 = a\<lparr>app_heap := h2, app_brk := bk\<rparr>" by blast
    let ?s = "\<lambda>mq. \<lparr>hashValue = k, createTime = GETTIME P a1, messageQueue = mq\<rparr>"
    show ?thesis
    proof (cases ok)
      case True
      then have r: "st = STATUS_SUCCESS" "q = p" "a' = put_queue p (?s (Some [])) a2"
        using assms(2) al False c by (auto simp: createMessageQueue_def Let_def)
      have "qonly a a'" unfolding r a2 by (rule qonly_put[OF qonly_place(1)[OF a1(2,3)]])
      then show ?thesis using r fr u False by (auto simp: put_queue_def a2)
    next
      case no: False
      have e: "(app_queues a)(p := None) = app_queues a" using fr(2) by (auto simp: fun_upd_idem)
      have r: "st = STATUS_NOT_ENOUGH_MEMORY" "q = 0" "a' = (app_free 1 (put_queue p (?s None) a2))\<lparr>app_queues := app_queues a\<rparr>"
        using assms(2) al False c no e by (auto simp: createMessageQueue_def freeMessageQueue_def Let_def put_queue_def app_free_def a2)
      have "qonly a a'" unfolding r a2 using a1(2,3) by (simp add: qonly_def same_queues_def put_queue_def app_free_def)
      then show ?thesis using r by (simp add: put_queue_def status_defs a2)
    qed
  qed
qed

lemma create_queue_defined: "\<exists>r. createMessageQueue P k a = Some r"
proof -
  obtain p a1 where al: "allocate a = (p, a1)" by fastforce
  obtain ok a2 where c: "app_calloc a1 = (ok, a2)" by fastforce
  show ?thesis by (simp add: createMessageQueue_def al c Let_def freeMessageQueue_def put_queue_def)
qed

text \<open>The copy that is kept.\<close>

definition kept_copy :: "webrtc_message \<Rightarrow> webrtc_message" where
  "kept_copy m = message_copy m (0 < msg_payload_len m \<and> msg_payload m \<noteq> None)"

lemma keep_candidate_cases:
  assumes "app_brk a < 2 ^ 64" "app_queues a q = Some s" "messageQueue s = Some ms"
  shows "\<exists>a1. qonly a a1 \<and> app_queues a1 = app_queues a \<and>
    pPendingSignalingMessageForRemoteClient a1 = pPendingSignalingMessageForRemoteClient a \<and>
    (keep_candidate q m a = Some (leave STATUS_SUCCESS (put_queue q (s\<lparr>messageQueue := Some (ms @ [kept_copy m])\<rparr>) a1)) \<or>
     (\<exists>copy. keep_candidate q m a = Some (STATUS_NOT_ENOUGH_MEMORY, q, 0, copy, a1)))"
proof -
  let ?w = "0 < msg_payload_len m \<and> msg_payload m \<noteq> None"
  obtain ok a1 where c1: "app_calloc a = (ok, a1)" by fastforce
  obtain ok1 a2 where c2: "(if ?w then app_calloc a1 else (True, a1)) = (ok1, a2)" by (metis prod.exhaust)
  obtain ok2 a3 where c3: "app_calloc a2 = (ok2, a3)" by fastforce
  have h: "\<exists>h1. a1 = a\<lparr>app_heap := h1\<rparr>" "\<exists>h2. a2 = a\<lparr>app_heap := h2\<rparr>" "\<exists>h3. a3 = a\<lparr>app_heap := h3\<rparr>"
    using calloc_eq[OF c1] calloc_eq[OF c3] c2 calloc_eq[of a1 ok1 a2] by (auto split: if_splits)
  have q: "qonly a a1" "qonly a a2" "qonly a a3" using h qonly_heap[OF assms(1)] by auto
  have g: "app_queues a1 = app_queues a" "app_queues a2 = app_queues a" "app_queues a3 = app_queues a"
    "pPendingSignalingMessageForRemoteClient a1 = pPendingSignalingMessageForRemoteClient a"
    "pPendingSignalingMessageForRemoteClient a2 = pPendingSignalingMessageForRemoteClient a"
    "pPendingSignalingMessageForRemoteClient a3 = pPendingSignalingMessageForRemoteClient a"
    using h by auto
  have k: "keep_candidate q m a =
     (if \<not> ok then Some (STATUS_NOT_ENOUGH_MEMORY, q, 0, None, a1)
      else if \<not> ok1 then Some (STATUS_NOT_ENOUGH_MEMORY, q, 0, Some (message_copy m False), a2)
      else if \<not> ok2 then Some (STATUS_NOT_ENOUGH_MEMORY, q, 0, Some (message_copy m ?w), a3)
      else Some (leave STATUS_SUCCESS (put_queue q (s\<lparr>messageQueue := Some (ms @ [kept_copy m])\<rparr>) a3)))"
    using c1 c2 c3 assms(2,3) g(3) by (simp add: keep_candidate_def Let_def kept_copy_def)
  show ?thesis
  proof (cases "ok \<and> ok1 \<and> ok2")
    case True
    then show ?thesis using k q(3) g(3,6) by (intro exI[of _ a3]) simp
  next
    case False
    then consider "\<not> ok" | "ok" "\<not> ok1" | "ok" "ok1" "\<not> ok2" by blast
    then show ?thesis
    proof cases
      case 1 then show ?thesis using k q(1) g by (intro exI[of _ a1]) simp
    next
      case 2 then show ?thesis using k q(2) g by (intro exI[of _ a2]) simp
    next
      case 3 then show ?thesis using k q(3) g by (intro exI[of _ a3]) simp
    qed
  qed
qed

section \<open>A candidate without a session\<close>

lemma waiting_for_upd:
  assumes "queues_ok a" "q \<in> set (pPendingSignalingMessageForRemoteClient a)" "hashValue s = hashValue (the (app_queues a q))"
  shows "waiting_for (put_queue q s a) k = waiting_for a k"
proof -
  have "(\<lambda>x. hashValue (the (app_queues (put_queue q s a) x)) = k) = (\<lambda>x. hashValue (the (app_queues a x)) = k)"
    using assms(3) by (auto simp: put_queue_def)
  then show ?thesis by (simp add: waiting_for_def put_queue_def)
qed

lemma waiting_for_unique:
  assumes "queues_ok a" "q \<in> set (pPendingSignalingMessageForRemoteClient a)"
  shows "waiting_for a k = Some q \<longleftrightarrow> hashValue (the (app_queues a q)) = k"
proof
  assume h: "hashValue (the (app_queues a q)) = k"
  then obtain r where r: "waiting_for a k = Some r"
    using assms(2) unfolding waiting_for_def by (metis (mono_tags, lifting) find_None_iff option.exhaust)
  from waiting_for_Some[OF r] have "r = q" using assms h unfolding queues_ok_def inj_on_def by metis
  then show "waiting_for a k = Some q" using r by simp
qed (use waiting_for_Some in blast)

text \<open>Adding to a queue of the list.\<close>

lemma kept_ok:
  assumes O: "app_ok {} a" and q: "q \<in> set (pPendingSignalingMessageForRemoteClient a)" and s: "app_queues a q = Some s" "messageQueue s = Some ms"
  shows "app_ok {} (put_queue q (s\<lparr>messageQueue := Some ms'\<rparr>) a) \<and>
    (\<forall>k. waiting_msgs (put_queue q (s\<lparr>messageQueue := Some ms'\<rparr>) a) k = (if k = hashValue s then ms' else waiting_msgs a k))"
proof -
  let ?a = "put_queue q (s\<lparr>messageQueue := Some ms'\<rparr>) a"
  have Q: "queues_ok a" using O by (simp add: app_ok_def)
  have b: "0 < unat q \<and> unat q \<le> app_brk a" using queue_place[OF O] s(1) by blast
  have p: "pPendingSignalingMessageForRemoteClient ?a = pPendingSignalingMessageForRemoteClient a"
    "app_queues ?a = (app_queues a)(q \<mapsto> s\<lparr>messageQueue := Some ms'\<rparr>)" by (simp_all add: put_queue_def)
  have h: "(\<lambda>r. hashValue (the (app_queues ?a r))) = (\<lambda>r. hashValue (the (app_queues a r)))"
    using s by (auto simp: p fun_eq_iff)
  have "\<exists>s ms. app_queues ?a r = Some s \<and> messageQueue s = Some ms" if "r \<in> set (pPendingSignalingMessageForRemoteClient a)" for r
    using Q that s by (cases "r = q") (auto simp: p queues_ok_def)
  then have qk: "queues_ok ?a" using Q unfolding queues_ok_def p(1) h by blast
  have qo: "qonly a ?a" by (rule qonly_put) (use brk_bound[OF O] in \<open>simp add: qonly_def same_queues_def\<close>)
  have "app_ok {} ?a"
    by (rule qonly_ok[OF qo O qk]) (use queue_place[OF O] b in \<open>auto simp: p put_queue_def split: if_splits\<close>)
  moreover have "waiting_msgs ?a k = (if k = hashValue s then ms' else waiting_msgs a k)" for k
  proof -
    have u: "waiting_for ?a k = waiting_for a k" by (rule waiting_for_upd[OF Q q]) (simp add: s)
    show ?thesis
    proof (cases "k = hashValue s")
      case True
      then have "waiting_for a k = Some q" using waiting_for_unique[OF Q q] s(1) by simp
      then show ?thesis using True u by (simp add: waiting_msgs_def queue_msgs_def p)
    next
      case False
      have "r \<noteq> q" if "waiting_for a k = Some r" for r using waiting_for_Some[OF that] s(1) False by auto
      then show ?thesis using False u by (auto simp: waiting_msgs_def queue_msgs_def p split: option.splits)
    qed
  qed
  ultimately show ?thesis by blast
qed

lemma waiting_for_append:
  assumes "queues_ok a" "q \<notin> dom (app_queues a)" "waiting_for a k = None" "hashValue s = k"
    "app_queues b = (app_queues a)(q \<mapsto> s)" "pPendingSignalingMessageForRemoteClient b = pPendingSignalingMessageForRemoteClient a @ [q]"
    "messageQueue s = Some ms"
  shows "queues_ok b \<or> q = 0" "waiting_msgs b j = (if j = k then ms else waiting_msgs a j)"
proof -
  let ?ps = "pPendingSignalingMessageForRemoteClient a"
  have D: "\<forall>r\<in>set ?ps. \<exists>s ms. app_queues a r = Some s \<and> messageQueue s = Some ms" using assms(1) by (simp add: queues_ok_def)
  have n: "q \<notin> set ?ps" using D assms(2) by force
  have same: "app_queues b r = app_queues a r" if "r \<in> set ?ps" for r using n that assms(5) by auto
  have nk: "hashValue (the (app_queues a r)) \<noteq> k" if "r \<in> set ?ps" for r
    using assms(3) that by (simp add: waiting_for_def find_None_iff)
  have "inj_on (\<lambda>r. hashValue (the (app_queues b r))) (set ?ps)"
    using assms(1) same by (simp add: queues_ok_def inj_on_def)
  moreover have "hashValue (the (app_queues b q)) = k" using assms(4,5) by simp
  moreover have "k \<notin> (\<lambda>r. hashValue (the (app_queues b r))) ` (set ?ps - {q})" using nk same by auto
  ultimately have "inj_on (\<lambda>r. hashValue (the (app_queues b r))) (insert q (set ?ps))" by (simp add: inj_on_insert)
  then show "queues_ok b \<or> q = 0"
    using assms(1,7) D n same unfolding queues_ok_def assms(6) by (auto simp: assms(5))
  have f: "find (\<lambda>r. hashValue (the (app_queues b r)) = j) ?ps = find (\<lambda>r. hashValue (the (app_queues a r)) = j) ?ps"
    by (rule find_cong) (simp_all add: same)
  have app: "find P (xs @ [x]) = (case find P xs of None \<Rightarrow> if P x then Some x else None | Some y \<Rightarrow> Some y)" for P xs and x :: uint64
    by (induction xs) auto
  have w: "waiting_for b j = (case waiting_for a j of None \<Rightarrow> if k = j then Some q else None | Some r \<Rightarrow> Some r)"
    unfolding waiting_for_def assms(6) app f using assms(4,5) by simp
  show "waiting_msgs b j = (if j = k then ms else waiting_msgs a j)"
  proof (cases "waiting_for a j")
    case None
    then show ?thesis using w assms(5,7) by (auto simp: waiting_msgs_def queue_msgs_def)
  next
    case (Some r)
    then have "r \<in> set ?ps" "j \<noteq> k" using waiting_for_Some assms(3) by auto
    then show ?thesis using w Some same by (simp add: waiting_msgs_def queue_msgs_def)
  qed
qed

lemma queue_candidate_ok:
  assumes O: "app_ok {} a"
  shows "\<exists>st q copy a'. queue_candidate P k m a = Some (st, q, 0, copy, a') \<and> qonly a a' \<and> (st = STATUS_SUCCESS \<or> st = STATUS_NOT_ENOUGH_MEMORY) \<and>
    (q = 0 \<or> q \<in> dom (app_queues a')) \<and>
    (st = STATUS_SUCCESS \<longrightarrow> q = 0 \<and> copy = None \<and> app_ok {} a' \<and>
       (\<forall>j. waiting_msgs a' j = (if j = k then waiting_msgs a k @ [kept_copy m] else waiting_msgs a j)))"
proof -
  note b = brk_bound[OF O]
  have Q: "queues_ok a" using O by (simp add: app_ok_def)
  have g: "getPendingMessageQueueForHash k False a = Some (STATUS_SUCCESS, (case waiting_for a k of None \<Rightarrow> 0 | Some q \<Rightarrow> q), a)"
    using get_pending_ok[OF O, of k False] by (auto simp: getPendingMessageQueueForHash_def split: bind_splits if_splits)
  have qa: "qonly a a" using b by (simp add: qonly_def same_queues_def)
  show ?thesis
  proof (cases "waiting_for a k")
    case (Some q)
    have q: "q \<in> set (pPendingSignalingMessageForRemoteClient a)" "hashValue (the (app_queues a q)) = k" using waiting_for_Some[OF Some] by blast+
    obtain s ms where s: "app_queues a q = Some s" "messageQueue s = Some ms" using q(1) Q by (auto simp: queues_ok_def)
    have q0: "q \<noteq> 0" using q(1) Q by (auto simp: queues_ok_def)
    have r: "queue_candidate P k m a = keep_candidate q m a" using g Some q0 by (simp add: queue_candidate_def)
    obtain a1 where a1: "qonly a a1" "app_queues a1 = app_queues a" "pPendingSignalingMessageForRemoteClient a1 = pPendingSignalingMessageForRemoteClient a"
      "keep_candidate q m a = Some (leave STATUS_SUCCESS (put_queue q (s\<lparr>messageQueue := Some (ms @ [kept_copy m])\<rparr>) a1)) \<or>
       (\<exists>copy. keep_candidate q m a = Some (STATUS_NOT_ENOUGH_MEMORY, q, 0, copy, a1))"
      using keep_candidate_cases[OF b s] by blast
    have O1: "app_ok {} a1"
      by (rule qonly_ok[OF a1(1) O]) (use Q a1 queue_place[OF O] in \<open>auto simp: queues_ok_def qonly_def intro: le_trans\<close>)
    have w1: "waiting_msgs a1 j = waiting_msgs a j" for j by (rule waiting_msgs_cong[OF a1(2,3)])
    have wk: "waiting_msgs a k = ms" using Some s by (simp add: waiting_msgs_def queue_msgs_def)
    note kp = kept_ok[OF O1, of q s ms "ms @ [kept_copy m]"]
    from a1(4) show ?thesis
    proof
      assume "keep_candidate q m a = Some (leave STATUS_SUCCESS (put_queue q (s\<lparr>messageQueue := Some (ms @ [kept_copy m])\<rparr>) a1))"
      then show ?thesis unfolding r leave_def using kp q s a1(2,3) qonly_put[OF a1(1)] w1 wk by auto
    next
      assume "\<exists>copy. keep_candidate q m a = Some (STATUS_NOT_ENOUGH_MEMORY, q, 0, copy, a1)"
      then show ?thesis unfolding r using a1(1,2) s(1) by (auto simp: status_defs)
    qed
  next
    case None
    obtain st1 q1 a2 where c: "createMessageQueue P k a = Some (st1, q1, a2)" using create_queue_defined by (metis prod.exhaust)
    note cq = create_queue_ok[OF O c]
    have r1: "queue_candidate P k m a = (if st1 \<noteq> STATUS_SUCCESS then Some (st1, q1, 0, None, a2)
        else (case pending_enqueue q1 a2 of (st2, a3) \<Rightarrow> if st2 \<noteq> STATUS_SUCCESS then Some (st2, q1, 0, None, a3) else keep_candidate q1 m a3))"
      using g None c by (simp add: queue_candidate_def)
    show ?thesis
    proof (cases "st1 = STATUS_SUCCESS")
      case False
      then show ?thesis using r1 cq by auto
    next
      case True
      then obtain t where t: "app_queues a2 = (app_queues a)(q1 \<mapsto> \<lparr>hashValue = k, createTime = t, messageQueue = Some []\<rparr>)"
        and q1: "q1 \<noteq> 0" "q1 \<notin> dom (app_queues a)" "0 < unat q1" "unat q1 \<le> app_brk a2" and qo: "qonly a a2"
        and pd: "pPendingSignalingMessageForRemoteClient a2 = pPendingSignalingMessageForRemoteClient a"
        using cq by auto
      obtain st2 a3 where e: "pending_enqueue q1 a2 = (st2, a3)" by fastforce
      obtain ok a3' where al: "app_calloc a2 = (ok, a3')" by fastforce
      note ce = calloc_eq[OF al]
      have b2: "app_brk a2 < 2 ^ 64" using qo by (simp add: qonly_def)
      show ?thesis
      proof (cases ok)
        case False
        then have "st2 = STATUS_NOT_ENOUGH_MEMORY" "a3 = a3'" using e al by (simp_all add: pending_enqueue_def)
        moreover have "qonly a a3'" using qonly_trans[OF qo] qonly_heap[OF b2] ce by simp
        ultimately show ?thesis using r1 True e ce t by (auto simp: status_defs)
      next
        case ok: True
        then have st2: "st2 = STATUS_SUCCESS"
          and a3: "a3 = a3'\<lparr>pPendingSignalingMessageForRemoteClient := pPendingSignalingMessageForRemoteClient a @ [q1]\<rparr>"
          using e al ce pd by (auto simp: pending_enqueue_def)
        have f3: "app_queues a3 = app_queues a2" "pPendingSignalingMessageForRemoteClient a3 = pPendingSignalingMessageForRemoteClient a @ [q1]"
          "app_brk a3 = app_brk a2" using a3 ce by simp_all
        have "qonly a2 a3" unfolding a3 using ce b2 by (simp add: qonly_def same_queues_def)
        then have qo3: "qonly a a3" by (rule qonly_trans[OF qo])
        note wa = waiting_for_append[OF Q q1(2) None _ t[folded f3(1)] f3(2), simplified]
        have O3: "app_ok {} a3"
          by (rule qonly_ok[OF qo3 O]) (use wa(1) q1 queue_place[OF O] qo f3 t in \<open>auto simp: qonly_def intro: le_trans split: if_splits\<close>)
        have w3: "waiting_msgs a3 j = (if j = k then [] else waiting_msgs a j)" for j using wa(2) by simp
        have s3: "app_queues a3 q1 = Some \<lparr>hashValue = k, createTime = t, messageQueue = Some []\<rparr>" using f3(1) t by simp
        let ?s = "\<lparr>hashValue = k, createTime = t, messageQueue = Some []\<rparr>"
        have ms3: "messageQueue ?s = Some []" by simp
        have q3: "q1 \<in> set (pPendingSignalingMessageForRemoteClient a3)" using f3(2) by simp
        obtain a4 where a4: "qonly a3 a4" "app_queues a4 = app_queues a3" "pPendingSignalingMessageForRemoteClient a4 = pPendingSignalingMessageForRemoteClient a3"
          "keep_candidate q1 m a3 = Some (leave STATUS_SUCCESS (put_queue q1 (?s\<lparr>messageQueue := Some ([] @ [kept_copy m])\<rparr>) a4)) \<or>
           (\<exists>copy. keep_candidate q1 m a3 = Some (STATUS_NOT_ENOUGH_MEMORY, q1, 0, copy, a4))"
          using keep_candidate_cases[OF brk_bound[OF O3] s3 ms3] by blast
        have O4: "app_ok {} a4"
          by (rule qonly_ok[OF a4(1) O3])
             (use O3 a4 queue_place[OF O3] in \<open>auto simp: app_ok_def queues_ok_def qonly_def intro: le_trans\<close>)
        have w4: "waiting_msgs a4 j = waiting_msgs a3 j" for j by (rule waiting_msgs_cong[OF a4(2,3)])
        have r: "queue_candidate P k m a = keep_candidate q1 m a3" using r1 True e st2 by simp
        have qo4: "qonly a a4" by (rule qonly_trans[OF qo3 a4(1)])
        have wk: "waiting_msgs a k = []" using None by (simp add: waiting_msgs_def)
        note kp = kept_ok[OF O4, of q1 "\<lparr>hashValue = k, createTime = t, messageQueue = Some []\<rparr>" "[]" "[kept_copy m]"]
        from a4(4) show ?thesis
        proof
          assume "keep_candidate q1 m a3 = Some (leave STATUS_SUCCESS (put_queue q1 (?s\<lparr>messageQueue := Some ([] @ [kept_copy m])\<rparr>) a4))"
          then show ?thesis unfolding r leave_def using kp q3 s3 a4(2,3) qonly_put[OF qo4] w4 w3 wk by auto
        next
          assume "\<exists>copy. keep_candidate q1 m a3 = Some (STATUS_NOT_ENOUGH_MEMORY, q1, 0, copy, a4)"
          then show ?thesis unfolding r using qo4 a4(2) s3 by (auto simp: status_defs)
        qed
      qed
    qed
  qed
qed

end
