(* ===== verification/App_Safe.thy ===== *)
theory App_Safe
  imports App_Candidate
begin

text \<open>Every operation of the application keeps the invariant and has a result: it touches no freed object.\<close>

section \<open>A message\<close>

lemma receive_answer_ok:
  assumes U: "usable P" and O: "app_ok {} a" and p: "streamingSessionCount a \<noteq> 0 \<or> webrtcSessionList a ! 0 = 0"
  shows "\<exists>r. receive_answer P k m a = Some r \<and> outcome_ok r"
proof (cases "webrtcSessionList a ! 0 = 0")
  case True
  then show ?thesis using leave_ok[OF O] by (simp add: receive_answer_def Let_def)
next
  case False
  let ?p = "webrtcSessionList a ! 0"
  have P: "ports_ok P" using U by (simp add: usable_def)
  have c: "0 < unat (streamingSessionCount a)" using p False by (metis neq0_conv unat_eq_zero)
  have L: "unat (streamingSessionCount a) \<le> length (webrtcSessionList a)" using O by (simp add: app_ok_def list_ok_def)
  then have "?p \<in> set (listed a)" unfolding listed_def using c by (auto simp: in_set_conv_nth intro: exI[of _ 0])
  then obtain s where s: "app_sessions a ?p = Some s" using O by (force simp: app_ok_def)
  obtain st0 a1 where a1: "app_webrtc_trigger_progressive_ice P True a = (st0, a1)" by fastforce
  have q1: "frame a a1" using quiet_frame[OF progressive_quiet[OF P, of a True]] a1 by simp
  obtain s1 where s1: "app_sessions a1 ?p = Some s1" using frame_session[OF q1 s] by blast
  obtain st a2 where a2: "pc_send P (interface_session_handle s1) m a1 = Some (st, a2)" using pc_send_defined U by (metis usable_def)
  have f2: "frame a a2" using q1 pc_send_spec[OF P a2] frame_trans by blast
  have O2: "app_ok {} a2" by (rule frame_ok[OF f2 O])
  obtain s2 where s2: "app_sessions a2 ?p = Some s2" using frame_session[OF f2 s] by blast
  show ?thesis
  proof (cases "st = WEBRTC_STATUS_SUCCESS")
    case False
    then show ?thesis using \<open>?p \<noteq> 0\<close> a1 s1 a2 leave_ok[OF O2] by (simp add: receive_answer_def Let_def)
  next
    case True
    obtain st3 q a3 where a3: "submit_waiting P k ?p a2 = Some (st3, q, a3)" "app_ok {} a3"
      "q = 0 \<or> q \<in> dom (app_queues a3)" "q \<notin> set (pPendingSignalingMessageForRemoteClient a3)"
      using submit_waiting_ok[OF U O2 s2 False, of k] by blast
    then have "outcome_ok (st3, q, 0, None, a3)" by (simp add: outcome_ok_def)
    then show ?thesis using False True a1 s1 a2 a3(1) by (simp add: receive_answer_def Let_def)
  qed
qed

lemma pass_candidate_ok:
  assumes U: "usable P" and O: "app_ok {} a" and s: "app_sessions a p = Some s"
  shows "\<exists>st a'. pass_candidate P p m a = Some (leave st a') \<and> app_ok {} a'"
proof -
  obtain st a1 where r: "pc_send P (if interface_session_handle s \<noteq> 0 then interface_session_handle s else p) m a = Some (st, a1)"
    using pc_send_defined U by (metis usable_def)
  then have "app_ok {} a1" using pc_send_spec[OF _ r] U O frame_ok by (auto simp: usable_def)
  then show ?thesis using s r by (auto simp: pass_candidate_def)
qed

definition starved :: "webrtc_message \<Rightarrow> STATUS \<Rightarrow> bool" where
  "starved m st \<longleftrightarrow> message_type m = WEBRTC_MESSAGE_TYPE_ICE_CANDIDATE \<and> st = STATUS_NOT_ENOUGH_MEMORY"

lemma cleanup_leave [simp]: "message_cleanup P (leave st a) = Some (st, a)"
  by (simp add: message_cleanup_def leave_def freeMessageQueue_def freeAppWebRTCSession_def)

lemma handler_ok:
  assumes U: "usable P" and O: "app_ok {} a"
    and A: "message_type m = WEBRTC_MESSAGE_TYPE_ANSWER \<Longrightarrow> streamingSessionCount a \<noteq> 0 \<or> webrtcSessionList a ! 0 = 0"
  shows "\<exists>st a'. signalingMessageReceived P m a = Some (st, a') \<and> (starved m st \<or> app_ok {} a')"
proof -
  have P: "ports_ok P" using U by (simp add: usable_def)
  let ?k = "COMPUTE_PEER_HASH (peer_client_id m)"
  let ?p = "case table_of (pRtcPeerConnectionForRemoteClient a) ?k of None \<Rightarrow> 0 | Some p \<Rightarrow> p"
  have clean: ?thesis if h: "\<exists>r. f = Some r \<and> outcome_ok r" "signalingMessageReceived P m a = do { r \<leftarrow> f; message_cleanup P r }" for f
  proof -
    obtain x where x: "f = Some x" "outcome_ok x" using h(1) by blast
    obtain st q p copy a1 where "x = (st, q, p, copy, a1)" by (rule prod_cases5)
    then have r: "f = Some (st, q, p, copy, a1)" "outcome_ok (st, q, p, copy, a1)" using x by simp_all
    then show ?thesis using cleanup_ok[OF P r(2)] h(2) by auto
  qed
  show ?thesis
  proof (cases "message_type m")
    case WEBRTC_MESSAGE_TYPE_OFFER
    then have "signalingMessageReceived P m a = do { r \<leftarrow> receive_offer P ?k ?p m a; message_cleanup P r }"
      by (simp add: signalingMessageReceived_def lookup_session_table Let_def)
    then show ?thesis by (rule clean[rotated]) (rule receive_offer_ok[OF U O refl refl])
  next
    case WEBRTC_MESSAGE_TYPE_ANSWER
    then have "signalingMessageReceived P m a = do { r \<leftarrow> receive_answer P ?k m a; message_cleanup P r }"
      by (simp add: signalingMessageReceived_def lookup_session_table Let_def)
    then show ?thesis by (rule clean[rotated]) (rule receive_answer_ok[OF U O A[OF WEBRTC_MESSAGE_TYPE_ANSWER]])
  next
    case WEBRTC_MESSAGE_TYPE_ICE_CANDIDATE
    then have h: "signalingMessageReceived P m a = do { r \<leftarrow> receive_candidate P ?k ?p m a; message_cleanup P r }"
      by (simp add: signalingMessageReceived_def lookup_session_table Let_def)
    show ?thesis
    proof (cases "msg_payload_len m \<le> APP_WEBRTC_MAX_MESSAGE_PAYLOAD_LEN")
      case False
      then show ?thesis using h O by (simp add: receive_candidate_def)
    next
      case len: True
      show ?thesis
      proof (cases "table_of (pRtcPeerConnectionForRemoteClient a) ?k")
        case (Some p')
        then obtain s where "p' \<noteq> 0" "app_sessions a p' = Some s" using key_handle[OF O] by blast
        then show ?thesis using h len Some pass_candidate_ok[OF U O, of p' s m] by (auto simp: receive_candidate_def)
      next
        case None
        obtain st q copy a1 where c: "queue_candidate P ?k m a = Some (st, q, 0, copy, a1)" "q = 0 \<or> q \<in> dom (app_queues a1)"
          "st = STATUS_SUCCESS \<or> st = STATUS_NOT_ENOUGH_MEMORY" "st = STATUS_SUCCESS \<longrightarrow> q = 0 \<and> copy = None \<and> app_ok {} a1"
          using queue_candidate_ok[OF O, of P ?k m] by blast
        have r: "receive_candidate P ?k ?p m a = Some (st, q, 0, copy, a1)" using c(1) len None by (simp add: receive_candidate_def)
        have f: "\<exists>a2. freeMessageQueue q (case copy of None \<Rightarrow> a1 | Some x \<Rightarrow> app_free (message_blocks x) a1) = Some (STATUS_SUCCESS, a2)"
          using c(2) by (cases copy) (auto simp: freeMessageQueue_def Let_def)
        show ?thesis
        proof (cases "st = STATUS_SUCCESS")
          case True
          then have "(st, q, 0, copy, a1) = leave STATUS_SUCCESS a1" using c(4) by (simp add: leave_def)
          then show ?thesis using h r c(4) True by simp
        next
          case False
          then have "starved m st" using c(3) WEBRTC_MESSAGE_TYPE_ICE_CANDIDATE by (simp add: starved_def)
          then show ?thesis using h r f by (auto simp: message_cleanup_def Let_def freeAppWebRTCSession_def)
        qed
      qed
    qed
  qed (use O in \<open>simp_all add: signalingMessageReceived_def lookup_session_table Let_def\<close>)
qed

section \<open>A pass of the cleanup loop\<close>

lemma find_terminated_some:
  "(\<forall>p\<in>set ps. app_sessions a p \<noteq> None) \<Longrightarrow>
   \<exists>r. find_terminated a ps i = Some r \<and>
     (\<forall>j p. r = Some (j, p) \<longrightarrow> i \<le> j \<and> j - i < length ps \<and> ps ! (j - i) = p)"
proof (induction ps arbitrary: i)
  case (Cons p ps)
  then obtain s where s: "app_sessions a p = Some s" by auto
  show ?case
  proof (cases "terminateFlag s")
    case False
    have "\<forall>p\<in>set ps. app_sessions a p \<noteq> None" using Cons.prems by simp
    from Cons.IH[OF this, of "Suc i"] obtain r where r: "find_terminated a ps (Suc i) = Some r"
      "\<forall>j p. r = Some (j, p) \<longrightarrow> Suc i \<le> j \<and> j - Suc i < length ps \<and> ps ! (j - Suc i) = p"
      by blast
    have "i \<le> j \<and> j - i < length (p # ps) \<and> (p # ps) ! (j - i) = q" if "r = Some (j, q)" for j q
    proof -
      have h: "Suc i \<le> j" "j - Suc i < length ps" "ps ! (j - Suc i) = q" using r(2) that by auto
      then have "j - i = Suc (j - Suc i)" by arith
      then show ?thesis using h by simp
    qed
    then show ?thesis using s False r(1) by auto
  qed (use s in auto)
qed simp

lemma drop_terminated_ok:
  assumes P: "ports_ok P" and O: "app_ok {} a"
  shows "\<exists>a'. drop_terminated P a = Some (STATUS_SUCCESS, a') \<and> app_ok {} a'"
proof -
  have "\<forall>p\<in>set (listed a). app_sessions a p \<noteq> None" using O by (force simp: app_ok_def)
  from find_terminated_some[OF this, of 0] obtain r where r: "find_terminated a (listed a) 0 = Some r"
    "\<forall>j p. r = Some (j, p) \<longrightarrow> j < length (listed a) \<and> listed a ! j = p" by auto
  show ?thesis
  proof (cases r)
    case None
    then show ?thesis using r(1) O by (simp add: drop_terminated_def listed_def)
  next
    case (Some jp)
    obtain j p where jp: "jp = (j, p)" by fastforce
    have j: "j < length (listed a)" "listed a ! j = p" using r(2) Some jp by auto
    then have p: "p \<in> set (listed a)" by auto
    note c = count_less[OF O p]
    obtain s where s: "app_sessions a p = Some s" using p O by (force simp: app_ok_def)
    let ?l = "shift_down j (unat (streamingSessionCount a) - 1) (webrtcSessionList a)"
    have jn: "j < unat (streamingSessionCount a)" "webrtcSessionList a ! j = p" using j c(3) by (auto simp: listed_def)
    have m: "mset (take (unat (streamingSessionCount a - 1)) ?l) = mset (listed a) - {#p#}"
      using shift_out_list[OF jn(1) c(3)] jn(2) c(2) by (simp add: listed_def)
    have n: "unat (streamingSessionCount a - 1) \<le> length ?l" using c by (simp add: shift_down_length)
    obtain t where t: "hashTableRemove (pRtcPeerConnectionForRemoteClient a) (peer_key s) = (STATUS_SUCCESS, t)"
      "app_ok {p} (a\<lparr>pRtcPeerConnectionForRemoteClient := t, webrtcSessionList := ?l, streamingSessionCount := streamingSessionCount a - 1\<rparr>)"
      using unlist_ok[OF O p s _ n m] by (auto simp: shift_down_length)
    let ?a = "a\<lparr>pRtcPeerConnectionForRemoteClient := t, webrtcSessionList := ?l, streamingSessionCount := streamingSessionCount a - 1\<rparr>"
    have e: "shift_out j (a\<lparr>pRtcPeerConnectionForRemoteClient := t\<rparr>) = ?a" by (simp add: shift_out_def)
    obtain a2 where "freeAppWebRTCSession P p ?a = Some (STATUS_SUCCESS, a2)" "app_ok {} a2"
      using free_session_ok[OF P t(2), of p] by auto
    then show ?thesis using r(1) Some jp s t(1) e by (simp add: drop_terminated_def listed_def peer_key_def)
  qed
qed

lemma expire_loop_ok:
  "app_ok {} a \<Longrightarrow> n \<le> length (pPendingSignalingMessageForRemoteClient a) \<Longrightarrow>
   \<exists>st a'. expire_loop n now a = Some (st, a') \<and> app_ok {} a'"
proof (induction n arbitrary: a)
  case (Suc n)
  then obtain q qs where pd: "pPendingSignalingMessageForRemoteClient a = q # qs" by (cases "pPendingSignalingMessageForRemoteClient a") auto
  have Q: "queues_ok a" using Suc.prems(1) by (simp add: app_ok_def)
  let ?a1 = "(app_free 1 a)\<lparr>pPendingSignalingMessageForRemoteClient := qs\<rparr>"
  have O0: "app_ok {} (app_free 1 a)" by (rule frame_ok[OF frame_upd(2) Suc.prems(1)])
  have O1: "app_ok {} ?a1"
    using O0 pd by (auto simp: app_ok_def list_ok_def table_ok_def queues_ok_def places_ok_def listed_def)
  obtain s where s: "app_queues a q = Some s" using Q pd by (auto simp: queues_ok_def)
  have q1: "q \<notin> set (pPendingSignalingMessageForRemoteClient ?a1)" "q \<in> dom (app_queues ?a1)" using Q pd s by (auto simp: queues_ok_def)
  show ?case
  proof (cases "createTime s + SAMPLE_PENDING_MESSAGE_CLEANUP_DURATION < now")
    case True
    obtain a2 where a2: "freeMessageQueue q ?a1 = Some (STATUS_SUCCESS, a2)" "app_ok {} a2" "frame ?a1 (a2\<lparr>app_queues := app_queues ?a1\<rparr>)"
      using free_queue_ok[OF O1 q1(1)] q1(2) by blast
    have "pPendingSignalingMessageForRemoteClient a2 = qs" using a2(3) by (simp add: frame_def)
    then obtain st a3 where "expire_loop n now a2 = Some (st, a3)" "app_ok {} a3" using Suc.IH[OF a2(2)] Suc.prems(2) pd by auto
    then show ?thesis using pd s True a2(1) by (simp add: Let_def del: One_nat_def)
  next
    case False
    obtain st a2 where e: "pending_enqueue q ?a1 = (st, a2)" by fastforce
    obtain ok a2' where al: "app_calloc ?a1 = (ok, a2')" by fastforce
    have f: "frame ?a1 a2'" using frame_calloc[OF al] by blast
    have O2': "app_ok {} a2'" by (rule frame_ok[OF f O1])
    show ?thesis
    proof (cases ok)
      case no: False
      then have "st \<noteq> STATUS_SUCCESS" "a2 = a2'" using e al by (auto simp: pending_enqueue_def status_defs)
      then show ?thesis using pd s False e O2' by (simp add: Let_def del: One_nat_def)
    next
      case True
      then have st: "st = STATUS_SUCCESS" and a2: "a2 = a2'\<lparr>pPendingSignalingMessageForRemoteClient := qs @ [q]\<rparr>"
        using e al f by (auto simp: pending_enqueue_def frame_def)
      have g: "app_queues a2 = app_queues a" "pPendingSignalingMessageForRemoteClient a2 = qs @ [q]"
        using f by (simp_all add: a2 frame_def)
      have "set (qs @ [q]) = set (pPendingSignalingMessageForRemoteClient a)" using pd by auto
      then have "queues_ok a2" using Q pd unfolding queues_ok_def g by auto
      then have O2: "app_ok {} a2"
        using O2' by (auto simp: a2 app_ok_def list_ok_def table_ok_def places_ok_def listed_def)
      obtain st' a3 where "expire_loop n now a2 = Some (st', a3)" "app_ok {} a3"
        using Suc.IH[OF O2] Suc.prems(2) pd g by auto
      then show ?thesis using pd s False e st by (simp add: Let_def del: One_nat_def)
    qed
  qed
qed simp

lemma reconnect_step_ok:
  assumes P: "ports_ok P" and E: "keeps E" and O: "app_ok {} a"
  shows "app_ok {} (snd (snd (reconnect_step P E r a)))"
proof -
  have f: "app_ok {} (a\<lparr>reconnectInProgress := b\<rparr>)" if "app_ok {} a" for a b
    using frame_ok[OF _ that] by (simp add: frame_def option.rel_refl)
  have e: "app_ok {} (E a)" if "app_ok {} a" for a using E that by (simp add: keeps_def)
  have d: "app_ok {} (snd (sig_disconnect P a))" "app_ok {} (snd (sig_connect P a))" if "app_ok {} a" for a
    using quiet_ok[OF _ that] P by (simp_all add: ports_ok_def)
  have re: "app_ok {} (snd (snd (reconnect P E now r a)))" if "app_ok {} a" for now r a
    using that by (simp add: reconnect_def Let_def case_prod_beta f e d)
  have ch: "app_ok {} (snd (check_connected P now r a))" if "app_ok {} a" for now r a
  proof (cases "sig_get_state P")
    case (Some g)
    then have "app_ok {} (snd (g a))" using quiet_ok[OF _ that, of "snd (g a)"] P by (simp add: ports_ok_def)
    then show ?thesis using Some that frame_ok[OF frame_upd(5)]
      by (auto simp: check_connected_def case_prod_beta)
  qed (use that in \<open>simp add: check_connected_def\<close>)
  show ?thesis using O by (simp add: reconnect_step_def Let_def case_prod_beta re ch)
qed

lemma cleanup_pass_ok:
  assumes P: "ports_ok P" and E: "keeps E" and O: "app_ok {} a"
  shows "\<exists>e r' a'. cleanup_pass P E so r a = Some (e, r', a') \<and> app_ok {} a' \<and> (e = Wait_for_next \<or> e = Leave_loop STATUS_SUCCESS)"
proof -
  obtain a1 where a1: "drop_terminated P a = Some (STATUS_SUCCESS, a1)" "app_ok {} a1" using drop_terminated_ok[OF P O] by blast
  obtain lv r1 a2 where a2: "reconnect_step P E r a1 = (lv, r1, a2)" by (metis prod.exhaust)
  have O2: "app_ok {} a2" using reconnect_step_ok[OF P E a1(2), of r] a2 by simp
  obtain st a3 where a3: "(if so then Some (STATUS_SUCCESS, a2) else removeExpiredMessageQueues P a2) = Some (st, a3)" "app_ok {} a3"
    using expire_loop_ok[OF O2 order_refl, of "GETTIME P a2"] O2 unfolding removeExpiredMessageQueues_def by (metis (full_types))
  show ?thesis
  proof (cases lv)
    case True
    then show ?thesis using a1(1) a2 O2 by (simp add: cleanup_pass_def)
  next
    case False
    then show ?thesis using a1(1) a2 a3 by (auto simp: cleanup_pass_def)
  qed
qed

end
