(* ===== verification/App_Life.thy ===== *)
theory App_Life
  imports App_Safe
begin

text \<open>
  The remaining operations: the closing of all sessions, an offer of our own, the callbacks, the
  users' calls, and the teardown of the context.
\<close>

section \<open>Closing all sessions\<close>

lemma mark_all_ok:
  "\<forall>p\<in>set ps. p \<noteq> 0 \<longrightarrow> app_sessions a p \<noteq> None \<Longrightarrow> \<exists>n a'. mark_all ps a = Some (n, a') \<and> frame a a'"
proof (induction ps arbitrary: a)
  case (Cons p ps)
  show ?case
  proof (cases "p = 0")
    case True
    then show ?thesis using Cons by simp
  next
    case False
    then obtain s where s: "app_sessions a p = Some s" using Cons.prems by auto
    show ?thesis
    proof (cases "terminateFlag s")
      case True
      then show ?thesis using Cons False s by simp
    next
      case fresh: False
      let ?a1 = "put_session p (s\<lparr>terminateFlag := True\<rparr>) a"
      have f: "frame a ?a1" using s by (simp add: frame_def same_session_def option.rel_refl)
      have "\<forall>q\<in>set ps. q \<noteq> 0 \<longrightarrow> app_sessions ?a1 q \<noteq> None" using Cons.prems by simp
      from Cons.IH[OF this] obtain n a2 where "mark_all ps ?a1 = Some (n, a2)" "frame ?a1 a2" by blast
      then show ?thesis using False s fresh frame_trans[OF f] by auto
    qed
  qed
qed simp

lemma drain_wait_ok: "keeps E \<Longrightarrow> app_ok {} a \<Longrightarrow> app_ok {} (drain_wait E n a)"
  by (induction n arbitrary: a) (auto simp: keeps_def)

lemma reconnect_wait_ok: "keeps E \<Longrightarrow> app_ok {} a \<Longrightarrow> app_ok {} (reconnect_wait E n a)"
  by (induction n arbitrary: a) (auto simp: keeps_def)

lemma listed_sessions: "app_ok X a \<Longrightarrow> p \<in> set (listed a) \<Longrightarrow> \<exists>s. app_sessions a p = Some s"
  by (auto simp: app_ok_def)

lemma close_all_ok:
  assumes "keeps E" "app_ok {} a"
  shows "\<exists>a'. app_webrtc_close_all_sessions E a = Some (WEBRTC_STATUS_SUCCESS, a') \<and> app_ok {} a'"
proof -
  have "\<forall>p\<in>set (listed a). p \<noteq> 0 \<longrightarrow> app_sessions a p \<noteq> None" using listed_sessions[OF assms(2)] by auto
  from mark_all_ok[OF this] obtain n a1 where a1: "mark_all (listed a) a = Some (n, a1)" "frame a a1" by blast
  have "app_ok {} a1" by (rule frame_ok[OF a1(2) assms(2)])
  then show ?thesis using a1(1) drain_wait_ok[OF assms(1)]
    by (auto simp: app_webrtc_close_all_sessions_def listed_def)
qed

section \<open>An offer of our own\<close>

lemma put_same_ok:
  assumes "app_ok X a" "app_sessions a p = Some s" "peerId s' = peerId s"
  shows "app_ok X (put_session p s' a)"
proof -
  have k: "peer_key s' = peer_key s" using assms(3) by (simp add: peer_key_def)
  have l: "listed (put_session p s' a) = listed a" by (simp add: listed_def)
  have "table_ok (put_session p s' a)"
    using assms(1,2) unfolding app_ok_def table_ok_def l by (simp add: k)
  then show ?thesis using assms(1,2) by (auto simp: app_ok_def list_ok_def queues_ok_def places_ok_def l)
qed

lemma event_ok: "app_ok X a \<Longrightarrow> app_ok X (raiseEvent i st q m a)" by (rule frame_ok[OF frame_upd(6)])

lemma announce_ok:
  assumes U: "usable P" and C: "pc_set_callbacks P \<noteq> None" and O: "app_ok {} a" and s: "app_sessions a p = Some s"
  shows "\<exists>st a'. announce_offer P peer p a = Some (st, a') \<and> app_ok {} a'"
proof (cases "interface_session_handle s = 0")
  case False
  then show ?thesis using s event_ok[OF O] by (simp add: announce_offer_def)
next
  case True
  have P: "ports_ok P" using U by (simp add: usable_def)
  obtain st i a1 where a1: "interface_create P peer True a = Some ((st, i), a1)" "frame a a1" using interface_create_ok[OF U] by blast
  have O1: "app_ok {} a1" by (rule frame_ok[OF a1(2) O])
  obtain s1 where s1: "app_sessions a1 p = Some s1" using frame_session[OF a1(2) s] by blast
  obtain f where f: "pc_set_callbacks P = Some f" using C by blast
  let ?a = "put_session p (s1\<lparr>interface_session_handle := i\<rparr>) a1"
  obtain st1 a2 where a2: "f i p ?a = (st1, a2)" by fastforce
  have "quiet ?a a2" using P f a2 unfolding ports_ok_def by (metis snd_conv)
  then have "app_ok {} a2" using quiet_ok put_same_ok[OF O1 s1] by fastforce
  then show ?thesis using True s a1(1) s1 f a2 O1 event_ok
    by (cases "st = WEBRTC_STATUS_SUCCESS"; cases "st1 = WEBRTC_STATUS_SUCCESS") (simp_all add: announce_offer_def)
qed

lemma publish_append: "publish k p (list_append p a) = map_prod id (list_append p) (publish k p a)"
  by (simp add: publish_def list_append_def split: prod.splits)

lemma create_for_trigger_ok:
  assumes U: "usable P" and O: "app_ok {} a" and t: "table_of (pRtcPeerConnectionForRemoteClient a) k = None"
    and k: "k = COMPUTE_PEER_HASH peer" and l: "length peer \<le> APP_WEBRTC_MAX_SIGNALING_CLIENT_ID_LEN"
  shows "\<exists>st p a'. create_for_trigger P k peer a = Some (st, p, a') \<and>
    (if st = STATUS_SUCCESS then app_ok {} a' \<and> app_sessions a' p \<noteq> None else st = STATUS_NOT_ENOUGH_MEMORY \<or> app_ok {} a')"
proof (cases "unat (streamingSessionCount a) < length (webrtcSessionList a) \<and> g_kvs_webrtc_client a")
  case False
  then show ?thesis using O by (auto simp: create_for_trigger_def status_defs)
next
  case room: True
  have P: "ports_ok P" using U by (simp add: usable_def)
  obtain st0 a1 where a1: "app_webrtc_trigger_progressive_ice P True a = (st0, a1)" by fastforce
  have q1: "frame a a1" using quiet_frame[OF progressive_quiet[OF P, of a True]] a1 by simp
  obtain st i a2 where a2: "interface_create P peer True a1 = Some ((st, i), a2)" "frame a1 a2" using interface_create_ok[OF U] by blast
  have f2: "frame a a2" by (rule frame_trans[OF q1 a2(2)])
  have O2: "app_ok {} a2" by (rule frame_ok[OF f2 O])
  show ?thesis
  proof (cases "st = WEBRTC_STATUS_SUCCESS")
    case False
    then show ?thesis using room a1 a2(1) O2 by (simp add: create_for_trigger_def status_defs)
  next
    case S: True
    obtain p a3 where a3: "new_session P peer i a2 = (p, a3)" by fastforce
    note ns = new_session_ok[OF O2 a3]
    show ?thesis
    proof (cases "p = 0")
      case True
      then show ?thesis using room a1 a2(1) S a3 by (simp add: create_for_trigger_def status_defs)
    next
      case False
      then have n: "app_ok {p} a3" "table_of (pRtcPeerConnectionForRemoteClient a3) k = None"
        "webrtcSessionList a3 = webrtcSessionList a" "streamingSessionCount a3 = streamingSessionCount a"
        using ns t f2 by (auto simp: frame_def)
      obtain s where s: "app_sessions a3 p = Some s" "peerId s = peer" using ns False by auto
      obtain a4 where a4: "wire_callbacks P p a3 = Some a4" "quiet a3 a4" using wire_ok[OF P s(1)] by blast
      have f4: "frame a3 a4" using quiet_frame[OF a4(2)] by simp
      obtain s4 where s4: "app_sessions a4 p = Some s4" "same_session s s4" using frame_session[OF f4 s(1)] by blast
      have k4: "peer_key s4 = k" using s4(2) s(2) k by (simp add: same_session_def peer_key_def)
      have O4: "app_ok {p} a4" by (rule frame_ok[OF f4 n(1)])
      have t4: "table_of (pRtcPeerConnectionForRemoteClient a4) k = None" "unat (streamingSessionCount a4) < length (webrtcSessionList a4)"
        using n f4 room by (simp_all add: frame_def)
      obtain st5 a5 where a5: "publish k p a4 = (st5, a5)" by fastforce
      have r: "create_for_trigger P k peer a = Some (st5, p, list_append p a5)"
        using room a1 a2(1) S a3 False a4(1) l publish_append[of k p a4] a5
        by (simp add: create_for_trigger_def strcpy_into_def)
      note pb = publish_ok[OF O4 t4(1) a5]
      show ?thesis
      proof (cases "st5 = STATUS_SUCCESS")
        case False
        then show ?thesis using r pb by auto
      next
        case True
        have "app_ok {} (list_append p a5)" using enlist_ok[OF O4 _ s4(1), unfolded k4, OF _ t4 a5] True by simp
        moreover have "app_sessions (list_append p a5) p \<noteq> None" using pb s4(1) by (simp add: list_append_def)
        ultimately show ?thesis using r True by simp
      qed
    qed
  qed
qed

lemma trigger_ok:
  assumes U: "usable P" and C: "pc_set_callbacks P \<noteq> None" and E: "\<And>a. quiet a (E a)" and O: "app_ok {} a"
    and l: "length peer \<le> APP_WEBRTC_MAX_SIGNALING_CLIENT_ID_LEN"
  shows "\<exists>st a'. app_webrtc_trigger_offer P E (Some peer) a = Some (st, a') \<and> (st = STATUS_NOT_ENOUGH_MEMORY \<or> app_ok {} a')"
proof (cases "table_of (pRtcPeerConnectionForRemoteClient a) (COMPUTE_PEER_HASH peer)")
  case (Some p)
  then obtain s where s: "p \<noteq> 0" "app_sessions a p = Some s" using key_handle[OF O] by blast
  have f: "frame a (E a)" using quiet_frame[OF E] by blast
  obtain s' where "app_sessions (E a) p = Some s'" using frame_session[OF f s(2)] by blast
  then obtain st a' where "announce_offer P peer p (E a) = Some (st, a')" "app_ok {} a'"
    using announce_ok[OF U C frame_ok[OF f O]] by blast
  then show ?thesis using Some s by (simp add: app_webrtc_trigger_offer_def lookup_session_table)
next
  case None
  obtain st p a1 where c: "create_for_trigger P (COMPUTE_PEER_HASH peer) peer a = Some (st, p, a1)"
    "if st = STATUS_SUCCESS then app_ok {} a1 \<and> app_sessions a1 p \<noteq> None else st = STATUS_NOT_ENOUGH_MEMORY \<or> app_ok {} a1"
    using create_for_trigger_ok[OF U O None refl l] by blast
  show ?thesis
  proof (cases "st = STATUS_SUCCESS")
    case False
    then show ?thesis using None c by (simp add: app_webrtc_trigger_offer_def lookup_session_table)
  next
    case True
    then obtain s where s: "app_ok {} a1" "app_sessions a1 p = Some s" using c(2) by auto
    have f: "frame a1 (E a1)" using quiet_frame[OF E] by blast
    obtain s' where "app_sessions (E a1) p = Some s'" using frame_session[OF f s(2)] by blast
    then obtain st' a' where "announce_offer P peer p (E a1) = Some (st', a')" "app_ok {} a'"
      using announce_ok[OF U C frame_ok[OF f s(1)]] by blast
    then show ?thesis using None c(1) True by (simp add: app_webrtc_trigger_offer_def lookup_session_table)
  qed
qed

section \<open>The end of the application\<close>

text \<open>The users' calls on sessions, the callbacks, and the teardown: no freed object is used, and at the end no session is left.\<close>

section \<open>Data channels and callbacks\<close>

lemma find_peer_ok:
  "\<forall>p\<in>set ps. p \<noteq> 0 \<longrightarrow> app_sessions a p \<noteq> None \<Longrightarrow>
   \<exists>p. find_peer a peer ps = Some p \<and> (p \<noteq> 0 \<longrightarrow> (\<exists>s. app_sessions a p = Some s \<and> peerId s = peer))"
proof (induction ps)
  case (Cons p ps)
  show ?case
  proof (cases "p = 0")
    case False
    then obtain s where s: "app_sessions a p = Some s" using Cons.prems by auto
    show ?thesis
    proof (cases "peerId s = peer")
      case True
      then show ?thesis using False s by simp
    next
      case no: False
      have "find_peer a peer (p # ps) = find_peer a peer ps" using False s no by simp
      then show ?thesis using Cons.IH Cons.prems by simp
    qed
  qed (use Cons in simp)
qed simp

lemma find_listed:
  assumes "app_ok {} a"
  shows "\<exists>p. find_peer a peer (listed a) = Some p \<and> (p \<noteq> 0 \<longrightarrow> (\<exists>s. app_sessions a p = Some s \<and> peerId s = peer))"
  by (rule find_peer_ok) (use listed_sessions[OF assms] in auto)

lemma set_callbacks_ok:
  assumes P: "ports_ok P" and O: "app_ok {} a"
  shows "\<exists>st a'. app_webrtc_set_data_channel_callbacks P (Some peer) cb d (e, Some a) = Some (st, Some (cb, d), Some a') \<and> app_ok {} a'"
proof -
  obtain p where p: "find_peer a peer (listed a) = Some p" "p \<noteq> 0 \<longrightarrow> (\<exists>s. app_sessions a p = Some s)" using find_listed[OF O] by blast
  show ?thesis
  proof (cases "p = 0 \<or> set_data_channel_callbacks P = None")
    case True
    then show ?thesis using p(1) O by (cases "p = 0") (auto simp: app_webrtc_set_data_channel_callbacks_def)
  next
    case False
    then obtain f s where f: "set_data_channel_callbacks P = Some f" "app_sessions a p = Some s" using p by auto
    obtain st a1 where r: "f (interface_session_handle s) cb a = (st, a1)" by fastforce
    have "quiet a a1" using P f(1) r unfolding ports_ok_def by (metis snd_conv)
    then have a1: "frame a a1" "app_ok {} a1" using quiet_frame quiet_ok O by blast+
    obtain s1 where s1: "app_sessions a1 p = Some s1" using frame_session[OF a1(1) f(2)] by blast
    have "app_ok {} (put_session p (s1\<lparr>shutdownCallbackCustomData := d\<rparr>) a1)" by (rule put_same_ok[OF a1(2) s1]) simp
    then show ?thesis using False p(1) f r s1 a1(2) by (simp add: app_webrtc_set_data_channel_callbacks_def Let_def)
  qed
qed

lemma send_data_ok:
  assumes P: "ports_ok P" and O: "app_ok {} a"
  shows "\<exists>st a'. app_webrtc_send_data_channel_message P peer d b bytes (Some a) = Some (st, Some a') \<and> app_ok {} a'"
proof (cases "\<exists>q xs. peer = Some q \<and> bytes = Some xs \<and> xs \<noteq> []")
  case False
  then show ?thesis using O by (auto simp: app_webrtc_send_data_channel_message_def split: option.splits)
next
  case True
  then obtain q xs where q: "peer = Some q" "bytes = Some xs" "xs \<noteq> []" by blast
  obtain p where p: "find_peer a q (listed a) = Some p" "p \<noteq> 0 \<longrightarrow> (\<exists>s. app_sessions a p = Some s)" using find_listed[OF O] by blast
  show ?thesis
  proof (cases "p = 0 \<or> send_data_channel_message P = None")
    case True
    then show ?thesis using p(1) q O by (cases "p = 0") (auto simp: app_webrtc_send_data_channel_message_def)
  next
    case False
    then obtain f s where f: "send_data_channel_message P = Some f" "app_sessions a p = Some s" using p by auto
    obtain st a1 where r: "f (interface_session_handle s) d b xs a = (st, a1)" by fastforce
    have "quiet a a1" using P f(1) r unfolding ports_ok_def by (metis snd_conv)
    then have "app_ok {} a1" using quiet_ok O by blast
    then show ?thesis using False p(1) q f r by (simp add: app_webrtc_send_data_channel_message_def)
  qed
qed

lemma state_changed_defined: "app_sessions a p = Some s \<Longrightarrow> \<exists>a'. session_state_changed p st a = Some a'"
  by (cases st) (auto simp: session_state_changed_def Let_def)

lemma peer_state_ok:
  assumes O: "app_ok {} a" and s: "app_sessions a p = Some s" "looks_like_session (peerId s)"
  shows "\<exists>a'. peerConnectionStateChangedWrapper (Session_data p) state a = Some (WEBRTC_STATUS_SUCCESS, a') \<and> app_ok {} a'"
proof -
  obtain a' where a': "session_state_changed p state a = Some a'" using state_changed_defined[OF s(1)] by blast
  have "frame a a'" using session_state_frame[OF a'] by simp
  then have "app_ok {} a'" by (rule frame_ok[OF _ O])
  then show ?thesis using s a' by (simp add: peerConnectionStateChangedWrapper_def text_at_peerId_def)
qed

lemma outbound_ok:
  assumes "ports_ok P" "app_ok {} a"
  shows "app_ok {} (snd (peerOutboundMessageWrapper P msg a))"
proof -
  have "app_ok {} (snd (sig_send_message P m a))" for m
    using quiet_ok[OF _ assms(2)] assms(1) by (auto simp: ports_ok_def)
  then show ?thesis using assms(2)
    by (auto simp: peerOutboundMessageWrapper_def Let_def case_prod_beta intro: event_ok split: option.splits)
qed

lemma signaling_state_ok: "app_ok {} a \<Longrightarrow> app_ok {} (snd (signalingClientStateChangedWrapper state a))"
  by (cases state) (auto simp: signalingClientStateChangedWrapper_def intro: event_ok frame_ok[OF frame_upd(5)])

lemma signaling_error_ok: "app_ok {} a \<Longrightarrow> app_ok {} (snd (signalingClientErrorWrapper pr st msg a))"
  by (auto simp: signalingClientErrorWrapper_def signalingClientError_def Let_def case_prod_beta
           intro: event_ok frame_ok[OF frame_upd(5)])

section \<open>The teardown\<close>

lemma detach_ok:
  assumes "app_ok {} a" "ht_inv t" "table_of t = Map.empty"
  shows "\<exists>a'. detach_sessions (a\<lparr>pRtcPeerConnectionForRemoteClient := t\<rparr>) = (listed a, a') \<and> app_ok (set (listed a)) a' \<and>
    listed a' = [] \<and> streamingSessionCount a' = 0 \<and> app_queues a' = app_queues a \<and>
    pPendingSignalingMessageForRemoteClient a' = pPendingSignalingMessageForRemoteClient a"
proof -
  let ?n = "unat (streamingSessionCount a)"
  have n: "?n \<le> length (webrtcSessionList a)" using assms(1) by (simp add: app_ok_def list_ok_def)
  let ?a = "a\<lparr>pRtcPeerConnectionForRemoteClient := t, webrtcSessionList := replicate ?n 0 @ drop ?n (webrtcSessionList a), streamingSessionCount := 0\<rparr>"
  have l: "listed ?a = []" by (simp add: listed_def)
  have "list_ok ?a" using assms(1) n by (simp add: app_ok_def list_ok_def listed_def)
  moreover have "table_ok ?a" using assms(2,3) l by (simp add: table_ok_def)
  moreover have "queues_ok ?a" "places_ok ?a" "dom (app_sessions ?a) = set (listed a)"
    using assms(1) by (simp_all add: app_ok_def queues_ok_def places_ok_def)
  ultimately have "app_ok (set (listed a)) ?a" by (simp add: app_ok_def l)
  then show ?thesis using n l by (simp add: detach_sessions_def Let_def listed_def min_absorb1)
qed

lemma free_sessions_ok:
  "ports_ok P \<Longrightarrow> app_ok (set ps) a \<Longrightarrow> distinct ps \<Longrightarrow> \<exists>a'. free_sessions P ps a = Some a' \<and> app_ok {} a' \<and>
     listed a' = listed a \<and> streamingSessionCount a' = streamingSessionCount a \<and>
     app_queues a' = app_queues a \<and> pPendingSignalingMessageForRemoteClient a' = pPendingSignalingMessageForRemoteClient a"
proof (induction ps arbitrary: a)
  case (Cons p ps)
  have p0: "p \<noteq> 0" using Cons.prems(2) by (force simp: app_ok_def places_ok_def)
  have pX: "p \<in> set (p # ps)" by simp
  obtain a1 where a1: "freeAppWebRTCSession P p a = Some (STATUS_SUCCESS, a1)" "others_same p a a1" "app_ok (set (p # ps) - {p}) a1"
    using free_session_ok[OF Cons.prems(1,2) pX] by blast
  have "set (p # ps) - {p} = set ps" using Cons.prems(3) by auto
  then have "app_ok (set ps) a1" "distinct ps" using a1(3) Cons.prems(3) by simp_all
  from Cons.IH[OF Cons.prems(1) this] obtain a2 where a2: "free_sessions P ps a1 = Some a2" "app_ok {} a2"
    "listed a2 = listed a1" "streamingSessionCount a2 = streamingSessionCount a1"
    "app_queues a2 = app_queues a1" "pPendingSignalingMessageForRemoteClient a2 = pPendingSignalingMessageForRemoteClient a1"
    by blast
  then show ?case using a1(1) p0 others_same_fields[OF a1(2)] by (simp add: listed_def)
qed simp

lemma free_all_ok:
  assumes P: "ports_ok P" and O: "app_ok {} a"
  shows "\<exists>a'. freeAllAppWebRTCSessions P a = Some a' \<and> app_ok {} a' \<and> listed a' = [] \<and> streamingSessionCount a' = 0"
proof -
  have I: "ht_inv (pRtcPeerConnectionForRemoteClient a)" using O by (simp add: app_ok_def table_ok_def)
  let ?t = "snd (hashTableClear (pRtcPeerConnectionForRemoteClient a))"
  obtain a1 where a1: "detach_sessions (a\<lparr>pRtcPeerConnectionForRemoteClient := ?t\<rparr>) = (listed a, a1)" "app_ok (set (listed a)) a1"
    "listed a1 = []" "streamingSessionCount a1 = 0"
    using detach_ok[OF O, of ?t] clear_table[OF I] by auto
  have "distinct (listed a)" using O by (simp add: app_ok_def list_ok_def)
  from free_sessions_ok[OF P a1(2) this] show ?thesis using a1 by (auto simp: freeAllAppWebRTCSessions_def)
qed

lemma free_queues_ok:
  "distinct qs \<Longrightarrow> 0 \<notin> set qs \<Longrightarrow> \<forall>q\<in>set qs. app_queues a q \<noteq> None \<Longrightarrow>
   \<exists>a'. free_queues qs a = Some a' \<and> (\<forall>q\<in>set qs. app_queues a' q = None) \<and> (\<forall>q. q \<notin> set qs \<longrightarrow> app_queues a' q = app_queues a q) \<and>
     frame a (a'\<lparr>app_queues := app_queues a\<rparr>)"
proof (induction qs arbitrary: a)
  case (Cons q qs)
  then obtain s where s: "app_queues a q = Some s" "q \<noteq> 0" by auto
  let ?f = "case messageQueue s of None \<Rightarrow> a | Some ms \<Rightarrow> app_free (2 * length ms + 1) a"
  have f: "app_queues ?f = app_queues a" "frame a ?f" by (auto split: option.splits)
  obtain a1 where a1: "a1 = (app_free 1 ?f)\<lparr>app_queues := (app_queues ?f)(q := None)\<rparr>" by simp
  have r: "freeMessageQueue q a = Some (STATUS_SUCCESS, a1)" using s by (simp add: freeMessageQueue_def Let_def a1 del: One_nat_def)
  have q1: "app_queues a1 = (app_queues a)(q := None)" by (simp add: a1 f(1))
  have f1: "frame a (a1\<lparr>app_queues := app_queues a\<rparr>)" using f by (simp add: a1 frame_def)
  have h: "distinct qs" "0 \<notin> set qs" "\<forall>q\<in>set qs. app_queues a1 q \<noteq> None" using Cons.prems q1 by auto
  from Cons.IH[OF h] obtain a2 where a2: "free_queues qs a1 = Some a2" "\<forall>q\<in>set qs. app_queues a2 q = None"
    "\<forall>q. q \<notin> set qs \<longrightarrow> app_queues a2 q = app_queues a1 q" "frame a1 (a2\<lparr>app_queues := app_queues a1\<rparr>)" by blast
  have "frame (a1\<lparr>app_queues := app_queues a\<rparr>) (a2\<lparr>app_queues := app_queues a\<rparr>)" using a2(4) by (simp add: frame_def)
  then have "frame a (a2\<lparr>app_queues := app_queues a\<rparr>)" by (rule frame_trans[OF f1])
  then show ?case using r a2(1-3) q1 Cons.prems(1) by (intro exI[of _ a2]) auto
qed simp

end
