(* ===== verification/App_Run.thy ===== *)
theory App_Run
  imports App_Life
begin

text \<open>
  The runs of the application: from a new context, any operations that \<open>allowed\<close> admits, in any order,
  until memory runs out for a waiting candidate or for our own offer (\<open>out_of_memory\<close>); after each
  operation, and wherever it gives the lock away, other tasks act. In every state that is reached the
  invariant holds, and every operation that is allowed there has a result.
\<close>

section \<open>The ends of a run\<close>

lemma new_table_ok:
  assumes "hashTableCreateWithParams bc bl h = Some (st, Some t, h')"
  shows "ht_inv t \<and> table_of t = Map.empty"
proof -
  have p: "0 < bc" "0 < bl" and t: "t = \<lparr>itemCount = 0, bucketCount = bc, bucketLength = bl, buckets = replicate (unat bc) \<lparr>hb_length = bl, entries = []\<rparr>\<rparr>"
    using assms by (auto simp: hashTableCreateWithParams_def MIN_HASH_BUCKET_COUNT_def word_less_nat_alt word_le_nat_alt split: prod.splits if_splits)
  have e: "table_of t = Map.empty"
  proof
    fix k
    have "bucket_index t k < unat bc" using index_less[of t k] p by (simp add: t)
    then show "table_of t k = None" by (simp add: table_of_def getHashBucket_def t)
  qed
  have "ht_inv t" unfolding ht_inv_def e using p by (simp add: bucket_ok_def t)
  then show ?thesis using e by simp
qed

lemma created_ok:
  assumes "createAppWebRTCContext P n tr tu lv cbs w h = Some (STATUS_SUCCESS, Some a, h')" "n < 2 ^ 26"
  shows "app_ok {} a \<and> listed a = []"
proof -
  obtain st t h0 h1 where "hashTableCreateWithParams SAMPLE_HASH_TABLE_BUCKET_COUNT SAMPLE_HASH_TABLE_BUCKET_LENGTH h0 = Some (st, Some t, h1)"
    and a: "a = \<lparr>app_world = w, app_heap = h1, app_brk = 0, app_sessions = Map.empty, app_queues = Map.empty,
      pRtcPeerConnectionForRemoteClient = t, webrtcSessionList = replicate n 0, streamingSessionCount = 0,
      pPendingSignalingMessageForRemoteClient = [], appTerminateFlag = False, recreate_signaling_client = False,
      reconnectInProgress = False, bridge_mode = (create_session P = None), app_settings = default_settings tr tu lv,
      g_kvs_webrtc_client = False, gSignalingClientData = False, gEventCallbacks = cbs, app_events = [], pc_log = []\<rparr>"
    using assms(1) by (auto simp: createAppWebRTCContext_def split: prod.splits if_splits option.splits)
  then have "ht_inv t" "table_of t = Map.empty" using new_table_ok by blast+
  then show ?thesis using assms(2) unfolding a
    by (simp add: app_ok_def list_ok_def table_ok_def queues_ok_def places_ok_def listed_def)
qed

lemma free_context_ok:
  assumes "app_ok {} a" "streamingSessionCount a = 0"
  shows "\<exists>a'. freeAppWebRTCContext P a = Some a' \<and> app_sessions a' = Map.empty \<and> streamingSessionCount a' = 0 \<and>
    pPendingSignalingMessageForRemoteClient a' = [] \<and>
    (\<forall>q\<in>set (pPendingSignalingMessageForRemoteClient a). app_queues a' q = None)"
proof -
  let ?qs = "pPendingSignalingMessageForRemoteClient a"
  have Q: "distinct ?qs" "0 \<notin> set ?qs" "\<forall>q\<in>set ?qs. app_queues a q \<noteq> None"
    using assms(1) by (force simp: app_ok_def queues_ok_def)+
  obtain a1 where a1: "free_queues ?qs a = Some a1" "\<forall>q\<in>set ?qs. app_queues a1 q = None"
    "frame a (a1\<lparr>app_queues := app_queues a\<rparr>)" using free_queues_ok[OF Q] by blast
  have "dom (app_sessions a) = {}" using assms by (simp add: app_ok_def listed_def)
  then have s: "app_sessions a1 = Map.empty" using frame_dom[OF a1(3)] by simp
  have c: "streamingSessionCount a1 = 0" using a1(3) assms(2) by (simp add: frame_def)
  show ?thesis using a1(1,2) s c by (simp add: freeAppWebRTCContext_def detach_sessions_def Let_def)
qed

text \<open>What the clients may do when they are freed.\<close>

definition frees_quietly :: "'w app_ports \<Rightarrow> bool" where
  "frees_quietly P \<longleftrightarrow> (\<forall>a. quiet a (snd (pc_free P a)) \<and> quiet a (snd (sig_free P a)))"

lemma quiet_all: "quiet a a' \<Longrightarrow> app_ok {} a \<Longrightarrow> streamingSessionCount a = n \<Longrightarrow> app_ok {} a' \<and> streamingSessionCount a' = n"
  using quiet_ok[of a a' "{}"] quiet_frame[of a a'] by (simp add: frame_def)

lemma frame_clients: "app_ok X a \<Longrightarrow> app_ok X (a\<lparr>g_kvs_webrtc_client := b, gSignalingClientData := c\<rparr>)"
  by (simp add: app_ok_def list_ok_def table_ok_def queues_ok_def places_ok_def listed_def)

lemma frame_kvs: "app_ok X (a\<lparr>g_kvs_webrtc_client := b\<rparr>) = app_ok X a"
  by (simp add: app_ok_def list_ok_def table_ok_def queues_ok_def places_ok_def listed_def)

lemma teardown_ok:
  assumes P: "ports_ok P" and F: "frees_quietly P" and E: "keeps E" and O: "app_ok {} a"
  shows "\<exists>a'. app_webrtc_teardown P E a = Some a' \<and> app_sessions a' = Map.empty \<and> streamingSessionCount a' = 0 \<and>
    pPendingSignalingMessageForRemoteClient a' = [] \<and> \<not> gSignalingClientData a'"
proof -
  let ?a1 = "reconnect_wait E (APP_WEBRTC_RECONNECT_DRAIN_TIMEOUT_MS div 20) (a\<lparr>appTerminateFlag := True\<rparr>)"
  have O1: "app_ok {} ?a1" by (rule reconnect_wait_ok[OF E frame_ok[OF frame_upd(4) O]])
  let ?a2 = "if gSignalingClientData ?a1 then snd (sig_disconnect P ?a1) else ?a1"
  have "quiet ?a1 (snd (sig_disconnect P ?a1))" using P by (simp add: ports_ok_def)
  then have "app_ok {} (snd (sig_disconnect P ?a1))" by (rule quiet_ok[OF _ O1])
  then have O2: "app_ok {} ?a2" using O1 by simp
  obtain a3 where a3: "freeAllAppWebRTCSessions P ?a2 = Some a3" "app_ok {} a3" "streamingSessionCount a3 = 0"
    using free_all_ok[OF P O2] by blast
  let ?a4 = "if g_kvs_webrtc_client a3 then (snd (pc_free P a3))\<lparr>g_kvs_webrtc_client := False\<rparr> else a3"
  have "app_ok {} (snd (pc_free P a3)) \<and> streamingSessionCount (snd (pc_free P a3)) = 0"
    by (rule quiet_all) (use F a3 in \<open>auto simp: frees_quietly_def\<close>)
  then have O4: "app_ok {} ?a4" "streamingSessionCount ?a4 = 0" using a3 by (simp_all add: frame_kvs)
  let ?a5 = "if gSignalingClientData ?a4 then snd (sig_free P ?a4) else ?a4"
  have "app_ok {} (snd (sig_free P ?a4)) \<and> streamingSessionCount (snd (sig_free P ?a4)) = 0"
    by (rule quiet_all[OF _ O4]) (use F in \<open>simp add: frees_quietly_def\<close>)
  then have O5: "app_ok {} ?a5" "streamingSessionCount ?a5 = 0" using O4 by simp_all
  obtain a6 where a6: "freeAppWebRTCContext P ?a5 = Some a6" "app_sessions a6 = Map.empty" "streamingSessionCount a6 = 0"
    "pPendingSignalingMessageForRemoteClient a6 = []" using free_context_ok[OF O5] by blast
  have "app_webrtc_teardown P E a = Some (a6\<lparr>gSignalingClientData := False\<rparr>)"
    using a3(1) a6(1) by (simp add: app_webrtc_teardown_def Let_def)
  then show ?thesis using a6 by simp
qed

section \<open>Operations\<close>

text \<open>
  \<open>E\<close> is what other tasks do where an operation waits or reconnects without the lock, and between two
  operations; \<open>Q\<close> what they do while \<open>app_webrtc_trigger_offer\<close> goes on without the lock and holds a session.
\<close>

datatype app_op =
    Receive webrtc_message | Peer_state uint64 webrtc_peer_state | Outbound "webrtc_message option"
  | Signaling_state webrtc_signaling_state | Signaling_error WEBRTC_STATUS string
  | Close_sessions | Offer_to string | Cleanup bool retry_state | Ice_servers bool
  | Channel_callbacks string uint64 uint64 | Channel_data "string option" uint64 bool "uint8 list option"
  | Settings app_settings | Clients bool bool | Around

fun run_op :: "'w app_ports \<Rightarrow> ('w app \<Rightarrow> 'w app) \<Rightarrow> ('w app \<Rightarrow> 'w app) \<Rightarrow> app_op \<Rightarrow> 'w app \<Rightarrow> 'w app option" where
  "run_op P E Q (Receive m) a = map_option snd (signalingMessageReceivedWrapper P (Some m) a)"
| "run_op P E Q (Peer_state p st) a = map_option snd (peerConnectionStateChangedWrapper (Session_data p) st a)"
| "run_op P E Q (Outbound m) a = Some (snd (peerOutboundMessageWrapper P m a))"
| "run_op P E Q (Signaling_state st) a = Some (snd (signalingClientStateChangedWrapper st a))"
| "run_op P E Q (Signaling_error st msg) a = Some (snd (signalingClientErrorWrapper (\<lambda>_ s. s) st msg a))"
| "run_op P E Q Close_sessions a = map_option snd (app_webrtc_close_all_sessions E a)"
| "run_op P E Q (Offer_to peer) a = map_option snd (app_webrtc_trigger_offer P Q (Some peer) a)"
| "run_op P E Q (Cleanup so r) a = map_option (\<lambda>x. snd (snd x)) (cleanup_pass P E so r a)"
| "run_op P E Q (Ice_servers turn) a = Some (snd (app_webrtc_trigger_progressive_ice P turn a))"
| "run_op P E Q (Channel_callbacks peer cb d) a =
     Option.bind (app_webrtc_set_data_channel_callbacks P (Some peer) cb d (None, Some a)) (\<lambda>r. snd (snd r))"
| "run_op P E Q (Channel_data peer d b bytes) a = Option.bind (app_webrtc_send_data_channel_message P peer d b bytes (Some a)) snd"
| "run_op P E Q (Settings s) a = Some (a\<lparr>app_settings := s\<rparr>)"
| "run_op P E Q (Clients pc sig) a = Some (a\<lparr>g_kvs_webrtc_client := pc, gSignalingClientData := sig\<rparr>)"
| "run_op P E Q Around a = Some (E a)"

text \<open>
  An answer needs a session in the list, the states of a peer connection come for a session that
  exists and whose peer has an identifier below 256 characters, and our own offers go to peers whose
  identifier fits.
\<close>

fun allowed :: "app_op \<Rightarrow> 'w app \<Rightarrow> bool" where
  "allowed (Receive m) a = (message_type m = WEBRTC_MESSAGE_TYPE_ANSWER \<longrightarrow> bridge_mode a \<or> streamingSessionCount a \<noteq> 0 \<or> webrtcSessionList a ! 0 = 0)"
| "allowed (Peer_state p st) a = (case app_sessions a p of None \<Rightarrow> False | Some s \<Rightarrow> looks_like_session (peerId s))"
| "allowed (Offer_to peer) a = (length peer \<le> APP_WEBRTC_MAX_SIGNALING_CLIENT_ID_LEN)"
| "allowed _ a = True"

definition with_peer :: "webrtc_message \<Rightarrow> webrtc_message" where
  "with_peer m = (if peer_client_id m = [] then m\<lparr>peer_client_id := ''default''\<rparr> else m)"

text \<open>The two operations that break the invariant when memory runs out.\<close>

fun out_of_memory :: "'w app_ports \<Rightarrow> ('w app \<Rightarrow> 'w app) \<Rightarrow> app_op \<Rightarrow> 'w app \<Rightarrow> bool" where
  "out_of_memory P Q (Receive m) a =
     (\<not> bridge_mode a \<and> message_type m = WEBRTC_MESSAGE_TYPE_ICE_CANDIDATE \<and>
      map_option fst (signalingMessageReceived P (with_peer m) a) = Some STATUS_NOT_ENOUGH_MEMORY)"
| "out_of_memory P Q (Offer_to peer) a =
     (map_option fst (app_webrtc_trigger_offer P Q (Some peer) a) = Some STATUS_NOT_ENOUGH_MEMORY)"
| "out_of_memory P Q _ a = False"

inductive app_reach :: "'w app_ports \<Rightarrow> ('w app \<Rightarrow> 'w app) \<Rightarrow> ('w app \<Rightarrow> 'w app) \<Rightarrow> 'w app \<Rightarrow> bool" for P E Q where
  reach_new: "createAppWebRTCContext P n tr tu lv cbs w h = Some (STATUS_SUCCESS, Some a, h') \<Longrightarrow> n < 2 ^ 26 \<Longrightarrow> app_reach P E Q a"
| reach_op: "app_reach P E Q a \<Longrightarrow> allowed op a \<Longrightarrow> \<not> out_of_memory P Q op a \<Longrightarrow> run_op P E Q op a = Some a' \<Longrightarrow> app_reach P E Q a'"

lemma receive_ok:
  assumes U: "usable P" and O: "app_ok {} a" and A: "allowed (Receive m) a"
  shows "\<exists>a'. run_op P E Q (Receive m) a = Some a' \<and> (out_of_memory P Q (Receive m) a \<or> app_ok {} a')"
proof (cases "bridge_mode a")
  case True
  obtain st a' where r: "pc_send P 0 m a = Some (st, a')" using pc_send_defined U by (metis usable_def)
  then have "app_ok {} a'" using pc_send_spec[OF _ r] U O frame_ok by (auto simp: usable_def)
  then show ?thesis using True r U by (simp add: signalingMessageReceivedWrapper_def usable_def)
next
  case False
  have ty: "message_type (with_peer m) = message_type m" by (simp add: with_peer_def)
  obtain st a' where r: "signalingMessageReceived P (with_peer m) a = Some (st, a')" "starved (with_peer m) st \<or> app_ok {} a'"
    using handler_ok[OF U O, of "with_peer m"] A False ty by auto
  then have "out_of_memory P Q (Receive m) a \<or> app_ok {} a'" using False ty by (auto simp: starved_def)
  moreover have "run_op P E Q (Receive m) a = Some a'"
    using r(1) False by (simp add: signalingMessageReceivedWrapper_def with_peer_def)
  ultimately show ?thesis by blast
qed

lemma run_ok:
  assumes U: "usable P" and C: "pc_set_callbacks P \<noteq> None" and E: "keeps E" and Q: "\<And>a. quiet a (Q a)" and O: "app_ok {} a" and A: "allowed op a"
  shows "\<exists>a'. run_op P E Q op a = Some a' \<and> (out_of_memory P Q op a \<or> app_ok {} a')"
proof -
  have P: "ports_ok P" using U by (simp add: usable_def)
  show ?thesis
  proof (cases op)
    case (Receive m)
    then show ?thesis using receive_ok[OF U O] A by blast
  next
    case (Peer_state p st)
    with A obtain s where "app_sessions a p = Some s" "looks_like_session (peerId s)" by (auto split: option.splits)
    from peer_state_ok[OF O this] show ?thesis using Peer_state by fastforce
  next
    case (Offer_to peer)
    then have "length peer \<le> APP_WEBRTC_MAX_SIGNALING_CLIENT_ID_LEN" using A by simp
    from trigger_ok[OF U C Q O this] show ?thesis using Offer_to by fastforce
  next
    case Close_sessions
    then show ?thesis using close_all_ok[OF E O] by fastforce
  next
    case (Cleanup so r)
    then show ?thesis using cleanup_pass_ok[OF P E O, of so r] by fastforce
  next
    case (Channel_callbacks peer cb d)
    then show ?thesis using set_callbacks_ok[OF P O, of peer cb d None] by fastforce
  next
    case (Channel_data peer d b bytes)
    then show ?thesis using send_data_ok[OF P O, of peer d b bytes] by fastforce
  next
    case (Settings s)
    then show ?thesis using O by (simp add: app_ok_def list_ok_def table_ok_def queues_ok_def places_ok_def listed_def)
  next
    case (Ice_servers turn)
    then show ?thesis using quiet_ok[OF progressive_quiet[OF P] O] by simp
  qed (use outbound_ok[OF P O] signaling_state_ok[OF O] signaling_error_ok[OF O] frame_clients[OF O] E O in \<open>simp_all add: keeps_def\<close>)
qed

lemma reach_ok:
  assumes U: "usable P" and C: "pc_set_callbacks P \<noteq> None" and E: "keeps E" and Q: "\<And>a. quiet a (Q a)" and R: "app_reach P E Q a"
  shows "app_ok {} a"
  using R
proof induction
  case (reach_new n tr tu lv cbs w h a h')
  then show ?case using created_ok[OF reach_new(1,2)] by simp
next
  case (reach_op a op a')
  then show ?case using run_ok[OF U C E Q] by fastforce
qed

section \<open>Reconnecting\<close>

text \<open>
  The growing delays of the reconnection, over a run of passes of the cleanup loop in which every
  attempt to connect fails at once. Between two passes the lock is free, so the passes are made at any
  states; \<open>E\<close> is what other tasks do while the lock is released inside a pass.
\<close>

definition attempts_now :: "'w app_ports \<Rightarrow> retry_state \<Rightarrow> 'w app \<Rightarrow> bool" where
  "attempts_now P r a \<longleftrightarrow> recreate_signaling_client a \<and> gSignalingClientData a \<and>
     should_retry (GETTIME P a) (retry_delay r) (check_timeout (GETTIME P a) r)"

fun attempt_times :: "'w app_ports \<Rightarrow> ('w app \<Rightarrow> 'w app) \<Rightarrow> retry_state \<Rightarrow> 'w app list \<Rightarrow> uint64 list" where
  "attempt_times P E r [] = []"
| "attempt_times P E r (a # as) =
     (if attempts_now P r a then [GETTIME P a] else []) @ attempt_times P E (fst (snd (reconnect_step P E r a))) as"

definition delay_after :: "nat \<Rightarrow> uint64" where
  "delay_after n = retryDelays ! min n 4"

lemma delays_length [simp]: "length retryDelays = 5" by (simp add: retryDelays_def)

lemma retry_delay_count: "retry_delay r = delay_after (unat (retryCount r))"
  by (simp add: retry_delay_def delay_after_def)

text \<open>An attempt that fails at once, while nobody asks the application to end.\<close>

definition goes_on :: "('w app \<Rightarrow> 'w app) \<Rightarrow> bool" where
  "goes_on f \<longleftrightarrow> (\<forall>b. appTerminateFlag (f b) = appTerminateFlag b)"

definition fails_at :: "'w app_ports \<Rightarrow> ('w app \<Rightarrow> 'w app) \<Rightarrow> 'w app \<Rightarrow> bool" where
  "fails_at P E a \<longleftrightarrow> recreate_signaling_client a \<and> gSignalingClientData a \<and> \<not> appTerminateFlag a \<and>
     goes_on E \<and> goes_on (\<lambda>b. snd (sig_disconnect P b)) \<and> goes_on (\<lambda>b. snd (sig_connect P b)) \<and>
     (\<forall>b. fst (sig_connect P b) \<noteq> STATUS_SUCCESS)"

lemma failed_pass:
  assumes "fails_at P E a" "\<not> connectionInProgress r"
  shows "fst (snd (reconnect_step P E r a)) =
     (if attempts_now P r a
      then r\<lparr>connectionStartTime := GETTIME P a, retryCount := retryCount r + 1, lastRetryTime := GETTIME P a\<rparr> else r)"
    "attempts_now P r a \<longleftrightarrow> lastRetryTime r = 0 \<or> retry_delay r \<le> GETTIME P a - lastRetryTime r"
  using assms
  by (auto simp: fails_at_def goes_on_def attempts_now_def reconnect_step_def reconnect_def check_timeout_def check_connected_def
      attempt_failed_def should_retry_def Let_def case_prod_beta)

text \<open>Every pass at which an attempt is due makes it, and no attempt comes before it is due.\<close>

lemma spaced:
  assumes "\<forall>a\<in>set as. fails_at P E a" "\<not> connectionInProgress r" "unat (retryCount r) + length as < 2 ^ 32" "lastRetryTime r \<noteq> 0"
    "\<forall>a\<in>set as. GETTIME P a \<noteq> 0"
  shows "\<forall>i < length (attempt_times P E r as).
     delay_after (unat (retryCount r) + i) \<le> attempt_times P E r as ! i - (lastRetryTime r # attempt_times P E r as) ! i"
  using assms
proof (induction as arbitrary: r)
  case (Cons a as)
  have F: "fails_at P E a" using Cons.prems by simp
  note fp = failed_pass[OF F Cons.prems(2)]
  show ?case
  proof (cases "attempts_now P r a")
    case False
    then show ?thesis using Cons.IH[of r] Cons.prems fp(1) by simp
  next
    case True
    let ?r = "r\<lparr>connectionStartTime := GETTIME P a, retryCount := retryCount r + 1, lastRetryTime := GETTIME P a\<rparr>"
    let ?ts = "attempt_times P E ?r as"
    have u: "unat (retryCount r + 1) = Suc (unat (retryCount r))" using Cons.prems(3) by (simp add: unat_word_ariths)
    have ts: "attempt_times P E r (a # as) = GETTIME P a # ?ts" using True fp(1) by simp
    have first: "delay_after (unat (retryCount r)) \<le> GETTIME P a - lastRetryTime r"
      using True fp(2) Cons.prems(4) retry_delay_count by metis
    have ih: "\<forall>i < length ?ts. delay_after (Suc (unat (retryCount r)) + i) \<le> ?ts ! i - (GETTIME P a # ?ts) ! i"
      using Cons.IH[of ?r] Cons.prems u by simp
    show ?thesis unfolding ts
    proof (intro allI impI)
      fix i assume i: "i < length (GETTIME P a # ?ts)"
      show "delay_after (unat (retryCount r) + i) \<le> (GETTIME P a # ?ts) ! i - (lastRetryTime r # GETTIME P a # ?ts) ! i"
        using i first ih by (cases i) auto
    qed
  qed
qed simp

text \<open>From the start: the first attempt is made at once, and the delays that follow it are those after the first of the table.\<close>

lemma spaced_init:
  assumes "\<forall>a\<in>set as. fails_at P E a" "length as < 2 ^ 32" "\<forall>a\<in>set as. GETTIME P a \<noteq> 0"
  shows "\<forall>i. Suc i < length (attempt_times P E retry_init as) \<longrightarrow>
     delay_after (Suc i) \<le> attempt_times P E retry_init as ! Suc i - attempt_times P E retry_init as ! i"
proof (cases as)
  case (Cons a as')
  have F: "fails_at P E a" using assms(1) Cons by simp
  have n: "\<not> connectionInProgress retry_init" by (simp add: retry_init_def)
  have now: "attempts_now P retry_init a" unfolding failed_pass(2)[OF F n] by (simp add: retry_init_def)
  let ?r = "retry_init\<lparr>connectionStartTime := GETTIME P a, retryCount := retryCount retry_init + 1, lastRetryTime := GETTIME P a\<rparr>"
  have ts: "attempt_times P E retry_init as = GETTIME P a # attempt_times P E ?r as'" using now failed_pass(1)[OF F n] by (simp add: Cons)
  have "\<forall>i < length (attempt_times P E ?r as').
     delay_after (unat (retryCount ?r) + i) \<le> attempt_times P E ?r as' ! i - (lastRetryTime ?r # attempt_times P E ?r as') ! i"
    by (rule spaced) (use assms Cons in \<open>auto simp: retry_init_def\<close>)
  then show ?thesis unfolding ts by (simp add: retry_init_def)
qed simp

end
