(* ===== verification/App_Props.thy ===== *)
theory App_Props
  imports App_Run
begin

text \<open>The properties of the application layer.\<close>

section \<open>Candidates before their offer\<close>

fun receive_all :: "'w app_ports \<Rightarrow> webrtc_message list \<Rightarrow> 'w app \<Rightarrow> (STATUS list \<times> 'w app) option" where
  "receive_all P [] a = Some ([], a)"
| "receive_all P (m # ms) a =
     do { (st, a1) \<leftarrow> signalingMessageReceived P m a; (sts, a2) \<leftarrow> receive_all P ms a1; Some (st # sts, a2) }"

text \<open>A candidate of a peer that has no session.\<close>

definition early :: "uint64 \<Rightarrow> webrtc_message \<Rightarrow> bool" where
  "early k m \<longleftrightarrow> message_type m = WEBRTC_MESSAGE_TYPE_ICE_CANDIDATE \<and> COMPUTE_PEER_HASH (peer_client_id m) = k \<and>
     msg_payload_len m \<le> APP_WEBRTC_MAX_MESSAGE_PAYLOAD_LEN"

lemma early_one:
  assumes O: "app_ok {} a" and t: "table_of (pRtcPeerConnectionForRemoteClient a) k = None" and m: "early k m"
    and r: "signalingMessageReceived P m a = Some (STATUS_SUCCESS, a')"
  shows "app_ok {} a' \<and> qonly a a' \<and> waiting_msgs a' k = waiting_msgs a k @ [kept_copy m]"
proof -
  obtain st q copy a1 where c: "queue_candidate P k m a = Some (st, q, 0, copy, a1)" "qonly a a1"
    "q = 0 \<or> q \<in> dom (app_queues a1)" "st = STATUS_SUCCESS \<longrightarrow> q = 0 \<and> copy = None \<and> app_ok {} a1 \<and>
       (\<forall>j. waiting_msgs a1 j = (if j = k then waiting_msgs a k @ [kept_copy m] else waiting_msgs a j))"
    using queue_candidate_ok[OF O, of P k m] by blast
  have h: "signalingMessageReceived P m a = message_cleanup P (st, q, 0, copy, a1)"
    using m t c(1) by (simp add: early_def signalingMessageReceived_def lookup_session_table receive_candidate_def Let_def)
  have "st = STATUS_SUCCESS"
    using r unfolding h by (auto simp: message_cleanup_def Let_def split: bind_splits)
  then have s: "q = 0" "copy = None" "app_ok {} a1" "waiting_msgs a1 k = waiting_msgs a k @ [kept_copy m]" using c(4) by auto
  then have "a' = a1" using r unfolding h by (auto simp: message_cleanup_def freeMessageQueue_def freeAppWebRTCSession_def)
  then show ?thesis using s c(2) by simp
qed

lemma early_all:
  "app_ok {} a \<Longrightarrow> table_of (pRtcPeerConnectionForRemoteClient a) k = None \<Longrightarrow> \<forall>m\<in>set ms. early k m \<Longrightarrow>
   receive_all P ms a = Some (sts, a') \<Longrightarrow> \<forall>st\<in>set sts. st = STATUS_SUCCESS \<Longrightarrow>
   app_ok {} a' \<and> (ms = [] \<and> a' = a \<or> qonly a a') \<and> waiting_msgs a' k = waiting_msgs a k @ map kept_copy ms"
proof (induction ms arbitrary: a sts)
  case (Cons m ms)
  obtain st a1 sts' where r: "signalingMessageReceived P m a = Some (st, a1)" "receive_all P ms a1 = Some (sts', a')" "sts = st # sts'"
    using Cons.prems(4) by (auto split: bind_splits prod.splits)
  have r1: "signalingMessageReceived P m a = Some (STATUS_SUCCESS, a1)" using r Cons.prems(5) by simp
  have e: "early k m" using Cons.prems(3) by simp
  note one = early_one[OF Cons.prems(1,2) e r1]
  have t: "table_of (pRtcPeerConnectionForRemoteClient a1) k = None" using one qonly_fields(3)[of a a1] Cons.prems(2) by simp
  have "app_ok {} a' \<and> (ms = [] \<and> a' = a1 \<or> qonly a1 a') \<and> waiting_msgs a' k = waiting_msgs a1 k @ map kept_copy ms"
    by (rule Cons.IH[OF _ t _ r(2)]) (use one Cons.prems(3,5) r(3) in auto)
  then show ?case using one qonly_trans[of a a1 a'] by auto
qed simp

lemma kept_candidates: "\<forall>m\<in>set ms. early k m \<Longrightarrow> candidates (map kept_copy ms) = map kept_copy ms"
  by (induction ms) (auto simp: candidates_def early_def kept_copy_def message_copy_def)

lemma handle_new_offer:
  assumes U: "usable P" and O: "app_ok {} a" and k: "k = COMPUTE_PEER_HASH (peer_client_id m)" and t: "table_of (pRtcPeerConnectionForRemoteClient a) k = None"
    and m: "message_type m = WEBRTC_MESSAGE_TYPE_OFFER" and c: "unat (streamingSessionCount a) < length (webrtcSessionList a)"
    and r: "signalingMessageReceived P m a = Some (STATUS_SUCCESS, a')"
  shows "\<exists>i. pc_log a' = pc_log a @ [Pc_create (peer_client_id m) False i, Pc_send i m] @ map (Pc_send i) (candidates (waiting_msgs a k))"
proof -
  obtain st q fs a1 where f: "create_for_offer P k m a = Some (st, q, fs, None, a1)"
    "st = STATUS_SUCCESS \<longrightarrow> q = 0 \<and> fs = 0 \<and> (\<exists>i. pc_log a1 = pc_log a @ [Pc_create (peer_client_id m) False i, Pc_send i m] @
       map (Pc_send i) (candidates (waiting_msgs a k)))"
    using create_for_offer_ok[OF U O t k] c by blast
  have h: "signalingMessageReceived P m a = message_cleanup P (st, q, fs, None, a1)"
    using m t f(1) k by (simp add: signalingMessageReceived_def lookup_session_table receive_offer_def Let_def)
  have st: "st = STATUS_SUCCESS" using r unfolding h by (auto simp: message_cleanup_def Let_def split: bind_splits)
  then have "a' = a1" using r f(2) unfolding h by (auto simp: message_cleanup_def freeMessageQueue_def freeAppWebRTCSession_def)
  then show ?thesis using f(2) st by blast
qed

lemma early_then_offer:
  assumes U: "usable P" and O: "app_ok {} a" and k: "k = COMPUTE_PEER_HASH (peer_client_id m)"
    and t: "table_of (pRtcPeerConnectionForRemoteClient a) k = None" and w: "waiting_msgs a k = []"
    and ms: "\<forall>x\<in>set ms. early k x" "receive_all P ms a = Some (sts, a1)" "\<forall>st\<in>set sts. st = STATUS_SUCCESS"
    and m: "message_type m = WEBRTC_MESSAGE_TYPE_OFFER" and c: "unat (streamingSessionCount a) < length (webrtcSessionList a)"
    and r: "signalingMessageReceived P m a1 = Some (STATUS_SUCCESS, a')"
  shows "\<exists>i. pc_log a' = pc_log a @ [Pc_create (peer_client_id m) False i, Pc_send i m] @ map (\<lambda>x. Pc_send i (kept_copy x)) ms"
proof -
  note e = early_all[OF O t ms]
  have f: "table_of (pRtcPeerConnectionForRemoteClient a1) k = None" "pc_log a1 = pc_log a"
    "unat (streamingSessionCount a1) < length (webrtcSessionList a1)"
    using e t c qonly_fields[of a a1] by auto
  obtain i where "pc_log a' = pc_log a1 @ [Pc_create (peer_client_id m) False i, Pc_send i m] @ map (Pc_send i) (candidates (waiting_msgs a1 k))"
    using handle_new_offer[OF U _ k f(1) m f(3) r] e by blast
  then show ?thesis using e w f(2) kept_candidates[OF ms(1)] by (intro exI[of _ i]) (simp add: comp_def)
qed

section \<open>Announcements of a peer\<close>

fun peer_states :: "uint64 \<Rightarrow> webrtc_peer_state list \<Rightarrow> 'w app \<Rightarrow> 'w app option" where
  "peer_states p [] a = Some a"
| "peer_states p (st # sts) a = do { (_, a1) \<leftarrow> peerConnectionStateChangedWrapper (Session_data p) st a; peer_states p sts a1 }"

definition events_of :: "app_event_id \<Rightarrow> 'w app \<Rightarrow> nat" where
  "events_of i a = length (filter (\<lambda>e. event_id e = i) (app_events a))"

lemma events_of_raise [simp]: "events_of i (raiseEvent j st q m a) = events_of i a + (if j = i then 1 else 0)"
  by (simp add: events_of_def raiseEvent_def Let_def)

lemma events_of_put [simp]: "events_of i (put_session p s a) = events_of i a" by (simp add: events_of_def)

definition ended :: "webrtc_peer_state \<Rightarrow> bool" where
  "ended st \<longleftrightarrow> st = WEBRTC_PEER_STATE_DISCONNECTED \<or> st = WEBRTC_PEER_STATE_FAILED"

definition announced_more :: "bool \<Rightarrow> 'w app \<Rightarrow> bool \<Rightarrow> 'w app \<Rightarrow> bool" where
  "announced_more b a b' a' \<longleftrightarrow>
     events_of APP_WEBRTC_EVENT_PEER_DISCONNECTED a' + (if b' then 1 else 0) + events_of APP_WEBRTC_EVENT_PEER_CONNECTED a \<le>
     events_of APP_WEBRTC_EVENT_PEER_DISCONNECTED a + (if b then 1 else 0) + events_of APP_WEBRTC_EVENT_PEER_CONNECTED a'"

lemma announced_refl [simp]: "announced_more b a b a" by (simp add: announced_more_def)

lemma announced_trans: "announced_more b a c a1 \<Longrightarrow> announced_more c a1 d a2 \<Longrightarrow> announced_more b a d a2"
  by (simp add: announced_more_def)

lemma one_state:
  assumes s: "app_sessions a p = Some s" and r: "peerConnectionStateChangedWrapper (Session_data p) st a = Some (w, a')"
  shows "\<exists>s'. app_sessions a' p = Some s' \<and> (terminateFlag s' \<longleftrightarrow> terminateFlag s \<or> ended st) \<and>
    announced_more (connectedAnnounced s) a (connectedAnnounced s') a'"
proof -
  have r1: "session_state_changed p st a = Some a'"
    using s r by (auto simp: peerConnectionStateChangedWrapper_def text_at_peerId_def split: bind_splits if_splits)
  show ?thesis
  proof (cases st)
    case WEBRTC_PEER_STATE_CONNECTED
    then have "a' = raiseEvent APP_WEBRTC_EVENT_PEER_CONNECTED 0 (Some (peerId s)) ''Peer connected'' (put_session p (s\<lparr>connectedAnnounced := True\<rparr>) a)"
      using r1 s by (simp add: session_state_changed_def)
    then show ?thesis using WEBRTC_PEER_STATE_CONNECTED by (simp add: ended_def announced_more_def)
  next
    case WEBRTC_PEER_STATE_MEDIA_STARTING
    then have "a' = raiseEvent APP_WEBRTC_EVENT_STREAMING_STARTED 0 (Some (peerId s)) ''Media streaming started'' a"
      using r1 s by (simp add: session_state_changed_def)
    then show ?thesis using WEBRTC_PEER_STATE_MEDIA_STARTING s by (simp add: ended_def announced_more_def)
  next
    case WEBRTC_PEER_STATE_DISCONNECTED
    then show ?thesis using r1 s by (cases "connectedAnnounced s") (auto simp: session_state_changed_def Let_def ended_def announced_more_def)
  next
    case WEBRTC_PEER_STATE_FAILED
    then show ?thesis using r1 s by (cases "connectedAnnounced s") (auto simp: session_state_changed_def Let_def ended_def announced_more_def)
  qed (use r1 s in \<open>simp_all add: session_state_changed_def ended_def\<close>)
qed

lemma many_states:
  assumes "app_sessions a p = Some s" "peer_states p sts a = Some a'"
  shows "\<exists>s'. app_sessions a' p = Some s' \<and> (terminateFlag s' \<longleftrightarrow> terminateFlag s \<or> (\<exists>st\<in>set sts. ended st)) \<and>
    announced_more (connectedAnnounced s) a (connectedAnnounced s') a'"
  using assms
proof (induction sts arbitrary: a s)
  case (Cons st sts)
  obtain w a1 where r: "peerConnectionStateChangedWrapper (Session_data p) st a = Some (w, a1)" "peer_states p sts a1 = Some a'"
    using Cons.prems(2) by (auto split: bind_splits prod.splits)
  from one_state[OF Cons.prems(1) r(1)] obtain s1 where s1: "app_sessions a1 p = Some s1" "terminateFlag s1 \<longleftrightarrow> terminateFlag s \<or> ended st"
    "announced_more (connectedAnnounced s) a (connectedAnnounced s1) a1" by blast
  from Cons.IH[OF s1(1) r(2)] obtain s2 where "app_sessions a' p = Some s2"
    "terminateFlag s2 \<longleftrightarrow> terminateFlag s1 \<or> (\<exists>st\<in>set sts. ended st)"
    "announced_more (connectedAnnounced s1) a1 (connectedAnnounced s2) a'" by blast
  then show ?case using s1(2) announced_trans[OF s1(3)] by (intro exI[of _ s2]) simp
qed simp

section \<open>A run of the application\<close>

text \<open>An application in which everything succeeds, for the witnesses.\<close>

definition still :: "'w app \<Rightarrow> WEBRTC_STATUS \<times> 'w app" where "still a = (WEBRTC_STATUS_SUCCESS, a)"

definition demo_ports :: "uint64 app_ports" where
  "demo_ports =
     \<lparr>GETTIME = app_world, create_session = Some (\<lambda>_ _ a. ((WEBRTC_STATUS_SUCCESS, 7), a)),
      pc_set_callbacks = Some (\<lambda>_ _. still), pc_send_message = Some (\<lambda>_ _. still), destroy_session = Some (\<lambda>_. still),
      set_ice_servers = None, set_data_channel_callbacks = None, send_data_channel_message = None,
      sig_connect = still, sig_disconnect = still, sig_send_message = (\<lambda>_. still), sig_get_state = None,
      sig_get_ice_servers = None, sig_get_ice_server_by_idx = None, sig_has_valid_ice_config = None,
      sig_is_ice_refresh_needed = None, sig_refresh_ice_configuration = None, purge_peer_candidates = None,
      pc_free = still, sig_free = still\<rparr>"

lemma demo_usable: "usable demo_ports" "pc_set_callbacks demo_ports \<noteq> None" "frees_quietly demo_ports"
  by (simp_all add: usable_def ports_ok_def demo_ports_def frees_quietly_def still_def)

definition demo_new :: "uint64 app" where
  "demo_new = the (fst (snd (the (createAppWebRTCContext demo_ports 2 False False 1 [] 1 always_grant))))"

lemma demo_created: "\<exists>h. createAppWebRTCContext demo_ports 2 False False 1 [] 1 always_grant = Some (STATUS_SUCCESS, Some demo_new, h)"
  by (simp add: demo_new_def createAppWebRTCContext_def heap_calloc_def always_grant_def hashTableCreateWithParams_def
      MIN_HASH_BUCKET_COUNT_def SAMPLE_HASH_TABLE_BUCKET_COUNT_def SAMPLE_HASH_TABLE_BUCKET_LENGTH_def table_sizes table_allocSize_def Let_def)

definition demo_up :: "uint64 app" where
  "demo_up = demo_new\<lparr>g_kvs_webrtc_client := True, gSignalingClientData := True\<rparr>"

lemma demo_reached: "app_reach demo_ports E Q demo_new" "app_reach demo_ports E Q demo_up"
proof -
  show r: "app_reach demo_ports E Q demo_new" using demo_created reach_new by fastforce
  show "app_reach demo_ports E Q demo_up"
    by (rule reach_op[OF r, of "Clients True True"]) (simp_all add: demo_up_def)
qed

definition demo_message :: "webrtc_message_type \<Rightarrow> webrtc_message" where
  "demo_message ty = \<lparr>message_type = ty, peer_client_id = ''a'', correlation_id = [], msg_payload = Some ''c'',
     msg_payload_len = 1, msg_version = 1\<rparr>"

definition demo_candidate :: webrtc_message where "demo_candidate = demo_message WEBRTC_MESSAGE_TYPE_ICE_CANDIDATE"
definition demo_offer :: webrtc_message where "demo_offer = demo_message WEBRTC_MESSAGE_TYPE_OFFER"

lemma demo_hash: "COMPUTE_PEER_HASH ''a'' = 0xE8B7BE43"
  by code_simp

definition demo_table :: hash_table where
  "demo_table = \<lparr>itemCount = 0, bucketCount = 50, bucketLength = 2, buckets = replicate 50 \<lparr>hb_length = 2, entries = []\<rparr>\<rparr>"

lemma two: "replicate 2 x = [x, x]" by (simp add: numeral_2_eq_2)

lemma demo_up_eq:
  "demo_up = \<lparr>app_world = 1, app_heap = \<lparr>grant = (\<lambda>_. True), requests = 3, live = 3\<rparr>, app_brk = 0, app_sessions = Map.empty,
     app_queues = Map.empty, pRtcPeerConnectionForRemoteClient = demo_table, webrtcSessionList = [0, 0], streamingSessionCount = 0,
     pPendingSignalingMessageForRemoteClient = [], appTerminateFlag = False, recreate_signaling_client = False,
     reconnectInProgress = False, bridge_mode = False, app_settings = default_settings False False 1, g_kvs_webrtc_client = True,
     gSignalingClientData = True, gEventCallbacks = [], app_events = [], pc_log = []\<rparr>"
  by (simp add: demo_up_def demo_new_def demo_table_def createAppWebRTCContext_def heap_calloc_def always_grant_def hashTableCreateWithParams_def
      MIN_HASH_BUCKET_COUNT_def SAMPLE_HASH_TABLE_BUCKET_COUNT_def SAMPLE_HASH_TABLE_BUCKET_LENGTH_def table_sizes table_allocSize_def Let_def demo_ports_def two)

lemma demo_bucket: "getHashBucket demo_table k = \<lparr>hb_length = 2, entries = []\<rparr>"
  using index_less[of demo_table k] by (simp add: getHashBucket_def demo_table_def)

lemma demo_lookup: "table_of demo_table k = None"
  by (simp add: table_of_def demo_bucket)

definition demo_waits :: "uint64 app" where
  "demo_waits = demo_up\<lparr>app_heap := \<lparr>grant = (\<lambda>_. True), requests = 9, live = 9\<rparr>, app_brk := 1,
     app_queues := [1 \<mapsto> \<lparr>hashValue = 0xE8B7BE43, createTime = 1, messageQueue = Some [kept_copy demo_candidate]\<rparr>],
     pPendingSignalingMessageForRemoteClient := [1]\<rparr>"

lemma demo_early: "signalingMessageReceived demo_ports demo_candidate demo_up = Some (STATUS_SUCCESS, demo_waits)"
  by (simp add: demo_waits_def demo_up_eq signalingMessageReceived_def lookup_session_table demo_lookup demo_candidate_def demo_message_def
      demo_hash receive_candidate_def APP_WEBRTC_MAX_MESSAGE_PAYLOAD_LEN_def queue_candidate_def getPendingMessageQueueForHash_def
      createMessageQueue_def allocate_def app_calloc_def heap_calloc_def put_queue_def pending_enqueue_def keep_candidate_def kept_copy_def
      demo_ports_def Let_def leave_def message_cleanup_def freeMessageQueue_def freeAppWebRTCSession_def)

lemma demo_put: "hashTableUpsert demo_table k p h = (STATUS_SUCCESS,
    (set_bucket demo_table k \<lparr>hb_length = 2, entries = [\<lparr>he_key = k, he_value = p\<rparr>]\<rparr>)\<lparr>itemCount := 1\<rparr>, h)"
  unfolding hashTableUpsert_def demo_bucket by (simp add: grow_bucket_def hb_count_def demo_table_def Let_def)

definition demo_session :: app_session where
  "demo_session = \<lparr>terminateFlag = False, connectedAnnounced = False, peerId = ''a'', interface_session_handle = 7,
     shutdownCallbackCustomData = 0, offerReceiveTime = 1\<rparr>"

lemma demo_contains: "hashTableContains demo_table k = (STATUS_SUCCESS, False)"
  by (simp add: contains_table demo_lookup domIff)

lemma demo_progressive: "app_webrtc_trigger_progressive_ice demo_ports u a = (fst (app_webrtc_trigger_progressive_ice demo_ports u a), a)"
  by (simp add: app_webrtc_trigger_progressive_ice_def demo_ports_def Let_def)

lemma demo_late: "\<exists>a'. signalingMessageReceived demo_ports demo_offer demo_waits = Some (STATUS_SUCCESS, a') \<and>
    app_sessions a' = [2 \<mapsto> demo_session] \<and> listed a' = [2]"
  apply (simp add: demo_waits_def demo_up_eq signalingMessageReceived_def lookup_session_table demo_lookup demo_offer_def demo_message_def
      demo_hash receive_offer_def create_for_offer_def)
  apply (subst demo_progressive)
  apply (simp add: interface_create_def new_session_def start_session_def wire_callbacks_def pc_send_def
      submit_waiting_def publish_def list_append_def hashTablePut_def demo_contains demo_put getPendingMessageQueueForHash_def
      pending_remove_def submitPendingIceCandidate_def submit_one_def
      allocate_def app_calloc_def heap_calloc_def put_queue_def put_session_def demo_candidate_def demo_message_def kept_copy_def message_copy_def message_blocks_def
      submit_loop.simps demo_ports_def still_def Let_def leave_def message_cleanup_def freeMessageQueue_def freeAppWebRTCSession_def app_free_def heap_free_def
      demo_session_def listed_def status_defs)
  done

end
