(* ===== verification/App_Claims.thy ===== *)
theory App_Claims
  imports App_Props
begin

text \<open>The properties of the application layer, each with a run of the example application in which it applies.\<close>

section \<open>The tasks beside an operation\<close>

text \<open>
  While an operation has released the lock, other tasks may run whole operations: any that is allowed
  and does not run out of memory keeps the state in agreement.
\<close>

lemma operation_keeps:
  assumes "usable P" "pc_set_callbacks P \<noteq> None" "keeps E" "\<And>a. quiet a (Q a)"
  shows "keeps (\<lambda>a. if allowed op a \<and> \<not> out_of_memory P Q op a then the (run_op P E Q op a) else a)"
  unfolding keeps_def using run_ok[OF assms(1-4)] by fastforce

text \<open>Another task runs the cleanup loop.\<close>

definition cleaner :: "uint64 app \<Rightarrow> uint64 app" where
  "cleaner a = (if allowed (Cleanup False retry_init) a \<and> \<not> out_of_memory demo_ports id (Cleanup False retry_init) a
                then the (run_op demo_ports id id (Cleanup False retry_init) a) else a)"

lemma quiet_id: "quiet a (id a)" by simp

lemma keeps_cleaner: "keeps cleaner"
  using operation_keeps[OF demo_usable(1,2) quiet_keeps[of id, OF quiet_id] quiet_id, of "Cleanup False retry_init"]
  by (simp add: cleaner_def[abs_def])

text \<open>
  C27: in every state the application reaches from a new context by messages, callbacks, users' calls
  and passes of the cleanup loop in any order, the list of sessions, the hash table and the memory
  agree: no session is listed twice, the sessions in memory are exactly the listed ones, and a key
  leads to a session exactly when that session is listed and the key is the hash of its peer. The
  operations are the allowed ones (an answer comes while a session is listed or the list is new, the
  states of a peer connection for a session in memory with a name below 256 characters, our own offer
  to a peer whose name fits); the run ends when memory runs out for a waiting candidate or for our own
  offer, which break the agreement. Other tasks may do anything that keeps it wherever the lock is
  released, as each of these operations does (lemma \<open>operation_keeps\<close>), but leave the
  sessions alone while our own offer goes on without it.
\<close>

theorem application_state_agrees:
  assumes "usable P" "pc_set_callbacks P \<noteq> None" "keeps E" "\<And>a. quiet a (Q a)" "app_reach P E Q a"
  shows "distinct (listed a) \<and> unat (streamingSessionCount a) \<le> length (webrtcSessionList a) \<and>
    dom (app_sessions a) = set (listed a) \<and>
    (\<forall>k p. table_of (pRtcPeerConnectionForRemoteClient a) k = Some p \<longleftrightarrow>
       p \<in> set (listed a) \<and> (\<exists>s. app_sessions a p = Some s \<and> COMPUTE_PEER_HASH (peerId s) = k))"
  using reach_ok[OF assms] by (simp add: app_ok_def list_ok_def table_ok_def peer_key_def)

lemma demo_talking: "\<exists>a. app_reach demo_ports E Q a \<and> app_sessions a = [2 \<mapsto> demo_session] \<and> listed a = [2]"
proof -
  obtain a' where a': "signalingMessageReceived demo_ports demo_offer demo_waits = Some (STATUS_SUCCESS, a')"
    "app_sessions a' = [2 \<mapsto> demo_session]" "listed a' = [2]" using demo_late by blast
  have n: "with_peer demo_candidate = demo_candidate" "with_peer demo_offer = demo_offer"
    by (simp_all add: with_peer_def demo_candidate_def demo_offer_def demo_message_def)
  have w: "signalingMessageReceivedWrapper demo_ports (Some m) a = map_option (map_prod (\<lambda>st. if st = STATUS_SUCCESS then WEBRTC_STATUS_SUCCESS else WEBRTC_STATUS_INTERNAL_ERROR) id)
      (signalingMessageReceived demo_ports (with_peer m) a)" if "\<not> bridge_mode a" for m a
    using that by (auto simp: signalingMessageReceivedWrapper_def with_peer_def map_option_case split: option.splits bind_splits)
  have b: "\<not> bridge_mode demo_up" "\<not> bridge_mode demo_waits" by (simp_all add: demo_up_eq demo_waits_def)
  have "app_reach demo_ports E Q demo_waits"
    by (rule reach_op[OF demo_reached(2), of "Receive demo_candidate"])
       (simp_all add: w[OF b(1)] n demo_early, simp_all add: demo_candidate_def demo_message_def status_defs)
  then have "app_reach demo_ports E Q a'"
    by (rule reach_op[of _ _ _ _ "Receive demo_offer"])
       (simp_all add: w[OF b(2)] n a'(1), simp_all add: demo_offer_def demo_message_def)
  then show ?thesis using a' by blast
qed

theorem application_state_agrees_witness:
  "\<exists>a. app_reach demo_ports cleaner id a \<and> listed a = [2] \<and> table_of (pRtcPeerConnectionForRemoteClient a) (COMPUTE_PEER_HASH ''a'') = Some 2"
proof -
  obtain a where a: "app_reach demo_ports cleaner id a" "app_sessions a = [2 \<mapsto> demo_session]" "listed a = [2]" using demo_talking by blast
  show ?thesis
    using application_state_agrees[OF demo_usable(1,2) keeps_cleaner quiet_id a(1)] a
    by (intro exI[of _ a]) (simp add: demo_session_def)
qed



text \<open>
  C29: candidates that come before the offer of their peer are not lost and not reordered: when none
  waited, each of a run of candidates was accepted, and then the offer comes, finds a free place in the
  session list and makes a session, the peer connection gets the offer first and right after it copies
  of all the candidates, in the order in which they came. Nothing comes between the candidates and the
  offer, no pass of the cleanup loop that expires them either.
\<close>

theorem early_candidates_follow_the_offer:
  assumes "usable P" "pc_set_callbacks P \<noteq> None" "keeps E" "\<And>a. quiet a (Q a)" "app_reach P E Q a"
    and "k = COMPUTE_PEER_HASH (peer_client_id m)" "lookup_session k a = (STATUS_SUCCESS, 0)" "waiting_msgs a k = []"
    and "\<forall>x\<in>set ms. early k x" "receive_all P ms a = Some (sts, a1)" "\<forall>st\<in>set sts. st = STATUS_SUCCESS"
    and "message_type m = WEBRTC_MESSAGE_TYPE_OFFER" "unat (streamingSessionCount a) < length (webrtcSessionList a)"
    and "signalingMessageReceived P m a1 = Some (STATUS_SUCCESS, a')"
  shows "\<exists>i. pc_log a' = pc_log a @ [Pc_create (peer_client_id m) False i, Pc_send i m] @ map (\<lambda>x. Pc_send i (kept_copy x)) ms"
proof -
  have O: "app_ok {} a" by (rule reach_ok[OF assms(1-5)])
  have "table_of (pRtcPeerConnectionForRemoteClient a) k = None"
    using assms(7) key_handle[OF O, of k] by (auto simp: lookup_session_table split: option.splits)
  from early_then_offer[OF assms(1) O assms(6) this assms(8-14)] show ?thesis .
qed

theorem early_candidates_follow_the_offer_witness:
  "\<exists>a' i. signalingMessageReceived demo_ports demo_offer demo_waits = Some (STATUS_SUCCESS, a') \<and>
     pc_log a' = [Pc_create ''a'' False i, Pc_send i demo_offer, Pc_send i (kept_copy demo_candidate)]"
proof -
  obtain a' where a': "signalingMessageReceived demo_ports demo_offer demo_waits = Some (STATUS_SUCCESS, a')" using demo_late by blast
  have r: "receive_all demo_ports [demo_candidate] demo_up = Some ([STATUS_SUCCESS], demo_waits)" by (simp add: demo_early)
  have "\<exists>i. pc_log a' = pc_log demo_up @ [Pc_create (peer_client_id demo_offer) False i, Pc_send i demo_offer] @
      map (\<lambda>x. Pc_send i (kept_copy x)) [demo_candidate]"
    by (rule early_candidates_follow_the_offer[OF demo_usable(1,2) keeps_cleaner quiet_id demo_reached(2) refl _ _ _ r _ _ _ a'])
       (simp_all add: lookup_session_table waiting_msgs_def waiting_for_def early_def demo_up_eq demo_lookup
          demo_offer_def demo_candidate_def demo_message_def APP_WEBRTC_MAX_MESSAGE_PAYLOAD_LEN_def)
  then show ?thesis using a' by (simp add: demo_up_eq) (simp add: demo_offer_def demo_message_def)
qed

text \<open>
  C30: the teardown ends, from every state the application reaches without running out of memory for a
  waiting candidate or for our own offer (as above): it uses no freed object, and it leaves no session
  in memory, none in the list and no waiting queue. While it waits for a reconnection under way, other
  tasks may do anything that keeps the state in agreement, whole passes of the cleanup loop included.
\<close>

theorem teardown_leaves_no_session:
  assumes "usable P" "pc_set_callbacks P \<noteq> None" "keeps E" "\<And>a. quiet a (Q a)" "app_reach P E Q a" "frees_quietly P" "keeps F"
  shows "\<exists>a'. app_webrtc_teardown P F a = Some a' \<and> app_sessions a' = Map.empty \<and> streamingSessionCount a' = 0 \<and>
    pPendingSignalingMessageForRemoteClient a' = [] \<and> \<not> gSignalingClientData a'"
  using teardown_ok[OF _ assms(6,7) reach_ok[OF assms(1-5)]] assms(1) by (simp add: usable_def)

theorem teardown_leaves_no_session_witness:
  "\<exists>a a'. listed a = [2] \<and> app_webrtc_teardown demo_ports cleaner a = Some a' \<and> app_sessions a' = Map.empty"
proof -
  obtain a where a: "app_reach demo_ports cleaner id a" "listed a = [2]" using demo_talking by blast
  from teardown_leaves_no_session[OF demo_usable(1,2) keeps_cleaner quiet_id a(1) demo_usable(3) keeps_cleaner] a(2)
  show ?thesis by blast
qed

text \<open>
  C31: over the states of its peer connection, in any order and number, a session announces the
  departure of its peer no more often than its arrival: with what was announced when it began,
  the departures never outnumber the arrivals. The session is marked for the cleanup loop exactly
  when one of the states was a disconnect or a failure.
\<close>

theorem departures_need_arrivals:
  assumes "app_sessions a p = Some s" "\<not> connectedAnnounced s" "peer_states p sts a = Some a'"
  shows "events_of APP_WEBRTC_EVENT_PEER_DISCONNECTED a' - events_of APP_WEBRTC_EVENT_PEER_DISCONNECTED a \<le>
      events_of APP_WEBRTC_EVENT_PEER_CONNECTED a' - events_of APP_WEBRTC_EVENT_PEER_CONNECTED a \<and>
    map_option terminateFlag (app_sessions a' p) = Some (terminateFlag s \<or> (\<exists>st\<in>set sts. ended st))"
  using many_states[OF assms(1,3)] assms(2) by (auto simp: announced_more_def)

theorem departures_need_arrivals_witness:
  "\<exists>a'. peer_states 2 [WEBRTC_PEER_STATE_CONNECTED, WEBRTC_PEER_STATE_FAILED, WEBRTC_PEER_STATE_DISCONNECTED]
      (put_session 2 demo_session demo_up) = Some a' \<and>
    events_of APP_WEBRTC_EVENT_PEER_DISCONNECTED a' \<le> 1 \<and> map_option terminateFlag (app_sessions a' 2) = Some True"
proof -
  let ?a = "put_session 2 demo_session demo_up"
  let ?l = "[WEBRTC_PEER_STATE_CONNECTED, WEBRTC_PEER_STATE_FAILED, WEBRTC_PEER_STATE_DISCONNECTED]"
  have "\<exists>a'. peer_states 2 ?l ?a = Some a' \<and> events_of APP_WEBRTC_EVENT_PEER_CONNECTED a' = 1"
    by (simp add: peerConnectionStateChangedWrapper_def text_at_peerId_def session_state_changed_def looks_like_session_def
        demo_session_def Let_def) (simp add: events_of_def demo_up_eq)
  then obtain a' where a': "peer_states 2 ?l ?a = Some a'" "events_of APP_WEBRTC_EVENT_PEER_CONNECTED a' = 1" by blast
  have s: "app_sessions ?a 2 = Some demo_session" "\<not> connectedAnnounced demo_session" by (simp_all add: demo_session_def)
  have e: "events_of i demo_up = 0" for i by (simp add: events_of_def demo_up_eq)
  show ?thesis using departures_need_arrivals[OF s a'(1)] a' by (intro exI[of _ a']) (simp add: e ended_def)
qed

text \<open>
  C32: attempts to reconnect that fail at once are spaced by the table of delays: however often the
  cleanup loop passes, the attempt after the first failure comes no sooner than 10 seconds, then 20,
  40, and 60 from then on.
\<close>

theorem reconnect_attempts_are_spaced:
  assumes "\<forall>a\<in>set as. fails_at P E a" "length as < 2 ^ 32" "\<forall>a\<in>set as. GETTIME P a \<noteq> 0"
    and "Suc i < length (attempt_times P E retry_init as)"
  shows "[10, 20, 40, 60] ! min i 3 * HUNDREDS_OF_NANOS_IN_A_SECOND \<le>
    attempt_times P E retry_init as ! Suc i - attempt_times P E retry_init as ! i"
proof -
  have "delay_after (Suc i) = [10, 20, 40, 60] ! min i 3 * HUNDREDS_OF_NANOS_IN_A_SECOND"
    by (cases "i < 3") (auto simp: delay_after_def retryDelays_def less_Suc_eq numeral_3_eq_3 min_def nth_Cons')
  then show ?thesis using spaced_init[OF assms(1-3)] assms(4) by metis
qed

definition failing_ports :: "uint64 app_ports" where
  "failing_ports = demo_ports\<lparr>sig_connect := (\<lambda>a. (1, a))\<rparr>"

definition lost_at :: "uint64 \<Rightarrow> uint64 app" where
  "lost_at t = demo_up\<lparr>app_world := t, recreate_signaling_client := True\<rparr>"

lemma lost_fails: "fails_at failing_ports id (lost_at t)"
  by (simp add: fails_at_def goes_on_def failing_ports_def demo_ports_def still_def lost_at_def demo_up_eq status_defs)

lemma failing_time: "GETTIME failing_ports (lost_at t) = t" "gSignalingClientData (lost_at t)" "recreate_signaling_client (lost_at t)"
  by (simp_all add: failing_ports_def demo_ports_def lost_at_def demo_up_eq)

theorem reconnect_attempts_are_spaced_witness:
  "attempt_times failing_ports id retry_init [lost_at 1, lost_at 50000001, lost_at 100000001] = [1, 100000001] \<and>
   10 * HUNDREDS_OF_NANOS_IN_A_SECOND \<le> (100000001 :: uint64) - 1"
proof -
  let ?as = "[lost_at 1, lost_at 50000001, lost_at 100000001]"
  have f: "\<forall>a\<in>set ?as. fails_at failing_ports id a" using lost_fails by simp
  have t: "attempt_times failing_ports id retry_init ?as = [1, 100000001]"
    using failed_pass[OF lost_fails]
    by (simp add: failing_time)
       (simp add: failing_time retry_init_def retry_delay_def retryDelays_def HUNDREDS_OF_NANOS_IN_A_SECOND_def)
  have "[10, 20, 40, 60] ! min 0 3 * HUNDREDS_OF_NANOS_IN_A_SECOND \<le> [1, 100000001 :: uint64] ! Suc 0 - [1, 100000001] ! 0"
    using reconnect_attempts_are_spaced[OF f, of 0, unfolded t] by (simp add: failing_time)
  then show ?thesis using t by simp
qed

text \<open>
  C33: a reconnection that succeeds between two passes of the cleanup loop is counted as failed when
  the connection is lost again. The callback clears the flag, so the loop no longer looks at the
  attempt, which stays in progress; at the next loss, 15 seconds after that attempt or later, the pass
  makes no attempt but counts one more failure and starts a new delay.
\<close>

theorem late_success_counts_as_failure:
  assumes "connectionInProgress r" "signalingClientStateChangedWrapper WEBRTC_SIGNALING_STATE_CONNECTED a = (w, a1)"
    and "recreate_signaling_client a2" "gSignalingClientData a2"
    and "CONNECTION_TIMEOUT \<le> GETTIME P a2 - connectionStartTime r" "GETTIME P a2 \<noteq> 0"
  shows "reconnect_step P E r a1 = (False, r, a1) \<and>
    reconnect_step P E r a2 = (False, r\<lparr>connectionInProgress := False, retryCount := retryCount r + 1, lastRetryTime := GETTIME P a2\<rparr>, a2)"
proof -
  have "\<not> recreate_signaling_client a1" using assms(2) by (auto simp: signalingClientStateChangedWrapper_def)
  then have one: "reconnect_step P E r a1 = (False, r, a1)" by (simp add: reconnect_step_def)
  have pos: "0 < retry_delay r"
  proof -
    have "\<forall>d\<in>set retryDelays. 0 < d" by (simp add: retryDelays_def HUNDREDS_OF_NANOS_IN_A_SECOND_def)
    moreover have "min (unat (retryCount r)) (length retryDelays - 1) < length retryDelays" by simp
    ultimately show ?thesis unfolding retry_delay_def by (meson nth_mem)
  qed
  then have "\<not> should_retry (GETTIME P a2) (retry_delay r) (check_timeout (GETTIME P a2) r)"
    using assms(1,5,6) by (simp add: should_retry_def check_timeout_def attempt_failed_def)
  then show ?thesis using one assms(1,3,4,5)
    by (simp add: reconnect_step_def check_timeout_def attempt_failed_def check_connected_def Let_def)
qed

theorem late_success_counts_as_failure_witness:
  "reconnect_step failing_ports id (retry_init\<lparr>connectionInProgress := True\<rparr>) (lost_at 200000000) =
     (False, retry_init\<lparr>retryCount := 1, lastRetryTime := 200000000\<rparr>, lost_at 200000000)"
proof -
  let ?r = "retry_init\<lparr>connectionInProgress := True\<rparr>"
  have c: "connectionInProgress ?r" "CONNECTION_TIMEOUT \<le> GETTIME failing_ports (lost_at 200000000) - connectionStartTime ?r"
    "GETTIME failing_ports (lost_at 200000000) \<noteq> 0"
    by (simp_all add: failing_time) (simp add: retry_init_def CONNECTION_TIMEOUT_def HUNDREDS_OF_NANOS_IN_A_SECOND_def)
  obtain w a1 where "signalingClientStateChangedWrapper WEBRTC_SIGNALING_STATE_CONNECTED demo_up = (w, a1)" by fastforce
  from late_success_counts_as_failure[OF c(1) this failing_time(3,2) c(2,3), of id]
  show ?thesis by (simp add: failing_time) (simp add: retry_init_def)
qed

text \<open>What follows are inputs on which the application does what it does not mean to do.\<close>

section \<open>Memory runs out for a candidate\<close>

text \<open>The waiting queue is freed and stays in the list, so the next message of the peer reads it.\<close>

lemma find_freed_queue: "q \<in> set qs \<Longrightarrow> app_queues a q = None \<Longrightarrow> \<forall>x\<in>set qs. \<forall>s. app_queues a x = Some s \<longrightarrow> hashValue s \<noteq> k \<Longrightarrow>
    find_queue a k qs = None"
  by (induction qs) (auto simp: bind_eq_None_conv)

lemma starved_candidate_frees_a_listed_queue:
  assumes O: "app_ok {} a" and m: "early k m" and t: "lookup_session k a = (STATUS_SUCCESS, 0)" and w: "waiting_for a k = Some q"
    and h: "\<not> grant (app_heap a) (requests (app_heap a))"
  shows "\<exists>a'. signalingMessageReceived P m a = Some (STATUS_NOT_ENOUGH_MEMORY, a') \<and>
    q \<in> set (pPendingSignalingMessageForRemoteClient a') \<and> app_queues a' q = None \<and> signalingMessageReceived P m a' = None"
proof -
  let ?ps = "pPendingSignalingMessageForRemoteClient a"
  have Q: "queues_ok a" using O by (simp add: app_ok_def)
  have q: "q \<in> set ?ps" "hashValue (the (app_queues a q)) = k" using waiting_for_Some[OF w] by blast+
  obtain s ms where s: "app_queues a q = Some s" "messageQueue s = Some ms" using q(1) Q by (auto simp: queues_ok_def)
  have q0: "q \<noteq> 0" using q(1) Q by (auto simp: queues_ok_def)
  have tn: "table_of (pRtcPeerConnectionForRemoteClient a) k = None"
    using t key_handle[OF O, of k] by (auto simp: lookup_session_table split: option.splits)
  have g: "getPendingMessageQueueForHash k False a = Some (STATUS_SUCCESS, q, a)"
    using get_pending_ok[OF O, of k False] w by (auto simp: getPendingMessageQueueForHash_def split: bind_splits if_splits)
  let ?a1 = "a\<lparr>app_heap := snd (heap_calloc (app_heap a))\<rparr>"
  have c: "app_calloc a = (False, ?a1)" using h by (simp add: app_calloc_def heap_calloc_def Let_def)
  let ?a2 = "(app_free 1 (app_free (2 * length ms + 1) ?a1))\<lparr>app_queues := (app_queues a)(q := None)\<rparr>"
  have rx: "signalingMessageReceived P m b = do { r \<leftarrow> queue_candidate P k m b; message_cleanup P r }"
    if "table_of (pRtcPeerConnectionForRemoteClient b) k = None" for b
    using m that by (simp add: early_def signalingMessageReceived_def lookup_session_table receive_candidate_def Let_def)
  have f: "freeMessageQueue q ?a1 = Some (STATUS_SUCCESS, ?a2)" using q0 s by (simp add: freeMessageQueue_def Let_def del: One_nat_def)
  have one: "signalingMessageReceived P m a = Some (STATUS_NOT_ENOUGH_MEMORY, ?a2)"
    unfolding rx[OF tn] using g q0 c f
    by (simp add: queue_candidate_def keep_candidate_def message_cleanup_def freeAppWebRTCSession_def del: One_nat_def)
  have other: "hashValue x \<noteq> k" if "y \<in> set ?ps" "app_queues ?a2 y = Some x" for y x
  proof -
    have "y \<noteq> q" "app_queues a y = Some x" using that(2) by (auto split: if_splits)
    then show ?thesis using Q q that(1) unfolding queues_ok_def inj_on_def by fastforce
  qed
  have "find_queue ?a2 k ?ps = None" by (rule find_freed_queue[OF q(1)]) (use other in auto)
  then have "queue_candidate P k m ?a2 = None" by (simp add: queue_candidate_def getPendingMessageQueueForHash_def)
  moreover have "table_of (pRtcPeerConnectionForRemoteClient ?a2) k = None" using tn by simp
  ultimately have "signalingMessageReceived P m ?a2 = None" by (simp add: rx)
  then show ?thesis using one q(1) by (intro exI[of _ ?a2]) simp
qed

section \<open>A session freed under our own offer\<close>

text \<open>
  \<open>app_webrtc_trigger_offer\<close> releases the lock and goes on to read the session: when the application is
  torn down at that moment the session is gone.
\<close>

lemma offer_uses_a_freed_session:
  assumes "usable P" "frees_quietly P" "app_ok {} a"
    and "table_of (pRtcPeerConnectionForRemoteClient a) (COMPUTE_PEER_HASH peer) = Some p"
  shows "app_webrtc_trigger_offer P (\<lambda>b. the (app_webrtc_teardown P id b)) (Some peer) a = None"
proof -
  have "keeps id" by (simp add: keeps_def)
  then obtain a' where a': "app_webrtc_teardown P id a = Some a'" "app_sessions a' = Map.empty"
    using teardown_ok[OF _ assms(2) _ assms(3), of id] assms(1) by (auto simp: usable_def)
  have "p \<noteq> 0" using key_handle[OF assms(3,4)] by blast
  then show ?thesis using assms(4) a'
    by (simp add: app_webrtc_trigger_offer_def lookup_session_table announce_offer_def)
qed

section \<open>Peers that are taken for each other\<close>

text \<open>A session is kept under the checksum of its peer's name, so two peers may share one.\<close>

lemma peers_that_share_a_session: "COMPUTE_PEER_HASH ''plumless'' = COMPUTE_PEER_HASH ''buckeroo''"
  by (simp add: COMPUTE_PEER_HASH_def crc32_collision)

text \<open>The context of a bridge is always taken for a session, and a session with a name of 256 characters for a context.\<close>

lemma context_taken_for_session: "peerConnectionStateChangedWrapper Context_data st a = None"
  by (cases "audioCodec (app_settings a)")
     (simp_all add: peerConnectionStateChangedWrapper_def text_at_peerId_def looks_like_session_def)

lemma long_peer_taken_for_context:
  assumes "app_sessions a p = Some s" "length (peerId s) = 256"
  shows "peerConnectionStateChangedWrapper (Session_data p) st a = None"
  using assms by (simp add: peerConnectionStateChangedWrapper_def text_at_peerId_def looks_like_session_def)

section \<open>Calls before there is a context\<close>

lemma callbacks_without_context: "app_webrtc_set_data_channel_callbacks P (Some peer) cb d (e, None) = None"
  by (simp add: app_webrtc_set_data_channel_callbacks_def)

end
