(* ===== verification/Spec2Isabelle.thy ===== *)
theory Spec2Isabelle
  imports Pending_Props Send_Race Bridge_Cmd_Trip Rate_Dwell Kvs_Ice_Props Session_Watchdog
    State_Machine Stack_Queue_Refine Crc32 Hash_Table_Map Base64 Hex Raw_Bus_Props App_Claims
begin

text \<open>
  A verification development of the ESP port of the Amazon Kinesis Video Streams WebRTC SDK.
  Paths of source files are relative to \<open>src/\<close>.

  \<^bold>\<open>The program.\<close> A camera offers WebRTC sessions to viewers. The application layer
  (\<open>components/app_webrtc\<close>) keeps one session object per peer; it takes offers, answers and
  candidates from a signaling client, hands them to a peer connection client, and runs a cleanup
  loop that reaps ended sessions and reconnects the signaling client. The signaling client is the
  KVS one (\<open>components/signaling/kvs_signaling\<close>), which buffers what it cannot send
  (\<open>port/kvs_pending_ice.c\<close>) and flushes it from a work queue, or the AppRTC one, which
  queues what it cannot send in a message queue and sends it in order
  (\<open>apprtc_send_order.c\<close>). Where the network is on a second chip the two halves exchange
  frames through a chunked transport (\<open>components/webrtc_bridge\<close>). Beside the sessions, the
  rate control (\<open>components/media_stream/src/video_rate_ctrl.c\<close>) slows the encoder down for
  congested viewers, and a watchdog (\<open>components/kvs_webrtc/src/kvs_liveness.c\<close>) ends sessions
  that fell silent. \<open>components/kvs_utils\<close> and \<open>components/esp_webrtc_utils\<close> hold the
  containers and codecs all of them use.

  \<^bold>\<open>Theories and code.\<close>
  \<^item> \<open>Kvs_Prelude\<close>: machine types, status codes, bounded C strings (\<open>STRNCPY\<close>,
    \<open>STRNCMP\<close>), the allocation oracle, and the lemmas and collections all components share.
    \<open>Bytes_Le\<close>: little-endian fields. \<open>Fifo\<close>: the interface of a queue with put-back.
    \<open>Refinement\<close>: the interface of a container that refines an abstract one.
  \<^item> \<open>Pending_Ice\<close>, \<open>Pending_Signaling\<close>, \<open>Pending_Batch\<close> model
    \<open>kvs_pending_ice.c\<close> (slot arrays, in-place compaction loops, put, purge, take, drain, merge,
    free). \<open>Pending_Inv\<close>, \<open>Pending_Api\<close>, \<open>Pending_Drain\<close>, \<open>Pending_Merge\<close>
    show what each operation does to the lists that wait and to the ledger of blocks;
    \<open>Pending_Owner\<close> interleaves the operations the way the signaling client does;
    \<open>Pending_Props\<close> holds the properties.
  \<^item> \<open>Kvs_Client\<close>, \<open>Kvs_Send\<close>, \<open>Kvs_Life\<close>, \<open>Kvs_Ice\<close> model
    \<open>kvs_signaling.c\<close>: state and registration, the send path, creation, connection and
    callbacks, ICE servers (with the age checks of \<open>port/Signaling_esp.c\<close>). \<open>Kvs_Drain\<close>,
    \<open>Kvs_Rely\<close>, \<open>Kvs_Flush\<close>, \<open>Kvs_Worker\<close>, \<open>Kvs_Deliver\<close>
    prove the flush correct under interference; \<open>Kvs_Props\<close> and
    \<open>Kvs_Ice_Props\<close> hold the properties.
  \<^item> \<open>Message_Queue\<close>, \<open>Message_Queue_Props\<close> model \<open>message_queue.c\<close>;
    \<open>Send_Order\<close>, \<open>Send_Race\<close> model \<open>apprtc_send_order.c\<close> on top of it, alone and
    as an interleaving of one sender and one drain.
  \<^item> \<open>Message_Utils\<close> models \<open>message_utils.c\<close>; \<open>Chunked_Transport\<close>,
    \<open>Chunked_Props\<close> model \<open>hosted_chunked_transport.c\<close>.
  \<^item> \<open>Rate_Ctrl\<close>, \<open>Rate_Api\<close> model \<open>video_rate_ctrl.c\<close>; \<open>Rate_Ladder\<close>,
    \<open>Rate_Inv\<close>, \<open>Rate_Calls\<close>, \<open>Rate_Props\<close>, \<open>Rate_Pace\<close>,
    \<open>Rate_Recovery\<close>, \<open>Rate_Dwell\<close> prove it.
  \<^item> \<open>Session_Watchdog\<close>: \<open>kvs_liveness.c\<close> and the
    watchdog tick and connection state handler of \<open>kvs_webrtc.c\<close>.
  \<^item> \<open>State_Machine\<close>: \<open>components/state_machine\<close>.
  \<^item> \<open>Single_List\<close>, \<open>Single_List_Rep\<close>, \<open>Stack_Queue\<close>, \<open>Stack_Queue_Refine\<close>,
    \<open>Hash_Table\<close>, \<open>Hash_Table_Map\<close>, \<open>Crc32\<close>: the containers and the checksum of
    \<open>kvs_utils\<close>, as linked nodes on a store, as buckets, as words.
  \<^item> \<open>Base64\<close>, \<open>Hex\<close>: the codecs \<open>base64.c\<close> and \<open>hex.c\<close> of \<open>kvs_utils\<close>, byte by byte.
  \<^item> \<open>Raw_Bus\<close>, \<open>Raw_Bus_Inv\<close>, \<open>Raw_Bus_Props\<close>: the camera's frame bus
    \<open>components/media_stream/src/video_raw_bus.c\<close>, as critical sections interleaved in any order.
  \<^item> \<open>Bridge_Cmd\<close> and the theories \<open>Bridge_Cmd_*\<close>: \<open>components/webrtc_bridge/src/bridge_cmd.c\<close>,
    requests, responses and events between the two chips, cut into chunks and reassembled.
  \<^item> \<open>App_State\<close>, \<open>App_Ice\<close>, \<open>App_Message\<close>, \<open>App_Peer\<close>, \<open>App_Cleanup\<close>,
    \<open>App_Api\<close> model \<open>app_webrtc.c\<close> over the hash table and the checksum above;
    \<open>App_Env\<close> to \<open>App_Life\<close> prove that each operation keeps the invariant and touches no
    freed object; \<open>App_Run\<close> composes them into runs; \<open>App_Props\<close>
    and \<open>App_Claims\<close> hold the properties, a running
    example, and what modelling showed.

  \<^bold>\<open>How the code is translated.\<close> A struct is a record with the fields of the struct; a struct
  that other code points to is an object of a store (a partial function from addresses), and an
  access to a freed object is the value \<open>None\<close>. A function of the code is a function of the
  same name, from the state (and the parameters below) to the status, the new state and what it
  sent or called, with one branch for every \<open>CHK\<close> and early return. Words have the width of the
  code, or the wrap-around is written out. A C string is the list of its characters before the NUL;
  fixed arrays of characters are cut the way \<open>STRNCPY\<close> cuts them. What a function does under a
  lock is one atomic step; where several tasks matter the model interleaves such steps, by a step
  relation (\<open>Send_Race\<close>), by arbitrary sequences of operations (\<open>Pending_Owner\<close>,
  \<open>App_Run\<close>), or by an arbitrary action of other tasks at every point where the code takes or
  gives the lock, constrained only by what those tasks guarantee (\<open>Kvs_Rely\<close>, \<open>App_Env\<close>).

  \<^bold>\<open>Parameters.\<close> Code that is not in the repository is an argument of the definitions that use it:
  the calls of the SDK, of FreeRTOS and pthread, of \<open>esp_hosted\<close>, the clock, the mutexes, callbacks
  set by the user. Allocation is an oracle that grants or refuses each request; a ledger
  \<open>live\<close> counts the blocks that are owned. Kconfig values are the defaults of the repository.
  \<open>size_t\<close> has 32 bits. Pointers to a struct the caller owns are taken not to be NULL except
  where the notes of a theory say that the NULL check is modelled.

  \<^bold>\<open>Interfaces.\<close> \<open>compaction_loop\<close> (\<open>Kvs_Prelude\<close>) is the contract of the loops
  that keep or drop entries of an array in place; \<open>kvs_pending_ice.c\<close> has three, each an
  interpretation (\<open>ice_loop\<close>, \<open>ice_purge\<close>, \<open>answer_loop\<close>). \<open>fifo\<close>
  (\<open>Fifo\<close>) is what the send order relies on; the message queue is its interpretation
  \<open>mq\<close>. \<open>refines\<close> and \<open>allowed\<close> (\<open>Refinement\<close>) lift a simulation of single
  calls to sequences of calls; the stack queue (\<open>sq\<close>) and the hash table (\<open>ht\<close>) are
  interpretations.

  \<^bold>\<open>What is shown.\<close> For the signaling buffer: no leak under any interleaving and any failing
  allocation, answers before candidates, the outcome of every send of a drain decides what waits
  afterwards, nothing comes back of the peers (at most eight) purged while a batch was out. For
  the signaling client: no candidate overtakes the answer of a peer with an id below 256 characters, everything is delivered, flush tasks come
  to rest, truthful statuses, termination of the ICE query. For the AppRTC order: wire order is
  submission order while no message is put back, with the run that breaks it otherwise. For the
  queue and the transport: exactly-once accounting, the round trip of chunked messages, memory safety of
  the receiver with the bound beyond which it fails. For the rate control: limits of the encoder,
  worst-viewer arbitration, pace, recovery and release. For the watchdog and the state machine: which
  silence evicts, which transitions and how many retries are possible. For the containers: refinement
  of lists and maps. For the application: agreement of list, table and memory, no use of freed
  objects, candidates follow their offer, no session survives the teardown, departures match
  arrivals, spacing of reconnections. These hold of the runs of \<open>App_Run\<close>: the operations that
  \<open>allowed\<close> describes, in any order, up to the first failed allocation for a waiting candidate or for
  our own offer (\<open>out_of_memory\<close>); \<open>E\<close> is what other tasks do wherever the lock is free (anything that
  keeps the agreement, as the operations themselves do, lemma \<open>operation_keeps\<close>) and \<open>Q\<close> what they do in
  the window of our own offer (nothing to the sessions: \<open>offer_uses_a_freed_session\<close>).
  A property that has hypotheses is followed by a \<open>_witness\<close> theorem that applies it.
  For the codecs: round trips. For the frame bus: every queued frame names the buffer it was made for,
  every buffer goes back once, loans are bounded and all of them are back when the bus is idle. For the
  bridge commands: the payload arrives once and whole, and nothing leaks under any failures.

  \<^bold>\<open>Bounds and fuel.\<close> Loops of the code are recursion on the array or the list, except these.
  The work queue of the signaling client runs with fuel (tasks waiting plus twice the number of
  actions other tasks may still take, \<open>Kvs_Worker\<close>): the property states that this much ends
  it. One flush has the four rounds of the code. The query of ICE servers has fuel of two more than the
  number of URIs. The application's waits have the code's own bounds: 200 looks at the session count
  when all sessions are closed, 1500 looks at a reconnection in progress at the teardown. The
  refinements hold for fewer than \<open>2 ^ 32\<close> calls of the stack queue and \<open>2 ^ 26\<close> of the hash
  table, below which no counter wraps, on a table whose size fits 32 bits (\<open>creates_iff_fits\<close>); the application for fewer than \<open>2 ^ 26\<close> sessions.
  The round trip of base64 is that of less than a gigabyte, above which the length of the text wraps
  (\<open>encoded_length_wraps\<close>), and that of the bridge commands likewise.

  \<^bold>\<open>What modelling showed.\<close> Most theorems hold of the code as it is. Where the code does not do what
  it means to, a lemma exhibits it: identifiers of 256 characters are compared past their slot
  (\<open>purge_long_id_keeps_candidates\<close>, \<open>long_id_not_held\<close>); a retry lets a sender overtake
  (\<open>retry_lets_sender_overtake\<close>); a chunk length of \<open>2 ^ 31\<close> makes the receiver copy out of
  bounds (\<open>huge_chunk_len_overruns\<close>); an encoder thawed late is not released
  (\<open>thawed_encoder_not_released\<close>); the size of a large hash table wraps
  (\<open>wrapped_table_overruns\<close>); our own offer uses a session that another task freed
  (\<open>offer_uses_a_freed_session\<close>); a reconnection that succeeds between two passes counts as a
  failure (\<open>late_success_counts_as_failure\<close>); the theories \<open>Kvs_Ice_Props\<close>,
  \<open>Session_Watchdog\<close>, \<open>State_Machine\<close> and \<open>App_Claims\<close> hold others.
  The codec, the frame bus and the bridge commands have theirs too (\<open>bad_characters_decode\<close>,
  \<open>second_release_counts\<close>, \<open>lost_chunk_goes_unnoticed\<close> and the lemmas beside them).

  \<^bold>\<open>Not modelled.\<close> The calls into the KVS SDK (offer and answer, ICE agent, data channels, media
  threads of \<open>kvs_webrtc.c\<close> and \<open>kvs_media.c\<close>; the HTTP and websocket ports
  \<open>LwsApiCalls_esp.c\<close> and \<open>Signaling_esp.c\<close>; the credential providers) work on structures of
  headers that are not in the repository. Drivers, codecs, displays, sockets and TLS, flash, Wi-Fi
  and the examples are calls of ESP-IDF. The signaling serializer packs through protobuf-c and cJSON. Creation
  and ending of FreeRTOS tasks (\<open>app_webrtc_init\<close>, \<open>app_webrtc_run\<close>, the run task and
  \<open>app_webrtc_terminate\<close>) are left out of the application model.
  Log lines are left out everywhere.
\<close>

end
